(* ===== verification/Prelude.thy ===== *)
theory Prelude
  imports Main "HOL-Library.Word"
begin

unbundle bit_operations_syntax

section \<open>Prelude: machine integers, bytes and C strings\<close>

text \<open>
  The vocabulary every component of the development shares: the widths of the C++ integer
  types, byte buffers as lists of 8-bit words, the little-endian scalar layout, the C string
  functions the sources call, and the generic lemmas on them. Facts that say how long a
  produced buffer is are collected in \<open>len_simps\<close>; facts that say what a decoder returns on
  an encoder's output are collected in \<open>roundtrip\<close>.
\<close>

named_theorems len_simps \<open>lengths of the byte buffers the operations build\<close>
named_theorems roundtrip \<open>a decoder applied to what its encoder wrote\<close>

type_synonym byte = "8 word"
type_synonym u16 = "16 word"
type_synonym u32 = "32 word"
type_synonym u64 = "64 word"
type_synonym bytes = "8 word list"

subsection \<open>Literals\<close>

text \<open>A C string literal as the bytes it stores, without its terminating NUL.\<close>

definition bytes_of :: "string \<Rightarrow> bytes" where
  "bytes_of s = map of_char s"

lemma length_bytes_of [simp]: "length (bytes_of s) = length s"
  by (simp add: bytes_of_def)

lemma bytes_of_Nil [simp]: "bytes_of [] = []"
  by (simp add: bytes_of_def)

lemma bytes_of_Cons [simp]: "bytes_of (c # s) = of_char c # bytes_of s"
  by (simp add: bytes_of_def)

subsection \<open>Reading up to a terminator\<close>

text \<open>
  \<open>strnlen\<close> and the copy it bounds: the bytes of a fixed-width field up to its first NUL,
  or the whole field when it has none.
\<close>

definition cstr_field :: "bytes \<Rightarrow> bytes" where
  "cstr_field bs = takeWhile (\<lambda>b. b \<noteq> 0) bs"

lemma cstr_field_no_nul [simp]: "0 \<notin> set (cstr_field bs)"
  by (auto simp: cstr_field_def dest: set_takeWhileD)

lemma cstr_field_le: "length (cstr_field bs) \<le> length bs"
  by (simp add: cstr_field_def length_takeWhile_le)

lemma cstr_field_append_nul:
  "0 \<notin> set bs \<Longrightarrow> cstr_field (bs @ 0 # xs) = bs"
  by (induction bs) (auto simp: cstr_field_def)

lemma cstr_field_padded [simp]:
  "0 \<notin> set bs \<Longrightarrow> cstr_field (bs @ replicate n 0) = bs"
  by (induction bs) (auto simp: cstr_field_def)

subsection \<open>Slices of a buffer\<close>

definition slice :: "nat \<Rightarrow> nat \<Rightarrow> 'a list \<Rightarrow> 'a list" where
  "slice ofs n xs = take n (drop ofs xs)"

lemma length_slice [len_simps]: "length (slice ofs n xs) = min n (length xs - ofs)"
  by (simp add: slice_def)

lemma slice_append_left:
  "ofs + n \<le> length xs \<Longrightarrow> slice ofs n (xs @ ys) = slice ofs n xs"
  by (simp add: slice_def)

lemma slice_append_right:
  "length xs \<le> ofs \<Longrightarrow> slice ofs n (xs @ ys) = slice (ofs - length xs) n ys"
  by (simp add: slice_def)

lemma slice_all [simp]: "length xs = n \<Longrightarrow> slice 0 n xs = xs"
  by (simp add: slice_def)

lemma slice_zero_append: "length xs = n \<Longrightarrow> slice 0 n (xs @ ys) = xs"
  by (simp add: slice_def)

text \<open>Overwriting a run of a buffer in place, as \<open>memcpy(dst + ofs, src, n)\<close> does.\<close>

definition overwrite :: "'a list \<Rightarrow> nat \<Rightarrow> 'a list \<Rightarrow> 'a list" where
  "overwrite xs ofs src = take ofs xs @ src @ drop (ofs + length src) xs"

lemma length_overwrite [len_simps]:
  "ofs + length src \<le> length xs \<Longrightarrow> length (overwrite xs ofs src) = length xs"
  by (simp add: overwrite_def)

lemma slice_overwrite:
  "ofs + length src \<le> length xs \<Longrightarrow> slice ofs (length src) (overwrite xs ofs src) = src"
  by (simp add: overwrite_def slice_def)

lemma overwrite_Nil [simp]: "overwrite xs ofs [] = xs"
  by (simp add: overwrite_def)

subsection \<open>Splitting at a separator\<close>

text \<open>The components of a path or of a list, as the segments between separators.\<close>

fun split_on :: "'a \<Rightarrow> 'a list \<Rightarrow> 'a list list" where
  "split_on c [] = [[]]"
| "split_on c (x # xs) =
     (if x = c then [] # split_on c xs
      else (case split_on c xs of [] \<Rightarrow> [[x]] | y # ys \<Rightarrow> (x # y) # ys))"

lemma split_on_not_Nil [simp]: "split_on c xs \<noteq> []"
  by (cases xs) (auto split: list.splits)

lemma split_on_no_sep [simp]: "c \<notin> set xs \<Longrightarrow> split_on c xs = [xs]"
  by (induction xs) auto

lemma split_on_append_sep:
  "c \<notin> set xs \<Longrightarrow> split_on c (xs @ c # ys) = xs # split_on c ys"
  by (induction xs) auto

lemma split_on_segment_no_sep: "seg \<in> set (split_on c xs) \<Longrightarrow> c \<notin> set seg"
  by (induction xs arbitrary: seg) (auto split: if_splits list.splits)

lemma split_on_join: "concat (map (\<lambda>seg. seg @ [c]) (split_on c xs)) = xs @ [c]"
proof (induction xs)
  case (Cons x xs)
  then show ?case by (cases "split_on c xs") auto
qed simp

subsection \<open>Little-endian scalars\<close>

definition le16 :: "u16 \<Rightarrow> bytes" where
  "le16 v = [ucast v, ucast (drop_bit 8 v)]"

definition le32 :: "u32 \<Rightarrow> bytes" where
  "le32 v = [ucast v, ucast (drop_bit 8 v), ucast (drop_bit 16 v), ucast (drop_bit 24 v)]"

definition of_le16 :: "bytes \<Rightarrow> u16" where
  "of_le16 bs = ucast (bs ! 0) OR push_bit 8 (ucast (bs ! 1))"

definition of_le32 :: "bytes \<Rightarrow> u32" where
  "of_le32 bs = ucast (bs ! 0) OR push_bit 8 (ucast (bs ! 1))
     OR push_bit 16 (ucast (bs ! 2)) OR push_bit 24 (ucast (bs ! 3))"

lemma length_le16 [simp]: "length (le16 v) = 2"
  by (simp add: le16_def)

lemma length_le32 [simp]: "length (le32 v) = 4"
  by (simp add: le32_def)

lemma of_le16_le16_append [simp]: "of_le16 (le16 v @ xs) = v"
  unfolding of_le16_def le16_def
  by (intro bit_word_eqI) (auto simp: bit_simps)

lemma of_le32_le32_append [simp]: "of_le32 (le32 v @ xs) = v"
proof (rule bit_word_eqI)
  fix n :: nat assume "n < LENGTH(32)"
  then consider "n < 8" | "8 \<le> n" "n < 16" | "16 \<le> n" "n < 24" | "24 \<le> n" "n < 32"
    by fastforce
  then show "bit (of_le32 (le32 v @ xs)) n = bit v n"
    by cases (auto simp: of_le32_def le32_def bit_simps)
qed

lemma of_le16_le16 [simp]: "of_le16 (le16 v) = v"
  using of_le16_le16_append [of v "[]"] by simp

lemma of_le32_le32 [simp]: "of_le32 (le32 v) = v"
  using of_le32_le32_append [of v "[]"] by simp

end
