(* ===== verification/Targz_Header.thy ===== *)
theory Targz_Header
  imports Prelude
begin

unbundle bit_operations_syntax

section \<open>The ustar header block (targz.cpp)\<close>

text \<open>
  The 512-byte ustar header as the writer fills it and the reader reads it: the numeric
  fields in octal, the checksum, the name/prefix split and the path check that guards every
  name before a callback sees it. A C string is the list of its bytes without the NUL, so a
  name never contains the byte 0.
\<close>

definition TAR_BLOCK :: nat where "TAR_BLOCK = 512"

abbreviation slash :: byte where "slash \<equiv> 47"
abbreviation dot :: byte where "dot \<equiv> 46"
abbreviation space :: byte where "space \<equiv> 32"

subsection \<open>The header as a record and as a block\<close>

record ustar =
  h_name :: bytes
  h_mode :: bytes
  h_uid :: bytes
  h_gid :: bytes
  h_size :: bytes
  h_mtime :: bytes
  h_chksum :: bytes
  h_typeflag :: byte
  h_linkname :: bytes
  h_magic :: bytes
  h_version :: bytes
  h_uname :: bytes
  h_gname :: bytes
  h_devmajor :: bytes
  h_devminor :: bytes
  h_prefix :: bytes
  h_pad :: bytes

text \<open>The declared array widths; together they are one block.\<close>

definition ustar_wf :: "ustar \<Rightarrow> bool" where
  "ustar_wf h \<longleftrightarrow>
     length (h_name h) = 100 \<and> length (h_mode h) = 8 \<and> length (h_uid h) = 8 \<and>
     length (h_gid h) = 8 \<and> length (h_size h) = 12 \<and> length (h_mtime h) = 12 \<and>
     length (h_chksum h) = 8 \<and> length (h_linkname h) = 100 \<and> length (h_magic h) = 6 \<and>
     length (h_version h) = 2 \<and> length (h_uname h) = 32 \<and> length (h_gname h) = 32 \<and>
     length (h_devmajor h) = 8 \<and> length (h_devminor h) = 8 \<and> length (h_prefix h) = 155 \<and>
     length (h_pad h) = 12"

text \<open>\<open>(const uint8_t*)&h\<close>: the fields in declaration order, without padding.\<close>

definition ustar_bytes :: "ustar \<Rightarrow> bytes" where
  "ustar_bytes h = h_name h @ h_mode h @ h_uid h @ h_gid h @ h_size h @ h_mtime h @ h_chksum h
     @ [h_typeflag h] @ h_linkname h @ h_magic h @ h_version h @ h_uname h @ h_gname h
     @ h_devmajor h @ h_devminor h @ h_prefix h @ h_pad h"

text \<open>\<open>*(const ustar_t*)p\<close>: the same layout read back.\<close>

definition ustar_of :: "bytes \<Rightarrow> ustar" where
  "ustar_of p =
     \<lparr>h_name = slice 0 100 p, h_mode = slice 100 8 p, h_uid = slice 108 8 p,
      h_gid = slice 116 8 p, h_size = slice 124 12 p, h_mtime = slice 136 12 p,
      h_chksum = slice 148 8 p, h_typeflag = p ! 156, h_linkname = slice 157 100 p,
      h_magic = slice 257 6 p, h_version = slice 263 2 p, h_uname = slice 265 32 p,
      h_gname = slice 297 32 p, h_devmajor = slice 329 8 p, h_devminor = slice 337 8 p,
      h_prefix = slice 345 155 p, h_pad = slice 500 12 p\<rparr>"

definition zero_ustar :: ustar where
  "zero_ustar =
     \<lparr>h_name = replicate 100 0, h_mode = replicate 8 0, h_uid = replicate 8 0,
      h_gid = replicate 8 0, h_size = replicate 12 0, h_mtime = replicate 12 0,
      h_chksum = replicate 8 0, h_typeflag = 0, h_linkname = replicate 100 0,
      h_magic = replicate 6 0, h_version = replicate 2 0, h_uname = replicate 32 0,
      h_gname = replicate 32 0, h_devmajor = replicate 8 0, h_devminor = replicate 8 0,
      h_prefix = replicate 155 0, h_pad = replicate 12 0\<rparr>"

subsection \<open>Numeric fields\<close>

fun octalDigits :: "nat \<Rightarrow> u64 \<Rightarrow> bytes" where
  "octalDigits 0 v = []"
| "octalDigits (Suc n) v = octalDigits n (drop_bit 3 v) @ [48 + ucast (v AND 7)]"

definition octalField :: "nat \<Rightarrow> u64 \<Rightarrow> bytes" where
  "octalField width v = octalDigits (width - 1) v @ [0]"

fun octalLoop :: "u64 \<Rightarrow> bytes \<Rightarrow> u64" where
  "octalLoop v [] = v"
| "octalLoop v (c # cs) =
     (if c = 0 \<or> c = space then v
      else if c < 48 \<or> c > 55 then 0
      else octalLoop (push_bit 3 v OR ucast (c - 48)) cs)"

definition octalValue :: "bytes \<Rightarrow> u64" where
  "octalValue src = octalLoop 0 src"

subsection \<open>Checksum\<close>

fun checksumLoop :: "nat \<Rightarrow> u32 \<Rightarrow> bytes \<Rightarrow> u32" where
  "checksumLoop i acc [] = acc"
| "checksumLoop i acc (b # bs) =
     checksumLoop (Suc i) (acc + (if 148 \<le> i \<and> i < 156 then ucast space else ucast b)) bs"

definition headerChecksum :: "ustar \<Rightarrow> u32" where
  "headerChecksum h = checksumLoop 0 0 (ustar_bytes h)"

definition fillHeader :: "byte \<Rightarrow> u32 \<Rightarrow> u32 \<Rightarrow> ustar" where
  "fillHeader typeflag sz mtime =
     zero_ustar\<lparr>
       h_mode := bytes_of (if typeflag = of_char CHR ''5'' then ''0000755'' else ''0000644'') @ [0],
       h_uid := bytes_of ''0000000'' @ [0],
       h_gid := bytes_of ''0000000'' @ [0],
       h_size := octalField 12 (ucast sz),
       h_mtime := octalField 12 (ucast mtime),
       h_typeflag := typeflag,
       h_magic := bytes_of ''ustar'' @ [0],
       h_version := bytes_of ''00'',
       h_uname := bytes_of ''root'' @ [0] @ replicate 27 0,
       h_gname := bytes_of ''root'' @ [0] @ replicate 27 0\<rparr>"

definition sealHeader :: "ustar \<Rightarrow> ustar" where
  "sealHeader h = h\<lparr>h_chksum := octalField 7 (ucast (headerChecksum h)) @ [space]\<rparr>"

subsection \<open>Names\<close>

text \<open>The loop of \<open>setEntryName\<close> that looks for the latest usable split, from the end.\<close>

fun nameSplit :: "bytes \<Rightarrow> nat \<Rightarrow> nat option" where
  "nameSplit name 0 = None"
| "nameSplit name (Suc i) =
     (if name ! i \<noteq> slash then nameSplit name i
      else let tail = length name - i - 1
           in if tail = 0 \<or> tail > 100 \<or> i > 155 then nameSplit name i else Some i)"

definition setEntryName :: "ustar \<Rightarrow> bytes \<Rightarrow> ustar option" where
  "setEntryName h name =
     (let len = length name
      in if len = 0 then None
         else if len \<le> 100 then Some (h\<lparr>h_name := overwrite (h_name h) 0 name\<rparr>)
         else if len > 155 + 1 + 100 then None
         else case nameSplit name len of
                None \<Rightarrow> None
              | Some i \<Rightarrow>
                  Some (h\<lparr>h_prefix := overwrite (h_prefix h) 0 (take i name),
                          h_name := overwrite (h_name h) 0 (drop (i + 1) name)\<rparr>))"

text \<open>
  The reader's side of the pair: \<open>prefix\<close>, a slash and \<open>name\<close>, or \<open>name\<close> alone when the
  prefix is empty, in a buffer of 264 bytes; \<open>None\<close> is \<open>TARGZ_ERR_UNSAFE\<close>.
\<close>

definition entryName :: "ustar \<Rightarrow> bytes option" where
  "entryName h =
     (let p = cstr_field (h_prefix h); n = cstr_field (h_name h)
      in if length p \<noteq> 0
         then (if length p + 1 + length n \<ge> 264 then None else Some (p @ [slash] @ n))
         else (if length n \<ge> 264 then None else Some n))"

function safeLoop :: "bytes \<Rightarrow> nat \<Rightarrow> nat \<Rightarrow> bool" where
  "safeLoop name start i =
     (if i > length name then True
      else if i \<noteq> length name \<and> name ! i \<noteq> slash then safeLoop name start (Suc i)
      else let seg = i - start
           in if seg = 0 \<and> i \<noteq> length name then False
              else if seg = 2 \<and> name ! start = dot \<and> name ! (start + 1) = dot then False
              else safeLoop name (Suc i) (Suc i))"
  by pat_completeness auto
termination by (relation "measure (\<lambda>(name, start, i). Suc (length name) - i)") auto

declare safeLoop.simps [simp del]

definition safeEntryName :: "bytes \<Rightarrow> bool" where
  "safeEntryName name =
     (if name = [] then False
      else if name ! 0 = slash then False
      else if length name \<ge> 256 then False
      else safeLoop name 0 0)"

subsection \<open>Layout lemmas\<close>

lemma length_octalDigits [simp]: "length (octalDigits n v) = n"
  by (induction n arbitrary: v) auto

lemma length_octalField [simp]: "0 < width \<Longrightarrow> length (octalField width v) = width"
  by (simp add: octalField_def)

lemma length_ustar_bytes [len_simps]: "ustar_wf h \<Longrightarrow> length (ustar_bytes h) = TAR_BLOCK"
  by (simp add: ustar_wf_def ustar_bytes_def TAR_BLOCK_def)

lemma ustar_of_ustar_bytes [roundtrip]: "ustar_wf h \<Longrightarrow> ustar_of (ustar_bytes h) = h"
  by (cases h)
    (simp add: ustar_wf_def ustar_bytes_def ustar_of_def slice_def nth_append)

lemma ustar_wf_ustar_of: "length p = TAR_BLOCK \<Longrightarrow> ustar_wf (ustar_of p)"
  by (simp add: ustar_wf_def ustar_of_def slice_def TAR_BLOCK_def)

lemma ustar_wf_fillHeader [simp]: "ustar_wf (fillHeader t s m)"
  by (simp add: ustar_wf_def fillHeader_def zero_ustar_def)

lemma ustar_wf_sealHeader [simp]: "ustar_wf h \<Longrightarrow> ustar_wf (sealHeader h)"
  by (simp add: ustar_wf_def sealHeader_def)

subsection \<open>Octal round trip\<close>

lemma and_7_take_bit: "(v :: u64) AND 7 = take_bit 3 v"
  by (simp add: take_bit_eq_mask mask_eq_exp_minus_1)

lemma unat_octal_digit: "unat (48 + ucast (v AND 7 :: u64) :: byte) = 48 + unat (v AND 7)"
  and octal_digit_bound: "unat (v AND 7 :: u64) < 8"
proof -
  show b: "unat (v AND 7) < 8"
    by (simp add: and_7_take_bit unsigned_take_bit_eq take_bit_nat_def)
  then have "unat (ucast (v AND 7) :: byte) = unat (v AND 7)"
    by (simp add: unsigned_ucast_eq take_bit_nat_def)
  with b show "unat (48 + ucast (v AND 7) :: byte) = 48 + unat (v AND 7)"
    by (simp add: unat_word_ariths)
qed

lemma ucast_digit: "(ucast (ucast (v AND 7 :: u64) :: byte) :: u64) = v AND 7"
  by (rule bit_word_eqI) (auto simp: and_7_take_bit bit_simps)

lemma octalLoop_digit:
  "octalLoop acc ((48 + ucast (v AND 7)) # cs) = octalLoop (push_bit 3 acc OR (v AND 7)) cs"
proof -
  let ?d = "48 + ucast (v AND 7) :: byte"
  have u: "unat ?d = 48 + unat (v AND 7)" "unat (v AND 7) < 8"
    by (rule unat_octal_digit, rule octal_digit_bound)
  have "?d \<noteq> 0" "?d \<noteq> 32" "\<not> ?d < 48" "\<not> ?d > 55"
    using u by (simp_all only: word_unat_eq_iff word_less_nat_alt) auto
  then show ?thesis
    by (simp only: octalLoop.simps(2) [where c = ?d] if_False de_Morgan_disj)
      (simp add: ucast_digit)
qed

lemma octal_step_bits:
  "push_bit 3 (push_bit (3 * n) acc OR take_bit (3 * n) (drop_bit 3 v)) OR (v AND 7)
     = push_bit (3 * Suc n) acc OR take_bit (3 * Suc n) (v :: u64)"
proof (rule bit_word_eqI)
  fix k :: nat assume "k < LENGTH(64)"
  then show "bit (push_bit 3 (push_bit (3 * n) acc OR take_bit (3 * n) (drop_bit 3 v)) OR (v AND 7)) k
      = bit (push_bit (3 * Suc n) acc OR take_bit (3 * Suc n) v) k"
    by (cases "k < 3") (auto simp: and_7_take_bit bit_simps ac_simps)
qed

lemma octalLoop_digits:
  "octalLoop acc (octalDigits n v @ cs)
     = octalLoop (push_bit (3 * n) acc OR take_bit (3 * n) v) cs"
proof (induction n arbitrary: v cs)
  case 0
  then show ?case by simp
next
  case (Suc n)
  show ?case
    by (simp only: octalDigits.simps append_assoc append_Cons append_Nil Suc octalLoop_digit
        octal_step_bits)
qed

lemma octalValue_octalField_append:
  assumes "unat v < 8 ^ (width - 1)"
  shows "octalValue (octalField width v @ xs) = v"
proof -
  have "unat (take_bit (3 * (width - 1)) v) = unat v"
    using assms by (simp add: unsigned_take_bit_eq take_bit_nat_def power_mult)
  then have "take_bit (3 * (width - 1)) v = v" by (simp only: word_unat_eq_iff)
  then show ?thesis by (simp add: octalValue_def octalField_def octalLoop_digits)
qed

subsection \<open>Checksum of a sealed header\<close>

lemma checksumLoop_append:
  "checksumLoop i acc (xs @ ys) = checksumLoop (i + length xs) (checksumLoop i acc xs) ys"
  by (induction xs arbitrary: i acc) auto

lemma checksumLoop_bound:
  "unat acc + 255 * length bs < 2 ^ 32 \<Longrightarrow> unat (checksumLoop i acc bs) \<le> unat acc + 255 * length bs"
proof (induction bs arbitrary: i acc)
  case (Cons b bs)
  let ?x = "if 148 \<le> i \<and> i < 156 then ucast space else ucast b :: u32"
  have "unat (ucast b :: u32) = unat b"
    by (simp add: unsigned_ucast_eq take_bit_nat_eq_self_iff unsigned_less [THEN less_trans])
  moreover have "unat b < 2 ^ 8" using unsigned_less [of b] by simp
  ultimately have x: "unat ?x \<le> 255" by (auto simp: unsigned_ucast_eq)
  have "unat (acc + ?x) \<le> unat acc + 255"
    using x by (simp add: unat_word_ariths le_trans [OF mod_less_eq_dividend])
  then have "unat (acc + ?x) + 255 * length bs < 2 ^ 32" using Cons.prems by simp
  from Cons.IH [OF this, of "Suc i"] show ?case
    using \<open>unat (acc + ?x) \<le> unat acc + 255\<close> by simp
qed simp

lemma checksumLoop_field:
  assumes "length c = 8" "length c' = 8"
  shows "checksumLoop 148 acc c = checksumLoop 148 acc c'"
  using assms by (simp add: numeral_eq_Suc length_Suc_conv) (auto)

lemma headerChecksum_ignores_chksum:
  assumes "ustar_wf h" "length c = 8"
  shows "headerChecksum (h\<lparr>h_chksum := c\<rparr>) = headerChecksum h"
proof -
  define pre where "pre = h_name h @ h_mode h @ h_uid h @ h_gid h @ h_size h @ h_mtime h"
  define post where "post = [h_typeflag h] @ h_linkname h @ h_magic h @ h_version h @ h_uname h
     @ h_gname h @ h_devmajor h @ h_devminor h @ h_prefix h @ h_pad h"
  have len: "length pre = 148" "length (h_chksum h) = 8"
    using assms(1) by (simp_all add: pre_def ustar_wf_def)
  have "ustar_bytes (h\<lparr>h_chksum := c\<rparr>) = pre @ c @ post"
       "ustar_bytes h = pre @ h_chksum h @ post"
    by (simp_all add: ustar_bytes_def pre_def post_def)
  then show ?thesis
    using checksumLoop_field [OF assms(2) len(2)] len assms(2)
    by (simp add: headerChecksum_def checksumLoop_append)
qed

lemma headerChecksum_bound: "ustar_wf h \<Longrightarrow> unat (headerChecksum h) \<le> 255 * 512"
  using checksumLoop_bound [of 0 "ustar_bytes h" 0]
  by (simp add: headerChecksum_def length_ustar_bytes TAR_BLOCK_def)

lemma unat_ucast_u64 [simp]: "unat (ucast (v :: u32) :: u64) = unat v"
  by (simp add: unsigned_ucast_eq take_bit_nat_eq_self_iff unsigned_less [THEN less_trans])

lemma sealHeader_checksum [roundtrip]:
  assumes "ustar_wf h"
  shows "octalValue (h_chksum (sealHeader h)) = ucast (headerChecksum (sealHeader h))"
proof -
  have "headerChecksum (sealHeader h) = headerChecksum h"
    unfolding sealHeader_def by (rule headerChecksum_ignores_chksum [OF assms]) simp
  moreover have "unat (ucast (headerChecksum h) :: u64) < 8 ^ (7 - 1)"
    using headerChecksum_bound [OF assms] by simp
  then have "octalValue (octalField 7 (ucast (headerChecksum h)) @ [space]) = ucast (headerChecksum h)"
    by (rule octalValue_octalField_append)
  ultimately show ?thesis by (simp add: sealHeader_def)
qed

subsection \<open>The path check and what it accepts\<close>

text \<open>The contract: a non-empty relative path of fewer than 256 bytes, no component of which
  is \<open>..\<close> and only the last of which may be empty (a trailing slash).\<close>

definition comps_ok :: "bytes list \<Rightarrow> bool" where
  "comps_ok cs \<longleftrightarrow> [] \<notin> set (butlast cs) \<and> [dot, dot] \<notin> set cs"

definition safe_path :: "bytes \<Rightarrow> bool" where
  "safe_path name \<longleftrightarrow> name \<noteq> [] \<and> hd name \<noteq> slash \<and> length name < 256 \<and>
     comps_ok (split_on slash name)"

lemma comps_ok_Cons: "cs \<noteq> [] \<Longrightarrow> comps_ok (c # cs) \<longleftrightarrow> c \<noteq> [] \<and> c \<noteq> [dot, dot] \<and> comps_ok cs"
  by (auto simp: comps_ok_def)

lemma two_dots_iff: "length cur = 2 \<and> cur ! 0 = a \<and> cur ! Suc 0 = b \<longleftrightarrow> cur = [a, b]"
  by (auto simp: numeral_2_eq_2 length_Suc_conv)

lemma safeLoop_comps:
  "slash \<notin> set cur \<Longrightarrow>
   safeLoop (pre @ cur @ rest) (length pre) (length pre + length cur) = comps_ok (split_on slash (cur @ rest))"
proof (induction rest arbitrary: pre cur)
  case Nil
  have "safeLoop (pre @ cur) (Suc (length pre + length cur)) (Suc (length pre + length cur))"
    by (subst safeLoop.simps) simp
  then have "safeLoop (pre @ cur) (length pre) (length pre + length cur) = (cur \<noteq> [dot, dot])"
    by (subst safeLoop.simps) (auto simp: nth_append Let_def simp flip: two_dots_iff)
  with Nil show ?case by (auto simp: comps_ok_def)
next
  case (Cons x rest)
  show ?case
  proof (cases "x = slash")
    case False
    then have "slash \<notin> set (cur @ [x])" using Cons.prems by simp
    from Cons.IH [OF this, of pre] show ?thesis
      using False by (subst safeLoop.simps) (simp add: nth_append)
  next
    case True
    have IH: "safeLoop (pre @ cur @ x # rest) (Suc (length pre + length cur)) (Suc (length pre + length cur))
          = comps_ok (split_on slash rest)"
      using Cons.IH [of "[]" "pre @ cur @ [x]"] by simp
    have "safeLoop (pre @ cur @ x # rest) (length pre) (length pre + length cur)
          = (cur \<noteq> [] \<and> cur \<noteq> [dot, dot] \<and> comps_ok (split_on slash rest))"
      by (subst safeLoop.simps)
        (auto simp: True IH [unfolded True] nth_append Let_def simp flip: two_dots_iff)
    with True Cons.prems show ?thesis by (simp add: split_on_append_sep comps_ok_Cons)
  qed
qed

lemma safeEntryName_iff: "safeEntryName name \<longleftrightarrow> safe_path name"
  using safeLoop_comps [of "[]" "[]" name]
  by (auto simp: safeEntryName_def safe_path_def hd_conv_nth)

subsection \<open>Names survive the header\<close>

lemma nameSplit_Some:
  assumes "nameSplit name n = Some i" "n \<le> length name"
  shows "i < n \<and> name ! i = slash \<and> length name - i - 1 \<noteq> 0 \<and> length name - i - 1 \<le> 100 \<and> i \<le> 155"
  using assms by (induction n) (auto simp: Let_def split: if_splits)

lemma nameSplit_None:
  assumes "nameSplit name n = None" "i < n" "name ! i = slash" "i \<le> 155"
  shows "length name - i - 1 = 0 \<or> length name - i - 1 > 100"
  using assms by (induction n) (auto simp: Let_def less_Suc_eq split: if_splits)

lemma overwrite_zeros: "length xs \<le> n \<Longrightarrow> overwrite (replicate n z) 0 xs = xs @ replicate (n - length xs) z"
  by (simp add: overwrite_def)

lemma setEntryName_short:
  assumes "name \<noteq> []" "length name \<le> 100"
  shows "setEntryName h name = Some (h\<lparr>h_name := overwrite (h_name h) 0 name\<rparr>)"
  using assms by (simp add: setEntryName_def)

lemma setEntryName_longE:
  assumes "setEntryName h name = Some h'" "length name > 100"
  obtains i where "i < length name" "name ! i = slash" "length name - i - 1 \<noteq> 0"
    "length name - i - 1 \<le> 100" "i \<le> 155"
    "h' = h\<lparr>h_prefix := overwrite (h_prefix h) 0 (take i name),
            h_name := overwrite (h_name h) 0 (drop (i + 1) name)\<rparr>"
  using assms nameSplit_Some [of name "length name"]
  by (auto simp: setEntryName_def Let_def split: if_splits option.splits)

lemma setEntryName_wf:
  assumes "setEntryName h name = Some h'" "ustar_wf h"
  shows "ustar_wf h'"
proof (cases "length name \<le> 100")
  case True
  then show ?thesis using assms
    by (auto simp: setEntryName_def Let_def ustar_wf_def len_simps split: if_splits)
next
  case False
  then have "length name > 100" by simp
  from setEntryName_longE [OF assms(1) this] obtain i where
    i: "i < length name" "length name - i - 1 \<le> 100" "i \<le> 155" and
    h': "h' = h\<lparr>h_prefix := overwrite (h_prefix h) 0 (take i name),
            h_name := overwrite (h_name h) 0 (drop (i + 1) name)\<rparr>" by metis
  show ?thesis using assms(2) i by (simp add: h' ustar_wf_def len_simps)
qed

lemma setEntryName_entryName:
  assumes set: "setEntryName h name = Some h'"
    and h: "h_name h = replicate 100 0" "h_prefix h = replicate 155 0"
    and name: "0 \<notin> set name" "hd name \<noteq> slash"
  shows "entryName h' = Some name"
proof (cases "length name \<le> 100")
  case True
  with set h name have "h_prefix h' = replicate 155 0" "h_name h' = name @ replicate (100 - length name) 0"
    by (auto simp: setEntryName_def Let_def overwrite_zeros split: if_splits)
  with True name show ?thesis
    using cstr_field_padded [of "[]" 155] by (simp add: entryName_def Let_def)
next
  case False
  then have "length name > 100" by simp
  from setEntryName_longE [OF set this] obtain i where
    i: "i < length name" "name ! i = slash" "length name - i - 1 \<le> 100" "i \<le> 155" and
    h': "h' = h\<lparr>h_prefix := overwrite (h_prefix h) 0 (take i name),
            h_name := overwrite (h_name h) 0 (drop (i + 1) name)\<rparr>" by metis
  have nz: "0 \<notin> set (take i name)" "0 \<notin> set (drop (i + 1) name)"
    using name(1) by (auto dest: in_set_takeD in_set_dropD)
  have "length name < 264" using i by linarith
  have "i \<noteq> 0"
    using i(1,2) name(2) by (cases i) (auto simp: hd_conv_nth)
  moreover have "cstr_field (h_prefix h') = take i name"
    using i nz(1) by (simp add: h' h overwrite_zeros)
  moreover have "cstr_field (h_name h') = drop (i + 1) name"
    using i nz(2) by (simp add: h' h overwrite_zeros)
  ultimately show ?thesis
    using i id_take_nth_drop [OF i(1)] \<open>length name < 264\<close> by (simp add: entryName_def Let_def)
qed

text \<open>When the name is refused: exactly when neither field arrangement can hold it.\<close>

lemma setEntryName_None_iff:
  "setEntryName h name = None \<longleftrightarrow>
     name = [] \<or> (length name > 100 \<and>
       (\<forall>i < length name. name ! i = slash \<longrightarrow> i \<le> 155 \<longrightarrow>
          length name - i - 1 = 0 \<or> length name - i - 1 > 100))"
proof (cases "length name > 256")
  case True
  then show ?thesis by (auto simp: setEntryName_def Let_def)
next
  case False
  show ?thesis
  proof (cases "nameSplit name (length name)")
    case None
    then show ?thesis using False nameSplit_None [OF None]
      by (auto simp: setEntryName_def Let_def)
  next
    case (Some i)
    then show ?thesis using False nameSplit_Some [OF Some]
      by (auto simp: setEntryName_def Let_def)
  qed
qed

end
