(* ===== verification/Stream_Consumer.thy ===== *)
theory Stream_Consumer
  imports Prelude
begin

section \<open>Incremental consumers\<close>

text \<open>
  The contract of a component that is fed a stream in pieces: feeding two pieces one after
  the other is feeding their concatenation. The parser of the archive
  reader and the line assembly of the log promise it; what it gives is that how the transport cut
  the stream cannot matter.
\<close>

locale stream_consumer =
  fixes inv :: "'s \<Rightarrow> bool"
    and step :: "'s \<Rightarrow> 'a list \<Rightarrow> 's"
  assumes step_Nil: "inv s \<Longrightarrow> step s [] = s"
    and step_inv: "inv s \<Longrightarrow> inv (step s xs)"
    and step_append: "inv s \<Longrightarrow> step s (xs @ ys) = step (step s xs) ys"
begin

lemma feed_chunks: "inv s \<Longrightarrow> foldl step s chunks = step s (concat chunks)"
  by (induction chunks arbitrary: s) (auto simp: step_Nil step_inv step_append)

lemma chunking_irrelevant:
  "inv s \<Longrightarrow> concat chunks = concat chunks' \<Longrightarrow> foldl step s chunks = foldl step s chunks'"
  by (simp add: feed_chunks)

lemma feed_bytewise: "inv s \<Longrightarrow> step s xs = foldl (\<lambda>t x. step t [x]) s xs"
proof (induction xs arbitrary: s)
  case (Cons x xs)
  have "step s ([x] @ xs) = step (step s [x]) xs" using Cons.prems by (rule step_append)
  with Cons step_inv show ?case by simp
qed (simp add: step_Nil)

lemma feed_chunks_inv: "inv s \<Longrightarrow> inv (foldl step s chunks)"
  by (simp add: feed_chunks step_inv)

end

end
