(* ===== verification/Targz_Tar.thy ===== *)
theory Targz_Tar
  imports Targz_Header Stream_Consumer
begin

section \<open>The tar parser of the archive reader (targz.cpp)\<close>

text \<open>
  The byte-driven tar state machine behind \<open>targzReaderFeed\<close>: header blocks, entry bodies,
  padding and the end marker. The reader's fields that belong to the parser form the record
  \<open>tar_state\<close>; the reader of \<open>Targz_Reader\<close> extends it, so the operations here act on
  the whole reader. The bytes \<open>hdr[0 .. hdrHave)\<close> are the list \<open>hdr\<close>. The byte counts
  \<open>pending\<close> and \<open>pad\<close> only ever shrink by at most their value and are kept as \<open>nat\<close>; the
  tallies \<open>entries\<close> and \<open>bytes\<close> wrap at their C widths.
\<close>

datatype targz_err =
    TARGZ_OK | TARGZ_ERR_MAGIC | TARGZ_ERR_DEFLATE | TARGZ_ERR_TAR | TARGZ_ERR_UNSAFE
  | TARGZ_ERR_CRC | TARGZ_ERR_TRUNCATED | TARGZ_ERR_SINK | TARGZ_ERR_MEM

definition targzErrStr :: "targz_err \<Rightarrow> string" where
  "targzErrStr e = (case e of
     TARGZ_OK \<Rightarrow> ''ok''
   | TARGZ_ERR_MAGIC \<Rightarrow> ''not a gzip archive''
   | TARGZ_ERR_DEFLATE \<Rightarrow> ''corrupt compressed data''
   | TARGZ_ERR_TAR \<Rightarrow> ''corrupt archive''
   | TARGZ_ERR_UNSAFE \<Rightarrow> ''archive contains an unsafe entry''
   | TARGZ_ERR_CRC \<Rightarrow> ''archive checksum mismatch''
   | TARGZ_ERR_TRUNCATED \<Rightarrow> ''archive truncated''
   | TARGZ_ERR_SINK \<Rightarrow> ''could not write extracted data''
   | TARGZ_ERR_MEM \<Rightarrow> ''out of memory'')"

datatype tar_stage = TAR_HDR | TAR_DATA | TAR_PAD | TAR_END

text \<open>The extraction callbacks; each may be a null pointer, and each returns false to stop.\<close>

record 'c targz_cb =
  onDir :: "('c \<Rightarrow> bytes \<Rightarrow> bool \<times> 'c) option"
  onFile :: "('c \<Rightarrow> bytes \<Rightarrow> u32 \<Rightarrow> bool \<times> 'c) option"
  onData :: "('c \<Rightarrow> bytes \<Rightarrow> bool \<times> 'c) option"
  onFileEnd :: "('c \<Rightarrow> bool \<times> 'c) option"

record 'c tar_state =
  ctx :: 'c
  tar :: tar_stage
  hdr :: bytes
  pending :: nat
  pad :: nat
  zeroBlocks :: nat
  entries :: u32
  bytes :: u64
  inFile :: bool

text \<open>The idiom \<open>cb.f && !cb.f(ctx, ...)\<close>: an absent callback counts as success.\<close>

definition call_dir :: "'c targz_cb \<Rightarrow> 'c \<Rightarrow> bytes \<Rightarrow> bool \<times> 'c" where
  "call_dir cb c name = (case onDir cb of None \<Rightarrow> (True, c) | Some f \<Rightarrow> f c name)"

definition call_file :: "'c targz_cb \<Rightarrow> 'c \<Rightarrow> bytes \<Rightarrow> u32 \<Rightarrow> bool \<times> 'c" where
  "call_file cb c name sz = (case onFile cb of None \<Rightarrow> (True, c) | Some f \<Rightarrow> f c name sz)"

definition call_data :: "'c targz_cb \<Rightarrow> 'c \<Rightarrow> bytes \<Rightarrow> bool \<times> 'c" where
  "call_data cb c bs = (case onData cb of None \<Rightarrow> (True, c) | Some f \<Rightarrow> f c bs)"

definition call_end :: "'c targz_cb \<Rightarrow> 'c \<Rightarrow> bool \<times> 'c" where
  "call_end cb c = (case onFileEnd cb of None \<Rightarrow> (True, c) | Some f \<Rightarrow> f c)"

definition padTo :: "nat \<Rightarrow> nat" where
  "padTo n = (TAR_BLOCK - n mod TAR_BLOCK) mod TAR_BLOCK"

definition stripSlashes :: "bytes \<Rightarrow> bytes" where
  "stripSlashes name = rev (dropWhile (\<lambda>b. b = slash) (rev name))"

text \<open>The close of an entry whose body is complete: the file-end callback, then padding.\<close>

definition bodyDone :: "'c targz_cb \<Rightarrow> ('c, 'z) tar_state_scheme \<Rightarrow> targz_err \<times> ('c, 'z) tar_state_scheme" where
  "bodyDone cb r =
     (let (ok, c) = (if inFile r then call_end cb (ctx r) else (True, ctx r));
          r1 = r\<lparr>ctx := c\<rparr>
      in if \<not> ok then (TARGZ_ERR_SINK, r1)
         else (TARGZ_OK, r1\<lparr>inFile := False, tar := (if pad r \<noteq> 0 then TAR_PAD else TAR_HDR)\<rparr>))"

text \<open>
  \<open>tarHeader\<close> in three parts: what the block says (checksum, name, type, path check; the
  error it is refused with, or directory flag, name and size), the opening of the entry, and
  the handler itself.
\<close>

definition parseEntry :: "bytes \<Rightarrow> targz_err + bool \<times> bytes \<times> u64" where
  "parseEntry blk =
     (let h = ustar_of blk
      in if octalValue (h_chksum h) \<noteq> ucast (headerChecksum h) then Inl TARGZ_ERR_TAR
         else case entryName h of
           None \<Rightarrow> Inl TARGZ_ERR_UNSAFE
         | Some full \<Rightarrow>
            (let sz = octalValue (h_size h);
                 ty = h_typeflag h;
                 name = stripSlashes full;
                 isDir = (ty = of_char CHR ''5'' \<or> name \<noteq> full)
             in if \<not> isDir \<and> ty \<noteq> of_char CHR ''0'' \<and> ty \<noteq> 0 then Inl TARGZ_ERR_UNSAFE
                else if \<not> safeEntryName name then Inl TARGZ_ERR_UNSAFE
                else Inr (isDir, name, sz)))"

definition openEntry :: "'c targz_cb \<Rightarrow> bool \<Rightarrow> bytes \<Rightarrow> u64 \<Rightarrow> ('c, 'z) tar_state_scheme
    \<Rightarrow> targz_err \<times> ('c, 'z) tar_state_scheme" where
  "openEntry cb isDir name sz r =
     (let r1 = r\<lparr>entries := entries r + 1\<rparr>;
          (ok, c) = (if isDir then call_dir cb (ctx r1) name else call_file cb (ctx r1) name (ucast sz));
          r2 = r1\<lparr>ctx := c\<rparr>
      in if \<not> ok then (TARGZ_ERR_SINK, r2)
         else (let r3 = (if isDir then r2\<lparr>pending := unat sz\<rparr>
                         else r2\<lparr>inFile := True, pending := unat sz, bytes := bytes r2 + sz\<rparr>);
                   r4 = r3\<lparr>pad := padTo (unat sz)\<rparr>
               in if pending r4 \<noteq> 0 then (TARGZ_OK, r4\<lparr>tar := TAR_DATA\<rparr>) else bodyDone cb r4))"

definition tarHeader :: "'c targz_cb \<Rightarrow> bytes \<Rightarrow> ('c, 'z) tar_state_scheme \<Rightarrow> targz_err \<times> ('c, 'z) tar_state_scheme" where
  "tarHeader cb blk r =
     (if \<forall>b \<in> set blk. b = 0
      then (let r1 = r\<lparr>zeroBlocks := zeroBlocks r + 1\<rparr>
            in (TARGZ_OK, if zeroBlocks r1 \<ge> 2 then r1\<lparr>tar := TAR_END\<rparr> else r1))
      else (let r0 = r\<lparr>zeroBlocks := 0\<rparr>
            in case parseEntry blk of
                 Inl e \<Rightarrow> (e, r0)
               | Inr (isDir, name, sz) \<Rightarrow> openEntry cb isDir name sz r0))"

fun tar_rank :: "tar_stage \<Rightarrow> nat" where
  "tar_rank TAR_DATA = 2"
| "tar_rank TAR_PAD = 1"
| "tar_rank TAR_HDR = 0"
| "tar_rank TAR_END = 0"

definition tar_measure :: "('c, 'z) tar_state_scheme \<Rightarrow> nat" where
  "tar_measure r = tar_rank (tar r) + (if length (hdr r) \<ge> TAR_BLOCK then 10 else 0)"

lemma tar_measure_le: "hdr r = [] \<Longrightarrow> tar_measure r \<le> 2"
  by (cases "tar r") (auto simp: tar_measure_def TAR_BLOCK_def)

lemma hdr_bodyDone [simp]: "hdr (snd (bodyDone cb r)) = hdr r"
  by (simp add: bodyDone_def Let_def split: prod.splits)

lemma tar_measure_bodyDone:
  assumes "tar r = TAR_DATA" "(TARGZ_OK, r') = bodyDone cb (r\<lparr>ctx := c, pending := k\<rparr>)"
  shows "20 * length (drop n p) + tar_measure r' < 20 * length p + tar_measure r"
  using assms
  by (auto simp: bodyDone_def tar_measure_def Let_def split: prod.splits if_splits)

lemma hdr_openEntry [simp]: "hdr (snd (openEntry cb d n z r)) = hdr r"
  by (simp add: openEntry_def Let_def split: prod.splits)

lemma hdr_tarHeader [simp]: "hdr (snd (tarHeader cb blk r)) = hdr r"
  by (simp add: tarHeader_def Let_def split: prod.splits sum.splits)

function tarConsume :: "'c targz_cb \<Rightarrow> ('c, 'z) tar_state_scheme \<Rightarrow> bytes \<Rightarrow> targz_err \<times> ('c, 'z) tar_state_scheme" where
  "tarConsume cb r p =
     (if p = [] \<or> tar r = TAR_END then (TARGZ_OK, r)
      else case tar r of
        TAR_HDR \<Rightarrow>
          (let n = min (TAR_BLOCK - length (hdr r)) (length p);
               blk = hdr r @ take n p
           in if length blk < TAR_BLOCK then (TARGZ_OK, r\<lparr>hdr := blk\<rparr>)
              else (let (e, r1) = tarHeader cb blk (r\<lparr>hdr := []\<rparr>)
                    in if e \<noteq> TARGZ_OK then (e, r1) else tarConsume cb r1 (drop n p)))
      | TAR_DATA \<Rightarrow>
          (let n = (if pending r < length p then pending r else length p);
               (ok, c) = (if inFile r then call_data cb (ctx r) (take n p) else (True, ctx r));
               r1 = r\<lparr>ctx := c\<rparr>
           in if \<not> ok then (TARGZ_ERR_SINK, r1)
              else (let r2 = r1\<lparr>pending := pending r - n\<rparr>
                    in if pending r2 = 0
                       then (let (e, r3) = bodyDone cb r2
                             in if e \<noteq> TARGZ_OK then (e, r3) else tarConsume cb r3 (drop n p))
                       else tarConsume cb r2 (drop n p)))
      | _ \<Rightarrow>
          (let n = (if pad r < length p then pad r else length p);
               r1 = r\<lparr>pad := pad r - n\<rparr>
           in tarConsume cb (if pad r1 = 0 then r1\<lparr>tar := TAR_HDR\<rparr> else r1) (drop n p)))"
  by pat_completeness auto
termination
proof (relation "measure (\<lambda>(cb, r, p). 20 * length p + tar_measure r)", goal_cases)
  case (2 cb r p n blk e_r1 e r1)
  then have "(e, r1) = tarHeader cb blk (r\<lparr>hdr := []\<rparr>)" by simp
  then have "r1 = snd (tarHeader cb blk (r\<lparr>hdr := []\<rparr>))" by (metis snd_conv)
  then have "hdr r1 = []" by simp
  then have "tar_measure r1 \<le> 2" by (rule tar_measure_le)
  with 2 show ?case by (auto simp: tar_measure_def min_def)
next
  case 3
  then show ?case
    by (simp only: in_measure prod.case not_not) (rule tar_measure_bodyDone, simp_all)
qed (auto simp: tar_measure_def)

declare tarConsume.simps [simp del]


subsection \<open>One step of the parser, by stage\<close>

lemma tarConsume_stop: "p = [] \<or> tar r = TAR_END \<Longrightarrow> tarConsume cb r p = (TARGZ_OK, r)"
  by (subst tarConsume.simps) auto

lemma tarConsume_Nil [simp]: "tarConsume cb r [] = (TARGZ_OK, r)"
  by (simp add: tarConsume_stop)

lemma tarConsume_hdr_short:
  assumes "tar r = TAR_HDR" "length (hdr r) + length p < TAR_BLOCK"
  shows "tarConsume cb r p = (TARGZ_OK, r\<lparr>hdr := hdr r @ p\<rparr>)"
  using assms by (subst tarConsume.simps) (cases "p = []"; simp add: Let_def)

lemma tarConsume_hdr_full:
  assumes "tar r = TAR_HDR" "length (hdr r) < TAR_BLOCK" "length (hdr r) + length b = TAR_BLOCK"
  shows "tarConsume cb r (b @ p) =
    (let (e, r1) = tarHeader cb (hdr r @ b) (r\<lparr>hdr := []\<rparr>)
     in if e \<noteq> TARGZ_OK then (e, r1) else tarConsume cb r1 p)"
proof -
  have n: "min (TAR_BLOCK - length (hdr r)) (length (b @ p)) = length b" using assms by simp
  have "b \<noteq> []" using assms by auto
  then show ?thesis
    by (subst tarConsume.simps, unfold n) (use assms in \<open>simp add: Let_def split: prod.splits\<close>)
qed

lemma tarConsume_data_short:
  assumes "tar r = TAR_DATA" "length p < pending r" "p \<noteq> []"
  shows "tarConsume cb r p =
    (let (ok, c) = (if inFile r then call_data cb (ctx r) p else (True, ctx r))
     in if ok then (TARGZ_OK, r\<lparr>ctx := c, pending := pending r - length p\<rparr>)
        else (TARGZ_ERR_SINK, r\<lparr>ctx := c\<rparr>))"
  using assms by (subst tarConsume.simps) (auto simp: Let_def split: prod.splits)

lemma tarConsume_data_full:
  assumes "tar r = TAR_DATA" "length b = pending r" "pending r \<noteq> 0"
  shows "tarConsume cb r (b @ p) =
    (let (ok, c) = (if inFile r then call_data cb (ctx r) b else (True, ctx r))
     in if \<not> ok then (TARGZ_ERR_SINK, r\<lparr>ctx := c\<rparr>)
        else let (e, r1) = bodyDone cb (r\<lparr>ctx := c, pending := 0\<rparr>)
             in if e \<noteq> TARGZ_OK then (e, r1) else tarConsume cb r1 p)"
proof -
  have n: "(if pending r < length (b @ p) then pending r else length (b @ p)) = length b"
    using assms by auto
  have "b \<noteq> []" using assms by auto
  then show ?thesis
    by (subst tarConsume.simps, unfold n) (use assms in \<open>auto simp: Let_def split: prod.splits\<close>)
qed

lemma tarConsume_pad_short:
  assumes "tar r = TAR_PAD" "length p < pad r"
  shows "tarConsume cb r p = (TARGZ_OK, r\<lparr>pad := pad r - length p\<rparr>)"
  using assms by (subst tarConsume.simps) (auto simp: Let_def)

lemma tarConsume_pad_full:
  assumes "tar r = TAR_PAD" "length b = pad r" "pad r \<noteq> 0"
  shows "tarConsume cb r (b @ p) = tarConsume cb (r\<lparr>pad := 0, tar := TAR_HDR\<rparr>) p"
proof -
  have n: "(if pad r < length (b @ p) then pad r else length (b @ p)) = length b"
    using assms by auto
  have "b \<noteq> []" using assms by auto
  then show ?thesis
    by (subst tarConsume.simps, unfold n) (use assms in \<open>auto simp: Let_def\<close>)
qed


subsection \<open>The parser's invariant\<close>

definition tar_inv :: "('c, 'z) tar_state_scheme \<Rightarrow> bool" where
  "tar_inv r \<longleftrightarrow> length (hdr r) < TAR_BLOCK \<and> (tar r \<noteq> TAR_HDR \<longrightarrow> hdr r = []) \<and>
     (tar r = TAR_DATA \<longrightarrow> pending r \<noteq> 0) \<and> (tar r = TAR_PAD \<longrightarrow> pad r \<noteq> 0)"

lemma tar_inv_bodyDone:
  "bodyDone cb r = (TARGZ_OK, r') \<Longrightarrow> hdr r = [] \<Longrightarrow> tar_inv r'"
  by (auto simp: bodyDone_def tar_inv_def TAR_BLOCK_def Let_def split: prod.splits if_splits)

lemma tar_inv_openEntry:
  assumes "openEntry cb d n z r = (TARGZ_OK, r')" "hdr r = []"
  shows "tar_inv r'"
proof (cases "unat z = 0")
  case True
  with assms show ?thesis
    by (auto simp: openEntry_def Let_def split: prod.splits if_splits intro: tar_inv_bodyDone)
next
  case False
  with assms show ?thesis
    by (auto simp: openEntry_def tar_inv_def TAR_BLOCK_def Let_def split: prod.splits if_splits)
qed

lemma parseEntry_not_OK: "parseEntry blk \<noteq> Inl TARGZ_OK"
  by (auto simp: parseEntry_def Let_def split: option.splits)

lemma tar_inv_tarHeader:
  assumes "tarHeader cb blk r = (TARGZ_OK, r')" "hdr r = []" "tar r = TAR_HDR"
  shows "tar_inv r'"
proof (cases "\<forall>b \<in> set blk. b = 0")
  case True
  with assms show ?thesis
    by (auto simp: tarHeader_def tar_inv_def TAR_BLOCK_def Let_def split: if_splits)
next
  case False
  with assms show ?thesis
    using parseEntry_not_OK [of blk]
    by (auto simp: tarHeader_def Let_def split: sum.splits intro: tar_inv_openEntry)
qed

subsection \<open>Feeding in pieces\<close>

text \<open>
  What the parser relies on of the data callback: a run delivered in two calls is the run
  delivered in one. It is what an append to a file does.
\<close>

definition data_hom :: "'c targz_cb \<Rightarrow> bool" where
  "data_hom cb \<longleftrightarrow> (\<forall>c a b. call_data cb c (a @ b) =
     (let (ok, c') = call_data cb c a in if ok then call_data cb c' b else (False, c')))"

lemma data_homD:
  "data_hom cb \<Longrightarrow> call_data cb c (a @ b) =
     (let (ok, c') = call_data cb c a in if ok then call_data cb c' b else (False, c'))"
  unfolding data_hom_def by blast

text \<open>
  The parser with its error latched, as the reader keeps it in \<open>err\<close>. Once a call has failed
  the reader only reports its tally, so the count of the run that was being delivered is
  dropped: it is the one field that depends on how that run was cut.
\<close>

definition settle :: "targz_err \<times> ('c, 'z) tar_state_scheme \<Rightarrow> targz_err \<times> ('c, 'z) tar_state_scheme" where
  "settle s = (fst s, if fst s = TARGZ_OK then snd s else (snd s)\<lparr>pending := 0\<rparr>)"

definition tarStep :: "'c targz_cb \<Rightarrow> targz_err \<times> ('c, 'z) tar_state_scheme \<Rightarrow> bytes
    \<Rightarrow> targz_err \<times> ('c, 'z) tar_state_scheme" where
  "tarStep cb s p = (if fst s \<noteq> TARGZ_OK then s else settle (tarConsume cb (snd s) p))"

lemma settle_OK [simp]: "settle (TARGZ_OK, r) = (TARGZ_OK, r)"
  by (simp add: settle_def)

lemma settle_err: "e \<noteq> TARGZ_OK \<Longrightarrow> settle (e, r) = (e, r\<lparr>pending := 0\<rparr>)"
  by (simp add: settle_def)

lemma fst_settle [simp]: "fst (settle s) = fst s"
  by (simp add: settle_def)

lemma settle_eq_OK [simp]: "settle s = (TARGZ_OK, r) \<longleftrightarrow> s = (TARGZ_OK, r)"
  by (cases s) (auto simp: settle_def)

lemma tarStep_err [simp]: "e \<noteq> TARGZ_OK \<Longrightarrow> tarStep cb (e, r) p = (e, r)"
  by (simp add: tarStep_def)

lemma tarStep_OK: "tarStep cb (TARGZ_OK, r) p = settle (tarConsume cb r p)"
  by (simp add: tarStep_def)

lemma tarStep_Nil [simp]: "tarStep cb s [] = s"
  by (cases s) (simp add: tarStep_def)

lemma tarStep_hdr_full:
  assumes "tar r = TAR_HDR" "length (hdr r) < TAR_BLOCK" "length (hdr r) + length b = TAR_BLOCK"
  shows "tarStep cb (TARGZ_OK, r) (b @ p) = tarStep cb (settle (tarHeader cb (hdr r @ b) (r\<lparr>hdr := []\<rparr>))) p"
  by (auto simp: tarConsume_hdr_full [OF assms] tarStep_def settle_def split: prod.splits)

lemma tarStep_data_full:
  assumes "tar r = TAR_DATA" "length b = pending r" "pending r \<noteq> 0"
  shows "tarStep cb (TARGZ_OK, r) (b @ p) =
    (let (ok, c) = (if inFile r then call_data cb (ctx r) b else (True, ctx r))
     in if \<not> ok then (TARGZ_ERR_SINK, r\<lparr>ctx := c, pending := 0\<rparr>)
        else tarStep cb (settle (bodyDone cb (r\<lparr>ctx := c, pending := 0\<rparr>))) p)"
  by (auto simp: tarConsume_data_full [OF assms] tarStep_def settle_def Let_def split: prod.splits)

lemma tarStep_pad_full:
  assumes "tar r = TAR_PAD" "length b = pad r" "pad r \<noteq> 0"
  shows "tarStep cb (TARGZ_OK, r) (b @ p) = tarStep cb (TARGZ_OK, r\<lparr>pad := 0, tar := TAR_HDR\<rparr>) p"
  by (simp add: tarStep_OK tarConsume_pad_full [OF assms])

lemma split_at: "n \<le> length xs \<Longrightarrow> \<exists>ys zs. xs = ys @ zs \<and> length ys = n"
  by (metis append_take_drop_id length_take min.absorb2)

text \<open>
  Induction over the parser's work: a piece either ends inside the current header block, body
  or padding, or completes it and the rest is parsed from the state that leaves.
\<close>

lemma tar_induct [consumes 1, case_names stop hdr_part hdr data_part data pad_part pad]:
  assumes inv: "tar_inv r"
    and stop: "\<And>r p. p = [] \<or> tar r = TAR_END \<Longrightarrow> tar_inv r \<Longrightarrow> P r p"
    and hdr_part: "\<And>r p. tar r = TAR_HDR \<Longrightarrow> tar_inv r \<Longrightarrow> p \<noteq> [] \<Longrightarrow> length (hdr r) + length p < TAR_BLOCK \<Longrightarrow> P r p"
    and hdr: "\<And>r b p. tar r = TAR_HDR \<Longrightarrow> tar_inv r \<Longrightarrow> length (hdr r) + length b = TAR_BLOCK \<Longrightarrow>
       (\<And>r1. tarHeader cb (hdr r @ b) (r\<lparr>hdr := []\<rparr>) = (TARGZ_OK, r1) \<Longrightarrow> tar_inv r1 \<and> P r1 p) \<Longrightarrow> P r (b @ p)"
    and data_part: "\<And>r p. tar r = TAR_DATA \<Longrightarrow> tar_inv r \<Longrightarrow> p \<noteq> [] \<Longrightarrow> length p < pending r \<Longrightarrow> P r p"
    and data: "\<And>r b p. tar r = TAR_DATA \<Longrightarrow> tar_inv r \<Longrightarrow> length b = pending r \<Longrightarrow>
       (\<And>c r1. bodyDone cb (r\<lparr>ctx := c, pending := 0\<rparr>) = (TARGZ_OK, r1) \<Longrightarrow> tar_inv r1 \<and> P r1 p) \<Longrightarrow> P r (b @ p)"
    and pad_part: "\<And>r p. tar r = TAR_PAD \<Longrightarrow> tar_inv r \<Longrightarrow> p \<noteq> [] \<Longrightarrow> length p < pad r \<Longrightarrow> P r p"
    and pad: "\<And>r b p. tar r = TAR_PAD \<Longrightarrow> tar_inv r \<Longrightarrow> length b = pad r \<Longrightarrow>
       tar_inv (r\<lparr>pad := 0, tar := TAR_HDR\<rparr>) \<Longrightarrow> P (r\<lparr>pad := 0, tar := TAR_HDR\<rparr>) p \<Longrightarrow> P r (b @ p)"
  shows "P r p"
  using inv
proof (induction "length p" arbitrary: p r rule: less_induct)
  case less
  note facts = less.prems less.prems [unfolded tar_inv_def]
  consider (stop) "p = [] \<or> tar r = TAR_END"
    | (hdr) "p \<noteq> []" "tar r = TAR_HDR" | (data) "p \<noteq> []" "tar r = TAR_DATA" | (pad) "p \<noteq> []" "tar r = TAR_PAD"
    by (cases "tar r") auto
  then show ?case
  proof cases
    case stop
    then show ?thesis using less.prems by (rule assms(2))
  next
    case hdr
    show ?thesis
    proof (cases "length (hdr r) + length p < TAR_BLOCK")
      case False
      then obtain b q where p: "p = b @ q" "length b = TAR_BLOCK - length (hdr r)"
        using split_at [of "TAR_BLOCK - length (hdr r)" p] by force
      have "length q < length p" using p facts by simp linarith
      then have "tar_inv r1 \<and> P r1 q" if "tarHeader cb (hdr r @ b) (r\<lparr>hdr := []\<rparr>) = (TARGZ_OK, r1)" for r1
        using less.hyps tar_inv_tarHeader [OF that] hdr by simp
      with facts p hdr show ?thesis by (auto intro: assms(4))
    qed (use hdr facts hdr_part in auto)
  next
    case data
    show ?thesis
    proof (cases "length p < pending r")
      case False
      then obtain b q where p: "p = b @ q" "length b = pending r"
        using split_at [of "pending r" p] by force
      have "length q < length p" using p facts data by simp
      then have "tar_inv r1 \<and> P r1 q" if "bodyDone cb (r\<lparr>ctx := c, pending := 0\<rparr>) = (TARGZ_OK, r1)" for c r1
        using less.hyps tar_inv_bodyDone [OF that] facts data by simp
      with facts p data show ?thesis by (auto intro: assms(6))
    qed (use data facts data_part in auto)
  next
    case pad
    show ?thesis
    proof (cases "length p < pad r")
      case False
      then obtain b q where p: "p = b @ q" "length b = pad r"
        using split_at [of "pad r" p] by force
      have i: "tar_inv (r\<lparr>pad := 0, tar := TAR_HDR\<rparr>)" using facts by (simp add: tar_inv_def)
      have "length q < length p" using p facts pad by simp
      from less.hyps [OF this i] show ?thesis
        using facts p pad i by (auto intro: assms(8))
    qed (use pad facts pad_part in auto)
  qed
qed

lemma tarConsume_hdr_append:
  assumes "tar r = TAR_HDR" "length (hdr r) + length a < TAR_BLOCK"
  shows "tarConsume cb r (a @ b) = tarConsume cb (r\<lparr>hdr := hdr r @ a\<rparr>) b"
proof (cases "length (hdr r) + length a + length b < TAR_BLOCK")
  case True
  then show ?thesis using assms by (simp add: tarConsume_hdr_short)
next
  case False
  then obtain b1 b2 where b: "b = b1 @ b2" "length b1 = TAR_BLOCK - length (hdr r) - length a"
    using split_at [of "TAR_BLOCK - length (hdr r) - length a" b] by force
  from tarConsume_hdr_full [of r "a @ b1" cb b2] tarConsume_hdr_full [of "r\<lparr>hdr := hdr r @ a\<rparr>" b1 cb b2]
  show ?thesis using assms b by simp
qed

lemma tarConsume_pad_append:
  assumes "tar r = TAR_PAD" "length a < pad r"
  shows "tarConsume cb r (a @ b) = tarConsume cb (r\<lparr>pad := pad r - length a\<rparr>) b"
proof (cases "length a + length b < pad r")
  case True
  then show ?thesis using assms by (simp add: tarConsume_pad_short)
next
  case False
  then obtain b1 b2 where b: "b = b1 @ b2" "length b1 = pad r - length a"
    using split_at [of "pad r - length a" b] by force
  from tarConsume_pad_full [of r "a @ b1" cb b2] tarConsume_pad_full [of "r\<lparr>pad := pad r - length a\<rparr>" b1 cb b2]
  show ?thesis using assms b by simp
qed

lemma tarStep_data_append:
  assumes "data_hom cb" "tar r = TAR_DATA" "length a < pending r" "a \<noteq> []"
  shows "tarStep cb (TARGZ_OK, r) (a @ b) = tarStep cb (tarStep cb (TARGZ_OK, r) a) b"
proof (cases "b = []")
  case nb: False
  note a = tarConsume_data_short [OF assms(2-4)]
  note hom = data_homD [OF assms(1), of "ctx r" a]
  show ?thesis
  proof (cases "length a + length b < pending r")
    case True
    then show ?thesis using assms nb hom [of b]
      by (auto simp: a tarConsume_data_short tarStep_def settle_def Let_def split: prod.splits)
  next
    case False
    then obtain b1 b2 where b: "b = b1 @ b2" "length b1 = pending r - length a"
      using split_at [of "pending r - length a" b] by force
    with assms tarStep_data_full [of r "a @ b1" cb b2]
    show ?thesis using hom [of b1]
      by (auto simp: a tarStep_data_full tarStep_OK [of cb r a] settle_def Let_def split: prod.splits)
  qed
qed simp

lemma tarStep_append:
  assumes hom: "data_hom cb" and inv: "tar_inv r"
  shows "tarStep cb (TARGZ_OK, r) (a @ b) = tarStep cb (tarStep cb (TARGZ_OK, r) a) b"
  using inv
proof (induction r a rule: tar_induct [where cb = cb])
  case (stop r a)
  then show ?case by (auto simp: tarStep_OK tarConsume_stop)
next
  case (hdr_part r a)
  then show ?case by (simp add: tarStep_OK tarConsume_hdr_append tarConsume_hdr_short)
next
  case (hdr r b1 a)
  obtain e r1 where e: "tarHeader cb (hdr r @ b1) (r\<lparr>hdr := []\<rparr>) = (e, r1)" by force
  note full = tarStep_hdr_full [OF hdr(1) _ hdr(3), of cb, unfolded e]
  show ?case using hdr e
    by (cases "e = TARGZ_OK") (auto simp: full tar_inv_def settle_err)
next
  case (data_part r a)
  then show ?case by (simp add: tarStep_data_append [OF hom])
next
  case (data r b1 a)
  obtain ok c where cd: "(if inFile r then call_data cb (ctx r) b1 else (True, ctx r)) = (ok, c)" by force
  obtain e r1 where e: "bodyDone cb (r\<lparr>ctx := c, pending := 0\<rparr>) = (e, r1)" by force
  note full = tarStep_data_full [OF data(1,3), of cb, unfolded cd]
  show ?case using data e
    by (cases "ok"; cases "e = TARGZ_OK") (auto simp: full tar_inv_def settle_err)
next
  case (pad_part r a)
  then show ?case by (simp add: tarStep_OK tarConsume_pad_append tarConsume_pad_short)
next
  case (pad r b1 a)
  then show ?case by (simp add: tarStep_pad_full tar_inv_def)
qed

subsection \<open>The invariant is kept, and only safe names reach a callback\<close>

lemma tarStep_inv:
  assumes "tar_inv r" "tarStep cb (TARGZ_OK, r) p = (TARGZ_OK, r')"
  shows "tar_inv r'"
  using assms
proof (induction r p rule: tar_induct [where cb = cb])
  case (stop r p)
  then show ?case by (auto simp: tarStep_OK tarConsume_stop)
next
  case (hdr_part r p)
  then show ?case by (auto simp: tarStep_OK tarConsume_hdr_short tar_inv_def)
next
  case (hdr r b p)
  obtain e r1 where e: "tarHeader cb (hdr r @ b) (r\<lparr>hdr := []\<rparr>) = (e, r1)" by force
  then show ?case using hdr tarStep_hdr_full [OF hdr(1) _ hdr(3), of cb]
    by (cases "e = TARGZ_OK") (auto simp: tar_inv_def [of r] settle_err)
next
  case (data_part r p)
  then show ?case
    by (auto simp: tarStep_OK tarConsume_data_short tar_inv_def Let_def split: prod.splits if_splits)
next
  case (data r b p)
  obtain ok c where cd: "(if inFile r then call_data cb (ctx r) b else (True, ctx r)) = (ok, c)" by force
  obtain e r1 where e: "bodyDone cb (r\<lparr>ctx := c, pending := 0\<rparr>) = (e, r1)" by force
  show ?case using data e tarStep_data_full [OF data(1,3), of cb, unfolded cd]
    by (cases ok; cases "e = TARGZ_OK") (auto simp: tar_inv_def [of r] settle_err)
next
  case (pad_part r p)
  then show ?case by (auto simp: tarStep_OK tarConsume_pad_short tar_inv_def)
next
  case (pad r b p)
  then show ?case by (auto simp: tarStep_pad_full tar_inv_def [of r])
qed

text \<open>
  A name the reader may hand out: what \<open>safeEntryName\<close> admits, with no NUL and no trailing
  slash. \<open>cb_preserves\<close> asks the callbacks to keep a property of their context for such
  names only, so a property that is then kept by parsing cannot have met any other name.
\<close>

definition safe_name :: "bytes \<Rightarrow> bool" where
  "safe_name n \<longleftrightarrow> safe_path n \<and> 0 \<notin> set n \<and> last n \<noteq> slash"

definition cb_preserves :: "'c targz_cb \<Rightarrow> ('c \<Rightarrow> bool) \<Rightarrow> bool" where
  "cb_preserves cb I \<longleftrightarrow>
     (\<forall>c n. I c \<longrightarrow> safe_name n \<longrightarrow> I (snd (call_dir cb c n))) \<and>
     (\<forall>c n z. I c \<longrightarrow> safe_name n \<longrightarrow> I (snd (call_file cb c n z))) \<and>
     (\<forall>c b. I c \<longrightarrow> I (snd (call_data cb c b))) \<and>
     (\<forall>c. I c \<longrightarrow> I (snd (call_end cb c)))"

lemma stripSlashes_last: "stripSlashes n \<noteq> [] \<Longrightarrow> last (stripSlashes n) \<noteq> slash"
  using hd_dropWhile [of "\<lambda>b. b = slash" "rev n"] by (simp add: stripSlashes_def last_rev)

lemma set_stripSlashes: "set (stripSlashes n) \<subseteq> set n"
  unfolding stripSlashes_def by (auto dest: set_dropWhileD)

lemma stripSlashes_id: "n = [] \<or> last n \<noteq> slash \<Longrightarrow> stripSlashes n = n"
  unfolding stripSlashes_def by (cases n rule: rev_cases) auto

lemma stripSlashes_snoc [simp]: "stripSlashes (n @ [slash]) = stripSlashes n"
  by (simp add: stripSlashes_def)

lemma entryName_no_nul: "entryName h = Some n \<Longrightarrow> 0 \<notin> set n"
  by (auto simp: entryName_def Let_def split: if_splits)

lemma parseEntry_safe: "parseEntry blk = Inr (d, n, z) \<Longrightarrow> safe_name n"
  using stripSlashes_last set_stripSlashes entryName_no_nul
  by (fastforce simp: parseEntry_def safe_name_def safeEntryName_iff safe_path_def Let_def
      split: if_splits option.splits)

lemma bodyDone_preserves:
  "cb_preserves cb I \<Longrightarrow> I (ctx r) \<Longrightarrow> I (ctx (snd (bodyDone cb r)))"
  by (cases "call_end cb (ctx r)") (force simp: bodyDone_def cb_preserves_def Let_def)

lemma openEntry_preserves:
  assumes "cb_preserves cb I" "safe_name n" "I (ctx r)"
  shows "I (ctx (snd (openEntry cb d n z r)))"
proof -
  obtain ok c where c: "(if d then call_dir cb (ctx r) n else call_file cb (ctx r) n (ucast z)) = (ok, c)"
    by force
  have "I (snd (if d then call_dir cb (ctx r) n else call_file cb (ctx r) n (ucast z)))"
    using assms by (simp add: cb_preserves_def)
  then have "I c" by (simp add: c)
  with c show ?thesis
    by (cases d) (simp_all add: openEntry_def Let_def bodyDone_preserves [OF assms(1)])
qed

lemma tarHeader_preserves:
  assumes "cb_preserves cb I" "I (ctx r)"
  shows "I (ctx (snd (tarHeader cb blk r)))"
proof -
  have "I (ctx (snd (openEntry cb d n z (r\<lparr>zeroBlocks := 0\<rparr>))))"
    if "parseEntry blk = Inr (d, n, z)" for d n z
    using openEntry_preserves [OF assms(1) parseEntry_safe [OF that], of "r\<lparr>zeroBlocks := 0\<rparr>"] assms(2)
    by simp
  with assms(2) show ?thesis by (auto simp: tarHeader_def Let_def split: sum.split)
qed

lemma tarStep_preserves:
  assumes cb: "cb_preserves cb I" and inv: "tar_inv r" and "I (ctx r)"
  shows "I (ctx (snd (tarStep cb (TARGZ_OK, r) p)))"
  using inv \<open>I (ctx r)\<close>
proof (induction r p rule: tar_induct [where cb = cb])
  case (stop r p)
  then show ?case by (auto simp: tarStep_OK tarConsume_stop)
next
  case (hdr_part r p)
  then show ?case by (auto simp: tarStep_OK tarConsume_hdr_short)
next
  case (hdr r b p)
  obtain e r1 where e: "tarHeader cb (hdr r @ b) (r\<lparr>hdr := []\<rparr>) = (e, r1)" by force
  moreover have "I (ctx r1)"
    using tarHeader_preserves [OF cb, of "r\<lparr>hdr := []\<rparr>" "hdr r @ b"] hdr(5) e by simp
  ultimately show ?case using hdr tarStep_hdr_full [OF hdr(1) _ hdr(3), of cb]
    by (cases "e = TARGZ_OK") (auto simp: tar_inv_def [of r] settle_err)
next
  case (data_part r p)
  have "I (snd (call_data cb (ctx r) p))" using data_part(5) cb by (simp add: cb_preserves_def)
  with data_part show ?case
    by (cases "call_data cb (ctx r) p") (simp add: tarStep_OK tarConsume_data_short settle_def Let_def)
next
  case (data r b p)
  obtain ok c where cd: "(if inFile r then call_data cb (ctx r) b else (True, ctx r)) = (ok, c)" by force
  have "I (snd (if inFile r then call_data cb (ctx r) b else (True, ctx r)))"
    using data(5) cb by (simp add: cb_preserves_def)
  then have c: "I c" by (simp add: cd)
  obtain e r1 where e: "bodyDone cb (r\<lparr>ctx := c, pending := 0\<rparr>) = (e, r1)" by force
  have "I (ctx r1)" using bodyDone_preserves [OF cb, of "r\<lparr>ctx := c, pending := 0\<rparr>"] c e by simp
  then show ?case using data e c tarStep_data_full [OF data(1,3), of cb, unfolded cd]
    by (cases ok; cases "e = TARGZ_OK") (auto simp: tar_inv_def [of r] settle_err)
next
  case (pad_part r p)
  then show ?case by (auto simp: tarStep_OK tarConsume_pad_short)
next
  case (pad r b p)
  then show ?case by (auto simp: tarStep_pad_full tar_inv_def [of r])
qed

subsection \<open>The parser as an incremental consumer\<close>

text \<open>
  What a set of callbacks promises the parser, and what the parser then promises: the
  incremental contract, whatever the cut of the stream.
\<close>

definition tar_ok :: "targz_err \<times> ('c, 'z) tar_state_scheme \<Rightarrow> bool" where
  "tar_ok s \<longleftrightarrow> (fst s = TARGZ_OK \<longrightarrow> tar_inv (snd s))"

locale tar_sink =
  fixes cb :: "'c targz_cb"
  assumes data_in_pieces: "data_hom cb"

sublocale tar_sink \<subseteq> stream_consumer tar_ok "tarStep cb"
proof
  fix s :: "targz_err \<times> ('c, 'b) tar_state_scheme" and xs ys
  assume s: "tar_ok s"
  obtain e r where er: "s = (e, r)" by force
  show "tarStep cb s [] = s" by simp
  show "tar_ok (tarStep cb s xs)"
    using s tarStep_inv [of r cb xs] unfolding er tar_ok_def
    by (cases "e = TARGZ_OK"; cases "tarStep cb (e, r) xs") auto
  show "tarStep cb s (xs @ ys) = tarStep cb (tarStep cb s xs) ys"
    using s tarStep_append [OF data_in_pieces, of r xs ys] unfolding er tar_ok_def
    by (cases "e = TARGZ_OK") auto
qed

context tar_sink
begin

lemma tar_chunks: "tar_ok s \<Longrightarrow> foldl (tarStep cb) s chunks = tarStep cb s (concat chunks)"
  by (rule feed_chunks)

end

end
