(* ===== verification/Targz_Reader.thy ===== *)
theory Targz_Reader
  imports Targz_Tar
begin

unbundle bit_operations_syntax

section \<open>The archive reader: gzip framing around the tar parser (targz.cpp)\<close>

text \<open>
  \<open>targzReaderOpen\<close>, \<open>targzReaderFeed\<close> and \<open>targzReaderFinish\<close> with the gzip member
  header machine, the inflate loop over the wrapping window and the withheld footer. The
  decompressor and the CRC are ROM code: they are fields of \<open>inflate_lib\<close>, an argument of
  every operation that calls them. \<open>tinfl\<close> takes its state, the input, the window, the
  output offset in it and the \<open>final\<close> flag (\<open>HAS_MORE_INPUT\<close> cleared), and returns its
  state, the number of input bytes it took, the bytes it produced and its status (0 is
  \<open>TINFL_STATUS_DONE\<close>, negative a failure). A reader pointer that is null never reaches the
  calls: \<open>targzReaderOpen\<close> returns \<open>None\<close> for it.
\<close>

definition GZ_HDR_LEN :: nat where "GZ_HDR_LEN = 10"
definition GZ_FOOT_LEN :: nat where "GZ_FOOT_LEN = 8"
definition DICT_SIZE :: nat where "DICT_SIZE = 32768"

record 'i inflate_lib =
  tinfl_init :: 'i
  tinfl_decompress :: "'i \<Rightarrow> bytes \<Rightarrow> bytes \<Rightarrow> nat \<Rightarrow> bool \<Rightarrow> 'i \<times> nat \<times> bytes \<times> int"
  mz_crc32 :: "u32 \<Rightarrow> bytes \<Rightarrow> u32"

datatype gz_stage =
    GZ_FIXED | GZ_EXTRA_LEN | GZ_EXTRA | GZ_FNAME | GZ_FCOMMENT | GZ_FHCRC | GZ_DEFLATE | GZ_FOOTER

text \<open>The reader: the parser's record and the framing. \<open>hold\<close> is \<open>hold[0 .. holdLen)\<close>.\<close>

record ('c, 'i) targz_reader = "'c tar_state" +
  inf :: 'i
  dict :: bytes
  dictOfs :: nat
  gz :: gz_stage
  gzBuf :: bytes
  gzHave :: nat
  gzFlags :: byte
  extraLeft :: nat
  hold :: bytes
  crc :: u32
  rawLen :: u64
  err :: targz_err

subsection \<open>Open\<close>

text \<open>\<open>mem_ok\<close> is the outcome of the three allocations; the record is zeroed and then set.\<close>

definition targzReaderOpen :: "'i inflate_lib \<Rightarrow> bool \<Rightarrow> 'c \<Rightarrow> ('c, 'i) targz_reader option" where
  "targzReaderOpen lib mem_ok c =
     (if \<not> mem_ok then None
      else Some \<lparr>ctx = c, tar = TAR_HDR, hdr = [], pending = 0, pad = 0, zeroBlocks = 0,
                 entries = 0, bytes = 0, inFile = False,
                 inf = tinfl_init lib, dict = replicate DICT_SIZE 0, dictOfs = 0,
                 gz = GZ_FIXED, gzBuf = replicate GZ_HDR_LEN 0, gzHave = 0, gzFlags = 0,
                 extraLeft = 0, hold = [], crc = 0, rawLen = 0, err = TARGZ_OK\<rparr>)"

subsection \<open>The member header\<close>

definition gzAfterComment :: "byte \<Rightarrow> gz_stage" where
  "gzAfterComment f = (if f AND 0x02 \<noteq> 0 then GZ_FHCRC else GZ_DEFLATE)"

definition gzAfterName :: "byte \<Rightarrow> gz_stage" where
  "gzAfterName f = (if f AND 0x10 \<noteq> 0 then GZ_FCOMMENT else gzAfterComment f)"

definition gzAfterExtra :: "byte \<Rightarrow> gz_stage" where
  "gzAfterExtra f = (if f AND 0x08 \<noteq> 0 then GZ_FNAME else gzAfterName f)"

definition gzAfterFixed :: "byte \<Rightarrow> gz_stage" where
  "gzAfterFixed f = (if f AND 0x04 \<noteq> 0 then GZ_EXTRA_LEN else gzAfterExtra f)"

text \<open>The cases of the switch that take one byte.\<close>

definition gzByte :: "('c, 'i) targz_reader \<Rightarrow> byte \<Rightarrow> ('c, 'i) targz_reader" where
  "gzByte r c = (case gz r of
     GZ_FIXED \<Rightarrow>
       (let r1 = r\<lparr>gzBuf := (gzBuf r)[gzHave r := c], gzHave := gzHave r + 1\<rparr>
        in if gzHave r1 < GZ_HDR_LEN then r1
           else if gzBuf r1 ! 0 \<noteq> 0x1f \<or> gzBuf r1 ! 1 \<noteq> 0x8b \<or> gzBuf r1 ! 2 \<noteq> 8
           then r1\<lparr>err := TARGZ_ERR_MAGIC\<rparr>
           else r1\<lparr>gzFlags := gzBuf r1 ! 3, gzHave := 0, gz := gzAfterFixed (gzBuf r1 ! 3)\<rparr>)
   | GZ_EXTRA_LEN \<Rightarrow>
       (let r1 = r\<lparr>gzBuf := (gzBuf r)[gzHave r := c], gzHave := gzHave r + 1\<rparr>
        in if gzHave r1 < 2 then r1
           else (let x = unat (of_le16 (gzBuf r1))
                 in r1\<lparr>extraLeft := x, gzHave := 0,
                       gz := (if x \<noteq> 0 then GZ_EXTRA else gzAfterExtra (gzFlags r))\<rparr>))
   | GZ_FNAME \<Rightarrow> (if c \<noteq> 0 then r else r\<lparr>gz := gzAfterName (gzFlags r)\<rparr>)
   | GZ_FCOMMENT \<Rightarrow> (if c \<noteq> 0 then r else r\<lparr>gz := gzAfterComment (gzFlags r)\<rparr>)
   | GZ_FHCRC \<Rightarrow>
       (let r1 = r\<lparr>gzHave := gzHave r + 1\<rparr>
        in if gzHave r1 < 2 then r1 else r1\<lparr>gzHave := 0, gz := GZ_DEFLATE\<rparr>)
   | _ \<Rightarrow> r)"

text \<open>
  The loop: the reader and what it did not take. An error set by the fixed part returns at
  once; \<open>GZ_EXTRA\<close> takes a run at a time.
\<close>

function gzHeader :: "('c, 'i) targz_reader \<Rightarrow> bytes \<Rightarrow> ('c, 'i) targz_reader \<times> bytes" where
  "gzHeader r [] = (r, [])"
| "gzHeader r (c # p) =
     (if gz r = GZ_DEFLATE \<or> gz r = GZ_FOOTER then (r, c # p)
      else if gz r = GZ_EXTRA
      then (let n = min (length (c # p)) (extraLeft r);
                r1 = r\<lparr>extraLeft := extraLeft r - n\<rparr>
            in if extraLeft r1 \<noteq> 0 then gzHeader r1 (drop n (c # p))
               else gzHeader (r1\<lparr>gz := gzAfterExtra (gzFlags r)\<rparr>) (drop n (c # p)))
      else (let r1 = gzByte r c
            in if err r1 = TARGZ_ERR_MAGIC then (r1, p) else gzHeader r1 p))"
  by pat_completeness auto
termination
proof (relation "measure (\<lambda>(r, p). 2 * length p + (if gz r = GZ_EXTRA then 1 else 0))", goal_cases)
  case (2 r c p n r1)
  then show ?case by (cases "extraLeft r") (auto simp: Let_def)
next
  case (3 r c p n r1)
  then show ?case
    by (auto simp: gzAfterExtra_def gzAfterName_def gzAfterComment_def)
qed auto

subsection \<open>Inflating\<close>

partial_function (option) inflateSome :: "'i inflate_lib \<Rightarrow> 'c targz_cb \<Rightarrow> ('c, 'i) targz_reader \<Rightarrow> bytes \<Rightarrow> bool
    \<Rightarrow> (('c, 'i) targz_reader \<times> bytes) option" where
  "inflateSome lib cb r p final =
     (if gz r \<noteq> GZ_DEFLATE then Some (r, p)
      else (case tinfl_decompress lib (inf r) p (dict r) (dictOfs r) final of (i, n, out, st) \<Rightarrow>
        (let q = drop n p;
             r1 = r\<lparr>inf := i, dict := overwrite (dict r) (dictOfs r) out\<rparr>;
             (e, r2) = (if out = [] then (TARGZ_OK, r1)
                        else tarConsume cb (r1\<lparr>crc := mz_crc32 lib (crc r1) out,
                                               rawLen := rawLen r1 + of_nat (length out)\<rparr>) out)
         in if e \<noteq> TARGZ_OK then Some (r2\<lparr>err := e\<rparr>, q)
            else (let r3 = (if out = [] then r2
                            else r2\<lparr>dictOfs := (dictOfs r2 + length out) mod DICT_SIZE\<rparr>)
                  in if st = 0 then Some (r3\<lparr>gz := GZ_FOOTER\<rparr>, q)
                     else if st < 0 then Some (r3\<lparr>err := TARGZ_ERR_DEFLATE\<rparr>, q)
                     else if n = 0 \<and> out = [] then Some (r3, q)
                     else inflateSome lib cb r3 q final))))"

text \<open>One of the two hand-overs of \<open>targzReaderFeed\<close>: inflate a piece, refuse a leftover.\<close>

definition inflatePiece :: "'i inflate_lib \<Rightarrow> 'c targz_cb \<Rightarrow> ('c, 'i) targz_reader \<Rightarrow> bytes
    \<Rightarrow> ('c, 'i) targz_reader option" where
  "inflatePiece lib cb r p =
     (if p = [] then Some r
      else case inflateSome lib cb r p False of
             None \<Rightarrow> None
           | Some (r1, left) \<Rightarrow>
               Some (if err r1 \<noteq> TARGZ_OK then r1
                     else if left \<noteq> [] \<and> gz r1 = GZ_DEFLATE then r1\<lparr>err := TARGZ_ERR_DEFLATE\<rparr>
                     else r1))"

subsection \<open>Feed and finish\<close>

definition holdAndInflate :: "'i inflate_lib \<Rightarrow> 'c targz_cb \<Rightarrow> ('c, 'i) targz_reader \<Rightarrow> bytes
    \<Rightarrow> ('c, 'i) targz_reader option" where
  "holdAndInflate lib cb r p =
     (let total = length (hold r) + length p
      in if total \<le> GZ_FOOT_LEN then Some (r\<lparr>hold := hold r @ p\<rparr>)
         else (let feed = total - GZ_FOOT_LEN;
                   fromHold = (if feed < length (hold r) then feed else length (hold r));
                   fromData = feed - fromHold;
                   next_hold = drop fromHold (hold r) @ drop fromData p
               in case inflatePiece lib cb r (take fromHold (hold r)) of
                    None \<Rightarrow> None
                  | Some r1 \<Rightarrow>
                      (if err r1 \<noteq> TARGZ_OK then Some r1
                       else case inflatePiece lib cb r1 (take fromData p) of
                              None \<Rightarrow> None
                            | Some r2 \<Rightarrow>
                                (if err r2 \<noteq> TARGZ_OK then Some r2
                                 else Some (r2\<lparr>hold := next_hold\<rparr>)))))"

text \<open>The result code is the reader's \<open>err\<close> in every branch of the source.\<close>

definition targzReaderFeed :: "'i inflate_lib \<Rightarrow> 'c targz_cb \<Rightarrow> ('c, 'i) targz_reader \<Rightarrow> bytes
    \<Rightarrow> (targz_err \<times> ('c, 'i) targz_reader) option" where
  "targzReaderFeed lib cb r data =
     (if err r \<noteq> TARGZ_OK then Some (err r, r)
      else (let (r1, p) = (if gz r \<noteq> GZ_DEFLATE \<and> gz r \<noteq> GZ_FOOTER then gzHeader r data else (r, data))
            in if err r1 \<noteq> TARGZ_OK then Some (err r1, r1)
               else if gz r1 \<noteq> GZ_DEFLATE \<and> gz r1 \<noteq> GZ_FOOTER then Some (TARGZ_OK, r1)
               else map_option (\<lambda>r2. (err r2, r2)) (holdAndInflate lib cb r1 p)))"

definition targzReaderFinish :: "'i inflate_lib \<Rightarrow> 'c targz_cb \<Rightarrow> ('c, 'i) targz_reader
    \<Rightarrow> (targz_err \<times> u32 \<times> u64 \<times> 'c) option" where
  "targzReaderFinish lib cb r =
     (case (if err r = TARGZ_OK \<and> gz r = GZ_DEFLATE
            then map_option fst (inflateSome lib cb r [] True) else Some r) of
        None \<Rightarrow> None
      | Some r1 \<Rightarrow>
          Some (if err r1 \<noteq> TARGZ_OK then err r1
                else if gz r1 = GZ_DEFLATE then TARGZ_ERR_TRUNCATED
                else if length (hold r1) < GZ_FOOT_LEN then TARGZ_ERR_TRUNCATED
                else if tar r1 = TAR_DATA \<or> tar r1 = TAR_PAD \<or> hdr r1 \<noteq> [] then TARGZ_ERR_TRUNCATED
                else if of_le32 (take 4 (hold r1)) \<noteq> crc r1 \<or> of_le32 (drop 4 (hold r1)) \<noteq> ucast (rawLen r1)
                then TARGZ_ERR_CRC
                else TARGZ_OK,
                entries r1, bytes r1, ctx r1))"

subsection \<open>The parser inside the reader\<close>

text \<open>
  The parser reads and writes its own fields only: run inside the reader it does what it does
  alone, and the framing fields keep their values.
\<close>

definition core :: "('c, 'z) tar_state_scheme \<Rightarrow> 'c tar_state" where
  "core r = tar_state.truncate r"

lemma core_sel [simp]:
  "ctx (core r) = ctx r" "tar (core r) = tar r" "hdr (core r) = hdr r" "pending (core r) = pending r"
  "pad (core r) = pad r" "zeroBlocks (core r) = zeroBlocks r" "entries (core r) = entries r"
  "bytes (core r) = bytes r" "inFile (core r) = inFile r"
  by (simp_all add: core_def tar_state.defs)

lemma core_upd [simp]:
  "core (r\<lparr>ctx := c\<rparr>) = (core r)\<lparr>ctx := c\<rparr>" "core (r\<lparr>tar := t\<rparr>) = (core r)\<lparr>tar := t\<rparr>"
  "core (r\<lparr>hdr := h\<rparr>) = (core r)\<lparr>hdr := h\<rparr>" "core (r\<lparr>pending := n\<rparr>) = (core r)\<lparr>pending := n\<rparr>"
  "core (r\<lparr>pad := n\<rparr>) = (core r)\<lparr>pad := n\<rparr>" "core (r\<lparr>zeroBlocks := n\<rparr>) = (core r)\<lparr>zeroBlocks := n\<rparr>"
  "core (r\<lparr>entries := k\<rparr>) = (core r)\<lparr>entries := k\<rparr>" "core (r\<lparr>bytes := b\<rparr>) = (core r)\<lparr>bytes := b\<rparr>"
  "core (r\<lparr>inFile := f\<rparr>) = (core r)\<lparr>inFile := f\<rparr>"
  by (simp_all add: core_def tar_state.defs)

lemma core_reader_upd [simp]:
  "core (q\<lparr>inf := i\<rparr>) = core q" "core (q\<lparr>dict := d\<rparr>) = core q" "core (q\<lparr>dictOfs := n\<rparr>) = core q"
  "core (q\<lparr>gz := g\<rparr>) = core q" "core (q\<lparr>gzBuf := b\<rparr>) = core q" "core (q\<lparr>gzHave := n\<rparr>) = core q"
  "core (q\<lparr>gzFlags := f\<rparr>) = core q" "core (q\<lparr>extraLeft := n\<rparr>) = core q" "core (q\<lparr>hold := b\<rparr>) = core q"
  "core (q\<lparr>crc := v\<rparr>) = core q" "core (q\<lparr>rawLen := w\<rparr>) = core q" "core (q\<lparr>err := e\<rparr>) = core q"
  by (simp_all add: core_def tar_state.defs)

definition framing_eq :: "('c, 'z) tar_state_scheme \<Rightarrow> ('c, 'z) tar_state_scheme \<Rightarrow> bool" where
  "framing_eq r r' \<longleftrightarrow> tar_state.more r = tar_state.more r'"

lemma framing_eq_refl [simp]: "framing_eq r r"
  and framing_eq_trans: "framing_eq r s \<Longrightarrow> framing_eq s t \<Longrightarrow> framing_eq r t"
  by (simp_all add: framing_eq_def)

lemma framing_eqD:
  assumes "framing_eq q q'"
  shows "inf q = inf q'" "dict q = dict q'" "dictOfs q = dictOfs q'" "gz q = gz q'" "gzBuf q = gzBuf q'"
    "gzHave q = gzHave q'" "gzFlags q = gzFlags q'" "extraLeft q = extraLeft q'" "hold q = hold q'"
    "crc q = crc q'" "rawLen q = rawLen q'" "err q = err q'"
  using assms by (cases q; cases q'; simp add: framing_eq_def)+

text \<open>An operation of the parser in both settings at once.\<close>

definition same_core :: "('c, 'z) tar_state_scheme \<Rightarrow> targz_err \<times> ('c, 'z) tar_state_scheme
    \<Rightarrow> targz_err \<times> 'c tar_state \<Rightarrow> bool" where
  "same_core r s t \<longleftrightarrow> t = (fst s, core (snd s)) \<and> framing_eq r (snd s)"

lemma bodyDone_core: "same_core r (bodyDone cb r) (bodyDone cb (core r))"
  by (auto simp: same_core_def bodyDone_def framing_eq_def Let_def split: prod.splits)

lemma openEntry_core: "same_core r (openEntry cb d n z r) (openEntry cb d n z (core r))"
proof -
  obtain ok c where c: "(if d then call_dir cb (ctx r) n else call_file cb (ctx r) n (ucast z)) = (ok, c)"
    by force
  then show ?thesis
    using bodyDone_core [of "r\<lparr>entries := entries r + 1, ctx := c, pending := 0, pad := padTo 0\<rparr>" cb]
      bodyDone_core [of "r\<lparr>entries := entries r + 1, ctx := c, inFile := True, pending := 0, bytes := bytes r + z, pad := padTo 0\<rparr>" cb]
    by (cases d) (auto simp: openEntry_def same_core_def framing_eq_def Let_def)
qed

lemma tarHeader_core: "same_core r (tarHeader cb blk r) (tarHeader cb blk (core r))"
  using openEntry_core [of "r\<lparr>zeroBlocks := 0\<rparr>" cb]
  by (auto simp: tarHeader_def same_core_def framing_eq_def Let_def split: sum.splits)

lemma tar_inv_core [simp]: "tar_inv (core r) = tar_inv r"
  by (simp add: tar_inv_def)

lemma tarConsume_core:
  assumes "tar_inv r"
  shows "same_core r (tarConsume cb r p) (tarConsume cb (core r) p)"
  using assms
proof (induction r p rule: tar_induct [where cb = cb])
  case (stop r p)
  then show ?case by (auto simp: tarConsume_stop same_core_def)
next
  case (hdr_part r p)
  then show ?case by (auto simp: tarConsume_hdr_short same_core_def framing_eq_def)
next
  case (hdr r b p)
  obtain e r1 where e: "tarHeader cb (hdr r @ b) (r\<lparr>hdr := []\<rparr>) = (e, r1)" by force
  then have "tarHeader cb (hdr r @ b) ((core r)\<lparr>hdr := []\<rparr>) = (e, core r1)" "framing_eq r r1"
    using tarHeader_core [of "r\<lparr>hdr := []\<rparr>" cb "hdr r @ b"] by (auto simp: same_core_def framing_eq_def)
  then show ?case using hdr e tarConsume_hdr_full [of r b cb p] tarConsume_hdr_full [of "core r" b cb p]
    by (cases "e = TARGZ_OK") (auto simp: same_core_def tar_inv_def [of r] framing_eq_def)
next
  case (data_part r p)
  then show ?case
    by (auto simp: tarConsume_data_short same_core_def framing_eq_def Let_def split: prod.splits)
next
  case (data r b p)
  obtain ok c where cd: "(if inFile r then call_data cb (ctx r) b else (True, ctx r)) = (ok, c)" by force
  obtain e r1 where e: "bodyDone cb (r\<lparr>ctx := c, pending := 0\<rparr>) = (e, r1)" by force
  then have e': "bodyDone cb ((core r)\<lparr>ctx := c, pending := 0\<rparr>) = (e, core r1)" "framing_eq r r1"
    using bodyDone_core [of "r\<lparr>ctx := c, pending := 0\<rparr>" cb] by (auto simp: same_core_def framing_eq_def)
  show ?case using data e e' cd tarConsume_data_full [of r b cb p] tarConsume_data_full [of "core r" b cb p]
    by (cases ok; cases "e = TARGZ_OK") (auto simp: same_core_def tar_inv_def [of r] framing_eq_def)
next
  case (pad_part r p)
  then show ?case by (auto simp: tarConsume_pad_short same_core_def framing_eq_def)
next
  case (pad r b p)
  then show ?case using tarConsume_pad_full [of r b cb p] tarConsume_pad_full [of "core r" b cb p]
    by (auto simp: same_core_def tar_inv_def [of r] framing_eq_def)
qed

subsection \<open>The decompressor's contract on a stream\<close>

text \<open>
  What the reader relies on of \<open>tinfl\<close>: given the next bytes of a deflate stream \<open>z\<close> of
  \<open>raw\<close>, and the window holding the output so far, it takes some of them, writes the next
  bytes of \<open>raw\<close> without running past the end of the window, reports DONE only with all of
  \<open>raw\<close> written, and stalls only when it is owed input that may still come. \<open>on k m i\<close>
  is its state after \<open>k\<close> bytes in and \<open>m\<close> bytes out.
\<close>

definition window_ok :: "bytes \<Rightarrow> bytes \<Rightarrow> bool" where
  "window_ok d done \<longleftrightarrow> length d = DICT_SIZE \<and>
     (\<forall>j < length done. length done \<le> j + DICT_SIZE \<longrightarrow> d ! (j mod DICT_SIZE) = done ! j)"

definition tinfl_decodes :: "'i inflate_lib \<Rightarrow> bytes \<Rightarrow> bytes \<Rightarrow> (nat \<Rightarrow> nat \<Rightarrow> 'i \<Rightarrow> bool) \<Rightarrow> bool" where
  "tinfl_decodes lib z raw on \<longleftrightarrow>
     on 0 0 (tinfl_init lib) \<and>
     (\<forall>k m i inp d final. on k m i \<and> m \<le> length raw \<and> take (length inp) (drop k z) = inp \<and>
        window_ok d (take m raw) \<and> (final \<longrightarrow> inp = [] \<and> k = length z) \<longrightarrow>
        (case tinfl_decompress lib i inp d (m mod DICT_SIZE) final of (i', n, out, st) \<Rightarrow>
           n \<le> length inp \<and> length out \<le> DICT_SIZE - m mod DICT_SIZE \<and>
           take (length out) (drop m raw) = out \<and> on (k + n) (m + length out) i' \<and>
           0 \<le> st \<and> (st = 0 \<longrightarrow> m + length out = length raw) \<and>
           (0 < st \<and> n = 0 \<and> out = [] \<longrightarrow> inp = [] \<and> \<not> final)))"

definition crc_streams :: "'i inflate_lib \<Rightarrow> bool" where
  "crc_streams lib \<longleftrightarrow> (\<forall>c a b. mz_crc32 lib c (a @ b) = mz_crc32 lib (mz_crc32 lib c a) b) \<and> (\<forall>c. mz_crc32 lib c [] = c)"

lemma tinfl_decodesD:
  assumes "tinfl_decodes lib z raw on" "on k m i" "m \<le> length raw" "take (length inp) (drop k z) = inp"
    "window_ok d (take m raw)" "final \<Longrightarrow> inp = [] \<and> k = length z"
    "tinfl_decompress lib i inp d (m mod DICT_SIZE) final = (i', n, out, st)"
  shows "n \<le> length inp" "length out \<le> DICT_SIZE - m mod DICT_SIZE" "take (length out) (drop m raw) = out"
    "on (k + n) (m + length out) i'" "0 \<le> st" "st = 0 \<Longrightarrow> m + length out = length raw"
    "0 < st \<Longrightarrow> n = 0 \<Longrightarrow> out = [] \<Longrightarrow> inp = [] \<and> \<not> final"
proof -
  have "case tinfl_decompress lib i inp d (m mod DICT_SIZE) final of (i', n, out, st) \<Rightarrow>
           n \<le> length inp \<and> length out \<le> DICT_SIZE - m mod DICT_SIZE \<and>
           take (length out) (drop m raw) = out \<and> on (k + n) (m + length out) i' \<and>
           0 \<le> st \<and> (st = 0 \<longrightarrow> m + length out = length raw) \<and>
           (0 < st \<and> n = 0 \<and> out = [] \<longrightarrow> inp = [] \<and> \<not> final)"
    by (rule assms(1) [unfolded tinfl_decodes_def, THEN conjunct2, rule_format]) (use assms(2-6) in blast)
  then show "n \<le> length inp" "length out \<le> DICT_SIZE - m mod DICT_SIZE" "take (length out) (drop m raw) = out"
    "on (k + n) (m + length out) i'" "0 \<le> st" "st = 0 \<Longrightarrow> m + length out = length raw"
    "0 < st \<Longrightarrow> n = 0 \<Longrightarrow> out = [] \<Longrightarrow> inp = [] \<and> \<not> final"
    unfolding assms(7) by auto
qed

text \<open>The window after a produced run: the ring still holds the last \<open>DICT_SIZE\<close> bytes.\<close>

lemma window_ok_overwrite:
  assumes w: "window_ok d done" and len: "length out \<le> DICT_SIZE - length done mod DICT_SIZE"
  shows "window_ok (overwrite d (length done mod DICT_SIZE) out) (done @ out)"
proof -
  let ?o = "length done mod DICT_SIZE" and ?d = "overwrite d (length done mod DICT_SIZE) out"
  have pos: "0 < DICT_SIZE" by (simp add: DICT_SIZE_def)
  then have o: "?o < DICT_SIZE" by simp
  have ld: "length d = DICT_SIZE" using w by (simp add: window_ok_def)
  have l: "length ?d = DICT_SIZE" using len o ld by (simp add: overwrite_def)
  have nth: "?d ! i = (if i < ?o then d ! i else if i < ?o + length out then out ! (i - ?o) else d ! i)"
    if "i < DICT_SIZE" for i
    using that len ld o by (auto simp: overwrite_def nth_append)
  have "?d ! (j mod DICT_SIZE) = (done @ out) ! j"
    if j: "j < length (done @ out)" "length (done @ out) \<le> j + DICT_SIZE" for j
  proof (cases "j < length done")
    case False
    define t where "t = j - length done"
    have t: "j = length done + t" "t < length out" using False j by (auto simp: t_def)
    have "j mod DICT_SIZE = ?o + t"
    proof -
      have "?o + t < DICT_SIZE" using t len o by linarith
      then show ?thesis using t(1) by (metis mod_add_left_eq mod_less)
    qed
    then show ?thesis using t len o by (simp add: nth nth_append)
  next
    case True
    have "\<not> (?o \<le> j mod DICT_SIZE \<and> j mod DICT_SIZE < ?o + length out)"
    proof
      assume a: "?o \<le> j mod DICT_SIZE \<and> j mod DICT_SIZE < ?o + length out"
      define q where "q = length done div DICT_SIZE"
      have L: "length done = q * DICT_SIZE + ?o" by (simp add: q_def)
      have J: "j = (j div DICT_SIZE) * DICT_SIZE + j mod DICT_SIZE" by simp
      have "j div DICT_SIZE < q"
      proof (rule ccontr)
        assume "\<not> j div DICT_SIZE < q"
        then have "q * DICT_SIZE \<le> (j div DICT_SIZE) * DICT_SIZE" by simp
        with a J L True show False by linarith
      qed
      then have "(j div DICT_SIZE + 1) * DICT_SIZE \<le> q * DICT_SIZE" by (intro mult_right_mono) auto
      then have "j div DICT_SIZE * DICT_SIZE + DICT_SIZE \<le> q * DICT_SIZE" by simp
      with a j J L show False by simp
    qed
    moreover have "j mod DICT_SIZE < DICT_SIZE" using pos by simp
    moreover have "d ! (j mod DICT_SIZE) = done ! j" using w True j by (auto simp: window_ok_def)
    ultimately show ?thesis using True by (auto simp: nth nth_append)
  qed
  then show ?thesis using l by (simp add: window_ok_def)
qed

end
