(* ===== verification/Targz_Extract.thy ===== *)
theory Targz_Extract
  imports Targz_Tar
begin

unbundle bit_operations_syntax

section \<open>What a tar stream extracts to\<close>

text \<open>
  An extraction target that keeps what it is told in memory, the byte image of a list of
  entries as \<open>targzWriterAddDir\<close> and \<open>targzWriterAddFile\<close> lay it out, and the theorem that
  the parser turns that image back into the entries. The target interprets \<open>tar_sink\<close>, so
  everything holds for any cut of the stream.
\<close>

datatype tar_item = DirItem bytes | FileItem bytes u32 bytes bool

text \<open>Newest item first; a body run is appended to the open file, the end call completes it.\<close>

fun mem_data :: "tar_item list \<Rightarrow> bytes \<Rightarrow> tar_item list" where
  "mem_data (FileItem n z d False # c) bs = FileItem n z (d @ bs) False # c"
| "mem_data c bs = c"

fun mem_end :: "tar_item list \<Rightarrow> tar_item list" where
  "mem_end (FileItem n z d f # c) = FileItem n z d True # c"
| "mem_end c = c"

definition mem_cb :: "tar_item list targz_cb" where
  "mem_cb = \<lparr>onDir = Some (\<lambda>c n. (True, DirItem n # c)),
             onFile = Some (\<lambda>c n z. (True, FileItem n z [] False # c)),
             onData = Some (\<lambda>c bs. (True, mem_data c bs)),
             onFileEnd = Some (\<lambda>c. (True, mem_end c))\<rparr>"

lemma call_mem [simp]:
  "call_dir mem_cb c n = (True, DirItem n # c)"
  "call_file mem_cb c n z = (True, FileItem n z [] False # c)"
  "call_data mem_cb c bs = (True, mem_data c bs)"
  "call_end mem_cb c = (True, mem_end c)"
  by (simp_all add: mem_cb_def call_dir_def call_file_def call_data_def call_end_def)

lemma mem_data_append: "mem_data c (a @ b) = mem_data (mem_data c a) b"
  by (induction c a rule: mem_data.induct) auto

interpretation mem: tar_sink mem_cb
  by unfold_locales (simp add: data_hom_def mem_data_append)

subsection \<open>The image of an entry\<close>

datatype tar_entry = DirEntry bytes u32 | FileEntry bytes u32 bytes

text \<open>The sealed header block the writer emits, when the name can be represented.\<close>

definition headerBlock :: "byte \<Rightarrow> bytes \<Rightarrow> u32 \<Rightarrow> u32 \<Rightarrow> bytes option" where
  "headerBlock ty name sz mtime =
     map_option (\<lambda>h. ustar_bytes (sealHeader h)) (setEntryName (fillHeader ty sz mtime) name)"

fun entryBlock :: "tar_entry \<Rightarrow> bytes option" where
  "entryBlock (DirEntry name mtime) = headerBlock (of_char CHR ''5'') (name @ [slash]) 0 mtime"
| "entryBlock (FileEntry name mtime body) =
     headerBlock (of_char CHR ''0'') name (of_nat (length body)) mtime"

fun entryBody :: "tar_entry \<Rightarrow> bytes" where
  "entryBody (DirEntry name mtime) = []"
| "entryBody (FileEntry name mtime body) = body @ replicate (padTo (length body)) 0"

definition entryImage :: "tar_entry \<Rightarrow> bytes" where
  "entryImage e = (case entryBlock e of None \<Rightarrow> [] | Some b \<Rightarrow> b @ entryBody e)"

fun entryItem :: "tar_entry \<Rightarrow> tar_item" where
  "entryItem (DirEntry name mtime) = DirItem name"
| "entryItem (FileEntry name mtime body) = FileItem name (of_nat (length body)) body True"

text \<open>An entry the archive can carry: a safe name the header can hold, a body within 32 bits.\<close>

fun entry_wf :: "tar_entry \<Rightarrow> bool" where
  "entry_wf (DirEntry name mtime) = (safe_name name \<and> headerBlock (of_char CHR ''5'') (name @ [slash]) 0 mtime \<noteq> None)"
| "entry_wf (FileEntry name mtime body) =
     (safe_name name \<and> length body < 2 ^ 32 \<and> headerBlock (of_char CHR ''0'') name (of_nat (length body)) mtime \<noteq> None)"

definition entryBytes :: "tar_entry \<Rightarrow> u64" where
  "entryBytes e = (case e of DirEntry _ _ \<Rightarrow> 0 | FileEntry _ _ body \<Rightarrow> of_nat (length body))"

subsection \<open>Reading a header back\<close>

lemma safe_nameD:
  assumes "safe_name n"
  shows "n \<noteq> []" "hd n \<noteq> slash" "0 \<notin> set n" "stripSlashes n = n" "safeEntryName n"
  using assms by (auto simp: safe_name_def safe_path_def safeEntryName_iff stripSlashes_id)

lemma fillHeader_name [simp]: "h_name (fillHeader t s m) = replicate 100 0"
  "h_prefix (fillHeader t s m) = replicate 155 0"
  by (simp_all add: fillHeader_def zero_ustar_def)

lemma setEntryName_keeps:
  assumes "setEntryName h n = Some h'"
  shows "h_size h' = h_size h \<and> h_typeflag h' = h_typeflag h"
  using assms by (auto simp: setEntryName_def Let_def split: if_splits option.splits)

lemma sealHeader_keeps [simp]:
  "h_size (sealHeader h) = h_size h" "h_typeflag (sealHeader h) = h_typeflag h"
  "entryName (sealHeader h) = entryName h"
  by (simp_all add: sealHeader_def entryName_def)

lemma octalValue_fill_size: "octalValue (h_size (fillHeader t sz m)) = ucast sz"
proof -
  have "unat sz < 2 ^ 32" using unsigned_less [of sz] by simp
  then have "unat (ucast sz :: u64) < 8 ^ (12 - 1)" by simp
  from octalValue_octalField_append [OF this, of "[]"] show ?thesis
    by (simp add: fillHeader_def)
qed

lemma headerBlock_SomeE:
  assumes "headerBlock ty name sz mtime = Some blk" "0 \<notin> set name" "hd name \<noteq> slash"
  obtains h where "blk = ustar_bytes h" "ustar_wf h" "entryName h = Some name"
    "octalValue (h_size h) = ucast sz" "h_typeflag h = ty"
    "octalValue (h_chksum h) = ucast (headerChecksum h)"
proof -
  from assms(1) obtain h where h: "setEntryName (fillHeader ty sz mtime) name = Some h"
    and blk: "blk = ustar_bytes (sealHeader h)" by (auto simp: headerBlock_def)
  have wf: "ustar_wf h" using h by (rule setEntryName_wf) simp
  show thesis
  proof (rule that [of "sealHeader h"])
    show "entryName (sealHeader h) = Some name"
      using setEntryName_entryName [OF h] assms(2,3) by simp
    show "octalValue (h_size (sealHeader h)) = ucast sz"
      using setEntryName_keeps [OF h] octalValue_fill_size by simp
    show "h_typeflag (sealHeader h) = ty"
      using setEntryName_keeps [OF h] by (simp add: fillHeader_def)
  qed (use blk wf sealHeader_checksum [OF wf] in auto)
qed

lemma length_headerBlock: "headerBlock ty name sz mtime = Some blk \<Longrightarrow> length blk = TAR_BLOCK"
  using setEntryName_wf by (fastforce simp: headerBlock_def length_ustar_bytes)

lemma typeflag_in_image: "h_typeflag h \<noteq> 0 \<Longrightarrow> \<exists>b \<in> set (ustar_bytes h). b \<noteq> 0"
  by (auto simp: ustar_bytes_def)

lemma parseEntry_file:
  assumes "headerBlock (of_char CHR ''0'') name sz mtime = Some blk" "safe_name name"
  shows "parseEntry blk = Inr (False, name, ucast sz) \<and> (\<exists>b \<in> set blk. b \<noteq> 0)"
proof -
  note n = safe_nameD [OF assms(2)]
  obtain h where h: "blk = ustar_bytes h" "ustar_wf h" "entryName h = Some name"
    "octalValue (h_size h) = ucast sz" "h_typeflag h = of_char CHR ''0''"
    "octalValue (h_chksum h) = ucast (headerChecksum h)"
    by (rule headerBlock_SomeE [OF assms(1) n(3,2)])
  then show ?thesis using n typeflag_in_image [of h]
    by (auto simp: parseEntry_def ustar_of_ustar_bytes)
qed

lemma parseEntry_dir:
  assumes "headerBlock (of_char CHR ''5'') (name @ [slash]) sz mtime = Some blk" "safe_name name"
  shows "parseEntry blk = Inr (True, name, ucast sz) \<and> (\<exists>b \<in> set blk. b \<noteq> 0)"
proof -
  note n = safe_nameD [OF assms(2)]
  have "0 \<notin> set (name @ [slash])" "hd (name @ [slash]) \<noteq> slash" using n by auto
  then obtain h where h: "blk = ustar_bytes h" "ustar_wf h" "entryName h = Some (name @ [slash])"
    "octalValue (h_size h) = ucast sz" "h_typeflag h = of_char CHR ''5''"
    "octalValue (h_chksum h) = ucast (headerChecksum h)"
    by (rule headerBlock_SomeE [OF assms(1)])
  then show ?thesis using n typeflag_in_image [of h]
    by (auto simp: parseEntry_def ustar_of_ustar_bytes)
qed

subsection \<open>Reading an entry back\<close>

text \<open>Between entries: waiting for a header block, none of it seen yet, no file open.\<close>

definition at_boundary :: "('c, 'z) tar_state_scheme \<Rightarrow> bool" where
  "at_boundary r \<longleftrightarrow> tar r = TAR_HDR \<and> hdr r = [] \<and> \<not> inFile r"

lemma at_boundary_inv: "at_boundary r \<Longrightarrow> tar_inv r"
  by (simp add: at_boundary_def tar_inv_def TAR_BLOCK_def)

text \<open>What one entry adds to the reader: an item, a count, its bytes.\<close>

definition absorbed :: "tar_entry \<Rightarrow> (tar_item list, 'z) tar_state_scheme \<Rightarrow> (tar_item list, 'z) tar_state_scheme \<Rightarrow> bool" where
  "absorbed e r r' \<longleftrightarrow> at_boundary r' \<and> ctx r' = entryItem e # ctx r \<and> entries r' = entries r + 1 \<and>
     bytes r' = bytes r + entryBytes e \<and> zeroBlocks r' = 0"

lemma tarStep_block:
  assumes "at_boundary r" "length blk = TAR_BLOCK" "parseEntry blk = Inr (d, n, z)" "\<exists>b \<in> set blk. b \<noteq> 0"
  shows "tarStep cb (TARGZ_OK, r) (blk @ p) = tarStep cb (settle (openEntry cb d n z (r\<lparr>zeroBlocks := 0\<rparr>))) p"
proof -
  have r: "tar r = TAR_HDR" "hdr r = []" "r\<lparr>hdr := []\<rparr> = r"
    using assms(1) by (cases r; simp add: at_boundary_def)+
  have "tarStep cb (TARGZ_OK, r) (blk @ p) = tarStep cb (settle (tarHeader cb (hdr r @ blk) (r\<lparr>hdr := []\<rparr>))) p"
    by (rule tarStep_hdr_full) (use r assms in \<open>auto simp: TAR_BLOCK_def\<close>)
  then show ?thesis using assms r by (auto simp: tarHeader_def)
qed

lemma padTo_0 [simp]: "padTo 0 = 0"
  by (simp add: padTo_def TAR_BLOCK_def)

lemma tarStep_dir:
  assumes "at_boundary r" "entry_wf (DirEntry name mtime)"
  shows "\<exists>r'. tarStep mem_cb (TARGZ_OK, r) (entryImage (DirEntry name mtime)) = (TARGZ_OK, r') \<and>
    absorbed (DirEntry name mtime) r r'"
proof -
  from assms(2) obtain blk where blk: "headerBlock (of_char CHR ''5'') (name @ [slash]) 0 mtime = Some blk"
    and n: "safe_name name" by auto
  note pe = parseEntry_dir [OF blk n]
  have "tarStep mem_cb (TARGZ_OK, r) (blk @ []) =
      settle (openEntry mem_cb True name 0 (r\<lparr>zeroBlocks := 0\<rparr>))"
    using tarStep_block [OF assms(1) length_headerBlock [OF blk], of True name 0 mem_cb "[]"] pe by simp
  then show ?thesis using assms(1) blk
    by (auto simp: entryImage_def openEntry_def bodyDone_def absorbed_def at_boundary_def entryBytes_def Let_def)
qed

lemma tarStep_body:
  assumes "tar r = TAR_DATA" "inFile r" "hdr r = []" "body \<noteq> []" "pending r = length body"
    "pad r = padTo (length body)" "ctx r = FileItem name z [] False # c"
  shows "\<exists>r'. tarStep mem_cb (TARGZ_OK, r) (body @ replicate (padTo (length body)) 0) = (TARGZ_OK, r') \<and>
    at_boundary r' \<and> ctx r' = FileItem name z body True # c \<and> entries r' = entries r \<and>
    bytes r' = bytes r \<and> zeroBlocks r' = zeroBlocks r"
proof -
  let ?r1 = "r\<lparr>pending := 0, ctx := FileItem name z body True # c, inFile := False,
      tar := (if pad r \<noteq> 0 then TAR_PAD else TAR_HDR)\<rparr>"
  have "tarStep mem_cb (TARGZ_OK, r) (body @ p) = tarStep mem_cb (TARGZ_OK, ?r1) p" for p
    using tarStep_data_full [OF assms(1), of body mem_cb p] assms by (simp add: bodyDone_def)
  moreover have "tarStep mem_cb (TARGZ_OK, ?r1) (replicate (pad r) 0 @ []) =
      (TARGZ_OK, if pad r \<noteq> 0 then ?r1\<lparr>pad := 0, tar := TAR_HDR\<rparr> else ?r1)"
    using tarStep_pad_full [of ?r1 "replicate (pad r) 0" mem_cb "[]"] by (cases "pad r = 0") auto
  ultimately show ?thesis using assms by (auto simp: at_boundary_def)
qed

lemma of_nat_u32_u64:
  assumes "n < 2 ^ 32"
  shows "unat (ucast (of_nat n :: u32) :: u64) = n" "ucast (ucast (of_nat n :: u32) :: u64) = (of_nat n :: u32)"
    "(ucast (of_nat n :: u32) :: u64) = of_nat n"
proof -
  have "unat (of_nat n :: u32) = n" using assms by (simp add: unsigned_of_nat take_bit_nat_eq_self_iff)
  then show u: "unat (ucast (of_nat n :: u32) :: u64) = n" by simp
  show "ucast (ucast (of_nat n :: u32) :: u64) = (of_nat n :: u32)"
    by (rule bit_word_eqI) (auto simp: bit_simps)
  have "unat (of_nat n :: u64) = n" using assms by (simp add: unsigned_of_nat take_bit_nat_eq_self_iff)
  with u show "(ucast (of_nat n :: u32) :: u64) = of_nat n" by (simp only: word_unat_eq_iff)
qed

lemma tarStep_file:
  assumes "at_boundary r" "entry_wf (FileEntry name mtime body)"
  shows "\<exists>r'. tarStep mem_cb (TARGZ_OK, r) (entryImage (FileEntry name mtime body)) = (TARGZ_OK, r') \<and>
    absorbed (FileEntry name mtime body) r r'"
proof -
  let ?z = "of_nat (length body) :: u32"
  from assms(2) obtain blk where blk: "headerBlock (of_char CHR ''0'') name ?z mtime = Some blk"
    and n: "safe_name name" and len: "length body < 2 ^ 32" by auto
  note pe = parseEntry_file [OF blk n]
  note z = of_nat_u32_u64 [OF len]
  have blk_step: "tarStep mem_cb (TARGZ_OK, r) (blk @ p) =
      tarStep mem_cb (settle (openEntry mem_cb False name (ucast ?z) (r\<lparr>zeroBlocks := 0\<rparr>))) p" for p
    using tarStep_block [OF assms(1) length_headerBlock [OF blk]] pe by blast
  show ?thesis
  proof (cases "body = []")
    case True
    then show ?thesis using blk_step [of "[]"] assms(1) blk
      by (auto simp: entryImage_def openEntry_def bodyDone_def absorbed_def at_boundary_def entryBytes_def Let_def)
  next
    case False
    let ?r1 = "r\<lparr>zeroBlocks := 0, entries := entries r + 1, ctx := FileItem name ?z [] False # ctx r,
       inFile := True, pending := length body, bytes := bytes r + ucast ?z,
       pad := padTo (length body), tar := TAR_DATA\<rparr>"
    have "openEntry mem_cb False name (ucast ?z) (r\<lparr>zeroBlocks := 0\<rparr>) = (TARGZ_OK, ?r1)"
      using False z by (simp add: openEntry_def Let_def)
    with blk_step have "tarStep mem_cb (TARGZ_OK, r) (entryImage (FileEntry name mtime body)) =
       tarStep mem_cb (TARGZ_OK, ?r1) (body @ replicate (padTo (length body)) 0)"
      using blk by (simp add: entryImage_def)
    moreover have "\<exists>r'. tarStep mem_cb (TARGZ_OK, ?r1) (body @ replicate (padTo (length body)) 0) = (TARGZ_OK, r') \<and>
       at_boundary r' \<and> ctx r' = FileItem name ?z body True # ctx r \<and> entries r' = entries ?r1 \<and>
       bytes r' = bytes ?r1 \<and> zeroBlocks r' = zeroBlocks ?r1"
      by (rule tarStep_body) (use False assms(1) in \<open>auto simp: at_boundary_def\<close>)
    ultimately show ?thesis using z by (auto simp: absorbed_def entryBytes_def)
  qed
qed

lemma tarStep_entry:
  assumes "at_boundary r" "entry_wf e"
  shows "\<exists>r'. tarStep mem_cb (TARGZ_OK, r) (entryImage e) = (TARGZ_OK, r') \<and> absorbed e r r'"
  using assms by (cases e) (simp_all add: tarStep_dir tarStep_file del: entry_wf.simps)

subsection \<open>Reading a whole archive back\<close>

definition tarImage :: "tar_entry list \<Rightarrow> bytes" where
  "tarImage es = concat (map entryImage es) @ replicate (2 * TAR_BLOCK) 0"

lemma tarStep_entries:
  assumes "at_boundary r" "\<forall>e \<in> set es. entry_wf e"
  shows "\<exists>r'. tarStep mem_cb (TARGZ_OK, r) (concat (map entryImage es)) = (TARGZ_OK, r') \<and> at_boundary r' \<and>
    ctx r' = rev (map entryItem es) @ ctx r \<and> entries r' = entries r + of_nat (length es) \<and>
    bytes r' = bytes r + sum_list (map entryBytes es) \<and> (zeroBlocks r = 0 \<longrightarrow> zeroBlocks r' = 0)"
  using assms
proof (induction es arbitrary: r)
  case Nil
  then show ?case by simp
next
  case (Cons e es)
  then obtain r1 where r1: "tarStep mem_cb (TARGZ_OK, r) (entryImage e) = (TARGZ_OK, r1)" "absorbed e r r1"
    using tarStep_entry [of r e] by auto
  then obtain r' where r': "tarStep mem_cb (TARGZ_OK, r1) (concat (map entryImage es)) = (TARGZ_OK, r')"
    "at_boundary r'" "ctx r' = rev (map entryItem es) @ ctx r1" "entries r' = entries r1 + of_nat (length es)"
    "bytes r' = bytes r1 + sum_list (map entryBytes es)" "zeroBlocks r' = 0"
    using Cons.IH [of r1] Cons.prems by (auto simp: absorbed_def)
  have "tarStep mem_cb (TARGZ_OK, r) (entryImage e @ concat (map entryImage es)) = (TARGZ_OK, r')"
    using mem.step_append [of "(TARGZ_OK, r)" "entryImage e"] at_boundary_inv [OF Cons.prems(1)] r1 r'
    by (simp add: tar_ok_def)
  with r1 r' show ?case by (auto simp: absorbed_def algebra_simps)
qed

lemma tarStep_zero_block:
  assumes "at_boundary r"
  shows "tarStep cb (TARGZ_OK, r) (replicate TAR_BLOCK 0 @ p) =
    tarStep cb (TARGZ_OK, (r\<lparr>zeroBlocks := zeroBlocks r + 1\<rparr>)\<lparr>tar := (if zeroBlocks r \<ge> 1 then TAR_END else TAR_HDR)\<rparr>) p"
proof -
  have r: "tar r = TAR_HDR" "hdr r = []" "r\<lparr>hdr := []\<rparr> = r" "r\<lparr>tar := TAR_HDR\<rparr> = r"
    using assms by (cases r; simp add: at_boundary_def)+
  have "tarStep cb (TARGZ_OK, r) (replicate TAR_BLOCK 0 @ p) =
      tarStep cb (settle (tarHeader cb (hdr r @ replicate TAR_BLOCK 0) (r\<lparr>hdr := []\<rparr>))) p"
    by (rule tarStep_hdr_full) (use r assms in \<open>auto simp: TAR_BLOCK_def\<close>)
  then show ?thesis using r by (cases r) (auto simp: tarHeader_def Let_def)
qed

lemma tarStep_image:
  assumes "at_boundary r" "zeroBlocks r = 0" "\<forall>e \<in> set es. entry_wf e"
  shows "\<exists>r'. tarStep mem_cb (TARGZ_OK, r) (tarImage es) = (TARGZ_OK, r') \<and> tar r' = TAR_END \<and> hdr r' = [] \<and>
    ctx r' = rev (map entryItem es) @ ctx r \<and> entries r' = entries r + of_nat (length es) \<and>
    bytes r' = bytes r + sum_list (map entryBytes es)"
proof -
  obtain r1 where r1: "tarStep mem_cb (TARGZ_OK, r) (concat (map entryImage es)) = (TARGZ_OK, r1)"
    "at_boundary r1" "zeroBlocks r1 = 0" "ctx r1 = rev (map entryItem es) @ ctx r"
    "entries r1 = entries r + of_nat (length es)" "bytes r1 = bytes r + sum_list (map entryBytes es)"
    using tarStep_entries [OF assms(1,3)] assms(2) by blast
  let ?r2 = "(r1\<lparr>zeroBlocks := 1\<rparr>)\<lparr>tar := TAR_HDR\<rparr>"
  have b2: "at_boundary ?r2" using r1(2) by (simp add: at_boundary_def)
  have z: "replicate (2 * TAR_BLOCK) (0 :: byte) = replicate TAR_BLOCK 0 @ replicate TAR_BLOCK 0 @ []"
    by (simp add: mult_2 replicate_add)
  have "tarStep mem_cb (TARGZ_OK, r) (tarImage es) = tarStep mem_cb (TARGZ_OK, r1) (replicate (2 * TAR_BLOCK) 0)"
    using mem.step_append [of "(TARGZ_OK, r)" "concat (map entryImage es)"] at_boundary_inv [OF assms(1)] r1
    by (simp add: tarImage_def tar_ok_def)
  also have "\<dots> = tarStep mem_cb (TARGZ_OK, ?r2) (replicate TAR_BLOCK 0 @ [])"
    using tarStep_zero_block [OF r1(2), of mem_cb] r1(3) by (simp add: z)
  also have "\<dots> = (TARGZ_OK, (?r2\<lparr>zeroBlocks := 2\<rparr>)\<lparr>tar := TAR_END\<rparr>)"
    using tarStep_zero_block [OF b2, of mem_cb "[]"] by simp
  finally show ?thesis using r1 by (auto simp: at_boundary_def)
qed

end
