(* ===== verification/Targz_Complete.thy ===== *)
theory Targz_Complete
  imports Targz_Reader Targz_Extract
begin

unbundle bit_operations_syntax

section \<open>A complete archive reads as complete\<close>

text \<open>
  The reader over a whole gzip stream: whatever the cut of the input, it withholds exactly the
  footer, hands the deflate data to the decompressor in order, the inflated bytes to the tar
  parser in order, and ends with the parser's verdict on the uncompressed archive. Every loop
  returns under the decompressor's contract.
\<close>

definition stream_setup :: "'c targz_cb \<Rightarrow> 'i inflate_lib \<Rightarrow> bytes \<Rightarrow> bytes \<Rightarrow> (nat \<Rightarrow> nat \<Rightarrow> 'i \<Rightarrow> bool)
    \<Rightarrow> 'c tar_state \<Rightarrow> 'c tar_state \<Rightarrow> bool" where
  "stream_setup cb lib z raw on t0 t1 \<longleftrightarrow> data_hom cb \<and> tinfl_decodes lib z raw on \<and> crc_streams lib \<and>
     tar_inv t0 \<and> tarStep cb (TARGZ_OK, t0) raw = (TARGZ_OK, t1)"

definition rd_at :: "'c targz_cb \<Rightarrow> 'i inflate_lib \<Rightarrow> bytes \<Rightarrow> (nat \<Rightarrow> nat \<Rightarrow> 'i \<Rightarrow> bool) \<Rightarrow> 'c tar_state
    \<Rightarrow> nat \<Rightarrow> nat \<Rightarrow> ('c, 'i) targz_reader \<Rightarrow> bool" where
  "rd_at cb lib raw on t0 k m r \<longleftrightarrow> gz r = GZ_DEFLATE \<and> err r = TARGZ_OK \<and> on k m (inf r) \<and> m \<le> length raw \<and>
     window_ok (dict r) (take m raw) \<and> dictOfs r = m mod DICT_SIZE \<and> crc r = mz_crc32 lib 0 (take m raw) \<and>
     rawLen r = of_nat m \<and> tarStep cb (TARGZ_OK, t0) (take m raw) = (TARGZ_OK, core r)"

definition rd_done :: "'i inflate_lib \<Rightarrow> bytes \<Rightarrow> 'c tar_state \<Rightarrow> ('c, 'i) targz_reader \<Rightarrow> bool" where
  "rd_done lib raw t1 r \<longleftrightarrow> gz r = GZ_FOOTER \<and> err r = TARGZ_OK \<and> crc r = mz_crc32 lib 0 raw \<and>
     rawLen r = of_nat (length raw) \<and> core r = t1"

lemma tarStep_append_gen:
  assumes "data_hom cb" "tar_inv r"
  shows "tarStep cb (tarStep cb (TARGZ_OK, r) a) b = tarStep cb (TARGZ_OK, r) (a @ b)"
  using tarStep_append [OF assms] by simp

lemma tarStep_prefix_OK:
  assumes "data_hom cb" "tar_inv r" "tarStep cb (TARGZ_OK, r) (a @ b) = (TARGZ_OK, t)"
  obtains t' where "tarStep cb (TARGZ_OK, r) a = (TARGZ_OK, t')" "tar_inv t'"
proof -
  obtain e t' where s: "tarStep cb (TARGZ_OK, r) a = (e, t')" by force
  with assms tarStep_append [OF assms(1,2), of a b] have "e = TARGZ_OK" by (cases "e = TARGZ_OK") auto
  with s assms(2) that show thesis by (auto dest: tarStep_inv)
qed

text \<open>One call of the decompressor and the parsing of what it produced.\<close>

lemma inflate_step:
  assumes S: "stream_setup cb lib z raw on t0 t1" and at: "rd_at cb lib raw on t0 k m r"
    and inp: "take (length inp) (drop k z) = inp" "final \<Longrightarrow> inp = [] \<and> k = length z"
    and call: "tinfl_decompress lib (inf r) inp (dict r) (dictOfs r) final = (i, n, out, st)"
    and r1: "r1 = r\<lparr>inf := i, dict := overwrite (dict r) (dictOfs r) out\<rparr>"
  obtains r3 where
    "(if out = [] then (TARGZ_OK, r1)
      else tarConsume cb (r1\<lparr>crc := mz_crc32 lib (crc r1) out, rawLen := rawLen r1 + of_nat (length out)\<rparr>) out)
        = (TARGZ_OK, r3)"
    "rd_at cb lib raw on t0 (k + n) (m + length out)
       (if out = [] then r3 else r3\<lparr>dictOfs := (dictOfs r3 + length out) mod DICT_SIZE\<rparr>)"
    "hold r3 = hold r"
proof -
  note S' = S [unfolded stream_setup_def]
  note at' = at [unfolded rd_at_def]
  have call': "tinfl_decompress lib (inf r) inp (dict r) (m mod DICT_SIZE) final = (i, n, out, st)"
    using call at' by simp
  have dec: "tinfl_decodes lib z raw on" and on0: "on k m (inf r)" and mle: "m \<le> length raw" and w: "window_ok (dict r) (take m raw)"
    using S' at' by blast+
  note D = tinfl_decodesD [OF dec on0 mle inp(1) w inp(2) call']
  have mle2: "m + length out \<le> length raw"
    using D(3) mle by (metis add_le_cancel_left diff_add_inverse le_add_diff_inverse length_drop length_take min.cobounded2 min.commute)
  have tk: "take (m + length out) raw = take m raw @ out" using D(3) by (simp add: take_add)
  have lm: "length (take m raw) = m" using mle by simp
  have win: "window_ok (overwrite (dict r) (m mod DICT_SIZE) out) (take (m + length out) raw)"
    using window_ok_overwrite [OF w, unfolded lm, OF D(2)] by (simp only: tk)
  have whole: "tarStep cb (TARGZ_OK, t0) ((take m raw @ out) @ drop (m + length out) raw) = (TARGZ_OK, t1)"
    using S' by (simp flip: tk)
  have tar0: "data_hom cb" "tar_inv t0" "tarStep cb (TARGZ_OK, t0) (take m raw) = (TARGZ_OK, core r)"
    using S' at' by auto
  obtain t' where t': "tarStep cb (TARGZ_OK, t0) (take m raw @ out) = (TARGZ_OK, t')"
    by (rule tarStep_prefix_OK [OF tar0(1,2) whole])
  have inv: "tar_inv (core r)" using tar0 by (auto dest: tarStep_inv)
  show thesis
  proof (cases "out = []")
    case True
    with at' D win show thesis
      by (intro that [of r1]) (simp_all add: r1 rd_at_def)
  next
    case False
    let ?q = "r1\<lparr>crc := mz_crc32 lib (crc r1) out, rawLen := rawLen r1 + of_nat (length out)\<rparr>"
    have cq: "core ?q = core r" by (simp add: r1)
    have "settle (tarConsume cb (core r) out) = (TARGZ_OK, t')"
      using tarStep_append [OF tar0(1,2), of "take m raw" out] t' tar0(3) by (simp add: tarStep_OK)
    then have c: "tarConsume cb (core r) out = (TARGZ_OK, t')" by simp
    have "tar_inv ?q" using inv cq tar_inv_core [of ?q] by simp
    from tarConsume_core [OF this, of cb out] obtain r3 where
      r3: "tarConsume cb ?q out = (TARGZ_OK, r3)" "core r3 = t'" "framing_eq ?q r3"
      using c unfolding cq same_core_def by (cases "tarConsume cb ?q out") auto
    note fr = framing_eqD [OF r3(3)]
    show thesis
    proof (rule that [of r3])
      show "rd_at cb lib raw on t0 (k + n) (m + length out)
         (if out = [] then r3 else r3\<lparr>dictOfs := (dictOfs r3 + length out) mod DICT_SIZE\<rparr>)"
        using False at' D(4) mle2 win t' r3(2) S' unfolding rd_at_def
        by (simp add: fr [symmetric] r1 tk crc_streams_def mod_add_left_eq)
    qed (use False r3 fr r1 in auto)
  qed
qed

lemma inf_dict_id: "r\<lparr>inf := i, dict := dict r\<rparr> = r\<lparr>inf := i\<rparr>"
  by (cases r) simp

text \<open>The inflate loop returns, with the piece taken or the stream ended.\<close>

lemma inflateSome_stream:
  assumes S: "stream_setup cb lib z raw on t0 t1" and at: "rd_at cb lib raw on t0 k m r"
    and inp: "take (length inp) (drop k z) = inp" "final \<Longrightarrow> inp = [] \<and> k = length z"
  obtains r' q where "inflateSome lib cb r inp final = Some (r', q)" "hold r' = hold r"
    "rd_done lib raw t1 r' \<or> (\<not> final \<and> q = [] \<and> (\<exists>m'. rd_at cb lib raw on t0 (k + length inp) m' r'))"
proof -
  have "\<exists>r' q. inflateSome lib cb r inp final = Some (r', q) \<and> hold r' = hold r \<and>
      (rd_done lib raw t1 r' \<or> (\<not> final \<and> q = [] \<and> (\<exists>m'. rd_at cb lib raw on t0 (k + length inp) m' r')))"
    using at inp
  proof (induction "length inp + (length raw - m)" arbitrary: inp k m r rule: less_induct)
    case less
    note S' = S [unfolded stream_setup_def]
    note at' = less.prems(1) [unfolded rd_at_def]
    obtain i n out st where call: "tinfl_decompress lib (inf r) inp (dict r) (dictOfs r) final = (i, n, out, st)"
      by (metis prod_cases4)
    have call': "tinfl_decompress lib (inf r) inp (dict r) (m mod DICT_SIZE) final = (i, n, out, st)"
      using call at' by simp
    have dec: "tinfl_decodes lib z raw on" "on k m (inf r)" "m \<le> length raw" "window_ok (dict r) (take m raw)"
      using S' at' by blast+
    note D = tinfl_decodesD [OF dec(1,2,3) less.prems(2) dec(4) less.prems(3) call']
    let ?r1 = "r\<lparr>inf := i, dict := overwrite (dict r) (dictOfs r) out\<rparr>"
    obtain r3 where r3:
      "(if out = [] then (TARGZ_OK, ?r1)
        else tarConsume cb (?r1\<lparr>crc := mz_crc32 lib (crc ?r1) out, rawLen := rawLen ?r1 + of_nat (length out)\<rparr>) out)
         = (TARGZ_OK, r3)"
      "rd_at cb lib raw on t0 (k + n) (m + length out)
        (if out = [] then r3 else r3\<lparr>dictOfs := (dictOfs r3 + length out) mod DICT_SIZE\<rparr>)" "hold r3 = hold r"
      by (rule inflate_step [OF S less.prems call refl])
    let ?r4 = "if out = [] then r3 else r3\<lparr>dictOfs := (dictOfs r3 + length out) mod DICT_SIZE\<rparr>"
    have h4: "hold ?r4 = hold r" using r3(3) by simp
    have g: "gz r = GZ_DEFLATE" using at' by simp
    have unfold: "inflateSome lib cb r inp final =
       (if st = 0 then Some (?r4\<lparr>gz := GZ_FOOTER\<rparr>, drop n inp)
        else if n = 0 \<and> out = [] then Some (?r4, drop n inp)
        else inflateSome lib cb ?r4 (drop n inp) final)"
      using g D(5) r3(1) by (subst inflateSome.simps) (cases "out = []"; auto simp: call Let_def inf_dict_id)
    consider (fin) "st = 0" | (stall) "st > 0" "n = 0" "out = []" | (go) "st > 0" "n \<noteq> 0 \<or> out \<noteq> []"
      using D(5) by linarith
    then show ?case
    proof cases
      case fin
      then have "rd_done lib raw t1 (?r4\<lparr>gz := GZ_FOOTER\<rparr>)"
        using r3(2) D(6) S' by (auto simp: rd_at_def rd_done_def)
      with fin unfold h4 show ?thesis by auto
    next
      case stall
      then have "inp = []" "\<not> final" using D(7) by auto
      with stall unfold h4 r3(2) show ?thesis by auto
    next
      case go
      have "length out \<le> length raw - m" using D(3) by (metis length_drop length_take min.cobounded1)
      then have "length (drop n inp) + (length raw - (m + length out)) < length inp + (length raw - m)"
        using go D(1) at' by (auto simp: length_greater_0_conv [symmetric] simp del: length_greater_0_conv)
      moreover have "take (length (drop n inp)) (drop (k + n) z) = drop n inp"
        using less.prems(2) D(1) by (metis add.commute drop_drop drop_take length_drop)
      moreover have "final \<Longrightarrow> drop n inp = [] \<and> k + n = length z" using less.prems(3) D(1) by auto
      ultimately have "\<exists>r' q. inflateSome lib cb ?r4 (drop n inp) final = Some (r', q) \<and> hold r' = hold ?r4 \<and>
          (rd_done lib raw t1 r' \<or> (\<not> final \<and> q = [] \<and>
            (\<exists>m'. rd_at cb lib raw on t0 (k + n + length (drop n inp)) m' r')))"
        using less.hyps r3(2) by blast
      then show ?thesis using go unfold h4 D(1) by auto
    qed
  qed
  with that show thesis by blast
qed

subsection \<open>The withheld footer\<close>

text \<open>After \<open>k\<close> bytes of deflate data: still inflating with all of them taken, or ended.\<close>

definition rd_fed :: "'c targz_cb \<Rightarrow> 'i inflate_lib \<Rightarrow> bytes \<Rightarrow> (nat \<Rightarrow> nat \<Rightarrow> 'i \<Rightarrow> bool) \<Rightarrow> 'c tar_state \<Rightarrow> 'c tar_state
    \<Rightarrow> nat \<Rightarrow> ('c, 'i) targz_reader \<Rightarrow> bool" where
  "rd_fed cb lib raw on t0 t1 k r \<longleftrightarrow> (\<exists>m. rd_at cb lib raw on t0 k m r) \<or> rd_done lib raw t1 r"

lemma rd_fed_err: "rd_fed cb lib raw on t0 t1 k r \<Longrightarrow> err r = TARGZ_OK"
  by (auto simp: rd_fed_def rd_at_def rd_done_def)

lemma rd_fed_hold [simp]: "rd_fed cb lib raw on t0 t1 k (r\<lparr>hold := h\<rparr>) = rd_fed cb lib raw on t0 t1 k r"
  by (simp add: rd_fed_def rd_at_def rd_done_def)

lemma inflatePiece_stream:
  assumes S: "stream_setup cb lib z raw on t0 t1" and fed: "rd_fed cb lib raw on t0 t1 k r"
    and p: "take (length p) (drop k z) = p"
  obtains r' where "inflatePiece lib cb r p = Some r'" "hold r' = hold r" "rd_fed cb lib raw on t0 t1 (k + length p) r'"
proof -
  have e: "err r = TARGZ_OK" using fed by (rule rd_fed_err)
  consider (nil) "p = []" | (fin) "p \<noteq> []" "rd_done lib raw t1 r" | (at) m where "p \<noteq> []" "rd_at cb lib raw on t0 k m r"
    using fed by (auto simp: rd_fed_def)
  then show thesis
  proof cases
    case nil
    with fed that show thesis by (simp add: inflatePiece_def)
  next
    case fin
    then have "inflateSome lib cb r p False = Some (r, p)"
      by (subst inflateSome.simps) (simp add: rd_done_def)
    with fin e that show thesis by (simp add: inflatePiece_def rd_done_def rd_fed_def)
  next
    case at
    obtain r' q where r': "inflateSome lib cb r p False = Some (r', q)" "hold r' = hold r"
      "rd_done lib raw t1 r' \<or> (\<not> False \<and> q = [] \<and> (\<exists>m'. rd_at cb lib raw on t0 (k + length p) m' r'))"
      by (rule inflateSome_stream [OF S at(2) p, of False]) simp_all
    then have "rd_fed cb lib raw on t0 t1 (k + length p) r'" by (auto simp: rd_fed_def)
    moreover have "inflatePiece lib cb r p = Some r'"
      using r' at rd_fed_err [OF calculation] by (auto simp: inflatePiece_def rd_done_def)
    ultimately show thesis using that r'(2) by blast
  qed
qed

text \<open>
  After \<open>j\<close> bytes of \<open>z @ foot\<close>: the last eight (or all, if fewer) are held, the ones before
  have been inflated.
\<close>

definition body_at :: "'c targz_cb \<Rightarrow> 'i inflate_lib \<Rightarrow> bytes \<Rightarrow> bytes \<Rightarrow> bytes \<Rightarrow> (nat \<Rightarrow> nat \<Rightarrow> 'i \<Rightarrow> bool)
    \<Rightarrow> 'c tar_state \<Rightarrow> 'c tar_state \<Rightarrow> nat \<Rightarrow> ('c, 'i) targz_reader \<Rightarrow> bool" where
  "body_at cb lib z foot raw on t0 t1 j r \<longleftrightarrow>
     hold r = drop (j - GZ_FOOT_LEN) (take j (z @ foot)) \<and> rd_fed cb lib raw on t0 t1 (j - GZ_FOOT_LEN) r"

lemma take_min_append: "take n (xs @ ys) = take (min n (length xs)) xs @ take (n - length xs) ys"
  by (simp add: min_def)

text \<open>The hand-over as list arithmetic: what is held and what arrives, cut at eight from the end.\<close>

lemma window_split:
  fixes z foot p :: "'a list"
  assumes h: "h = drop (j - f) (take j (z @ foot))" and foot: "length foot = f"
    and j: "j \<le> length z + f" and p: "take (length p) (drop j (z @ foot)) = p"
  shows "length h = min f j" "j + length p \<le> length z + f"
    "drop (j - f) (take (j + length p) (z @ foot)) = h @ p"
    "f < length h + length p \<Longrightarrow> take (length h + length p - f) (drop (j - f) z) = take (length h + length p - f) (h @ p)"
proof -
  define B where "B = z @ foot"
  have lB: "length B = length z + f" using foot by (simp add: B_def)
  show lh: "length h = min f j" unfolding h B_def [symmetric] using j lB by (auto simp: min_def)
  have "length p \<le> length (drop j B)" using p unfolding B_def by (metis length_take min.cobounded1)
  then show len: "j + length p \<le> length z + f" using j lB by simp
  have tk: "take (j + length p) B = take j B @ p" using p by (simp only: take_add B_def)
  have "j - f - length (take j B) = 0" using j lB by simp
  then show X: "drop (j - f) (take (j + length p) (z @ foot)) = h @ p"
    unfolding h B_def [symmetric] tk by (simp add: drop_append)
  assume a: "f < length h + length p"
  let ?feed = "length h + length p - f"
  have "j - f + ?feed \<le> length z" using a len lh by (auto simp: min_def split: if_splits)
  moreover have "j - f + ?feed \<le> j + length p" using lh by (auto simp: min_def split: if_splits)
  ultimately show "take ?feed (drop (j - f) z) = take ?feed (h @ p)"
    unfolding X [symmetric] by (simp add: take_drop add.commute min_absorb1)
qed

lemma holdAndInflate_stream:
  assumes S: "stream_setup cb lib z raw on t0 t1" and at: "body_at cb lib z foot raw on t0 t1 j r"
    and foot: "length foot = GZ_FOOT_LEN" and j: "j \<le> length z + GZ_FOOT_LEN"
    and p: "take (length p) (drop j (z @ foot)) = p"
  obtains r' where "holdAndInflate lib cb r p = Some r'" "err r' = TARGZ_OK"
    "body_at cb lib z foot raw on t0 t1 (j + length p) r'"
proof -
  let ?a = "j - GZ_FOOT_LEN" and ?n = "length p"
  have h: "hold r = drop ?a (take j (z @ foot))" and fed: "rd_fed cb lib raw on t0 t1 ?a r"
    using at unfolding body_at_def by blast+
  note w = window_split [OF h foot j p]
  show thesis
  proof (cases "length (hold r) + ?n \<le> GZ_FOOT_LEN")
    case True
    then have e: "j + ?n - GZ_FOOT_LEN = ?a" using w(1) by (auto simp: min_def split: if_splits)
    have "body_at cb lib z foot raw on t0 t1 (j + ?n) (r\<lparr>hold := hold r @ p\<rparr>)"
      unfolding body_at_def e w(3) using fed by simp
    with True that [of "r\<lparr>hold := hold r @ p\<rparr>"] rd_fed_err [OF fed] show thesis
      by (simp add: holdAndInflate_def)
  next
    case False
    define feed where "feed = length (hold r) + ?n - GZ_FOOT_LEN"
    define fh where "fh = (if feed < length (hold r) then feed else length (hold r))"
    define fd where "fd = feed - fh"
    have le: "fd \<le> ?n" "fh \<le> length (hold r)" "fh + fd = feed" using w(1) by (auto simp: fd_def fh_def feed_def)
    have pieces: "take feed (hold r @ p) = take fh (hold r) @ take fd p"
      by (auto simp: fh_def fd_def take_min_append [of feed])
    have rest: "drop feed (hold r @ p) = drop fh (hold r) @ drop fd p"
      by (auto simp: fh_def fd_def)
    have a_feed: "?a + feed = j + ?n - GZ_FOOT_LEN" using False w(1) by (auto simp: feed_def min_def split: if_splits)
    have all: "take feed (drop ?a z) = take fh (hold r) @ take fd p"
      using w(4) False pieces by (simp add: feed_def)
    have p1: "take (length (take fh (hold r))) (drop ?a z) = take fh (hold r)"
      using arg_cong [OF all, of "take fh"] le by (simp add: min_absorb1)
    have p2: "take (length (take fd p)) (drop (?a + fh) z) = take fd p"
      using arg_cong [OF all, of "drop fh"] le fd_def by (simp add: drop_take add.commute min_absorb2)
    obtain r1 where r1: "inflatePiece lib cb r (take fh (hold r)) = Some r1" "hold r1 = hold r"
      "rd_fed cb lib raw on t0 t1 (?a + length (take fh (hold r))) r1"
      by (rule inflatePiece_stream [OF S fed p1])
    then have fed1: "rd_fed cb lib raw on t0 t1 (?a + fh) r1" using le by (simp add: min_absorb2)
    obtain r2 where r2: "inflatePiece lib cb r1 (take fd p) = Some r2" "hold r2 = hold r1"
      "rd_fed cb lib raw on t0 t1 (?a + fh + length (take fd p)) r2"
      by (rule inflatePiece_stream [OF S fed1 p2])
    have k: "?a + fh + length (take fd p) = j + ?n - GZ_FOOT_LEN" using le a_feed by simp
    have fed2: "rd_fed cb lib raw on t0 t1 (j + ?n - GZ_FOOT_LEN) r2" using r2(3) unfolding k .
    have "drop (j + ?n - GZ_FOOT_LEN) (take (j + ?n) (z @ foot)) = drop feed (hold r @ p)"
      unfolding w(3) [symmetric] drop_drop by (simp only: a_feed add.commute [of feed])
    then have "body_at cb lib z foot raw on t0 t1 (j + ?n) (r2\<lparr>hold := drop fh (hold r) @ drop fd p\<rparr>)"
      using fed2 rest unfolding body_at_def by simp
    moreover have "holdAndInflate lib cb r p = Some (r2\<lparr>hold := drop fh (hold r) @ drop fd p\<rparr>)"
      using False r1(1) r2(1) rd_fed_err [OF fed1] rd_fed_err [OF fed2]
      unfolding holdAndInflate_def Let_def feed_def [symmetric] fh_def [symmetric] fd_def [symmetric] by simp
    ultimately show thesis using that rd_fed_err [OF fed2] by simp
  qed
qed

subsection \<open>The member header\<close>

definition gz_in_header :: "('c, 'i) targz_reader \<Rightarrow> bool" where
  "gz_in_header r \<longleftrightarrow> gz r \<noteq> GZ_DEFLATE \<and> gz r \<noteq> GZ_FOOTER"

text \<open>What the header machine leaves alone.\<close>

definition gz_frame :: "('c, 'i) targz_reader \<Rightarrow> ('c, 'i) targz_reader \<Rightarrow> bool" where
  "gz_frame r r' \<longleftrightarrow> core r' = core r \<and> inf r' = inf r \<and> dict r' = dict r \<and> dictOfs r' = dictOfs r \<and>
     hold r' = hold r \<and> crc r' = crc r \<and> rawLen r' = rawLen r"

lemma gzByte_frame: "gz_frame r (gzByte r c)"
  by (auto simp: gz_frame_def gzByte_def Let_def split: gz_stage.splits)

lemma gz_frame_trans: "gz_frame r s \<Longrightarrow> gz_frame s t \<Longrightarrow> gz_frame r t"
  by (simp add: gz_frame_def)

text \<open>The loop by the run it takes: nothing, part or all of the extra field, one byte.\<close>

lemma gzHeader_out: "\<not> gz_in_header r \<Longrightarrow> gzHeader r p = (r, p)"
  by (cases p) (auto simp: gz_in_header_def)

lemma gzHeader_extra_short:
  "gz r = GZ_EXTRA \<Longrightarrow> length a < extraLeft r \<Longrightarrow> gzHeader r a = (r\<lparr>extraLeft := extraLeft r - length a\<rparr>, [])"
  by (cases a) (simp_all add: Let_def min_absorb1)

lemma gzHeader_extra_full:
  "gz r = GZ_EXTRA \<Longrightarrow> length a = extraLeft r \<Longrightarrow> a @ p \<noteq> [] \<Longrightarrow>
   gzHeader r (a @ p) = gzHeader (r\<lparr>extraLeft := 0, gz := gzAfterExtra (gzFlags r)\<rparr>) p"
proof -
  assume a: "gz r = GZ_EXTRA" "length a = extraLeft r" "a @ p \<noteq> []"
  then obtain c q where c: "a @ p = c # q" by (meson neq_Nil_conv)
  have "min (length (a @ p)) (extraLeft r) = extraLeft r" using a by simp
  moreover have "drop (extraLeft r) (a @ p) = p" using a(2) by simp
  ultimately show ?thesis using a(1) unfolding c by (simp add: Let_def)
qed

lemma gzHeader_byte:
  "gz_in_header r \<Longrightarrow> gz r \<noteq> GZ_EXTRA \<Longrightarrow>
   gzHeader r (c # p) = (if err (gzByte r c) = TARGZ_ERR_MAGIC then (gzByte r c, p) else gzHeader (gzByte r c) p)"
  by (simp add: gz_in_header_def Let_def)

lemma gz_in_header_extra: "gz r = GZ_EXTRA \<Longrightarrow> gz_in_header r"
  by (simp add: gz_in_header_def)

lemma gzAfterExtra_stage: "gzAfterExtra f \<noteq> GZ_EXTRA"
  by (simp add: gzAfterExtra_def gzAfterName_def gzAfterComment_def)

lemma gz_induct [case_names out empty short extra byte]:
  assumes "\<And>r p. \<not> gz_in_header r \<Longrightarrow> P r p"
    and "\<And>r. gz_in_header r \<Longrightarrow> P r []"
    and "\<And>r p. gz r = GZ_EXTRA \<Longrightarrow> length p < extraLeft r \<Longrightarrow> P r p"
    and "\<And>r a p. gz r = GZ_EXTRA \<Longrightarrow> length a = extraLeft r \<Longrightarrow> a @ p \<noteq> [] \<Longrightarrow>
           P (r\<lparr>extraLeft := 0, gz := gzAfterExtra (gzFlags r)\<rparr>) p \<Longrightarrow> P r (a @ p)"
    and "\<And>r c p. gz_in_header r \<Longrightarrow> gz r \<noteq> GZ_EXTRA \<Longrightarrow> P (gzByte r c) p \<Longrightarrow> P r (c # p)"
  shows "P r p"
proof (induction "2 * length p + (if gz r = GZ_EXTRA then 1 else 0)" arbitrary: r p rule: less_induct)
  case less
  consider "\<not> gz_in_header r" | "gz_in_header r" "p = []" | "gz r = GZ_EXTRA" "length p < extraLeft r"
    | (e) "gz r = GZ_EXTRA" "extraLeft r \<le> length p" "p \<noteq> []"
    | (b) c q where "gz_in_header r" "gz r \<noteq> GZ_EXTRA" "p = c # q"
    by (metis linorder_not_less neq_Nil_conv)
  then show ?case
  proof cases
    case e
    have "P (r\<lparr>extraLeft := 0, gz := gzAfterExtra (gzFlags r)\<rparr>) (drop (extraLeft r) p)"
      using e by (intro less) (simp add: gzAfterExtra_stage)
    then have "P r (take (extraLeft r) p @ drop (extraLeft r) p)"
      using e by (intro assms(4)) simp_all
    then show ?thesis by simp
  next
    case b
    then have "P (gzByte r c) q" by (intro less) simp
    with b assms(5) show ?thesis by simp
  qed (use assms in auto)
qed

lemma gzHeader_frame: "gz_frame r (fst (gzHeader r p))"
proof (induction r p rule: gz_induct)
  case (extra r a p)
  then show ?case by (simp add: gzHeader_extra_full) (simp add: gz_frame_def)
next
  case (byte r c p)
  then have "gz_frame r (fst (gzHeader (gzByte r c) p))" using gz_frame_trans [OF gzByte_frame] by blast
  with byte gzByte_frame [of r c] show ?case
    by (simp add: gzHeader_byte del: gzHeader.simps)
qed (simp_all add: gzHeader_out gzHeader_extra_short, simp_all add: gz_frame_def)

lemma gzHeader_append:
  assumes "err r \<noteq> TARGZ_ERR_MAGIC" "gzHeader r a = (r1, q)"
  shows "gzHeader r (a @ b) = (if err r1 = TARGZ_ERR_MAGIC \<or> \<not> gz_in_header r1 then (r1, q @ b) else gzHeader r1 b)"
  using assms
proof (induction r a arbitrary: r1 q rule: gz_induct)
  case (short r p)
  then have r1: "r1 = r\<lparr>extraLeft := extraLeft r - length p\<rparr>" "q = []" by (simp_all add: gzHeader_extra_short)
  show ?case
  proof (cases "length (p @ b) < extraLeft r")
    case True
    with short r1 show ?thesis by (simp add: gzHeader_extra_short gz_in_header_extra)
  next
    case False
    let ?n = "extraLeft r - length p"
    have "gzHeader r ((p @ take ?n b) @ drop ?n b) = gzHeader (r\<lparr>extraLeft := 0, gz := gzAfterExtra (gzFlags r)\<rparr>) (drop ?n b)"
      by (rule gzHeader_extra_full) (use short False in auto)
    moreover have "gzHeader r1 (take ?n b @ drop ?n b) = gzHeader (r1\<lparr>extraLeft := 0, gz := gzAfterExtra (gzFlags r1)\<rparr>) (drop ?n b)"
      by (rule gzHeader_extra_full) (use short False r1 in auto)
    ultimately show ?thesis using short r1 by (simp add: gz_in_header_extra)
  qed
next
  case (extra r a p)
  from extra.prems extra.hyps have "gzHeader (r\<lparr>extraLeft := 0, gz := gzAfterExtra (gzFlags r)\<rparr>) p = (r1, q)"
    by (simp add: gzHeader_extra_full)
  moreover have "a @ p @ b \<noteq> []" using extra.hyps(3) by auto
  ultimately show ?case
    using extra.IH extra.prems(1) gzHeader_extra_full [OF extra.hyps(1,2), of "p @ b"] by simp
next
  case (byte r c p)
  then show ?case by (auto simp: gzHeader_byte simp del: gzHeader.simps split: if_splits)
qed (auto simp: gzHeader_out)

text \<open>
  The member header of RFC 1952 as a byte string, with every optional field it can carry. The
  header machine takes all of it and nothing after it.
\<close>

definition gzMember :: "byte \<Rightarrow> bytes \<Rightarrow> bytes \<Rightarrow> bytes \<Rightarrow> bytes \<Rightarrow> bytes \<Rightarrow> bytes" where
  "gzMember f mid extra name comment hcrc =
     [0x1f, 0x8b, 8, f] @ mid @
     (if f AND 0x04 \<noteq> 0 then le16 (of_nat (length extra)) @ extra else []) @
     (if f AND 0x08 \<noteq> 0 then name @ [0] else []) @
     (if f AND 0x10 \<noteq> 0 then comment @ [0] else []) @
     (if f AND 0x02 \<noteq> 0 then hcrc else [])"

definition gzMember_wf :: "bytes \<Rightarrow> bytes \<Rightarrow> bytes \<Rightarrow> bytes \<Rightarrow> bytes \<Rightarrow> bool" where
  "gzMember_wf mid extra name comment hcrc \<longleftrightarrow> length mid = 6 \<and> length extra < 65536 \<and>
     0 \<notin> set name \<and> 0 \<notin> set comment \<and> length hcrc = 2"

lemma gzHeader_fixed:
  assumes "gz r = GZ_FIXED" "gzHave r = 0" "length (gzBuf r) = 10" "length mid = 6" "err r \<noteq> TARGZ_ERR_MAGIC"
  shows "\<exists>b. gzHeader r ([0x1f, 0x8b, 8, f] @ mid @ p) =
     gzHeader (r\<lparr>gzBuf := b, gzFlags := f, gzHave := 0, gz := gzAfterFixed f\<rparr>) p \<and> length b = 10"
proof -
  obtain m0 m1 m2 m3 m4 m5 where m: "mid = [m0, m1, m2, m3, m4, m5]"
    using assms(4) by (auto simp: length_Suc_conv numeral_eq_Suc)
  obtain a0 a1 a2 a3 a4 a5 a6 a7 a8 a9 where a: "gzBuf r = [a0, a1, a2, a3, a4, a5, a6, a7, a8, a9]"
    using assms(3) by (auto simp: length_Suc_conv numeral_eq_Suc)
  show ?thesis
    using assms(1,2,5) by (intro exI [of _ "[0x1f, 0x8b, 8, f] @ mid"])
      (simp add: m a gzByte_def GZ_HDR_LEN_def Let_def)
qed

lemma gzHeader_text:
  assumes "0 \<notin> set name" "err r \<noteq> TARGZ_ERR_MAGIC"
  shows "gz r = GZ_FNAME \<Longrightarrow> gzHeader r (name @ 0 # p) = gzHeader (r\<lparr>gz := gzAfterName (gzFlags r)\<rparr>) p"
    "gz r = GZ_FCOMMENT \<Longrightarrow> gzHeader r (name @ 0 # p) = gzHeader (r\<lparr>gz := gzAfterComment (gzFlags r)\<rparr>) p"
  using assms by (induction name) (auto simp: gzByte_def Let_def)

lemma gzHeader_extra_field:
  assumes "gz r = GZ_EXTRA_LEN" "gzHave r = 0" "length (gzBuf r) = 10" "length extra < 65536" "err r \<noteq> TARGZ_ERR_MAGIC"
  shows "\<exists>b. gzHeader r (le16 (of_nat (length extra)) @ extra @ p) =
     gzHeader (r\<lparr>gzBuf := b, extraLeft := 0, gzHave := 0, gz := gzAfterExtra (gzFlags r)\<rparr>) p \<and> length b = 10"
proof -
  obtain x0 x1 where x: "le16 (of_nat (length extra)) = [x0, x1]"
    by (metis (no_types, opaque_lifting) le16_def)
  obtain a0 a1 as where a: "gzBuf r = a0 # a1 # as"
    using assms(3) by (auto simp: length_Suc_conv numeral_eq_Suc)
  have l: "unat (of_le16 [x0, x1]) = length extra"
    using assms(4) by (simp add: x [symmetric] of_le16_le16 unat_of_nat)
  have "of_le16 (x0 # x1 # as) = of_le16 [x0, x1]" by (simp add: of_le16_def)
  then have n: "unat (of_le16 (x0 # x1 # as)) = length extra" using l by simp
  let ?b = "x0 # x1 # as" and ?q = "r\<lparr>gzBuf := x0 # x1 # as, extraLeft := length extra, gzHave := 0, gz := GZ_EXTRA\<rparr>"
  show ?thesis
  proof (cases "extra = []")
    case True
    have "gzHeader r ([x0, x1] @ extra @ p) = gzHeader (r\<lparr>gzBuf := ?b, extraLeft := 0, gzHave := 0, gz := gzAfterExtra (gzFlags r)\<rparr>) p"
      using assms n True by (simp add: a gzByte_def Let_def)
    then show ?thesis unfolding x using assms(3) a by (intro exI [of _ ?b]) simp
  next
    case False
    have "gzHeader r ([x0, x1] @ extra @ p) = gzHeader ?q (extra @ p)"
      using assms n False by (simp add: a gzByte_def Let_def del: gzHeader.simps add: gzHeader_byte gz_in_header_def)
    also have "\<dots> = gzHeader (?q\<lparr>extraLeft := 0, gz := gzAfterExtra (gzFlags ?q)\<rparr>) p"
      using False by (intro gzHeader_extra_full) simp_all
    also have "?q\<lparr>extraLeft := 0, gz := gzAfterExtra (gzFlags ?q)\<rparr> =
        r\<lparr>gzBuf := ?b, extraLeft := 0, gzHave := 0, gz := gzAfterExtra (gzFlags r)\<rparr>" by (cases r) simp
    finally show ?thesis unfolding x using assms(3) a by (intro exI [of _ ?b]) simp
  qed
qed

lemma gzHeader_hcrc:
  assumes "gz r = GZ_FHCRC" "gzHave r = 0" "length hcrc = 2" "err r \<noteq> TARGZ_ERR_MAGIC"
  shows "gzHeader r (hcrc @ p) = gzHeader (r\<lparr>gzHave := 0, gz := GZ_DEFLATE\<rparr>) p"
proof -
  obtain a b where "hcrc = [a, b]" using assms(3) by (auto simp: length_Suc_conv numeral_eq_Suc)
  with assms show ?thesis by (simp add: gzByte_def Let_def)
qed

lemma gzHeader_member:
  fixes r :: "('c, 'i) targz_reader"
  assumes r: "gz r = GZ_FIXED" "gzHave r = 0" "length (gzBuf r) = 10" "err r = TARGZ_OK"
    and wf: "gzMember_wf mid extra name comment hcrc"
  obtains r' where "gzHeader r (gzMember f mid extra name comment hcrc) = (r', [])"
    "gz r' = GZ_DEFLATE" "err r' = TARGZ_OK"
proof -
  define c where "c = (if f AND 0x02 \<noteq> 0 then hcrc else [])"
  define d where "d = (if f AND 0x10 \<noteq> 0 then comment @ [0] else [])"
  define n where "n = (if f AND 0x08 \<noteq> 0 then name @ [0] else [])"
  define x where "x = (if f AND 0x04 \<noteq> 0 then le16 (of_nat (length extra)) @ extra else [])"
  have wf': "length mid = 6" "length extra < 65536" "0 \<notin> set name" "0 \<notin> set comment" "length hcrc = 2"
    using wf by (auto simp: gzMember_wf_def)
  let ?P = "\<lambda>g p. \<forall>q :: ('c, 'i) targz_reader. gz q = g \<and> gzFlags q = f \<and> gzHave q = 0 \<and> length (gzBuf q) = 10 \<and> err q = TARGZ_OK \<longrightarrow>
     (\<exists>r'. gzHeader q p = (r', []) \<and> gz r' = GZ_DEFLATE \<and> err r' = TARGZ_OK)"
  have c: "?P (gzAfterComment f) c"
    using wf'(5) by (auto simp: gzAfterComment_def c_def gzHeader_hcrc [where p = "[]", simplified])
  have d: "?P (gzAfterName f) (d @ c)"
    using c wf'(4) by (auto simp: gzAfterName_def d_def gzHeader_text(2))
  have n: "?P (gzAfterExtra f) (n @ d @ c)"
    using d wf'(3) by (auto simp: gzAfterExtra_def n_def gzHeader_text(1))
  have x: "?P (gzAfterFixed f) (x @ n @ d @ c)"
  proof (cases "f AND 0x04 = 0")
    case True
    with n show ?thesis by (simp add: gzAfterFixed_def x_def)
  next
    case False
    show ?thesis
    proof (intro allI impI)
      fix q :: "('c, 'i) targz_reader"
      assume q: "gz q = gzAfterFixed f \<and> gzFlags q = f \<and> gzHave q = 0 \<and> length (gzBuf q) = 10 \<and> err q = TARGZ_OK"
      then obtain b where "gzHeader q (x @ n @ d @ c) =
          gzHeader (q\<lparr>gzBuf := b, extraLeft := 0, gzHave := 0, gz := gzAfterExtra f\<rparr>) (n @ d @ c)" "length b = 10"
        using gzHeader_extra_field [of q extra "n @ d @ c"] False wf'(2) by (auto simp: gzAfterFixed_def x_def)
      then show "\<exists>r'. gzHeader q (x @ n @ d @ c) = (r', []) \<and> gz r' = GZ_DEFLATE \<and> err r' = TARGZ_OK"
        using n q by simp
    qed
  qed
  obtain b where b: "gzHeader r (gzMember f mid extra name comment hcrc) =
      gzHeader (r\<lparr>gzBuf := b, gzFlags := f, gzHave := 0, gz := gzAfterFixed f\<rparr>) (x @ n @ d @ c)" "length b = 10"
    using gzHeader_fixed [OF r(1-3) wf'(1), of f "x @ n @ d @ c"] r(4)
    unfolding gzMember_def x_def n_def d_def c_def by auto
  let ?q = "r\<lparr>gzBuf := b, gzFlags := f, gzHave := 0, gz := gzAfterFixed f\<rparr>"
  have "\<exists>r'. gzHeader ?q (x @ n @ d @ c) = (r', []) \<and> gz r' = GZ_DEFLATE \<and> err r' = TARGZ_OK"
    using b(2) r(4) by (intro x [rule_format]) simp
  with b(1) that show thesis by auto
qed

subsection \<open>The whole stream\<close>

text \<open>
  After \<open>j\<close> bytes of header, deflate data and footer: the header machine has run over the
  part of the header that arrived, or the body state holds.
\<close>

definition stream_at :: "'c targz_cb \<Rightarrow> 'i inflate_lib \<Rightarrow> bytes \<Rightarrow> bytes \<Rightarrow> bytes \<Rightarrow> bytes \<Rightarrow> (nat \<Rightarrow> nat \<Rightarrow> 'i \<Rightarrow> bool)
    \<Rightarrow> 'c tar_state \<Rightarrow> 'c tar_state \<Rightarrow> ('c, 'i) targz_reader \<Rightarrow> nat \<Rightarrow> ('c, 'i) targz_reader \<Rightarrow> bool" where
  "stream_at cb lib H z foot raw on t0 t1 r0 j r \<longleftrightarrow>
     (if j < length H then gzHeader r0 (take j H) = (r, []) \<and> gz_in_header r \<and> err r = TARGZ_OK
      else body_at cb lib z foot raw on t0 t1 (j - length H) r \<and> err r = TARGZ_OK \<and> \<not> gz_in_header r)"

definition fresh_reader :: "'i inflate_lib \<Rightarrow> 'c tar_state \<Rightarrow> ('c, 'i) targz_reader \<Rightarrow> bool" where
  "fresh_reader lib t0 r \<longleftrightarrow> core r = t0 \<and> inf r = tinfl_init lib \<and> length (dict r) = DICT_SIZE \<and> dictOfs r = 0 \<and>
     hold r = [] \<and> crc r = 0 \<and> rawLen r = 0 \<and> err r = TARGZ_OK \<and> gz r = GZ_FIXED \<and> gzHave r = 0 \<and> length (gzBuf r) = 10"

lemma fresh_gz_frame:
  assumes "stream_setup cb lib z raw on t0 t1" "fresh_reader lib t0 r0" "gz_frame r0 r" "gz r = GZ_DEFLATE" "err r = TARGZ_OK"
  shows "body_at cb lib z foot raw on t0 t1 0 r"
proof -
  have c: "mz_crc32 lib 0 [] = 0" and on0: "on 0 0 (tinfl_init lib)"
    using assms(1) by (auto simp: stream_setup_def tinfl_decodes_def crc_streams_def)
  have "rd_at cb lib raw on t0 0 0 r"
    using assms(2-5) c on0 by (simp add: rd_at_def fresh_reader_def gz_frame_def window_ok_def tarStep_OK)
  then show ?thesis using assms(2,3) by (auto simp: body_at_def rd_fed_def fresh_reader_def gz_frame_def)
qed

lemma body_at_stage: "body_at cb lib z foot raw on t0 t1 j r \<Longrightarrow> \<not> gz_in_header r"
  by (auto simp: body_at_def rd_fed_def rd_at_def rd_done_def gz_in_header_def)

lemma gzHeader_err:
  "err r = TARGZ_OK \<Longrightarrow> err (fst (gzHeader r p)) = TARGZ_OK \<or> err (fst (gzHeader r p)) = TARGZ_ERR_MAGIC"
proof (induction r p rule: gz_induct)
  case (byte u c p)
  have "err (gzByte u c) = TARGZ_OK \<or> err (gzByte u c) = TARGZ_ERR_MAGIC"
    using byte by (auto simp: gzByte_def Let_def split: gz_stage.splits)
  with byte show ?case by (auto simp: gzHeader_byte simp del: gzHeader.simps)
qed (auto simp: gzHeader_out gzHeader_extra_short gzHeader_extra_full)

lemma gzHeader_all:
  "snd (gzHeader r p) = [] \<or> err (fst (gzHeader r p)) = TARGZ_ERR_MAGIC \<or> \<not> gz_in_header (fst (gzHeader r p))"
proof (induction r p rule: gz_induct)
  case (byte u c p)
  then show ?case by (auto simp: gzHeader_byte simp del: gzHeader.simps)
qed (auto simp: gzHeader_out gzHeader_extra_short gzHeader_extra_full)

lemma gzHeader_prefix:
  assumes "gzHeader r0 H = (rh, [])" "err rh = TARGZ_OK" "err r0 = TARGZ_OK" "j < length H"
  obtains r where "gzHeader r0 (take j H) = (r, [])" "gz_in_header r" "err r = TARGZ_OK"
    "gzHeader r (drop j H) = (rh, [])"
proof -
  obtain r q where r: "gzHeader r0 (take j H) = (r, q)" by force
  from gzHeader_append [OF _ this, of "drop j H"] assms
  have s: "(if err r = TARGZ_ERR_MAGIC \<or> \<not> gz_in_header r then (r, q @ drop j H) else gzHeader r (drop j H)) = (rh, [])"
    by simp
  then have "err r \<noteq> TARGZ_ERR_MAGIC" "gz_in_header r" using assms(4) by (auto split: if_splits)
  moreover from this have "q = []" "err r = TARGZ_OK"
    using gzHeader_err [OF assms(3), of "take j H"] gzHeader_all [of r0 "take j H"] r by auto
  ultimately show thesis using s r that by simp
qed

text \<open>One call of \<open>targzReaderFeed\<close> with the next bytes, wherever it is cut.\<close>

lemma targzReaderFeed_stream:
  assumes S: "stream_setup cb lib z raw on t0 t1" and fr: "fresh_reader lib t0 r0" and foot: "length foot = GZ_FOOT_LEN"
    and H: "gzHeader r0 H = (rh, [])" "gz rh = GZ_DEFLATE" "err rh = TARGZ_OK"
    and at: "stream_at cb lib H z foot raw on t0 t1 r0 j r"
    and j: "j \<le> length H + length z + GZ_FOOT_LEN" and p: "take (length p) (drop j (H @ z @ foot)) = p"
  obtains r' where "targzReaderFeed lib cb r p = Some (TARGZ_OK, r')"
    "stream_at cb lib H z foot raw on t0 t1 r0 (j + length p) r'"
proof (cases "j < length H")
  case False
  have b: "body_at cb lib z foot raw on t0 t1 (j - length H) r" and e: "err r = TARGZ_OK" "\<not> gz_in_header r"
    using at False unfolding stream_at_def by auto
  obtain r' where r': "holdAndInflate lib cb r p = Some r'" "err r' = TARGZ_OK"
    "body_at cb lib z foot raw on t0 t1 (j - length H + length p) r'"
    by (rule holdAndInflate_stream [OF S b foot]) (use j p False in \<open>simp_all add: drop_append\<close>)
  have "targzReaderFeed lib cb r p = Some (TARGZ_OK, r')"
    using e r' by (auto simp: targzReaderFeed_def gz_in_header_def)
  moreover have "stream_at cb lib H z foot raw on t0 t1 r0 (j + length p) r'"
    using r' False body_at_stage [OF r'(3)] by (simp add: stream_at_def)
  ultimately show thesis by (rule that)
next
  case True
  have h: "gzHeader r0 (take j H) = (r, [])" "gz_in_header r" and e: "err r = TARGZ_OK"
    using at True unfolding stream_at_def by auto
  have e0: "err r0 = TARGZ_OK" using fr by (simp add: fresh_reader_def)
  have cut: "gzHeader r0 (take j H @ q) = gzHeader r q" for q
    using gzHeader_append [OF _ h(1), of q] e0 e h(2) by simp
  show thesis
  proof (cases "j + length p < length H")
    case short: True
    then have tk: "take j H @ p = take (j + length p) H" using p by (simp add: take_add)
    obtain r' where r': "gzHeader r0 (take (j + length p) H) = (r', [])" "gz_in_header r'" "err r' = TARGZ_OK"
      by (rule gzHeader_prefix [OF H(1,3) e0 short])
    then have "gzHeader r p = (r', [])" using cut [of p] by (simp add: tk)
    then have "targzReaderFeed lib cb r p = Some (TARGZ_OK, r')"
      using r' h(2) e by (simp add: targzReaderFeed_def gz_in_header_def)
    moreover have "stream_at cb lib H z foot raw on t0 t1 r0 (j + length p) r'"
      using r' short by (simp add: stream_at_def)
    ultimately show thesis by (rule that)
  next
    case long: False
    define n where "n = length H - j"
    have n: "n \<le> length p" using long by (simp add: n_def)
    have "p = take (length p) (drop j H @ z @ foot)" using p True by (simp add: drop_append)
    also have "\<dots> = drop j H @ take (length p - n) (z @ foot)" using n by (simp add: n_def)
    finally have p3: "p = drop j H @ take (length p - n) (z @ foot)" .
    have p12: "take n p = drop j H" "drop n p = take (length p - n) (z @ foot)"
      by (subst p3, simp add: n_def)+
    have "gzHeader r (drop j H) = (rh, [])" using cut [of "drop j H"] H(1) by simp
    from gzHeader_append [OF _ this, of "drop n p"] e H
    have "gzHeader r (take n p @ drop n p) = (rh, drop n p)" unfolding p12(1) by (simp add: gz_in_header_def)
    then have hp: "gzHeader r p = (rh, drop n p)" by simp
    have "gz_frame r0 rh" using gzHeader_frame [of r0 H] H(1) by simp
    then have b: "body_at cb lib z foot raw on t0 t1 0 rh" by (rule fresh_gz_frame [OF S fr _ H(2,3)])
    obtain r' where r': "holdAndInflate lib cb rh (drop n p) = Some r'" "err r' = TARGZ_OK"
      "body_at cb lib z foot raw on t0 t1 (0 + length (drop n p)) r'"
    proof (rule holdAndInflate_stream [OF S b foot])
      have "length (take (length p - n) (z @ foot)) = length p - n" using p12(2) n by (metis length_drop)
      then show "take (length (drop n p)) (drop 0 (z @ foot)) = drop n p" unfolding p12(2) by (simp only: drop_0)
    qed simp
    have "targzReaderFeed lib cb r p = Some (TARGZ_OK, r')"
      using hp h(2) e H r' by (auto simp: targzReaderFeed_def gz_in_header_def)
    moreover have "j + length p - length H = length (drop n p)" "\<not> j + length p < length H"
      using long True by (auto simp: n_def)
    then have "stream_at cb lib H z foot raw on t0 t1 r0 (j + length p) r'"
      using r' body_at_stage [OF r'(3)] by (simp add: stream_at_def)
    ultimately show thesis by (rule that)
  qed
qed

text \<open>A caller's loop over the pieces a transport delivers: stop at the first refusal.\<close>

fun feedAll :: "'i inflate_lib \<Rightarrow> 'c targz_cb \<Rightarrow> ('c, 'i) targz_reader \<Rightarrow> bytes list \<Rightarrow> ('c, 'i) targz_reader option" where
  "feedAll lib cb r [] = Some r"
| "feedAll lib cb r (p # ps) = (case targzReaderFeed lib cb r p of
     None \<Rightarrow> None
   | Some (e, r1) \<Rightarrow> (if e \<noteq> TARGZ_OK then Some r1 else feedAll lib cb r1 ps))"

lemma feedAll_stream:
  assumes S: "stream_setup cb lib z raw on t0 t1" and fr: "fresh_reader lib t0 r0" and foot: "length foot = GZ_FOOT_LEN"
    and H: "gzHeader r0 H = (rh, [])" "gz rh = GZ_DEFLATE" "err rh = TARGZ_OK"
    and at: "stream_at cb lib H z foot raw on t0 t1 r0 j r"
    and j: "j \<le> length H + length z + GZ_FOOT_LEN" and p: "concat ps = drop j (H @ z @ foot)"
  shows "\<exists>r'. feedAll lib cb r ps = Some r' \<and> stream_at cb lib H z foot raw on t0 t1 r0 (length H + length z + GZ_FOOT_LEN) r'"
  using at j p
proof (induction ps arbitrary: j r)
  case Nil
  then have "length (drop j (H @ z @ foot)) = 0" by simp
  then have "j = length H + length z + GZ_FOOT_LEN" using Nil.prems(2) foot by simp
  with Nil show ?case by auto
next
  case (Cons p ps)
  have p: "take (length p) (drop j (H @ z @ foot)) = p" using Cons.prems(3) [symmetric] by simp
  have "length p \<le> length (drop j (H @ z @ foot))" using Cons.prems(3) [symmetric] by simp
  then have j': "j + length p \<le> length H + length z + GZ_FOOT_LEN" using Cons.prems(2) foot by simp
  obtain r' where r': "targzReaderFeed lib cb r p = Some (TARGZ_OK, r')"
    "stream_at cb lib H z foot raw on t0 t1 r0 (j + length p) r'"
    by (rule targzReaderFeed_stream [OF S fr foot H Cons.prems(1,2) p])
  have "concat ps = drop (length p) (concat (p # ps))" by simp
  also have "\<dots> = drop (j + length p) (H @ z @ foot)" unfolding Cons.prems(3) drop_drop by (simp only: add.commute)
  finally have "concat ps = drop (j + length p) (H @ z @ foot)" .
  from Cons.IH [OF r'(2) j' this] r'(1) show ?case by simp
qed

lemma ucast_u64_of_nat: "ucast (of_nat n :: u64) = (of_nat n :: u32)"
  by (rule bit_word_eqI) (auto simp: bit_simps)

lemma targzReaderFinish_done:
  assumes "rd_done lib raw t1 r" "tar t1 \<noteq> TAR_DATA" "tar t1 \<noteq> TAR_PAD" "hdr t1 = []"
    "hold r = le32 (mz_crc32 lib 0 raw) @ le32 (of_nat (length raw))"
  shows "targzReaderFinish lib cb r = Some (TARGZ_OK, entries t1, bytes t1, ctx t1)"
proof -
  have c: "entries r = entries t1" "bytes r = bytes t1" "ctx r = ctx t1" "tar r = tar t1" "hdr r = hdr t1"
    using assms(1) core_sel [of r] unfolding rd_done_def by metis+
  show ?thesis using assms by (simp add: targzReaderFinish_def rd_done_def c GZ_FOOT_LEN_def ucast_u64_of_nat)
qed

lemma targzReaderFinish_stream:
  assumes S: "stream_setup cb lib z raw on t0 t1" and t1: "tar t1 \<noteq> TAR_DATA" "tar t1 \<noteq> TAR_PAD" "hdr t1 = []"
    and b: "body_at cb lib z foot raw on t0 t1 (length z + GZ_FOOT_LEN) r"
    and foot: "foot = le32 (mz_crc32 lib 0 raw) @ le32 (of_nat (length raw))"
  shows "targzReaderFinish lib cb r = Some (TARGZ_OK, entries t1, bytes t1, ctx t1)"
proof -
  have lf: "length foot = GZ_FOOT_LEN" by (simp add: foot GZ_FOOT_LEN_def)
  have hold: "hold r = foot" and fed: "rd_fed cb lib raw on t0 t1 (length z) r" using b lf by (auto simp: body_at_def)
  from fed consider "rd_done lib raw t1 r" | m where "rd_at cb lib raw on t0 (length z) m r" by (auto simp: rd_fed_def)
  then show ?thesis
  proof cases
    case 1
    then show ?thesis by (rule targzReaderFinish_done [OF _ t1]) (simp add: hold foot)
  next
    case 2
    obtain r' q where r': "inflateSome lib cb r [] True = Some (r', q)" "hold r' = hold r"
      "rd_done lib raw t1 r' \<or> (\<not> True \<and> q = [] \<and> (\<exists>m'. rd_at cb lib raw on t0 (length z + length []) m' r'))"
      by (rule inflateSome_stream [OF S 2, of "[]" True]) simp_all
    then have d: "rd_done lib raw t1 r'" by simp
    have "targzReaderFinish lib cb r = targzReaderFinish lib cb r'"
      using 2 r'(1) d by (simp add: targzReaderFinish_def rd_at_def rd_done_def)
    also have "\<dots> = Some (TARGZ_OK, entries t1, bytes t1, ctx t1)"
      using d by (rule targzReaderFinish_done [OF _ t1]) (simp add: r'(2) hold foot)
    finally show ?thesis .
  qed
qed

lemma targzReaderOpen_fresh:
  "targzReaderOpen lib True c = Some r \<Longrightarrow> fresh_reader lib (core r) r \<and> at_boundary (core r) \<and> zeroBlocks r = 0 \<and>
     ctx r = c \<and> entries r = 0 \<and> bytes r = 0"
  by (auto simp: targzReaderOpen_def fresh_reader_def GZ_HDR_LEN_def at_boundary_def)

text \<open>The reader on any complete stream, for any target: its result is the parser's.\<close>

lemma targzReader_complete:
  assumes S: "stream_setup cb lib z raw on t0 t1" and fr: "fresh_reader lib t0 r0"
    and t1: "tar t1 \<noteq> TAR_DATA" "tar t1 \<noteq> TAR_PAD" "hdr t1 = []"
    and wf: "gzMember_wf mid extra name comment hcrc"
    and cs: "concat ps = gzMember f mid extra name comment hcrc @ z @ le32 (mz_crc32 lib 0 raw) @ le32 (of_nat (length raw))"
  shows "\<exists>r'. feedAll lib cb r0 ps = Some r' \<and> targzReaderFinish lib cb r' = Some (TARGZ_OK, entries t1, bytes t1, ctx t1)"
proof -
  let ?H = "gzMember f mid extra name comment hcrc" and ?foot = "le32 (mz_crc32 lib 0 raw) @ le32 (of_nat (length raw))"
  have lf: "length ?foot = GZ_FOOT_LEN" by (simp add: GZ_FOOT_LEN_def)
  have fr': "gz r0 = GZ_FIXED" "gzHave r0 = 0" "length (gzBuf r0) = 10" "err r0 = TARGZ_OK"
    using fr by (auto simp: fresh_reader_def)
  obtain rh where rh: "gzHeader r0 ?H = (rh, [])" "gz rh = GZ_DEFLATE" "err rh = TARGZ_OK"
    by (rule gzHeader_member [OF fr' wf])
  have "0 < length ?H" by (simp add: gzMember_def)
  then have at0: "stream_at cb lib ?H z ?foot raw on t0 t1 r0 0 r0"
    using fr' by (simp add: stream_at_def gz_in_header_def)
  obtain r' where r': "feedAll lib cb r0 ps = Some r'"
    "stream_at cb lib ?H z ?foot raw on t0 t1 r0 (length ?H + length z + GZ_FOOT_LEN) r'"
    using feedAll_stream [OF S fr lf rh at0] cs by auto
  then have "body_at cb lib z ?foot raw on t0 t1 (length z + GZ_FOOT_LEN) r'"
    by (simp add: stream_at_def)
  from targzReaderFinish_stream [OF S t1 this refl] r'(1) show ?thesis by blast
qed

end
