(* ===== verification/Targz_Writer.thy ===== *)
theory Targz_Writer
  imports Targz_Complete
begin

unbundle bit_operations_syntax

section \<open>The archive writer (targz.cpp)\<close>

text \<open>
  \<open>targzWriterOpen\<close>, \<open>targzWriterAddDir\<close>, \<open>targzWriterAddFile\<close>, \<open>targzWriterData\<close> and
  \<open>targzWriterClose\<close> with the deflate loop. The compressor and the CRC are ROM code: they are
  fields of \<open>deflate_lib\<close>. \<open>tdefl_compress\<close> takes its state, the input and whether the flush
  is \<open>TDEFL_FINISH\<close>, and returns its state, the number of input bytes it took, the bytes it
  produced and its status (negative a failure, 1 is \<open>TDEFL_STATUS_DONE\<close>). The sink is a
  function from its context to an acceptance and a new context. An operation returns \<open>None\<close>
  when the deflate loop does not end; a result carries the C return value and the writer.
\<close>

record 'd deflate_lib =
  tdefl_init :: 'd
  tdefl_compress :: "'d \<Rightarrow> bytes \<Rightarrow> bool \<Rightarrow> 'd \<times> nat \<times> bytes \<times> int"
  tdefl_crc32 :: "u32 \<Rightarrow> bytes \<Rightarrow> u32"

type_synonym 'c targz_sink = "'c \<Rightarrow> bytes \<Rightarrow> bool \<times> 'c"

record ('c, 'd) targz_writer =
  w_ctx :: 'c
  comp :: 'd
  w_crc :: u32
  w_rawLen :: u64
  w_pending :: u32
  w_pad :: u32
  w_ok :: bool

definition GZ_HEADER :: bytes where
  "GZ_HEADER = [0x1f, 0x8b, 8, 0, 0, 0, 0, 0, 0, 0xff]"

text \<open>The sink is asked only when there is something to give it.\<close>

definition offer :: "'c targz_sink \<Rightarrow> 'c \<Rightarrow> bytes \<Rightarrow> bool \<times> 'c" where
  "offer sink c out = (if out = [] then (True, c) else sink c out)"

partial_function (option) deflateRun :: "'d deflate_lib \<Rightarrow> 'c targz_sink \<Rightarrow> ('c, 'd) targz_writer \<Rightarrow> bytes \<Rightarrow> bool
    \<Rightarrow> (bool \<times> ('c, 'd) targz_writer) option" where
  "deflateRun lib sink w p fin =
     (case tdefl_compress lib (comp w) p fin of (d, n, out, st) \<Rightarrow>
       (let w1 = w\<lparr>comp := d\<rparr>
        in if st < 0 then Some (False, w1\<lparr>w_ok := False\<rparr>)
           else (let (acc, c) = offer sink (w_ctx w1) out;
                     w2 = w1\<lparr>w_ctx := c\<rparr>;
                     q = drop n p
                 in if \<not> acc then Some (False, w2\<lparr>w_ok := False\<rparr>)
                    else if fin \<and> st = 1 then Some (True, w2)
                    else if \<not> fin \<and> q = [] then Some (True, w2)
                    else if n = 0 \<and> out = [] then Some (False, w2\<lparr>w_ok := False\<rparr>)
                    else deflateRun lib sink w2 q fin)))"

definition writeRaw :: "'d deflate_lib \<Rightarrow> 'c targz_sink \<Rightarrow> ('c, 'd) targz_writer \<Rightarrow> bytes
    \<Rightarrow> (bool \<times> ('c, 'd) targz_writer) option" where
  "writeRaw lib sink w p =
     (if \<not> w_ok w then Some (False, w)
      else if p = [] then Some (True, w)
      else deflateRun lib sink (w\<lparr>w_crc := tdefl_crc32 lib (w_crc w) p,
                                  w_rawLen := w_rawLen w + of_nat (length p)\<rparr>) p False)"

text \<open>Sequencing of the C style: \<open>if (!f(w)) return false;\<close>.\<close>

fun and_then :: "(bool \<times> 'w) option \<Rightarrow> ('w \<Rightarrow> (bool \<times> 'w) option) \<Rightarrow> (bool \<times> 'w) option" where
  "and_then None k = None"
| "and_then (Some (b, w)) k = (if b then k w else Some (False, w))"

lemma and_then_cong [fundef_cong]:
  "m = m' \<Longrightarrow> (\<And>w. m' = Some (True, w) \<Longrightarrow> k w = k' w) \<Longrightarrow> and_then m k = and_then m' k'"
  by (cases "(m', k')" rule: and_then.cases) auto

fun writeZeros :: "'d deflate_lib \<Rightarrow> 'c targz_sink \<Rightarrow> ('c, 'd) targz_writer \<Rightarrow> nat
    \<Rightarrow> (bool \<times> ('c, 'd) targz_writer) option" where
  "writeZeros lib sink w len =
     (if len = 0 then Some (True, w)
      else let n = (if len < 64 then len else 64)
           in and_then (writeRaw lib sink w (replicate n 0)) (\<lambda>w1. writeZeros lib sink w1 (len - n)))"

declare writeZeros.simps [simp del]

definition finishEntry :: "'d deflate_lib \<Rightarrow> 'c targz_sink \<Rightarrow> ('c, 'd) targz_writer
    \<Rightarrow> (bool \<times> ('c, 'd) targz_writer) option" where
  "finishEntry lib sink w =
     and_then
       (if w_pending w \<noteq> 0
        then and_then (writeZeros lib sink w (unat (w_pending w))) (\<lambda>w1. Some (True, w1\<lparr>w_pending := 0\<rparr>))
        else Some (True, w))
       (\<lambda>w2. if w_pad w2 \<noteq> 0
             then and_then (writeZeros lib sink w2 (unat (w_pad w2))) (\<lambda>w3. Some (True, w3\<lparr>w_pad := 0\<rparr>))
             else Some (True, w2))"

text \<open>\<open>mem_ok\<close> is the outcome of the allocations. The context comes back with the writer.\<close>

definition targzWriterOpen :: "'d deflate_lib \<Rightarrow> 'c targz_sink \<Rightarrow> bool \<Rightarrow> 'c \<Rightarrow> ('c, 'd) targz_writer option \<times> 'c" where
  "targzWriterOpen lib sink mem_ok c =
     (if \<not> mem_ok then (None, c)
      else let (acc, c1) = sink c GZ_HEADER
           in if \<not> acc then (None, c1)
              else (Some \<lparr>w_ctx = c1, comp = tdefl_init lib, w_crc = 0, w_rawLen = 0, w_pending = 0, w_pad = 0,
                          w_ok = True\<rparr>, c1))"

definition targzWriterAddDir :: "'d deflate_lib \<Rightarrow> 'c targz_sink \<Rightarrow> ('c, 'd) targz_writer \<Rightarrow> bytes \<Rightarrow> u32
    \<Rightarrow> (bool \<times> ('c, 'd) targz_writer) option" where
  "targzWriterAddDir lib sink w name mtime =
     (if \<not> w_ok w then Some (False, w)
      else and_then (finishEntry lib sink w) (\<lambda>w1.
        let h = fillHeader (of_char CHR ''5'') 0 mtime;
            withSlash = name @ [slash]
        in if length withSlash \<ge> 256 then Some (True, w1)
           else case setEntryName h withSlash of
                  None \<Rightarrow> Some (True, w1)
                | Some h1 \<Rightarrow> writeRaw lib sink w1 (ustar_bytes (sealHeader h1))))"

definition targzWriterAddFile :: "'d deflate_lib \<Rightarrow> 'c targz_sink \<Rightarrow> ('c, 'd) targz_writer \<Rightarrow> bytes \<Rightarrow> u32 \<Rightarrow> u32
    \<Rightarrow> (bool \<times> ('c, 'd) targz_writer) option" where
  "targzWriterAddFile lib sink w name sz mtime =
     (if \<not> w_ok w then Some (False, w)
      else and_then (finishEntry lib sink w) (\<lambda>w1.
        case setEntryName (fillHeader (of_char CHR ''0'') sz mtime) name of
          None \<Rightarrow> Some (True, w1)
        | Some h1 \<Rightarrow>
            and_then (writeRaw lib sink w1 (ustar_bytes (sealHeader h1))) (\<lambda>w2.
              Some (True, w2\<lparr>w_pending := sz, w_pad := (of_nat TAR_BLOCK - sz mod of_nat TAR_BLOCK) mod of_nat TAR_BLOCK\<rparr>))))"

definition padWhenDone :: "'d deflate_lib \<Rightarrow> 'c targz_sink \<Rightarrow> ('c, 'd) targz_writer
    \<Rightarrow> (bool \<times> ('c, 'd) targz_writer) option" where
  "padWhenDone lib sink w =
     (if w_pending w = 0 \<and> w_pad w \<noteq> 0
      then and_then (writeZeros lib sink w (unat (w_pad w))) (\<lambda>w1. Some (True, w1\<lparr>w_pad := 0\<rparr>))
      else Some (True, w))"

definition targzWriterData :: "'d deflate_lib \<Rightarrow> 'c targz_sink \<Rightarrow> ('c, 'd) targz_writer \<Rightarrow> bytes
    \<Rightarrow> (bool \<times> ('c, 'd) targz_writer) option" where
  "targzWriterData lib sink w data =
     (if \<not> w_ok w then Some (False, w)
      else let p = (if length data > unat (w_pending w) then take (unat (w_pending w)) data else data)
           in and_then (writeRaw lib sink w p)
                (\<lambda>w1. padWhenDone lib sink (w1\<lparr>w_pending := w_pending w1 - of_nat (length p)\<rparr>)))"

text \<open>The writer is gone after the close: the result and the sink's context are left.\<close>

definition targzWriterClose :: "'d deflate_lib \<Rightarrow> 'c targz_sink \<Rightarrow> ('c, 'd) targz_writer \<Rightarrow> (bool \<times> 'c) option" where
  "targzWriterClose lib sink w =
     (case and_then (and_then (and_then (Some (w_ok w, w)) (finishEntry lib sink))
                              (\<lambda>w1. writeZeros lib sink w1 (2 * TAR_BLOCK)))
                    (\<lambda>w2. deflateRun lib sink w2 [] True) of
        None \<Rightarrow> None
      | Some (ok, w3) \<Rightarrow>
          Some (if ok then sink (w_ctx w3) (le32 (w_crc w3) @ le32 (ucast (w_rawLen w3))) else (False, w_ctx w3)))"

subsection \<open>The abstract layout\<close>

text \<open>
  What the calls put into the uncompressed archive: the bytes so far, the body bytes still owed
  for the open entry and the padding owed after them.
\<close>

record layout =
  lay_raw :: bytes
  owed :: nat
  fill :: nat

datatype w_op = OpDir bytes u32 | OpFile bytes u32 u32 | OpData bytes

definition dirBlock :: "bytes \<Rightarrow> u32 \<Rightarrow> bytes option" where
  "dirBlock name mtime =
     (if length name < 255 then headerBlock (of_char CHR ''5'') (name @ [slash]) 0 mtime else None)"

definition fileBlock :: "bytes \<Rightarrow> u32 \<Rightarrow> u32 \<Rightarrow> bytes option" where
  "fileBlock name sz mtime = headerBlock (of_char CHR ''0'') name sz mtime"

definition lay_finish :: "layout \<Rightarrow> layout" where
  "lay_finish L = \<lparr>lay_raw = lay_raw L @ replicate (owed L) 0 @ replicate (fill L) 0, owed = 0, fill = 0\<rparr>"

fun lay_op :: "layout \<Rightarrow> w_op \<Rightarrow> layout" where
  "lay_op L (OpDir name mtime) =
     (case dirBlock name mtime of
        None \<Rightarrow> lay_finish L
      | Some b \<Rightarrow> (lay_finish L)\<lparr>lay_raw := lay_raw (lay_finish L) @ b\<rparr>)"
| "lay_op L (OpFile name sz mtime) =
     (case fileBlock name sz mtime of
        None \<Rightarrow> lay_finish L
      | Some b \<Rightarrow> \<lparr>lay_raw = lay_raw (lay_finish L) @ b, owed = unat sz, fill = padTo (unat sz)\<rparr>)"
| "lay_op L (OpData d) =
     (let b = take (owed L) d; L1 = L\<lparr>lay_raw := lay_raw L @ b, owed := owed L - length b\<rparr>
      in if owed L1 = 0 then L1\<lparr>lay_raw := lay_raw L1 @ replicate (fill L1) 0, fill := 0\<rparr> else L1)"

fun writer_op :: "'d deflate_lib \<Rightarrow> 'c targz_sink \<Rightarrow> ('c, 'd) targz_writer \<Rightarrow> w_op
    \<Rightarrow> (bool \<times> ('c, 'd) targz_writer) option" where
  "writer_op lib sink w (OpDir name mtime) = targzWriterAddDir lib sink w name mtime"
| "writer_op lib sink w (OpFile name sz mtime) = targzWriterAddFile lib sink w name sz mtime"
| "writer_op lib sink w (OpData d) = targzWriterData lib sink w d"

fun writer_ops :: "'d deflate_lib \<Rightarrow> 'c targz_sink \<Rightarrow> ('c, 'd) targz_writer \<Rightarrow> w_op list
    \<Rightarrow> (bool \<times> ('c, 'd) targz_writer) option" where
  "writer_ops lib sink w [] = Some (True, w)"
| "writer_ops lib sink w (x # xs) = and_then (writer_op lib sink w x) (\<lambda>w1. writer_ops lib sink w1 xs)"

subsection \<open>The layout as a list of entries\<close>

type_synonym open_file = "bytes \<times> u32 \<times> u32 \<times> bytes"

fun closeOpen :: "open_file option \<Rightarrow> tar_entry list" where
  "closeOpen None = []"
| "closeOpen (Some (n, t, s, b)) = [FileEntry n t (take (unat s) (b @ replicate (unat s) 0))]"

fun opsEntries :: "open_file option \<Rightarrow> w_op list \<Rightarrow> tar_entry list" where
  "opsEntries f [] = closeOpen f"
| "opsEntries f (OpDir n t # xs) =
     closeOpen f @ (if dirBlock n t = None then [] else [DirEntry n t]) @ opsEntries None xs"
| "opsEntries f (OpFile n s t # xs) =
     closeOpen f @ opsEntries (if fileBlock n s t = None then None else Some (n, t, s, [])) xs"
| "opsEntries None (OpData d # xs) = opsEntries None xs"
| "opsEntries (Some (n, t, s, b)) (OpData d # xs) = opsEntries (Some (n, t, s, b @ d)) xs"

definition rep :: "bytes \<Rightarrow> open_file option \<Rightarrow> layout \<Rightarrow> bool" where
  "rep base f L \<longleftrightarrow> (case f of
     None \<Rightarrow> L = \<lparr>lay_raw = base, owed = 0, fill = 0\<rparr>
   | Some (n, t, s, b) \<Rightarrow> (\<exists>blk. fileBlock n s t = Some blk \<and>
       owed L = unat s - length b \<and> fill L = (if unat s \<le> length b then 0 else padTo (unat s)) \<and>
       lay_raw L = base @ blk @ take (unat s) b @
         (if unat s \<le> length b then replicate (padTo (unat s)) 0 else [])))"

lemma rep_finish:
  assumes "rep base f L"
  shows "lay_finish L = \<lparr>lay_raw = base @ concat (map entryImage (closeOpen f)), owed = 0, fill = 0\<rparr>"
proof (cases f)
  case (Some a)
  obtain n t s b where f: "f = Some (n, t, s, b)" using Some by (cases a) auto
  then obtain blk where blk: "headerBlock (of_char CHR ''0'') n s t = Some blk"
    using assms by (auto simp: rep_def fileBlock_def)
  have "length (take (unat s) (b @ replicate (unat s) 0)) = unat s" by simp
  with assms blk show ?thesis
    by (auto simp: f rep_def fileBlock_def lay_finish_def entryImage_def)
qed (use assms in \<open>auto simp: rep_def lay_finish_def\<close>)

lemma rep_step:
  assumes "rep base f L"
  shows "\<exists>base' f'. rep base' f' (lay_op L x) \<and>
    base @ concat (map entryImage (opsEntries f (x # xs))) = base' @ concat (map entryImage (opsEntries f' xs))"
proof (cases x)
  case (OpDir n t)
  show ?thesis
  proof (cases "dirBlock n t")
    case None
    with OpDir rep_finish [OF assms] show ?thesis
      by (intro exI [of _ "base @ concat (map entryImage (closeOpen f))"] exI [of _ None]) (simp add: rep_def)
  next
    case (Some b)
    then have "entryImage (DirEntry n t) = b" by (auto simp: dirBlock_def entryImage_def split: if_splits)
    with Some OpDir rep_finish [OF assms] show ?thesis
      by (intro exI [of _ "base @ concat (map entryImage (closeOpen f)) @ b"] exI [of _ None]) (simp add: rep_def)
  qed
next
  case (OpFile n s t)
  show ?thesis
    using OpFile rep_finish [OF assms]
    by (intro exI [of _ "base @ concat (map entryImage (closeOpen f))"]
          exI [of _ "if fileBlock n s t = None then None else Some (n, t, s, [])"])
      (auto simp: rep_def split: option.splits)
next
  case (OpData d)
  show ?thesis
  proof (cases f)
    case None
    with OpData assms show ?thesis by (intro exI [of _ base] exI [of _ None]) (simp add: rep_def)
  next
    case (Some a)
    obtain n t s b where f: "f = Some (n, t, s, b)" using Some by (cases a) auto
    have "rep base (Some (n, t, s, b @ d)) (lay_op L x)"
      using assms OpData by (auto simp: f rep_def Let_def min_def)
    with OpData f show ?thesis by (intro exI [of _ base] exI [of _ "Some (n, t, s, b @ d)"]) simp
  qed
qed

text \<open>Whatever was called, the finished layout is the image of the entries the calls describe.\<close>

lemma lay_ops_image:
  "rep base f L \<Longrightarrow> lay_raw (lay_finish (foldl lay_op L xs)) = base @ concat (map entryImage (opsEntries f xs))"
proof (induction xs arbitrary: base f L)
  case Nil
  then show ?case by (simp add: rep_finish)
next
  case (Cons x xs)
  obtain base' f' where "rep base' f' (lay_op L x)"
    "base @ concat (map entryImage (opsEntries f (x # xs))) = base' @ concat (map entryImage (opsEntries f' xs))"
    using rep_step [OF Cons.prems, of x xs] by blast
  with Cons.IH show ?case by simp
qed

subsection \<open>The compressor's contract and the simulation\<close>

text \<open>
  What the writer relies on of \<open>tdefl\<close>: it never fails on valid parameters, takes some of its
  input or emits some of what it holds (\<open>pot\<close> bounds what it can emit without input), and
  under FINISH emits until it reports DONE, when what it has emitted is a deflate stream of
  what it was given: \<open>closed raw z\<close>. \<open>on raw z d\<close> is its state after \<open>raw\<close> in and \<open>z\<close> out.
\<close>

definition tdefl_encodes :: "'d deflate_lib \<Rightarrow> (bytes \<Rightarrow> bytes \<Rightarrow> 'd \<Rightarrow> bool) \<Rightarrow> (bytes \<Rightarrow> bytes \<Rightarrow> bool) \<Rightarrow> ('d \<Rightarrow> nat) \<Rightarrow> bool" where
  "tdefl_encodes lib on closed pot \<longleftrightarrow>
     on [] [] (tdefl_init lib) \<and>
     (\<forall>raw z d p fin. on raw z d \<and> (fin \<longrightarrow> p = []) \<longrightarrow>
        (case tdefl_compress lib d p fin of (d', n, out, st) \<Rightarrow>
           0 \<le> st \<and> n \<le> length p \<and> (\<not> (fin \<and> st = 1) \<longrightarrow> on (raw @ take n p) (z @ out) d') \<and>
           (p \<noteq> [] \<and> n = 0 \<longrightarrow> out \<noteq> [] \<and> pot d' < pot d) \<and>
           (fin \<and> st = 1 \<longrightarrow> closed raw (z @ out)) \<and>
           (fin \<and> st \<noteq> 1 \<longrightarrow> out \<noteq> [] \<and> pot d' < pot d)))"

lemma tdefl_encodesD:
  assumes "tdefl_encodes lib on closed pot" "on raw z d" "fin \<Longrightarrow> p = []" "tdefl_compress lib d p fin = (d', n, out, st)"
  shows "0 \<le> st" "n \<le> length p" "\<not> (fin \<and> st = 1) \<Longrightarrow> on (raw @ take n p) (z @ out) d'"
    "p \<noteq> [] \<Longrightarrow> n = 0 \<Longrightarrow> out \<noteq> [] \<and> pot d' < pot d"
    "fin \<Longrightarrow> st = 1 \<Longrightarrow> closed raw (z @ out)" "fin \<Longrightarrow> st \<noteq> 1 \<Longrightarrow> out \<noteq> [] \<and> pot d' < pot d"
proof -
  have "case tdefl_compress lib d p fin of (d', n, out, st) \<Rightarrow>
           0 \<le> st \<and> n \<le> length p \<and> (\<not> (fin \<and> st = 1) \<longrightarrow> on (raw @ take n p) (z @ out) d') \<and>
           (p \<noteq> [] \<and> n = 0 \<longrightarrow> out \<noteq> [] \<and> pot d' < pot d) \<and>
           (fin \<and> st = 1 \<longrightarrow> closed raw (z @ out)) \<and>
           (fin \<and> st \<noteq> 1 \<longrightarrow> out \<noteq> [] \<and> pot d' < pot d)"
    by (rule assms(1) [unfolded tdefl_encodes_def, THEN conjunct2, rule_format]) (use assms(2,3) in blast)
  then show "0 \<le> st" "n \<le> length p" "\<not> (fin \<and> st = 1) \<Longrightarrow> on (raw @ take n p) (z @ out) d'"
    "p \<noteq> [] \<Longrightarrow> n = 0 \<Longrightarrow> out \<noteq> [] \<and> pot d' < pot d"
    "fin \<Longrightarrow> st = 1 \<Longrightarrow> closed raw (z @ out)" "fin \<Longrightarrow> st \<noteq> 1 \<Longrightarrow> out \<noteq> [] \<and> pot d' < pot d"
    unfolding assms(4) by auto
qed

text \<open>A sink that takes everything and keeps it: \<open>got\<close> reads what it has.\<close>

definition sink_collects :: "'c targz_sink \<Rightarrow> ('c \<Rightarrow> bytes) \<Rightarrow> bool" where
  "sink_collects sink got \<longleftrightarrow> (\<forall>c p. fst (sink c p) \<and> got (snd (sink c p)) = got c @ p)"

lemma sink_collectsE:
  assumes "sink_collects sink got"
  obtains c' where "sink c p = (True, c')" "got c' = got c @ p"
  using assms that unfolding sink_collects_def by (metis prod.collapse)

definition w_tail :: "('c, 'd) targz_writer \<Rightarrow> u32 \<times> u64 \<times> u32 \<times> u32 \<times> bool" where
  "w_tail w = (w_crc w, w_rawLen w, w_pending w, w_pad w, w_ok w)"

lemma deflateRun_data:
  assumes E: "tdefl_encodes lib on closed pot" and sink: "sink_collects sink got"
    and on: "on raw z (comp w)" "got (w_ctx w) = pre @ z"
  shows "\<exists>w' z'. deflateRun lib sink w p False = Some (True, w') \<and> on (raw @ p) z' (comp w') \<and>
     got (w_ctx w') = pre @ z' \<and> w_tail w' = w_tail w"
  using on
proof (induction "(length p, pot (comp w))" arbitrary: p w raw z rule: wf_induct_rule [OF wf_lex_prod [OF wf_less_than wf_less_than]])
  case (1 p w raw z)
  obtain d n out st where c: "tdefl_compress lib (comp w) p False = (d, n, out, st)" by (metis prod_cases4)
  note D = tdefl_encodesD [OF E 1(2) _ c, simplified]
  obtain c1 where c1: "offer sink (w_ctx w) out = (True, c1)"
    "got c1 = pre @ z @ out"
    using 1(3) by (cases "out = []") (auto simp: offer_def intro: sink_collectsE [OF sink, of "w_ctx w" out])
  let ?w2 = "w\<lparr>comp := d, w_ctx := c1\<rparr>"
  have t: "w_tail ?w2 = w_tail w" by (simp add: w_tail_def)
  have u: "deflateRun lib sink w p False = (if drop n p = [] then Some (True, ?w2)
      else if n = 0 \<and> out = [] then Some (False, ?w2\<lparr>w_ok := False\<rparr>) else deflateRun lib sink ?w2 (drop n p) False)"
    using D(1) c1(1) by (subst deflateRun.simps) (simp add: c Let_def)
  show ?case
  proof (cases "drop n p = []")
    case True
    then show ?thesis using u D(3) c1 t by (intro exI [of _ ?w2] exI [of _ "z @ out"]) simp
  next
    case False
    then have p: "p \<noteq> []" by auto
    have "\<not> (n = 0 \<and> out = [])" using D(4) [OF p] by auto
    moreover have "((length (drop n p), pot (comp ?w2)), (length p, pot (comp w))) \<in> less_than <*lex*> less_than"
      using D(2,4) p by (cases "n = 0") auto
    from 1(1) [OF this, of "raw @ take n p" "z @ out"] D(3) c1(2)
    have "\<exists>w' z'. deflateRun lib sink ?w2 (drop n p) False = Some (True, w') \<and>
        on ((raw @ take n p) @ drop n p) z' (comp w') \<and> got (w_ctx w') = pre @ z' \<and> w_tail w' = w_tail ?w2"
      by simp
    ultimately show ?thesis using u False t by auto
  qed
qed

lemma deflateRun_finish:
  assumes E: "tdefl_encodes lib on closed pot" and sink: "sink_collects sink got"
    and on: "on raw z (comp w)" "got (w_ctx w) = pre @ z"
  shows "\<exists>w' z'. deflateRun lib sink w [] True = Some (True, w') \<and> closed raw z' \<and>
     got (w_ctx w') = pre @ z' \<and> w_tail w' = w_tail w"
  using on
proof (induction "pot (comp w)" arbitrary: w z rule: less_induct)
  case less
  obtain d n out st where c: "tdefl_compress lib (comp w) [] True = (d, n, out, st)" by (metis prod_cases4)
  note D = tdefl_encodesD [OF E less(2) refl c]
  obtain c1 where c1: "offer sink (w_ctx w) out = (True, c1)"
    "got c1 = pre @ z @ out"
    using less(3) by (cases "out = []") (auto simp: offer_def intro: sink_collectsE [OF sink, of "w_ctx w" out])
  let ?w2 = "w\<lparr>comp := d, w_ctx := c1\<rparr>"
  have t: "w_tail ?w2 = w_tail w" by (simp add: w_tail_def)
  have u: "deflateRun lib sink w [] True = (if st = 1 then Some (True, ?w2)
      else if n = 0 \<and> out = [] then Some (False, ?w2\<lparr>w_ok := False\<rparr>) else deflateRun lib sink ?w2 [] True)"
    using D(1) c1(1) by (subst deflateRun.simps) (simp add: c Let_def)
  show ?case
  proof (cases "st = 1")
    case True
    then show ?thesis using u D(5) c1 t by (intro exI [of _ ?w2] exI [of _ "z @ out"]) simp
  next
    case False
    then have "out \<noteq> []" "pot (comp ?w2) < pot (comp w)" using D(6) by auto
    from less(1) [OF this(2), of "z @ out"] D(3) c1(2) u False \<open>out \<noteq> []\<close> t show ?thesis by auto
  qed
qed

text \<open>The writer's state after the raw bytes \<open>raw\<close>, and the simulation of a layout.\<close>

definition w_at :: "'d deflate_lib \<Rightarrow> (bytes \<Rightarrow> bytes \<Rightarrow> 'd \<Rightarrow> bool) \<Rightarrow> ('c \<Rightarrow> bytes) \<Rightarrow> bytes \<Rightarrow> bytes
    \<Rightarrow> ('c, 'd) targz_writer \<Rightarrow> bool" where
  "w_at lib on got pre raw w \<longleftrightarrow> (\<exists>z. on raw z (comp w) \<and> got (w_ctx w) = pre @ z) \<and> w_ok w \<and>
     w_crc w = tdefl_crc32 lib 0 raw \<and> w_rawLen w = of_nat (length raw)"

definition w_sim :: "'d deflate_lib \<Rightarrow> (bytes \<Rightarrow> bytes \<Rightarrow> 'd \<Rightarrow> bool) \<Rightarrow> ('c \<Rightarrow> bytes) \<Rightarrow> bytes \<Rightarrow> layout
    \<Rightarrow> ('c, 'd) targz_writer \<Rightarrow> bool" where
  "w_sim lib on got pre L w \<longleftrightarrow> w_at lib on got pre (lay_raw L) w \<and> unat (w_pending w) = owed L \<and> unat (w_pad w) = fill L"

definition crc_appends :: "(u32 \<Rightarrow> bytes \<Rightarrow> u32) \<Rightarrow> bool" where
  "crc_appends f \<longleftrightarrow> (\<forall>c a b. f c (a @ b) = f (f c a) b) \<and> (\<forall>c. f c [] = c)"

definition writer_env :: "'d deflate_lib \<Rightarrow> (bytes \<Rightarrow> bytes \<Rightarrow> 'd \<Rightarrow> bool) \<Rightarrow> (bytes \<Rightarrow> bytes \<Rightarrow> bool) \<Rightarrow> ('d \<Rightarrow> nat)
    \<Rightarrow> 'c targz_sink \<Rightarrow> ('c \<Rightarrow> bytes) \<Rightarrow> bool" where
  "writer_env lib on closed pot sink got \<longleftrightarrow>
     tdefl_encodes lib on closed pot \<and> crc_appends (tdefl_crc32 lib) \<and> sink_collects sink got"

lemma w_at_upd [simp]:
  "w_at lib on got pre raw (w\<lparr>w_pending := x\<rparr>) = w_at lib on got pre raw w"
  "w_at lib on got pre raw (w\<lparr>w_pad := y\<rparr>) = w_at lib on got pre raw w"
  by (simp_all add: w_at_def)

lemma writeRaw_at:
  assumes env: "writer_env lib on closed pot sink got" and at: "w_at lib on got pre raw w"
  obtains w' where "writeRaw lib sink w p = Some (True, w')" "w_at lib on got pre (raw @ p) w'"
    "w_pending w' = w_pending w" "w_pad w' = w_pad w"
proof (cases "p = []")
  case True
  with at that [of w] show thesis by (simp add: writeRaw_def w_at_def)
next
  case False
  let ?w = "w\<lparr>w_crc := tdefl_crc32 lib (w_crc w) p, w_rawLen := w_rawLen w + of_nat (length p)\<rparr>"
  obtain z where z: "on raw z (comp ?w)" "got (w_ctx ?w) = pre @ z" using at by (auto simp: w_at_def)
  have e: "tdefl_encodes lib on closed pot" "sink_collects sink got" "crc_appends (tdefl_crc32 lib)"
    using env by (auto simp: writer_env_def)
  obtain w' z' where w': "deflateRun lib sink ?w p False = Some (True, w')" "on (raw @ p) z' (comp w')"
    "got (w_ctx w') = pre @ z'" "w_tail w' = w_tail ?w"
    using deflateRun_data [OF e(1,2) z] by blast
  have "w_at lib on got pre (raw @ p) w'"
    using w' at e(3) by (auto simp: w_at_def w_tail_def crc_appends_def)
  moreover have "writeRaw lib sink w p = Some (True, w')" using w'(1) False at by (simp add: writeRaw_def w_at_def)
  ultimately show thesis using that w'(4) by (simp add: w_tail_def)
qed

lemma writeZeros_at:
  assumes env: "writer_env lib on closed pot sink got" and at: "w_at lib on got pre raw w"
  shows "\<exists>w'. writeZeros lib sink w n = Some (True, w') \<and> w_at lib on got pre (raw @ replicate n 0) w' \<and>
    w_pending w' = w_pending w \<and> w_pad w' = w_pad w"
  using at
proof (induction n arbitrary: raw w rule: less_induct)
  case (less n)
  show ?case
  proof (cases "n = 0")
    case True
    with less show ?thesis by (subst writeZeros.simps) simp
  next
    case False
    let ?k = "if n < 64 then n else 64"
    obtain w1 where w1: "writeRaw lib sink w (replicate ?k 0) = Some (True, w1)"
      "w_at lib on got pre (raw @ replicate ?k 0) w1" "w_pending w1 = w_pending w" "w_pad w1 = w_pad w"
      by (rule writeRaw_at [OF env less.prems])
    have "n - ?k < n" using False by simp
    from less.IH [OF this w1(2)] obtain w' where w': "writeZeros lib sink w1 (n - ?k) = Some (True, w')"
      "w_at lib on got pre ((raw @ replicate ?k 0) @ replicate (n - ?k) 0) w'"
      "w_pending w' = w_pending w1" "w_pad w' = w_pad w1" by blast
    have "replicate ?k (0 :: byte) @ replicate (n - ?k) 0 = replicate n 0"
      by (subst replicate_add [symmetric]) simp
    then have "w_at lib on got pre (raw @ replicate n 0) w'" using w'(2) by simp
    moreover have "writeZeros lib sink w n = Some (True, w')"
      using False w1(1) w'(1) by (subst writeZeros.simps) (simp add: Let_def)
    ultimately show ?thesis using w1 w' by auto
  qed
qed

lemma finishEntry_sim:
  assumes env: "writer_env lib on closed pot sink got" and at: "w_sim lib on got pre L w"
  obtains w' where "finishEntry lib sink w = Some (True, w')" "w_sim lib on got pre (lay_finish L) w'"
proof -
  have a: "w_at lib on got pre (lay_raw L) w" "unat (w_pending w) = owed L" "unat (w_pad w) = fill L"
    using at by (auto simp: w_sim_def)
  obtain w1 where w1: "writeZeros lib sink w (owed L) = Some (True, w1)" "w_at lib on got pre (lay_raw L @ replicate (owed L) 0) w1"
    "w_pad w1 = w_pad w" using writeZeros_at [OF env a(1), of "owed L"] by blast
  define w2 where "w2 = (if w_pending w \<noteq> 0 then w1\<lparr>w_pending := 0\<rparr> else w)"
  have w2: "w_at lib on got pre (lay_raw L @ replicate (owed L) 0) w2" "w_pad w2 = w_pad w" "w_pending w2 = 0"
    using w1 a by (auto simp: w2_def)
  obtain w3 where w3: "writeZeros lib sink w2 (fill L) = Some (True, w3)"
    "w_at lib on got pre ((lay_raw L @ replicate (owed L) 0) @ replicate (fill L) 0) w3" "w_pending w3 = w_pending w2"
    using writeZeros_at [OF env w2(1), of "fill L"] by blast
  define w4 where "w4 = (if w_pad w \<noteq> 0 then w3\<lparr>w_pad := 0\<rparr> else w2)"
  have z: "(x :: u32) = 0 \<longleftrightarrow> unat x = 0" for x by (simp add: unat_eq_0)
  have "finishEntry lib sink w = Some (True, w4)"
    using w1 w3 a w2 by (auto simp: finishEntry_def w4_def w2_def)
  moreover have "w_sim lib on got pre (lay_finish L) w4"
    using w2 w3 a by (auto simp: w_sim_def lay_finish_def w4_def)
  ultimately show thesis by (rule that)
qed

lemma unat_pad: "unat ((of_nat TAR_BLOCK - sz mod of_nat TAR_BLOCK) mod of_nat TAR_BLOCK :: u32) = padTo (unat sz)"
proof -
  have l: "sz mod 512 < 512" by (simp add: word_mod_less_divisor)
  then have "unat (512 - sz mod 512) = 512 - unat sz mod 512"
    by (subst unat_sub) (simp_all add: unat_mod less_imp_le)
  then show ?thesis by (simp add: TAR_BLOCK_def padTo_def unat_mod)
qed

lemma w_sim_ok: "w_sim lib on got pre L w \<Longrightarrow> w_ok w"
  by (simp add: w_sim_def w_at_def)

lemma writeRaw_sim:
  assumes env: "writer_env lib on closed pot sink got" and at: "w_sim lib on got pre L w"
  obtains w' where "writeRaw lib sink w p = Some (True, w')" "w_sim lib on got pre (L\<lparr>lay_raw := lay_raw L @ p\<rparr>) w'"
  using at writeRaw_at [OF env, of pre "lay_raw L" w p] that by (force simp: w_sim_def)

lemma AddDir_sim:
  assumes env: "writer_env lib on closed pot sink got" and at: "w_sim lib on got pre L w"
  shows "\<exists>w'. targzWriterAddDir lib sink w name mtime = Some (True, w') \<and> w_sim lib on got pre (lay_op L (OpDir name mtime)) w'"
proof -
  obtain w1 where w1: "finishEntry lib sink w = Some (True, w1)" "w_sim lib on got pre (lay_finish L) w1"
    by (rule finishEntry_sim [OF env at])
  obtain w2 where "\<And>h. dirBlock name mtime = Some h \<Longrightarrow> writeRaw lib sink w1 h = Some (True, w2) \<and>
      w_sim lib on got pre ((lay_finish L)\<lparr>lay_raw := lay_raw (lay_finish L) @ h\<rparr>) w2"
    by (cases "dirBlock name mtime") (auto intro: writeRaw_sim [OF env w1(2)])
  with w1 w_sim_ok [OF at] show ?thesis
    by (auto simp: targzWriterAddDir_def dirBlock_def headerBlock_def Let_def split: option.splits)
qed

lemma AddFile_sim:
  assumes env: "writer_env lib on closed pot sink got" and at: "w_sim lib on got pre L w"
  shows "\<exists>w'. targzWriterAddFile lib sink w name sz mtime = Some (True, w') \<and>
     w_sim lib on got pre (lay_op L (OpFile name sz mtime)) w'"
proof -
  obtain w1 where w1: "finishEntry lib sink w = Some (True, w1)" "w_sim lib on got pre (lay_finish L) w1"
    by (rule finishEntry_sim [OF env at])
  obtain w2 where "\<And>h. fileBlock name sz mtime = Some h \<Longrightarrow> writeRaw lib sink w1 h = Some (True, w2) \<and>
      w_sim lib on got pre ((lay_finish L)\<lparr>lay_raw := lay_raw (lay_finish L) @ h\<rparr>) w2"
    by (cases "fileBlock name sz mtime") (auto intro: writeRaw_sim [OF env w1(2)])
  with w1 w_sim_ok [OF at] show ?thesis
    by (auto simp: targzWriterAddFile_def fileBlock_def headerBlock_def w_sim_def unat_pad split: option.splits)
qed

lemma Data_sim:
  assumes env: "writer_env lib on closed pot sink got" and at: "w_sim lib on got pre L w"
  shows "\<exists>w'. targzWriterData lib sink w d = Some (True, w') \<and> w_sim lib on got pre (lay_op L (OpData d)) w'"
proof -
  define p where "p = (if length d > unat (w_pending w) then take (unat (w_pending w)) d else d)"
  have a: "w_at lib on got pre (lay_raw L) w" "unat (w_pending w) = owed L" "unat (w_pad w) = fill L"
    using at by (auto simp: w_sim_def)
  have p: "p = take (owed L) d" "length p \<le> unat (w_pending w)" using a(2) by (auto simp: p_def)
  obtain w1 where w1: "writeRaw lib sink w p = Some (True, w1)" "w_at lib on got pre (lay_raw L @ p) w1"
    "w_pending w1 = w_pending w" "w_pad w1 = w_pad w" by (rule writeRaw_at [OF env a(1)])
  define w2 where w2: "w2 = w1\<lparr>w_pending := w_pending w1 - of_nat (length p)\<rparr>"
  have "length p < 2 ^ 32" using p(2) unsigned_less [of "w_pending w", where ?'a = nat] by simp
  then have "unat (w_pending w - of_nat (length p)) = unat (w_pending w) - length p"
    using p(2) by (subst unat_sub) (simp_all add: word_le_nat_alt unat_of_nat)
  then have u: "unat (w_pending w2) = owed L - length p" using w1(3) a(2) by (simp add: w2)
  obtain w3 where w3: "writeZeros lib sink w2 (unat (w_pad w2)) = Some (True, w3)"
    "w_at lib on got pre ((lay_raw L @ p) @ replicate (unat (w_pad w2)) 0) w3" "w_pending w3 = w_pending w2" "w_pad w3 = w_pad w2"
    using writeZeros_at [OF env, of pre "lay_raw L @ p" w2 "unat (w_pad w2)"] w1(2) by (auto simp: w2)
  have op: "targzWriterData lib sink w d = (if w_pending w2 = 0 \<and> w_pad w2 \<noteq> 0 then Some (True, w3\<lparr>w_pad := 0\<rparr>) else Some (True, w2))"
  proof -
    have "targzWriterData lib sink w d = padWhenDone lib sink w2"
      using w1(1) w_sim_ok [OF at] unfolding targzWriterData_def p_def [symmetric] Let_def w2 by simp
    then show ?thesis using w3(1) by (simp add: padWhenDone_def)
  qed
  show ?thesis
  proof (cases "w_pending w2 = 0 \<and> w_pad w2 \<noteq> 0")
    case True
    then have "owed L - length p = 0" using u by simp
    with True op w3 w1(4) a p w2 show ?thesis by (simp add: w_sim_def Let_def)
  next
    case False
    then have "owed L - length p = 0 \<Longrightarrow> fill L = 0" using u w1(4) a(3) w2 by (simp add: unat_eq_0)
    moreover have "w_at lib on got pre (lay_raw L @ p) w2" "w_pad w2 = w_pad w" using w1 w2 by simp_all
    ultimately show ?thesis using False op u a p(1) by (auto simp: w_sim_def Let_def)
  qed
qed

lemma writer_ops_sim:
  assumes env: "writer_env lib on closed pot sink got" and "w_sim lib on got pre L w"
  shows "\<exists>w'. writer_ops lib sink w xs = Some (True, w') \<and> w_sim lib on got pre (foldl lay_op L xs) w'"
  using assms(2)
proof (induction xs arbitrary: L w)
  case (Cons x xs)
  obtain w1 where "writer_op lib sink w x = Some (True, w1)" "w_sim lib on got pre (lay_op L x) w1"
    using AddDir_sim [OF env Cons.prems] AddFile_sim [OF env Cons.prems] Data_sim [OF env Cons.prems]
    by (cases x) (metis writer_op.simps)+
  with Cons.IH [of "lay_op L x" w1] show ?case by simp
qed auto

text \<open>The close: the sink holds the framing around a deflate stream of the archive image.\<close>

lemma Close_sim:
  assumes env: "writer_env lib on closed pot sink got" and at: "w_sim lib on got pre L w"
  obtains c' z where "targzWriterClose lib sink w = Some (True, c')"
    "closed (lay_raw (lay_finish L) @ replicate (2 * TAR_BLOCK) 0) z"
    "got c' = pre @ z @ le32 (tdefl_crc32 lib 0 (lay_raw (lay_finish L) @ replicate (2 * TAR_BLOCK) 0)) @
       le32 (of_nat (length (lay_raw (lay_finish L) @ replicate (2 * TAR_BLOCK) 0)))"
proof -
  let ?raw = "lay_raw (lay_finish L) @ replicate (2 * TAR_BLOCK) 0"
  have e: "tdefl_encodes lib on closed pot" "sink_collects sink got" using env by (auto simp: writer_env_def)
  obtain w1 where w1: "finishEntry lib sink w = Some (True, w1)" "w_sim lib on got pre (lay_finish L) w1"
    by (rule finishEntry_sim [OF env at])
  then have "w_at lib on got pre (lay_raw (lay_finish L)) w1" by (simp add: w_sim_def)
  from writeZeros_at [OF env this, of "2 * TAR_BLOCK"]
  obtain w2 where w2: "writeZeros lib sink w1 (2 * TAR_BLOCK) = Some (True, w2)" "w_at lib on got pre ?raw w2" by auto
  obtain z where z: "on ?raw z (comp w2)" "got (w_ctx w2) = pre @ z" using w2(2) by (auto simp: w_at_def)
  obtain w3 z' where w3: "deflateRun lib sink w2 [] True = Some (True, w3)" "closed ?raw z'"
    "got (w_ctx w3) = pre @ z'" "w_tail w3 = w_tail w2"
    using deflateRun_finish [OF e z] by blast
  obtain c' where c': "sink (w_ctx w3) (le32 (w_crc w3) @ le32 (ucast (w_rawLen w3))) = (True, c')"
    "got c' = got (w_ctx w3) @ le32 (w_crc w3) @ le32 (ucast (w_rawLen w3))"
    by (rule sink_collectsE [OF e(2)])
  have "w_crc w3 = tdefl_crc32 lib 0 ?raw" "w_rawLen w3 = of_nat (length ?raw)"
    using w3(4) w2(2) by (auto simp: w_tail_def w_at_def)
  with c' w3 w2(1) w1(1) w_sim_ok [OF at] show thesis
    by (intro that [of c' z']) (simp_all add: targzWriterClose_def ucast_u64_of_nat del: of_nat_add length_append)
qed

lemma Open_sim:
  assumes env: "writer_env lib on closed pot sink got" and "targzWriterOpen lib sink True c = (Some w, c1)" "got c = []"
  shows "w_sim lib on got GZ_HEADER \<lparr>lay_raw = [], owed = 0, fill = 0\<rparr> w"
proof -
  obtain c' where c': "sink c GZ_HEADER = (True, c')" "got c' = got c @ GZ_HEADER"
    using env by (auto simp: writer_env_def intro: sink_collectsE [of sink got c GZ_HEADER])
  then show ?thesis using env assms(2,3)
    by (auto simp: targzWriterOpen_def w_sim_def w_at_def writer_env_def tdefl_encodes_def crc_appends_def)
qed

end
