(* ===== verification/Targz_Archive.thy ===== *)
theory Targz_Archive
  imports Targz_Writer
begin

unbundle bit_operations_syntax

section \<open>Backup and restore end to end\<close>

text \<open>
  The properties of the archive component: what a writer session produces, a reader session
  restores; a restore that reports success is of data whose checksum and length match the
  footer; the callbacks only ever see safe names; the cut of the stream does not matter. The
  hypotheses about the ROM codec are shown to be satisfiable by a small codec of their kind.
\<close>

subsection \<open>A codec of the kind the contracts describe\<close>

text \<open>A byte is coded as 1 and the byte, the end as 0; one code byte is taken per call.\<close>

datatype plain_state = PStart | PByte | PDone

fun plain_inflate :: "plain_state \<Rightarrow> bytes \<Rightarrow> bytes \<Rightarrow> nat \<Rightarrow> bool \<Rightarrow> plain_state \<times> nat \<times> bytes \<times> int" where
  "plain_inflate PDone inp d n final = (PDone, 0, [], 0)"
| "plain_inflate s [] d n final = (s, 0, [], if final then -4 else 1)"
| "plain_inflate PStart (b # inp) d n final = (if b = 0 then (PDone, 1, [], 0) else (PByte, 1, [], 1))"
| "plain_inflate PByte (b # inp) d n final = (PStart, 1, [b], 1)"

definition plain_crc :: "u32 \<Rightarrow> bytes \<Rightarrow> u32" where
  "plain_crc c bs = c + of_nat (length bs)"

definition plain_inflate_lib :: "plain_state inflate_lib" where
  "plain_inflate_lib = \<lparr>tinfl_init = PStart, tinfl_decompress = plain_inflate, mz_crc32 = plain_crc\<rparr>"

definition plain_code :: "bytes \<Rightarrow> bytes" where
  "plain_code raw = concat (map (\<lambda>b. [1, b]) raw)"

fun plain_deflate :: "unit \<Rightarrow> bytes \<Rightarrow> bool \<Rightarrow> unit \<times> nat \<times> bytes \<times> int" where
  "plain_deflate u inp True = ((), 0, [0], 1)"
| "plain_deflate u inp False = ((), length inp, plain_code inp, 0)"

definition plain_deflate_lib :: "unit deflate_lib" where
  "plain_deflate_lib = \<lparr>tdefl_init = (), tdefl_compress = plain_deflate, tdefl_crc32 = plain_crc\<rparr>"

definition plain_in :: "bytes \<Rightarrow> nat \<Rightarrow> nat \<Rightarrow> plain_state \<Rightarrow> bool" where
  "plain_in raw k m s \<longleftrightarrow> (case s of
     PStart \<Rightarrow> k = 2 * m
   | PByte \<Rightarrow> k = 2 * m + 1 \<and> m < length raw
   | PDone \<Rightarrow> k = 2 * length raw + 1 \<and> m = length raw)"

definition plain_out :: "bytes \<Rightarrow> bytes \<Rightarrow> unit \<Rightarrow> bool" where
  "plain_out raw z u \<longleftrightarrow> z = plain_code raw"

definition plain_closed :: "bytes \<Rightarrow> bytes \<Rightarrow> bool" where
  "plain_closed raw z \<longleftrightarrow> z = plain_code raw @ [0]"

lemma length_plain_code [simp]: "length (plain_code raw) = 2 * length raw"
  by (induction raw) (auto simp: plain_code_def)

lemma plain_code_nth:
  "m < length raw \<Longrightarrow> plain_code raw ! (2 * m) = 1 \<and> plain_code raw ! Suc (2 * m) = raw ! m"
proof (induction raw arbitrary: m)
  case (Cons b raw)
  then show ?case by (cases m) (auto simp: plain_code_def)
qed simp

lemma take_drop_Cons: "take (length (b # bs)) (drop k z) = b # bs \<Longrightarrow> k < length z \<and> b = z ! k"
  by (cases "drop k z") (auto simp: nth_via_drop not_le [symmetric])

lemma plain_decodes: "tinfl_decodes plain_inflate_lib (plain_code raw @ [0]) raw (plain_in raw)"
proof -
  let ?z = "plain_code raw @ [0]"
  have "case plain_inflate s inp d (m mod DICT_SIZE) final of (s', n, out, st) \<Rightarrow>
           n \<le> length inp \<and> length out \<le> DICT_SIZE - m mod DICT_SIZE \<and>
           take (length out) (drop m raw) = out \<and> plain_in raw (k + n) (m + length out) s' \<and>
           0 \<le> st \<and> (st = 0 \<longrightarrow> m + length out = length raw) \<and>
           (0 < st \<and> n = 0 \<and> out = [] \<longrightarrow> inp = [] \<and> \<not> final)"
    if on: "plain_in raw k m s" and m: "m \<le> length raw" and inp: "take (length inp) (drop k ?z) = inp"
      and fin: "final \<longrightarrow> inp = [] \<and> k = length ?z" for k m s inp d final
  proof -
    have win: "1 \<le> DICT_SIZE - m mod DICT_SIZE"
      using mod_less_divisor [of DICT_SIZE m] by (simp add: DICT_SIZE_def)
    have next_byte: "k < length ?z \<and> b = ?z ! k" if "inp = b # bs" for b bs
      using take_drop_Cons [OF inp [unfolded that]] by simp
    show ?thesis
    proof (cases s)
      case PDone
      with on show ?thesis by (simp add: plain_in_def)
    next
      case PStart
      with on have k: "k = 2 * m" by (simp add: plain_in_def)
      show ?thesis
      proof (cases inp)
        case Nil
        with PStart k fin m on show ?thesis by (auto simp: plain_in_def)
      next
        case (Cons b bs)
        then show ?thesis
          using PStart k m next_byte [OF Cons] plain_code_nth [of m raw] fin
          by (cases "m < length raw") (auto simp: plain_in_def nth_append)
      qed
    next
      case PByte
      with on have k: "k = 2 * m + 1" "m < length raw" by (auto simp: plain_in_def)
      show ?thesis
      proof (cases inp)
        case Nil
        with PByte k fin on show ?thesis by (auto simp: plain_in_def)
      next
        case (Cons b bs)
        have "take (Suc 0) (drop m raw) = [raw ! m]" using k(2) by (simp add: take_Suc_conv_app_nth hd_drop_conv_nth take_Suc)
        then show ?thesis
          using PByte k next_byte [OF Cons] plain_code_nth [of m raw] fin Cons win
          by (auto simp: plain_in_def nth_append)
      qed
    qed
  qed
  then show ?thesis
    unfolding tinfl_decodes_def plain_inflate_lib_def by (auto simp: plain_in_def)
qed

lemma plain_crc_appends: "crc_appends plain_crc" "crc_streams plain_inflate_lib"
  by (simp_all add: crc_appends_def crc_streams_def plain_crc_def plain_inflate_lib_def)

lemma plain_encodes: "tdefl_encodes plain_deflate_lib plain_out plain_closed (\<lambda>_. 0)"
  unfolding tdefl_encodes_def plain_deflate_lib_def
  by (auto simp: plain_out_def plain_closed_def plain_code_def split: bool.splits elim: plain_deflate.elims)

definition list_sink :: "bytes targz_sink" where
  "list_sink c bs = (True, c @ bs)"

lemma plain_writer_env: "writer_env plain_deflate_lib plain_out plain_closed (\<lambda>_. 0) list_sink (\<lambda>c. c)"
  using plain_encodes plain_crc_appends
  by (simp add: writer_env_def sink_collects_def list_sink_def plain_deflate_lib_def)

subsection \<open>What a reader session establishes, for any codec and any input\<close>

text \<open>
  The invariant of a session: \<open>I\<close> holds of the target's context and, while no error is set,
  \<open>Q\<close> of the parser's state, the running checksum and the running length. \<open>Q\<close> is one that
  parsing keeps.
\<close>

type_synonym 'c parse_inv = "'c tar_state \<Rightarrow> u32 \<Rightarrow> u64 \<Rightarrow> bool"

definition rd_sound :: "'c targz_cb \<Rightarrow> 'i inflate_lib \<Rightarrow> ('c \<Rightarrow> bool) \<Rightarrow> 'c parse_inv \<Rightarrow> ('c, 'i) targz_reader \<Rightarrow> bool" where
  "rd_sound cb lib I Q r \<longleftrightarrow> I (ctx r) \<and> (err r = TARGZ_OK \<longrightarrow> Q (core r) (crc r) (rawLen r))"

definition sound_setup :: "'c targz_cb \<Rightarrow> 'i inflate_lib \<Rightarrow> ('c \<Rightarrow> bool) \<Rightarrow> 'c parse_inv \<Rightarrow> bool" where
  "sound_setup cb lib I Q \<longleftrightarrow> cb_preserves cb I \<and>
     (\<forall>t c l. Q t c l \<longrightarrow> tar_inv t \<and> (\<forall>out t'. tarConsume cb t out = (TARGZ_OK, t') \<longrightarrow>
        Q t' (mz_crc32 lib c out) (l + of_nat (length out))))"

lemma rd_sound_upd [simp]:
  "rd_sound cb lib I Q (r\<lparr>inf := i\<rparr>) = rd_sound cb lib I Q r"
  "rd_sound cb lib I Q (r\<lparr>dict := d\<rparr>) = rd_sound cb lib I Q r"
  "rd_sound cb lib I Q (r\<lparr>dictOfs := n\<rparr>) = rd_sound cb lib I Q r"
  "rd_sound cb lib I Q (r\<lparr>gz := g\<rparr>) = rd_sound cb lib I Q r"
  "rd_sound cb lib I Q (r\<lparr>hold := h\<rparr>) = rd_sound cb lib I Q r"
  by (simp_all add: rd_sound_def)

lemma rd_sound_err: "rd_sound cb lib I Q r \<Longrightarrow> e \<noteq> TARGZ_OK \<Longrightarrow> rd_sound cb lib I Q (r\<lparr>err := e\<rparr>)"
  by (simp add: rd_sound_def)

lemma rd_sound_err_OK: "err r = TARGZ_OK \<Longrightarrow> rd_sound cb lib I Q (r\<lparr>err := TARGZ_OK\<rparr>) = rd_sound cb lib I Q r"
  by (simp add: rd_sound_def)

lemma tarConsume_sound:
  assumes S: "sound_setup cb lib I Q" and r: "rd_sound cb lib I Q r" "err r = TARGZ_OK"
    and c: "tarConsume cb (r\<lparr>crc := mz_crc32 lib (crc r) out, rawLen := rawLen r + of_nat (length out)\<rparr>) out = (e, r')"
  shows "err r' = TARGZ_OK" "hold r' = hold r \<and> gz r' = gz r" "rd_sound cb lib I Q (r'\<lparr>err := e\<rparr>)"
proof -
  let ?q = "r\<lparr>crc := mz_crc32 lib (crc r) out, rawLen := rawLen r + of_nat (length out)\<rparr>"
  note S' = S [unfolded sound_setup_def]
  have q: "Q (core r) (crc r) (rawLen r)" using r by (simp add: rd_sound_def)
  then have inv: "tar_inv (core r)" using S' by blast
  have cq: "core ?q = core r" by simp
  have "same_core ?q (e, r') (tarConsume cb (core r) out)"
  proof -
    have "tar_inv ?q" using inv tar_inv_core [of ?q] unfolding cq by blast
    from tarConsume_core [OF this, of cb out] c show ?thesis unfolding cq by (simp only:)
  qed
  then have t: "tarConsume cb (core r) out = (e, core r')" and f: "framing_eq ?q r'" by (auto simp: same_core_def)
  show "err r' = TARGZ_OK" "hold r' = hold r \<and> gz r' = gz r" using framing_eqD [OF f] r(2) by auto
  have st: "tarStep cb (TARGZ_OK, core r) out = settle (e, core r')" using t by (simp add: tarStep_OK)
  have "I (ctx (snd (tarStep cb (TARGZ_OK, core r) out)))"
    using tarStep_preserves [of cb I "core r" out] inv S' r(1) by (simp add: rd_sound_def)
  then have "I (ctx r')" using st by (simp add: settle_def split: if_splits)
  moreover have "Q (core r') (mz_crc32 lib (crc r) out) (rawLen r + of_nat (length out))" if "e = TARGZ_OK"
    using S' q t that by blast
  then have "Q (core r') (crc r') (rawLen r')" if "e = TARGZ_OK"
    using that framing_eqD(10,11) [OF f] by simp
  ultimately show "rd_sound cb lib I Q (r'\<lparr>err := e\<rparr>)" unfolding rd_sound_def by auto
qed

lemma inflateSome_sound:
  assumes "inflateSome lib cb r p final = Some y" "sound_setup cb lib I Q" "rd_sound cb lib I Q r" "err r = TARGZ_OK"
  shows "rd_sound cb lib I Q (fst y) \<and> hold (fst y) = hold r \<and> (gz_in_header (fst y) \<longrightarrow> gz_in_header r)"
proof (rule inflateSome.raw_induct [where P = "\<lambda>lib cb r p final y. sound_setup cb lib I Q \<longrightarrow> rd_sound cb lib I Q r \<longrightarrow>
      err r = TARGZ_OK \<longrightarrow> rd_sound cb lib I Q (fst y) \<and> hold (fst y) = hold r \<and> (gz_in_header (fst y) \<longrightarrow> gz_in_header r)", OF _ assms(1), rule_format, OF _ assms(2-4)])
  fix run lib cb r p final y
  assume IH: "\<And>lib cb r p final y. run lib cb r p final = Some y \<Longrightarrow> sound_setup cb lib I Q \<Longrightarrow>
      rd_sound cb lib I Q r \<Longrightarrow> err r = TARGZ_OK \<Longrightarrow> rd_sound cb lib I Q (fst y) \<and> hold (fst y) = hold r \<and> (gz_in_header (fst y) \<longrightarrow> gz_in_header r)"
    and body: "(if gz r \<noteq> GZ_DEFLATE then Some (r, p)
      else (case tinfl_decompress lib (inf r) p (dict r) (dictOfs r) final of (i, n, out, st) \<Rightarrow>
        (let q = drop n p;
             r1 = r\<lparr>inf := i, dict := overwrite (dict r) (dictOfs r) out\<rparr>;
             (e, r2) = (if out = [] then (TARGZ_OK, r1)
                        else tarConsume cb (r1\<lparr>crc := mz_crc32 lib (crc r1) out,
                                               rawLen := rawLen r1 + of_nat (length out)\<rparr>) out)
         in if e \<noteq> TARGZ_OK then Some (r2\<lparr>err := e\<rparr>, q)
            else (let r3 = (if out = [] then r2
                            else r2\<lparr>dictOfs := (dictOfs r2 + length out) mod DICT_SIZE\<rparr>)
                  in if st = 0 then Some (r3\<lparr>gz := GZ_FOOTER\<rparr>, q)
                     else if st < 0 then Some (r3\<lparr>err := TARGZ_ERR_DEFLATE\<rparr>, q)
                     else if n = 0 \<and> out = [] then Some (r3, q)
                     else run lib cb r3 q final)))) = Some y"
    and S: "sound_setup cb lib I Q" and r: "rd_sound cb lib I Q r" "err r = TARGZ_OK"
  obtain i n out st where c: "tinfl_decompress lib (inf r) p (dict r) (dictOfs r) final = (i, n, out, st)"
    by (metis prod_cases4)
  define r1 where "r1 = r\<lparr>inf := i, dict := overwrite (dict r) (dictOfs r) out\<rparr>"
  have s1: "rd_sound cb lib I Q r1" "err r1 = TARGZ_OK" "hold r1 = hold r" "gz r1 = gz r" using r by (simp_all add: r1_def)
  obtain e r2 where e: "(if out = [] then (TARGZ_OK, r1)
      else tarConsume cb (r1\<lparr>crc := mz_crc32 lib (crc r1) out, rawLen := rawLen r1 + of_nat (length out)\<rparr>) out) = (e, r2)"
    by force
  have s2: "rd_sound cb lib I Q (r2\<lparr>err := e\<rparr>)" "err r2 = TARGZ_OK" "hold r2 = hold r" "gz r2 = gz r"
    using tarConsume_sound [OF S s1(1,2)] e s1 by (auto simp: rd_sound_err_OK split: if_splits)
  define r3 where "r3 = (if out = [] then r2 else r2\<lparr>dictOfs := (dictOfs r2 + length out) mod DICT_SIZE\<rparr>)"
  have s3: "rd_sound cb lib I Q r3" "err r3 = TARGZ_OK" "hold r3 = hold r" "gz r3 = gz r" if "e = TARGZ_OK"
    using s2 that by (auto simp: r3_def rd_sound_err_OK)
  show "rd_sound cb lib I Q (fst y) \<and> hold (fst y) = hold r \<and> (gz_in_header (fst y) \<longrightarrow> gz_in_header r)"
  proof (cases "gz r = GZ_DEFLATE")
    case True
    from body have "(if e \<noteq> TARGZ_OK then Some (r2\<lparr>err := e\<rparr>, drop n p)
       else if st = 0 then Some (r3\<lparr>gz := GZ_FOOTER\<rparr>, drop n p)
       else if st < 0 then Some (r3\<lparr>err := TARGZ_ERR_DEFLATE\<rparr>, drop n p)
       else if n = 0 \<and> out = [] then Some (r3, drop n p)
       else run lib cb r3 (drop n p) final) = Some y"
      unfolding c prod.case Let_def r1_def [symmetric] e r3_def [symmetric] using True by simp
    then show ?thesis using True IH [of lib cb r3 "drop n p" final y, OF _ S] s2 s3 rd_sound_err [of cb lib I Q r3 TARGZ_ERR_DEFLATE]
      by (auto simp: gz_in_header_def split: if_splits)
  qed (use body r in auto)
qed

lemma inflatePiece_sound:
  assumes "inflatePiece lib cb r p = Some r'" "sound_setup cb lib I Q" "rd_sound cb lib I Q r" "err r = TARGZ_OK"
  shows "rd_sound cb lib I Q r' \<and> hold r' = hold r \<and> (gz_in_header r' \<longrightarrow> gz_in_header r)"
proof (cases "p = []")
  case True
  with assms show ?thesis by (simp add: inflatePiece_def)
next
  case False
  then obtain r1 q where q: "inflateSome lib cb r p False = Some (r1, q)"
    using assms(1) by (auto simp: inflatePiece_def split: option.splits)
  from inflateSome_sound [OF this assms(2-4)] q assms(1) False
    rd_sound_err [of cb lib I Q r1 TARGZ_ERR_DEFLATE] show ?thesis
    by (auto simp: inflatePiece_def gz_in_header_def split: if_splits)
qed

text \<open>The session after the bytes \<open>fed\<close>: the held bytes are the last ones that arrived.\<close>

definition session :: "'c targz_cb \<Rightarrow> 'i inflate_lib \<Rightarrow> ('c \<Rightarrow> bool) \<Rightarrow> 'c parse_inv \<Rightarrow> bytes \<Rightarrow> ('c, 'i) targz_reader \<Rightarrow> bool" where
  "session cb lib I Q fed r \<longleftrightarrow> rd_sound cb lib I Q r \<and> (err r = TARGZ_OK \<longrightarrow>
     length (hold r) \<le> GZ_FOOT_LEN \<and> (\<exists>pre. fed = pre @ hold r) \<and> (gz_in_header r \<longrightarrow> hold r = []))"

lemma holdAndInflate_session:
  assumes h: "holdAndInflate lib cb r p = Some r'" and S: "sound_setup cb lib I Q"
    and r: "session cb lib I Q fed r" "err r = TARGZ_OK" "\<not> gz_in_header r"
  shows "session cb lib I Q (fed @ p) r'"
proof -
  have s: "rd_sound cb lib I Q r" using r by (simp add: session_def)
  obtain pre where pre: "fed = pre @ hold r" using r by (auto simp: session_def)
  show ?thesis
  proof (cases "length (hold r) + length p \<le> GZ_FOOT_LEN")
    case True
    with h have "r' = r\<lparr>hold := hold r @ p\<rparr>" by (simp add: holdAndInflate_def)
    moreover have "\<not> gz_in_header (r\<lparr>hold := hold r @ p\<rparr>)" using r(3) by (simp add: gz_in_header_def)
    ultimately show ?thesis using True s pre by (simp add: session_def)
  next
    case False
    define feed where "feed = length (hold r) + length p - GZ_FOOT_LEN"
    define fh where "fh = (if feed < length (hold r) then feed else length (hold r))"
    define fd where "fd = feed - fh"
    obtain r1 where r1: "inflatePiece lib cb r (take fh (hold r)) = Some r1"
      using h False unfolding holdAndInflate_def Let_def feed_def [symmetric] fh_def [symmetric] fd_def [symmetric]
      by (auto split: option.splits)
    note s1 = inflatePiece_sound [OF r1 S s r(2)]
    show ?thesis
    proof (cases "err r1 = TARGZ_OK")
      case e1: True
      obtain r2 where r2: "inflatePiece lib cb r1 (take fd p) = Some r2"
        using h False e1 r1 unfolding holdAndInflate_def Let_def feed_def [symmetric] fh_def [symmetric] fd_def [symmetric]
        by (auto split: option.splits)
      note s2 = inflatePiece_sound [OF r2 S _ e1]
      have r': "r' = (if err r2 \<noteq> TARGZ_OK then r2 else r2\<lparr>hold := drop fh (hold r) @ drop fd p\<rparr>)"
        using h False e1 r1 r2 unfolding holdAndInflate_def Let_def feed_def [symmetric] fh_def [symmetric] fd_def [symmetric]
        by (auto split: if_splits)
      have rest: "drop fh (hold r) @ drop fd p = drop feed (hold r @ p)" by (auto simp: fh_def fd_def)
      have "fed @ p = (pre @ take feed (hold r @ p)) @ drop feed (hold r @ p)"
        unfolding append.assoc append_take_drop_id using pre by simp
      moreover have "\<not> gz_in_header (r2\<lparr>hold := drop feed (hold r @ p)\<rparr>)" using r(3) s1 s2 by (auto simp: gz_in_header_def)
      moreover have "length (drop feed (hold r @ p)) \<le> GZ_FOOT_LEN" by (simp add: feed_def)
      ultimately show ?thesis using s1 s2 r' unfolding session_def rest
        by (metis rd_sound_upd(5) targz_reader.select_convs(9) targz_reader.surjective targz_reader.update_convs(9))
    next
      case False
      with h r1 \<open>\<not> length (hold r) + length p \<le> GZ_FOOT_LEN\<close> have "r' = r1"
        unfolding holdAndInflate_def Let_def feed_def [symmetric] fh_def [symmetric] fd_def [symmetric] by auto
      with False s1 show ?thesis by (simp add: session_def)
    qed
  qed
qed

lemma gzHeader_rest: "\<exists>used. p = used @ snd (gzHeader r p)"
proof (induction r p rule: gz_induct)
  case (extra r a p)
  then obtain u where "p = u @ snd (gzHeader (r\<lparr>extraLeft := 0, gz := gzAfterExtra (gzFlags r)\<rparr>) p)" by blast
  with extra show ?case by (simp add: gzHeader_extra_full) (metis append_assoc)
next
  case (byte r c p)
  then obtain u where "p = u @ snd (gzHeader (gzByte r c) p)" by blast
  with byte show ?case by (simp add: gzHeader_byte del: gzHeader.simps) (metis append_Cons append_Nil)
qed (auto simp: gzHeader_out gzHeader_extra_short)

lemma targzReaderFeed_session:
  assumes f: "targzReaderFeed lib cb r p = Some (e, r')" and S: "sound_setup cb lib I Q" and r: "session cb lib I Q fed r"
  shows "session cb lib I Q (fed @ p) r' \<and> e = err r'"
proof (cases "err r = TARGZ_OK")
  case False
  with f r show ?thesis by (auto simp: targzReaderFeed_def session_def)
next
  case True
  obtain r1 q where h: "(if gz r \<noteq> GZ_DEFLATE \<and> gz r \<noteq> GZ_FOOTER then gzHeader r p else (r, p)) = (r1, q)" by force
  have s1: "session cb lib I Q (fed @ u) r1 \<and> p = u @ q \<and> (gz_in_header r1 \<and> err r1 = TARGZ_OK \<longrightarrow> q = [])"
    if "gz_in_header r \<Longrightarrow> p = u @ q" "\<not> gz_in_header r \<Longrightarrow> u = []" for u
  proof (cases "gz_in_header r")
    case hd: True
    then have g: "gzHeader r p = (r1, q)" using h by (simp add: gz_in_header_def)
    have fr: "gz_frame r r1" using gzHeader_frame [of r p] g by simp
    have c: "ctx r1 = ctx r" using fr core_sel(1) [of r] core_sel(1) [of r1] by (simp add: gz_frame_def)
    have hl: "hold r = []" using r True hd by (simp add: session_def)
    have "rd_sound cb lib I Q r1" using r fr c True by (auto simp: session_def rd_sound_def gz_frame_def)
    then show ?thesis using fr hl that(1) [OF hd] gzHeader_all [of r p] g
      by (auto simp: session_def gz_frame_def)
  next
    case False
    with h r that(2) show ?thesis by (auto simp: gz_in_header_def)
  qed
  obtain u where u: "gz_in_header r \<Longrightarrow> p = u @ q" "\<not> gz_in_header r \<Longrightarrow> u = []"
    using gzHeader_rest [of p r] h by (cases "gz_in_header r") (auto simp: gz_in_header_def)
  note s1 = s1 [OF u]
  have res: "Some (e, r') = (if err r1 \<noteq> TARGZ_OK then Some (err r1, r1)
      else if gz_in_header r1 then Some (TARGZ_OK, r1) else map_option (\<lambda>r2. (err r2, r2)) (holdAndInflate lib cb r1 q))"
    using f True h unfolding targzReaderFeed_def gz_in_header_def Let_def by simp
  consider "err r1 \<noteq> TARGZ_OK" | "err r1 = TARGZ_OK" "gz_in_header r1" | "err r1 = TARGZ_OK" "\<not> gz_in_header r1" by blast
  then show ?thesis
  proof cases
    case 1
    with res s1 show ?thesis by (auto simp: session_def)
  next
    case 2
    with res s1 show ?thesis by auto
  next
    case 3
    with res obtain r2 where "holdAndInflate lib cb r1 q = Some r2" "r' = r2" "e = err r2"
      by (cases "holdAndInflate lib cb r1 q") auto
    with holdAndInflate_session [OF this(1) S, of "fed @ u"] s1 3 show ?thesis by auto
  qed
qed

lemma feedAll_session:
  assumes "sound_setup cb lib I Q"
  shows "feedAll lib cb r ps = Some r' \<Longrightarrow> session cb lib I Q fed r \<Longrightarrow> rd_sound cb lib I Q r' \<and>
    (err r' = TARGZ_OK \<longrightarrow> session cb lib I Q (fed @ concat ps) r')"
proof (induction ps arbitrary: r fed)
  case Nil
  then show ?case by (simp add: session_def)
next
  case (Cons p ps)
  then obtain e r1 where f: "targzReaderFeed lib cb r p = Some (e, r1)" by (auto split: option.splits)
  from targzReaderFeed_session [OF f assms Cons.prems(2)] f Cons.prems(1) Cons.IH [of r1 "fed @ p"]
  show ?case by (auto simp: session_def split: if_splits)
qed

lemma open_session:
  "targzReaderOpen lib ok c = Some r \<Longrightarrow> I c \<Longrightarrow> Q (core r) 0 0 \<Longrightarrow> session cb lib I Q [] r"
  by (auto simp: targzReaderOpen_def session_def rd_sound_def split: if_splits)

lemma open_inv: "targzReaderOpen lib ok c = Some r \<Longrightarrow> tar_inv (core r)"
  by (auto simp: targzReaderOpen_def tar_inv_def TAR_BLOCK_def split: if_splits)

text \<open>The end of a session: the context is still good, and success means the footer matched.\<close>

lemma targzReaderFinish_session:
  assumes f: "targzReaderFinish lib cb r = Some (e, n, b, c)" and S: "sound_setup cb lib I Q"
    and r: "rd_sound cb lib I Q r" "err r = TARGZ_OK \<Longrightarrow> session cb lib I Q fed r"
  shows "I c" "e = TARGZ_OK \<Longrightarrow> \<exists>t1 pre foot v l. Q t1 v l \<and>
    tar t1 \<in> {TAR_HDR, TAR_END} \<and> hdr t1 = [] \<and> n = entries t1 \<and> b = bytes t1 \<and> c = ctx t1 \<and>
    fed = pre @ foot \<and> length foot = GZ_FOOT_LEN \<and> of_le32 (take 4 foot) = v \<and> of_le32 (drop 4 foot) = ucast l"
proof -
  obtain r1 where r1: "(if err r = TARGZ_OK \<and> gz r = GZ_DEFLATE then map_option fst (inflateSome lib cb r [] True) else Some r) = Some r1"
    using f by (auto simp: targzReaderFinish_def split: option.splits)
  have s1: "rd_sound cb lib I Q r1" "hold r1 = hold r" "err r1 = TARGZ_OK \<Longrightarrow> err r = TARGZ_OK"
    using r1 r(1) inflateSome_sound [OF _ S r(1), of "[]" True] by (auto split: if_splits)
  note F = f [unfolded targzReaderFinish_def r1 option.case]
  show "I c" using F s1(1) by (simp add: rd_sound_def)
  assume e: "e = TARGZ_OK"
  have c: "err r1 = TARGZ_OK" "GZ_FOOT_LEN \<le> length (hold r1)" "tar r1 \<noteq> TAR_DATA" "tar r1 \<noteq> TAR_PAD" "hdr r1 = []"
    "of_le32 (take 4 (hold r1)) = crc r1" "of_le32 (drop 4 (hold r1)) = ucast (rawLen r1)"
    "n = entries r1" "b = bytes r1" "c = ctx r1"
    using F e by (auto split: if_splits)
  have "Q (core r1) (crc r1) (rawLen r1)" using s1(1) c(1) by (simp add: rd_sound_def)
  moreover obtain pre where pre: "fed = pre @ hold r" "length (hold r) \<le> GZ_FOOT_LEN"
    using r(2) s1(3) c(1) by (auto simp: session_def)
  moreover have "tar r1 = TAR_HDR \<or> tar r1 = TAR_END" using c(3,4) by (cases "tar r1") auto
  ultimately show "\<exists>t1 pre foot v l. Q t1 v l \<and>
    tar t1 \<in> {TAR_HDR, TAR_END} \<and> hdr t1 = [] \<and> n = entries t1 \<and> b = bytes t1 \<and> c = ctx t1 \<and>
    fed = pre @ foot \<and> length foot = GZ_FOOT_LEN \<and> of_le32 (take 4 foot) = v \<and> of_le32 (drop 4 foot) = ucast l"
    using c s1(2)
    by (intro exI [of _ "core r1"] exI [of _ pre] exI [of _ "hold r"] exI [of _ "crc r1"] exI [of _ "rawLen r1"]) simp
qed

lemma session_end:
  assumes S: "sound_setup cb lib I Q" and o: "session cb lib I Q [] r"
    and f: "feedAll lib cb r ps = Some r'" "targzReaderFinish lib cb r' = Some (e, n, b, c)"
  shows "I c" "e = TARGZ_OK \<Longrightarrow> \<exists>t1 pre foot v l. Q t1 v l \<and>
    tar t1 \<in> {TAR_HDR, TAR_END} \<and> hdr t1 = [] \<and> n = entries t1 \<and> b = bytes t1 \<and> c = ctx t1 \<and>
    concat ps = pre @ foot \<and> length foot = GZ_FOOT_LEN \<and> of_le32 (take 4 foot) = v \<and> of_le32 (drop 4 foot) = ucast l"
  using targzReaderFinish_session [OF f(2) S, of "concat ps"] feedAll_session [OF S f(1) o] by auto

text \<open>The parser's state as where parsing one byte string leads.\<close>

definition parsed_raw :: "'c targz_cb \<Rightarrow> 'i inflate_lib \<Rightarrow> 'c tar_state \<Rightarrow> 'c parse_inv" where
  "parsed_raw cb lib t0 t v l \<longleftrightarrow> tar_inv t \<and>
     (\<exists>raw. tarStep cb (TARGZ_OK, t0) raw = (TARGZ_OK, t) \<and> v = mz_crc32 lib 0 raw \<and> l = of_nat (length raw))"

lemma parsed_raw_setup:
  assumes "data_hom cb" "crc_streams lib" "tar_inv t0"
  shows "sound_setup cb lib (\<lambda>_. True) (parsed_raw cb lib t0)"
proof -
  have "parsed_raw cb lib t0 t' (mz_crc32 lib v out) (l + of_nat (length out))"
    if q: "parsed_raw cb lib t0 t v l" and c: "tarConsume cb t out = (TARGZ_OK, t')" for t v l out t'
  proof -
    from q obtain raw where raw: "tarStep cb (TARGZ_OK, t0) raw = (TARGZ_OK, t)" "v = mz_crc32 lib 0 raw"
      "l = of_nat (length raw)" "tar_inv t" by (auto simp: parsed_raw_def)
    have "tarStep cb (TARGZ_OK, t) out = (TARGZ_OK, t')" using c by (simp add: tarStep_OK)
    with raw tarStep_append [OF assms(1,3), of raw out] tarStep_inv [of t cb out] assms(2)
    show ?thesis by (auto simp: parsed_raw_def crc_streams_def intro!: exI [of _ "raw @ out"])
  qed
  then show ?thesis unfolding sound_setup_def by (auto simp: cb_preserves_def parsed_raw_def)
qed

subsection \<open>Properties\<close>

lemma GZ_HEADER_member: "GZ_HEADER = gzMember 0 [0, 0, 0, 0, 0, 0xff] [] [] [] [0, 0]"
  by (simp add: GZ_HEADER_def gzMember_def)

lemma restore_image:
  assumes "tinfl_decodes lib z (tarImage es) on" "crc_streams lib" "\<forall>e \<in> set es. entry_wf e"
    "gzMember_wf mid extra name comment hcrc" "targzReaderOpen lib True [] = Some r"
    "concat ps = gzMember f mid extra name comment hcrc @ z @ le32 (mz_crc32 lib 0 (tarImage es)) @
       le32 (of_nat (length (tarImage es)))"
  shows "\<exists>r'. feedAll lib mem_cb r ps = Some r' \<and> targzReaderFinish lib mem_cb r' =
    Some (TARGZ_OK, of_nat (length es), sum_list (map entryBytes es), rev (map entryItem es))"
proof -
  note o = targzReaderOpen_fresh [OF assms(5)]
  obtain t1 where t1: "tarStep mem_cb (TARGZ_OK, core r) (tarImage es) = (TARGZ_OK, t1)" "tar t1 = TAR_END" "hdr t1 = []"
    "ctx t1 = rev (map entryItem es)" "entries t1 = of_nat (length es)" "bytes t1 = sum_list (map entryBytes es)"
    using tarStep_image [of "core r" es] o assms(3) by auto
  have "stream_setup mem_cb lib z (tarImage es) on (core r) t1"
    unfolding stream_setup_def using assms(1,2) t1(1) o mem.data_in_pieces at_boundary_inv by blast
  from targzReader_complete [OF this _ _ _ _ assms(4,6)] o t1 show ?thesis by auto
qed

text \<open>
  C1. Round trip. For every sequence of directory, file and data calls of a backup (bodies cut
  anyhow, short of or beyond their declared size) in which each entry that is written has a safe
  relative name of fewer than 256 bytes and a size below 4 GB, the writer accepts the calls, and a
  restore fed the produced archive in any pieces reports OK and delivers exactly the entries those
  calls describe: a short body zero-filled to its size, an excess dropped, a name that no header
  can represent left out. The codec's contracts are hypotheses, and the sink takes what it is
  given. (A name of exactly 256 bytes is written and refused by the restore.)
\<close>

theorem archive_round_trip:
  assumes "writer_env dlib on closed pot sink got" "got c = []"
    and "\<forall>raw z. closed raw z \<longrightarrow> (\<exists>on'. tinfl_decodes ilib z raw on')" "crc_streams ilib" "mz_crc32 ilib = tdefl_crc32 dlib"
    and "\<forall>e \<in> set (opsEntries None ops). entry_wf e"
    and "targzWriterOpen dlib sink True c = (Some w, c1)" "targzReaderOpen ilib True [] = Some r"
  shows "\<exists>w' c'. writer_ops dlib sink w ops = Some (True, w') \<and> targzWriterClose dlib sink w' = Some (True, c') \<and>
    (\<forall>ps. concat ps = got c' \<longrightarrow> (\<exists>r'. feedAll ilib mem_cb r ps = Some r' \<and> targzReaderFinish ilib mem_cb r' =
       Some (TARGZ_OK, of_nat (length (opsEntries None ops)), sum_list (map entryBytes (opsEntries None ops)),
             rev (map entryItem (opsEntries None ops)))))"
proof -
  let ?L = "\<lparr>lay_raw = [], owed = 0, fill = 0\<rparr>" and ?es = "opsEntries None ops"
  note env = assms(1)
  obtain w' where w': "writer_ops dlib sink w ops = Some (True, w')" "w_sim dlib on got GZ_HEADER (foldl lay_op ?L ops) w'"
    using writer_ops_sim [OF env Open_sim [OF env assms(7,2)]] by blast
  have img: "lay_raw (lay_finish (foldl lay_op ?L ops)) @ replicate (2 * TAR_BLOCK) 0 = tarImage ?es"
    using lay_ops_image [of "[]" None ?L ops] by (simp add: rep_def tarImage_def)
  obtain c' z where c': "targzWriterClose dlib sink w' = Some (True, c')" "closed (tarImage ?es) z"
    "got c' = GZ_HEADER @ z @ le32 (tdefl_crc32 dlib 0 (tarImage ?es)) @ le32 (of_nat (length (tarImage ?es)))"
    by (rule Close_sim [OF env w'(2), unfolded img])
  obtain on' where on': "tinfl_decodes ilib z (tarImage ?es) on'" using assms(3) c'(2) by blast
  have wf: "gzMember_wf [0, 0, 0, 0, 0, 0xff] [] [] [] [0, 0]" by (simp add: gzMember_wf_def)
  have "\<exists>r'. feedAll ilib mem_cb r ps = Some r' \<and> targzReaderFinish ilib mem_cb r' =
      Some (TARGZ_OK, of_nat (length ?es), sum_list (map entryBytes ?es), rev (map entryItem ?es))"
    if "concat ps = got c'" for ps
    using restore_image [OF on' assms(4,6) wf assms(8), of ps 0] that c'(3) assms(5) by (simp add: GZ_HEADER_member)
  with w' c' show ?thesis by blast
qed

definition demo_ops :: "w_op list" where
  "demo_ops = [OpDir (bytes_of ''d'') 1, OpFile (bytes_of ''d/f'') 3 2, OpData [7, 8], OpFile (bytes_of ''e'') 1 2, OpData [9, 9]]"

lemma demo_ops_entries:
  "opsEntries None demo_ops = [DirEntry (bytes_of ''d'') 1, FileEntry (bytes_of ''d/f'') 2 [7, 8, 0], FileEntry (bytes_of ''e'') 2 [9]]"
  by (simp add: demo_ops_def dirBlock_def fileBlock_def headerBlock_def setEntryName_def Let_def bytes_of_def)

lemma demo_ops_wf: "\<forall>e \<in> set (opsEntries None demo_ops). entry_wf e"
  by (simp add: demo_ops_entries headerBlock_def setEntryName_def safe_name_def safeEntryName_iff [symmetric] safeEntryName_def
      safeLoop.simps bytes_of_def)

theorem archive_round_trip_witness:
  "\<exists>w c1 r w' c'. targzWriterOpen plain_deflate_lib list_sink True [] = (Some w, c1) \<and>
     targzReaderOpen plain_inflate_lib True [] = Some r \<and>
     writer_ops plain_deflate_lib list_sink w demo_ops = Some (True, w') \<and>
     targzWriterClose plain_deflate_lib list_sink w' = Some (True, c') \<and>
     (\<exists>r'. feedAll plain_inflate_lib mem_cb r [take 700 c', drop 700 c'] = Some r' \<and>
        targzReaderFinish plain_inflate_lib mem_cb r' = Some (TARGZ_OK, 3, 4,
          [FileItem (bytes_of ''e'') 1 [9] True, FileItem (bytes_of ''d/f'') 3 [7, 8, 0] True, DirItem (bytes_of ''d'')]))"
proof -
  obtain w c1 where w: "targzWriterOpen plain_deflate_lib list_sink True [] = (Some w, c1)"
    by (simp add: targzWriterOpen_def list_sink_def)
  obtain r where r: "targzReaderOpen plain_inflate_lib True ([] :: tar_item list) = Some r"
    by (simp add: targzReaderOpen_def)
  have cl: "\<forall>raw z. plain_closed raw z \<longrightarrow> (\<exists>on'. tinfl_decodes plain_inflate_lib z raw on')"
    using plain_decodes by (auto simp: plain_closed_def)
  have "mz_crc32 plain_inflate_lib = tdefl_crc32 plain_deflate_lib"
    by (simp add: plain_inflate_lib_def plain_deflate_lib_def)
  from archive_round_trip [OF plain_writer_env refl cl plain_crc_appends(2) this demo_ops_wf w r]
  obtain w' c' where "writer_ops plain_deflate_lib list_sink w demo_ops = Some (True, w')"
    "targzWriterClose plain_deflate_lib list_sink w' = Some (True, c')"
    "\<forall>ps. concat ps = c' \<longrightarrow> (\<exists>r'. feedAll plain_inflate_lib mem_cb r ps = Some r' \<and>
       targzReaderFinish plain_inflate_lib mem_cb r' = Some (TARGZ_OK, of_nat (length (opsEntries None demo_ops)),
         sum_list (map entryBytes (opsEntries None demo_ops)), rev (map entryItem (opsEntries None demo_ops))))"
    by auto
  moreover from this(3) have "\<exists>r'. feedAll plain_inflate_lib mem_cb r [take 700 c', drop 700 c'] = Some r' \<and>
        targzReaderFinish plain_inflate_lib mem_cb r' = Some (TARGZ_OK, 3, 4,
          [FileItem (bytes_of ''e'') 1 [9] True, FileItem (bytes_of ''d/f'') 3 [7, 8, 0] True, DirItem (bytes_of ''d'')])"
    by (auto dest!: spec [of _ "[take 700 c', drop 700 c']"] simp: demo_ops_entries entryBytes_def)
  ultimately show ?thesis using w r by blast
qed

text \<open>
  C12. A restore never shows its target an unsafe name, for any input in any pieces and any
  behaviour of the decompressor: every property of the target's context that the callbacks keep
  for relative, NUL-free names with no empty, no \<open>..\<close> component and no trailing slash, holds
  whenever a feed or the finish returns.
\<close>

theorem restore_only_safe_names:
  assumes "cb_preserves cb I" "I c0" "targzReaderOpen lib ok c0 = Some r"
    and "feedAll lib cb r ps = Some r'" "targzReaderFinish lib cb r' = Some (e, n, b, c)"
  shows "I (ctx r') \<and> I c"
proof -
  let ?Q = "\<lambda>t v l. tar_inv t"
  have S: "sound_setup cb lib I ?Q"
    unfolding sound_setup_def using assms(1) tarStep_inv [of _ cb] by (force simp: tarStep_OK)
  have o: "session cb lib I ?Q [] r" using open_session [OF assms(3), of I ?Q] assms(2) open_inv [OF assms(3)] by blast
  from session_end(1) [OF S o assms(4,5)] feedAll_session [OF S assms(4) o] show ?thesis by (simp add: rd_sound_def)
qed

fun item_safe :: "tar_item \<Rightarrow> bool" where
  "item_safe (DirItem n) = safe_name n"
| "item_safe (FileItem n z d f) = safe_name n"

lemma mem_cb_safe: "cb_preserves mem_cb (list_all item_safe)"
proof -
  have "list_all item_safe c \<Longrightarrow> list_all item_safe (mem_data c b)" "list_all item_safe c \<Longrightarrow> list_all item_safe (mem_end c)" for c b
    by (induction c b rule: mem_data.induct) auto
  then show ?thesis by (simp add: cb_preserves_def)
qed

definition plain_reader :: "(tar_item list, plain_state) targz_reader" where
  "plain_reader = the (targzReaderOpen plain_inflate_lib True [])"

lemma plain_reader_open: "targzReaderOpen plain_inflate_lib True [] = Some plain_reader"
  by (simp add: plain_reader_def targzReaderOpen_def)

definition demo_entries :: "tar_entry list" where
  "demo_entries = [DirEntry (bytes_of ''d'') 1, FileEntry (bytes_of ''d/f'') 2 [7, 8, 0]]"

lemma demo_entries_wf: "\<forall>e \<in> set demo_entries. entry_wf e"
  using demo_ops_wf by (simp add: demo_ops_entries demo_entries_def)

definition demo_archive :: bytes where
  "demo_archive = gzMember 0x1f [0, 0, 0, 0, 2, 3] [1, 2, 3] (bytes_of ''n'') (bytes_of ''c'') [5, 6] @ plain_code (tarImage demo_entries) @ [0] @
     le32 (plain_crc 0 (tarImage demo_entries)) @ le32 (of_nat (length (tarImage demo_entries)))"

lemma demo_restore:
  obtains r' where "feedAll plain_inflate_lib mem_cb plain_reader [take 9 demo_archive, drop 9 demo_archive] = Some r'"
    "targzReaderFinish plain_inflate_lib mem_cb r' =
       Some (TARGZ_OK, 2, 3, [FileItem (bytes_of ''d/f'') 3 [7, 8, 0] True, DirItem (bytes_of ''d'')])"
proof -
  have "gzMember_wf [0, 0, 0, 0, 2, 3] [1, 2, 3] (bytes_of ''n'') (bytes_of ''c'') [5, 6]"
    by (simp add: gzMember_wf_def bytes_of_def)
  moreover have "concat [take 9 demo_archive, drop 9 demo_archive] = demo_archive" by simp
  then have "concat [take 9 demo_archive, drop 9 demo_archive] =
      gzMember 0x1f [0, 0, 0, 0, 2, 3] [1, 2, 3] (bytes_of ''n'') (bytes_of ''c'') [5, 6] @ (plain_code (tarImage demo_entries) @ [0]) @
      le32 (mz_crc32 plain_inflate_lib 0 (tarImage demo_entries)) @ le32 (of_nat (length (tarImage demo_entries)))"
    unfolding demo_archive_def by (simp only: plain_inflate_lib_def inflate_lib.select_convs append.assoc)
  ultimately show thesis
    using restore_image [OF plain_decodes plain_crc_appends(2) demo_entries_wf _ plain_reader_open] that
    by (fastforce simp: demo_entries_def entryBytes_def)
qed

theorem restore_only_safe_names_witness:
  "\<exists>r' e n b c. feedAll plain_inflate_lib mem_cb plain_reader [take 9 demo_archive, drop 9 demo_archive] = Some r' \<and>
     targzReaderFinish plain_inflate_lib mem_cb r' = Some (e, n, b, c) \<and> c \<noteq> [] \<and> list_all item_safe c"
proof -
  obtain r' where r': "feedAll plain_inflate_lib mem_cb plain_reader [take 9 demo_archive, drop 9 demo_archive] = Some r'"
    "targzReaderFinish plain_inflate_lib mem_cb r' =
       Some (TARGZ_OK, 2, 3, [FileItem (bytes_of ''d/f'') 3 [7, 8, 0] True, DirItem (bytes_of ''d'')])"
    by (rule demo_restore)
  from restore_only_safe_names [OF mem_cb_safe _ plain_reader_open r'] r' show ?thesis by auto
qed

text \<open>
  C15. Success means an intact archive: when the finish reports OK, the target and the counters are
  what parsing one byte string gives, the parser stands between entries, and that string has the
  checksum and (mod 2^32) the length that the last eight bytes fed to the reader state. This
  holds for any input in any pieces and any behaviour of the decompressor.
\<close>

theorem restore_ok_means_intact:
  assumes "data_hom cb" "crc_streams lib" "targzReaderOpen lib ok c0 = Some r"
    and "feedAll lib cb r ps = Some r'" "targzReaderFinish lib cb r' = Some (TARGZ_OK, n, b, c)"
  shows "\<exists>raw t pre foot. tarStep cb (TARGZ_OK, core r) raw = (TARGZ_OK, t) \<and> tar t \<in> {TAR_HDR, TAR_END} \<and> hdr t = [] \<and>
    n = entries t \<and> b = bytes t \<and> c = ctx t \<and> concat ps = pre @ foot \<and> length foot = GZ_FOOT_LEN \<and>
    of_le32 (take 4 foot) = mz_crc32 lib 0 raw \<and> of_le32 (drop 4 foot) = of_nat (length raw)"
proof -
  let ?Q = "parsed_raw cb lib (core r)"
  have inv: "tar_inv (core r)" by (rule open_inv [OF assms(3)])
  have S: "sound_setup cb lib (\<lambda>_. True) ?Q" by (rule parsed_raw_setup [OF assms(1,2) inv])
  have "?Q (core r) 0 0" using inv assms(2) by (auto simp: parsed_raw_def tarStep_OK crc_streams_def intro!: exI [of _ "[]"])
  then have o: "session cb lib (\<lambda>_. True) ?Q [] r" using open_session [OF assms(3), of "\<lambda>_. True" ?Q] by blast
  from session_end(2) [OF S o assms(4,5) refl] obtain t1 pre foot v l where
    t1: "?Q t1 v l" "tar t1 \<in> {TAR_HDR, TAR_END}" "hdr t1 = []" "n = entries t1" "b = bytes t1" "c = ctx t1"
      "concat ps = pre @ foot" "length foot = GZ_FOOT_LEN" "of_le32 (take 4 foot) = v" "of_le32 (drop 4 foot) = ucast l"
    by blast
  from t1(1) obtain raw where "tarStep cb (TARGZ_OK, core r) raw = (TARGZ_OK, t1)" "v = mz_crc32 lib 0 raw" "l = of_nat (length raw)"
    by (auto simp: parsed_raw_def)
  with t1(2-10) show ?thesis
    by (intro exI [of _ raw] exI [of _ t1] exI [of _ pre] exI [of _ foot]) (simp add: ucast_u64_of_nat)
qed

theorem restore_ok_means_intact_witness:
  "\<exists>r' n b c raw t pre foot. feedAll plain_inflate_lib mem_cb plain_reader [take 9 demo_archive, drop 9 demo_archive] = Some r' \<and>
     targzReaderFinish plain_inflate_lib mem_cb r' = Some (TARGZ_OK, n, b, c) \<and>
     tarStep mem_cb (TARGZ_OK, core plain_reader) raw = (TARGZ_OK, t) \<and> c = ctx t \<and> demo_archive = pre @ foot \<and>
     of_le32 (take 4 foot) = plain_crc 0 raw"
proof -
  obtain r' where r': "feedAll plain_inflate_lib mem_cb plain_reader [take 9 demo_archive, drop 9 demo_archive] = Some r'"
    "targzReaderFinish plain_inflate_lib mem_cb r' =
       Some (TARGZ_OK, 2, 3, [FileItem (bytes_of ''d/f'') 3 [7, 8, 0] True, DirItem (bytes_of ''d'')])"
    by (rule demo_restore)
  have "mz_crc32 plain_inflate_lib = plain_crc" by (simp add: plain_inflate_lib_def)
  with restore_ok_means_intact [OF mem.data_in_pieces plain_crc_appends(2) plain_reader_open r'] r' show ?thesis by auto
qed

subsection \<open>Block alignment of the writer, for any codec and any sink\<close>

text \<open>What the archive will have taken when the open entry is complete.\<close>

definition owes :: "('c, 'd) targz_writer \<Rightarrow> u64" where
  "owes w = w_rawLen w + ucast (w_pending w) + ucast (w_pad w)"

definition aligned :: "('c, 'd) targz_writer \<Rightarrow> bool" where
  "aligned w \<longleftrightarrow> 512 dvd unat (owes w)"

lemma deflateRun_tail:
  assumes "deflateRun lib sink w p fin = Some y"
  shows "fst y \<longrightarrow> w_tail (snd y) = w_tail w"
proof (rule deflateRun.raw_induct [where P = "\<lambda>lib sink w p fin y. fst y \<longrightarrow> w_tail (snd y) = w_tail w", OF _ assms])
  fix run lib sink w p fin y
  assume IH: "\<And>lib sink w p fin y. run lib sink w p fin = Some y \<Longrightarrow> fst y \<longrightarrow> w_tail (snd y) = w_tail w"
    and body: "(case tdefl_compress lib (comp w) p fin of (d, n, out, st) \<Rightarrow>
       (let w1 = w\<lparr>comp := d\<rparr>
        in if st < 0 then Some (False, w1\<lparr>w_ok := False\<rparr>)
           else (let (acc, c) = offer sink (w_ctx w1) out;
                     w2 = w1\<lparr>w_ctx := c\<rparr>;
                     q = drop n p
                 in if \<not> acc then Some (False, w2\<lparr>w_ok := False\<rparr>)
                    else if fin \<and> st = 1 then Some (True, w2)
                    else if \<not> fin \<and> q = [] then Some (True, w2)
                    else if n = 0 \<and> out = [] then Some (False, w2\<lparr>w_ok := False\<rparr>)
                    else run lib sink w2 q fin))) = Some y"
  have t: "w_tail (w\<lparr>comp := d, w_ctx := c\<rparr>) = w_tail w" for d c by (simp add: w_tail_def)
  show "fst y \<longrightarrow> w_tail (snd y) = w_tail w"
    using body t by (auto simp: Let_def split: prod.splits if_splits dest!: IH)
qed

lemma writeRaw_len:
  assumes "writeRaw lib sink w p = Some (True, w')"
  shows "w_rawLen w' = w_rawLen w + of_nat (length p) \<and> w_pending w' = w_pending w \<and> w_pad w' = w_pad w \<and> w_ok w'"
  using assms deflateRun_tail [of lib sink _ p False "(True, w')"]
  by (auto simp: writeRaw_def w_tail_def split: if_splits)

lemma and_then_Some: "and_then m k = Some (True, y) \<longleftrightarrow> (\<exists>w. m = Some (True, w) \<and> k w = Some (True, y))"
  by (cases "(m, k)" rule: and_then.cases) auto

lemma writeZeros_len:
  "writeZeros lib sink w n = Some (True, w') \<Longrightarrow> w_ok w \<Longrightarrow>
   w_rawLen w' = w_rawLen w + of_nat n \<and> w_pending w' = w_pending w \<and> w_pad w' = w_pad w \<and> w_ok w'"
proof (induction n arbitrary: w rule: less_induct)
  case (less n)
  show ?case
  proof (cases "n = 0")
    case True
    with less.prems show ?thesis by (simp add: writeZeros.simps)
  next
    case False
    let ?k = "if n < 64 then n else 64"
    obtain w1 where w1: "writeRaw lib sink w (replicate ?k 0) = Some (True, w1)" "writeZeros lib sink w1 (n - ?k) = Some (True, w')"
      using less.prems(1) False by (subst (asm) writeZeros.simps) (auto simp: Let_def and_then_Some split: if_splits)
    have "n - ?k < n" using False by simp
    from less.IH [OF this w1(2)] writeRaw_len [OF w1(1)]
    have "w_rawLen w' = w_rawLen w + (of_nat ?k + of_nat (n - ?k)) \<and> w_pending w' = w_pending w \<and> w_pad w' = w_pad w \<and> w_ok w'"
      by (auto simp: add.assoc)
    then show ?thesis by (simp flip: of_nat_add split: if_splits)
  qed
qed

lemma ucast_nat: "(of_nat (unat (x :: u32)) :: u64) = ucast x"
  by simp

lemma finishEntry_len:
  assumes f: "finishEntry lib sink w = Some (True, w')" and ok: "w_ok w"
  shows "owes w' = owes w \<and> w_pending w' = 0 \<and> w_pad w' = 0 \<and> w_ok w'"
proof -
  obtain w2 where w2: "(if w_pending w \<noteq> 0
        then and_then (writeZeros lib sink w (unat (w_pending w))) (\<lambda>w1. Some (True, w1\<lparr>w_pending := 0\<rparr>))
        else Some (True, w)) = Some (True, w2)"
    "(if w_pad w2 \<noteq> 0 then and_then (writeZeros lib sink w2 (unat (w_pad w2))) (\<lambda>w3. Some (True, w3\<lparr>w_pad := 0\<rparr>))
        else Some (True, w2)) = Some (True, w')"
    using f unfolding finishEntry_def and_then_Some by blast
  have a: "w_rawLen w2 = w_rawLen w + ucast (w_pending w) \<and> w_pending w2 = 0 \<and> w_pad w2 = w_pad w \<and> w_ok w2"
    using w2(1) ok by (cases "w_pending w = 0") (auto simp: and_then_Some ucast_nat dest!: writeZeros_len)
  have "w_rawLen w' = w_rawLen w2 + ucast (w_pad w2) \<and> w_pending w' = 0 \<and> w_pad w' = 0 \<and> w_ok w'"
    using w2(2) a by (cases "w_pad w2 = 0") (auto simp: and_then_Some ucast_nat dest!: writeZeros_len)
  with a show ?thesis by (simp add: owes_def)
qed

lemma dvd_block_mod: "512 dvd (x mod 2 ^ 64 :: nat) \<longleftrightarrow> 512 dvd x"
proof (rule dvd_mod_iff)
  have "(2 :: nat) ^ 9 dvd 2 ^ 64" by (rule le_imp_power_dvd) simp
  then show "512 dvd (2 ^ 64 :: nat)" by simp
qed

lemma dvd_block_add:
  assumes "512 dvd unat a"
  shows "512 dvd unat (b + a :: u64) \<longleftrightarrow> 512 dvd unat b"
proof -
  have "unat (b + a) = (unat b + unat a) mod 2 ^ 64" by (simp only: unat_word_ariths(1) len_num1 len_bit0 mult_1_right) simp
  then show ?thesis using assms dvd_block_mod [of "unat b + unat a"] by (simp only: dvd_add_left_iff)
qed

lemma pad_dvd: "512 dvd n + padTo n"
proof -
  have "n + (512 - n mod 512) = 512 * (n div 512) + 512"
    using mod_less_divisor [of 512 n] mult_div_mod_eq [of 512 n] by linarith
  then have "(n + (512 - n mod 512)) mod 512 = 0" by (metis dvd_add_triv_right_iff dvd_eq_mod_eq_0 dvd_triv_left)
  then show ?thesis by (simp add: padTo_def TAR_BLOCK_def mod_add_right_eq dvd_eq_mod_eq_0)
qed

lemma pad_block:
  "512 dvd unat (ucast sz + ucast ((of_nat TAR_BLOCK - sz mod of_nat TAR_BLOCK) mod of_nat TAR_BLOCK :: u32) :: u64)"
proof -
  let ?p = "(of_nat TAR_BLOCK - sz mod of_nat TAR_BLOCK) mod of_nat TAR_BLOCK :: u32"
  have "(ucast sz + ucast ?p :: u64) = of_nat (unat sz + unat ?p)" by simp
  also have "\<dots> = of_nat (unat sz + padTo (unat sz))" by (simp only: unat_pad)
  finally have e: "(ucast sz + ucast ?p :: u64) = of_nat (unat sz + padTo (unat sz))" .
  have u: "unat (of_nat m :: u64) = m mod 2 ^ 64" for m by (simp add: unat_of_nat)
  show ?thesis unfolding e u dvd_block_mod by (rule pad_dvd)
qed

lemma ucast_sub_of_nat:
  assumes "n \<le> unat (x :: u32)"
  shows "(ucast (x - of_nat n) :: u64) = ucast x - of_nat n"
proof -
  have "n < 2 ^ 32" using assms unsigned_less [of x, where ?'a = nat] by simp
  then have "unat (x - of_nat n) = unat x - n"
    using assms by (subst unat_sub) (simp_all add: word_le_nat_alt unat_of_nat)
  then have "(of_nat (unat (x - of_nat n)) :: u64) = of_nat (unat x) - of_nat n" using assms by (simp only: of_nat_diff)
  then show ?thesis by simp
qed

lemma writer_op_aligned:
  assumes op: "writer_op lib sink w x = Some (True, w')" and al: "aligned w" "w_ok w"
  shows "aligned w' \<and> w_ok w'"
proof -
  have fin: "aligned w1 \<and> w_ok w1 \<and> w_pending w1 = 0 \<and> w_pad w1 = 0" if "finishEntry lib sink w = Some (True, w1)" for w1
    using finishEntry_len [OF that al(2)] al by (simp add: aligned_def)
  have blk: "(512 dvd unat (owes w2) \<longleftrightarrow> 512 dvd unat (owes w1)) \<and> w_ok w2 \<and> w_pending w2 = w_pending w1 \<and> w_pad w2 = w_pad w1"
    if "writeRaw lib sink w1 (ustar_bytes (sealHeader h)) = Some (True, w2)" "ustar_wf h" for w1 w2 h
  proof -
    have "length (ustar_bytes (sealHeader h)) = 512"
      using that(2) by (simp add: length_ustar_bytes TAR_BLOCK_def)
    then have "owes w2 = owes w1 + 512" using writeRaw_len [OF that(1)] by (simp add: owes_def algebra_simps)
    then show ?thesis using writeRaw_len [OF that(1)] dvd_block_add [of 512 "owes w1"] by simp
  qed
  show ?thesis
  proof (cases x)
    case (OpDir name mtime)
    with op al fin show ?thesis
      by (auto simp: targzWriterAddDir_def and_then_Some Let_def aligned_def split: if_splits option.splits
          dest!: blk setEntryName_wf)
  next
    case (OpFile name sz mtime)
    with op al obtain w1 where w1: "finishEntry lib sink w = Some (True, w1)"
      and rest: "(case setEntryName (fillHeader (of_char CHR ''0'') sz mtime) name of
          None \<Rightarrow> Some (True, w1)
        | Some h1 \<Rightarrow> and_then (writeRaw lib sink w1 (ustar_bytes (sealHeader h1))) (\<lambda>w2.
              Some (True, w2\<lparr>w_pending := sz, w_pad := (of_nat TAR_BLOCK - sz mod of_nat TAR_BLOCK) mod of_nat TAR_BLOCK\<rparr>))) = Some (True, w')"
      by (auto simp: targzWriterAddFile_def and_then_Some)
    show ?thesis
    proof (cases "setEntryName (fillHeader (of_char CHR ''0'') sz mtime) name")
      case None
      with rest fin [OF w1] show ?thesis by simp
    next
      case (Some h1)
      obtain w2 where w2: "writeRaw lib sink w1 (ustar_bytes (sealHeader h1)) = Some (True, w2)"
        "w' = w2\<lparr>w_pending := sz, w_pad := (of_nat TAR_BLOCK - sz mod of_nat TAR_BLOCK) mod of_nat TAR_BLOCK\<rparr>"
        using rest Some by (auto simp: and_then_Some)
      have "ustar_wf h1" using Some by (rule setEntryName_wf) simp
      note b = blk [OF w2(1) this]
      have "owes w2 = w_rawLen w2" using b fin [OF w1] by (simp add: owes_def)
      then have "512 dvd unat (w_rawLen w2)" using b fin [OF w1] by (simp add: aligned_def)
      then show ?thesis using b w2(2) dvd_block_add [OF pad_block, of "w_rawLen w2" sz] by (simp add: aligned_def owes_def add.assoc)
    qed
  next
    case (OpData d)
    define p where "p = (if length d > unat (w_pending w) then take (unat (w_pending w)) d else d)"
    obtain w1 where w1: "writeRaw lib sink w p = Some (True, w1)"
      "padWhenDone lib sink (w1\<lparr>w_pending := w_pending w1 - of_nat (length p)\<rparr>) = Some (True, w')"
      using op OpData al(2) by (auto simp: targzWriterData_def and_then_Some p_def Let_def)
    note l = writeRaw_len [OF w1(1)]
    let ?w2 = "w1\<lparr>w_pending := w_pending w1 - of_nat (length p)\<rparr>"
    have "length p \<le> unat (w_pending w)" by (auto simp: p_def)
    then have "of_nat (length p) + ucast (w_pending w - of_nat (length p)) = (ucast (w_pending w) :: u64)"
      by (subst ucast_sub_of_nat) simp_all
    then have "owes ?w2 = owes w" using l by (simp add: owes_def algebra_simps)
    moreover have "owes w' = owes ?w2 \<and> w_ok w'"
      using w1(2) l by (auto simp: padWhenDone_def owes_def and_then_Some split: if_splits dest!: writeZeros_len)
    ultimately show ?thesis using al by (simp add: aligned_def)
  qed
qed

text \<open>
  Headers stay on block boundaries: after any successful sequence of calls, with any
  compressor and any sink, the bytes already in the archive plus the body and padding still owed
  for the open entry are a multiple of 512, however short the bodies delivered were.
\<close>

theorem writer_blocks_aligned:
  assumes "targzWriterOpen lib sink mem_ok c = (Some w, c1)" "writer_ops lib sink w ops = Some (True, w')"
  shows "512 dvd unat (w_rawLen w' + ucast (w_pending w') + ucast (w_pad w'))"
proof -
  have w: "aligned w \<and> w_ok w"
    using assms(1) by (auto simp: targzWriterOpen_def aligned_def owes_def split: if_splits prod.splits)
  have "aligned w' \<and> w_ok w'" using assms(2) w
  proof (induction ops arbitrary: w)
    case (Cons x ops)
    then show ?case by (auto simp: and_then_Some dest: writer_op_aligned)
  qed simp
  then show ?thesis by (simp add: aligned_def owes_def)
qed

theorem writer_blocks_aligned_witness:
  "\<exists>w c1 w'. targzWriterOpen plain_deflate_lib list_sink True [] = (Some w, c1) \<and>
     writer_ops plain_deflate_lib list_sink w demo_ops = Some (True, w') \<and>
     512 dvd unat (w_rawLen w' + ucast (w_pending w') + ucast (w_pad w'))"
proof -
  obtain w c1 where w: "targzWriterOpen plain_deflate_lib list_sink True [] = (Some w, c1)"
    by (simp add: targzWriterOpen_def list_sink_def)
  obtain w' where "writer_ops plain_deflate_lib list_sink w demo_ops = Some (True, w')"
    using writer_ops_sim [OF plain_writer_env Open_sim [OF plain_writer_env w refl]] by blast
  with w writer_blocks_aligned [OF w this] show ?thesis by blast
qed

text \<open>
  Archives made by other gzip programs restore too: a member header with any flags and every
  optional field those flags announce (extra field, file name, comment, header CRC) is skipped
  exactly, wherever the stream is cut, and the entries behind it are delivered.
\<close>

theorem restore_foreign_member:
  assumes "tinfl_decodes lib z (tarImage es) on" "crc_streams lib" "\<forall>e \<in> set es. entry_wf e"
    and "gzMember_wf mid extra name comment hcrc" "targzReaderOpen lib True [] = Some r"
    and "concat ps = gzMember f mid extra name comment hcrc @ z @ le32 (mz_crc32 lib 0 (tarImage es)) @
       le32 (of_nat (length (tarImage es)))"
  shows "\<exists>r'. feedAll lib mem_cb r ps = Some r' \<and> targzReaderFinish lib mem_cb r' =
    Some (TARGZ_OK, of_nat (length es), sum_list (map entryBytes es), rev (map entryItem es))"
  by (rule restore_image [OF assms])

theorem restore_foreign_member_witness:
  "\<exists>r'. feedAll plain_inflate_lib mem_cb plain_reader [demo_archive] = Some r' \<and>
     targzReaderFinish plain_inflate_lib mem_cb r' = Some (TARGZ_OK, 2, 3, rev (map entryItem demo_entries))"
proof -
  have "gzMember_wf [0, 0, 0, 0, 2, 3] [1, 2, 3] (bytes_of ''n'') (bytes_of ''c'') [5, 6]"
    by (simp add: gzMember_wf_def bytes_of_def)
  moreover have "concat [demo_archive] =
      gzMember 0x1f [0, 0, 0, 0, 2, 3] [1, 2, 3] (bytes_of ''n'') (bytes_of ''c'') [5, 6] @ (plain_code (tarImage demo_entries) @ [0]) @
      le32 (mz_crc32 plain_inflate_lib 0 (tarImage demo_entries)) @ le32 (of_nat (length (tarImage demo_entries)))"
    by (simp add: demo_archive_def plain_inflate_lib_def)
  ultimately have "\<exists>r'. feedAll plain_inflate_lib mem_cb plain_reader [demo_archive] = Some r' \<and>
     targzReaderFinish plain_inflate_lib mem_cb r' = Some (TARGZ_OK, of_nat (length demo_entries),
       sum_list (map entryBytes demo_entries), rev (map entryItem demo_entries))"
    by (rule restore_foreign_member [OF plain_decodes plain_crc_appends(2) demo_entries_wf _ plain_reader_open])
  then show ?thesis by (simp add: demo_entries_def entryBytes_def)
qed

text \<open>
  How the inflated stream is cut does not matter to the parser: for any callbacks that treat
  a body delivered in pieces like the body, feeding the pieces one after the other is feeding
  their concatenation, errors included.
\<close>

theorem tar_chunks_irrelevant:
  assumes "data_hom cb" "tar_inv r"
  shows "foldl (tarStep cb) (TARGZ_OK, r) chunks = tarStep cb (TARGZ_OK, r) (concat chunks)"
  using assms by (intro tar_sink.tar_chunks) (simp_all add: tar_sink_def tar_ok_def)

theorem tar_chunks_irrelevant_witness:
  "foldl (tarStep mem_cb) (TARGZ_OK, core plain_reader) [[1, 2], [3]] = tarStep mem_cb (TARGZ_OK, core plain_reader) [1, 2, 3]"
  using tar_chunks_irrelevant [OF mem.data_in_pieces open_inv [OF plain_reader_open], of "[[1, 2], [3]]"] by simp

text \<open>
  \<open>safeEntryName\<close> admits exactly the non-empty relative paths of fewer than 256 bytes whose
  components are none of them \<open>..\<close> and none but the last empty.
\<close>

theorem safeEntryName_correct:
  "safeEntryName name \<longleftrightarrow> name \<noteq> [] \<and> hd name \<noteq> slash \<and> length name < 256 \<and>
     [] \<notin> set (butlast (split_on slash name)) \<and> [dot, dot] \<notin> set (split_on slash name)"
  by (auto simp: safeEntryName_iff safe_path_def comps_ok_def)

text \<open>
  A name the writer places in a header is the name a reader rebuilds from it, prefix and
  leaf; the block it is sealed into has a checksum that verifies.
\<close>

theorem header_name_round_trip:
  assumes "setEntryName (fillHeader ty sz mtime) name = Some h" "0 \<notin> set name" "hd name \<noteq> slash"
  shows "entryName (ustar_of (ustar_bytes (sealHeader h))) = Some name \<and>
    octalValue (h_size (ustar_of (ustar_bytes (sealHeader h)))) = ucast sz \<and>
    octalValue (h_chksum (ustar_of (ustar_bytes (sealHeader h)))) = ucast (headerChecksum (ustar_of (ustar_bytes (sealHeader h))))"
proof -
  have wf: "ustar_wf h" using assms(1) by (rule setEntryName_wf) simp
  then have "ustar_of (ustar_bytes (sealHeader h)) = sealHeader h" by (simp add: ustar_of_ustar_bytes)
  then show ?thesis
    using setEntryName_entryName [OF assms(1)] assms(2,3) sealHeader_checksum [OF wf] setEntryName_keeps [OF assms(1)]
      octalValue_fill_size by simp
qed

definition long_name :: bytes where
  "long_name = replicate 155 97 @ slash # replicate 100 98"

lemma nameSplit_at:
  "i \<le> length name \<Longrightarrow> k < i \<Longrightarrow> name ! k = slash \<Longrightarrow> (\<forall>j. k < j \<and> j < i \<longrightarrow> name ! j \<noteq> slash) \<Longrightarrow>
   length name - k - 1 \<noteq> 0 \<Longrightarrow> length name - k - 1 \<le> 100 \<Longrightarrow> k \<le> 155 \<Longrightarrow> nameSplit name i = Some k"
proof (induction i)
  case (Suc i)
  then show ?case by (cases "i = k") (auto simp: Let_def)
qed simp

lemma long_name_set: "\<exists>h. setEntryName (fillHeader ty sz mtime) long_name = Some h"
proof -
  have "nameSplit long_name (length long_name) = Some 155"
    by (rule nameSplit_at) (auto simp: long_name_def nth_append nth_Cons')
  then show ?thesis by (simp add: setEntryName_def Let_def long_name_def)
qed

theorem header_name_round_trip_witness:
  "\<exists>h. setEntryName (fillHeader 48 5 6) long_name = Some h \<and> entryName (ustar_of (ustar_bytes (sealHeader h))) = Some long_name"
proof -
  obtain h where h: "setEntryName (fillHeader 48 5 6) long_name = Some h" using long_name_set by blast
  have "0 \<notin> set long_name" "hd long_name \<noteq> slash" by (simp_all add: long_name_def)
  from header_name_round_trip [OF h this] h show ?thesis by blast
qed

text \<open>
  The longest names the writer accepts cannot be restored: an entry whose name has 256 bytes
  (155, a slash, 100) is written, and a reader refuses the whole archive at its header with
  \<open>TARGZ_ERR_UNSAFE\<close>, since \<open>safeEntryName\<close> admits 255 bytes at most.
\<close>

theorem maximal_name_refused:
  assumes "setEntryName (fillHeader (of_char CHR ''0'') sz mtime) name = Some h" "length name = 256"
    and "0 \<notin> set name" "hd name \<noteq> slash" "last name \<noteq> slash"
  shows "parseEntry (ustar_bytes (sealHeader h)) = Inl TARGZ_ERR_UNSAFE"
proof -
  have "headerBlock (of_char CHR ''0'') name sz mtime = Some (ustar_bytes (sealHeader h))"
    using assms(1) by (simp add: headerBlock_def)
  then obtain h' where h': "ustar_bytes (sealHeader h) = ustar_bytes h'" "ustar_wf h'" "entryName h' = Some name"
    "octalValue (h_size h') = ucast sz" "h_typeflag h' = of_char CHR ''0''"
    "octalValue (h_chksum h') = ucast (headerChecksum h')"
    by (rule headerBlock_SomeE) (use assms in auto)
  then show ?thesis using assms
    by (simp add: parseEntry_def ustar_of_ustar_bytes stripSlashes_id safeEntryName_iff safe_path_def)
qed

theorem maximal_name_refused_witness:
  "\<exists>h. setEntryName (fillHeader (of_char CHR ''0'') 5 6) long_name = Some h \<and>
     parseEntry (ustar_bytes (sealHeader h)) = Inl TARGZ_ERR_UNSAFE"
proof -
  obtain h where h: "setEntryName (fillHeader (of_char CHR ''0'') 5 6) long_name = Some h" using long_name_set by blast
  from maximal_name_refused [OF h] h show ?thesis by (auto simp: long_name_def)
qed

end
