(* ===== verification/C_String.thy ===== *)
theory C_String
  imports Prelude
begin

section \<open>C strings and their numbers\<close>

text \<open>
  The C library's string functions as the sources use them, on \<open>string\<close>: \<open>atoi\<close> (which is
  \<open>strtol\<close> cast to \<open>int\<close>: it skips white space, takes a sign and digits, and saturates at the
  bounds of a 32-bit \<open>long\<close>), the decimal print of \<open>%d\<close> and \<open>%u\<close>, the bounded copy
  \<open>safeStrncpy\<close> of compat.h, and \<open>strchr\<close> as the cut before and after a character.
\<close>

definition c_isspace :: "char \<Rightarrow> bool" where
  "c_isspace c \<longleftrightarrow> c = CHR '' '' \<or> (9 \<le> (of_char c :: nat) \<and> (of_char c :: nat) \<le> 13)"

definition c_isdigit :: "char \<Rightarrow> bool" where
  "c_isdigit c \<longleftrightarrow> 48 \<le> (of_char c :: nat) \<and> (of_char c :: nat) \<le> 57"

definition digit_val :: "char \<Rightarrow> nat" where
  "digit_val c = of_char c - 48"

definition digit_char :: "nat \<Rightarrow> char" where
  "digit_char d = char_of (48 + d)"

definition digits_val :: "string \<Rightarrow> nat" where
  "digits_val s = foldl (\<lambda>a c. 10 * a + digit_val c) 0 (takeWhile c_isdigit s)"

definition INT32_MAX :: int where "INT32_MAX = 2147483647"
definition INT32_MIN :: int where "INT32_MIN = - 2147483648"

definition atoi :: "string \<Rightarrow> int" where
  "atoi s =
     (let t = dropWhile c_isspace s
      in case t of
           [] \<Rightarrow> 0
         | c # r \<Rightarrow>
             (if c = CHR ''-'' then max INT32_MIN (- int (digits_val r))
              else if c = CHR ''+'' then min INT32_MAX (int (digits_val r))
              else min INT32_MAX (int (digits_val t))))"

fun nat_str :: "nat \<Rightarrow> string" where
  "nat_str n = (if n < 10 then [digit_char n] else nat_str (n div 10) @ [digit_char (n mod 10)])"

declare nat_str.simps [simp del]

definition int_str :: "int \<Rightarrow> string" where
  "int_str i = (if i < 0 then CHR ''-'' # nat_str (nat (- i)) else nat_str (nat i))"

text \<open>\<open>safeStrncpy(dst, src, n)\<close>: what \<open>dst\<close> holds afterwards, as a string.\<close>

definition safeStrncpy :: "nat \<Rightarrow> string \<Rightarrow> string" where
  "safeStrncpy n src = (if length src \<ge> n then take (n - 1) src else src)"

definition before :: "char \<Rightarrow> string \<Rightarrow> string" where
  "before c s = takeWhile (\<lambda>x. x \<noteq> c) s"

definition after :: "char \<Rightarrow> string \<Rightarrow> string" where
  "after c s = drop 1 (dropWhile (\<lambda>x. x \<noteq> c) s)"

subsection \<open>Digits\<close>

lemma of_char_digit_char [simp]: "d < 10 \<Longrightarrow> of_char (digit_char d) = 48 + d"
  by (simp add: digit_char_def of_char_of)

lemma digit_val_digit_char [simp]: "d < 10 \<Longrightarrow> digit_val (digit_char d) = d"
  by (simp add: digit_val_def)

lemma c_isdigit_digit_char [simp]: "d < 10 \<Longrightarrow> c_isdigit (digit_char d)"
  by (simp add: c_isdigit_def)

lemma nat_str_digits: "c \<in> set (nat_str n) \<Longrightarrow> c_isdigit c"
proof (induction n rule: nat_str.induct)
  case (1 n)
  then show ?case by (subst (asm) (2) nat_str.simps) (auto split: if_splits)
qed

lemma nat_str_nonempty [simp]: "nat_str n \<noteq> []"
  by (subst nat_str.simps) simp

lemma foldl_nat_str: "foldl (\<lambda>a c. 10 * a + digit_val c) 0 (nat_str n) = n"
proof (induction n rule: nat_str.induct)
  case (1 n)
  then show ?case by (subst nat_str.simps) auto
qed

lemma takeWhile_nat_str:
  assumes "rest = [] \<or> \<not> c_isdigit (hd rest)"
  shows "takeWhile c_isdigit (nat_str n @ rest) = nat_str n"
proof -
  have "takeWhile c_isdigit rest = []" using assms by (cases rest) auto
  then show ?thesis using nat_str_digits by (subst takeWhile_append2) auto
qed

lemma digits_val_nat_str [roundtrip]:
  "rest = [] \<or> \<not> c_isdigit (hd rest) \<Longrightarrow> digits_val (nat_str n @ rest) = n"
  by (simp add: digits_val_def takeWhile_nat_str foldl_nat_str)

lemma digit_not_special:
  "c_isdigit c \<Longrightarrow> \<not> c_isspace c \<and> c \<noteq> CHR ''-'' \<and> c \<noteq> CHR ''+'' \<and> c \<noteq> CHR '','' \<and> c \<noteq> CHR ''/'' \<and> c \<noteq> CHR ''*'' \<and> c \<noteq> CHR ''.''"
  by (auto simp: c_isdigit_def c_isspace_def)

lemma nat_str_Cons:
  obtains c r where "nat_str n = c # r" "c_isdigit c"
  using nat_str_digits [of _ n] nat_str_nonempty [of n] by (cases "nat_str n") auto

lemma atoi_nat_str_rest [roundtrip]:
  assumes "rest = [] \<or> \<not> c_isdigit (hd rest)" "int n \<le> INT32_MAX"
  shows "atoi (nat_str n @ rest) = int n"
proof -
  obtain c r where c: "nat_str n = c # r" "c_isdigit c" by (rule nat_str_Cons)
  then have "dropWhile c_isspace (nat_str n @ rest) = c # r @ rest"
    using digit_not_special [of c] by simp
  moreover have "digits_val (c # r @ rest) = n" using digits_val_nat_str [OF assms(1), of n] c(1) by simp
  ultimately show ?thesis
    using digit_not_special [OF c(2)] assms(2) by (simp add: atoi_def Let_def)
qed

lemma atoi_int_str [roundtrip]:
  assumes "INT32_MIN \<le> i" "i \<le> INT32_MAX"
  shows "atoi (int_str i) = i"
proof (cases "i < 0")
  case True
  then have "dropWhile c_isspace (int_str i) = CHR ''-'' # nat_str (nat (- i))"
    by (simp add: int_str_def c_isspace_def)
  then show ?thesis using True assms digits_val_nat_str [of "[]" "nat (- i)"] by (simp add: atoi_def Let_def)
next
  case False
  then show ?thesis using assms atoi_nat_str_rest [of "[]" "nat i"] by (simp add: int_str_def)
qed

lemma nat_str_no [simp]:
  "CHR '','' \<notin> set (nat_str n)" "CHR ''/'' \<notin> set (nat_str n)" "CHR ''-'' \<notin> set (nat_str n)" "CHR ''*'' \<notin> set (nat_str n)"
  using nat_str_digits [of _ n] digit_not_special by blast+

lemma atoi_range: "INT32_MIN \<le> atoi s \<and> atoi s \<le> INT32_MAX"
  by (auto simp: atoi_def Let_def INT32_MIN_def INT32_MAX_def split: list.split)

lemma length_nat_str_le: "n < 10 ^ k \<Longrightarrow> 0 < k \<Longrightarrow> length (nat_str n) \<le> k"
proof (induction k arbitrary: n)
  case (Suc k)
  show ?case
  proof (cases "n < 10")
    case True
    then show ?thesis by (simp add: nat_str.simps [of n])
  next
    case False
    have "n div 10 < 10 ^ k" using Suc.prems(1) by (simp add: less_mult_imp_div_less mult.commute)
    moreover have "0 < k" using False Suc.prems(1) by (cases k) auto
    ultimately show ?thesis using Suc.IH [of "n div 10"] False by (simp add: nat_str.simps [of n])
  qed
qed simp

subsection \<open>Cuts\<close>

lemma before_absent [simp]: "c \<notin> set s \<Longrightarrow> before c s = s"
  by (auto simp: before_def takeWhile_eq_all_conv)

lemma before_cut [simp]: "c \<notin> set s \<Longrightarrow> before c (s @ c # r) = s"
  by (induction s) (auto simp: before_def)

lemma after_cut [simp]: "c \<notin> set s \<Longrightarrow> after c (s @ c # r) = r"
  by (induction s) (auto simp: after_def)

lemma safeStrncpy_short [simp]: "length s < n \<Longrightarrow> safeStrncpy n s = s"
  by (simp add: safeStrncpy_def)

lemma after_absent [simp]: "c \<notin> set p \<Longrightarrow> after c p = []"
proof -
  assume "c \<notin> set p"
  then have "dropWhile (\<lambda>x. x \<noteq> c) p = []" by (auto simp: dropWhile_eq_Nil_conv)
  then show "after c p = []" by (simp only: after_def drop_Nil)
qed

lemma length_after_less [simp]: "p \<noteq> [] \<Longrightarrow> length (after c p) < length p"
  using length_dropWhile_le [of "\<lambda>x. x \<noteq> c" p] by (cases p) (auto simp: after_def)

lemma split_on_cut:
  "split_on c p = before c p # (if c \<in> set p then split_on c (after c p) else [])"
proof (induction p)
  case (Cons x p)
  then show ?case by (auto simp: before_def after_def split: list.splits)
qed (simp add: before_def)

subsection \<open>Strings as bytes\<close>

text \<open>
  The bytes of a buffer read as characters, and \<open>strtoul(s, nullptr, 10)\<close> with a 32-bit
  \<open>unsigned long\<close>: a minus sign negates modulo \<open>2 ^ 32\<close>, a value out of range saturates.
\<close>

definition str_of :: "bytes \<Rightarrow> string" where
  "str_of b = map (\<lambda>x. char_of (unat x)) b"

definition strtoul :: "string \<Rightarrow> nat" where
  "strtoul s =
     (let t = dropWhile c_isspace s;
          neg = (t \<noteq> [] \<and> hd t = CHR ''-'');
          u = (if t \<noteq> [] \<and> (hd t = CHR ''-'' \<or> hd t = CHR ''+'') then tl t else t);
          v = digits_val u
      in if v > 4294967295 then 4294967295
         else if neg then (4294967296 - v) mod 4294967296 else v)"

lemma str_of_bytes_of [simp]: "str_of (bytes_of s) = s"
proof (induction s)
  case (Cons c s)
  have "(of_char c :: byte) = of_nat (of_char c)" by (simp add: of_nat_of_char)
  then have "unat (of_char c :: byte) = of_char c" by (simp add: unat_of_nat)
  then show ?case using Cons by (simp add: str_of_def bytes_of_def)
qed (simp add: str_of_def)

lemma strtoul_nat_str [roundtrip]: "n < 4294967296 \<Longrightarrow> strtoul (nat_str n) = n"
proof -
  assume n: "n < 4294967296"
  obtain c r where c: "nat_str n = c # r" "c_isdigit c" by (rule nat_str_Cons)
  have "digits_val (c # r) = n" using digits_val_nat_str [of "[]" n] c(1) by simp
  then show ?thesis using n c digit_not_special [OF c(2)] by (simp add: strtoul_def Let_def)
qed

lemma strtoul_range: "strtoul s < 4294967296"
  by (auto simp: strtoul_def Let_def)

end
