(* ===== verification/Cron.thy ===== *)
theory Cron
  imports C_String "HOL-Library.Signed_Division"
begin

unbundle bit_operations_syntax

section \<open>The scheduler (cron.cpp)\<close>

text \<open>
  Field matching, the tokenizer, the next-run search, the stored minutes and the poll, in the
  order of the source. What cron reads of other components is an argument: the local-time
  functions of the C library (\<open>tz_lib\<close>), and an environment record with the clock and the
  storage values (\<open>s.cron.enable\<close>, the pairs \<open>storageForEach("s.cron.tab")\<close> visits, \<open>wifi.sta.state\<close>)
  and the room of the command stream.
  The RTC-RAM words, the lock and the flags are the record \<open>cron_state\<close>; a poll returns the
  new state and the byte strings the command stream takes from it, in order. \<open>int\<close> arithmetic
  on field values is exact here: the differences stay far inside 32 bits for every number a
  field of at most 31 characters can hold except a lower bound near \<open>INT_MIN\<close>.
\<close>

subsection \<open>Field matching\<close>

text \<open>A part without a comma. Only whether the remainder is zero is used, so \<open>mod\<close> is \<open>%\<close> here.\<close>

definition matchBase :: "string \<Rightarrow> int \<Rightarrow> int \<Rightarrow> int \<Rightarrow> bool" where
  "matchBase base step value minVal =
     (if base = ''*'' then (if step = 0 then True else (value - minVal) mod step = 0)
      else if CHR ''-'' \<in> set base
      then (let lo = atoi base; hi = atoi (after CHR ''-'' base)
            in if value < lo \<or> value > hi then False
               else if step = 0 then True
               else (value - lo) mod step = 0)
      else (let num = atoi base
            in if step = 0 then value = num
               else if value < num then False
               else (value - num) mod step = 0))"

definition matchPart :: "string \<Rightarrow> int \<Rightarrow> int \<Rightarrow> bool" where
  "matchPart field value minVal =
     (if CHR ''/'' \<in> set field
      then (let base = before CHR ''/'' field; step = atoi (after CHR ''/'' field)
            in if length base \<ge> 16 then False
               else if step \<le> 0 then False
               else matchBase base step value minVal)
      else matchBase (safeStrncpy 16 field) 0 value minVal)"

fun matchList :: "string list \<Rightarrow> int \<Rightarrow> int \<Rightarrow> bool" where
  "matchList [] value minVal = False"
| "matchList (p # ps) value minVal =
     (if length p \<ge> 32 then False
      else if matchPart p value minVal then True
      else matchList ps value minVal)"

definition cronMatchField :: "string \<Rightarrow> int \<Rightarrow> int \<Rightarrow> int \<Rightarrow> bool" where
  "cronMatchField field value minVal maxVal =
     (if CHR '','' \<in> set field then matchList (split_on CHR '','' field) value minVal
      else matchPart field value minVal)"

subsection \<open>Entries\<close>

definition CRON_FLAG_AWAKE :: u32 where "CRON_FLAG_AWAKE = 1"
definition CRON_FLAG_NETWORK :: u32 where "CRON_FLAG_NETWORK = 2"

fun flagLoop :: "u32 \<Rightarrow> string \<Rightarrow> u32" where
  "flagLoop flags [] = flags"
| "flagLoop flags (c # s) =
     (if c = CHR '' '' then flags
      else if c = CHR ''A'' \<or> c = CHR ''a'' then flagLoop (flags OR CRON_FLAG_AWAKE) s
      else if c = CHR ''N'' \<or> c = CHR ''n'' then flagLoop (flags OR CRON_FLAG_NETWORK OR CRON_FLAG_AWAKE) s
      else flagLoop flags s)"

definition parseFlags :: "string \<Rightarrow> u32" where
  "parseFlags s =
     (if s = ''-'' \<or> take 2 s = ''- '' then 0 else flagLoop 0 s)"

record cron_parsed =
  field :: "string list"
  flags :: u32
  cmd :: string

abbreviation blank :: "char \<Rightarrow> bool" where
  "blank c \<equiv> c = CHR '' '' \<or> c = CHR 0x09"

text \<open>The five fields: the loop of \<open>cronParse\<close>, with the fields found and the rest of the line.\<close>

fun parseFields :: "nat \<Rightarrow> string \<Rightarrow> (string list \<times> string) option" where
  "parseFields 0 p = Some ([], p)"
| "parseFields (Suc n) p =
     (let q = dropWhile blank p
      in if q = [] then None
         else (let f = takeWhile (\<lambda>c. \<not> blank c) q
               in if length f \<ge> 32 then None
                  else (case parseFields n (dropWhile (\<lambda>c. \<not> blank c) q) of
                          None \<Rightarrow> None
                        | Some (fs, r) \<Rightarrow> Some (f # fs, r))))"

definition cronParse :: "string \<Rightarrow> cron_parsed option" where
  "cronParse entry =
     (case parseFields 5 entry of
        None \<Rightarrow> None
      | Some (fs, p) \<Rightarrow>
          (let q = dropWhile blank p
           in if q = [] then None
              else (let fl = parseFlags q;
                        r = dropWhile blank (dropWhile (\<lambda>c. \<not> blank c) q)
                    in if r = [] then None else Some \<lparr>field = fs, flags = fl, cmd = r\<rparr>)))"

subsection \<open>The next run\<close>

record tm =
  tm_sec :: int
  tm_min :: int
  tm_hour :: int
  tm_mday :: int
  tm_mon :: int
  tm_year :: int
  tm_wday :: int
  tm_isdst :: int

text \<open>\<open>mktime\<close> returns the time (-1 for none) and the normalized record.\<close>

record tz_lib =
  localtime_r :: "int \<Rightarrow> tm"
  mktime :: "tm \<Rightarrow> int \<times> tm"

definition UINT32_MAX :: u32 where "UINT32_MAX = 0xFFFFFFFF"

definition minute_of :: "int \<Rightarrow> u32" where
  "minute_of t = word_of_int (t sdiv 60)"

definition dayMatches :: "cron_parsed \<Rightarrow> tm \<Rightarrow> bool" where
  "dayMatches e t \<longleftrightarrow>
     cronMatchField (field e ! 3) (tm_mon t + 1) 1 12 \<and>
     cronMatchField (field e ! 2) (tm_mday t) 1 31 \<and>
     (cronMatchField (field e ! 4) (tm_wday t) 0 7 \<or>
      (tm_wday t = 0 \<and> cronMatchField (field e ! 4) 7 0 7))"

text \<open>The loop; \<open>guard\<close> counts the passes that are left of the source's 1000.\<close>

fun nextRunLoop :: "tz_lib \<Rightarrow> cron_parsed \<Rightarrow> u32 \<Rightarrow> nat \<Rightarrow> int \<Rightarrow> tm \<Rightarrow> u32" where
  "nextRunLoop tz e horizon 0 t m = UINT32_MAX"
| "nextRunLoop tz e horizon (Suc guard) t m =
     (if minute_of t > horizon then UINT32_MAX
      else let go = (\<lambda>m'. case mktime tz (m'\<lparr>tm_isdst := -1\<rparr>) of (t1, m1) \<Rightarrow>
                        if t1 = -1 then UINT32_MAX else nextRunLoop tz e horizon guard t1 m1)
           in if \<not> dayMatches e m
              then go (m\<lparr>tm_mday := tm_mday m + 1, tm_hour := 0, tm_min := 0\<rparr>)
              else if \<not> cronMatchField (field e ! 1) (tm_hour m) 0 23
              then go (m\<lparr>tm_hour := tm_hour m + 1, tm_min := 0\<rparr>)
              else if \<not> cronMatchField (field e ! 0) (tm_min m) 0 59
              then go (m\<lparr>tm_min := tm_min m + 1\<rparr>)
              else minute_of t)"

definition cronNextRun :: "tz_lib \<Rightarrow> cron_parsed \<Rightarrow> u32 \<Rightarrow> u32" where
  "cronNextRun tz e fromMinute =
     (let t = uint fromMinute * 60
      in nextRunLoop tz e (fromMinute + 400 * 24 * 60) 1000 t ((localtime_r tz t)\<lparr>tm_sec := 0\<rparr>))"

subsection \<open>Stored minutes\<close>

record cron_state =
  cronLastMinute :: u32
  cronNextMinute :: u32
  cronWakeMinute :: u32
  mutexReady :: bool
  streamReady :: bool
  released :: bool
  lockDepth :: int
  isDeepSleepWake :: bool
  s_entries :: "(string \<times> string) list"

record cron_env =
  env_time :: int
  env_enable :: int
  env_tab :: "(string \<times> string) list"
  env_sta :: string
  env_room :: "nat \<Rightarrow> nat"

definition CRON_TAB_PREFIX :: string where "CRON_TAB_PREFIX = ''s.cron.tab.''"

definition cronEnabled :: "cron_env \<Rightarrow> bool" where
  "cronEnabled env \<longleftrightarrow> env_enable env \<noteq> 0"

text \<open>One call of the collecting callback per key: the name without the prefix, and the line.\<close>

definition cronCollectCb :: "string \<times> string \<Rightarrow> string \<times> string" where
  "cronCollectCb kv =
     (if take (length CRON_TAB_PREFIX) (fst kv) = CRON_TAB_PREFIX
      then (drop (length CRON_TAB_PREFIX) (fst kv), snd kv) else kv)"

definition cronCollect :: "cron_env \<Rightarrow> cron_state \<Rightarrow> cron_state" where
  "cronCollect env s = s\<lparr>s_entries := map cronCollectCb (env_tab env)\<rparr>"

definition cronUpdateLock :: "cron_env \<Rightarrow> cron_state \<Rightarrow> cron_state" where
  "cronUpdateLock env s =
     (let allow = cronEnabled env \<and> s_entries s \<noteq> []
      in if allow \<and> \<not> released s then s\<lparr>lockDepth := lockDepth s - 1, released := True\<rparr>
         else if \<not> allow \<and> released s then s\<lparr>lockDepth := lockDepth s + 1, released := False\<rparr>
         else s)"

fun computeLoop :: "tz_lib \<Rightarrow> u32 \<Rightarrow> (string \<times> string) list \<Rightarrow> u32 \<Rightarrow> u32 \<Rightarrow> u32 \<times> u32" where
  "computeLoop tz from [] next wake = (next, wake)"
| "computeLoop tz from ((name, line) # es) next wake =
     (case cronParse line of
        None \<Rightarrow> computeLoop tz from es next wake
      | Some p \<Rightarrow>
          (let n = cronNextRun tz p from;
               next1 = (if n < next then n else next);
               wake1 = (if flags p AND CRON_FLAG_AWAKE = 0 \<and> n < wake then n else wake)
           in computeLoop tz from es next1 wake1))"

definition cronComputeNextLocked :: "tz_lib \<Rightarrow> u32 \<Rightarrow> cron_state \<Rightarrow> cron_state" where
  "cronComputeNextLocked tz from s =
     (let (next, wake) = computeLoop tz from (s_entries s) UINT32_MAX UINT32_MAX
      in s\<lparr>cronNextMinute := next, cronWakeMinute := wake\<rparr>)"

definition cronAnchorSane :: "cron_state \<Rightarrow> u32 \<Rightarrow> bool" where
  "cronAnchorSane s nowMin \<longleftrightarrow>
     cronLastMinute s \<noteq> 0 \<and> nowMin \<ge> cronLastMinute s \<and> nowMin - cronLastMinute s \<le> 24 * 60"

definition cronReschedule :: "tz_lib \<Rightarrow> cron_env \<Rightarrow> cron_state \<Rightarrow> cron_state" where
  "cronReschedule tz env s =
     (if \<not> mutexReady s then s
      else (let nowMin = minute_of (env_time env);
                s1 = (if \<not> cronAnchorSane s nowMin then s\<lparr>cronLastMinute := nowMin\<rparr> else s);
                s2 = cronUpdateLock env (cronCollect env s1)
            in cronComputeNextLocked tz (cronLastMinute s2 + 1) s2))"

subsection \<open>The poll\<close>

definition entryDue :: "tz_lib \<Rightarrow> cron_state \<Rightarrow> u32 \<Rightarrow> bool \<Rightarrow> cron_parsed \<Rightarrow> bool" where
  "entryDue tz s nowMin netUp p \<longleftrightarrow>
     \<not> (cronNextRun tz p (cronLastMinute s + 1) > nowMin) \<and>
     \<not> (flags p AND CRON_FLAG_AWAKE \<noteq> 0 \<and> isDeepSleepWake s) \<and>
     \<not> (flags p AND CRON_FLAG_NETWORK \<noteq> 0 \<and> \<not> netUp)"

fun pollLoop :: "tz_lib \<Rightarrow> cron_state \<Rightarrow> u32 \<Rightarrow> bool \<Rightarrow> (string \<times> string) list \<Rightarrow> string list" where
  "pollLoop tz s nowMin netUp [] = []"
| "pollLoop tz s nowMin netUp ((name, line) # es) =
     (case cronParse line of
        None \<Rightarrow> pollLoop tz s nowMin netUp es
      | Some p \<Rightarrow>
          (if entryDue tz s nowMin netUp p \<and> streamReady s
           then cmd p # [CHR 0x0A] # pollLoop tz s nowMin netUp es
           else pollLoop tz s nowMin netUp es))"

text \<open>
  \<open>xStreamBufferSend\<close> with a time limit takes the part of a text the stream has room for in that time;
  \<open>env_room\<close> is that room at each send of a poll.
\<close>

fun streamSends :: "(nat \<Rightarrow> nat) \<Rightarrow> string list \<Rightarrow> string list" where
  "streamSends room [] = []"
| "streamSends room (x # xs) = take (room 0) x # streamSends (\<lambda>k. room (Suc k)) xs"

definition cronPoll :: "tz_lib \<Rightarrow> cron_env \<Rightarrow> cron_state \<Rightarrow> string list \<times> cron_state" where
  "cronPoll tz env s =
     (if \<not> mutexReady s \<or> \<not> cronEnabled env then ([], s)
      else (let nowMin = minute_of (env_time env)
            in if \<not> cronAnchorSane s nowMin
               then ([], cronComputeNextLocked tz (nowMin + 1) (cronCollect env (s\<lparr>cronLastMinute := nowMin\<rparr>)))
               else if nowMin < cronNextMinute s then ([], s)
               else (let netUp = (safeStrncpy 16 (env_sta env) = ''connected'');
                         s1 = cronCollect env s;
                         sent = streamSends (env_room env) (pollLoop tz s1 nowMin netUp (s_entries s1))
                     in (sent, cronComputeNextLocked tz (nowMin + 1) (s1\<lparr>cronLastMinute := nowMin\<rparr>)))))"

subsection \<open>Wake-up and start\<close>

definition cronWakeupHandler :: "bool \<Rightarrow> bool \<Rightarrow> cron_state \<Rightarrow> bool \<times> cron_state" where
  "cronWakeupHandler timerWake rtcValid s =
     (if \<not> timerWake then (False, s)
      else if \<not> rtcValid then (False, s)
      else (True, s\<lparr>isDeepSleepWake := True\<rparr>))"

definition CRON_VERSION :: int where "CRON_VERSION = 1"

datatype store_op = StoreDefault string int | StoreSet string int

text \<open>The storage writes and the state after \<open>cronInit\<close>; the task is spawned with it.\<close>

definition cronInit :: "bool \<Rightarrow> int \<Rightarrow> cron_state \<Rightarrow> store_op list \<times> bool \<times> cron_state" where
  "cronInit safeMode version s =
     (if safeMode then ([], False, s)
      else ((if version < CRON_VERSION
             then [StoreDefault ''s.cron.enable'' 1, StoreSet ''s.cron.version'' CRON_VERSION] else []),
            True, s\<lparr>mutexReady := True, lockDepth := lockDepth s + 1\<rparr>))"

text \<open>The body of the task: its start, then a poll after every message pump.\<close>

definition cronTaskStart :: "tz_lib \<Rightarrow> cron_env \<Rightarrow> cron_state \<Rightarrow> cron_state" where
  "cronTaskStart tz env s = cronReschedule tz env (s\<lparr>streamReady := True\<rparr>)"

subsection \<open>The command drain\<close>

text \<open>
  The characters in the stream when it is called, one by one; the line buffer holds 127
  characters and belongs to the call. The result is what \<open>cliProcess\<close> is given, in order.
\<close>

fun drainLoop :: "string \<Rightarrow> string \<Rightarrow> string list" where
  "drainLoop buf [] = []"
| "drainLoop buf (c # s) =
     (if c = CHR 0x0A then (if length buf > 0 then buf # drainLoop [] s else drainLoop [] s)
      else if length buf < 128 - 1 then drainLoop (buf @ [c]) s
      else drainLoop buf s)"

definition cronDrainCommands :: "bool \<Rightarrow> string \<Rightarrow> string list" where
  "cronDrainCommands ready stream = (if \<not> ready then [] else drainLoop [] stream)"

end
