(* ===== verification/Cron_Field.thy ===== *)
theory Cron_Field
  imports Cron
begin

section \<open>What a cron field means\<close>

text \<open>
  The grammar of a field as a datatype with its meaning as a set of values, its printed form,
  and the equivalence of \<open>cronMatchField\<close> on the printed form with the meaning.
\<close>

datatype cron_base = Star | Range nat nat | Num nat

type_synonym cron_part = "cron_base \<times> nat option"

fun show_base :: "cron_base \<Rightarrow> string" where
  "show_base Star = ''*''"
| "show_base (Range a b) = nat_str a @ CHR ''-'' # nat_str b"
| "show_base (Num n) = nat_str n"

fun show_part :: "cron_part \<Rightarrow> string" where
  "show_part (b, None) = show_base b"
| "show_part (b, Some s) = show_base b @ CHR ''/'' # nat_str s"

fun show_field :: "cron_part list \<Rightarrow> string" where
  "show_field [] = []"
| "show_field [p] = show_part p"
| "show_field (p # ps) = show_part p @ CHR '','' # show_field ps"

text \<open>Where a part starts counting, and whether a value lies in its span.\<close>

fun base_start :: "cron_base \<Rightarrow> int \<Rightarrow> int" where
  "base_start Star mn = mn"
| "base_start (Range a b) mn = int a"
| "base_start (Num n) mn = int n"

fun in_span :: "cron_base \<Rightarrow> int \<Rightarrow> bool" where
  "in_span Star v = True"
| "in_span (Range a b) v = (int a \<le> v \<and> v \<le> int b)"
| "in_span (Num n) v = (int n \<le> v)"

fun part_sem :: "cron_part \<Rightarrow> int \<Rightarrow> int \<Rightarrow> bool" where
  "part_sem (Num n, None) v mn = (v = int n)"
| "part_sem (b, None) v mn = in_span b v"
| "part_sem (b, Some s) v mn = (in_span b v \<and> int s dvd v - base_start b mn)"

fun base_numbers :: "cron_base \<Rightarrow> nat set" where
  "base_numbers Star = {}"
| "base_numbers (Range a b) = {a, b}"
| "base_numbers (Num n) = {n}"

definition part_wf :: "cron_part \<Rightarrow> bool" where
  "part_wf p \<longleftrightarrow> length (show_base (fst p)) < 16 \<and> length (show_part p) < 32 \<and>
     (\<forall>n \<in> base_numbers (fst p). int n \<le> INT32_MAX) \<and>
     (\<forall>s. snd p = Some s \<longrightarrow> 0 < s \<and> int s \<le> INT32_MAX)"

lemma show_base_no [simp]: "CHR '','' \<notin> set (show_base b)" "CHR ''/'' \<notin> set (show_base b)"
  by (cases b; simp)+

lemma show_part_no [simp]: "CHR '','' \<notin> set (show_part p)"
  by (cases p rule: show_part.cases) auto

lemma nat_str_not_star [simp]: "nat_str n \<noteq> ''*''" "nat_str n @ xs \<noteq> ''*''"
  using nat_str_Cons [of n] by (metis append_Cons digit_not_special list.inject)+

lemma matchBase_show:
  assumes "\<forall>n \<in> base_numbers b. int n \<le> INT32_MAX"
  shows "matchBase (show_base b) (int s) v mn \<longleftrightarrow> (if s = 0 then part_sem (b, None) v mn else part_sem (b, Some s) v mn)"
proof (cases b)
  case (Range lo hi)
  have "atoi (nat_str lo @ CHR ''-'' # nat_str hi) = int lo"
    using Range assms by (intro atoi_nat_str_rest) (simp_all add: c_isdigit_def)
  moreover have "atoi (nat_str hi) = int hi" using Range assms atoi_nat_str_rest [of "[]" hi] by simp
  ultimately show ?thesis using Range by (auto simp: matchBase_def Let_def dvd_eq_mod_eq_0)
next
  case (Num n)
  have "atoi (nat_str n) = int n" using Num assms atoi_nat_str_rest [of "[]" n] by simp
  then show ?thesis using Num by (auto simp: matchBase_def Let_def dvd_eq_mod_eq_0)
qed (auto simp: matchBase_def dvd_eq_mod_eq_0)

lemma matchPart_show:
  assumes "part_wf p"
  shows "matchPart (show_part p) v mn \<longleftrightarrow> part_sem p v mn"
proof (cases p rule: show_part.cases)
  case (1 b)
  then show ?thesis using assms matchBase_show [of b 0] by (auto simp: matchPart_def part_wf_def)
next
  case (2 b s)
  have "atoi (nat_str s) = int s" using 2 assms atoi_nat_str_rest [of "[]" s] by (simp add: part_wf_def)
  then show ?thesis using 2 assms matchBase_show [of b s] by (auto simp: matchPart_def part_wf_def Let_def)
qed

lemma split_show_field: "ps \<noteq> [] \<Longrightarrow> split_on CHR '','' (show_field ps) = map show_part ps"
proof (induction ps rule: show_field.induct)
  case (3 p q ps)
  then show ?case by (simp add: split_on_append_sep)
qed auto

lemma comma_in_field: "ps \<noteq> [] \<Longrightarrow> CHR '','' \<in> set (show_field ps) \<longleftrightarrow> tl ps \<noteq> []"
  by (induction ps rule: show_field.induct) auto

lemma matchList_show: "\<forall>p \<in> set ps. part_wf p \<Longrightarrow> matchList (map show_part ps) v mn \<longleftrightarrow> (\<exists>p \<in> set ps. part_sem p v mn)"
  by (induction ps) (auto simp: matchPart_show part_wf_def)

text \<open>
  \<open>cronMatchField\<close> implements the field grammar: on the printed form of a list of parts
  (star, range or number, each with an optional step) it accepts exactly the values some part
  denotes.
\<close>

theorem cronMatchField_correct:
  assumes "ps \<noteq> []" "\<forall>p \<in> set ps. part_wf p"
  shows "cronMatchField (show_field ps) v mn mx \<longleftrightarrow> (\<exists>p \<in> set ps. part_sem p v mn)"
proof (cases "tl ps = []")
  case True
  then obtain p where "ps = [p]" using assms(1) by (cases ps) auto
  with assms show ?thesis by (simp add: cronMatchField_def matchPart_show)
next
  case False
  then show ?thesis using assms by (simp add: cronMatchField_def comma_in_field split_show_field matchList_show)
qed

theorem cronMatchField_correct_witness:
  "cronMatchField (show_field [(Range 9 17, Some 2), (Num 0, None)]) 11 0 23 \<and>
   \<not> cronMatchField (show_field [(Range 9 17, Some 2), (Num 0, None)]) 12 0 23"
proof -
  have l: "length (nat_str 9) = 1" "length (nat_str 17) = 2" "length (nat_str 2) = 1" "length (nat_str 0) = 1"
    by (simp_all add: nat_str.simps)
  have "\<forall>p \<in> set [(Range 9 17, Some 2), (Num 0, None)]. part_wf p"
    by (simp add: part_wf_def INT32_MAX_def l)
  then show ?thesis using cronMatchField_correct [of "[(Range 9 17, Some 2), (Num 0, None)]"] by simp
qed

end
