(* ===== verification/Cron_Next.thy ===== *)
theory Cron_Next
  imports Cron_Field
begin

section \<open>The next run is the earliest one\<close>

text \<open>
  The search of \<open>cronNextRun\<close> in a zone of fixed offset: it returns the first minute at which
  all five fields match, it misses none within 400 days, and the guard of 1000 passes is never
  what ends it for fields that can match at all. Everything is in epoch minutes.
\<close>

text \<open>
  What the C library documents of a zone without daylight saving: the clock fields follow from
  the time and the offset, the date fields are those of the local day, and \<open>mktime\<close> normalizes
  fields out of range and fills the record in as \<open>localtime_r\<close> would. \<open>off\<close> is in minutes.
\<close>

definition local_day :: "int \<Rightarrow> int \<Rightarrow> int" where
  "local_day off k = (k + off) div 1440"

definition local_hour :: "int \<Rightarrow> int \<Rightarrow> int" where
  "local_hour off k = (k + off) div 60 mod 24"

definition local_min :: "int \<Rightarrow> int \<Rightarrow> int" where
  "local_min off k = (k + off) mod 60"

definition fixed_zone :: "tz_lib \<Rightarrow> int \<Rightarrow> bool" where
  "fixed_zone tz off \<longleftrightarrow>
     (\<forall>k \<ge> 0. tm_sec (localtime_r tz (k * 60)) = 0 \<and> tm_min (localtime_r tz (k * 60)) = local_min off k \<and>
        tm_hour (localtime_r tz (k * 60)) = local_hour off k) \<and>
     (\<forall>k \<ge> 0. \<forall>j \<ge> 0. local_day off k = local_day off j \<longrightarrow>
        tm_mon (localtime_r tz (k * 60)) = tm_mon (localtime_r tz (j * 60)) \<and>
        tm_mday (localtime_r tz (k * 60)) = tm_mday (localtime_r tz (j * 60)) \<and>
        tm_wday (localtime_r tz (k * 60)) = tm_wday (localtime_r tz (j * 60))) \<and>
     (\<forall>k \<ge> 0. \<forall>d h m. 0 \<le> d \<and> 0 \<le> h \<and> 0 \<le> m \<longrightarrow>
        (let k' = (local_day off k + d) * 1440 + h * 60 + m - off
         in mktime tz ((localtime_r tz (k * 60))\<lparr>tm_mday := tm_mday (localtime_r tz (k * 60)) + d, tm_hour := h, tm_min := m, tm_isdst := -1\<rparr>)
            = (k' * 60, localtime_r tz (k' * 60))))"

definition matchesAt :: "tz_lib \<Rightarrow> cron_parsed \<Rightarrow> int \<Rightarrow> bool" where
  "matchesAt tz e k \<longleftrightarrow> dayMatches e (localtime_r tz (k * 60)) \<and>
     cronMatchField (field e ! 1) (tm_hour (localtime_r tz (k * 60))) 0 23 \<and>
     cronMatchField (field e ! 0) (tm_min (localtime_r tz (k * 60))) 0 59"

subsection \<open>Local time arithmetic\<close>

lemma div_1440: "x div 1440 = x div 60 div (24 :: int)"
  using zdiv_zmult2_eq [of 24 x 60] by simp

lemma local_decomp: "k + off = local_day off k * 1440 + local_hour off k * 60 + local_min off k"
proof -
  define x q where "x = k + off" and "q = x div 60"
  have "x = 60 * q + x mod 60" "q = 24 * (q div 24) + q mod 24" by (simp_all add: q_def)
  then have "x = (q div 24) * 1440 + (q mod 24) * 60 + x mod 60" by linarith
  then show ?thesis by (simp only: local_day_def local_hour_def local_min_def div_1440 x_def [symmetric] q_def [symmetric])
qed

lemma local_bounds: "0 \<le> local_hour off k" "local_hour off k < 24" "0 \<le> local_min off k" "local_min off k < 60"
  by (simp_all add: local_hour_def local_min_def)

lemma local_unique:
  assumes "k + off = d * 1440 + h * 60 + m" "0 \<le> h" "h < 24" "0 \<le> m" "m < 60"
  shows "local_day off k = d" "local_hour off k = h" "local_min off k = m"
proof -
  have x: "k + off = m + (d * 24 + h) * 60" using assms(1) by simp
  have 1: "(k + off) div 60 = d * 24 + h" "(k + off) mod 60 = m"
    unfolding x using assms(4,5) div_mult_self1 [of 60 m "d * 24 + h"] mod_mult_self1 [of m "d * 24 + h" 60] by simp_all
  show "local_min off k = m" using 1 by (simp add: local_min_def)
  show "local_hour off k = h" using assms(2,3) unfolding local_hour_def 1 by simp
  have "(d * 24 + h) div 24 = d" using assms(2,3) by simp
  then show "local_day off k = d" unfolding local_day_def div_1440 1 .
qed

text \<open>The three steps of the search.\<close>

definition day_step :: "int \<Rightarrow> int \<Rightarrow> int" where
  "day_step off k = local_day off k * 1440 + 1440 - off"

definition hour_step :: "int \<Rightarrow> int \<Rightarrow> int" where
  "hour_step off k = local_day off k * 1440 + local_hour off k * 60 + 60 - off"

lemma day_step_gt: "k < day_step off k" "day_step off k \<le> k + 1440"
  using local_decomp [of k off] local_bounds [of off k] by (auto simp: day_step_def)

lemma hour_step_gt: "k < hour_step off k" "hour_step off k \<le> k + 1440"
  using local_decomp [of k off] local_bounds [of off k] by (auto simp: hour_step_def)

lemma day_step_local:
  "local_day off (day_step off k) = local_day off k + 1" "local_hour off (day_step off k) = 0" "local_min off (day_step off k) = 0"
  using local_unique [of "day_step off k" off "local_day off k + 1" 0 0] by (simp_all add: day_step_def)

lemma hour_step_local:
  assumes "local_hour off k < 23"
  shows "local_day off (hour_step off k) = local_day off k" "local_hour off (hour_step off k) = local_hour off k + 1"
    "local_min off (hour_step off k) = 0"
  using local_unique [of "hour_step off k" off "local_day off k" "local_hour off k + 1" 0] assms local_bounds [of off k]
  by (simp_all add: hour_step_def)

lemma hour_step_last: "local_hour off k = 23 \<Longrightarrow> hour_step off k = day_step off k"
  by (simp add: hour_step_def day_step_def)

lemma min_step_local:
  assumes "local_min off k < 59"
  shows "local_day off (k + 1) = local_day off k" "local_hour off (k + 1) = local_hour off k" "local_min off (k + 1) = local_min off k + 1"
  using local_unique [of "k + 1" off "local_day off k" "local_hour off k" "local_min off k + 1"] assms
    local_bounds [of off k] local_decomp [of k off] by simp_all

lemma min_step_last: "local_min off k = 59 \<Longrightarrow> k + 1 = hour_step off k"
  using local_decomp [of k off] by (simp add: hour_step_def)

lemma same_day:
  assumes "k \<le> j" "j < day_step off k"
  shows "local_day off j = local_day off k"
proof -
  have "local_day off k \<le> local_day off j" unfolding local_day_def using assms(1) by (intro zdiv_mono1) auto
  moreover have "local_day off j < local_day off k + 1"
  proof -
    have "j + off < local_day off k * 1440 + 1440" using assms(2) by (simp add: day_step_def)
    then show ?thesis using local_decomp [of j off] local_bounds [of off j] by linarith
  qed
  ultimately show ?thesis by simp
qed

lemma same_hour:
  assumes "k \<le> j" "j < hour_step off k"
  shows "local_day off j = local_day off k" "local_hour off j = local_hour off k"
proof -
  have "hour_step off k \<le> day_step off k" using local_bounds [of off k] by (simp add: hour_step_def day_step_def)
  then show d: "local_day off j = local_day off k" using same_day assms by auto
  have "j < local_day off k * 1440 + local_hour off k * 60 + 60 - off" using assms(2) by (simp add: hour_step_def)
  then show "local_hour off j = local_hour off k"
    using assms(1) d local_decomp [of k off] local_decomp [of j off] local_bounds [of off k] local_bounds [of off j] by linarith
qed

subsection \<open>One pass of the search\<close>

abbreviation lt :: "tz_lib \<Rightarrow> int \<Rightarrow> tm" where
  "lt tz k \<equiv> localtime_r tz (k * 60)"

definition dayOk :: "tz_lib \<Rightarrow> cron_parsed \<Rightarrow> int \<Rightarrow> bool" where
  "dayOk tz e k \<longleftrightarrow> dayMatches e (lt tz k)"

definition hourOk :: "cron_parsed \<Rightarrow> int \<Rightarrow> bool" where
  "hourOk e h \<longleftrightarrow> cronMatchField (field e ! 1) h 0 23"

definition minOk :: "cron_parsed \<Rightarrow> int \<Rightarrow> bool" where
  "minOk e m \<longleftrightarrow> cronMatchField (field e ! 0) m 0 59"

lemma zone_clock:
  assumes "fixed_zone tz off" "0 \<le> k"
  shows "tm_sec (lt tz k) = 0" "tm_min (lt tz k) = local_min off k" "tm_hour (lt tz k) = local_hour off k"
  using assms unfolding fixed_zone_def by blast+

lemma zone_day:
  assumes "fixed_zone tz off" "0 \<le> k" "0 \<le> j" "local_day off k = local_day off j"
  shows "dayOk tz e k = dayOk tz e j"
proof -
  have "tm_mon (lt tz k) = tm_mon (lt tz j) \<and> tm_mday (lt tz k) = tm_mday (lt tz j) \<and> tm_wday (lt tz k) = tm_wday (lt tz j)"
    using assms unfolding fixed_zone_def by blast
  then show ?thesis by (simp add: dayOk_def dayMatches_def)
qed

lemma zone_mktime:
  assumes "fixed_zone tz off" "0 \<le> k" "0 \<le> d" "0 \<le> h" "0 \<le> m" "k' = (local_day off k + d) * 1440 + h * 60 + m - off"
  shows "mktime tz ((lt tz k)\<lparr>tm_mday := tm_mday (lt tz k) + d, tm_hour := h, tm_min := m, tm_isdst := -1\<rparr>) = (k' * 60, lt tz k')"
  using assms unfolding fixed_zone_def Let_def by blast

lemma matchesAt_iff:
  "fixed_zone tz off \<Longrightarrow> 0 \<le> k \<Longrightarrow>
   matchesAt tz e k \<longleftrightarrow> dayOk tz e k \<and> hourOk e (local_hour off k) \<and> minOk e (local_min off k)"
  by (simp add: matchesAt_def dayOk_def hourOk_def minOk_def zone_clock)

lemma tm_no_change:
  "r\<lparr>tm_mday := tm_mday r, tm_hour := h, tm_min := m, tm_isdst := i\<rparr> = r\<lparr>tm_hour := h, tm_min := m, tm_isdst := i\<rparr>"
  "r\<lparr>tm_hour := tm_hour r, tm_min := m, tm_isdst := i\<rparr> = r\<lparr>tm_min := m, tm_isdst := i\<rparr>" for r :: tm
  by (cases r; simp)+

lemma nextRun_pass:
  assumes z: "fixed_zone tz off" and k: "0 \<le> k"
  shows "nextRunLoop tz e hz (Suc g) (k * 60) (lt tz k) =
    (if minute_of (k * 60) > hz then UINT32_MAX
     else if matchesAt tz e k then minute_of (k * 60)
     else let k' = (if \<not> dayOk tz e k then day_step off k
                    else if \<not> hourOk e (local_hour off k) then hour_step off k else k + 1)
          in nextRunLoop tz e hz g (k' * 60) (lt tz k'))"
proof -
  note b = local_bounds [of off k]
  have m1: "mktime tz ((lt tz k)\<lparr>tm_mday := tm_mday (lt tz k) + 1, tm_hour := 0, tm_min := 0, tm_isdst := -1\<rparr>)
      = (day_step off k * 60, lt tz (day_step off k))"
    by (rule zone_mktime [OF z k]) (simp_all add: day_step_def)
  have m2: "mktime tz ((lt tz k)\<lparr>tm_hour := local_hour off k + 1, tm_min := 0, tm_isdst := -1\<rparr>)
      = (hour_step off k * 60, lt tz (hour_step off k))"
    using zone_mktime [OF z k, of 0 "local_hour off k + 1" 0 "hour_step off k"] b by (simp add: hour_step_def tm_no_change)
  define n where "n = k + 1"
  have m3: "mktime tz ((lt tz k)\<lparr>tm_min := local_min off k + 1, tm_isdst := -1\<rparr>) = (n * 60, lt tz n)"
    using zone_mktime [OF z k, of 0 "tm_hour (lt tz k)" "local_min off k + 1" n] b local_decomp [of k off] n_def
    by (simp add: zone_clock [OF z k] tm_no_change [where r = "lt tz k", unfolded zone_clock [OF z k]])
  have ne: "j * 60 \<noteq> -1" for j :: int by presburger
  show ?thesis
    unfolding n_def [symmetric] using m1 m2 m3 ne [of "day_step off k"] ne [of "hour_step off k"] ne [of n]
    by (simp add: zone_clock [OF z k] dayOk_def hourOk_def minOk_def matchesAt_iff [OF z k] Let_def)
qed

text \<open>Every pass that goes on goes forward over minutes that do not match.\<close>

definition next_k :: "tz_lib \<Rightarrow> cron_parsed \<Rightarrow> int \<Rightarrow> int \<Rightarrow> int" where
  "next_k tz e off k = (if \<not> dayOk tz e k then day_step off k
     else if \<not> hourOk e (local_hour off k) then hour_step off k else k + 1)"

lemma next_k_skips:
  assumes z: "fixed_zone tz off" and k: "0 \<le> k" "\<not> matchesAt tz e k" and j: "k \<le> j" "j < next_k tz e off k"
  shows "\<not> matchesAt tz e j"
proof -
  have j0: "0 \<le> j" using k j by simp
  consider "\<not> dayOk tz e k" | "dayOk tz e k" "\<not> hourOk e (local_hour off k)" | "dayOk tz e k" "hourOk e (local_hour off k)" by blast
  then show ?thesis
  proof cases
    case 1
    then have "local_day off j = local_day off k" using same_day j by (simp add: next_k_def)
    then show ?thesis using 1 zone_day [OF z j0 k(1)] by (simp add: matchesAt_iff [OF z j0])
  next
    case 2
    then have "local_hour off j = local_hour off k" using same_hour(2) j by (simp add: next_k_def)
    then show ?thesis using 2 by (simp add: matchesAt_iff [OF z j0])
  next
    case 3
    then have "j = k" using j by (simp add: next_k_def)
    then show ?thesis using k(2) by simp
  qed
qed

lemma next_k_gt: "k < next_k tz e off k" "next_k tz e off k \<le> k + 1440"
  using day_step_gt [where k = k and off = off] hour_step_gt [where k = k and off = off] by (auto simp: next_k_def)

lemma minute_of_mult: "minute_of (k * 60) = word_of_int k"
proof -
  have "(k * 60) sdiv 60 = k" by (simp add: signed_divide_int_def sgn_mult abs_mult mult_sgn_abs)
  then show ?thesis by (simp add: minute_of_def)
qed

lemma uint_minute_of: "0 \<le> k \<Longrightarrow> k < 2 ^ 32 \<Longrightarrow> uint (minute_of (k * 60)) = k"
  by (simp add: minute_of_mult uint_word_of_int)

lemma nextRunLoop_sound:
  assumes z: "fixed_zone tz off" and "0 \<le> k" "uint hz + 1440 < 2 ^ 32" "k \<le> uint hz + 1440"
    and "nextRunLoop tz e hz g (k * 60) (lt tz k) = r" "r \<noteq> UINT32_MAX"
  shows "k \<le> uint r \<and> uint r \<le> uint hz \<and> matchesAt tz e (uint r) \<and> (\<forall>j. k \<le> j \<and> j < uint r \<longrightarrow> \<not> matchesAt tz e j)"
  using assms(2-)
proof (induction g arbitrary: k)
  case (Suc g)
  have u: "uint (minute_of (k * 60)) = k" using Suc.prems by (intro uint_minute_of) auto
  note pass = nextRun_pass [OF z Suc.prems(1), of e hz g, folded next_k_def]
  have le: "\<not> minute_of (k * 60) > hz" using Suc.prems(4,5) pass by (auto split: if_splits)
  then have kh: "k \<le> uint hz" using u by (simp add: word_less_def not_less)
  show ?case
  proof (cases "matchesAt tz e k")
    case True
    then have "r = minute_of (k * 60)" using Suc.prems(4) pass le by simp
    then show ?thesis using u kh True by auto
  next
    case False
    let ?k = "next_k tz e off k"
    have "nextRunLoop tz e hz g (?k * 60) (lt tz ?k) = r" using Suc.prems(4) pass le False by (simp add: Let_def)
    then have "?k \<le> uint r \<and> uint r \<le> uint hz \<and> matchesAt tz e (uint r) \<and> (\<forall>j. ?k \<le> j \<and> j < uint r \<longrightarrow> \<not> matchesAt tz e j)"
      using next_k_gt [where k = k and tz = tz and e = e and off = off] kh Suc.prems by (intro Suc.IH) auto
    then show ?thesis using next_k_gt(1) [where k = k and tz = tz and e = e and off = off] next_k_skips [OF z Suc.prems(1) False] by (meson leI less_imp_le order_trans)
  qed
qed (auto)

subsection \<open>The guard is enough\<close>

text \<open>
  A bound on the passes left: one per day, and within a day what the clock fields can cost,
  which is little when a matching hour or minute is still ahead.
\<close>

definition hourAhead :: "cron_parsed \<Rightarrow> int \<Rightarrow> bool" where
  "hourAhead e h \<longleftrightarrow> (\<exists>h'. h < h' \<and> h' < 24 \<and> hourOk e h')"

definition minAhead :: "cron_parsed \<Rightarrow> int \<Rightarrow> bool" where
  "minAhead e m \<longleftrightarrow> (\<exists>m'. m \<le> m' \<and> m' < 60 \<and> minOk e m')"

definition clock_passes :: "cron_parsed \<Rightarrow> bool \<Rightarrow> int \<Rightarrow> int \<Rightarrow> int" where
  "clock_passes e d h m =
     (if \<not> d then 84
      else if hourOk e h
      then (if minAhead e m then 60 - m else (60 - m) + (23 - h) + (if hourAhead e h then 61 else 84))
      else (23 - h) + (if hourAhead e h then 61 else 84))"

definition passes :: "tz_lib \<Rightarrow> cron_parsed \<Rightarrow> int \<Rightarrow> int \<Rightarrow> int \<Rightarrow> int" where
  "passes tz e off H k = (local_day off H - local_day off k) + clock_passes e (dayOk tz e k) (local_hour off k) (local_min off k)"

definition satisfiable :: "cron_parsed \<Rightarrow> bool" where
  "satisfiable e \<longleftrightarrow> (\<exists>h. 0 \<le> h \<and> h < 24 \<and> hourOk e h) \<and> (\<exists>m. 0 \<le> m \<and> m < 60 \<and> minOk e m)"

lemma clock_passes_bounds: "0 \<le> h \<Longrightarrow> h < 24 \<Longrightarrow> 0 \<le> m \<Longrightarrow> m < 60 \<Longrightarrow> 1 \<le> clock_passes e d h m \<and> clock_passes e d h m \<le> 167"
  by (auto simp: clock_passes_def)

lemma clock_passes_day_start:
  assumes "satisfiable e"
  shows "clock_passes e d 0 0 \<le> 84"
proof -
  have "minAhead e 0" using assms by (auto simp: satisfiable_def minAhead_def)
  moreover have "hourAhead e 0" if "\<not> hourOk e 0"
  proof -
    obtain h where h: "0 \<le> h" "h < 24" "hourOk e h" using assms by (auto simp: satisfiable_def)
    then have "h \<noteq> 0" using that by auto
    with h show ?thesis by (auto simp: hourAhead_def intro!: exI [of _ h])
  qed
  ultimately show ?thesis by (auto simp: clock_passes_def)
qed

lemma clock_passes_next_hour:
  assumes "satisfiable e" "h < 23" "\<not> hourOk e h \<or> \<not> minAhead e m" "m < 60"
  shows "clock_passes e True (h + 1) 0 < clock_passes e True h m"
proof -
  have m0: "minAhead e 0" using assms(1) by (auto simp: satisfiable_def minAhead_def)
  have "hourAhead e h \<longleftrightarrow> hourOk e (h + 1) \<or> hourAhead e (h + 1)"
  proof
    assume "hourAhead e h"
    then obtain h' where h': "h < h'" "h' < 24" "hourOk e h'" by (auto simp: hourAhead_def)
    then show "hourOk e (h + 1) \<or> hourAhead e (h + 1)" by (cases "h' = h + 1") (auto simp: hourAhead_def intro!: exI [of _ h'])
  next
    assume "hourOk e (h + 1) \<or> hourAhead e (h + 1)"
    then have "\<exists>h'. h + 1 \<le> h' \<and> h' < 24 \<and> hourOk e h'"
    proof
      assume "hourOk e (h + 1)"
      then show ?thesis using assms(2) by (intro exI [of _ "h + 1"]) simp
    next
      assume "hourAhead e (h + 1)"
      then obtain h' where h': "h + 1 < h'" "h' < 24" "hourOk e h'" by (auto simp: hourAhead_def)
      then show ?thesis by (intro exI [of _ h']) simp
    qed
    then obtain h' where "h + 1 \<le> h'" "h' < 24" "hourOk e h'" by blast
    then show "hourAhead e h" by (auto simp: hourAhead_def intro!: exI [of _ h'])
  qed
  with m0 assms show ?thesis by (auto simp: clock_passes_def)
qed

lemma minAhead_next: "\<not> minOk e m \<Longrightarrow> m < 59 \<Longrightarrow> minAhead e m \<longleftrightarrow> minAhead e (m + 1)"
  unfolding minAhead_def by (metis (no_types, opaque_lifting) add1_zle_eq order_le_less zle_add1_eq_le)

lemma passes_decrease:
  assumes z: "fixed_zone tz off" and sat: "satisfiable e" and k: "0 \<le> k" "\<not> matchesAt tz e k"
  shows "passes tz e off H (next_k tz e off k) < passes tz e off H k"
proof -
  note b = local_bounds [of off k]
  let ?h = "local_hour off k" and ?m = "local_min off k"
  have day: "passes tz e off H (day_step off k) < passes tz e off H k" if "84 \<le> clock_passes e (dayOk tz e k) ?h ?m"
    using clock_passes_day_start [OF sat, of "dayOk tz e (day_step off k)"] that by (simp add: passes_def day_step_local)
  have same: "dayOk tz e j = dayOk tz e k" if "local_day off j = local_day off k" "0 \<le> j" for j
    using zone_day [OF z that(2) k(1) that(1)] .
  have hour: "passes tz e off H (hour_step off k) < passes tz e off H k"
    if "dayOk tz e k" "\<not> hourOk e ?h \<or> \<not> minAhead e ?m"
  proof (cases "?h < 23")
    case True
    have "0 \<le> hour_step off k" using hour_step_gt(1) [of k off] k(1) by simp
    then have "dayOk tz e (hour_step off k)" using same hour_step_local(1) [OF True] that(1) by simp
    then show ?thesis
      using clock_passes_next_hour [OF sat True that(2)] b that(1) by (simp add: passes_def hour_step_local [OF True])
  next
    case False
    then have "?h = 23" using b by simp
    moreover from this have "\<not> hourAhead e ?h" by (auto simp: hourAhead_def)
    ultimately show ?thesis using day that b by (simp add: hour_step_last clock_passes_def)
  qed
  consider "\<not> dayOk tz e k" | "dayOk tz e k" "\<not> hourOk e ?h" | "dayOk tz e k" "hourOk e ?h" by blast
  then show ?thesis
  proof cases
    case 1
    then show ?thesis using day by (simp add: next_k_def clock_passes_def)
  next
    case 2
    then show ?thesis using hour by (simp add: next_k_def)
  next
    case 3
    then have mm: "\<not> minOk e ?m" using k by (simp add: matchesAt_iff [OF z])
    show ?thesis
    proof (cases "?m < 59")
      case True
      then have "dayOk tz e (k + 1)" using same [of "k + 1"] min_step_local(1) 3 k(1) by simp
      then show ?thesis
        using 3 minAhead_next [OF mm True] by (simp add: next_k_def passes_def min_step_local [OF True] clock_passes_def)
    next
      case False
      then have m: "?m = 59" using b by simp
      have "\<not> minAhead e ?m"
      proof
        assume "minAhead e ?m"
        then obtain m' where "59 \<le> m'" "m' < 60" "minOk e m'" using m by (auto simp: minAhead_def)
        then have "m' = ?m" using m by simp
        with mm \<open>minOk e m'\<close> show False by simp
      qed
      then show ?thesis using hour [OF 3(1)] 3 min_step_last [OF m] by (simp add: next_k_def)
    qed
  qed
qed

lemma nextRunLoop_complete:
  assumes z: "fixed_zone tz off" and sat: "satisfiable e" and H: "uint hz + 1440 < 2 ^ 32 - 1"
    and "0 \<le> k" "k \<le> uint hz + 1440" "k \<le> uint hz \<longrightarrow> passes tz e off (uint hz) k < int g"
    and "nextRunLoop tz e hz g (k * 60) (lt tz k) = UINT32_MAX" "k \<le> j" "j \<le> uint hz"
  shows "\<not> matchesAt tz e j"
  using assms(4-)
proof (induction g arbitrary: k)
  case 0
  have "local_day off k \<le> local_day off (uint hz)" using 0 unfolding local_day_def by (intro zdiv_mono1) auto
  then have "0 \<le> passes tz e off (uint hz) k"
    using clock_passes_bounds [OF local_bounds [of off k], of e "dayOk tz e k"] by (simp add: passes_def)
  with 0 show ?case by simp
next
  case (Suc g)
  have kh: "k \<le> uint hz" using Suc.prems by simp
  have u: "uint (minute_of (k * 60)) = k" using Suc.prems H by (intro uint_minute_of) auto
  then have le: "\<not> minute_of (k * 60) > hz" using kh by (simp add: word_less_def)
  note pass = nextRun_pass [OF z Suc.prems(1), of e hz g, folded next_k_def]
  have nm: "\<not> matchesAt tz e k"
  proof
    assume "matchesAt tz e k"
    then have "minute_of (k * 60) = UINT32_MAX" using Suc.prems(4) pass le by simp
    then have "k = 2 ^ 32 - 1" using u by (simp add: UINT32_MAX_def)
    with kh H show False by simp
  qed
  let ?k = "next_k tz e off k"
  have run: "nextRunLoop tz e hz g (?k * 60) (lt tz ?k) = UINT32_MAX" using Suc.prems(4) pass le nm by (simp add: Let_def)
  show ?case
  proof (cases "j < ?k")
    case True
    then show ?thesis using next_k_skips [OF z Suc.prems(1) nm Suc.prems(5)] by simp
  next
    case False
    have "passes tz e off (uint hz) ?k < int g"
      using passes_decrease [OF z sat Suc.prems(1) nm, of "uint hz"] Suc.prems(3) kh by simp
    with False run show ?thesis
      using next_k_gt [where k = k and tz = tz and e = e and off = off] Suc.prems kh by (intro Suc.IH [of ?k]) auto
  qed
qed

lemma matchesAt_satisfiable: "fixed_zone tz off \<Longrightarrow> 0 \<le> k \<Longrightarrow> matchesAt tz e k \<Longrightarrow> satisfiable e"
  using local_bounds [of off k] by (auto simp: matchesAt_iff satisfiable_def)

lemma cronNextRun_spec:
  assumes z: "fixed_zone tz off" and lim: "uint from + 577440 < 2 ^ 32 - 1"
  shows "cronNextRun tz e from \<noteq> UINT32_MAX \<Longrightarrow> uint from \<le> uint (cronNextRun tz e from) \<and>
      uint (cronNextRun tz e from) \<le> uint from + 576000 \<and> matchesAt tz e (uint (cronNextRun tz e from)) \<and>
      (\<forall>j. uint from \<le> j \<and> j < uint (cronNextRun tz e from) \<longrightarrow> \<not> matchesAt tz e j)"
    "cronNextRun tz e from = UINT32_MAX \<Longrightarrow> uint from \<le> j \<Longrightarrow> j \<le> uint from + 576000 \<Longrightarrow> \<not> matchesAt tz e j"
proof -
  let ?k = "uint from" and ?hz = "from + 400 * 24 * 60"
  have k0: "0 \<le> ?k" by simp
  have hz: "uint ?hz = ?k + 576000" using lim by (simp add: uint_word_ariths)
  have l: "(lt tz ?k)\<lparr>tm_sec := 0\<rparr> = lt tz ?k" using zone_clock(1) [OF z k0] by (cases "lt tz ?k") simp
  have r: "cronNextRun tz e from = nextRunLoop tz e ?hz 1000 (?k * 60) (lt tz ?k)"
    unfolding cronNextRun_def Let_def l ..
  show "uint from \<le> uint (cronNextRun tz e from) \<and>
      uint (cronNextRun tz e from) \<le> uint from + 576000 \<and> matchesAt tz e (uint (cronNextRun tz e from)) \<and>
      (\<forall>j. uint from \<le> j \<and> j < uint (cronNextRun tz e from) \<longrightarrow> \<not> matchesAt tz e j)"
    if "cronNextRun tz e from \<noteq> UINT32_MAX"
    using nextRunLoop_sound [OF z k0 _ _ r [symmetric] that] lim hz by simp
  show "\<not> matchesAt tz e j" if n: "cronNextRun tz e from = UINT32_MAX" "uint from \<le> j" "j \<le> uint from + 576000"
  proof (cases "satisfiable e")
    case False
    then show ?thesis using matchesAt_satisfiable [OF z] n(2) k0 by (meson order_trans)
  next
    case True
    have d: "local_day off (?k + 576000) = local_day off ?k + 400"
      using div_mult_self1 [of 1440 "?k + off" 400] by (simp add: local_day_def algebra_simps)
    have "passes tz e off (uint ?hz) ?k < int 1000"
      using clock_passes_bounds [OF local_bounds [of off ?k], of e "dayOk tz e ?k"] unfolding hz passes_def d by simp
    then show ?thesis
      using n hz lim r by (intro nextRunLoop_complete [OF z True _ k0, of ?hz 1000]) auto
  qed
qed

text \<open>
  C19. \<open>cronNextRun\<close> is the earliest run: in a zone of fixed offset (no daylight saving) it returns the first minute
  from the given one on at which month, day, weekday, hour and minute all match, and it returns
  \<open>UINT32_MAX\<close> only when no minute of the next 400 days matches. The guard of 1000 passes is
  always enough.
\<close>

theorem cronNextRun_earliest:
  assumes "fixed_zone tz off" "uint from + 577440 < 2 ^ 32 - 1"
  shows "if cronNextRun tz e from = UINT32_MAX then \<forall>j \<in> {uint from .. uint from + 576000}. \<not> matchesAt tz e j
    else uint from \<le> uint (cronNextRun tz e from) \<and> matchesAt tz e (uint (cronNextRun tz e from)) \<and>
      (\<forall>j \<in> {uint from ..< uint (cronNextRun tz e from)}. \<not> matchesAt tz e j)"
  using cronNextRun_spec [OF assms, of e] by auto

subsection \<open>A zone of the kind described\<close>

text \<open>Months of 31 days, offset zero.\<close>

definition plain_localtime :: "int \<Rightarrow> tm" where
  "plain_localtime t = \<lparr>tm_sec = t mod 60, tm_min = t div 60 mod 60, tm_hour = t div 3600 mod 24,
     tm_mday = t div 86400 mod 31 + 1, tm_mon = t div 86400 div 31 mod 12, tm_year = t div 86400 div 372,
     tm_wday = t div 86400 mod 7, tm_isdst = 0\<rparr>"

definition plain_mktime :: "tm \<Rightarrow> int \<times> tm" where
  "plain_mktime m =
     (let t = ((tm_year m * 12 + tm_mon m) * 31 + (tm_mday m - 1)) * 86400 + tm_hour m * 3600 + tm_min m * 60 + tm_sec m
      in (t, plain_localtime t))"

definition plain_zone :: tz_lib where
  "plain_zone = \<lparr>localtime_r = plain_localtime, mktime = plain_mktime\<rparr>"

lemma plain_day: "(k * 60) div 86400 = local_day 0 (k :: int)"
  using zdiv_zmult2_eq [of 1440 "k * 60" 60] by (simp add: local_day_def)

lemma plain_sec: "(k * 60) mod 60 = (0 :: int)"
  by simp

lemma plain_fixed_zone: "fixed_zone plain_zone 0"
proof -
  have h: "(k * 60) div 3600 = k div (60 :: int)" for k using zdiv_zmult2_eq [of 60 "k * 60" 60] by simp
  have d: "(x div 31 div 12 * 12 + x div 31 mod 12) * 31 + x mod 31 = (x :: int)" for x by simp
  have y: "x div 372 = x div 31 div (12 :: int)" for x using zdiv_zmult2_eq [of 12 x 31] by simp
  have m: "plain_mktime ((plain_localtime (k * 60))\<lparr>tm_mday := tm_mday (plain_localtime (k * 60)) + dd, tm_hour := hh, tm_min := mm, tm_isdst := -1\<rparr>)
      = ((((local_day 0 k + dd) * 1440 + hh * 60 + mm) * 60), plain_localtime (((local_day 0 k + dd) * 1440 + hh * 60 + mm) * 60))" for k dd hh mm
  proof -
    have e: "(((local_day 0 k div 372) * 12 + local_day 0 k div 31 mod 12) * 31 + (local_day 0 k mod 31 + 1 + dd - 1)) * 86400 + hh * 3600 + mm * 60
      = ((local_day 0 k + dd) * 1440 + hh * 60 + mm) * 60"
      unfolding y using d [of "local_day 0 k"] by (simp add: algebra_simps)
    show ?thesis unfolding plain_mktime_def Let_def plain_localtime_def [of "k * 60"]
      by (simp only: tm.simps plain_day e [symmetric]) (simp add: plain_sec)
  qed
  have clk: "tm_sec (plain_localtime (k * 60)) = 0 \<and> tm_min (plain_localtime (k * 60)) = local_min 0 k \<and>
      tm_hour (plain_localtime (k * 60)) = local_hour 0 k" for k
    by (simp add: plain_localtime_def h local_hour_def local_min_def)
  have day: "tm_mon (plain_localtime (k * 60)) = tm_mon (plain_localtime (j * 60)) \<and>
        tm_mday (plain_localtime (k * 60)) = tm_mday (plain_localtime (j * 60)) \<and>
        tm_wday (plain_localtime (k * 60)) = tm_wday (plain_localtime (j * 60))" if "local_day 0 k = local_day 0 j" for k j
    using that by (simp add: plain_localtime_def plain_day)
  show ?thesis
    unfolding fixed_zone_def plain_zone_def tz_lib.select_convs Let_def diff_zero using clk day m by blast
qed

definition demo_entry :: cron_parsed where
  "demo_entry = \<lparr>field = [''30'', ''4'', ''*'', ''*'', ''*''], flags = 0, cmd = ''backup''\<rparr>"

lemma demo_entry_matches: "matchesAt plain_zone demo_entry 1710"
  by (simp add: matchesAt_def plain_zone_def plain_localtime_def dayMatches_def demo_entry_def cronMatchField_def matchPart_def
      matchBase_def safeStrncpy_def atoi_def c_isspace_def digits_val_def c_isdigit_def digit_val_def INT32_MAX_def)

theorem cronNextRun_earliest_witness:
  "1000 \<le> uint (cronNextRun plain_zone demo_entry 1000) \<and> uint (cronNextRun plain_zone demo_entry 1000) \<le> 1710 \<and>
   matchesAt plain_zone demo_entry (uint (cronNextRun plain_zone demo_entry 1000))"
proof -
  have u: "uint (1000 :: u32) = 1000" by simp
  have "uint (1000 :: u32) + 577440 < 2 ^ 32 - 1" by simp
  note e = cronNextRun_earliest [OF plain_fixed_zone this, of demo_entry, unfolded u]
  have ne: "cronNextRun plain_zone demo_entry 1000 \<noteq> UINT32_MAX"
  proof
    assume "cronNextRun plain_zone demo_entry 1000 = UINT32_MAX"
    with e have "\<forall>j \<in> {1000 .. 1000 + 576000}. \<not> matchesAt plain_zone demo_entry j" by (simp only: if_True refl)
    moreover have "1710 \<in> {1000 .. 1000 + 576000 :: int}" by simp
    ultimately show False using demo_entry_matches by blast
  qed
  with e have e': "1000 \<le> uint (cronNextRun plain_zone demo_entry 1000)" "matchesAt plain_zone demo_entry (uint (cronNextRun plain_zone demo_entry 1000))"
    "\<forall>j \<in> {1000 ..< uint (cronNextRun plain_zone demo_entry 1000)}. \<not> matchesAt plain_zone demo_entry j"
    by (auto simp only: if_False)
  have "\<not> 1710 < uint (cronNextRun plain_zone demo_entry 1000)" using e'(3) demo_entry_matches by auto
  with e' show ?thesis by simp
qed

end
