(* ===== verification/Cron_Sched.thy ===== *)
theory Cron_Sched
  imports Cron_Next
begin

unbundle bit_operations_syntax

section \<open>Entries, polls and the command stream\<close>

text \<open>
  The tokenizer's contract, the stored next minute as the earliest next run of the table, what a
  poll sends and a day of polls, the lock, and the drain of the command stream.
\<close>

subsection \<open>The tokenizer\<close>

definition word :: "string \<Rightarrow> bool" where
  "word w \<longleftrightarrow> w \<noteq> [] \<and> (\<forall>c \<in> set w. \<not> blank c)"

definition gap :: "string \<Rightarrow> bool" where
  "gap g \<longleftrightarrow> g \<noteq> [] \<and> (\<forall>c \<in> set g. blank c)"

text \<open>Five fields, each followed by a gap.\<close>

fun show_fields :: "(string \<times> string) list \<Rightarrow> string" where
  "show_fields [] = []"
| "show_fields ((w, g) # ws) = w @ g @ show_fields ws"

lemma dropWhile_blank_word: "word w \<Longrightarrow> dropWhile blank (w @ r) = w @ r"
  by (cases w) (auto simp: word_def)

lemma dropWhile_gap: "gap g \<Longrightarrow> dropWhile blank (g @ r) = dropWhile blank r"
  unfolding gap_def by (simp add: dropWhile_append2)

lemma word_gap:
  assumes "word w" "gap g"
  shows "takeWhile (\<lambda>c. \<not> blank c) (w @ g @ r) = w" "dropWhile (\<lambda>c. \<not> blank c) (w @ g @ r) = g @ r"
proof -
  obtain c g' where g: "g = c # g'" "blank c" using assms(2) by (cases g) (auto simp: gap_def)
  have w: "\<And>x. x \<in> set w \<Longrightarrow> \<not> blank x" using assms(1) by (simp add: word_def)
  show "takeWhile (\<lambda>c. \<not> blank c) (w @ g @ r) = w" using w g by (subst takeWhile_append2) auto
  show "dropWhile (\<lambda>c. \<not> blank c) (w @ g @ r) = g @ r" using w g by (subst dropWhile_append2) auto
qed

lemma parseFields_show:
  assumes "\<forall>(w, g) \<in> set ws. word w \<and> length w < 32 \<and> gap g" "\<forall>c \<in> set lead. blank c"
  shows "\<exists>lead'. (\<forall>c \<in> set lead'. blank c) \<and> parseFields (length ws) (lead @ show_fields ws @ rest) = Some (map fst ws, lead' @ rest)"
  using assms
proof (induction ws arbitrary: lead)
  case Nil
  then show ?case by auto
next
  case (Cons x ws)
  obtain w g where x: "x = (w, g)" by (cases x)
  have wg: "word w" "length w < 32" "gap g" using Cons.prems x by auto
  have d: "dropWhile blank (lead @ w @ g @ show_fields ws @ rest) = w @ g @ show_fields ws @ rest"
    using Cons.prems(2) wg(1) by (subst dropWhile_append2) (auto simp: dropWhile_blank_word)
  have "w \<noteq> []" using wg(1) by (simp add: word_def)
  moreover obtain lead' where "\<forall>c \<in> set lead'. blank c" "parseFields (length ws) (g @ show_fields ws @ rest) = Some (map fst ws, lead' @ rest)"
    using Cons.IH [of g] Cons.prems(1) wg(3) by (auto simp: gap_def)
  ultimately show ?case
    using wg(2) word_gap [OF wg(1,3), of "show_fields ws @ rest"] by (simp add: x d Let_def)
qed

lemma flagLoop_stop: "flagLoop f (w @ CHR '' '' # r) = flagLoop f w"
  by (induction f w rule: flagLoop.induct) auto

lemma parseFlags_stop:
  assumes "word w"
  shows "parseFlags (w @ CHR '' '' # r) = parseFlags w"
proof -
  obtain c v where w: "w = c # v" "c \<noteq> CHR '' ''" using assms by (cases w) (auto simp: word_def)
  show ?thesis
  proof (cases v)
    case Nil
    then show ?thesis using w flagLoop_stop [of 0 w r] by (simp add: parseFlags_def)
  next
    case (Cons d u)
    then have "d \<noteq> CHR '' ''" using assms w by (auto simp: word_def)
    then show ?thesis using w Cons flagLoop_stop [of 0 w r] by (auto simp: parseFlags_def)
  qed
qed

text \<open>The letters of a flag word.\<close>

definition wantsNetwork :: "string \<Rightarrow> bool" where
  "wantsNetwork w \<longleftrightarrow> CHR ''N'' \<in> set w \<or> CHR ''n'' \<in> set w"

definition wantsAwake :: "string \<Rightarrow> bool" where
  "wantsAwake w \<longleftrightarrow> CHR ''A'' \<in> set w \<or> CHR ''a'' \<in> set w \<or> wantsNetwork w"

lemma flagLoop_bits:
  "\<forall>c \<in> set w. c \<noteq> CHR '' '' \<Longrightarrow>
   flagLoop f w = f OR (if wantsAwake w then CRON_FLAG_AWAKE else 0) OR (if wantsNetwork w then CRON_FLAG_NETWORK else 0)"
proof (induction f w rule: flagLoop.induct)
  case (2 f c s)
  have o: "x OR (y OR z) = x OR y OR z" "x OR 0 = x" "x OR x = x" for x y z :: u32
    by (simp_all add: or.assoc)
  show ?case
    using 2 by (auto simp: wantsAwake_def wantsNetwork_def or.assoc or.commute or.left_commute)
qed (simp add: wantsAwake_def wantsNetwork_def)

lemma parseFlags_bits:
  assumes "word w"
  shows "parseFlags w = (if wantsAwake w then CRON_FLAG_AWAKE else 0) OR (if wantsNetwork w then CRON_FLAG_NETWORK else 0)"
proof (cases "w = ''-''")
  case True
  then show ?thesis by (simp add: parseFlags_def wantsAwake_def wantsNetwork_def)
next
  case False
  have n: "\<forall>c \<in> set w. c \<noteq> CHR '' ''" using assms by (auto simp: word_def)
  then have "take 2 w \<noteq> ''- ''" by (metis in_set_takeD list.set_intros(1,2))
  then show ?thesis using False flagLoop_bits [OF n, of 0] by (simp add: parseFlags_def)
qed

text \<open>
  The tokenizer reads back what a crontab line says: five fields separated by any blanks, a
  flag word followed by a space, and the command. \<open>A\<close> asks for an awake device, \<open>N\<close> for the
  network and for an awake device, in either case; a lone dash asks for nothing.
\<close>

theorem cronParse_line:
  assumes "length ws = 5" "\<forall>(w, g) \<in> set ws. word w \<and> length w < 32 \<and> gap g" "word fl" "\<forall>c \<in> set sp. blank c"
    and "cm \<noteq> []" "\<not> blank (hd cm)"
  shows "cronParse (show_fields ws @ fl @ CHR '' '' # sp @ cm) =
    Some \<lparr>field = map fst ws,
          flags = (if wantsAwake fl then CRON_FLAG_AWAKE else 0) OR (if wantsNetwork fl then CRON_FLAG_NETWORK else 0),
          cmd = cm\<rparr>"
proof -
  let ?rest = "fl @ CHR '' '' # sp @ cm"
  obtain lead where lead: "\<forall>c \<in> set lead. blank c" "parseFields 5 (show_fields ws @ ?rest) = Some (map fst ws, lead @ ?rest)"
    using parseFields_show [OF assms(2), of "[]" ?rest] assms(1) by auto
  have g: "gap (CHR '' '' # sp)" using assms(4) by (simp add: gap_def)
  have d1: "dropWhile blank (lead @ ?rest) = ?rest"
    using lead(1) dropWhile_blank_word [OF assms(3), of "CHR '' '' # sp @ cm"] by (subst dropWhile_append2) auto
  have d2: "dropWhile (\<lambda>c. \<not> blank c) ?rest = (CHR '' '' # sp) @ cm"
    using word_gap(2) [OF assms(3) g, of cm] by simp
  have d3: "dropWhile blank ((CHR '' '' # sp) @ cm) = cm"
    using dropWhile_gap [OF g, of cm] assms(5,6) by (cases cm) auto
  have "fl \<noteq> []" using assms(3) by (simp add: word_def)
  then show ?thesis
    using assms(5) parseFlags_stop [OF assms(3), of "sp @ cm"] parseFlags_bits [OF assms(3)]
    unfolding cronParse_def lead(2) option.case prod.case Let_def d1 d2 d3 by simp
qed

theorem cronParse_line_witness:
  "cronParse ''*/5 0 * * 1-5 N sync now'' =
     Some \<lparr>field = [''*/5'', ''0'', ''*'', ''*'', ''1-5''], flags = CRON_FLAG_AWAKE OR CRON_FLAG_NETWORK, cmd = ''sync now''\<rparr>"
proof -
  have "cronParse (show_fields [(''*/5'', '' ''), (''0'', '' ''), (''*'', '' ''), (''*'', '' ''), (''1-5'', '' '')] @ ''N'' @ CHR '' '' # [] @ ''sync now'') =
    Some \<lparr>field = map fst [(''*/5'', '' ''), (''0'', '' ''), (''*'', '' ''), (''*'', '' ''), (''1-5'', '' '')],
      flags = (if wantsAwake ''N'' then CRON_FLAG_AWAKE else 0) OR (if wantsNetwork ''N'' then CRON_FLAG_NETWORK else 0), cmd = ''sync now''\<rparr>"
    by (rule cronParse_line) (simp_all add: word_def gap_def)
  then show ?thesis by (simp add: wantsAwake_def wantsNetwork_def)
qed

text \<open>
  A tab after the flag field changes what the flags are: \<open>parseFlags\<close> stops at a space only,
  so on a line with tabs it reads on into the command, and a job whose flag field is the lone
  dash can come out restricted to an awake device with the network up.
\<close>

theorem cronParse_tab_reads_command:
  "cronParse (''* * * * *'' @ [CHR 0x09] @ ''-'' @ [CHR 0x09] @ ''announce'') =
     Some \<lparr>field = [''*'', ''*'', ''*'', ''*'', ''*''], flags = CRON_FLAG_AWAKE OR CRON_FLAG_NETWORK, cmd = ''announce''\<rparr>"
  by (simp add: cronParse_def parseFlags_def numeral_eq_Suc Let_def CRON_FLAG_AWAKE_def CRON_FLAG_NETWORK_def)

subsection \<open>The stored minute\<close>

text \<open>The entries of a table that tokenize, in order.\<close>

definition parsedTab :: "(string \<times> string) list \<Rightarrow> cron_parsed list" where
  "parsedTab tab = List.map_filter (\<lambda>kv. cronParse (snd kv)) tab"

lemma parsedTab_simps [simp]:
  "parsedTab [] = []"
  "parsedTab ((n, l) # tab) = (case cronParse l of None \<Rightarrow> parsedTab tab | Some p \<Rightarrow> p # parsedTab tab)"
  by (simp_all add: parsedTab_def map_filter_simps split: option.split)

lemma snd_cronCollectCb [simp]: "snd (cronCollectCb kv) = snd kv"
  by (simp add: cronCollectCb_def)

lemma parsedTab_collect [simp]: "parsedTab (map cronCollectCb tab) = parsedTab tab"
  by (simp add: parsedTab_def map_filter_def comp_def filter_map)

lemma computeLoop_less:
  "x < fst (computeLoop tz k tab n w) \<longleftrightarrow> x < n \<and> (\<forall>p \<in> set (parsedTab tab). x < cronNextRun tz p k)"
  "x < snd (computeLoop tz k tab n w) \<longleftrightarrow> x < w \<and>
     (\<forall>p \<in> set (parsedTab tab). flags p AND CRON_FLAG_AWAKE = 0 \<longrightarrow> x < cronNextRun tz p k)"
  by (induction tz k tab n w rule: computeLoop.induct) (auto simp: Let_def split: option.split)

text \<open>The stored next minute is up to date with a table and the last serviced minute.\<close>

definition armed :: "tz_lib \<Rightarrow> (string \<times> string) list \<Rightarrow> cron_state \<Rightarrow> bool" where
  "armed tz tab s \<longleftrightarrow>
     cronNextMinute s = fst (computeLoop tz (cronLastMinute s + 1) (map cronCollectCb tab) UINT32_MAX UINT32_MAX)"

lemma cronComputeNext_sel [simp]:
  "cronLastMinute (cronComputeNextLocked tz k s) = cronLastMinute s"
  "mutexReady (cronComputeNextLocked tz k s) = mutexReady s"
  "streamReady (cronComputeNextLocked tz k s) = streamReady s"
  "isDeepSleepWake (cronComputeNextLocked tz k s) = isDeepSleepWake s"
  "released (cronComputeNextLocked tz k s) = released s" "lockDepth (cronComputeNextLocked tz k s) = lockDepth s"
  "s_entries (cronComputeNextLocked tz k s) = s_entries s"
  "cronNextMinute (cronComputeNextLocked tz k s) = fst (computeLoop tz k (s_entries s) UINT32_MAX UINT32_MAX)"
  "cronWakeMinute (cronComputeNextLocked tz k s) = snd (computeLoop tz k (s_entries s) UINT32_MAX UINT32_MAX)"
  by (simp_all add: cronComputeNextLocked_def split: prod.split)

lemma cronCollect_sel [simp]:
  "cronLastMinute (cronCollect env s) = cronLastMinute s" "mutexReady (cronCollect env s) = mutexReady s"
  "streamReady (cronCollect env s) = streamReady s" "isDeepSleepWake (cronCollect env s) = isDeepSleepWake s"
  "released (cronCollect env s) = released s" "lockDepth (cronCollect env s) = lockDepth s"
  "s_entries (cronCollect env s) = map cronCollectCb (env_tab env)"
  by (simp_all add: cronCollect_def)

lemma cronUpdateLock_sel [simp]:
  "cronLastMinute (cronUpdateLock env s) = cronLastMinute s" "mutexReady (cronUpdateLock env s) = mutexReady s"
  "streamReady (cronUpdateLock env s) = streamReady s" "isDeepSleepWake (cronUpdateLock env s) = isDeepSleepWake s"
  "s_entries (cronUpdateLock env s) = s_entries s"
  by (simp_all add: cronUpdateLock_def Let_def)

lemma reschedule_armed: "mutexReady s \<Longrightarrow> armed tz (env_tab env) (cronReschedule tz env s)"
  by (simp add: cronReschedule_def armed_def Let_def)

lemma poll_armed: "armed tz (env_tab env) s \<Longrightarrow> armed tz (env_tab env) (snd (cronPoll tz env s))"
  by (simp add: cronPoll_def armed_def Let_def)

subsection \<open>What a poll sends\<close>

definition sends :: "bool \<Rightarrow> cron_parsed \<Rightarrow> string list" where
  "sends due p = (if due then [cmd p, [CHR 0x0A]] else [])"

lemma pollLoop_eq:
  "streamReady s \<Longrightarrow> pollLoop tz s now net tab = concat (map (\<lambda>p. sends (entryDue tz s now net p) p) (parsedTab tab))"
  by (induction tz s now net tab rule: pollLoop.induct) (auto simp: sends_def split: option.split)

text \<open>The command line empties the stream in time: every send finds room for its text.\<close>

definition stream_takes :: "cron_env \<Rightarrow> bool" where
  "stream_takes env \<longleftrightarrow> (\<forall>k. 1 \<le> env_room env k \<and> (\<forall>p \<in> set (parsedTab (env_tab env)). length (cmd p) \<le> env_room env k))"

lemma streamSends_all: "\<forall>x \<in> set xs. \<forall>k. length x \<le> room k \<Longrightarrow> streamSends room xs = xs"
  by (induction xs arbitrary: room) simp_all

lemma sends_taken:
  assumes "stream_takes env"
  shows "streamSends (env_room env) (concat (map (\<lambda>p. sends (due p) p) (parsedTab (env_tab env)))) =
    concat (map (\<lambda>p. sends (due p) p) (parsedTab (env_tab env)))"
  by (rule streamSends_all) (use assms in \<open>auto simp: stream_takes_def sends_def\<close>)

definition net_up :: "cron_env \<Rightarrow> bool" where
  "net_up env \<longleftrightarrow> safeStrncpy 16 (env_sta env) = ''connected''"

text \<open>The compare with the stored minute never hides a due entry.\<close>

lemma cronPoll_full:
  assumes "mutexReady s" "cronEnabled env" "streamReady s" "armed tz (env_tab env) s"
    and "cronAnchorSane s (minute_of (env_time env))" "stream_takes env"
  shows "fst (cronPoll tz env s) =
    concat (map (\<lambda>p. sends (entryDue tz s (minute_of (env_time env)) (net_up env) p) p) (parsedTab (env_tab env)))"
proof -
  let ?now = "minute_of (env_time env)"
  have due: "entryDue tz (cronCollect env s) = entryDue tz s" by (intro ext) (simp add: entryDue_def)
  show ?thesis
  proof (cases "?now < cronNextMinute s")
    case True
    then have "\<forall>p \<in> set (parsedTab (env_tab env)). ?now < cronNextRun tz p (cronLastMinute s + 1)"
      using assms(4) by (simp add: armed_def computeLoop_less)
    then have "map (\<lambda>p. sends (entryDue tz s ?now (net_up env) p) p) (parsedTab (env_tab env)) = map (\<lambda>p. []) (parsedTab (env_tab env))"
      by (intro map_cong) (auto simp: entryDue_def sends_def)
    then show ?thesis using True assms by (simp add: cronPoll_def)
  next
    case False
    then show ?thesis using assms sends_taken [OF assms(6)] by (simp add: cronPoll_def Let_def pollLoop_eq due net_up_def)
  qed
qed

text \<open>Which entries those are, by the clock: some minute since the last serviced one matches.\<close>

definition firesIn :: "tz_lib \<Rightarrow> cron_state \<Rightarrow> bool \<Rightarrow> int \<Rightarrow> int \<Rightarrow> cron_parsed \<Rightarrow> bool" where
  "firesIn tz s net a b p \<longleftrightarrow> (\<exists>j. a < j \<and> j \<le> b \<and> matchesAt tz p j) \<and>
     \<not> (flags p AND CRON_FLAG_AWAKE \<noteq> 0 \<and> isDeepSleepWake s) \<and> \<not> (flags p AND CRON_FLAG_NETWORK \<noteq> 0 \<and> \<not> net)"

lemma nextRun_window:
  assumes z: "fixed_zone tz off" and lim: "uint L + 578880 < 2 ^ 32 - 1" and now: "uint now \<le> uint L + 1440"
  shows "now < cronNextRun tz p (L + 1) \<longleftrightarrow> \<not> (\<exists>j. uint L < j \<and> j \<le> uint now \<and> matchesAt tz p j)"
proof -
  let ?n = "cronNextRun tz p (L + 1)"
  have u: "uint (L + 1) = uint L + 1" using lim by (simp add: uint_word_ariths)
  have l: "uint (L + 1) + 577440 < 2 ^ 32 - 1" using lim u by simp
  note N = cronNextRun_spec [OF z l, of p, unfolded u]
  have mx: "uint UINT32_MAX = 2 ^ 32 - 1" by (simp add: UINT32_MAX_def)
  show ?thesis
  proof (cases "?n = UINT32_MAX")
    case True
    then have "?n > now" using now lim mx by (simp add: word_less_def)
    moreover have "\<not> matchesAt tz p j" if "uint L < j" "j \<le> uint now" for j
      using N(2) [OF True, of j] that now by simp
    ultimately show ?thesis by blast
  next
    case False
    note n = N(1) [OF False]
    show ?thesis
    proof
      assume "now < ?n"
      then have "uint now < uint ?n" by (simp add: word_less_def)
      with n show "\<not> (\<exists>j. uint L < j \<and> j \<le> uint now \<and> matchesAt tz p j)" by (auto simp: add1_zle_eq)
    next
      assume "\<not> (\<exists>j. uint L < j \<and> j \<le> uint now \<and> matchesAt tz p j)"
      then have "\<not> uint ?n \<le> uint now" using n by (auto simp: add1_zle_eq)
      then show "now < ?n" by (simp add: word_less_def)
    qed
  qed
qed

lemma entryDue_iff:
  assumes "fixed_zone tz off" "uint (cronLastMinute s) + 578880 < 2 ^ 32 - 1" "uint now \<le> uint (cronLastMinute s) + 1440"
  shows "entryDue tz s now net p \<longleftrightarrow> firesIn tz s net (uint (cronLastMinute s)) (uint now) p"
  unfolding entryDue_def nextRun_window [OF assms] firesIn_def by blast

subsection \<open>A day of polls\<close>

fun pollTimes :: "tz_lib \<Rightarrow> cron_env \<Rightarrow> cron_state \<Rightarrow> int list \<Rightarrow> string list list" where
  "pollTimes tz env s [] = []"
| "pollTimes tz env s (k # ks) =
     (let r = cronPoll tz (env\<lparr>env_time := k * 60\<rparr>) s in fst r # pollTimes tz env (snd r) ks)"

fun windows :: "int \<Rightarrow> int list \<Rightarrow> (int \<times> int) list" where
  "windows a [] = []"
| "windows a (k # ks) = (a, k) # windows k ks"

definition firedIn :: "tz_lib \<Rightarrow> cron_env \<Rightarrow> cron_state \<Rightarrow> int \<times> int \<Rightarrow> string list" where
  "firedIn tz env s w = concat (map (\<lambda>p. sends (firesIn tz s (net_up env) (fst w) (snd w) p) p) (parsedTab (env_tab env)))"

text \<open>Ready to poll, with nothing left to service up to minute \<open>a\<close>.\<close>

definition caught_up :: "tz_lib \<Rightarrow> cron_env \<Rightarrow> int \<Rightarrow> cron_state \<Rightarrow> bool" where
  "caught_up tz env a s \<longleftrightarrow> mutexReady s \<and> streamReady s \<and> armed tz (env_tab env) s \<and> cronLastMinute s \<noteq> 0 \<and>
     uint (cronLastMinute s) \<le> a \<and>
     (\<forall>p \<in> set (parsedTab (env_tab env)). \<not> (\<exists>j. uint (cronLastMinute s) < j \<and> j \<le> a \<and> matchesAt tz p j))"

lemma anchor_sane:
  assumes "cronLastMinute s \<noteq> 0" "uint (cronLastMinute s) \<le> k" "k \<le> uint (cronLastMinute s) + 1440" "k < 2 ^ 32"
  shows "cronAnchorSane s (minute_of (k * 60))"
proof -
  have "0 \<le> k" by (rule order_trans [OF uint_ge_0 assms(2)])
  then have u: "uint (minute_of (k * 60)) = k" using assms(4) by (rule uint_minute_of)
  then have le: "cronLastMinute s \<le> minute_of (k * 60)" using assms(2) by (simp add: word_le_def)
  have "uint (minute_of (k * 60) - cronLastMinute s) = k - uint (cronLastMinute s)" using u assms(2) by (simp add: uint_sub_if')
  then show ?thesis using assms le by (simp add: cronAnchorSane_def word_le_def)
qed

lemma poll_window:
  assumes z: "fixed_zone tz off" and c: "caught_up tz env a s" and en: "cronEnabled env" "stream_takes env"
    and k: "a \<le> k" "k \<le> uint (cronLastMinute s) + 1440" and lim: "uint (cronLastMinute s) + 578880 < 2 ^ 32 - 1"
    and env': "env' = env\<lparr>env_time := k * 60\<rparr>"
  shows "fst (cronPoll tz env' s) = firedIn tz env s (a, k)" "caught_up tz env k (snd (cronPoll tz env' s))"
    "uint (cronLastMinute s) \<le> uint (cronLastMinute (snd (cronPoll tz env' s)))"
    "uint (cronLastMinute (snd (cronPoll tz env' s))) \<le> k"
    "isDeepSleepWake (snd (cronPoll tz env' s)) = isDeepSleepWake s"
proof -
  let ?L = "cronLastMinute s" and ?now = "minute_of (k * 60)" and ?s = "snd (cronPoll tz env' s)"
  note c' = c [unfolded caught_up_def]
  have k32: "k < 2 ^ 32" using k lim by simp
  have L0: "0 < uint ?L" using c' by (simp add: order_less_le uint_0_iff)
  then have k0: "0 < k" using c' k by linarith
  then have u: "uint ?now = k" using k32 by (intro uint_minute_of) auto
  have tab: "env_tab env' = env_tab env" "env_time env' = k * 60" "cronEnabled env' = cronEnabled env" "net_up env' = net_up env"
    "stream_takes env' = stream_takes env"
    by (simp_all add: env' cronEnabled_def net_up_def stream_takes_def)
  have sane: "cronAnchorSane s ?now" using c' k k32 by (intro anchor_sane) auto
  have now: "uint ?now \<le> uint ?L + 1440" using u k by simp
  have window: "(\<exists>j. uint ?L < j \<and> j \<le> k \<and> matchesAt tz p j) \<longleftrightarrow> (\<exists>j. a < j \<and> j \<le> k \<and> matchesAt tz p j)"
    if "p \<in> set (parsedTab (env_tab env))" for p
    using that c' by (meson leI le_less_trans)
  have "fst (cronPoll tz env' s) = concat (map (\<lambda>p. sends (entryDue tz s ?now (net_up env) p) p) (parsedTab (env_tab env)))"
    using cronPoll_full [of s env' tz] c' en sane by (simp add: tab)
  also have "\<dots> = firedIn tz env s (a, k)"
    unfolding firedIn_def using window
    by (intro arg_cong [where f = concat] map_cong refl) (simp add: entryDue_iff [OF z lim now] firesIn_def u)
  finally show "fst (cronPoll tz env' s) = firedIn tz env s (a, k)" .
  have ar: "armed tz (env_tab env) ?s" using poll_armed [of tz env' s] c' by (simp add: tab)
  have state: "(?now < cronNextMinute s \<and> ?s = s) \<or> (cronLastMinute ?s = ?now \<and> mutexReady ?s \<and> streamReady ?s \<and> isDeepSleepWake ?s = isDeepSleepWake s)"
    using c' en sane by (auto simp: cronPoll_def tab Let_def)
  have early: "\<not> (\<exists>j. uint ?L < j \<and> j \<le> k \<and> matchesAt tz p j)"
    if "?now < cronNextMinute s" "p \<in> set (parsedTab (env_tab env))" for p
  proof -
    have "?now < cronNextRun tz p (?L + 1)" using that c' by (simp add: armed_def computeLoop_less)
    then show ?thesis using nextRun_window [OF z lim now, of p] u by simp
  qed
  have nz: "?now \<noteq> 0" using u k0 by auto
  show "caught_up tz env k ?s" using state ar c' early nz u k by (auto simp: caught_up_def)
  show "uint ?L \<le> uint (cronLastMinute ?s)" "uint (cronLastMinute ?s) \<le> k" "isDeepSleepWake ?s = isDeepSleepWake s"
    using state c' u k by auto
qed

lemma pollTimes_windows:
  assumes z: "fixed_zone tz off" and en: "cronEnabled env" "stream_takes env"
  shows "caught_up tz env a s \<Longrightarrow> L \<le> uint (cronLastMinute s) \<Longrightarrow> sorted (a # ks) \<Longrightarrow> \<forall>k \<in> set ks. k \<le> L + 1440 \<Longrightarrow>
    L + 580320 < 2 ^ 32 - 1 \<Longrightarrow> a \<le> L + 1440 \<Longrightarrow> pollTimes tz env s ks = map (firedIn tz env s) (windows a ks)"
proof (induction ks arbitrary: a s)
  case (Cons k ks)
  let ?r = "cronPoll tz (env\<lparr>env_time := k * 60\<rparr>) s"
  have k: "a \<le> k" "k \<le> uint (cronLastMinute s) + 1440" using Cons.prems by auto
  have "uint (cronLastMinute s) \<le> a" using Cons.prems(1) by (simp add: caught_up_def)
  then have lim: "uint (cronLastMinute s) + 578880 < 2 ^ 32 - 1" using Cons.prems(5,6) by simp
  note w = poll_window [OF z Cons.prems(1) en k lim refl]
  have "firedIn tz env (snd ?r) = firedIn tz env s" using w(5) by (intro ext) (simp add: firedIn_def firesIn_def)
  moreover have "pollTimes tz env (snd ?r) ks = map (firedIn tz env (snd ?r)) (windows k ks)"
    using Cons.prems w by (intro Cons.IH) auto
  ultimately show ?case using w(1) by (simp add: Let_def)
qed simp

text \<open>
  C6. A day of polls misses nothing and repeats nothing, in a zone of fixed offset (no daylight
  saving): from a freshly scheduled state, polls at any non-decreasing minutes within the next 24
  hours send, each, exactly the commands of the entries one of whose matching minutes lies after
  the previous poll and up to this one, however late or irregular the polls are. An entry with the
  awake or network flag is left out after a wake from deep sleep or without the network, and the
  command line is taken to empty the stream in time for every send.
\<close>

theorem polls_fire_exactly_once:
  assumes "fixed_zone tz off" "cronEnabled env" "stream_takes env" "mutexReady s" "streamReady s" "cronLastMinute s \<noteq> 0"
    and "armed tz (env_tab env) s" "uint (cronLastMinute s) + 580320 < 2 ^ 32 - 1"
    and "sorted (uint (cronLastMinute s) # ks)" "\<forall>k \<in> set ks. k \<le> uint (cronLastMinute s) + 1440"
  shows "pollTimes tz env s ks = map (firedIn tz env s) (windows (uint (cronLastMinute s)) ks)"
  by (rule pollTimes_windows [OF assms(1-3) _ order_refl assms(9,10,8)]) (use assms in \<open>auto simp: caught_up_def\<close>)

definition demo_env :: "int \<Rightarrow> cron_env" where
  "demo_env k = \<lparr>env_time = k * 60, env_enable = 1, env_tab = [(''s.cron.tab.b'', ''30 4 * * * - backup'')], env_sta = [], env_room = (\<lambda>_. 256)\<rparr>"

definition demo_cron :: cron_state where
  "demo_cron = \<lparr>cronLastMinute = 0, cronNextMinute = 0, cronWakeMinute = 0, mutexReady = True, streamReady = True, released = False,
     lockDepth = 1, isDeepSleepWake = False, s_entries = []\<rparr>"

definition demo_scheduled :: cron_state where
  "demo_scheduled = cronReschedule plain_zone (demo_env 1000) demo_cron"

lemma demo_scheduled_sel:
  "cronLastMinute demo_scheduled = 1000" "mutexReady demo_scheduled" "streamReady demo_scheduled"
  "armed plain_zone (env_tab (demo_env 1000)) demo_scheduled"
proof -
  have m: "minute_of (env_time (demo_env 1000)) = 1000"
    using minute_of_mult [of 1000] by (simp add: demo_env_def)
  show "cronLastMinute demo_scheduled = 1000"
    unfolding demo_scheduled_def cronReschedule_def Let_def m by (simp add: demo_cron_def cronAnchorSane_def)
  show "mutexReady demo_scheduled" "streamReady demo_scheduled"
    unfolding demo_scheduled_def cronReschedule_def Let_def m by (simp_all add: demo_cron_def)
  show "armed plain_zone (env_tab (demo_env 1000)) demo_scheduled"
    unfolding demo_scheduled_def by (rule reschedule_armed) (simp add: demo_cron_def)
qed

lemma demo_entry_parsed: "parsedTab (env_tab (demo_env k)) = [demo_entry]"
  by (simp add: demo_env_def demo_entry_def cronParse_def parseFlags_def numeral_eq_Suc Let_def)

theorem polls_fire_exactly_once_witness:
  "pollTimes plain_zone (demo_env 1000) demo_scheduled [1709, 1712, 1713] = map (firedIn plain_zone (demo_env 1000) demo_scheduled) [(1000, 1709), (1709, 1712), (1712, 1713)] \<and>
   firedIn plain_zone (demo_env 1000) demo_scheduled (1709, 1712) = [''backup'', [CHR 0x0A]]"
proof
  have "cronEnabled (demo_env 1000)" "stream_takes (demo_env 1000)"
    by (simp_all add: demo_env_def cronEnabled_def stream_takes_def cronParse_def parseFlags_def numeral_eq_Suc Let_def)
  from polls_fire_exactly_once [OF plain_fixed_zone this demo_scheduled_sel(2,3) _ demo_scheduled_sel(4), of "[1709, 1712, 1713]"]
  show "pollTimes plain_zone (demo_env 1000) demo_scheduled [1709, 1712, 1713] = map (firedIn plain_zone (demo_env 1000) demo_scheduled) [(1000, 1709), (1709, 1712), (1712, 1713)]"
    by (simp add: demo_scheduled_sel(1))
  have "firesIn plain_zone demo_scheduled n 1709 1712 demo_entry" for n
    unfolding firesIn_def using demo_entry_matches by (auto simp: demo_entry_def intro!: exI [of _ 1710])
  then show "firedIn plain_zone (demo_env 1000) demo_scheduled (1709, 1712) = [''backup'', [CHR 0x0A]]"
    by (simp add: firedIn_def demo_entry_parsed sends_def) (simp add: demo_entry_def)
qed

text \<open>
  The poll that finds the anchor just over a day old drops what is due: with nothing due for
  1440 minutes the last serviced minute is not moved, and the poll of minute 1441 re-anchors there
  and schedules from the minute after, so an entry due exactly then is not run, by this poll or
  by a later one.
\<close>

theorem stale_anchor_drops_due_entry:
  assumes "mutexReady s" "cronEnabled env" "minute_of (env_time env) = cronLastMinute s + 1441"
    and "uint (cronLastMinute s) + 1441 < 2 ^ 32"
  shows "fst (cronPoll tz env s) = [] \<and> cronLastMinute (snd (cronPoll tz env s)) = cronLastMinute s + 1441 \<and>
    armed tz (env_tab env) (snd (cronPoll tz env s))"
proof -
  have "uint (cronLastMinute s + 1441) = uint (cronLastMinute s) + 1441" using assms(4) by (simp add: uint_word_ariths)
  then have "\<not> cronAnchorSane s (cronLastMinute s + 1441)" by (simp add: cronAnchorSane_def word_le_def)
  then show ?thesis using assms by (simp add: cronPoll_def Let_def armed_def)
qed

theorem stale_anchor_drops_due_entry_witness:
  "matchesAt plain_zone demo_entry 1710 \<and>
   (let s = cronReschedule plain_zone (demo_env 269) demo_cron in
     fst (cronPoll plain_zone (demo_env 1710) s) = [] \<and> cronLastMinute (snd (cronPoll plain_zone (demo_env 1710) s)) = 1710)"
proof -
  let ?s = "cronReschedule plain_zone (demo_env 269) demo_cron"
  have m: "minute_of (env_time (demo_env 269)) = 269" "minute_of (env_time (demo_env 1710)) = 1710"
    using minute_of_mult [of 269] minute_of_mult [of 1710] by (simp_all add: demo_env_def)
  have l: "cronLastMinute ?s = 269" "mutexReady ?s"
    unfolding cronReschedule_def Let_def m by (simp_all add: demo_cron_def cronAnchorSane_def)
  have "cronEnabled (demo_env 1710)" by (simp add: demo_env_def cronEnabled_def)
  from stale_anchor_drops_due_entry [OF l(2) this, of plain_zone] demo_entry_matches show ?thesis
    by (simp add: l m Let_def)
qed

subsection \<open>The command stream\<close>

lemma drainLoop_line:
  "CHR 0x0A \<notin> set c \<Longrightarrow> length buf \<le> 127 \<Longrightarrow>
   drainLoop buf (c @ CHR 0x0A # s) = (let l = take 127 (buf @ c) in if l = [] then drainLoop [] s else l # drainLoop [] s)"
proof (induction c arbitrary: buf)
  case (Cons x c)
  show ?case
  proof (cases "length buf < 127")
    case True
    then show ?thesis using Cons.IH [of "buf @ [x]"] Cons.prems by (auto simp del: take_append)
  next
    case False
    then have "length buf = 127" using Cons.prems by simp
    then show ?thesis using Cons.IH [of buf] Cons.prems by auto
  qed
qed (auto simp: Let_def)

lemma drainLoop_lines:
  "\<forall>c \<in> set cs. CHR 0x0A \<notin> set c \<Longrightarrow>
   drainLoop [] (concat (map (\<lambda>c. c @ [CHR 0x0A]) cs)) = filter (\<lambda>l. l \<noteq> []) (map (take 127) cs)"
  by (induction cs) (auto simp: drainLoop_line Let_def)

text \<open>
  What a poll sends is what the command interpreter runs: drained at once, the stream of a
  poll gives the commands of the due entries in table order, each cut to 127 characters, provided
  the commands have no line break and the stream has room for them.
\<close>

theorem drain_of_poll:
  assumes "mutexReady s" "cronEnabled env" "streamReady s" "armed tz (env_tab env) s"
    and "cronAnchorSane s (minute_of (env_time env))" "stream_takes env" "\<forall>p \<in> set (parsedTab (env_tab env)). cmd p \<noteq> [] \<and> CHR 0x0A \<notin> set (cmd p)"
  shows "cronDrainCommands True (concat (fst (cronPoll tz env s))) =
    map (\<lambda>p. take 127 (cmd p)) (filter (entryDue tz s (minute_of (env_time env)) (net_up env)) (parsedTab (env_tab env)))"
proof -
  let ?due = "entryDue tz s (minute_of (env_time env)) (net_up env)" and ?ps = "parsedTab (env_tab env)"
  have c: "concat (concat (map (\<lambda>p. sends (?due p) p) ps)) = concat (map (\<lambda>c. c @ [CHR 0x0A]) (map cmd (filter ?due ps)))" for ps
    by (induction ps) (auto simp: sends_def)
  have "\<forall>c \<in> set (map cmd (filter ?due ?ps)). CHR 0x0A \<notin> set c" using assms(7) by auto
  from drainLoop_lines [OF this]
  have "drainLoop [] (concat (fst (cronPoll tz env s))) = filter (\<lambda>l. l \<noteq> []) (map (take 127) (map cmd (filter ?due ?ps)))"
    unfolding cronPoll_full [OF assms(1-6)] c .
  also have "\<dots> = map (\<lambda>p. take 127 (cmd p)) (filter ?due ?ps)"
    using assms(7) by (subst filter_True) (auto simp: comp_def)
  finally show ?thesis by (simp add: cronDrainCommands_def)
qed

theorem drain_of_poll_witness:
  "cronDrainCommands True (concat (fst (cronPoll plain_zone (demo_env 1710) demo_scheduled))) = [''backup'']"
proof -
  have m: "minute_of (env_time (demo_env 1710)) = 1710" using minute_of_mult [of 1710] by (simp add: demo_env_def)
  have en: "cronEnabled (demo_env 1710)" by (simp add: demo_env_def cronEnabled_def)
  have ar: "armed plain_zone (env_tab (demo_env 1710)) demo_scheduled" using demo_scheduled_sel(4) by (simp add: demo_env_def)
  have sane: "cronAnchorSane demo_scheduled 1710" by (simp add: cronAnchorSane_def demo_scheduled_sel)
  have due: "entryDue plain_zone demo_scheduled 1710 n demo_entry" for n
  proof -
    have "firesIn plain_zone demo_scheduled n 1000 1710 demo_entry"
      unfolding firesIn_def using demo_entry_matches by (auto simp: demo_entry_def intro!: exI [of _ 1710])
    then show ?thesis
      using entryDue_iff [OF plain_fixed_zone, of demo_scheduled 1710 n demo_entry] by (simp add: demo_scheduled_sel)
  qed
  have "cmd demo_entry = ''backup''" by (simp add: demo_entry_def)
  moreover have "stream_takes (demo_env 1710)" unfolding stream_takes_def demo_entry_parsed by (simp add: demo_env_def demo_entry_def)
  ultimately show ?thesis
    using drain_of_poll [OF demo_scheduled_sel(2) en demo_scheduled_sel(3) ar, unfolded m, OF sane] due by (simp add: demo_entry_parsed)
qed

text \<open>
  A drain that runs between the two sends of a poll loses the command: the line buffer belongs
  to the call, so the command's characters are taken and dropped, and the line break that follows
  finds nothing to run.
\<close>

theorem drain_between_sends_loses_command:
  assumes "CHR 0x0A \<notin> set c" "c \<noteq> []" "length c \<le> 127"
  shows "cronDrainCommands True c @ cronDrainCommands True [CHR 0x0A] = [] \<and>
    cronDrainCommands True (c @ [CHR 0x0A]) = [c]"
proof -
  have "CHR 0x0A \<notin> set xs \<Longrightarrow> drainLoop buf xs = []" for buf xs by (induction buf xs rule: drainLoop.induct) auto
  with assms drainLoop_line [of c "[]" "[]"] show ?thesis by (simp add: cronDrainCommands_def Let_def)
qed

theorem drain_between_sends_loses_command_witness:
  "cronDrainCommands True ''backup'' @ cronDrainCommands True [CHR 0x0A] = []"
  using drain_between_sends_loses_command [of "''backup''"] by simp

subsection \<open>The lock\<close>

inductive cron_reach :: "tz_lib \<Rightarrow> cron_state \<Rightarrow> bool" for tz where
  boot: "cron_reach tz s" if "s = snd (snd (cronInit False v s0))" "lockDepth s0 = 0" "\<not> released s0" "cronNextMinute s0 \<le> cronWakeMinute s0"
| start: "cron_reach tz (cronTaskStart tz env s)" if "cron_reach tz s"
| change: "cron_reach tz (cronReschedule tz env s)" if "cron_reach tz s"
| poll: "cron_reach tz (snd (cronPoll tz env s))" if "cron_reach tz s"
| wake: "cron_reach tz (snd (cronWakeupHandler t v s))" if "cron_reach tz s"

definition cron_inv :: "cron_state \<Rightarrow> bool" where
  "cron_inv s \<longleftrightarrow> lockDepth s = (if released s then 0 else 1) \<and> cronNextMinute s \<le> cronWakeMinute s"

lemma compute_le: "fst (computeLoop tz k tab UINT32_MAX UINT32_MAX) \<le> snd (computeLoop tz k tab UINT32_MAX UINT32_MAX)"
  using computeLoop_less(1) [of "snd (computeLoop tz k tab UINT32_MAX UINT32_MAX)" tz k tab UINT32_MAX UINT32_MAX]
    computeLoop_less(2) [of "snd (computeLoop tz k tab UINT32_MAX UINT32_MAX)" tz k tab UINT32_MAX UINT32_MAX]
  by (auto simp: not_less [symmetric])

lemma reschedule_inv: "cron_inv s \<Longrightarrow> cron_inv (cronReschedule tz env s)"
  by (auto simp: cron_inv_def cronReschedule_def cronUpdateLock_def Let_def compute_le)

lemma poll_inv: "cron_inv s \<Longrightarrow> cron_inv (snd (cronPoll tz env s))"
  by (auto simp: cron_inv_def cronPoll_def Let_def compute_le)

text \<open>
  The deep-sleep lock is held once or not at all in every reachable state, exactly when the
  scheduler has not released it, and the stored wake minute is never before the next minute;
  after a reschedule the lock is released exactly when cron is enabled and has an entry.
\<close>

theorem cron_lock_balanced:
  assumes "cron_reach tz s"
  shows "lockDepth s = (if released s then 0 else 1) \<and> cronNextMinute s \<le> cronWakeMinute s \<and>
    (mutexReady s \<longrightarrow> (released (cronReschedule tz env s) \<longleftrightarrow> cronEnabled env \<and> env_tab env \<noteq> []))"
proof -
  have "cron_inv s" using assms
  proof (induction rule: cron_reach.induct)
    case (boot s v s0)
    then show ?case by (simp add: cron_inv_def cronInit_def)
  next
    case (start s env)
    then have "cron_inv (s\<lparr>streamReady := True\<rparr>)" by (simp add: cron_inv_def)
    then show ?case unfolding cronTaskStart_def by (rule reschedule_inv)
  next
    case (wake s t v)
    then show ?case by (simp add: cron_inv_def cronWakeupHandler_def)
  qed (auto intro: reschedule_inv poll_inv)
  then show ?thesis by (auto simp: cron_inv_def cronReschedule_def cronUpdateLock_def Let_def)
qed

theorem cron_lock_balanced_witness:
  "cron_reach plain_zone (cronTaskStart plain_zone (demo_env 1000) (snd (snd (cronInit False 0 (demo_cron\<lparr>mutexReady := False, lockDepth := 0\<rparr>))))) \<and>
   lockDepth (cronTaskStart plain_zone (demo_env 1000) (snd (snd (cronInit False 0 (demo_cron\<lparr>mutexReady := False, lockDepth := 0\<rparr>))))) = 0"
proof -
  let ?s0 = "demo_cron\<lparr>mutexReady := False, lockDepth := 0\<rparr>"
  let ?s = "cronTaskStart plain_zone (demo_env 1000) (snd (snd (cronInit False 0 ?s0)))"
  have r: "cron_reach plain_zone ?s"
    by (intro cron_reach.start cron_reach.boot [OF refl]) (simp_all add: demo_cron_def)
  have "released ?s"
    by (simp add: cronTaskStart_def cronReschedule_def cronInit_def demo_cron_def cronUpdateLock_def demo_env_def cronEnabled_def Let_def)
  with cron_lock_balanced [OF r] r show ?thesis by simp
qed

end
