(* ===== verification/Sdb_Schema.thy ===== *)
theory Sdb_Schema
  imports C_String
begin

unbundle bit_operations_syntax

section \<open>Record schemas and their descriptors (storage_db)\<close>

text \<open>
  The schema of a record store as the builders make it, the field descriptor a file carries,
  the comparison of two layouts, the table of retired layouts, and the hex transcoding of
  binary fields. Strings are lists of bytes; a C string is such a list without its NUL. The
  \<open>uint16_t\<close> members of a field and of a schema are naturals with the wrap-around at 65536
  written out where the code computes them; the enumeration has a fixed underlying byte, so a
  descriptor can hold a value outside it, which is \<open>SDB_OTHER\<close>.
\<close>

datatype sdb_kind = SDB_U8 | SDB_U32 | SDB_FIXSTR | SDB_TEXT | SDB_DATA | SDB_OTHER byte

definition kind_of :: "byte \<Rightarrow> sdb_kind" where
  "kind_of b = (if b = 1 then SDB_U8 else if b = 2 then SDB_U32 else if b = 3 then SDB_FIXSTR
     else if b = 4 then SDB_TEXT else if b = 5 then SDB_DATA else SDB_OTHER b)"

fun kind_byte :: "sdb_kind \<Rightarrow> byte" where
  "kind_byte SDB_U8 = 1"
| "kind_byte SDB_U32 = 2"
| "kind_byte SDB_FIXSTR = 3"
| "kind_byte SDB_TEXT = 4"
| "kind_byte SDB_DATA = 5"
| "kind_byte (SDB_OTHER b) = b"

record sdb_field =
  f_name :: bytes
  f_kind :: sdb_kind
  f_off :: nat
  f_width :: nat

definition SDB_REC_LEN_OFF :: nat where "SDB_REC_LEN_OFF = 0"
definition SDB_FLAGS_OFF :: nat where "SDB_FLAGS_OFF = 4"
definition SDB_FLAG_DELETED :: byte where "SDB_FLAG_DELETED = 1"
definition SDB_HDR_BUILTIN :: nat where "SDB_HDR_BUILTIN = 8"

record sdb_schema =
  schema_id :: u16
  schema_ver :: u16
  hdr_size :: nat
  sfields :: "sdb_field list"

definition sdb_schema0 :: sdb_schema where
  "sdb_schema0 = \<lparr>schema_id = 0, schema_ver = 0, hdr_size = SDB_HDR_BUILTIN, sfields = []\<rparr>"

subsection \<open>Builders\<close>

definition push_field :: "sdb_schema \<Rightarrow> bytes \<Rightarrow> sdb_kind \<Rightarrow> nat \<Rightarrow> nat \<Rightarrow> sdb_schema" where
  "push_field sc name k ofs w =
     sc\<lparr>sfields := sfields sc @ [\<lparr>f_name = name, f_kind = k, f_off = ofs, f_width = w\<rparr>]\<rparr>"

definition textCount :: "sdb_schema \<Rightarrow> nat" where
  "textCount sc = length (filter (\<lambda>f. f_kind f = SDB_TEXT) (sfields sc)) mod 65536"

definition sdb_u8 :: "bytes \<Rightarrow> sdb_schema \<Rightarrow> sdb_schema" where
  "sdb_u8 name sc =
     (push_field sc name SDB_U8 (hdr_size sc) 0)\<lparr>hdr_size := (hdr_size sc + 1) mod 65536\<rparr>"

definition sdb_u32 :: "bytes \<Rightarrow> sdb_schema \<Rightarrow> sdb_schema" where
  "sdb_u32 name sc =
     (let hs = (if hdr_size sc mod 4 \<noteq> 0 then ((hdr_size sc + 3) div 4 * 4) mod 65536 else hdr_size sc)
      in (push_field sc name SDB_U32 hs 0)\<lparr>hdr_size := (hs + 4) mod 65536\<rparr>)"

definition sdb_fixstr :: "bytes \<Rightarrow> nat \<Rightarrow> sdb_schema \<Rightarrow> sdb_schema" where
  "sdb_fixstr name width sc =
     (push_field sc name SDB_FIXSTR (hdr_size sc) width)\<lparr>hdr_size := (hdr_size sc + width) mod 65536\<rparr>"

definition sdb_data :: "bytes \<Rightarrow> nat \<Rightarrow> sdb_schema \<Rightarrow> sdb_schema" where
  "sdb_data name nbytes sc =
     (push_field sc name SDB_DATA (hdr_size sc) nbytes)\<lparr>hdr_size := (hdr_size sc + nbytes) mod 65536\<rparr>"

definition sdb_text :: "bytes \<Rightarrow> sdb_schema \<Rightarrow> sdb_schema" where
  "sdb_text name sc = push_field sc name SDB_TEXT (textCount sc) 0"

definition sdb_find :: "sdb_schema \<Rightarrow> bytes \<Rightarrow> sdb_field option" where
  "sdb_find sc name = List.find (\<lambda>f. f_name f = name) (sfields sc)"

subsection \<open>The descriptor\<close>

definition serializeField :: "sdb_field \<Rightarrow> bytes" where
  "serializeField f =
     (let nl = min 255 (length (f_name f))
      in kind_byte (f_kind f) # le16 (of_nat (f_off f)) @ le16 (of_nat (f_width f))
           @ of_nat nl # take nl (f_name f))"

definition serializeDescriptor :: "sdb_schema \<Rightarrow> bytes" where
  "serializeDescriptor sc = le16 (of_nat (length (sfields sc))) @ concat (map serializeField (sfields sc))"

fun parseFieldTable :: "nat \<Rightarrow> bytes \<Rightarrow> sdb_field list option" where
  "parseFieldTable 0 p = Some []"
| "parseFieldTable (Suc i) p =
     (if length p < 6 then None
      else let nl = unat (p ! 5)
           in if length p < 6 + nl then None
              else (case parseFieldTable i (drop (6 + nl) p) of
                      None \<Rightarrow> None
                    | Some fs \<Rightarrow>
                        Some (\<lparr>f_name = slice 6 nl p, f_kind = kind_of (p ! 0),
                               f_off = unat (of_le16 (slice 1 2 p)),
                               f_width = unat (of_le16 (slice 3 2 p))\<rparr> # fs)))"

definition parseDescriptor :: "bytes \<Rightarrow> u16 \<Rightarrow> u16 \<Rightarrow> nat \<Rightarrow> sdb_schema option" where
  "parseDescriptor p sid ver hdr =
     (if length p < 2 then None
      else (case parseFieldTable (unat (of_le16 p)) (drop 2 p) of
              None \<Rightarrow> None
            | Some fs \<Rightarrow> Some \<lparr>schema_id = sid, schema_ver = ver, hdr_size = hdr, sfields = fs\<rparr>))"

fun fieldsEqual :: "sdb_field list \<Rightarrow> sdb_field list \<Rightarrow> bool" where
  "fieldsEqual (x # xs) (y # ys) =
     (if f_kind x \<noteq> f_kind y \<or> f_off x \<noteq> f_off y \<or> f_width x \<noteq> f_width y \<or> f_name x \<noteq> f_name y
      then False else fieldsEqual xs ys)"
| "fieldsEqual _ _ = True"

definition schemaLayoutEqual :: "sdb_schema \<Rightarrow> sdb_schema \<Rightarrow> bool" where
  "schemaLayoutEqual a b =
     (if hdr_size a \<noteq> hdr_size b then False
      else if length (sfields a) \<noteq> length (sfields b) then False
      else fieldsEqual (sfields a) (sfields b))"

subsection \<open>Retired layouts\<close>

type_synonym sdb_legacy = "u16 \<times> nat \<times> sdb_schema"

fun sdbRegisterLegacyLayout :: "sdb_schema \<Rightarrow> sdb_legacy list \<Rightarrow> sdb_legacy list" where
  "sdbRegisterLegacyLayout sc [] = [(schema_id sc, hdr_size sc, sc)]"
| "sdbRegisterLegacyLayout sc ((i, h, l) # ls) =
     (if i = schema_id sc \<and> h = hdr_size sc then (i, h, sc) # ls
      else (i, h, l) # sdbRegisterLegacyLayout sc ls)"

fun sdbFindLegacy :: "sdb_legacy list \<Rightarrow> u16 \<Rightarrow> nat \<Rightarrow> sdb_schema option" where
  "sdbFindLegacy [] sid hdr = None"
| "sdbFindLegacy ((i, h, l) # ls) sid hdr = (if i = sid \<and> h = hdr then Some l else sdbFindLegacy ls sid hdr)"

subsection \<open>Hex\<close>

definition hexNib :: "byte \<Rightarrow> int" where
  "hexNib c = (if 48 \<le> c \<and> c \<le> 57 then uint c - 48
     else if 97 \<le> c \<and> c \<le> 102 then uint c - 97 + 10
     else if 65 \<le> c \<and> c \<le> 70 then uint c - 65 + 10 else - 1)"

definition hexDigits :: bytes where
  "hexDigits = bytes_of ''0123456789abcdef''"

definition hexEncodeBytes :: "bytes \<Rightarrow> bytes" where
  "hexEncodeBytes p = concat (map (\<lambda>b. [hexDigits ! unat (drop_bit 4 b), hexDigits ! unat (b AND 15)]) p)"

fun hexDecodeInto :: "bytes \<Rightarrow> nat \<Rightarrow> bytes" where
  "hexDecodeInto (a # b # s) maxOut =
     (if maxOut = 0 then []
      else let hi = hexNib a; lo = hexNib b
           in if hi < 0 \<or> lo < 0 then []
              else word_of_int (push_bit 4 hi OR lo) # hexDecodeInto s (maxOut - 1))"
| "hexDecodeInto _ maxOut = []"

definition isAllZero :: "bytes \<Rightarrow> bool" where
  "isAllZero p = list_all (\<lambda>b. b = 0) p"

subsection \<open>Well-formed layouts\<close>

text \<open>
  What the builders establish: names are distinct, a fixed field occupies bytes of the header
  past the built-in part, fixed fields lie one after the other, and text field number \<open>i\<close> has
  order index \<open>i\<close>.
\<close>

fun fixed_width :: "sdb_field \<Rightarrow> nat" where
  "fixed_width f = (case f_kind f of SDB_U8 \<Rightarrow> 1 | SDB_U32 \<Rightarrow> 4 | SDB_FIXSTR \<Rightarrow> f_width f
     | SDB_DATA \<Rightarrow> f_width f | _ \<Rightarrow> 0)"

declare fixed_width.simps [simp del]

definition is_fixed :: "sdb_field \<Rightarrow> bool" where
  "is_fixed f \<longleftrightarrow> f_kind f \<in> {SDB_U8, SDB_U32, SDB_FIXSTR, SDB_DATA}"

definition is_text :: "sdb_field \<Rightarrow> bool" where
  "is_text f \<longleftrightarrow> f_kind f = SDB_TEXT"

definition field_ok :: "nat \<Rightarrow> sdb_field \<Rightarrow> bool" where
  "field_ok hs f \<longleftrightarrow> (is_fixed f \<or> is_text f) \<and> f_off f < 65536 \<and> f_width f < 65536
     \<and> (is_fixed f \<longrightarrow> SDB_HDR_BUILTIN \<le> f_off f \<and> f_off f + fixed_width f \<le> hs)
     \<and> (f_kind f = SDB_FIXSTR \<longrightarrow> 0 < f_width f)"

definition schema_ok :: "sdb_schema \<Rightarrow> bool" where
  "schema_ok sc \<longleftrightarrow> SDB_HDR_BUILTIN \<le> hdr_size sc \<and> hdr_size sc < 65536
     \<and> length (sfields sc) < 65536
     \<and> distinct (map f_name (sfields sc))
     \<and> list_all (field_ok (hdr_size sc)) (sfields sc)
     \<and> sorted_wrt (\<lambda>f g. f_off f + fixed_width f \<le> f_off g) (filter is_fixed (sfields sc))
     \<and> map f_off (filter is_text (sfields sc)) = [0 ..< length (filter is_text (sfields sc))]"

lemma textCount_is_text: "length (sfields sc) < 65536 \<Longrightarrow> textCount sc = length (filter is_text (sfields sc))"
proof -
  assume n: "length (sfields sc) < 65536"
  have "length (filter is_text (sfields sc)) < 65536"
    using n length_filter_le [of is_text "sfields sc"] by linarith
  moreover have "filter (\<lambda>f. f_kind f = SDB_TEXT) (sfields sc) = filter is_text (sfields sc)"
    by (rule filter_cong) (auto simp: is_text_def)
  ultimately show ?thesis unfolding textCount_def by simp
qed

lemma field_ok_mono: "field_ok hs f \<Longrightarrow> hs \<le> hs' \<Longrightarrow> field_ok hs' f"
  by (auto simp: field_ok_def)

lemma is_fixed_not_text: "is_text f \<Longrightarrow> \<not> is_fixed f"
  by (simp add: is_text_def is_fixed_def)

lemma schema_ok_push_fixed:
  assumes ok: "schema_ok sc" and new: "name \<notin> f_name ` set (sfields sc)"
    and n: "length (sfields sc) < 65535"
    and f: "f = \<lparr>f_name = name, f_kind = k, f_off = ofs, f_width = w\<rparr>"
    and k: "is_fixed f" and ofs: "hdr_size sc \<le> ofs" and hs: "hs = ofs + fixed_width f" "hs < 65536"
    and w: "w < 65536" "k = SDB_FIXSTR \<Longrightarrow> 0 < w"
  shows "schema_ok ((push_field sc name k ofs w)\<lparr>hdr_size := hs\<rparr>)"
proof -
  have le: "hdr_size sc \<le> hs" using ofs hs by simp
  have nt: "\<not> is_text f" using k is_fixed_not_text by blast
  have fok: "field_ok hs f"
    using k ofs hs w ok f by (auto simp: field_ok_def schema_ok_def)
  have all: "list_all (field_ok hs) (sfields sc)"
    using ok le field_ok_mono by (auto simp: schema_ok_def list_all_iff)
  have srt: "sorted_wrt (\<lambda>f g. f_off f + fixed_width f \<le> f_off g) (filter is_fixed (sfields sc) @ [f])"
    using ok ofs f by (auto simp: schema_ok_def sorted_wrt_append list_all_iff field_ok_def)
  show ?thesis
    using ok le fok all srt nt k new n hs unfolding schema_ok_def push_field_def f [symmetric]
    by (auto simp: f)
qed

lemma schema_ok_u8:
  "schema_ok sc \<Longrightarrow> name \<notin> f_name ` set (sfields sc) \<Longrightarrow> length (sfields sc) < 65535
    \<Longrightarrow> hdr_size sc + 1 < 65536 \<Longrightarrow> schema_ok (sdb_u8 name sc)"
  unfolding sdb_u8_def
  by (rule schema_ok_push_fixed) (auto simp: is_fixed_def fixed_width.simps)

lemma schema_ok_u32:
  assumes "schema_ok sc" "name \<notin> f_name ` set (sfields sc)" "length (sfields sc) < 65535"
    "hdr_size sc + 7 < 65536"
  shows "schema_ok (sdb_u32 name sc)"
proof -
  define hs where "hs = (if hdr_size sc mod 4 \<noteq> 0 then ((hdr_size sc + 3) div 4 * 4) mod 65536 else hdr_size sc)"
  have "hdr_size sc \<le> hs \<and> hs \<le> hdr_size sc + 3"
    using assms(4) unfolding hs_def by auto
  with assms show ?thesis
    unfolding sdb_u32_def hs_def [symmetric] Let_def
    by (intro schema_ok_push_fixed) (auto simp: is_fixed_def fixed_width.simps)
qed

lemma schema_ok_fixstr:
  "schema_ok sc \<Longrightarrow> name \<notin> f_name ` set (sfields sc) \<Longrightarrow> length (sfields sc) < 65535
    \<Longrightarrow> hdr_size sc + width < 65536 \<Longrightarrow> 0 < width \<Longrightarrow> schema_ok (sdb_fixstr name width sc)"
  unfolding sdb_fixstr_def
  by (rule schema_ok_push_fixed) (auto simp: is_fixed_def fixed_width.simps)

lemma schema_ok_data:
  "schema_ok sc \<Longrightarrow> name \<notin> f_name ` set (sfields sc) \<Longrightarrow> length (sfields sc) < 65535
    \<Longrightarrow> hdr_size sc + nbytes < 65536 \<Longrightarrow> schema_ok (sdb_data name nbytes sc)"
  unfolding sdb_data_def
  by (rule schema_ok_push_fixed) (auto simp: is_fixed_def fixed_width.simps)

lemma schema_ok_text:
  assumes ok: "schema_ok sc" and new: "name \<notin> f_name ` set (sfields sc)"
    and n: "length (sfields sc) < 65535"
  shows "schema_ok (sdb_text name sc)"
proof -
  define f where "f = \<lparr>f_name = name, f_kind = SDB_TEXT, f_off = textCount sc, f_width = 0\<rparr>"
  have t: "is_text f" "\<not> is_fixed f" by (simp_all add: f_def is_text_def is_fixed_def)
  have tc: "textCount sc = length (filter is_text (sfields sc))" using n by (simp add: textCount_is_text)
  moreover have "length (filter is_text (sfields sc)) < 65536"
    using n length_filter_le [of is_text "sfields sc"] by linarith
  ultimately have "field_ok (hdr_size sc) f" using t by (simp add: field_ok_def f_def)
  then show ?thesis
    using ok new n t tc unfolding schema_ok_def sdb_text_def push_field_def f_def [symmetric]
    by (auto simp: f_def)
qed

lemma schema_ok_empty: "schema_ok sdb_schema0"
  by (simp add: schema_ok_def sdb_schema0_def SDB_HDR_BUILTIN_def)

lemmas schema_ok_builders =
  schema_ok_u8 schema_ok_u32 schema_ok_fixstr schema_ok_data schema_ok_text schema_ok_empty

subsection \<open>Facts of a well-formed layout\<close>

lemma sdb_find_Some: "sdb_find sc name = Some f \<Longrightarrow> f \<in> set (sfields sc) \<and> f_name f = name"
  by (auto simp: sdb_find_def find_Some_iff)

lemma sdb_find_in:
  "schema_ok sc \<Longrightarrow> f \<in> set (sfields sc) \<Longrightarrow> sdb_find sc (f_name f) = Some f"
proof -
  have "distinct (map f_name fs) \<Longrightarrow> f \<in> set fs \<Longrightarrow> List.find (\<lambda>g. f_name g = f_name f) fs = Some f" for fs
    by (induction fs) force+
  then show "schema_ok sc \<Longrightarrow> f \<in> set (sfields sc) \<Longrightarrow> sdb_find sc (f_name f) = Some f"
    by (simp add: schema_ok_def sdb_find_def)
qed

lemma schema_ok_field:
  "schema_ok sc \<Longrightarrow> f \<in> set (sfields sc) \<Longrightarrow> field_ok (hdr_size sc) f"
  by (simp add: schema_ok_def list_all_iff)

lemma fixed_disjoint:
  assumes "schema_ok sc" "f \<in> set (sfields sc)" "g \<in> set (sfields sc)" "is_fixed f" "is_fixed g" "f \<noteq> g"
  shows "f_off f + fixed_width f \<le> f_off g \<or> f_off g + fixed_width g \<le> f_off f"
proof -
  have "sorted_wrt P xs \<Longrightarrow> x \<in> set xs \<Longrightarrow> y \<in> set xs \<Longrightarrow> x \<noteq> y \<Longrightarrow> P x y \<or> P y x" for P xs and x y :: sdb_field
    by (induction xs) auto
  from this [of "\<lambda>f g. f_off f + fixed_width f \<le> f_off g" "filter is_fixed (sfields sc)" f g] assms
  show ?thesis by (simp add: schema_ok_def)
qed

lemma text_index:
  assumes "schema_ok sc" "f \<in> set (sfields sc)" "is_text f"
  shows "f_off f < textCount sc"
proof -
  have "f_off f \<in> set (map f_off (filter is_text (sfields sc)))" using assms by simp
  moreover have "map f_off (filter is_text (sfields sc)) = [0 ..< textCount sc]"
    using assms(1) by (simp add: schema_ok_def textCount_is_text)
  ultimately show ?thesis by simp
qed

lemma text_distinct:
  assumes "schema_ok sc" "f \<in> set (sfields sc)" "g \<in> set (sfields sc)" "is_text f" "is_text g" "f \<noteq> g"
  shows "f_off f \<noteq> f_off g"
proof -
  have "distinct (map f_off (filter is_text (sfields sc)))" using assms(1) by (simp add: schema_ok_def)
  then show ?thesis using assms by (auto simp: distinct_map inj_on_def)
qed

subsection \<open>Descriptor round trip\<close>

lemma kind_of_byte: "f_kind f \<in> {SDB_U8, SDB_U32, SDB_FIXSTR, SDB_TEXT, SDB_DATA} \<Longrightarrow> kind_of (kind_byte (f_kind f)) = f_kind f"
  by (auto simp: kind_of_def)

lemma unat_of_nat16: "n < 65536 \<Longrightarrow> unat (of_nat n :: u16) = n"
  by (simp add: unat_of_nat take_bit_nat_eq_self)

lemma unat_of_nat8: "n < 256 \<Longrightarrow> unat (of_nat n :: byte) = n"
  by (simp add: unat_of_nat take_bit_nat_eq_self)

lemma unat_of_nat32: "n < 4294967296 \<Longrightarrow> unat (of_nat n :: u32) = n"
  by (simp add: unat_of_nat take_bit_nat_eq_self)

definition name_ok :: "sdb_field \<Rightarrow> bool" where
  "name_ok f \<longleftrightarrow> length (f_name f) \<le> 255"

lemma serializeField_layout:
  assumes "length (f_name f) \<le> 255"
  shows "serializeField f @ rest = kind_byte (f_kind f) # le16 (of_nat (f_off f)) @ le16 (of_nat (f_width f))
           @ of_nat (length (f_name f)) # f_name f @ rest"
  using assms by (simp add: serializeField_def Let_def min_def)

lemma slice_Cons_Suc: "slice (Suc n) k (x # xs) = slice n k xs"
  by (simp add: slice_def)

lemma parse_serialized_field:
  assumes "field_ok hs f" "name_ok f" "p = serializeField f @ rest"
  shows "length p \<ge> 6 + length (f_name f)" "unat (p ! 5) = length (f_name f)"
    "slice 6 (length (f_name f)) p = f_name f" "kind_of (p ! 0) = f_kind f"
    "unat (of_le16 (slice 1 2 p)) = f_off f" "unat (of_le16 (slice 3 2 p)) = f_width f"
    "drop (6 + length (f_name f)) p = rest"
proof -
  have nm: "length (f_name f) \<le> 255" using assms(2) by (simp add: name_ok_def)
  define a b where "a = (of_nat (f_off f) :: u16)" and "b = (of_nat (f_width f) :: u16)"
  have p: "p = [kind_byte (f_kind f)] @ le16 a @ le16 b @ [of_nat (length (f_name f))] @ f_name f @ rest"
    using serializeField_layout [OF nm, of rest] assms(3) by (simp add: a_def b_def)
  have bnd: "f_off f < 65536" "f_width f < 65536" using assms(1) by (simp_all add: field_ok_def)
  show "length p \<ge> 6 + length (f_name f)" by (simp add: p)
  show "unat (p ! 5) = length (f_name f)"
    using nm by (simp add: p nth_append unat_of_nat8)
  show "slice 6 (length (f_name f)) p = f_name f" by (simp add: p slice_def)
  have "drop 6 p = f_name f @ rest" by (simp add: p)
  then show "drop (6 + length (f_name f)) p = rest" by (simp add: drop_drop [symmetric] add.commute)
  show "kind_of (p ! 0) = f_kind f"
    using assms(1) kind_of_byte [of f] by (auto simp: p field_ok_def is_fixed_def is_text_def)
  have "slice 1 2 p = le16 a" "slice 3 2 p = le16 b"
    by (simp_all add: p slice_def)
  then show "unat (of_le16 (slice 1 2 p)) = f_off f" "unat (of_le16 (slice 3 2 p)) = f_width f"
    using bnd by (simp_all add: a_def b_def unat_of_nat16)
qed

lemma parseFields_serialize:
  "list_all (field_ok hs) fs \<Longrightarrow> list_all name_ok fs
    \<Longrightarrow> parseFieldTable (length fs) (concat (map serializeField fs) @ rest) = Some fs"
proof (induction fs)
  case (Cons f fs)
  define p where "p = serializeField f @ (concat (map serializeField fs) @ rest)"
  note q = parse_serialized_field [of hs f p "concat (map serializeField fs) @ rest"]
  have f: "field_ok hs f" "name_ok f" using Cons.prems by auto
  note q' = q [OF f p_def]
  have "parseFieldTable (length fs) (concat (map serializeField fs) @ rest) = Some fs"
    using Cons by simp
  then have "parseFieldTable (length (f # fs)) p = Some (f # fs)"
    using q' by (simp add: Let_def not_less)
  then show ?case by (simp add: p_def)
qed simp

lemma parseDescriptor_serialize [roundtrip]:
  assumes "schema_ok sc" "list_all name_ok (sfields sc)"
  shows "parseDescriptor (serializeDescriptor sc) (schema_id sc) (schema_ver sc) (hdr_size sc) = Some sc"
proof -
  have n: "length (sfields sc) < 65536" and ok: "list_all (field_ok (hdr_size sc)) (sfields sc)"
    using assms(1) by (auto simp: schema_ok_def)
  have "parseFieldTable (length (sfields sc)) (concat (map serializeField (sfields sc)) @ []) = Some (sfields sc)"
    by (rule parseFields_serialize [OF ok assms(2)])
  then show ?thesis
    using n by (simp add: parseDescriptor_def serializeDescriptor_def unat_of_nat16)
qed

lemma fieldsEqual_eq: "length xs = length ys \<Longrightarrow> fieldsEqual xs ys \<longleftrightarrow> xs = ys"
proof (induction xs ys rule: fieldsEqual.induct)
  case (1 x xs y ys)
  then show ?case by (auto intro: sdb_field.equality)
qed auto

lemma schemaLayoutEqual_iff:
  "schemaLayoutEqual a b \<longleftrightarrow> hdr_size a = hdr_size b \<and> sfields a = sfields b"
  by (auto simp: schemaLayoutEqual_def fieldsEqual_eq)

subsection \<open>Legacy layouts\<close>

lemma find_registered_legacy:
  "sdbFindLegacy (sdbRegisterLegacyLayout sc ls) i h =
     (if i = schema_id sc \<and> h = hdr_size sc then Some sc else sdbFindLegacy ls i h)"
  by (induction ls) auto

subsection \<open>Hex round trip\<close>

lemma hexNib_digit:
  assumes "n < 16"
  shows "hexNib (hexDigits ! n) = int n"
proof -
  have "\<forall>n \<in> set [0..<16]. hexNib (hexDigits ! n) = int n"
    by (code_simp)
  with assms show ?thesis by simp
qed

lemma low_nibble: "b AND 15 = take_bit 4 (b::byte)"
  by (simp add: take_bit_eq_mask mask_eq_exp_minus_1)

lemma byte_nibbles: "(word_of_int (push_bit 4 (uint (drop_bit 4 b)) OR uint (b AND 15)) :: byte) = b"
proof (rule bit_word_eqI)
  fix n :: nat assume n: "n < LENGTH(8)"
  then show "bit (word_of_int (push_bit 4 (uint (drop_bit 4 b)) OR uint (b AND 15)) :: byte) n = bit b n"
    unfolding low_nibble by (cases "n < 4") (auto simp: bit_simps)
qed

lemma nibble_lt: "unat (drop_bit 4 (b::byte)) < 16" "unat (b AND 15) < 16"
proof -
  have "unat b < 2 ^ 8" using unsigned_less [of b] by simp
  then show "unat (drop_bit 4 b) < 16" by (simp add: drop_bit_eq_div unat_div_distrib less_mult_imp_div_less)
  show "unat (b AND 15) < 16" unfolding low_nibble by (simp add: take_bit_eq_mod unat_mod_distrib)
qed

lemma hexDecode_encode [roundtrip]: "hexDecodeInto (hexEncodeBytes p) (length p) = p"
proof (induction p)
  case (Cons b p)
  have "int (unat (drop_bit 4 b)) = uint (drop_bit 4 b)" "int (unat (b AND 15)) = uint (b AND 15)" by simp_all
  then show ?case
    using Cons nibble_lt [of b]
    by (simp add: hexEncodeBytes_def hexNib_digit Let_def byte_nibbles)
qed (simp add: hexEncodeBytes_def)

lemma length_hexEncodeBytes [len_simps]: "length (hexEncodeBytes p) = 2 * length p"
  by (induction p) (auto simp: hexEncodeBytes_def)

lemma length_hexDecodeInto: "length (hexDecodeInto s n) \<le> n"
proof (induction s n rule: hexDecodeInto.induct)
  case (1 a b s n)
  then show ?case by (cases n) (auto simp: Let_def)
qed auto

end
