(* ===== verification/Sdb_Store.thy ===== *)
theory Sdb_Store
  imports Sdb_Schema "HOL-Library.AList" "HOL-Library.Monad_Syntax"
begin

unbundle bit_operations_syntax

section \<open>The record arena (storage_db.cpp)\<close>

text \<open>
  The store and its operations on the resident block. \<open>s_block\<close> holds the bytes in use, so
  \<open>s->used\<close> is its length; bytes of the allocation beyond it are never read. A read or a write
  outside the block, and a walk that does not return, is \<open>None\<close>: an operation whose result is
  \<open>Some\<close> is memory safe and terminates. \<open>size_t\<close> has 32 bits: the sum of an offset and a record
  length read from the block wraps, as the code's does (\<open>sz_add\<close>). The answers of the heap are
  an argument; the lock under which every operation runs is the caller's, and log lines are
  left out. The key index, an \<open>unordered_map\<close>, is an association list with distinct keys whose
  order nothing depends on.
\<close>

record sdb_heap =
  h_realloc :: "nat \<Rightarrow> bool"
  h_alloc :: "nat \<Rightarrow> bool"

type_synonym sdb_index = "(bytes \<times> nat) list"

record sdb_store =
  s_schema :: sdb_schema
  s_path :: bytes
  cap_records :: nat
  s_block :: bytes
  s_cap :: nat
  s_loaded :: bool
  s_dirty :: bool
  grow_failed :: bool
  s_index :: sdb_index

abbreviation s_used :: "sdb_store \<Rightarrow> nat" where
  "s_used s \<equiv> length (s_block s)"

definition SDB_MAGIC :: bytes where "SDB_MAGIC = bytes_of ''SGDB''"
definition SDB_FORMAT_VER :: u16 where "SDB_FORMAT_VER = 2"
definition SDB_FILE_HDR :: nat where "SDB_FILE_HDR = 16"

subsection \<open>Access to a block\<close>

definition sz_add :: "nat \<Rightarrow> nat \<Rightarrow> nat" where
  "sz_add a b = (a + b) mod 4294967296"

definition rdBytes :: "bytes \<Rightarrow> nat \<Rightarrow> nat \<Rightarrow> bytes option" where
  "rdBytes b ofs n = (if ofs + n \<le> length b then Some (slice ofs n b) else None)"

definition rdU8 :: "bytes \<Rightarrow> nat \<Rightarrow> byte option" where
  "rdU8 b ofs = (if ofs < length b then Some (b ! ofs) else None)"

definition rdU16 :: "bytes \<Rightarrow> nat \<Rightarrow> nat option" where
  "rdU16 b ofs = map_option (\<lambda>v. unat (of_le16 v)) (rdBytes b ofs 2)"

definition rdU32 :: "bytes \<Rightarrow> nat \<Rightarrow> nat option" where
  "rdU32 b ofs = map_option (\<lambda>v. unat (of_le32 v)) (rdBytes b ofs 4)"

definition wrBytes :: "bytes \<Rightarrow> nat \<Rightarrow> bytes \<Rightarrow> bytes option" where
  "wrBytes b ofs v = (if ofs + length v \<le> length b then Some (overwrite b ofs v) else None)"

definition isDeleted :: "byte \<Rightarrow> bool" where
  "isDeleted flags \<longleftrightarrow> flags AND SDB_FLAG_DELETED \<noteq> 0"

text \<open>The guard every walk has: a record length the block cannot hold ends it.\<close>

definition badLen :: "nat \<Rightarrow> nat \<Rightarrow> nat \<Rightarrow> nat \<Rightarrow> bool" where
  "badLen hs n off rlen \<longleftrightarrow> rlen < hs \<or> sz_add off rlen > n"

subsection \<open>Header and growth\<close>

definition fileHeader :: "sdb_schema \<Rightarrow> nat \<Rightarrow> bytes" where
  "fileHeader sc recCount = SDB_MAGIC @ le16 SDB_FORMAT_VER @ le16 (schema_id sc) @ le16 (schema_ver sc)
     @ le16 (of_nat (hdr_size sc)) @ le32 (of_nat recCount)"

definition writeFileHeader :: "sdb_store \<Rightarrow> nat \<Rightarrow> sdb_store" where
  "writeFileHeader s recCount =
     s\<lparr>s_block := fileHeader (s_schema s) recCount @ drop SDB_FILE_HDR (s_block s)\<rparr>"

function growCap :: "nat \<Rightarrow> nat \<Rightarrow> nat" where
  "growCap ncap need = (if 0 < ncap \<and> ncap < need then growCap (2 * ncap) need else ncap)"
  by pat_completeness auto
termination by (relation "measure (\<lambda>(ncap, need). need - ncap)") auto

declare growCap.simps [simp del]

definition pageRound :: "nat \<Rightarrow> nat" where
  "pageRound n = (n + 4095) div 4096 * 4096"

definition ensureCap :: "sdb_heap \<Rightarrow> sdb_store \<Rightarrow> nat \<Rightarrow> bool \<times> sdb_store" where
  "ensureCap h s need =
     (if need \<le> s_cap s then (True, s\<lparr>grow_failed := False\<rparr>)
      else let ncap = growCap (if s_cap s \<noteq> 0 then s_cap s else 256) need
           in if h_realloc h ncap then (True, s\<lparr>s_cap := ncap, grow_failed := False\<rparr>)
              else if h_realloc h (pageRound need)
              then (True, s\<lparr>s_cap := pageRound need, grow_failed := False\<rparr>)
              else (False, s\<lparr>grow_failed := True\<rparr>))"

subsection \<open>The index\<close>

partial_function (option) rebuildLoop :: "nat \<Rightarrow> bytes \<Rightarrow> nat \<Rightarrow> sdb_index \<Rightarrow> (bool \<times> sdb_index) option" where
  "rebuildLoop hs b off idx =
     (if \<not> off < length b then Some (True, idx)
      else if off + hs > length b then Some (False, idx)
      else do {
        rlen \<leftarrow> rdU32 b (off + SDB_REC_LEN_OFF);
        if badLen hs (length b) off rlen then Some (False, idx)
        else do {
          flags \<leftarrow> rdU8 b (off + SDB_FLAGS_OFF);
          if isDeleted flags then rebuildLoop hs b (sz_add off rlen) idx
          else do {
            klen \<leftarrow> rdU16 b (off + hs);
            if hs + 2 + klen > rlen then Some (False, idx)
            else do {
              key \<leftarrow> rdBytes b (off + hs + 2) klen;
              rebuildLoop hs b (sz_add off rlen) (AList.update key off idx)
            }
          }
        }
      })"

definition rebuildIndex :: "sdb_store \<Rightarrow> (bool \<times> sdb_store) option" where
  "rebuildIndex s =
     do { (ok, idx) \<leftarrow> rebuildLoop (hdr_size (s_schema s)) (s_block s) SDB_FILE_HDR [];
          Some (ok, s\<lparr>s_index := idx\<rparr>) }"

definition findRec :: "sdb_store \<Rightarrow> bytes \<Rightarrow> nat option" where
  "findRec s key = map_of (s_index s) key"

subsection \<open>Records\<close>

fun readTexts :: "nat \<Rightarrow> bytes \<Rightarrow> nat \<Rightarrow> bytes list option" where
  "readTexts 0 b p = Some []"
| "readTexts (Suc i) b p =
     do { l \<leftarrow> rdU16 b p;
          t \<leftarrow> rdBytes b (p + 2) l;
          ts \<leftarrow> readTexts i b (p + 2 + l);
          Some (t # ts) }"

definition readRecordText :: "sdb_schema \<Rightarrow> bytes \<Rightarrow> nat \<Rightarrow> (bytes \<times> bytes list) option" where
  "readRecordText sc b off =
     do { klen \<leftarrow> rdU16 b (off + hdr_size sc);
          key \<leftarrow> rdBytes b (off + hdr_size sc + 2) klen;
          texts \<leftarrow> readTexts (textCount sc) b (off + hdr_size sc + 2 + klen);
          Some (key, texts) }"

definition prefixed :: "bytes \<Rightarrow> bytes" where
  "prefixed t = le16 (of_nat (length t)) @ t"

definition buildRecord :: "bytes \<Rightarrow> bytes \<Rightarrow> bytes list \<Rightarrow> bytes" where
  "buildRecord hdrCopy key texts =
     (let r = hdrCopy @ prefixed key @ concat (map prefixed texts)
      in (overwrite r SDB_REC_LEN_OFF (le32 (of_nat (length r))))[SDB_FLAGS_OFF := hdrCopy ! SDB_FLAGS_OFF])"

subsection \<open>Compaction\<close>

definition SDB_COMPACT_SCRATCH :: nat where "SDB_COMPACT_SCRATCH = 8192"

definition sdbReindexRec :: "nat \<Rightarrow> bytes \<Rightarrow> nat \<Rightarrow> nat \<Rightarrow> sdb_index \<Rightarrow> sdb_index option" where
  "sdbReindexRec hs b rec newOff idx =
     do { klen \<leftarrow> rdU16 b (rec + hs);
          key \<leftarrow> rdBytes b (rec + hs + 2) klen;
          Some (AList.update key newOff idx) }"

text \<open>\<open>memcpy(block + w, sdbScratch, sc)\<close>, which moves the write cursor and empties the scratch.\<close>

definition flushScratch :: "bytes \<Rightarrow> nat \<Rightarrow> bytes \<Rightarrow> (bytes \<times> nat) option" where
  "flushScratch b w sc = do { b' \<leftarrow> wrBytes b w sc; Some (b', w + length sc) }"

partial_function (option) compactLoop ::
    "nat \<Rightarrow> bytes \<Rightarrow> nat \<Rightarrow> nat \<Rightarrow> bytes \<Rightarrow> nat \<Rightarrow> sdb_index \<Rightarrow> (bytes \<times> nat \<times> bytes \<times> nat \<times> sdb_index) option" where
  "compactLoop hs b w off sc kept idx =
     (if \<not> off < length b then Some (b, w, sc, kept, idx)
      else do {
        rlen \<leftarrow> rdU32 b (off + SDB_REC_LEN_OFF);
        if badLen hs (length b) off rlen then Some (b, w, sc, kept, idx)
        else do {
          flags \<leftarrow> rdU8 b (off + SDB_FLAGS_OFF);
          if isDeleted flags then compactLoop hs b w (sz_add off rlen) sc kept idx
          else if rlen > SDB_COMPACT_SCRATCH then do {
            (b1, w1) \<leftarrow> flushScratch b w sc;
            idx1 \<leftarrow> sdbReindexRec hs b1 off w1 idx;
            img \<leftarrow> rdBytes b1 off rlen;
            b2 \<leftarrow> wrBytes b1 w1 img;
            compactLoop hs b2 (w1 + rlen) (sz_add off rlen) [] (kept + 1) idx1
          }
          else do {
            (b1, w1, sc1) \<leftarrow> (if length sc + rlen > SDB_COMPACT_SCRATCH
                               then do { (b', w') \<leftarrow> flushScratch b w sc; Some (b', w', []) }
                               else Some (b, w, sc));
            idx1 \<leftarrow> sdbReindexRec hs b1 off (w1 + length sc1) idx;
            img \<leftarrow> rdBytes b1 off rlen;
            compactLoop hs b1 w1 (sz_add off rlen) (sc1 @ img) (kept + 1) idx1
          }
        }
      })"

definition sdbCompactInPlace :: "sdb_store \<Rightarrow> sdb_store option" where
  "sdbCompactInPlace s =
     do { (b, w, sc, kept, idx) \<leftarrow>
            compactLoop (hdr_size (s_schema s)) (s_block s) SDB_FILE_HDR SDB_FILE_HDR [] 0 (s_index s);
          (b1, w1) \<leftarrow> flushScratch b w sc;
          Some (writeFileHeader (s\<lparr>s_block := take w1 b1, s_index := idx\<rparr>) kept) }"

partial_function (option) liveLoop :: "nat \<Rightarrow> bytes \<Rightarrow> nat \<Rightarrow> nat \<Rightarrow> nat option" where
  "liveLoop hs b off live =
     (if \<not> off < length b then Some live
      else do {
        rlen \<leftarrow> rdU32 b (off + SDB_REC_LEN_OFF);
        if badLen hs (length b) off rlen then Some live
        else do {
          flags \<leftarrow> rdU8 b (off + SDB_FLAGS_OFF);
          liveLoop hs b (sz_add off rlen) (if isDeleted flags then live else live + rlen)
        }
      })"

text \<open>Moving the live records to a fresh allocation of \<open>newcap\<close> bytes; \<open>nb\<close> is its written part.\<close>

partial_function (option) relocateLoop ::
    "nat \<Rightarrow> nat \<Rightarrow> bytes \<Rightarrow> nat \<Rightarrow> bytes \<Rightarrow> nat \<Rightarrow> sdb_index \<Rightarrow> (bytes \<times> nat \<times> sdb_index) option" where
  "relocateLoop hs newcap b off nb kept idx =
     (if \<not> off < length b then Some (nb, kept, idx)
      else do {
        rlen \<leftarrow> rdU32 b (off + SDB_REC_LEN_OFF);
        if badLen hs (length b) off rlen then Some (nb, kept, idx)
        else do {
          flags \<leftarrow> rdU8 b (off + SDB_FLAGS_OFF);
          if isDeleted flags then relocateLoop hs newcap b (sz_add off rlen) nb kept idx
          else do {
            img \<leftarrow> rdBytes b off rlen;
            nb1 \<leftarrow> (if length nb + rlen \<le> newcap then Some (nb @ img) else None);
            idx1 \<leftarrow> sdbReindexRec hs nb1 (length nb) (length nb) idx;
            relocateLoop hs newcap b (sz_add off rlen) nb1 (kept + 1) idx1
          }
        }
      })"

definition reclaimInPlace :: "sdb_store \<Rightarrow> nat \<Rightarrow> (bool \<times> sdb_store) option" where
  "reclaimInPlace s recSize =
     do { s1 \<leftarrow> sdbCompactInPlace s;
          if s_used s1 + recSize \<le> s_cap s1 then Some (True, s1\<lparr>grow_failed := False\<rparr>)
          else Some (False, s1) }"

definition reclaimForAppend :: "sdb_heap \<Rightarrow> sdb_store \<Rightarrow> nat \<Rightarrow> (bool \<times> sdb_store) option" where
  "reclaimForAppend h s recSize =
     do { liveBytes \<leftarrow> liveLoop (hdr_size (s_schema s)) (s_block s) SDB_FILE_HDR SDB_FILE_HDR;
          if liveBytes * 10 \<ge> s_cap s * 9
          then (let newcap = pageRound (max (liveBytes + liveBytes div 5) (liveBytes + recSize))
                in if h_alloc h newcap
                   then do { (nb, kept, idx) \<leftarrow>
                               relocateLoop (hdr_size (s_schema s)) newcap (s_block s) SDB_FILE_HDR
                                 (take SDB_FILE_HDR (s_block s)) 0 (s_index s);
                             let s1 = (writeFileHeader (s\<lparr>s_block := nb, s_cap := newcap, s_index := idx\<rparr>)
                                         kept)\<lparr>grow_failed := False\<rparr>;
                             Some (s_used s1 + recSize \<le> s_cap s1, s1) }
                   else reclaimInPlace s recSize)
          else reclaimInPlace s recSize }"

definition appendRecord :: "sdb_heap \<Rightarrow> sdb_store \<Rightarrow> bytes \<Rightarrow> bytes \<Rightarrow> (bool \<times> sdb_store) option" where
  "appendRecord h s key rec =
     do { (ok, s1) \<leftarrow> (let (ok, s1) = ensureCap h s (s_used s + length rec)
                       in if ok then Some (True, s1) else reclaimForAppend h s1 (length rec));
          if \<not> ok then Some (False, s1)
          else if s_used s1 + length rec \<le> s_cap s1
          then Some (True, s1\<lparr>s_block := s_block s1 @ rec, s_index := AList.update key (s_used s1) (s_index s1)\<rparr>)
          else None }"

partial_function (option) dropLoop ::
    "nat \<Rightarrow> nat \<Rightarrow> bytes \<Rightarrow> nat \<Rightarrow> sdb_index \<Rightarrow> (bytes \<times> sdb_index) option" where
  "dropLoop hs todo b off idx =
     (if \<not> (0 < todo \<and> off < length b) then Some (b, idx)
      else do {
        rlen \<leftarrow> rdU32 b (off + SDB_REC_LEN_OFF);
        if badLen hs (length b) off rlen then Some (b, idx)
        else do {
          flags \<leftarrow> rdU8 b (off + SDB_FLAGS_OFF);
          if isDeleted flags then dropLoop hs todo b (sz_add off rlen) idx
          else do {
            klen \<leftarrow> rdU16 b (off + hs);
            key \<leftarrow> rdBytes b (off + hs + 2) klen;
            b1 \<leftarrow> wrBytes b (off + SDB_FLAGS_OFF) [flags OR SDB_FLAG_DELETED];
            dropLoop hs (todo - 1) b1 (sz_add off rlen) (AList.delete key idx)
          }
        }
      })"

definition compact :: "sdb_store \<Rightarrow> nat \<Rightarrow> sdb_store option" where
  "compact s dropOldest =
     do { (b, idx) \<leftarrow> dropLoop (hdr_size (s_schema s)) dropOldest (s_block s) SDB_FILE_HDR (s_index s);
          sdbCompactInPlace (s\<lparr>s_block := b, s_index := idx\<rparr>) }"

subsection \<open>Lifecycle in memory\<close>

definition sdbInitEmpty :: "sdb_heap \<Rightarrow> sdb_store \<Rightarrow> sdb_store" where
  "sdbInitEmpty h s =
     (if s_loaded s then s
      else let (ok, s1) = ensureCap h (s\<lparr>s_index := []\<rparr>) SDB_FILE_HDR
           in if \<not> ok then s1
              else s1\<lparr>s_block := fileHeader (s_schema s1) 0, s_loaded := True, s_dirty := False\<rparr>)"

definition sdbEvict :: "sdb_store \<Rightarrow> sdb_store" where
  "sdbEvict s = s\<lparr>s_block := [], s_cap := 0, s_loaded := False, s_dirty := False, s_index := []\<rparr>"

subsection \<open>Record access\<close>

definition sdbHasRecord :: "sdb_store \<Rightarrow> bytes \<Rightarrow> bool" where
  "sdbHasRecord s key \<longleftrightarrow> s_loaded s \<and> map_of (s_index s) key \<noteq> None"

definition sdbRecordCount :: "sdb_store \<Rightarrow> nat" where
  "sdbRecordCount s = length (s_index s)"

definition readTextField :: "sdb_schema \<Rightarrow> bytes \<Rightarrow> nat \<Rightarrow> sdb_field \<Rightarrow> bytes option option" where
  "readTextField sc b off fd =
     do { (k, texts) \<leftarrow> readRecordText sc b off;
          Some (if f_off fd < length texts then Some (texts ! f_off fd) else None) }"

definition readField :: "sdb_schema \<Rightarrow> bytes \<Rightarrow> nat \<Rightarrow> sdb_field \<Rightarrow> bytes option option" where
  "readField sc b off fd =
     (case f_kind fd of
        SDB_U8 \<Rightarrow> do { v \<leftarrow> rdU8 b (off + f_off fd); Some (Some (bytes_of (nat_str (unat v)))) }
      | SDB_U32 \<Rightarrow> do { v \<leftarrow> rdU32 b (off + f_off fd); Some (Some (bytes_of (nat_str v))) }
      | SDB_FIXSTR \<Rightarrow> do { p \<leftarrow> rdBytes b (off + f_off fd) (f_width fd); Some (Some (cstr_field p)) }
      | SDB_DATA \<Rightarrow> do { p \<leftarrow> rdBytes b (off + f_off fd) (f_width fd);
                         Some (Some (if isAllZero p then [] else hexEncodeBytes p)) }
      | SDB_TEXT \<Rightarrow> readTextField sc b off fd
      | SDB_OTHER _ \<Rightarrow> Some None)"

text \<open>\<open>Some None\<close> is the result \<open>false\<close>, \<open>Some (Some v)\<close> is \<open>true\<close> with \<open>v\<close> in \<open>out\<close>.\<close>

definition sdbGetField :: "sdb_store \<Rightarrow> bytes \<Rightarrow> bytes \<Rightarrow> bytes option option" where
  "sdbGetField s key field =
     (if \<not> s_loaded s then Some None
      else case findRec s key of
             None \<Rightarrow> Some None
           | Some off \<Rightarrow>
               (case sdb_find (s_schema s) field of
                  None \<Rightarrow> Some None
                | Some fd \<Rightarrow> readField (s_schema s) (s_block s) off fd))"

text \<open>The result, the value left in \<open>*len\<close>, and the bytes copied out.\<close>

definition sdbGetFieldBin :: "sdb_store \<Rightarrow> bytes \<Rightarrow> bytes \<Rightarrow> nat \<Rightarrow> (bool \<times> nat \<times> bytes) option" where
  "sdbGetFieldBin s key field cap =
     (if \<not> s_loaded s then Some (False, 0, [])
      else case findRec s key of
             None \<Rightarrow> Some (False, 0, [])
           | Some off \<Rightarrow>
               (case sdb_find (s_schema s) field of
                  None \<Rightarrow> Some (False, 0, [])
                | Some fd \<Rightarrow>
                    (if f_kind fd \<noteq> SDB_DATA then Some (False, 0, [])
                     else do { p \<leftarrow> rdBytes (s_block s) (off + f_off fd) (f_width fd);
                               if isAllZero p then Some (False, 0, [])
                               else if f_width fd > cap then Some (False, f_width fd, [])
                               else Some (True, f_width fd, p) })))"

text \<open>What an in-place write stores in the slot of a fixed field.\<close>

definition slotBytes :: "sdb_field \<Rightarrow> bytes \<Rightarrow> bytes option" where
  "slotBytes fd val =
     (case f_kind fd of
        SDB_U8 \<Rightarrow> Some [word_of_int (atoi (str_of val))]
      | SDB_U32 \<Rightarrow> Some (le32 (of_nat (strtoul (str_of val))))
      | SDB_FIXSTR \<Rightarrow>
          (if f_width fd = 0 then None
           else let l = (if length val \<ge> f_width fd then f_width fd - 1 else length val)
                in Some (take l val @ replicate (f_width fd - l) 0))
      | SDB_DATA \<Rightarrow>
          (let d = (if length val = f_width fd * 2 then hexDecodeInto val (f_width fd) else [])
           in Some (d @ replicate (f_width fd - length d) 0))
      | _ \<Rightarrow> Some [])"

definition setText :: "sdb_heap \<Rightarrow> sdb_store \<Rightarrow> nat \<Rightarrow> sdb_field \<Rightarrow> bytes \<Rightarrow> sdb_store option" where
  "setText h s off fd val =
     do { (k, texts) \<leftarrow> readRecordText (s_schema s) (s_block s) off;
          if f_off fd < length texts \<and> texts ! f_off fd = val then Some s
          else do {
            let texts1 = (if f_off fd < length texts then texts[f_off fd := val] else texts);
            hdr \<leftarrow> rdBytes (s_block s) off (hdr_size (s_schema s));
            let rec = buildRecord hdr k texts1;
            rlen \<leftarrow> rdU32 (s_block s) (off + SDB_REC_LEN_OFF);
            if length rec = rlen
            then do { b \<leftarrow> wrBytes (s_block s) off rec; Some (s\<lparr>s_block := b, s_dirty := True\<rparr>) }
            else do {
              flags \<leftarrow> rdU8 (s_block s) (off + SDB_FLAGS_OFF);
              b \<leftarrow> wrBytes (s_block s) (off + SDB_FLAGS_OFF) [flags OR SDB_FLAG_DELETED];
              (ok, s1) \<leftarrow> appendRecord h (s\<lparr>s_block := b, s_index := AList.delete k (s_index s)\<rparr>) k rec;
              Some (s1\<lparr>s_dirty := True\<rparr>)
            }
          } }"

definition storeField :: "sdb_heap \<Rightarrow> sdb_store \<Rightarrow> nat \<Rightarrow> sdb_field \<Rightarrow> bytes \<Rightarrow> sdb_store option" where
  "storeField h s off fd val =
     (if f_kind fd = SDB_TEXT then setText h s off fd val
      else do { v \<leftarrow> slotBytes fd val;
                b \<leftarrow> (if v = [] then Some (s_block s) else wrBytes (s_block s) (off + f_off fd) v);
                Some (s\<lparr>s_block := b, s_dirty := True\<rparr>) })"

text \<open>How many of the \<open>n\<close> records go when the cap is breached: a batch, never the newest.\<close>

definition trimCount :: "nat \<Rightarrow> nat \<Rightarrow> nat" where
  "trimCount n cap = (let dr = (n - cap) + cap div 8 in if dr \<ge> n then n - 1 else dr)"

text \<open>The creation of a record for a new key, the ephemeral cap included; \<open>None\<close> as the offset is an early return.\<close>

definition createRecord :: "sdb_heap \<Rightarrow> sdb_store \<Rightarrow> bytes \<Rightarrow> (nat option \<times> sdb_store) option" where
  "createRecord h s key =
     do { let rec = buildRecord (replicate (hdr_size (s_schema s)) 0) key (replicate (textCount (s_schema s)) []);
          (ok, s1) \<leftarrow> appendRecord h s key rec;
          if \<not> ok then Some (None, s1)
          else if findRec s1 key = None then Some (None, s1)
          else if cap_records s1 \<noteq> 0 \<and> length (s_index s1) > cap_records s1
          then do {
            s2 \<leftarrow> compact s1 (trimCount (length (s_index s1)) (cap_records s1));
            (if findRec s2 key = None then Some (None, s2\<lparr>s_dirty := True\<rparr>) else Some (findRec s2 key, s2))
          }
          else Some (findRec s1 key, s1) }"

definition sdbSetField :: "sdb_heap \<Rightarrow> sdb_store \<Rightarrow> bytes \<Rightarrow> bytes \<Rightarrow> bytes \<Rightarrow> sdb_store option" where
  "sdbSetField h s key field val =
     (if \<not> s_loaded s then Some s
      else case sdb_find (s_schema s) field of
             None \<Rightarrow> Some s
           | Some fd \<Rightarrow>
               do { (off, s1) \<leftarrow> (case findRec s key of Some off \<Rightarrow> Some (Some off, s) | None \<Rightarrow> createRecord h s key);
                    case off of None \<Rightarrow> Some s1 | Some off \<Rightarrow> storeField h s1 off fd val })"

definition sdbDeleteRecord :: "sdb_store \<Rightarrow> bytes \<Rightarrow> sdb_store option" where
  "sdbDeleteRecord s key =
     (if \<not> s_loaded s then Some s
      else case findRec s key of
             None \<Rightarrow> Some s
           | Some off \<Rightarrow>
               do { flags \<leftarrow> rdU8 (s_block s) (off + SDB_FLAGS_OFF);
                    b \<leftarrow> wrBytes (s_block s) (off + SDB_FLAGS_OFF) [flags OR SDB_FLAG_DELETED];
                    Some (s\<lparr>s_block := b, s_index := AList.delete key (s_index s), s_dirty := True\<rparr>) })"

text \<open>The calls \<open>cb(key, field, value)\<close> of one record: empty strings and unset fields are skipped.\<close>

definition fieldCall :: "sdb_schema \<Rightarrow> bytes \<Rightarrow> nat \<Rightarrow> bytes \<Rightarrow> bytes list \<Rightarrow> sdb_field
    \<Rightarrow> (bytes \<times> bytes \<times> bytes) list option" where
  "fieldCall sc b off key texts fd =
     (let call = (\<lambda>v. (cstr_field key, cstr_field (f_name fd), cstr_field v))
      in case f_kind fd of
           SDB_U8 \<Rightarrow> do { v \<leftarrow> rdU8 b (off + f_off fd); Some [call (bytes_of (nat_str (unat v)))] }
         | SDB_U32 \<Rightarrow> do { v \<leftarrow> rdU32 b (off + f_off fd); Some [call (bytes_of (nat_str v))] }
         | SDB_FIXSTR \<Rightarrow> do { p \<leftarrow> rdBytes b (off + f_off fd) (f_width fd);
                              Some (if cstr_field p = [] then [] else [call (cstr_field p)]) }
         | SDB_DATA \<Rightarrow> do { p \<leftarrow> rdBytes b (off + f_off fd) (f_width fd);
                            Some (if isAllZero p then [] else [call (hexEncodeBytes p)]) }
         | SDB_TEXT \<Rightarrow> Some (if f_off fd < length texts \<and> texts ! f_off fd \<noteq> [] then [call (texts ! f_off fd)] else [])
         | SDB_OTHER _ \<Rightarrow> Some [])"

fun fieldCalls :: "sdb_schema \<Rightarrow> bytes \<Rightarrow> nat \<Rightarrow> bytes \<Rightarrow> bytes list \<Rightarrow> sdb_field list
    \<Rightarrow> (bytes \<times> bytes \<times> bytes) list option" where
  "fieldCalls sc b off key texts [] = Some []"
| "fieldCalls sc b off key texts (fd # fds) =
     do { c \<leftarrow> fieldCall sc b off key texts fd;
          cs \<leftarrow> fieldCalls sc b off key texts fds;
          Some (c @ cs) }"

partial_function (option) forEachLoop :: "sdb_schema \<Rightarrow> bytes \<Rightarrow> nat \<Rightarrow> (bytes \<times> bytes \<times> bytes) list
    \<Rightarrow> (bytes \<times> bytes \<times> bytes) list option" where
  "forEachLoop sc b off acc =
     (if \<not> off < length b then Some acc
      else do {
        rlen \<leftarrow> rdU32 b (off + SDB_REC_LEN_OFF);
        if badLen (hdr_size sc) (length b) off rlen then Some acc
        else do {
          flags \<leftarrow> rdU8 b (off + SDB_FLAGS_OFF);
          if isDeleted flags then forEachLoop sc b (sz_add off rlen) acc
          else do {
            (key, texts) \<leftarrow> readRecordText sc b off;
            cs \<leftarrow> fieldCalls sc b off key texts (sfields sc);
            forEachLoop sc b (sz_add off rlen) (acc @ cs)
          }
        }
      })"

definition sdbForEach :: "sdb_store \<Rightarrow> (bytes \<times> bytes \<times> bytes) list option" where
  "sdbForEach s = (if \<not> s_loaded s then Some [] else forEachLoop (s_schema s) (s_block s) SDB_FILE_HDR [])"

end
