(* ===== verification/Sdb_Rep.thy ===== *)
theory Sdb_Rep
  imports Sdb_Store
begin

unbundle bit_operations_syntax

section \<open>What a block represents\<close>

text \<open>
  A resident block is a file header followed by the images of a list of records, tombstones
  included; the index holds the offsets of the live ones. \<open>reps\<close> says so, and \<open>store_ok s L\<close>
  abstracts from the tombstones: \<open>L\<close> is the list of live records in arrival order. The lemmas
  say what each walk of the block does to this list: reading a record back, rebuilding the
  index, compacting through the scratch buffer, relocating, dropping the oldest, appending.
\<close>

record sdb_rec =
  r_hdr :: bytes
  r_key :: bytes
  r_texts :: "bytes list"

definition recImage :: "sdb_rec \<Rightarrow> bytes" where
  "recImage r = r_hdr r @ prefixed (r_key r) @ concat (map prefixed (r_texts r))"

abbreviation rec_size :: "sdb_rec \<Rightarrow> nat" where
  "rec_size r \<equiv> length (recImage r)"

definition live :: "sdb_rec \<Rightarrow> bool" where
  "live r \<longleftrightarrow> \<not> isDeleted (r_hdr r ! SDB_FLAGS_OFF)"

definition rec_ok :: "sdb_schema \<Rightarrow> sdb_rec \<Rightarrow> bool" where
  "rec_ok sc r \<longleftrightarrow> length (r_hdr r) = hdr_size sc
     \<and> take 4 (r_hdr r) = le32 (of_nat (rec_size r)) \<and> rec_size r < 4294967296
     \<and> length (r_key r) < 65536 \<and> length (r_texts r) = textCount sc
     \<and> list_all (\<lambda>t. length t < 65536) (r_texts r)"

definition images :: "sdb_rec list \<Rightarrow> bytes" where
  "images rs = concat (map recImage rs)"

lemma images_simps [simp]:
  "images [] = []" "images (r # rs) = recImage r @ images rs" "images (as @ bs) = images as @ images bs"
  by (simp_all add: images_def)

fun liveIdx :: "nat \<Rightarrow> sdb_rec list \<Rightarrow> sdb_index" where
  "liveIdx off [] = []"
| "liveIdx off (r # rs) = (if live r then [(r_key r, off)] else []) @ liveIdx (off + rec_size r) rs"

definition reps :: "sdb_store \<Rightarrow> sdb_rec list \<Rightarrow> bool" where
  "reps s rs \<longleftrightarrow> schema_ok (s_schema s) \<and> s_loaded s
     \<and> (\<exists>fh. length fh = SDB_FILE_HDR \<and> s_block s = fh @ images rs)
     \<and> list_all (rec_ok (s_schema s)) rs \<and> distinct (map r_key (filter live rs))
     \<and> distinct (map fst (s_index s)) \<and> map_of (s_index s) = map_of (liveIdx SDB_FILE_HDR rs)
     \<and> s_used s \<le> s_cap s \<and> s_cap s < 2147483648"

definition store_ok :: "sdb_store \<Rightarrow> sdb_rec list \<Rightarrow> bool" where
  "store_ok s L \<longleftrightarrow> (\<exists>rs. reps s rs \<and> L = filter live rs)"

subsection \<open>Reading one record back\<close>

lemma prefixed_len [simp]: "length (prefixed t) = 2 + length t"
  by (simp add: prefixed_def)

lemma rdBytes_at: "length a = ofs \<Longrightarrow> length x = n \<Longrightarrow> rdBytes (a @ x @ c) ofs n = Some x"
  by (simp add: rdBytes_def slice_def)

lemma rdU16_at:
  assumes "b = a @ prefixed t @ c" "length a = ofs" "length t < 65536"
  shows "rdU16 b ofs = Some (length t)"
proof -
  have "rdBytes b ofs 2 = Some (le16 (of_nat (length t)))"
    using rdBytes_at [of a ofs "le16 (of_nat (length t))" 2 "t @ c"] assms by (simp add: prefixed_def)
  then show ?thesis using assms(3) by (simp add: rdU16_def unat_of_nat16)
qed

lemma rdBytes_prefixed:
  assumes "b = a @ prefixed t @ c" "length a = ofs"
  shows "rdBytes b (ofs + 2) (length t) = Some t"
  using rdBytes_at [of "a @ le16 (of_nat (length t))" "ofs + 2" t "length t" c] assms
  by (simp add: prefixed_def)

lemma readTexts_at:
  "b = a @ concat (map prefixed ts) @ c \<Longrightarrow> length a = p \<Longrightarrow> list_all (\<lambda>t. length t < 65536) ts
    \<Longrightarrow> readTexts (length ts) b p = Some ts"
proof (induction ts arbitrary: a p)
  case (Cons t ts)
  have b: "b = a @ prefixed t @ (concat (map prefixed ts) @ c)"
    and b2: "b = (a @ prefixed t) @ concat (map prefixed ts) @ c" using Cons.prems(1) by simp_all
  have "rdU16 b p = Some (length t)"
    using rdU16_at [OF b Cons.prems(2)] Cons.prems(3) by simp
  moreover have "rdBytes b (p + 2) (length t) = Some t" by (rule rdBytes_prefixed [OF b Cons.prems(2)])
  moreover have "readTexts (length ts) b (p + 2 + length t) = Some ts"
    using Cons.IH [OF b2] Cons.prems(2,3) by simp
  ultimately show ?case by simp
qed simp

lemma rec_hdr_slices:
  assumes "rec_ok sc r" "schema_ok sc"
  shows "recImage r ! SDB_FLAGS_OFF = r_hdr r ! SDB_FLAGS_OFF" "take 4 (recImage r) = le32 (of_nat (rec_size r))"
    "8 \<le> length (r_hdr r)" "length (r_hdr r) = hdr_size sc" "hdr_size sc + 2 \<le> rec_size r"
  using assms by (auto simp: rec_ok_def schema_ok_def recImage_def SDB_HDR_BUILTIN_def SDB_FLAGS_OFF_def nth_append)

lemma rec_reads:
  assumes r: "rec_ok sc r" and sc: "schema_ok sc"
    and b: "b = pre @ recImage r @ post" and off: "off = length pre" and n: "length b < 4294967296"
  shows "off < length b" "\<not> length b < off + hdr_size sc"
    "rdU32 b (off + SDB_REC_LEN_OFF) = Some (rec_size r)"
    "\<not> badLen (hdr_size sc) (length b) off (rec_size r)"
    "rdU8 b (off + SDB_FLAGS_OFF) = Some (r_hdr r ! SDB_FLAGS_OFF)"
    "rdU16 b (off + hdr_size sc) = Some (length (r_key r))"
    "\<not> hdr_size sc + 2 + length (r_key r) > rec_size r"
    "rdBytes b (off + hdr_size sc + 2) (length (r_key r)) = Some (r_key r)"
    "readRecordText sc b off = Some (r_key r, r_texts r)"
    "rdBytes b off (rec_size r) = Some (recImage r)"
    "rdBytes b off (hdr_size sc) = Some (r_hdr r)"
    "sz_add off (rec_size r) = off + rec_size r"
proof -
  note h = rec_hdr_slices [OF r sc]
  have sz: "off + rec_size r \<le> length b" using b off by simp
  show "off < length b" "\<not> length b < off + hdr_size sc" using h sz by linarith+
  show add: "sz_add off (rec_size r) = off + rec_size r" using sz n by (simp add: sz_add_def)
  show "\<not> badLen (hdr_size sc) (length b) off (rec_size r)"
    using h(5) sz add by (simp add: badLen_def)
  have "rdBytes b off 4 = Some (take 4 (recImage r))"
    using b off h(3,4,5) by (simp add: rdBytes_def slice_def)
  then show "rdU32 b (off + SDB_REC_LEN_OFF) = Some (rec_size r)"
    using h(2) r by (simp add: rdU32_def SDB_REC_LEN_OFF_def rec_ok_def unat_of_nat32)
  show "rdU8 b (off + SDB_FLAGS_OFF) = Some (r_hdr r ! SDB_FLAGS_OFF)"
    using b off h(1,3,4,5) by (simp add: rdU8_def nth_append SDB_FLAGS_OFF_def)
  show "rdBytes b off (rec_size r) = Some (recImage r)" using b off by (simp add: rdBytes_at)
  show "rdBytes b off (hdr_size sc) = Some (r_hdr r)"
    using b off h(4) rdBytes_at [of pre off "r_hdr r" "hdr_size sc"] by (simp add: recImage_def)
  have k: "b = (pre @ r_hdr r) @ prefixed (r_key r) @ (concat (map prefixed (r_texts r)) @ post)"
    and kl: "length (pre @ r_hdr r) = off + hdr_size sc"
    using b off h(4) by (simp_all add: recImage_def)
  show k1: "rdU16 b (off + hdr_size sc) = Some (length (r_key r))"
    using rdU16_at [OF k kl] r by (simp add: rec_ok_def)
  show k2: "rdBytes b (off + hdr_size sc + 2) (length (r_key r)) = Some (r_key r)"
    by (rule rdBytes_prefixed [OF k kl])
  show "\<not> hdr_size sc + 2 + length (r_key r) > rec_size r" using h(4) by (simp add: recImage_def)
  have "b = (pre @ r_hdr r @ prefixed (r_key r)) @ concat (map prefixed (r_texts r)) @ post"
    using b by (simp add: recImage_def)
  from readTexts_at [OF this, of "off + hdr_size sc + 2 + length (r_key r)"] r off h(4)
  have "readTexts (textCount sc) b (off + hdr_size sc + 2 + length (r_key r)) = Some (r_texts r)"
    by (simp add: rec_ok_def)
  then show "readRecordText sc b off = Some (r_key r, r_texts r)"
    using k1 k2 by (simp add: readRecordText_def)
qed

lemma loop_end: "off = length b \<Longrightarrow> \<not> off < length b" by simp

subsection \<open>The index of a list of records\<close>

lemma liveIdx_append: "liveIdx off (as @ bs) = liveIdx off as @ liveIdx (off + length (images as)) bs"
  by (induction as arbitrary: off) (auto simp: add.assoc)

lemma liveIdx_keys [simp]: "map fst (liveIdx off rs) = map r_key (filter live rs)"
  by (induction rs arbitrary: off) auto

lemma liveIdx_keys_set: "fst ` set (liveIdx off rs) = r_key ` set (filter live rs)"
  using liveIdx_keys [of off rs] by (metis list.set_map)

lemma length_liveIdx [simp]: "length (liveIdx off rs) = length (filter live rs)"
  using liveIdx_keys [of off rs] by (metis length_map)

lemma rebuild_step:
  assumes "rec_ok sc r" "schema_ok sc" "b = pre @ recImage r @ post" "off = length pre" "length b < 4294967296"
  shows "rebuildLoop (hdr_size sc) b off idx =
    rebuildLoop (hdr_size sc) b (off + rec_size r) (if live r then AList.update (r_key r) off idx else idx)"
  using rec_reads [OF assms] by (subst rebuildLoop.simps) (simp add: live_def)

lemma rebuildLoop_images:
  "list_all (rec_ok sc) rs \<Longrightarrow> schema_ok sc \<Longrightarrow> b = pre @ images rs \<Longrightarrow> off = length pre
    \<Longrightarrow> length b < 4294967296
    \<Longrightarrow> rebuildLoop (hdr_size sc) b off idx
        = Some (True, foldl (\<lambda>i e. AList.update (fst e) (snd e) i) idx (liveIdx off rs))"
proof (induction rs arbitrary: pre off idx)
  case Nil
  then show ?case by (subst rebuildLoop.simps) simp
next
  case (Cons r rs)
  have r: "rec_ok sc r" and b: "b = pre @ recImage r @ images rs" and b2: "b = (pre @ recImage r) @ images rs"
    using Cons.prems(1,3) by simp_all
  note rebuild_step [OF r Cons.prems(2) b Cons.prems(4) Cons.prems(5), of idx]
  moreover note Cons.IH [OF _ Cons.prems(2) b2 _ Cons.prems(5), of "off + rec_size r"
      "if live r then AList.update (r_key r) off idx else idx"]
  ultimately show ?case using Cons.prems(1,4) by simp
qed

lemma foldl_update_index:
  assumes "distinct (map fst xs)"
  shows "map_of (foldl (\<lambda>i e. AList.update (fst e) (snd e) i) idx xs) = map_of idx ++ map_of xs"
  using assms
proof (induction xs arbitrary: idx)
  case (Cons x xs)
  obtain k v where x: "x = (k, v)" by (cases x)
  have "map_of xs k = None" using Cons.prems x by (metis distinct.simps(2) fst_conv list.simps(9) list.set_map map_of_eq_None_iff)
  then have "(map_of idx)(k \<mapsto> v) ++ map_of xs = map_of idx ++ map_of (x # xs)"
    by (auto simp: x fun_eq_iff map_add_def split: option.splits)
  then show ?case using Cons x by (simp add: update_conv' del: fun_upd_apply)
qed simp

lemma foldl_update_distinct:
  "distinct (map fst idx) \<Longrightarrow> distinct (map fst (foldl (\<lambda>i e. AList.update (fst e) (snd e) i) idx xs))"
  by (induction xs arbitrary: idx) (auto simp: distinct_update)

subsection \<open>In-place compaction\<close>

lemma reindex_rec:
  assumes "rec_ok sc r" "schema_ok sc" "b = pre @ recImage r @ post" "off = length pre" "length b < 4294967296"
  shows "sdbReindexRec (hdr_size sc) b off n idx = Some (AList.update (r_key r) n idx)"
  using rec_reads [OF assms] by (simp add: sdbReindexRec_def)

lemma reindex_map:
  assumes "k \<notin> fst ` set xs"
  shows "(map_of (xs @ (k, old) # ys))(k \<mapsto> new) = map_of ((xs @ [(k, new)]) @ ys)"
proof -
  have "map_of xs k = None" using assms by (metis map_of_eq_None_iff)
  then show ?thesis by (auto simp: fun_eq_iff map_add_def split: option.splits)
qed

text \<open>
  Halfway through a compaction: the records \<open>ds\<close> are read, \<open>rs\<close> are not. The arena up to the
  write cursor followed by the scratch is the compacted prefix, the unread records are intact
  at the read cursor, and the index points at final offsets for \<open>ds\<close> and old ones for \<open>rs\<close>.
\<close>

definition cinv :: "bytes \<Rightarrow> nat \<Rightarrow> sdb_rec list \<Rightarrow> sdb_rec list \<Rightarrow> bytes \<Rightarrow> nat \<Rightarrow> nat \<Rightarrow> bytes \<Rightarrow> sdb_index \<Rightarrow> bool" where
  "cinv fh n ds rs b w off sc idx \<longleftrightarrow> length b = n \<and> w \<le> n \<and> length fh = SDB_FILE_HDR
     \<and> off = SDB_FILE_HDR + length (images ds)
     \<and> off \<le> n \<and> drop off b = images rs \<and> take w b @ sc = fh @ images (filter live ds)
     \<and> distinct (map r_key (filter live (ds @ rs))) \<and> distinct (map fst idx)
     \<and> map_of idx = map_of (liveIdx SDB_FILE_HDR (filter live ds) @ liveIdx off rs)"

lemma images_filter_le: "length (images (filter P rs)) \<le> length (images rs)"
  by (induction rs) auto

lemma cinv_le: "cinv fh n ds rs b w off sc idx \<Longrightarrow> w + length sc \<le> off"
proof -
  assume "cinv fh n ds rs b w off sc idx"
  then have "length (take w b @ sc) = length (fh @ images (filter live ds))" "w \<le> length b"
    "length fh = SDB_FILE_HDR" "off = SDB_FILE_HDR + length (images ds)"
    by (auto simp: cinv_def)
  then show ?thesis using images_filter_le [of live ds] by simp
qed

lemma filter_live_filter [simp]: "filter live (filter live ds) = filter live ds"
  by simp

lemma cinv_index_step:
  assumes c: "cinv fh n ds (r # rs) b w off sc idx" and r: "live r"
    and i: "idx' = AList.update (r_key r) (SDB_FILE_HDR + length (images (filter live ds))) idx"
  shows "map_of idx' = map_of (liveIdx SDB_FILE_HDR (filter live (ds @ [r])) @ liveIdx (off + rec_size r) rs)"
    and "distinct (map fst idx')"
proof -
  have "r_key r \<notin> fst ` set (liveIdx SDB_FILE_HDR (filter live ds))"
    using c r by (auto simp: cinv_def liveIdx_keys_set)
  from reindex_map [OF this, of off "liveIdx (off + rec_size r) rs"]
  show "map_of idx' = map_of (liveIdx SDB_FILE_HDR (filter live (ds @ [r])) @ liveIdx (off + rec_size r) rs)"
    using c r by (simp add: cinv_def i update_conv' liveIdx_append)
  show "distinct (map fst idx')" using c by (simp add: cinv_def i distinct_update)
qed

lemma drop_past: "drop off b = x @ y \<Longrightarrow> drop (off + length x) b = y"
  by (metis add.commute append_eq_conv_conj drop_drop)

lemma drop_fits:
  assumes "drop off b = x @ y" "off \<le> length b"
  shows "off + length x \<le> length b"
proof -
  have "length (drop off b) = length x + length y" using assms(1) by simp
  then show ?thesis using assms(2) by simp
qed

lemma drop_split: "drop off b = x @ y \<Longrightarrow> off \<le> length b \<Longrightarrow> b = take off b @ x @ y"
  by (metis append_take_drop_id)

text \<open>The reads at a cursor, when the unread part starts with a record.\<close>

lemma rec_reads_at:
  assumes "rec_ok sc r" "schema_ok sc" "drop off b = recImage r @ post" "off \<le> length b" "length b < 4294967296"
  shows "off < length b"
    "rdU32 b (off + SDB_REC_LEN_OFF) = Some (rec_size r)"
    "\<not> badLen (hdr_size sc) (length b) off (rec_size r)"
    "rdU8 b (off + SDB_FLAGS_OFF) = Some (r_hdr r ! SDB_FLAGS_OFF)"
    "rdU16 b (off + hdr_size sc) = Some (length (r_key r))"
    "rdBytes b (off + hdr_size sc + 2) (length (r_key r)) = Some (r_key r)"
    "readRecordText sc b off = Some (r_key r, r_texts r)"
    "rdBytes b off (rec_size r) = Some (recImage r)"
    "rdBytes b off (hdr_size sc) = Some (r_hdr r)"
    "sz_add off (rec_size r) = off + rec_size r"
    "sdbReindexRec (hdr_size sc) b off n idx = Some (AList.update (r_key r) n idx)"
proof -
  have "off = length (take off b)" using assms(4) by simp
  note rr = rec_reads [OF assms(1,2) drop_split [OF assms(3,4)] this assms(5)]
    and ri = reindex_rec [OF assms(1,2) drop_split [OF assms(3,4)] this assms(5)]
  show "off < length b"
    "rdU32 b (off + SDB_REC_LEN_OFF) = Some (rec_size r)"
    "\<not> badLen (hdr_size sc) (length b) off (rec_size r)"
    "rdU8 b (off + SDB_FLAGS_OFF) = Some (r_hdr r ! SDB_FLAGS_OFF)"
    "rdU16 b (off + hdr_size sc) = Some (length (r_key r))"
    "rdBytes b (off + hdr_size sc + 2) (length (r_key r)) = Some (r_key r)"
    "readRecordText sc b off = Some (r_key r, r_texts r)"
    "rdBytes b off (rec_size r) = Some (recImage r)"
    "rdBytes b off (hdr_size sc) = Some (r_hdr r)"
    "sz_add off (rec_size r) = off + rec_size r"
    "sdbReindexRec (hdr_size sc) b off n idx = Some (AList.update (r_key r) n idx)"
    using rr ri by blast+
qed

lemma flush_ok:
  assumes "w \<le> length b" "take w b @ sc = X" "length X \<le> off" "off \<le> length b"
  shows "\<exists>b'. flushScratch b w sc = Some (b', length X) \<and> length b' = length b
           \<and> take (length X) b' = X \<and> drop off b' = drop off b"
proof -
  have l: "length X = w + length sc" using assms(1,2) by auto
  have "overwrite b w sc = X @ drop (length X) b"
    using assms(2) l by (simp add: overwrite_def flip: append_assoc)
  then show ?thesis
    using assms(3,4) l by (auto simp: flushScratch_def wrBytes_def)
qed

lemma cinv_dead:
  assumes c: "cinv fh n ds (r # rs) b w off sc idx" and r: "\<not> live r"
  shows "cinv fh n (ds @ [r]) rs b w (off + rec_size r) sc idx"
proof -
  have "drop off b = recImage r @ images rs" "off \<le> length b" using c by (auto simp: cinv_def)
  then have "drop (off + rec_size r) b = images rs" "off + rec_size r \<le> length b"
    using drop_past drop_fits by blast+
  then show ?thesis using c r by (auto simp: cinv_def)
qed

lemma compact_dead:
  assumes c: "cinv fh n ds (r # rs) b w off sc idx" and r: "\<not> live r" "rec_ok s r" "schema_ok s" "n < 4294967296"
  shows "compactLoop (hdr_size s) b w off sc kept idx = compactLoop (hdr_size s) b w (off + rec_size r) sc kept idx"
proof -
  have d: "drop off b = recImage r @ images rs" "off \<le> length b" "length b = n" using c by (auto simp: cinv_def)
  then have "length b < 4294967296" using r(4) by simp
  note rr = rec_reads_at [OF r(2,3) d(1,2) this]
  show ?thesis
    using rr d r by (subst compactLoop.simps) (simp add: live_def)
qed

lemma compact_live:
  assumes c: "cinv fh n ds (r # rs) b w off sc idx" and r: "live r" "rec_ok s r" "schema_ok s" "n < 4294967296"
  shows "\<exists>b' w' sc' idx'. compactLoop (hdr_size s) b w off sc kept idx
           = compactLoop (hdr_size s) b' w' (off + rec_size r) sc' (kept + 1) idx'
         \<and> cinv fh n (ds @ [r]) rs b' w' (off + rec_size r) sc' idx'"
proof -
  define X where "X = fh @ images (filter live ds)"
  have d: "drop off b = recImage r @ images rs" "off \<le> length b" "length b = n" "w \<le> length b"
    and X: "take w b @ sc = X" "length fh = SDB_FILE_HDR" using c by (auto simp: cinv_def X_def)
  have bnd: "length X \<le> off" "length X = w + length sc" using cinv_le [OF c] X d(4) by auto
  obtain b1 where b1: "flushScratch b w sc = Some (b1, length X)" "length b1 = length b"
    "take (length X) b1 = X" "drop off b1 = drop off b"
    using flush_ok [OF d(4) X(1) bnd(1) d(2)] by blast
  have dr: "drop (off + rec_size r) b = images rs" "off + rec_size r \<le> length b"
    using drop_past [OF d(1)] drop_fits [OF d(1,2)] by simp_all
  have n: "length b < 4294967296" "length b1 < 4294967296" using d(3) r(4) b1(2) by simp_all
  note rr = rec_reads_at [OF r(2,3) d(1,2) n(1)]
  have d1: "drop off b1 = recImage r @ images rs" "off \<le> length b1" using b1 d by auto
  note rr1 = rec_reads_at [OF r(2,3) d1 n(2)]
  define idx' where "idx' = AList.update (r_key r) (length X) idx"
  have i: "idx' = AList.update (r_key r) (SDB_FILE_HDR + length (images (filter live ds))) idx"
    by (simp add: idx'_def X_def X(2))
  note ix = cinv_index_step [OF c r(1) i]
  have dist: "distinct (map r_key (filter live (ds @ r # rs)))" using c by (simp add: cinv_def)
  have dr1: "drop (off + rec_size r) b1 = images rs" using d1(1) by (rule drop_past)
  have X': "X @ recImage r = fh @ images (filter live (ds @ [r]))" using r(1) by (simp add: X_def)
  show ?thesis
  proof (cases "rec_size r > SDB_COMPACT_SCRATCH")
    case True
    define b2 where "b2 = overwrite b1 (length X) (recImage r)"
    have b2: "b2 = X @ recImage r @ drop (length X + rec_size r) b1" using b1(3) by (simp add: b2_def overwrite_def)
    have wr: "wrBytes b1 (length X) (recImage r) = Some b2" "length b2 = n"
      using b1(2) bnd(1) dr(2) d(3) by (auto simp: wrBytes_def b2_def length_overwrite)
    have "compactLoop (hdr_size s) b w off sc kept idx
        = compactLoop (hdr_size s) b2 (length X + rec_size r) (off + rec_size r) [] (kept + 1) idx'"
      using rr rr1 wr(1) b1(1,2) d(3) r(1,4) True
      by (subst compactLoop.simps) (simp add: live_def idx'_def)
    moreover have "cinv fh n (ds @ [r]) rs b2 (length X + rec_size r) (off + rec_size r) [] idx'"
      using ix dist wr(2) dr(2) d(3) bnd(1) X' X(2) c dr1 r(1) unfolding cinv_def b2
      by (auto simp: drop_drop ac_simps)
    ultimately show ?thesis by blast
  next
    case False
    show ?thesis
    proof (cases "length sc + rec_size r > SDB_COMPACT_SCRATCH")
      case True
      have "compactLoop (hdr_size s) b w off sc kept idx
          = compactLoop (hdr_size s) b1 (length X) (off + rec_size r) (recImage r) (kept + 1) idx'"
        using rr rr1 b1(1,2) d(3) r(1,4) True False
        by (subst compactLoop.simps) (simp add: live_def idx'_def)
      moreover have "cinv fh n (ds @ [r]) rs b1 (length X) (off + rec_size r) (recImage r) idx'"
        using ix dist dr(2) d(2,3) bnd(1) X' X(2) c dr1 b1(2,3) r(1) unfolding cinv_def by auto
      ultimately show ?thesis by blast
    next
      case F: False
      have "compactLoop (hdr_size s) b w off sc kept idx
          = compactLoop (hdr_size s) b w (off + rec_size r) (sc @ recImage r) (kept + 1) idx'"
        using rr d(3) r(1,4) F False bnd(2)
        by (subst compactLoop.simps) (simp add: live_def idx'_def)
      moreover have "cinv fh n (ds @ [r]) rs b w (off + rec_size r) (sc @ recImage r) idx'"
        using ix dist dr d(3,4) X X' c r(1) unfolding cinv_def by (auto simp flip: append_assoc)
      ultimately show ?thesis by blast
    qed
  qed
qed

lemma compactLoop_images:
  assumes "cinv fh n ds rs b w off sc idx" "list_all (rec_ok s) rs" "schema_ok s" "n < 4294967296"
  shows "\<exists>b' w' sc' idx'. compactLoop (hdr_size s) b w off sc kept idx
           = Some (b', w', sc', kept + length (filter live rs), idx')
         \<and> cinv fh n (ds @ rs) [] b' w' n sc' idx'"
  using assms(1,2)
proof (induction rs arbitrary: ds b w off sc idx kept)
  case Nil
  then have "off = length b" "length b = n" by (auto simp: cinv_def)
  then show ?case using Nil by (subst compactLoop.simps) auto
next
  case (Cons r rs)
  have r: "rec_ok s r" and rs: "list_all (rec_ok s) rs" using Cons.prems(2) by simp_all
  show ?case
  proof (cases "live r")
    case True
    obtain b' w' sc' idx' where
      "compactLoop (hdr_size s) b w off sc kept idx
         = compactLoop (hdr_size s) b' w' (off + rec_size r) sc' (kept + 1) idx'"
      "cinv fh n (ds @ [r]) rs b' w' (off + rec_size r) sc' idx'"
      using compact_live [OF Cons.prems(1) True r assms(3,4)] by blast
    then show ?thesis using Cons.IH [of "ds @ [r]" b' w' "off + rec_size r" sc' idx' "kept + 1"] rs True by simp
  next
    case False
    then show ?thesis
      using compact_dead [OF Cons.prems(1) False r assms(3,4)] cinv_dead [OF Cons.prems(1) False]
        Cons.IH [of "ds @ [r]" b w "off + rec_size r" sc idx kept] rs by simp
  qed
qed

text \<open>What no reorganisation of the arena touches.\<close>

definition frame :: "sdb_store \<Rightarrow> sdb_store \<Rightarrow> bool" where
  "frame s s' \<longleftrightarrow> s_schema s' = s_schema s \<and> s_path s' = s_path s \<and> cap_records s' = cap_records s
     \<and> s_loaded s' = s_loaded s \<and> s_dirty s' = s_dirty s"

lemma frame_refl [simp]: "frame s s"
  by (simp add: frame_def)

lemma frame_trans: "frame s t \<Longrightarrow> frame t u \<Longrightarrow> frame s u"
  by (simp add: frame_def)

lemma length_fileHeader [simp]: "length (fileHeader sc n) = SDB_FILE_HDR"
  by (simp add: fileHeader_def SDB_MAGIC_def SDB_FILE_HDR_def)

lemma writeFileHeader_block:
  "length fh = SDB_FILE_HDR \<Longrightarrow> s_block s = fh @ x \<Longrightarrow> s_block (writeFileHeader s n) = fileHeader (s_schema s) n @ x"
  by (simp add: writeFileHeader_def)

lemma reps_used: "reps s rs \<Longrightarrow> s_used s < 4294967296"
  by (auto simp: reps_def)

lemma reps_cinv:
  assumes "reps s rs"
  obtains fh where "cinv fh (s_used s) [] rs (s_block s) SDB_FILE_HDR SDB_FILE_HDR [] (s_index s)"
proof -
  obtain fh where "length fh = SDB_FILE_HDR" "s_block s = fh @ images rs"
    using assms by (auto simp: reps_def)
  then have "cinv fh (s_used s) [] rs (s_block s) SDB_FILE_HDR SDB_FILE_HDR [] (s_index s)"
    using assms by (auto simp: reps_def cinv_def)
  then show ?thesis by (rule that)
qed

lemma sdbCompactInPlace_reps:
  assumes "reps s rs"
  shows "\<exists>s'. sdbCompactInPlace s = Some s' \<and> reps s' (filter live rs) \<and> frame s s'
           \<and> s_cap s' = s_cap s \<and> grow_failed s' = grow_failed s
           \<and> s_block s' = fileHeader (s_schema s) (length (filter live rs)) @ images (filter live rs)"
proof -
  define n where "n = s_used s"
  obtain fh where c: "cinv fh n [] rs (s_block s) SDB_FILE_HDR SDB_FILE_HDR [] (s_index s)"
    using reps_cinv [OF assms] unfolding n_def by blast
  have r: "list_all (rec_ok (s_schema s)) rs" "schema_ok (s_schema s)" "n < 4294967296"
    "n \<le> s_cap s" "s_cap s < 2147483648" "s_loaded s"
    using assms by (auto simp: reps_def n_def)
  obtain b w sc idx where L: "compactLoop (hdr_size (s_schema s)) (s_block s) SDB_FILE_HDR SDB_FILE_HDR [] 0 (s_index s)
      = Some (b, w, sc, length (filter live rs), idx)" and c': "cinv fh n rs [] b w n sc idx"
    using compactLoop_images [OF c r(1-3), of 0] by auto
  define X where "X = fh @ images (filter live rs)"
  have x: "take w b @ sc = X" "w \<le> length b" "n = length b" "length fh = SDB_FILE_HDR" "length X \<le> n"
    using c' images_filter_le [of live rs] by (auto simp: cinv_def X_def)
  then obtain b' where b': "flushScratch b w sc = Some (b', length X)" "take (length X) b' = X"
    using flush_ok [OF x(2,1), of n] by auto
  define s' where "s' = writeFileHeader (s\<lparr>s_block := X, s_index := idx\<rparr>) (length (filter live rs))"
  have blk: "s_block s' = fileHeader (s_schema s) (length (filter live rs)) @ images (filter live rs)"
    using writeFileHeader_block [of fh "s\<lparr>s_block := X, s_index := idx\<rparr>"] x(4) by (simp add: s'_def X_def)
  have "list_all (rec_ok (s_schema s)) (filter live rs)" using r(1) by (auto simp: list_all_iff)
  moreover have "distinct (map r_key (filter live rs))" "distinct (map fst idx)"
    "map_of idx = map_of (liveIdx SDB_FILE_HDR (filter live rs))"
    using c' by (auto simp: cinv_def)
  moreover have "s_used s' \<le> s_cap s" using blk x(4,5) r(4) by (simp add: X_def)
  moreover have "s_schema s' = s_schema s" "s_loaded s' = s_loaded s" "s_index s' = idx" "s_cap s' = s_cap s"
    by (simp_all add: s'_def writeFileHeader_def)
  ultimately have "reps s' (filter live rs)"
    using r blk length_fileHeader unfolding reps_def by auto
  then show ?thesis
    using L b' blk by (auto simp: sdbCompactInPlace_def s'_def frame_def writeFileHeader_def)
qed

subsection \<open>Tombstones\<close>

definition tomb :: "sdb_rec \<Rightarrow> sdb_rec" where
  "tomb r = r\<lparr>r_hdr := (r_hdr r)[SDB_FLAGS_OFF := r_hdr r ! SDB_FLAGS_OFF OR SDB_FLAG_DELETED]\<rparr>"

lemma isDeleted_or: "isDeleted (f OR SDB_FLAG_DELETED)"
proof -
  have "bit ((f OR 1) AND 1) 0" by (simp add: bit_simps)
  then have "(f OR 1) AND 1 \<noteq> 0" by (metis bit_0_eq bot_apply bot_bool_def)
  then show ?thesis by (simp add: isDeleted_def SDB_FLAG_DELETED_def)
qed

lemma recImage_tomb:
  assumes "rec_ok sc r" "schema_ok sc"
  shows "recImage (tomb r) = (recImage r)[SDB_FLAGS_OFF := r_hdr r ! SDB_FLAGS_OFF OR SDB_FLAG_DELETED]"
  using rec_hdr_slices [OF assms] by (simp add: recImage_def tomb_def list_update_append SDB_FLAGS_OFF_def)

lemma tomb_simps [simp]: "r_key (tomb r) = r_key r" "r_texts (tomb r) = r_texts r"
  by (simp_all add: tomb_def)

lemma tomb_ok:
  assumes "rec_ok sc r" "schema_ok sc"
  shows "rec_ok sc (tomb r)" "\<not> live (tomb r)" "rec_size (tomb r) = rec_size r"
proof -
  note h = rec_hdr_slices [OF assms]
  show sz: "rec_size (tomb r) = rec_size r" by (simp add: recImage_tomb [OF assms])
  have "take 4 (r_hdr (tomb r)) = take 4 (r_hdr r)" by (simp add: tomb_def SDB_FLAGS_OFF_def)
  then show "rec_ok sc (tomb r)" using assms(1) sz by (simp add: rec_ok_def) (simp add: tomb_def)
  show "\<not> live (tomb r)" using h(3) by (simp add: live_def tomb_def SDB_FLAGS_OFF_def isDeleted_or [unfolded SDB_FLAGS_OFF_def])
qed

lemma write_tomb:
  assumes "rec_ok sc r" "schema_ok sc" "drop off b = recImage r @ post" "off \<le> length b"
  shows "wrBytes b (off + SDB_FLAGS_OFF) [r_hdr r ! SDB_FLAGS_OFF OR SDB_FLAG_DELETED]
           = Some (take off b @ recImage (tomb r) @ post)"
proof -
  note h = rec_hdr_slices [OF assms(1,2)]
  define v where "v = r_hdr r ! SDB_FLAGS_OFF OR SDB_FLAG_DELETED"
  have b: "b = take off b @ recImage r @ post" by (rule drop_split [OF assms(3,4)])
  have l: "off + 5 \<le> length b" using drop_fits [OF assms(3,4)] h(3,4,5) by simp
  have "overwrite b (off + SDB_FLAGS_OFF) [v] = b[off + SDB_FLAGS_OFF := v]"
    using l by (simp add: overwrite_def upd_conv_take_nth_drop SDB_FLAGS_OFF_def)
  also have "\<dots> = take off b @ (recImage r @ post)[SDB_FLAGS_OFF := v]"
    using assms(4) by (subst b) (simp add: list_update_append)
  also have "\<dots> = take off b @ recImage (tomb r) @ post"
    using h(3,4,5) by (simp add: recImage_tomb [OF assms(1,2)] list_update_append SDB_FLAGS_OFF_def v_def)
  finally show ?thesis using l by (simp add: wrBytes_def v_def SDB_FLAGS_OFF_def)
qed

fun markOldest :: "nat \<Rightarrow> sdb_rec list \<Rightarrow> sdb_rec list" where
  "markOldest n [] = []"
| "markOldest n (r # rs) =
     (if n = 0 then r # rs
      else if live r then tomb r # markOldest (n - 1) rs else r # markOldest n rs)"

lemma markOldest_0 [simp]: "markOldest 0 rs = rs"
  by (cases rs) auto

lemma markOldest_live:
  "list_all (rec_ok sc) rs \<Longrightarrow> schema_ok sc \<Longrightarrow> filter live (markOldest n rs) = drop n (filter live rs)
     \<and> list_all (rec_ok sc) (markOldest n rs) \<and> length (images (markOldest n rs)) = length (images rs)"
proof (induction n rs rule: markOldest.induct)
  case (2 n r rs)
  then show ?case using tomb_ok [of sc r] by (cases n) auto
qed simp

lemma dropLoop_images:
  assumes "list_all (rec_ok sc) rs" "schema_ok sc" "drop off b = images rs" "off \<le> length b"
    "length b < 4294967296" "distinct (map r_key (filter live rs))"
    "map_of idx = map_of (liveIdx off rs)" "distinct (map fst idx)"
  shows "\<exists>b' idx'. dropLoop (hdr_size sc) n b off idx = Some (b', idx')
    \<and> b' = take off b @ images (markOldest n rs)
    \<and> map_of idx' = map_of (liveIdx off (markOldest n rs)) \<and> distinct (map fst idx')"
  using assms
proof (induction rs arbitrary: n b off idx)
  case Nil
  then show ?case by (subst dropLoop.simps) auto
next
  case (Cons r rs)
  have r: "rec_ok sc r" "list_all (rec_ok sc) rs" using Cons.prems(1) by simp_all
  have d: "drop off b = recImage r @ images rs" using Cons.prems(3) by simp
  note rr = rec_reads_at [OF r(1) Cons.prems(2) d Cons.prems(4,5)]
  note past = drop_past [OF d] drop_fits [OF d Cons.prems(4)]
  show ?case
  proof (cases "n = 0")
    case True
    then have "dropLoop (hdr_size sc) n b off idx = Some (b, idx)" by (subst dropLoop.simps) simp
    moreover have "b = take off b @ images (r # rs)" using drop_split [OF d Cons.prems(4)] by simp
    ultimately show ?thesis using Cons.prems(7,8) True by (auto simp del: images_simps)
  next
    case n: False
    show ?thesis
    proof (cases "live r")
      case False
      have "dropLoop (hdr_size sc) n b off idx = dropLoop (hdr_size sc) n b (off + rec_size r) idx"
        using rr n False by (subst dropLoop.simps) (simp add: live_def)
      moreover have "take (off + rec_size r) b = take off b @ recImage r"
        using d by (simp add: take_add)
      ultimately show ?thesis
        using Cons.IH [of "off + rec_size r" b idx n] r(2) past Cons.prems(2,5,6,7,8) False n by auto
    next
      case True
      define b1 where "b1 = take off b @ recImage (tomb r) @ images rs"
      define idx1 where "idx1 = AList.delete (r_key r) idx"
      note t = tomb_ok [OF r(1) Cons.prems(2)]
      have w: "wrBytes b (off + SDB_FLAGS_OFF) [r_hdr r ! SDB_FLAGS_OFF OR SDB_FLAG_DELETED] = Some b1"
        unfolding b1_def by (rule write_tomb [OF r(1) Cons.prems(2) d Cons.prems(4)])
      have step: "dropLoop (hdr_size sc) n b off idx = dropLoop (hdr_size sc) (n - 1) b1 (off + rec_size r) idx1"
        using rr n True w by (subst dropLoop.simps) (simp add: live_def idx1_def)
      have b1: "drop (off + rec_size r) b1 = images rs" "take (off + rec_size r) b1 = take off b @ recImage (tomb r)"
        "length b1 = length b"
        using Cons.prems(4) past(2) t(3) arg_cong [OF d, of length] by (simp_all add: b1_def)
      have k: "r_key r \<notin> fst ` set (liveIdx (off + rec_size r) rs)"
        using Cons.prems(6) True by (simp add: liveIdx_keys_set)
      then have "map_of (liveIdx (off + rec_size r) rs) (r_key r) = None" by (simp only: map_of_eq_None_iff not_False_eq_True)
      then have "map_of idx1 = map_of (liveIdx (off + rec_size r) rs)"
        using Cons.prems(7) True by (auto simp: idx1_def delete_conv' fun_eq_iff)
      moreover have "distinct (map fst idx1)" using Cons.prems(8) by (simp add: idx1_def distinct_delete)
      ultimately show ?thesis
        using step Cons.IH [of "off + rec_size r" b1 idx1 "n - 1"] r(2) past b1 Cons.prems(2,5,6) True n t
        by auto
    qed
  qed
qed

lemma compact_reps:
  assumes "reps s rs"
  shows "\<exists>s'. compact s n = Some s' \<and> reps s' (drop n (filter live rs)) \<and> frame s s' \<and> s_cap s' = s_cap s
           \<and> s_block s' = fileHeader (s_schema s) (length (drop n (filter live rs))) @ images (drop n (filter live rs))"
proof -
  have r: "list_all (rec_ok (s_schema s)) rs" "schema_ok (s_schema s)" using assms by (auto simp: reps_def)
  obtain fh where fh: "length fh = SDB_FILE_HDR" "s_block s = fh @ images rs" using assms by (auto simp: reps_def)
  note m = markOldest_live [OF r, of n]
  obtain b idx where d: "dropLoop (hdr_size (s_schema s)) n (s_block s) SDB_FILE_HDR (s_index s) = Some (b, idx)"
    "b = fh @ images (markOldest n rs)"
    "map_of idx = map_of (liveIdx SDB_FILE_HDR (markOldest n rs))" "distinct (map fst idx)"
    using dropLoop_images [OF r, of SDB_FILE_HDR "s_block s" "s_index s" n] assms fh reps_used [OF assms]
    by (auto simp: reps_def)
  have "distinct (drop n (map r_key (filter live rs)))" using assms by (auto simp: reps_def)
  then have "reps (s\<lparr>s_block := b, s_index := idx\<rparr>) (markOldest n rs)"
    using assms d fh m by (auto simp: reps_def drop_map)
  from sdbCompactInPlace_reps [OF this] show ?thesis
    using d(1) m by (auto simp: compact_def frame_def)
qed

end
