(* ===== verification/Sdb_Append.thy ===== *)
theory Sdb_Append
  imports Sdb_Rep
begin

section \<open>Growing the arena\<close>

text \<open>
  Appending a record: the arena grows when the heap allows it; when it does not, the live
  records are relocated to a fresh allocation or compacted in place. Whatever the heap
  answers, the store keeps representing the same live records, with the new one at the end
  exactly when the append reports success.
\<close>

definition heap_ok :: "sdb_heap \<Rightarrow> bool" where
  "heap_ok h \<longleftrightarrow> (\<forall>n. h_realloc h n \<or> h_alloc h n \<longrightarrow> n < 2147483648)"

text \<open>A heap that grants every request below twice a size, within the address space.\<close>

definition heap_grants :: "sdb_heap \<Rightarrow> nat \<Rightarrow> bool" where
  "heap_grants h n \<longleftrightarrow> (\<forall>m < 2 * n. h_realloc h m)"

subsection \<open>Growth\<close>

lemma growCap_bounds: "0 < c \<Longrightarrow> c < need \<Longrightarrow> need \<le> growCap c need \<and> growCap c need < 2 * need"
proof (induction c need rule: growCap.induct)
  case (1 c need)
  show ?case
  proof (cases "2 * c < need")
    case True
    then show ?thesis using 1 by (subst (1 2) growCap.simps) simp
  next
    case False
    then have "growCap c need = 2 * c" using 1 by (subst growCap.simps, subst growCap.simps) simp
    then show ?thesis using False 1 by simp
  qed
qed

lemma pageRound_ge: "n \<le> pageRound n"
  unfolding pageRound_def using div_mult_mod_eq [of "n + 4095" 4096] mod_less_divisor [of 4096 "n + 4095"] by linarith

lemma reps_cap_change:
  "reps s rs \<Longrightarrow> s_used s \<le> c \<Longrightarrow> c < 2147483648 \<Longrightarrow> reps (s\<lparr>s_cap := c, grow_failed := g\<rparr>) rs"
  by (simp add: reps_def)

lemma reps_flag [simp]: "reps (s\<lparr>grow_failed := g\<rparr>) rs = reps s rs" "reps (s\<lparr>s_dirty := d\<rparr>) rs = reps s rs"
  by (simp_all add: reps_def)

lemma store_ok_flag [simp]: "store_ok (s\<lparr>s_dirty := d\<rparr>) L = store_ok s L"
  by (simp add: store_ok_def)

lemma reps_cap_pos: "reps s rs \<Longrightarrow> 0 < s_cap s"
  by (auto simp: reps_def SDB_FILE_HDR_def)

lemma ensureCap_reps:
  assumes "reps s rs" "heap_ok h" "s_used s \<le> need" "ensureCap h s need = (ok, s')"
  shows "reps s' rs" "frame s s'" "s_block s' = s_block s" "s_index s' = s_index s" "ok \<Longrightarrow> need \<le> s_cap s'"
    "heap_grants h need \<Longrightarrow> ok"
proof -
  define nc where "nc = growCap (s_cap s) need"
  have pos: "0 < s_cap s" by (rule reps_cap_pos [OF assms(1)])
  have grow: "need \<le> nc \<and> nc < 2 * need" if "\<not> need \<le> s_cap s"
    using growCap_bounds [OF pos, of need] that by (simp add: nc_def)
  have e: "(ok, s') = (if need \<le> s_cap s then (True, s\<lparr>grow_failed := False\<rparr>)
      else if h_realloc h nc then (True, s\<lparr>s_cap := nc, grow_failed := False\<rparr>)
      else if h_realloc h (pageRound need) then (True, s\<lparr>s_cap := pageRound need, grow_failed := False\<rparr>)
      else (False, s\<lparr>grow_failed := True\<rparr>))"
    unfolding assms(4) [symmetric] using pos by (simp add: ensureCap_def Let_def nc_def)
  note bounds = assms(2) [unfolded heap_ok_def] pageRound_ge [of need]
  show "reps s' rs"
    using e assms(1,3) bounds grow reps_cap_change [OF assms(1)] by (auto split: if_splits)
  show "frame s s'" "s_block s' = s_block s" "s_index s' = s_index s" using e by (auto simp: frame_def split: if_splits)
  show "ok \<Longrightarrow> need \<le> s_cap s'" using e grow bounds(2) by (auto split: if_splits)
  show "heap_grants h need \<Longrightarrow> ok" using e grow by (auto simp: heap_grants_def split: if_splits)
qed

subsection \<open>Relocation\<close>

lemma liveLoop_images:
  "list_all (rec_ok sc) rs \<Longrightarrow> schema_ok sc \<Longrightarrow> drop off b = images rs \<Longrightarrow> off \<le> length b
    \<Longrightarrow> length b < 4294967296
    \<Longrightarrow> liveLoop (hdr_size sc) b off n = Some (n + length (images (filter live rs)))"
proof (induction rs arbitrary: off n)
  case Nil
  then show ?case by (subst liveLoop.simps) simp
next
  case (Cons r rs)
  have r: "rec_ok sc r" and d: "drop off b = recImage r @ images rs" using Cons.prems(1,3) by simp_all
  note rr = rec_reads_at [OF r Cons.prems(2) d Cons.prems(4,5)]
  have "liveLoop (hdr_size sc) b off n = liveLoop (hdr_size sc) b (off + rec_size r) (if live r then n + rec_size r else n)"
    using rr by (subst liveLoop.simps) (simp add: live_def)
  then show ?case
    using Cons.IH [of "off + rec_size r"] Cons.prems drop_past [OF d] drop_fits [OF d Cons.prems(4)] by simp
qed

lemma cinv_append:
  assumes c: "cinv fh n ds (r # rs) b w off sc idx" and r: "live r"
  shows "cinv fh n (ds @ [r]) rs b w (off + rec_size r) (sc @ recImage r) (AList.update (r_key r) (w + length sc) idx)"
proof -
  have d: "drop off b = recImage r @ images rs" "off \<le> length b" and X: "take w b @ sc = fh @ images (filter live ds)"
    and w: "w \<le> length b" "length fh = SDB_FILE_HDR" using c by (auto simp: cinv_def)
  have len: "w + length sc = SDB_FILE_HDR + length (images (filter live ds))"
    using arg_cong [OF X, of length] w by simp
  note ix = cinv_index_step [OF c r, of "AList.update (r_key r) (w + length sc) idx", unfolded len, OF refl]
  have "take w b @ sc @ recImage r = fh @ images (filter live (ds @ [r]))" using X r by (simp flip: append_assoc)
  then show ?thesis
    using c r ix drop_past [OF d(1)] drop_fits [OF d] len unfolding cinv_def by auto
qed

lemma relocateLoop_images:
  assumes "cinv fh n ds rs b 0 off nb idx" "list_all (rec_ok sc) rs" "schema_ok sc" "n < 4294967296"
    "SDB_FILE_HDR + length (images (filter live (ds @ rs))) \<le> newcap"
  shows "\<exists>nb' idx'. relocateLoop (hdr_size sc) newcap b off nb kept idx = Some (nb', kept + length (filter live rs), idx')
         \<and> cinv fh n (ds @ rs) [] b 0 n nb' idx'"
  using assms(1,2,5)
proof (induction rs arbitrary: ds off nb idx kept)
  case Nil
  then have "off = length b" "length b = n" by (auto simp: cinv_def)
  then show ?case using Nil by (subst relocateLoop.simps) auto
next
  case (Cons r rs)
  have r: "rec_ok sc r" "list_all (rec_ok sc) rs" using Cons.prems(2) by simp_all
  have d: "drop off b = recImage r @ images rs" "off \<le> length b" "length b = n"
    and fh: "length fh = SDB_FILE_HDR" and nb: "nb = fh @ images (filter live ds)"
    using Cons.prems(1) by (auto simp: cinv_def)
  have n: "length b < 4294967296" using d(3) assms(4) by simp
  note rr = rec_reads_at [OF r(1) assms(3) d(1,2) n]
  show ?case
  proof (cases "live r")
    case False
    have "relocateLoop (hdr_size sc) newcap b off nb kept idx = relocateLoop (hdr_size sc) newcap b (off + rec_size r) nb kept idx"
      using rr False by (subst relocateLoop.simps) (simp add: live_def)
    then show ?thesis
      using Cons.IH [OF cinv_dead [OF Cons.prems(1) False] r(2), of kept] Cons.prems(3) False by simp
  next
    case True
    have fits: "length nb + rec_size r \<le> newcap" using Cons.prems(3) True nb fh by simp
    have "length (nb @ recImage r) < 4294967296"
      using cinv_le [OF Cons.prems(1)] drop_fits [OF d(1,2)] n by simp
    then have ri: "sdbReindexRec (hdr_size sc) (nb @ recImage r) (length nb) (length nb) idx
        = Some (AList.update (r_key r) (length nb) idx)"
      using reindex_rec [OF r(1) assms(3), of "nb @ recImage r" nb "[]"] by simp
    have "relocateLoop (hdr_size sc) newcap b off nb kept idx
        = relocateLoop (hdr_size sc) newcap b (off + rec_size r) (nb @ recImage r) (kept + 1) (AList.update (r_key r) (length nb) idx)"
      using rr True fits ri by (subst relocateLoop.simps) (simp add: live_def)
    then show ?thesis
      using Cons.IH [OF cinv_append [OF Cons.prems(1) True] r(2), of "kept + 1"] Cons.prems(3) True by simp
  qed
qed

lemma reclaimInPlace_reps:
  assumes "reps s rs"
  shows "\<exists>ok s'. reclaimInPlace s m = Some (ok, s') \<and> reps s' (filter live rs) \<and> frame s s'
           \<and> (ok \<longrightarrow> s_used s' + m \<le> s_cap s')"
  using sdbCompactInPlace_reps [OF assms] by (auto simp: reclaimInPlace_def frame_def)

lemma relocate_reps:
  assumes "reps s rs" "SDB_FILE_HDR + length (images (filter live rs)) \<le> newcap" "newcap < 2147483648"
    and L: "relocateLoop (hdr_size (s_schema s)) newcap (s_block s) SDB_FILE_HDR (take SDB_FILE_HDR (s_block s)) 0 (s_index s)
              = Some (nb, kept, idx)"
    and s': "s' = (writeFileHeader (s\<lparr>s_block := nb, s_cap := newcap, s_index := idx\<rparr>) kept)\<lparr>grow_failed := False\<rparr>"
  shows "reps s' (filter live rs)" "frame s s'"
proof -
  have r: "list_all (rec_ok (s_schema s)) rs" "schema_ok (s_schema s)" using assms(1) by (auto simp: reps_def)
  obtain fh where fh: "length fh = SDB_FILE_HDR" "s_block s = fh @ images rs" using assms(1) by (auto simp: reps_def)
  have "cinv fh (s_used s) [] rs (s_block s) 0 SDB_FILE_HDR fh (s_index s)"
    using assms(1) fh by (auto simp: reps_def cinv_def)
  then have "kept = length (filter live rs)" and c: "cinv fh (s_used s) rs [] (s_block s) 0 (s_used s) nb idx"
    using relocateLoop_images [OF _ r reps_used [OF assms(1)], of fh "[]" "s_block s" SDB_FILE_HDR fh "s_index s" newcap 0]
      assms(2) fh L by auto
  then have nb: "nb = fh @ images (filter live rs)" by (auto simp: cinv_def)
  have blk: "s_block s' = fileHeader (s_schema s) kept @ images (filter live rs)"
    using fh nb by (simp add: s' writeFileHeader_def)
  have "list_all (rec_ok (s_schema s)) (filter live rs)" using r(1) by (auto simp: list_all_iff)
  then show "reps s' (filter live rs)"
    using c blk assms(1,2,3) unfolding reps_def cinv_def by (auto simp: s' writeFileHeader_def)
  show "frame s s'" by (simp add: s' frame_def writeFileHeader_def)
qed

lemma reclaimForAppend_reps:
  assumes "reps s rs" "heap_ok h"
  shows "\<exists>ok s'. reclaimForAppend h s m = Some (ok, s') \<and> reps s' (filter live rs) \<and> frame s s'
           \<and> (ok \<longrightarrow> s_used s' + m \<le> s_cap s')"
proof -
  define lb where "lb = SDB_FILE_HDR + length (images (filter live rs))"
  define nc where "nc = pageRound (max (lb + lb div 5) (lb + m))"
  have r: "list_all (rec_ok (s_schema s)) rs" "schema_ok (s_schema s)" using assms(1) by (auto simp: reps_def)
  obtain fh where fh: "length fh = SDB_FILE_HDR" "s_block s = fh @ images rs" using assms(1) by (auto simp: reps_def)
  have lv: "liveLoop (hdr_size (s_schema s)) (s_block s) SDB_FILE_HDR SDB_FILE_HDR = Some lb"
    using liveLoop_images [OF r, of SDB_FILE_HDR "s_block s" SDB_FILE_HDR] fh reps_used [OF assms(1)]
    by (simp add: lb_def)
  show ?thesis
  proof (cases "lb * 10 \<ge> s_cap s * 9 \<and> h_alloc h nc")
    case True
    have nc: "lb \<le> nc" "nc < 2147483648"
      using pageRound_ge [of "max (lb + lb div 5) (lb + m)"] assms(2) True
      by (simp add: nc_def) (use True assms(2) in \<open>auto simp: heap_ok_def\<close>)
    have "cinv fh (s_used s) [] rs (s_block s) 0 SDB_FILE_HDR fh (s_index s)"
      using assms(1) fh by (auto simp: reps_def cinv_def)
    then obtain nb idx where L: "relocateLoop (hdr_size (s_schema s)) nc (s_block s) SDB_FILE_HDR
        (take SDB_FILE_HDR (s_block s)) 0 (s_index s) = Some (nb, length (filter live rs), idx)"
      using relocateLoop_images [OF _ r reps_used [OF assms(1)], of fh "[]" "s_block s" SDB_FILE_HDR fh "s_index s" nc 0]
        nc(1) fh by (auto simp: lb_def)
    define s' where "s' = (writeFileHeader (s\<lparr>s_block := nb, s_cap := nc, s_index := idx\<rparr>) (length (filter live rs)))\<lparr>grow_failed := False\<rparr>"
    have "reclaimForAppend h s m = Some (s_used s' + m \<le> s_cap s', s')"
      using True lv L by (simp add: reclaimForAppend_def s'_def nc_def Let_def)
    then show ?thesis using relocate_reps [OF assms(1) _ nc(2) L s'_def] nc(1) by (simp add: lb_def)
  next
    case False
    then have "reclaimForAppend h s m = reclaimInPlace s m"
      using lv by (auto simp: reclaimForAppend_def nc_def Let_def)
    then show ?thesis using reclaimInPlace_reps [OF assms(1), of m] by simp
  qed
qed

subsection \<open>Appending\<close>

lemma reps_append:
  assumes "reps s rs" "rec_ok (s_schema s) r" "live r" "r_key r \<notin> r_key ` set (filter live rs)"
    "s_used s + rec_size r \<le> s_cap s"
  shows "reps (s\<lparr>s_block := s_block s @ recImage r, s_index := AList.update (r_key r) (s_used s) (s_index s)\<rparr>) (rs @ [r])"
proof -
  obtain fh where fh: "length fh = SDB_FILE_HDR" "s_block s = fh @ images rs" using assms(1) by (auto simp: reps_def)
  have "map_of (liveIdx SDB_FILE_HDR rs) (r_key r) = None"
    using assms(4) by (simp add: map_of_eq_None_iff liveIdx_keys_set)
  then have "(map_of (liveIdx SDB_FILE_HDR rs))(r_key r \<mapsto> s_used s) = map_of (liveIdx SDB_FILE_HDR (rs @ [r]))"
    using fh assms(3) by (auto simp: liveIdx_append fun_eq_iff map_add_def split: option.splits)
  then show ?thesis
    using assms fh by (auto simp: reps_def update_conv' distinct_update)
qed

lemma appendRecord_ok:
  assumes "store_ok s L" "heap_ok h" "rec_ok (s_schema s) r" "live r" "r_key r \<notin> r_key ` set L"
  shows "\<exists>ok s'. appendRecord h s (r_key r) (recImage r) = Some (ok, s') \<and> frame s s'
           \<and> store_ok s' (if ok then L @ [r] else L)
           \<and> (heap_grants h (s_used s + rec_size r) \<longrightarrow> ok \<and> s_used s' = s_used s + rec_size r)"
proof -
  obtain rs where rs: "reps s rs" "L = filter live rs" using assms(1) by (auto simp: store_ok_def)
  obtain ok1 s1 where e: "ensureCap h s (s_used s + rec_size r) = (ok1, s1)" by fastforce
  note ec = ensureCap_reps [OF rs(1) assms(2) _ e, simplified]
  have app: "store_ok (t\<lparr>s_block := s_block t @ recImage r, s_index := AList.update (r_key r) (s_used t) (s_index t)\<rparr>) (L @ [r])
      \<and> frame t (t\<lparr>s_block := s_block t @ recImage r, s_index := AList.update (r_key r) (s_used t) (s_index t)\<rparr>)"
    if "reps t rs'" "filter live rs' = L" "frame s t" "s_used t + rec_size r \<le> s_cap t" for t rs'
  proof -
    have "s_schema t = s_schema s" using that(3) by (simp add: frame_def)
    then have "reps (t\<lparr>s_block := s_block t @ recImage r, s_index := AList.update (r_key r) (s_used t) (s_index t)\<rparr>) (rs' @ [r])"
      using reps_append [OF that(1), of r] assms(3,4,5) that(2,4) by simp
    then show ?thesis using that(2) assms(4) by (auto simp: store_ok_def frame_def intro!: exI [of _ "rs' @ [r]"])
  qed
  show ?thesis
  proof (cases ok1)
    case True
    have cap: "s_used s1 + rec_size r \<le> s_cap s1" using ec True by simp
    from app [OF ec(1) _ ec(2) cap] rs(2) show ?thesis
      using True e cap frame_trans [OF ec(2)] ec(3) by (auto simp: appendRecord_def)
  next
    case False
    obtain ok2 s2 where r2: "reclaimForAppend h s1 (rec_size r) = Some (ok2, s2)" "reps s2 (filter live rs)"
      "frame s1 s2" "ok2 \<longrightarrow> s_used s2 + rec_size r \<le> s_cap s2"
      using reclaimForAppend_reps [OF ec(1) assms(2), of "rec_size r"] by auto
    have f: "frame s s2" by (rule frame_trans [OF ec(2) r2(3)])
    show ?thesis
    proof (cases ok2)
      case True
      then have cap: "s_used s2 + rec_size r \<le> s_cap s2" using r2(4) by simp
      from app [OF r2(2) _ f cap] rs(2) show ?thesis
        using True False e cap r2(1) frame_trans [OF f] ec(6) by (auto simp: appendRecord_def)
    next
      case F2: False
      have "store_ok s2 L" using r2(2) rs(2) by (auto simp: store_ok_def)
      then show ?thesis using F2 False e r2(1) f ec(6) by (auto simp: appendRecord_def)
    qed
  qed
qed

end
