(* ===== verification/Sdb_Access.thy ===== *)
theory Sdb_Access
  imports Sdb_Append
begin

unbundle bit_operations_syntax

section \<open>Fields of records\<close>

text \<open>
  The record access operations on the list of live records a store represents: reading a
  field, the slots an in-place write changes, text rebuilds, creation and deletion.
\<close>

definition recField :: "sdb_rec \<Rightarrow> sdb_field \<Rightarrow> bytes" where
  "recField r fd =
     (case f_kind fd of
        SDB_U8 \<Rightarrow> bytes_of (nat_str (unat (r_hdr r ! f_off fd)))
      | SDB_U32 \<Rightarrow> bytes_of (nat_str (unat (of_le32 (slice (f_off fd) 4 (r_hdr r)))))
      | SDB_FIXSTR \<Rightarrow> cstr_field (slice (f_off fd) (f_width fd) (r_hdr r))
      | SDB_DATA \<Rightarrow> (let p = slice (f_off fd) (f_width fd) (r_hdr r)
                      in if isAllZero p then [] else hexEncodeBytes p)
      | SDB_TEXT \<Rightarrow> r_texts r ! f_off fd
      | SDB_OTHER _ \<Rightarrow> [])"

definition lookupRec :: "sdb_rec list \<Rightarrow> bytes \<Rightarrow> sdb_rec option" where
  "lookupRec L key = List.find (\<lambda>r. r_key r = key) L"

definition specGet :: "sdb_schema \<Rightarrow> sdb_rec list \<Rightarrow> bytes \<Rightarrow> bytes \<Rightarrow> bytes option" where
  "specGet sc L key field =
     (case lookupRec L key of None \<Rightarrow> None | Some r \<Rightarrow> map_option (recField r) (sdb_find sc field))"

subsection \<open>Finding a record\<close>

lemma filter_split:
  "filter P rs = La @ r # Lb \<Longrightarrow> \<exists>as bs. rs = as @ r # bs \<and> filter P as = La \<and> filter P bs = Lb \<and> P r"
proof (induction rs arbitrary: La)
  case (Cons x rs)
  show ?case
  proof (cases "P x \<and> La = []")
    case True
    then show ?thesis using Cons.prems by (intro exI [of _ "[]"] exI [of _ rs]) auto
  next
    case False
    then have "filter P rs = (if P x then tl La else La) @ r # Lb" using Cons.prems by (cases La) auto
    from Cons.IH [OF this] obtain as bs where "rs = as @ r # bs" "filter P as = (if P x then tl La else La)"
      "filter P bs = Lb" "P r" by blast
    then show ?thesis
      using False Cons.prems by (intro exI [of _ "x # as"] exI [of _ bs]) (cases La; auto split: if_splits)
  qed
qed simp

lemma store_split:
  assumes "store_ok s (La @ r # Lb)"
  obtains as bs where "reps s (as @ r # bs)" "filter live as = La" "filter live bs = Lb" "live r"
proof -
  obtain rs where rs: "reps s rs" "filter live rs = La @ r # Lb" using assms by (auto simp: store_ok_def)
  with filter_split [OF rs(2)] that show ?thesis by blast
qed

lemma store_keys:
  assumes "store_ok s L"
  shows "distinct (map r_key L)" "distinct (map fst (s_index s))" "set (map fst (s_index s)) = r_key ` set L"
    "length (s_index s) = length L" "findRec s key = None \<longleftrightarrow> key \<notin> r_key ` set L"
proof -
  obtain rs where rs: "reps s rs" "filter live rs = L" using assms by (auto simp: store_ok_def)
  show d: "distinct (map r_key L)" "distinct (map fst (s_index s))" using rs by (auto simp: reps_def)
  have m: "map_of (s_index s) = map_of (liveIdx SDB_FILE_HDR rs)" using rs(1) by (simp add: reps_def)
  show k: "set (map fst (s_index s)) = r_key ` set L"
    using arg_cong [OF m, of dom] rs(2) liveIdx_keys_set [of SDB_FILE_HDR rs] by (simp add: dom_map_of_conv_image_fst)
  show "length (s_index s) = length L"
    using distinct_card [OF d(1)] distinct_card [OF d(2)] k by simp
  show "findRec s key = None \<longleftrightarrow> key \<notin> r_key ` set L"
    using k by (simp add: findRec_def map_of_eq_None_iff)
qed

lemma findRec_reps:
  assumes "reps s (as @ r # bs)" "live r"
  shows "findRec s (r_key r) = Some (SDB_FILE_HDR + length (images as))"
    "drop (SDB_FILE_HDR + length (images as)) (s_block s) = recImage r @ images bs"
    "SDB_FILE_HDR + length (images as) \<le> s_used s"
proof -
  obtain fh where fh: "length fh = SDB_FILE_HDR" "s_block s = fh @ images (as @ r # bs)"
    using assms(1) by (auto simp: reps_def)
  have "distinct (map r_key (filter live (as @ r # bs)))" "map_of (s_index s) = map_of (liveIdx SDB_FILE_HDR (as @ r # bs))"
    using assms(1) by (auto simp: reps_def)
  moreover from this(1) have "map_of (liveIdx SDB_FILE_HDR as) (r_key r) = None"
    using assms(2) by (auto simp: map_of_eq_None_iff liveIdx_keys_set)
  ultimately show "findRec s (r_key r) = Some (SDB_FILE_HDR + length (images as))"
    using assms(2) by (simp add: findRec_def liveIdx_append map_add_def)
  show "drop (SDB_FILE_HDR + length (images as)) (s_block s) = recImage r @ images bs"
    "SDB_FILE_HDR + length (images as) \<le> s_used s" using fh by simp_all
qed

lemma lookupRec_None: "lookupRec L key = None \<longleftrightarrow> key \<notin> r_key ` set L"
  by (auto simp: lookupRec_def find_None_iff)

lemma lookupRec_Some:
  assumes "lookupRec L key = Some r"
  obtains La Lb where "L = La @ r # Lb" "r_key r = key" "key \<notin> r_key ` set La"
proof -
  from assms obtain i where i: "i < length L" "r_key (L ! i) = key" "r = L ! i" "\<forall>j<i. r_key (L ! j) \<noteq> key"
    by (auto simp: lookupRec_def find_Some_iff)
  have "key \<notin> r_key ` set (take i L)" using i(1,4) by (force simp: in_set_conv_nth)
  then show ?thesis using that [of "take i L" "drop (Suc i) L"] id_take_nth_drop [OF i(1)] i(2,3) by simp
qed

lemma lookupRec_mid: "key \<notin> r_key ` set La \<Longrightarrow> r_key r = key \<Longrightarrow> lookupRec (La @ r # Lb) key = Some r"
  by (induction La) (auto simp: lookupRec_def)

lemma lookupRec_other: "r_key r \<noteq> key \<Longrightarrow> lookupRec (La @ r # Lb) key = lookupRec (La @ Lb) key"
  by (induction La) (auto simp: lookupRec_def)

subsection \<open>Reading\<close>

lemma hdr_slice:
  assumes "rec_ok sc r" "drop off b = recImage r @ post" "off \<le> length b" "ofs + n \<le> hdr_size sc"
  shows "rdBytes b (off + ofs) n = Some (slice ofs n (r_hdr r))"
proof -
  have l: "length (r_hdr r) = hdr_size sc" using assms(1) by (simp add: rec_ok_def)
  have "slice (off + ofs) n b = slice ofs n (drop off b)" by (simp add: slice_def add.commute)
  also have "\<dots> = slice ofs n (r_hdr r)"
    unfolding assms(2) recImage_def append_assoc using assms(4) l by (intro slice_append_left) simp
  finally have "slice (off + ofs) n b = slice ofs n (r_hdr r)" .
  moreover have "off + ofs + n \<le> length b"
    using drop_fits [OF assms(2,3)] assms(4) l by (simp add: recImage_def)
  ultimately show ?thesis by (simp add: rdBytes_def)
qed

lemma fixed_bounds:
  assumes "schema_ok sc" "fd \<in> set (sfields sc)" "is_fixed fd"
  shows "8 \<le> f_off fd" "f_off fd + fixed_width fd \<le> hdr_size sc"
  using schema_ok_field [OF assms(1,2)] assms(3) by (auto simp: field_ok_def SDB_HDR_BUILTIN_def)

lemma slice_one: "ofs < length xs \<Longrightarrow> slice ofs 1 xs = [xs ! ofs]"
  by (simp add: slice_def flip: Cons_nth_drop_Suc)

lemma rdU8_rdBytes: "rdU8 b ofs = map_option (\<lambda>p. p ! 0) (rdBytes b ofs 1)"
  using slice_one [of ofs b] by (auto simp: rdU8_def rdBytes_def)

lemma readField_rec:
  assumes "rec_ok sc r" "schema_ok sc" "fd \<in> set (sfields sc)" "drop off b = recImage r @ post"
    "off \<le> length b" "length b < 4294967296"
  shows "readField sc b off fd = Some (Some (recField r fd))"
proof -
  note sl = hdr_slice [OF assms(1,4,5)]
  have l: "length (r_hdr r) = hdr_size sc" "length (r_texts r) = textCount sc" using assms(1) by (auto simp: rec_ok_def)
  have ok: "field_ok (hdr_size sc) fd" using schema_ok_field [OF assms(2,3)] .
  note rt = rec_reads_at(7) [OF assms(1,2,4,5,6)]
  show ?thesis
  proof (cases "f_kind fd")
    case SDB_U8
    then have "f_off fd + 1 \<le> hdr_size sc" using fixed_bounds [OF assms(2,3)] by (simp add: is_fixed_def fixed_width.simps)
    then show ?thesis
      using SDB_U8 sl [of "f_off fd" 1] l(1) slice_one [of "f_off fd" "r_hdr r"] by (simp add: readField_def recField_def rdU8_rdBytes)
  next
    case SDB_U32
    then have "f_off fd + 4 \<le> hdr_size sc" using fixed_bounds [OF assms(2,3)] by (simp add: is_fixed_def fixed_width.simps)
    then show ?thesis
      using SDB_U32 sl [of "f_off fd" 4] by (simp add: readField_def recField_def rdU32_def)
  next
    case SDB_FIXSTR
    then have "f_off fd + f_width fd \<le> hdr_size sc" using fixed_bounds [OF assms(2,3)] by (simp add: is_fixed_def fixed_width.simps)
    then show ?thesis
      using SDB_FIXSTR sl [of "f_off fd" "f_width fd"] by (simp add: readField_def recField_def)
  next
    case SDB_DATA
    then have "f_off fd + f_width fd \<le> hdr_size sc" using fixed_bounds [OF assms(2,3)] by (simp add: is_fixed_def fixed_width.simps)
    then show ?thesis
      using SDB_DATA sl [of "f_off fd" "f_width fd"] by (simp add: readField_def recField_def Let_def)
  next
    case SDB_TEXT
    then have "f_off fd < textCount sc" using text_index [OF assms(2,3)] by (simp add: is_text_def)
    then show ?thesis
      using SDB_TEXT rt l(2) by (simp add: readField_def recField_def readTextField_def)
  next
    case (SDB_OTHER b')
    then show ?thesis using ok by (simp add: field_ok_def is_fixed_def is_text_def)
  qed
qed

lemma reps_rec_ok: "reps s (as @ r # bs) \<Longrightarrow> rec_ok (s_schema s) r" "reps s rs \<Longrightarrow> schema_ok (s_schema s)" "reps s rs \<Longrightarrow> s_loaded s"
  by (auto simp: reps_def)

lemma store_ok_reps: "store_ok s L \<Longrightarrow> schema_ok (s_schema s) \<and> s_loaded s \<and> s_used s < 2147483648"
  by (auto simp: store_ok_def reps_def)

lemma sdbGetField_ok:
  assumes "store_ok s L"
  shows "sdbGetField s key field = Some (specGet (s_schema s) L key field)"
proof (cases "lookupRec L key")
  case None
  then have "findRec s key = None" using store_keys(5) [OF assms, of key] by (simp add: lookupRec_None)
  then show ?thesis using None store_ok_reps [OF assms] by (simp add: sdbGetField_def specGet_def)
next
  case (Some r)
  then obtain La Lb where L: "L = La @ r # Lb" "r_key r = key" by (rule lookupRec_Some)
  obtain as bs where as: "reps s (as @ r # bs)" "live r" using store_split assms L(1) by metis
  note f = findRec_reps [OF as]
  have "readField (s_schema s) (s_block s) (SDB_FILE_HDR + length (images as)) fd = Some (Some (recField r fd))"
    if "sdb_find (s_schema s) field = Some fd" for fd
    using readField_rec [OF reps_rec_ok(1) [OF as(1)] reps_rec_ok(2) [OF as(1)] _ f(2,3) reps_used [OF as(1)]] sdb_find_Some [OF that] by blast
  then show ?thesis
    using Some f(1) L(2) reps_rec_ok(3) [OF as(1)] by (auto simp: sdbGetField_def specGet_def split: option.split)
qed

subsection \<open>Replacing a record in place\<close>

lemma reps_replace:
  assumes "reps s (as @ r # bs)" "live r" "rec_ok (s_schema s) r'" "live r'" "r_key r' = r_key r"
    "rec_size r' = rec_size r" "off = SDB_FILE_HDR + length (images as)"
  shows "reps (s\<lparr>s_block := take off (s_block s) @ recImage r' @ images bs\<rparr>) (as @ r' # bs)"
proof -
  obtain fh where fh: "length fh = SDB_FILE_HDR" "s_block s = fh @ images (as @ r # bs)"
    using assms(1) by (auto simp: reps_def)
  have "liveIdx SDB_FILE_HDR (as @ r' # bs) = liveIdx SDB_FILE_HDR (as @ r # bs)"
    using assms by (simp add: liveIdx_append)
  then show ?thesis using assms fh by (auto simp: reps_def)
qed

lemma store_replace:
  assumes "reps s (as @ r # bs)" "live r" "filter live as = La" "filter live bs = Lb"
    "rec_ok (s_schema s) r'" "live r'" "r_key r' = r_key r" "rec_size r' = rec_size r"
    "off = SDB_FILE_HDR + length (images as)"
  shows "store_ok (s\<lparr>s_block := take off (s_block s) @ recImage r' @ images bs\<rparr>) (La @ r' # Lb)"
  using reps_replace [OF assms(1,2,5-9)] assms(3,4,6) by (auto simp: store_ok_def intro!: exI [of _ "as @ r' # bs"])

definition setSlot :: "sdb_rec \<Rightarrow> nat \<Rightarrow> bytes \<Rightarrow> sdb_rec" where
  "setSlot r ofs v = r\<lparr>r_hdr := overwrite (r_hdr r) ofs v\<rparr>"

lemma overwrite_append: "ofs + length v \<le> length xs \<Longrightarrow> overwrite (xs @ ys) ofs v = overwrite xs ofs v @ ys"
  by (simp add: overwrite_def)

lemma overwrite_shift: "length xs = n \<Longrightarrow> overwrite (xs @ ys) (n + ofs) v = xs @ overwrite ys ofs v"
  by (simp add: overwrite_def add.commute add.left_commute)

lemma slice_overwrite_other:
  assumes "o2 + n \<le> ofs \<or> ofs + length v \<le> o2" "ofs + length v \<le> length xs"
  shows "slice o2 n (overwrite xs ofs v) = slice o2 n xs"
proof (cases "o2 + n \<le> ofs")
  case True
  then have "slice o2 n (take ofs xs @ ys) = slice o2 n (take ofs xs @ zs)" for ys zs
    using assms(2) by (simp add: slice_def)
  from this [of "v @ drop (ofs + length v) xs" "drop ofs xs"] show ?thesis by (simp add: overwrite_def)
next
  case False
  then have o: "ofs + length v \<le> o2" using assms(1) by simp
  have "drop o2 (overwrite xs ofs v) = drop (o2 - (ofs + length v)) (drop (ofs + length v) xs)"
    using o assms(2) by (simp add: overwrite_def)
  also have "\<dots> = drop o2 xs" using o by simp
  finally show ?thesis by (simp add: slice_def)
qed

lemma setSlot_simps [simp]: "r_key (setSlot r ofs v) = r_key r" "r_texts (setSlot r ofs v) = r_texts r"
  by (simp_all add: setSlot_def)

lemma setSlot_ok:
  assumes r: "rec_ok sc r" and sc: "schema_ok sc" and o: "8 \<le> ofs" "ofs + length v \<le> hdr_size sc"
  shows "recImage (setSlot r ofs v) = overwrite (recImage r) ofs v" "rec_size (setSlot r ofs v) = rec_size r"
    "rec_ok sc (setSlot r ofs v)" "live (setSlot r ofs v) = live r"
proof -
  have l: "length (r_hdr r) = hdr_size sc" using r by (simp add: rec_ok_def)
  then show img: "recImage (setSlot r ofs v) = overwrite (recImage r) ofs v"
    using o by (simp add: recImage_def setSlot_def overwrite_append)
  have lo: "length (overwrite (r_hdr r) ofs v) = hdr_size sc" using o l by (simp add: length_overwrite)
  then show sz: "rec_size (setSlot r ofs v) = rec_size r"
    using l by (simp add: recImage_def setSlot_def)
  have "take 4 (overwrite (r_hdr r) ofs v) = take 4 (r_hdr r)" "overwrite (r_hdr r) ofs v ! 4 = r_hdr r ! 4"
    using o l by (simp_all add: overwrite_def nth_append)
  then show "rec_ok sc (setSlot r ofs v)" "live (setSlot r ofs v) = live r"
    using r sz lo by (simp_all add: rec_ok_def live_def SDB_FLAGS_OFF_def) (simp_all add: setSlot_def)
qed

lemma write_slot:
  assumes "rec_ok sc r" "schema_ok sc" "8 \<le> ofs" "ofs + length v \<le> hdr_size sc"
    "drop off b = recImage r @ post" "off \<le> length b"
  shows "wrBytes b (off + ofs) v = Some (take off b @ recImage (setSlot r ofs v) @ post)"
proof -
  have l: "ofs + length v \<le> rec_size r" using assms(1,4) by (simp add: rec_ok_def recImage_def)
  have b: "b = take off b @ recImage r @ post" by (rule drop_split [OF assms(5,6)])
  have "overwrite (take off b @ recImage r @ post) (off + ofs) v = take off b @ overwrite (recImage r @ post) ofs v"
    using assms(6) by (intro overwrite_shift) simp
  then have "overwrite b (off + ofs) v = take off b @ overwrite (recImage r @ post) ofs v"
    unfolding b [symmetric] .
  then have "overwrite b (off + ofs) v = take off b @ recImage (setSlot r ofs v) @ post"
    using l setSlot_ok(1) [OF assms(1-4)] by (simp add: overwrite_append)
  then show ?thesis using l drop_fits [OF assms(5,6)] by (simp add: wrBytes_def)
qed

subsection \<open>What a slot holds and how it reads back\<close>

definition canon :: "sdb_field \<Rightarrow> bytes \<Rightarrow> bytes" where
  "canon fd val =
     (case f_kind fd of
        SDB_U8 \<Rightarrow> bytes_of (nat_str (nat (atoi (str_of val) mod 256)))
      | SDB_U32 \<Rightarrow> bytes_of (nat_str (strtoul (str_of val)))
      | SDB_FIXSTR \<Rightarrow> take (f_width fd - 1) val
      | SDB_DATA \<Rightarrow>
          (let d = (if length val = f_width fd * 2 then hexDecodeInto val (f_width fd) else []);
               p = d @ replicate (f_width fd - length d) 0
           in if isAllZero p then [] else hexEncodeBytes p)
      | SDB_TEXT \<Rightarrow> val
      | SDB_OTHER _ \<Rightarrow> [])"

lemma slotBytes_ok:
  assumes "field_ok hs fd" "is_fixed fd"
  shows "\<exists>v. slotBytes fd val = Some v \<and> length v = fixed_width fd"
proof -
  have d: "length (if length val = f_width fd * 2 then hexDecodeInto val (f_width fd) else []) \<le> f_width fd"
    using length_hexDecodeInto [of val "f_width fd"] by simp
  have w: "f_kind fd = SDB_FIXSTR \<Longrightarrow> 0 < f_width fd" using assms(1) by (simp add: field_ok_def)
  show ?thesis
  proof (cases "f_kind fd")
    case SDB_DATA
    then show ?thesis using d by (simp add: slotBytes_def fixed_width.simps Let_def)
  next
    case SDB_FIXSTR
    then show ?thesis using w by (simp add: slotBytes_def fixed_width.simps Let_def)
  qed (use assms(2) in \<open>simp_all add: is_fixed_def slotBytes_def fixed_width.simps\<close>)
qed

lemma recField_setSlot_same:
  assumes "field_ok hs fd" "is_fixed fd" "slotBytes fd val = Some v" "0 \<notin> set val"
    "f_off fd + length v \<le> length (r_hdr r)"
  shows "recField (setSlot r (f_off fd) v) fd = canon fd val"
proof -
  have "length v = fixed_width fd" using slotBytes_ok [OF assms(1,2), of val] assms(3) by auto
  have s: "slice (f_off fd) (length v) (overwrite (r_hdr r) (f_off fd) v) = v"
    by (rule slice_overwrite [OF assms(5)])
  show ?thesis
  proof (cases "f_kind fd")
    case SDB_U8
    then have v: "v = [word_of_int (atoi (str_of val))]" using assms(3) by (simp add: slotBytes_def)
    then have "overwrite (r_hdr r) (f_off fd) v ! f_off fd = word_of_int (atoi (str_of val))"
      using assms(5) by (simp add: overwrite_def nth_append)
    moreover have "unat (word_of_int i :: byte) = nat (i mod 256)" for i
      by (simp add: unat_eq_nat_uint uint_word_of_int)
    ultimately show ?thesis using SDB_U8 by (simp add: recField_def canon_def setSlot_def)
  next
    case SDB_U32
    then have "v = le32 (of_nat (strtoul (str_of val)))" using assms(3) by (simp add: slotBytes_def)
    then show ?thesis
      using SDB_U32 s strtoul_range [of "str_of val"] by (simp add: recField_def canon_def setSlot_def unat_of_nat32)
  next
    case SDB_FIXSTR
    define l where "l = (if length val \<ge> f_width fd then f_width fd - 1 else length val)"
    have v: "v = take l val @ replicate (f_width fd - l) 0" "0 < f_width fd"
      using SDB_FIXSTR assms(1,3) by (auto simp: slotBytes_def l_def Let_def field_ok_def)
    have "length v = f_width fd" using v by (auto simp: l_def)
    moreover have "cstr_field v = take l val"
      using assms(4) v(1) by (metis cstr_field_padded in_set_takeD)
    moreover have "take l val = take (f_width fd - 1) val" using v(2) by (auto simp: l_def)
    ultimately show ?thesis using SDB_FIXSTR s by (simp add: recField_def canon_def setSlot_def)
  next
    case SDB_DATA
    define d where "d = (if length val = f_width fd * 2 then hexDecodeInto val (f_width fd) else [])"
    have "v = d @ replicate (f_width fd - length d) 0" using SDB_DATA assms(3) by (simp add: slotBytes_def d_def Let_def)
    moreover from this have "length v = f_width fd" using length_hexDecodeInto [of val "f_width fd"] by (auto simp: d_def)
    ultimately show ?thesis using SDB_DATA s by (simp add: recField_def canon_def setSlot_def d_def Let_def)
  qed (use assms(2) in \<open>auto simp: is_fixed_def\<close>)
qed

lemma recField_setSlot_other:
  assumes "schema_ok sc" "fd \<in> set (sfields sc)" "g \<in> set (sfields sc)" "is_fixed fd" "g \<noteq> fd"
    "length v = fixed_width fd" "length (r_hdr r) = hdr_size sc"
  shows "recField (setSlot r (f_off fd) v) g = recField r g"
proof (cases "is_fixed g")
  case True
  note fixed_disjoint [OF assms(1-4) True] fixed_bounds [OF assms(1,2,4)] fixed_bounds [OF assms(1,3) True]
  then have s: "slice (f_off g) n (overwrite (r_hdr r) (f_off fd) v) = slice (f_off g) n (r_hdr r)" if "n \<le> fixed_width g" for n
    using assms(5-7) that by (intro slice_overwrite_other) auto
  have l: "f_off g + fixed_width g \<le> length (overwrite (r_hdr r) (f_off fd) v)"
    using fixed_bounds [OF assms(1,2,4)] fixed_bounds [OF assms(1,3) True] assms(6,7) by (simp add: length_overwrite)
  have "overwrite (r_hdr r) (f_off fd) v ! f_off g = r_hdr r ! f_off g" if "f_kind g = SDB_U8"
    using s [of 1] that l slice_one [of "f_off g" "r_hdr r"] slice_one [of "f_off g" "overwrite (r_hdr r) (f_off fd) v"]
      fixed_bounds [OF assms(1,3) True] assms(7)
    by (simp add: fixed_width.simps)
  then show ?thesis
    using s True by (auto simp: recField_def setSlot_def is_fixed_def fixed_width.simps)
next
  case False
  then have "f_kind g = SDB_TEXT"
    using schema_ok_field [OF assms(1,3)] by (auto simp: field_ok_def is_text_def)
  then show ?thesis by (simp add: recField_def)
qed

end
