(* ===== verification/Sdb_Set.thy ===== *)
theory Sdb_Set
  imports Sdb_Access
begin

unbundle bit_operations_syntax

section \<open>Setting fields\<close>

text \<open>
  \<open>sdbSetField\<close> and \<open>sdbDeleteRecord\<close> on the list of live records: a fixed field changes in
  its slot, a text field in place when the record keeps its size and by moving the record to
  the end when it does not, a new key appends a zeroed record and the ephemeral cap drops a
  batch of the oldest. \<open>setSpec\<close> is this as a relation; the theorem about \<open>sdbSetField\<close> says the
  operation returns, keeps the invariant and realises it, or fails to get memory.
\<close>

definition mkRec :: "bytes \<Rightarrow> bytes \<Rightarrow> bytes list \<Rightarrow> sdb_rec" where
  "mkRec hdr key ts =
     \<lparr>r_hdr = overwrite hdr 0 (le32 (of_nat (length (hdr @ prefixed key @ concat (map prefixed ts))))),
      r_key = key, r_texts = ts\<rparr>"

lemma mkRec_simps [simp]: "r_key (mkRec hdr key ts) = key" "r_texts (mkRec hdr key ts) = ts"
  by (simp_all add: mkRec_def)

lemma mkRec_hdr:
  assumes "8 \<le> length hdr"
  shows "length (r_hdr (mkRec hdr key ts)) = length hdr" "r_hdr (mkRec hdr key ts) ! 4 = hdr ! 4"
    "take 4 (r_hdr (mkRec hdr key ts)) = le32 (of_nat (rec_size (mkRec hdr key ts)))"
    "rec_size (mkRec hdr key ts) = length (hdr @ prefixed key @ concat (map prefixed ts))"
  using assms by (simp_all add: mkRec_def overwrite_def nth_append recImage_def)

lemma buildRecord_image: "8 \<le> length hdr \<Longrightarrow> buildRecord hdr key ts = recImage (mkRec hdr key ts)"
proof -
  assume l: "8 \<le> length hdr"
  define r n where "r = hdr @ prefixed key @ concat (map prefixed ts)" and "n = le32 (of_nat (length r))"
  have n: "length n = 4" by (simp add: n_def)
  have "overwrite r 0 n = overwrite hdr 0 n @ prefixed key @ concat (map prefixed ts)"
    unfolding r_def using l n by (subst overwrite_append) simp_all
  moreover have "overwrite r 0 n ! 4 = hdr ! 4" using l n by (simp add: overwrite_def r_def nth_append)
  then have "(overwrite r 0 n)[4 := hdr ! 4] = overwrite r 0 n" by (metis list_update_id)
  ultimately show ?thesis
    by (simp add: buildRecord_def Let_def mkRec_def recImage_def SDB_REC_LEN_OFF_def SDB_FLAGS_OFF_def flip: r_def n_def)
qed

lemma mkRec_ok:
  assumes "length hdr = hdr_size sc" "schema_ok sc" "length key < 65536" "length ts = textCount sc"
    "list_all (\<lambda>t. length t < 65536) ts" "rec_size (mkRec hdr key ts) < 4294967296"
  shows "rec_ok sc (mkRec hdr key ts)"
proof -
  have "8 \<le> length hdr" using assms(1,2) by (simp add: schema_ok_def SDB_HDR_BUILTIN_def)
  from mkRec_hdr [OF this, of key ts] show ?thesis using assms by (simp add: rec_ok_def)
qed

lemma mkRec_live: "8 \<le> length hdr \<Longrightarrow> live (mkRec hdr key ts) \<longleftrightarrow> \<not> isDeleted (hdr ! 4)"
  by (simp add: live_def SDB_FLAGS_OFF_def mkRec_hdr)

lemma mkRec_same:
  assumes "rec_ok sc r" "schema_ok sc"
  shows "mkRec (r_hdr r) (r_key r) (r_texts r) = r"
proof -
  note h = rec_hdr_slices [OF assms]
  have "overwrite (r_hdr r) 0 (take 4 (r_hdr r)) = r_hdr r" using h(3) by (simp add: overwrite_def)
  then have "overwrite (r_hdr r) 0 (le32 (of_nat (rec_size r))) = r_hdr r" using assms(1) by (simp add: rec_ok_def)
  then show ?thesis by (simp add: mkRec_def recImage_def)
qed

lemma recField_mkRec_fixed:
  assumes "schema_ok sc" "g \<in> set (sfields sc)" "is_fixed g" "length hdr = hdr_size sc" "r_hdr r = hdr"
  shows "recField (mkRec hdr key ts) g = recField r g"
proof -
  note b = fixed_bounds [OF assms(1-3)]
  define v :: bytes where "v = le32 (of_nat (length (hdr @ prefixed key @ concat (map prefixed ts))))"
  have lv: "length v = 4" by (simp add: v_def)
  have s: "slice (f_off g) n (overwrite hdr 0 v) = slice (f_off g) n hdr" for n
    using b assms(4) lv by (intro slice_overwrite_other) auto
  have "overwrite hdr 0 v ! f_off g = hdr ! f_off g" if "f_kind g = SDB_U8"
    using b assms(4) lv that by (simp add: overwrite_def nth_append fixed_width.simps)
  moreover have "r_hdr (mkRec hdr key ts) = overwrite hdr 0 v" by (simp add: mkRec_def v_def)
  ultimately show ?thesis
    using s assms(3,5) by (auto simp: recField_def is_fixed_def)
qed

subsection \<open>Fixed fields\<close>

definition kept :: "sdb_store \<Rightarrow> sdb_store \<Rightarrow> bool" where
  "kept s s' \<longleftrightarrow> s_schema s' = s_schema s \<and> s_path s' = s_path s \<and> cap_records s' = cap_records s
     \<and> s_loaded s' = s_loaded s"

lemma frame_kept: "frame s s' \<Longrightarrow> kept s s'" by (simp add: frame_def kept_def)
lemma kept_trans: "kept s t \<Longrightarrow> kept t u \<Longrightarrow> kept s u" by (simp add: kept_def)
lemma kept_refl [simp]: "kept s s" by (simp add: kept_def)

lemma storeField_fixed:
  assumes "store_ok s (La @ r # Lb)" "fd \<in> set (sfields (s_schema s))" "is_fixed fd"
    "findRec s (r_key r) = Some off"
  shows "\<exists>v s'. storeField h s off fd val = Some s' \<and> kept s s' \<and> s_dirty s' \<and> slotBytes fd val = Some v
     \<and> length v = fixed_width fd \<and> store_ok s' (La @ setSlot r (f_off fd) v # Lb)"
proof -
  obtain as bs where as: "reps s (as @ r # bs)" "filter live as = La" "filter live bs = Lb" "live r"
    by (rule store_split [OF assms(1)])
  note f = findRec_reps [OF as(1,4)] and ok = reps_rec_ok(1) [OF as(1)] and sc = reps_rec_ok(2) [OF as(1)]
  have off: "off = SDB_FILE_HDR + length (images as)" using f(1) assms(4) by simp
  note fb = fixed_bounds [OF sc assms(2,3)]
  obtain v where v: "slotBytes fd val = Some v" "length v = fixed_width fd"
    using slotBytes_ok [OF schema_ok_field [OF sc assms(2)] assms(3), of val] by auto
  have d: "drop off (s_block s) = recImage r @ images bs" "off \<le> s_used s" using f(2,3) off by simp_all
  define r' where "r' = setSlot r (f_off fd) v"
  define b where "b = take off (s_block s) @ recImage r' @ images bs"
  have fb': "f_off fd + length v \<le> hdr_size (s_schema s)" using fb v(2) by simp
  note so = setSlot_ok [OF ok sc fb(1) fb']
  have "wrBytes (s_block s) (off + f_off fd) v = Some b"
    unfolding b_def r'_def by (rule write_slot [OF ok sc fb(1) fb' d])
  moreover have "v = [] \<Longrightarrow> b = s_block s"
    using drop_split [OF d] by (simp add: b_def r'_def setSlot_def)
  moreover have "f_kind fd \<noteq> SDB_TEXT" using assms(3) by (auto simp: is_fixed_def)
  ultimately have "storeField h s off fd val = Some (s\<lparr>s_block := b, s_dirty := True\<rparr>)"
    using v(1) by (auto simp: storeField_def)
  moreover have "store_ok (s\<lparr>s_block := b\<rparr>) (La @ r' # Lb)"
    unfolding b_def using as so off by (intro store_replace [OF as(1,4)]) (auto simp: r'_def)
  then have "store_ok ((s\<lparr>s_block := b\<rparr>)\<lparr>s_dirty := True\<rparr>) (La @ r' # Lb)" by (subst store_ok_flag)
  ultimately show ?thesis using v by (auto simp: kept_def r'_def)
qed

subsection \<open>Tombstoning the record of a key\<close>

lemma reps_tomb:
  assumes "reps s (as @ r # bs)" "live r" "off = SDB_FILE_HDR + length (images as)"
  shows "reps (s\<lparr>s_block := take off (s_block s) @ recImage (tomb r) @ images bs,
                 s_index := AList.delete (r_key r) (s_index s)\<rparr>) (as @ tomb r # bs)"
proof -
  obtain fh where fh: "length fh = SDB_FILE_HDR" "s_block s = fh @ images (as @ r # bs)"
    using assms(1) by (auto simp: reps_def)
  note t = tomb_ok [OF reps_rec_ok(1) [OF assms(1)] reps_rec_ok(2) [OF assms(1)]]
  have dist: "distinct (map r_key (filter live (as @ r # bs)))" using assms(1) by (simp add: reps_def)
  define la lb where "la = liveIdx SDB_FILE_HDR as" and "lb = liveIdx (off + rec_size r) bs"
  have "r_key r \<notin> fst ` set la" "r_key r \<notin> fst ` set lb"
    using dist assms(2) by (auto simp: la_def lb_def liveIdx_keys_set)
  then have "map_of la (r_key r) = None" "map_of lb (r_key r) = None" by (simp_all only: map_of_eq_None_iff not_False_eq_True)
  then have "(map_of (la @ (r_key r, off) # lb))(r_key r := None) = map_of (la @ lb)"
    by (auto simp: fun_eq_iff map_add_def split: option.splits)
  moreover have "liveIdx SDB_FILE_HDR (as @ r # bs) = la @ (r_key r, off) # lb"
    "liveIdx SDB_FILE_HDR (as @ tomb r # bs) = la @ lb"
    using assms(2,3) t by (simp_all add: liveIdx_append la_def lb_def)
  moreover have "map_of (s_index s) = map_of (liveIdx SDB_FILE_HDR (as @ r # bs))" using assms(1) by (simp add: reps_def)
  ultimately have "map_of (AList.delete (r_key r) (s_index s)) = map_of (liveIdx SDB_FILE_HDR (as @ tomb r # bs))"
    by (simp add: delete_conv')
  then show ?thesis using assms fh t dist by (auto simp: reps_def distinct_delete)
qed

lemma tombstone_ok:
  assumes "store_ok s (La @ r # Lb)" "findRec s (r_key r) = Some off"
  shows "\<exists>b. rdU8 (s_block s) (off + SDB_FLAGS_OFF) = Some (r_hdr r ! SDB_FLAGS_OFF)
     \<and> wrBytes (s_block s) (off + SDB_FLAGS_OFF) [r_hdr r ! SDB_FLAGS_OFF OR SDB_FLAG_DELETED] = Some b
     \<and> length b = s_used s
     \<and> store_ok (s\<lparr>s_block := b, s_index := AList.delete (r_key r) (s_index s)\<rparr>) (La @ Lb)"
proof -
  obtain as bs where as: "reps s (as @ r # bs)" "filter live as = La" "filter live bs = Lb" "live r"
    by (rule store_split [OF assms(1)])
  note f = findRec_reps [OF as(1,4)] and ok = reps_rec_ok(1) [OF as(1)] and sc = reps_rec_ok(2) [OF as(1)]
  have off: "off = SDB_FILE_HDR + length (images as)" using f(1) assms(2) by simp
  have d: "drop off (s_block s) = recImage r @ images bs" "off \<le> s_used s" using f(2,3) off by simp_all
  note rr = rec_reads_at [OF ok sc d reps_used [OF as(1)]]
  note w = write_tomb [OF ok sc d]
  define b where "b = take off (s_block s) @ recImage (tomb r) @ images bs"
  have "length b = s_used s"
    using arg_cong [OF drop_split [OF d], of length] tomb_ok(3) [OF ok sc] by (simp add: b_def)
  moreover have "store_ok (s\<lparr>s_block := b, s_index := AList.delete (r_key r) (s_index s)\<rparr>) (La @ Lb)"
    using reps_tomb [OF as(1,4) off] as tomb_ok(2) [OF ok sc]
    by (auto simp: store_ok_def b_def intro!: exI [of _ "as @ tomb r # bs"])
  ultimately show ?thesis using rr w by (auto simp: b_def)
qed

lemma sdbDeleteRecord_ok:
  assumes "store_ok s L"
  shows "\<exists>s'. sdbDeleteRecord s key = Some s' \<and> kept s s' \<and> store_ok s' (filter (\<lambda>r. r_key r \<noteq> key) L)
           \<and> (key \<in> r_key ` set L \<longrightarrow> s_dirty s')"
proof (cases "lookupRec L key")
  case None
  then have k: "key \<notin> r_key ` set L" by (simp add: lookupRec_None)
  then have "findRec s key = None" using store_keys(5) [OF assms] by simp
  then have "sdbDeleteRecord s key = Some s" using store_ok_reps [OF assms] by (simp add: sdbDeleteRecord_def)
  moreover have "filter (\<lambda>r. r_key r \<noteq> key) L = L" using k by (auto simp: filter_id_conv)
  ultimately show ?thesis using assms k by simp
next
  case (Some r)
  then obtain La Lb where L: "L = La @ r # Lb" "r_key r = key" by (rule lookupRec_Some)
  then have "r_key r \<in> r_key ` set L" by simp
  then obtain off where off: "findRec s (r_key r) = Some off" using store_keys(5) [OF assms] by blast
  obtain b where b: "rdU8 (s_block s) (off + SDB_FLAGS_OFF) = Some (r_hdr r ! SDB_FLAGS_OFF)"
     "wrBytes (s_block s) (off + SDB_FLAGS_OFF) [r_hdr r ! SDB_FLAGS_OFF OR SDB_FLAG_DELETED] = Some b"
     "store_ok (s\<lparr>s_block := b, s_index := AList.delete (r_key r) (s_index s)\<rparr>) (La @ Lb)"
    using tombstone_ok [of s La r Lb off] assms L(1) off by auto
  have "distinct (map r_key L)" by (rule store_keys(1) [OF assms])
  then have "filter (\<lambda>r. r_key r \<noteq> key) La = La" "filter (\<lambda>r. r_key r \<noteq> key) Lb = Lb"
    unfolding filter_id_conv using L by (auto simp: image_iff)
  then have "filter (\<lambda>r. r_key r \<noteq> key) L = La @ Lb" using L by simp
  moreover have "store_ok ((s\<lparr>s_block := b, s_index := AList.delete (r_key r) (s_index s)\<rparr>)\<lparr>s_dirty := True\<rparr>) (La @ Lb)"
    using b(3) by (subst store_ok_flag)
  ultimately show ?thesis
    using b(1,2) off L(2) store_ok_reps [OF assms] by (simp add: sdbDeleteRecord_def kept_def)
qed

subsection \<open>Text fields\<close>

definition newTexts :: "sdb_rec \<Rightarrow> sdb_field \<Rightarrow> bytes \<Rightarrow> sdb_rec" where
  "newTexts r fd val = mkRec (r_hdr r) (r_key r) ((r_texts r)[f_off fd := val])"

lemma concat_prefixed_update:
  "i < length ts \<Longrightarrow> length (concat (map prefixed (ts[i := v]))) + length (ts ! i)
     = length (concat (map prefixed ts)) + length v"
proof (induction ts arbitrary: i)
  case (Cons t ts)
  then show ?case by (cases i) auto
qed simp

lemma newTexts_ok:
  assumes "rec_ok sc r" "schema_ok sc" "live r" "f_off fd < textCount sc" "length val < 65536" "rec_size r < 2147483648"
  shows "rec_ok sc (newTexts r fd val)" "live (newTexts r fd val)" "r_key (newTexts r fd val) = r_key r"
    "recImage (newTexts r fd val) = buildRecord (r_hdr r) (r_key r) ((r_texts r)[f_off fd := val])"
    "rec_size (newTexts r fd val) \<le> rec_size r + length val"
proof -
  note h = rec_hdr_slices [OF assms(1,2)]
  have r: "length (r_key r) < 65536" "length (r_texts r) = textCount sc" "list_all (\<lambda>t. length t < 65536) (r_texts r)"
    using assms(1) by (auto simp: rec_ok_def)
  note m = mkRec_hdr [OF h(3)]
  show sz: "rec_size (newTexts r fd val) \<le> rec_size r + length val"
    using concat_prefixed_update [of "f_off fd" "r_texts r" val] assms(4) r(2)
    by (simp add: newTexts_def m(4)) (simp add: recImage_def)
  have "list_all (\<lambda>t. length t < 65536) ((r_texts r)[f_off fd := val])"
    using r(3) assms(5) set_update_subset_insert [of "r_texts r" "f_off fd" val] by (auto simp: list_all_iff)
  then show "rec_ok sc (newTexts r fd val)"
    using mkRec_ok [OF h(4) assms(2) r(1)] r(2) sz assms(5,6) by (simp add: newTexts_def)
  show "live (newTexts r fd val)" "r_key (newTexts r fd val) = r_key r"
    using assms(3) h(3) by (simp_all add: newTexts_def mkRec_live) (simp add: live_def SDB_FLAGS_OFF_def)
  show "recImage (newTexts r fd val) = buildRecord (r_hdr r) (r_key r) ((r_texts r)[f_off fd := val])"
    using buildRecord_image [OF h(3)] by (simp add: newTexts_def)
qed

lemma write_record:
  assumes "drop off b = recImage r @ post" "off \<le> length b" "length x = rec_size r"
  shows "wrBytes b off x = Some (take off b @ x @ post)"
proof -
  have "off + rec_size r \<le> length b" by (rule drop_fits [OF assms(1,2)])
  moreover have "overwrite b off x = take off b @ x @ post"
    using drop_past [OF assms(1)] assms(3) by (simp add: overwrite_def)
  ultimately show ?thesis using assms(3) by (simp add: wrBytes_def)
qed

text \<open>The rebuild that changes the size: tombstone, forget the key, append.\<close>

lemma setText_move:
  assumes "store_ok s (La @ r # Lb)" "fd \<in> set (sfields (s_schema s))" "is_text fd"
    "findRec s (r_key r) = Some off" "length val < 65536"
    "r_texts r ! f_off fd \<noteq> val" "rec_size (newTexts r fd val) \<noteq> rec_size r"
  obtains t where "store_ok t (La @ Lb)" "kept s t" "s_cap t = s_cap s" "s_used t = s_used s"
    "setText h s off fd val = do { (ok, s1) \<leftarrow> appendRecord h t (r_key r) (recImage (newTexts r fd val));
                                   Some (s1\<lparr>s_dirty := True\<rparr>) }"
proof -
  obtain as bs where as: "reps s (as @ r # bs)" "live r" using store_split [OF assms(1)] by metis
  note f = findRec_reps [OF as] and ok = reps_rec_ok(1) [OF as(1)] and sc = reps_rec_ok(2) [OF as(1)]
  have d: "drop off (s_block s) = recImage r @ images bs" "off \<le> s_used s" using f assms(4) by simp_all
  note rr = rec_reads_at [OF ok sc d reps_used [OF as(1)]]
  have ti: "f_off fd < textCount (s_schema s)" by (rule text_index [OF sc assms(2,3)])
  have tl: "length (r_texts r) = textCount (s_schema s)" using ok by (simp add: rec_ok_def)
  have "rec_size r < 2147483648" using drop_fits [OF d] store_ok_reps [OF assms(1)] by simp
  note nt = newTexts_ok [OF ok sc as(2) ti assms(5) this]
  obtain b where b: "rdU8 (s_block s) (off + SDB_FLAGS_OFF) = Some (r_hdr r ! SDB_FLAGS_OFF)"
     "wrBytes (s_block s) (off + SDB_FLAGS_OFF) [r_hdr r ! SDB_FLAGS_OFF OR SDB_FLAG_DELETED] = Some b"
     "length b = s_used s"
     "store_ok (s\<lparr>s_block := b, s_index := AList.delete (r_key r) (s_index s)\<rparr>) (La @ Lb)"
    using tombstone_ok [OF assms(1,4)] by auto
  define t where "t = s\<lparr>s_block := b, s_index := AList.delete (r_key r) (s_index s)\<rparr>"
  have "setText h s off fd val = do { (ok, s1) \<leftarrow> appendRecord h t (r_key r) (recImage (newTexts r fd val));
                                      Some (s1\<lparr>s_dirty := True\<rparr>) }"
    using rr ti tl assms(6,7) b(1,2) by (simp add: setText_def t_def flip: nt(4))
  then show ?thesis using that [of t] b(3,4) by (simp add: t_def kept_def)
qed

lemma setText_ok:
  assumes "store_ok s (La @ r # Lb)" "heap_ok h" "fd \<in> set (sfields (s_schema s))" "is_text fd"
    "findRec s (r_key r) = Some off" "length val < 65536"
  shows "\<exists>s' L'. setText h s off fd val = Some s' \<and> kept s s' \<and> store_ok s' L'
     \<and> (L' = La @ newTexts r fd val # Lb \<or> L' = La @ Lb @ [newTexts r fd val]
        \<or> (L' = La @ Lb \<and> \<not> heap_grants h (s_used s + rec_size (newTexts r fd val))))
     \<and> (r_texts r ! f_off fd \<noteq> val \<longrightarrow> s_dirty s')"
proof -
  obtain as bs where as: "reps s (as @ r # bs)" "filter live as = La" "filter live bs = Lb" "live r"
    by (rule store_split [OF assms(1)])
  note f = findRec_reps [OF as(1,4)] and ok = reps_rec_ok(1) [OF as(1)] and sc = reps_rec_ok(2) [OF as(1)]
  have off: "off = SDB_FILE_HDR + length (images as)" using f(1) assms(5) by simp
  have d: "drop off (s_block s) = recImage r @ images bs" "off \<le> s_used s" using f(2,3) off by simp_all
  note rr = rec_reads_at [OF ok sc d reps_used [OF as(1)]]
  have ti: "f_off fd < textCount (s_schema s)" by (rule text_index [OF sc assms(3,4)])
  have tl: "length (r_texts r) = textCount (s_schema s)" using ok by (simp add: rec_ok_def)
  have "rec_size r < 2147483648" using drop_fits [OF d] store_ok_reps [OF assms(1)] by simp
  note nt = newTexts_ok [OF ok sc as(4) ti assms(6) this]
  define r' where "r' = newTexts r fd val"
  note nt' = nt [folded r'_def]
  show ?thesis
  proof (cases "r_texts r ! f_off fd = val")
    case True
    then have "setText h s off fd val = Some s" using rr ti tl by (simp add: setText_def)
    moreover have "r' = r" using mkRec_same [OF ok sc] True ti tl by (simp add: r'_def newTexts_def flip: True)
    ultimately show ?thesis using assms(1) True by (auto simp flip: r'_def)
  next
    case False
    show ?thesis
    proof (cases "rec_size r' = rec_size r")
      case sz: True
      define b where "b = take off (s_block s) @ recImage r' @ images bs"
      have "setText h s off fd val = Some (s\<lparr>s_block := b, s_dirty := True\<rparr>)"
        using rr ti tl False sz write_record [OF d, of "recImage r'"] by (simp add: setText_def nt'(4) [symmetric] b_def)
      moreover have "store_ok (s\<lparr>s_block := b\<rparr>) (La @ r' # Lb)"
        unfolding b_def by (rule store_replace [OF as(1,4,2,3) nt'(1-3) sz off])
      then have "store_ok ((s\<lparr>s_block := b\<rparr>)\<lparr>s_dirty := True\<rparr>) (La @ r' # Lb)" by (subst store_ok_flag)
      ultimately show ?thesis by (auto simp: kept_def simp flip: r'_def)
    next
      case sz: False
      obtain t where t: "store_ok t (La @ Lb)" "kept s t" "s_used t = s_used s"
        "setText h s off fd val = do { (ok, s1) \<leftarrow> appendRecord h t (r_key r) (recImage r'); Some (s1\<lparr>s_dirty := True\<rparr>) }"
        using setText_move [OF assms(1,3,4,5,6) False, of h] sz unfolding r'_def by blast
      have "r_key r' \<notin> r_key ` set (La @ Lb)" using store_keys(1) [OF assms(1)] nt'(3) by auto
      moreover have "rec_ok (s_schema t) r'" using nt'(1) t(2) by (simp add: kept_def)
      ultimately obtain ok1 s1 where a: "appendRecord h t (r_key r') (recImage r') = Some (ok1, s1)" "frame t s1"
         "store_ok s1 (if ok1 then (La @ Lb) @ [r'] else La @ Lb)"
         "heap_grants h (s_used t + rec_size r') \<longrightarrow> ok1"
        using appendRecord_ok [OF t(1) assms(2) _ nt'(2)] by auto
      have "setText h s off fd val = Some (s1\<lparr>s_dirty := True\<rparr>)" using t(4) a(1) nt'(3) by simp
      moreover have "kept s (s1\<lparr>s_dirty := True\<rparr>)" using a(2) t(2) by (simp add: frame_def kept_def)
      ultimately show ?thesis
        using a(3,4) t(3) by (cases ok1) (auto simp flip: r'_def)
    qed
  qed
qed

subsection \<open>New records\<close>

definition emptyRec :: "sdb_schema \<Rightarrow> bytes \<Rightarrow> sdb_rec" where
  "emptyRec sc key = mkRec (replicate (hdr_size sc) 0) key (replicate (textCount sc) [])"

definition capDrop :: "nat \<Rightarrow> nat \<Rightarrow> nat" where
  "capDrop cap n = (if cap \<noteq> 0 \<and> n > cap then min (n - cap + cap div 8) (n - 1) else 0)"

lemma trimCount_capDrop:
  assumes "cap \<noteq> 0" "n > cap"
  shows "trimCount n cap = capDrop cap n"
proof -
  have "(if x \<ge> n then n - 1 else x) = min x (n - 1)" for x :: nat using assms by auto
  then show ?thesis using assms by (simp only: trimCount_def capDrop_def Let_def) simp
qed

lemma length_concat_replicate: "length (concat (replicate n xs)) = n * length xs"
  by (induction n) auto

lemma emptyRec_ok:
  assumes "schema_ok sc" "length key < 65536"
  shows "rec_ok sc (emptyRec sc key)" "live (emptyRec sc key)" "r_key (emptyRec sc key) = key"
    "recImage (emptyRec sc key) = buildRecord (replicate (hdr_size sc) 0) key (replicate (textCount sc) [])"
proof -
  have h: "8 \<le> length (replicate (hdr_size sc) (0::byte))" "hdr_size sc < 65536"
    using assms(1) by (auto simp: schema_ok_def SDB_HDR_BUILTIN_def)
  have "textCount sc < 65536" by (simp add: textCount_def)
  then have "rec_size (emptyRec sc key) < 4294967296"
    using mkRec_hdr(4) [OF h(1)] assms(2) h(2) by (simp add: emptyRec_def length_concat_replicate)
  then show "rec_ok sc (emptyRec sc key)"
    unfolding emptyRec_def using assms by (intro mkRec_ok) (auto simp: list_all_iff)
  show "live (emptyRec sc key)" "r_key (emptyRec sc key) = key"
    using mkRec_live [OF h(1)] h(1) by (simp_all add: emptyRec_def isDeleted_def)
  show "recImage (emptyRec sc key) = buildRecord (replicate (hdr_size sc) 0) key (replicate (textCount sc) [])"
    using buildRecord_image [OF h(1)] by (simp add: emptyRec_def)
qed

lemma compact_store:
  assumes "store_ok s L"
  shows "\<exists>s'. compact s n = Some s' \<and> store_ok s' (drop n L) \<and> frame s s' \<and> s_used s' \<le> s_used s"
proof -
  obtain rs where rs: "reps s rs" "L = filter live rs" using assms by (auto simp: store_ok_def)
  obtain s' where s': "compact s n = Some s'" "reps s' (drop n (filter live rs))" "frame s s'"
    "s_used s' = SDB_FILE_HDR + length (images (drop n (filter live rs)))"
    using compact_reps [OF rs(1), of n] by auto
  have "length (images (drop n xs)) \<le> length (images xs)" for n xs
    using images_simps(3) [of "take n xs" "drop n xs"] by simp
  then have "s_used s' \<le> SDB_FILE_HDR + length (images rs)"
    using s'(4) images_filter_le [of live rs] order_trans by fastforce
  then have "s_used s' \<le> s_used s" using rs(1) by (auto simp: reps_def)
  have "filter live (drop n (filter live rs)) = drop n (filter live rs)"
    by (auto simp: filter_id_conv dest: in_set_dropD)
  then show ?thesis using s' rs(2) \<open>s_used s' \<le> s_used s\<close> by (auto simp: store_ok_def intro!: exI [of _ "drop n (filter live rs)"])
qed

lemma createRecord_ok:
  assumes "store_ok s L" "heap_ok h" "key \<notin> r_key ` set L" "length key < 65536"
  shows "\<exists>found s'. createRecord h s key = Some (found, s') \<and> frame s s'
     \<and> (case found of
          None \<Rightarrow> store_ok s' L \<and> \<not> heap_grants h (s_used s + rec_size (emptyRec (s_schema s) key))
        | Some off \<Rightarrow> store_ok s' (drop (capDrop (cap_records s) (Suc (length L))) L @ [emptyRec (s_schema s) key])
                      \<and> findRec s' key = Some off
                      \<and> (heap_grants h (s_used s + rec_size (emptyRec (s_schema s) key))
                          \<longrightarrow> s_used s' \<le> s_used s + rec_size (emptyRec (s_schema s) key)))"
proof -
  have sc: "schema_ok (s_schema s)" using store_ok_reps [OF assms(1)] by simp
  define r where "r = emptyRec (s_schema s) key"
  note e = emptyRec_ok [OF sc assms(4), folded r_def]
  obtain ok s1 where a: "appendRecord h s key (recImage r) = Some (ok, s1)" "frame s s1"
    "store_ok s1 (if ok then L @ [r] else L)" "heap_grants h (s_used s + rec_size r) \<longrightarrow> ok \<and> s_used s1 = s_used s + rec_size r"
    using appendRecord_ok [OF assms(1,2) e(1,2)] assms(3) e(3) by auto
  show ?thesis
  proof (cases ok)
    case False
    then show ?thesis using a by (auto simp: createRecord_def e(4) [symmetric] simp flip: r_def)
  next
    case True
    then have st: "store_ok s1 (L @ [r])" using a(3) by simp
    then obtain off where off: "findRec s1 key = Some off"
      using store_keys(5) [OF st, of key] e(3) by auto
    have n: "length (s_index s1) = Suc (length L)" using store_keys(4) [OF st] by simp
    define c where "c = capDrop (cap_records s) (Suc (length L))"
    have cl: "c \<le> length L" by (simp add: c_def capDrop_def)
    have cr: "cap_records s1 = cap_records s" using a(2) by (simp add: frame_def)
    show ?thesis
    proof (cases "cap_records s \<noteq> 0 \<and> Suc (length L) > cap_records s")
      case False
      then have "createRecord h s key = Some (Some off, s1)" "c = 0"
        using a(1) True off n cr by (auto simp: createRecord_def e(4) [symmetric] c_def capDrop_def)
      then show ?thesis using a(2,4) st off by (auto simp flip: r_def c_def)
    next
      case over: True
      obtain s2 where s2: "compact s1 c = Some s2" "store_ok s2 (drop c (L @ [r]))" "frame s1 s2" "s_used s2 \<le> s_used s1"
        using compact_store [OF st] by blast
      have st2: "store_ok s2 (drop c L @ [r])" using s2(2) cl by simp
      then obtain off2 where off2: "findRec s2 key = Some off2"
        using store_keys(5) [OF st2, of key] e(3) by auto
      have "trimCount (Suc (length L)) (cap_records s) = c"
        using over trimCount_capDrop by (simp add: c_def)
      then have "createRecord h s key = Some (Some off2, s2)"
        using a(1) True off n cr over s2(1) off2
        by (simp add: createRecord_def e(4) [symmetric])
      then show ?thesis using frame_trans [OF a(2) s2(3)] st2 off2 s2(4) a(4) by (auto simp flip: r_def c_def)
    qed
  qed
qed

subsection \<open>The set operation\<close>

text \<open>The list a set starts from: the record of the key exists, appended past the cap if new.\<close>

definition withRecord :: "sdb_schema \<Rightarrow> nat \<Rightarrow> sdb_rec list \<Rightarrow> bytes \<Rightarrow> sdb_rec list" where
  "withRecord sc cap L key =
     (if key \<in> r_key ` set L then L else drop (capDrop cap (Suc (length L))) L @ [emptyRec sc key])"

definition putField :: "sdb_field \<Rightarrow> bytes \<Rightarrow> sdb_rec \<Rightarrow> sdb_rec" where
  "putField fd val r = (if is_text fd then newTexts r fd val else setSlot r (f_off fd) (the (slotBytes fd val)))"

definition setSpec :: "sdb_schema \<Rightarrow> nat \<Rightarrow> sdb_rec list \<Rightarrow> bytes \<Rightarrow> sdb_field \<Rightarrow> bytes \<Rightarrow> sdb_rec list \<Rightarrow> bool" where
  "setSpec sc cap L key fd val L' \<longleftrightarrow>
     (\<exists>La r Lb. withRecord sc cap L key = La @ r # Lb \<and> r_key r = key
        \<and> (L' = La @ putField fd val r # Lb \<or> is_text fd \<and> L' = La @ Lb @ [putField fd val r]))"

text \<open>What is left when memory runs out: nothing changed, or the record itself is gone.\<close>

definition setFails :: "sdb_schema \<Rightarrow> nat \<Rightarrow> sdb_rec list \<Rightarrow> bytes \<Rightarrow> sdb_field \<Rightarrow> sdb_rec list \<Rightarrow> bool" where
  "setFails sc cap L key fd L' \<longleftrightarrow>
     (key \<notin> r_key ` set L \<and> L' = L)
     \<or> (is_text fd \<and> (\<exists>La r Lb. withRecord sc cap L key = La @ r # Lb \<and> r_key r = key \<and> L' = La @ Lb))"

definition setRoom :: "sdb_store \<Rightarrow> bytes \<Rightarrow> bytes \<Rightarrow> nat" where
  "setRoom s key val = 2 * (s_used s + rec_size (emptyRec (s_schema s) key)) + length val"

lemma heap_grants_mono: "heap_grants h n \<Longrightarrow> m \<le> n \<Longrightarrow> heap_grants h m"
  by (auto simp: heap_grants_def)

lemma reps_rec_size: "store_ok s (La @ r # Lb) \<Longrightarrow> rec_size r \<le> s_used s \<and> rec_ok (s_schema s) r \<and> live r"
proof -
  assume "store_ok s (La @ r # Lb)"
  then obtain as bs where "reps s (as @ r # bs)" "live r" by (rule store_split) auto
  then show ?thesis using findRec_reps(2,3) [of s as r bs] reps_rec_ok(1) [of s as r bs] drop_fits [of _ "s_block s" "recImage r"]
    by (metis add_leD2)
qed

lemma storeField_ok:
  assumes "store_ok s (La @ r # Lb)" "heap_ok h" "fd \<in> set (sfields (s_schema s))"
    "findRec s (r_key r) = Some off" "length val < 65536"
  shows "\<exists>s' L'. storeField h s off fd val = Some s' \<and> kept s s' \<and> store_ok s' L'
     \<and> (L' = La @ putField fd val r # Lb \<or> is_text fd \<and> L' = La @ Lb @ [putField fd val r]
        \<or> (is_text fd \<and> L' = La @ Lb \<and> \<not> heap_grants h (s_used s + rec_size (newTexts r fd val))))
     \<and> (s_dirty s' \<or> is_text fd \<and> r_texts r ! f_off fd = val)"
proof (cases "is_text fd")
  case True
  then have "storeField h s off fd val = setText h s off fd val" by (simp add: storeField_def is_text_def)
  then show ?thesis using setText_ok [OF assms(1-3) True assms(4,5)] True by (auto simp: putField_def)
next
  case False
  moreover have "schema_ok (s_schema s)" using store_ok_reps [OF assms(1)] by simp
  ultimately have "is_fixed fd" using schema_ok_field [OF _ assms(3)] by (auto simp: field_ok_def)
  then obtain v s' where v: "storeField h s off fd val = Some s'" "kept s s'" "s_dirty s'" "slotBytes fd val = Some v"
    "store_ok s' (La @ setSlot r (f_off fd) v # Lb)"
    using storeField_fixed [OF assms(1,3) _ assms(4)] by blast
  then have "putField fd val r = setSlot r (f_off fd) v" using False by (simp add: putField_def)
  then show ?thesis using v by auto
qed

text \<open>The store half of a set, from any state in which the key has a record.\<close>

lemma setField_from:
  assumes t: "store_ok t (La @ r # Lb)" "withRecord (s_schema s) (cap_records s) L key = La @ r # Lb" "r_key r = key"
    and f: "findRec t key = Some off" and k: "kept s t"
    and h: "heap_ok h" "fd \<in> set (sfields (s_schema s))" "length val < 65536"
    and room: "heap_grants h (setRoom s key val) \<Longrightarrow> s_used t + rec_size r + length val \<le> setRoom s key val"
  shows "\<exists>s' L'. storeField h t off fd val = Some s' \<and> kept s s' \<and> store_ok s' L'
     \<and> (setSpec (s_schema s) (cap_records s) L key fd val L'
        \<or> \<not> heap_grants h (setRoom s key val) \<and> setFails (s_schema s) (cap_records s) L key fd L')"
proof -
  have sc: "s_schema t = s_schema s" "schema_ok (s_schema s)" using k store_ok_reps [OF t(1)] by (auto simp: kept_def)
  obtain s' L' where s': "storeField h t off fd val = Some s'" "kept t s'" "store_ok s' L'"
    "L' = La @ putField fd val r # Lb \<or> is_text fd \<and> L' = La @ Lb @ [putField fd val r]
      \<or> (is_text fd \<and> L' = La @ Lb \<and> \<not> heap_grants h (s_used t + rec_size (newTexts r fd val)))"
    using storeField_ok [OF t(1) h(1) _ _ h(3)] h(2) f t(3) sc(1) by metis
  have "heap_grants h (s_used t + rec_size (newTexts r fd val))" if "is_text fd" "heap_grants h (setRoom s key val)"
  proof -
    have "rec_size (newTexts r fd val) \<le> rec_size r + length val"
      using newTexts_ok(5) [of "s_schema s" r fd val] reps_rec_size [OF t(1)] store_ok_reps [OF t(1)]
        text_index [OF sc(2) h(2) that(1)] h(3) sc by auto
    then show ?thesis using room [OF that(2)] by (intro heap_grants_mono [OF that(2)]) simp
  qed
  then have "setSpec (s_schema s) (cap_records s) L key fd val L'
      \<or> \<not> heap_grants h (setRoom s key val) \<and> setFails (s_schema s) (cap_records s) L key fd L'"
    using s'(4) t(2,3) unfolding setSpec_def setFails_def by blast
  then show ?thesis using s' kept_trans [OF k s'(2)] by blast
qed

lemma sdbSetField_ok:
  assumes "store_ok s L" "heap_ok h" "sdb_find (s_schema s) field = Some fd" "length key < 65536" "length val < 65536"
  shows "\<exists>s' L'. sdbSetField h s key field val = Some s' \<and> kept s s' \<and> store_ok s' L'
     \<and> (setSpec (s_schema s) (cap_records s) L key fd val L'
        \<or> \<not> heap_grants h (setRoom s key val) \<and> setFails (s_schema s) (cap_records s) L key fd L')"
proof -
  define e where "e = emptyRec (s_schema s) key"
  have ld: "s_loaded s" using store_ok_reps [OF assms(1)] by auto
  have fd: "fd \<in> set (sfields (s_schema s))" using sdb_find_Some [OF assms(3)] by simp
  show ?thesis
  proof (cases "lookupRec L key")
    case (Some r)
    then obtain La Lb where L: "L = La @ r # Lb" "r_key r = key" by (rule lookupRec_Some)
    then have k: "key \<in> r_key ` set L" by auto
    then obtain off where off: "findRec s key = Some off" using store_keys(5) [OF assms(1)] by blast
    have st: "store_ok s (La @ r # Lb)" using assms(1) L by simp
    have op: "sdbSetField h s key field val = storeField h s off fd val" using ld assms(3) off by (simp add: sdbSetField_def)
    show ?thesis unfolding op
      by (rule setField_from [OF st _ L(2) off kept_refl assms(2) fd assms(5)])
        (use L k reps_rec_size [OF st] in \<open>auto simp: withRecord_def setRoom_def\<close>)
  next
    case None
    then have k: "key \<notin> r_key ` set L" by (simp add: lookupRec_None)
    then have nf: "findRec s key = None" using store_keys(5) [OF assms(1)] by simp
    obtain found t where c: "createRecord h s key = Some (found, t)" "frame s t"
      "case found of None \<Rightarrow> store_ok t L \<and> \<not> heap_grants h (s_used s + rec_size e)
        | Some off \<Rightarrow> store_ok t (drop (capDrop (cap_records s) (Suc (length L))) L @ [e]) \<and> findRec t key = Some off
            \<and> (heap_grants h (s_used s + rec_size e) \<longrightarrow> s_used t \<le> s_used s + rec_size e)"
      using createRecord_ok [OF assms(1,2) k assms(4), folded e_def] by auto
    have op: "sdbSetField h s key field val = (case found of None \<Rightarrow> Some t | Some off \<Rightarrow> storeField h t off fd val)"
      using ld assms(3) nf c(1) by (simp add: sdbSetField_def)
    have "s_used s + rec_size e \<le> setRoom s key val"
      unfolding setRoom_def e_def mult_2 by (rule order_trans [OF le_add1 le_add1])
    then have rm: "heap_grants h (setRoom s key val) \<Longrightarrow> heap_grants h (s_used s + rec_size e)"
      using heap_grants_mono by blast
    note kt = frame_kept [OF c(2)]
    show ?thesis
    proof (cases found)
      case None
      then show ?thesis using op c rm k kt by (auto simp: setFails_def)
    next
      case (Some off)
      define La where "La = drop (capDrop (cap_records s) (Suc (length L))) L"
      have st: "store_ok t (La @ e # [])" and f: "findRec t key = Some off"
        and u: "heap_grants h (s_used s + rec_size e) \<longrightarrow> s_used t \<le> s_used s + rec_size e"
        using c(3) Some by (auto simp: La_def)
      have wr: "withRecord (s_schema s) (cap_records s) L key = La @ e # []" using k by (simp add: withRecord_def La_def e_def)
      have ek: "r_key e = key" by (simp add: e_def emptyRec_def)
      have "heap_grants h (setRoom s key val) \<Longrightarrow> s_used t + rec_size e + length val \<le> setRoom s key val"
        using u rm by (simp add: setRoom_def flip: e_def)
      from setField_from [OF st wr ek f kt assms(2) fd assms(5) this] show ?thesis using op Some by simp
    qed
  qed
qed

end
