(* ===== verification/Sdb_Contract.thy ===== *)
theory Sdb_Contract
  imports Sdb_Set
begin

section \<open>The contract of a record store\<close>

text \<open>
  What a client of a record store relies on: a field reads back what was last written to it,
  in the canonical form of its kind; writing one field leaves every other field of every
  record alone; a new record starts with default values; deleting removes one record. The
  locale states it, with the consequence for whole sequences of operations, and the
  interpretation discharges it for \<open>sdbSetField\<close>, \<open>sdbDeleteRecord\<close> and \<open>sdbGetField\<close> on an
  uncapped store whose growth the heap grants.
\<close>

datatype ('k, 'f, 'v) rs_op = OpSet 'k 'f 'v | OpDel 'k

locale record_store =
  fixes inv :: "'s \<Rightarrow> bool"
    and get :: "'s \<Rightarrow> 'k \<Rightarrow> 'f \<Rightarrow> 'v option"
    and sets :: "'s \<Rightarrow> 'k \<Rightarrow> 'f \<Rightarrow> 'v \<Rightarrow> 's \<Rightarrow> bool"
    and dels :: "'s \<Rightarrow> 'k \<Rightarrow> 's \<Rightarrow> bool"
    and norm :: "'s \<Rightarrow> 'f \<Rightarrow> 'v \<Rightarrow> 'v"
    and dflt :: "'s \<Rightarrow> 'f \<Rightarrow> 'v option"
  assumes set_inv: "inv s \<Longrightarrow> sets s k f v s' \<Longrightarrow> inv s'"
    and del_inv: "inv s \<Longrightarrow> dels s k s' \<Longrightarrow> inv s'"
    and set_norm: "inv s \<Longrightarrow> sets s k f v s' \<Longrightarrow> norm s' = norm s \<and> dflt s' = dflt s"
    and del_norm: "inv s \<Longrightarrow> dels s k s' \<Longrightarrow> norm s' = norm s \<and> dflt s' = dflt s"
    and get_same: "inv s \<Longrightarrow> sets s k f v s' \<Longrightarrow> get s' k f = Some (norm s f v)"
    and get_field: "inv s \<Longrightarrow> sets s k f v s' \<Longrightarrow> g \<noteq> f
        \<Longrightarrow> get s' k g = (case get s k g of None \<Rightarrow> dflt s g | Some x \<Rightarrow> Some x)"
    and get_key: "inv s \<Longrightarrow> sets s k f v s' \<Longrightarrow> k' \<noteq> k \<Longrightarrow> get s' k' g = get s k' g"
    and get_del: "inv s \<Longrightarrow> dels s k s' \<Longrightarrow> get s' k' g = (if k' = k then None else get s k' g)"
begin

fun runs :: "'s \<Rightarrow> ('k, 'f, 'v) rs_op list \<Rightarrow> 's \<Rightarrow> bool" where
  "runs s [] s' \<longleftrightarrow> s' = s"
| "runs s (OpSet k f v # ops) s' \<longleftrightarrow> (\<exists>t. sets s k f v t \<and> runs t ops s')"
| "runs s (OpDel k # ops) s' \<longleftrightarrow> (\<exists>t. dels s k t \<and> runs t ops s')"

text \<open>The value a history leaves in one field, given the value before it.\<close>

fun history :: "('f \<Rightarrow> 'v \<Rightarrow> 'v) \<Rightarrow> ('f \<Rightarrow> 'v option) \<Rightarrow> 'k \<Rightarrow> 'f \<Rightarrow> 'v option \<Rightarrow> ('k, 'f, 'v) rs_op list \<Rightarrow> 'v option" where
  "history nm df k g x [] = x"
| "history nm df k g x (OpSet k' f v # ops) =
     history nm df k g (if k' \<noteq> k then x else if f = g then Some (nm g v)
                        else case x of None \<Rightarrow> df g | Some y \<Rightarrow> Some y) ops"
| "history nm df k g x (OpDel k' # ops) = history nm df k g (if k' = k then None else x) ops"

lemma runs_history:
  "inv s \<Longrightarrow> runs s ops s' \<Longrightarrow> get s' k g = history (norm s) (dflt s) k g (get s k g) ops"
proof (induction ops arbitrary: s)
  case (Cons oper ops)
  show ?case
  proof (cases oper)
    case (OpSet k' f v)
    then obtain t where t: "sets s k' f v t" "runs t ops s'" using Cons.prems(2) by auto
    note st = set_inv [OF Cons.prems(1) t(1)] set_norm [OF Cons.prems(1) t(1)]
    have "get t k g = (if k' \<noteq> k then get s k g else if f = g then Some (norm s g v)
        else case get s k g of None \<Rightarrow> dflt s g | Some y \<Rightarrow> Some y)"
      using get_same [OF Cons.prems(1) t(1)] get_field [OF Cons.prems(1) t(1)] get_key [OF Cons.prems(1) t(1)] by auto
    then show ?thesis using Cons.IH [OF st(1) t(2)] st(2) OpSet by simp
  next
    case (OpDel k')
    then obtain t where t: "dels s k' t" "runs t ops s'" using Cons.prems(2) by auto
    note st = del_inv [OF Cons.prems(1) t(1)] del_norm [OF Cons.prems(1) t(1)]
    then show ?thesis
      using Cons.IH [OF st(1) t(2)] get_del [OF Cons.prems(1) t(1)] OpDel by auto
  qed
qed simp

lemma runs_inv: "inv s \<Longrightarrow> runs s ops s' \<Longrightarrow> inv s'"
  by (induction s ops s' rule: runs.induct) (auto intro: set_inv del_inv)

end

subsection \<open>A field after a set\<close>

lemma recField_putField_same:
  assumes "rec_ok sc r" "schema_ok sc" "fd \<in> set (sfields sc)" "0 \<notin> set val"
  shows "recField (putField fd val r) fd = canon fd val"
proof (cases "is_text fd")
  case True
  have "f_off fd < length (r_texts r)" using text_index [OF assms(2,3) True] assms(1) by (simp add: rec_ok_def)
  then show ?thesis using True by (simp add: putField_def newTexts_def recField_def canon_def is_text_def)
next
  case False
  note fok = schema_ok_field [OF assms(2,3)]
  have fx: "is_fixed fd" using False fok by (auto simp: field_ok_def)
  obtain v where v: "slotBytes fd val = Some v" "length v = fixed_width fd" using slotBytes_ok [OF fok fx] by blast
  have "f_off fd + length v \<le> length (r_hdr r)"
    using fixed_bounds [OF assms(2,3) fx] v(2) assms(1) by (simp add: rec_ok_def)
  then show ?thesis using recField_setSlot_same [OF fok fx v(1) assms(4)] False v(1) by (simp add: putField_def)
qed

lemma recField_putField_other:
  assumes "rec_ok sc r" "schema_ok sc" "fd \<in> set (sfields sc)" "g \<in> set (sfields sc)" "g \<noteq> fd"
  shows "recField (putField fd val r) g = recField r g"
proof (cases "is_text fd")
  case True
  have l: "length (r_hdr r) = hdr_size sc" using assms(1) by (simp add: rec_ok_def)
  show ?thesis
  proof (cases "is_fixed g")
    case True
    then show ?thesis
      using recField_mkRec_fixed [OF assms(2,4) True l refl] \<open>is_text fd\<close> by (simp add: putField_def newTexts_def)
  next
    case False
    then have g: "is_text g" using schema_ok_field [OF assms(2,4)] by (auto simp: field_ok_def)
    have "f_off fd \<noteq> f_off g" using text_distinct [OF assms(2,3,4) True g] assms(5) by simp
    then show ?thesis using True g by (simp add: putField_def newTexts_def recField_def is_text_def)
  qed
next
  case False
  note fok = schema_ok_field [OF assms(2,3)]
  have fx: "is_fixed fd" using False fok by (auto simp: field_ok_def)
  obtain v where v: "slotBytes fd val = Some v" "length v = fixed_width fd" using slotBytes_ok [OF fok fx] by blast
  then show ?thesis
    using recField_setSlot_other [OF assms(2-4) fx assms(5) v(2)] assms(1) False by (simp add: putField_def rec_ok_def)
qed

text \<open>The value of a field in a record no set has touched.\<close>

fun fieldDefault :: "sdb_field \<Rightarrow> bytes" where
  "fieldDefault fd = (case f_kind fd of SDB_U8 \<Rightarrow> bytes_of ''0'' | SDB_U32 \<Rightarrow> bytes_of ''0'' | _ \<Rightarrow> [])"

lemma of_le32_zeros: "of_le32 [0, 0, 0, 0] = 0"
  by (simp add: of_le32_def)

lemma nat_str_0: "nat_str 0 = ''0''"
  by code_simp

lemma slice_replicate: "ofs + n \<le> m \<Longrightarrow> slice ofs n (replicate m x) = replicate n x"
  by (simp add: slice_def)

lemma recField_emptyRec:
  assumes "schema_ok sc" "g \<in> set (sfields sc)"
  shows "recField (emptyRec sc key) g = fieldDefault g"
proof (cases "is_fixed g")
  case True
  note b = fixed_bounds [OF assms True]
  define z where "z = \<lparr>r_hdr = replicate (hdr_size sc) 0, r_key = key, r_texts = []\<rparr>"
  have "recField (emptyRec sc key) g = recField z g"
    unfolding emptyRec_def by (rule recField_mkRec_fixed [OF assms True]) (simp_all add: z_def)
  moreover have "slice (f_off g) n (r_hdr z) = replicate n 0" if "n \<le> fixed_width g" for n
    using b that by (simp add: z_def slice_replicate)
  moreover have "f_kind g = SDB_U8 \<Longrightarrow> r_hdr z ! f_off g = 0" using b by (simp add: z_def fixed_width.simps)
  ultimately show ?thesis
    using True by (auto simp: recField_def is_fixed_def fixed_width.simps nat_str_0 cstr_field_def isAllZero_def
        list_all_iff numeral_eq_Suc of_le32_zeros)
next
  case False
  then have t: "is_text g" using schema_ok_field [OF assms] by (auto simp: field_ok_def)
  then show ?thesis using text_index [OF assms t] by (simp add: recField_def emptyRec_def is_text_def)
qed

subsection \<open>The view of a set\<close>

definition defaultOf :: "sdb_schema \<Rightarrow> bytes \<Rightarrow> bytes option" where
  "defaultOf sc field = map_option fieldDefault (sdb_find sc field)"

lemma lookup_placed:
  assumes "distinct (map r_key L')" "r_key p = key" "L' = La @ p # Lb \<or> L' = La @ Lb @ [p]"
  shows "lookupRec L' key = Some p" "k \<noteq> key \<Longrightarrow> lookupRec L' k = lookupRec (La @ Lb) k"
proof -
  have "key \<notin> r_key ` set La" "key \<notin> r_key ` set Lb" using assms by auto
  then show "lookupRec L' key = Some p"
    using assms(2,3) lookupRec_mid [of key La p Lb] lookupRec_mid [of key "La @ Lb" p "[]"] by auto
  show "k \<noteq> key \<Longrightarrow> lookupRec L' k = lookupRec (La @ Lb) k"
    using assms(2,3) lookupRec_other [of p k La Lb] lookupRec_other [of p k "La @ Lb" "[]"] by auto
qed

lemma putField_key [simp]: "r_key (putField fd val r) = r_key r"
  by (simp add: putField_def newTexts_def)

lemma withRecord_lookup:
  assumes w: "withRecord sc 0 L key = La @ r # Lb" "r_key r = key" and d: "distinct (map r_key L)"
  shows "lookupRec L key = (if key \<in> r_key ` set L then Some r else None)"
    "key \<notin> r_key ` set L \<Longrightarrow> r = emptyRec sc key"
    "k \<noteq> key \<Longrightarrow> lookupRec (La @ Lb) k = lookupRec L k"
proof -
  have wd: "withRecord sc 0 L key = (if key \<in> r_key ` set L then L else L @ [emptyRec sc key])"
    by (simp add: withRecord_def capDrop_def)
  have new: "La = L \<and> r = emptyRec sc key \<and> Lb = []" if k: "key \<notin> r_key ` set L"
  proof -
    have l: "L @ [emptyRec sc key] = La @ r # Lb" using w(1) wd k by simp
    show ?thesis
    proof (cases Lb rule: rev_cases)
      case (snoc zs z)
      then have "L = La @ r # zs" using l by simp
      then show ?thesis using k w(2) by auto
    qed (use l in simp)
  qed
  have old: "L = La @ r # Lb \<and> key \<notin> r_key ` set La" if "key \<in> r_key ` set L"
    using w wd that d by auto
  show "lookupRec L key = (if key \<in> r_key ` set L then Some r else None)"
    using old lookupRec_mid [of key La r Lb] w(2) lookupRec_None [of L key] by auto
  show "key \<notin> r_key ` set L \<Longrightarrow> r = emptyRec sc key" using new by blast
  show "k \<noteq> key \<Longrightarrow> lookupRec (La @ Lb) k = lookupRec L k"
    using new old lookupRec_other [of r k La Lb] w(2) by (cases "key \<in> r_key ` set L") auto
qed

lemma setSpec_get:
  assumes sp: "setSpec sc 0 L key fd val L'" and d: "distinct (map r_key L')" "distinct (map r_key L)"
    and sc: "schema_ok sc" and fd: "sdb_find sc field = Some fd" and L: "list_all (rec_ok sc) L"
    and v: "0 \<notin> set val" "length key < 65536"
  shows "specGet sc L' key field = Some (canon fd val)"
    and "g \<noteq> field \<Longrightarrow> specGet sc L' key g = (case specGet sc L key g of None \<Rightarrow> defaultOf sc g | Some x \<Rightarrow> Some x)"
    and "k \<noteq> key \<Longrightarrow> specGet sc L' k g = specGet sc L k g"
proof -
  obtain La r Lb where w: "withRecord sc 0 L key = La @ r # Lb" "r_key r = key"
    "L' = La @ putField fd val r # Lb \<or> L' = La @ Lb @ [putField fd val r]"
    using sp by (auto simp: setSpec_def)
  have f: "fd \<in> set (sfields sc)" "f_name fd = field" using sdb_find_Some [OF fd] by auto
  have "r_key (putField fd val r) = key" using w(2) by simp
  note pl = lookup_placed [OF d(1) this w(3)]
  note lk = withRecord_lookup [OF w(1,2) d(2)]
  have rok: "rec_ok sc r"
  proof -
    have "r \<in> set (withRecord sc 0 L key)" using w(1) by simp
    then show ?thesis using L emptyRec_ok(1) [OF sc v(2)] lk(2)
      by (auto simp: list_all_iff withRecord_def capDrop_def split: if_splits)
  qed
  show "specGet sc L' key field = Some (canon fd val)"
    using pl(1) fd recField_putField_same [OF rok sc f(1) v(1)] by (simp add: specGet_def)
  have fg: "recField (putField fd val r) x = recField r x" if "sdb_find sc g = Some x" "g \<noteq> field" for x g
    using recField_putField_other [OF rok sc f(1), of x] sdb_find_Some [OF that(1)] that(2) f(2) by auto
  show "g \<noteq> field \<Longrightarrow> specGet sc L' key g = (case specGet sc L key g of None \<Rightarrow> defaultOf sc g | Some x \<Rightarrow> Some x)"
    using pl(1) lk(1,2) fg recField_emptyRec [OF sc] sdb_find_Some
    by (cases "sdb_find sc g") (auto simp: specGet_def defaultOf_def)
  show "k \<noteq> key \<Longrightarrow> specGet sc L' k g = specGet sc L k g"
    using pl(2) lk(3) by (simp add: specGet_def)
qed

subsection \<open>The contract holds of the arena\<close>

definition sdb_inv :: "sdb_store \<Rightarrow> bool" where
  "sdb_inv s \<longleftrightarrow> cap_records s = 0 \<and> (\<exists>L. store_ok s L)"

text \<open>A set the code performs with arguments it can hold and a heap that does not refuse it.\<close>

definition sdb_sets :: "sdb_store \<Rightarrow> bytes \<Rightarrow> bytes \<Rightarrow> bytes \<Rightarrow> sdb_store \<Rightarrow> bool" where
  "sdb_sets s key field val s' \<longleftrightarrow> (\<exists>h. heap_ok h \<and> heap_grants h (setRoom s key val)
     \<and> sdb_find (s_schema s) field \<noteq> None \<and> length key < 65536 \<and> length val < 65536 \<and> 0 \<notin> set val
     \<and> sdbSetField h s key field val = Some s')"

definition sdb_dels :: "sdb_store \<Rightarrow> bytes \<Rightarrow> sdb_store \<Rightarrow> bool" where
  "sdb_dels s key s' \<longleftrightarrow> sdbDeleteRecord s key = Some s'"

definition sdb_get :: "sdb_store \<Rightarrow> bytes \<Rightarrow> bytes \<Rightarrow> bytes option" where
  "sdb_get s key field = the (sdbGetField s key field)"

definition sdb_norm :: "sdb_store \<Rightarrow> bytes \<Rightarrow> bytes \<Rightarrow> bytes" where
  "sdb_norm s field val = (case sdb_find (s_schema s) field of None \<Rightarrow> val | Some fd \<Rightarrow> canon fd val)"

lemma store_recs_ok: "store_ok s L \<Longrightarrow> list_all (rec_ok (s_schema s)) L"
  by (auto simp: store_ok_def reps_def list_all_iff)

lemma sdb_get_spec: "store_ok s L \<Longrightarrow> sdb_get s key field = specGet (s_schema s) L key field"
  by (simp add: sdb_get_def sdbGetField_ok)

lemma sdb_sets_spec:
  assumes "sdb_inv s" "sdb_sets s key field val s'"
  obtains L L' fd where "store_ok s L" "store_ok s' L'" "kept s s'" "sdb_find (s_schema s) field = Some fd"
    "setSpec (s_schema s) 0 L key fd val L'" "0 \<notin> set val" "length key < 65536"
proof -
  obtain L h fd where L: "store_ok s L" and h: "heap_ok h" "heap_grants h (setRoom s key val)"
    and fd: "sdb_find (s_schema s) field = Some fd" and v: "length key < 65536" "length val < 65536" "0 \<notin> set val"
    and op: "sdbSetField h s key field val = Some s'"
    using assms by (auto simp: sdb_inv_def sdb_sets_def)
  have "cap_records s = 0" using assms(1) by (simp add: sdb_inv_def)
  with sdbSetField_ok [OF L h(1) fd v(1,2)] obtain L' where "kept s s'" "store_ok s' L'"
    "setSpec (s_schema s) 0 L key fd val L'" using op h(2) by auto
  then show ?thesis using that L fd v by blast
qed

lemma sdb_sets_get:
  assumes "sdb_inv s" "sdb_sets s key field val s'"
  shows "sdb_get s' key field = Some (sdb_norm s field val)"
    "g \<noteq> field \<Longrightarrow> sdb_get s' key g = (case sdb_get s key g of None \<Rightarrow> defaultOf (s_schema s) g | Some x \<Rightarrow> Some x)"
    "k \<noteq> key \<Longrightarrow> sdb_get s' k g = sdb_get s k g"
    "sdb_inv s'" "s_schema s' = s_schema s"
proof -
  obtain L L' fd where L: "store_ok s L" "store_ok s' L'" "kept s s'" "sdb_find (s_schema s) field = Some fd"
    "setSpec (s_schema s) 0 L key fd val L'" "0 \<notin> set val" "length key < 65536"
    using sdb_sets_spec [OF assms] .
  have sc: "s_schema s' = s_schema s" "cap_records s' = cap_records s" using L(3) by (auto simp: kept_def)
  have sok: "schema_ok (s_schema s)" using store_ok_reps [OF L(1)] by simp
  note g = setSpec_get [OF L(5) store_keys(1) [OF L(2)] store_keys(1) [OF L(1)] sok L(4) store_recs_ok [OF L(1)] L(6,7)]
  note sp = sdb_get_spec [OF L(1)] sdb_get_spec [OF L(2)]
  show "sdb_get s' key field = Some (sdb_norm s field val)" using g(1) sp sc L(4) by (simp add: sdb_norm_def)
  show "g \<noteq> field \<Longrightarrow> sdb_get s' key g = (case sdb_get s key g of None \<Rightarrow> defaultOf (s_schema s) g | Some x \<Rightarrow> Some x)"
    using g(2) sp sc by simp
  show "k \<noteq> key \<Longrightarrow> sdb_get s' k g = sdb_get s k g" using g(3) sp sc by simp
  show "sdb_inv s'" "s_schema s' = s_schema s" using assms(1) L(2) sc by (auto simp: sdb_inv_def)
qed

lemma lookupRec_filter: "lookupRec (filter (\<lambda>r. r_key r \<noteq> key) L) k = (if k = key then None else lookupRec L k)"
  by (induction L) (auto simp: lookupRec_def)

lemma sdb_dels_get:
  assumes "sdb_inv s" "sdb_dels s key s'"
  shows "sdb_get s' k g = (if k = key then None else sdb_get s k g)" "sdb_inv s'" "s_schema s' = s_schema s"
proof -
  obtain L where L: "store_ok s L" "cap_records s = 0" using assms(1) by (auto simp: sdb_inv_def)
  have "kept s s'" and L': "store_ok s' (filter (\<lambda>r. r_key r \<noteq> key) L)"
    using sdbDeleteRecord_ok [OF L(1), of key] assms(2) by (auto simp: sdb_dels_def)
  then have sc: "s_schema s' = s_schema s" "cap_records s' = 0" using L(2) by (auto simp: kept_def)
  show "sdb_get s' k g = (if k = key then None else sdb_get s k g)"
    using sdb_get_spec [OF L(1)] sdb_get_spec [OF L'] sc by (simp add: specGet_def lookupRec_filter)
  show "sdb_inv s'" "s_schema s' = s_schema s" using L' sc by (auto simp: sdb_inv_def)
qed

interpretation sdb: record_store sdb_inv sdb_get sdb_sets sdb_dels sdb_norm "\<lambda>s. defaultOf (s_schema s)"
proof unfold_locales
  fix s k f v s' g k' assume s: "sdb_inv s" "sdb_sets s k f v s'"
  note g = sdb_sets_get [OF s]
  show "sdb_inv s'" by (rule g(4))
  show "sdb_norm s' = sdb_norm s \<and> defaultOf (s_schema s') = defaultOf (s_schema s)"
    using g(5) by (simp add: sdb_norm_def fun_eq_iff)
  show "sdb_get s' k f = Some (sdb_norm s f v)" by (rule g(1))
  show "g \<noteq> f \<Longrightarrow> sdb_get s' k g = (case sdb_get s k g of None \<Rightarrow> defaultOf (s_schema s) g | Some x \<Rightarrow> Some x)"
    by (rule g(2))
  show "k' \<noteq> k \<Longrightarrow> sdb_get s' k' g = sdb_get s k' g" by (rule g(3))
next
  fix s k s' k' g assume s: "sdb_inv s" "sdb_dels s k s'"
  note g = sdb_dels_get [OF s]
  show "sdb_inv s'" by (rule g(2))
  show "sdb_norm s' = sdb_norm s \<and> defaultOf (s_schema s') = defaultOf (s_schema s)"
    using g(3) by (simp add: sdb_norm_def fun_eq_iff)
  show "sdb_get s' k' g = (if k' = k then None else sdb_get s k' g)" by (rule g(1))
qed

end
