(* ===== verification/Sdb_File.thy ===== *)
theory Sdb_File
  imports Sdb_Store
begin

unbundle bit_operations_syntax

section \<open>Store files: codec, load, migration, flush (storage_db.cpp)\<close>

text \<open>
  The gzip framing of a store file and the operations that read and write it. The deflate and
  inflate routines and the checksum of the ROM are the argument \<open>gz_lib\<close>; the file system is a
  record of file contents and of what it answers: whether an open succeeds, how many bytes a
  read or a write moves, whether a rename works. As in \<open>Sdb_Store\<close>, \<open>None\<close> is an access outside
  a buffer or a walk that does not return.
\<close>

datatype tinfl_status = TINFL_DONE | TINFL_HAS_MORE_OUTPUT | TINFL_OTHER

record gz_lib =
  tdefl_all :: "bytes \<Rightarrow> nat \<Rightarrow> bool \<times> nat \<times> bytes"
  tinfl_all :: "bytes \<Rightarrow> nat \<Rightarrow> tinfl_status \<times> bytes"
  gz_crc32 :: "bytes \<Rightarrow> u32"
  tdefl_size :: nat
  tinfl_size :: nat

record sdb_fs =
  fs_files :: "(bytes \<times> bytes) list"
  fs_open_rd :: "bytes \<Rightarrow> bool"
  fs_open_wr :: "bytes \<Rightarrow> bool"
  fs_read_len :: "nat \<Rightarrow> nat"
  fs_write_len :: "nat \<Rightarrow> nat \<Rightarrow> nat"
  fs_rename_ok :: bool

subsection \<open>gzip\<close>

definition SDB_GZ_HDR :: nat where "SDB_GZ_HDR = 10"
definition SDB_GZ_FOOT :: nat where "SDB_GZ_FOOT = 8"

definition gzDeflateBin :: "gz_lib \<Rightarrow> sdb_heap \<Rightarrow> bytes \<Rightarrow> bytes option" where
  "gzDeflateBin lib h inp =
     (let cap = SDB_GZ_HDR + SDB_GZ_FOOT + length inp + length inp div 8 + 192
      in if \<not> h_alloc h cap then None
         else if \<not> h_alloc h (tdefl_size lib) then None
         else let (done, inSz, out) = tdefl_all lib inp (cap - SDB_GZ_HDR - SDB_GZ_FOOT)
              in if \<not> done \<or> inSz \<noteq> length inp then None
                 else Some ([0x1f, 0x8b, 8, 0, 0, 0, 0, 0, 0, 0xff] @ out
                            @ le32 (gz_crc32 lib inp) @ le32 (of_nat (length inp))))"

text \<open>\<open>while (off < n && gz[off]) off++; off++\<close>\<close>

definition skipZ :: "bytes \<Rightarrow> nat \<Rightarrow> nat" where
  "skipZ gz off = off + length (takeWhile (\<lambda>b. b \<noteq> 0) (drop off gz)) + 1"

text \<open>The offset of the deflate data, behind the optional header fields.\<close>

definition gzDataStart :: "bytes \<Rightarrow> nat option" where
  "gzDataStart gz =
     (if length gz < SDB_GZ_HDR + SDB_GZ_FOOT \<or> gz ! 0 \<noteq> 0x1f \<or> gz ! 1 \<noteq> 0x8b \<or> gz ! 2 \<noteq> 8 then None
      else let flg = gz ! 3;
               o1 = (if flg AND 4 \<noteq> 0
                     then (if SDB_GZ_HDR + 2 > length gz then None
                           else Some (SDB_GZ_HDR + 2 + unat (of_le16 (slice SDB_GZ_HDR 2 gz))))
                     else Some SDB_GZ_HDR)
           in case o1 of
                None \<Rightarrow> None
              | Some off1 \<Rightarrow>
                  (let off2 = (if flg AND 8 \<noteq> 0 then skipZ gz off1 else off1);
                       off3 = (if flg AND 16 \<noteq> 0 then skipZ gz off2 else off2);
                       off4 = (if flg AND 2 \<noteq> 0 then off3 + 2 else off3)
                   in if off4 + SDB_GZ_FOOT > length gz then None else Some off4))"

definition SDB_MAX_INFLATED :: nat where "SDB_MAX_INFLATED = 8388608"

definition gzInflateBin :: "gz_lib \<Rightarrow> sdb_heap \<Rightarrow> bytes \<Rightarrow> bytes option" where
  "gzInflateBin lib h gz =
     (case gzDataStart gz of
        None \<Rightarrow> None
      | Some off \<Rightarrow>
          (let n = length gz; crc = of_le32 (slice (n - 8) 4 gz); isz = unat (of_le32 (slice (n - 4) 4 gz))
           in if isz > SDB_MAX_INFLATED then None
              else if \<not> h_alloc h (if isz \<noteq> 0 then isz else 1) then None
              else if \<not> h_alloc h (tinfl_size lib) then None
              else let (st, out) = tinfl_all lib (slice off (n - off - SDB_GZ_FOOT) gz) isz
                   in if st \<noteq> TINFL_DONE \<or> length out \<noteq> isz \<or> gz_crc32 lib out \<noteq> crc then None
                      else Some out))"

text \<open>The bytes produced; the empty list is the return value 0.\<close>

definition gzInflatePrefix :: "gz_lib \<Rightarrow> sdb_heap \<Rightarrow> bytes \<Rightarrow> nat \<Rightarrow> bytes" where
  "gzInflatePrefix lib h gz maxOut =
     (case gzDataStart gz of
        None \<Rightarrow> []
      | Some off \<Rightarrow>
          (if \<not> h_alloc h (tinfl_size lib) then []
           else let (st, out) = tinfl_all lib (slice off (length gz - off - SDB_GZ_FOOT) gz) maxOut
                in if st \<noteq> TINFL_DONE \<and> st \<noteq> TINFL_HAS_MORE_OUTPUT then [] else out))"

subsection \<open>The disk image\<close>

definition buildDiskImage :: "sdb_heap \<Rightarrow> sdb_store \<Rightarrow> bytes option" where
  "buildDiskImage h s =
     (let desc = serializeDescriptor (s_schema s);
          img = overwrite (take SDB_FILE_HDR (s_block s)) 4 (le16 SDB_FORMAT_VER)
                @ le16 (of_nat (length desc)) @ desc @ drop SDB_FILE_HDR (s_block s)
      in if h_alloc h (length img) then Some img else None)"

subsection \<open>Peeking\<close>

definition peekPrefix :: "gz_lib \<Rightarrow> sdb_heap \<Rightarrow> sdb_fs \<Rightarrow> bytes \<Rightarrow> nat \<Rightarrow> bytes" where
  "peekPrefix lib h fs path cap =
     (case map_of (fs_files fs) path of
        None \<Rightarrow> []
      | Some c \<Rightarrow>
          (if c = [] then []
           else if \<not> fs_open_rd fs path then []
           else if \<not> h_alloc h (length c) then []
           else gzInflatePrefix lib h (take (fs_read_len fs (length c)) c) cap))"

definition sdbPeekHeader :: "gz_lib \<Rightarrow> sdb_heap \<Rightarrow> sdb_fs \<Rightarrow> bytes \<Rightarrow> (u16 \<times> u16 \<times> u16) option" where
  "sdbPeekHeader lib h fs path =
     (let pre = peekPrefix lib h fs path SDB_FILE_HDR
      in if length pre < SDB_FILE_HDR \<or> take 4 pre \<noteq> SDB_MAGIC then None
         else Some (of_le16 (slice 6 2 pre), of_le16 (slice 8 2 pre), of_le16 (slice 10 2 pre)))"

definition sdbFileMatchesSchema :: "gz_lib \<Rightarrow> sdb_heap \<Rightarrow> sdb_fs \<Rightarrow> bytes \<Rightarrow> sdb_schema \<Rightarrow> bool" where
  "sdbFileMatchesSchema lib h fs path cur =
     (let pre = peekPrefix lib h fs path 512
      in if length pre < SDB_FILE_HDR + 2 \<or> take 4 pre \<noteq> SDB_MAGIC then False
         else if of_le16 (slice 4 2 pre) < 2 then False
         else let descLen = unat (of_le16 (slice SDB_FILE_HDR 2 pre))
              in if SDB_FILE_HDR + 2 + descLen > length pre then False
                 else let want = serializeDescriptor cur
                      in length want = descLen \<and> slice (SDB_FILE_HDR + 2) descLen pre = want)"

subsection \<open>Migration\<close>

text \<open>One record: every field both schemas know goes through its string form. The flag is \<open>materialized\<close>.\<close>

fun migrateFields :: "sdb_heap \<Rightarrow> sdb_store \<Rightarrow> bytes \<Rightarrow> sdb_field list \<Rightarrow> sdb_store \<Rightarrow> bool \<Rightarrow> (sdb_store \<times> bool) option" where
  "migrateFields h src key [] dst mat = Some (dst, mat)"
| "migrateFields h src key (fd # fds) dst mat =
     (if sdb_find (s_schema dst) (cstr_field (f_name fd)) = None then migrateFields h src key fds dst mat
      else do {
        v \<leftarrow> sdbGetField src (cstr_field key) (cstr_field (f_name fd));
        case v of
          None \<Rightarrow> migrateFields h src key fds dst mat
        | Some val \<Rightarrow>
            do { dst1 \<leftarrow> sdbSetField h dst (cstr_field key) (cstr_field (f_name fd)) (cstr_field val);
                 migrateFields h src key fds dst1 True }
      })"

definition migrateOne :: "sdb_heap \<Rightarrow> sdb_store \<Rightarrow> nat \<Rightarrow> sdb_store \<Rightarrow> sdb_store option" where
  "migrateOne h src off dst =
     do { (key, texts) \<leftarrow> readRecordText (s_schema src) (s_block src) off;
          (dst1, mat) \<leftarrow> migrateFields h src key (sfields (s_schema src)) dst False;
          if \<not> mat \<and> sfields (s_schema dst1) \<noteq> []
          then sdbSetField h dst1 (cstr_field key) (cstr_field (f_name (hd (sfields (s_schema dst1))))) []
          else Some dst1 }"

partial_function (option) migrateLoop :: "sdb_heap \<Rightarrow> sdb_store \<Rightarrow> nat \<Rightarrow> sdb_store \<Rightarrow> sdb_store option" where
  "migrateLoop h src off dst =
     (if \<not> off < s_used src then Some dst
      else do {
        rlen \<leftarrow> rdU32 (s_block src) (off + SDB_REC_LEN_OFF);
        if badLen (hdr_size (s_schema src)) (s_used src) off rlen then Some dst
        else do {
          flags \<leftarrow> rdU8 (s_block src) (off + SDB_FLAGS_OFF);
          if isDeleted flags then migrateLoop h src (sz_add off rlen) dst
          else do {
            dst1 \<leftarrow> migrateOne h src off dst;
            migrateLoop h src (sz_add off rlen) dst1
          }
        }
      })"

definition sdbMigrateRecords :: "sdb_heap \<Rightarrow> sdb_store \<Rightarrow> sdb_store \<Rightarrow> sdb_store option" where
  "sdbMigrateRecords h dst src = migrateLoop h src SDB_FILE_HDR dst"

subsection \<open>Loading\<close>

definition fresh_store :: "sdb_schema \<Rightarrow> bytes \<Rightarrow> sdb_store" where
  "fresh_store sc path =
     \<lparr>s_schema = sc, s_path = path, cap_records = 0, s_block = [], s_cap = 0, s_loaded = False,
      s_dirty = False, grow_failed = False, s_index = []\<rparr>"

definition sdbLoadFailEmpty :: "sdb_heap \<Rightarrow> sdb_store \<Rightarrow> bool \<times> sdb_store" where
  "sdbLoadFailEmpty h s = (False, sdbInitEmpty h (s\<lparr>s_block := [], s_cap := 0, s_loaded := False\<rparr>))"

text \<open>The schema a file's records were written with and where they begin.\<close>

definition resolveReader :: "sdb_legacy list \<Rightarrow> sdb_schema \<Rightarrow> bytes \<Rightarrow> (sdb_schema \<times> nat) option" where
  "resolveReader legacy sc blk =
     (let fmt = of_le16 (slice 4 2 blk); fid = of_le16 (slice 6 2 blk); fver = of_le16 (slice 8 2 blk);
          fhdr = unat (of_le16 (slice 10 2 blk))
      in if fmt \<ge> 2
         then (if length blk < SDB_FILE_HDR + 2 then None
               else let descLen = unat (of_le16 (slice SDB_FILE_HDR 2 blk));
                        recStart = SDB_FILE_HDR + 2 + descLen
                    in if recStart > length blk then None
                       else (case parseDescriptor (slice (SDB_FILE_HDR + 2) descLen blk) fid fver fhdr of
                               None \<Rightarrow> None
                             | Some rd \<Rightarrow> Some (rd, recStart)))
         else if fhdr = hdr_size sc then Some (sc, SDB_FILE_HDR)
         else map_option (\<lambda>rd. (rd, SDB_FILE_HDR)) (sdbFindLegacy legacy fid fhdr))"

definition adoptBlock :: "sdb_heap \<Rightarrow> sdb_store \<Rightarrow> bytes \<Rightarrow> (bool \<times> sdb_store) option" where
  "adoptBlock h s rb =
     do { (ok, s1) \<leftarrow> rebuildIndex (s\<lparr>s_block := rb, s_cap := length rb, s_loaded := True, s_dirty := False\<rparr>);
          if \<not> ok then Some (sdbLoadFailEmpty h s1)
          else Some (True, writeFileHeader s1 (length (s_index s1))) }"

definition migrateBlock :: "sdb_heap \<Rightarrow> sdb_store \<Rightarrow> sdb_schema \<Rightarrow> bytes \<Rightarrow> (bool \<times> sdb_store) option" where
  "migrateBlock h s reader rb =
     do { (ok, rs) \<leftarrow> rebuildIndex ((fresh_store reader [])\<lparr>s_block := rb, s_cap := length rb, s_loaded := True\<rparr>);
          if \<not> ok then Some (sdbLoadFailEmpty h s)
          else let ds = sdbInitEmpty h (fresh_store (s_schema s) (s_path s))
               in if \<not> s_loaded ds then Some (False, sdbInitEmpty h s)
                  else do { ds1 \<leftarrow> sdbMigrateRecords h ds rs;
                            let s1 = s\<lparr>s_block := s_block ds1, s_cap := s_cap ds1, s_index := s_index ds1,
                                       s_loaded := True, s_dirty := True\<rparr>;
                            Some (True, writeFileHeader s1 (length (s_index s1))) } }"

definition loadBlock :: "sdb_legacy list \<Rightarrow> sdb_heap \<Rightarrow> sdb_store \<Rightarrow> bytes \<Rightarrow> (bool \<times> sdb_store) option" where
  "loadBlock legacy h s blk =
     (if length blk < SDB_FILE_HDR \<or> take 4 blk \<noteq> SDB_MAGIC then Some (sdbLoadFailEmpty h s)
      else if of_le16 (slice 6 2 blk) \<noteq> schema_id (s_schema s) then Some (sdbLoadFailEmpty h s)
      else (case resolveReader legacy (s_schema s) blk of
              None \<Rightarrow> Some (sdbLoadFailEmpty h s)
            | Some (reader, recStart) \<Rightarrow>
                (let rb = take SDB_FILE_HDR blk @ drop recStart blk
                 in if \<not> h_alloc h (length rb) then Some (False, sdbInitEmpty h s)
                    else if schemaLayoutEqual reader (s_schema s) then adoptBlock h s rb
                    else migrateBlock h s reader rb)))"

definition sdbLoad :: "gz_lib \<Rightarrow> sdb_legacy list \<Rightarrow> sdb_heap \<Rightarrow> sdb_fs \<Rightarrow> sdb_store \<Rightarrow> (bool \<times> sdb_store) option" where
  "sdbLoad lib legacy h fs s =
     (if s_loaded s then Some (True, s)
      else if s_path s = [] then Some (True, sdbInitEmpty h s)
      else case map_of (fs_files fs) (s_path s) of
             None \<Rightarrow> Some (True, sdbInitEmpty h s)
           | Some c \<Rightarrow>
               (if c = [] then Some (True, sdbInitEmpty h s)
                else if \<not> fs_open_rd fs (s_path s) then Some (True, sdbInitEmpty h s)
                else if \<not> h_alloc h (length c) then Some (False, sdbInitEmpty h s)
                else (case gzInflateBin lib h (take (fs_read_len fs (length c)) c) of
                        None \<Rightarrow> Some (False, sdbInitEmpty h s)
                      | Some blk \<Rightarrow> loadBlock legacy h s blk)))"

subsection \<open>Flushing\<close>

text \<open>The chunked write: \<open>acc\<close> is what reached the file.\<close>

function writeLoop :: "(nat \<Rightarrow> nat \<Rightarrow> nat) \<Rightarrow> nat \<Rightarrow> bytes \<Rightarrow> bytes \<Rightarrow> bool \<times> bytes" where
  "writeLoop wl o' rest acc =
     (if rest = [] then (True, acc)
      else let n = min 8192 (length rest); w = wl o' n
           in if w \<noteq> n then (False, acc @ take w rest)
              else writeLoop wl (o' + n) (drop n rest) (acc @ take n rest))"
  by pat_completeness auto
termination by (relation "measure (\<lambda>(wl, o', rest, acc). length rest)") auto

declare writeLoop.simps [simp del]

definition writeNew :: "sdb_fs \<Rightarrow> bytes \<Rightarrow> bytes \<Rightarrow> bool \<times> sdb_fs" where
  "writeNew fs path gz =
     (let tmp = path @ bytes_of ''.new''
      in if \<not> fs_open_wr fs tmp then (False, fs)
         else let (ok, c) = writeLoop (fs_write_len fs) 0 gz []
              in if \<not> ok then (False, fs\<lparr>fs_files := AList.delete tmp (fs_files fs)\<rparr>)
                 else if fs_rename_ok fs
                 then (True, fs\<lparr>fs_files := AList.update path c (AList.delete tmp (fs_files fs))\<rparr>)
                 else (True, fs\<lparr>fs_files := AList.update tmp c (fs_files fs)\<rparr>))"

definition sdbFlush :: "gz_lib \<Rightarrow> sdb_heap \<Rightarrow> sdb_fs \<Rightarrow> sdb_store \<Rightarrow> (bool \<times> sdb_store \<times> sdb_fs) option" where
  "sdbFlush lib h fs s =
     (if \<not> s_loaded s \<or> s_path s = [] then Some (True, s\<lparr>s_dirty := False\<rparr>, fs)
      else do {
        s1 \<leftarrow> compact s 0;
        case buildDiskImage h s1 of
          None \<Rightarrow> Some (False, s1, fs)
        | Some img \<Rightarrow>
            (case gzDeflateBin lib h img of
               None \<Rightarrow> Some (False, s1, fs)
             | Some gz \<Rightarrow>
                 (let (ok, fs1) = writeNew fs (s_path s1) gz
                  in Some (ok, if ok then s1\<lparr>s_dirty := False\<rparr> else s1, fs1)))
      })"

definition sdbUpgradeFileIfStale :: "gz_lib \<Rightarrow> sdb_legacy list \<Rightarrow> sdb_heap \<Rightarrow> sdb_fs \<Rightarrow> bytes \<Rightarrow> sdb_schema
    \<Rightarrow> (bool \<times> sdb_fs) option" where
  "sdbUpgradeFileIfStale lib legacy h fs path cur =
     (case map_of (fs_files fs) path of
        None \<Rightarrow> Some (False, fs)
      | Some c \<Rightarrow>
          (if c = [] then Some (False, fs)
           else if sdbFileMatchesSchema lib h fs path cur then Some (False, fs)
           else do {
             (ok, s) \<leftarrow> sdbLoad lib legacy h fs (fresh_store cur path);
             if \<not> ok then Some (False, fs)
             else do { (ok2, s2, fs2) \<leftarrow> sdbFlush lib h fs s; Some (ok2, fs2) }
           }))"

subsection \<open>Snapshots\<close>

definition sdbSnapshotRaw :: "sdb_heap \<Rightarrow> sdb_store \<Rightarrow> (bytes option \<times> sdb_store) option" where
  "sdbSnapshotRaw h s =
     (if \<not> s_loaded s then Some (None, s)
      else do { s1 \<leftarrow> compact s 0; Some (buildDiskImage h s1, s1) })"

definition sdbSerializeGz :: "gz_lib \<Rightarrow> sdb_heap \<Rightarrow> sdb_store \<Rightarrow> (bytes option \<times> sdb_store) option" where
  "sdbSerializeGz lib h s =
     (if \<not> s_loaded s then Some (None, s)
      else do { s1 \<leftarrow> compact s 0;
                Some (case buildDiskImage h s1 of None \<Rightarrow> None | Some img \<Rightarrow> gzDeflateBin lib h img, s1) })"

definition sdbGzDeflate :: "gz_lib \<Rightarrow> sdb_heap \<Rightarrow> bytes \<Rightarrow> bytes option" where
  "sdbGzDeflate lib h inp = gzDeflateBin lib h inp"

end
