(* ===== verification/Sdb_Persist.thy ===== *)
theory Sdb_Persist
  imports Sdb_Contract Sdb_File
begin

unbundle bit_operations_syntax

section \<open>What reaches the disk and what comes back\<close>

text \<open>
  The gzip framing round trip, the layout of a disk image, and the load of a file the current
  layout wrote. \<open>gz_codec\<close> is what the code relies on of the ROM routines: compressing into the
  worst-case buffer completes, and inflating its output into a buffer of the right size gives
  the input back.
\<close>

definition gz_codec :: "gz_lib \<Rightarrow> bool" where
  "gz_codec lib \<longleftrightarrow> (\<forall>inp. \<exists>out. tdefl_all lib inp (length inp + length inp div 8 + 192) = (True, length inp, out)
     \<and> length out \<le> length inp + length inp div 8 + 192 \<and> tinfl_all lib out (length inp) = (TINFL_DONE, inp))"

text \<open>A heap that grants every request up to a size.\<close>

definition heap_allocs :: "sdb_heap \<Rightarrow> nat \<Rightarrow> bool" where
  "heap_allocs h n \<longleftrightarrow> (\<forall>m \<le> n. h_alloc h m)"

subsection \<open>gzip framing\<close>

lemma gzDeflateBin_frame:
  assumes "gz_codec lib" "heap_allocs h (length inp + length inp div 8 + 210)" "h_alloc h (tdefl_size lib)"
  obtains out where "gzDeflateBin lib h inp
      = Some ([0x1f, 0x8b, 8, 0, 0, 0, 0, 0, 0, 0xff] @ out @ le32 (gz_crc32 lib inp) @ le32 (of_nat (length inp)))"
    "tinfl_all lib out (length inp) = (TINFL_DONE, inp)" "length out \<le> length inp + length inp div 8 + 192"
proof -
  obtain out where out: "tdefl_all lib inp (length inp + length inp div 8 + 192) = (True, length inp, out)"
    "tinfl_all lib out (length inp) = (TINFL_DONE, inp)" "length out \<le> length inp + length inp div 8 + 192" using assms(1) by (auto simp: gz_codec_def)
  have "h_alloc h (SDB_GZ_HDR + SDB_GZ_FOOT + length inp + length inp div 8 + 192)"
    using assms(2) by (simp add: heap_allocs_def SDB_GZ_HDR_def SDB_GZ_FOOT_def)
  moreover have "SDB_GZ_HDR + SDB_GZ_FOOT + length inp + length inp div 8 + 192 - SDB_GZ_HDR - SDB_GZ_FOOT
      = length inp + length inp div 8 + 192" by simp
  ultimately have "gzDeflateBin lib h inp
      = Some ([0x1f, 0x8b, 8, 0, 0, 0, 0, 0, 0, 0xff] @ out @ le32 (gz_crc32 lib inp) @ le32 (of_nat (length inp)))"
    using out(1) assms(3) unfolding gzDeflateBin_def Let_def by (simp only: if_True if_False prod.case not_True_eq_False simp_thms)
  then show ?thesis using that out(2,3) by blast
qed

lemma gzInflate_frame:
  assumes "tinfl_all lib out (length inp) = (TINFL_DONE, inp)" "length inp \<le> SDB_MAX_INFLATED"
    "heap_allocs h (length inp + 1)" "h_alloc h (tinfl_size lib)"
  shows "gzInflateBin lib h ([0x1f, 0x8b, 8, 0, 0, 0, 0, 0, 0, 0xff] @ out @ le32 (gz_crc32 lib inp) @ le32 (of_nat (length inp))) = Some inp"
proof -
  define hd10 :: bytes where "hd10 = [0x1f, 0x8b, 8, 0, 0, 0, 0, 0, 0, 0xff]"
  define c d where "c = le32 (gz_crc32 lib inp)" and "d = le32 (of_nat (length inp) :: u32)"
  define gz where "gz = hd10 @ out @ c @ d"
  have l: "length hd10 = 10" "length c = 4" "length d = 4" by (simp_all add: hd10_def c_def d_def)
  then have n: "length gz = length out + 18" by (simp add: gz_def)
  have "gz ! 0 = 0x1f" "gz ! 1 = 0x8b" "gz ! 2 = 8" "gz ! 3 = 0" by (simp_all add: gz_def hd10_def)
  then have st: "gzDataStart gz = Some 10"
    using n by (simp add: gzDataStart_def SDB_GZ_HDR_def SDB_GZ_FOOT_def Let_def)
  have "slice (length gz - 8) 4 gz = c" "slice (length gz - 4) 4 gz = d" "slice 10 (length gz - 10 - 8) gz = out"
    using l n by (simp_all add: gz_def slice_def)
  moreover have "unat (of_le32 d) = length inp"
    using assms(2) by (simp add: d_def unat_of_nat32 SDB_MAX_INFLATED_def)
  ultimately have "gzInflateBin lib h gz = Some inp"
    using st assms by (simp add: gzInflateBin_def c_def SDB_GZ_FOOT_def heap_allocs_def)
  then show ?thesis by (simp add: gz_def hd10_def c_def d_def)
qed

lemma gzInflate_too_big:
  assumes "SDB_MAX_INFLATED < length inp" "length inp < 4294967296"
  shows "gzInflateBin lib h ([0x1f, 0x8b, 8, 0, 0, 0, 0, 0, 0, 0xff] @ out @ le32 (gz_crc32 lib inp) @ le32 (of_nat (length inp))) = None"
proof -
  define pre where "pre = [0x1f, 0x8b, 8, 0, 0, 0, 0, 0, 0, 0xff] @ out @ le32 (gz_crc32 lib inp)"
  define gz where "gz = pre @ le32 (of_nat (length inp) :: u32)"
  have "slice (length gz - 4) 4 gz = le32 (of_nat (length inp))" by (simp add: gz_def slice_def)
  then have "unat (of_le32 (slice (length gz - 4) 4 gz)) = length inp" using assms(2) by (simp add: unat_of_nat32)
  then have "gzInflateBin lib h gz = None"
    using assms(1) by (auto simp: gzInflateBin_def Let_def split: option.split)
  then show ?thesis by (simp add: gz_def pre_def)
qed

subsection \<open>The image of a store\<close>

definition diskImage :: "sdb_schema \<Rightarrow> sdb_rec list \<Rightarrow> bytes" where
  "diskImage sc L = fileHeader sc (length L) @ prefixed (serializeDescriptor sc) @ images L"

lemma fileHeader_parts:
  "take 4 (fileHeader sc n @ x) = SDB_MAGIC" "slice 4 2 (fileHeader sc n @ x) = le16 SDB_FORMAT_VER"
  "slice 6 2 (fileHeader sc n @ x) = le16 (schema_id sc)" "slice 8 2 (fileHeader sc n @ x) = le16 (schema_ver sc)"
  "slice 10 2 (fileHeader sc n @ x) = le16 (of_nat (hdr_size sc))"
  by (simp_all add: fileHeader_def SDB_MAGIC_def slice_def)

lemma fileHeader_fmt: "overwrite (fileHeader sc n) 4 (le16 SDB_FORMAT_VER) = fileHeader sc n"
  by (simp add: fileHeader_def SDB_MAGIC_def overwrite_def)

lemma buildDiskImage_eq:
  assumes "s_block s = fileHeader (s_schema s) (length L) @ images L"
  shows "buildDiskImage h s = (if h_alloc h (length (diskImage (s_schema s) L)) then Some (diskImage (s_schema s) L) else None)"
  using assms by (simp add: buildDiskImage_def Let_def diskImage_def prefixed_def fileHeader_fmt)

definition schema_disk_ok :: "sdb_schema \<Rightarrow> bool" where
  "schema_disk_ok sc \<longleftrightarrow> schema_ok sc \<and> list_all name_ok (sfields sc) \<and> length (serializeDescriptor sc) < 65536"

lemma resolveReader_image:
  assumes "schema_disk_ok sc"
  shows "resolveReader legacy sc (diskImage sc L) = Some (sc, SDB_FILE_HDR + 2 + length (serializeDescriptor sc))"
proof -
  define D where "D = serializeDescriptor sc"
  have d: "length D < 65536" and hs: "hdr_size sc < 65536" using assms by (auto simp: schema_disk_ok_def schema_ok_def D_def)
  define blk where "blk = diskImage sc L"
  have blk: "blk = fileHeader sc (length L) @ prefixed D @ images L" by (simp add: blk_def diskImage_def D_def)
  have sl: "slice SDB_FILE_HDR 2 blk = le16 (of_nat (length D))" "slice (SDB_FILE_HDR + 2) (length D) blk = D"
    by (simp_all add: blk slice_def prefixed_def)
  have "parseDescriptor D (schema_id sc) (schema_ver sc) (hdr_size sc) = Some sc"
    using parseDescriptor_serialize [of sc] assms by (simp add: schema_disk_ok_def D_def)
  moreover have "SDB_FORMAT_VER \<ge> 2" by (simp add: SDB_FORMAT_VER_def)
  moreover have "SDB_FILE_HDR + 2 + length D \<le> length blk" by (simp add: blk)
  moreover have "slice 4 2 blk = le16 SDB_FORMAT_VER" "slice 6 2 blk = le16 (schema_id sc)" "slice 8 2 blk = le16 (schema_ver sc)"
    "slice 10 2 blk = le16 (of_nat (hdr_size sc))" unfolding blk by (rule fileHeader_parts)+
  ultimately have "resolveReader legacy sc blk = Some (sc, SDB_FILE_HDR + 2 + length D)"
    using sl d hs by (simp add: resolveReader_def Let_def unat_of_nat16)
  then show ?thesis by (simp add: blk_def D_def)
qed

subsection \<open>Loading what was flushed\<close>

lemma adoptBlock_images:
  assumes "schema_ok (s_schema s)" "list_all (rec_ok (s_schema s)) L" "list_all live L" "distinct (map r_key L)"
    "length rb < 2147483648" "rb = fileHeader (s_schema s) n @ images L"
  shows "\<exists>s'. adoptBlock h s rb = Some (True, s') \<and> store_ok s' L \<and> kept (s\<lparr>s_loaded := True\<rparr>) s' \<and> \<not> s_dirty s'
           \<and> s_cap s' = length rb"
proof -
  define s0 where "s0 = s\<lparr>s_block := rb, s_cap := length rb, s_loaded := True, s_dirty := False\<rparr>"
  define idx where "idx = foldl (\<lambda>i e. AList.update (fst e) (snd e) i) [] (liveIdx SDB_FILE_HDR L)"
  have fl: "filter live L = L" using assms(3) by (simp add: filter_id_conv list_all_iff)
  have "rebuildLoop (hdr_size (s_schema s)) rb SDB_FILE_HDR [] = Some (True, idx)"
    unfolding idx_def using assms by (intro rebuildLoop_images) auto
  then have rb: "rebuildIndex s0 = Some (True, s0\<lparr>s_index := idx\<rparr>)"
    by (simp add: rebuildIndex_def s0_def)
  have m: "map_of idx = map_of (liveIdx SDB_FILE_HDR L)" "distinct (map fst idx)"
    using foldl_update_index [of "liveIdx SDB_FILE_HDR L" "[]"] foldl_update_distinct [of "[]"] assms(4) fl
    by (simp_all add: idx_def)
  define s' where "s' = writeFileHeader (s0\<lparr>s_index := idx\<rparr>) (length idx)"
  have blk: "s_block s' = fileHeader (s_schema s) (length idx) @ images L"
    using writeFileHeader_block [of "fileHeader (s_schema s) n" "s0\<lparr>s_index := idx\<rparr>" "images L"] assms(6)
    by (simp add: s'_def s0_def)
  have "reps s' L"
    using assms(1,2,4,5,6) m blk fl unfolding reps_def by (auto simp: s'_def s0_def writeFileHeader_def)
  then have "store_ok s' L" using fl by (auto simp: store_ok_def)
  moreover have "adoptBlock h s rb = Some (True, s')" using rb by (simp add: adoptBlock_def s'_def s0_def)
  ultimately show ?thesis by (auto simp: kept_def s'_def s0_def writeFileHeader_def)
qed

lemma loadBlock_image:
  assumes "schema_disk_ok (s_schema s)" "list_all (rec_ok (s_schema s)) L" "list_all live L" "distinct (map r_key L)"
    "length (diskImage (s_schema s) L) \<le> SDB_MAX_INFLATED" "heap_allocs h (length (diskImage (s_schema s) L))"
  shows "\<exists>s'. loadBlock legacy h s (diskImage (s_schema s) L) = Some (True, s') \<and> store_ok s' L
           \<and> kept (s\<lparr>s_loaded := True\<rparr>) s' \<and> \<not> s_dirty s'"
proof -
  define D where "D = serializeDescriptor (s_schema s)"
  define blk where "blk = diskImage (s_schema s) L"
  have blk: "blk = fileHeader (s_schema s) (length L) @ prefixed D @ images L" by (simp add: blk_def diskImage_def D_def)
  define rb where "rb = take SDB_FILE_HDR blk @ drop (SDB_FILE_HDR + 2 + length D) blk"
  have rb: "rb = fileHeader (s_schema s) (length L) @ images L" by (simp add: rb_def blk)
  have len: "length rb \<le> SDB_MAX_INFLATED" using assms(5) by (simp add: rb blk_def [symmetric] blk)
  have "loadBlock legacy h s blk = adoptBlock h s rb"
  proof -
    have "take 4 blk = SDB_MAGIC" "slice 6 2 blk = le16 (schema_id (s_schema s))" unfolding blk by (rule fileHeader_parts)+
    then have "\<not> (length blk < SDB_FILE_HDR \<or> take 4 blk \<noteq> SDB_MAGIC)" "of_le16 (slice 6 2 blk) = schema_id (s_schema s)"
      by (simp_all add: blk)
    moreover have "resolveReader legacy (s_schema s) blk = Some (s_schema s, SDB_FILE_HDR + 2 + length D)"
      unfolding blk_def D_def by (rule resolveReader_image [OF assms(1)])
    moreover have "h_alloc h (length rb)" using assms(6) by (simp add: heap_allocs_def rb blk_def [symmetric] blk)
    moreover have "schemaLayoutEqual (s_schema s) (s_schema s)" by (simp add: schemaLayoutEqual_iff)
    ultimately show ?thesis by (simp add: loadBlock_def rb_def Let_def)
  qed
  moreover have "schema_ok (s_schema s)" using assms(1) by (simp add: schema_disk_ok_def)
  ultimately show ?thesis
    using adoptBlock_images [OF _ assms(2,3,4) _ rb, of h] len by (auto simp: blk_def SDB_MAX_INFLATED_def)
qed

subsection \<open>Writing the file\<close>

lemma writeLoop_full: "(\<And>o' n. wl o' n = n) \<Longrightarrow> writeLoop wl o' rest acc = (True, acc @ rest)"
proof (induction "length rest" arbitrary: o' rest acc rule: less_induct)
  case less
  show ?case
  proof (cases "rest = []")
    case False
    define n where "n = min 8192 (length rest)"
    have "0 < n" "n \<le> length rest" using False by (auto simp: n_def)
    then have "writeLoop wl (o' + n) (drop n rest) (acc @ take n rest) = (True, (acc @ take n rest) @ drop n rest)"
      using less.hyps [of "drop n rest"] less.prems False by simp
    then show ?thesis using False less.prems by (subst writeLoop.simps) (simp add: Let_def n_def)
  qed (simp add: writeLoop.simps)
qed

lemma writeLoop_True: "fst (writeLoop wl o' rest acc) \<Longrightarrow> snd (writeLoop wl o' rest acc) = acc @ rest"
proof (induction wl o' rest acc rule: writeLoop.induct)
  case (1 wl o' rest acc)
  show ?case
  proof (cases "rest = [] \<or> wl o' (min 8192 (length rest)) \<noteq> min 8192 (length rest)")
    case True
    then show ?thesis using "1.prems" by (subst writeLoop.simps, subst (asm) writeLoop.simps) (auto simp: Let_def split: if_splits)
  next
    case False
    then have "writeLoop wl o' rest acc = writeLoop wl (o' + min 8192 (length rest)) (drop (min 8192 (length rest)) rest)
        (acc @ take (min 8192 (length rest)) rest)"
      by (subst writeLoop.simps) (simp add: Let_def)
    then show ?thesis using 1 False by simp
  qed
qed

lemma tmp_path: "path @ bytes_of ''.new'' \<noteq> path"
  by simp

lemma writeNew_atomic:
  assumes "writeNew fs path gz = (ok, fs')"
  shows "map_of (fs_files fs') path = map_of (fs_files fs) path \<or> ok \<and> map_of (fs_files fs') path = Some gz"
    "\<not> ok \<Longrightarrow> map_of (fs_files fs') path = map_of (fs_files fs) path"
    "ok \<Longrightarrow> fs_rename_ok fs \<Longrightarrow> map_of (fs_files fs') path = Some gz"
    "\<not> fs_rename_ok fs \<Longrightarrow> map_of (fs_files fs') path = map_of (fs_files fs) path"
proof -
  obtain ok1 c where w: "writeLoop (fs_write_len fs) 0 gz [] = (ok1, c)" by fastforce
  have "ok1 \<Longrightarrow> c = gz" using writeLoop_True [of "fs_write_len fs" 0 gz "[]"] w by simp
  then show "map_of (fs_files fs') path = map_of (fs_files fs) path \<or> ok \<and> map_of (fs_files fs') path = Some gz"
    "\<not> ok \<Longrightarrow> map_of (fs_files fs') path = map_of (fs_files fs) path"
    "ok \<Longrightarrow> fs_rename_ok fs \<Longrightarrow> map_of (fs_files fs') path = Some gz"
    "\<not> fs_rename_ok fs \<Longrightarrow> map_of (fs_files fs') path = map_of (fs_files fs) path"
    using assms w tmp_path [of path]
    by (auto simp: writeNew_def Let_def update_conv' delete_conv' split: if_splits)
qed

end
