(* ===== verification/Sdb_Props.thy ===== *)
theory Sdb_Props
  imports Sdb_Persist
begin

section \<open>Properties of the record stores\<close>

text \<open>
  The properties of storage_db.cpp: a field reads back what was written, through any history of
  sets and deletes; no answer of the heap can cost more than the record being written; the
  ephemeral cap keeps the newest records; a flush and a load return the same records, and a
  flush that fails leaves the old file. The demo schema and store serve the witnesses.
\<close>

subsection \<open>An empty store\<close>

lemma sdbInitEmpty_ok:
  assumes "schema_ok (s_schema s)" "\<not> s_loaded s" "s_cap s = 0" "heap_ok h" "h_realloc h 256"
  shows "store_ok (sdbInitEmpty h s) []" "s_schema (sdbInitEmpty h s) = s_schema s"
    "s_path (sdbInitEmpty h s) = s_path s" "cap_records (sdbInitEmpty h s) = cap_records s"
    "\<not> s_dirty (sdbInitEmpty h s)" "s_used (sdbInitEmpty h s) = SDB_FILE_HDR"
proof -
  have g: "growCap 256 SDB_FILE_HDR = 256" by (simp add: growCap.simps SDB_FILE_HDR_def)
  have e: "sdbInitEmpty h s = s\<lparr>s_index := [], s_cap := 256, grow_failed := False,
      s_block := fileHeader (s_schema s) 0, s_loaded := True, s_dirty := False\<rparr>"
    using assms(2,3,5) g by (simp add: sdbInitEmpty_def ensureCap_def SDB_FILE_HDR_def)
  have "reps (sdbInitEmpty h s) []" using assms(1) by (simp add: e reps_def SDB_FILE_HDR_def)
  then show "store_ok (sdbInitEmpty h s) []" by (auto simp: store_ok_def)
  show "s_schema (sdbInitEmpty h s) = s_schema s" "s_path (sdbInitEmpty h s) = s_path s"
    "cap_records (sdbInitEmpty h s) = cap_records s" "\<not> s_dirty (sdbInitEmpty h s)"
    "s_used (sdbInitEmpty h s) = SDB_FILE_HDR" by (simp_all add: e)
qed

definition demo_schema :: sdb_schema where
  "demo_schema = sdb_text (bytes_of ''body'') (sdb_u32 (bytes_of ''ts'') (sdb_u8 (bytes_of ''n'') sdb_schema0))"

definition demo_heap :: sdb_heap where
  "demo_heap = \<lparr>h_realloc = (\<lambda>n. n < 2147483648), h_alloc = (\<lambda>n. n < 2147483648)\<rparr>"

definition demo_store :: "nat \<Rightarrow> sdb_store" where
  "demo_store cap = (sdbInitEmpty demo_heap (fresh_store demo_schema (bytes_of ''/m.gz'')))\<lparr>cap_records := cap\<rparr>"

lemma demo_schema_eq: "demo_schema = \<lparr>schema_id = 0, schema_ver = 0, hdr_size = 16, sfields =
   [\<lparr>f_name = bytes_of ''n'', f_kind = SDB_U8, f_off = 8, f_width = 0\<rparr>,
    \<lparr>f_name = bytes_of ''ts'', f_kind = SDB_U32, f_off = 12, f_width = 0\<rparr>,
    \<lparr>f_name = bytes_of ''body'', f_kind = SDB_TEXT, f_off = 0, f_width = 0\<rparr>]\<rparr>"
  by (simp add: demo_schema_def sdb_text_def sdb_u32_def sdb_u8_def sdb_schema0_def push_field_def textCount_def
      SDB_HDR_BUILTIN_def Let_def)

lemma demo_schema_ok: "schema_ok demo_schema"
  unfolding demo_schema_eq
  by (simp add: schema_ok_def field_ok_def is_fixed_def is_text_def fixed_width.simps SDB_HDR_BUILTIN_def)

lemma demo_schema_disk_ok: "schema_disk_ok demo_schema"
proof -
  have "list_all name_ok (sfields demo_schema)" by (simp add: demo_schema_eq name_ok_def)
  moreover have "length (serializeDescriptor demo_schema) < 65536"
    by (simp add: demo_schema_eq serializeDescriptor_def serializeField_def Let_def)
  ultimately show ?thesis using demo_schema_ok by (simp add: schema_disk_ok_def)
qed

lemma demo_heap_ok: "heap_ok demo_heap" "n \<le> 1073741824 \<Longrightarrow> heap_grants demo_heap n" "h_realloc demo_heap 256"
  "m \<le> 1073741824 \<Longrightarrow> heap_allocs demo_heap m" "h_alloc demo_heap 0"
  by (auto simp: heap_ok_def heap_grants_def heap_allocs_def demo_heap_def)

lemma demo_find: "sdb_find demo_schema (bytes_of ''n'') = Some \<lparr>f_name = bytes_of ''n'', f_kind = SDB_U8, f_off = 8, f_width = 0\<rparr>"
  "sdb_find demo_schema (bytes_of ''ts'') = Some \<lparr>f_name = bytes_of ''ts'', f_kind = SDB_U32, f_off = 12, f_width = 0\<rparr>"
  "sdb_find demo_schema (bytes_of ''body'') = Some \<lparr>f_name = bytes_of ''body'', f_kind = SDB_TEXT, f_off = 0, f_width = 0\<rparr>"
  by (simp_all add: demo_schema_eq sdb_find_def)

lemma demo_store_ok:
  "store_ok (demo_store cap) []" "s_schema (demo_store cap) = demo_schema" "cap_records (demo_store cap) = cap"
  "s_path (demo_store cap) = bytes_of ''/m.gz''" "\<not> s_dirty (demo_store cap)" "s_used (demo_store cap) = 16"
proof -
  note e = sdbInitEmpty_ok [of "fresh_store demo_schema (bytes_of ''/m.gz'')" demo_heap, OF _ _ _ demo_heap_ok(1,3)]
  have "store_ok (t\<lparr>cap_records := c\<rparr>) L = store_ok t L" for t c L by (simp add: store_ok_def reps_def)
  then show "store_ok (demo_store cap) []" "s_schema (demo_store cap) = demo_schema" "cap_records (demo_store cap) = cap"
    "s_path (demo_store cap) = bytes_of ''/m.gz''" "\<not> s_dirty (demo_store cap)" "s_used (demo_store cap) = 16"
    using e demo_schema_ok by (simp_all add: demo_store_def fresh_store_def SDB_FILE_HDR_def)
qed

lemma demo_room: "setRoom (demo_store cap) (bytes_of ''a'') val = 74 + length val"
proof -
  have "rec_size (emptyRec demo_schema (bytes_of ''a'')) = 21"
    using mkRec_hdr(4) [of "replicate 16 0" "bytes_of ''a''" "[[]]"]
    by (simp add: emptyRec_def demo_schema_eq textCount_def)
  then show ?thesis by (simp add: setRoom_def demo_store_ok)
qed

subsection \<open>Reading back\<close>

lemma sdbHasRecord_lookup: "store_ok s L \<Longrightarrow> sdbHasRecord s key \<longleftrightarrow> lookupRec L key \<noteq> None"
  using store_keys(5) [of s L key] store_ok_reps [of s L] lookupRec_None [of L key]
  by (auto simp: sdbHasRecord_def findRec_def)

lemma sdbGetField_get: "sdb_inv s \<Longrightarrow> sdbGetField s key field = Some (sdb_get s key field)"
  using sdbGetField_ok by (auto simp: sdb_inv_def sdb_get_def)

text \<open>In an uncapped store, when the heap grants the growth, \<open>sdbSetField\<close> returns and the field
  reads back as the canonical form of the value written; every other field of the record keeps
  its value (or has its default when the record is new), and every other record is unchanged.\<close>

theorem sdb_set_get:
  assumes "store_ok s L" "cap_records s = 0" "heap_ok h" "heap_grants h (setRoom s key val)"
    "sdb_find (s_schema s) field = Some fd" "length key < 65536" "length val < 65536" "0 \<notin> set val"
  shows "\<exists>s'. sdbSetField h s key field val = Some s'
     \<and> sdbGetField s' key field = Some (Some (canon fd val))
     \<and> (\<forall>g. g \<noteq> field \<longrightarrow> sdbGetField s' key g
          = (if sdbHasRecord s key then sdbGetField s key g else Some (defaultOf (s_schema s) g)))
     \<and> (\<forall>k g. k \<noteq> key \<longrightarrow> sdbGetField s' k g = sdbGetField s k g)"
proof -
  have inv: "sdb_inv s" using assms(1,2) by (auto simp: sdb_inv_def)
  obtain s' where s': "sdbSetField h s key field val = Some s'"
    using sdbSetField_ok [OF assms(1,3,5,6,7)] by blast
  have sets: "sdb_sets s key field val s'" using assms s' by (auto simp: sdb_sets_def)
  note g = sdb_sets_get [OF inv sets] and gf = sdbGetField_get
  have "sdb_get s key g = (if sdbHasRecord s key then sdb_get s key g else None)" for g
    using sdbHasRecord_lookup [OF assms(1)] sdb_get_spec [OF assms(1)] by (simp add: specGet_def)
  moreover have "sdbHasRecord s key \<Longrightarrow> sdb_get s key g = None \<Longrightarrow> defaultOf (s_schema s) g = None" for g
    using sdbHasRecord_lookup [OF assms(1)] sdb_get_spec [OF assms(1)] by (auto simp: specGet_def defaultOf_def)
  ultimately have "g \<noteq> field \<Longrightarrow> sdb_get s' key g
      = (if sdbHasRecord s key then sdb_get s key g else defaultOf (s_schema s) g)" for g
    using g(2) by (cases "sdb_get s key g") (auto split: if_splits)
  then show ?thesis
    using s' g(1,3) gf [OF inv] gf [OF g(4)] assms(5) by (auto simp: sdb_norm_def)
qed

theorem sdb_set_get_witness:
  "\<exists>s'. sdbSetField demo_heap (demo_store 0) (bytes_of ''a'') (bytes_of ''n'') (bytes_of ''7'') = Some s'
     \<and> sdbGetField s' (bytes_of ''a'') (bytes_of ''n'') = Some (Some (bytes_of ''7''))
     \<and> sdbGetField s' (bytes_of ''a'') (bytes_of ''ts'') = Some (Some (bytes_of ''0''))"
proof -
  define k f t v where "k = bytes_of ''a''" and "f = bytes_of ''n''" and "t = bytes_of ''ts''" and "v = bytes_of ''7''"
  define fd where "fd = \<lparr>f_name = f, f_kind = SDB_U8, f_off = 8, f_width = 0\<rparr>"
  have a: "nat (atoi ''7'' mod 256) = 7" by (simp add: atoi_def c_isspace_def digits_val_def c_isdigit_def digit_val_def INT32_MAX_def)
  have n: "nat_str 7 = ''7''" by code_simp
  have c: "canon fd v = v" by (simp add: canon_def fd_def v_def a n del: bytes_of_Cons)
  have h: "heap_grants demo_heap (setRoom (demo_store 0) k v)"
    unfolding k_def v_def demo_room by (rule demo_heap_ok(2)) simp
  have fnd: "sdb_find (s_schema (demo_store 0)) f = Some fd" by (simp only: demo_store_ok f_def fd_def demo_find)
  have l: "length k < 65536" "length v < 65536" "0 \<notin> set v" "t \<noteq> f" by (simp_all add: k_def v_def t_def f_def)
  have nr: "\<not> sdbHasRecord (demo_store 0) k"
    using sdbHasRecord_lookup [OF demo_store_ok(1)] by (simp add: lookupRec_def)
  have d: "defaultOf (s_schema (demo_store 0)) t = Some (bytes_of ''0'')"
    by (simp only: demo_store_ok t_def defaultOf_def demo_find) simp
  from sdb_set_get [OF demo_store_ok(1,3) demo_heap_ok(1) h fnd l(1-3)] c nr l(4) d
  show ?thesis unfolding k_def [symmetric] f_def [symmetric] t_def [symmetric] v_def [symmetric] by auto
qed

text \<open>C4. A store without a cap on its records refines its contract: after any sequence of deletes and
  of sets the heap grants the room for, every field of every record reads as the history of operations says (a value in the
  canonical form of its field), starting from what it read before.\<close>

theorem sdb_history:
  assumes "sdb_inv s" "sdb.runs s ops s'"
  shows "sdbGetField s' key g = Some (sdb.history (sdb_norm s) (defaultOf (s_schema s)) key g (sdb_get s key g) ops)"
  using sdbGetField_get [OF sdb.runs_inv [OF assms]] sdb.runs_history [OF assms] by simp

theorem sdb_history_witness:
  "\<exists>s1 s2. sdbSetField demo_heap (demo_store 0) (bytes_of ''a'') (bytes_of ''body'') (bytes_of ''hi'') = Some s1
     \<and> sdbDeleteRecord s1 (bytes_of ''a'') = Some s2
     \<and> sdbGetField s1 (bytes_of ''a'') (bytes_of ''body'') = Some (Some (bytes_of ''hi''))
     \<and> sdbGetField s2 (bytes_of ''a'') (bytes_of ''body'') = Some None"
proof -
  define k f v where "k = bytes_of ''a''" and "f = bytes_of ''body''" and "v = bytes_of ''hi''"
  define fd where "fd = \<lparr>f_name = f, f_kind = SDB_TEXT, f_off = 0, f_width = 0\<rparr>"
  have h: "heap_grants demo_heap (setRoom (demo_store 0) k v)"
    unfolding k_def v_def demo_room by (rule demo_heap_ok(2)) simp
  have fnd: "sdb_find (s_schema (demo_store 0)) f = Some fd" by (simp only: demo_store_ok f_def fd_def demo_find)
  have l: "length k < 65536" "length v < 65536" "0 \<notin> set v" by (simp_all add: k_def v_def)
  have inv: "sdb_inv (demo_store 0)" using demo_store_ok by (auto simp: sdb_inv_def)
  obtain s1 where s1: "sdbSetField demo_heap (demo_store 0) k f v = Some s1"
    using sdbSetField_ok [OF demo_store_ok(1) demo_heap_ok(1) fnd l(1,2)] by blast
  have st: "sdb_sets (demo_store 0) k f v s1" using s1 h fnd l demo_heap_ok(1) by (auto simp: sdb_sets_def)
  have r1: "sdb.runs (demo_store 0) [OpSet k f v] s1" using st by simp
  obtain L1 where "store_ok s1 L1" using sdb_sets_get(4) [OF inv st] by (auto simp: sdb_inv_def)
  then obtain s2 where s2: "sdbDeleteRecord s1 k = Some s2" using sdbDeleteRecord_ok by blast
  have r2: "sdb.runs (demo_store 0) [OpSet k f v, OpDel k] s2" using st s2 by (auto simp: sdb_dels_def)
  have n: "sdb_norm (demo_store 0) f v = v" using fnd by (simp add: sdb_norm_def fd_def canon_def)
  from sdb_history [OF inv r1, of k f] sdb_history [OF inv r2, of k f] n s1 s2
  show ?thesis unfolding k_def [symmetric] f_def [symmetric] v_def [symmetric] by auto
qed

subsection \<open>When memory runs out\<close>

lemma setFails_lookup:
  assumes "setFails sc 0 L key fd L'" "distinct (map r_key L)" "k \<noteq> key"
  shows "lookupRec L' k = lookupRec L k"
proof -
  consider "L' = L" | La r Lb where "withRecord sc 0 L key = La @ r # Lb" "r_key r = key" "L' = La @ Lb"
    using assms(1) by (auto simp: setFails_def)
  then show ?thesis
  proof cases
    case 2
    then show ?thesis using withRecord_lookup(3) [OF 2(1,2) assms(2,3)] by simp
  qed simp
qed

text \<open>C36. Whatever the heap answers, \<open>sdbSetField\<close> of a field of the schema on an uncapped store, with
  a record name and a value of fewer than 65536 bytes, returns without leaving the arena, the store
  stays well-formed, and no other record changes.\<close>

theorem sdb_set_any_heap:
  assumes "store_ok s L" "cap_records s = 0" "heap_ok h" "sdb_find (s_schema s) field = Some fd"
    "length key < 65536" "length val < 65536" "0 \<notin> set val"
  shows "\<exists>s' L'. sdbSetField h s key field val = Some s' \<and> store_ok s' L'
     \<and> (\<forall>k g. k \<noteq> key \<longrightarrow> sdbGetField s' k g = sdbGetField s k g)"
proof -
  obtain s' L' where s': "sdbSetField h s key field val = Some s'" "kept s s'" "store_ok s' L'"
    and sp: "setSpec (s_schema s) 0 L key fd val L' \<or> setFails (s_schema s) 0 L key fd L'"
    using sdbSetField_ok [OF assms(1,3,4,5,6)] assms(2) by auto
  have sok: "schema_ok (s_schema s)" using store_ok_reps [OF assms(1)] by simp
  have "specGet (s_schema s) L' k g = specGet (s_schema s) L k g" if "k \<noteq> key" for k g
    using sp
  proof
    assume "setSpec (s_schema s) 0 L key fd val L'"
    from setSpec_get(3) [OF this store_keys(1) [OF s'(3)] store_keys(1) [OF assms(1)] sok assms(4) store_recs_ok [OF assms(1)] assms(7,5) that]
    show ?thesis .
  next
    assume "setFails (s_schema s) 0 L key fd L'"
    from setFails_lookup [OF this store_keys(1) [OF assms(1)] that] show ?thesis by (simp add: specGet_def)
  qed
  then show ?thesis
    using s' sdbGetField_ok [OF assms(1)] sdbGetField_ok [OF s'(3)] by (auto simp: kept_def)
qed

definition refusing_heap :: sdb_heap where
  "refusing_heap = \<lparr>h_realloc = (\<lambda>_. False), h_alloc = (\<lambda>_. False)\<rparr>"

theorem sdb_set_any_heap_witness:
  "\<exists>s' L'. sdbSetField refusing_heap (demo_store 0) (bytes_of ''a'') (bytes_of ''n'') (bytes_of ''7'') = Some s'
     \<and> store_ok s' L' \<and> sdbGetField s' (bytes_of ''b'') (bytes_of ''n'') = Some None"
proof -
  define k f v where "k = bytes_of ''a''" and "f = bytes_of ''n''" and "v = bytes_of ''7''"
  define fd where "fd = \<lparr>f_name = f, f_kind = SDB_U8, f_off = 8, f_width = 0\<rparr>"
  have fnd: "sdb_find (s_schema (demo_store 0)) f = Some fd" by (simp only: demo_store_ok f_def fd_def demo_find)
  have l: "length k < 65536" "length v < 65536" "0 \<notin> set v" "bytes_of ''b'' \<noteq> k" by (simp_all add: k_def v_def)
  have h: "heap_ok refusing_heap" by (simp add: heap_ok_def refusing_heap_def)
  have "sdbGetField (demo_store 0) (bytes_of ''b'') f = Some None"
    using sdbGetField_ok [OF demo_store_ok(1)] by (simp add: specGet_def lookupRec_def)
  with sdb_set_any_heap [OF demo_store_ok(1,3) h fnd l(1-3)] l(4)
  show ?thesis unfolding k_def [symmetric] f_def [symmetric] v_def [symmetric] by metis
qed

lemma appendRecord_refused:
  assumes "store_ok s L" "SDB_FILE_HDR + length (images L) + length rec > s_cap s"
  shows "\<exists>s'. appendRecord refusing_heap s key rec = Some (False, s') \<and> store_ok s' L \<and> frame s s'"
proof -
  obtain rs where rs: "reps s rs" "L = filter live rs" using assms(1) by (auto simp: store_ok_def)
  have used: "SDB_FILE_HDR + length (images L) \<le> s_used s"
    using rs images_filter_le [of live rs] by (auto simp: reps_def)
  then have e: "ensureCap refusing_heap s (s_used s + length rec) = (False, s\<lparr>grow_failed := True\<rparr>)"
    using assms(2) by (simp add: ensureCap_def refusing_heap_def Let_def)
  define s1 where "s1 = s\<lparr>grow_failed := True\<rparr>"
  have r1: "reps s1 rs" using rs(1) by (simp add: s1_def)
  obtain s2 where s2: "sdbCompactInPlace s1 = Some s2" "reps s2 L" "frame s1 s2" "s_cap s2 = s_cap s"
    "s_used s2 = SDB_FILE_HDR + length (images L)"
    using sdbCompactInPlace_reps [OF r1] rs(2) by (auto simp: s1_def)
  have "reclaimInPlace s1 (length rec) = Some (False, s2)"
    using s2(1,4,5) assms(2) by (simp add: reclaimInPlace_def)
  moreover obtain n where "liveLoop (hdr_size (s_schema s1)) (s_block s1) SDB_FILE_HDR SDB_FILE_HDR = Some n"
    using liveLoop_images [of "s_schema s1" rs SDB_FILE_HDR "s_block s1" SDB_FILE_HDR] r1 reps_used [OF r1]
    by (auto simp: reps_def)
  ultimately have "reclaimForAppend refusing_heap s1 (length rec) = Some (False, s2)"
    by (simp add: reclaimForAppend_def refusing_heap_def Let_def)
  moreover have "store_ok s2 L" using s2(2) rs(2) by (auto simp: store_ok_def intro!: exI [of _ L])
  moreover have "frame s s2" using s2(3) by (simp add: frame_def s1_def)
  ultimately show ?thesis using e by (simp add: appendRecord_def s1_def)
qed

text \<open>When the heap refuses to grow the arena, changing a text field to a value of another length
  does not only fail: the old record is already a tombstone, so the whole record is lost.\<close>

theorem refused_text_update_loses_record:
  assumes "store_ok s L" "lookupRec L key = Some r" "sdb_find (s_schema s) field = Some fd" "f_kind fd = SDB_TEXT"
    "length val < 65536" "length val \<noteq> length (r_texts r ! f_off fd)"
    "SDB_FILE_HDR + length (images (filter (\<lambda>x. r_key x \<noteq> key) L)) + rec_size (newTexts r fd val) > s_cap s"
  shows "\<exists>s'. sdbSetField refusing_heap s key field val = Some s' \<and> \<not> sdbHasRecord s' key"
proof -
  obtain La Lb where L: "L = La @ r # Lb" "r_key r = key" using lookupRec_Some [OF assms(2)] by metis
  have st: "store_ok s (La @ r # Lb)" using assms(1) L by simp
  have dist: "distinct (map r_key (La @ r # Lb))" by (rule store_keys(1) [OF st])
  then have "filter (\<lambda>x. r_key x \<noteq> key) La = La" "filter (\<lambda>x. r_key x \<noteq> key) Lb = Lb"
    unfolding filter_id_conv using L(2) by (auto simp: image_iff)
  then have fl: "filter (\<lambda>x. r_key x \<noteq> key) L = La @ Lb" using L by simp
  have ld: "s_loaded s" and sc: "schema_ok (s_schema s)" using store_ok_reps [OF st] by auto
  have fd: "fd \<in> set (sfields (s_schema s))" "is_text fd" using sdb_find_Some [OF assms(3)] assms(4) by (auto simp: is_text_def)
  have ok: "rec_ok (s_schema s) r" using reps_rec_size [OF st] by simp
  have "f_off fd < length (r_texts r)" using text_index [OF sc fd] ok by (simp add: rec_ok_def)
  then have sz: "rec_size (newTexts r fd val) \<noteq> rec_size r"
    using concat_prefixed_update [of "f_off fd" "r_texts r" val] assms(6) mkRec_hdr(4) [of "r_hdr r"] rec_hdr_slices(3) [OF ok sc]
    by (simp add: newTexts_def recImage_def)
  obtain off where off: "findRec s key = Some off" using store_keys(5) [OF st, of key] L(2) by auto
  have "findRec s (r_key r) = Some off" "r_texts r ! f_off fd \<noteq> val" using off L(2) assms(6) by auto
  then obtain t where t: "store_ok t (La @ Lb)" "s_cap t = s_cap s"
    "setText refusing_heap s off fd val
       = do { (ok, s1) \<leftarrow> appendRecord refusing_heap t key (recImage (newTexts r fd val)); Some (s1\<lparr>s_dirty := True\<rparr>) }"
    using setText_move [OF st fd _ assms(5) _ sz, of off refusing_heap] L(2) by metis
  obtain s1 where s1: "appendRecord refusing_heap t key (recImage (newTexts r fd val)) = Some (False, s1)" "store_ok s1 (La @ Lb)"
    using appendRecord_refused [OF t(1), of "recImage (newTexts r fd val)" key] assms(7) fl t(2) by auto
  have "sdbSetField refusing_heap s key field val = Some (s1\<lparr>s_dirty := True\<rparr>)"
    using ld assms(3,4) off t(3) s1(1) by (simp add: sdbSetField_def storeField_def)
  moreover have "store_ok (s1\<lparr>s_dirty := True\<rparr>) (La @ Lb)" using s1(2) by simp
  moreover have "lookupRec (La @ Lb) key = None" using lookupRec_filter [of key L key] fl by simp
  ultimately show ?thesis using sdbHasRecord_lookup by auto
qed

definition demo_rec :: sdb_rec where
  "demo_rec = emptyRec demo_schema (bytes_of ''a'')"

definition demo_full :: sdb_store where
  "demo_full = snd (the (adoptBlock demo_heap (fresh_store demo_schema (bytes_of ''/m.gz''))
     (fileHeader demo_schema 1 @ images [demo_rec])))"

lemma demo_rec_facts: "rec_ok demo_schema demo_rec" "live demo_rec" "r_key demo_rec = bytes_of ''a''" "rec_size demo_rec = 21"
  "r_texts demo_rec = [[]]"
proof -
  show "rec_ok demo_schema demo_rec" "live demo_rec" "r_key demo_rec = bytes_of ''a''"
    using emptyRec_ok [OF demo_schema_ok, of "bytes_of ''a''"] by (simp_all add: demo_rec_def)
  show "rec_size demo_rec = 21" "r_texts demo_rec = [[]]"
    using mkRec_hdr(4) [of "replicate 16 0" "bytes_of ''a''" "[[]]"]
    by (simp_all add: demo_rec_def emptyRec_def demo_schema_eq textCount_def)
qed

lemma demo_full_ok:
  "store_ok demo_full [demo_rec]" "s_schema demo_full = demo_schema" "cap_records demo_full = 0" "s_cap demo_full = 37"
  "s_path demo_full = bytes_of ''/m.gz''"
proof -
  define rb where "rb = fileHeader demo_schema 1 @ images [demo_rec]"
  have l: "length rb = 37" by (simp add: rb_def demo_rec_facts SDB_FILE_HDR_def)
  have sc: "s_schema (fresh_store demo_schema (bytes_of ''/m.gz'')) = demo_schema" by (simp add: fresh_store_def)
  obtain s' where a: "adoptBlock demo_heap (fresh_store demo_schema (bytes_of ''/m.gz'')) rb = Some (True, s')" and "store_ok s' [demo_rec]"
    "kept ((fresh_store demo_schema (bytes_of ''/m.gz''))\<lparr>s_loaded := True\<rparr>) s'" "s_cap s' = length rb"
    using adoptBlock_images [of "fresh_store demo_schema (bytes_of ''/m.gz'')" "[demo_rec]" rb 1 demo_heap]
      sc demo_schema_ok demo_rec_facts l by (auto simp: rb_def)
  moreover have "demo_full = s'" unfolding demo_full_def rb_def [symmetric] a by simp
  ultimately show "store_ok demo_full [demo_rec]" "s_schema demo_full = demo_schema" "cap_records demo_full = 0" "s_cap demo_full = 37"
    "s_path demo_full = bytes_of ''/m.gz''"
    using l by (simp_all add: kept_def fresh_store_def)
qed

theorem refused_text_update_loses_record_witness:
  "sdbHasRecord demo_full (bytes_of ''a'')
     \<and> (\<exists>s'. sdbSetField refusing_heap demo_full (bytes_of ''a'') (bytes_of ''body'') (bytes_of ''hello'') = Some s'
            \<and> \<not> sdbHasRecord s' (bytes_of ''a''))"
proof -
  define k f v where "k = bytes_of ''a''" and "f = bytes_of ''body''" and "v = bytes_of ''hello''"
  define fd where "fd = \<lparr>f_name = f, f_kind = SDB_TEXT, f_off = 0, f_width = 0\<rparr>"
  have fnd: "sdb_find (s_schema demo_full) f = Some fd" by (simp only: demo_full_ok f_def fd_def demo_find)
  have lk: "lookupRec [demo_rec] k = Some demo_rec" by (simp add: lookupRec_def k_def demo_rec_facts)
  have v: "length v = 5" by (simp add: v_def)
  have kd: "f_kind fd = SDB_TEXT" "f_off fd = 0" by (simp_all add: fd_def)
  have "rec_size (newTexts demo_rec fd v) = 26"
    using mkRec_hdr(4) [of "r_hdr demo_rec" k "[v]"] rec_hdr_slices(3) [OF demo_rec_facts(1) demo_schema_ok] demo_rec_facts v
    by (simp add: newTexts_def kd recImage_def k_def)
  moreover have "filter (\<lambda>x. r_key x \<noteq> k) [demo_rec] = []" by (simp add: demo_rec_facts k_def)
  ultimately have sz: "SDB_FILE_HDR + length (images (filter (\<lambda>x. r_key x \<noteq> k) [demo_rec])) + rec_size (newTexts demo_rec fd v) > s_cap demo_full"
    by (simp add: demo_full_ok SDB_FILE_HDR_def)
  have "length v \<noteq> length (r_texts demo_rec ! f_off fd)" using v kd by (simp add: demo_rec_facts)
  from refused_text_update_loses_record [OF demo_full_ok(1) lk fnd kd(1) _ this sz] v
    sdbHasRecord_lookup [OF demo_full_ok(1), of k] lk
  show ?thesis unfolding k_def [symmetric] f_def [symmetric] v_def [symmetric] by simp
qed

subsection \<open>The ephemeral cap\<close>

lemma setSpec_keys:
  assumes "setSpec sc cap L key fd val L'" "key \<notin> r_key ` set L"
  shows "map r_key L' = drop (capDrop cap (Suc (length L))) (map r_key L) @ [key]"
proof -
  define D where "D = drop (capDrop cap (Suc (length L))) L"
  obtain La r Lb where w: "D @ [emptyRec sc key] = La @ r # Lb" "r_key r = key"
    "L' = La @ putField fd val r # Lb \<or> L' = La @ Lb @ [putField fd val r]"
    using assms by (auto simp: setSpec_def withRecord_def D_def)
  have "key \<notin> r_key ` set D" using assms(2) by (auto simp: D_def dest: in_set_dropD)
  then have "La = D \<and> Lb = []"
    using w(1,2) by (cases Lb rule: rev_cases) auto
  then show ?thesis using w by (auto simp: D_def drop_map)
qed

lemma capDrop_bound: "0 < cap \<Longrightarrow> Suc n - capDrop cap (Suc n) \<le> cap"
  by (auto simp: capDrop_def min_def)

text \<open>With a cap on the number of records, setting a field of a new key keeps at most that many:
  the oldest records go, in arrival order, and the new record is the newest of those that stay.\<close>

theorem sdb_cap_drops_oldest:
  assumes "store_ok s L" "0 < cap_records s" "heap_ok h" "heap_grants h (setRoom s key val)"
    "sdb_find (s_schema s) field = Some fd" "length key < 65536" "length val < 65536" "\<not> sdbHasRecord s key"
  shows "\<exists>s' L'. sdbSetField h s key field val = Some s' \<and> store_ok s' L'
     \<and> map r_key L' = drop (capDrop (cap_records s) (Suc (length L))) (map r_key L) @ [key]
     \<and> sdbRecordCount s' \<le> cap_records s
     \<and> (length L < cap_records s \<longrightarrow> sdbRecordCount s' = Suc (sdbRecordCount s))"
proof -
  obtain s' L' where s': "sdbSetField h s key field val = Some s'" "store_ok s' L'"
    and sp: "setSpec (s_schema s) (cap_records s) L key fd val L'"
    using sdbSetField_ok [OF assms(1,3,5,6,7)] assms(4) by auto
  have "key \<notin> r_key ` set L" using assms(8) sdbHasRecord_lookup [OF assms(1)] lookupRec_None by blast
  note k = setSpec_keys [OF sp this]
  have "length L' = length (map r_key L')" by simp
  also have "\<dots> = Suc (length L - capDrop (cap_records s) (Suc (length L)))" unfolding k by simp
  finally have "length L' = Suc (length L - capDrop (cap_records s) (Suc (length L)))" .
  moreover have "capDrop (cap_records s) (Suc (length L)) \<le> length L" by (simp add: capDrop_def)
  moreover have "capDrop (cap_records s) (Suc (length L)) = 0" if "length L < cap_records s" using that by (simp add: capDrop_def)
  ultimately have "length L' \<le> cap_records s" "length L < cap_records s \<Longrightarrow> length L' = Suc (length L)"
    using capDrop_bound [OF assms(2), of "length L"] by auto
  then show ?thesis
    using s' k store_keys(4) [OF assms(1)] store_keys(4) [OF s'(2)] by (auto simp: sdbRecordCount_def)
qed

theorem sdb_cap_drops_oldest_witness:
  "\<exists>s'. sdbSetField demo_heap (demo_store 1) (bytes_of ''a'') (bytes_of ''n'') (bytes_of ''7'') = Some s'
     \<and> sdbRecordCount s' = 1"
proof -
  define k f v where "k = bytes_of ''a''" and "f = bytes_of ''n''" and "v = bytes_of ''7''"
  define fd where "fd = \<lparr>f_name = f, f_kind = SDB_U8, f_off = 8, f_width = 0\<rparr>"
  have h: "heap_grants demo_heap (setRoom (demo_store 1) k v)"
    unfolding k_def v_def demo_room by (rule demo_heap_ok(2)) simp
  have fnd: "sdb_find (s_schema (demo_store 1)) f = Some fd" by (simp only: demo_store_ok f_def fd_def demo_find)
  have l: "length k < 65536" "length v < 65536" by (simp_all add: k_def v_def)
  have c: "0 < cap_records (demo_store 1)" "cap_records (demo_store 1) = 1" by (simp_all add: demo_store_ok)
  have nr: "\<not> sdbHasRecord (demo_store 1) k"
    using sdbHasRecord_lookup [OF demo_store_ok(1)] by (simp add: lookupRec_def)
  have "sdbRecordCount (demo_store 1) = 0" using store_keys(4) [OF demo_store_ok(1)] by (simp add: sdbRecordCount_def)
  with sdb_cap_drops_oldest [OF demo_store_ok(1) c(1) demo_heap_ok(1) h fnd l nr] c(2)
  show ?thesis unfolding k_def [symmetric] f_def [symmetric] v_def [symmetric] by auto
qed

subsection \<open>Flush and load\<close>

text \<open>A file system that does what it is asked.\<close>

definition fs_works :: "sdb_fs \<Rightarrow> bool" where
  "fs_works fs \<longleftrightarrow> (\<forall>p. fs_open_rd fs p \<and> fs_open_wr fs p) \<and> (\<forall>n. fs_read_len fs n = n)
     \<and> (\<forall>off n. fs_write_len fs off n = n) \<and> fs_rename_ok fs"

lemma flush_compact:
  assumes "store_ok s L"
  obtains s1 where "compact s 0 = Some s1" "store_ok s1 L" "frame s s1"
    "s_block s1 = fileHeader (s_schema s) (length L) @ images L"
proof -
  obtain rs where rs: "reps s rs" "L = filter live rs" using assms by (auto simp: store_ok_def)
  then show ?thesis
    using that compact_reps [OF rs(1), of 0] compact_store [OF assms, of 0] by auto
qed

lemma sdbFlush_writes:
  assumes "store_ok s L" "s_path s \<noteq> []" "gz_codec lib"
    "heap_allocs h (length (diskImage (s_schema s) L) + length (diskImage (s_schema s) L) div 8 + 210)"
    "h_alloc h (tdefl_size lib)" "fs_works fs" "length (diskImage (s_schema s) L) \<le> SDB_MAX_INFLATED"
  obtains s1 out fs1 gz where "sdbFlush lib h fs s = Some (True, s1, fs1)" "\<not> s_dirty s1" "store_ok s1 L"
    "fs1 = fs\<lparr>fs_files := fs_files fs1\<rparr>" "map_of (fs_files fs1) (s_path s) = Some gz"
    "length gz \<le> length (diskImage (s_schema s) L) + length (diskImage (s_schema s) L) div 8 + 210"
    "gz = [0x1f, 0x8b, 8, 0, 0, 0, 0, 0, 0, 0xff] @ out @ le32 (gz_crc32 lib (diskImage (s_schema s) L))
            @ le32 (of_nat (length (diskImage (s_schema s) L)))"
    "tinfl_all lib out (length (diskImage (s_schema s) L)) = (TINFL_DONE, diskImage (s_schema s) L)"
proof -
  define img where "img = diskImage (s_schema s) L"
  have ld: "s_loaded s" using store_ok_reps [OF assms(1)] by simp
  obtain s1 where s1: "compact s 0 = Some s1" "store_ok s1 L" "frame s s1"
    "s_block s1 = fileHeader (s_schema s) (length L) @ images L" by (rule flush_compact [OF assms(1)])
  have li: "length img \<le> 8388608" using assms(7) by (simp add: img_def SDB_MAX_INFLATED_def)
  have sc: "s_schema s1 = s_schema s" "s_path s1 = s_path s" using s1(3) by (auto simp: frame_def)
  have bd: "buildDiskImage h s1 = Some img"
    using buildDiskImage_eq [of s1 L h] s1(4) sc li assms(4) by (simp add: img_def heap_allocs_def)
  have "heap_allocs h (length img + length img div 8 + 210)" using assms(4) by (simp add: img_def)
  from gzDeflateBin_frame [OF assms(3) this assms(5)] obtain out where out:
    "gzDeflateBin lib h img = Some ([0x1f, 0x8b, 8, 0, 0, 0, 0, 0, 0, 0xff] @ out @ le32 (gz_crc32 lib img) @ le32 (of_nat (length img)))"
    "tinfl_all lib out (length img) = (TINFL_DONE, img)" "length out \<le> length img + length img div 8 + 192" by blast
  define gz where "gz = [0x1f, 0x8b, 8, 0, 0, 0, 0, 0, 0, 0xff] @ out @ le32 (gz_crc32 lib img) @ le32 (of_nat (length img))"
  obtain ok fs1 where w: "writeNew fs (s_path s) gz = (ok, fs1)" by fastforce
  have "writeLoop (fs_write_len fs) 0 gz [] = (True, gz)" using writeLoop_full assms(6) by (simp add: fs_works_def)
  then have ok: "ok" "fs1 = fs\<lparr>fs_files := fs_files fs1\<rparr>"
    using w assms(6) by (auto simp: writeNew_def Let_def fs_works_def)
  have fl: "sdbFlush lib h fs s = Some (True, s1\<lparr>s_dirty := False\<rparr>, fs1)"
    using ld assms(2) s1(1) bd out(1) [folded gz_def] sc(2) w ok(1) by (simp add: sdbFlush_def)
  have "map_of (fs_files fs1) (s_path s) = Some gz" using writeNew_atomic(3) [OF w ok(1)] assms(6) by (simp add: fs_works_def)
  moreover have "length gz \<le> length img + length img div 8 + 210" using out(3) by (simp add: gz_def)
  ultimately show ?thesis
    using that [OF fl _ _ ok(2), of gz out] s1(2) out(2) by (simp add: gz_def img_def)
qed

text \<open>C18. Flush and load round trip: when a store whose image has at most 8 MiB is flushed to a working
  file system and the file is loaded under the same schema, the load succeeds with exactly the live
  records of the store, so every field reads the same, and neither store is dirty. The heap has the
  working memory of the compressor and blocks of up to nine eighths of the image and 210 bytes.\<close>

theorem sdb_flush_load:
  assumes "store_ok s L" "s_path s \<noteq> []" "schema_disk_ok (s_schema s)" "gz_codec lib"
    "heap_allocs h (length (diskImage (s_schema s) L) + length (diskImage (s_schema s) L) div 8 + 210)"
    "h_alloc h (tdefl_size lib)" "h_alloc h (tinfl_size lib)" "fs_works fs"
    "length (diskImage (s_schema s) L) \<le> SDB_MAX_INFLATED"
  shows "\<exists>s1 fs1 s2. sdbFlush lib h fs s = Some (True, s1, fs1) \<and> \<not> s_dirty s1
     \<and> sdbLoad lib legacy h fs1 (fresh_store (s_schema s) (s_path s)) = Some (True, s2) \<and> \<not> s_dirty s2
     \<and> store_ok s2 L \<and> (\<forall>key g. sdbGetField s2 key g = sdbGetField s key g)"
proof -
  define img where "img = diskImage (s_schema s) L"
  obtain s1 out fs1 gz where f: "sdbFlush lib h fs s = Some (True, s1, fs1)" "\<not> s_dirty s1"
    "fs1 = fs\<lparr>fs_files := fs_files fs1\<rparr>" "map_of (fs_files fs1) (s_path s) = Some gz" "length gz \<le> length img + length img div 8 + 210"
    "gz = [0x1f, 0x8b, 8, 0, 0, 0, 0, 0, 0, 0xff] @ out @ le32 (gz_crc32 lib img) @ le32 (of_nat (length img))"
    "tinfl_all lib out (length img) = (TINFL_DONE, img)"
    using sdbFlush_writes [OF assms(1,2,4,5,6,8,9)] unfolding img_def by metis
  define s0 where "s0 = fresh_store (s_schema s) (s_path s)"
  have s0: "s_schema s0 = s_schema s" "s_path s0 = s_path s" "\<not> s_loaded s0" by (simp_all add: s0_def fresh_store_def)
  have li: "length img \<le> SDB_MAX_INFLATED" using assms(9) by (simp add: img_def)
  have allo: "heap_allocs h (length img + 1)" "heap_allocs h (length img)" "h_alloc h (length gz)"
    using assms(5) f(5) unfolding img_def [symmetric] by (auto simp: heap_allocs_def)
  have infl: "gzInflateBin lib h gz = Some img"
    unfolding f(6) by (rule gzInflate_frame [OF f(7) li allo(1) assms(7)])
  have lives: "list_all live L" using assms(1) by (auto simp: store_ok_def list_all_iff)
  obtain s2 where s2: "loadBlock legacy h s0 img = Some (True, s2)" "store_ok s2 L"
    "kept (s0\<lparr>s_loaded := True\<rparr>) s2" "\<not> s_dirty s2"
    using loadBlock_image [of s0 L h legacy] assms(3) store_recs_ok [OF assms(1)] lives store_keys(1) [OF assms(1)] li allo(2) s0
    by (auto simp: img_def)
  have wk: "fs_open_rd fs1 (s_path s)" "fs_read_len fs1 (length gz) = length gz"
    using assms(8) by (subst f(3); simp add: fs_works_def)+
  have "gz \<noteq> []" using f(6) by simp
  then have "sdbLoad lib legacy h fs1 s0 = Some (True, s2)"
    using s0 f(4) assms(2) wk allo(3) infl s2(1) by (simp add: sdbLoad_def)
  moreover have "sdbGetField s2 key g = sdbGetField s key g" for key g
    using sdbGetField_ok [OF s2(2)] sdbGetField_ok [OF assms(1)] s2(3) s0 by (simp add: kept_def)
  ultimately show ?thesis using f(1,2) s2(2,4) unfolding s0_def by blast
qed

definition plain_gz :: gz_lib where
  "plain_gz = \<lparr>tdefl_all = (\<lambda>inp cap. (length inp \<le> cap, length inp, inp)),
     tinfl_all = (\<lambda>inp cap. (if length inp \<le> cap then TINFL_DONE else TINFL_HAS_MORE_OUTPUT, take cap inp)),
     gz_crc32 = (\<lambda>_. 0), tdefl_size = 1, tinfl_size = 1\<rparr>"

definition good_fs :: sdb_fs where
  "good_fs = \<lparr>fs_files = [], fs_open_rd = (\<lambda>_. True), fs_open_wr = (\<lambda>_. True), fs_read_len = (\<lambda>n. n),
     fs_write_len = (\<lambda>_ n. n), fs_rename_ok = True\<rparr>"

lemma plain_gz_ok: "gz_codec plain_gz" "fs_works good_fs" "h_alloc demo_heap (tdefl_size plain_gz)" "h_alloc demo_heap (tinfl_size plain_gz)"
  by (simp_all add: gz_codec_def plain_gz_def fs_works_def good_fs_def demo_heap_def)

lemma demo_image: "length (diskImage demo_schema [demo_rec]) = 66"
  by (simp add: diskImage_def demo_rec_facts SDB_FILE_HDR_def serializeDescriptor_def serializeField_def demo_schema_eq Let_def)

theorem sdb_flush_load_witness:
  "\<exists>s1 fs1 s2. sdbFlush plain_gz demo_heap good_fs demo_full = Some (True, s1, fs1)
     \<and> sdbLoad plain_gz [] demo_heap fs1 (fresh_store demo_schema (bytes_of ''/m.gz'')) = Some (True, s2)
     \<and> store_ok s2 [demo_rec]"
proof -
  have "s_path demo_full \<noteq> []" by (simp add: demo_full_ok)
  moreover have "heap_allocs demo_heap (length (diskImage (s_schema demo_full) [demo_rec]) + length (diskImage (s_schema demo_full) [demo_rec]) div 8 + 210)"
    unfolding demo_full_ok demo_image by (rule demo_heap_ok(4)) simp
  moreover have "length (diskImage (s_schema demo_full) [demo_rec]) \<le> SDB_MAX_INFLATED"
    unfolding demo_full_ok demo_image by (simp add: SDB_MAX_INFLATED_def)
  moreover have "schema_disk_ok (s_schema demo_full)" unfolding demo_full_ok by (rule demo_schema_disk_ok)
  ultimately show ?thesis
    using sdb_flush_load [OF demo_full_ok(1) _ _ plain_gz_ok(1) _ plain_gz_ok(3,4,2), of "[]"]
    unfolding demo_full_ok by blast
qed

end
