(* ===== verification/Sdb_Limits.thy ===== *)
theory Sdb_Limits
  imports Sdb_Props
begin

unbundle bit_operations_syntax

section \<open>Compaction, atomic flush and the limits of the record stores\<close>

text \<open>
  The compaction against its reference definition, what a flush can leave on disk, the
  identity of layouts by their descriptors, and the inputs on which the code falls short of
  its documentation: an image past the inflate limit, a rename that fails, a record created by
  an empty text, a file with a zero header size.
\<close>

text \<open>Compaction through the scratch buffer is the reference: the arena becomes a header with the
  record count followed by the images of the live records, without the oldest \<open>n\<close>, in order, and
  the index is that of this list.\<close>

theorem compact_is_filter:
  assumes "reps s rs"
  shows "\<exists>s'. compact s n = Some s'
     \<and> s_block s' = fileHeader (s_schema s) (length (drop n (filter live rs))) @ images (drop n (filter live rs))
     \<and> map_of (s_index s') = map_of (liveIdx SDB_FILE_HDR (drop n (filter live rs)))
     \<and> reps s' (drop n (filter live rs))"
  using compact_reps [OF assms, of n] by (auto simp: reps_def)

theorem compact_is_filter_witness:
  "\<exists>s'. compact demo_full 1 = Some s' \<and> s_block s' = fileHeader demo_schema 0"
proof -
  obtain rs where rs: "reps demo_full rs" "filter live rs = [demo_rec]" using demo_full_ok(1) by (metis store_ok_def)
  have "drop 1 (filter live rs) = []" unfolding rs(2) by simp
  with compact_is_filter [OF rs(1), of 1] demo_full_ok(2) show ?thesis by auto
qed

subsection \<open>What a flush leaves on disk\<close>

text \<open>A flush never damages the file it replaces: afterwards the path holds the old contents or, when
  the flush reports success, the complete compressed image of the live records; a flush that
  fails leaves the old contents and the dirty flag, and the records stay as they were.\<close>

theorem flush_atomic:
  assumes "store_ok s L" "s_path s \<noteq> []" "sdbFlush lib h fs s = Some (ok, s', fs')"
  shows "(map_of (fs_files fs') (s_path s) = map_of (fs_files fs) (s_path s)
          \<or> ok \<and> (\<exists>gz. gzDeflateBin lib h (diskImage (s_schema s) L) = Some gz
                      \<and> map_of (fs_files fs') (s_path s) = Some gz))
     \<and> (\<not> ok \<longrightarrow> map_of (fs_files fs') (s_path s) = map_of (fs_files fs) (s_path s) \<and> s_dirty s' = s_dirty s)
     \<and> store_ok s' L"
proof -
  obtain s1 where s1: "compact s 0 = Some s1" "store_ok s1 L" "frame s s1"
    "s_block s1 = fileHeader (s_schema s) (length L) @ images L" by (rule flush_compact [OF assms(1)])
  have ld: "s_loaded s" using store_ok_reps [OF assms(1)] by simp
  have sc: "s_schema s1 = s_schema s" "s_path s1 = s_path s" "s_dirty s1 = s_dirty s" using s1(3) by (auto simp: frame_def)
  have bd: "buildDiskImage h s1 = None \<or> buildDiskImage h s1 = Some (diskImage (s_schema s) L)"
    using buildDiskImage_eq [of s1 L h] s1(4) sc by simp
  show ?thesis
  proof (cases "buildDiskImage h s1 = None \<or> gzDeflateBin lib h (diskImage (s_schema s) L) = None")
    case True
    then have "(ok, s', fs') = (False, s1, fs)"
      using assms(2,3) ld s1(1) bd by (auto simp: sdbFlush_def split: option.splits)
    then show ?thesis using s1(2) sc by simp
  next
    case False
    then obtain gz where gz: "gzDeflateBin lib h (diskImage (s_schema s) L) = Some gz" by auto
    obtain ok1 fs1 where w: "writeNew fs (s_path s) gz = (ok1, fs1)" by fastforce
    have "(ok, s', fs') = (ok1, if ok1 then s1\<lparr>s_dirty := False\<rparr> else s1, fs1)"
      using assms(2,3) ld s1(1) bd False gz sc(2) w by (auto simp: sdbFlush_def)
    then show ?thesis using writeNew_atomic(1,2) [OF w] gz s1(2) sc by auto
  qed
qed

definition bad_fs :: sdb_fs where
  "bad_fs = good_fs\<lparr>fs_files := [(bytes_of ''/m.gz'', [1])], fs_write_len := (\<lambda>_ _. 0)\<rparr>"

theorem flush_atomic_witness:
  "\<exists>s' fs'. sdbFlush plain_gz demo_heap bad_fs demo_full = Some (False, s', fs')
     \<and> map_of (fs_files fs') (bytes_of ''/m.gz'') = Some [1] \<and> store_ok s' [demo_rec]"
proof -
  obtain s1 where s1: "compact demo_full 0 = Some s1" "frame demo_full s1"
    "s_block s1 = fileHeader demo_schema (length [demo_rec]) @ images [demo_rec]"
    using flush_compact [OF demo_full_ok(1)] demo_full_ok(2) by metis
  define img where "img = diskImage demo_schema [demo_rec]"
  have bd: "buildDiskImage demo_heap s1 = Some img"
    using buildDiskImage_eq [of s1 "[demo_rec]" demo_heap] s1(2,3) demo_image demo_full_ok(2)
    by (simp add: frame_def img_def demo_heap_def)
  have "heap_allocs demo_heap (length img + length img div 8 + 210)" by (rule demo_heap_ok(4)) (simp add: img_def demo_image)
  then obtain gz where gz: "gzDeflateBin plain_gz demo_heap img = Some gz" "gz \<noteq> []"
    using gzDeflateBin_frame [OF plain_gz_ok(1) _ plain_gz_ok(3)] by blast
  have "writeLoop (fs_write_len bad_fs) 0 gz [] = (False, [])"
    using gz(2) by (subst writeLoop.simps) (simp add: bad_fs_def Let_def)
  then obtain fs' where w: "writeNew bad_fs (bytes_of ''/m.gz'') gz = (False, fs')"
    by (simp add: writeNew_def Let_def) (simp add: bad_fs_def good_fs_def)
  have st: "s_loaded demo_full" "s_path s1 = bytes_of ''/m.gz''" "s_path demo_full = bytes_of ''/m.gz''" "s_path demo_full \<noteq> []"
    using store_ok_reps [OF demo_full_ok(1)] s1(2) demo_full_ok(5) by (auto simp: frame_def)
  have fl: "sdbFlush plain_gz demo_heap bad_fs demo_full = Some (False, s1, fs')"
    using s1(1) bd gz(1) w st by (simp add: sdbFlush_def del: bytes_of_Cons)
  have old: "map_of (fs_files bad_fs) (s_path demo_full) = Some [1]" by (simp add: bad_fs_def st(3))
  from flush_atomic [OF demo_full_ok(1) st(4) fl] fl old st(3) show ?thesis by auto
qed

text \<open>The result of the final rename is not looked at: when it fails, the flush still reports success
  and clears the dirty flag, while the path keeps its old contents.\<close>

theorem failed_rename_reported_as_success:
  assumes "store_ok s L" "s_path s \<noteq> []" "gz_codec lib" "heap_allocs h 16777216" "h_alloc h (tdefl_size lib)"
    "length (diskImage (s_schema s) L) \<le> SDB_MAX_INFLATED"
    "\<forall>p. fs_open_wr fs p" "\<forall>off n. fs_write_len fs off n = n" "\<not> fs_rename_ok fs"
  shows "\<exists>s' fs'. sdbFlush lib h fs s = Some (True, s', fs') \<and> \<not> s_dirty s'
     \<and> map_of (fs_files fs') (s_path s) = map_of (fs_files fs) (s_path s)"
proof -
  define img where "img = diskImage (s_schema s) L"
  obtain s1 where s1: "compact s 0 = Some s1" "frame s s1"
    "s_block s1 = fileHeader (s_schema s) (length L) @ images L" by (rule flush_compact [OF assms(1)])
  have ld: "s_loaded s" using store_ok_reps [OF assms(1)] by simp
  have sc: "s_schema s1 = s_schema s" "s_path s1 = s_path s" using s1(2) by (auto simp: frame_def)
  have li: "length img \<le> 8388608" using assms(6) by (simp add: img_def SDB_MAX_INFLATED_def)
  have bd: "buildDiskImage h s1 = Some img"
    using buildDiskImage_eq [of s1 L h] s1(3) sc li assms(4) by (simp add: img_def heap_allocs_def)
  have "heap_allocs h (length img + length img div 8 + 210)" using assms(4) li by (auto simp: heap_allocs_def)
  then obtain gz where gz: "gzDeflateBin lib h img = Some gz"
    using gzDeflateBin_frame [OF assms(3) _ assms(5)] by blast
  have "writeLoop (fs_write_len fs) 0 gz [] = (True, gz)" using writeLoop_full assms(8) by simp
  then obtain fs' where w: "writeNew fs (s_path s) gz = (True, fs')"
    using assms(7,9) by (simp add: writeNew_def Let_def)
  have "sdbFlush lib h fs s = Some (True, s1\<lparr>s_dirty := False\<rparr>, fs')"
    using ld assms(2) s1(1) bd gz sc(2) w by (simp add: sdbFlush_def)
  then show ?thesis using writeNew_atomic(4) [OF w assms(9)] by auto
qed

theorem failed_rename_reported_as_success_witness:
  "\<exists>s' fs'. sdbFlush plain_gz demo_heap (good_fs\<lparr>fs_rename_ok := False\<rparr>) demo_full = Some (True, s', fs')
     \<and> map_of (fs_files fs') (bytes_of ''/m.gz'') = None"
proof -
  have h: "heap_allocs demo_heap 16777216" by (rule demo_heap_ok(4)) simp
  have l: "length (diskImage (s_schema demo_full) [demo_rec]) \<le> SDB_MAX_INFLATED"
    unfolding demo_full_ok demo_image by (simp add: SDB_MAX_INFLATED_def)
  have p: "s_path demo_full \<noteq> []" by (simp add: demo_full_ok)
  from failed_rename_reported_as_success [OF demo_full_ok(1) p plain_gz_ok(1) h plain_gz_ok(3) l, of "good_fs\<lparr>fs_rename_ok := False\<rparr>"]
  show ?thesis by (auto simp: good_fs_def demo_full_ok(5))
qed

subsection \<open>Size limit\<close>

text \<open>The writer has no size limit and the reader has: what \<open>gzDeflateBin\<close> makes of an image of more
  than 8 MiB, \<open>gzInflateBin\<close> refuses, so such a store flushes with success and loads empty.\<close>

theorem big_image_not_loadable:
  assumes "gz_codec lib" "heap_allocs h (length inp + length inp div 8 + 210)" "h_alloc h (tdefl_size lib)"
    "8 * 1024 * 1024 < length inp" "length inp < 4294967296"
  shows "\<exists>gz. gzDeflateBin lib h inp = Some gz \<and> gzInflateBin lib h' gz = None"
proof -
  obtain out where out: "gzDeflateBin lib h inp
      = Some ([0x1f, 0x8b, 8, 0, 0, 0, 0, 0, 0, 0xff] @ out @ le32 (gz_crc32 lib inp) @ le32 (of_nat (length inp)))"
    using gzDeflateBin_frame [OF assms(1-3)] by blast
  then show ?thesis using gzInflate_too_big [OF _ assms(5), of lib h' out] assms(4) by (simp add: SDB_MAX_INFLATED_def)
qed

theorem big_image_not_loadable_witness:
  "\<exists>gz. gzDeflateBin plain_gz demo_heap (replicate 8388609 0) = Some gz \<and> gzInflateBin plain_gz demo_heap gz = None"
proof -
  have l: "length (replicate 8388609 (0::byte)) = 8388609" by (rule length_replicate)
  have "heap_allocs demo_heap (length (replicate 8388609 (0::byte)) + length (replicate 8388609 (0::byte)) div 8 + 210)"
    unfolding l by (rule demo_heap_ok(4)) simp
  from big_image_not_loadable [OF plain_gz_ok(1) this plain_gz_ok(3)] show ?thesis unfolding l by simp
qed

subsection \<open>A record created by an empty text\<close>

text \<open>Setting a text field of a new key to the empty string creates the record but takes the
  \<open>unchanged\<close> return, so the store is not marked dirty and the record is lost when it is evicted.\<close>

theorem empty_text_creates_without_dirty:
  assumes "store_ok s L" "cap_records s = 0" "heap_ok h" "heap_grants h (setRoom s key [])"
    "sdb_find (s_schema s) field = Some fd" "f_kind fd = SDB_TEXT" "length key < 65536" "\<not> sdbHasRecord s key"
  shows "\<exists>s'. sdbSetField h s key field [] = Some s' \<and> sdbHasRecord s' key \<and> s_dirty s' = s_dirty s"
proof -
  define e where "e = emptyRec (s_schema s) key"
  have ld: "s_loaded s" and sc: "schema_ok (s_schema s)" using store_ok_reps [OF assms(1)] by auto
  have k: "key \<notin> r_key ` set L" using assms(8) sdbHasRecord_lookup [OF assms(1)] lookupRec_None by blast
  have nf: "findRec s key = None" using store_keys(5) [OF assms(1)] k by simp
  have "s_used s + rec_size e \<le> setRoom s key []"
    unfolding setRoom_def e_def mult_2 by (rule order_trans [OF le_add1 le_add1])
  then have g: "heap_grants h (s_used s + rec_size e)" using heap_grants_mono assms(4) by blast
  obtain off t where t: "createRecord h s key = Some (Some off, t)" "frame s t" "store_ok t (L @ [e])" "findRec t key = Some off"
    using createRecord_ok [OF assms(1,3) k assms(7), folded e_def] g assms(2)
    by (auto simp: capDrop_def split: option.splits)
  have fd: "fd \<in> set (sfields (s_schema s))" "is_text fd" using sdb_find_Some [OF assms(5)] assms(6) by (auto simp: is_text_def)
  have st: "store_ok t (L @ e # [])" "r_key e = key" using t(3) by (simp_all add: e_def emptyRec_def)
  obtain as bs where as: "reps t (as @ e # bs)" "live e" using store_split [OF st(1)] by metis
  note f = findRec_reps [OF as] and ok = reps_rec_ok(1) [OF as(1)]
  have d: "drop off (s_block t) = recImage e @ images bs" "off \<le> s_used t" using f t(4) st(2) by simp_all
  have sct: "s_schema t = s_schema s" using t(2) by (simp add: frame_def)
  note rr = rec_reads_at(7) [OF ok _ d reps_used [OF as(1)]]
  have "f_off fd < textCount (s_schema s)" by (rule text_index [OF sc fd])
  then have "setText h t off fd [] = Some t"
    using rr sc sct by (simp add: setText_def e_def emptyRec_def)
  then have "sdbSetField h s key field [] = Some t"
    using ld assms(5,6) nf t(1) by (simp add: sdbSetField_def storeField_def)
  moreover have "sdbHasRecord t key" using sdbHasRecord_lookup [OF t(3), of key] lookupRec_None [of "L @ [e]" key] st(2) by auto
  ultimately show ?thesis using t(2) by (auto simp: frame_def)
qed

theorem empty_text_creates_without_dirty_witness:
  "\<exists>s'. sdbSetField demo_heap (demo_store 0) (bytes_of ''a'') (bytes_of ''body'') [] = Some s'
     \<and> sdbHasRecord s' (bytes_of ''a'') \<and> \<not> s_dirty s'"
proof -
  define k f where "k = bytes_of ''a''" and "f = bytes_of ''body''"
  define fd where "fd = \<lparr>f_name = f, f_kind = SDB_TEXT, f_off = 0, f_width = 0\<rparr>"
  have h: "heap_grants demo_heap (setRoom (demo_store 0) k [])"
    unfolding k_def demo_room by (rule demo_heap_ok(2)) simp
  have fnd: "sdb_find (s_schema (demo_store 0)) f = Some fd" by (simp only: demo_store_ok f_def fd_def demo_find)
  have l: "length k < 65536" "f_kind fd = SDB_TEXT" by (simp_all add: k_def fd_def)
  have nr: "\<not> sdbHasRecord (demo_store 0) k"
    using sdbHasRecord_lookup [OF demo_store_ok(1)] by (simp add: lookupRec_def)
  from empty_text_creates_without_dirty [OF demo_store_ok(1,3) demo_heap_ok(1) h fnd l(2,1) nr] demo_store_ok(5)
  show ?thesis unfolding k_def [symmetric] f_def [symmetric] by auto
qed

subsection \<open>Descriptors identify layouts\<close>

text \<open>Two layouts are equal for the loader exactly when they have the same header size and their
  descriptors are the same bytes, and a descriptor parses back to the schema it was made of.\<close>

theorem descriptor_identifies_layout:
  assumes "schema_ok a" "list_all name_ok (sfields a)" "schema_ok b" "list_all name_ok (sfields b)"
  shows "(schemaLayoutEqual a b \<longleftrightarrow> hdr_size a = hdr_size b \<and> serializeDescriptor a = serializeDescriptor b)
    \<and> parseDescriptor (serializeDescriptor a) (schema_id a) (schema_ver a) (hdr_size a) = Some a"
proof -
  note pa = parseDescriptor_serialize [OF assms(1,2)] and pb = parseDescriptor_serialize [OF assms(3,4)]
  have "sfields a = sfields b" if "serializeDescriptor a = serializeDescriptor b"
  proof -
    have "map_option sfields (parseDescriptor d i v n) = map_option sfields (parseDescriptor d i' v' n')" for d i v n i' v' n'
      by (auto simp: parseDescriptor_def split: option.split)
    from this [of "serializeDescriptor a" "schema_id a" "schema_ver a" "hdr_size a" "schema_id b" "schema_ver b" "hdr_size b"]
    show ?thesis using pa pb that by simp
  qed
  moreover have "sfields a = sfields b \<Longrightarrow> serializeDescriptor a = serializeDescriptor b" by (simp add: serializeDescriptor_def)
  ultimately show ?thesis using pa unfolding schemaLayoutEqual_iff by blast
qed

theorem descriptor_identifies_layout_witness:
  "parseDescriptor (serializeDescriptor demo_schema) 0 0 16 = Some demo_schema"
proof -
  have "list_all name_ok (sfields demo_schema)" using demo_schema_disk_ok by (simp add: schema_disk_ok_def)
  from descriptor_identifies_layout [OF demo_schema_ok this demo_schema_ok this] show ?thesis by (simp add: demo_schema_eq)
qed

subsection \<open>A file that stops the loader\<close>

text \<open>A record that leads back to itself: deleted, and of length zero modulo \<open>2 ^ 32\<close>.\<close>

definition self_loop :: "nat \<Rightarrow> bytes \<Rightarrow> nat \<Rightarrow> bool" where
  "self_loop hs b off \<longleftrightarrow> off < length b \<and> off + hs \<le> length b
     \<and> (\<exists>rlen flags. rdU32 b (off + SDB_REC_LEN_OFF) = Some rlen \<and> \<not> badLen hs (length b) off rlen
          \<and> rdU8 b (off + SDB_FLAGS_OFF) = Some flags \<and> isDeleted flags \<and> sz_add off rlen = off)"

lemma rebuildLoop_self_loop:
  assumes "self_loop hs b off"
  shows "rebuildLoop hs b off idx = None"
proof -
  have "\<not> self_loop hs b off" if "rebuildLoop hs b off idx = Some y" for y
  proof (rule rebuildLoop.raw_induct [where P = "\<lambda>hs b off idx y. \<not> self_loop hs b off", OF _ that])
    fix rb hs b off idx y
    assume IH: "\<And>hs b off idx y. rb hs b off idx = Some y \<Longrightarrow> \<not> self_loop hs b off"
      and body: "(if \<not> off < length b then Some (True, idx)
        else if length b < off + hs then Some (False, idx)
        else rdU32 b (off + SDB_REC_LEN_OFF) \<bind> (\<lambda>rlen.
          if badLen hs (length b) off rlen then Some (False, idx)
          else rdU8 b (off + SDB_FLAGS_OFF) \<bind> (\<lambda>flags.
            if isDeleted flags then rb hs b (sz_add off rlen) idx
            else rdU16 b (off + hs) \<bind> (\<lambda>klen.
              if rlen < hs + 2 + klen then Some (False, idx)
              else rdBytes b (off + hs + 2) klen \<bind> (\<lambda>key.
                rb hs b (sz_add off rlen) (AList.update key off idx)))))) = Some y"
    show "\<not> self_loop hs b off"
    proof
      assume s: "self_loop hs b off"
      then have "rb hs b off idx = Some y" using body by (auto simp: self_loop_def)
      then show False using IH s by blast
    qed
  qed
  then show ?thesis using assms by (cases "rebuildLoop hs b off idx") auto
qed

text \<open>The loader trusts the header size in the file: when it is zero and the first record has length
  zero and the deleted flag, rebuilding the index stays at that record and never returns.\<close>

theorem zero_header_size_never_returns:
  assumes "SDB_FILE_HDR + 5 \<le> length rb" "slice SDB_FILE_HDR 4 rb = [0, 0, 0, 0]" "isDeleted (rb ! (SDB_FILE_HDR + SDB_FLAGS_OFF))"
    "hdr_size reader = 0"
  shows "migrateBlock h s reader rb = None"
proof -
  have "rdU32 rb (SDB_FILE_HDR + SDB_REC_LEN_OFF) = Some 0"
    using assms(1,2) by (simp add: rdU32_def rdBytes_def SDB_REC_LEN_OFF_def of_le32_zeros)
  moreover have "sz_add SDB_FILE_HDR 0 = SDB_FILE_HDR" by (simp add: sz_add_def SDB_FILE_HDR_def)
  ultimately have "self_loop 0 rb SDB_FILE_HDR"
    using assms(1,3) by (simp add: self_loop_def badLen_def rdU8_def SDB_FLAGS_OFF_def)
  then show ?thesis
    using rebuildLoop_self_loop assms(4) by (simp add: migrateBlock_def rebuildIndex_def fresh_store_def)
qed

theorem zero_header_size_never_returns_witness:
  "migrateBlock demo_heap (demo_store 0) (demo_schema\<lparr>hdr_size := 0\<rparr>) (fileHeader demo_schema 1 @ [0, 0, 0, 0, 1]) = None"
  by (rule zero_header_size_never_returns)
    (simp_all add: slice_def SDB_FLAGS_OFF_def nth_append isDeleted_def SDB_FLAG_DELETED_def)

end
