(* ===== verification/Sdb_Migrate.thy ===== *)
theory Sdb_Migrate
  imports Sdb_Props
begin

unbundle bit_operations_syntax

section \<open>Migration and iteration\<close>

text \<open>
  The re-packing of a file written under an older layout, as the sequence of sets it performs
  on the new store, and the iteration over all fields. A migration is stated for records whose
  key and values are C strings (the code passes them through \<open>c_str()\<close>) and for a heap that
  grants each of the sets.
\<close>

subsection \<open>Histories with one write\<close>

context record_store
begin

fun touches :: "'k \<Rightarrow> 'f \<Rightarrow> ('k, 'f, 'v) rs_op \<Rightarrow> bool" where
  "touches k g (OpSet k' f v) \<longleftrightarrow> k' = k \<and> f = g"
| "touches k g (OpDel k') \<longleftrightarrow> k' = k"

lemma history_untouched:
  "\<forall>x \<in> set ops. \<not> touches k g x \<Longrightarrow> history nm df k g (Some y) ops = Some y"
proof (induction ops)
  case (Cons x ops)
  then show ?case by (cases x) auto
qed simp

lemma history_append: "history nm df k g x (as @ bs) = history nm df k g (history nm df k g x as) bs"
proof (induction as arbitrary: x)
  case (Cons a as)
  then show ?case by (cases a) auto
qed simp

lemma history_last_write:
  "\<forall>x \<in> set bs. \<not> touches k g x \<Longrightarrow> history nm df k g x (as @ OpSet k g v # bs) = Some (nm g v)"
  by (simp add: history_append history_untouched)

lemma runs_append: "runs s (as @ bs) s' \<longleftrightarrow> (\<exists>t. runs s as t \<and> runs t bs s')"
proof (induction as arbitrary: s)
  case (Cons a as)
  then show ?case by (cases a) auto
qed simp

end

subsection \<open>The sets of a migration\<close>

definition sharedFields :: "sdb_schema \<Rightarrow> sdb_schema \<Rightarrow> sdb_field list" where
  "sharedFields src dst = filter (\<lambda>fd. sdb_find dst (f_name fd) \<noteq> None) (sfields src)"

definition recordOps :: "sdb_schema \<Rightarrow> sdb_schema \<Rightarrow> sdb_rec \<Rightarrow> (bytes, bytes, bytes) rs_op list" where
  "recordOps src dst r = map (\<lambda>fd. OpSet (r_key r) (f_name fd) (recField r fd)) (sharedFields src dst)"

definition migrationOps :: "sdb_schema \<Rightarrow> sdb_schema \<Rightarrow> sdb_rec list \<Rightarrow> (bytes, bytes, bytes) rs_op list" where
  "migrationOps src dst L = concat (map (recordOps src dst) L)"

text \<open>The heap grants every set of a sequence, in the state the sequence has reached.\<close>

fun granted :: "sdb_heap \<Rightarrow> sdb_store \<Rightarrow> (bytes, bytes, bytes) rs_op list \<Rightarrow> bool" where
  "granted h s [] \<longleftrightarrow> True"
| "granted h s (OpSet k f v # ops) \<longleftrightarrow> heap_grants h (setRoom s k v)
     \<and> (case sdbSetField h s k f v of None \<Rightarrow> False | Some s' \<Rightarrow> granted h s' ops)"
| "granted h s (OpDel k # ops) \<longleftrightarrow>
     (case sdbDeleteRecord s k of None \<Rightarrow> False | Some s' \<Rightarrow> granted h s' ops)"

definition rec_cstrings :: "sdb_schema \<Rightarrow> sdb_rec \<Rightarrow> bool" where
  "rec_cstrings sc r \<longleftrightarrow> 0 \<notin> set (r_key r)
     \<and> list_all (\<lambda>fd. 0 \<notin> set (f_name fd) \<and> 0 \<notin> set (recField r fd) \<and> length (recField r fd) < 65536) (sfields sc)"

lemma cstr_field_id: "0 \<notin> set b \<Longrightarrow> cstr_field b = b"
  by (auto simp: cstr_field_def takeWhile_eq_all_conv)

lemma lookupRec_in: "distinct (map r_key L) \<Longrightarrow> r \<in> set L \<Longrightarrow> lookupRec L (r_key r) = Some r"
  by (induction L) (auto simp: lookupRec_def)

lemma granted_step:
  assumes "granted h s (OpSet k f v # ops)" "sdb_inv s" "heap_ok h" "sdb_find (s_schema s) f \<noteq> None"
    "length k < 65536" "length v < 65536" "0 \<notin> set v"
  obtains t where "sdbSetField h s k f v = Some t" "sdb_sets s k f v t" "granted h t ops" "sdb_inv t" "s_schema t = s_schema s"
proof -
  obtain t where t: "sdbSetField h s k f v = Some t" "granted h t ops" "heap_grants h (setRoom s k v)"
    using assms(1) by (auto split: option.splits)
  have st: "sdb_sets s k f v t" using assms(3-7) t by (auto simp: sdb_sets_def)
  show ?thesis using that [OF t(1) st t(2)] sdb_sets_get(4,5) [OF assms(2) st] by simp
qed

lemma migrateFields_runs:
  assumes "store_ok src L" "r \<in> set L" "schema_ok (s_schema src)" "rec_cstrings (s_schema src) r" "heap_ok h"
    "set fds \<subseteq> set (sfields (s_schema src))" "sdb_inv dst"
    "granted h dst (map (\<lambda>fd. OpSet (r_key r) (f_name fd) (recField r fd)) (filter (\<lambda>fd. sdb_find (s_schema dst) (f_name fd) \<noteq> None) fds) @ rest)"
  shows "\<exists>t. migrateFields h src (r_key r) fds dst mat
        = Some (t, mat \<or> filter (\<lambda>fd. sdb_find (s_schema dst) (f_name fd) \<noteq> None) fds \<noteq> [])
     \<and> sdb.runs dst (map (\<lambda>fd. OpSet (r_key r) (f_name fd) (recField r fd)) (filter (\<lambda>fd. sdb_find (s_schema dst) (f_name fd) \<noteq> None) fds)) t
     \<and> granted h t rest \<and> sdb_inv t \<and> s_schema t = s_schema dst"
  using assms(6-8)
proof (induction fds arbitrary: dst mat)
  case (Cons fd fds)
  have fd: "fd \<in> set (sfields (s_schema src))" and fds: "set fds \<subseteq> set (sfields (s_schema src))" using Cons.prems(1) by auto
  have nul: "0 \<notin> set (r_key r)" "0 \<notin> set (f_name fd)" "0 \<notin> set (recField r fd)" "length (recField r fd) < 65536"
    using assms(4) fd by (auto simp: rec_cstrings_def list_all_iff)
  have kl: "length (r_key r) < 65536" using store_recs_ok [OF assms(1)] assms(2) by (auto simp: list_all_iff rec_ok_def)
  show ?case
  proof (cases "sdb_find (s_schema dst) (f_name fd) = None")
    case True
    then show ?thesis
      using Cons.IH [OF fds Cons.prems(2), of mat] Cons.prems(3) nul by (simp add: cstr_field_id)
  next
    case False
    have "lookupRec L (r_key r) = Some r" by (rule lookupRec_in [OF store_keys(1) [OF assms(1)] assms(2)])
    then have get: "sdbGetField src (r_key r) (f_name fd) = Some (Some (recField r fd))"
      using sdbGetField_ok [OF assms(1)] sdb_find_in [OF assms(3) fd] by (simp add: specGet_def)
    obtain t where t: "sdbSetField h dst (r_key r) (f_name fd) (recField r fd) = Some t"
      "sdb_sets dst (r_key r) (f_name fd) (recField r fd) t" "sdb_inv t" "s_schema t = s_schema dst"
      "granted h t (map (\<lambda>fd. OpSet (r_key r) (f_name fd) (recField r fd))
         (filter (\<lambda>fd. sdb_find (s_schema dst) (f_name fd) \<noteq> None) fds) @ rest)"
      using granted_step [OF _ Cons.prems(2) assms(5) False kl nul(4,3)] Cons.prems(3) False by auto
    have "\<exists>u. migrateFields h src (r_key r) fds t True = Some (u, True)
      \<and> sdb.runs t (map (\<lambda>fd. OpSet (r_key r) (f_name fd) (recField r fd)) (filter (\<lambda>fd. sdb_find (s_schema dst) (f_name fd) \<noteq> None) fds)) u
      \<and> granted h u rest \<and> sdb_inv u \<and> s_schema u = s_schema dst"
      using Cons.IH [OF fds t(3), of True] t(4,5) by simp
    then show ?thesis using False t(1,2) get nul by (auto simp: cstr_field_id)
  qed
qed simp

lemma migrateOne_runs:
  assumes "reps src (as @ r # bs)" "live r" "rec_cstrings (s_schema src) r" "heap_ok h" "sdb_inv dst"
    "sharedFields (s_schema src) (s_schema dst) \<noteq> []"
    "granted h dst (recordOps (s_schema src) (s_schema dst) r @ rest)"
  shows "\<exists>t. migrateOne h src (SDB_FILE_HDR + length (images as)) dst = Some t
     \<and> sdb.runs dst (recordOps (s_schema src) (s_schema dst) r) t
     \<and> granted h t rest \<and> sdb_inv t \<and> s_schema t = s_schema dst"
proof -
  have st: "store_ok src (filter live (as @ r # bs))" using assms(1) by (auto simp: store_ok_def)
  note f = findRec_reps [OF assms(1,2)] and ok = reps_rec_ok(1) [OF assms(1)] and sc = reps_rec_ok(2) [OF assms(1)]
  note rr = rec_reads_at(7) [OF ok sc f(2,3) reps_used [OF assms(1)]]
  have "r \<in> set (filter live (as @ r # bs))" using assms(2) by simp
  from migrateFields_runs [OF st this sc assms(3,4) order_refl assms(5), of rest False] assms(6,7)
  obtain t where "migrateFields h src (r_key r) (sfields (s_schema src)) dst False = Some (t, True)"
    "sdb.runs dst (recordOps (s_schema src) (s_schema dst) r) t" "granted h t rest" "sdb_inv t" "s_schema t = s_schema dst"
    unfolding sharedFields_def recordOps_def by auto
  then show ?thesis using rr by (auto simp: migrateOne_def)
qed

lemma migrateLoop_runs:
  assumes "reps src (as @ rs)" "heap_ok h" "list_all (rec_cstrings (s_schema src)) (filter live rs)" "sdb_inv dst"
    "sharedFields (s_schema src) (s_schema dst) \<noteq> []"
    "granted h dst (migrationOps (s_schema src) (s_schema dst) (filter live rs))"
  shows "\<exists>t. migrateLoop h src (SDB_FILE_HDR + length (images as)) dst = Some t
     \<and> sdb.runs dst (migrationOps (s_schema src) (s_schema dst) (filter live rs)) t"
  using assms(1,3-6)
proof (induction rs arbitrary: as dst)
  case Nil
  then have "SDB_FILE_HDR + length (images as) = s_used src" by (auto simp: reps_def)
  then show ?case by (subst migrateLoop.simps) (simp add: migrationOps_def)
next
  case (Cons r rs)
  define off where "off = SDB_FILE_HDR + length (images as)"
  have ok: "rec_ok (s_schema src) r" and sc: "schema_ok (s_schema src)" using Cons.prems(1) by (auto simp: reps_def)
  obtain fh where "length fh = SDB_FILE_HDR" "s_block src = fh @ images (as @ r # rs)" using Cons.prems(1) by (auto simp: reps_def)
  then have d: "drop off (s_block src) = recImage r @ images rs" "off \<le> s_used src" by (simp_all add: off_def)
  note rr = rec_reads_at [OF ok sc d reps_used [OF Cons.prems(1)]]
  have nxt: "SDB_FILE_HDR + length (images (as @ [r])) = off + rec_size r" by (simp add: off_def)
  have p: "reps src ((as @ [r]) @ rs)" using Cons.prems(1) by simp
  show ?case
  proof (cases "live r")
    case False
    have "migrateLoop h src off dst = migrateLoop h src (off + rec_size r) dst"
      using rr False by (subst migrateLoop.simps) (simp add: live_def)
    then show ?thesis using Cons.IH [OF p, unfolded nxt, of dst] Cons.prems(2-5) False by (simp flip: off_def)
  next
    case True
    have g: "granted h dst (recordOps (s_schema src) (s_schema dst) r @ migrationOps (s_schema src) (s_schema dst) (filter live rs))"
      using Cons.prems(5) True by (simp add: migrationOps_def)
    have cs: "rec_cstrings (s_schema src) r" using Cons.prems(2) True by simp
    from migrateOne_runs [OF Cons.prems(1) True cs assms(2) Cons.prems(3,4) g] obtain t where
      t: "migrateOne h src off dst = Some t" "sdb.runs dst (recordOps (s_schema src) (s_schema dst) r) t"
      "granted h t (migrationOps (s_schema src) (s_schema dst) (filter live rs))" "sdb_inv t" "s_schema t = s_schema dst"
      unfolding off_def by blast
    have "migrateLoop h src off dst = migrateLoop h src (off + rec_size r) t"
      using rr True t(1) by (subst migrateLoop.simps) (simp add: live_def)
    moreover obtain u where "migrateLoop h src (off + rec_size r) t = Some u"
      "sdb.runs t (migrationOps (s_schema src) (s_schema dst) (filter live rs)) u"
      using Cons.IH [OF p _ t(4), unfolded nxt] Cons.prems(2,4) t(3,5) True by auto
    ultimately show ?thesis
      using t(2) sdb.runs_append True by (auto simp: migrationOps_def off_def)
  qed
qed

subsection \<open>The value that arrives\<close>

lemma migrationOps_split:
  assumes "distinct (map r_key L)" "r \<in> set L" "distinct (map f_name (sfields src))" "fd \<in> set (sharedFields src dst)"
  obtains as bs where "migrationOps src dst L = as @ OpSet (r_key r) (f_name fd) (recField r fd) # bs"
    "\<forall>x \<in> set bs. \<not> sdb.touches (r_key r) (f_name fd) x"
proof -
  obtain La Lb where L: "L = La @ r # Lb" using assms(2) by (meson split_list)
  obtain fa fb where f: "sharedFields src dst = fa @ fd # fb" using assms(4) by (meson split_list)
  have "distinct (map f_name (sharedFields src dst))" using assms(3) by (simp add: sharedFields_def distinct_map_filter)
  then have nf: "f_name fd \<notin> f_name ` set fb" by (simp add: f)
  have nk: "r_key r \<notin> r_key ` set Lb" using assms(1) by (simp add: L)
  define tail where "tail = map (\<lambda>fd. OpSet (r_key r) (f_name fd) (recField r fd)) fb @ migrationOps src dst Lb"
  have "migrationOps src dst L = (migrationOps src dst La @ map (\<lambda>fd. OpSet (r_key r) (f_name fd) (recField r fd)) fa)
      @ OpSet (r_key r) (f_name fd) (recField r fd) # tail"
    by (simp add: L migrationOps_def recordOps_def f tail_def)
  moreover have "\<forall>x \<in> set tail. \<not> sdb.touches (r_key r) (f_name fd) x"
    using nf nk by (auto simp: tail_def migrationOps_def recordOps_def image_iff)
  ultimately show ?thesis using that by blast
qed

text \<open>Migration keeps every value the new layout can hold: re-packing the live records of a file
  written under an older schema returns, and every field both schemas have reads, in the new store,
  as the old value converted through its string form.\<close>

theorem migration_keeps_shared_fields:
  assumes "store_ok src L" "sdb_inv dst" "heap_ok h" "list_all (rec_cstrings (s_schema src)) L"
    "granted h dst (migrationOps (s_schema src) (s_schema dst) L)"
    "r \<in> set L" "fd \<in> set (sfields (s_schema src))" "sdb_find (s_schema dst) (f_name fd) = Some fd'"
  shows "\<exists>s'. sdbMigrateRecords h dst src = Some s'
     \<and> sdbGetField s' (r_key r) (f_name fd) = Some (Some (canon fd' (recField r fd)))"
proof -
  obtain rs where rs: "reps src rs" "L = filter live rs" using assms(1) by (auto simp: store_ok_def)
  have sh: "fd \<in> set (sharedFields (s_schema src) (s_schema dst))" using assms(7,8) by (simp add: sharedFields_def)
  then have ne: "sharedFields (s_schema src) (s_schema dst) \<noteq> []" by auto
  obtain t where t: "sdbMigrateRecords h dst src = Some t" "sdb.runs dst (migrationOps (s_schema src) (s_schema dst) L) t"
    using migrateLoop_runs [of src "[]" rs h dst] rs assms(2-5) ne by (auto simp: sdbMigrateRecords_def)
  have "distinct (map f_name (sfields (s_schema src)))" using reps_rec_ok(2) [OF rs(1)] by (simp add: schema_ok_def)
  from migrationOps_split [OF store_keys(1) [OF assms(1)] assms(6) this sh] obtain as bs where
    sp: "migrationOps (s_schema src) (s_schema dst) L = as @ OpSet (r_key r) (f_name fd) (recField r fd) # bs"
    "\<forall>x \<in> set bs. \<not> sdb.touches (r_key r) (f_name fd) x" by blast
  have "sdb_get t (r_key r) (f_name fd) = Some (sdb_norm dst (f_name fd) (recField r fd))"
    using sdb.runs_history [OF assms(2) t(2), of "r_key r" "f_name fd"] sdb.history_last_write [OF sp(2)] sp(1) by simp
  then show ?thesis
    using t(1) sdbGetField_get [OF sdb.runs_inv [OF assms(2) t(2)]] assms(8) by (simp add: sdb_norm_def)
qed

definition demo_new :: sdb_schema where
  "demo_new = sdb_u32 (bytes_of ''n'') sdb_schema0"

lemma demo_new_eq: "demo_new = \<lparr>schema_id = 0, schema_ver = 0, hdr_size = 12,
    sfields = [\<lparr>f_name = bytes_of ''n'', f_kind = SDB_U32, f_off = 8, f_width = 0\<rparr>]\<rparr>"
  by (simp add: demo_new_def sdb_u32_def sdb_schema0_def push_field_def SDB_HDR_BUILTIN_def Let_def)

lemma demo_rec_fields:
  "recField demo_rec \<lparr>f_name = bytes_of ''n'', f_kind = SDB_U8, f_off = 8, f_width = 0\<rparr> = bytes_of ''0''"
  "rec_cstrings demo_schema demo_rec"
proof -
  have d: "recField demo_rec g = fieldDefault g" if "g \<in> set (sfields demo_schema)" for g
    using recField_emptyRec [OF demo_schema_ok that] by (simp add: demo_rec_def)
  then show "recField demo_rec \<lparr>f_name = bytes_of ''n'', f_kind = SDB_U8, f_off = 8, f_width = 0\<rparr> = bytes_of ''0''"
    by (simp add: demo_schema_eq)
  show "rec_cstrings demo_schema demo_rec"
    using d by (simp add: rec_cstrings_def demo_rec_facts demo_schema_eq)
qed

theorem migration_keeps_shared_fields_witness:
  "\<exists>s'. sdbMigrateRecords demo_heap (sdbInitEmpty demo_heap (fresh_store demo_new [])) demo_full = Some s'
     \<and> sdbGetField s' (bytes_of ''a'') (bytes_of ''n'') = Some (Some (bytes_of ''0''))"
proof -
  define dst where "dst = sdbInitEmpty demo_heap (fresh_store demo_new [])"
  define k n z where "k = bytes_of ''a''" and "n = bytes_of ''n''" and "z = bytes_of ''0''"
  define fd fd' where "fd = \<lparr>f_name = n, f_kind = SDB_U8, f_off = 8, f_width = 0\<rparr>"
    and "fd' = \<lparr>f_name = n, f_kind = SDB_U32, f_off = 8, f_width = 0\<rparr>"
  have "schema_ok demo_new"
    unfolding demo_new_eq by (simp add: schema_ok_def field_ok_def is_fixed_def is_text_def fixed_width.simps SDB_HDR_BUILTIN_def)
  then have dst: "store_ok dst []" "s_schema dst = demo_new" "cap_records dst = 0" "s_used dst = 16"
    using sdbInitEmpty_ok [of "fresh_store demo_new []" demo_heap, OF _ _ _ demo_heap_ok(1,3)]
    by (simp_all add: dst_def fresh_store_def SDB_FILE_HDR_def)
  have fnd: "sdb_find (s_schema dst) n = Some fd'" by (simp add: dst demo_new_eq sdb_find_def fd'_def n_def)
  have sh: "sharedFields demo_schema demo_new = [fd]"
    by (simp add: sharedFields_def demo_schema_eq demo_new_eq sdb_find_def fd_def n_def)
  have v: "recField demo_rec fd = z" "r_key demo_rec = k" "f_name fd = n"
    using demo_rec_fields(1) by (simp_all add: fd_def n_def z_def k_def demo_rec_facts)
  have ops: "migrationOps (s_schema demo_full) (s_schema dst) [demo_rec] = [OpSet k n z]"
    by (simp add: migrationOps_def recordOps_def demo_full_ok dst sh v)
  have l: "length k < 65536" "length z < 65536" by (simp_all add: k_def z_def)
  have "rec_size (emptyRec demo_new k) = 15"
    using mkRec_hdr(4) [of "replicate 12 0" k "[]"] by (simp add: emptyRec_def demo_new_eq textCount_def k_def)
  then have "setRoom dst k z \<le> 1073741824" by (simp add: setRoom_def dst z_def)
  then have g: "heap_grants demo_heap (setRoom dst k z)" by (rule demo_heap_ok(2))
  obtain s1 where "sdbSetField demo_heap dst k n z = Some s1"
    using sdbSetField_ok [OF dst(1) demo_heap_ok(1) fnd l] by blast
  then have gr: "granted demo_heap dst (migrationOps (s_schema demo_full) (s_schema dst) [demo_rec])"
    unfolding ops using g by simp
  have inv: "sdb_inv dst" using dst by (auto simp: sdb_inv_def)
  have cs: "list_all (rec_cstrings (s_schema demo_full)) [demo_rec]" using demo_rec_fields(2) demo_full_ok(2) by simp
  have fin: "fd \<in> set (sfields (s_schema demo_full))" by (simp add: demo_full_ok demo_schema_eq fd_def n_def)
  have "canon fd' z = z" by (simp add: canon_def fd'_def z_def strtoul_nat_str [of 0, unfolded nat_str_0] nat_str_0 del: bytes_of_Cons)
  with migration_keeps_shared_fields [OF demo_full_ok(1) inv demo_heap_ok(1) cs gr, of demo_rec fd fd'] fin fnd v
  show ?thesis unfolding dst_def [symmetric] k_def [symmetric] n_def [symmetric] z_def [symmetric] by simp
qed

subsection \<open>Iteration\<close>

definition fieldReport :: "sdb_rec \<Rightarrow> sdb_field \<Rightarrow> (bytes \<times> bytes \<times> bytes) list" where
  "fieldReport r fd = (if is_text fd \<and> recField r fd = [] \<or> f_kind fd \<in> {SDB_FIXSTR, SDB_DATA} \<and> recField r fd = [] then []
     else [(cstr_field (r_key r), cstr_field (f_name fd), cstr_field (recField r fd))])"

lemma hexEncodeBytes_nonempty: "\<not> isAllZero p \<Longrightarrow> hexEncodeBytes p \<noteq> []"
  by (cases p) (auto simp: isAllZero_def hexEncodeBytes_def)

lemma fieldCall_rec:
  assumes "rec_ok sc r" "schema_ok sc" "fd \<in> set (sfields sc)" "drop off b = recImage r @ post"
    "off \<le> length b" "length b < 4294967296"
  shows "fieldCall sc b off (r_key r) (r_texts r) fd = Some (fieldReport r fd)"
proof -
  note rd = readField_rec [OF assms] and ok = schema_ok_field [OF assms(2,3)]
  have t: "is_text fd \<Longrightarrow> f_off fd < length (r_texts r)"
    using text_index [OF assms(2,3)] assms(1) by (simp add: rec_ok_def)
  show ?thesis
  proof (cases "f_kind fd")
    case SDB_U8
    then show ?thesis using rd
      by (cases "rdU8 b (off + f_off fd)") (auto simp: fieldCall_def readField_def fieldReport_def is_text_def)
  next
    case SDB_U32
    then show ?thesis using rd
      by (cases "rdU32 b (off + f_off fd)") (auto simp: fieldCall_def readField_def fieldReport_def is_text_def)
  next
    case SDB_FIXSTR
    then show ?thesis using rd
      by (cases "rdBytes b (off + f_off fd) (f_width fd)") (auto simp: fieldCall_def readField_def fieldReport_def is_text_def)
  next
    case SDB_DATA
    then show ?thesis using rd hexEncodeBytes_nonempty
      by (cases "rdBytes b (off + f_off fd) (f_width fd)")
        (auto simp: fieldCall_def readField_def fieldReport_def is_text_def split: if_splits)
  next
    case SDB_TEXT
    then show ?thesis using t by (simp add: fieldCall_def fieldReport_def recField_def is_text_def)
  next
    case (SDB_OTHER x)
    then show ?thesis using ok by (simp add: field_ok_def is_fixed_def is_text_def)
  qed
qed

lemma fieldCalls_rec:
  assumes "rec_ok sc r" "schema_ok sc" "drop off b = recImage r @ post" "off \<le> length b" "length b < 4294967296"
  shows "set fds \<subseteq> set (sfields sc) \<Longrightarrow> fieldCalls sc b off (r_key r) (r_texts r) fds = Some (concat (map (fieldReport r) fds))"
proof (induction fds)
  case (Cons fd fds)
  then show ?case using fieldCall_rec [OF assms(1,2) _ assms(3-5), of fd] by simp
qed simp

lemma forEachLoop_images:
  "list_all (rec_ok sc) rs \<Longrightarrow> schema_ok sc \<Longrightarrow> drop off b = images rs \<Longrightarrow> off \<le> length b \<Longrightarrow> length b < 4294967296
    \<Longrightarrow> forEachLoop sc b off acc = Some (acc @ concat (map (\<lambda>r. concat (map (fieldReport r) (sfields sc))) (filter live rs)))"
proof (induction rs arbitrary: off acc)
  case Nil
  then show ?case by (subst forEachLoop.simps) simp
next
  case (Cons r rs)
  have r: "rec_ok sc r" and d: "drop off b = recImage r @ images rs" using Cons.prems(1,3) by simp_all
  note rr = rec_reads_at [OF r Cons.prems(2) d Cons.prems(4,5)]
  note fc = fieldCalls_rec [OF r Cons.prems(2) d Cons.prems(4,5) order_refl]
  have "forEachLoop sc b off acc = forEachLoop sc b (off + rec_size r)
      (if live r then acc @ concat (map (fieldReport r) (sfields sc)) else acc)"
    using rr fc by (subst forEachLoop.simps) (simp add: live_def)
  then show ?case
    using Cons.IH [of "off + rec_size r"] Cons.prems drop_past [OF d] drop_fits [OF d Cons.prems(4)] by simp
qed

text \<open>\<open>sdbForEach\<close> calls back once for every field of every live record, oldest record first, with
  the value \<open>sdbGetField\<close> gives; only empty strings and unset binary fields are left out.\<close>

theorem forEach_reports_all:
  assumes "store_ok s L"
  shows "sdbForEach s = Some (concat (map (\<lambda>r. concat (map (fieldReport r) (sfields (s_schema s)))) L))
     \<and> (\<forall>r \<in> set L. \<forall>fd \<in> set (sfields (s_schema s)).
          sdbGetField s (r_key r) (f_name fd) = Some (Some (recField r fd)))"
proof -
  obtain rs fh where rs: "reps s rs" "L = filter live rs" "length fh = SDB_FILE_HDR" "s_block s = fh @ images rs"
    using assms by (auto simp: store_ok_def reps_def)
  have sc: "schema_ok (s_schema s)" "s_loaded s" "list_all (rec_ok (s_schema s)) rs" using rs(1) by (auto simp: reps_def)
  have "sdbForEach s = Some (concat (map (\<lambda>r. concat (map (fieldReport r) (sfields (s_schema s)))) L))"
    using forEachLoop_images [OF sc(3,1), of SDB_FILE_HDR "s_block s" "[]"] rs reps_used [OF rs(1)] sc(2)
    by (simp add: sdbForEach_def)
  moreover have "sdbGetField s (r_key r) (f_name fd) = Some (Some (recField r fd))"
    if "r \<in> set L" "fd \<in> set (sfields (s_schema s))" for r fd
    using sdbGetField_ok [OF assms] lookupRec_in [OF store_keys(1) [OF assms] that(1)] sdb_find_in [OF sc(1) that(2)]
    by (simp add: specGet_def)
  ultimately show ?thesis by blast
qed

theorem forEach_reports_all_witness:
  "sdbForEach demo_full = Some [(bytes_of ''a'', bytes_of ''n'', bytes_of ''0''), (bytes_of ''a'', bytes_of ''ts'', bytes_of ''0'')]"
proof -
  have "fieldReport demo_rec g = (if fieldDefault g = [] then [] else [(bytes_of ''a'', cstr_field (f_name g), cstr_field (fieldDefault g))])"
    if "g \<in> set (sfields demo_schema)" for g
    using recField_emptyRec [OF demo_schema_ok that] that demo_rec_facts(3)
    by (auto simp: fieldReport_def demo_rec_def demo_schema_eq is_text_def cstr_field_def)
  then have "concat (map (fieldReport demo_rec) (sfields demo_schema))
      = [(bytes_of ''a'', bytes_of ''n'', bytes_of ''0''), (bytes_of ''a'', bytes_of ''ts'', bytes_of ''0'')]"
    by (simp add: demo_schema_eq cstr_field_def)
  with forEach_reports_all [OF demo_full_ok(1)] show ?thesis by (simp add: demo_full_ok(2))
qed

end
