(* ===== verification/Storage_Tree.thy ===== *)
theory Storage_Tree
  imports C_String "HOL-Library.Monad_Syntax"
begin

section \<open>The configuration tree (storage.cpp)\<close>

text \<open>
  The committed configuration is a cJSON tree addressed by dot-paths. A node is the \<open>cJSON\<close>
  struct as the code reads it: its type, \<open>valueint\<close> or \<open>valuestring\<close>, and the chain of its
  children, each with its \<open>string\<close> (the name), which is null for the elements an array was
  parsed with; a node keeps the name it was inserted with, so an element of an array may have
  one. cJSON itself is not part of the repository: what the code relies on is that objects and
  arrays are chains, that an insertion appends, that a lookup and a deletion by name take the
  first child whose name compares equal, and that a duplicate is an equal node. The comparison
  of names is the argument \<open>eqn\<close>; cJSON documents it as case insensitive. Allocation is taken
  to succeed, as the code takes it, and the lock every walk runs under is the caller's.
\<close>

datatype json =
    JNull | JBool bool | JNum int | JStr string
  | JArr "(string option \<times> json) list"
  | JObj "(string option \<times> json) list"

type_synonym kids = "(string option \<times> json) list"
type_synonym name_eq = "string \<Rightarrow> string \<Rightarrow> bool"

fun child_list :: "json \<Rightarrow> kids" where
  "child_list (JArr k) = k"
| "child_list (JObj k) = k"
| "child_list _ = []"

fun is_obj :: "json \<Rightarrow> bool" where
  "is_obj (JObj _) = True"
| "is_obj _ = False"

fun is_arr :: "json \<Rightarrow> bool" where
  "is_arr (JArr _) = True"
| "is_arr _ = False"

abbreviation is_leaf :: "json \<Rightarrow> bool" where
  "is_leaf j \<equiv> \<not> is_obj j \<and> \<not> is_arr j"

subsection \<open>What the code uses of cJSON\<close>

fun hasName :: "name_eq \<Rightarrow> string \<Rightarrow> string option \<times> json \<Rightarrow> bool" where
  "hasName eqn n (None, _) = False"
| "hasName eqn n (Some m, _) = eqn n m"

fun kidsGet :: "name_eq \<Rightarrow> string \<Rightarrow> kids \<Rightarrow> json option" where
  "kidsGet eqn n [] = None"
| "kidsGet eqn n (c # cs) = (if hasName eqn n c then Some (snd c) else kidsGet eqn n cs)"

fun kidsDel :: "name_eq \<Rightarrow> string \<Rightarrow> kids \<Rightarrow> kids" where
  "kidsDel eqn n [] = []"
| "kidsDel eqn n (c # cs) = (if hasName eqn n c then cs else c # kidsDel eqn n cs)"

text \<open>A write through the pointer a lookup returned: the child keeps its place and its name.\<close>

fun kidsPut :: "name_eq \<Rightarrow> string \<Rightarrow> json \<Rightarrow> kids \<Rightarrow> kids" where
  "kidsPut eqn n v [] = []"
| "kidsPut eqn n v (c # cs) = (if hasName eqn n c then (fst c, v) # cs else c # kidsPut eqn n v cs)"

fun onKids :: "(kids \<Rightarrow> kids) \<Rightarrow> json \<Rightarrow> json" where
  "onKids f (JArr k) = JArr (f k)"
| "onKids f (JObj k) = JObj (f k)"
| "onKids f j = j"

definition GetObjectItem :: "name_eq \<Rightarrow> json \<Rightarrow> string \<Rightarrow> json option" where
  "GetObjectItem eqn j n = kidsGet eqn n (child_list j)"

definition GetArrayItem :: "json \<Rightarrow> int \<Rightarrow> json option" where
  "GetArrayItem j i =
     (if 0 \<le> i \<and> i < int (length (child_list j)) then Some (snd (child_list j ! nat i)) else None)"

definition DeleteItemFromObject :: "name_eq \<Rightarrow> string \<Rightarrow> json \<Rightarrow> json" where
  "DeleteItemFromObject eqn n = onKids (kidsDel eqn n)"

definition AddItemToObject :: "string \<Rightarrow> json \<Rightarrow> json \<Rightarrow> json" where
  "AddItemToObject n v = onKids (\<lambda>k. k @ [(Some n, v)])"

definition putItem :: "name_eq \<Rightarrow> string \<Rightarrow> json \<Rightarrow> json \<Rightarrow> json" where
  "putItem eqn n v = onKids (kidsPut eqn n v)"

subsection \<open>Path navigation\<close>

definition isAllDigits :: "string \<Rightarrow> bool" where
  "isAllDigits s \<longleftrightarrow> s \<noteq> [] \<and> list_all c_isdigit s"

text \<open>The buffer of a segment, \<open>char seg[96]\<close>.\<close>

definition SEG_MAX :: nat where "SEG_MAX = 96"

definition navStep :: "name_eq \<Rightarrow> json \<Rightarrow> string \<Rightarrow> json option" where
  "navStep eqn node seg =
     (if is_arr node \<and> isAllDigits seg then GetArrayItem node (atoi seg) else GetObjectItem eqn node seg)"

function navWalk :: "name_eq \<Rightarrow> json \<Rightarrow> string \<Rightarrow> json option" where
  "navWalk eqn node p =
     (if p = [] then Some node
      else if before CHR ''.'' p = [] then navWalk eqn node (after CHR ''.'' p)
      else if length (before CHR ''.'' p) \<ge> SEG_MAX then None
      else (case navStep eqn node (before CHR ''.'' p) of
              None \<Rightarrow> None
            | Some c \<Rightarrow> navWalk eqn c (after CHR ''.'' p)))"
  by pat_completeness auto
termination by (relation "measure (\<lambda>(_, _, p). length p)") auto

declare navWalk.simps [simp del]

definition navigatePath :: "name_eq \<Rightarrow> json \<Rightarrow> string \<Rightarrow> json option" where
  "navigatePath eqn root dotPath = (if dotPath = [] then None else navWalk eqn root dotPath)"

text \<open>
  \<open>navigateOrCreate\<close> returns a pointer into the tree, through which the caller writes: here
  the write is the argument \<open>act\<close>, given the leaf's name and the parent node. The result is the
  tree afterwards and whether a parent was returned; the objects created on the way stay in
  the tree either way.
\<close>

function nocWalk :: "name_eq \<Rightarrow> (string \<Rightarrow> json \<Rightarrow> json) \<Rightarrow> json \<Rightarrow> string \<Rightarrow> json \<times> bool" where
  "nocWalk eqn act node p =
     (if p = [] then (node, False)
      else let seg = before CHR ''.'' p; rest = after CHR ''.'' p
      in if seg = [] then nocWalk eqn act node rest
         else if length seg \<ge> SEG_MAX then (node, False)
         else if CHR ''.'' \<notin> set p then (act (safeStrncpy SEG_MAX seg) node, True)
         else (case GetObjectItem eqn node seg of
                 None \<Rightarrow> map_prod (\<lambda>c. AddItemToObject seg c node) id (nocWalk eqn act (JObj []) rest)
               | Some c \<Rightarrow>
                   (if is_leaf c
                    then map_prod (\<lambda>c'. AddItemToObject seg c' (DeleteItemFromObject eqn seg node)) id
                           (nocWalk eqn act (JObj []) rest)
                    else map_prod (\<lambda>c'. putItem eqn seg c' node) id (nocWalk eqn act c rest))))"
  by pat_completeness auto
termination by (relation "measure (\<lambda>(_, _, _, p). length p)") auto

declare nocWalk.simps [simp del]

definition navigateOrCreate :: "name_eq \<Rightarrow> (string \<Rightarrow> json \<Rightarrow> json) \<Rightarrow> json \<Rightarrow> string \<Rightarrow> json \<times> bool" where
  "navigateOrCreate eqn act root dotPath =
     (if dotPath = [] then (root, False) else nocWalk eqn act root dotPath)"

text \<open>The write every caller does: drop the leaf of that name, append the new one.\<close>

definition setLeaf :: "name_eq \<Rightarrow> json \<Rightarrow> string \<Rightarrow> json \<Rightarrow> json" where
  "setLeaf eqn v leaf parent = AddItemToObject leaf v (DeleteItemFromObject eqn leaf parent)"

definition attachAtPath :: "name_eq \<Rightarrow> json \<Rightarrow> string \<Rightarrow> json \<Rightarrow> json" where
  "attachAtPath eqn root dotPath subtree = fst (navigateOrCreate eqn (setLeaf eqn subtree) root dotPath)"

definition stripDots :: "string \<Rightarrow> string" where
  "stripDots s = rev (dropWhile (\<lambda>c. c = CHR ''.'') (rev s))"

subsection \<open>Deep merge\<close>

fun allNumericKeys :: "json \<Rightarrow> bool" where
  "allNumericKeys (JObj k) \<longleftrightarrow>
     k \<noteq> [] \<and> list_all (\<lambda>c. case fst c of None \<Rightarrow> False | Some n \<Rightarrow> isAllDigits n) k"
| "allNumericKeys _ \<longleftrightarrow> False"

declare allNumericKeys.simps [simp del]

definition elemIdx :: "string option \<Rightarrow> nat" where
  "elemIdx nm = nat (atoi (case nm of None \<Rightarrow> [] | Some n \<Rightarrow> n))"

definition deletions :: "kids \<Rightarrow> nat list" where
  "deletions patch = rev (sort (map (elemIdx \<circ> fst) (filter (\<lambda>c. snd c = JNull) patch)))"

definition deleteAt :: "'a list \<Rightarrow> nat \<Rightarrow> 'a list" where
  "deleteAt xs i = (if i < length xs then take i xs @ drop (Suc i) xs else xs)"

text \<open>One element of a numeric-keyed patch written into an array.\<close>

definition placeElem :: "string option \<Rightarrow> json \<Rightarrow> kids \<Rightarrow> kids" where
  "placeElem nm it arr =
     (let i = elemIdx nm
      in if i < length arr then arr[i := (nm, it)]
         else arr @ replicate (i - length arr) (None, JNull) @ [(nm, it)])"

function mergeKids :: "name_eq \<Rightarrow> json \<Rightarrow> kids \<Rightarrow> json"
  and mergeElems :: "name_eq \<Rightarrow> kids \<Rightarrow> kids \<Rightarrow> kids" where
  "mergeKids eqn dst [] = dst"
| "mergeKids eqn dst ((None, item) # rest) = mergeKids eqn dst rest"
| "mergeKids eqn dst ((Some n, item) # rest) =
     mergeKids eqn
       (case item of
          JNull \<Rightarrow> DeleteItemFromObject eqn n dst
        | JObj ik \<Rightarrow>
            (case GetObjectItem eqn dst n of
               Some (JObj dk) \<Rightarrow> putItem eqn n (mergeKids eqn (JObj dk) ik) dst
             | Some (JArr ak) \<Rightarrow>
                 (if allNumericKeys (JObj ik)
                  then putItem eqn n (JArr (mergeElems eqn (foldl deleteAt ak (deletions ik)) ik)) dst
                  else AddItemToObject n item (DeleteItemFromObject eqn n dst))
             | _ \<Rightarrow> AddItemToObject n item (DeleteItemFromObject eqn n dst))
        | _ \<Rightarrow> AddItemToObject n item (DeleteItemFromObject eqn n dst))
       rest"
| "mergeElems eqn arr [] = arr"
| "mergeElems eqn arr ((nm, it) # rest) =
     mergeElems eqn
       (case it of
          JNull \<Rightarrow> arr
        | JObj ik \<Rightarrow>
            (let i = elemIdx nm
             in if i < length arr \<and> is_obj (snd (arr ! i))
                then arr[i := (fst (arr ! i), mergeKids eqn (snd (arr ! i)) ik)]
                else placeElem nm it arr)
        | _ \<Rightarrow> placeElem nm it arr)
       rest"
  by pat_completeness auto
termination
  by (relation "measure (\<lambda>x. case x of Inl (_, _, k) \<Rightarrow> size_list (size_prod (\<lambda>_. 0) size) k
                                     | Inr (_, _, k) \<Rightarrow> size_list (size_prod (\<lambda>_. 0) size) k)") auto

definition deepMergeIntoArray :: "name_eq \<Rightarrow> kids \<Rightarrow> kids \<Rightarrow> kids" where
  "deepMergeIntoArray eqn arr patch = mergeElems eqn (foldl deleteAt arr (deletions patch)) patch"

definition deepMerge :: "name_eq \<Rightarrow> json \<Rightarrow> json \<Rightarrow> json" where
  "deepMerge eqn dst src = mergeKids eqn dst (child_list src)"

text \<open>
  \<open>jsonDeepMerge\<close>, the merge of the files read at boot: RFC 7396 without the array extension.
\<close>

function jsonMergeKids :: "name_eq \<Rightarrow> json \<Rightarrow> kids \<Rightarrow> json" where
  "jsonMergeKids eqn dst [] = dst"
| "jsonMergeKids eqn dst ((None, item) # rest) = jsonMergeKids eqn dst rest"
| "jsonMergeKids eqn dst ((Some n, item) # rest) =
     jsonMergeKids eqn
       (case item of
          JNull \<Rightarrow> DeleteItemFromObject eqn n dst
        | JObj ik \<Rightarrow>
            (case GetObjectItem eqn dst n of
               Some (JObj dk) \<Rightarrow> putItem eqn n (jsonMergeKids eqn (JObj dk) ik) dst
             | _ \<Rightarrow> AddItemToObject n item (DeleteItemFromObject eqn n dst))
        | _ \<Rightarrow> AddItemToObject n item (DeleteItemFromObject eqn n dst))
       rest"
  by pat_completeness auto
termination by (relation "measure (\<lambda>(_, _, k). size_list (size_prod (\<lambda>_. 0) size) k)") auto

definition jsonDeepMerge :: "name_eq \<Rightarrow> json \<Rightarrow> json \<Rightarrow> json" where
  "jsonDeepMerge eqn dst src = jsonMergeKids eqn dst (child_list src)"

subsection \<open>Walks over the leaves\<close>

text \<open>
  The walks build each leaf's dot-path in a fixed buffer: a child whose path would not fit is
  skipped with everything below it. \<open>visit\<close> is the path of a child, if it fits. An element
  without a name is called by its position.
\<close>

definition kidName :: "nat \<Rightarrow> string option \<Rightarrow> string" where
  "kidName i nm = (case nm of None \<Rightarrow> nat_str i | Some n \<Rightarrow> n)"

definition pathJoin :: "string \<Rightarrow> string \<Rightarrow> string" where
  "pathJoin path name = (if path = [] then name else path @ CHR ''.'' # name)"

definition PATH_BUF :: nat where "PATH_BUF = 128"

definition visit :: "string \<Rightarrow> nat \<Rightarrow> string option \<Rightarrow> string option" where
  "visit path i nm =
     (let p = pathJoin path (kidName i nm) in if length p \<ge> PATH_BUF then None else Some p)"

text \<open>The text of a leaf as the walks and the getters print it; a boolean or a null has none.\<close>

fun leafText :: "json \<Rightarrow> string option" where
  "leafText (JStr s) = Some s"
| "leafText (JNum i) = Some (int_str i)"
| "leafText _ = None"

function walkLeavesImpl :: "string \<Rightarrow> nat \<Rightarrow> kids \<Rightarrow> (string \<times> string) list" where
  "walkLeavesImpl path i [] = []"
| "walkLeavesImpl path i ((nm, item) # rest) =
     (case visit path i nm of
        None \<Rightarrow> []
      | Some p \<Rightarrow>
          (if is_leaf item
           then (case leafText item of None \<Rightarrow> [] | Some v \<Rightarrow> [(p, v)])
           else walkLeavesImpl p 0 (child_list item)))
     @ walkLeavesImpl path (Suc i) rest"
  by pat_completeness auto

lemma size_child_list: "size_list (size_prod (\<lambda>_. 0) size) (child_list j) \<le> Suc (size j + b)"
  by (cases j) auto

termination walkLeavesImpl
  by (relation "measure (\<lambda>(_, _, k). size_list (size_prod (\<lambda>_. 0) size) k)")
    (auto simp: less_Suc_eq_le intro: size_child_list)

definition walkLeaves :: "json \<Rightarrow> string \<Rightarrow> (string \<times> string) list" where
  "walkLeaves node prefix =
     (if length prefix \<ge> PATH_BUF then [] else walkLeavesImpl prefix 0 (child_list node))"

text \<open>The CLI lines: \<open>snprintf\<close> into a line of 192 bytes, sent one at a time.\<close>

definition cliLine :: "string \<Rightarrow> string \<Rightarrow> string" where
  "cliLine key val = take 191 (key @ '' = '' @ val @ [char_of (10 :: nat)])"

definition walkTreeCollect :: "json \<Rightarrow> string \<Rightarrow> string \<Rightarrow> string" where
  "walkTreeCollect node prefix out = out @ concat (map (\<lambda>(k, v). cliLine k v) (walkLeaves node prefix))"

definition appendLeaf :: "string \<Rightarrow> string \<Rightarrow> json \<Rightarrow> string" where
  "appendLeaf out key node =
     (case leafText node of None \<Rightarrow> out | Some v \<Rightarrow> out @ cliLine key v)"

function emitLines :: "string \<Rightarrow> string list" where
  "emitLines out =
     (if out = [] then []
      else let l = takeWhile (\<lambda>c. c \<noteq> char_of (10 :: nat)) out; r = dropWhile (\<lambda>c. c \<noteq> char_of (10 :: nat)) out
      in if r = [] then [l] else (l @ [hd r]) # emitLines (tl r))"
  by pat_completeness auto
termination
  by (relation "measure length")
    (auto, metis One_nat_def diff_less length_dropWhile_le length_greater_0_conv less_le_trans not_le zero_less_one
      dual_order.strict_trans2 less_imp_diff_less)

declare emitLines.simps [simp del]

text \<open>The changes a patch makes, as the subscribers are told: a deletion or an array has no text.\<close>

fun changeText :: "json \<Rightarrow> string option" where
  "changeText JNull = Some []"
| "changeText (JArr _) = Some []"
| "changeText (JStr s) = Some s"
| "changeText (JNum i) = Some (int_str i)"
| "changeText _ = None"

function collectChanges :: "string \<Rightarrow> nat \<Rightarrow> kids \<Rightarrow> (string \<times> string) list" where
  "collectChanges path i [] = []"
| "collectChanges path i ((nm, item) # rest) =
     (case visit path i nm of
        None \<Rightarrow> []
      | Some p \<Rightarrow>
          (case item of
             JObj k \<Rightarrow> collectChanges p 0 k
           | _ \<Rightarrow> (case changeText item of None \<Rightarrow> [] | Some v \<Rightarrow> [(p, v)])))
     @ collectChanges path (Suc i) rest"
  by pat_completeness auto
termination by (relation "measure (\<lambda>(_, _, k). size_list (size_prod (\<lambda>_. 0) size) k)") auto

text \<open>A preview of a value for the log: controls folded to a dot, at most 96 bytes.\<close>

definition logSafe :: "string \<Rightarrow> nat \<Rightarrow> string" where
  "logSafe s cap =
     (let r = map (\<lambda>c. if (of_char c :: nat) < 32 \<or> (of_char c :: nat) = 127 then CHR ''.'' else c) (take cap s)
      in if length s > length r then r @ map char_of [226 :: nat, 128, 166] else r)"

subsection \<open>Namespaces and files\<close>

definition isSecret :: "string \<Rightarrow> bool" where
  "isSecret key \<longleftrightarrow> take 8 key = ''secrets.''"

definition isFw :: "string \<Rightarrow> bool" where
  "isFw key \<longleftrightarrow> key = ''fw'' \<or> take 3 key = ''fw.''"

definition isStorageDb :: "string \<Rightarrow> bool" where
  "isStorageDb key \<longleftrightarrow> key = ''storage'' \<or> take 8 key = ''storage.''"

record external =
  e_prefix :: string
  e_path :: string
  e_dirty :: bool
  pendingDelete :: bool

text \<open>
  The files a patch makes dirty: the external whose prefix is the path of a node of the patch,
  else the root file when the patch reaches a leaf of a persistent namespace. The state is the
  table of externals and \<open>rootDirty\<close>.
\<close>

fun markFirst :: "string \<Rightarrow> external list \<Rightarrow> external list" where
  "markFirst path [] = []"
| "markFirst path (e # es) =
     (if e_prefix e = path then e\<lparr>e_dirty := True\<rparr> # es else e # markFirst path es)"

definition isPersistent :: "string \<Rightarrow> bool" where
  "isPersistent path \<longleftrightarrow> take 2 path = ''s.'' \<or> isSecret path"

type_synonym dirt = "external list \<times> bool"

function routeKids :: "string \<Rightarrow> kids \<Rightarrow> dirt \<Rightarrow> dirt"
  and routePatchDirty :: "json \<Rightarrow> string \<Rightarrow> dirt \<Rightarrow> dirt" where
  "routeKids path [] d = d"
| "routeKids path ((nm, item) # rest) d =
     routeKids path rest
       (case nm of
          None \<Rightarrow> d
        | Some n \<Rightarrow>
            (if length (pathJoin path n) \<ge> PATH_BUF then d else routePatchDirty item (pathJoin path n) d))"
| "routePatchDirty node path d =
     (if path \<noteq> [] \<and> path \<in> e_prefix ` set (fst d) then (markFirst path (fst d), snd d)
      else case node of
             JObj k \<Rightarrow> routeKids path k d
           | _ \<Rightarrow> if path \<noteq> [] \<and> isPersistent path then (fst d, True) else d)"
  by pat_completeness auto
termination
  by (relation "measure (\<lambda>x. case x of Inl (_, k, _) \<Rightarrow> size_list (size_prod (\<lambda>_. 0) size) k
                                     | Inr (j, _, _) \<Rightarrow> size j)") auto

definition markExternalsDeletedUnder :: "string \<Rightarrow> external list \<Rightarrow> external list" where
  "markExternalsDeletedUnder key exts =
     (let arg = stripDots key; argDot = arg @ ''.''
      in if arg = [] then exts
         else map (\<lambda>e. if e_prefix e = arg \<or> take (length argDot) (e_prefix e) = argDot
                       then e\<lparr>pendingDelete := True\<rparr> else e) exts)"

definition storageNewTreeFile :: "string \<Rightarrow> string \<Rightarrow> external list \<Rightarrow> external list" where
  "storageNewTreeFile stateDir prefix exts =
     (let p = stripDots prefix
      in if p = [] \<or> length p + 8 \<ge> 64 then exts
         else case find (\<lambda>e. e_prefix e = p) exts of
                Some _ \<Rightarrow>
                  takeWhile (\<lambda>e. e_prefix e \<noteq> p) exts
                  @ (case dropWhile (\<lambda>e. e_prefix e \<noteq> p) exts of
                       [] \<Rightarrow> [] | e # es \<Rightarrow> e\<lparr>pendingDelete := False\<rparr> # es)
              | None \<Rightarrow>
                  exts @ [\<lparr>e_prefix = p, e_path = stateDir @ ''/storage/external/'' @ p @ ''.json'',
                           e_dirty = False, pendingDelete = False\<rparr>])"

end
