(* ===== verification/Storage_Merge.thy ===== *)
theory Storage_Merge
  imports Storage_Tree
begin

section \<open>What a merge does to a path\<close>

text \<open>
  The laws of the configuration tree. The interface to cJSON is the locale \<open>name_cmp\<close>: the
  comparison of names is an equivalence. A tree is well formed when the children of every
  object have names that differ under it, which every merge keeps; on such trees a lookup
  after a merge is the merge of the lookups (\<open>kidsGet_merge\<close>), level by level, so a written
  leaf is read back and the leaves beside it are left alone.
\<close>

subsection \<open>Paths as lists of segments\<close>

definition segs :: "string \<Rightarrow> string list" where
  "segs p = filter (\<lambda>s. s \<noteq> []) (split_on CHR ''.'' p)"

lemma segs_Nil [simp]: "segs [] = []"
  by (simp add: segs_def)

lemma segs_unfold:
  "p \<noteq> [] \<Longrightarrow> segs p = (if before CHR ''.'' p = [] then segs (after CHR ''.'' p)
     else before CHR ''.'' p # segs (after CHR ''.'' p))"
  unfolding segs_def by (subst split_on_cut) auto

fun navSegs :: "name_eq \<Rightarrow> json \<Rightarrow> string list \<Rightarrow> json option" where
  "navSegs eqn node [] = Some node"
| "navSegs eqn node (s # ss) =
     (if length s \<ge> SEG_MAX then None
      else case navStep eqn node s of None \<Rightarrow> None | Some c \<Rightarrow> navSegs eqn c ss)"

lemma navWalk_segs: "navWalk eqn node p = navSegs eqn node (segs p)"
proof (induction eqn node p rule: navWalk.induct)
  case (1 eqn node p)
  then show ?case
    by (subst navWalk.simps) (auto simp: segs_unfold split: option.splits)
qed

text \<open>A key the writers accept: no empty segment at its end, no segment past the buffer.\<close>

definition key_ok :: "string \<Rightarrow> bool" where
  "key_ok p \<longleftrightarrow> p \<noteq> [] \<and> last p \<noteq> CHR ''.'' \<and> list_all (\<lambda>s. length s < SEG_MAX) (segs p)"

fun nocSegs :: "name_eq \<Rightarrow> (string \<Rightarrow> json \<Rightarrow> json) \<Rightarrow> json \<Rightarrow> string list \<Rightarrow> json" where
  "nocSegs eqn act node [] = node"
| "nocSegs eqn act node (s # ss) =
     (if ss = [] then act s node
      else case GetObjectItem eqn node s of
             None \<Rightarrow> AddItemToObject s (nocSegs eqn act (JObj []) ss) node
           | Some c \<Rightarrow>
               (if is_leaf c then AddItemToObject s (nocSegs eqn act (JObj []) ss) (DeleteItemFromObject eqn s node)
                else putItem eqn s (nocSegs eqn act c ss) node))"

lemma key_ok_rest:
  assumes "p \<noteq> []" "last p \<noteq> CHR ''.''" "CHR ''.'' \<in> set p"
  shows "after CHR ''.'' p \<noteq> []" "last (after CHR ''.'' p) \<noteq> CHR ''.''"
proof -
  obtain a b where p: "p = a @ CHR ''.'' # b" "CHR ''.'' \<notin> set a" using assms(3) by (meson split_list_first)
  then have "after CHR ''.'' p = b" by simp
  then show "after CHR ''.'' p \<noteq> []" "last (after CHR ''.'' p) \<noteq> CHR ''.''" using assms(2) p(1) by (auto split: if_splits)
qed

lemma segs_nonempty: "p \<noteq> [] \<Longrightarrow> last p \<noteq> CHR ''.'' \<Longrightarrow> segs p \<noteq> []"
proof (induction p rule: length_induct)
  case (1 p)
  show ?case
  proof (cases "CHR ''.'' \<in> set p")
    case True
    then show ?thesis using 1 key_ok_rest [OF 1(2,3)] length_after_less [OF 1(2)] segs_unfold [OF 1(2)] by auto
  next
    case False
    then show ?thesis using 1(2) by (simp add: segs_def)
  qed
qed

lemma nocWalk_segs:
  assumes "p \<noteq> []" "last p \<noteq> CHR ''.''" "list_all (\<lambda>s. length s < SEG_MAX) (segs p)"
  shows "nocWalk eqn act node p = (nocSegs eqn act node (segs p), True)"
  using assms
proof (induction eqn act node p rule: nocWalk.induct)
  case (1 eqn act node p)
  let ?s = "before CHR ''.'' p" and ?r = "after CHR ''.'' p"
  note u = segs_unfold [OF 1(5)]
  show ?case
  proof (cases "CHR ''.'' \<in> set p")
    case False
    then show ?thesis using 1(5,7) by (subst nocWalk.simps) (simp add: segs_def)
  next
    case True
    note r = key_ok_rest [OF 1(5,6) True]
    have n: "segs ?r \<noteq> []" using segs_nonempty [OF r] .
    show ?thesis
    proof (cases "?s = []")
      case s: True
      then show ?thesis using 1(1) [OF 1(5) refl refl s r] 1(5,7) u by (subst nocWalk.simps) simp
    next
      case s: False
      then have l: "length ?s < SEG_MAX" "list_all (\<lambda>s. length s < SEG_MAX) (segs ?r)" using 1(7) u by auto
      have "\<not> SEG_MAX \<le> length ?s" "\<not> CHR ''.'' \<notin> set p" using l True by auto
      note ih = 1(2-4) [OF 1(5) refl refl s this]
      show ?thesis
      proof (cases "GetObjectItem eqn node ?s")
        case None
        then show ?thesis using ih(1) [OF None r l(2)] s l True 1(5) u n by (subst nocWalk.simps) simp
      next
        case (Some c)
        then show ?thesis
          using ih(2) [OF Some _ r l(2)] ih(3) [OF Some _ r l(2)] s l True 1(5) u n
          by (subst nocWalk.simps) (auto simp: Let_def simp del: de_Morgan_conj)
      qed
    qed
  qed
qed

subsection \<open>Well-formed trees\<close>

fun names_ok :: "name_eq \<Rightarrow> kids \<Rightarrow> bool" where
  "names_ok eqn [] \<longleftrightarrow> True"
| "names_ok eqn ((None, _) # cs) \<longleftrightarrow> False"
| "names_ok eqn ((Some n, _) # cs) \<longleftrightarrow> kidsGet eqn n cs = None \<and> names_ok eqn cs"

lemma size_kid [termination_simp]:
  "c \<in> set k \<Longrightarrow> size (snd c) < Suc (size_list (size_prod (\<lambda>_. 0) size) k)"
  by (induction k) (auto simp: less_Suc_eq_le prod.size_neq)

fun tree_ok :: "name_eq \<Rightarrow> json \<Rightarrow> bool" where
  "tree_ok eqn (JObj k) \<longleftrightarrow> names_ok eqn k \<and> (\<forall>c \<in> set k. tree_ok eqn (snd c))"
| "tree_ok eqn (JArr k) \<longleftrightarrow> (\<forall>c \<in> set k. tree_ok eqn (snd c))"
| "tree_ok eqn j \<longleftrightarrow> True"

text \<open>What a patch makes of one child: \<open>None\<close> deletes it.\<close>

fun mergeItem :: "name_eq \<Rightarrow> json option \<Rightarrow> json \<Rightarrow> json option" where
  "mergeItem eqn d JNull = None"
| "mergeItem eqn d (JObj ik) =
     Some (case d of
             Some (JObj dk) \<Rightarrow> mergeKids eqn (JObj dk) ik
           | Some (JArr ak) \<Rightarrow>
               (if allNumericKeys (JObj ik) then JArr (deepMergeIntoArray eqn ak ik) else JObj ik)
           | _ \<Rightarrow> JObj ik)"
| "mergeItem eqn d v = Some v"

lemma kid_cases:
  obtains (unnamed) v where "c = (None, v)" | (named) m v where "c = (Some m, v)"
  by (metis option.exhaust surj_pair)

text \<open>The contract of cJSON's comparison of names.\<close>

locale name_cmp =
  fixes eqn :: "string \<Rightarrow> string \<Rightarrow> bool"
  assumes eqn_refl: "eqn a a"
    and eqn_sym: "eqn a b \<Longrightarrow> eqn b a"
    and eqn_trans: "eqn a b \<Longrightarrow> eqn b c \<Longrightarrow> eqn a c"
begin

lemma hasName_cong: "eqn n m \<Longrightarrow> hasName eqn n c = hasName eqn m c"
  by (cases c rule: kid_cases) (auto intro: eqn_sym eqn_trans)

lemma hasName_apart: "hasName eqn m c \<Longrightarrow> hasName eqn n c \<Longrightarrow> eqn n m"
  by (cases c rule: kid_cases) (auto intro: eqn_sym eqn_trans)

lemma kidsGet_cong: "eqn n m \<Longrightarrow> kidsGet eqn n k = kidsGet eqn m k"
  by (induction k) (auto simp: hasName_cong)

lemma kidsGet_put:
  "kidsGet eqn n (kidsPut eqn m v k) =
     (if eqn n m \<and> kidsGet eqn m k \<noteq> None then Some v else kidsGet eqn n k)"
proof (induction k)
  case (Cons c k)
  have "hasName eqn n (fst c, v) = hasName eqn n c" by (cases c rule: kid_cases) auto
  then show ?case using Cons hasName_cong [of n m c] hasName_apart [of m c n] kidsGet_cong [of n m k] by auto
qed simp

lemma kidsGet_add:
  "kidsGet eqn n (k @ [(Some m, v)]) =
     (case kidsGet eqn n k of None \<Rightarrow> if eqn n m then Some v else None | Some x \<Rightarrow> Some x)"
  by (induction k) auto

lemma names_ok_absent: "names_ok eqn (c # k) \<Longrightarrow> hasName eqn n c \<Longrightarrow> kidsGet eqn n k = None"
  by (cases c rule: kid_cases) (auto simp: kidsGet_cong)

lemma names_ok_tl: "names_ok eqn (c # k) \<Longrightarrow> names_ok eqn k"
  by (cases c rule: kid_cases) auto

lemma kidsGet_del:
  "names_ok eqn k \<Longrightarrow> kidsGet eqn n (kidsDel eqn m k) = (if eqn n m then None else kidsGet eqn n k)"
proof (induction k)
  case (Cons c k)
  then show ?case
    using hasName_cong [of n m c] hasName_apart [of m c n] names_ok_absent [OF Cons(2), of m]
      names_ok_tl [OF Cons(2)] kidsGet_cong [of n m k] by auto
qed simp

lemma names_ok_Some: "names_ok eqn (c # k) \<Longrightarrow> \<exists>m v. c = (Some m, v)"
  by (cases c rule: kid_cases) auto

lemma names_ok_put: "names_ok eqn k \<Longrightarrow> names_ok eqn (kidsPut eqn m v k)"
proof (induction k)
  case (Cons c k)
  obtain n x where c: "c = (Some n, x)" using names_ok_Some [OF Cons(2)] by blast
  then show ?case using Cons names_ok_tl [OF Cons(2)]
    by (auto simp: kidsGet_put eqn_sym)
qed simp

lemma names_ok_del: "names_ok eqn k \<Longrightarrow> names_ok eqn (kidsDel eqn m k)"
proof (induction k)
  case (Cons c k)
  obtain n x where c: "c = (Some n, x)" using names_ok_Some [OF Cons(2)] by blast
  then show ?case using Cons names_ok_tl [OF Cons(2)] by (auto simp: kidsGet_del)
qed simp

lemma names_ok_add: "names_ok eqn k \<Longrightarrow> kidsGet eqn m k = None \<Longrightarrow> names_ok eqn (k @ [(Some m, v)])"
proof (induction k)
  case (Cons c k)
  obtain n x where c: "c = (Some n, x)" using names_ok_Some [OF Cons(2)] by blast
  then show ?case using Cons names_ok_tl [OF Cons(2)] by (auto simp: kidsGet_add eqn_sym split: if_splits)
qed simp

text \<open>Replacing a child: drop the old one, append the new one.\<close>

lemma names_ok_replace: "names_ok eqn k \<Longrightarrow> names_ok eqn (kidsDel eqn m k @ [(Some m, v)])"
  by (simp add: names_ok_add names_ok_del kidsGet_del eqn_refl)

lemma kidsGet_replace:
  "names_ok eqn k \<Longrightarrow> kidsGet eqn n (kidsDel eqn m k @ [(Some m, v)]) = (if eqn n m then Some v else kidsGet eqn n k)"
  by (auto simp: kidsGet_add kidsGet_del split: option.splits)

subsection \<open>A merge, level by level\<close>

lemma merge_one:
  assumes "names_ok eqn dk"
  shows "\<exists>k. mergeKids eqn (JObj dk) ((Some m, item) # r) = mergeKids eqn (JObj k) r \<and> names_ok eqn k
    \<and> (\<forall>n. kidsGet eqn n k = (if eqn n m then mergeItem eqn (kidsGet eqn m dk) item else kidsGet eqn n dk))"
proof -
  note ks = eqn_refl kidsGet_put kidsGet_del [OF assms] kidsGet_replace [OF assms] kidsGet_cong
    names_ok_put [OF assms] names_ok_del [OF assms] names_ok_replace [OF assms]
  note ops = putItem_def DeleteItemFromObject_def AddItemToObject_def GetObjectItem_def
  show ?thesis
  proof (cases item)
    case (JObj ik)
    show ?thesis
    proof (cases "kidsGet eqn m dk")
      case None
      then show ?thesis using JObj by (auto simp: ops ks intro!: exI [of _ "kidsDel eqn m dk @ [(Some m, item)]"])
    next
      case (Some d)
      then show ?thesis
      proof (cases d)
        case (JObj x)
        then show ?thesis using Some \<open>item = JObj ik\<close>
          by (auto simp: ops ks intro!: exI [of _ "kidsPut eqn m (mergeKids eqn (JObj x) ik) dk"])
      next
        case (JArr x)
        let ?a = "JArr (mergeElems eqn (foldl deleteAt x (deletions ik)) ik)"
        let ?k = "if allNumericKeys (JObj ik) then kidsPut eqn m ?a dk else kidsDel eqn m dk @ [(Some m, item)]"
        show ?thesis using Some JArr \<open>item = JObj ik\<close>
          by (auto simp: ops ks deepMergeIntoArray_def intro!: exI [of _ ?k])
      qed (use \<open>item = JObj ik\<close> Some in
        \<open>auto simp: ops ks intro!: exI [of _ "kidsDel eqn m dk @ [(Some m, item)]"]\<close>)
    qed
  next
    case JNull
    then show ?thesis by (auto simp: ops ks intro!: exI [of _ "kidsDel eqn m dk"])
  qed (auto simp: ops ks intro!: exI [of _ "kidsDel eqn m dk @ [(Some m, item)]"])
qed

lemma kidsGet_merge:
  assumes "names_ok eqn dk" "names_ok eqn P"
  shows "\<exists>k. mergeKids eqn (JObj dk) P = JObj k \<and> names_ok eqn k
    \<and> (\<forall>n. kidsGet eqn n k = (case kidsGet eqn n P of None \<Rightarrow> kidsGet eqn n dk
                                  | Some v \<Rightarrow> mergeItem eqn (kidsGet eqn n dk) v))"
  using assms
proof (induction P arbitrary: dk)
  case (Cons c P)
  obtain m v where c: "c = (Some m, v)" using names_ok_Some [OF Cons(3)] by blast
  obtain k1 where k1: "mergeKids eqn (JObj dk) ((Some m, v) # P) = mergeKids eqn (JObj k1) P" "names_ok eqn k1"
    "\<And>n. kidsGet eqn n k1 = (if eqn n m then mergeItem eqn (kidsGet eqn m dk) v else kidsGet eqn n dk)"
    using merge_one [OF Cons(2), of m v P] by blast
  obtain k where k: "mergeKids eqn (JObj k1) P = JObj k" "names_ok eqn k"
    "\<And>n. kidsGet eqn n k = (case kidsGet eqn n P of None \<Rightarrow> kidsGet eqn n k1
                                | Some v \<Rightarrow> mergeItem eqn (kidsGet eqn n k1) v)"
    using Cons(1) [OF k1(2) names_ok_tl [OF Cons(3)]] by blast
  have "kidsGet eqn n k = (case kidsGet eqn n (c # P) of None \<Rightarrow> kidsGet eqn n dk
      | Some v \<Rightarrow> mergeItem eqn (kidsGet eqn n dk) v)" for n
    using Cons(3) c k(3) k1(3) kidsGet_cong [of n m P] kidsGet_cong [of n m dk] by (auto split: option.splits)
  then show ?case using k k1(1) c by (intro exI [of _ k]) auto
qed auto

lemmas child_merge = kidsGet_merge [of _ "[(Some s, v)]" for s v, simplified]

subsection \<open>Well-formedness is kept\<close>

abbreviation kids_ok :: "kids \<Rightarrow> bool" where
  "kids_ok k \<equiv> \<forall>c \<in> set k. tree_ok eqn (snd c)"

lemma set_kidsDel: "set (kidsDel eqn n k) \<subseteq> set k"
  by (induction k) auto

lemma kids_ok_put: "kids_ok k \<Longrightarrow> tree_ok eqn v \<Longrightarrow> kids_ok (kidsPut eqn n v k)"
  by (induction k) auto

lemma tree_ok_get: "kids_ok k \<Longrightarrow> kidsGet eqn n k = Some v \<Longrightarrow> tree_ok eqn v"
  by (induction k) (auto split: if_splits)

lemma tree_ok_child: "tree_ok eqn j \<Longrightarrow> GetObjectItem eqn j n = Some v \<Longrightarrow> tree_ok eqn v"
  by (cases j) (auto simp: GetObjectItem_def intro: tree_ok_get)

lemma tree_ok_put: "tree_ok eqn j \<Longrightarrow> tree_ok eqn v \<Longrightarrow> tree_ok eqn (putItem eqn n v j)"
  by (cases j) (auto simp: putItem_def names_ok_put dest: kids_ok_put)

lemma tree_ok_del: "tree_ok eqn j \<Longrightarrow> tree_ok eqn (DeleteItemFromObject eqn n j)"
  by (cases j) (use set_kidsDel in \<open>auto simp: DeleteItemFromObject_def names_ok_del dest!: subsetD\<close>)

lemma tree_ok_replace:
  "tree_ok eqn j \<Longrightarrow> tree_ok eqn v \<Longrightarrow> tree_ok eqn (AddItemToObject n v (DeleteItemFromObject eqn n j))"
  by (cases j) (use set_kidsDel in
    \<open>auto simp: DeleteItemFromObject_def AddItemToObject_def names_ok_replace dest!: subsetD\<close>)

lemma set_deleteAt: "set (deleteAt xs i) \<subseteq> set xs"
  by (auto simp: deleteAt_def dest: in_set_takeD in_set_dropD)

lemma set_foldl_deleteAt: "set (foldl deleteAt xs is) \<subseteq> set xs"
proof (induction "is" arbitrary: xs)
  case (Cons i "is")
  then show ?case using set_deleteAt [of xs i] by (auto dest: subsetD)
qed simp

lemma kids_ok_place: "kids_ok arr \<Longrightarrow> tree_ok eqn it \<Longrightarrow> kids_ok (placeElem nm it arr)"
  by (auto simp: placeElem_def Let_def dest: set_update_subset_insert [THEN subsetD] split: if_splits)

end

text \<open>The comparison cJSON documents: case insensitive, on ASCII letters.\<close>

definition tolower :: "char \<Rightarrow> nat" where
  "tolower c = (let n = of_char c in if 65 \<le> n \<and> n \<le> 90 then n + 32 else n)"

definition ci_eq :: "string \<Rightarrow> string \<Rightarrow> bool" where
  "ci_eq a b \<longleftrightarrow> map tolower a = map tolower b"

interpretation cjson: name_cmp ci_eq
  by unfold_locales (simp_all add: ci_eq_def)

lemma merge_tree_ok:
  "name_cmp eqn \<Longrightarrow> tree_ok eqn dst \<Longrightarrow> \<forall>c \<in> set P. tree_ok eqn (snd c) \<Longrightarrow> tree_ok eqn (mergeKids eqn dst P)"
  "name_cmp eqn \<Longrightarrow> \<forall>c \<in> set arr. tree_ok eqn (snd c) \<Longrightarrow> \<forall>c \<in> set Q. tree_ok eqn (snd c)
     \<Longrightarrow> \<forall>c \<in> set (mergeElems eqn arr Q). tree_ok eqn (snd c)"
proof (induction eqn dst P and eqn arr Q rule: mergeKids_mergeElems.induct)
  case (3 eqn dst n item rest)
  note put = name_cmp.tree_ok_put [OF 3(4,5)] and del = name_cmp.tree_ok_del [OF 3(4,5)]
    and rep = name_cmp.tree_ok_replace [OF 3(4,5), of item] and get = name_cmp.tree_ok_child [OF 3(4,5)]
  have it: "tree_ok eqn item" and rest: "\<forall>c \<in> set rest. tree_ok eqn (snd c)" using 3(6) by auto
  have "tree_ok eqn (mergeKids eqn dst ((Some n, item) # rest))" if ob: "is_obj item"
  proof -
    obtain ik where ik: "item = JObj ik" using ob by (cases item) auto
    have ik_ok: "\<forall>c \<in> set ik. tree_ok eqn (snd c)" using it ik by simp
    show ?thesis
    proof (cases "GetObjectItem eqn dst n")
      case (Some d)
      show ?thesis
      proof (cases d)
        case (JObj dk)
        then show ?thesis using 3(2) [OF ik Some JObj] 3(3) 3(4) put get [of n d] Some ik ik_ok rest by simp
      next
        case (JArr ak)
        have "\<forall>c \<in> set (foldl deleteAt ak (deletions ik)). tree_ok eqn (snd c)"
          using get [of n d] Some JArr name_cmp.set_foldl_deleteAt [OF 3(4), of ak] by auto
        then show ?thesis using 3(1) [OF ik Some JArr] 3(3) 3(4) put rep it Some JArr ik ik_ok rest by (cases "allNumericKeys (JObj ik)") simp_all
      qed (use 3(3) 3(4) rep it Some ik rest in simp_all)
    qed (use 3(3) 3(4) rep it ik rest in simp)
  qed
  then show ?case using 3(3) 3(4) del rep it rest by (cases item) simp_all
next
  case (5 eqn arr nm it rest)
  have it: "tree_ok eqn it" and rest: "\<forall>c \<in> set rest. tree_ok eqn (snd c)" using 5(5) by auto
  note pl = name_cmp.kids_ok_place [OF 5(3,4) it, of nm]
  show ?case
  proof (cases "\<exists>ik. it = JObj ik \<and> elemIdx nm < length arr \<and> is_obj (snd (arr ! elemIdx nm))")
    case True
    then obtain ik where ik: "it = JObj ik" "elemIdx nm < length arr" "is_obj (snd (arr ! elemIdx nm))" by auto
    have "tree_ok eqn (mergeKids eqn (snd (arr ! elemIdx nm)) ik)"
      using 5(1) [OF ik(1) refl] ik it 5(3,4) nth_mem [OF ik(2)] by auto
    then have "\<forall>c \<in> set (arr[elemIdx nm := (fst (arr ! elemIdx nm), mergeKids eqn (snd (arr ! elemIdx nm)) ik)]).
        tree_ok eqn (snd c)"
      using 5(4) by (auto dest!: set_update_subset_insert [THEN subsetD])
    then show ?thesis using 5(2) 5(3) rest ik by (simp add: Let_def)
  next
    case False
    show ?thesis
    proof (cases "is_obj it")
      case True
      then obtain ik where ik: "it = JObj ik" by (cases it) auto
      then have "\<not> (elemIdx nm < length arr \<and> is_obj (snd (arr ! elemIdx nm)))" using False by simp
      note cond = if_not_P [OF this]
      have 1: "mergeElems eqn arr ((nm, it) # rest) = mergeElems eqn (placeElem nm it arr) rest"
        by (simp only: mergeElems.simps ik json.case Let_def cond)
      have "\<forall>c \<in> set (mergeElems eqn (placeElem nm it arr) rest). tree_ok eqn (snd c)"
        using 5(2) [OF 5(3)] pl rest unfolding ik json.case Let_def cond by blast
      then show ?thesis by (simp only: 1)
    next
      case False
      show ?thesis
      proof (cases it)
        case JNull
        then show ?thesis using 5(2) [OF 5(3)] 5(4) rest by simp
      next
        case (JObj k)
        then show ?thesis using False by simp
      qed (use 5(2) [OF 5(3)] pl rest in simp_all)
    qed
  qed
qed auto

subsection \<open>Elements of an array\<close>

lemma atoi_digits_nonneg: "isAllDigits s \<Longrightarrow> 0 \<le> atoi s"
  using digit_not_special by (cases s) (auto simp: isAllDigits_def atoi_def Let_def INT32_MAX_def)

definition arrGet :: "kids \<Rightarrow> nat \<Rightarrow> json option" where
  "arrGet a i = (if i < length a then Some (snd (a ! i)) else None)"

fun idxGet :: "kids \<Rightarrow> nat \<Rightarrow> json option" where
  "idxGet [] i = None"
| "idxGet (c # cs) i = (if elemIdx (fst c) = i then Some (snd c) else idxGet cs i)"

text \<open>What a numeric-keyed patch makes of one element, when the patch does not delete.\<close>

fun mergeElem :: "name_eq \<Rightarrow> json option \<Rightarrow> json \<Rightarrow> json" where
  "mergeElem eqn (Some (JObj dk)) (JObj ik) = mergeKids eqn (JObj dk) ik"
| "mergeElem eqn d v = v"

definition no_null :: "kids \<Rightarrow> bool" where
  "no_null P \<longleftrightarrow> list_all (\<lambda>c. snd c \<noteq> JNull) P"

lemma no_null_Cons [simp]: "no_null (c # P) \<longleftrightarrow> snd c \<noteq> JNull \<and> no_null P"
  by (simp add: no_null_def)

lemma deletions_no_null: "no_null P \<Longrightarrow> deletions P = []"
  by (induction P) (auto simp: no_null_def deletions_def)

lemma arrGet_place:
  "arrGet (placeElem nm it a) i =
     (if i = elemIdx nm then Some it
      else if length a \<le> i \<and> i < elemIdx nm then Some JNull else arrGet a i)"
  by (auto simp: placeElem_def arrGet_def Let_def nth_append nth_Cons' nth_list_update)

lemma merge_elem_one:
  assumes "v \<noteq> JNull"
  shows "\<exists>a'. mergeElems eqn a ((nm, v) # r) = mergeElems eqn a' r
    \<and> length a' = max (length a) (Suc (elemIdx nm))
    \<and> (\<forall>i. arrGet a' i = (if i = elemIdx nm then Some (mergeElem eqn (arrGet a i) v)
         else if length a \<le> i \<and> i < elemIdx nm then Some JNull else arrGet a i))"
proof (cases "\<exists>ik. v = JObj ik \<and> elemIdx nm < length a \<and> is_obj (snd (a ! elemIdx nm))")
  case True
  then obtain ik dk where "v = JObj ik" "elemIdx nm < length a" "snd (a ! elemIdx nm) = JObj dk"
    by (auto elim: is_obj.elims(2))
  then show ?thesis
    by (intro exI [of _ "a[elemIdx nm := (fst (a ! elemIdx nm), mergeKids eqn (JObj dk) ik)]"])
      (auto simp: arrGet_def nth_list_update Let_def)
next
  case False
  then have "mergeElem eqn (arrGet a (elemIdx nm)) v = v"
    by (cases "(eqn, arrGet a (elemIdx nm), v)" rule: mergeElem.cases) (auto simp: arrGet_def split: if_splits)
  moreover have "mergeElems eqn a ((nm, v) # r) = mergeElems eqn (placeElem nm v a) r"
    using False assms by (cases v) (auto simp: Let_def)
  moreover have "length (placeElem nm v a) = max (length a) (Suc (elemIdx nm))"
    by (auto simp: placeElem_def Let_def)
  ultimately show ?thesis by (intro exI [of _ "placeElem nm v a"]) (auto simp: arrGet_place)
qed

lemma mergeElem_pad: "mergeElem eqn (Some JNull) v = mergeElem eqn None v"
  by simp

lemma arrGet_merge_all:
  assumes "no_null P" "distinct (map (elemIdx \<circ> fst) P)"
  shows "(\<forall>v. idxGet P i = Some v \<longrightarrow> arrGet (mergeElems eqn a P) i = Some (mergeElem eqn (arrGet a i) v))
    \<and> (idxGet P i = None \<longrightarrow> i < length a \<longrightarrow> arrGet (mergeElems eqn a P) i = arrGet a i)
    \<and> length (mergeElems eqn a P) = foldl max (length a) (map (Suc \<circ> elemIdx \<circ> fst) P)"
  using assms
proof (induction P arbitrary: a)
  case (Cons c P)
  obtain nm x where c: "c = (nm, x)" by (cases c)
  have x: "x \<noteq> JNull" and P: "no_null P" "distinct (map (elemIdx \<circ> fst) P)"
    "elemIdx nm \<notin> (elemIdx \<circ> fst) ` set P" using Cons(2,3) c by (simp_all add: comp_def)
  obtain a' where a': "mergeElems eqn a (c # P) = mergeElems eqn a' P" "length a' = max (length a) (Suc (elemIdx nm))"
    "\<And>i. arrGet a' i = (if i = elemIdx nm then Some (mergeElem eqn (arrGet a i) x)
         else if length a \<le> i \<and> i < elemIdx nm then Some JNull else arrGet a i)"
    using merge_elem_one [OF x, of eqn a nm P] c by auto
  note ih = Cons(1) [OF P(1,2), of a']
  have miss: "idxGet P (elemIdx nm) = None" using P(3) by (induction P) auto
  show ?case
  proof (cases "i = elemIdx nm")
    case True
    then show ?thesis using ih miss a' c by auto
  next
    case False
    have "mergeElem eqn (arrGet a' i) v = mergeElem eqn (arrGet a i) v" for v
      using a'(3) [of i] False mergeElem_pad by (auto simp: arrGet_def)
    moreover have "i < length a \<Longrightarrow> arrGet a' i = arrGet a i" using a'(3) [of i] False by simp
    moreover have "length a \<le> length a'" using a'(2) by simp
    ultimately show ?thesis using ih False a'(1,2) c by (simp add: comp_def)
  qed
qed auto

lemmas arrGet_merge = arrGet_merge_all [THEN conjunct1, rule_format]
  arrGet_merge_all [THEN conjunct2, THEN conjunct1, rule_format]
  arrGet_merge_all [THEN conjunct2, THEN conjunct2]

subsection \<open>A written key is read back\<close>

text \<open>The patch one key makes: an object per segment.\<close>

fun patch1 :: "string list \<Rightarrow> json \<Rightarrow> json" where
  "patch1 [] v = v"
| "patch1 (s # ss) v = JObj [(Some s, patch1 ss v)]"

lemma nocSegs_patch1: "ss \<noteq> [] \<Longrightarrow> nocSegs eqn (setLeaf eqn v) (JObj []) ss = patch1 ss v"
  by (induction ss) (auto simp: GetObjectItem_def setLeaf_def AddItemToObject_def DeleteItemFromObject_def)

lemma patch_of_key:
  "key_ok k \<Longrightarrow> navigateOrCreate eqn (setLeaf eqn v) (JObj []) k = (patch1 (segs k) v, True)"
  by (simp add: navigateOrCreate_def key_ok_def nocWalk_segs nocSegs_patch1 segs_nonempty)

context name_cmp
begin

lemma nav_patch1: "list_all (\<lambda>s. length s < SEG_MAX) ss \<Longrightarrow> navSegs eqn (patch1 ss v) ss = Some v"
  by (induction ss) (auto simp: navStep_def GetObjectItem_def eqn_refl)

lemma patch1_not_null: "v \<noteq> JNull \<Longrightarrow> patch1 ss v \<noteq> JNull"
  by (cases ss) auto

lemma mergeElem_item:
  "v \<noteq> JNull \<Longrightarrow> mergeElem eqn d v = v \<or> (is_obj v \<and> mergeItem eqn d v = Some (mergeElem eqn d v))"
  by (cases "(eqn, d, v)" rule: mergeElem.cases) auto

lemma nav_mergeItem:
  assumes "list_all (\<lambda>s. length s < SEG_MAX) ss" "is_leaf v" "v \<noteq> JNull" "\<forall>j. d = Some j \<longrightarrow> tree_ok eqn j"
  shows "\<exists>j. mergeItem eqn d (patch1 ss v) = Some j \<and> navSegs eqn j ss = Some v"
  using assms
proof (induction ss arbitrary: d)
  case Nil
  then show ?case by (cases v) auto
next
  case (Cons s ss)
  have l: "length s < SEG_MAX" "list_all (\<lambda>s. length s < SEG_MAX) ss" using Cons(2) by auto
  let ?X = "patch1 ss v"
  have fresh: "navSegs eqn (JObj [(Some s, ?X)]) (s # ss) = Some v"
    using nav_patch1 [OF Cons(2), of v] by simp
  show ?case
  proof (cases "\<exists>dk. d = Some (JObj dk)")
    case True
    then obtain dk where d: "d = Some (JObj dk)" by blast
    then have dk: "names_ok eqn dk" "kids_ok dk" using Cons(5) by auto
    obtain k where k: "mergeKids eqn (JObj dk) [(Some s, ?X)] = JObj k"
      "kidsGet eqn s k = mergeItem eqn (kidsGet eqn s dk) ?X"
      using kidsGet_merge [OF dk(1), of "[(Some s, ?X)]"] by (auto simp: eqn_refl)
    show ?thesis using Cons(1) [OF l(2) Cons(3,4), of "kidsGet eqn s dk"] tree_ok_get [OF dk(2)] d k l(1)
      by (auto simp: navStep_def GetObjectItem_def)
  next
    case False
    show ?thesis
    proof (cases "\<exists>ak. d = Some (JArr ak) \<and> isAllDigits s")
      case True
      then obtain ak where d: "d = Some (JArr ak)" "isAllDigits s" by blast
      have nn: "no_null [(Some s, ?X)]" using patch1_not_null [OF Cons(4)] by (simp add: no_null_def)
      define i where "i = elemIdx (Some s)"
      have "arrGet (mergeElems eqn ak [(Some s, ?X)]) i = Some (mergeElem eqn (arrGet ak i) ?X)"
        using arrGet_merge(1) [OF nn] by (simp add: i_def)
      moreover have "GetArrayItem (JArr x) (atoi s) = arrGet x i" for x
        using atoi_digits_nonneg [OF d(2)] by (auto simp: GetArrayItem_def arrGet_def i_def elemIdx_def nat_less_iff)
      moreover have "navSegs eqn (mergeElem eqn (arrGet ak i) ?X) ss = Some v"
        using mergeElem_item [OF patch1_not_null [OF Cons(4)], of "arrGet ak i" ss]
          nav_patch1 [OF l(2)] Cons(1) [OF l(2) Cons(3,4), of "arrGet ak i"] Cons(5) d(1)
        by (auto simp: arrGet_def split: if_splits)
      ultimately show ?thesis using d l(1) deletions_no_null [OF nn]
        by (auto simp: navStep_def deepMergeIntoArray_def allNumericKeys.simps)
    next
      case False
      then show ?thesis using \<open>\<nexists>dk. d = Some (JObj dk)\<close> fresh
        by (auto simp: allNumericKeys.simps split: option.splits json.splits)
    qed
  qed
qed

end

subsection \<open>The keys beside it are left alone\<close>

text \<open>
  Two keys diverge when at some position, up to which they agree, their segments name
  different children. On a way through objects only (\<open>no_arr\<close>), a write leaves every
  diverging key as it was.
\<close>

fun apart :: "name_eq \<Rightarrow> string list \<Rightarrow> string list \<Rightarrow> bool" where
  "apart eqn (s # ss) (t # tt) \<longleftrightarrow> \<not> eqn t s \<or> apart eqn ss tt"
| "apart eqn _ _ \<longleftrightarrow> False"

fun no_arr :: "name_eq \<Rightarrow> json option \<Rightarrow> string list \<Rightarrow> bool" where
  "no_arr eqn (Some j) (s # ss) \<longleftrightarrow> \<not> is_arr j \<and> no_arr eqn (GetObjectItem eqn j s) ss"
| "no_arr eqn _ _ \<longleftrightarrow> True"

definition navOpt :: "name_eq \<Rightarrow> json option \<Rightarrow> string list \<Rightarrow> json option" where
  "navOpt eqn d tt = Option.bind d (\<lambda>j. navSegs eqn j tt)"

lemma navOpt_Cons:
  "navOpt eqn d (t # tt) = (if length t \<ge> SEG_MAX then None else navOpt eqn (Option.bind d (\<lambda>j. navStep eqn j t)) tt)"
  by (cases d) (auto simp: navOpt_def split: option.splits)

context name_cmp
begin

lemma nav_mergeItem_frame:
  assumes "apart eqn ss tt" "no_arr eqn d ss" "is_leaf v" "v \<noteq> JNull" "\<forall>j. d = Some j \<longrightarrow> tree_ok eqn j"
  shows "navOpt eqn (mergeItem eqn d (patch1 ss v)) tt = navOpt eqn d tt"
  using assms
proof (induction ss arbitrary: d tt)
  case (Cons s ss)
  then obtain t tt' where tt: "tt = t # tt'" by (cases tt) auto
  let ?X = "patch1 ss v"
  have v: "\<not> is_obj v \<and> \<not> is_arr v" "v \<noteq> JNull" using Cons(4,5) by auto
  have ap: "eqn t s \<Longrightarrow> apart eqn ss tt'" using Cons(2) tt by auto
  have fresh: "navOpt eqn (Some (JObj [(Some s, ?X)])) (t # tt') = None"
  proof (cases "eqn t s")
    case True
    have "mergeItem eqn None ?X = Some ?X" using v by (cases ss; cases v) auto
    then have "navOpt eqn (Some ?X) tt' = navOpt eqn None tt'"
      using Cons(1) [OF ap [OF True] _ v, of None] by simp
    then show ?thesis using True by (simp add: navOpt_def navStep_def GetObjectItem_def split: option.splits)
  qed (simp add: navOpt_def navStep_def GetObjectItem_def)
  show ?case
  proof (cases "\<exists>dk. d = Some (JObj dk)")
    case True
    then obtain dk where d: "d = Some (JObj dk)" by blast
    then have dk: "names_ok eqn dk" "kids_ok dk" using Cons(6) by auto
    obtain k where k: "mergeKids eqn (JObj dk) [(Some s, ?X)] = JObj k"
      "\<And>n. kidsGet eqn n k = (if eqn n s then mergeItem eqn (kidsGet eqn n dk) ?X else kidsGet eqn n dk)"
      using kidsGet_merge [OF dk(1), of "[(Some s, ?X)]"] by auto
    have "navOpt eqn (mergeItem eqn (kidsGet eqn t dk) ?X) tt' = navOpt eqn (kidsGet eqn t dk) tt'" if "eqn t s"
      using Cons(1) [OF ap [OF that] _ v, of "kidsGet eqn t dk"] Cons(3) d tree_ok_get [OF dk(2)] kidsGet_cong [OF that, of dk]
      by (auto simp: GetObjectItem_def)
    then show ?thesis using d k tt by (simp add: navOpt_Cons navStep_def GetObjectItem_def)
  next
    case False
    moreover have "\<not> (\<exists>ak. d = Some (JArr ak))" using Cons(3) by auto
    ultimately have leaf: "d = None \<or> (\<exists>j. d = Some j \<and> child_list j = [] \<and> is_leaf j)"
      by (metis child_list.elims is_arr.elims(2) is_obj.elims(2) option.exhaust)
    then have "mergeItem eqn d (patch1 (s # ss) v) = Some (JObj [(Some s, ?X)])"
      by (auto split: json.splits)
    moreover have "navOpt eqn d (t # tt') = None"
      using leaf by (auto simp: navOpt_def navStep_def GetObjectItem_def)
    ultimately show ?thesis using fresh tt by simp
  qed
qed simp

end

end
