(* ===== verification/Storage_Subs.thy ===== *)
theory Storage_Subs
  imports C_String "HOL-Library.Multiset"
begin

section \<open>Change subscriptions and their delivery (storage.cpp)\<close>

text \<open>
  The table of subscriptions the storage actor owns, the fan-out of a change over it, the
  queue between the actor and the dispatch worker, and the message a subscriber unpacks. A
  task handle and a callback are pointers, 32-bit words with 0 for null. The table is the list
  of its \<open>subCount\<close> rows: the rows beyond are cleared and never read. What a callback does
  when it is called inline is not part of this code; a delivery is recorded with its arguments.
\<close>

type_synonym ptr = u32

record storage_sub =
  sub_task :: ptr
  sub_cb :: ptr
  sub_scope :: string
  sub_direct :: bool

definition STORAGE_MAX_SUBS :: nat where "STORAGE_MAX_SUBS = 256"

subsection \<open>The table\<close>

definition subDrop :: "nat \<Rightarrow> storage_sub list \<Rightarrow> storage_sub list" where
  "subDrop i subs = butlast (if i \<noteq> length subs - 1 then subs[i := last subs] else subs)"

text \<open>The scan both removals do: a dropped row leaves another in its place, looked at next.\<close>

function subScan :: "(storage_sub \<Rightarrow> bool) \<Rightarrow> nat \<Rightarrow> storage_sub list \<Rightarrow> storage_sub list" where
  "subScan gone i subs =
     (if i < length subs
      then (if gone (subs ! i) then subScan gone i (subDrop i subs) else subScan gone (Suc i) subs)
      else subs)"
  by pat_completeness auto
termination by (relation "measure (\<lambda>(_, i, subs). length subs - i)") (auto simp: subDrop_def)

declare subScan.simps [simp del]

definition sub_dead :: "storage_sub \<Rightarrow> bool" where
  "sub_dead s \<longleftrightarrow> sub_task s = 0 \<and> \<not> sub_direct s"

definition subReap :: "storage_sub list \<Rightarrow> storage_sub list" where
  "subReap = subScan sub_dead 0"

definition subAdd :: "ptr \<Rightarrow> ptr \<Rightarrow> string \<Rightarrow> bool \<Rightarrow> storage_sub list \<Rightarrow> storage_sub list" where
  "subAdd task cb scope direct subs =
     (let s1 = subReap subs; row = \<lparr>sub_task = task, sub_cb = cb, sub_scope = scope, sub_direct = direct\<rparr>
      in if row \<in> set s1 then s1
         else if length s1 \<ge> STORAGE_MAX_SUBS then s1
         else s1 @ [row])"

text \<open>\<open>subRemove\<close>: a null scope matches every row, a null callback every callback of the owner.\<close>

definition subMatch :: "ptr \<Rightarrow> ptr \<Rightarrow> string option \<Rightarrow> storage_sub \<Rightarrow> bool" where
  "subMatch task cb scope s \<longleftrightarrow>
     (if sub_direct s then cb \<noteq> 0 else sub_task s = task)
     \<and> (case scope of None \<Rightarrow> True | Some sc \<Rightarrow> sub_scope s = sc)
     \<and> (cb = 0 \<or> sub_cb s = cb)"

definition subRemove :: "ptr \<Rightarrow> ptr \<Rightarrow> string option \<Rightarrow> storage_sub list \<Rightarrow> storage_sub list" where
  "subRemove task cb scope = subScan (subMatch task cb scope) 0"

definition storageOnTaskDeath :: "ptr \<Rightarrow> storage_sub list \<Rightarrow> storage_sub list" where
  "storageOnTaskDeath dead = map (\<lambda>s. if sub_task s = dead then s\<lparr>sub_task := 0\<rparr> else s)"

subsection \<open>Fan-out of one change\<close>

definition STORAGE_NOTIFY_VAL_MAX :: nat where "STORAGE_NOTIFY_VAL_MAX = 512"

datatype delivery =
    Inline ptr string string
  | Queued ptr bytes

definition changedMsg :: "ptr \<Rightarrow> string \<Rightarrow> string \<Rightarrow> bytes" where
  "changedMsg cb key val =
     le32 cb @ bytes_of key @ [0] @ bytes_of (take STORAGE_NOTIFY_VAL_MAX val) @ [0]"

definition notifyOne :: "ptr \<Rightarrow> (nat \<Rightarrow> bool) \<Rightarrow> string \<Rightarrow> string \<Rightarrow> storage_sub \<Rightarrow> delivery list" where
  "notifyOne self alloc key val s =
     (if sub_dead s then []
      else if take (length (sub_scope s)) key \<noteq> sub_scope s then []
      else if sub_direct s \<or> sub_task s = self then (if sub_cb s \<noteq> 0 then [Inline (sub_cb s) key val] else [])
      else if \<not> alloc (length (changedMsg (sub_cb s) key val)) then []
      else [Queued (sub_task s) (changedMsg (sub_cb s) key val)])"

definition notifyChange :: "ptr \<Rightarrow> (nat \<Rightarrow> bool) \<Rightarrow> storage_sub list \<Rightarrow> string \<Rightarrow> string \<Rightarrow> delivery list" where
  "notifyChange self alloc subs key val = concat (map (notifyOne self alloc key val) subs)"

text \<open>
  The subscriber's side. \<open>None\<close> is a read past the message, \<open>Some None\<close> a message that is
  dropped or whose callback is null.
\<close>

definition storageChangeDispatch :: "bytes \<Rightarrow> (ptr \<times> string \<times> string) option option" where
  "storageChangeDispatch msg =
     (if length msg < 4 + 2 then Some None
      else let cb = of_le32 msg; r = drop 4 msg; key = cstr_field r
      in if length key + 1 \<ge> length r then Some None
         else let v = drop (length key + 1) r
         in if 0 \<notin> set v then None
            else if cb = 0 then Some None
            else Some (Some (cb, str_of key, str_of (cstr_field v))))"

subsection \<open>The dispatch worker's queue\<close>

definition STORAGE_NOTIFY_QUEUE_MAX :: nat where "STORAGE_NOTIFY_QUEUE_MAX = 256"

type_synonym notify_job = "ptr \<times> bytes"

text \<open>\<open>nq_sent\<close> records the jobs given to \<open>notifySend\<close>, which ITS takes or the code frees.\<close>

record notify_q =
  nq_worker :: bool
  nq_jobs :: "notify_job list"
  nq_dropped :: u32
  nq_sent :: "notify_job list"

definition notifySend :: "notify_job \<Rightarrow> notify_q \<Rightarrow> notify_q" where
  "notifySend job q = q\<lparr>nq_sent := nq_sent q @ [job]\<rparr>"

definition notifyEnqueue :: "notify_job \<Rightarrow> notify_q \<Rightarrow> notify_q" where
  "notifyEnqueue job q =
     (if \<not> nq_worker q then notifySend job q
      else if length (nq_jobs q) \<ge> STORAGE_NOTIFY_QUEUE_MAX
      then q\<lparr>nq_jobs := tl (nq_jobs q) @ [job], nq_dropped := nq_dropped q + 1\<rparr>
      else q\<lparr>nq_jobs := nq_jobs q @ [job]\<rparr>)"

fun notifyAll :: "delivery list \<Rightarrow> notify_q \<Rightarrow> notify_q" where
  "notifyAll [] q = q"
| "notifyAll (Inline _ _ _ # ds) q = notifyAll ds q"
| "notifyAll (Queued task buf # ds) q = notifyAll ds (notifyEnqueue (task, buf) q)"

text \<open>One round of the worker, after a wake-up: it empties the queue, oldest first.\<close>

function notifyDrain :: "notify_q \<Rightarrow> notify_q" where
  "notifyDrain q =
     (case nq_jobs q of [] \<Rightarrow> q | job # js \<Rightarrow> notifyDrain (notifySend job (q\<lparr>nq_jobs := js\<rparr>)))"
  by pat_completeness auto
termination by (relation "measure (\<lambda>q. length (nq_jobs q))") (auto simp: notifySend_def)

declare notifyDrain.simps [simp del]

subsection \<open>The slow batches\<close>

record slow_op =
  so_key :: string
  so_us :: u32
  so_ops :: int

definition SLOW_OP_SLOTS :: nat where "SLOW_OP_SLOTS = 6"

text \<open>The first slot with the least time, as the scan from slot 1 finds it.\<close>

definition slowSlot :: "slow_op list \<Rightarrow> nat" where
  "slowSlot t = foldl (\<lambda>slot i. if so_us (t ! i) < so_us (t ! slot) then i else slot) 0 [1..<SLOW_OP_SLOTS]"

definition slowOpRecord :: "string \<Rightarrow> u32 \<Rightarrow> int \<Rightarrow> slow_op list \<Rightarrow> slow_op list" where
  "slowOpRecord key us ops t =
     (let row = \<lparr>so_key = take 39 key, so_us = us, so_ops = ops\<rparr>
      in if length t \<ge> SLOW_OP_SLOTS
         then (let slot = slowSlot t in if so_us (t ! slot) \<ge> us then t else t[slot := row])
         else t @ [row])"

definition slowOpsReport :: "slow_op list \<Rightarrow> string" where
  "slowOpsReport t = concat (map (\<lambda>r. take 79 ('' '' @ so_key r @ ''='' @ nat_str (unat (so_us r) div 1000)
      @ ''ms('' @ int_str (so_ops r) @ ''op)'')) t)"

subsection \<open>Removals keep every other row\<close>

lemma subDrop_parts:
  assumes "i < length subs"
  shows "take i (subDrop i subs) = take i subs"
    "mset (drop i (subDrop i subs)) = mset (drop (Suc i) subs)"
    "length (subDrop i subs) = length subs - 1"
proof -
  obtain a x where s: "subs = a @ [x]" using assms by (cases subs rule: rev_cases) auto
  show "take i (subDrop i subs) = take i subs" "length (subDrop i subs) = length subs - 1"
    using assms s by (auto simp: subDrop_def butlast_list_update)
  show "mset (drop i (subDrop i subs)) = mset (drop (Suc i) subs)"
  proof (cases "i = length a")
    case False
    then have i: "i < length a" using assms s by simp
    then have "subDrop i subs = a[i := x]" using s by (simp add: subDrop_def butlast_list_update list_update_append butlast_append)
    moreover have "drop i (a[i := x]) = x # drop (Suc i) a" using i by (simp add: Cons_nth_drop_Suc [symmetric])
    ultimately show ?thesis using s i by simp
  qed (use s in \<open>simp add: subDrop_def\<close>)
qed

lemma mset_subScan:
  "mset (subScan gone i subs) = mset (take i subs) + filter_mset (\<lambda>s. \<not> gone s) (mset (drop i subs))"
proof (induction gone i subs rule: subScan.induct)
  case (1 gone i subs)
  show ?case
  proof (cases "i < length subs")
    case True
    note d = Cons_nth_drop_Suc [OF True, symmetric]
    show ?thesis
    proof (cases "gone (subs ! i)")
      case g: True
      then show ?thesis using 1(1) [OF True g] subDrop_parts [OF True] True
        by (subst subScan.simps) (simp add: d)
    next
      case g: False
      then show ?thesis using 1(2) [OF True g] True
        by (subst subScan.simps) (simp add: d take_Suc_conv_app_nth)
    qed
  qed (subst subScan.simps, simp)
qed

lemma mset_subReap: "mset (subReap subs) = filter_mset (\<lambda>s. \<not> sub_dead s) (mset subs)"
  by (simp add: subReap_def mset_subScan)

lemma mset_subRemove:
  "mset (subRemove task cb scope subs) = filter_mset (\<lambda>s. \<not> subMatch task cb scope s) (mset subs)"
  by (simp add: subRemove_def mset_subScan)

lemma set_subReap: "set (subReap subs) = {s \<in> set subs. \<not> sub_dead s}"
  using arg_cong [OF mset_subReap [of subs], of set_mset] by simp

lemma length_subReap: "length (subReap subs) = length (filter (\<lambda>s. \<not> sub_dead s) subs)"
  using arg_cong [OF mset_subReap [of subs], of size] by (simp flip: mset_filter)

lemma length_subRemove_le: "length (subRemove task cb scope subs) \<le> length subs"
  using arg_cong [OF mset_subRemove [of task cb scope subs], of size] by (simp flip: mset_filter)

text \<open>The invariant of the table: it fits, no live subscription has two rows, and a direct row has
  no owner.\<close>

definition subs_ok :: "storage_sub list \<Rightarrow> bool" where
  "subs_ok subs \<longleftrightarrow> length subs \<le> STORAGE_MAX_SUBS \<and> distinct (filter (\<lambda>s. \<not> sub_dead s) subs)
     \<and> (\<forall>s \<in> set subs. sub_direct s \<longrightarrow> sub_task s = 0)"

lemma distinct_mset: "mset xs = mset ys \<Longrightarrow> distinct xs = distinct ys"
  by (metis distinct_count_atmost_1 set_mset_mset)

lemma subReap_ok: "subs_ok subs \<Longrightarrow> distinct (subReap subs) \<and> length (subReap subs) \<le> STORAGE_MAX_SUBS"
  using distinct_mset [of "subReap subs" "filter (\<lambda>s. \<not> sub_dead s) subs"]
    le_trans [OF length_filter_le [of "\<lambda>s. \<not> sub_dead s" subs]]
  by (auto simp: subs_ok_def mset_subReap length_subReap)

lemma subAdd_ok:
  "subs_ok subs \<Longrightarrow> (direct \<Longrightarrow> task = 0) \<Longrightarrow> subs_ok (subAdd task cb scope direct subs)"
  using subReap_ok [of subs] set_subReap [of subs] by (auto simp: subAdd_def Let_def subs_ok_def)

lemma subRemove_ok: "subs_ok subs \<Longrightarrow> subs_ok (subRemove task cb scope subs)"
proof -
  assume ok: "subs_ok subs"
  let ?l = "filter (\<lambda>s. \<not> sub_dead s)"
  have "mset (?l (subRemove task cb scope subs)) = mset (filter (\<lambda>s. \<not> subMatch task cb scope s) (?l subs))"
    by (simp add: mset_subRemove filter_filter_mset conj_commute)
  then have "distinct (?l (subRemove task cb scope subs))"
    using ok distinct_mset by (metis distinct_filter subs_ok_def)
  moreover have "set (subRemove task cb scope subs) \<subseteq> set subs"
    using arg_cong [OF mset_subRemove [of task cb scope subs], of set_mset] by auto
  ultimately show ?thesis using ok length_subRemove_le [of task cb scope subs] by (auto simp: subs_ok_def)
qed

lemma storageOnTaskDeath_ok: "subs_ok subs \<Longrightarrow> dead \<noteq> 0 \<Longrightarrow> subs_ok (storageOnTaskDeath dead subs)"
proof -
  assume ok: "subs_ok subs" and d: "dead \<noteq> 0"
  have "\<forall>s \<in> set subs. sub_direct s \<longrightarrow> sub_task s = 0" using ok by (simp add: subs_ok_def)
  then have "filter (\<lambda>s. \<not> sub_dead s) (storageOnTaskDeath dead subs)
      = filter (\<lambda>s. sub_task s \<noteq> dead) (filter (\<lambda>s. \<not> sub_dead s) subs)"
    using d by (induction subs) (auto simp: storageOnTaskDeath_def sub_dead_def)
  moreover have "distinct (filter (\<lambda>s. \<not> sub_dead s) subs)" using ok by (simp add: subs_ok_def)
  ultimately have "distinct (filter (\<lambda>s. \<not> sub_dead s) (storageOnTaskDeath dead subs))" using distinct_filter by metis
  then show ?thesis using ok by (auto simp: subs_ok_def storageOnTaskDeath_def)
qed

subsection \<open>A message says what was sent\<close>

lemma bytes_of_no_nul: "(CHR 0x00) \<notin> set s \<Longrightarrow> 0 \<notin> set (bytes_of s)"
proof
  assume n: "CHR 0x00 \<notin> set s" and z: "0 \<in> set (bytes_of s)"
  then obtain c where c: "c \<in> set s" "(of_char c :: byte) = 0" by (auto simp: bytes_of_def)
  then have "str_of (bytes_of [c]) = str_of [0]" by simp
  then have "c = CHR 0x00" unfolding str_of_bytes_of by (simp add: str_of_def char_of_def)
  with n c(1) show False by simp
qed

lemma dispatch_changedMsg:
  assumes "cb \<noteq> 0" "CHR 0x00 \<notin> set key" "CHR 0x00 \<notin> set val"
  shows "storageChangeDispatch (changedMsg cb key val) = Some (Some (cb, key, take STORAGE_NOTIFY_VAL_MAX val))"
proof -
  let ?v = "take STORAGE_NOTIFY_VAL_MAX val"
  have k: "0 \<notin> set (bytes_of key)" using assms(2) by (rule bytes_of_no_nul)
  have v: "0 \<notin> set (bytes_of ?v)" using assms(3) by (intro bytes_of_no_nul) (auto dest: in_set_takeD)
  have "drop 4 (changedMsg cb key val) = bytes_of key @ 0 # bytes_of ?v @ [0]" by (simp add: changedMsg_def)
  moreover have "cstr_field (bytes_of key @ 0 # bytes_of ?v @ [0]) = bytes_of key"
    by (rule cstr_field_append_nul [OF k])
  moreover have "cstr_field (bytes_of ?v @ [0]) = bytes_of ?v"
    using cstr_field_append_nul [OF v, of "[]"] by simp
  ultimately show ?thesis using assms(1)
    by (simp add: storageChangeDispatch_def Let_def changedMsg_def)
qed

subsection \<open>The queue keeps the newest jobs in order\<close>

definition lastn :: "nat \<Rightarrow> 'a list \<Rightarrow> 'a list" where
  "lastn n xs = drop (length xs - n) xs"

lemma foldl_enqueue:
  assumes "nq_worker q" "length (nq_jobs q) \<le> STORAGE_NOTIFY_QUEUE_MAX"
  shows "nq_jobs (foldl (\<lambda>q j. notifyEnqueue j q) q js) = lastn STORAGE_NOTIFY_QUEUE_MAX (nq_jobs q @ js)
    \<and> nq_sent (foldl (\<lambda>q j. notifyEnqueue j q) q js) = nq_sent q
    \<and> nq_dropped (foldl (\<lambda>q j. notifyEnqueue j q) q js)
        = nq_dropped q + of_nat (length (nq_jobs q @ js) - STORAGE_NOTIFY_QUEUE_MAX)"
  using assms
proof (induction js arbitrary: q)
  case (Cons j js)
  let ?q = "notifyEnqueue j q"
  note M = STORAGE_NOTIFY_QUEUE_MAX_def
  show ?case
  proof (cases "length (nq_jobs q) \<ge> STORAGE_NOTIFY_QUEUE_MAX")
    case True
    then have l: "length (nq_jobs q) = STORAGE_NOTIFY_QUEUE_MAX" using Cons(3) by simp
    then obtain x xs where x: "nq_jobs q = x # xs" by (cases "nq_jobs q") (auto simp: M)
    have q: "nq_worker ?q" "nq_jobs ?q = xs @ [j]" "nq_sent ?q = nq_sent q" "nq_dropped ?q = nq_dropped q + 1"
      using True Cons(2) x by (auto simp: notifyEnqueue_def)
    then show ?thesis using Cons(1) [OF q(1)] l x by (simp add: lastn_def Suc_diff_le ac_simps)
  next
    case False
    have q: "nq_worker ?q" "nq_jobs ?q = nq_jobs q @ [j]" "nq_sent ?q = nq_sent q" "nq_dropped ?q = nq_dropped q"
      using False Cons(2) by (auto simp: notifyEnqueue_def)
    then show ?thesis using Cons(1) [OF q(1)] False by simp
  qed
qed (auto simp: lastn_def)

lemma notifyDrain_all: "nq_jobs (notifyDrain q) = [] \<and> nq_sent (notifyDrain q) = nq_sent q @ nq_jobs q"
proof (induction q rule: notifyDrain.induct)
  case (1 q)
  show ?case
  proof (cases "nq_jobs q")
    case (Cons j js)
    then show ?thesis using 1 [OF Cons] by (subst (1 2) notifyDrain.simps) (simp add: notifySend_def)
  qed (simp add: notifyDrain.simps)
qed

subsection \<open>The slow table holds the worst batches\<close>

lemma argmin_scan:
  fixes f :: "nat \<Rightarrow> 'a::linorder"
  defines "r js s \<equiv> foldl (\<lambda>s i. if f i < f s then i else s) s js"
  shows "r js s \<in> insert s (set js) \<and> (\<forall>j \<in> insert s (set js). f (r js s) \<le> f j)"
proof (induction js arbitrary: s)
  case (Cons i js)
  let ?s = "if f i < f s then i else s"
  have "f ?s \<le> f s" "f ?s \<le> f i" by auto
  then show ?case using Cons [of ?s] by (auto simp: r_def intro: order_trans split: if_splits)
qed (simp add: r_def)

lemma slowSlot_min:
  assumes "length t = SLOW_OP_SLOTS"
  shows "slowSlot t < length t \<and> (\<forall>r \<in> set t. so_us (t ! slowSlot t) \<le> so_us r)"
proof -
  have s: "insert 0 (set [1..<SLOW_OP_SLOTS]) = {..<length t}" using assms by (auto simp: SLOW_OP_SLOTS_def)
  show ?thesis
    using argmin_scan [where s = 0 and js = "[1..<SLOW_OP_SLOTS]" and f = "\<lambda>i. so_us (t ! i)"] unfolding s slowSlot_def
    by (auto simp: in_set_conv_nth)
qed

lemma insort_split_low:
  assumes "sorted (a @ b)" "b \<noteq> []" "u \<le> hd b"
  shows "\<exists>a'. insort u (a @ b) = a' @ b \<and> length a' = Suc (length a)"
  using assms
proof (induction a)
  case Nil
  then show ?case by (cases b) (auto intro: exI [of _ "[u]"])
next
  case (Cons x a)
  show ?case
  proof (cases "u \<le> x")
    case True
    then show ?thesis by (intro exI [of _ "u # x # a"]) simp
  next
    case False
    then show ?thesis using Cons by fastforce
  qed
qed

lemma insort_split_high:
  assumes "sorted (a @ b)" "b \<noteq> []" "hd b < u"
  shows "insort u (a @ b) = a @ insort u b"
  using assms
proof (induction a)
  case (Cons x a)
  have "x < u" using Cons(2-4) by (cases b) auto
  then show ?case using Cons by auto
qed simp

lemma mset_top_insert:
  fixes xs :: "'a::linorder list"
  assumes "0 < n" "n \<le> length xs" "mset t = mset (lastn n (sort xs))"
    "m \<in> set t" "\<forall>x \<in> set t. m \<le> x"
  shows "mset (lastn n (sort (xs @ [u]))) = (if u \<le> m then mset t else add_mset u (mset t - {#m#}))"
proof -
  define a where "a = take (length xs - n) (sort xs)"
  define b where "b = lastn n (sort xs)"
  have ab: "sort xs = a @ b" by (simp add: a_def b_def lastn_def)
  have lb: "length b = n" "b \<noteq> []" using assms(1,2) by (auto simp: b_def lastn_def)
  have so: "sorted (a @ b)" by (simp flip: ab)
  have st: "set t = set b" using arg_cong [OF assms(3), of set_mset] by (simp add: b_def)
  have m: "m = hd b"
  proof -
    have "hd b \<le> m" using so assms(4) lb st by (cases b) (auto simp: sorted_append)
    moreover have "m \<le> hd b" using assms(5) lb st by simp
    ultimately show ?thesis by simp
  qed
  have s: "sort (xs @ [u]) = insort u (a @ b)"
  proof -
    have "sorted (insort u (sort xs))" "mset (insort u (sort xs)) = mset (xs @ [u])" by (simp_all add: sorted_insort)
    then show ?thesis using ab properties_for_sort by metis
  qed
  show ?thesis
  proof (cases "u \<le> m")
    case True
    then obtain a' where "insort u (a @ b) = a' @ b" using insort_split_low [OF so lb(2), of u] m by auto
    then show ?thesis using True s lb assms(3) by (simp add: lastn_def b_def)
  next
    case False
    then have "insort u (a @ b) = a @ insort u b" using insort_split_high [OF so lb(2), of u] m by auto
    moreover have "insort u b = hd b # insort u (tl b)" using False m lb by (cases b) auto
    ultimately have "lastn n (sort (xs @ [u])) = insort u (tl b)" using s lb assms(1) by (cases n) (auto simp: lastn_def)
    moreover have "mset (tl b) = mset b - {#m#}" using m lb by (cases b) auto
    ultimately show ?thesis using False assms(3) by (simp add: b_def)
  qed
qed

lemma slowOps_top:
  "mset (map so_us (fold (\<lambda>(k, us, n). slowOpRecord k us n) hist []))
     = mset (lastn SLOW_OP_SLOTS (sort (map (\<lambda>(k, us, n). us) hist)))"
proof (induction hist rule: rev_induct)
  case (snoc x hist)
  obtain k us n where x: "x = (k, us, n)" by (cases x) auto
  define t where "t = fold (\<lambda>(k, us, n). slowOpRecord k us n) hist []"
  define h where "h = map (\<lambda>(k, us, n). us) hist"
  have ih: "mset (map so_us t) = mset (lastn SLOW_OP_SLOTS (sort h))" using snoc by (simp add: t_def h_def)
  have l: "length t = min SLOW_OP_SLOTS (length h)"
    using arg_cong [OF ih, of size] by (simp add: lastn_def)
  have "mset (map so_us (slowOpRecord k us n t)) = mset (lastn SLOW_OP_SLOTS (sort (h @ [us])))"
  proof (cases "length t \<ge> SLOW_OP_SLOTS")
    case True
    have lt: "length t = SLOW_OP_SLOTS" "SLOW_OP_SLOTS \<le> length h" using True l by auto
    note min = slowSlot_min [OF lt(1)]
    have mt: "so_us (t ! slowSlot t) \<in> set (map so_us t)" "\<forall>u \<in> set (map so_us t). so_us (t ! slowSlot t) \<le> u"
      using min by auto
    have z: "0 < SLOW_OP_SLOTS" by (simp add: SLOW_OP_SLOTS_def)
    have "mset (map so_us (t[slowSlot t := r])) = add_mset (so_us r) (mset (map so_us t) - {#so_us (t ! slowSlot t)#})" for r
      using min by (simp add: map_update mset_update del: mset_map)
    then show ?thesis using mset_top_insert [OF z lt(2) ih mt, of us] True
      by (simp add: slowOpRecord_def Let_def del: mset_map)
  next
    case False
    then have "length h < SLOW_OP_SLOTS" using l by simp
    then show ?thesis using ih False by (simp add: slowOpRecord_def lastn_def Let_def)
  qed
  then show ?case by (simp add: x t_def h_def)
qed (simp add: lastn_def)

end
