(* ===== verification/Sdb_Route.thy ===== *)
theory Sdb_Route
  imports Sdb_Migrate Sdb_Limits "HOL-Library.Char_ord" "HOL-Library.List_Lexorder"
begin

section \<open>Routing keys to record stores (storage.cpp)\<close>

text \<open>
  A registered store claims a dot-path pattern with \<open>$\<close> wildcards. The registry, the match of
  a key against it, the instances of a store and the operations the storage actor and the
  readers perform on a matched key, over the record store of storage_db.cpp. \<open>None\<close> is, as
  there, an access outside a block or a walk that does not end. Keys are C strings; the record
  store has them as bytes. The lock under which all of this runs is the caller's; directories
  are not modelled, so \<open>mkdirpParent\<close> has no effect here.
\<close>

record sdb_reg =
  rg_name :: string
  rg_pat :: "string list"
  rg_lit :: string
  rg_filePat :: string
  rg_schema :: sdb_schema
  rg_persist :: bool
  rg_drop :: bool
  rg_cap :: nat
  rg_mirror :: bool
  rg_insts :: "(string \<times> sdb_store) list"

text \<open>What the code asks of its surroundings: the codec, the legacy layouts, the heap, the
  prefix of the state directory and its listings.\<close>

record sdb_world =
  w_gz :: gz_lib
  w_legacy :: "sdb_legacy list"
  w_heap :: sdb_heap
  w_statePath :: "string \<Rightarrow> string"
  w_readdir :: "string \<Rightarrow> string list option"

record sdb_db =
  db_regs :: "sdb_reg list"
  db_deletes :: "bytes list"
  db_fs :: sdb_fs

subsection \<open>Keys and patterns\<close>

function splitLoop :: "string \<Rightarrow> string list" where
  "splitLoop p =
     (if p = [] then []
      else if CHR ''.'' \<notin> set p then [p]
      else before CHR ''.'' p # splitLoop (after CHR ''.'' p))"
  by pat_completeness auto
termination by (relation "measure length") auto

declare splitLoop.simps [simp del]

definition splitDots :: "string \<Rightarrow> string list" where
  "splitDots key = splitLoop key @ (if key \<noteq> [] \<and> last key = CHR ''.'' then [[]] else [])"

fun sdbSubst :: "string \<Rightarrow> string list \<Rightarrow> string" where
  "sdbSubst (c # d # r) binds =
     (if c = CHR ''$'' \<and> 49 \<le> (of_char d :: nat) \<and> (of_char d :: nat) \<le> 57
      then (let i = of_char d - 49 in (if i < length binds then binds ! i else [])) @ sdbSubst r binds
      else c # sdbSubst (d # r) binds)"
| "sdbSubst s binds = s"

fun joinBinds :: "string list \<Rightarrow> string" where
  "joinBinds [] = []"
| "joinBinds [b] = b"
| "joinBinds (b # bs) = b @ CHR 0x1F # joinBinds bs"

text \<open>\<open>storageStructuredDB\<close>: the literal prefix of a pattern, and the registration.\<close>

definition litOf :: "string list \<Rightarrow> string" where
  "litOf pat =
     (let l = foldl (\<lambda>acc seg. (if acc \<noteq> [] then acc @ ''.'' else acc) @ seg) [] (takeWhile (\<lambda>s. s \<noteq> ''$'') pat)
      in if l \<noteq> [] then l @ ''.'' else l)"

record storage_db_opts =
  o_persist :: "string option"
  o_drop :: bool
  o_cap :: nat
  o_mirror :: bool

definition storageStructuredDB :: "string \<Rightarrow> string \<Rightarrow> sdb_schema \<Rightarrow> storage_db_opts \<Rightarrow> sdb_reg list \<Rightarrow> sdb_reg list" where
  "storageStructuredDB name keyPattern schema opts regs =
     (if name \<in> rg_name ` set regs then regs
      else regs @ [\<lparr>rg_name = name, rg_pat = splitDots keyPattern, rg_lit = litOf (splitDots keyPattern),
                    rg_filePat = (case o_persist opts of None \<Rightarrow> [] | Some p \<Rightarrow> p), rg_schema = schema,
                    rg_persist = (o_persist opts \<noteq> None), rg_drop = o_drop opts, rg_cap = o_cap opts,
                    rg_mirror = o_mirror opts, rg_insts = []\<rparr>])"

subsection \<open>The match\<close>

fun matchPat :: "string list \<Rightarrow> string list \<Rightarrow> string list option" where
  "matchPat [] segs = Some []"
| "matchPat (p # ps) [] = None"
| "matchPat (p # ps) (s # ss) =
     (if p = ''$'' then map_option ((#) s) (matchPat ps ss)
      else if p \<noteq> s then None else matchPat ps ss)"

text \<open>The match of a key: the position of the store, the bound wildcards, the segments after.\<close>

type_synonym sdb_match = "nat \<times> string list \<times> string list"

fun routeFrom :: "nat \<Rightarrow> sdb_reg list \<Rightarrow> string list \<Rightarrow> sdb_match option" where
  "routeFrom i [] segs = None"
| "routeFrom i (r # rs) segs =
     (if length segs < length (rg_pat r) then routeFrom (Suc i) rs segs
      else case matchPat (rg_pat r) segs of
             None \<Rightarrow> routeFrom (Suc i) rs segs
           | Some binds \<Rightarrow> Some (i, binds, drop (length (rg_pat r)) segs))"

definition sdbCand :: "string \<Rightarrow> sdb_reg \<Rightarrow> bool" where
  "sdbCand key r \<longleftrightarrow> rg_lit r = []
     \<or> (let n = min (length key) (length (rg_lit r)) in take n key = take n (rg_lit r))"

definition sdbRoute :: "sdb_reg list \<Rightarrow> string \<Rightarrow> sdb_match option" where
  "sdbRoute regs key =
     (if regs = [] then None
      else if \<not> list_ex (sdbCand key) regs then None
      else routeFrom 0 regs (splitDots key))"

definition sdbRoutes :: "sdb_reg list \<Rightarrow> string \<Rightarrow> bool" where
  "sdbRoutes regs key \<longleftrightarrow> sdbRoute regs key \<noteq> None"

subsection \<open>Instances\<close>

definition newInstance :: "sdb_world \<Rightarrow> sdb_reg \<Rightarrow> string list \<Rightarrow> sdb_store" where
  "newInstance w r binds =
     (fresh_store (rg_schema r)
        (if rg_persist r then bytes_of (w_statePath w (''/'' @ sdbSubst (rg_filePat r) binds)) else []))
     \<lparr>cap_records := (if rg_drop r then rg_cap r else 0)\<rparr>"

definition sdbInstance :: "sdb_world \<Rightarrow> string list \<Rightarrow> sdb_reg \<Rightarrow> sdb_store \<times> sdb_reg" where
  "sdbInstance w binds r =
     (case map_of (rg_insts r) (joinBinds binds) of
        Some st \<Rightarrow> (st, r)
      | None \<Rightarrow> (let st = newInstance w r binds in (st, r\<lparr>rg_insts := rg_insts r @ [(joinBinds binds, st)]\<rparr>)))"

text \<open>A write through the instance's pointer.\<close>

definition putInstance :: "string list \<Rightarrow> sdb_store \<Rightarrow> sdb_reg \<Rightarrow> sdb_reg" where
  "putInstance binds st r = r\<lparr>rg_insts := AList.update (joinBinds binds) st (rg_insts r)\<rparr>"

definition putReg :: "nat \<Rightarrow> sdb_reg \<Rightarrow> sdb_db \<Rightarrow> sdb_db" where
  "putReg i r db = db\<lparr>db_regs := (db_regs db)[i := r]\<rparr>"

definition loadInstance :: "sdb_world \<Rightarrow> sdb_fs \<Rightarrow> string list \<Rightarrow> sdb_reg \<Rightarrow> (sdb_store \<times> sdb_reg) option" where
  "loadInstance w fs binds r =
     (let (st, r1) = sdbInstance w binds r
      in if s_loaded st then Some (st, r1)
         else do { (_, st1) \<leftarrow> sdbLoad (w_gz w) (w_legacy w) (w_heap w) fs st;
                   Some (st1, putInstance binds st1 r1) })"

definition sdbResolveLoaded :: "sdb_world \<Rightarrow> sdb_db \<Rightarrow> nat \<Rightarrow> string list \<Rightarrow> (sdb_store \<times> sdb_db) option" where
  "sdbResolveLoaded w db i binds =
     do { (st, r) \<leftarrow> loadInstance w (db_fs db) binds (db_regs db ! i); Some (st, putReg i r db) }"

subsection \<open>Reads\<close>

definition hasField :: "sdb_reg \<Rightarrow> string \<Rightarrow> bool" where
  "hasField r f \<longleftrightarrow> sdb_find (rg_schema r) (bytes_of f) \<noteq> None"

definition sdbGetLocked :: "sdb_world \<Rightarrow> sdb_db \<Rightarrow> string \<Rightarrow> (string option \<times> sdb_db) option" where
  "sdbGetLocked w db key =
     (case sdbRoute (db_regs db) key of
        Some (i, binds, [rec, fld]) \<Rightarrow>
          (if \<not> hasField (db_regs db ! i) fld then Some (None, db)
           else do {
             (st, db1) \<leftarrow> sdbResolveLoaded w db i binds;
             v \<leftarrow> sdbGetField st (bytes_of rec) (bytes_of fld);
             Some (map_option str_of v, db1) })
      | _ \<Rightarrow> Some (None, db))"

text \<open>The existence of a routed key: \<open>None\<close> in the first place is a key that is not routed.\<close>

definition sdbExistsLocked :: "sdb_world \<Rightarrow> sdb_db \<Rightarrow> string \<Rightarrow> (bool option \<times> sdb_db) option" where
  "sdbExistsLocked w db key =
     (case sdbRoute (db_regs db) key of
        None \<Rightarrow> Some (None, db)
      | Some (i, binds, tail) \<Rightarrow>
          do {
            (st, db1) \<leftarrow> sdbResolveLoaded w db i binds;
            (case tail of
               [rec, fld] \<Rightarrow>
                 (if \<not> hasField (db_regs db ! i) fld then Some (Some False, db1)
                  else do { v \<leftarrow> sdbGetField st (bytes_of rec) (bytes_of fld); Some (Some (v \<noteq> None), db1) })
             | [rec] \<Rightarrow> Some (Some (sdbHasRecord st (bytes_of rec)), db1)
             | _ \<Rightarrow> Some (Some False, db1)) })"

definition joinDots :: "string list \<Rightarrow> string" where
  "joinDots ss = concat (map (\<lambda>s. s @ ''.'') (butlast ss)) @ (if ss = [] then [] else last ss)"

definition sdbForEachInstance :: "sdb_store \<Rightarrow> string \<Rightarrow> (string \<times> string) list option" where
  "sdbForEachInstance st fullPrefix =
     map_option (map (\<lambda>(rec, fld, val). (fullPrefix @ ''.'' @ str_of rec @ ''.'' @ str_of fld, str_of val)))
       (sdbForEach st)"

text \<open>The values of the unbound last wildcard: of the resident instances and of the files.\<close>

definition residentStems :: "sdb_reg \<Rightarrow> string list \<Rightarrow> string list" where
  "residentStems r binds =
     concat (map (\<lambda>(k, _).
       (let ib = split_on (CHR 0x1F) k
        in if length ib = length binds + 1 \<and> take (length binds) ib = binds then [last ib] else []))
       (rg_insts r))"

definition dirOf :: "string \<Rightarrow> string" where
  "dirOf path = (if CHR ''/'' \<in> set path then take (length path - 1 - length (takeWhile (\<lambda>c. c \<noteq> CHR ''/'') (rev path))) path else path)"

definition diskStems :: "sdb_world \<Rightarrow> sdb_reg \<Rightarrow> string list \<Rightarrow> string list" where
  "diskStems w r binds =
     (if \<not> rg_persist r then []
      else case w_readdir w (dirOf (w_statePath w (''/'' @ sdbSubst (rg_filePat r) binds))) of
             None \<Rightarrow> []
           | Some names \<Rightarrow>
               map (\<lambda>n. take (length n - 6) n)
                 (filter (\<lambda>n. length n > 6 \<and> drop (length n - 6) n = ''.db.gz'') names))"

fun forEachStem :: "sdb_world \<Rightarrow> sdb_fs \<Rightarrow> string \<Rightarrow> string list \<Rightarrow> string list \<Rightarrow> sdb_reg
    \<Rightarrow> ((string \<times> string) list \<times> sdb_reg) option" where
  "forEachStem w fs prefix binds [] r = Some ([], r)"
| "forEachStem w fs prefix binds (stem # stems) r =
     do {
       (st, r1) \<leftarrow> loadInstance w fs (binds @ [stem]) r;
       out \<leftarrow> sdbForEachInstance st (prefix @ ''.'' @ stem);
       (out2, r2) \<leftarrow> forEachStem w fs prefix binds stems r1;
       Some (out @ out2, r2) }"

function forEachFrom :: "sdb_world \<Rightarrow> nat \<Rightarrow> string \<Rightarrow> sdb_db \<Rightarrow> ((string \<times> string) list option \<times> sdb_db) option" where
  "forEachFrom w i prefix db =
     (if i \<ge> length (db_regs db) then Some (None, db)
      else let r = db_regs db ! i; pre = splitDots prefix; pl = length (rg_pat r)
      in if length pre \<ge> pl
         then (case sdbRoute (db_regs db) prefix of
                 Some (j, binds, tail) \<Rightarrow>
                   (if j \<noteq> i then forEachFrom w (Suc i) prefix db
                    else do {
                      (st, db1) \<leftarrow> sdbResolveLoaded w db i binds;
                      out \<leftarrow> sdbForEachInstance st (joinDots (take pl pre));
                      Some (Some out, db1) })
               | None \<Rightarrow> forEachFrom w (Suc i) prefix db)
         else (case matchPat (take (length pre) (rg_pat r)) pre of
                 None \<Rightarrow> forEachFrom w (Suc i) prefix db
               | Some binds \<Rightarrow>
                   (if length pre \<noteq> pl - 1 \<or> rg_pat r ! (pl - 1) \<noteq> ''$'' then forEachFrom w (Suc i) prefix db
                    else do {
                      (out, r1) \<leftarrow> forEachStem w (db_fs db) prefix binds
                                    (sort (remdups (residentStems r binds @ diskStems w r binds))) r;
                      Some (Some out, putReg i r1 db) })))"
  by pat_completeness auto
termination by (relation "measure (\<lambda>(_, i, _, db). length (db_regs db) - i)") auto

declare forEachFrom.simps [simp del]

definition sdbForEachUnderLocked :: "sdb_world \<Rightarrow> string \<Rightarrow> sdb_db \<Rightarrow> ((string \<times> string) list option \<times> sdb_db) option" where
  "sdbForEachUnderLocked w prefix db = forEachFrom w 0 prefix db"

subsection \<open>Writes\<close>

type_synonym changes = "(string \<times> string) list"

text \<open>
  One routed operation of the actor: whether the key was routed, the registry afterwards, the
  changes to report, and whether a file has to be written. \<open>op\<close> is the opcode, \<open>S\<close>, \<open>d\<close> or \<open>D\<close>.
\<close>

definition applyField :: "sdb_world \<Rightarrow> char \<Rightarrow> string \<Rightarrow> string \<Rightarrow> bool \<Rightarrow> nat \<Rightarrow> string list \<Rightarrow> string \<Rightarrow> string
    \<Rightarrow> sdb_db \<times> changes \<times> bool \<Rightarrow> (sdb_db \<times> changes \<times> bool) option" where
  "applyField w op key vs silent i binds rec fld z =
     (let (db, ch, rd) = z; reg = db_regs db ! i
      in if \<not> hasField reg fld then Some z
         else do {
           (st, db1) \<leftarrow> sdbResolveLoaded w db i binds;
           (if op = CHR ''D'' then Some (db1, ch, rd)
            else do {
              cur \<leftarrow> sdbGetField st (bytes_of rec) (bytes_of fld);
              (if op = CHR ''d'' \<and> (\<exists>c. cur = Some c \<and> c \<noteq> []) then Some (db1, ch, rd)
               else if cur = Some (bytes_of vs) then Some (db1, ch, rd)
               else do {
                 st1 \<leftarrow> sdbSetField (w_heap w) st (bytes_of rec) (bytes_of fld) (bytes_of vs);
                 Some (putReg i (putInstance binds st1 (db_regs db1 ! i)) db1,
                       if silent then ch else ch @ [(key, vs)], rd \<or> rg_persist reg) }) }) })"

definition applyRecord :: "sdb_world \<Rightarrow> char \<Rightarrow> string \<Rightarrow> bool \<Rightarrow> nat \<Rightarrow> string list \<Rightarrow> string
    \<Rightarrow> sdb_db \<times> changes \<times> bool \<Rightarrow> (sdb_db \<times> changes \<times> bool) option" where
  "applyRecord w op key silent i binds rec z =
     (let (db, ch, rd) = z; reg = db_regs db ! i
      in do {
        (st, db1) \<leftarrow> sdbResolveLoaded w db i binds;
        (if op \<noteq> CHR ''D'' then Some (db1, ch, rd)
         else do {
           st1 \<leftarrow> sdbDeleteRecord st (bytes_of rec);
           Some (putReg i (putInstance binds st1 (db_regs db1 ! i)) db1,
                 if silent then ch else ch @ [(key, [])], rd \<or> rg_persist reg) }) })"

definition applyInstance :: "sdb_world \<Rightarrow> char \<Rightarrow> string \<Rightarrow> bool \<Rightarrow> nat \<Rightarrow> string list
    \<Rightarrow> sdb_db \<times> changes \<times> bool \<Rightarrow> sdb_db \<times> changes \<times> bool" where
  "applyInstance w op key silent i binds z =
     (let (db, ch, rd) = z
      in if op \<noteq> CHR ''D'' then z
         else let (st, r) = sdbInstance w binds (db_regs db ! i)
         in ((putReg i (r\<lparr>rg_insts := AList.delete (joinBinds binds) (rg_insts r)\<rparr>) db)
               \<lparr>db_deletes := db_deletes db @ (if s_path st = [] then [] else [s_path st])\<rparr>,
             if silent then ch else ch @ [(key, [])], rd \<or> rg_persist r))"

definition sdbApplyOpLocked :: "sdb_world \<Rightarrow> char \<Rightarrow> string \<Rightarrow> string \<Rightarrow> bool \<Rightarrow> sdb_db \<times> changes \<times> bool
    \<Rightarrow> (bool \<times> sdb_db \<times> changes \<times> bool) option" where
  "sdbApplyOpLocked w op key vs silent z =
     (case sdbRoute (db_regs (fst z)) key of
        None \<Rightarrow> Some (False, z)
      | Some (i, binds, tail) \<Rightarrow>
          (case tail of
             [rec, fld] \<Rightarrow> map_option (Pair True) (applyField w op key vs silent i binds rec fld z)
           | [rec] \<Rightarrow> map_option (Pair True) (applyRecord w op key silent i binds rec z)
           | _ \<Rightarrow> Some (True, applyInstance w op key silent i binds z)))"

text \<open>\<open>storageDbFlushDirty\<close>: snapshot the dirty instances, then remove and write files.\<close>

definition mustFlush :: "sdb_reg \<Rightarrow> sdb_store \<Rightarrow> bool" where
  "mustFlush r st \<longleftrightarrow> rg_persist r \<and> s_loaded st \<and> s_dirty st \<and> s_path st \<noteq> []"

fun snapInsts :: "sdb_heap \<Rightarrow> sdb_reg \<Rightarrow> (string \<times> sdb_store) list
    \<Rightarrow> ((string \<times> sdb_store) list \<times> (bytes \<times> bytes) list) option" where
  "snapInsts h r [] = Some ([], [])"
| "snapInsts h r ((k, st) # insts) =
     do {
       (st1, jobs) \<leftarrow> (if mustFlush r st
                       then do { (raw, st1) \<leftarrow> sdbSnapshotRaw h st;
                                 Some (st1\<lparr>s_dirty := False\<rparr>, case raw of None \<Rightarrow> [] | Some b \<Rightarrow> [(s_path st, b)]) }
                       else Some (st, []));
       (insts1, jobs1) \<leftarrow> snapInsts h r insts;
       Some ((k, st1) # insts1, jobs @ jobs1) }"

fun snapRegs :: "sdb_heap \<Rightarrow> sdb_reg list \<Rightarrow> (sdb_reg list \<times> (bytes \<times> bytes) list) option" where
  "snapRegs h [] = Some ([], [])"
| "snapRegs h (r # rs) =
     do {
       (insts, jobs) \<leftarrow> snapInsts h r (rg_insts r);
       (rs1, jobs1) \<leftarrow> snapRegs h rs;
       Some (r\<lparr>rg_insts := insts\<rparr> # rs1, jobs @ jobs1) }"

text \<open>One file: \<open>atomicWriteFile\<close> writes its own temporary and renames it; then the rename onto
  the path.\<close>

definition flushJob :: "sdb_world \<Rightarrow> sdb_fs \<Rightarrow> bytes \<times> bytes \<Rightarrow> sdb_fs" where
  "flushJob w fs job =
     (case sdbGzDeflate (w_gz w) (w_heap w) (snd job) of
        None \<Rightarrow> fs
      | Some gz \<Rightarrow>
          (let tmp = fst job @ bytes_of ''.new''; (ok, fs1) = writeNew fs tmp gz
           in if \<not> ok \<or> \<not> fs_rename_ok fs1 then fs1
              else case map_of (fs_files fs1) tmp of
                     None \<Rightarrow> fs1
                   | Some c \<Rightarrow> fs1\<lparr>fs_files := AList.update (fst job) c (AList.delete tmp (fs_files fs1))\<rparr>))"

definition storageDbFlushDirty :: "sdb_world \<Rightarrow> sdb_db \<Rightarrow> sdb_db option" where
  "storageDbFlushDirty w db =
     do {
       (regs, jobs) \<leftarrow> snapRegs (w_heap w) (db_regs db);
       let fs1 = (db_fs db)\<lparr>fs_files := fold AList.delete (db_deletes db) (fs_files (db_fs db))\<rparr>;
       Some \<lparr>db_regs = regs, db_deletes = [], db_fs = foldl (flushJob w) fs1 jobs\<rparr> }"

definition storageDbAnyDirty :: "sdb_db \<Rightarrow> bool" where
  "storageDbAnyDirty db \<longleftrightarrow> db_deletes db \<noteq> []
     \<or> list_ex (\<lambda>r. rg_persist r \<and> list_ex (\<lambda>(k, st). s_dirty st) (rg_insts r)) (db_regs db)"

subsection \<open>The quick reject never loses a key\<close>

lemma last_after: "c \<in> set p \<Longrightarrow> after c p \<noteq> [] \<Longrightarrow> last (after c p) = last p"
proof -
  assume "c \<in> set p" and n: "after c p \<noteq> []"
  then obtain a b where "p = a @ c # b" "c \<notin> set a" by (meson split_list_first)
  then show ?thesis using n by simp
qed

lemma after_Nil_last: "c \<in> set p \<Longrightarrow> after c p = [] \<Longrightarrow> last p = c"
proof -
  assume "c \<in> set p" and n: "after c p = []"
  then obtain a b where "p = a @ c # b" "c \<notin> set a" by (meson split_list_first)
  then show ?thesis using n by simp
qed

lemma splitDots_split: "splitDots key = (if key = [] then [] else split_on CHR ''.'' key)"
proof (induction key rule: splitLoop.induct)
  case (1 p)
  show ?case
  proof (cases "p \<noteq> [] \<and> CHR ''.'' \<in> set p")
    case True
    then have ih: "splitDots (after CHR ''.'' p) = (if after CHR ''.'' p = [] then [] else split_on CHR ''.'' (after CHR ''.'' p))"
      using 1 by blast
    have "splitLoop p = before CHR ''.'' p # splitLoop (after CHR ''.'' p)" using True by (subst splitLoop.simps) simp
    then show ?thesis using True ih split_on_cut [of "CHR ''.''" p] last_after [of "CHR ''.''" p] after_Nil_last [of "CHR ''.''" p]
      by (cases "after CHR ''.'' p = []") (auto simp: splitDots_def splitLoop.simps [of "[]"])
  next
    case False
    then show ?thesis by (cases "p = []") (auto simp: splitDots_def splitLoop.simps dest: last_in_set)
  qed
qed

lemma joinDots_Cons: "joinDots (s # ss) = (if ss = [] then s else s @ ''.'' @ joinDots ss)"
  by (auto simp: joinDots_def)

lemma joinDots_append:
  "joinDots (a @ b) = (if a = [] then joinDots b else if b = [] then joinDots a else joinDots a @ ''.'' @ joinDots b)"
proof (induction a)
  case (Cons s a)
  then show ?case by (cases a; cases b) (auto simp: joinDots_Cons)
qed simp

lemma joinDots_split_on: "joinDots (split_on CHR ''.'' p) = p"
proof (induction p)
  case (Cons x p)
  then show ?case by (cases "split_on CHR ''.'' p") (auto simp: joinDots_Cons split: if_splits)
qed (simp add: joinDots_def)

lemma joinDots_splitDots: "joinDots (splitDots key) = key"
  by (simp add: splitDots_split joinDots_split_on) (simp add: joinDots_def)

lemma foldl_join:
  "acc \<noteq> [] \<Longrightarrow> foldl (\<lambda>acc seg. (if acc \<noteq> [] then acc @ ''.'' else acc) @ seg) acc ss
     = acc @ concat (map (\<lambda>s. ''.'' @ s) ss)"
  by (induction ss arbitrary: acc) auto

lemma joinDots_concat: "joinDots (s # ss) = s @ concat (map (\<lambda>s. ''.'' @ s) ss)"
  by (induction ss arbitrary: s) (auto simp: joinDots_Cons)

text \<open>A pattern whose first segment is not empty.\<close>

definition reg_ok :: "sdb_reg \<Rightarrow> bool" where
  "reg_ok r \<longleftrightarrow> rg_lit r = litOf (rg_pat r) \<and> (rg_pat r = [] \<or> rg_pat r ! 0 \<noteq> [])"

lemma litOf_join:
  assumes "pat = [] \<or> pat ! 0 \<noteq> []"
  defines "ls \<equiv> takeWhile (\<lambda>s. s \<noteq> ''$'') pat"
  shows "litOf pat = (if ls = [] then [] else joinDots ls @ ''.'')"
proof (cases pat)
  case (Cons p ps)
  then have p: "p \<noteq> []" using assms(1) by simp
  show ?thesis
  proof (cases "p = ''$''")
    case False
    then show ?thesis using Cons p foldl_join [of p "takeWhile (\<lambda>s. s \<noteq> ''$'') ps"]
      by (simp add: litOf_def ls_def joinDots_concat Let_def)
  qed (use Cons in \<open>simp add: litOf_def ls_def\<close>)
qed (simp add: litOf_def ls_def)

lemma matchPat_lits:
  "matchPat pat segs = Some b \<Longrightarrow> \<exists>rest. segs = takeWhile (\<lambda>s. s \<noteq> ''$'') pat @ rest
     \<and> (length segs = length (takeWhile (\<lambda>s. s \<noteq> ''$'') pat) \<longrightarrow> rest = [])"
  by (induction pat segs arbitrary: b rule: matchPat.induct) (auto split: if_splits)

lemma match_cand:
  assumes "reg_ok r" "matchPat (rg_pat r) (splitDots key) = Some b"
  shows "sdbCand key r"
proof -
  define ls where "ls = takeWhile (\<lambda>s. s \<noteq> ''$'') (rg_pat r)"
  obtain rest where rest: "splitDots key = ls @ rest" using matchPat_lits [OF assms(2)] by (auto simp: ls_def)
  have lit: "rg_lit r = (if ls = [] then [] else joinDots ls @ ''.'')"
    using assms(1) litOf_join [of "rg_pat r"] by (simp add: reg_ok_def ls_def)
  have "key = joinDots (ls @ rest)" using rest joinDots_splitDots [of key] by simp
  then show ?thesis using lit by (auto simp: sdbCand_def joinDots_append Let_def)
qed

lemma routeFrom_match:
  "routeFrom i regs segs = Some (j, b, t) \<Longrightarrow> i \<le> j \<and> j - i < length regs
     \<and> matchPat (rg_pat (regs ! (j - i))) segs = Some b \<and> t = drop (length (rg_pat (regs ! (j - i)))) segs
     \<and> length (rg_pat (regs ! (j - i))) \<le> length segs"
proof (induction i regs segs rule: routeFrom.induct)
  case (2 i r rs segs)
  then show ?case
    by (cases "length segs < length (rg_pat r)"; cases "matchPat (rg_pat r) segs")
      (auto simp: nth_Cons' Suc_le_eq split: if_splits)
qed simp

lemma sdbRoute_reference:
  assumes "list_all reg_ok regs"
  shows "sdbRoute regs key = routeFrom 0 regs (splitDots key)"
proof (cases "routeFrom 0 regs (splitDots key)")
  case (Some m)
  obtain j b t where m: "m = (j, b, t)" by (cases m) auto
  have j: "j < length regs" "matchPat (rg_pat (regs ! j)) (splitDots key) = Some b"
    using routeFrom_match [of 0 regs "splitDots key" j b t] Some m by auto
  then have "sdbCand key (regs ! j)" using assms match_cand by (auto simp: list_all_length)
  then have "list_ex (sdbCand key) regs" using j(1) by (auto simp: list_ex_iff)
  then show ?thesis using Some j(1) by (auto simp: sdbRoute_def)
qed (auto simp: sdbRoute_def)

lemma storageStructuredDB_ok:
  assumes "list_all reg_ok regs" "keyPattern = [] \<or> keyPattern ! 0 \<noteq> CHR ''.''"
  shows "list_all reg_ok (storageStructuredDB name keyPattern schema opts regs)"
  using assms split_on_cut [of "CHR ''.''" keyPattern]
  by (cases keyPattern) (auto simp: storageStructuredDB_def reg_ok_def splitDots_split before_def)

end
