(* ===== verification/Storage_Ops.thy ===== *)
theory Storage_Ops
  imports Storage_Merge Storage_Subs Sdb_Route
begin

section \<open>The storage actor (storage.cpp)\<close>

text \<open>
  Every write is an operation of a list that the storage task applies as one batch: the
  encoding of the operations, the per-task brackets that collect them, the validating parse,
  and the apply pipeline over the configuration tree, the record stores, the subscriptions and
  the dirty marks of the files. A pointer has four bytes. Surroundings are arguments
  (\<open>storage_env\<close>): cJSON's name comparison, parser and printer, the record stores' world, the
  handle of the storage task (0 before it runs), the heap, and whether a message to that task
  is taken. \<open>None\<close> is a read outside the operation list, or one of the record store's.
\<close>

subsection \<open>Types of values\<close>

datatype cfg_type = CFG_STR | CFG_INT

text \<open>The accumulator is the negated value; \<open>(INT32_MIN + d) / 10\<close> truncates towards zero.\<close>

fun inferDigits :: "string \<Rightarrow> int \<Rightarrow> int option" where
  "inferDigits [] acc = Some acc"
| "inferDigits (c # cs) acc =
     (if \<not> c_isdigit c then None
      else let d = int (digit_val c)
      in if acc < - ((- (INT32_MIN + d)) div 10) then None else inferDigits cs (acc * 10 - d))"

definition inferType :: "string \<Rightarrow> cfg_type" where
  "inferType val =
     (if val = [] then CFG_STR
      else let neg = (hd val = CHR ''-''); p = (if neg then tl val else val)
      in if p = [] then CFG_STR
         else case inferDigits p 0 of
                None \<Rightarrow> CFG_STR
              | Some acc \<Rightarrow> if \<not> neg \<and> acc = INT32_MIN then CFG_STR else CFG_INT)"

subsection \<open>Encoding\<close>

definition le_int :: "int \<Rightarrow> bytes" where
  "le_int v = le32 (word_of_int v)"

definition chb :: "char \<Rightarrow> byte" where
  "chb c = of_char c"

definition opPutStr :: "string \<Rightarrow> bytes" where
  "opPutStr s = bytes_of s @ [0]"

definition opAppendKV :: "char \<Rightarrow> string \<Rightarrow> string \<Rightarrow> bytes" where
  "opAppendKV opcode key val =
     chb opcode # opPutStr key @
     (if inferType val = CFG_INT then chb CHR ''I'' # le_int (atoi val)
      else chb CHR ''S'' # le32 (of_nat (length val)) @ bytes_of val)"

definition opAppendKVInt :: "char \<Rightarrow> string \<Rightarrow> int \<Rightarrow> bytes" where
  "opAppendKVInt opcode key val = chb opcode # opPutStr key @ chb CHR ''I'' # le_int val"

definition opAppendKVJson :: "char \<Rightarrow> string \<Rightarrow> string \<Rightarrow> bytes" where
  "opAppendKVJson opcode key js =
     chb opcode # opPutStr key @ chb CHR ''J'' # le32 (of_nat (length js)) @ bytes_of js"

definition opAppendDelete :: "string \<Rightarrow> bytes" where
  "opAppendDelete key = chb CHR ''D'' # opPutStr key"

definition opPtr :: "char \<Rightarrow> string \<Rightarrow> ptr \<Rightarrow> bytes" where
  "opPtr opcode scope cb = chb opcode # opPutStr scope @ le32 cb"

definition opSave :: "ptr \<Rightarrow> bytes" where
  "opSave sem = chb CHR ''W'' # le32 sem"

subsection \<open>State and surroundings\<close>

record op_accum =
  ac_task :: ptr
  ac_ops :: bytes
  ac_depth :: int
  ac_silent :: bool
  ac_active :: bool

definition STORAGE_MAX_ACCUM :: nat where "STORAGE_MAX_ACCUM = 24"
definition OP_F_SILENT :: byte where "OP_F_SILENT = 1"

record provider =
  pv_prefix :: string
  pv_get :: "string \<Rightarrow> nat \<Rightarrow> string option"
  pv_exists :: "(string \<Rightarrow> bool) option"
  pv_forEach :: "(string \<Rightarrow> (string \<times> string) list) option"

record storage =
  cfgRoot :: json
  externals :: "external list"
  rootDirty :: bool
  savePending :: bool
  st_subs :: "storage_sub list"
  st_db :: sdb_db
  accums :: "op_accum list"
  notifyq :: notify_q
  delivered :: "delivery list"
  pendingSaveSems :: "ptr list"
  semGiven :: "ptr list"
  slowOps :: "slow_op list"
  providers :: "provider list"

record storage_env =
  env_eqn :: name_eq
  env_parse :: "string \<Rightarrow> json option"
  env_print :: "json \<Rightarrow> string option"
  env_world :: sdb_world
  env_self :: ptr
  env_alloc :: "nat \<Rightarrow> bool"
  env_send :: bool

subsection \<open>Pass 1: the parse\<close>

record parsed_op =
  po_op :: char
  po_key :: string
  po_val :: "json option"
  po_ptr :: ptr

text \<open>
  The value after a key: \<open>Inl ()\<close> is malformed, otherwise the value and the next position.
  \<open>pos + vl\<close> is a 32-bit sum.
\<close>

definition parseVal :: "storage_env \<Rightarrow> bytes \<Rightarrow> nat \<Rightarrow> (unit + json option \<times> nat) option" where
  "parseVal env p pos =
     (if pos \<ge> length p then Some (Inl ())
      else let vt = char_of (unat (p ! pos)); pos = pos + 1
      in if pos + 4 > length p \<or> vt \<notin> {CHR ''I'', CHR ''S'', CHR ''J''} then Some (Inl ())
         else if vt = CHR ''I''
         then Some (Inr (Some (JNum (sint (of_le32 (drop pos p)))), pos + 4))
         else let vl = unat (of_le32 (drop pos p)); pos = pos + 4
         in if sz_add pos vl > length p then Some (Inl ())
            else if pos + vl > length p then None
            else Some (Inr (if vt = CHR ''S'' then Some (JStr (str_of (cstr_field (slice pos vl p))))
                            else env_parse env (str_of (slice pos vl p)), pos + vl)))"

text \<open>One operation: malformed, a semaphore to give after a save, or a parsed operation.\<close>

datatype parsed = PBad | PSave ptr nat | POp parsed_op nat

definition parseOne :: "storage_env \<Rightarrow> bytes \<Rightarrow> nat \<Rightarrow> parsed option" where
  "parseOne env p pos =
     (let op = char_of (unat (p ! pos)); pos = pos + 1;
          key = cstr_field (drop pos p); nxt = pos + length key + 1
      in if op \<in> {CHR ''S'', CHR ''d'', CHR ''D''}
         then (if length key \<ge> length p - pos then Some PBad
               else if op = CHR ''D''
               then Some (POp \<lparr>po_op = op, po_key = str_of key, po_val = None, po_ptr = 0\<rparr> nxt)
               else case parseVal env p nxt of
                      None \<Rightarrow> None
                    | Some (Inl _) \<Rightarrow> Some PBad
                    | Some (Inr (v, q)) \<Rightarrow> Some (POp \<lparr>po_op = op, po_key = str_of key, po_val = v, po_ptr = 0\<rparr> q))
         else if op \<in> {CHR ''+'', CHR ''#'', CHR ''-''}
         then (if length key \<ge> length p - pos then Some PBad
               else if nxt + 4 > length p then Some PBad
               else Some (POp \<lparr>po_op = op, po_key = str_of key, po_val = None, po_ptr = of_le32 (drop nxt p)\<rparr> (nxt + 4)))
         else if op = CHR ''W''
         then (if pos + 4 > length p then Some PBad else Some (PSave (of_le32 (drop pos p)) (pos + 4)))
         else Some PBad)"

lemma parseVal_pos: "parseVal env p pos = Some (Inr (v, q)) \<Longrightarrow> pos < q \<and> pos < length p"
  by (auto simp: parseVal_def Let_def split: if_splits)

lemma parseOne_pos:
  "parseOne env p pos = Some (POp o' q) \<Longrightarrow> pos < q" "parseOne env p pos = Some (PSave s q) \<Longrightarrow> pos < q"
  by (auto simp: parseOne_def Let_def split: if_splits option.splits sum.splits dest!: parseVal_pos)

text \<open>The result is whether the list is malformed, and what was parsed before it was.\<close>

function parseOps :: "storage_env \<Rightarrow> bytes \<Rightarrow> nat \<Rightarrow> parsed_op list \<Rightarrow> ptr list \<Rightarrow> (bool \<times> parsed_op list \<times> ptr list) option" where
  "parseOps env p pos ops saves =
     (if pos \<ge> length p then Some (False, ops, saves)
      else case parseOne env p pos of
             None \<Rightarrow> None
           | Some PBad \<Rightarrow> Some (True, ops, saves)
           | Some (PSave sem q) \<Rightarrow> parseOps env p q ops (saves @ [sem])
           | Some (POp o' q) \<Rightarrow> parseOps env p q (ops @ [o']) saves)"
  by pat_completeness auto
termination
  by (relation "measure (\<lambda>(_, p, pos, _, _). length p - pos)") (auto dest: parseOne_pos)

declare parseOps.simps [simp del]

subsection \<open>Pass 2: the batch is applied\<close>

text \<open>The value of an operation as the record stores take it.\<close>

definition opText :: "storage_env \<Rightarrow> parsed_op \<Rightarrow> string" where
  "opText env o' =
     (if po_op o' = CHR ''D'' then []
      else case po_val o' of
             None \<Rightarrow> []
           | Some v \<Rightarrow> (case leafText v of Some t \<Rightarrow> t | None \<Rightarrow> (case env_print env v of None \<Rightarrow> [] | Some t \<Rightarrow> t)))"

definition sameLeaf :: "json \<Rightarrow> json \<Rightarrow> bool" where
  "sameLeaf v cur \<longleftrightarrow> (\<exists>s. v = JStr s \<and> cur = JStr s) \<or> (\<exists>i. v = JNum i \<and> cur = JNum i)"

definition isSubOp :: "parsed_op \<Rightarrow> bool" where
  "isSubOp o' \<longleftrightarrow> po_op o' \<in> {CHR ''+'', CHR ''#'', CHR ''-''}"

text \<open>What the loop of pass 2 carries: the patch, the externals, and the stores with their
  changes.\<close>

type_synonym batch = "json \<times> external list \<times> (sdb_db \<times> changes \<times> bool)"

definition patchOp :: "storage_env \<Rightarrow> json \<Rightarrow> parsed_op \<Rightarrow> json \<Rightarrow> json" where
  "patchOp env root o' patch =
     (let eqn = env_eqn env
      in if po_op o' = CHR ''D'' then fst (navigateOrCreate eqn (setLeaf eqn JNull) patch (po_key o'))
         else case po_val o' of
                None \<Rightarrow> patch
              | Some v \<Rightarrow>
                  (let cur = navigatePath eqn root (po_key o')
                   in if po_op o' = CHR ''d'' \<and> (\<exists>c. cur = Some c \<and> is_leaf c) then patch
                      else if po_op o' \<noteq> CHR ''d'' \<and> (\<exists>c. cur = Some c \<and> sameLeaf v c) then patch
                      else fst (navigateOrCreate eqn (setLeaf eqn v) patch (po_key o'))))"

definition applyOp :: "storage_env \<Rightarrow> bool \<Rightarrow> json \<Rightarrow> parsed_op \<Rightarrow> batch \<Rightarrow> batch option" where
  "applyOp env silent root o' b =
     (let (patch, exts, z) = b
      in if isSubOp o' then Some b
         else do {
           (routed, z1) \<leftarrow> (if db_regs (fst z) = [] then Some (False, z)
                           else sdbApplyOpLocked (env_world env) (po_op o') (po_key o') (opText env o') silent z);
           (if routed then Some (patch, exts, z1)
            else Some (patchOp env root o' patch,
                       if po_op o' = CHR ''D'' then markExternalsDeletedUnder (po_key o') exts else exts, z1)) })"

fun applyBatch :: "storage_env \<Rightarrow> bool \<Rightarrow> json \<Rightarrow> parsed_op list \<Rightarrow> batch \<Rightarrow> batch option" where
  "applyBatch env silent root [] b = Some b"
| "applyBatch env silent root (o' # os) b =
     do { b1 \<leftarrow> applyOp env silent root o' b; applyBatch env silent root os b1 }"

definition applySub :: "ptr \<Rightarrow> parsed_op \<Rightarrow> storage_sub list \<Rightarrow> storage_sub list" where
  "applySub sender o' subs =
     (if po_op o' = CHR ''+'' then subAdd sender (po_ptr o') (po_key o') False subs
      else if po_op o' = CHR ''#'' then subAdd 0 (po_ptr o') (po_key o') True subs
      else if po_op o' = CHR ''-'' then subRemove sender (po_ptr o') (Some (po_key o')) subs
      else subs)"

text \<open>\<open>startSaveTimer\<close>: one timer window at a time.\<close>

definition startSaveTimer :: "storage \<Rightarrow> storage" where
  "startSaveTimer st = st\<lparr>savePending := True\<rparr>"

text \<open>The merge of the patch and the marks it leaves.\<close>

definition commitPatch :: "storage_env \<Rightarrow> bool \<Rightarrow> batch \<Rightarrow> storage \<Rightarrow> storage \<times> changes" where
  "commitPatch env silent b st =
     (let (patch, exts, db, ch, rd) = b; eqn = env_eqn env;
          ch1 = (if silent then ch else ch @ collectChanges [] 0 (child_list patch));
          st1 = st\<lparr>cfgRoot := deepMerge eqn (cfgRoot st) patch, externals := exts, st_db := db\<rparr>;
          st2 = (if GetObjectItem eqn patch ''s'' \<noteq> None \<or> GetObjectItem eqn patch ''secrets'' \<noteq> None
                 then let (e2, r2) = routePatchDirty patch [] (exts, rootDirty st1)
                      in startSaveTimer (st1\<lparr>externals := e2, rootDirty := r2\<rparr>)
                 else st1);
          st3 = (if rd then startSaveTimer st2 else st2)
      in (st3, ch1))"

definition fanOut :: "storage_env \<Rightarrow> changes \<Rightarrow> storage \<Rightarrow> storage" where
  "fanOut env ch st =
     (let ds = concat (map (\<lambda>(k, v). notifyChange (env_self env) (env_alloc env) (st_subs st) k v) ch)
      in st\<lparr>delivered := delivered st @ ds, notifyq := notifyAll ds (notifyq st)\<rparr>)"

definition firstKey :: "parsed_op list \<Rightarrow> string" where
  "firstKey ops = (case filter (\<lambda>o'. \<not> isSubOp o') ops of [] \<Rightarrow> ''?'' | o' # _ \<Rightarrow> po_key o')"

text \<open>\<open>us\<close> is the time the batch took.\<close>

definition storageApplyOps :: "storage_env \<Rightarrow> u32 \<Rightarrow> bytes \<Rightarrow> ptr \<Rightarrow> storage \<Rightarrow> storage option" where
  "storageApplyOps env us p sender st =
     (if p = [] then Some st
      else let silent = (p ! 0 AND OP_F_SILENT \<noteq> 0)
      in do {
        (bad, ops, saves) \<leftarrow> parseOps env p 1 [] [];
        (if bad then Some (st\<lparr>semGiven := semGiven st @ filter (\<lambda>s. s \<noteq> 0) saves\<rparr>)
         else do {
           b \<leftarrow> applyBatch env silent (cfgRoot st) ops (JObj [], externals st, st_db st, [], False);
           let (st1, ch) = commitPatch env silent b st;
           let st2 = st1\<lparr>st_subs := fold (applySub sender) ops (st_subs st1)\<rparr>;
           let st3 = fanOut env ch st2;
           let st4 = st3\<lparr>pendingSaveSems := pendingSaveSems st3 @ saves\<rparr>;
           Some (if us \<ge> 20000
                 then st4\<lparr>slowOps := slowOpRecord (firstKey ops) us (int (length (filter (\<lambda>o'. \<not> isSubOp o') ops))) (slowOps st4)\<rparr>
                 else st4) }) })"

subsection \<open>Submission and brackets\<close>

definition storageSubmit :: "storage_env \<Rightarrow> u32 \<Rightarrow> ptr \<Rightarrow> bytes \<Rightarrow> storage \<Rightarrow> storage option" where
  "storageSubmit env us me ops st =
     (if env_self env = 0 \<or> me = env_self env then storageApplyOps env us ops me st
      else if \<not> env_alloc env (length ops) then Some st
      else if \<not> env_send env then Some st
      else storageApplyOps env us ops me st)"

fun accumFind :: "ptr \<Rightarrow> op_accum list \<Rightarrow> nat option" where
  "accumFind t [] = None"
| "accumFind t (a # as) =
     (if ac_active a \<and> ac_task a = t then Some 0 else map_option Suc (accumFind t as))"

fun accumFree :: "op_accum list \<Rightarrow> nat option" where
  "accumFree [] = None"
| "accumFree (a # as) = (if \<not> ac_active a then Some 0 else map_option Suc (accumFree as))"

definition accumFindOrCreate :: "ptr \<Rightarrow> op_accum list \<Rightarrow> nat option \<times> op_accum list" where
  "accumFindOrCreate t as =
     (case accumFind t as of
        Some i \<Rightarrow> (Some i, as)
      | None \<Rightarrow>
          (case accumFree as of
             None \<Rightarrow> (None, as)
           | Some i \<Rightarrow> (Some i, as[i := (as ! i)\<lparr>ac_task := t, ac_depth := 0, ac_silent := False, ac_active := True\<rparr>])))"

definition openBracket :: "bool \<Rightarrow> ptr \<Rightarrow> storage \<Rightarrow> storage" where
  "openBracket silent me st =
     (case accumFindOrCreate me (accums st) of
        (None, as) \<Rightarrow> st\<lparr>accums := as\<rparr>
      | (Some i, as) \<Rightarrow>
          (let a = as ! i
           in st\<lparr>accums := as[i := (if ac_depth a = 0 then a\<lparr>ac_depth := 1, ac_ops := [], ac_silent := silent\<rparr>
                                   else a\<lparr>ac_depth := ac_depth a + 1\<rparr>)]\<rparr>))"

definition storageBegin :: "ptr \<Rightarrow> storage \<Rightarrow> storage" where
  "storageBegin = openBracket False"

definition storageBeginSilent :: "ptr \<Rightarrow> storage \<Rightarrow> storage" where
  "storageBeginSilent = openBracket True"

definition storageEnd :: "storage_env \<Rightarrow> u32 \<Rightarrow> ptr \<Rightarrow> storage \<Rightarrow> storage option" where
  "storageEnd env us me st =
     (case accumFind me (accums st) of
        None \<Rightarrow> Some st
      | Some i \<Rightarrow>
          (let a = accums st ! i
           in if ac_depth a \<le> 0 then Some st
              else if ac_depth a = 1 \<and> ac_ops a \<noteq> []
              then storageSubmit env us me ((if ac_silent a then OP_F_SILENT else 0) # ac_ops a)
                     (st\<lparr>accums := (accums st)[i := a\<lparr>ac_depth := 0, ac_ops := []\<rparr>]\<rparr>)
              else Some (st\<lparr>accums := (accums st)[i := a\<lparr>ac_depth := ac_depth a - 1\<rparr>]\<rparr>)))"

definition storageEmitOp :: "storage_env \<Rightarrow> u32 \<Rightarrow> ptr \<Rightarrow> bytes \<Rightarrow> bool \<Rightarrow> storage \<Rightarrow> storage option" where
  "storageEmitOp env us me op silentSingle st =
     (case accumFind me (accums st) of
        Some i \<Rightarrow>
          (let a = accums st ! i
           in if ac_depth a > 0 then Some (st\<lparr>accums := (accums st)[i := a\<lparr>ac_ops := ac_ops a @ op\<rparr>]\<rparr>)
              else storageSubmit env us me ((if silentSingle then OP_F_SILENT else 0) # op) st)
      | None \<Rightarrow> storageSubmit env us me ((if silentSingle then OP_F_SILENT else 0) # op) st)"

definition storageSubscribeChanges :: "storage_env \<Rightarrow> u32 \<Rightarrow> ptr \<Rightarrow> string \<Rightarrow> ptr \<Rightarrow> bool \<Rightarrow> storage \<Rightarrow> storage option" where
  "storageSubscribeChanges env us me scope cb onStorageTask st =
     storageSubmit env us me (0 # opPtr (if onStorageTask then CHR ''#'' else CHR ''+'') scope cb) st"

definition storageUnsubscribe :: "storage_env \<Rightarrow> u32 \<Rightarrow> ptr \<Rightarrow> string \<Rightarrow> storage \<Rightarrow> storage option" where
  "storageUnsubscribe env us me scope st = storageSubmit env us me (0 # opPtr CHR ''-'' scope 0) st"

definition storageUnsubscribeCb :: "storage_env \<Rightarrow> u32 \<Rightarrow> ptr \<Rightarrow> string \<Rightarrow> ptr \<Rightarrow> storage \<Rightarrow> storage option" where
  "storageUnsubscribeCb env us me scope cb st =
     (if cb = 0 then storageUnsubscribe env us me scope st
      else storageSubmit env us me (0 # opPtr CHR ''-'' scope cb) st)"

end
