(* ===== verification/Storage_Api.thy ===== *)
theory Storage_Api
  imports Storage_Ops
begin

section \<open>The public storage API (storage.cpp)\<close>

text \<open>
  Reads go straight to the committed tree, after the read-through providers and the record
  stores; they may load an instance, so they return the state. Writes are operations for the
  actor. A provider is another module's table of functions.
\<close>

subsection \<open>Providers\<close>

definition STORAGE_MAX_PROVIDERS :: nat where "STORAGE_MAX_PROVIDERS = 4"

definition storageRegisterProvider :: "provider \<Rightarrow> storage \<Rightarrow> bool \<times> storage" where
  "storageRegisterProvider pv st =
     (if pv_prefix pv = [] then (False, st)
      else if length (providers st) \<ge> STORAGE_MAX_PROVIDERS then (False, st)
      else (True, st\<lparr>providers := providers st @ [pv]\<rparr>))"

fun providerFor :: "provider list \<Rightarrow> string \<Rightarrow> (provider \<times> string) option" where
  "providerFor [] key = None"
| "providerFor (pv # pvs) key =
     (if take (length (pv_prefix pv)) key = pv_prefix pv then Some (pv, drop (length (pv_prefix pv)) key)
      else providerFor pvs key)"

subsection \<open>Reads\<close>

definition resolveKey :: "storage_env \<Rightarrow> storage \<Rightarrow> string \<Rightarrow> json option" where
  "resolveKey env st key = navigatePath (env_eqn env) (cfgRoot st) key"

definition storageExists :: "storage_env \<Rightarrow> string \<Rightarrow> storage \<Rightarrow> (bool \<times> storage) option" where
  "storageExists env key st =
     (case providerFor (providers st) key of
        Some (pv, pk) \<Rightarrow>
          Some (case pv_exists pv of Some ex \<Rightarrow> ex pk | None \<Rightarrow> pv_get pv pk 160 \<noteq> None, st)
      | None \<Rightarrow>
          do {
            (routed, db) \<leftarrow> sdbExistsLocked (env_world env) (st_db st) key;
            Some (case routed of
                    Some ex \<Rightarrow> ex
                  | None \<Rightarrow> (case resolveKey env st key of None \<Rightarrow> False | Some n \<Rightarrow> is_leaf n),
                  st\<lparr>st_db := db\<rparr>) })"

definition storageGetInt :: "storage_env \<Rightarrow> string \<Rightarrow> int \<Rightarrow> storage \<Rightarrow> (int \<times> storage) option" where
  "storageGetInt env key def st =
     (case providerFor (providers st) key of
        Some (pv, pk) \<Rightarrow> Some (case pv_get pv pk 32 of None \<Rightarrow> def | Some v \<Rightarrow> atoi v, st)
      | None \<Rightarrow>
          do {
            (sv, db) \<leftarrow> sdbGetLocked (env_world env) (st_db st) key;
            Some (case sv of
                    Some v \<Rightarrow> atoi v
                  | None \<Rightarrow>
                      (case resolveKey env st key of
                         Some (JNum i) \<Rightarrow> i
                       | Some (JStr s) \<Rightarrow> atoi s
                       | _ \<Rightarrow> def),
                  st\<lparr>st_db := db\<rparr>) })"

text \<open>The reader into a buffer of \<open>outLen\<close> bytes: what the buffer holds afterwards; nothing is
  written when it has no room.\<close>

definition storageGetBuf :: "storage_env \<Rightarrow> string \<Rightarrow> nat \<Rightarrow> string \<Rightarrow> storage \<Rightarrow> (string option \<times> storage) option" where
  "storageGetBuf env key outLen def st =
     (if outLen = 0 then Some (None, st)
      else case providerFor (providers st) key of
        Some (pv, pk) \<Rightarrow>
          Some (Some (case pv_get pv pk outLen of None \<Rightarrow> safeStrncpy outLen def | Some v \<Rightarrow> v), st)
      | None \<Rightarrow>
          do {
            (sv, db) \<leftarrow> sdbGetLocked (env_world env) (st_db st) key;
            Some (Some (safeStrncpy outLen
                    (case sv of
                       Some v \<Rightarrow> v
                     | None \<Rightarrow>
                         (case resolveKey env st key of
                            None \<Rightarrow> def
                          | Some n \<Rightarrow> (case leafText n of Some t \<Rightarrow> t | None \<Rightarrow> def)))),
                  st\<lparr>st_db := db\<rparr>) })"

text \<open>The overload that returns a string.\<close>

definition storageGetStr :: "storage_env \<Rightarrow> string \<Rightarrow> string \<Rightarrow> storage \<Rightarrow> (string \<times> storage) option" where
  "storageGetStr env key def st =
     (case providerFor (providers st) key of
        Some (pv, pk) \<Rightarrow> Some (case pv_get pv pk 256 of None \<Rightarrow> def | Some v \<Rightarrow> v, st)
      | None \<Rightarrow>
          do {
            (sv, db) \<leftarrow> sdbGetLocked (env_world env) (st_db st) key;
            Some (case sv of
                    Some v \<Rightarrow> v
                  | None \<Rightarrow>
                      (case resolveKey env st key of
                         None \<Rightarrow> def
                       | Some n \<Rightarrow> (case leafText n of Some t \<Rightarrow> t | None \<Rightarrow> def)),
                  st\<lparr>st_db := db\<rparr>) })"

definition storageGetType :: "storage_env \<Rightarrow> storage \<Rightarrow> string \<Rightarrow> cfg_type" where
  "storageGetType env st key =
     (case resolveKey env st key of Some (JNum _) \<Rightarrow> CFG_INT | _ \<Rightarrow> CFG_STR)"

text \<open>
  The count of an object's consecutive numbered children is a loop that ends at the first
  missing one: \<open>None\<close> is a loop that does not end.
\<close>

partial_function (option) countFrom :: "name_eq \<Rightarrow> json \<Rightarrow> nat \<Rightarrow> nat option" where
  "countFrom eqn node n =
     (if GetObjectItem eqn node (nat_str n) = None then Some n else countFrom eqn node (Suc n))"

definition storageArrayCount :: "storage_env \<Rightarrow> string \<Rightarrow> storage \<Rightarrow> nat option" where
  "storageArrayCount env prefix st =
     (case navigatePath (env_eqn env) (cfgRoot st) (stripDots prefix) of
        None \<Rightarrow> Some 0
      | Some node \<Rightarrow> if is_arr node then Some (length (child_list node)) else countFrom (env_eqn env) node 0)"

definition storageForEach :: "storage_env \<Rightarrow> string \<Rightarrow> storage \<Rightarrow> ((string \<times> string) list \<times> storage) option" where
  "storageForEach env prefix st =
     (case providerFor (providers st) prefix of
        Some (pv, pk) \<Rightarrow> Some (case pv_forEach pv of None \<Rightarrow> [] | Some f \<Rightarrow> f pk, st)
      | None \<Rightarrow>
          (let pre = stripDots prefix
           in do {
             (routed, db) \<leftarrow> sdbForEachUnderLocked (env_world env) pre (st_db st);
             let st1 = st\<lparr>st_db := db\<rparr>;
             Some (case routed of
                     Some out \<Rightarrow> out
                   | None \<Rightarrow>
                       (case (if pre = [] then Some (cfgRoot st) else navigatePath (env_eqn env) (cfgRoot st) pre) of
                          None \<Rightarrow> []
                        | Some node \<Rightarrow>
                            (if is_leaf node then (case leafText node of None \<Rightarrow> [] | Some v \<Rightarrow> [(pre, v)])
                             else walkLeaves node pre)), st1) }))"

definition storageList :: "storage \<Rightarrow> string list" where
  "storageList st =
     (if child_list (cfgRoot st) = [] then [''(empty)'' @ [char_of (10 :: nat)]]
      else emitLines (walkTreeCollect (cfgRoot st) [] []))"

subsection \<open>Writes\<close>

definition storageSetInt :: "storage_env \<Rightarrow> u32 \<Rightarrow> ptr \<Rightarrow> string \<Rightarrow> int \<Rightarrow> storage \<Rightarrow> storage option" where
  "storageSetInt env us me key val st = storageEmitOp env us me (opAppendKVInt CHR ''S'' key val) False st"

definition storageSet :: "storage_env \<Rightarrow> u32 \<Rightarrow> ptr \<Rightarrow> string \<Rightarrow> string \<Rightarrow> storage \<Rightarrow> storage option" where
  "storageSet env us me key val st = storageEmitOp env us me (opAppendKV CHR ''S'' key val) False st"

definition storageUnset :: "storage_env \<Rightarrow> u32 \<Rightarrow> ptr \<Rightarrow> string \<Rightarrow> storage \<Rightarrow> storage option" where
  "storageUnset env us me key st = storageEmitOp env us me (opAppendDelete key) False st"

definition storageDeleteTree :: "storage_env \<Rightarrow> u32 \<Rightarrow> ptr \<Rightarrow> string \<Rightarrow> storage \<Rightarrow> storage option" where
  "storageDeleteTree env us me key st =
     (if key = [] then Some st else storageEmitOp env us me (opAppendDelete key) False st)"

definition storageSetTree :: "storage_env \<Rightarrow> u32 \<Rightarrow> ptr \<Rightarrow> string \<Rightarrow> json \<Rightarrow> storage \<Rightarrow> storage option" where
  "storageSetTree env us me key val st =
     (case env_print env val of
        None \<Rightarrow> Some st
      | Some js \<Rightarrow> storageEmitOp env us me (opAppendKVJson CHR ''S'' key js) False st)"

definition storageDefault :: "storage_env \<Rightarrow> u32 \<Rightarrow> ptr \<Rightarrow> string \<Rightarrow> string \<Rightarrow> storage \<Rightarrow> (bool \<times> storage) option" where
  "storageDefault env us me key val st =
     do {
       (ex, st1) \<leftarrow> storageExists env key st;
       st2 \<leftarrow> storageEmitOp env us me (opAppendKV CHR ''d'' key val) True st1;
       Some (\<not> ex, st2) }"

definition storageDefaultInt :: "storage_env \<Rightarrow> u32 \<Rightarrow> ptr \<Rightarrow> string \<Rightarrow> int \<Rightarrow> storage \<Rightarrow> (bool \<times> storage) option" where
  "storageDefaultInt env us me key val st = storageDefault env us me key (int_str val) st"

definition pathPresent :: "storage_env \<Rightarrow> storage \<Rightarrow> string \<Rightarrow> bool" where
  "pathPresent env st key \<longleftrightarrow> navigatePath (env_eqn env) (cfgRoot st) key \<noteq> None"

text \<open>The walk of a tree of defaults; a child's key is cut at 127 bytes.\<close>

definition childKey :: "bool \<Rightarrow> string \<Rightarrow> string \<Rightarrow> string" where
  "childKey atRoot fullKey name = (if atRoot then safeStrncpy 128 name else take 127 (fullKey @ ''.'' @ name))"

function defaultKids :: "storage_env \<Rightarrow> u32 \<Rightarrow> ptr \<Rightarrow> string \<Rightarrow> bool \<Rightarrow> kids \<Rightarrow> bool \<Rightarrow> storage \<Rightarrow> (bool \<times> storage) option"
  and defaultTreeImpl :: "storage_env \<Rightarrow> u32 \<Rightarrow> ptr \<Rightarrow> string \<Rightarrow> json \<Rightarrow> bool \<Rightarrow> storage \<Rightarrow> (bool \<times> storage) option" where
  "defaultKids env us me fullKey atRoot [] wrote st = Some (wrote, st)"
| "defaultKids env us me fullKey atRoot ((None, item) # rest) wrote st = defaultKids env us me fullKey atRoot rest wrote st"
| "defaultKids env us me fullKey atRoot ((Some n, item) # rest) wrote st =
     (case defaultTreeImpl env us me (childKey atRoot fullKey n) item False st of
        None \<Rightarrow> None
      | Some (w, st1) \<Rightarrow> defaultKids env us me fullKey atRoot rest (wrote \<or> w) st1)"
| "defaultTreeImpl env us me fullKey node atRoot st =
     (case node of
        JObj k \<Rightarrow> defaultKids env us me fullKey atRoot k False st
      | JArr k \<Rightarrow>
          (if atRoot \<or> pathPresent env st fullKey then Some (False, st)
           else map_option (Pair True) (storageSetTree env us me fullKey node st))
      | JStr s \<Rightarrow> (if atRoot then Some (False, st) else storageDefault env us me fullKey s st)
      | JNum i \<Rightarrow> (if atRoot then Some (False, st) else storageDefaultInt env us me fullKey i st)
      | _ \<Rightarrow> Some (False, st))"
  by pat_completeness auto
termination
  by (relation "measure (\<lambda>x. case x of Inl (_, _, _, _, _, k, _, _) \<Rightarrow> size_list (size_prod (\<lambda>_. 0) size) k
                                     | Inr (_, _, _, _, j, _, _) \<Rightarrow> size j)") auto

definition storageDefaultTree :: "storage_env \<Rightarrow> u32 \<Rightarrow> ptr \<Rightarrow> string \<Rightarrow> json \<Rightarrow> storage \<Rightarrow> (bool \<times> storage) option" where
  "storageDefaultTree env us me prefix js st =
     do {
       (wrote, st1) \<leftarrow> defaultTreeImpl env us me prefix js (prefix = []) (storageBeginSilent me st);
       st2 \<leftarrow> storageEnd env us me st1;
       Some (wrote, st2) }"

definition storageDefaultTreeText :: "storage_env \<Rightarrow> u32 \<Rightarrow> ptr \<Rightarrow> string \<Rightarrow> string \<Rightarrow> storage \<Rightarrow> (bool \<times> storage) option" where
  "storageDefaultTreeText env us me prefix jsonStr st =
     (case env_parse env jsonStr of None \<Rightarrow> Some (False, st) | Some j \<Rightarrow> storageDefaultTree env us me prefix j st)"

definition storageDbDropInstance :: "storage_env \<Rightarrow> u32 \<Rightarrow> ptr \<Rightarrow> string \<Rightarrow> storage \<Rightarrow> (bool \<times> storage) option" where
  "storageDbDropInstance env us me instancePrefix st =
     (if instancePrefix = [] \<or> \<not> sdbRoutes (db_regs (st_db st)) instancePrefix then Some (False, st)
      else map_option (Pair True) (storageDeleteTree env us me instancePrefix st))"

subsection \<open>Raw data and copies\<close>

definition hexEncodeStr :: "bytes \<Rightarrow> string" where
  "hexEncodeStr p = concat (map (\<lambda>b. [''0123456789abcdef'' ! unat (drop_bit 4 b), ''0123456789abcdef'' ! unat (b AND 15)]) p)"

definition nib :: "char \<Rightarrow> nat option" where
  "nib c = (let n = of_char c in
     if 48 \<le> n \<and> n \<le> 57 then Some (n - 48)
     else if 97 \<le> n \<and> n \<le> 102 then Some (n - 87)
     else if 65 \<le> n \<and> n \<le> 70 then Some (n - 55)
     else None)"

fun hexDecodeBuf :: "string \<Rightarrow> nat \<Rightarrow> bytes" where
  "hexDecodeBuf (a # b # s) (Suc n) =
     (case (nib a, nib b) of
        (Some hi, Some lo) \<Rightarrow> of_nat (hi * 16 + lo) # hexDecodeBuf s n
      | _ \<Rightarrow> [])"
| "hexDecodeBuf s n = []"

definition storageSetData :: "storage_env \<Rightarrow> u32 \<Rightarrow> ptr \<Rightarrow> string \<Rightarrow> bytes \<Rightarrow> storage \<Rightarrow> storage option" where
  "storageSetData env us me key data st = storageSet env us me key (hexEncodeStr data) st"

text \<open>The reader into a buffer of \<open>cap\<close> bytes: success, \<open>*len\<close> afterwards, and the bytes written.\<close>

definition storageGetData :: "storage_env \<Rightarrow> string \<Rightarrow> nat \<Rightarrow> storage \<Rightarrow> ((bool \<times> nat \<times> bytes) \<times> storage) option" where
  "storageGetData env key cap st =
     (case sdbRoute (db_regs (st_db st)) key of
        Some (i, binds, tail) \<Rightarrow>
          (case tail of
             [rec, fld] \<Rightarrow>
               (if hasField (db_regs (st_db st) ! i) fld
                then do {
                  (s, db) \<leftarrow> sdbResolveLoaded (env_world env) (st_db st) i binds;
                  r \<leftarrow> sdbGetFieldBin s (bytes_of rec) (bytes_of fld) cap;
                  Some (r, st\<lparr>st_db := db\<rparr>) }
                else Some ((False, 0, []), st))
           | _ \<Rightarrow> Some ((False, 0, []), st))
      | None \<Rightarrow>
          (let hex = (case resolveKey env st key of Some (JStr s) \<Rightarrow> s | _ \<Rightarrow> [])
           in if hex = [] \<or> odd (length hex) then Some ((False, 0, []), st)
              else let need = length hex div 2
              in if need > cap then Some ((False, need, []), st)
                 else let d = hexDecodeBuf hex cap in Some ((length d = need, length d, d), st)))"

function copyOps :: "storage_env \<Rightarrow> json \<Rightarrow> nat \<Rightarrow> kids \<Rightarrow> string \<Rightarrow> bool \<Rightarrow> bytes" where
  "copyOps env root i [] dstPre onlyIf = []"
| "copyOps env root i ((nm, item) # rest) dstPre onlyIf =
     (let dst = dstPre @ ''.'' @ kidName i nm
      in if \<not> is_leaf item then copyOps env root 0 (child_list item) dst onlyIf
         else if onlyIf \<and> navigatePath (env_eqn env) root dst = None then []
         else case item of
                JNum v \<Rightarrow> opAppendKVInt CHR ''S'' dst v
              | JStr s \<Rightarrow> opAppendKV CHR ''S'' dst s
              | _ \<Rightarrow> [])
     @ copyOps env root (Suc i) rest dstPre onlyIf"
  by pat_completeness auto
termination
  by (relation "measure (\<lambda>(_, _, _, k, _, _). size_list (size_prod (\<lambda>_. 0) size) k)")
    (auto simp: less_Suc_eq_le intro: size_child_list)

definition storageCopy :: "storage_env \<Rightarrow> u32 \<Rightarrow> ptr \<Rightarrow> string \<Rightarrow> string \<Rightarrow> bool \<Rightarrow> storage \<Rightarrow> storage option" where
  "storageCopy env us me srcPrefix dstPrefix onlyIf st =
     (let src = stripDots srcPrefix; dst = stripDots dstPrefix; root = cfgRoot st;
          ops = (case navigatePath (env_eqn env) root src of
                   None \<Rightarrow> []
                 | Some n \<Rightarrow>
                     (if is_leaf n
                      then (if onlyIf \<and> navigatePath (env_eqn env) root dst = None then []
                            else case n of
                                   JNum v \<Rightarrow> opAppendKVInt CHR ''S'' dst v
                                 | JStr s \<Rightarrow> opAppendKV CHR ''S'' dst s
                                 | _ \<Rightarrow> [])
                      else copyOps env root 0 (child_list n) dst onlyIf))
      in if ops = [] then Some st else storageSubmit env us me (0 # ops) st)"

definition storageCopyNoNotify :: "storage_env \<Rightarrow> u32 \<Rightarrow> ptr \<Rightarrow> string \<Rightarrow> string \<Rightarrow> bool \<Rightarrow> storage \<Rightarrow> storage option" where
  "storageCopyNoNotify env us me srcPrefix dstPrefix onlyIf st =
     (if onlyIf then Some st
      else case Option.bind (navigatePath (env_eqn env) (cfgRoot st) (stripDots srcPrefix)) (env_print env) of
             None \<Rightarrow> Some st
           | Some js \<Rightarrow> storageSubmit env us me (OP_F_SILENT # opAppendKVJson CHR ''S'' (stripDots dstPrefix) js) st)"

subsection \<open>The CLI commands\<close>

definition cliWantsHelp :: "string \<Rightarrow> bool" where
  "cliWantsHelp args \<longleftrightarrow> args = ''help'' \<or> args = ''-h'' \<or> args = ''--help''"

definition dropSpaces :: "string \<Rightarrow> string" where
  "dropSpaces = dropWhile (\<lambda>c. c = CHR '' '')"

text \<open>The key and the value of a \<open>set\<close> line; \<open>None\<close> is the usage message.\<close>

definition parseSet :: "string \<Rightarrow> (string \<times> string) option" where
  "parseSet a =
     (let a = dropSpaces a; key = takeWhile (\<lambda>c. c \<noteq> CHR '' '' \<and> c \<noteq> CHR ''='') a; p = drop (length key) a
      in if key = [] \<or> length key \<ge> 128 then None
         else if p = [] then Some (key, ''1'')
         else let p = dropSpaces p
              in Some (key, if p \<noteq> [] \<and> hd p = CHR ''='' then dropSpaces (tl p) else p))"

definition setConfigVar :: "storage_env \<Rightarrow> u32 \<Rightarrow> ptr \<Rightarrow> string \<Rightarrow> string \<Rightarrow> storage \<Rightarrow> storage option" where
  "setConfigVar env us me key val st = (if isFw key then Some st else storageSet env us me key val st)"

definition cmdSet :: "storage_env \<Rightarrow> u32 \<Rightarrow> ptr \<Rightarrow> string \<Rightarrow> storage \<Rightarrow> storage option" where
  "cmdSet env us me a st =
     (if cliWantsHelp a then Some st else case parseSet a of None \<Rightarrow> Some st | Some (key, val) \<Rightarrow> setConfigVar env us me key val st)"

definition cmdReset :: "storage_env \<Rightarrow> u32 \<Rightarrow> ptr \<Rightarrow> string \<Rightarrow> storage \<Rightarrow> storage option" where
  "cmdReset env us me a st =
     (if cliWantsHelp a then Some st
      else let key = takeWhile (\<lambda>c. c \<noteq> CHR '' '' \<and> c \<noteq> CHR ''='') (dropSpaces a)
      in if key = [] \<or> length key \<ge> 128 then Some st else setConfigVar env us me key ''0'' st)"

definition cmdUnset :: "storage_env \<Rightarrow> u32 \<Rightarrow> ptr \<Rightarrow> string \<Rightarrow> storage \<Rightarrow> storage option" where
  "cmdUnset env us me a st = (if cliWantsHelp a \<or> a = [] then Some st else storageDeleteTree env us me a st)"

end
