(* ===== verification/Storage_Codec.thy ===== *)
theory Storage_Codec
  imports Storage_Ops
begin

section \<open>The operation lists and the types of values\<close>

text \<open>
  What the API encodes the actor parses: a list of well-formed operations comes back as it was
  written. And what the type inference calls an integer is one.
\<close>

subsection \<open>Encoding and parsing\<close>

datatype api_op =
    ASet char string string | AInt char string int | AJson char string string
  | ADel string | ASub char string ptr

fun enc :: "api_op \<Rightarrow> bytes" where
  "enc (ASet c k v) = opAppendKV c k v"
| "enc (AInt c k i) = opAppendKVInt c k i"
| "enc (AJson c k js) = opAppendKVJson c k js"
| "enc (ADel k) = opAppendDelete k"
| "enc (ASub c k cb) = opPtr c k cb"

definition strVal :: "string \<Rightarrow> json" where
  "strVal v = (if inferType v = CFG_INT then JNum (atoi v) else JStr v)"

fun dec :: "storage_env \<Rightarrow> api_op \<Rightarrow> parsed_op" where
  "dec env (ASet c k v) = \<lparr>po_op = c, po_key = k, po_val = Some (strVal v), po_ptr = 0\<rparr>"
| "dec env (AInt c k i) = \<lparr>po_op = c, po_key = k, po_val = Some (JNum i), po_ptr = 0\<rparr>"
| "dec env (AJson c k js) = \<lparr>po_op = c, po_key = k, po_val = env_parse env js, po_ptr = 0\<rparr>"
| "dec env (ADel k) = \<lparr>po_op = CHR ''D'', po_key = k, po_val = None, po_ptr = 0\<rparr>"
| "dec env (ASub c k cb) = \<lparr>po_op = c, po_key = k, po_val = None, po_ptr = cb\<rparr>"

definition cstr :: "string \<Rightarrow> bool" where
  "cstr s \<longleftrightarrow> CHR 0x00 \<notin> set s"

fun op_wf :: "api_op \<Rightarrow> bool" where
  "op_wf (ASet c k v) \<longleftrightarrow> c \<in> {CHR ''S'', CHR ''d''} \<and> cstr k \<and> cstr v"
| "op_wf (AInt c k i) \<longleftrightarrow> c \<in> {CHR ''S'', CHR ''d''} \<and> cstr k \<and> INT32_MIN \<le> i \<and> i \<le> INT32_MAX"
| "op_wf (AJson c k js) \<longleftrightarrow> c \<in> {CHR ''S'', CHR ''d''} \<and> cstr k"
| "op_wf (ADel k) \<longleftrightarrow> cstr k"
| "op_wf (ASub c k cb) \<longleftrightarrow> c \<in> {CHR ''+'', CHR ''#'', CHR ''-''} \<and> cstr k"

lemma chb_char [simp]: "char_of (unat (chb c)) = c"
  using str_of_bytes_of [of "[c]"] by (simp add: str_of_def bytes_of_def chb_def)

lemma sint_le_int:
  assumes "INT32_MIN \<le> i" "i \<le> INT32_MAX"
  shows "sint (of_le32 (le_int i @ xs)) = i"
  using assms by (simp add: le_int_def signed_of_int INT32_MIN_def INT32_MAX_def signed_take_bit_int_eq_self)

lemma key_parse:
  "cstr k \<Longrightarrow> cstr_field (opPutStr k @ xs) = bytes_of k"
  using cstr_field_append_nul [OF bytes_of_no_nul, of k xs] by (simp add: opPutStr_def cstr_def)

lemma length_opPutStr [simp]: "length (opPutStr k) = length k + 1"
  by (simp add: opPutStr_def)

lemma length_le_int [simp]: "length (le_int i) = 4"
  by (simp add: le_int_def)

lemma parseVal_int:
  assumes "INT32_MIN \<le> i" "i \<le> INT32_MAX"
  shows "parseVal env (pre @ chb CHR ''I'' # le_int i @ rest) (length pre) = Some (Inr (Some (JNum i), length pre + 5))"
  using sint_le_int [OF assms, of rest] by (simp add: parseVal_def Let_def)

lemma parseVal_len:
  assumes "vt = CHR ''S'' \<or> vt = CHR ''J''" "length pre + 5 + length v < 4294967296"
  shows "parseVal env (pre @ chb vt # le32 (of_nat (length v)) @ v @ rest) (length pre)
    = Some (Inr (if vt = CHR ''S'' then Some (JStr (str_of (cstr_field v))) else env_parse env (str_of v),
                 length pre + 5 + length v))"
proof -
  define p where "p = pre @ chb vt # le32 (of_nat (length v)) @ v @ rest"
  have vl: "unat (of_nat (length v) :: u32) = length v" using assms(2) by (simp add: unat_of_nat)
  have p: "length p = length pre + 5 + length v + length rest" "p ! length pre = chb vt"
    "of_le32 (drop (length pre + 1) p) = of_nat (length v)" "Prelude.slice (length pre + 1 + 4) (length v) p = v"
    by (simp_all add: p_def slice_def)
  have z: "sz_add (length pre + 1 + 4) (length v) = length pre + 5 + length v" using assms(2) by (simp add: sz_add_def)
  have "parseVal env p (length pre)
    = Some (Inr (if vt = CHR ''S'' then Some (JStr (str_of (cstr_field v))) else env_parse env (str_of v),
                 length pre + 5 + length v))"
    unfolding parseVal_def Let_def p(2-4) chb_char vl p(4) z using assms(1) p(1) by auto
  then show ?thesis by (simp add: p_def)
qed

text \<open>The head of an encoded operation: its opcode and its key.\<close>

lemma parse_head:
  assumes "cstr k"
  shows "char_of (unat ((pre @ chb c # opPutStr k @ xs) ! length pre)) = c"
    "cstr_field (drop (length pre + 1) (pre @ chb c # opPutStr k @ xs)) = bytes_of k"
    "length (pre @ chb c # opPutStr k @ xs) - (length pre + 1) = length k + 1 + length xs"
    "drop (length pre + 1 + length (bytes_of k) + 1) (pre @ chb c # opPutStr k @ xs) = xs"
  using key_parse [OF assms, of xs] by (simp_all add: drop_Cons')

lemma parseOne_val:
  assumes "cstr k" "c \<in> {CHR ''S'', CHR ''d''}"
    and "parseVal env ((pre @ chb c # opPutStr k) @ xs) (length (pre @ chb c # opPutStr k)) = Some (Inr (v, q))"
  shows "parseOne env (pre @ chb c # opPutStr k @ xs) (length pre)
    = Some (POp \<lparr>po_op = c, po_key = k, po_val = v, po_ptr = 0\<rparr> q)"
proof -
  note h = parse_head [OF assms(1), of pre c xs]
  have q: "parseVal env (pre @ chb c # opPutStr k @ xs) (length pre + 1 + length (bytes_of k) + 1) = Some (Inr (v, q))"
    using assms(3) by simp
  show ?thesis unfolding parseOne_def Let_def h(1-3) q using assms(2) by auto
qed

lemma parseOne_enc:
  assumes "op_wf o'" "length pre + length (enc o') < 4294967296"
  shows "parseOne env (pre @ enc o' @ rest) (length pre) = Some (POp (dec env o') (length pre + length (enc o')))"
proof (cases o')
  case (ASet c k v)
  then have w: "cstr k" "c \<in> {CHR ''S'', CHR ''d''}" "cstr v" using assms(1) by auto
  let ?P = "pre @ chb c # opPutStr k"
  show ?thesis
  proof (cases "inferType v = CFG_INT")
    case True
    have "INT32_MIN \<le> atoi v" "atoi v \<le> INT32_MAX" using atoi_range by auto
    note q = parseVal_int [OF this, of env ?P rest]
    show ?thesis using parseOne_val [OF w(1,2) q] ASet True by (simp add: opAppendKV_def strVal_def)
  next
    case False
    have b: "0 \<notin> set (bytes_of v)" using w(3) bytes_of_no_nul by (simp add: cstr_def)
    have "cstr_field (bytes_of v) = bytes_of v" using b by (auto simp: cstr_field_def takeWhile_eq_all_conv)
    moreover have "length ?P + 5 + length (bytes_of v) < 4294967296"
      using assms(2) ASet False by (simp add: opAppendKV_def)
    ultimately have "parseVal env (?P @ chb CHR ''S'' # le32 (of_nat (length (bytes_of v))) @ bytes_of v @ rest) (length ?P)
        = Some (Inr (Some (JStr v), length ?P + 5 + length (bytes_of v)))"
      using parseVal_len [of "CHR ''S''" ?P "bytes_of v" env rest] by simp
    from parseOne_val [OF w(1,2) this] show ?thesis using ASet False by (simp add: opAppendKV_def strVal_def)
  qed
next
  case (AInt c k i)
  then have w: "cstr k" "c \<in> {CHR ''S'', CHR ''d''}" "INT32_MIN \<le> i" "i \<le> INT32_MAX" using assms(1) by auto
  note q = parseVal_int [OF w(3,4), of env "pre @ chb c # opPutStr k" rest]
  show ?thesis using parseOne_val [OF w(1,2) q] AInt by (simp add: opAppendKVInt_def)
next
  case (AJson c k js)
  then have w: "cstr k" "c \<in> {CHR ''S'', CHR ''d''}" using assms(1) by auto
  let ?P = "pre @ chb c # opPutStr k"
  have "length ?P + 5 + length (bytes_of js) < 4294967296" using assms(2) AJson by (simp add: opAppendKVJson_def)
  then have "parseVal env (?P @ chb CHR ''J'' # le32 (of_nat (length (bytes_of js))) @ bytes_of js @ rest) (length ?P)
        = Some (Inr (env_parse env js, length ?P + 5 + length (bytes_of js)))"
    using parseVal_len [of "CHR ''J''" ?P "bytes_of js" env rest] by simp
  from parseOne_val [OF w this] show ?thesis using AJson by (simp add: opAppendKVJson_def)
next
  case (ADel k)
  then have w: "cstr k" using assms(1) by simp
  note h = parse_head [OF w, of pre "CHR ''D''" rest]
  have "parseOne env (pre @ chb CHR ''D'' # opPutStr k @ rest) (length pre)
      = Some (POp \<lparr>po_op = CHR ''D'', po_key = k, po_val = None, po_ptr = 0\<rparr> (length pre + 1 + length (bytes_of k) + 1))"
    unfolding parseOne_def Let_def h(1-3) by simp
  then show ?thesis using ADel by (simp add: opAppendDelete_def)
next
  case (ASub c k cb)
  then have w: "cstr k" "c \<in> {CHR ''+'', CHR ''#'', CHR ''-''}" using assms(1) by auto
  note h = parse_head [OF w(1), of pre c "le32 cb @ rest"]
  have "parseOne env (pre @ chb c # opPutStr k @ le32 cb @ rest) (length pre)
      = Some (POp \<lparr>po_op = c, po_key = k, po_val = None, po_ptr = cb\<rparr> (length pre + 1 + length (bytes_of k) + 1 + 4))"
    unfolding parseOne_def Let_def h(1-4) using w(2) by auto
  then show ?thesis using ASub by (simp add: opPtr_def)
qed

lemma enc_nonempty: "enc o' \<noteq> []"
  by (cases o') (auto simp: opAppendKV_def opAppendKVInt_def opAppendKVJson_def opAppendDelete_def opPtr_def)

lemma parseOps_enc:
  assumes "list_all op_wf os" "length pre + length (concat (map enc os)) < 4294967296"
  shows "parseOps env (pre @ concat (map enc os)) (length pre) acc saves = Some (False, acc @ map (dec env) os, saves)"
  using assms
proof (induction os arbitrary: pre acc)
  case Nil
  then show ?case by (subst parseOps.simps) simp
next
  case (Cons x os)
  have one: "parseOne env (pre @ enc x @ concat (map enc os)) (length pre)
      = Some (POp (dec env x) (length (pre @ enc x)))"
    using parseOne_enc [of x pre env] Cons(2,3) by simp
  have ih: "parseOps env ((pre @ enc x) @ concat (map enc os)) (length (pre @ enc x)) (acc @ [dec env x]) saves
      = Some (False, (acc @ [dec env x]) @ map (dec env) os, saves)"
    using Cons(1) [of "pre @ enc x" "acc @ [dec env x]"] Cons(2,3) by simp
  have "length pre < length (pre @ enc x @ concat (map enc os))" using enc_nonempty [of x] by simp
  then show ?case using one ih by (subst parseOps.simps) simp
qed

subsection \<open>Integers are recognised exactly\<close>

definition int_literal :: "string \<Rightarrow> int \<Rightarrow> bool" where
  "int_literal s i \<longleftrightarrow> (\<exists>ds. ds \<noteq> [] \<and> list_all c_isdigit ds
     \<and> (s = ds \<and> i = int (digits_val ds) \<or> s = CHR ''-'' # ds \<and> i = - int (digits_val ds)))"

fun neg_val :: "int \<Rightarrow> string \<Rightarrow> int" where
  "neg_val a [] = a"
| "neg_val a (c # cs) = neg_val (a * 10 - int (digit_val c)) cs"

lemma neg_val_le: "a \<le> 0 \<Longrightarrow> neg_val a ds \<le> a"
proof (induction a ds rule: neg_val.induct)
  case (2 a c cs)
  then have "neg_val (a * 10 - int (digit_val c)) cs \<le> a * 10 - int (digit_val c)" by simp
  then show ?case using 2(2) by simp
qed simp

lemma neg_val_digits: "list_all c_isdigit ds \<Longrightarrow> neg_val 0 ds = - int (digits_val ds)"
proof -
  have "neg_val (- int a) ds = - int (foldl (\<lambda>a c. 10 * a + digit_val c) a ds)" for a
  proof (induction ds arbitrary: a)
    case (Cons c ds)
    show ?case using Cons [of "10 * a + digit_val c"] by (simp add: mult.commute)
  qed simp
  from this [of 0] show "list_all c_isdigit ds \<Longrightarrow> ?thesis"
    by (simp add: digits_val_def takeWhile_eq_all_conv [THEN iffD2] list_all_iff)
qed

lemma digit_val_less: "c_isdigit c \<Longrightarrow> digit_val c < 10"
  by (auto simp: c_isdigit_def digit_val_def)

lemma guard_exact:
  fixes a d :: int
  assumes "0 \<le> d" "d < 10"
  shows "a < - ((- (INT32_MIN + d)) div 10) \<longleftrightarrow> a * 10 - d < INT32_MIN"
proof -
  define m where "m = - (INT32_MIN + d)"
  have "10 * (m div 10) \<le> m" "m < 10 * (m div 10) + 10" by simp_all
  then show ?thesis unfolding m_def [symmetric] by (auto simp: m_def)
qed

lemma inferDigits_eq:
  "acc \<le> 0 \<Longrightarrow> inferDigits ds acc = (if list_all c_isdigit ds \<and> (INT32_MIN \<le> neg_val acc ds \<or> ds = [])
     then Some (neg_val acc ds) else None)"
proof (induction ds acc rule: inferDigits.induct)
  case (2 c cs acc)
  show ?case
  proof (cases "c_isdigit c")
    case d: True
    let ?n = "acc * 10 - int (digit_val c)"
    have g: "acc < - ((- (INT32_MIN + int (digit_val c))) div 10) \<longleftrightarrow> ?n < INT32_MIN"
      using digit_val_less [OF d] by (intro guard_exact) simp_all
    show ?thesis
    proof (cases "?n < INT32_MIN")
      case True
      then show ?thesis using 2(2) d g neg_val_le [of ?n cs] by (simp add: Let_def)
    next
      case False
      then show ?thesis using 2 d g by (cases cs) (simp_all add: Let_def)
    qed
  qed simp
qed simp

lemma inferType_literal:
  "inferType s = CFG_INT \<longleftrightarrow> (\<exists>i. int_literal s i \<and> INT32_MIN \<le> i \<and> i \<le> INT32_MAX)"
proof (cases "s = []")
  case False
  define neg where "neg \<longleftrightarrow> hd s = CHR ''-''"
  define ds where "ds = (if neg then tl s else s)"
  have s: "s = (if neg then CHR ''-'' # ds else ds)" using False by (cases s) (auto simp: neg_def ds_def)
  have nd: "\<not> c_isdigit CHR ''-''" by (simp add: c_isdigit_def)
  have lit: "int_literal s i \<longleftrightarrow> ds \<noteq> [] \<and> list_all c_isdigit ds \<and> i = (if neg then neg_val 0 ds else - neg_val 0 ds)" for i
    using s nd neg_val_digits False by (auto simp: int_literal_def neg_def split: if_splits)
  have nv: "neg_val 0 ds \<le> 0" by (rule neg_val_le) simp
  show ?thesis unfolding lit inferType_def Let_def neg_def [symmetric] ds_def [symmetric]
    using False inferDigits_eq [of 0 ds] nv by (auto simp: INT32_MAX_def INT32_MIN_def)
qed (simp add: inferType_def int_literal_def)

lemma atoi_literal: "int_literal s i \<Longrightarrow> INT32_MIN \<le> i \<Longrightarrow> i \<le> INT32_MAX \<Longrightarrow> atoi s = i"
proof -
  assume l: "int_literal s i" and r: "INT32_MIN \<le> i" "i \<le> INT32_MAX"
  then obtain ds where ds: "ds \<noteq> []" "list_all c_isdigit ds"
    "s = ds \<and> i = int (digits_val ds) \<or> s = CHR ''-'' # ds \<and> i = - int (digits_val ds)"
    by (auto simp: int_literal_def)
  then obtain c r where c: "ds = c # r" "c_isdigit c" by (cases ds) auto
  show ?thesis using ds(3)
  proof
    assume "s = ds \<and> i = int (digits_val ds)"
    then show ?thesis using c digit_not_special [OF c(2)] r by (simp add: atoi_def Let_def)
  next
    assume "s = CHR ''-'' # ds \<and> i = - int (digits_val ds)"
    then show ?thesis using r by (simp add: atoi_def Let_def c_isspace_def)
  qed
qed

end
