(* ===== verification/Sdb_Route_Props.thy ===== *)
theory Sdb_Route_Props
  imports Sdb_Route
begin

section \<open>Properties of the routed stores\<close>

text \<open>
  The routing is the first store whose pattern the key matches; a routed write is read back
  through the same key; what the routed delete and the flush do at their edges.
\<close>

subsection \<open>What an operation keeps of the registry\<close>

lemma routeFrom_cong:
  "map rg_pat regs = map rg_pat regs' \<Longrightarrow> routeFrom i regs segs = routeFrom i regs' segs"
proof (induction i regs segs arbitrary: regs' rule: routeFrom.induct)
  case (2 i r rs segs)
  then show ?case by (cases regs') (auto split: option.splits)
qed simp

lemma sdbRoute_cong:
  assumes "map rg_pat regs = map rg_pat regs'" "map rg_lit regs = map rg_lit regs'"
  shows "sdbRoute regs key = sdbRoute regs' key"
proof -
  let ?c = "\<lambda>l. l = [] \<or> (let n = min (length key) (length l) in take n key = take n l)"
  have c: "list_ex (sdbCand key) rs = list_ex ?c (map rg_lit rs)" for rs
    by (simp add: list_ex_iff sdbCand_def)
  have "list_ex (sdbCand key) regs = list_ex (sdbCand key) regs'" unfolding c assms(2) ..
  moreover have "regs = [] \<longleftrightarrow> regs' = []" using assms(1) by (cases regs; cases regs') auto
  ultimately show ?thesis using routeFrom_cong [OF assms(1)] by (simp add: sdbRoute_def)
qed

definition keeps :: "sdb_reg \<Rightarrow> sdb_reg \<Rightarrow> bool" where
  "keeps r r' \<longleftrightarrow> (\<exists>x. r' = r\<lparr>rg_insts := x\<rparr>)"

lemma putInstance_keeps: "keeps r (putInstance binds st r)"
  "map_of (rg_insts (putInstance binds st r)) (joinBinds binds) = Some st"
  by (auto simp: keeps_def putInstance_def update_conv')

lemma keeps_fields:
  assumes "keeps r r'"
  shows "rg_schema r' = rg_schema r" "rg_persist r' = rg_persist r" "rg_pat r' = rg_pat r" "rg_lit r' = rg_lit r"
proof -
  obtain x where "r' = r\<lparr>rg_insts := x\<rparr>" using assms by (auto simp: keeps_def)
  then show "rg_schema r' = rg_schema r" "rg_persist r' = rg_persist r" "rg_pat r' = rg_pat r" "rg_lit r' = rg_lit r"
    by simp_all
qed

lemma keeps_refl: "keeps r r"
  by (auto simp: keeps_def intro!: exI [of _ "rg_insts r"])

lemma keeps_trans: "keeps r r' \<Longrightarrow> keeps r' r'' \<Longrightarrow> keeps r r''"
  by (auto simp: keeps_def)

lemma sdbRoute_putReg:
  assumes "keeps (db_regs db ! i) r"
  shows "sdbRoute (db_regs (putReg i r db)) key = sdbRoute (db_regs db) key"
proof (cases "i < length (db_regs db)")
  case True
  have "rg_pat r = rg_pat (db_regs db ! i)" "rg_lit r = rg_lit (db_regs db ! i)"
    using keeps_fields [OF assms] by simp_all
  then show ?thesis using True by (intro sdbRoute_cong) (auto simp: putReg_def map_update list_update_same_conv)
qed (simp add: putReg_def list_update_beyond)

lemma sdbRoute_index: "sdbRoute regs key = Some (i, b, t) \<Longrightarrow> i < length regs"
  using routeFrom_match [of 0 regs "splitDots key" i b t] by (auto simp: sdbRoute_def split: if_splits)

lemma loadInstance_keeps:
  assumes "loadInstance w fs binds r = Some (st, r1)"
  shows "keeps r r1 \<and> map_of (rg_insts r1) (joinBinds binds) = Some st"
proof -
  obtain st0 r0 where i: "sdbInstance w binds r = (st0, r0)" by (cases "sdbInstance w binds r")
  then have k: "keeps r r0" "map_of (rg_insts r0) (joinBinds binds) = Some st0"
    by (auto simp: sdbInstance_def Let_def map_add_def keeps_refl split: option.splits) (auto simp: keeps_def)
  show ?thesis
  proof (cases "s_loaded st0")
    case True
    then show ?thesis using assms i k by (simp add: loadInstance_def)
  next
    case False
    then have "r1 = putInstance binds st r0" using assms i by (auto simp: loadInstance_def split: bind_splits)
    then show ?thesis using k keeps_trans putInstance_keeps by blast
  qed
qed

lemma loadInstance_resident:
  "map_of (rg_insts r) (joinBinds binds) = Some st \<Longrightarrow> s_loaded st \<Longrightarrow> loadInstance w fs binds r = Some (st, r)"
  by (simp add: loadInstance_def sdbInstance_def)

lemma resolve_resident:
  assumes "map_of (rg_insts (db_regs db ! i)) (joinBinds binds) = Some st" "s_loaded st"
  shows "sdbResolveLoaded w db i binds = Some (st, db)"
  using loadInstance_resident [OF assms] by (simp add: sdbResolveLoaded_def putReg_def)

lemma regs_putReg [simp]: "i < length (db_regs db) \<Longrightarrow> db_regs (putReg i r db) ! i = r"
  by (simp add: putReg_def)

lemma length_regs_putReg [simp]: "length (db_regs (putReg i r db)) = length (db_regs db)"
  by (simp add: putReg_def)

lemma resolve_facts:
  assumes "sdbResolveLoaded w db i binds = Some (st, db1)" "i < length (db_regs db)"
  shows "keeps (db_regs db ! i) (db_regs db1 ! i)" "map_of (rg_insts (db_regs db1 ! i)) (joinBinds binds) = Some st"
    "length (db_regs db1) = length (db_regs db)" "sdbRoute (db_regs db1) key = sdbRoute (db_regs db) key"
proof -
  obtain r where r: "loadInstance w (db_fs db) binds (db_regs db ! i) = Some (st, r)" "db1 = putReg i r db"
    using assms(1) by (auto simp: sdbResolveLoaded_def split: bind_splits)
  note k = loadInstance_keeps [OF r(1)]
  show "keeps (db_regs db ! i) (db_regs db1 ! i)" "map_of (rg_insts (db_regs db1 ! i)) (joinBinds binds) = Some st"
    "length (db_regs db1) = length (db_regs db)" using k r(2) assms(2) by auto
  show "sdbRoute (db_regs db1) key = sdbRoute (db_regs db) key" using sdbRoute_putReg k r(2) by simp
qed

lemma get_resident:
  assumes "sdbRoute (db_regs db) key = Some (i, binds, [rec, fld])" "hasField (db_regs db ! i) fld"
    "map_of (rg_insts (db_regs db ! i)) (joinBinds binds) = Some st" "store_ok st L"
  shows "sdbGetLocked w db key = Some (map_option str_of (sdb_get st (bytes_of rec) (bytes_of fld)), db)"
proof -
  have "s_loaded st" using store_ok_reps [OF assms(4)] by auto
  then show ?thesis using assms resolve_resident [OF assms(3)] sdbGetField_ok [OF assms(4)]
    by (simp add: sdbGetLocked_def sdb_get_def)
qed

text \<open>A routed set: what the store holds afterwards and what is reported.\<close>

lemma routed_set:
  assumes route: "sdbRoute (db_regs db) key = Some (i, binds, [rec, fld])"
    and res: "sdbResolveLoaded w db i binds = Some (st, db1)" and inv: "sdb_inv st"
    and sch: "s_schema st = rg_schema (db_regs db ! i)" and fd: "sdb_find (s_schema st) (bytes_of fld) = Some fd"
    and h: "heap_ok (w_heap w)" "heap_grants (w_heap w) (setRoom st (bytes_of rec) (bytes_of vs))"
    and len: "length rec < 65536" "length vs < 65536" "0 \<notin> set (bytes_of vs)"
    and new: "sdb_get st (bytes_of rec) (bytes_of fld) \<noteq> Some (bytes_of vs)"
  obtains db2 where
    "sdbApplyOpLocked w CHR ''S'' key vs silent (db, ch, rd)
       = Some (True, db2, if silent then ch else ch @ [(key, vs)], rd \<or> rg_persist (db_regs db ! i))"
    "sdbGetLocked w db2 key = Some (Some (str_of (canon fd (bytes_of vs))), db2)"
proof -
  have i: "i < length (db_regs db)" using sdbRoute_index [OF route] .
  note r1 = resolve_facts [OF res i]
  obtain L where L: "store_ok st L" using inv by (auto simp: sdb_inv_def)
  obtain st1 where st1: "sdbSetField (w_heap w) st (bytes_of rec) (bytes_of fld) (bytes_of vs) = Some st1"
    using sdbSetField_ok [OF L h(1) fd, of "bytes_of rec" "bytes_of vs"] len by auto
  have sets: "sdb_sets st (bytes_of rec) (bytes_of fld) (bytes_of vs) st1"
    using h fd len st1 by (auto simp: sdb_sets_def intro!: exI [of _ "w_heap w"])
  note g = sdb_sets_get [OF inv sets]
  have cur: "sdbGetField st (bytes_of rec) (bytes_of fld) = Some (sdb_get st (bytes_of rec) (bytes_of fld))"
    using sdbGetField_ok [OF L] by (simp add: sdb_get_def)
  have hf: "hasField (db_regs db ! i) fld" using fd sch by (simp add: hasField_def)
  define r2 where "r2 = putInstance binds st1 (db_regs db1 ! i)"
  define db2 where "db2 = putReg i r2 db1"
  have k: "keeps (db_regs db1 ! i) r2" "map_of (rg_insts r2) (joinBinds binds) = Some st1"
    by (simp_all add: r2_def putInstance_keeps)
  have op: "sdbApplyOpLocked w CHR ''S'' key vs silent (db, ch, rd)
       = Some (True, db2, if silent then ch else ch @ [(key, vs)], rd \<or> rg_persist (db_regs db ! i))"
    using route hf res cur new st1 by (simp add: sdbApplyOpLocked_def applyField_def Let_def r2_def db2_def)
  have i2: "db_regs db2 ! i = r2" using i r1(3) by (simp add: db2_def)
  have "sdbRoute (db_regs db2) key = Some (i, binds, [rec, fld])"
    unfolding db2_def using sdbRoute_putReg [OF k(1)] r1(4) route by simp
  moreover have "hasField (db_regs db2 ! i) fld"
    using hf keeps_fields(1) [OF keeps_trans [OF r1(1) k(1)]] i2 by (simp add: hasField_def)
  moreover obtain L1 where "store_ok st1 L1" using g(4) by (auto simp: sdb_inv_def)
  ultimately have "sdbGetLocked w db2 key = Some (map_option str_of (sdb_get st1 (bytes_of rec) (bytes_of fld)), db2)"
    using get_resident [of db2 key i binds rec fld st1 L1] k(2) i2 by simp
  then show ?thesis using that [OF op] g(1) fd by (simp add: sdb_norm_def)
qed

subsection \<open>Properties\<close>

definition declare_stores :: "(string \<times> string \<times> sdb_schema \<times> storage_db_opts) list \<Rightarrow> sdb_reg list" where
  "declare_stores decls = fold (\<lambda>(n, p, s, opt). storageStructuredDB n p s opt) decls []"

lemma declare_stores_ok:
  assumes "\<forall>(n, p, s, opt) \<in> set decls. p = [] \<or> p ! 0 \<noteq> CHR ''.''"
  shows "list_all reg_ok (declare_stores decls)"
proof -
  have "list_all reg_ok regs \<Longrightarrow> list_all reg_ok (fold (\<lambda>(n, p, s, opt). storageStructuredDB n p s opt) decls regs)" for regs
    using assms by (induction decls arbitrary: regs) (auto simp: storageStructuredDB_ok split: prod.splits)
  then show ?thesis by (simp add: declare_stores_def)
qed

text \<open>The quick reject on the literal prefixes never loses a key: for every sequence of
  registrations whose patterns do not begin with a dot, \<open>sdbRoute\<close> is the plain search for the
  first store whose pattern matches the key's segments.\<close>

theorem quick_reject_sound:
  assumes "\<forall>(n, p, s, opt) \<in> set decls. p = [] \<or> p ! 0 \<noteq> CHR ''.''"
  shows "sdbRoute (declare_stores decls) key = routeFrom 0 (declare_stores decls) (splitDots key)"
  using sdbRoute_reference [OF declare_stores_ok [OF assms]] .

definition ram_opts :: storage_db_opts where
  "ram_opts = \<lparr>o_persist = None, o_drop = False, o_cap = 0, o_mirror = False\<rparr>"

theorem quick_reject_sound_witness:
  "sdbRoute (declare_stores [(''m'', ''a.b'', demo_schema, ram_opts)]) ''a.b''
     = routeFrom 0 (declare_stores [(''m'', ''a.b'', demo_schema, ram_opts)]) (splitDots ''a.b'')
   \<and> routeFrom 0 (declare_stores [(''m'', ''a.b'', demo_schema, ram_opts)]) (splitDots ''a.b'') = Some (0, [], [])"
  using quick_reject_sound [of "[(''m'', ''a.b'', demo_schema, ram_opts)]" "''a.b''"]
  by (simp add: declare_stores_def storageStructuredDB_def splitDots_split)

text \<open>C35. A routed write is read back: when the actor applies a SET of a field that the
  schema has to a resident or loadable instance without a cap of records whose heap grants the
  room, and the value (of at most 65535 characters, as the record's name) differs from what the
  field reads as, the operation succeeds, reports the change under the key unless the batch is
  silent, marks a file to write exactly for a persisting store, and the key then reads as the
  value in the field's canonical form.\<close>

theorem routed_write_read:
  assumes "sdbRoute (db_regs db) key = Some (i, binds, [rec, fld])"
    and "sdbResolveLoaded w db i binds = Some (st, db1)" "sdb_inv st"
    and "s_schema st = rg_schema (db_regs db ! i)" "sdb_find (s_schema st) (bytes_of fld) = Some fd"
    and "heap_ok (w_heap w)" "heap_grants (w_heap w) (setRoom st (bytes_of rec) (bytes_of vs))"
    and "length rec < 65536" "length vs < 65536" "0 \<notin> set (bytes_of vs)"
    and "sdb_get st (bytes_of rec) (bytes_of fld) \<noteq> Some (bytes_of vs)"
  shows "\<exists>db2. sdbApplyOpLocked w CHR ''S'' key vs silent (db, ch, rd)
        = Some (True, db2, if silent then ch else ch @ [(key, vs)], rd \<or> rg_persist (db_regs db ! i))
    \<and> sdbGetLocked w db2 key = Some (Some (str_of (canon fd (bytes_of vs))), db2)"
  by (rule routed_set [OF assms, of silent ch rd]) blast

definition demo_world :: sdb_world where
  "demo_world = \<lparr>w_gz = plain_gz, w_legacy = [], w_heap = demo_heap, w_statePath = (\<lambda>p. ''/state'' @ p),
                 w_readdir = (\<lambda>_. None)\<rparr>"

definition demo_db :: sdb_db where
  "demo_db = \<lparr>db_regs = declare_stores [(''m'', ''m.$'', demo_schema, ram_opts)], db_deletes = [], db_fs = good_fs\<rparr>"

definition demo_ram :: sdb_store where
  "demo_ram = sdbInitEmpty demo_heap (fresh_store demo_schema [])"

lemma demo_ram_ok: "store_ok demo_ram []" "s_schema demo_ram = demo_schema" "cap_records demo_ram = 0"
  "s_used demo_ram = 16"
  using sdbInitEmpty_ok [of "fresh_store demo_schema []" demo_heap] demo_schema_ok
  by (simp_all add: demo_ram_def fresh_store_def heap_ok_def demo_heap_def SDB_FILE_HDR_def)

lemma demo_resolve: "\<exists>db1. sdbResolveLoaded demo_world demo_db 0 [''p''] = Some (demo_ram, db1)"
proof -
  have "loadInstance demo_world good_fs [''p''] (db_regs demo_db ! 0)
      = Some (demo_ram, putInstance [''p''] demo_ram ((db_regs demo_db ! 0)\<lparr>rg_insts := [(''p'', fresh_store demo_schema [])]\<rparr>))"
    by (simp add: loadInstance_def sdbInstance_def demo_db_def declare_stores_def storageStructuredDB_def ram_opts_def
        newInstance_def sdbLoad_def demo_world_def demo_ram_def Let_def fresh_store_def)
  then show ?thesis by (simp add: sdbResolveLoaded_def demo_db_def)
qed

theorem routed_write_read_witness:
  "\<exists>db2. sdbApplyOpLocked demo_world CHR ''S'' ''m.p.r.n'' ''300'' False (demo_db, [], False)
        = Some (True, db2, [(''m.p.r.n'', ''300'')], False)
    \<and> sdbGetLocked demo_world db2 ''m.p.r.n'' = Some (Some ''44'', db2)"
proof -
  obtain db1 where r: "sdbResolveLoaded demo_world demo_db 0 [''p''] = Some (demo_ram, db1)"
    using demo_resolve by blast
  let ?fd = "\<lparr>f_name = bytes_of ''n'', f_kind = SDB_U8, f_off = 8, f_width = 0\<rparr>"
  have route: "sdbRoute (db_regs demo_db) ''m.p.r.n'' = Some (0, [''p''], [''r'', ''n''])"
    by (simp add: demo_db_def declare_stores_def storageStructuredDB_def splitDots_split sdbRoute_def sdbCand_def
        litOf_def Let_def)
  have fd: "sdb_find demo_schema (bytes_of ''n'') = Some ?fd" by (simp add: demo_schema_eq sdb_find_def)
  have inv: "sdb_inv demo_ram" using demo_ram_ok by (auto simp: sdb_inv_def)
  have room: "heap_grants demo_heap (setRoom demo_ram (bytes_of ''r'') (bytes_of ''300''))"
    by (simp add: heap_grants_def demo_heap_def setRoom_def demo_ram_ok emptyRec_def mkRec_def recImage_def demo_schema_eq textCount_def
        overwrite_def)
  have get: "sdb_get demo_ram (bytes_of ''r'') (bytes_of ''n'') \<noteq> Some (bytes_of ''300'')"
    using sdb_get_spec [OF demo_ram_ok(1)] by (simp add: specGet_def lookupRec_def)
  have c: "str_of (canon ?fd (bytes_of s)) = nat_str (nat (atoi s mod 256))" for s by (simp add: canon_def)
  have "atoi ''300'' = 300"
    by (simp add: atoi_def c_isspace_def digits_val_def c_isdigit_def digit_val_def INT32_MAX_def)
  moreover have "nat_str 44 = ''44''" by code_simp
  ultimately have "str_of (canon ?fd (bytes_of ''300'')) = ''44''" unfolding c by simp
  then show ?thesis
    using routed_write_read [OF route r inv, of ?fd "''300''" False "[]" False] fd room get demo_ram_ok
    by (simp add: demo_world_def demo_db_def declare_stores_def storageStructuredDB_def ram_opts_def heap_ok_def demo_heap_def)
qed

text \<open>A DELETE of a key with more than two segments below an instance drops the whole
  instance: it leaves the registry and its file is queued for removal, as if the instance's own
  prefix had been deleted.\<close>

theorem deep_delete_drops_instance:
  assumes "sdbRoute (db_regs db) key = Some (i, binds, a # b # c # t)"
    "map_of (rg_insts (db_regs db ! i)) (joinBinds binds) = Some st" "s_path st \<noteq> []"
  shows "\<exists>db'. sdbApplyOpLocked w CHR ''D'' key vs silent (db, ch, rd)
      = Some (True, db', if silent then ch else ch @ [(key, [])], rd \<or> rg_persist (db_regs db ! i))
    \<and> map_of (rg_insts (db_regs db' ! i)) (joinBinds binds) = None \<and> s_path st \<in> set (db_deletes db')"
proof -
  have i: "i < length (db_regs db)" using sdbRoute_index [OF assms(1)] .
  have "sdbInstance w binds (db_regs db ! i) = (st, db_regs db ! i)" using assms(2) by (simp add: sdbInstance_def)
  then show ?thesis using assms i
    by (simp add: sdbApplyOpLocked_def applyInstance_def Let_def putReg_def delete_conv')
qed

definition demo_held :: sdb_db where
  "demo_held = \<lparr>db_regs = [(declare_stores [(''m'', ''m.$'', demo_schema, ram_opts\<lparr>o_persist := Some ''m/$1.db.gz''\<rparr>)] ! 0)
      \<lparr>rg_insts := [(''p'', demo_store 0)]\<rparr>], db_deletes = [], db_fs = good_fs\<rparr>"

theorem deep_delete_drops_instance_witness:
  "\<exists>db'. sdbApplyOpLocked demo_world CHR ''D'' ''m.p.r.n.x'' [] False (demo_held, [], False)
      = Some (True, db', [(''m.p.r.n.x'', [])], True)
    \<and> map_of (rg_insts (db_regs db' ! 0)) ''p'' = None \<and> bytes_of ''/m.gz'' \<in> set (db_deletes db')"
proof -
  have r: "sdbRoute (db_regs demo_held) ''m.p.r.n.x'' = Some (0, [''p''], ''r'' # ''n'' # ''x'' # [])"
    by (simp add: demo_held_def declare_stores_def storageStructuredDB_def splitDots_split sdbRoute_def sdbCand_def
        litOf_def Let_def)
  have p: "s_path (demo_store 0) = bytes_of ''/m.gz''"
    by (simp add: demo_store_def sdbInitEmpty_def ensureCap_def fresh_store_def Let_def demo_heap_def)
  show ?thesis
    using deep_delete_drops_instance [OF r, of "demo_store 0" demo_world "[]" False "[]" False] p
    by (simp add: demo_held_def declare_stores_def storageStructuredDB_def ram_opts_def)
qed

text \<open>A file system that refuses the write leaves the files as they are.\<close>

lemma flushJob_refused: "\<forall>p. \<not> fs_open_wr fs p \<Longrightarrow> flushJob w fs job = fs"
  by (simp add: flushJob_def writeNew_def Let_def split: option.splits)

lemma flushJobs_refused: "\<forall>p. \<not> fs_open_wr fs p \<Longrightarrow> foldl (flushJob w) fs jobs = fs"
  by (induction jobs) (simp_all add: flushJob_refused)

lemma snapInsts_clean:
  "snapInsts h r insts = Some (insts', jobs) \<Longrightarrow> rg_persist r
     \<Longrightarrow> \<forall>(k, st) \<in> set insts. s_dirty st \<longrightarrow> s_loaded st \<and> s_path st \<noteq> [] \<Longrightarrow> \<not> list_ex (\<lambda>(k, st). s_dirty st) insts'"
proof (induction h r insts arbitrary: insts' jobs rule: snapInsts.induct)
  case (2 h r k st insts)
  then show ?case by (auto simp: mustFlush_def split: bind_splits if_splits)
qed simp

definition db_ok :: "sdb_db \<Rightarrow> bool" where
  "db_ok db \<longleftrightarrow> (\<forall>r \<in> set (db_regs db). rg_persist r \<longrightarrow> (\<forall>(k, st) \<in> set (rg_insts r). s_dirty st \<longrightarrow> s_loaded st \<and> s_path st \<noteq> []))"

lemma snapRegs_clean:
  "snapRegs h regs = Some (regs', jobs)
     \<Longrightarrow> \<forall>r \<in> set regs. rg_persist r \<longrightarrow> (\<forall>(k, st) \<in> set (rg_insts r). s_dirty st \<longrightarrow> s_loaded st \<and> s_path st \<noteq> [])
     \<Longrightarrow> \<not> list_ex (\<lambda>r. rg_persist r \<and> list_ex (\<lambda>(k, st). s_dirty st) (rg_insts r)) regs'"
proof (induction h regs arbitrary: regs' jobs rule: snapRegs.induct)
  case (2 h r rs)
  from 2(2) obtain a b aa ba where a: "snapInsts h r (rg_insts r) = Some (a, b)" "snapRegs h rs = Some (aa, ba)"
    "regs' = r\<lparr>rg_insts := a\<rparr> # aa" by (auto split: bind_splits)
  have "rg_persist r \<Longrightarrow> \<not> list_ex (\<lambda>(k, st). s_dirty st) a" using snapInsts_clean [OF a(1)] 2(3) by simp
  then show ?case using 2(1) [OF a(1) refl a(2)] 2(3) a(3) by simp
qed simp

text \<open>A flush forgets what it could not write: the dirty marks are cleared when the images
  are taken, before any file is written, so after a flush on a file system that refuses every
  write the files are unchanged and yet nothing is left to flush.\<close>

theorem refused_flush_forgets:
  assumes "storageDbFlushDirty w db = Some db'" "db_ok db" "db_deletes db = []" "\<forall>p. \<not> fs_open_wr (db_fs db) p"
  shows "fs_files (db_fs db') = fs_files (db_fs db) \<and> \<not> storageDbAnyDirty db'"
proof -
  obtain regs jobs where s: "snapRegs (w_heap w) (db_regs db) = Some (regs, jobs)"
    and db': "db' = \<lparr>db_regs = regs, db_deletes = [], db_fs = foldl (flushJob w) (db_fs db) jobs\<rparr>"
    using assms(1,3) by (auto simp: storageDbFlushDirty_def Let_def split: bind_splits)
  show ?thesis using snapRegs_clean [OF s] assms(2) flushJobs_refused [OF assms(4)] db'
    by (simp add: storageDbAnyDirty_def db_ok_def)
qed

definition refusing_db :: sdb_db where
  "refusing_db = demo_held\<lparr>db_regs := [(db_regs demo_held ! 0)\<lparr>rg_insts := [(''p'', (demo_store 0)\<lparr>s_dirty := True\<rparr>)]\<rparr>],
     db_fs := good_fs\<lparr>fs_open_wr := (\<lambda>_. False)\<rparr>\<rparr>"

theorem refused_flush_forgets_witness:
  "storageDbAnyDirty refusing_db
   \<and> (\<exists>db'. storageDbFlushDirty demo_world refusing_db = Some db'
        \<and> fs_files (db_fs db') = fs_files (db_fs refusing_db) \<and> \<not> storageDbAnyDirty db')"
proof -
  define st where "st = (demo_store 0)\<lparr>s_dirty := True\<rparr>"
  have "store_ok st []" using demo_store_ok(1) [of 0] by (simp add: st_def store_ok_def reps_def)
  then obtain st1 where c: "compact st 0 = Some st1"
    using flush_compact by metis
  have ld: "s_loaded st" "s_path st = bytes_of ''/m.gz''" "s_dirty st"
    using store_ok_reps [OF \<open>store_ok st []\<close>] demo_store_ok(4) [of 0] by (auto simp: st_def)
  have regs: "\<exists>r. db_regs refusing_db = [r] \<and> rg_persist r \<and> rg_insts r = [(''p'', st)]"
    by (simp add: refusing_db_def demo_held_def declare_stores_def storageStructuredDB_def st_def)
  then obtain r where r: "db_regs refusing_db = [r]" "rg_persist r" "rg_insts r = [(''p'', st)]" by blast
  have d: "db_deletes refusing_db = []" "\<forall>p. \<not> fs_open_wr (db_fs refusing_db) p"
    by (simp_all add: refusing_db_def demo_held_def)
  have "\<exists>db'. storageDbFlushDirty demo_world refusing_db = Some db'"
    using r ld c by (simp add: storageDbFlushDirty_def mustFlush_def sdbSnapshotRaw_def)
  then obtain db' where db': "storageDbFlushDirty demo_world refusing_db = Some db'" by blast
  moreover have "db_ok refusing_db" using r ld by (simp add: db_ok_def)
  moreover have "storageDbAnyDirty refusing_db" using r ld by (simp add: storageDbAnyDirty_def)
  ultimately show ?thesis using refused_flush_forgets [OF db'] d by blast
qed

end
