(* ===== verification/Storage_Props.thy ===== *)
theory Storage_Props
  imports Storage_Api Storage_Codec Sdb_Route_Props
begin

section \<open>Properties of the configuration store\<close>

text \<open>
  What the API promises of the tree: a key reads back what was written, whatever arrays and
  objects lie on its way, and the keys beside it keep their values; defaults never overwrite;
  a malformed batch changes nothing; numbers are recognised without loss.
\<close>

subsection \<open>A batch that stays in the tree\<close>

text \<open>The fields of the state a batch of plain keys leaves alone.\<close>

definition same_rest :: "storage \<Rightarrow> storage \<Rightarrow> bool" where
  "same_rest st st' \<longleftrightarrow> st_db st' = st_db st \<and> providers st' = providers st \<and> accums st' = accums st
     \<and> semGiven st' = semGiven st"

definition plain_op :: "storage \<Rightarrow> api_op \<Rightarrow> bool" where
  "plain_op st o' \<longleftrightarrow> op_wf o' \<and> (case o' of
     ASet c k v \<Rightarrow> sdbRoute (db_regs (st_db st)) k = None | AInt c k v \<Rightarrow> sdbRoute (db_regs (st_db st)) k = None
   | AJson c k v \<Rightarrow> sdbRoute (db_regs (st_db st)) k = None | ADel k \<Rightarrow> sdbRoute (db_regs (st_db st)) k = None
   | ASub c k v \<Rightarrow> False)"

definition patchOf :: "storage_env \<Rightarrow> json \<Rightarrow> api_op list \<Rightarrow> json" where
  "patchOf env root os = foldl (\<lambda>p o'. patchOp env root (dec env o') p) (JObj []) os"

lemma applyOp_plain:
  assumes "plain_op st o'" "fst z = st_db st"
  shows "applyOp env silent root (dec env o') (p, x, z)
    = Some (patchOp env root (dec env o') p, if po_op (dec env o') = CHR ''D'' then markExternalsDeletedUnder (po_key (dec env o')) x else x, z)"
proof -
  have "\<not> isSubOp (dec env o')" using assms(1) by (cases o') (auto simp: plain_op_def isSubOp_def)
  moreover have "sdbRoute (db_regs (fst z)) (po_key (dec env o')) = None"
    using assms by (cases o') (auto simp: plain_op_def)
  ultimately show ?thesis by (simp add: applyOp_def sdbApplyOpLocked_def)
qed

lemma applyBatch_plain:
  assumes "list_all (plain_op st) os" "fst z = st_db st"
  shows "\<exists>x'. applyBatch env silent root (map (dec env) os) (p, x, z)
    = Some (foldl (\<lambda>p o'. patchOp env root (dec env o') p) p os, x', z)"
  using assms
proof (induction os arbitrary: p x)
  case (Cons o' os)
  then show ?case using applyOp_plain [of st o' z env silent root p x] by simp
qed simp

lemma commitPatch_rest:
  "same_rest st (fst (commitPatch env silent (patch, x, st_db st, ch, rd) st))
   \<and> cfgRoot (fst (commitPatch env silent (patch, x, st_db st, ch, rd) st)) = deepMerge (env_eqn env) (cfgRoot st) patch"
  by (simp add: commitPatch_def Let_def startSaveTimer_def same_rest_def split: prod.splits)

lemma applySub_plain: "list_all (plain_op st) os \<Longrightarrow> fold (applySub sender) (map (dec env) os) subs = subs"
proof (induction os arbitrary: subs)
  case (Cons o' os)
  then have "applySub sender (dec env o') subs = subs" by (cases o') (auto simp: plain_op_def applySub_def)
  then show ?case using Cons by simp
qed simp

lemma apply_plain:
  assumes "list_all (plain_op st) os" "1 + length (concat (map enc os)) < 4294967296"
  shows "\<exists>st'. storageApplyOps env us (fl # concat (map enc os)) me st = Some st' \<and> same_rest st st'
    \<and> st_subs st' = st_subs st \<and> cfgRoot st' = deepMerge (env_eqn env) (cfgRoot st) (patchOf env (cfgRoot st) os)
    \<and> (fl AND OP_F_SILENT \<noteq> 0 \<longrightarrow> delivered st' = delivered st)"
proof -
  let ?silent = "fl AND OP_F_SILENT \<noteq> 0"
  have wf: "list_all op_wf os" using assms(1) by (auto simp: list_all_iff plain_op_def)
  have parse: "parseOps env (fl # concat (map enc os)) 1 [] [] = Some (False, map (dec env) os, [])"
    using parseOps_enc [OF wf, of "[fl]" env "[]" "[]"] assms(2) by simp
  obtain x' where b: "applyBatch env ?silent (cfgRoot st) (map (dec env) os) (JObj [], externals st, st_db st, [], False)
      = Some (patchOf env (cfgRoot st) os, x', st_db st, [], False)"
    using applyBatch_plain [OF assms(1), of "(st_db st, [], False)" env ?silent "cfgRoot st" "JObj []" "externals st"]
    by (auto simp: patchOf_def)
  obtain st1 ch where c: "commitPatch env ?silent (patchOf env (cfgRoot st) os, x', st_db st, [], False) st = (st1, ch)"
    by (cases "commitPatch env ?silent (patchOf env (cfgRoot st) os, x', st_db st, [], False) st")
  have r: "same_rest st st1" "cfgRoot st1 = deepMerge (env_eqn env) (cfgRoot st) (patchOf env (cfgRoot st) os)"
    using commitPatch_rest [of st env ?silent "patchOf env (cfgRoot st) os" x' "[]" False] c by auto
  have s: "st_subs st1 = st_subs st"
    using arg_cong [OF c, of "\<lambda>x. st_subs (fst x)"] by (auto simp: commitPatch_def Let_def startSaveTimer_def split: prod.splits if_splits)
  have "?silent \<Longrightarrow> ch = []" "delivered st1 = delivered st"
    using arg_cong [OF c, of snd] arg_cong [OF c, of "\<lambda>x. delivered (fst x)"]
    by (auto simp: commitPatch_def Let_def startSaveTimer_def split: prod.splits if_splits)
  then show ?thesis using parse b c r s applySub_plain [OF assms(1)]
    by (auto simp: storageApplyOps_def Let_def fanOut_def same_rest_def)
qed

text \<open>A submission that reaches the actor.\<close>

definition reaches :: "storage_env \<Rightarrow> ptr \<Rightarrow> nat \<Rightarrow> bool" where
  "reaches env me n \<longleftrightarrow> env_self env = 0 \<or> me = env_self env \<or> env_alloc env n \<and> env_send env"

lemma submit_reaches: "reaches env me (length ops) \<Longrightarrow> storageSubmit env us me ops st = storageApplyOps env us ops me st"
  by (auto simp: reaches_def storageSubmit_def)

definition no_bracket :: "ptr \<Rightarrow> storage \<Rightarrow> bool" where
  "no_bracket me st \<longleftrightarrow> (case accumFind me (accums st) of None \<Rightarrow> True | Some i \<Rightarrow> ac_depth (accums st ! i) \<le> 0)"

lemma emit_single:
  "no_bracket me st \<Longrightarrow> storageEmitOp env us me op silent st
     = storageSubmit env us me ((if silent then OP_F_SILENT else 0) # op) st"
  by (auto simp: no_bracket_def storageEmitOp_def Let_def split: option.splits)

subsection \<open>One key\<close>

lemma sameLeaf_eq: "sameLeaf v c \<Longrightarrow> v = c"
  by (auto simp: sameLeaf_def)

definition leaf_val :: "json \<Rightarrow> bool" where
  "leaf_val v \<longleftrightarrow> is_leaf v \<and> v \<noteq> JNull"

lemma leaf_strVal [simp]: "leaf_val (strVal v)"
  by (simp add: strVal_def leaf_val_def)

lemma navigatePath_segs: "key_ok k \<Longrightarrow> navigatePath eqn root k = navSegs eqn root (segs k)"
  by (auto simp: navigatePath_def navWalk_segs key_ok_def)

lemma merge_patch1:
  assumes "name_cmp eqn" "root = JObj rk" "key_ok k"
  shows "mergeItem eqn (Some root) (patch1 (segs k) v) = Some (deepMerge eqn root (patch1 (segs k) v))"
proof -
  obtain s ss where "segs k = s # ss" using segs_nonempty assms(3) by (cases "segs k") (auto simp: key_ok_def)
  then show ?thesis using assms(2) by (simp add: deepMerge_def)
qed

lemma set_one_nav:
  assumes "name_cmp eqn" "tree_ok eqn root" "is_obj root" "key_ok k" "leaf_val v"
  shows "navigatePath eqn (deepMerge eqn root (patch1 (segs k) v)) k = Some v"
    "apart eqn (segs k) (segs k2) \<Longrightarrow> no_arr eqn (Some root) (segs k)
       \<Longrightarrow> navigatePath eqn (deepMerge eqn root (patch1 (segs k) v)) k2 = navigatePath eqn root k2"
    "tree_ok eqn (deepMerge eqn root (patch1 (segs k) v))"
    "is_obj (deepMerge eqn root (patch1 (segs k) v))"
proof -
  obtain rk where rk: "root = JObj rk" using assms(3) by (cases root) auto
  have l: "list_all (\<lambda>s. length s < SEG_MAX) (segs k)" using assms(4) by (simp add: key_ok_def)
  have v: "is_leaf v" "v \<noteq> JNull" using assms(5) by (auto simp: leaf_val_def)
  note m = merge_patch1 [OF assms(1) rk assms(4)]
  show "navigatePath eqn (deepMerge eqn root (patch1 (segs k) v)) k = Some v"
    using name_cmp.nav_mergeItem [OF assms(1) l v, of "Some root"] m assms(2,4) by (simp add: navigatePath_segs)
  show "navigatePath eqn (deepMerge eqn root (patch1 (segs k) v)) k2 = navigatePath eqn root k2"
    if "apart eqn (segs k) (segs k2)" "no_arr eqn (Some root) (segs k)"
    using name_cmp.nav_mergeItem_frame [OF assms(1) that v] m [of v] assms(2) that(1)
    by (cases "k2 = []") (auto simp: navigatePath_def navWalk_segs navOpt_def)
  have ok: "tree_ok eqn (patch1 ss v)" for ss using v by (induction ss) (cases v; auto)+
  obtain s ss where s: "segs k = s # ss" using segs_nonempty assms(4) by (cases "segs k") (auto simp: key_ok_def)
  show "tree_ok eqn (deepMerge eqn root (patch1 (segs k) v))"
    using merge_tree_ok(1) [OF assms(1,2)] ok [of ss] s by (simp add: deepMerge_def del: mergeKids.simps)
  have "names_ok eqn rk" using assms(2) rk by simp
  then show "is_obj (deepMerge eqn root (patch1 (segs k) v))"
    using name_cmp.kidsGet_merge [OF assms(1), of rk "[(Some s, patch1 ss v)]"] rk s by (auto simp: deepMerge_def)
qed

lemma patchOf_set:
  assumes "key_ok k"
  shows "patchOf env root [ASet CHR ''S'' k val]
    = (if \<exists>c. navigatePath (env_eqn env) root k = Some c \<and> sameLeaf (strVal val) c then JObj []
       else patch1 (segs k) (strVal val))"
  using patch_of_key [OF assms] by (auto simp: patchOf_def patchOp_def Let_def)

lemma deepMerge_empty [simp]: "deepMerge eqn root (JObj []) = root"
  by (simp add: deepMerge_def)

definition storage_ok :: "storage_env \<Rightarrow> storage \<Rightarrow> bool" where
  "storage_ok env st \<longleftrightarrow> is_obj (cfgRoot st) \<and> tree_ok (env_eqn env) (cfgRoot st)"

definition plain_key :: "storage \<Rightarrow> string \<Rightarrow> bool" where
  "plain_key st k \<longleftrightarrow> sdbRoute (db_regs (st_db st)) k = None \<and> providerFor (providers st) k = None"

lemma storageSet_nav:
  assumes "name_cmp (env_eqn env)" "storage_ok env st" "key_ok k" "cstr k" "cstr val" "plain_key st k"
    "no_bracket me st" "reaches env me (1 + length (opAppendKV CHR ''S'' k val))"
    "1 + length (opAppendKV CHR ''S'' k val) < 4294967296"
  obtains st' where "storageSet env us me k val st = Some st'" "same_rest st st'" "storage_ok env st'"
    "navigatePath (env_eqn env) (cfgRoot st') k = Some (strVal val)"
    "\<And>k2. apart (env_eqn env) (segs k) (segs k2) \<Longrightarrow> no_arr (env_eqn env) (Some (cfgRoot st)) (segs k)
       \<Longrightarrow> navigatePath (env_eqn env) (cfgRoot st') k2 = navigatePath (env_eqn env) (cfgRoot st) k2"
proof -
  let ?o = "ASet CHR ''S'' k val"
  have p: "list_all (plain_op st) [?o]" using assms(4-6) by (simp add: plain_op_def plain_key_def)
  obtain st' where st': "storageApplyOps env us (0 # concat (map enc [?o])) me st = Some st'" "same_rest st st'"
    "cfgRoot st' = deepMerge (env_eqn env) (cfgRoot st) (patchOf env (cfgRoot st) [?o])"
    using apply_plain [OF p, of env us 0 me] assms(9) by auto
  have s: "storageSet env us me k val st = Some st'"
    using st'(1) emit_single [OF assms(7)] submit_reaches [of env me "0 # opAppendKV CHR ''S'' k val"] assms(8)
    by (simp add: storageSet_def)
  have o: "tree_ok (env_eqn env) (cfgRoot st)" "is_obj (cfgRoot st)" using assms(2) by (auto simp: storage_ok_def)
  note n = set_one_nav [OF assms(1) o assms(3) leaf_strVal [of val]]
  show ?thesis
  proof (cases "\<exists>c. navigatePath (env_eqn env) (cfgRoot st) k = Some c \<and> sameLeaf (strVal val) c")
    case True
    then have r: "cfgRoot st' = cfgRoot st" using st'(3) patchOf_set [OF assms(3)] by simp
    have "navigatePath (env_eqn env) (cfgRoot st) k = Some (strVal val)" using True sameLeaf_eq by blast
    then show ?thesis using that [OF s st'(2)] r assms(2) by (simp add: storage_ok_def)
  next
    case False
    have "cfgRoot st' = deepMerge (env_eqn env) (cfgRoot st) (patch1 (segs k) (strVal val))"
      unfolding st'(3) patchOf_set [OF assms(3)] if_not_P [OF False] ..
    then show ?thesis using that [OF s st'(2)] n by (simp add: storage_ok_def)
  qed
qed

lemma getStr_plain:
  assumes "plain_key st k" "navigatePath (env_eqn env) (cfgRoot st) k = n"
  shows "storageGetStr env k def st
    = Some (case n of None \<Rightarrow> def | Some j \<Rightarrow> (case leafText j of Some t \<Rightarrow> t | None \<Rightarrow> def), st)"
  using assms by (simp add: storageGetStr_def plain_key_def sdbGetLocked_def resolveKey_def)

lemma same_rest_plain: "same_rest st st' \<Longrightarrow> plain_key st' k = plain_key st k"
  by (simp add: same_rest_def plain_key_def)

definition stored_text :: "string \<Rightarrow> string" where
  "stored_text val = (if inferType val = CFG_INT then int_str (atoi val) else val)"

lemma leafText_strVal [simp]: "leafText (strVal val) = Some (stored_text val)"
  by (simp add: strVal_def stored_text_def)

subsection \<open>Properties\<close>


text \<open>C29. A set changes no other key: every key that diverges from the written one on a way
  through objects reads as before.\<close>

theorem storage_set_frame:
  assumes "name_cmp (env_eqn env)" "storage_ok env st" "key_ok k" "cstr k" "cstr val" "plain_key st k"
    "no_bracket me st" "reaches env me (1 + length (opAppendKV CHR ''S'' k val))"
    "1 + length (opAppendKV CHR ''S'' k val) < 4294967296"
    "apart (env_eqn env) (segs k) (segs k2)" "no_arr (env_eqn env) (Some (cfgRoot st)) (segs k)" "plain_key st k2"
  shows "\<exists>st'. storageSet env us me k val st = Some st'
    \<and> map_option fst (storageGetStr env k2 def st') = map_option fst (storageGetStr env k2 def st)"
proof -
  obtain st' where s: "storageSet env us me k val st = Some st'" "same_rest st st'"
    "navigatePath (env_eqn env) (cfgRoot st') k2 = navigatePath (env_eqn env) (cfgRoot st) k2"
    using storageSet_nav [OF assms(1-9), of us] assms(10,11) by metis
  then show ?thesis
    using getStr_plain [OF _ s(3), of def] getStr_plain [OF assms(12) refl, of env def] same_rest_plain [OF s(2)] assms(12)
    by simp
qed

text \<open>An environment and a tree for the witnesses: before the storage task runs, no providers, no
  record stores.\<close>

definition demo_env :: storage_env where
  "demo_env = \<lparr>env_eqn = ci_eq, env_parse = (\<lambda>_. None), env_print = (\<lambda>_. None), env_world = demo_world,
               env_self = 0, env_alloc = (\<lambda>_. True), env_send = True\<rparr>"

definition demo_nets :: json where
  "demo_nets = JObj [(Some ''s'', JObj [(Some ''nets'', JArr [(None, JObj [(Some ''ssid'', JStr ''home'')])])])]"

definition demo_storage :: "json \<Rightarrow> storage" where
  "demo_storage root = \<lparr>cfgRoot = root, externals = [], rootDirty = False, savePending = False, st_subs = [],
     st_db = \<lparr>db_regs = [], db_deletes = [], db_fs = good_fs\<rparr>, accums = [],
     notifyq = \<lparr>nq_worker = False, nq_jobs = [], nq_dropped = 0, nq_sent = []\<rparr>, delivered = [],
     pendingSaveSems = [], semGiven = [], slowOps = [], providers = []\<rparr>"

lemma demo_env_ok [simp]: "name_cmp ci_eq" "reaches demo_env me n" "env_eqn demo_env = ci_eq"
  using cjson.name_cmp_axioms by (simp_all add: demo_env_def reaches_def)

lemma demo_storage_ok [simp]: "no_bracket me (demo_storage root)" "plain_key (demo_storage root) k"
  "storage_ok demo_env (demo_storage root) = (is_obj root \<and> tree_ok ci_eq root)" "cfgRoot (demo_storage root) = root"
  by (simp_all add: demo_storage_def no_bracket_def plain_key_def sdbRoute_def storage_ok_def)


theorem storage_set_frame_witness:
  "\<exists>st'. storageSet demo_env 0 1 ''s.web.port'' ''80'' (demo_storage demo_nets) = Some st'
    \<and> map_option fst (storageGetStr demo_env ''s.nets.0.ssid'' [] st') = Some ''home''"
proof -
  have k: "key_ok ''s.web.port''" "cstr ''s.web.port''" "cstr ''80''"
    by (simp_all add: key_ok_def segs_def SEG_MAX_def cstr_def)
  have l: "1 + length (opAppendKV CHR ''S'' ''s.web.port'' ''80'') < 4294967296"
    by (simp add: opAppendKV_def)
  have a: "apart ci_eq (segs ''s.web.port'') (segs ''s.nets.0.ssid'')"
    "no_arr ci_eq (Some demo_nets) (segs ''s.web.port'')"
    by (simp_all add: segs_def demo_nets_def ci_eq_def tolower_def GetObjectItem_def)
  have "isAllDigits ''0''" "atoi ''0'' = 0" "key_ok ''s.nets.0.ssid''"
    by (simp_all add: isAllDigits_def c_isdigit_def atoi_def c_isspace_def digits_val_def digit_val_def INT32_MAX_def
        key_ok_def segs_def SEG_MAX_def)
  then have "navigatePath ci_eq demo_nets ''s.nets.0.ssid'' = Some (JStr ''home'')"
    by (simp add: navigatePath_segs segs_def demo_nets_def SEG_MAX_def navStep_def GetObjectItem_def GetArrayItem_def
        ci_eq_def tolower_def)
  then have home: "map_option fst (storageGetStr demo_env ''s.nets.0.ssid'' [] (demo_storage demo_nets)) = Some ''home''"
    using getStr_plain [of "demo_storage demo_nets" "''s.nets.0.ssid''" demo_env _ "[]"] by simp
  have "storage_ok demo_env (demo_storage demo_nets)" by (simp add: demo_nets_def)
  from storage_set_frame [OF _ this k _ _ _ l, of 1 "''s.nets.0.ssid''" 0 "[]"] a
  show ?thesis unfolding home by (simp only: demo_env_ok demo_storage_ok simp_thms True_implies_equals)
qed

text \<open>A default never overwrites: \<open>storageDefault\<close> leaves the tree as it is when the key
  already has a leaf and returns false; otherwise it returns true and the key reads as the
  value. No subscriber is told in either case.\<close>

theorem storage_default_keeps:
  assumes "name_cmp (env_eqn env)" "storage_ok env st" "key_ok k" "cstr k" "cstr val" "plain_key st k"
    "no_bracket me st" "reaches env me (1 + length (opAppendKV CHR ''d'' k val))"
    "1 + length (opAppendKV CHR ''d'' k val) < 4294967296"
  defines "there \<equiv> \<exists>c. navigatePath (env_eqn env) (cfgRoot st) k = Some c \<and> is_leaf c"
  shows "\<exists>st'. storageDefault env us me k val st = Some (\<not> there, st') \<and> delivered st' = delivered st
    \<and> (if there then cfgRoot st' = cfgRoot st
       else storageGetStr env k def st' = Some (if inferType val = CFG_INT then int_str (atoi val) else val, st'))"
proof -
  let ?o = "ASet CHR ''d'' k val"
  have p: "list_all (plain_op st) [?o]" using assms(4-6) by (simp add: plain_op_def plain_key_def)
  have fl: "OP_F_SILENT AND OP_F_SILENT \<noteq> 0" by (simp add: OP_F_SILENT_def)
  obtain st' where st': "storageApplyOps env us (OP_F_SILENT # concat (map enc [?o])) me st = Some st'" "same_rest st st'"
    "cfgRoot st' = deepMerge (env_eqn env) (cfgRoot st) (patchOf env (cfgRoot st) [?o])" "delivered st' = delivered st"
    using apply_plain [OF p, of env us OP_F_SILENT me] assms(9) fl by auto
  have ex: "storageExists env k st = Some (there, st)"
    using assms(6) by (auto simp: storageExists_def plain_key_def sdbExistsLocked_def resolveKey_def there_def split: option.splits)
  have s: "storageDefault env us me k val st = Some (\<not> there, st')"
    using st'(1) emit_single [OF assms(7)] submit_reaches [of env me "OP_F_SILENT # opAppendKV CHR ''d'' k val"] assms(8) ex
    by (simp add: storageDefault_def)
  have pt: "patchOf env (cfgRoot st) [?o] = (if there then JObj [] else patch1 (segs k) (strVal val))"
    using patch_of_key [OF assms(3)] by (auto simp: patchOf_def patchOp_def Let_def there_def)
  have o: "tree_ok (env_eqn env) (cfgRoot st)" "is_obj (cfgRoot st)" using assms(2) by (auto simp: storage_ok_def)
  have "navigatePath (env_eqn env) (cfgRoot st') k = Some (strVal val)" if "\<not> there"
    using set_one_nav(1) [OF assms(1) o assms(3) leaf_strVal [of val]] st'(3) pt that by simp
  then show ?thesis using s st'(3,4) pt getStr_plain [of st' k env _ def] same_rest_plain [OF st'(2)] assms(6)
    by (auto simp: stored_text_def)
qed

theorem storage_default_keeps_witness:
  "\<exists>st'. storageDefault demo_env 0 1 ''s.nets.0.ssid'' ''new'' (demo_storage demo_nets) = Some (False, st')
    \<and> cfgRoot st' = demo_nets"
proof -
  have k: "key_ok ''s.nets.0.ssid''" "cstr ''s.nets.0.ssid''" "cstr ''new''"
    by (simp_all add: key_ok_def segs_def SEG_MAX_def cstr_def)
  have l: "1 + length (opAppendKV CHR ''d'' ''s.nets.0.ssid'' ''new'') < 4294967296" by (simp add: opAppendKV_def)
  have "isAllDigits ''0''" "atoi ''0'' = 0"
    by (simp_all add: isAllDigits_def c_isdigit_def atoi_def c_isspace_def digits_val_def digit_val_def INT32_MAX_def)
  then have n: "navigatePath ci_eq demo_nets ''s.nets.0.ssid'' = Some (JStr ''home'')"
    by (simp add: navigatePath_segs [OF k(1)] segs_def demo_nets_def SEG_MAX_def navStep_def GetObjectItem_def
        GetArrayItem_def ci_eq_def tolower_def)
  have "storage_ok demo_env (demo_storage demo_nets)" by (simp add: demo_nets_def)
  from storage_default_keeps [OF _ this k _ _ _ l, of 1 0 "[]"]
  show ?thesis by (auto simp: n)
qed

text \<open>What the API writes into an operation list the actor reads back: every list of
  well-formed operations, shorter than 4 GiB, parses to exactly those operations, in order and
  without a rest.\<close>

theorem ops_parse_back:
  assumes "list_all op_wf os" "1 + length (concat (map enc os)) < 4294967296"
  shows "parseOps env (fl # concat (map enc os)) 1 [] [] = Some (False, map (dec env) os, [])"
  using parseOps_enc [OF assms(1), of "[fl]" env "[]" "[]"] assms(2) by simp

theorem ops_parse_back_witness:
  "parseOps demo_env (0 # concat (map enc [ASet CHR ''S'' ''s.a'' ''12'', ADel ''s.b'', ASub CHR ''+'' ''s.'' 7])) 1 [] []
     = Some (False, map (dec demo_env) [ASet CHR ''S'' ''s.a'' ''12'', ADel ''s.b'', ASub CHR ''+'' ''s.'' 7], [])"
  by (rule ops_parse_back) (simp_all add: cstr_def opAppendKV_def opAppendDelete_def opPtr_def)

text \<open>The type of a value is inferred exactly: a string is stored as an integer if and only
  if it is digits with an optional minus sign and the integer stored is the value they denote;
  a number that does not fit 32 bits stays a string.\<close>

theorem inferType_exact: "inferType s = CFG_INT \<longleftrightarrow> int_literal s (atoi s)"
  using inferType_literal [of s] atoi_literal [of s] atoi_range [of s] by auto

subsection \<open>Who is told of a change\<close>

lemma collectChanges_patch1:
  assumes "ss \<noteq> []" "changeText v = Some t" "\<not> is_obj v"
  shows "collectChanges path 0 (child_list (patch1 ss v))
    = (if length (foldl pathJoin path ss) < PATH_BUF then [(foldl pathJoin path ss, t)] else [])"
  using assms(1)
proof (induction ss arbitrary: path)
  case (Cons s ss)
  have mono: "length path \<le> length (foldl pathJoin path ss)" for path ss
  proof (induction ss arbitrary: path)
    case (Cons x xs)
    have "length path \<le> length (pathJoin path x)" by (simp add: pathJoin_def)
    then show ?case using Cons [of "pathJoin path x"] by simp
  qed simp
  let ?p = "pathJoin path s"
  show ?case
  proof (cases "length ?p < PATH_BUF")
    case False
    then show ?thesis using mono [of ?p ss] by (simp add: visit_def kidName_def)
  next
    case True
    then have vis: "visit path 0 (Some s) = Some ?p" by (simp add: visit_def kidName_def)
    show ?thesis
    proof (cases ss)
      case Nil
      then show ?thesis using vis True assms(2,3) by (cases v) auto
    next
      case (Cons x xs)
      then have "is_obj (patch1 ss v)" by simp
      then obtain k where k: "patch1 ss v = JObj k" by (cases "patch1 ss v") auto
      then show ?thesis using vis Cons.IH [of ?p] Cons by simp
    qed
  qed
qed simp

lemma foldl_pathJoin_mono: "length path \<le> length (foldl pathJoin path ss)"
proof (induction ss arbitrary: path)
  case (Cons x xs)
  have "length path \<le> length (pathJoin path x)" by (simp add: pathJoin_def)
  then show ?case using Cons [of "pathJoin path x"] by simp
qed simp

lemma routePatchDirty_patch1:
  assumes "\<not> is_obj v"
  shows "routePatchDirty (patch1 ss v) path ([], rd)
    = ([], rd \<or> (length (foldl pathJoin path ss) < PATH_BUF \<or> ss = []) \<and> foldl pathJoin path ss \<noteq> [] \<and> isPersistent (foldl pathJoin path ss))"
proof (induction ss arbitrary: path)
  case Nil
  then show ?case using assms by (cases v) auto
next
  case (Cons s ss)
  let ?p = "pathJoin path s"
  show ?case
  proof (cases "length ?p < PATH_BUF")
    case True
    then show ?thesis using Cons [of ?p] by (cases ss) auto
  next
    case False
    then show ?thesis using foldl_pathJoin_mono [of ?p ss] by simp
  qed
qed

text \<open>The exact effect of a single set that is not a repetition.\<close>

lemma apply_set_effect:
  assumes "cstr k" "cstr val" "plain_key st k" "key_ok k" "externals st = []"
    "1 + length (opAppendKV CHR ''S'' k val) < 4294967296"
    "navigatePath (env_eqn env) (cfgRoot st) k \<noteq> Some (strVal val)"
  defines "full \<equiv> foldl pathJoin [] (segs k)"
  shows "\<exists>st'. storageApplyOps env us (0 # opAppendKV CHR ''S'' k val) me st = Some st'
    \<and> cfgRoot st' = deepMerge (env_eqn env) (cfgRoot st) (patch1 (segs k) (strVal val)) \<and> same_rest st st'
    \<and> delivered st' = delivered st @ (if length full < PATH_BUF
         then notifyChange (env_self env) (env_alloc env) (st_subs st) full (stored_text val) else [])
    \<and> (GetObjectItem (env_eqn env) (patch1 (segs k) (strVal val)) ''s'' \<noteq> None \<longrightarrow>
       rootDirty st' = (rootDirty st \<or> length full < PATH_BUF \<and> full \<noteq> [] \<and> isPersistent full))"
proof -
  let ?o = "ASet CHR ''S'' k val" and ?P = "patch1 (segs k) (strVal val)"
  have p: "plain_op st ?o" using assms(1-3) by (simp add: plain_op_def plain_key_def)
  have parse: "parseOps env (0 # opAppendKV CHR ''S'' k val) 1 [] [] = Some (False, [dec env ?o], [])"
    using parseOps_enc [of "[?o]" "[0]" env "[]" "[]"] assms(1,2,6) by simp
  have "\<not> (\<exists>c. navigatePath (env_eqn env) (cfgRoot st) k = Some c \<and> sameLeaf (strVal val) c)"
    using assms(7) sameLeaf_eq by metis
  then have "patchOf env (cfgRoot st) [?o] = ?P" using patchOf_set [OF assms(4)] by auto
  then have b: "applyBatch env False (cfgRoot st) [dec env ?o] (JObj [], externals st, st_db st, [], False)
      = Some (?P, [], st_db st, [], False)"
    using applyOp_plain [OF p, of "(st_db st, [], False)" env False "cfgRoot st" "JObj []" "externals st"] assms(5)
    by (simp add: patchOf_def)
  have n: "segs k \<noteq> []" using segs_nonempty assms(4) by (simp add: key_ok_def)
  have leaf: "\<not> is_obj (strVal val)" "changeText (strVal val) = Some (stored_text val)"
    by (simp_all add: strVal_def stored_text_def)
  have cc: "collectChanges [] 0 (child_list ?P) = (if length full < PATH_BUF then [(full, stored_text val)] else [])"
    using collectChanges_patch1 [OF n leaf(2,1)] by (simp add: full_def)
  have rd: "routePatchDirty ?P [] ([], rootDirty st) = ([], rootDirty st \<or> length full < PATH_BUF \<and> full \<noteq> [] \<and> isPersistent full)"
    using routePatchDirty_patch1 [OF leaf(1), of "segs k" "[]"] n by (simp add: full_def)
  have sub: "applySub me (dec env ?o) subs = subs" for subs by (simp add: applySub_def)
  obtain st1 ch where c: "commitPatch env False (?P, [], st_db st, [], False) st = (st1, ch)"
    by (cases "commitPatch env False (?P, [], st_db st, [], False) st")
  have f: "ch = (if length full < PATH_BUF then [(full, stored_text val)] else [])"
    "same_rest st st1" "cfgRoot st1 = deepMerge (env_eqn env) (cfgRoot st) ?P"
    "st_subs st1 = st_subs st" "delivered st1 = delivered st"
    "GetObjectItem (env_eqn env) ?P ''s'' \<noteq> None \<longrightarrow>
       rootDirty st1 = (rootDirty st \<or> length full < PATH_BUF \<and> full \<noteq> [] \<and> isPersistent full)"
    using c cc rd by (auto simp: commitPatch_def Let_def startSaveTimer_def same_rest_def split: prod.splits if_splits)
  define d where "d = dec env ?o"
  show ?thesis using parse b c f sub unfolding d_def [symmetric]
    by (auto simp: storageApplyOps_def Let_def fanOut_def same_rest_def simp del: applyBatch.simps)
qed

text \<open>A key whose path is longer than 127 bytes is set but never announced and never
  saved: it reads back, but no subscriber is told and the settings file is not marked dirty,
  although it lies in the persistent namespace.\<close>

theorem long_key_not_saved:
  assumes "name_cmp (env_eqn env)" "storage_ok env st" "key_ok k" "cstr k" "cstr val" "plain_key st k"
    "no_bracket me st" "reaches env me (1 + length (opAppendKV CHR ''S'' k val))"
    "1 + length (opAppendKV CHR ''S'' k val) < 4294967296" "externals st = []"
    "navigatePath (env_eqn env) (cfgRoot st) k \<noteq> Some (strVal val)"
    "length (foldl pathJoin [] (segs k)) \<ge> 128" "segs k = ''s'' # rest"
  shows "\<exists>st'. storageSet env us me k val st = Some st' \<and> delivered st' = delivered st \<and> rootDirty st' = rootDirty st
    \<and> storageGetStr env k def st' = Some (if inferType val = CFG_INT then int_str (atoi val) else val, st')"
proof -
  obtain st' where st': "storageApplyOps env us (0 # opAppendKV CHR ''S'' k val) me st = Some st'"
    "cfgRoot st' = deepMerge (env_eqn env) (cfgRoot st) (patch1 (segs k) (strVal val))" "same_rest st st'"
    "delivered st' = delivered st" "GetObjectItem (env_eqn env) (patch1 (segs k) (strVal val)) ''s'' \<noteq> None \<longrightarrow> rootDirty st' = rootDirty st"
    using apply_set_effect [OF assms(4-6,3,10,9,11), of us me] assms(12) by (auto simp: PATH_BUF_def)
  have "GetObjectItem (env_eqn env) (patch1 (segs k) (strVal val)) ''s'' \<noteq> None"
    using assms(13) name_cmp.eqn_refl [OF assms(1)] by (simp add: GetObjectItem_def)
  moreover have "storageSet env us me k val st = Some st'"
    using st'(1) emit_single [OF assms(7)] submit_reaches [of env me "0 # opAppendKV CHR ''S'' k val"] assms(8)
    by (simp add: storageSet_def)
  moreover have o: "tree_ok (env_eqn env) (cfgRoot st)" "is_obj (cfgRoot st)" using assms(2) by (auto simp: storage_ok_def)
  have "navigatePath (env_eqn env) (cfgRoot st') k = Some (strVal val)"
    using set_one_nav(1) [OF assms(1) o assms(3) leaf_strVal [of val]] st'(2) by simp
  ultimately show ?thesis using st'(4,5) getStr_plain [of st' k env _ def] same_rest_plain [OF st'(3)] assms(6)
    by (simp add: stored_text_def)
qed

definition long_key :: string where
  "long_key = ''s'' @ CHR ''.'' # replicate 60 CHR ''a'' @ CHR ''.'' # replicate 90 CHR ''b''"

lemma long_key_segs: "segs long_key = [''s'', replicate 60 CHR ''a'', replicate 90 CHR ''b'']"
proof -
  have "split_on CHR ''.'' long_key = [''s'', replicate 60 CHR ''a'', replicate 90 CHR ''b'']"
    unfolding long_key_def by (subst split_on_append_sep, simp) (subst split_on_append_sep, simp, simp)
  then show ?thesis by (simp add: segs_def)
qed

theorem long_key_not_saved_witness:
  "\<exists>st'. storageSet demo_env 0 1 long_key ''x'' (demo_storage (JObj [])) = Some st' \<and> delivered st' = []
    \<and> \<not> rootDirty st' \<and> storageGetStr demo_env long_key [] st' = Some (''x'', st')"
proof -
  have k: "key_ok long_key" "cstr long_key" "cstr ''x''"
    by (simp_all add: key_ok_def long_key_segs SEG_MAX_def cstr_def) (simp_all add: long_key_def)
  have l: "1 + length (opAppendKV CHR ''S'' long_key ''x'') < 4294967296" by (simp add: opAppendKV_def long_key_def)
  have n: "navigatePath ci_eq (JObj []) long_key = None"
    by (simp add: navigatePath_segs [OF k(1)] long_key_segs navStep_def GetObjectItem_def SEG_MAX_def)
  have t: "inferType ''x'' = CFG_STR" by code_simp
  have len: "length (foldl pathJoin [] (segs long_key)) \<ge> 128" by (simp add: long_key_segs pathJoin_def)
  have st: "storage_ok demo_env (demo_storage (JObj []))" "externals (demo_storage (JObj [])) = []"
    "delivered (demo_storage (JObj [])) = []" "\<not> rootDirty (demo_storage (JObj []))"
    by (simp_all add: demo_storage_def storage_ok_def)
  from long_key_not_saved [OF _ st(1) k _ _ _ l st(2) _ len long_key_segs, of 1 0 "[]"]
  show ?thesis using n t st by simp
qed

text \<open>The histories of the subscription table: the actor adds and removes rows, tasks die.\<close>

inductive sub_reach :: "storage_sub list \<Rightarrow> bool" where
  start: "sub_reach []"
| add: "sub_reach subs \<Longrightarrow> task \<noteq> 0 \<Longrightarrow> sub_reach (subAdd task cb scope False subs)"
| add_direct: "sub_reach subs \<Longrightarrow> sub_reach (subAdd 0 cb scope True subs)"
| remove: "sub_reach subs \<Longrightarrow> sub_reach (subRemove task cb scope subs)"
| death: "sub_reach subs \<Longrightarrow> dead \<noteq> 0 \<Longrightarrow> sub_reach (storageOnTaskDeath dead subs)"

lemma sub_reach_ok: "sub_reach subs \<Longrightarrow> subs_ok subs"
  by (induction rule: sub_reach.induct)
    (auto simp: subAdd_ok subRemove_ok storageOnTaskDeath_ok, simp add: subs_ok_def)

text \<open>C40. The subscription table over every history of subscriptions, removals and task deaths:
  it never holds more than 256 rows or a live subscription twice; a queued subscription keeps every
  other live row and adds the new one unless 256 live rows are there already, so a dead owner's row
  never costs a slot.\<close>

theorem subscription_kept:
  assumes "sub_reach subs" "task \<noteq> 0"
    "row = \<lparr>sub_task = task, sub_cb = cb, sub_scope = scope, sub_direct = False\<rparr>"
  defines "alive \<equiv> filter (\<lambda>s. \<not> sub_dead s) subs"
  shows "length (subAdd task cb scope False subs) \<le> 256 \<and> distinct (subAdd task cb scope False subs)
    \<and> set (subAdd task cb scope False subs)
        = set alive \<union> (if length alive < 256 \<or> row \<in> set alive then {row} else {})"
proof -
  have ok: "subs_ok subs" by (rule sub_reach_ok [OF assms(1)])
  have r: "distinct (subReap subs)" "length (subReap subs) = length alive" "set (subReap subs) = set alive"
    "length (subReap subs) \<le> 256"
    using subReap_ok [OF ok] length_subReap [of subs] set_subReap [of subs] by (auto simp: alive_def STORAGE_MAX_SUBS_def)
  show ?thesis using r by (auto simp: subAdd_def Let_def STORAGE_MAX_SUBS_def assms(3))
qed

theorem subscription_kept_witness:
  "length (subAdd 5 9 ''s.'' False []) \<le> 256 \<and> distinct (subAdd 5 9 ''s.'' False [])
    \<and> set (subAdd 5 9 ''s.'' False []) = {\<lparr>sub_task = 5, sub_cb = 9, sub_scope = ''s.'', sub_direct = False\<rparr>}"
  using subscription_kept [OF sub_reach.start _ refl, of 5 9 "''s.''"] by simp

text \<open>A change reaches exactly its subscribers: with memory for the messages, a task other
  than the storage task unpacks for a callback the key and the first 512 bytes of the value if
  and only if it has a live row for that callback whose scope is a prefix of the key.\<close>

theorem change_reaches_subscribers:
  assumes "cstr key" "cstr val" "cb \<noteq> 0" "t \<noteq> 0" "t \<noteq> self" "\<forall>n. alloc n"
  shows "(\<exists>m. Queued t m \<in> set (notifyChange self alloc subs key val)
        \<and> storageChangeDispatch m = Some (Some (cb, key, take 512 val)))
    \<longleftrightarrow> (\<exists>s \<in> set subs. sub_task s = t \<and> sub_cb s = cb \<and> \<not> sub_direct s
          \<and> take (length (sub_scope s)) key = sub_scope s)"
proof -
  have q: "Queued t m \<in> set (notifyOne self alloc key val s) \<longleftrightarrow> sub_task s = t \<and> \<not> sub_direct s
      \<and> take (length (sub_scope s)) key = sub_scope s \<and> m = changedMsg (sub_cb s) key val" for s m
    using assms(4-6) by (auto simp: notifyOne_def sub_dead_def)
  have d: "storageChangeDispatch (changedMsg c key val) = Some (Some (cb, key, take 512 val)) \<longleftrightarrow> c = cb" for c
  proof (cases "c = 0")
    case True
    have "storageChangeDispatch (changedMsg 0 key val) \<noteq> Some (Some x)" for x
      by (simp add: storageChangeDispatch_def Let_def changedMsg_def)
    then show ?thesis using True assms(3) by metis
  next
    case False
    then show ?thesis using dispatch_changedMsg [OF False, of key val] assms(1,2)
      by (auto simp: cstr_def STORAGE_NOTIFY_VAL_MAX_def)
  qed
  show ?thesis using d unfolding notifyChange_def by (auto simp: q)
qed

theorem change_reaches_subscribers_witness:
  "\<exists>m. Queued 5 m \<in> set (notifyChange 1 (\<lambda>_. True)
          [\<lparr>sub_task = 5, sub_cb = 9, sub_scope = ''s.'', sub_direct = False\<rparr>] ''s.a'' ''1'')
      \<and> storageChangeDispatch m = Some (Some (9, ''s.a'', take 512 ''1''))"
  using change_reaches_subscribers [of "''s.a''" "''1''" 9 5 1 "\<lambda>_. True"
      "[\<lparr>sub_task = 5, sub_cb = 9, sub_scope = ''s.'', sub_direct = False\<rparr>]"]
  by (simp add: cstr_def)

text \<open>The notification queue keeps the newest 256 messages in order: after any number of
  messages the worker sends the last 256 of those waiting and arriving, oldest first, and counts
  the rest as dropped.\<close>

theorem queue_keeps_newest:
  assumes "nq_worker q" "length (nq_jobs q) \<le> 256" "q' = foldl (\<lambda>q j. notifyEnqueue j q) q js"
  shows "nq_sent (notifyDrain q') = nq_sent q @ drop (length (nq_jobs q @ js) - 256) (nq_jobs q @ js)
    \<and> nq_jobs (notifyDrain q') = [] \<and> nq_dropped q' = nq_dropped q + of_nat (length (nq_jobs q @ js) - 256)"
  using foldl_enqueue [of q js] assms notifyDrain_all [of q']
  by (simp add: lastn_def STORAGE_NOTIFY_QUEUE_MAX_def)

theorem queue_keeps_newest_witness:
  "nq_sent (notifyDrain (foldl (\<lambda>q j. notifyEnqueue j q) \<lparr>nq_worker = True, nq_jobs = [], nq_dropped = 0, nq_sent = []\<rparr>
      [(5, [1]), (6, [2])])) = [(5, [1]), (6, [2])]"
  using queue_keeps_newest [of "\<lparr>nq_worker = True, nq_jobs = [], nq_dropped = 0, nq_sent = []\<rparr>" _ "[(5, [1]), (6, [2])]", OF _ _ refl]
  by simp

end
