(* ===== verification/Storage_Bracket.thy ===== *)
theory Storage_Bracket
  imports Storage_Props
begin

section \<open>Brackets and patches of several keys\<close>

text \<open>
  Writes between \<open>storageBegin\<close> and \<open>storageEnd\<close> collect in the calling task's accumulator and
  reach the actor as one list. The second half is what such a list does to the tree when its keys
  are fields of one element of an array.
\<close>

subsection \<open>One bracket is one list of operations\<close>

text \<open>A task can open a bracket when it has none open and the table has a row for it.\<close>

definition bracket_free :: "ptr \<Rightarrow> storage \<Rightarrow> bool" where
  "bracket_free me st \<longleftrightarrow> (case accumFindOrCreate me (accums st) of
     (None, _) \<Rightarrow> False | (Some k, as) \<Rightarrow> ac_depth (as ! k) = 0)"

definition own_row :: "ptr \<Rightarrow> nat \<Rightarrow> op_accum list \<Rightarrow> bool" where
  "own_row me k as \<longleftrightarrow> k < length as \<and> ac_active (as ! k) \<and> ac_task (as ! k) = me
     \<and> (\<forall>j < k. \<not> (ac_active (as ! j) \<and> ac_task (as ! j) = me))"

lemma accumFind_own: "accumFind me as = Some k \<longleftrightarrow> own_row me k as"
proof (induction as arbitrary: k)
  case (Cons a as)
  show ?case
  proof (cases k)
    case 0
    then show ?thesis using Cons by (auto simp: own_row_def split: option.splits)
  next
    case (Suc k')
    have "(\<forall>j < Suc k'. \<not> (ac_active ((a # as) ! j) \<and> ac_task ((a # as) ! j) = me))
        \<longleftrightarrow> \<not> (ac_active a \<and> ac_task a = me) \<and> (\<forall>j < k'. \<not> (ac_active (as ! j) \<and> ac_task (as ! j) = me))"
      unfolding All_less_Suc2 by simp
    then show ?thesis using Cons [of k'] Suc by (auto simp: own_row_def)
  qed
qed (simp add: own_row_def)

lemma accumFind_None: "accumFind me as = None \<longleftrightarrow> (\<forall>a \<in> set as. \<not> (ac_active a \<and> ac_task a = me))"
  by (induction as) auto

lemma accumFree_Some: "accumFree as = Some k \<Longrightarrow> k < length as"
  by (induction as arbitrary: k) (auto split: if_splits)

lemma findOrCreate_own: "accumFindOrCreate me as = (Some k, as') \<Longrightarrow> own_row me k as'"
proof (cases "accumFind me as")
  case None
  assume "accumFindOrCreate me as = (Some k, as')"
  then have k: "accumFree as = Some k"
    "as' = as[k := (as ! k)\<lparr>ac_task := me, ac_depth := 0, ac_silent := False, ac_active := True\<rparr>]"
    using None by (auto simp: accumFindOrCreate_def split: option.splits)
  have "\<not> (ac_active (as ! j) \<and> ac_task (as ! j) = me)" if "j < k" for j
    using None accumFree_Some [OF k(1)] that unfolding accumFind_None by (auto dest: nth_mem)
  then show ?thesis using k accumFree_Some [OF k(1)] by (simp add: own_row_def)
next
  case (Some i)
  assume "accumFindOrCreate me as = (Some k, as')"
  then show ?thesis using Some accumFind_own [of me as i] by (simp add: accumFindOrCreate_def)
qed

text \<open>The state inside a bracket that has collected \<open>acc\<close>.\<close>

definition bracketed :: "nat \<Rightarrow> op_accum list \<Rightarrow> bool \<Rightarrow> bytes \<Rightarrow> storage \<Rightarrow> storage" where
  "bracketed k as silent acc st =
     st\<lparr>accums := as[k := (as ! k)\<lparr>ac_depth := 1, ac_ops := acc, ac_silent := silent\<rparr>]\<rparr>"

definition released :: "nat \<Rightarrow> op_accum list \<Rightarrow> bool \<Rightarrow> storage \<Rightarrow> storage" where
  "released k as silent st = st\<lparr>accums := as[k := (as ! k)\<lparr>ac_depth := 0, ac_ops := [], ac_silent := silent\<rparr>]\<rparr>"

lemma bracketed_sel [simp]:
  "cfgRoot (bracketed k as s acc st) = cfgRoot st" "st_db (bracketed k as s acc st) = st_db st"
  "providers (bracketed k as s acc st) = providers st" "plain_key (bracketed k as s acc st) x = plain_key st x"
  "cfgRoot (released k as s st) = cfgRoot st" "st_db (released k as s st) = st_db st"
  "providers (released k as s st) = providers st" "plain_key (released k as s st) x = plain_key st x"
  "st_subs (released k as s st) = st_subs st" "delivered (released k as s st) = delivered st"
  by (simp_all add: bracketed_def released_def plain_key_def)

lemma find_bracketed [simp]:
  assumes "own_row me k as"
  shows "accumFind me (as[k := (as ! k)\<lparr>ac_depth := d, ac_ops := acc, ac_silent := s\<rparr>]) = Some k"
  using assms unfolding accumFind_own by (auto simp: own_row_def)

lemma begin_bracketed:
  assumes "bracket_free me st"
  obtains k as where "own_row me k as" "storageBegin me st = bracketed k as False [] st"
    "storageBeginSilent me st = bracketed k as True [] st"
proof -
  obtain k as where ka: "accumFindOrCreate me (accums st) = (Some k, as)" "ac_depth (as ! k) = 0"
    using assms by (auto simp: bracket_free_def split: option.splits prod.splits)
  have "(as ! k)\<lparr>ac_depth := 1, ac_ops := [], ac_silent := s\<rparr> = (as ! k)\<lparr>ac_depth := 1, ac_ops := [], ac_silent := s\<rparr>" for s
    by simp
  then show ?thesis using that [OF findOrCreate_own [OF ka(1)]] ka
    by (simp add: storageBegin_def storageBeginSilent_def openBracket_def bracketed_def Let_def)
qed

lemma row_update:
  "a\<lparr>ac_depth := d, ac_silent := s, ac_ops := x\<rparr> = a\<lparr>ac_depth := d, ac_ops := x, ac_silent := s\<rparr>"
  "a\<lparr>ac_silent := s, ac_depth := d, ac_ops := x\<rparr> = a\<lparr>ac_depth := d, ac_ops := x, ac_silent := s\<rparr>"
  by (cases a, simp)+

lemma emit_bracketed:
  assumes "own_row me k as"
  shows "storageEmitOp env us me op silent (bracketed k as s acc st) = Some (bracketed k as s (acc @ op) st)"
  using assms by (simp add: storageEmitOp_def bracketed_def Let_def row_update own_row_def [of me k as])

lemma end_bracketed:
  assumes "own_row me k as" "acc \<noteq> []"
  shows "storageEnd env us me (bracketed k as s acc st)
    = storageSubmit env us me ((if s then OP_F_SILENT else 0) # acc) (released k as s st)"
  using assms by (simp add: storageEnd_def bracketed_def released_def Let_def row_update own_row_def [of me k as])

fun emits :: "storage_env \<Rightarrow> u32 \<Rightarrow> ptr \<Rightarrow> (bytes \<times> bool) list \<Rightarrow> storage \<Rightarrow> storage option" where
  "emits env us me [] st = Some st"
| "emits env us me ((op, silent) # ops) st = do { st1 \<leftarrow> storageEmitOp env us me op silent st; emits env us me ops st1 }"

lemma released_free: "own_row me k as \<Longrightarrow> bracket_free me (released k as s st)"
  using find_bracketed [where d = 0 and acc = "[]" and s = s]
  by (simp add: bracket_free_def accumFindOrCreate_def released_def own_row_def [of me k as])

lemma emits_bracketed:
  "own_row me k as \<Longrightarrow> emits env us me ops (bracketed k as s acc st) = Some (bracketed k as s (acc @ concat (map fst ops)) st)"
  by (induction ops arbitrary: acc) (auto simp: emit_bracketed)

text \<open>C31. A bracket is a transaction: for a task that has no bracket open, and that has a row of
  the table of 24 accumulators or finds one free, whatever writes it makes between \<open>storageBegin\<close>
  and \<open>storageEnd\<close> change nothing but its accumulator until the end, which hands them to the actor
  as one list in their order, notified once, and leaves the row idle for the next bracket. (With
  the table full and no row of its own the writes of a task go out one by one.)\<close>

theorem bracket_is_one_batch:
  assumes "bracket_free me st" "concat (map fst ops) \<noteq> []"
  shows "\<exists>st1 st2. emits env us me ops (storageBegin me st) = Some st1
    \<and> st1 = st\<lparr>accums := accums st1\<rparr> \<and> st2 = st\<lparr>accums := accums st2\<rparr> \<and> bracket_free me st2
    \<and> storageEnd env us me st1 = storageSubmit env us me (0 # concat (map fst ops)) st2"
proof -
  obtain k as where k: "own_row me k as" "storageBegin me st = bracketed k as False [] st"
    using begin_bracketed [OF assms(1)] by metis
  have e: "emits env us me ops (storageBegin me st) = Some (bracketed k as False (concat (map fst ops)) st)"
    using emits_bracketed [OF k(1), of env us ops False "[]" st] k(2) by simp
  show ?thesis using e released_free [OF k(1), of False st] end_bracketed [OF k(1) assms(2), of env us False st]
    by (intro exI [of _ "bracketed k as False (concat (map fst ops)) st"] exI [of _ "released k as False st"])
      (simp add: bracketed_def released_def)
qed

theorem bracket_is_one_batch_witness:
  "\<exists>st1 st2. emits demo_env 0 1 [(opAppendDelete ''s.a'', False), (opAppendDelete ''s.b'', False)]
       (storageBegin 1 ((demo_storage demo_nets)\<lparr>accums := [\<lparr>ac_task = 0, ac_ops = [], ac_depth = 0, ac_silent = False, ac_active = False\<rparr>]\<rparr>)) = Some st1
    \<and> cfgRoot st1 = demo_nets
    \<and> storageEnd demo_env 0 1 st1 = storageSubmit demo_env 0 1 (0 # opAppendDelete ''s.a'' @ opAppendDelete ''s.b'') st2"
proof -
  let ?st = "(demo_storage demo_nets)\<lparr>accums := [\<lparr>ac_task = 0, ac_ops = [], ac_depth = 0, ac_silent = False, ac_active = False\<rparr>]\<rparr>"
  let ?ops = "[(opAppendDelete ''s.a'', False), (opAppendDelete ''s.b'', False)]"
  have f: "bracket_free 1 ?st" by (simp add: bracket_free_def accumFindOrCreate_def)
  have n: "concat (map fst ?ops) \<noteq> []" by (simp add: opAppendDelete_def)
  obtain st1 st2 where r: "emits demo_env 0 1 ?ops (storageBegin 1 ?st) = Some st1" "st1 = ?st\<lparr>accums := accums st1\<rparr>"
    "storageEnd demo_env 0 1 st1 = storageSubmit demo_env 0 1 (0 # concat (map fst ?ops)) st2"
    using bracket_is_one_batch [OF f n, of demo_env 0] by blast
  have "cfgRoot st1 = demo_nets" by (subst r(2)) simp
  then show ?thesis using r(1,3) by (intro exI [of _ st1] exI [of _ st2]) (simp del: emits.simps)
qed

subsection \<open>Several fields of one element\<close>

text \<open>\<open>obj_arr\<close>: the array at the end of a path through objects. \<open>fieldOf\<close>: a field of an element.\<close>

definition obj_arr :: "name_eq \<Rightarrow> json \<Rightarrow> string list \<Rightarrow> kids \<Rightarrow> bool" where
  "obj_arr eqn root pp a \<longleftrightarrow> no_arr eqn (Some root) pp \<and> navSegs eqn root pp = Some (JArr a)"

definition fieldOf :: "name_eq \<Rightarrow> kids \<Rightarrow> nat \<Rightarrow> string \<Rightarrow> json option" where
  "fieldOf eqn a i f = Option.bind (arrGet a i) (\<lambda>e. GetObjectItem eqn e f)"

lemma navSegs_append: "navSegs eqn j (pp @ qq) = Option.bind (navSegs eqn j pp) (\<lambda>n. navSegs eqn n qq)"
  by (induction pp arbitrary: j) (auto split: option.splits)

lemma isAllDigits_nat_str: "isAllDigits (nat_str i)"
  using nat_str_digits by (auto simp: isAllDigits_def list_all_iff)

lemma atoi_nat_str: "int i \<le> INT32_MAX \<Longrightarrow> atoi (nat_str i) = int i"
  using atoi_nat_str_rest [of "[]" i] by simp

lemma length_nat_str_int32: "int i \<le> INT32_MAX \<Longrightarrow> length (nat_str i) < SEG_MAX"
  using length_nat_str_le [of i 10] by (simp add: INT32_MAX_def SEG_MAX_def)

lemma nav_field:
  assumes "obj_arr eqn root pp a" "int i \<le> INT32_MAX" "length f < SEG_MAX" "\<not> isAllDigits f"
  shows "navSegs eqn root (pp @ [nat_str i, f]) = fieldOf eqn a i f"
proof -
  have "navStep eqn (JArr a) (nat_str i) = arrGet a i"
    using atoi_nat_str [OF assms(2)] isAllDigits_nat_str by (simp add: navStep_def GetArrayItem_def arrGet_def)
  then show ?thesis using assms length_nat_str_int32 [OF assms(2)]
    by (auto simp: obj_arr_def navSegs_append navStep_def fieldOf_def split: option.splits)
qed

text \<open>The patch of a list of fields below one path; it is empty before the first.\<close>

definition ppatch :: "string list \<Rightarrow> kids \<Rightarrow> json" where
  "ppatch pp ek = (if ek = [] then JObj [] else patch1 pp (JObj ek))"

lemma patch1_append: "patch1 (pp @ qq) v = patch1 pp (patch1 qq v)"
  by (induction pp) auto

context name_cmp
begin

lemma noc_patch1:
  "pp \<noteq> [] \<Longrightarrow> nocSegs eqn (setLeaf eqn v) (patch1 pp (JObj ek)) (pp @ [f])
     = patch1 pp (JObj (kidsDel eqn f ek @ [(Some f, v)]))"
proof (induction pp)
  case (Cons s pp)
  have leaf: "is_obj (patch1 pp (JObj ek))" by (cases pp) auto
  show ?case
  proof (cases "pp = []")
    case True
    then show ?thesis using eqn_refl
      by (simp add: GetObjectItem_def putItem_def setLeaf_def AddItemToObject_def DeleteItemFromObject_def)
  next
    case False
    then show ?thesis using Cons(1) leaf eqn_refl by (simp add: GetObjectItem_def putItem_def)
  qed
qed simp

lemma noc_ppatch:
  "pp \<noteq> [] \<Longrightarrow> nocSegs eqn (setLeaf eqn v) (ppatch pp ek) (pp @ [f]) = ppatch pp (kidsDel eqn f ek @ [(Some f, v)])"
  using noc_patch1 [of pp v ek f] nocSegs_patch1 [of "pp @ [f]" eqn v]
  by (auto simp: ppatch_def patch1_append)

lemma nav_merge_arr:
  assumes "obj_arr eqn root pp a" "tree_ok eqn root" "list_all (\<lambda>s. length s < SEG_MAX) pp" "isAllDigits s" "y \<noteq> JNull"
  shows "\<exists>j. mergeItem eqn (Some root) (patch1 pp (JObj [(Some s, y)])) = Some j
    \<and> obj_arr eqn j pp (mergeElems eqn a [(Some s, y)])"
  using assms
proof (induction pp arbitrary: root)
  case Nil
  have "deletions [(Some s, y)] = []" using Nil(5) by (simp add: deletions_def)
  then show ?case using Nil by (simp add: obj_arr_def deepMergeIntoArray_def allNumericKeys.simps)
next
  case (Cons t pp)
  let ?X = "patch1 pp (JObj [(Some s, y)])"
  obtain n where n: "\<not> is_arr root" "GetObjectItem eqn root t = Some n" "obj_arr eqn n pp a" "length t < SEG_MAX"
    using Cons(2) by (auto simp: obj_arr_def navStep_def split: option.splits if_splits)
  then obtain dk where dk: "root = JObj dk" by (cases root) (auto simp: GetObjectItem_def)
  have ok: "names_ok eqn dk" "tree_ok eqn n"
    using Cons(3) dk tree_ok_child [OF Cons(3) n(2)] by auto
  obtain j where j: "mergeItem eqn (Some n) ?X = Some j" "obj_arr eqn j pp (mergeElems eqn a [(Some s, y)])"
    using Cons(1) [OF n(3) ok(2) _ Cons(5,6)] Cons(4) by auto
  obtain k where "mergeKids eqn (JObj dk) [(Some t, ?X)] = JObj k" "kidsGet eqn t k = mergeItem eqn (kidsGet eqn t dk) ?X"
    using kidsGet_merge [OF ok(1), of "[(Some t, ?X)]"] by (auto simp: eqn_refl)
  then show ?case using j n dk by (simp add: obj_arr_def GetObjectItem_def navStep_def)
qed

end

definition fkids :: "(string \<times> string) list \<Rightarrow> kids" where
  "fkids fs = map (\<lambda>(f, v). (Some f, strVal v)) fs"

lemma fkids_simps [simp]: "fkids [] = []" "fkids ((f, v) # fs) = (Some f, strVal v) # fkids fs" "fkids (xs @ ys) = fkids xs @ fkids ys"
  by (simp_all add: fkids_def)

text \<open>A field whose value the tree already has is left out of the patch.\<close>

definition changed :: "name_eq \<Rightarrow> json \<Rightarrow> string list \<Rightarrow> string \<times> string \<Rightarrow> bool" where
  "changed eqn root qq fv \<longleftrightarrow> \<not> (\<exists>c. navSegs eqn root (qq @ [fst fv]) = Some c \<and> sameLeaf (strVal (snd fv)) c)"

context name_cmp
begin

lemma kidsGet_mem: "names_ok eqn k \<Longrightarrow> (Some f, v) \<in> set k \<Longrightarrow> kidsGet eqn f k = Some v"
proof (induction k)
  case (Cons c k)
  obtain m w where c: "c = (Some m, w)" using names_ok_Some [OF Cons(2)] by blast
  show ?case
  proof (cases "c = (Some f, v)")
    case True
    then show ?thesis using eqn_refl by simp
  next
    case False
    then have g: "kidsGet eqn f k = Some v" using Cons by (auto dest: names_ok_tl)
    then have "\<not> hasName eqn f c" using names_ok_absent [OF Cons(2), of f] by auto
    then show ?thesis using g by simp
  qed
qed simp

lemma kidsDel_absent: "kidsGet eqn f k = None \<Longrightarrow> kidsDel eqn f k = k"
  by (induction k) (auto split: if_splits)

lemma names_ok_append: "names_ok eqn (xs @ (Some f, v) # ys) \<Longrightarrow> names_ok eqn xs \<and> kidsGet eqn f xs = None \<and> names_ok eqn (xs @ ys)"
proof (induction xs)
  case Nil
  then show ?case by (auto dest: names_ok_tl)
next
  case (Cons c xs)
  obtain m w where c: "c = (Some m, w)" using names_ok_Some [of c "xs @ (Some f, v) # ys"] Cons(2) by auto
  have get: "kidsGet eqn n (xs @ ys') = None \<longleftrightarrow> kidsGet eqn n xs = None \<and> kidsGet eqn n ys' = None" for n xs ys'
    by (induction xs) auto
  have ih: "names_ok eqn xs" "kidsGet eqn f xs = None" "names_ok eqn (xs @ ys)" using Cons by (auto dest: names_ok_tl)
  have "kidsGet eqn m xs = None" "kidsGet eqn m ys = None" "\<not> eqn m f"
    using Cons(2) c by (auto simp: get split: if_splits)
  moreover have "\<not> eqn f m" using calculation(3) eqn_sym by blast
  ultimately show ?case using ih c by (auto simp: get)
qed

lemma patch_fields:
  assumes "\<forall>fv \<in> set fs. key_ok (key (fst fv)) \<and> segs (key (fst fv)) = qq @ [fst fv]" "qq \<noteq> []" "env_eqn env = eqn"
    "names_ok eqn (ek @ fkids fs)"
  shows "foldl (\<lambda>p o'. patchOp env root (dec env o') p) (ppatch qq ek) (map (\<lambda>(f, v). ASet CHR ''S'' (key f) v) fs)
    = ppatch qq (ek @ fkids (filter (changed eqn root qq) fs))"
  using assms(1,4)
proof (induction fs arbitrary: ek)
  case (Cons fv fs)
  obtain f v where fv: "fv = (f, v)" by (cases fv)
  have k: "key_ok (key f)" "segs (key f) = qq @ [f]" using Cons(2) fv by auto
  have n: "kidsGet eqn f ek = None" "names_ok eqn (ek @ fkids fs)" "names_ok eqn ((ek @ [(Some f, strVal v)]) @ fkids fs)"
    using Cons(3) fv names_ok_append [of ek f "strVal v" "fkids fs"] by auto
  have same: "(\<exists>c. navigatePath eqn root (key f) = Some c \<and> sameLeaf (strVal v) c) \<longleftrightarrow> \<not> changed eqn root qq fv"
    using navigatePath_segs [OF k(1)] k(2) fv by (simp add: changed_def)
  have noc: "fst (navigateOrCreate eqn (setLeaf eqn (strVal v)) (ppatch qq ek) (key f)) = ppatch qq (ek @ [(Some f, strVal v)])"
    using k noc_ppatch [OF assms(2), of "strVal v" ek f] kidsDel_absent [OF n(1)]
    by (simp add: navigateOrCreate_def key_ok_def nocWalk_segs)
  have "patchOp env root (dec env (ASet CHR ''S'' (key f) v)) (ppatch qq ek)
      = (if changed eqn root qq fv then ppatch qq (ek @ [(Some f, strVal v)]) else ppatch qq ek)"
    unfolding patchOp_def assms(3) Let_def using same noc by simp
  moreover have "\<forall>fv \<in> set fs. key_ok (key (fst fv)) \<and> segs (key (fst fv)) = qq @ [fst fv]" using Cons(2) by simp
  note Cons(1) [OF this n(2)] Cons(1) [OF this n(3)]
  ultimately show ?case using fv by simp
qed simp

end

lemma fkids_filter: "fkids (filter P fs) = [] \<Longrightarrow> fv \<in> set fs \<Longrightarrow> \<not> P fv"
  by (induction fs) (auto simp: fkids_def split: if_splits)

lemma fkids_mem: "(Some f, w) \<in> set (fkids fs) \<longleftrightarrow> (\<exists>v. (f, v) \<in> set fs \<and> w = strVal v)"
  by (auto simp: fkids_def)

lemma no_null_fkids: "no_null (fkids fs)"
  by (induction fs) (auto simp: no_null_def strVal_def)

lemma tree_ok_fkids: "\<forall>c \<in> set (fkids fs). tree_ok eqn (snd c)"
  by (auto simp: fkids_def strVal_def)

context name_cmp
begin

lemma names_ok_fkids_filter: "names_ok eqn (fkids fs) \<Longrightarrow> names_ok eqn (fkids (filter P fs))"
proof (induction fs)
  case (Cons fv fs)
  have "kidsGet eqn f (fkids fs) = None \<Longrightarrow> kidsGet eqn f (fkids (filter P fs)) = None" for f
    by (induction fs) (auto simp: fkids_def split: if_splits)
  then show ?case using Cons by (cases fv) auto
qed simp

lemma fkids_unchanged:
  assumes "names_ok eqn (fkids fs)" "(f, v) \<in> set fs" "\<not> P (f, v)"
  shows "kidsGet eqn f (fkids (filter P fs)) = None"
  using assms
proof (induction fs)
  case (Cons fv fs)
  have keep: "kidsGet eqn f (fkids fs) = None \<Longrightarrow> kidsGet eqn f (fkids (filter P fs)) = None"
    by (induction fs) (auto simp: fkids_def split: if_splits)
  obtain g w where fv: "fv = (g, w)" by (cases fv)
  have n: "kidsGet eqn g (fkids fs) = None" "names_ok eqn (fkids fs)" using Cons(2) fv by auto
  show ?case
  proof (cases "fv = (f, v)")
    case True
    then show ?thesis using Cons(4) keep n(1) fv by simp
  next
    case False
    then have m: "(f, v) \<in> set fs" using Cons(3) by simp
    then have "kidsGet eqn f (fkids fs) = Some (strVal v)"
      using kidsGet_mem [OF n(2)] by (auto simp: fkids_mem)
    then have "\<not> eqn f g" using n(1) kidsGet_cong [of f g] by auto
    then show ?thesis using Cons(1) [OF n(2) m Cons(4)] fv by simp
  qed
qed simp

text \<open>The element after the patch: every field has its new value.\<close>

lemma merged_fields:
  assumes "names_ok eqn (fkids fs)" "(f, v) \<in> set fs" "ek = fkids (filter P fs)"
    "\<not> P (f, v) \<Longrightarrow> \<exists>dk. d = Some (JObj dk) \<and> kidsGet eqn f dk = Some (strVal v)"
    "\<And>j. d = Some j \<Longrightarrow> tree_ok eqn j"
  shows "GetObjectItem eqn (mergeElem eqn d (JObj ek)) f = Some (strVal v)"
proof -
  have ek: "names_ok eqn ek" using names_ok_fkids_filter [OF assms(1)] assms(3) by simp
  have hit: "P (f, v) \<Longrightarrow> kidsGet eqn f ek = Some (strVal v)"
    using kidsGet_mem [OF ek] assms(2,3) by (auto simp: fkids_mem)
  show ?thesis
  proof (cases "\<exists>dk. d = Some (JObj dk)")
    case True
    then obtain dk where d: "d = Some (JObj dk)" by blast
    obtain k where k: "mergeKids eqn (JObj dk) ek = JObj k"
      "kidsGet eqn f k = (case kidsGet eqn f ek of None \<Rightarrow> kidsGet eqn f dk | Some v \<Rightarrow> mergeItem eqn (kidsGet eqn f dk) v)"
      using kidsGet_merge [OF _ ek, of dk] assms(5) d by auto
    have leaf: "mergeItem eqn x (strVal v) = Some (strVal v)" for x by (simp add: strVal_def)
    show ?thesis
    proof (cases "P (f, v)")
      case True
      then show ?thesis using d k hit leaf by (simp add: GetObjectItem_def)
    next
      case False
      then show ?thesis using d k fkids_unchanged [OF assms(1,2), of P] False assms(3,4) by (auto simp: GetObjectItem_def)
    qed
  next
    case False
    then have "P (f, v)" using assms(4) by blast
    moreover have "mergeElem eqn d (JObj ek) = JObj ek"
      using False by (cases "(eqn, d, JObj ek)" rule: mergeElem.cases) auto
    ultimately show ?thesis using hit by (simp add: GetObjectItem_def)
  qed
qed

end

lemma tree_ok_kid: "tree_ok eqn j \<Longrightarrow> c \<in> set (child_list j) \<Longrightarrow> tree_ok eqn (snd c)"
  by (cases j) auto

lemma tree_ok_nav: "tree_ok eqn j \<Longrightarrow> navSegs eqn j ss = Some n \<Longrightarrow> tree_ok eqn n"
proof (induction ss arbitrary: j)
  case (Cons s ss)
  then obtain c where c: "navStep eqn j s = Some c" "navSegs eqn c ss = Some n" by (auto split: if_splits option.splits)
  have get: "kidsGet eqn s k = Some c \<Longrightarrow> c \<in> snd ` set k" for k by (induction k) (auto split: if_splits)
  have "c \<in> snd ` set (child_list j)"
    using c(1) get by (auto simp: navStep_def GetObjectItem_def GetArrayItem_def split: if_splits)
  then have "tree_ok eqn c" using tree_ok_kid [OF Cons(2)] by blast
  then show ?case using Cons(1) c(2) by blast
qed simp

text \<open>A batch of fields of one element of an array, applied to the tree.\<close>

lemma fields_written:
  assumes nc: "name_cmp eqn" and env: "env_eqn env = eqn" and root: "tree_ok eqn root" "obj_arr eqn root pp a"
    and pp: "pp \<noteq> []" "list_all (\<lambda>s. length s < SEG_MAX) pp" and i: "int i \<le> INT32_MAX"
    and key: "\<forall>fv \<in> set fs. key_ok (key (fst fv)) \<and> segs (key (fst fv)) = pp @ [nat_str i, fst fv] \<and> \<not> isAllDigits (fst fv)"
    and names: "names_ok eqn (fkids fs)" and noarr: "\<And>e. arrGet a i = Some e \<Longrightarrow> \<not> is_arr e" and ne: "fs \<noteq> []"
    and root': "root' = deepMerge eqn root (patchOf env root (map (\<lambda>(f, v). ASet CHR ''S'' (key f) v) fs))"
  obtains a' where "obj_arr eqn root' pp a'" "\<And>f v. (f, v) \<in> set fs \<Longrightarrow> fieldOf eqn a' i f = Some (strVal v)"
    "\<And>j. j < length a \<Longrightarrow> j \<noteq> i \<Longrightarrow> arrGet a' j = arrGet a j" "length a' = max (length a) (Suc i)"
    "tree_ok eqn root'"
proof -
  let ?qq = "pp @ [nat_str i]"
  let ?P = "changed eqn root ?qq"
  define ek where "ek = fkids (filter ?P fs)"
  have patch: "patchOf env root (map (\<lambda>(f, v). ASet CHR ''S'' (key f) v) fs) = ppatch ?qq ek"
    using name_cmp.patch_fields [OF nc, of fs key ?qq env "[]" root] key env names
    by (simp add: patchOf_def ek_def ppatch_def [of _ "[]"])
  have same: "fieldOf eqn a i f = Some (strVal v)" if "(f, v) \<in> set fs" "\<not> ?P (f, v)" for f v
  proof -
    have "length f < SEG_MAX" using key that(1) by (force simp: key_ok_def)
    then have "navSegs eqn root (pp @ [nat_str i, f]) = fieldOf eqn a i f"
      using nav_field [OF root(2) i, of f] key that(1) by force
    then show ?thesis using that(2) sameLeaf_eq by (auto simp: changed_def)
  qed
  show ?thesis
  proof (cases "ek = []")
    case True
    then have r: "root' = root" using root' patch by (simp add: ppatch_def)
    have f: "fieldOf eqn a i f = Some (strVal v)" if "(f, v) \<in> set fs" for f v
      using same [OF that] fkids_filter [OF True [unfolded ek_def] that] by blast
    obtain f v where "(f, v) \<in> set fs" using ne by (cases fs) auto
    then have "i < length a" using f by (fastforce simp: fieldOf_def arrGet_def split: if_splits)
    then show ?thesis using that [of a] f r root by simp
  next
    case False
    have s: "isAllDigits (nat_str i)" "elemIdx (Some (nat_str i)) = i"
      using isAllDigits_nat_str atoi_nat_str [OF i] by (simp_all add: elemIdx_def)
    let ?a' = "mergeElems eqn a [(Some (nat_str i), JObj ek)]"
    obtain t pp' where t: "pp = t # pp'" using pp(1) by (cases pp) auto
    obtain rk where rk: "root = JObj rk"
      using root(2) t by (cases root) (auto simp: obj_arr_def navStep_def GetObjectItem_def split: if_splits)
    have P: "ppatch ?qq ek = patch1 pp (JObj [(Some (nat_str i), JObj ek)])"
      using False by (simp add: ppatch_def patch1_append)
    have m: "mergeItem eqn (Some root) (ppatch ?qq ek) = Some root'"
      unfolding root' patch unfolding P unfolding deepMerge_def rk t by (simp del: mergeKids.simps)
    then have arr: "obj_arr eqn root' pp ?a'"
      using name_cmp.nav_merge_arr [OF nc root(2,1) pp(2) s(1), of "JObj ek"] P by auto
    have nn: "no_null [(Some (nat_str i), JObj ek)]" "distinct (map (elemIdx \<circ> fst) [(Some (nat_str i), JObj ek)])"
      by (simp_all add: no_null_def)
    have el: "arrGet ?a' i = Some (mergeElem eqn (arrGet a i) (JObj ek))"
      by (rule arrGet_merge(1) [OF nn]) (simp add: s(2))
    have okel: "tree_ok eqn e" if "arrGet a i = Some e" for e
    proof -
      have "navSegs eqn root ?qq = Some e"
        using root(2) that atoi_nat_str [OF i] s(1) length_nat_str_int32 [OF i]
        by (auto simp: obj_arr_def navSegs_append navStep_def GetArrayItem_def arrGet_def split: if_splits)
      then show ?thesis using tree_ok_nav [OF root(1)] by blast
    qed
    have fld: "fieldOf eqn ?a' i f = Some (strVal v)" if fv: "(f, v) \<in> set fs" for f v
    proof -
      have "\<exists>dk. arrGet a i = Some (JObj dk) \<and> kidsGet eqn f dk = Some (strVal v)" if nP: "\<not> ?P (f, v)"
      proof -
        obtain e where e: "arrGet a i = Some e" "GetObjectItem eqn e f = Some (strVal v)"
          using same [OF fv nP] by (cases "arrGet a i") (auto simp: fieldOf_def)
        then show ?thesis using noarr [OF e(1)] by (cases e) (auto simp: GetObjectItem_def)
      qed
      then show ?thesis using name_cmp.merged_fields [OF nc names fv ek_def, of "arrGet a i"] okel el
        by (simp add: fieldOf_def del: mergeElems.simps mergeElem.simps)
    qed
    have "tree_ok eqn (patch1 pp' (JObj [(Some (nat_str i), JObj ek)]))"
      using tree_ok_fkids [of "filter ?P fs" eqn] name_cmp.names_ok_fkids_filter [OF nc names, of ?P]
      by (induction pp') (auto simp: ek_def)
    then have "tree_ok eqn root'"
      using merge_tree_ok(1) [OF nc root(1), of "child_list (ppatch ?qq ek)"] root' patch P t
      by (simp add: deepMerge_def del: mergeKids.simps)
    moreover have "length ?a' = max (length a) (Suc i)" using arrGet_merge(3) [OF nn, of eqn a] s(2) by (simp del: mergeElems.simps)
    moreover have "arrGet ?a' j = arrGet a j" if "j < length a" "j \<noteq> i" for j
      by (rule arrGet_merge(2) [OF nn]) (use that s(2) in auto)
    ultimately show ?thesis using that [OF arr fld] by blast
  qed
qed

end
