(* ===== verification/Auth.thy ===== *)
theory Auth
  imports Storage_Api
begin

section \<open>Realms, passwords and session cookies (auth.cpp)\<close>

text \<open>
  The realm and cookie tables live in the configuration tree under \<open>secrets.auth\<close>; every read
  and write goes through the storage API, so the operations thread the storage state in an
  option, \<open>None\<close> being what the storage model calls undefined. The module's own state is the
  backoff: the count of failed logins and the time of the last one. What a call takes from
  outside is in the record \<open>auth_call\<close>: the storage environment and the calling task, SHA-256,
  the random bytes drawn during the call, the two clocks, and the build switch for an open
  device.
\<close>

subsection \<open>Hashes\<close>

definition toHex :: "bytes \<Rightarrow> string" where
  "toHex bs = concat (map (\<lambda>b. [''0123456789abcdef'' ! (unat b div 16), ''0123456789abcdef'' ! (unat b mod 16)]) bs)"

text \<open>
  \<open>sscanf\<close> with \<open>%2x\<close>, as the C library does it: white space is skipped, a sign counts towards
  the two characters, and a lone \<open>0x\<close> reads as zero. The result is the byte kept of the value.
\<close>

definition scanHex2 :: "string \<Rightarrow> 8 word option" where
  "scanHex2 s =
     (case dropWhile c_isspace s of
        [] \<Rightarrow> None
      | c # r \<Rightarrow>
          (if c = CHR ''+'' \<or> c = CHR ''-''
           then (case r of [] \<Rightarrow> None
                 | d # _ \<Rightarrow> map_option (\<lambda>n. if c = CHR ''-'' then - of_nat n else of_nat n) (nib d))
           else case nib c of
                  None \<Rightarrow> None
                | Some hi \<Rightarrow>
                    (case r of [] \<Rightarrow> Some (of_nat hi)
                     | d # _ \<Rightarrow> (case nib d of None \<Rightarrow> Some (of_nat hi) | Some lo \<Rightarrow> Some (of_nat (16 * hi + lo))))))"

fun fromHex :: "string \<Rightarrow> nat \<Rightarrow> bytes option" where
  "fromHex hex 0 = Some []"
| "fromHex hex (Suc n) =
     (case scanHex2 hex of
        None \<Rightarrow> None
      | Some b \<Rightarrow> map_option ((#) b) (fromHex (drop 2 hex) n))"

text \<open>The digest is over the salt and the password's bytes.\<close>

definition hashPassword :: "(bytes \<Rightarrow> bytes) \<Rightarrow> string \<Rightarrow> bytes \<Rightarrow> string" where
  "hashPassword sha password salt = toHex salt @ '':'' @ toHex (sha (salt @ bytes_of password))"

definition verifyPassword :: "(bytes \<Rightarrow> bytes) \<Rightarrow> string \<Rightarrow> string \<Rightarrow> bool" where
  "verifyPassword sha password stored \<longleftrightarrow>
     CHR '':'' \<in> set stored \<and> length (before CHR '':'' stored) = 32
     \<and> (case fromHex stored 16 of None \<Rightarrow> False | Some salt \<Rightarrow> hashPassword sha password salt = stored)"

subsection \<open>A call and the state\<close>

datatype auth_err = AUTH_OK | AUTH_NO_SUCH_REALM | AUTH_WRONG_PASSWORD | AUTH_SAME_AS_OTHER_REALM | AUTH_RATE_LIMITED

record auth_call =
  au_env :: storage_env
  au_us :: u32
  au_me :: ptr
  au_sha :: "bytes \<Rightarrow> bytes"
  au_random :: bytes
  au_millis :: u32
  au_now :: int
  au_open :: bool

record backoff =
  lastFailMs :: u32
  failCount :: int

definition MAX_COOKIES :: nat where "MAX_COOKIES = 16"
definition COOKIE_EXPIRY_S :: int where "COOKIE_EXPIRY_S = 60 * 24 * 3600"
definition MAX_BACKOFF_S :: u32 where "MAX_BACKOFF_S = 300"

definition hashPasswordNew :: "auth_call \<Rightarrow> string \<Rightarrow> string" where
  "hashPasswordNew c password = hashPassword (au_sha c) password (take 16 (au_random c))"

text \<open>\<open>storageGetStr\<close> into a local buffer of \<open>n\<close> bytes.\<close>

definition getBuf :: "auth_call \<Rightarrow> string \<Rightarrow> nat \<Rightarrow> storage \<Rightarrow> (string \<times> storage) option" where
  "getBuf c key n st =
     (case storageGetBuf (au_env c) key n [] st of
        Some (Some s, st1) \<Rightarrow> Some (s, st1)
      | _ \<Rightarrow> None)"

definition setStr :: "auth_call \<Rightarrow> string \<Rightarrow> string \<Rightarrow> storage \<Rightarrow> storage option" where
  "setStr c key val st = storageSet (au_env c) (au_us c) (au_me c) key val st"

text \<open>\<open>strtoll\<close> to a 64-bit \<open>time_t\<close>, saturating.\<close>

definition strtoll :: "string \<Rightarrow> int" where
  "strtoll s =
     (case dropWhile c_isspace s of
        [] \<Rightarrow> 0
      | c # r \<Rightarrow>
          (if c = CHR ''-'' then max (- (2 ^ 63)) (- int (digits_val r))
           else if c = CHR ''+'' then min (2 ^ 63 - 1) (int (digits_val r))
           else min (2 ^ 63 - 1) (int (digits_val (c # r)))))"

subsection \<open>Realms\<close>

definition realmKey :: "nat \<Rightarrow> string \<Rightarrow> string" where
  "realmKey i field = ''secrets.auth.realms.'' @ nat_str i @ ''.'' @ field"

definition realmCount :: "auth_call \<Rightarrow> storage \<Rightarrow> nat option" where
  "realmCount c st = storageArrayCount (au_env c) ''secrets.auth.realms.'' st"

definition realmGet :: "auth_call \<Rightarrow> nat \<Rightarrow> storage \<Rightarrow> ((string \<times> string) option \<times> storage) option" where
  "realmGet c i st =
     do {
       (name, st1) \<leftarrow> getBuf c (realmKey i ''name'') 32 st;
       (if name = [] then Some (None, st1)
        else do {
          (hash, st2) \<leftarrow> getBuf c (realmKey i ''hash'') 128 st1;
          Some (Some (name, hash), st2) }) }"

fun realmFindIn :: "auth_call \<Rightarrow> string \<Rightarrow> nat list \<Rightarrow> storage \<Rightarrow> (nat option \<times> storage) option" where
  "realmFindIn c realm [] st = Some (None, st)"
| "realmFindIn c realm (i # is) st =
     do {
       (r, st1) \<leftarrow> realmGet c i st;
       (case r of
          Some (name, hash) \<Rightarrow> (if name = realm then Some (Some i, st1) else realmFindIn c realm is st1)
        | None \<Rightarrow> realmFindIn c realm is st1) }"

definition realmFind :: "auth_call \<Rightarrow> string \<Rightarrow> storage \<Rightarrow> (nat option \<times> storage) option" where
  "realmFind c realm st = do { n \<leftarrow> realmCount c st; realmFindIn c realm [0..<n] st }"

subsection \<open>Cookies\<close>

definition cookieKey :: "int \<Rightarrow> string \<Rightarrow> string" where
  "cookieKey i field = ''secrets.auth.cookies.'' @ int_str i @ ''.'' @ field"

definition cookieFields :: "string list" where
  "cookieFields = [''cookie'', ''expires'', ''realm'']"

definition cookieCount :: "auth_call \<Rightarrow> storage \<Rightarrow> nat option" where
  "cookieCount c st = storageArrayCount (au_env c) ''secrets.auth.cookies.'' st"

text \<open>The inner loop of the shift: one field of the next cookie after the other.\<close>

fun shiftFields :: "auth_call \<Rightarrow> nat \<Rightarrow> string list \<Rightarrow> storage \<Rightarrow> storage option" where
  "shiftFields c i [] st = Some st"
| "shiftFields c i (f # fs) st =
     do {
       (val, st1) \<leftarrow> getBuf c (cookieKey (int i + 1) f) 128 st;
       st2 \<leftarrow> setStr c (cookieKey (int i) f) val st1;
       shiftFields c i fs st2 }"

fun shiftCookies :: "auth_call \<Rightarrow> nat list \<Rightarrow> storage \<Rightarrow> storage option" where
  "shiftCookies c [] st = Some st"
| "shiftCookies c (i # is) st = do { st1 \<leftarrow> shiftFields c i cookieFields st; shiftCookies c is st1 }"

fun unsetFields :: "auth_call \<Rightarrow> int \<Rightarrow> string list \<Rightarrow> storage \<Rightarrow> storage option" where
  "unsetFields c i [] st = Some st"
| "unsetFields c i (f # fs) st =
     do { st1 \<leftarrow> storageUnset (au_env c) (au_us c) (au_me c) (cookieKey i f) st; unsetFields c i fs st1 }"

definition cookieRemove :: "auth_call \<Rightarrow> nat \<Rightarrow> storage \<Rightarrow> storage option" where
  "cookieRemove c idx st =
     do {
       count \<leftarrow> cookieCount c st;
       st1 \<leftarrow> shiftCookies c [idx..<count - 1] (storageBegin (au_me c) st);
       st2 \<leftarrow> unsetFields c (int count - 1) cookieFields st1;
       storageEnd (au_env c) (au_us c) (au_me c) st2 }"

fun oldestIn :: "auth_call \<Rightarrow> nat list \<Rightarrow> int \<times> nat \<Rightarrow> storage \<Rightarrow> (nat \<times> storage) option" where
  "oldestIn c [] (oldest, oldestIdx) st = Some (oldestIdx, st)"
| "oldestIn c (i # is) (oldest, oldestIdx) st =
     do {
       (val, st1) \<leftarrow> getBuf c (cookieKey (int i) ''expires'') 32 st;
       let exp = strtoll val;
       oldestIn c is (if oldest = 0 \<or> exp < oldest then (exp, i) else (oldest, oldestIdx)) st1 }"

definition cookieAdd :: "auth_call \<Rightarrow> string \<Rightarrow> string \<Rightarrow> int \<Rightarrow> storage \<Rightarrow> storage option" where
  "cookieAdd c token realm expires st =
     do {
       count \<leftarrow> cookieCount c st;
       (count, st1) \<leftarrow>
         (if count \<ge> MAX_COOKIES
          then do {
            (oldestIdx, st1) \<leftarrow> oldestIn c [0..<count] (0, 0) st;
            st2 \<leftarrow> cookieRemove c oldestIdx st1;
            Some (count - 1, st2) }
          else Some (count, st));
       st2 \<leftarrow> setStr c (cookieKey (int count) ''cookie'') token (storageBegin (au_me c) st1);
       st3 \<leftarrow> setStr c (cookieKey (int count) ''realm'') realm st2;
       st4 \<leftarrow> setStr c (cookieKey (int count) ''expires'') (int_str expires) st3;
       storageEnd (au_env c) (au_us c) (au_me c) st4 }"

subsection \<open>Backoff\<close>

function backoffLoop :: "int \<Rightarrow> int \<Rightarrow> u32 \<Rightarrow> u32" where
  "backoffLoop i fails delaySec =
     (if i < fails \<and> delaySec < MAX_BACKOFF_S then backoffLoop (i + 1) fails (delaySec * 2) else delaySec)"
  by pat_completeness auto
termination by (relation "measure (\<lambda>(i, n, _). nat (n - i))") auto

declare backoffLoop.simps [simp del]

definition isRateLimited :: "auth_call \<Rightarrow> backoff \<Rightarrow> bool" where
  "isRateLimited c b \<longleftrightarrow>
     (if failCount b = 0 then False
      else let delaySec = backoffLoop 1 (failCount b) 1;
               delaySec = (if delaySec > MAX_BACKOFF_S then MAX_BACKOFF_S else delaySec)
           in au_millis c - lastFailMs b < delaySec * 1000)"

subsection \<open>Passwords\<close>

text \<open>The scan for another realm with the same password.\<close>

fun otherUses :: "auth_call \<Rightarrow> nat \<Rightarrow> string \<Rightarrow> nat list \<Rightarrow> storage \<Rightarrow> (bool \<times> storage) option" where
  "otherUses c idx newPw [] st = Some (False, st)"
| "otherUses c idx newPw (i # is) st =
     (if i = idx then otherUses c idx newPw is st
      else do {
        (otherHash, st1) \<leftarrow> getBuf c (realmKey i ''hash'') 128 st;
        (if otherHash = [] \<or> otherHash = ''--'' then otherUses c idx newPw is st1
         else if verifyPassword (au_sha c) newPw otherHash then Some (True, st1)
         else otherUses c idx newPw is st1) })"

definition writeRealm :: "auth_call \<Rightarrow> nat \<Rightarrow> string \<Rightarrow> string \<Rightarrow> storage \<Rightarrow> storage option" where
  "writeRealm c idx realm newPw st =
     do {
       st1 \<leftarrow> setStr c (realmKey idx ''name'') realm (storageBegin (au_me c) st);
       st2 \<leftarrow> setStr c (realmKey idx ''hash'') (hashPasswordNew c newPw) st1;
       storageEnd (au_env c) (au_us c) (au_me c) st2 }"

definition setChecked :: "auth_call \<Rightarrow> nat \<Rightarrow> string \<Rightarrow> string \<Rightarrow> storage \<Rightarrow> (auth_err \<times> storage) option" where
  "setChecked c idx realm newPw st =
     do {
       count \<leftarrow> realmCount c st;
       (used, st1) \<leftarrow> otherUses c idx newPw [0..<count] st;
       (if used then Some (AUTH_SAME_AS_OTHER_REALM, st1)
        else do { st2 \<leftarrow> writeRealm c idx realm newPw st1; Some (AUTH_OK, st2) }) }"

definition authForceSetPassword :: "auth_call \<Rightarrow> string \<Rightarrow> string \<Rightarrow> storage \<Rightarrow> (auth_err \<times> storage) option" where
  "authForceSetPassword c realm newPw st =
     (if newPw = [] then Some (AUTH_WRONG_PASSWORD, st)
      else do {
        (idx, st1) \<leftarrow> realmFind c realm st;
        (case idx of
           None \<Rightarrow> Some (AUTH_NO_SUCH_REALM, st1)
         | Some i \<Rightarrow> setChecked c i realm newPw st1) })"

definition authPasswd :: "auth_call \<Rightarrow> string \<Rightarrow> string \<Rightarrow> string \<Rightarrow> storage \<Rightarrow> (auth_err \<times> storage) option" where
  "authPasswd c realm oldPw newPw st =
     do {
       (idx, st1) \<leftarrow> realmFind c realm st;
       (case idx of
          None \<Rightarrow> Some (AUTH_NO_SUCH_REALM, st1)
        | Some i \<Rightarrow>
            do {
              (hash, st2) \<leftarrow> getBuf c (realmKey i ''hash'') 128 st1;
              let unset = hash = [];
              let locked = hash = ''--'';
              (if au_open c \<and> oldPw = [] \<and> newPw = [] then Some (AUTH_WRONG_PASSWORD, st2)
               else if unset \<or> locked
               then (if oldPw \<noteq> [] then Some (AUTH_WRONG_PASSWORD, st2)
                     else if newPw = [] then Some (AUTH_OK, st2)
                     else setChecked c i realm newPw st2)
               else if \<not> verifyPassword (au_sha c) oldPw hash then Some (AUTH_WRONG_PASSWORD, st2)
               else if newPw = [] then Some (AUTH_WRONG_PASSWORD, st2)
               else setChecked c i realm newPw st2) }) }"

definition authEnabled :: "auth_call \<Rightarrow> storage \<Rightarrow> (bool \<times> storage) option" where
  "authEnabled c st =
     (if au_open c then Some (False, st)
      else do { (v, st1) \<leftarrow> storageGetInt (au_env c) ''secrets.auth.enable'' 0 st; Some (v = 1, st1) })"

definition authRealmUnset :: "auth_call \<Rightarrow> string \<Rightarrow> storage \<Rightarrow> (bool \<times> storage) option" where
  "authRealmUnset c realm st =
     (if au_open c then Some (False, st)
      else do {
        (idx, st1) \<leftarrow> realmFind c realm st;
        (case idx of
           None \<Rightarrow> Some (False, st1)
         | Some i \<Rightarrow>
             do { (hash, st2) \<leftarrow> getBuf c (realmKey i ''hash'') 128 st1; Some (hash = [], st2) }) })"

subsection \<open>Sessions\<close>

text \<open>The search for a realm that takes the password.\<close>

fun loginIn :: "auth_call \<Rightarrow> string \<Rightarrow> string \<Rightarrow> nat list \<Rightarrow> storage \<Rightarrow> (string option \<times> storage) option" where
  "loginIn c password tryRealm [] st = Some (None, st)"
| "loginIn c password tryRealm (i # is) st =
     do {
       (r, st1) \<leftarrow> realmGet c i st;
       (case r of
          None \<Rightarrow> loginIn c password tryRealm is st1
        | Some (name, hash) \<Rightarrow>
            (if tryRealm \<noteq> [] \<and> name \<noteq> tryRealm then loginIn c password tryRealm is st1
             else if hash = [] \<or> hash = ''--'' then loginIn c password tryRealm is st1
             else if verifyPassword (au_sha c) password hash then Some (Some name, st1)
             else loginIn c password tryRealm is st1)) }"

text \<open>The result is the code with the realm and the cookie, empty unless the login succeeds.\<close>

definition authLogin :: "auth_call \<Rightarrow> string \<Rightarrow> string \<Rightarrow> backoff \<times> storage
    \<Rightarrow> ((auth_err \<times> string \<times> string) \<times> backoff \<times> storage) option" where
  "authLogin c password tryRealm s =
     (let (b, st) = s
      in if isRateLimited c b then Some ((AUTH_RATE_LIMITED, [], []), b, st)
         else do {
           count \<leftarrow> realmCount c st;
           (found, st1) \<leftarrow> loginIn c password tryRealm [0..<count] st;
           (case found of
              Some name \<Rightarrow>
                (let token = toHex (take 16 (au_random c))
                 in do {
                   st2 \<leftarrow> cookieAdd c token name (au_now c + COOKIE_EXPIRY_S) st1;
                   Some ((AUTH_OK, name, token), b\<lparr>failCount := 0\<rparr>, st2) })
            | None \<Rightarrow>
                Some ((AUTH_WRONG_PASSWORD, [], []), \<lparr>lastFailMs = au_millis c, failCount = failCount b + 1\<rparr>, st1)) })"

fun cookieFindIn :: "auth_call \<Rightarrow> string \<Rightarrow> nat list \<Rightarrow> storage \<Rightarrow> (nat option \<times> storage) option" where
  "cookieFindIn c cookie [] st = Some (None, st)"
| "cookieFindIn c cookie (i # is) st =
     do {
       (stored, st1) \<leftarrow> getBuf c (cookieKey (int i) ''cookie'') 64 st;
       (if stored = cookie then Some (Some i, st1) else cookieFindIn c cookie is st1) }"

definition authLogout :: "auth_call \<Rightarrow> string \<Rightarrow> storage \<Rightarrow> (bool \<times> storage) option" where
  "authLogout c cookie st =
     (if cookie = [] then Some (False, st)
      else do {
        count \<leftarrow> cookieCount c st;
        (i, st1) \<leftarrow> cookieFindIn c cookie [0..<count] st;
        (case i of
           None \<Rightarrow> Some (False, st1)
         | Some i \<Rightarrow> do { st2 \<leftarrow> cookieRemove c i st1; Some (True, st2) }) })"

definition authCheck :: "auth_call \<Rightarrow> string \<Rightarrow> storage \<Rightarrow> (string \<times> storage) option" where
  "authCheck c cookie st =
     (if cookie = [] then Some ([], st)
      else do {
        count \<leftarrow> cookieCount c st;
        (i, st1) \<leftarrow> cookieFindIn c cookie [0..<count] st;
        (case i of
           None \<Rightarrow> Some ([], st1)
         | Some i \<Rightarrow>
             do {
               (expStr, st2) \<leftarrow> getBuf c (cookieKey (int i) ''expires'') 24 st1;
               let exp = strtoll expStr;
               (if au_now c > 1700000000 \<and> exp > 1700000000 \<and> exp < au_now c
                then do { st3 \<leftarrow> cookieRemove c i st2; Some ([], st3) }
                else getBuf c (cookieKey (int i) ''realm'') 32 st2) }) })"

text \<open>The defaults of a fresh device and the sweep of expired cookies, from the last to the first.\<close>

definition AUTH_VERSION :: int where "AUTH_VERSION = 1"

fun sweepCookies :: "auth_call \<Rightarrow> nat list \<Rightarrow> storage \<Rightarrow> storage option" where
  "sweepCookies c [] st = Some st"
| "sweepCookies c (i # is) st =
     do {
       (val, st1) \<leftarrow> getBuf c (cookieKey (int i) ''expires'') 32 st;
       let exp = strtoll val;
       st2 \<leftarrow> (if exp > 1700000000 \<and> exp < au_now c then cookieRemove c i st1 else Some st1);
       sweepCookies c is st2 }"

definition authDefaultsText :: string where
  "authDefaultsText = concat (map (\<lambda>l. l @ [CHR 0x0A])
     [''{'',
      ''            \"enable\": 1,'',
      ''            \"realms\": [{\"name\":\"admin\", \"hash\":\"\"}],'',
      ''            \"cookies\": []'']) @ ''        }''"

definition authInit :: "auth_call \<Rightarrow> storage \<Rightarrow> storage option" where
  "authInit c st =
     do {
       (v, st1) \<leftarrow> storageGetInt (au_env c) ''secrets.auth.version'' 0 st;
       st2 \<leftarrow>
         (if v < AUTH_VERSION
          then do {
            (_, st2) \<leftarrow> storageDefaultTreeText (au_env c) (au_us c) (au_me c) ''secrets.auth'' authDefaultsText (storageBegin (au_me c) st1);
            st3 \<leftarrow> storageSetInt (au_env c) (au_us c) (au_me c) ''secrets.auth.version'' AUTH_VERSION st2;
            storageEnd (au_env c) (au_us c) (au_me c) st3 }
          else Some st1);
       (if au_now c \<ge> 1700000000
        then do { count \<leftarrow> cookieCount c st2; sweepCookies c (rev [0..<count]) st2 }
        else Some st2) }"

subsection \<open>The commands\<close>

text \<open>A command's result is what it prints; \<open>%-*s\<close> pads with spaces.\<close>

definition padColumn :: "nat \<Rightarrow> string \<Rightarrow> string" where
  "padColumn n s = s @ replicate (n - length s) CHR '' ''"

definition CLI_HELP_COL :: nat where "CLI_HELP_COL = 23"

definition line :: "string \<Rightarrow> string" where
  "line s = s @ [CHR 0x0A]"

definition helpLine :: "string \<Rightarrow> string \<Rightarrow> string" where
  "helpLine usage what = line (padColumn CLI_HELP_COL usage @ '' '' @ what)"

definition hashState :: "string \<Rightarrow> string" where
  "hashState hash = (if hash = [] then ''unset'' else if hash = ''--'' then ''locked'' else ''set'')"

fun printRealms :: "auth_call \<Rightarrow> (nat \<Rightarrow> string \<Rightarrow> string \<Rightarrow> string) \<Rightarrow> nat list \<Rightarrow> storage \<Rightarrow> (string \<times> storage) option" where
  "printRealms c fmt [] st = Some ([], st)"
| "printRealms c fmt (i # is) st =
     do {
       (r, st1) \<leftarrow> realmGet c i st;
       (out, st2) \<leftarrow> printRealms c fmt is st1;
       Some ((case r of None \<Rightarrow> [] | Some (name, hash) \<Rightarrow> fmt i name hash) @ out, st2) }"

definition onboardLine :: "auth_call \<Rightarrow> nat \<Rightarrow> string \<Rightarrow> string \<Rightarrow> string" where
  "onboardLine c i name hash = line (name @ ''='' @ (if au_open c then ''open'' else hashState hash))"

definition realmLine :: "nat \<Rightarrow> string \<Rightarrow> string \<Rightarrow> string" where
  "realmLine i name hash = line (''['' @ nat_str i @ ''] '' @ padColumn 20 name @ '' '' @ hashState hash)"

text \<open>\<open>auth passwd <realm> <newpw>\<close>: the realm up to a space, then the rest of the line.\<close>

definition cliPasswd :: "auth_call \<Rightarrow> string \<Rightarrow> storage \<Rightarrow> (string \<times> storage) option" where
  "cliPasswd c args st =
     (let p = dropWhile (\<lambda>x. x = CHR '' '') (drop 7 args);
          realm = before CHR '' '' p;
          pw = dropWhile (\<lambda>x. x = CHR '' '') (after CHR '' '' p);
          usage = line ''usage: auth passwd <realm> <newpw>''
      in if CHR '' '' \<notin> set p \<or> realm = [] then Some (usage, st)
         else if length realm \<ge> 32 then Some (line ''realm name too long'', st)
         else if pw = [] then Some (usage, st)
         else do {
           (e, st1) \<leftarrow> authForceSetPassword c realm pw st;
           Some (case e of
                   AUTH_OK \<Rightarrow> line ''ok''
                 | AUTH_NO_SUCH_REALM \<Rightarrow> line (''no such realm: '' @ [CHR 0x27] @ realm @ [CHR 0x27])
                 | AUTH_SAME_AS_OTHER_REALM \<Rightarrow> line ''password matches another realm''
                 | AUTH_WRONG_PASSWORD \<Rightarrow> line ''empty password not allowed''
                 | AUTH_RATE_LIMITED \<Rightarrow> line ''error 4'', st1) })"

definition authCliCmd :: "auth_call \<Rightarrow> string \<Rightarrow> storage \<Rightarrow> (string \<times> storage) option" where
  "authCliCmd c args st =
     (if args = ''help'' then Some (helpLine ''auth [...]'' ''auth status; realms; passwd'', st)
      else if args = ''-h'' \<or> args = ''--help''
      then Some (helpLine ''auth'' ''show enabled + realm state''
               @ helpLine ''auth realms'' ''list realms with set/locked/unset state''
               @ helpLine ''auth passwd <realm> <newpw>'' ''set (overwrite) a realm password''
               @ helpLine ''auth -O'' ''onboarding output: <realm>=set|unset|locked'', st)
      else if args = ''-O'' then do { n \<leftarrow> realmCount c st; printRealms c (onboardLine c) [0..<n] st }
      else if args = []
      then do {
        (on, st1) \<leftarrow> authEnabled c st;
        realms \<leftarrow> realmCount c st1;
        cookies \<leftarrow> cookieCount c st1;
        Some (line (''enabled: '' @ (if on then ''yes'' else ''no'')) @ line (''realms:  '' @ nat_str realms)
              @ line (''cookies: '' @ nat_str cookies @ '' / '' @ nat_str MAX_COOKIES), st1) }
      else if args = ''realms''
      then do {
        n \<leftarrow> realmCount c st;
        (if n = 0 then Some (line ''(none)'', st) else printRealms c realmLine [0..<n] st) }
      else if take 7 args = ''passwd '' then cliPasswd c args st
      else Some (line (''unknown subcommand. try '' @ [CHR 0x60] @ ''auth -h'' @ [CHR 0x60]), st))"

text \<open>The interactive command: \<open>r1\<close> and \<open>r2\<close> are what the two prompts read, \<open>None\<close> when the
  user cancels.\<close>

definition passwdCliCmd :: "auth_call \<Rightarrow> string option \<Rightarrow> string option \<Rightarrow> string \<Rightarrow> storage \<Rightarrow> (string \<times> storage) option" where
  "passwdCliCmd c r1 r2 args st =
     (if cliWantsHelp args then Some (helpLine ''passwd'' ''set the admin password (prompts twice)'', st)
      else let new = ''New password: ''; again = ''Retype new password: ''
      in case r1 of
           None \<Rightarrow> Some (new @ line ''passwd: cancelled'', st)
         | Some pw1 \<Rightarrow>
             (if pw1 = [] then Some (new @ line ''passwd: empty password not allowed'', st)
              else case r2 of
                     None \<Rightarrow> Some (new @ again @ line ''passwd: cancelled'', st)
                   | Some pw2 \<Rightarrow>
                       (if pw1 \<noteq> pw2 then Some (new @ again @ line ''passwd: passwords do not match'', st)
                        else do {
                          (e, st1) \<leftarrow> authForceSetPassword c ''admin'' pw1 st;
                          Some (new @ again @
                            (case e of
                               AUTH_OK \<Rightarrow> line ''password updated''
                             | AUTH_NO_SUCH_REALM \<Rightarrow> line (''passwd: no '' @ [CHR 0x27] @ ''admin'' @ [CHR 0x27] @ '' realm'')
                             | AUTH_SAME_AS_OTHER_REALM \<Rightarrow> line (''passwd: matches another realm'' @ [CHR 0x27] @ ''s password'')
                             | AUTH_WRONG_PASSWORD \<Rightarrow> line ''passwd: empty password not allowed''
                             | AUTH_RATE_LIMITED \<Rightarrow> line ''passwd: error 4''), st1) })))"

end
