(* ===== verification/Auth_Hash.thy ===== *)
theory Auth_Hash
  imports Auth Storage_Props
begin

section \<open>Password hashes and the backoff\<close>

text \<open>
  A stored hash verifies exactly the passwords it was made from, and the wait after failed
  logins is the capped power of two.
\<close>

subsection \<open>Hexadecimal\<close>

lemma nib_digit: "i < 16 \<Longrightarrow> nib (''0123456789abcdef'' ! i) = Some i"
  by (auto simp: nib_def numeral_eq_Suc less_Suc_eq nth_Cons')

lemma hex_not_special:
  assumes "i < 16" "d = ''0123456789abcdef'' ! i"
  shows "\<not> c_isspace d" "d \<noteq> CHR ''+''" "d \<noteq> CHR ''-''" "d \<noteq> CHR '':''" "d \<noteq> CHR 0x00"
  using assms by (auto simp: c_isspace_def numeral_eq_Suc less_Suc_eq nth_Cons')

lemma length_toHex [simp]: "length (toHex bs) = 2 * length bs"
  by (induction bs) (auto simp: toHex_def)

lemma toHex_Cons:
  "toHex (b # bs) = (''0123456789abcdef'' ! (unat b div 16)) # (''0123456789abcdef'' ! (unat b mod 16)) # toHex bs"
  by (simp add: toHex_def)

lemma byte_div: "unat (b :: 8 word) div 16 < 16"
  using unsigned_less [of b, where 'a = nat] by simp

lemma toHex_chars: "CHR '':'' \<notin> set (toHex bs)" "CHR 0x00 \<notin> set (toHex bs)"
proof (induction bs)
  case (Cons b bs)
  have lo: "unat b mod 16 < 16" by simp
  note hex_not_special(4,5) [OF byte_div refl, of b] hex_not_special(4,5) [OF lo refl]
  then show "CHR '':'' \<notin> set (toHex (b # bs))" "CHR 0x00 \<notin> set (toHex (b # bs))" using Cons unfolding toHex_Cons by auto
qed (simp_all add: toHex_def)

lemma scanHex2_toHex: "scanHex2 (toHex (b # bs) @ r) = Some b"
proof -
  have lo: "unat b mod 16 < 16" by simp
  note h = hex_not_special [OF byte_div refl, of b]
  have "16 * (unat b div 16) + unat b mod 16 = unat b" by simp
  then show ?thesis using h nib_digit [OF byte_div, of b] nib_digit [OF lo]
    by (simp add: scanHex2_def toHex_Cons del: nth_Cons_numeral)
qed

lemma fromHex_toHex: "fromHex (toHex bs @ r) (length bs) = Some bs"
proof (induction bs)
  case (Cons b bs)
  have "drop 2 (toHex (b # bs) @ r) = toHex bs @ r" by (simp add: toHex_Cons)
  then show ?case using Cons scanHex2_toHex [of b bs r] by simp
qed simp

lemma fromHex_length: "fromHex s n = Some bs \<Longrightarrow> length bs = n"
  by (induction s n arbitrary: bs rule: fromHex.induct) (auto split: option.splits)

lemma verify_iff:
  "verifyPassword sha pw stored \<longleftrightarrow> (\<exists>salt. length salt = 16 \<and> stored = hashPassword sha pw salt)"
proof
  assume "verifyPassword sha pw stored"
  then show "\<exists>salt. length salt = 16 \<and> stored = hashPassword sha pw salt"
    by (auto simp: verifyPassword_def dest: fromHex_length split: option.splits)
next
  assume "\<exists>salt. length salt = 16 \<and> stored = hashPassword sha pw salt"
  then obtain salt where s: "length salt = 16" "stored = hashPassword sha pw salt" by blast
  then show "verifyPassword sha pw stored"
    using toHex_chars(1) [of salt] fromHex_toHex [of salt] by (simp add: verifyPassword_def hashPassword_def)
qed

lemma toHex_inj: "toHex xs = toHex ys \<Longrightarrow> xs = ys"
proof -
  assume eq: "toHex xs = toHex ys"
  have "2 * length xs = 2 * length ys" using arg_cong [OF eq, of length] by (simp only: length_toHex)
  then have "length xs = length ys" by simp
  then show ?thesis using fromHex_toHex [of xs "[]"] fromHex_toHex [of ys "[]"] eq by simp
qed

text \<open>A stored hash verifies a password exactly when it is the salted hash of it: everything
  \<open>hashPassword\<close> makes of a password with a 16-byte salt verifies, with any digest function, and a
  string that verifies has the form \<open>salt:hash\<close> in lower-case hexadecimal with the digest of that
  salt and that password, however leniently the salt is scanned.\<close>

theorem verifyPassword_correct:
  "verifyPassword sha pw stored \<longleftrightarrow>
     (\<exists>salt. length salt = 16 \<and> stored = toHex salt @ '':'' @ toHex (sha (salt @ bytes_of pw)))"
  unfolding verify_iff hashPassword_def ..

text \<open>Two passwords verify against one hash only when their digests under its salt collide.\<close>

lemma verify_collision:
  assumes "verifyPassword sha pw1 h" "verifyPassword sha pw2 h"
  shows "\<exists>salt. sha (salt @ bytes_of pw1) = sha (salt @ bytes_of pw2)"
proof -
  obtain s1 s2 where s: "length s1 = 16" "length s2 = 16" "h = hashPassword sha pw1 s1" "h = hashPassword sha pw2 s2"
    using assms unfolding verify_iff by blast
  then have eq: "toHex s1 @ '':'' @ toHex (sha (s1 @ bytes_of pw1)) = toHex s2 @ '':'' @ toHex (sha (s2 @ bytes_of pw2))"
    by (simp add: hashPassword_def)
  then have "toHex s1 = toHex s2" using s(1,2) by (auto simp: append_eq_append_conv)
  then have "s1 = s2" by (rule toHex_inj)
  then show ?thesis using eq toHex_inj by auto
qed

subsection \<open>Backoff\<close>

lemma backoffLoop_eq:
  assumes "1 \<le> i" "i \<le> n" "unat d = 2 ^ nat (i - 1)" "nat (i - 1) \<le> 9"
  shows "unat (backoffLoop i n d) = 2 ^ min (nat (n - 1)) 9"
  using assms
proof (induction i n d rule: backoffLoop.induct)
  case (1 i n d)
  have lim: "d < MAX_BACKOFF_S \<longleftrightarrow> nat (i - 1) < 9"
  proof
    assume "nat (i - 1) < 9"
    then have "unat d \<le> 2 ^ 8" unfolding 1(4) by (intro power_increasing) auto
    then show "d < MAX_BACKOFF_S" by (simp add: MAX_BACKOFF_S_def word_less_nat_alt)
  next
    assume "d < MAX_BACKOFF_S"
    then show "nat (i - 1) < 9" using 1(4,5) by (cases "nat (i - 1) = 9") (auto simp: MAX_BACKOFF_S_def word_less_nat_alt)
  qed
  show ?case
  proof (cases "i < n \<and> d < MAX_BACKOFF_S")
    case True
    have "unat d < 300" using True by (simp add: MAX_BACKOFF_S_def word_less_nat_alt)
    then have d2: "unat (d * 2) = 2 * unat d" by (simp add: unat_word_ariths)
    have "nat (i + 1 - 1) = Suc (nat (i - 1))" using 1(2) by simp
    then have p: "unat (d * 2) = 2 ^ nat (i + 1 - 1)" "nat (i + 1 - 1) \<le> 9" using d2 1(4) lim True by auto
    have "unat (backoffLoop (i + 1) n (d * 2)) = 2 ^ min (nat (n - 1)) 9" using 1(1) [OF True _ _ p] 1(2) True by simp
    then show ?thesis using True by (subst backoffLoop.simps) simp
  next
    case False
    then have "nat (i - 1) = min (nat (n - 1)) 9" using lim 1(2,3,5) by auto
    then show ?thesis using 1(4) by (simp only: backoffLoop.simps [of i n d] if_not_P [OF False])
  qed
qed

text \<open>After \<open>n\<close> failed logins the next attempts are refused for exactly
  \<open>min(2^(n-1), 300)\<close> seconds after the last failure, on the 32-bit millisecond clock whatever
  its wrap-around, and without failures never.\<close>

theorem isRateLimited_correct:
  assumes "0 \<le> failCount b"
  shows "isRateLimited c b \<longleftrightarrow>
    failCount b > 0 \<and> unat (au_millis c - lastFailMs b) < 1000 * min (2 ^ nat (failCount b - 1)) 300"
proof (cases "failCount b = 0")
  case False
  let ?d = "backoffLoop 1 (failCount b) 1" and ?n = "nat (failCount b - 1)"
  have d: "unat ?d = 2 ^ min ?n 9" using backoffLoop_eq [of 1 "failCount b" 1] assms False by simp
  define e where "e = (if ?d > MAX_BACKOFF_S then MAX_BACKOFF_S else ?d)"
  have m: "min (2 ^ ?n) (300 :: nat) = min (2 ^ min ?n 9) 300"
  proof (cases "?n \<le> 9")
    case False
    then have "(2 :: nat) ^ 9 \<le> 2 ^ ?n" by (intro power_increasing) auto
    then show ?thesis using False by simp
  qed simp
  have e: "unat e = min (2 ^ ?n) 300" unfolding m d [symmetric]
    by (auto simp: e_def MAX_BACKOFF_S_def word_less_nat_alt not_less)
  then have "unat (e * 1000) = 1000 * unat e" by (simp add: unat_word_ariths)
  then have "unat (e * 1000) = 1000 * min (2 ^ ?n) 300" using e by simp
  moreover have "isRateLimited c b \<longleftrightarrow> au_millis c - lastFailMs b < e * 1000"
    using False unfolding isRateLimited_def Let_def e_def by simp
  ultimately show ?thesis using False assms unfolding word_less_nat_alt by simp
qed (simp add: isRateLimited_def)

text \<open>A call for the witnesses; the digest in these examples is the hashed bytes themselves.\<close>

definition demo_call :: "int \<Rightarrow> auth_call" where
  "demo_call now = \<lparr>au_env = demo_env, au_us = 0, au_me = 1, au_sha = (\<lambda>bs. bs), au_random = replicate 16 171,
     au_millis = 5, au_now = now, au_open = False\<rparr>"

lemma demo_call_sel [simp]: "au_env (demo_call t) = demo_env" "au_me (demo_call t) = 1" "au_sha (demo_call t) = (\<lambda>bs. bs)"
  "au_random (demo_call t) = replicate 16 171" "au_millis (demo_call t) = 5" "au_now (demo_call t) = t" "au_open (demo_call t) = False"
  by (simp_all add: demo_call_def)

theorem isRateLimited_correct_witness:
  "isRateLimited (demo_call 0) \<lparr>lastFailMs = - 1000, failCount = 3\<rparr>"
  using isRateLimited_correct [of "\<lparr>lastFailMs = - 1000, failCount = 3\<rparr>" "demo_call 0"] by simp

end
