(* ===== verification/Auth_Table.thy ===== *)
theory Auth_Table
  imports Auth_Hash Storage_Bracket
begin

section \<open>The realm and cookie tables in the tree\<close>

text \<open>
  As long as no provider and no record store claims keys under \<open>secrets.auth\<close>, the reads of the
  module are functions of the tree, and the searches have plain characterisations. A row added
  to the cookie table is read back and leaves the other rows alone: the contract \<open>row_table\<close>.
\<close>

subsection \<open>Reads\<close>

definition auth_plain :: "storage \<Rightarrow> bool" where
  "auth_plain st \<longleftrightarrow> (\<forall>k. take 13 k = ''secrets.auth.'' \<longrightarrow> plain_key st k)"

text \<open>The text of a key as a buffer of \<open>n\<close> bytes holds it.\<close>

definition keyText :: "auth_call \<Rightarrow> storage \<Rightarrow> nat \<Rightarrow> string \<Rightarrow> string" where
  "keyText c st n k =
     safeStrncpy n (case navigatePath (env_eqn (au_env c)) (cfgRoot st) k of
                      None \<Rightarrow> []
                    | Some j \<Rightarrow> (case leafText j of Some t \<Rightarrow> t | None \<Rightarrow> []))"

lemma getBuf_plain: "plain_key st k \<Longrightarrow> 0 < n \<Longrightarrow> getBuf c k n st = Some (keyText c st n k, st)"
  by (simp add: getBuf_def storageGetBuf_def plain_key_def sdbGetLocked_def resolveKey_def keyText_def)

lemma auth_plain_keys [simp]:
  "auth_plain st \<Longrightarrow> plain_key st (realmKey i f)" "auth_plain st \<Longrightarrow> plain_key st (cookieKey j f)"
  by (simp_all add: auth_plain_def realmKey_def cookieKey_def)

abbreviation nameAt :: "auth_call \<Rightarrow> storage \<Rightarrow> nat \<Rightarrow> string" where
  "nameAt c st i \<equiv> keyText c st 32 (realmKey i ''name'')"

abbreviation hashAt :: "auth_call \<Rightarrow> storage \<Rightarrow> nat \<Rightarrow> string" where
  "hashAt c st i \<equiv> keyText c st 128 (realmKey i ''hash'')"

lemma realmGet_plain:
  "auth_plain st \<Longrightarrow> realmGet c i st
     = Some (if nameAt c st i = [] then None else Some (nameAt c st i, hashAt c st i), st)"
  by (simp add: realmGet_def getBuf_plain)

lemma realmFindIn_plain:
  assumes "auth_plain st" "realm \<noteq> []"
  shows "realmFindIn c realm is st = Some (find (\<lambda>i. nameAt c st i = realm) is, st)"
  using assms(2) by (induction "is") (auto simp: realmGet_plain [OF assms(1)])

lemma verify_marks: "\<not> verifyPassword sha pw []" "\<not> verifyPassword sha pw ''--''"
  by (simp_all add: verifyPassword_def)

lemma otherUses_plain:
  assumes "auth_plain st"
  shows "otherUses c idx pw is st = Some (\<exists>i \<in> set is. i \<noteq> idx \<and> verifyPassword (au_sha c) pw (hashAt c st i), st)"
  using verify_marks [of "au_sha c" pw] by (induction "is") (auto simp: getBuf_plain [OF auth_plain_keys(1) [OF assms]])

definition takes :: "auth_call \<Rightarrow> storage \<Rightarrow> string \<Rightarrow> string \<Rightarrow> nat \<Rightarrow> bool" where
  "takes c st pw tryRealm i \<longleftrightarrow> nameAt c st i \<noteq> [] \<and> (tryRealm = [] \<or> nameAt c st i = tryRealm)
     \<and> (\<exists>salt. length salt = 16 \<and> hashAt c st i = hashPassword (au_sha c) pw salt)"

lemma loginIn_plain:
  assumes "auth_plain st"
  shows "loginIn c pw tryRealm is st = Some (map_option (nameAt c st) (find (takes c st pw tryRealm) is), st)"
proof (induction "is")
  case (Cons i "is")
  show ?case using Cons verify_marks [of "au_sha c" pw]
    by (auto simp: realmGet_plain [OF assms] takes_def verify_iff [symmetric])
qed simp

lemma cookieFindIn_plain:
  assumes "auth_plain st"
  shows "cookieFindIn c cookie is st = Some (find (\<lambda>i. keyText c st 64 (cookieKey (int i) ''cookie'') = cookie) is, st)"
  by (induction "is") (auto simp: getBuf_plain [OF auth_plain_keys(2) [OF assms]])

lemma bind_Some_map: "Option.bind x (\<lambda>y. Some (f y)) = map_option f x"
  by (cases x) auto

subsection \<open>The tables in the tree\<close>

lemma segs_dot: "s \<noteq> [] \<Longrightarrow> CHR ''.'' \<notin> set s \<Longrightarrow> segs (s @ CHR ''.'' # r) = s # segs r"
  by (simp add: segs_def split_on_append_sep)

lemma segs_word: "s \<noteq> [] \<Longrightarrow> CHR ''.'' \<notin> set s \<Longrightarrow> segs s = [s]"
  by (simp add: segs_def)

lemma nat_str_no_dot: "CHR ''.'' \<notin> set (nat_str n)"
  using nat_str_digits [of "CHR ''.''" n] by (auto simp: c_isdigit_def)

lemma nat_str_cstr: "cstr (nat_str n)"
  using nat_str_digits [of "CHR 0x00" n] by (auto simp: c_isdigit_def cstr_def)

definition plain_word :: "string \<Rightarrow> bool" where
  "plain_word f \<longleftrightarrow> f \<noteq> [] \<and> CHR ''.'' \<notin> set f \<and> length f < SEG_MAX \<and> cstr f \<and> \<not> isAllDigits f"

lemma table_key:
  assumes "plain_word f" "int i \<le> INT32_MAX" "plain_word t"
  defines "k \<equiv> ''secrets.auth.'' @ t @ ''.'' @ nat_str i @ ''.'' @ f"
  shows "key_ok k" "segs k = [''secrets'', ''auth'', t] @ [nat_str i, f]" "cstr k" "take 13 k = ''secrets.auth.''"
proof -
  have k: "k = ''secrets'' @ CHR ''.'' # ''auth'' @ CHR ''.'' # t @ CHR ''.'' # nat_str i @ CHR ''.'' # f"
    by (simp add: k_def)
  show s: "segs k = [''secrets'', ''auth'', t] @ [nat_str i, f]"
    using assms(1,3) nat_str_no_dot [of i] unfolding k
    by (subst segs_dot, simp add: plain_word_def, simp add: plain_word_def)+ (simp add: segs_word plain_word_def)
  have "last f \<noteq> CHR ''.''" using assms(1) last_in_set [of f] unfolding plain_word_def by metis
  then show "key_ok k" using s assms(1,3) length_nat_str_int32 [OF assms(2)]
    by (simp add: key_ok_def plain_word_def k SEG_MAX_def)
  show "cstr k" using assms(1,3) nat_str_cstr [of i] by (simp add: k cstr_def plain_word_def)
  show "take 13 k = ''secrets.auth.''" by (simp add: k_def)
qed

lemma cookieKey_eq: "cookieKey (int i) f = ''secrets.auth.'' @ ''cookies'' @ ''.'' @ nat_str i @ ''.'' @ f"
  by (simp add: cookieKey_def int_str_def)

lemma realmKey_eq: "realmKey i f = ''secrets.auth.'' @ ''realms'' @ ''.'' @ nat_str i @ ''.'' @ f"
  by (simp add: realmKey_def)

lemma plain_words [simp]: "plain_word ''cookies''" "plain_word ''realms''" "plain_word ''cookie''" "plain_word ''realm''" "plain_word ''expires''" "plain_word ''name''" "plain_word ''hash''"
  by (simp_all add: plain_word_def SEG_MAX_def cstr_def isAllDigits_def c_isdigit_def)

abbreviation table :: "string \<Rightarrow> string list" where
  "table t \<equiv> [''secrets'', ''auth'', t]"

lemma array_count:
  assumes "obj_arr (env_eqn env) (cfgRoot st) (table t) a" "plain_word t"
  shows "storageArrayCount env (''secrets.auth.'' @ t @ ''.'') st = Some (length a)"
proof -
  let ?k = "''secrets'' @ CHR ''.'' # ''auth'' @ CHR ''.'' # t"
  have l: "last t \<noteq> CHR ''.''" using assms(2) last_in_set [of t] unfolding plain_word_def by metis
  obtain x y where "t = x @ [y]" using assms(2) by (cases t rule: rev_cases) (auto simp: plain_word_def)
  then have st: "stripDots (''secrets.auth.'' @ t @ ''.'') = ?k" using l by (simp add: stripDots_def)
  have s: "segs ?k = table t" using assms(2) by (subst segs_dot, simp, simp)+ (simp add: segs_word plain_word_def)
  have "key_ok ?k" using s assms(2) l by (simp add: key_ok_def plain_word_def SEG_MAX_def)
  then have "navigatePath (env_eqn env) (cfgRoot st) ?k = Some (JArr a)"
    using navigatePath_segs s assms(1) by (simp add: obj_arr_def)
  then show ?thesis using st by (simp add: storageArrayCount_def)
qed

lemma keyText_table:
  assumes "obj_arr (env_eqn (au_env c)) (cfgRoot st) (table t) a" "plain_word t" "plain_word f" "int i \<le> INT32_MAX"
  shows "keyText c st n (''secrets.auth.'' @ t @ ''.'' @ nat_str i @ ''.'' @ f)
    = safeStrncpy n (case fieldOf (env_eqn (au_env c)) a i f of None \<Rightarrow> [] | Some j \<Rightarrow> (case leafText j of Some t \<Rightarrow> t | None \<Rightarrow> []))"
  using nav_field [OF assms(1,4), of f] table_key [OF assms(3,4,2)] navigatePath_segs assms(3)
  by (simp add: keyText_def plain_word_def)

subsection \<open>A batch of fields\<close>

lemma obj_arr_root: "obj_arr eqn j (t # pp) a \<Longrightarrow> is_obj j"
  by (cases j) (auto simp: obj_arr_def navStep_def GetObjectItem_def split: if_splits)

definition tableKey :: "string \<Rightarrow> nat \<Rightarrow> string \<Rightarrow> string" where
  "tableKey t i f = ''secrets.auth.'' @ t @ ''.'' @ nat_str i @ ''.'' @ f"

lemma length_set_op: "length (opAppendKV CHR ''S'' k v) \<le> length k + length v + 7"
  by (simp add: opAppendKV_def opPutStr_def le_int_def)

text \<open>The fields of one row are in the tree after their batch was submitted, and the other rows are
  as they were.\<close>

lemma row_written:
  assumes nc: "name_cmp (env_eqn env)" and st: "storage_ok env st" "auth_plain st" "\<And>n. reaches env me n"
    and arr: "obj_arr (env_eqn env) (cfgRoot st) (table t) a" "plain_word t" and i: "int i \<le> INT32_MAX"
    and row: "\<And>e. arrGet a i = Some e \<Longrightarrow> \<not> is_arr e"
    and fs: "fs \<noteq> []" "\<forall>fv \<in> set fs. plain_word (fst fv) \<and> cstr (snd fv)" "names_ok (env_eqn env) (fkids fs)"
    and len: "1 + length (concat (map (\<lambda>(f, v). opAppendKV CHR ''S'' (tableKey t i f) v) fs)) < 4294967296"
  obtains st' a' where
    "storageSubmit env us me (0 # concat (map (\<lambda>(f, v). opAppendKV CHR ''S'' (tableKey t i f) v) fs)) st = Some st'"
    "obj_arr (env_eqn env) (cfgRoot st') (table t) a'" "auth_plain st'"
    "\<And>f v. (f, v) \<in> set fs \<Longrightarrow> fieldOf (env_eqn env) a' i f = Some (strVal v)"
    "\<And>j. j < length a \<Longrightarrow> j \<noteq> i \<Longrightarrow> arrGet a' j = arrGet a j" "length a' = max (length a) (Suc i)"
    "storage_ok env st'" "accums st' = accums st"
proof -
  let ?ops = "map (\<lambda>(f, v). ASet CHR ''S'' (tableKey t i f) v) fs"
  have enc: "map enc ?ops = map (\<lambda>(f, v). opAppendKV CHR ''S'' (tableKey t i f) v) fs" by (induction fs) auto
  note key = table_key [OF _ i arr(2), folded tableKey_def]
  have plain: "list_all (plain_op st) ?ops"
    using fs(2) st(2) key(3,4) by (auto simp: list_all_iff plain_op_def auth_plain_def plain_key_def)
  obtain st' where st': "storageApplyOps env us (0 # concat (map enc ?ops)) me st = Some st'" "same_rest st st'"
    "cfgRoot st' = deepMerge (env_eqn env) (cfgRoot st) (patchOf env (cfgRoot st) ?ops)"
    using apply_plain [OF plain, of env us 0 me] len unfolding enc by blast
  have tok: "tree_ok (env_eqn env) (cfgRoot st)" using st(1) by (simp add: storage_ok_def)
  have keys: "\<forall>fv \<in> set fs. key_ok (tableKey t i (fst fv)) \<and> segs (tableKey t i (fst fv)) = table t @ [nat_str i, fst fv]
      \<and> \<not> isAllDigits (fst fv)"
    using fs(2) key(1,2) by (auto simp: plain_word_def)
  have short: "list_all (\<lambda>s. length s < SEG_MAX) (table t)" using arr(2) by (simp add: plain_word_def SEG_MAX_def)
  obtain a' where a': "obj_arr (env_eqn env) (cfgRoot st') (table t) a'"
    "\<And>f v. (f, v) \<in> set fs \<Longrightarrow> fieldOf (env_eqn env) a' i f = Some (strVal v)"
    "\<And>j. j < length a \<Longrightarrow> j \<noteq> i \<Longrightarrow> arrGet a' j = arrGet a j" "length a' = max (length a) (Suc i)" "tree_ok (env_eqn env) (cfgRoot st')"
    using fields_written [OF nc refl tok arr(1) _ short i keys fs(3) row fs(1) st'(3)] by (metis list.distinct(1))
  have "storage_ok env st'" using a'(1,5) obj_arr_root by (simp add: storage_ok_def)
  moreover have "auth_plain st'" "accums st' = accums st"
    using st(2) same_rest_plain [OF st'(2)] st'(2) by (simp_all add: auth_plain_def same_rest_def)
  ultimately show ?thesis using that [of st' a'] a' st'(1) submit_reaches [OF st(3)] unfolding enc by simp
qed

subsection \<open>A new session\<close>

lemma toHex_cstr: "cstr (toHex bs)"
  by (simp add: cstr_def toHex_chars)

lemma stored_text_nat: "stored_text (nat_str n) = nat_str n"
proof (cases "inferType (nat_str n) = CFG_INT")
  case True
  then obtain i where i: "int_literal (nat_str n) i" "INT32_MIN \<le> i" "i \<le> INT32_MAX" unfolding inferType_literal by blast
  have "nat_str n \<noteq> CHR ''-'' # ds" for ds using nat_str_no(3) [of n] by (metis list.set_intros(1))
  then have "i = int n" using i(1) digits_val_nat_str [of "[]" n] by (auto simp: int_literal_def)
  then show ?thesis using True i(3) atoi_nat_str [of n] by (simp add: stored_text_def int_str_def)
qed (simp add: stored_text_def)

lemma strtoll_nat: "int n < 2 ^ 63 \<Longrightarrow> strtoll (nat_str n) = int n"
proof -
  assume n: "int n < 2 ^ 63"
  obtain d r where d: "nat_str n = d # r" "c_isdigit d" by (rule nat_str_Cons)
  then show ?thesis using digit_not_special [OF d(2)] digits_val_nat_str [of "[]" n] n by (simp add: strtoll_def)
qed

lemma cookieAdd_row:
  assumes "env_eqn (au_env c) = ci_eq" "storage_ok (au_env c) st" "auth_plain st" "\<And>n. reaches (au_env c) (au_me c) n"
    "bracket_free (au_me c) st" "obj_arr ci_eq (cfgRoot st) (table ''cookies'') a" "length a < MAX_COOKIES"
    "cstr token" "length token < 100" "cstr realm" "length realm < 100" "e < 10 ^ 20"
  obtains st' a' where "cookieAdd c token realm (int e) st = Some st'" "auth_plain st'"
    "obj_arr ci_eq (cfgRoot st') (table ''cookies'') a'" "length a' = Suc (length a)"
    "\<And>j. j < length a \<Longrightarrow> arrGet a' j = arrGet a j"
    "fieldOf ci_eq a' (length a) ''cookie'' = Some (strVal token)"
    "fieldOf ci_eq a' (length a) ''realm'' = Some (strVal realm)"
    "fieldOf ci_eq a' (length a) ''expires'' = Some (strVal (nat_str e))"
    "storage_ok (au_env c) st'" "bracket_free (au_me c) st'"
proof -
  let ?n = "length a" and ?fs = "[(''cookie'', token), (''realm'', realm), (''expires'', nat_str e)]"
  obtain k as where k: "own_row (au_me c) k as" "storageBegin (au_me c) st = bracketed k as False [] st"
    using begin_bracketed [OF assms(5)] by metis
  let ?st = "released k as False st"
  have key: "cookieKey (int ?n) f = tableKey ''cookies'' ?n f" for f by (simp add: cookieKey_eq tableKey_def)
  have cnt: "cookieCount c st = Some ?n"
    using array_count [of "au_env c" st "''cookies''" a] assms(1,6) by (simp add: cookieCount_def)
  let ?batch = "concat (map (\<lambda>(f, v). opAppendKV CHR ''S'' (tableKey ''cookies'' ?n f) v) ?fs)"
  have "?batch \<noteq> []" by (simp add: opAppendKV_def)
  then have add: "cookieAdd c token realm (int e) st = storageSubmit (au_env c) (au_us c) (au_me c) (0 # ?batch) ?st"
    using cnt assms(7) end_bracketed [OF k(1), of ?batch "au_env c" "au_us c" False st]
    by (simp add: cookieAdd_def k(2) setStr_def storageSet_def emit_bracketed [OF k(1)] key int_str_def)
  have n: "int ?n \<le> INT32_MAX" using assms(7) by (simp add: MAX_COOKIES_def INT32_MAX_def)
  have ln: "length (nat_str ?n) \<le> 2" using length_nat_str_le [of ?n 2] assms(7) by (simp add: MAX_COOKIES_def)
  have le: "length (nat_str e) \<le> 20" using length_nat_str_le [of e 20] assms(12) by simp
  have kl: "length (tableKey ''cookies'' ?n f) \<le> 24 + length f" for f using ln by (simp add: tableKey_def)
  have len: "1 + length ?batch < 4294967296"
    using length_set_op [of "tableKey ''cookies'' ?n ''cookie''" token] length_set_op [of "tableKey ''cookies'' ?n ''realm''" realm]
      length_set_op [of "tableKey ''cookies'' ?n ''expires''" "nat_str e"] kl [of "''cookie''"] kl [of "''realm''"] kl [of "''expires''"]
      le assms(9,11) by simp
  have ok: "storage_ok (au_env c) ?st" "auth_plain ?st" using assms(2,3) by (simp_all add: storage_ok_def auth_plain_def)
  have fs: "\<forall>fv \<in> set ?fs. plain_word (fst fv) \<and> cstr (snd fv)" using assms(8,10) nat_str_cstr by simp
  have nm: "names_ok (env_eqn (au_env c)) (fkids ?fs)" by (simp add: assms(1) ci_eq_def tolower_def)
  have nc: "name_cmp (env_eqn (au_env c))" using cjson.name_cmp_axioms assms(1) by simp
  have arr: "obj_arr (env_eqn (au_env c)) (cfgRoot ?st) (table ''cookies'') a" using assms(1,6) by simp
  have row: "\<And>x. arrGet a ?n = Some x \<Longrightarrow> \<not> is_arr x" by (simp add: arrGet_def)
  obtain st' a' where r: "storageSubmit (au_env c) (au_us c) (au_me c) (0 # ?batch) ?st = Some st'"
    "obj_arr (env_eqn (au_env c)) (cfgRoot st') (table ''cookies'') a'" "auth_plain st'"
    "\<And>f v. (f, v) \<in> set ?fs \<Longrightarrow> fieldOf (env_eqn (au_env c)) a' ?n f = Some (strVal v)"
    "\<And>j. j < length a \<Longrightarrow> j \<noteq> ?n \<Longrightarrow> arrGet a' j = arrGet a j" "length a' = max (length a) (Suc ?n)"
    "storage_ok (au_env c) st'" "accums st' = accums ?st"
    using row_written [OF nc ok assms(4) arr plain_words(1) n row _ fs nm len] by (metis list.distinct(1))
  have "bracket_free (au_me c) ?st" using released_free [OF k(1)] .
  then have "bracket_free (au_me c) st'" using r(8) by (simp add: bracket_free_def)
  then show ?thesis using that [of st' a'] r add assms(1) by simp
qed

lemma keyText_cookie:
  assumes "env_eqn (au_env c) = ci_eq" "obj_arr ci_eq (cfgRoot st) (table ''cookies'') a" "plain_word f" "int i \<le> INT32_MAX"
  shows "keyText c st n (cookieKey (int i) f)
    = safeStrncpy n (case fieldOf ci_eq a i f of None \<Rightarrow> [] | Some j \<Rightarrow> (case leafText j of Some t \<Rightarrow> t | None \<Rightarrow> []))"
  using keyText_table [of c st "''cookies''" a f i n] assms unfolding cookieKey_eq by simp

lemma find_last: "(\<And>j. j < n \<Longrightarrow> \<not> P j) \<Longrightarrow> P n \<Longrightarrow> find P [0..<Suc n] = Some n"
  by (auto simp: find_Some_iff nth_append less_Suc_eq intro!: exI [of _ n])

lemma find_snoc: "\<not> P x \<Longrightarrow> find P (xs @ [x]) = find P xs"
  by (induction xs) auto

subsection \<open>The contract of a table of rows\<close>

text \<open>
  What the module relies on when it adds a row: the row is there with its fields, and every other
  row reads as before. A search for a value then finds the new row first only when the value is
  new, and any other value where it was.
\<close>

locale row_table =
  fixes inv :: "'s \<Rightarrow> bool" and rows :: "'s \<Rightarrow> nat" and cell :: "'s \<Rightarrow> nat \<Rightarrow> string \<Rightarrow> string"
    and add :: "'r \<Rightarrow> 's \<Rightarrow> 's option" and row_ok :: "'r \<Rightarrow> bool" and val :: "'r \<Rightarrow> string \<Rightarrow> string"
    and fields :: "string set" and limit :: nat
  assumes add_row: "inv s \<Longrightarrow> row_ok r \<Longrightarrow> rows s < limit \<Longrightarrow>
    \<exists>s'. add r s = Some s' \<and> inv s' \<and> rows s' = Suc (rows s) \<and> (\<forall>f \<in> fields. cell s' (rows s) f = val r f)
      \<and> (\<forall>f \<in> fields. \<forall>j < rows s. cell s' j f = cell s j f)"
begin

abbreviation search :: "string \<Rightarrow> string \<Rightarrow> 's \<Rightarrow> nat option" where
  "search f v s \<equiv> find (\<lambda>i. cell s i f = v) [0..<rows s]"

lemma add_facts:
  assumes "inv s" "row_ok r" "rows s < limit" "add r s = Some s'"
  shows "inv s'" "rows s' = Suc (rows s)" "f \<in> fields \<Longrightarrow> cell s' (rows s) f = val r f"
    "f \<in> fields \<Longrightarrow> j < rows s \<Longrightarrow> cell s' j f = cell s j f"
  using add_row [OF assms(1-3)] assms(4) by auto

lemma search_new:
  assumes "inv s" "row_ok r" "rows s < limit" "add r s = Some s'" "f \<in> fields" "\<forall>j < rows s. cell s j f \<noteq> val r f"
  shows "search f (val r f) s' = Some (rows s)"
  using find_last [of "rows s" "\<lambda>i. cell s' i f = val r f"] add_facts [OF assms(1-4)] assms(5,6) by simp

lemma search_other:
  assumes "inv s" "row_ok r" "rows s < limit" "add r s = Some s'" "f \<in> fields" "v \<noteq> val r f"
  shows "search f v s' = search f v s"
proof -
  have "search f v s' = find (\<lambda>i. cell s' i f = v) ([0..<rows s] @ [rows s])" using add_facts(2) [OF assms(1-4)] by simp
  also have "\<dots> = find (\<lambda>i. cell s' i f = v) [0..<rows s]"
    using add_facts(3) [OF assms(1-5)] assms(6) by (simp add: find_snoc)
  also have "\<dots> = search f v s" using add_facts(4) [OF assms(1-5)] by (intro find_cong) auto
  finally show ?thesis .
qed

end

subsection \<open>The cookie table keeps it\<close>

definition session_inv :: "auth_call \<Rightarrow> storage \<Rightarrow> bool" where
  "session_inv c st \<longleftrightarrow> env_eqn (au_env c) = ci_eq \<and> storage_ok (au_env c) st \<and> auth_plain st
     \<and> (\<forall>n. reaches (au_env c) (au_me c) n) \<and> bracket_free (au_me c) st
     \<and> (\<exists>a. obj_arr ci_eq (cfgRoot st) (table ''cookies'') a)"

definition cookieRows :: "auth_call \<Rightarrow> storage \<Rightarrow> nat" where
  "cookieRows c st = the (cookieCount c st)"

definition session_ok :: "string \<times> string \<times> nat \<Rightarrow> bool" where
  "session_ok r = (case r of (token, realm, e) \<Rightarrow>
     cstr token \<and> length token < 64 \<and> stored_text token = token
     \<and> cstr realm \<and> length realm < 64 \<and> stored_text realm = realm \<and> e < 10 ^ 20)"

definition session_val :: "string \<times> string \<times> nat \<Rightarrow> string \<Rightarrow> string" where
  "session_val r f = (case r of (token, realm, e) \<Rightarrow>
     if f = ''cookie'' then token else if f = ''realm'' then realm else nat_str e)"

lemma cookieCount_rows: "session_inv c st \<Longrightarrow> cookieCount c st = Some (cookieRows c st)"
  using array_count [of "au_env c" st "''cookies''"] by (auto simp: session_inv_def cookieCount_def cookieRows_def)

lemma cookieRows_arr:
  assumes "env_eqn (au_env c) = ci_eq" "obj_arr ci_eq (cfgRoot st) (table ''cookies'') a"
  shows "cookieRows c st = length a"
  using array_count [of "au_env c" st "''cookies''" a] assms by (simp add: cookieCount_def cookieRows_def)

lemma cookie_add_row:
  assumes "session_inv c st" "session_ok (token, realm, e)" "cookieRows c st < MAX_COOKIES"
  shows "\<exists>st'. cookieAdd c token realm (int e) st = Some st' \<and> session_inv c st' \<and> cookieRows c st' = Suc (cookieRows c st)
    \<and> (\<forall>f \<in> set cookieFields. keyText c st' 64 (cookieKey (int (cookieRows c st)) f) = session_val (token, realm, e) f)
    \<and> (\<forall>f \<in> set cookieFields. \<forall>j < cookieRows c st. keyText c st' 64 (cookieKey (int j) f) = keyText c st 64 (cookieKey (int j) f))"
proof -
  have i: "env_eqn (au_env c) = ci_eq" "storage_ok (au_env c) st" "auth_plain st" "\<And>n. reaches (au_env c) (au_me c) n"
    "bracket_free (au_me c) st" using assms(1) by (auto simp: session_inv_def)
  obtain a where a: "obj_arr ci_eq (cfgRoot st) (table ''cookies'') a" using assms(1) by (auto simp: session_inv_def)
  note n = cookieRows_arr [OF i(1) a]
  have r: "cstr token" "length token < 64" "stored_text token = token" "cstr realm" "length realm < 64" "stored_text realm = realm"
    "e < 10 ^ 20" using assms(2) by (simp_all add: session_ok_def)
  have l: "length a < MAX_COOKIES" "length token < 100" "length realm < 100" using assms(3) n r by simp_all
  obtain st' a' where s: "cookieAdd c token realm (int e) st = Some st'" "auth_plain st'"
    "obj_arr ci_eq (cfgRoot st') (table ''cookies'') a'" "length a' = Suc (length a)"
    "\<And>j. j < length a \<Longrightarrow> arrGet a' j = arrGet a j"
    "fieldOf ci_eq a' (length a) ''cookie'' = Some (strVal token)"
    "fieldOf ci_eq a' (length a) ''realm'' = Some (strVal realm)"
    "fieldOf ci_eq a' (length a) ''expires'' = Some (strVal (nat_str e))"
    "storage_ok (au_env c) st'" "bracket_free (au_me c) st'"
    by (rule cookieAdd_row [OF i a l(1) r(1) l(2) r(4) l(3) r(7)]) blast
  have inv: "session_inv c st'" using i s by (auto simp: session_inv_def)
  have bnd: "int j \<le> INT32_MAX" if "j \<le> length a" for j using l(1) that by (simp add: MAX_COOKIES_def INT32_MAX_def)
  have w: "plain_word f" if "f \<in> set cookieFields" for f using that by (auto simp: cookieFields_def)
  note tx = keyText_cookie [OF i(1) s(3)]
  have old: "keyText c st' 64 (cookieKey (int j) f) = keyText c st 64 (cookieKey (int j) f)"
    if "f \<in> set cookieFields" "j < length a" for f j
    unfolding tx [OF w [OF that(1)] bnd [OF less_imp_le [OF that(2)]]]
      keyText_cookie [OF i(1) a w [OF that(1)] bnd [OF less_imp_le [OF that(2)]]] fieldOf_def s(5) [OF that(2)] ..
  have "length (nat_str e) < 64" using length_nat_str_le [OF r(7)] by simp
  then have "keyText c st' 64 (cookieKey (int (length a)) f) = session_val (token, realm, e) f" if "f \<in> set cookieFields" for f
    using tx [OF w [OF that] bnd [OF le_refl], of 64] s(6-8) r that stored_text_nat [of e]
    by (auto simp: session_val_def cookieFields_def)
  then show ?thesis using s(1,4) inv old n cookieRows_arr [OF i(1) s(3)] by simp
qed

interpretation cookies: row_table "session_inv c" "cookieRows c" "\<lambda>st i f. keyText c st 64 (cookieKey (int i) f)"
  "\<lambda>(token, realm, e) st. cookieAdd c token realm (int e) st" session_ok session_val "set cookieFields" MAX_COOKIES for c
  by unfold_locales (use cookie_add_row in \<open>auto split: prod.splits\<close>)

end
