(* ===== verification/Auth_Props.thy ===== *)
theory Auth_Props
  imports Auth_Table
begin

section \<open>Logins and sessions\<close>

text \<open>What a login, a check and a change of password do to the tables.\<close>

subsection \<open>Properties of the login and of the passwords\<close>

lemma authLogin_eq:
  assumes "auth_plain st" "realmCount c st = Some n"
  shows "authLogin c pw tryRealm (b, st) =
    (if isRateLimited c b then Some ((AUTH_RATE_LIMITED, [], []), b, st)
     else case find (\<lambda>i. nameAt c st i \<noteq> [] \<and> (tryRealm = [] \<or> nameAt c st i = tryRealm)
                 \<and> (\<exists>salt. length salt = 16 \<and> hashAt c st i = hashPassword (au_sha c) pw salt)) [0..<n] of
       None \<Rightarrow> Some ((AUTH_WRONG_PASSWORD, [], []), \<lparr>lastFailMs = au_millis c, failCount = failCount b + 1\<rparr>, st)
     | Some i \<Rightarrow>
         map_option (\<lambda>st'. ((AUTH_OK, nameAt c st i, toHex (take 16 (au_random c))), b\<lparr>failCount := 0\<rparr>, st'))
           (cookieAdd c (toHex (take 16 (au_random c))) (nameAt c st i) (au_now c + 5184000) st))"
  using loginIn_plain [OF assms(1), of c pw tryRealm "[0..<n]"] assms(2)
  by (auto simp: authLogin_def Let_def takes_def [abs_def] COOKIE_EXPIRY_S_def bind_Some_map split: option.splits)

text \<open>The session of a fresh token of 16 random bytes, for a realm with a storable name, is one the
  cookie table takes.\<close>

lemma login_session_ok:
  assumes "length (au_random c) = 16" "inferType (toHex (take 16 (au_random c))) = CFG_STR"
    "cstr realm" "stored_text realm = realm" "length realm < 32" "0 \<le> au_now c" "au_now c < 2 ^ 62"
  shows "session_ok (toHex (take 16 (au_random c)), realm, nat (au_now c + 5184000))"
  using assms toHex_cstr by (simp add: session_ok_def stored_text_def)

text \<open>C30. A login of a device whose tables are plain storage: within the backoff it is refused and
  nothing changes. Otherwise, if some realm (the named one, if one is named) stores the salted
  hash of the password, it opens a session for the first such realm, for sixty days, and clears
  the failures; if none does, the storage is untouched and one failure is counted at the present
  time. A realm without a password, or a locked one, never lets anyone in. The call returns when
  the cookie table has room and the realm names are storable texts; the cookie must not read as a
  number.\<close>

theorem authLogin_correct:
  assumes "auth_plain st" "realmCount c st = Some n"
  shows "authLogin c pw tryRealm (b, st) =
    (if isRateLimited c b then Some ((AUTH_RATE_LIMITED, [], []), b, st)
     else case find (\<lambda>i. nameAt c st i \<noteq> [] \<and> (tryRealm = [] \<or> nameAt c st i = tryRealm)
                 \<and> (\<exists>salt. length salt = 16 \<and> hashAt c st i = hashPassword (au_sha c) pw salt)) [0..<n] of
       None \<Rightarrow> Some ((AUTH_WRONG_PASSWORD, [], []), \<lparr>lastFailMs = au_millis c, failCount = failCount b + 1\<rparr>, st)
     | Some i \<Rightarrow>
         map_option (\<lambda>st'. ((AUTH_OK, nameAt c st i, toHex (take 16 (au_random c))), b\<lparr>failCount := 0\<rparr>, st'))
           (cookieAdd c (toHex (take 16 (au_random c))) (nameAt c st i) (au_now c + 5184000) st))
   \<and> (session_inv c st \<and> cookieRows c st < MAX_COOKIES
        \<and> length (au_random c) = 16 \<and> inferType (toHex (take 16 (au_random c))) = CFG_STR
        \<and> (\<forall>i < n. cstr (nameAt c st i) \<and> stored_text (nameAt c st i) = nameAt c st i) \<and> 0 \<le> au_now c \<and> au_now c < 2 ^ 62
      \<longrightarrow> authLogin c pw tryRealm (b, st) \<noteq> None)"
proof -
  have "cookieAdd c (toHex (take 16 (au_random c))) (nameAt c st i) (au_now c + 5184000) st \<noteq> None"
    if r: "length (au_random c) = 16" "inferType (toHex (take 16 (au_random c))) = CFG_STR" "0 \<le> au_now c" "au_now c < 2 ^ 62"
      and i: "\<forall>i < n. cstr (nameAt c st i) \<and> stored_text (nameAt c st i) = nameAt c st i" "i < n"
      and t: "session_inv c st" "cookieRows c st < MAX_COOKIES" for i
  proof -
    have "length (nameAt c st i) < 32" by (simp add: keyText_def safeStrncpy_def)
    with login_session_ok [OF r(1,2) _ _ _ r(3,4)] i
    have "session_ok (toHex (take 16 (au_random c)), nameAt c st i, nat (au_now c + 5184000))" by blast
    from cookie_add_row [OF t(1) this t(2)] r(3) show ?thesis by auto
  qed
  moreover have "find P [0..<n] = Some i \<Longrightarrow> i < n" for P i by (auto simp: find_Some_iff)
  ultimately show ?thesis unfolding authLogin_eq [OF assms] by (fastforce split: option.split)
qed

text \<open>A password is changed only for a realm that exists, by someone who knows the old one
  (or when there is none yet), to a non-empty password that no other realm accepts; every other
  call leaves the storage untouched and says why.\<close>

theorem authPasswd_correct:
  assumes "auth_plain st" "realmCount c st = Some n" "realm \<noteq> []" "\<not> au_open c"
  shows "authPasswd c realm oldPw newPw st =
    (case find (\<lambda>i. nameAt c st i = realm) [0..<n] of
       None \<Rightarrow> Some (AUTH_NO_SUCH_REALM, st)
     | Some i \<Rightarrow>
         (if hashAt c st i \<in> {[], ''--''} \<and> oldPw = [] \<and> newPw = [] then Some (AUTH_OK, st)
          else if newPw = [] \<or> \<not> (if hashAt c st i \<in> {[], ''--''} then oldPw = []
                                 else verifyPassword (au_sha c) oldPw (hashAt c st i))
          then Some (AUTH_WRONG_PASSWORD, st)
          else if \<exists>j < n. j \<noteq> i \<and> verifyPassword (au_sha c) newPw (hashAt c st j)
          then Some (AUTH_SAME_AS_OTHER_REALM, st)
          else map_option (Pair AUTH_OK) (writeRealm c i realm newPw st)))"
proof -
  have s: "setChecked c i realm newPw st =
      (if \<exists>j < n. j \<noteq> i \<and> verifyPassword (au_sha c) newPw (hashAt c st j) then Some (AUTH_SAME_AS_OTHER_REALM, st)
       else map_option (Pair AUTH_OK) (writeRealm c i realm newPw st))" for i
    using otherUses_plain [OF assms(1), of c i newPw "[0..<n]"] assms(2)
    by (cases "writeRealm c i realm newPw st") (auto simp: setChecked_def)
  show ?thesis
    using realmFindIn_plain [OF assms(1,3), of c "[0..<n]"] assms(2,4)
    by (auto simp: authPasswd_def realmFind_def getBuf_plain [OF auth_plain_keys(1) [OF assms(1)]] s split: option.splits)
qed

subsection \<open>Sessions\<close>

lemma safeStrncpy_twice: "n \<le> m \<Longrightarrow> safeStrncpy n (safeStrncpy m s) = safeStrncpy n s"
proof -
  assume le: "n \<le> m"
  show ?thesis
  proof (cases "n = m")
    case False
    then have "n \<le> m - 1" using le by simp
    then show ?thesis using le by (simp add: safeStrncpy_def min_absorb1 diff_le_mono)
  qed (auto simp: safeStrncpy_def min_def)
qed

lemma keyText_cut: "n \<le> 64 \<Longrightarrow> keyText c st n k = safeStrncpy n (keyText c st 64 k)"
  unfolding keyText_def by (simp only: safeStrncpy_twice)

lemma keyText_env: "au_env c' = au_env c \<Longrightarrow> keyText c' = keyText c"
  by (intro ext) (simp add: keyText_def)

text \<open>A check is a search for the cookie and then a look at the row.\<close>

lemma authCheck_row:
  assumes "auth_plain st" "cookieCount c st = Some n" "cookie \<noteq> []"
    "find (\<lambda>i. keyText c st 64 (cookieKey (int i) ''cookie'') = cookie) [0..<n] = Some i"
    "\<not> (au_now c > 1700000000 \<and> strtoll (keyText c st 24 (cookieKey (int i) ''expires'')) > 1700000000
        \<and> strtoll (keyText c st 24 (cookieKey (int i) ''expires'')) < au_now c)"
  shows "authCheck c cookie st = Some (keyText c st 32 (cookieKey (int i) ''realm''), st)"
  using assms(2,3) cookieFindIn_plain [OF assms(1), of c cookie "[0..<n]"] assms(4,5)
    getBuf_plain [OF auth_plain_keys(2) [OF assms(1)]] unfolding authCheck_def by (auto simp: Let_def)

lemma authCheck_found:
  assumes "auth_plain st" "cookieCount c st = Some n" "cookie \<noteq> []" "authCheck c cookie st = Some (r, st)" "r \<noteq> []"
  obtains i where "find (\<lambda>i. keyText c st 64 (cookieKey (int i) ''cookie'') = cookie) [0..<n] = Some i"
    "\<not> (au_now c > 1700000000 \<and> strtoll (keyText c st 24 (cookieKey (int i) ''expires'')) > 1700000000
        \<and> strtoll (keyText c st 24 (cookieKey (int i) ''expires'')) < au_now c)"
    "r = keyText c st 32 (cookieKey (int i) ''realm'')"
proof (cases "find (\<lambda>i. keyText c st 64 (cookieKey (int i) ''cookie'') = cookie) [0..<n]")
  case None
  then show ?thesis using assms(2-5) cookieFindIn_plain [OF assms(1), of c cookie "[0..<n]"] by (simp add: authCheck_def)
next
  case (Some i)
  then show ?thesis using that [OF Some] assms(2-5) cookieFindIn_plain [OF assms(1), of c cookie "[0..<n]"]
    getBuf_plain [OF auth_plain_keys(2) [OF assms(1)]] unfolding authCheck_def by (auto simp: Let_def bind_Some_map split: if_splits option.splits)
qed

text \<open>C8. A session that was opened is found and disturbs no other: after a successful login on a
  device with room in the cookie table, whose random token is in no row yet (and is not a decimal
  number), a check of the cookie returns the realm of the login for the sixty days until it
  expires, and as long as the wall clock is not set; every other cookie that was good before is
  good for the same realm after.\<close>

theorem login_then_check:
  assumes "session_inv c st" "cookieCount c st = Some m" "m < MAX_COOKIES" "realmCount c st = Some n"
    "authLogin c pw tryRealm (b, st) = Some ((AUTH_OK, realm, token), b', st')"
    "length (au_random c) = 16" "inferType token = CFG_STR" "\<forall>j < m. keyText c st 64 (cookieKey (int j) ''cookie'') \<noteq> token"
    "cstr realm" "stored_text realm = realm" "0 \<le> au_now c" "au_now c < 2 ^ 62" "au_env c' = au_env c"
  shows "(au_now c' \<le> au_now c + 5184000 \<or> au_now c' \<le> 1700000000 \<longrightarrow> authCheck c' token st' = Some (realm, st'))
    \<and> (\<forall>other r. other \<noteq> token \<and> other \<noteq> [] \<and> r \<noteq> [] \<and> authCheck c' other st = Some (r, st)
         \<longrightarrow> authCheck c' other st' = Some (r, st'))"
proof -
  define e where "e = nat (au_now c + 5184000)"
  have e: "int e = au_now c + 5184000" "int e < 2 ^ 63" "e < 10 ^ 20" using assms(11,12) by (auto simp: e_def)
  have pl: "auth_plain st" using assms(1) by (simp add: session_inv_def)
  obtain i where i: "realm = nameAt c st i" "token = toHex (take 16 (au_random c))" "cookieAdd c token realm (int e) st = Some st'"
    using assms(5) unfolding authLogin_eq [OF pl assms(4)] e(1) by (auto split: if_splits option.splits)
  have lr: "length realm < 32" using i(1) by (simp add: keyText_def safeStrncpy_def)
  have lt: "length token = 32" using i(2) assms(6) by simp
  let ?r = "(token, realm, e)"
  have ok: "session_ok ?r"
    using login_session_ok [OF assms(6) _ assms(9,10) lr assms(11,12)] assms(7) unfolding e_def i(2) by blast
  have m: "cookieRows c st = m" using assms(2) by (simp add: cookieRows_def)
  have pre: "session_inv c st" "session_ok ?r" "cookieRows c st < MAX_COOKIES"
    "(\<lambda>(token, realm, e) st. cookieAdd c token realm (int e) st) ?r st = Some st'" using assms(1,3) ok m i(3) by simp_all
  have fld: "''cookie'' \<in> set cookieFields" "''realm'' \<in> set cookieFields" "''expires'' \<in> set cookieFields" by (simp_all add: cookieFields_def)
  note facts = cookies.add_facts [OF pre]
  have sel: "session_val ?r ''cookie'' = token" "session_val ?r ''realm'' = realm" "session_val ?r ''expires'' = nat_str e"
    by (simp_all add: session_val_def)
  note kt = keyText_env [OF assms(13)]
  have cnt: "cookieCount c' st' = Some (Suc m)" "cookieCount c' st = Some m"
    using cookieCount_rows [OF facts(1)] facts(2) m assms(2,13) by (simp_all add: cookieCount_def)
  have pl': "auth_plain st'" using facts(1) by (simp add: session_inv_def)
  have new: "keyText c' st' 32 (cookieKey (int m) ''realm'') = realm" "keyText c' st' 24 (cookieKey (int m) ''expires'') = nat_str e"
    using facts(3) [OF fld(2)] facts(3) [OF fld(3)] sel m lr length_nat_str_le [OF e(3)]
    by (simp_all add: kt keyText_cut [of 32] keyText_cut [of 24])
  have "authCheck c' token st' = Some (realm, st')" if "au_now c' \<le> au_now c + 5184000 \<or> au_now c' \<le> 1700000000"
  proof -
    have "find (\<lambda>i. keyText c' st' 64 (cookieKey (int i) ''cookie'') = token) [0..<Suc m] = Some m"
      using cookies.search_new [OF pre fld(1)] assms(8) facts(2) m by (simp only: kt sel)
    moreover have "token \<noteq> []" using lt by auto
    ultimately show ?thesis using authCheck_row [OF pl' cnt(1), of token m] that new strtoll_nat [OF e(2)] e(1) by auto
  qed
  moreover have "authCheck c' other st' = Some (r, st')"
    if o: "other \<noteq> token" "other \<noteq> []" "r \<noteq> []" "authCheck c' other st = Some (r, st)" for other r
  proof -
    obtain k where k: "find (\<lambda>i. keyText c' st 64 (cookieKey (int i) ''cookie'') = other) [0..<m] = Some k"
      "\<not> (au_now c' > 1700000000 \<and> strtoll (keyText c' st 24 (cookieKey (int k) ''expires'')) > 1700000000
          \<and> strtoll (keyText c' st 24 (cookieKey (int k) ''expires'')) < au_now c')"
      "r = keyText c' st 32 (cookieKey (int k) ''realm'')"
      using authCheck_found [OF pl cnt(2) o(2,4,3)] by metis
    have km: "k < cookieRows c st" using k(1) m by (auto simp: find_Some_iff)
    have "find (\<lambda>i. keyText c' st' 64 (cookieKey (int i) ''cookie'') = other) [0..<Suc m] = Some k"
      using cookies.search_other [OF pre fld(1), of other] o(1) k(1) facts(2) m unfolding kt sel by simp
    moreover have "keyText c' st' 24 (cookieKey (int k) ''expires'') = keyText c' st 24 (cookieKey (int k) ''expires'')"
      "keyText c' st' 32 (cookieKey (int k) ''realm'') = keyText c' st 32 (cookieKey (int k) ''realm'')"
      using facts(4) [OF fld(3) km] facts(4) [OF fld(2) km] by (simp_all add: kt keyText_cut [of 32] keyText_cut [of 24])
    ultimately show ?thesis using authCheck_row [OF pl' cnt(1) o(2)] k(2,3) by simp
  qed
  ultimately show ?thesis by blast
qed

subsection \<open>Eviction\<close>

definition expiresAt :: "auth_call \<Rightarrow> storage \<Rightarrow> nat \<Rightarrow> int" where
  "expiresAt c st i = strtoll (keyText c st 32 (cookieKey (int i) ''expires''))"

lemma oldestIn_fold:
  assumes "auth_plain st"
  shows "oldestIn c is acc st
    = Some (snd (foldl (\<lambda>(o', k) i. if o' = 0 \<or> expiresAt c st i < o' then (expiresAt c st i, i) else (o', k)) acc is), st)"
  by (induction "is" arbitrary: acc)
    (auto simp: getBuf_plain [OF auth_plain_keys(2) [OF assms]] expiresAt_def [symmetric] Let_def split: prod.splits)

text \<open>The search for the row to evict takes zero for \<open>none yet\<close>, which is also what a free row
  reads: when the row before the last is free and no row expires before the epoch, the last row
  is chosen, whatever session it holds. A full table with free rows before the last thus loses
  its newest session at every login.\<close>

theorem evicts_last_beside_free_row:
  assumes "auth_plain st" "keyText c st 32 (cookieKey (int n) ''expires'') = []"
    "\<forall>i < n. 0 \<le> strtoll (keyText c st 32 (cookieKey (int i) ''expires''))"
  shows "oldestIn c [0..<n + 2] (0, 0) st = Some (n + 1, st)"
proof -
  let ?f = "\<lambda>(o', k) i. if o' = 0 \<or> expiresAt c st i < o' then (expiresAt c st i, i) else (o', k)"
  have z: "expiresAt c st n = 0" using assms(2) by (simp add: expiresAt_def strtoll_def)
  have nn: "0 \<le> fst (foldl ?f (0, 0) [0..<m])" if "m \<le> n" for m
    using that assms(3) by (induction m) (auto simp: expiresAt_def split: prod.splits)
  obtain x y where xy: "foldl ?f (0, 0) [0..<n] = (x, y)" by (cases "foldl ?f (0, 0) [0..<n]")
  then have "0 \<le> x" using nn [of n] by simp
  then have "foldl ?f (0, 0) [0..<Suc n] = (0, n)" using xy z by auto
  then have "snd (foldl ?f (0, 0) [0..<n + 2]) = n + 1" by simp
  then show ?thesis unfolding oldestIn_fold [OF assms(1)] by simp
qed

subsection \<open>Witnesses\<close>

text \<open>A device with one realm whose hash is \<open>h\<close> and no session; the digest in these examples is
  the hashed bytes themselves.\<close>

definition demo_auth :: "string \<Rightarrow> json" where
  "demo_auth h = JObj [(Some ''secrets'', JObj [(Some ''auth'', JObj
     [(Some ''realms'', JArr [(None, JObj [(Some ''name'', JStr ''admin''), (Some ''hash'', JStr h)])]),
      (Some ''cookies'', JArr [])])])]"

definition demo_dev :: "string \<Rightarrow> storage" where
  "demo_dev h = (demo_storage (demo_auth h))\<lparr>accums :=
     [\<lparr>ac_task = 0, ac_ops = [], ac_depth = 0, ac_silent = False, ac_active = False\<rparr>]\<rparr>"

lemma demo_dev_ok [simp]: "auth_plain (demo_dev h)" "storage_ok demo_env (demo_dev h)" "bracket_free 1 (demo_dev h)"
  "cfgRoot (demo_dev h) = demo_auth h"
  by (simp_all add: auth_plain_def demo_dev_def plain_key_def demo_storage_def sdbRoute_def storage_ok_def demo_auth_def
      ci_eq_def tolower_def bracket_free_def accumFindOrCreate_def)

lemma demo_tables:
  "obj_arr ci_eq (demo_auth h) (table ''realms'') [(None, JObj [(Some ''name'', JStr ''admin''), (Some ''hash'', JStr h)])]"
  "obj_arr ci_eq (demo_auth h) (table ''cookies'') []"
  by (simp_all add: obj_arr_def demo_auth_def navStep_def GetObjectItem_def ci_eq_def tolower_def SEG_MAX_def)

lemma demo_realms:
  "realmCount (demo_call t) (demo_dev h) = Some 1" "nameAt (demo_call t) (demo_dev h) 0 = ''admin''"
  "length h < 128 \<Longrightarrow> hashAt (demo_call t) (demo_dev h) 0 = h"
  using array_count [of demo_env "demo_dev h" "''realms''"] keyText_table [of "demo_call t" "demo_dev h" "''realms''" _ _ 0]
    demo_tables(1) [of h]
  by (simp_all add: realmCount_def realmKey_eq fieldOf_def arrGet_def GetObjectItem_def ci_eq_def tolower_def INT32_MAX_def
      del: nat_str.simps)

text \<open>On a fresh device every password is wrong; on one with a password the right one opens a session.\<close>

theorem authLogin_correct_witness:
  "authLogin (demo_call 0) ''pw'' [] (\<lparr>lastFailMs = 0, failCount = 0\<rparr>, demo_dev [])
     = Some ((AUTH_WRONG_PASSWORD, [], []), \<lparr>lastFailMs = 5, failCount = 1\<rparr>, demo_dev [])
   \<and> (\<exists>st'. authLogin (demo_call 0) ''pw'' [] (\<lparr>lastFailMs = 0, failCount = 0\<rparr>, demo_dev (hashPassword (\<lambda>bs. bs) ''pw'' (replicate 16 0)))
       = Some ((AUTH_OK, ''admin'', concat (replicate 16 ''ab'')), \<lparr>lastFailMs = 0, failCount = 0\<rparr>, st'))"
proof
  let ?c = "demo_call 0" and ?b = "\<lparr>lastFailMs = 0, failCount = 0\<rparr>" and ?h = "hashPassword (\<lambda>bs. bs) ''pw'' (replicate 16 0)"
  have lim: "\<not> isRateLimited ?c ?b" by (simp add: isRateLimited_def)
  show "authLogin ?c ''pw'' [] (?b, demo_dev []) = Some ((AUTH_WRONG_PASSWORD, [], []), \<lparr>lastFailMs = 5, failCount = 1\<rparr>, demo_dev [])"
    using authLogin_correct [OF demo_dev_ok(1) demo_realms(1) [where t = 0 and h = "[]"], where pw = "''pw''" and tryRealm = "[]" and b = ?b]
      demo_realms(2,3) [where t = 0 and h = "[]"] lim by (simp add: hashPassword_def)
  have tk: "toHex (take 16 (au_random ?c)) = concat (replicate 16 ''ab'')" unfolding demo_call_sel by code_simp
  have t: "inferType (toHex (replicate 16 171)) = CFG_STR" "cstr ''admin''" "stored_text ''admin'' = ''admin''" by code_simp+
  have lh: "length ?h < 128" by (simp add: hashPassword_def)
  have inv: "session_inv ?c (demo_dev ?h)" using demo_tables(2) [of ?h] by (auto simp: session_inv_def)
  have cnt: "cookieRows ?c (demo_dev ?h) < MAX_COOKIES"
    using cookieRows_arr [of ?c "demo_dev ?h" "[]"] demo_tables(2) [of ?h] by (simp add: MAX_COOKIES_def)
  note L = authLogin_correct [OF demo_dev_ok(1) demo_realms(1) [where t = 0 and h = ?h], where pw = "''pw''" and tryRealm = "[]" and b = ?b]
  have "authLogin ?c ''pw'' [] (?b, demo_dev ?h) \<noteq> None"
    by (rule mp [OF conjunct2 [OF L]]) (use inv cnt t demo_realms(2) [where t = 0 and h = ?h] in simp)
  moreover have "find (\<lambda>i. nameAt ?c (demo_dev ?h) i \<noteq> [] \<and> ([] = [] \<or> nameAt ?c (demo_dev ?h) i = [])
      \<and> (\<exists>salt. length salt = 16 \<and> hashAt ?c (demo_dev ?h) i = hashPassword (au_sha ?c) ''pw'' salt)) [0..<1] = Some 0"
    using demo_realms(2,3) [where t = 0 and h = ?h] lh by (auto intro: exI [of _ "replicate 16 0"])
  ultimately show "\<exists>st'. authLogin ?c ''pw'' [] (?b, demo_dev ?h) = Some ((AUTH_OK, ''admin'', concat (replicate 16 ''ab'')), ?b, st')"
    using lim demo_realms(2) [where t = 0 and h = ?h] unfolding conjunct1 [OF L] tk by (auto simp del: upt.simps)
qed

text \<open>The probe of a fresh device, and a wrong old password on one whose password is set.\<close>

theorem authPasswd_correct_witness:
  "authPasswd (demo_call 0) ''admin'' [] [] (demo_dev []) = Some (AUTH_OK, demo_dev [])
   \<and> authPasswd (demo_call 0) ''guest'' [] ''x'' (demo_dev []) = Some (AUTH_NO_SUCH_REALM, demo_dev [])"
  using authPasswd_correct [OF demo_dev_ok(1) demo_realms(1) [where t = 0 and h = "[]"], of "''admin''" "[]" "[]"]
    authPasswd_correct [OF demo_dev_ok(1) demo_realms(1) [where t = 0 and h = "[]"], of "''guest''" "[]" "''x''"]
    demo_realms(2,3) [where t = 0 and h = "[]"] by simp

theorem login_then_check_witness:
  "\<exists>st'. authLogin (demo_call 1700000001) ''pw'' [] (\<lparr>lastFailMs = 0, failCount = 0\<rparr>, demo_dev (hashPassword (\<lambda>bs. bs) ''pw'' (replicate 16 0)))
       = Some ((AUTH_OK, ''admin'', concat (replicate 16 ''ab'')), \<lparr>lastFailMs = 0, failCount = 0\<rparr>, st')
     \<and> authCheck (demo_call 1705000000) (concat (replicate 16 ''ab'')) st' = Some (''admin'', st')"
proof -
  let ?h = "hashPassword (\<lambda>bs. bs) ''pw'' (replicate 16 0)" and ?c = "demo_call 1700000001" and ?b = "\<lparr>lastFailMs = 0, failCount = 0\<rparr>"
  define tok where "tok = concat (replicate 16 ''ab'')"
  have tk: "toHex (take 16 (au_random ?c)) = tok" unfolding tok_def demo_call_sel by code_simp
  have t: "cstr tok" "length tok < 64" "inferType tok = CFG_STR" unfolding tok_def by code_simp+
  have adm: "cstr ''admin''" "length ''admin'' < 100" "stored_text ''admin'' = ''admin''" by code_simp+
  have lh: "length ?h < 128" by (simp add: hashPassword_def)
  have inv: "session_inv ?c (demo_dev ?h)" using demo_tables(2) [of ?h] by (auto simp: session_inv_def)
  have cnt: "cookieCount ?c (demo_dev ?h) = Some 0"
    using array_count [of demo_env "demo_dev ?h" "''cookies''" "[]"] demo_tables(2) [of ?h] by (simp add: cookieCount_def)
  have "session_ok (tok, ''admin'', 1705184001)" using t adm by (simp add: session_ok_def stored_text_def)
  then obtain st' where st': "cookieAdd ?c tok ''admin'' (int 1705184001) (demo_dev ?h) = Some st'"
    using cookie_add_row [OF inv] cnt by (fastforce simp: cookieRows_def MAX_COOKIES_def)
  have lim: "\<not> isRateLimited ?c ?b" by (simp add: isRateLimited_def)
  have login: "authLogin ?c ''pw'' [] (?b, demo_dev ?h) = Some ((AUTH_OK, ''admin'', tok), ?b, st')"
    unfolding authLogin_eq [OF demo_dev_ok(1) demo_realms(1)]
    using demo_realms(2,3) [where t = 1700000001 and h = ?h] lh lim st' tk by (auto intro: exI [of _ "replicate 16 0"])
  have "authCheck (demo_call 1705000000) tok st' = Some (''admin'', st')"
    using login_then_check [OF inv cnt _ demo_realms(1) login, of "demo_call 1705000000"] t adm by (simp add: MAX_COOKIES_def)
  then show ?thesis using login unfolding tok_def by blast
qed

theorem evicts_last_beside_free_row_witness: "oldestIn (demo_call 0) [0..<14 + 2] (0, 0) (demo_dev []) = Some (14 + 1, demo_dev [])"
proof -
  have e: "keyText (demo_call 0) (demo_dev []) 32 (cookieKey (int i) ''expires'') = []" if "i \<le> 14" for i
    using keyText_cookie [of "demo_call 0" "demo_dev []" "[]" "''expires''" i 32] demo_tables(2) [of "[]"] that
    by (simp add: fieldOf_def arrGet_def INT32_MAX_def)
  show ?thesis
    by (rule evicts_last_beside_free_row [OF demo_dev_ok(1) e]) (simp_all add: e strtoll_def)
qed

end
