(* ===== verification/Its_State.thy ===== *)
theory Its_State
  imports Prelude "HOL-Library.Monad_Syntax"
begin

section \<open>Inter-task streams: the state (its.cpp)\<close>

text \<open>
  The tables of its.cpp and what they stand on. Task handles, callbacks and heap addresses are
  pointers, 32-bit words with 0 for null. The heap is a store from addresses to blocks, so that
  a block freed twice, or freed without being allocated, is an undefined behaviour and the
  operation returns \<open>None\<close>. A table entry pointer is the index of the entry.

  FreeRTOS is not part of the repository: stream buffers and queues are the argument \<open>rtos\<close> of
  the operations, with what its documentation says of them as the named hypotheses \<open>sb_laws\<close> and
  \<open>q_laws\<close>. A binary semaphore is the token it holds, a task notification is a count. What the
  other tasks do while the caller is blocked is the argument \<open>e_others\<close>, a function of the number
  of the wait; the heap, the callbacks and the names of the tasks are arguments too.
\<close>

type_synonym task = u32
type_synonym ptr = u32
type_synonym ticks = u32

abbreviation (input) portMAX_DELAY :: ticks where "portMAX_DELAY \<equiv> 0xFFFFFFFF"

subsection \<open>Kinds, messages and tables\<close>

datatype its_port_kind = ITS_STREAM | ITS_PACKET_LEGACY | ITS_PACKET

datatype its_wait = ITS_WAIT_DELIVERY | ITS_WAIT_PICKUP

datatype its_kind = ITS_K_CONNECT | ITS_K_DISC_FROM_CLIENT | ITS_K_DISC_FROM_SERVER
  | ITS_K_FORWARD | ITS_K_AUX | ITS_K_CONNECT_CANCEL

text \<open>The conversion to \<open>int8_t\<close> that a connection's refs go through.\<close>

definition int8 :: "int \<Rightarrow> int" where
  "int8 x = (x + 128) mod 256 - 128"

record its_msg =
  m_kind :: its_kind
  m_pickup :: bool
  m_port :: u16
  m_handle :: int
  m_ref :: int
  m_nonce :: u32
  m_sender :: task
  m_cb :: ptr
  m_len :: u32
  m_payload :: ptr

definition SIZEOF_ITS_MSG :: nat where "SIZEOF_ITS_MSG = 28"
definition SIZEOF_ITS_DESC :: nat where "SIZEOF_ITS_DESC = 8"

text \<open>\<open>spaceFreedSem\<close> and the other semaphores: no semaphore, or whether the token is there.\<close>

type_synonym sem = "bool option"

record 'b its_pool_entry =
  p_handle :: "'b option"
  p_sbCtrl :: ptr
  p_sbStore :: ptr
  p_size :: nat
  p_pooled :: bool
  p_triggerLevel :: nat
  p_inUse :: bool
  p_freeNotify :: nat
  p_sem :: sem

record 'b its_link =
  l_ring :: "'b option"
  l_depth :: nat
  l_byteCap :: u32
  l_maxMsg :: u32
  l_outstanding :: u32
  l_freeNotify :: u32
  l_sem :: sem
  l_inUse :: bool

record its_conn =
  c_active :: bool
  c_packetBased :: bool
  c_kind :: its_port_kind
  c_noPool :: bool
  c_clientTask :: task
  c_serverTask :: task
  c_toPoolIdx :: int
  c_fromPoolIdx :: int
  c_toLinkIdx :: int
  c_fromLinkIdx :: int
  c_itsPort :: u16
  c_clientRef :: int
  c_serverRef :: int
  c_connectNonce :: u32
  c_cliRecvCb :: ptr
  c_cliDisconnectCb :: ptr

record its_aux_entry =
  a_active :: bool
  a_port :: u16
  a_cb :: ptr

record its_server_port =
  sp_active :: bool
  sp_packetBased :: bool
  sp_kind :: its_port_kind
  sp_port :: u16
  sp_maxHandles :: int
  sp_toSize :: u32
  sp_fromSize :: u32
  sp_depth :: nat
  sp_maxMsg :: u32
  sp_onConnect :: ptr
  sp_onBusy :: ptr
  sp_onDisconnect :: ptr
  sp_onRecv :: ptr

record 'q its_task =
  t_task :: task
  t_serverPorts :: "its_server_port list"
  t_serverPortCount :: nat
  t_maxConns :: int
  t_ackSem :: sem
  t_ackHandle :: int
  t_ackNonce :: u32
  t_connectGen :: u32
  t_pickupSem :: sem
  t_auxCallbacks :: "its_aux_entry list"
  t_auxCount :: nat
  t_inbox :: "'q option"
  t_inboxMsgMax :: nat
  t_inboxDepth :: nat
  t_isServer :: bool
  t_isClient :: bool
  t_no_pool :: bool

record its_ctr =
  liveBlocks :: u32
  liveBytes :: u32
  hwBlocks :: u32
  hwBytes :: u32

definition ITS_MAX_POOL :: nat where "ITS_MAX_POOL = 128"
definition ITS_MAX_LINKS :: nat where "ITS_MAX_LINKS = 256"
definition ITS_MAX_CONNS :: nat where "ITS_MAX_CONNS = 128"
definition ITS_MAX_TASKS :: nat where "ITS_MAX_TASKS = 48"
definition ITS_MAX_PORTS :: nat where "ITS_MAX_PORTS = 8"
definition ITS_MAX_MSG_DATA :: nat where "ITS_MAX_MSG_DATA = 320"
definition ITS_INBOX_DEPTH :: nat where "ITS_INBOX_DEPTH = 32"
definition ITS_INBOX_MSG_MAX :: nat where "ITS_INBOX_MSG_MAX = 4096"
definition ITS_PKT_DEPTH :: nat where "ITS_PKT_DEPTH = 16"
definition ITS_MSG_MAX :: u32 where "ITS_MSG_MAX = 65536"

text \<open>
  The whole state. A table of the source that grows by a counter is the list of its used entries:
  the pool, the links, the tasks. \<open>itsLinks\<close> and \<open>s_tasks\<close> are null until the first
  registration. \<open>waits\<close> numbers the points at which the caller has blocked so far.
\<close>

record ('b, 'q) its_state =
  itsPool :: "'b its_pool_entry list"
  itsLinks :: "'b its_link list option"
  connTable :: "its_conn list"
  connCounter :: nat
  s_tasks :: "'q its_task list option"
  s_pendingPay :: "u32 list"
  hdrCtr :: its_ctr
  payCtr :: its_ctr
  heap :: "ptr \<Rightarrow> bytes option"
  notified :: "task \<Rightarrow> nat"
  tickCount :: ticks
  boosted :: bool
  s_onDemand :: "(string \<times> ptr) list"
  waits :: nat

subsection \<open>The surroundings\<close>

text \<open>Stream buffers and queues without blocking; the waits are in the operations.\<close>

record ('b, 'q) rtos =
  sbCreate :: "nat \<Rightarrow> 'b"
  sbAvail :: "'b \<Rightarrow> nat"
  sbSpaces :: "'b \<Rightarrow> nat"
  sbSend :: "'b \<Rightarrow> bytes \<Rightarrow> nat \<times> 'b"
  sbReceive :: "'b \<Rightarrow> nat \<Rightarrow> bytes \<times> 'b"
  sbReset :: "'b \<Rightarrow> 'b"
  sbSetTrigger :: "'b \<Rightarrow> nat \<Rightarrow> bool"
  qCreate :: "nat \<Rightarrow> 'q"
  qSend :: "'q \<Rightarrow> its_msg \<Rightarrow> 'q option"
  qReceive :: "'q \<Rightarrow> (its_msg \<times> 'q) option"

text \<open>
  What FreeRTOS documents of a stream buffer, \<open>cap\<close> being its capacity and \<open>cont\<close> its content: a
  static buffer of \<open>n\<close> bytes holds one byte less, a send takes what fits, a receive gives what is
  there, both in order.
\<close>

definition sb_laws :: "('b, 'q) rtos \<Rightarrow> ('b \<Rightarrow> nat) \<Rightarrow> ('b \<Rightarrow> bytes) \<Rightarrow> bool" where
  "sb_laws R cap cont \<longleftrightarrow>
     (\<forall>n. cap (sbCreate R n) = n - 1 \<and> cont (sbCreate R n) = [])
     \<and> (\<forall>b. length (cont b) \<le> cap b \<and> sbAvail R b = length (cont b)
            \<and> sbSpaces R b = cap b - length (cont b)
            \<and> cap (sbReset R b) = cap b \<and> cont (sbReset R b) = [])
     \<and> (\<forall>b xs. let k = min (length xs) (cap b - length (cont b)) in
            fst (sbSend R b xs) = k \<and> cap (snd (sbSend R b xs)) = cap b
            \<and> cont (snd (sbSend R b xs)) = cont b @ take k xs)
     \<and> (\<forall>b n. fst (sbReceive R b n) = take n (cont b) \<and> cap (snd (sbReceive R b n)) = cap b
            \<and> cont (snd (sbReceive R b n)) = drop n (cont b))"

text \<open>And of a queue, \<open>len\<close> being its length and \<open>items\<close> what is in it, oldest first.\<close>

definition q_laws :: "('b, 'q) rtos \<Rightarrow> ('q \<Rightarrow> nat) \<Rightarrow> ('q \<Rightarrow> its_msg list) \<Rightarrow> bool" where
  "q_laws R len items \<longleftrightarrow>
     (\<forall>n. len (qCreate R n) = n \<and> items (qCreate R n) = [])
     \<and> (\<forall>q m. if length (items q) < len q
              then \<exists>q'. qSend R q m = Some q' \<and> len q' = len q \<and> items q' = items q @ [m]
              else qSend R q m = None)
     \<and> (\<forall>q. case items q of [] \<Rightarrow> qReceive R q = None
            | m # ms \<Rightarrow> \<exists>q'. qReceive R q = Some (m, q') \<and> len q' = len q \<and> items q' = ms)"

text \<open>
  The environment of a call: the operating system, the heap's answer to a request (the address
  given, or none), whether a semaphore and one of the two big tables can be allocated, the sizes of
  the control blocks and of a task name, ticks per time in milliseconds, the other
  tasks during a wait, the name service of the tasks, and the callbacks of the application by
  their addresses.
\<close>

record ('b, 'q) its_env =
  e_rtos :: "('b, 'q) rtos"
  e_malloc :: "(ptr \<Rightarrow> bytes option) \<Rightarrow> nat \<Rightarrow> ptr option"
  e_sem :: "nat \<Rightarrow> bool"
  e_table :: "nat \<Rightarrow> bool"
  e_sbCtrlSize :: nat
  e_qCtrlSize :: nat
  e_taskNameLen :: nat
  e_ms :: "nat \<Rightarrow> ticks"
  e_others :: "nat \<Rightarrow> ('b, 'q) its_state \<Rightarrow> ('b, 'q) its_state"
  e_taskGetHandle :: "string \<Rightarrow> ('b, 'q) its_state \<Rightarrow> task"
  e_onConnect :: "ptr \<Rightarrow> int \<Rightarrow> ptr \<Rightarrow> u32 \<Rightarrow> ('b, 'q) its_state \<Rightarrow> (int \<times> ('b, 'q) its_state) option"
  e_onBusy :: "ptr \<Rightarrow> bytes option \<Rightarrow> u32 \<Rightarrow> ('b, 'q) its_state \<Rightarrow> (bool \<times> ('b, 'q) its_state) option"
  e_onDisconnect :: "ptr \<Rightarrow> int \<Rightarrow> ('b, 'q) its_state \<Rightarrow> ('b, 'q) its_state option"
  e_onRecv :: "ptr \<Rightarrow> int \<Rightarrow> nat \<Rightarrow> ('b, 'q) its_state \<Rightarrow> ('b, 'q) its_state option"
  e_onAux :: "ptr \<Rightarrow> task \<Rightarrow> ptr \<Rightarrow> u32 \<Rightarrow> ('b, 'q) its_state \<Rightarrow> ('b, 'q) its_state option"
  e_spawn :: "ptr \<Rightarrow> ('b, 'q) its_state \<Rightarrow> ('b, 'q) its_state option"

text \<open>An allocation never returns null as an address or a block that is in use.\<close>

definition malloc_laws :: "('b, 'q) its_env \<Rightarrow> bool" where
  "malloc_laws E \<longleftrightarrow> (\<forall>h n p. e_malloc E h n = Some p \<longrightarrow> p \<noteq> 0 \<and> h p = None)"

subsection \<open>Heap, waits, semaphores and notifications\<close>

definition heap_malloc :: "('b, 'q) its_env \<Rightarrow> nat \<Rightarrow> ('b, 'q) its_state \<Rightarrow> ptr \<times> ('b, 'q) its_state" where
  "heap_malloc E n st =
     (case e_malloc E (heap st) n of
        None \<Rightarrow> (0, st)
      | Some p \<Rightarrow> (p, st\<lparr>heap := (heap st)(p \<mapsto> replicate n 0)\<rparr>))"

definition heap_free :: "ptr \<Rightarrow> ('b, 'q) its_state \<Rightarrow> ('b, 'q) its_state option" where
  "heap_free p st =
     (if p = 0 then Some st
      else if heap st p = None then None
      else Some (st\<lparr>heap := (heap st)(p := None)\<rparr>))"

text \<open>A blocked caller: the other tasks run, and the caller wakes in the state they leave.\<close>

definition blocked :: "('b, 'q) its_env \<Rightarrow> ('b, 'q) its_state \<Rightarrow> ('b, 'q) its_state" where
  "blocked E st = e_others E (waits st) (st\<lparr>waits := Suc (waits st)\<rparr>)"

text \<open>\<open>xSemaphoreCreateBinary\<close>: the \<open>k\<close>-th one of a state may fail for want of memory.\<close>

definition sem_create :: "('b, 'q) its_env \<Rightarrow> nat \<Rightarrow> sem" where
  "sem_create E k = (if e_sem E k then Some False else None)"

definition sem_give :: "sem \<Rightarrow> sem" where
  "sem_give s = map_option (\<lambda>_. True) s"

definition sem_clear :: "sem \<Rightarrow> sem" where
  "sem_clear s = map_option (\<lambda>_. False) s"

definition task_notify :: "task \<Rightarrow> ('b, 'q) its_state \<Rightarrow> ('b, 'q) its_state" where
  "task_notify t st = st\<lparr>notified := (notified st)(t := Suc (notified st t))\<rparr>"

subsection \<open>Ownership counters\<close>

definition ctrAdd :: "nat \<Rightarrow> its_ctr \<Rightarrow> its_ctr" where
  "ctrAdd n c =
     (let lb = liveBlocks c + 1; by = liveBytes c + of_nat n in
      c\<lparr>liveBlocks := lb, liveBytes := by,
        hwBlocks := (if lb > hwBlocks c then lb else hwBlocks c),
        hwBytes := (if by > hwBytes c then by else hwBytes c)\<rparr>)"

definition ctrSub :: "nat \<Rightarrow> its_ctr \<Rightarrow> its_ctr" where
  "ctrSub n c = c\<lparr>liveBlocks := liveBlocks c - 1, liveBytes := liveBytes c - of_nat n\<rparr>"

definition payAlloc :: "('b, 'q) its_env \<Rightarrow> nat \<Rightarrow> ('b, 'q) its_state \<Rightarrow> ptr \<times> ('b, 'q) its_state" where
  "payAlloc E len st =
     (if len = 0 then (0, st)
      else case heap_malloc E len st of
             (p, st1) \<Rightarrow> (p, if p \<noteq> 0 then st1\<lparr>payCtr := ctrAdd len (payCtr st1)\<rparr> else st1))"

definition payAdopt :: "nat \<Rightarrow> ('b, 'q) its_state \<Rightarrow> ('b, 'q) its_state" where
  "payAdopt len st = st\<lparr>payCtr := ctrAdd len (payCtr st)\<rparr>"

definition payDrop :: "ptr \<Rightarrow> nat \<Rightarrow> ('b, 'q) its_state \<Rightarrow> ('b, 'q) its_state option" where
  "payDrop p len st =
     (if p = 0 then Some st
      else do { st1 \<leftarrow> heap_free p st; Some (st1\<lparr>payCtr := ctrSub len (payCtr st1)\<rparr>) })"

definition payHandoff :: "nat \<Rightarrow> ('b, 'q) its_state \<Rightarrow> ('b, 'q) its_state" where
  "payHandoff len st = st\<lparr>payCtr := ctrSub len (payCtr st)\<rparr>"

text \<open>\<open>memcpy\<close> into a fresh block, and reading a block of at least the length asked for.\<close>

definition heap_write :: "ptr \<Rightarrow> bytes \<Rightarrow> ('b, 'q) its_state \<Rightarrow> ('b, 'q) its_state option" where
  "heap_write p bs st =
     (case heap st p of
        None \<Rightarrow> None
      | Some old \<Rightarrow> if length bs \<le> length old
                    then Some (st\<lparr>heap := (heap st)(p \<mapsto> bs @ drop (length bs) old)\<rparr>) else None)"

definition heap_read :: "ptr \<Rightarrow> nat \<Rightarrow> ('b, 'q) its_state \<Rightarrow> bytes option" where
  "heap_read p n st =
     (case heap st p of
        None \<Rightarrow> None
      | Some bs \<Rightarrow> if n \<le> length bs then Some (take n bs) else None)"

subsection \<open>Table updates\<close>

definition pool_upd :: "nat \<Rightarrow> ('b its_pool_entry \<Rightarrow> 'b its_pool_entry) \<Rightarrow> ('b, 'q) its_state \<Rightarrow> ('b, 'q) its_state" where
  "pool_upd i f st = st\<lparr>itsPool := (itsPool st)[i := f (itsPool st ! i)]\<rparr>"

definition links :: "('b, 'q) its_state \<Rightarrow> 'b its_link list" where
  "links st = (case itsLinks st of None \<Rightarrow> [] | Some ls \<Rightarrow> ls)"

definition link_upd :: "nat \<Rightarrow> ('b its_link \<Rightarrow> 'b its_link) \<Rightarrow> ('b, 'q) its_state \<Rightarrow> ('b, 'q) its_state" where
  "link_upd i f st = st\<lparr>itsLinks := map_option (\<lambda>ls. ls[i := f (ls ! i)]) (itsLinks st)\<rparr>"

definition conn_upd :: "nat \<Rightarrow> (its_conn \<Rightarrow> its_conn) \<Rightarrow> ('b, 'q) its_state \<Rightarrow> ('b, 'q) its_state" where
  "conn_upd h f st = st\<lparr>connTable := (connTable st)[h := f (connTable st ! h)]\<rparr>"

definition tasks :: "('b, 'q) its_state \<Rightarrow> 'q its_task list" where
  "tasks st = (case s_tasks st of None \<Rightarrow> [] | Some ts \<Rightarrow> ts)"

definition task_upd :: "nat \<Rightarrow> ('q its_task \<Rightarrow> 'q its_task) \<Rightarrow> ('b, 'q) its_state \<Rightarrow> ('b, 'q) its_state" where
  "task_upd i f st = st\<lparr>s_tasks := map_option (\<lambda>ts. ts[i := f (ts ! i)]) (s_tasks st)\<rparr>"

end
