(* ===== verification/Its_Pool.thy ===== *)
theory Its_Pool
  imports Its_State
begin

section \<open>Inter-task streams: buffers, rings and connections (its.cpp)\<close>

text \<open>
  The pool of stream buffers, the descriptor rings of packet links, and the connection table.
  The control block and the storage of a buffer are heap blocks. The trigger level FreeRTOS keeps
  beside a buffer only delays a blocked receive; it is not part of the model.
\<close>

subsection \<open>Stream buffer pool\<close>

definition blankPool :: "'b its_pool_entry" where
  "blankPool = \<lparr>p_handle = None, p_sbCtrl = 0, p_sbStore = 0, p_size = 0, p_pooled = False,
     p_triggerLevel = 0, p_inUse = False, p_freeNotify = 0, p_sem = None\<rparr>"

text \<open>The second half of \<open>poolGet\<close>: the slot \<open>i\<close> is claimed, then its buffer is created.\<close>

definition poolFill :: "('b, 'q) its_env \<Rightarrow> nat \<Rightarrow> bool \<Rightarrow> nat \<Rightarrow> ('b, 'q) its_state \<Rightarrow> (int \<times> ('b, 'q) its_state) option" where
  "poolFill E sz noPool i st =
     (let st1 = pool_upd i (\<lambda>e. e\<lparr>p_size := sz, p_inUse := True, p_pooled := \<not> noPool, p_triggerLevel := 1,
                   p_freeNotify := 0, p_handle := None, p_sbCtrl := 0, p_sbStore := 0\<rparr>) st;
          (ctrl, st2) = heap_malloc E (e_sbCtrlSize E) st1;
          (store, st3) = heap_malloc E (sz + 1) st2 in
      do {
        st4 \<leftarrow> (if ctrl \<noteq> 0 \<and> store \<noteq> 0
               then Some (pool_upd i (\<lambda>e. e\<lparr>p_sbCtrl := ctrl, p_sbStore := store,
                                             p_handle := Some (sbCreate (e_rtos E) sz)\<rparr>) st3)
               else do { a \<leftarrow> heap_free ctrl st3; heap_free store a });
        let st5 = (if p_sem (itsPool st4 ! i) = None
                   then pool_upd i (\<lambda>e. e\<lparr>p_sem := sem_create E i\<rparr>) st4 else st4);
        Some (if p_handle (itsPool st5 ! i) = None \<or> p_sem (itsPool st5 ! i) = None then - 1 else int i, st5)
      })"

definition poolReusable :: "nat \<Rightarrow> 'b its_pool_entry \<Rightarrow> bool" where
  "poolReusable sz e \<longleftrightarrow> \<not> p_inUse e \<and> p_pooled e \<and> p_handle e \<noteq> None \<and> p_size e = sz"

definition poolReclaimable :: "'b its_pool_entry \<Rightarrow> bool" where
  "poolReclaimable e \<longleftrightarrow> \<not> p_inUse e \<and> p_handle e = None"

definition poolGet :: "('b, 'q) its_env \<Rightarrow> nat \<Rightarrow> bool \<Rightarrow> ('b, 'q) its_state \<Rightarrow> (int \<times> ('b, 'q) its_state) option" where
  "poolGet E sz noPool st =
     (let n = length (itsPool st) in
      if sz = 0 then Some (- 1, st)
      else case (if noPool then None else find (\<lambda>i. poolReusable sz (itsPool st ! i)) [0..<n]) of
        Some i \<Rightarrow> Some (int i, pool_upd i (\<lambda>e. e\<lparr>p_inUse := True, p_triggerLevel := 1,
                                   p_handle := map_option (sbReset (e_rtos E)) (p_handle e)\<rparr>) st)
      | None \<Rightarrow>
          (case find (\<lambda>i. poolReclaimable (itsPool st ! i)) [0..<n] of
             Some i \<Rightarrow> poolFill E sz noPool i st
           | None \<Rightarrow>
               if n \<ge> ITS_MAX_POOL then Some (- 1, st)
               else poolFill E sz noPool n (st\<lparr>itsPool := itsPool st @ [blankPool]\<rparr>)))"

definition poolFree :: "('b, 'q) its_env \<Rightarrow> int \<Rightarrow> ('b, 'q) its_state \<Rightarrow> ('b, 'q) its_state option" where
  "poolFree E idx st =
     (if idx < 0 \<or> idx \<ge> int (length (itsPool st)) then Some st
      else let i = nat idx; e = itsPool st ! i in
        if p_pooled e
        then Some (pool_upd i (\<lambda>e. e\<lparr>p_handle := map_option (sbReset (e_rtos E)) (p_handle e),
                     p_inUse := False, p_triggerLevel := 1, p_sem := sem_give (p_sem e)\<rparr>) st)
        else let st1 = pool_upd i (\<lambda>e. e\<lparr>p_handle := None, p_sbCtrl := 0, p_sbStore := 0, p_size := 0,
                     p_inUse := False, p_triggerLevel := 1, p_freeNotify := 0, p_sem := sem_give (p_sem e)\<rparr>) st in
             if p_handle e \<noteq> None
             then do { st2 \<leftarrow> heap_free (p_sbCtrl e) st1; heap_free (p_sbStore e) st2 }
             else Some st1)"

definition poolRetainOnFree :: "int \<Rightarrow> ('b, 'q) its_state \<Rightarrow> ('b, 'q) its_state" where
  "poolRetainOnFree idx st =
     (if idx \<ge> 0 \<and> idx < int (length (itsPool st)) then pool_upd (nat idx) (\<lambda>e. e\<lparr>p_pooled := True\<rparr>) st else st)"

definition poolHandle :: "int \<Rightarrow> ('b, 'q) its_state \<Rightarrow> 'b option" where
  "poolHandle idx st =
     (if idx < 0 \<or> idx \<ge> int (length (itsPool st)) then None else p_handle (itsPool st ! nat idx))"

subsection \<open>Descriptor rings\<close>

record its_desc =
  d_len :: u32
  d_ptr :: ptr

definition desc_bytes :: "its_desc \<Rightarrow> bytes" where
  "desc_bytes d = le32 (d_len d) @ le32 (d_ptr d)"

definition desc_of :: "bytes \<Rightarrow> its_desc" where
  "desc_of bs = \<lparr>d_len = of_le32 bs, d_ptr = of_le32 (drop 4 bs)\<rparr>"

definition blankLink :: "'b its_link" where
  "blankLink = \<lparr>l_ring = None, l_depth = 0, l_byteCap = 0, l_maxMsg = 0, l_outstanding = 0,
     l_freeNotify = 0, l_sem = None, l_inUse = False\<rparr>"

definition linkFill :: "('b, 'q) its_env \<Rightarrow> nat \<Rightarrow> u32 \<Rightarrow> u32 \<Rightarrow> nat \<Rightarrow> ('b, 'q) its_state \<Rightarrow> (int \<times> ('b, 'q) its_state) option" where
  "linkFill E depth byteCap maxMsg i st =
     (let st1 = link_upd i (\<lambda>L. L\<lparr>l_depth := depth, l_byteCap := byteCap, l_maxMsg := maxMsg, l_freeNotify := 0,
                   l_inUse := True, l_ring := None, l_outstanding := 0\<rparr>) st;
          ringBytes = (depth + 1) * SIZEOF_ITS_DESC;
          (ctrl, st2) = heap_malloc E (e_sbCtrlSize E) st1;
          (store, st3) = heap_malloc E (ringBytes + 1) st2 in
      do {
        st4 \<leftarrow> (if ctrl \<noteq> 0 \<and> store \<noteq> 0
               then Some (link_upd i (\<lambda>L. L\<lparr>l_ring := Some (sbCreate (e_rtos E) ringBytes)\<rparr>) st3)
               else do { a \<leftarrow> heap_free ctrl st3; heap_free store a });
        let st5 = (if l_sem (links st4 ! i) = None
                   then link_upd i (\<lambda>L. L\<lparr>l_sem := sem_create E (ITS_MAX_POOL + i)\<rparr>) st4 else st4);
        Some (if l_ring (links st5 ! i) = None \<or> l_sem (links st5 ! i) = None then - 1 else int i, st5)
      })"

definition linkReusable :: "nat \<Rightarrow> 'b its_link \<Rightarrow> bool" where
  "linkReusable depth L \<longleftrightarrow> \<not> l_inUse L \<and> l_ring L \<noteq> None \<and> l_depth L = depth"

definition linkReclaimable :: "'b its_link \<Rightarrow> bool" where
  "linkReclaimable L \<longleftrightarrow> \<not> l_inUse L \<and> l_ring L = None"

definition linkAcquire :: "('b, 'q) its_env \<Rightarrow> nat \<Rightarrow> u32 \<Rightarrow> u32 \<Rightarrow> ('b, 'q) its_state \<Rightarrow> (int \<times> ('b, 'q) its_state) option" where
  "linkAcquire E depth0 byteCap maxMsg st =
     (let depth = (if depth0 = 0 then 1 else depth0) in
      case itsLinks st of
        None \<Rightarrow> None
      | Some ls \<Rightarrow>
          (case find (\<lambda>i. linkReusable depth (ls ! i)) [0..<length ls] of
             Some i \<Rightarrow> Some (int i, link_upd i (\<lambda>L. L\<lparr>l_inUse := True, l_byteCap := byteCap, l_maxMsg := maxMsg,
                                 l_freeNotify := 0, l_outstanding := 0,
                                 l_ring := map_option (sbReset (e_rtos E)) (l_ring L)\<rparr>) st)
           | None \<Rightarrow>
               (case find (\<lambda>i. linkReclaimable (ls ! i)) [0..<length ls] of
                  Some i \<Rightarrow> linkFill E depth byteCap maxMsg i st
                | None \<Rightarrow>
                    if length ls \<ge> ITS_MAX_LINKS then Some (- 1, st)
                    else linkFill E depth byteCap maxMsg (length ls) (st\<lparr>itsLinks := Some (ls @ [blankLink])\<rparr>))))"

text \<open>The loop that takes every descriptor off a ring and frees its payload.\<close>

partial_function (option) linkDrain :: "('b, 'q) its_env \<Rightarrow> nat \<Rightarrow> ('b, 'q) its_state \<Rightarrow> ('b, 'q) its_state option" where
  "linkDrain E i st =
     (case l_ring (links st ! i) of
        None \<Rightarrow> Some st
      | Some b \<Rightarrow>
          if sbAvail (e_rtos E) b < SIZEOF_ITS_DESC then Some st
          else let r = sbReceive (e_rtos E) b SIZEOF_ITS_DESC;
                   st1 = link_upd i (\<lambda>L. L\<lparr>l_ring := Some (snd r)\<rparr>) st in
               if length (fst r) \<noteq> SIZEOF_ITS_DESC then Some st1
               else do {
                 st2 \<leftarrow> payDrop (d_ptr (desc_of (fst r))) (unat (d_len (desc_of (fst r)))) st1;
                 linkDrain E i st2
               })"

definition linkFree :: "('b, 'q) its_env \<Rightarrow> int \<Rightarrow> ('b, 'q) its_state \<Rightarrow> ('b, 'q) its_state option" where
  "linkFree E idx st =
     (if idx < 0 \<or> idx \<ge> int (length (links st)) then Some st
      else let i = nat idx in
        do {
          st1 \<leftarrow> linkDrain E i st;
          Some (link_upd i (\<lambda>L. L\<lparr>l_ring := map_option (sbReset (e_rtos E)) (l_ring L), l_inUse := False,
                   l_freeNotify := 0, l_outstanding := 0, l_sem := sem_give (l_sem L)\<rparr>) st1)
        })"

definition linkAt :: "int \<Rightarrow> ('b, 'q) its_state \<Rightarrow> nat option" where
  "linkAt idx st = (if idx \<ge> 0 \<and> idx < int (length (links st)) then Some (nat idx) else None)"

definition linkPurge :: "('b, 'q) its_env \<Rightarrow> int \<Rightarrow> ('b, 'q) its_state \<Rightarrow> ('b, 'q) its_state option" where
  "linkPurge E idx st =
     (case linkAt idx st of
        None \<Rightarrow> Some st
      | Some i \<Rightarrow>
          if l_ring (links st ! i) = None then Some st
          else do {
            st1 \<leftarrow> linkDrain E i st;
            Some (link_upd i (\<lambda>L. L\<lparr>l_ring := map_option (sbReset (e_rtos E)) (l_ring L),
                     l_outstanding := 0, l_sem := sem_give (l_sem L)\<rparr>) st1)
          })"

subsection \<open>Connection table\<close>

definition blankConn :: its_conn where
  "blankConn = \<lparr>c_active = False, c_packetBased = False, c_kind = ITS_STREAM, c_noPool = False,
     c_clientTask = 0, c_serverTask = 0, c_toPoolIdx = 0, c_fromPoolIdx = 0, c_toLinkIdx = 0, c_fromLinkIdx = 0,
     c_itsPort = 0, c_clientRef = 0, c_serverRef = 0, c_connectNonce = 0, c_cliRecvCb = 0, c_cliDisconnectCb = 0\<rparr>"

definition connAlloc :: "('b, 'q) its_state \<Rightarrow> int \<times> ('b, 'q) its_state" where
  "connAlloc st =
     (case find (\<lambda>idx. \<not> c_active (connTable st ! idx))
             (map (\<lambda>i. (connCounter st + i) mod ITS_MAX_CONNS) [0..<ITS_MAX_CONNS]) of
        None \<Rightarrow> (- 1, st)
      | Some idx \<Rightarrow>
          (int idx,
           (conn_upd idx (\<lambda>_. blankConn\<lparr>c_active := True, c_toPoolIdx := - 1, c_fromPoolIdx := - 1,
              c_toLinkIdx := - 1, c_fromLinkIdx := - 1, c_clientRef := - 1, c_serverRef := - 1\<rparr>) st)
           \<lparr>connCounter := (idx + 1) mod ITS_MAX_CONNS\<rparr>))"

definition connFree :: "('b, 'q) its_env \<Rightarrow> int \<Rightarrow> ('b, 'q) its_state \<Rightarrow> ('b, 'q) its_state option" where
  "connFree E handle st =
     (if handle < 0 \<or> handle \<ge> int ITS_MAX_CONNS then Some st
      else let c = connTable st ! nat handle;
               st1 = conn_upd (nat handle) (\<lambda>_. blankConn\<lparr>c_toPoolIdx := - 1, c_fromPoolIdx := - 1,
                       c_toLinkIdx := - 1, c_fromLinkIdx := - 1\<rparr>) st in
        do {
          st2 \<leftarrow> poolFree E (c_toPoolIdx c) st1;
          st3 \<leftarrow> poolFree E (c_fromPoolIdx c) st2;
          st4 \<leftarrow> linkFree E (c_toLinkIdx c) st3;
          linkFree E (c_fromLinkIdx c) st4
        })"

definition conn :: "int \<Rightarrow> ('b, 'q) its_state \<Rightarrow> its_conn option" where
  "conn handle st =
     (if handle < 0 \<or> handle \<ge> int ITS_MAX_CONNS then None
      else let c = connTable st ! nat handle in if c_active c then Some c else None)"

end
