(* ===== verification/Its_Link.thy ===== *)
theory Its_Link
  imports Its_Pool
begin

section \<open>Inter-task streams: packet links (its.cpp)\<close>

text \<open>
  The resolution of a handle by one of its two ends, and the flow of messages over a packet
  link: a ring of descriptors in each direction, the payloads in heap blocks, a window on the
  bytes outstanding. The task that calls is the argument \<open>me\<close>. A link that was handed out has a
  ring and a semaphore; taking from a null semaphore is undefined. The waiting loops return
  \<open>None\<close> when they wait for ever.
\<close>

subsection \<open>Waiting\<close>

definition semTake :: "('b, 'q) its_env \<Rightarrow> (('b, 'q) its_state \<Rightarrow> sem) \<Rightarrow> (('b, 'q) its_state \<Rightarrow> ('b, 'q) its_state)
    \<Rightarrow> ticks \<Rightarrow> ('b, 'q) its_state \<Rightarrow> (bool \<times> ('b, 'q) its_state) option" where
  "semTake E get clr timeout st =
     (case get st of
        None \<Rightarrow> None
      | Some True \<Rightarrow> Some (True, clr st)
      | Some False \<Rightarrow>
          if timeout = 0 then Some (False, st)
          else let st1 = blocked E st in
               if get st1 = Some True then Some (True, clr st1) else Some (False, st1))"

definition notifyTake :: "('b, 'q) its_env \<Rightarrow> task \<Rightarrow> bool \<Rightarrow> ticks \<Rightarrow> ('b, 'q) its_state \<Rightarrow> nat \<times> ('b, 'q) its_state" where
  "notifyTake E me clear timeout st =
     (let taken = (\<lambda>s. (notified s me,
                        s\<lparr>notified := (notified s)(me := if clear then 0 else notified s me - 1)\<rparr>)) in
      if notified st me > 0 \<or> timeout = 0 then taken st else taken (blocked E st))"

subsection \<open>Handle resolution\<close>

definition sendBufWithPool :: "task \<Rightarrow> int \<Rightarrow> ('b, 'q) its_state \<Rightarrow> nat option" where
  "sendBufWithPool me handle st =
     (case conn handle st of
        None \<Rightarrow> None
      | Some c \<Rightarrow>
          let idx = (if me = c_clientTask c then c_toPoolIdx c
                     else if me = c_serverTask c then c_fromPoolIdx c else - 1) in
          if idx < 0 \<or> idx \<ge> int (length (itsPool st)) then None else Some (nat idx))"

definition recvBufWithPool :: "task \<Rightarrow> int \<Rightarrow> ('b, 'q) its_state \<Rightarrow> nat option" where
  "recvBufWithPool me handle st =
     (case conn handle st of
        None \<Rightarrow> None
      | Some c \<Rightarrow>
          let idx = (if me = c_clientTask c then c_fromPoolIdx c
                     else if me = c_serverTask c then c_toPoolIdx c else - 1) in
          if idx < 0 \<or> idx \<ge> int (length (itsPool st)) then None else Some (nat idx))"

definition sendBuf :: "task \<Rightarrow> int \<Rightarrow> ('b, 'q) its_state \<Rightarrow> 'b option" where
  "sendBuf me handle st =
     (case sendBufWithPool me handle st of None \<Rightarrow> None | Some i \<Rightarrow> p_handle (itsPool st ! i))"

definition recvBuf :: "task \<Rightarrow> int \<Rightarrow> ('b, 'q) its_state \<Rightarrow> 'b option" where
  "recvBuf me handle st =
     (case recvBufWithPool me handle st of None \<Rightarrow> None | Some i \<Rightarrow> p_handle (itsPool st ! i))"

definition remoteOf :: "task \<Rightarrow> int \<Rightarrow> ('b, 'q) its_state \<Rightarrow> task" where
  "remoteOf me handle st =
     (case conn handle st of
        None \<Rightarrow> 0
      | Some c \<Rightarrow> if me = c_clientTask c then c_serverTask c
                  else if me = c_serverTask c then c_clientTask c else 0)"

definition sendLink :: "task \<Rightarrow> int \<Rightarrow> ('b, 'q) its_state \<Rightarrow> nat option" where
  "sendLink me handle st =
     (case conn handle st of
        None \<Rightarrow> None
      | Some c \<Rightarrow>
          if c_kind c \<noteq> ITS_PACKET then None
          else if me = c_clientTask c then linkAt (c_toLinkIdx c) st
          else if me = c_serverTask c then linkAt (c_fromLinkIdx c) st
          else None)"

definition recvLink :: "task \<Rightarrow> int \<Rightarrow> ('b, 'q) its_state \<Rightarrow> nat option" where
  "recvLink me handle st =
     (case conn handle st of
        None \<Rightarrow> None
      | Some c \<Rightarrow>
          if c_kind c \<noteq> ITS_PACKET then None
          else if me = c_clientTask c then linkAt (c_fromLinkIdx c) st
          else if me = c_serverTask c then linkAt (c_toLinkIdx c) st
          else None)"

definition notify_remote :: "task \<Rightarrow> int \<Rightarrow> ('b, 'q) its_state \<Rightarrow> ('b, 'q) its_state" where
  "notify_remote me handle st =
     (if remoteOf me handle st \<noteq> 0 then task_notify (remoteOf me handle st) st else st)"

definition linkWakeSender :: "task \<Rightarrow> int \<Rightarrow> nat \<Rightarrow> ('b, 'q) its_state \<Rightarrow> ('b, 'q) its_state" where
  "linkWakeSender me handle i st =
     notify_remote me handle (link_upd i (\<lambda>L. L\<lparr>l_sem := sem_give (l_sem L)\<rparr>) st)"

subsection \<open>The window\<close>

definition ringSpaces :: "('b, 'q) its_env \<Rightarrow> 'b its_link \<Rightarrow> nat" where
  "ringSpaces E L = (case l_ring L of None \<Rightarrow> 0 | Some b \<Rightarrow> sbSpaces (e_rtos E) b)"

definition ringAvail :: "('b, 'q) its_env \<Rightarrow> 'b its_link \<Rightarrow> nat" where
  "ringAvail E L = (case l_ring L of None \<Rightarrow> 0 | Some b \<Rightarrow> sbAvail (e_rtos E) b)"

definition linkSendSpace :: "('b, 'q) its_env \<Rightarrow> 'b its_link \<Rightarrow> u32" where
  "linkSendSpace E L =
     (if ringSpaces E L < SIZEOF_ITS_DESC then 0
      else let out = l_outstanding L in
        if out = 0 then l_maxMsg L
        else if out < l_byteCap L then l_byteCap L - out else 0)"

definition linkCanSend :: "('b, 'q) its_env \<Rightarrow> 'b its_link \<Rightarrow> u32 \<Rightarrow> bool" where
  "linkCanSend E L len \<longleftrightarrow>
     \<not> ringSpaces E L < SIZEOF_ITS_DESC \<and> (l_outstanding L = 0 \<or> l_outstanding L + len \<le> l_byteCap L)"

subsection \<open>Sending and receiving descriptors\<close>

definition linkSemTake :: "('b, 'q) its_env \<Rightarrow> nat \<Rightarrow> ticks \<Rightarrow> ('b, 'q) its_state \<Rightarrow> (bool \<times> ('b, 'q) its_state) option" where
  "linkSemTake E i = semTake E (\<lambda>s. l_sem (links s ! i)) (link_upd i (\<lambda>L. L\<lparr>l_sem := sem_clear (l_sem L)\<rparr>))"

definition link_arm :: "nat \<Rightarrow> u32 \<Rightarrow> ('b, 'q) its_state \<Rightarrow> ('b, 'q) its_state" where
  "link_arm i n = link_upd i (\<lambda>L. L\<lparr>l_freeNotify := n\<rparr>)"

partial_function (option) linkWaitLoop :: "('b, 'q) its_env \<Rightarrow> int \<Rightarrow> nat \<Rightarrow> u32 \<Rightarrow> ticks \<Rightarrow> ticks \<Rightarrow> ticks
    \<Rightarrow> ('b, 'q) its_state \<Rightarrow> (bool \<times> ('b, 'q) its_state) option" where
  "linkWaitLoop E handle i len timeout start remaining st =
     do {
       r0 \<leftarrow> linkSemTake E i 0 st;
       let st1 = link_arm i len (snd r0);
       if linkCanSend E (links st1 ! i) len then Some (True, link_arm i 0 st1)
       else do {
         r1 \<leftarrow> linkSemTake E i remaining st1;
         let st2 = snd r1;
         if conn handle st2 = None then Some (False, link_arm i 0 st2)
         else if fst r1 \<and> linkCanSend E (links st2 ! i) len then Some (True, link_arm i 0 st2)
         else if timeout \<noteq> portMAX_DELAY
         then let elapsed = tickCount st2 - start in
              if elapsed \<ge> timeout then Some (False, link_arm i 0 st2)
              else linkWaitLoop E handle i len timeout start (timeout - elapsed) st2
         else linkWaitLoop E handle i len timeout start remaining st2
       }
     }"

definition linkWaitForSpace :: "('b, 'q) its_env \<Rightarrow> int \<Rightarrow> nat \<Rightarrow> u32 \<Rightarrow> ticks \<Rightarrow> ('b, 'q) its_state
    \<Rightarrow> (bool \<times> ('b, 'q) its_state) option" where
  "linkWaitForSpace E handle i len timeout st =
     (if linkCanSend E (links st ! i) len then Some (True, st)
      else if timeout = 0 then Some (False, st)
      else linkWaitLoop E handle i len timeout (tickCount st) timeout st)"

definition linkEnqueue :: "('b, 'q) its_env \<Rightarrow> task \<Rightarrow> int \<Rightarrow> nat \<Rightarrow> ptr \<Rightarrow> u32 \<Rightarrow> ('b, 'q) its_state \<Rightarrow> ('b, 'q) its_state" where
  "linkEnqueue E me handle i p len st =
     notify_remote me handle
       (link_upd i (\<lambda>L. L\<lparr>l_outstanding := l_outstanding L + len,
           l_ring := map_option (\<lambda>b. snd (sbSend (e_rtos E) b (desc_bytes \<lparr>d_len = len, d_ptr = p\<rparr>))) (l_ring L)\<rparr>) st)"

partial_function (option) linkDequeueWait :: "('b, 'q) its_env \<Rightarrow> task \<Rightarrow> int \<Rightarrow> nat \<Rightarrow> ticks \<Rightarrow> ticks \<Rightarrow> ticks
    \<Rightarrow> ('b, 'q) its_state \<Rightarrow> (bool \<times> ('b, 'q) its_state) option" where
  "linkDequeueWait E me handle i timeout start remaining st =
     (if \<not> ringAvail E (links st ! i) < SIZEOF_ITS_DESC then Some (True, st)
      else if remaining = 0 then Some (False, st)
      else let st1 = snd (notifyTake E me False remaining st) in
        if conn handle st1 = None then Some (False, st1)
        else if ringAvail E (links st1 ! i) \<ge> SIZEOF_ITS_DESC then Some (True, st1)
        else if timeout \<noteq> portMAX_DELAY
        then let elapsed = tickCount st1 - start in
             linkDequeueWait E me handle i timeout start (if elapsed \<ge> timeout then 0 else timeout - elapsed) st1
        else linkDequeueWait E me handle i timeout start remaining st1)"

definition linkDequeue :: "('b, 'q) its_env \<Rightarrow> task \<Rightarrow> int \<Rightarrow> nat \<Rightarrow> ticks \<Rightarrow> ('b, 'q) its_state
    \<Rightarrow> (its_desc option \<times> ('b, 'q) its_state) option" where
  "linkDequeue E me handle i timeout st =
     do {
       r \<leftarrow> linkDequeueWait E me handle i timeout (tickCount st) timeout st;
       let st1 = snd r;
       if \<not> fst r then Some (None, st1)
       else case l_ring (links st1 ! i) of
              None \<Rightarrow> Some (None, st1)
            | Some b \<Rightarrow>
                let x = sbReceive (e_rtos E) b SIZEOF_ITS_DESC;
                    st2 = link_upd i (\<lambda>L. L\<lparr>l_ring := Some (snd x)\<rparr>) st1 in
                if length (fst x) \<noteq> SIZEOF_ITS_DESC then Some (None, st2)
                else let d = desc_of (fst x) in
                  Some (Some d, linkWakeSender me handle i
                          (link_upd i (\<lambda>L. L\<lparr>l_outstanding := l_outstanding L - d_len d\<rparr>) st2))
     }"

end
