(* ===== verification/Its_Task.thy ===== *)
theory Its_Task
  imports Its_Link
begin

section \<open>Inter-task streams: tasks and mailboxes (its.cpp)\<close>

text \<open>
  The registry of tasks and the mailbox of each: a queue of message headers. A header has one
  owner at a time, so it travels by value and only the count of live headers is kept; a payload
  is a heap block. A caller that passes data passes it with its length; no data is \<open>[]\<close>.
\<close>

subsection \<open>Headers\<close>

definition msgAlloc :: "('b, 'q) its_env \<Rightarrow> ('b, 'q) its_state \<Rightarrow> (its_msg option \<times> ('b, 'q) its_state)" where
  "msgAlloc E st =
     (case e_malloc E (heap st) SIZEOF_ITS_MSG of
        None \<Rightarrow> (None, st)
      | Some _ \<Rightarrow> (Some \<lparr>m_kind = ITS_K_CONNECT, m_pickup = False, m_port = 0, m_handle = - 1, m_ref = - 1,
                       m_nonce = 0, m_sender = 0, m_cb = 0, m_len = 0, m_payload = 0\<rparr>,
                   st\<lparr>hdrCtr := ctrAdd SIZEOF_ITS_MSG (hdrCtr st)\<rparr>))"

definition msgFree :: "its_msg \<Rightarrow> ('b, 'q) its_state \<Rightarrow> ('b, 'q) its_state option" where
  "msgFree m st =
     do {
       st1 \<leftarrow> (if m_payload m \<noteq> 0 then payDrop (m_payload m) (unat (m_len m)) st else Some st);
       Some (st1\<lparr>hdrCtr := ctrSub SIZEOF_ITS_MSG (hdrCtr st1)\<rparr>)
     }"

definition msg_pending :: "its_msg \<Rightarrow> u32" where
  "msg_pending m = (if m_payload m \<noteq> 0 then m_len m else 0)"

subsection \<open>Registry\<close>

definition taskFind :: "task \<Rightarrow> ('b, 'q) its_state \<Rightarrow> nat option" where
  "taskFind t st =
     (if s_tasks st = None \<or> t = 0 then None
      else find (\<lambda>i. t_task (tasks st ! i) = t) [0..<length (tasks st)])"

definition blankPort :: its_server_port where
  "blankPort = \<lparr>sp_active = False, sp_packetBased = False, sp_kind = ITS_STREAM, sp_port = 0, sp_maxHandles = 0,
     sp_toSize = 0, sp_fromSize = 0, sp_depth = 0, sp_maxMsg = 0, sp_onConnect = 0, sp_onBusy = 0,
     sp_onDisconnect = 0, sp_onRecv = 0\<rparr>"

definition blankAux :: its_aux_entry where
  "blankAux = \<lparr>a_active = False, a_port = 0, a_cb = 0\<rparr>"

definition newTask :: "task \<Rightarrow> sem \<Rightarrow> nat \<Rightarrow> nat \<Rightarrow> 'q option \<Rightarrow> 'q its_task" where
  "newTask t pickup guard depth q =
     \<lparr>t_task = t, t_serverPorts = replicate ITS_MAX_PORTS blankPort, t_serverPortCount = 0, t_maxConns = 0,
      t_ackSem = None, t_ackHandle = - 1, t_ackNonce = 0, t_connectGen = 0, t_pickupSem = pickup,
      t_auxCallbacks = replicate ITS_MAX_PORTS blankAux, t_auxCount = 0, t_inbox = q, t_inboxMsgMax = guard,
      t_inboxDepth = depth, t_isServer = False, t_isClient = False, t_no_pool = False\<rparr>"

definition taskCreate :: "('b, 'q) its_env \<Rightarrow> task \<Rightarrow> nat \<Rightarrow> nat \<Rightarrow> 'q its_task list \<Rightarrow> ('b, 'q) its_state
    \<Rightarrow> (nat option \<times> ('b, 'q) its_state) option" where
  "taskCreate E t inboxMaxMsgLen inboxDepth ts st =
     (let i = length ts;
          guard0 = (if inboxMaxMsgLen > 0 then inboxMaxMsgLen else ITS_INBOX_MSG_MAX);
          guard = (if guard0 < ITS_MAX_MSG_DATA then ITS_MAX_MSG_DATA else guard0);
          depth = (if inboxDepth > 0 then inboxDepth else ITS_INBOX_DEPTH);
          pickup = sem_create E (ITS_MAX_POOL + ITS_MAX_LINKS + i);
          (ctrl, st1) = heap_malloc E (e_qCtrlSize E) st;
          (store, st2) = heap_malloc E (depth * 4) st1;
          ok = (ctrl \<noteq> 0 \<and> store \<noteq> 0);
          q = (if ok then Some (qCreate (e_rtos E) depth) else None) in
      do {
        st3 \<leftarrow> (if ok then Some st2 else do { a \<leftarrow> heap_free ctrl st2; heap_free store a });
        Some (Some i, st3\<lparr>s_tasks := Some (ts @ [newTask t pickup guard depth q]),
                          s_pendingPay := (s_pendingPay st3)[i := 0]\<rparr>)
      })"

definition taskFindOrCreate :: "('b, 'q) its_env \<Rightarrow> task \<Rightarrow> nat \<Rightarrow> nat \<Rightarrow> ('b, 'q) its_state
    \<Rightarrow> (nat option \<times> ('b, 'q) its_state) option" where
  "taskFindOrCreate E t inboxMaxMsgLen inboxDepth st =
     (case taskFind t st of
        Some i \<Rightarrow> Some (Some i, st)
      | None \<Rightarrow>
          let st1 = (if s_tasks st = None
                     then st\<lparr>s_tasks := (if e_table E 0 then Some [] else None),
                             itsLinks := (if e_table E 1 then Some [] else None)\<rparr>
                     else st) in
          if s_tasks st = None \<and> (s_tasks st1 = None \<or> itsLinks st1 = None) then Some (None, st1)
          else if length (tasks st1) \<ge> ITS_MAX_TASKS then Some (None, st1)
          else taskCreate E t inboxMaxMsgLen inboxDepth (tasks st1) st1)"

text \<open>The part of the task-death hook that is this module's.\<close>

definition vTaskPreDeletionHook :: "task \<Rightarrow> ('b, 'q) its_state \<Rightarrow> ('b, 'q) its_state" where
  "vTaskPreDeletionHook dead st =
     (case find (\<lambda>i. t_task (tasks st ! i) = dead) [0..<length (tasks st)] of
        None \<Rightarrow> st
      | Some i \<Rightarrow> task_upd i (\<lambda>t. t\<lparr>t_task := 0\<rparr>) st)"

definition portFind :: "'q its_task \<Rightarrow> u16 \<Rightarrow> nat option" where
  "portFind t port =
     find (\<lambda>i. sp_active (t_serverPorts t ! i) \<and> sp_port (t_serverPorts t ! i) = port) [0..<t_serverPortCount t]"

definition port_upd :: "nat \<Rightarrow> nat \<Rightarrow> (its_server_port \<Rightarrow> its_server_port) \<Rightarrow> ('b, 'q) its_state \<Rightarrow> ('b, 'q) its_state" where
  "port_upd ti pi f = task_upd ti (\<lambda>t. t\<lparr>t_serverPorts := (t_serverPorts t)[pi := f (t_serverPorts t ! pi)]\<rparr>)"

subsection \<open>Mailboxes\<close>

definition inboxPut :: "('b, 'q) its_env \<Rightarrow> nat \<Rightarrow> its_msg \<Rightarrow> ('b, 'q) its_state \<Rightarrow> ('b, 'q) its_state option" where
  "inboxPut E ti m st =
     (case t_inbox (tasks st ! ti) of
        None \<Rightarrow> None
      | Some q \<Rightarrow>
          (case qSend (e_rtos E) q m of
             None \<Rightarrow> None
           | Some q' \<Rightarrow>
               Some (task_notify (t_task (tasks st ! ti))
                 ((task_upd ti (\<lambda>t. t\<lparr>t_inbox := Some q'\<rparr>) st)
                   \<lparr>s_pendingPay := (s_pendingPay st)[ti := s_pendingPay st ! ti + msg_pending m]\<rparr>))))"

definition inboxEnqueue :: "('b, 'q) its_env \<Rightarrow> nat \<Rightarrow> its_msg \<Rightarrow> ticks \<Rightarrow> ('b, 'q) its_state \<Rightarrow> bool \<times> ('b, 'q) its_state" where
  "inboxEnqueue E ti m timeout st =
     (if t_inbox (tasks st ! ti) = None then (False, st)
      else case inboxPut E ti m st of
        Some st1 \<Rightarrow> (True, st1)
      | None \<Rightarrow>
          if timeout = 0 then (False, st)
          else let st1 = blocked E st in
               case inboxPut E ti m st1 of Some st2 \<Rightarrow> (True, st2) | None \<Rightarrow> (False, st1))"

definition inboxReceive :: "('b, 'q) its_env \<Rightarrow> nat \<Rightarrow> ('b, 'q) its_state \<Rightarrow> (its_msg \<times> ('b, 'q) its_state) option" where
  "inboxReceive E ti st =
     (case t_inbox (tasks st ! ti) of
        None \<Rightarrow> None
      | Some q \<Rightarrow>
          map_option (\<lambda>(m, q'). (m, task_upd ti (\<lambda>t. t\<lparr>t_inbox := Some q'\<rparr>) st)) (qReceive (e_rtos E) q))"

definition msg_discard :: "nat \<Rightarrow> its_msg \<Rightarrow> ('b, 'q) its_state \<Rightarrow> ('b, 'q) its_state option" where
  "msg_discard ti m st =
     msgFree m (st\<lparr>s_pendingPay := (s_pendingPay st)[ti := s_pendingPay st ! ti - msg_pending m]\<rparr>)"

partial_function (option) inboxDrain :: "('b, 'q) its_env \<Rightarrow> nat \<Rightarrow> ('b, 'q) its_state \<Rightarrow> ('b, 'q) its_state option" where
  "inboxDrain E ti st =
     (case inboxReceive E ti st of
        None \<Rightarrow> Some st
      | Some (m, st1) \<Rightarrow> do { st2 \<leftarrow> msg_discard ti m st1; inboxDrain E ti st2 })"

definition buildCopyMsg :: "('b, 'q) its_env \<Rightarrow> task \<Rightarrow> its_kind \<Rightarrow> u16 \<Rightarrow> int \<Rightarrow> bytes \<Rightarrow> nat \<Rightarrow> ('b, 'q) its_state
    \<Rightarrow> (its_msg option \<times> ('b, 'q) its_state) option" where
  "buildCopyMsg E me kind port handle data ti st =
     (if length data > t_inboxMsgMax (tasks st ! ti) then Some (None, st)
      else case msgAlloc E st of
        (None, st1) \<Rightarrow> Some (None, st1)
      | (Some m0, st1) \<Rightarrow>
          let m1 = m0\<lparr>m_kind := kind, m_port := port, m_handle := handle, m_sender := me,
                      m_len := of_nat (length data)\<rparr> in
          if data = [] then Some (Some m1, st1)
          else case payAlloc E (length data) st1 of (p, st2) \<Rightarrow>
            if p = 0 then do { st3 \<leftarrow> msgFree m1 st2; Some (None, st3) }
            else do { st3 \<leftarrow> heap_write p data st2; Some (Some (m1\<lparr>m_payload := p\<rparr>), st3) })"

definition serverPortActiveCount :: "task \<Rightarrow> u16 \<Rightarrow> ('b, 'q) its_state \<Rightarrow> int" where
  "serverPortActiveCount t port st =
     int (length (filter (\<lambda>c. c_active c \<and> c_serverTask c = t \<and> c_itsPort c = port) (connTable st)))"

end
