(* ===== verification/Its_Msg.thy ===== *)
theory Its_Msg
  imports Its_Task
begin

section \<open>Inter-task streams: disconnect, dispatch and poll (its.cpp)\<close>

text \<open>
  What a task does with the messages of its mailbox and with the data of its connections. The
  task that calls is \<open>me\<close>, its registry entry the index \<open>ti\<close>.
\<close>

subsection \<open>Disconnect\<close>

text \<open>
  Telling the other end, with the metadata in the header. The result says whether the message
  was taken; an unregistered peer or a full mailbox is not told.
\<close>

definition disc_msg :: "its_kind \<Rightarrow> task \<Rightarrow> int \<Rightarrow> u16 \<Rightarrow> int \<Rightarrow> ptr \<Rightarrow> its_msg \<Rightarrow> its_msg" where
  "disc_msg kind me handle port ref cb m =
     m\<lparr>m_kind := kind, m_sender := me, m_handle := handle, m_port := port, m_ref := ref, m_cb := cb\<rparr>"

definition disc_notify :: "('b, 'q) its_env \<Rightarrow> its_kind \<Rightarrow> task \<Rightarrow> int \<Rightarrow> u16 \<Rightarrow> int \<Rightarrow> ptr \<Rightarrow> task \<Rightarrow> ('b, 'q) its_state
    \<Rightarrow> (bool \<times> ('b, 'q) its_state) option" where
  "disc_notify E kind me handle port ref cb peer st =
     (case taskFind peer st of
        None \<Rightarrow> Some (False, st)
      | Some pi \<Rightarrow>
          (case msgAlloc E st of
             (None, st1) \<Rightarrow> Some (False, st1)
           | (Some m0, st1) \<Rightarrow>
               let m = disc_msg kind me handle port ref cb m0 in
               (case inboxEnqueue E pi m (e_ms E 100) st1 of
                  (True, st2) \<Rightarrow> Some (True, st2)
                | (False, st2) \<Rightarrow> do { st3 \<leftarrow> msgFree m st2; Some (False, st3) })))"

text \<open>One connection. A connection without pool keeps its entry until the peer has been told.\<close>

definition disconnect_end :: "('b, 'q) its_env \<Rightarrow> its_kind \<Rightarrow> task \<Rightarrow> int \<Rightarrow> its_conn \<Rightarrow> int \<Rightarrow> ptr \<Rightarrow> task \<Rightarrow> ('b, 'q) its_state
    \<Rightarrow> ('b, 'q) its_state option" where
  "disconnect_end E kind me handle c ref cb peer st =
     (let noPool = (c_noPool c \<and> c_kind c \<noteq> ITS_PACKET) in
      do {
        st1 \<leftarrow> (if \<not> noPool then connFree E handle st else Some st);
        r \<leftarrow> disc_notify E kind me handle (c_itsPort c) ref cb peer st1;
        if noPool \<and> \<not> fst r
        then connFree E handle (poolRetainOnFree (c_fromPoolIdx c) (poolRetainOnFree (c_toPoolIdx c) (snd r)))
        else Some (snd r)
      })"

definition itsDisconnect1 :: "('b, 'q) its_env \<Rightarrow> task \<Rightarrow> int \<Rightarrow> ('b, 'q) its_state \<Rightarrow> ('b, 'q) its_state option" where
  "itsDisconnect1 E me handle st =
     (case conn handle st of
        None \<Rightarrow> Some st
      | Some c \<Rightarrow>
          if c_serverTask c = me
          then disconnect_end E ITS_K_DISC_FROM_SERVER me handle c (c_clientRef c) (c_cliDisconnectCb c) (c_clientTask c) st
          else if c_clientTask c = me
          then disconnect_end E ITS_K_DISC_FROM_CLIENT me handle c (c_serverRef c) 0 (c_serverTask c) st
          else Some st)"

text \<open>Walking the table while the entries change under the walk.\<close>

fun disconnectWhere :: "('b, 'q) its_env \<Rightarrow> task \<Rightarrow> (its_conn \<Rightarrow> bool) \<Rightarrow> nat list \<Rightarrow> ('b, 'q) its_state \<Rightarrow> ('b, 'q) its_state option" where
  "disconnectWhere E me P [] st = Some st"
| "disconnectWhere E me P (i # is) st =
     do {
       st1 \<leftarrow> (if c_active (connTable st ! i) \<and> P (connTable st ! i) then itsDisconnect1 E me (int i) st else Some st);
       disconnectWhere E me P is st1
     }"

definition itsDisconnect :: "('b, 'q) its_env \<Rightarrow> task \<Rightarrow> int \<Rightarrow> ('b, 'q) its_state \<Rightarrow> ('b, 'q) its_state option" where
  "itsDisconnect E me handle st =
     (if handle = - 1
      then disconnectWhere E me (\<lambda>c. c_serverTask c = me \<or> c_clientTask c = me) [0..<ITS_MAX_CONNS] st
      else itsDisconnect1 E me handle st)"

subsection \<open>Connects\<close>

text \<open>The buffers of a new connection: rings for a packet port, stream buffers otherwise.\<close>

definition connectLinks :: "('b, 'q) its_env \<Rightarrow> its_server_port \<Rightarrow> nat \<Rightarrow> ('b, 'q) its_state \<Rightarrow> (bool \<times> ('b, 'q) its_state) option" where
  "connectLinks E sp h st =
     do {
       r1 \<leftarrow> (if sp_toSize sp > 0
             then do {
               r \<leftarrow> linkAcquire E (sp_depth sp) (sp_toSize sp) (sp_maxMsg sp) st;
               Some (\<not> fst r < 0, conn_upd h (\<lambda>c. c\<lparr>c_toLinkIdx := fst r\<rparr>) (snd r)) }
             else Some (True, st));
       if fst r1 \<and> sp_fromSize sp > 0
       then do {
         r \<leftarrow> linkAcquire E (sp_depth sp) (sp_fromSize sp) (sp_maxMsg sp) (snd r1);
         Some (\<not> fst r < 0, conn_upd h (\<lambda>c. c\<lparr>c_fromLinkIdx := fst r\<rparr>) (snd r)) }
       else Some r1
     }"

definition connectPools :: "('b, 'q) its_env \<Rightarrow> its_server_port \<Rightarrow> bool \<Rightarrow> nat \<Rightarrow> ('b, 'q) its_state \<Rightarrow> (bool \<times> ('b, 'q) its_state) option" where
  "connectPools E sp noPool h st =
     do {
       r1 \<leftarrow> (if sp_toSize sp > 0
             then do {
               r \<leftarrow> poolGet E (unat (sp_toSize sp)) noPool st;
               Some (\<not> fst r < 0, conn_upd h (\<lambda>c. c\<lparr>c_toPoolIdx := fst r\<rparr>) (snd r)) }
             else Some (True, st));
       if sp_fromSize sp > 0
       then do {
         r \<leftarrow> poolGet E (unat (sp_fromSize sp)) noPool (snd r1);
         Some (fst r1 \<and> \<not> fst r < 0, conn_upd h (\<lambda>c. c\<lparr>c_fromPoolIdx := fst r\<rparr>) (snd r)) }
       else Some r1
     }"

definition connectOpen :: "('b, 'q) its_env \<Rightarrow> nat \<Rightarrow> its_server_port \<Rightarrow> its_msg \<Rightarrow> nat \<Rightarrow> ('b, 'q) its_state
    \<Rightarrow> (bool \<times> ('b, 'q) its_state) option" where
  "connectOpen E ti sp m h st =
     (let me = tasks st ! ti;
          st1 = conn_upd h (\<lambda>c. c\<lparr>c_clientTask := m_sender m, c_serverTask := t_task me, c_itsPort := m_port m,
                  c_connectNonce := m_nonce m, c_kind := sp_kind sp, c_packetBased := sp_packetBased sp,
                  c_noPool := t_no_pool me\<rparr>) st in
      do {
        r \<leftarrow> (if sp_kind sp = ITS_PACKET then connectLinks E sp h st1 else connectPools E sp (t_no_pool me) h st1);
        a \<leftarrow> (if \<not> fst r then Some (False, snd r)
             else if sp_onConnect sp = 0 then Some (True, snd r)
             else do {
               x \<leftarrow> e_onConnect E (sp_onConnect sp) (int h) (m_payload m) (m_len m) (snd r);
               Some (fst x \<ge> 0, if fst x \<ge> 0 then conn_upd h (\<lambda>c. c\<lparr>c_serverRef := int8 (fst x)\<rparr>) (snd x) else snd x) });
        if fst a then Some a
        else do { st2 \<leftarrow> connFree E (int h) (snd a); Some (False, st2) }
      })"

definition ack_client :: "nat option \<Rightarrow> int \<Rightarrow> u32 \<Rightarrow> ('b, 'q) its_state \<Rightarrow> ('b, 'q) its_state" where
  "ack_client cli handle nonce st =
     (case cli of
        None \<Rightarrow> st
      | Some ci \<Rightarrow> task_upd ci (\<lambda>c. c\<lparr>t_ackHandle := handle, t_ackNonce := nonce, t_ackSem := sem_give (t_ackSem c)\<rparr>) st)"

definition portAt :: "nat \<Rightarrow> nat \<Rightarrow> ('b, 'q) its_state \<Rightarrow> its_server_port" where
  "portAt ti pi st = t_serverPorts (tasks st ! ti) ! pi"

definition portFull :: "nat \<Rightarrow> nat \<Rightarrow> u16 \<Rightarrow> ('b, 'q) its_state \<Rightarrow> bool" where
  "portFull ti pi port st \<longleftrightarrow> serverPortActiveCount (t_task (tasks st ! ti)) port st \<ge> sp_maxHandles (portAt ti pi st)"

definition procConnect :: "('b, 'q) its_env \<Rightarrow> nat \<Rightarrow> its_msg \<Rightarrow> ('b, 'q) its_state \<Rightarrow> ('b, 'q) its_state option" where
  "procConnect E ti m st =
     (case portFind (tasks st ! ti) (m_port m) of
        None \<Rightarrow> Some (ack_client (taskFind (m_sender m) st) (- 1) (m_nonce m) st)
      | Some pi \<Rightarrow>
          do {
            b \<leftarrow> (if portFull ti pi (m_port m) st \<and> sp_onBusy (portAt ti pi st) \<noteq> 0
                 then do {
                   r \<leftarrow> e_onBusy E (sp_onBusy (portAt ti pi st)) (heap st (m_payload m)) (m_len m) st;
                   Some (if \<not> fst r then portFull ti pi (m_port m) (snd r) else True, snd r) }
                 else Some (portFull ti pi (m_port m) st, st));
            let st1 = snd b;
            let cli = taskFind (m_sender m) st1;
            let (handle, st2) = (if \<not> fst b \<and> cli \<noteq> None then connAlloc st1 else (- 1, st1));
            a \<leftarrow> (if handle \<ge> 0 then connectOpen E ti (portAt ti pi st2) m (nat handle) st2 else Some (False, st2));
            Some (ack_client cli (if fst a then handle else - 1) (m_nonce m) (snd a))
          })"

text \<open>The reaping of a connection whose client gave up before the acknowledgement.\<close>

definition cancels :: "task \<Rightarrow> its_msg \<Rightarrow> its_conn \<Rightarrow> bool" where
  "cancels me m c \<longleftrightarrow> c_active c \<and> c_serverTask c = me \<and> c_clientTask c = m_sender m
     \<and> c_connectNonce c = m_nonce m \<and> m_nonce m \<noteq> 0"

definition tell_disconnect :: "('b, 'q) its_env \<Rightarrow> nat \<Rightarrow> u16 \<Rightarrow> int \<Rightarrow> ('b, 'q) its_state \<Rightarrow> ('b, 'q) its_state option" where
  "tell_disconnect E ti port ref st =
     (case portFind (tasks st ! ti) port of
        None \<Rightarrow> Some st
      | Some pi \<Rightarrow>
          let sp = portAt ti pi st in
          if sp_onDisconnect sp \<noteq> 0 \<and> ref \<ge> 0 then e_onDisconnect E (sp_onDisconnect sp) ref st else Some st)"

definition procCancel :: "('b, 'q) its_env \<Rightarrow> nat \<Rightarrow> its_msg \<Rightarrow> ('b, 'q) its_state \<Rightarrow> ('b, 'q) its_state option" where
  "procCancel E ti m st =
     (case find (\<lambda>h. cancels (t_task (tasks st ! ti)) m (connTable st ! h)) [0..<ITS_MAX_CONNS] of
        None \<Rightarrow> Some st
      | Some h \<Rightarrow>
          do {
            st1 \<leftarrow> connFree E (int h) st;
            tell_disconnect E ti (c_itsPort (connTable st ! h)) (c_serverRef (connTable st ! h)) st1
          })"

subsection \<open>Disconnects, forwards and aux messages\<close>

definition procDiscFromClient :: "('b, 'q) its_env \<Rightarrow> nat \<Rightarrow> its_msg \<Rightarrow> ('b, 'q) its_state \<Rightarrow> ('b, 'q) its_state option" where
  "procDiscFromClient E ti m st =
     (case conn (m_handle m) st of
        Some c \<Rightarrow>
          if c_serverTask c = t_task (tasks st ! ti) \<and> c_clientTask c = m_sender m
          then do { st1 \<leftarrow> connFree E (m_handle m) st; tell_disconnect E ti (c_itsPort c) (c_serverRef c) st1 }
          else tell_disconnect E ti (m_port m) (m_ref m) st
      | None \<Rightarrow> tell_disconnect E ti (m_port m) (m_ref m) st)"

definition client_cb :: "('b, 'q) its_env \<Rightarrow> ptr \<Rightarrow> int \<Rightarrow> ('b, 'q) its_state \<Rightarrow> ('b, 'q) its_state option" where
  "client_cb E cb ref st = (if ref \<ge> 0 \<and> cb \<noteq> 0 then e_onDisconnect E cb ref st else Some st)"

definition procDiscFromServer :: "('b, 'q) its_env \<Rightarrow> nat \<Rightarrow> its_msg \<Rightarrow> ('b, 'q) its_state \<Rightarrow> ('b, 'q) its_state option" where
  "procDiscFromServer E ti m st =
     (case conn (m_handle m) st of
        Some c \<Rightarrow>
          if c_clientTask c = t_task (tasks st ! ti) \<and> c_serverTask c = m_sender m
          then do { st1 \<leftarrow> connFree E (m_handle m) st; client_cb E (c_cliDisconnectCb c) (c_clientRef c) st1 }
          else client_cb E (m_cb m) (m_ref m) st
      | None \<Rightarrow> client_cb E (m_cb m) (m_ref m) st)"

definition procForward :: "('b, 'q) its_env \<Rightarrow> nat \<Rightarrow> its_msg \<Rightarrow> ('b, 'q) its_state \<Rightarrow> ('b, 'q) its_state option" where
  "procForward E ti m st =
     (let me = t_task (tasks st ! ti) in
      case conn (m_handle m) st of
        None \<Rightarrow> Some st
      | Some c \<Rightarrow>
          if c_serverTask c \<noteq> me then Some st
          else case portFind (tasks st ! ti) (m_port m) of
            None \<Rightarrow> itsDisconnect E me (m_handle m) st
          | Some pi \<Rightarrow>
              let sp = portAt ti pi st;
                  st1 = conn_upd (nat (m_handle m)) (\<lambda>c. c\<lparr>c_kind := sp_kind sp, c_packetBased := sp_packetBased sp\<rparr>) st in
              if sp_onConnect sp = 0 then Some st1
              else do {
                x \<leftarrow> e_onConnect E (sp_onConnect sp) (m_handle m) (m_payload m) (m_len m) st1;
                if fst x < 0 then itsDisconnect E me (m_handle m) (snd x) else Some (snd x)
              })"

definition auxFind :: "'q its_task \<Rightarrow> u16 \<Rightarrow> nat option" where
  "auxFind t port =
     find (\<lambda>i. a_active (t_auxCallbacks t ! i) \<and> a_port (t_auxCallbacks t ! i) = port) [0..<t_auxCount t]"

definition procAux :: "('b, 'q) its_env \<Rightarrow> nat \<Rightarrow> its_msg \<Rightarrow> ('b, 'q) its_state \<Rightarrow> ('b, 'q) its_state option" where
  "procAux E ti m st =
     (case auxFind (tasks st ! ti) (m_port m) of
        None \<Rightarrow> Some st
      | Some i \<Rightarrow>
          let cb = a_cb (t_auxCallbacks (tasks st ! ti) ! i) in
          if cb \<noteq> 0 then e_onAux E cb (m_sender m) (m_payload m) (m_len m) st else Some st)"

definition dispatch :: "('b, 'q) its_env \<Rightarrow> nat \<Rightarrow> its_msg \<Rightarrow> ('b, 'q) its_state \<Rightarrow> ('b, 'q) its_state option" where
  "dispatch E ti m st =
     (let srv = t_isServer (tasks st ! ti) in
      case m_kind m of
        ITS_K_CONNECT \<Rightarrow> if srv then procConnect E ti m st else Some st
      | ITS_K_CONNECT_CANCEL \<Rightarrow> if srv then procCancel E ti m st else Some st
      | ITS_K_DISC_FROM_CLIENT \<Rightarrow> procDiscFromClient E ti m st
      | ITS_K_DISC_FROM_SERVER \<Rightarrow> procDiscFromServer E ti m st
      | ITS_K_FORWARD \<Rightarrow> if srv then procForward E ti m st else Some st
      | ITS_K_AUX \<Rightarrow> procAux E ti m st)"

definition give_pickup :: "task \<Rightarrow> ('b, 'q) its_state \<Rightarrow> ('b, 'q) its_state" where
  "give_pickup t st =
     (case taskFind t st of
        None \<Rightarrow> st
      | Some si \<Rightarrow> task_upd si (\<lambda>s. s\<lparr>t_pickupSem := sem_give (t_pickupSem s)\<rparr>) st)"

definition processInboxMsg :: "('b, 'q) its_env \<Rightarrow> nat \<Rightarrow> its_msg \<Rightarrow> ('b, 'q) its_state \<Rightarrow> ('b, 'q) its_state option" where
  "processInboxMsg E ti m st =
     do {
       st1 \<leftarrow> dispatch E ti m st;
       msg_discard ti m (if m_pickup m then give_pickup (m_sender m) st1 else st1)
     }"

subsection \<open>Receive callbacks and the poll\<close>

definition recv_link_cb :: "('b, 'q) its_env \<Rightarrow> ptr \<Rightarrow> nat \<Rightarrow> int \<Rightarrow> ('b, 'q) its_state \<Rightarrow> (bool \<times> ('b, 'q) its_state) option" where
  "recv_link_cb E cb i idx st =
     (case linkAt idx st of
        None \<Rightarrow> Some (False, st)
      | Some li \<Rightarrow>
          let cnt = ringAvail E (links st ! li) div SIZEOF_ITS_DESC in
          if cnt = 0 then Some (False, st)
          else do {
            st1 \<leftarrow> e_onRecv E cb (int i) (unat (l_outstanding (links st ! li))) st;
            Some (\<not> c_active (connTable st1 ! i) \<or> ringAvail E (links st1 ! li) div SIZEOF_ITS_DESC < cnt, st1)
          })"

definition poolAvail :: "('b, 'q) its_env \<Rightarrow> int \<Rightarrow> ('b, 'q) its_state \<Rightarrow> nat" where
  "poolAvail E idx st = (case poolHandle idx st of None \<Rightarrow> 0 | Some b \<Rightarrow> sbAvail (e_rtos E) b)"

definition recv_pool_cb :: "('b, 'q) its_env \<Rightarrow> ptr \<Rightarrow> nat \<Rightarrow> bool \<Rightarrow> int \<Rightarrow> ('b, 'q) its_state \<Rightarrow> (bool \<times> ('b, 'q) its_state) option" where
  "recv_pool_cb E cb i packetBased idx st =
     (let avail = poolAvail E idx st; threshold = (if packetBased then 4 else 0) in
      if avail > threshold
      then do {
        st1 \<leftarrow> e_onRecv E cb (int i) avail st;
        Some (\<not> c_active (connTable st1 ! i) \<or> poolAvail E idx st1 < avail, st1)
      }
      else Some (False, st))"

definition recv_cb :: "nat \<Rightarrow> its_conn \<Rightarrow> ('b, 'q) its_state \<Rightarrow> ptr" where
  "recv_cb ti c st =
     (if c_serverTask c = t_task (tasks st ! ti)
      then (case portFind (tasks st ! ti) (c_itsPort c) of
              None \<Rightarrow> 0 | Some pi \<Rightarrow> sp_onRecv (portAt ti pi st))
      else c_cliRecvCb c)"

fun dispatchRecvCallbacks :: "('b, 'q) its_env \<Rightarrow> nat \<Rightarrow> nat list \<Rightarrow> bool \<Rightarrow> ('b, 'q) its_state \<Rightarrow> (bool \<times> ('b, 'q) its_state) option" where
  "dispatchRecvCallbacks E ti [] any st = Some (any, st)"
| "dispatchRecvCallbacks E ti (i # is) any st =
     (let c = connTable st ! i; me = t_task (tasks st ! ti);
          isServer = (c_serverTask c = me); cb = recv_cb ti c st in
      if \<not> c_active c \<or> (\<not> isServer \<and> c_clientTask c \<noteq> me) \<or> cb = 0
      then dispatchRecvCallbacks E ti is any st
      else do {
        r \<leftarrow> (if c_kind c = ITS_PACKET
             then recv_link_cb E cb i (if isServer then c_toLinkIdx c else c_fromLinkIdx c) st
             else recv_pool_cb E cb i (c_packetBased c) (if isServer then c_toPoolIdx c else c_fromPoolIdx c) st);
        dispatchRecvCallbacks E ti is (any \<or> fst r) (snd r)
      })"

definition pollOnce :: "('b, 'q) its_env \<Rightarrow> nat \<Rightarrow> ('b, 'q) its_state \<Rightarrow> (bool \<times> ('b, 'q) its_state) option" where
  "pollOnce E ti st =
     (if t_inbox (tasks st ! ti) = None then None
      else do {
        r \<leftarrow> (case inboxReceive E ti st of
               None \<Rightarrow> Some (False, st)
             | Some (m, st1) \<Rightarrow> do { st2 \<leftarrow> processInboxMsg E ti m st1; Some (True, st2) });
        dispatchRecvCallbacks E ti [0..<ITS_MAX_CONNS] (fst r) (snd r)
      })"

definition park :: "('b, 'q) its_env \<Rightarrow> task \<Rightarrow> ticks \<Rightarrow> ('b, 'q) its_state \<Rightarrow> ('b, 'q) its_state" where
  "park E me timeout st =
     (let (n, st1) = notifyTake E me True timeout (st\<lparr>boosted := False\<rparr>) in
      if n > 0 then st1\<lparr>boosted := True\<rparr> else st1)"

definition itsPoll :: "('b, 'q) its_env \<Rightarrow> task \<Rightarrow> ticks \<Rightarrow> ('b, 'q) its_state \<Rightarrow> (bool \<times> ('b, 'q) its_state) option" where
  "itsPoll E me timeout st =
     (case taskFind me st of
        None \<Rightarrow> Some (False, if timeout > 0 then park E me timeout st else st)
      | Some ti \<Rightarrow>
          do {
            r \<leftarrow> pollOnce E ti st;
            if fst r \<or> timeout = 0 then Some r
            else pollOnce E ti (park E me timeout (snd r))
          })"

end
