(* ===== verification/Its_Api.thy ===== *)
theory Its_Api
  imports Its_Msg
begin

section \<open>Inter-task streams: servers, clients and aux messages (its.cpp)\<close>

text \<open>The calls a task makes to serve, to connect, to forward and to send aux messages.\<close>

subsection \<open>Servers\<close>

definition itsServerInit :: "('b, 'q) its_env \<Rightarrow> task \<Rightarrow> nat \<Rightarrow> nat \<Rightarrow> bool \<Rightarrow> ('b, 'q) its_state \<Rightarrow> (bool \<times> ('b, 'q) its_state) option" where
  "itsServerInit E me inboxMaxMsgLen inboxDepth no_pool st =
     do {
       r \<leftarrow> taskFindOrCreate E me inboxMaxMsgLen inboxDepth st;
       case fst r of
         None \<Rightarrow> Some (False, snd r)
       | Some ti \<Rightarrow>
           if t_isServer (tasks (snd r) ! ti) then Some (False, snd r)
           else Some (True, task_upd ti (\<lambda>t. t\<lparr>t_isServer := True, t_no_pool := no_pool\<rparr>) (snd r))
     }"

definition freePortSlot :: "'q its_task \<Rightarrow> nat option" where
  "freePortSlot t = find (\<lambda>i. \<not> sp_active (t_serverPorts t ! i)) [0..<ITS_MAX_PORTS]"

definition claimPortSlot :: "u16 \<Rightarrow> nat \<Rightarrow> 'q its_task \<Rightarrow> 'q its_task" where
  "claimPortSlot port i t =
     t\<lparr>t_serverPorts := (t_serverPorts t)[i := blankPort\<lparr>sp_active := True, sp_port := port\<rparr>],
       t_serverPortCount := (if i + 1 > t_serverPortCount t then i + 1 else t_serverPortCount t)\<rparr>"

definition itsServerPortOpen :: "task \<Rightarrow> u16 \<Rightarrow> its_port_kind \<Rightarrow> int \<Rightarrow> u32 \<Rightarrow> u32 \<Rightarrow> nat \<Rightarrow> u32 \<Rightarrow> ('b, 'q) its_state
    \<Rightarrow> bool \<times> ('b, 'q) its_state" where
  "itsServerPortOpen me port kind maxHandles toCap fromCap depth0 maxMsg0 st =
     (case taskFind me st of
        None \<Rightarrow> (False, st)
      | Some ti \<Rightarrow>
          if \<not> t_isServer (tasks st ! ti) then (False, st)
          else let depth = (if kind = ITS_PACKET \<and> depth0 = 0 then ITS_PKT_DEPTH else depth0);
                   maxMsg = (if kind = ITS_PACKET \<and> maxMsg0 = 0 then ITS_MSG_MAX else maxMsg0);
                   fill = (\<lambda>pi. port_upd ti pi (\<lambda>sp. sp\<lparr>sp_kind := kind, sp_packetBased := (kind = ITS_PACKET_LEGACY),
                              sp_maxHandles := maxHandles, sp_toSize := toCap, sp_fromSize := fromCap,
                              sp_depth := depth, sp_maxMsg := maxMsg\<rparr>)) in
               case portFind (tasks st ! ti) port of
                 Some pi \<Rightarrow> (True, fill pi st)
               | None \<Rightarrow>
                   (case freePortSlot (tasks st ! ti) of
                      None \<Rightarrow> (False, st)
                    | Some pi \<Rightarrow> (True, fill pi (task_upd ti (claimPortSlot port pi) st))))"

definition itsServerPortOpenLegacy :: "task \<Rightarrow> u16 \<Rightarrow> bool \<Rightarrow> int \<Rightarrow> u32 \<Rightarrow> u32 \<Rightarrow> ('b, 'q) its_state
    \<Rightarrow> bool \<times> ('b, 'q) its_state" where
  "itsServerPortOpenLegacy me port packetBased maxHandles toSize fromSize =
     itsServerPortOpen me port (if packetBased then ITS_PACKET_LEGACY else ITS_STREAM) maxHandles toSize fromSize 0 0"

definition itsServerPortClose :: "('b, 'q) its_env \<Rightarrow> task \<Rightarrow> u16 \<Rightarrow> ('b, 'q) its_state \<Rightarrow> ('b, 'q) its_state option" where
  "itsServerPortClose E me port st =
     (case taskFind me st of
        None \<Rightarrow> Some st
      | Some ti \<Rightarrow>
          (case portFind (tasks st ! ti) port of
             None \<Rightarrow> Some st
           | Some pi \<Rightarrow>
               do {
                 st1 \<leftarrow> disconnectWhere E me (\<lambda>c. c_serverTask c = me \<and> c_itsPort c = port) [0..<ITS_MAX_CONNS] st;
                 Some (port_upd ti pi (\<lambda>sp. sp\<lparr>sp_active := False, sp_onConnect := 0, sp_onBusy := 0,
                                              sp_onDisconnect := 0, sp_onRecv := 0\<rparr>) st1)
               }))"

definition port_cb :: "task \<Rightarrow> u16 \<Rightarrow> (its_server_port \<Rightarrow> its_server_port) \<Rightarrow> ('b, 'q) its_state \<Rightarrow> ('b, 'q) its_state" where
  "port_cb me port f st =
     (case taskFind me st of
        None \<Rightarrow> st
      | Some ti \<Rightarrow> (case portFind (tasks st ! ti) port of None \<Rightarrow> st | Some pi \<Rightarrow> port_upd ti pi f st))"

definition itsServerOnConnect :: "task \<Rightarrow> u16 \<Rightarrow> ptr \<Rightarrow> ('b, 'q) its_state \<Rightarrow> ('b, 'q) its_state" where
  "itsServerOnConnect me port cb = port_cb me port (\<lambda>sp. sp\<lparr>sp_onConnect := cb\<rparr>)"

definition itsServerOnBusy :: "task \<Rightarrow> u16 \<Rightarrow> ptr \<Rightarrow> ('b, 'q) its_state \<Rightarrow> ('b, 'q) its_state" where
  "itsServerOnBusy me port cb = port_cb me port (\<lambda>sp. sp\<lparr>sp_onBusy := cb\<rparr>)"

definition itsServerOnDisconnect :: "task \<Rightarrow> u16 \<Rightarrow> ptr \<Rightarrow> ('b, 'q) its_state \<Rightarrow> ('b, 'q) its_state" where
  "itsServerOnDisconnect me port cb = port_cb me port (\<lambda>sp. sp\<lparr>sp_onDisconnect := cb\<rparr>)"

definition itsServerOnRecv :: "task \<Rightarrow> u16 \<Rightarrow> ptr \<Rightarrow> ('b, 'q) its_state \<Rightarrow> ('b, 'q) its_state" where
  "itsServerOnRecv me port cb = port_cb me port (\<lambda>sp. sp\<lparr>sp_onRecv := cb\<rparr>)"

definition auxPut :: "u16 \<Rightarrow> ptr \<Rightarrow> 'q its_task \<Rightarrow> 'q its_task" where
  "auxPut port cb t =
     (case auxFind t port of
        Some i \<Rightarrow> t\<lparr>t_auxCallbacks := (t_auxCallbacks t)[i := (t_auxCallbacks t ! i)\<lparr>a_cb := cb\<rparr>]\<rparr>
      | None \<Rightarrow>
          if t_auxCount t \<ge> ITS_MAX_PORTS then t
          else t\<lparr>t_auxCallbacks := (t_auxCallbacks t)[t_auxCount t := \<lparr>a_active = True, a_port = port, a_cb = cb\<rparr>],
                 t_auxCount := Suc (t_auxCount t)\<rparr>)"

definition itsOnAux :: "('b, 'q) its_env \<Rightarrow> task \<Rightarrow> u16 \<Rightarrow> ptr \<Rightarrow> ('b, 'q) its_state \<Rightarrow> ('b, 'q) its_state option" where
  "itsOnAux E me port cb st =
     do {
       r \<leftarrow> taskFindOrCreate E me 0 0 st;
       case fst r of None \<Rightarrow> Some (snd r) | Some ti \<Rightarrow> Some (task_upd ti (auxPut port cb) (snd r))
     }"

definition itsServerActive :: "task \<Rightarrow> int \<Rightarrow> ('b, 'q) its_state \<Rightarrow> nat" where
  "itsServerActive me port st =
     (if taskFind me st = None then 0
      else length (filter (\<lambda>c. c_active c \<and> c_serverTask c = me \<and> (port \<ge> 0 \<longrightarrow> c_itsPort c = of_int port)) (connTable st)))"

definition itsActiveTotal :: "('b, 'q) its_state \<Rightarrow> nat" where
  "itsActiveTotal st = length (filter c_active (connTable st))"

definition itsRef :: "task \<Rightarrow> int \<Rightarrow> ('b, 'q) its_state \<Rightarrow> int" where
  "itsRef me handle st =
     (case conn handle st of
        None \<Rightarrow> - 1
      | Some c \<Rightarrow> if c_serverTask c = me then c_serverRef c else if c_clientTask c = me then c_clientRef c else - 1)"

definition itsServerPort :: "task \<Rightarrow> int \<Rightarrow> ('b, 'q) its_state \<Rightarrow> int" where
  "itsServerPort me handle st =
     (case conn handle st of
        None \<Rightarrow> - 1
      | Some c \<Rightarrow> if c_serverTask c = me then uint (c_itsPort c) else - 1)"

text \<open>
  Forwarding moves the connection first and tells the target afterwards. The busy callback is the
  target port's; it runs on the caller's stack with the caller's data.
\<close>

definition itsServerForwardByTaskHandle :: "('b, 'q) its_env \<Rightarrow> task \<Rightarrow> int \<Rightarrow> task \<Rightarrow> u16 \<Rightarrow> bytes \<Rightarrow> ('b, 'q) its_state
    \<Rightarrow> (int \<times> ('b, 'q) its_state) option" where
  "itsServerForwardByTaskHandle E me handle target port data st =
     (case conn handle st of
        None \<Rightarrow> Some (- 1, st)
      | Some c \<Rightarrow>
          if c_serverTask c \<noteq> me then Some (- 1, st)
          else case taskFind target st of
            None \<Rightarrow> Some (- 1, st)
          | Some te \<Rightarrow>
              if \<not> t_isServer (tasks st ! te) then Some (- 1, st)
              else case portFind (tasks st ! te) port of
                None \<Rightarrow> Some (- 1, st)
              | Some pi \<Rightarrow>
                  do {
                    b \<leftarrow> (if portFull te pi port st \<and> sp_onBusy (portAt te pi st) \<noteq> 0
                         then do {
                           r \<leftarrow> e_onBusy E (sp_onBusy (portAt te pi st)) (Some data) (of_nat (length data)) st;
                           Some (fst r \<or> portFull te pi port (snd r), snd r) }
                         else Some (False, st));
                    let st1 = snd b;
                    if fst b then Some (- 1, st1)
                    else let sp = portAt te pi st1;
                             st2 = conn_upd (nat handle) (\<lambda>c. c\<lparr>c_serverTask := target, c_itsPort := port,
                                     c_kind := sp_kind sp, c_packetBased := sp_packetBased sp\<rparr>) st1 in
                      do {
                        r \<leftarrow> buildCopyMsg E me ITS_K_FORWARD port handle data te st2;
                        case fst r of
                          None \<Rightarrow> Some (- 1, snd r)
                        | Some m \<Rightarrow>
                            (case inboxEnqueue E te m (e_ms E 100) (snd r) of
                               (True, st3) \<Rightarrow> Some (handle, st3)
                             | (False, st3) \<Rightarrow> do { st4 \<leftarrow> msgFree m st3; Some (- 1, st4) })
                      }
                  })"

definition itsServerForward :: "('b, 'q) its_env \<Rightarrow> task \<Rightarrow> int \<Rightarrow> string \<Rightarrow> u16 \<Rightarrow> bytes \<Rightarrow> ('b, 'q) its_state
    \<Rightarrow> (int \<times> ('b, 'q) its_state) option" where
  "itsServerForward E me handle targetServer port data st =
     (let task = e_taskGetHandle E targetServer st in
      if task = 0 then Some (- 1, st) else itsServerForwardByTaskHandle E me handle task port data st)"

subsection \<open>Clients\<close>

definition itsClientInit :: "('b, 'q) its_env \<Rightarrow> task \<Rightarrow> int \<Rightarrow> nat \<Rightarrow> nat \<Rightarrow> ('b, 'q) its_state \<Rightarrow> ('b, 'q) its_state option" where
  "itsClientInit E me maxConns inboxMaxMsgLen inboxDepth st =
     do {
       r \<leftarrow> taskFindOrCreate E me inboxMaxMsgLen inboxDepth st;
       case fst r of
         None \<Rightarrow> Some (snd r)
       | Some ti \<Rightarrow>
           if t_isClient (tasks (snd r) ! ti) then Some (snd r)
           else Some (task_upd ti (\<lambda>t. t\<lparr>t_maxConns := maxConns, t_isClient := True,
                        t_ackSem := sem_create E (ITS_MAX_POOL + ITS_MAX_LINKS + ITS_MAX_TASKS + ti),
                        t_ackHandle := - 1\<rparr>) (snd r))
     }"

text \<open>The wait for the server to be there with the port open.\<close>

definition server_ready :: "task \<Rightarrow> u16 \<Rightarrow> ('b, 'q) its_state \<Rightarrow> nat option" where
  "server_ready server port st =
     (case taskFind server st of
        None \<Rightarrow> None
      | Some se \<Rightarrow> if t_isServer (tasks st ! se) \<and> portFind (tasks st ! se) port \<noteq> None then Some se else None)"

partial_function (option) awaitServer :: "('b, 'q) its_env \<Rightarrow> task \<Rightarrow> u16 \<Rightarrow> ticks \<Rightarrow> ticks \<Rightarrow> ('b, 'q) its_state
    \<Rightarrow> (nat option \<times> ('b, 'q) its_state) option" where
  "awaitServer E server port timeout start st =
     (case server_ready server port st of
        Some se \<Rightarrow> Some (Some se, st)
      | None \<Rightarrow>
          if timeout \<noteq> portMAX_DELAY \<and> (timeout = 0 \<or> tickCount st - start \<ge> timeout) then Some (None, st)
          else awaitServer E server port timeout start (blocked E st))"

definition budget_left :: "ticks \<Rightarrow> ticks \<Rightarrow> ('b, 'q) its_state \<Rightarrow> ticks" where
  "budget_left timeout start st =
     (if timeout = portMAX_DELAY then portMAX_DELAY
      else let elapsed = tickCount st - start in if elapsed < timeout then timeout - elapsed else 0)"

definition ackTake :: "('b, 'q) its_env \<Rightarrow> nat \<Rightarrow> ticks \<Rightarrow> ('b, 'q) its_state \<Rightarrow> (bool \<times> ('b, 'q) its_state) option" where
  "ackTake E ti = semTake E (\<lambda>s. t_ackSem (tasks s ! ti)) (task_upd ti (\<lambda>t. t\<lparr>t_ackSem := sem_clear (t_ackSem t)\<rparr>))"

text \<open>Giving up: the cancel that names the abandoned connect.\<close>

definition sendCancel :: "('b, 'q) its_env \<Rightarrow> task \<Rightarrow> nat \<Rightarrow> u16 \<Rightarrow> u32 \<Rightarrow> ('b, 'q) its_state \<Rightarrow> ('b, 'q) its_state option" where
  "sendCancel E me se port nonce st =
     do {
       r \<leftarrow> buildCopyMsg E me ITS_K_CONNECT_CANCEL port (- 1) [] se st;
       case fst r of
         None \<Rightarrow> Some (snd r)
       | Some m0 \<Rightarrow>
           let m = m0\<lparr>m_nonce := nonce\<rparr> in
           (case inboxEnqueue E se m (e_ms E 50) (snd r) of
              (True, st1) \<Rightarrow> Some st1
            | (False, st1) \<Rightarrow> msgFree m st1)
     }"

partial_function (option) awaitAck :: "('b, 'q) its_env \<Rightarrow> task \<Rightarrow> nat \<Rightarrow> nat \<Rightarrow> u16 \<Rightarrow> u32 \<Rightarrow> ticks \<Rightarrow> ticks \<Rightarrow> ('b, 'q) its_state
    \<Rightarrow> (int \<times> ('b, 'q) its_state) option" where
  "awaitAck E me ti se port nonce timeout start st =
     do {
       r \<leftarrow> ackTake E ti (budget_left timeout start st) st;
       if \<not> fst r
       then do { st1 \<leftarrow> sendCancel E me se port nonce (snd r); Some (- 1, st1) }
       else if t_ackNonce (tasks (snd r) ! ti) = nonce then Some (t_ackHandle (tasks (snd r) ! ti), snd r)
       else awaitAck E me ti se port nonce timeout start (snd r)
     }"

definition next_nonce :: "u32 \<Rightarrow> u32" where
  "next_nonce g = (if g + 1 = 0 then g + 2 else g + 1)"

definition connectHandshake :: "('b, 'q) its_env \<Rightarrow> task \<Rightarrow> nat \<Rightarrow> nat \<Rightarrow> u16 \<Rightarrow> bytes \<Rightarrow> ticks \<Rightarrow> ticks \<Rightarrow> ('b, 'q) its_state
    \<Rightarrow> (int \<times> ('b, 'q) its_state) option" where
  "connectHandshake E me ti se port data timeout start st =
     do {
       r0 \<leftarrow> ackTake E ti 0 st;
       let st1 = task_upd ti (\<lambda>t. t\<lparr>t_ackHandle := - 1, t_connectGen := next_nonce (t_connectGen t)\<rparr>) (snd r0);
       let nonce = t_connectGen (tasks st1 ! ti);
       r \<leftarrow> buildCopyMsg E me ITS_K_CONNECT port (- 1) data se st1;
       case fst r of
         None \<Rightarrow> Some (- 1, snd r)
       | Some m0 \<Rightarrow>
           let m = m0\<lparr>m_nonce := nonce\<rparr> in
           (case inboxEnqueue E se m (budget_left timeout start st) (snd r) of
              (False, st2) \<Rightarrow> do { st3 \<leftarrow> msgFree m st2; Some (- 1, st3) }
            | (True, st2) \<Rightarrow> awaitAck E me ti se port nonce timeout start st2)
     }"

definition clientActive :: "task \<Rightarrow> ('b, 'q) its_state \<Rightarrow> int" where
  "clientActive t st = int (length (filter (\<lambda>c. c_active c \<and> c_clientTask c = t) (connTable st)))"

definition itsConnectByTaskHandle :: "('b, 'q) its_env \<Rightarrow> task \<Rightarrow> task \<Rightarrow> u16 \<Rightarrow> bytes \<Rightarrow> ticks \<Rightarrow> int \<Rightarrow> ptr \<Rightarrow> ptr \<Rightarrow> ('b, 'q) its_state
    \<Rightarrow> (int \<times> ('b, 'q) its_state) option" where
  "itsConnectByTaskHandle E me server port data timeout ref onRecv onDisc st =
     (case taskFind me st of
        None \<Rightarrow> Some (- 1, st)
      | Some ti \<Rightarrow>
          if \<not> t_isClient (tasks st ! ti) \<or> clientActive me st \<ge> t_maxConns (tasks st ! ti) then Some (- 1, st)
          else do {
            w \<leftarrow> awaitServer E server port timeout (tickCount st) st;
            case fst w of
              None \<Rightarrow> Some (- 1, snd w)
            | Some se \<Rightarrow>
                do {
                  r \<leftarrow> connectHandshake E me ti se port data timeout (tickCount st) (snd w);
                  if fst r < 0 then Some (- 1, snd r)
                  else Some (fst r, conn_upd (nat (fst r)) (\<lambda>c. c\<lparr>
                         c_clientRef := (if ref \<ge> 0 then int8 ref else c_clientRef c),
                         c_cliRecvCb := (if onRecv \<noteq> 0 then onRecv else c_cliRecvCb c),
                         c_cliDisconnectCb := (if onDisc \<noteq> 0 then onDisc else c_cliDisconnectCb c)\<rparr>) (snd r))
                }
          })"

subsection \<open>Servers on demand\<close>

definition ITS_ONDEMAND_MAX :: nat where "ITS_ONDEMAND_MAX = 8"

definition itsRegisterOnDemand :: "('b, 'q) its_env \<Rightarrow> string \<Rightarrow> ptr \<Rightarrow> ('b, 'q) its_state \<Rightarrow> bool \<times> ('b, 'q) its_state" where
  "itsRegisterOnDemand E name spawn st =
     (if spawn = 0 then (False, st)
      else if length (s_onDemand st) < ITS_ONDEMAND_MAX
      then (True, st\<lparr>s_onDemand := s_onDemand st @ [(take (e_taskNameLen E - 1) name, spawn)]\<rparr>)
      else (False, st))"

definition itsSpawnOnDemand :: "('b, 'q) its_env \<Rightarrow> string \<Rightarrow> ('b, 'q) its_state \<Rightarrow> ('b, 'q) its_state option" where
  "itsSpawnOnDemand E name st =
     (case find (\<lambda>e. fst e = name) (s_onDemand st) of
        None \<Rightarrow> Some st
      | Some e \<Rightarrow> if e_taskGetHandle E name st = 0 then e_spawn E (snd e) st else Some st)"

partial_function (option) awaitTask :: "('b, 'q) its_env \<Rightarrow> string \<Rightarrow> ticks \<Rightarrow> ticks \<Rightarrow> ('b, 'q) its_state
    \<Rightarrow> (task \<times> ('b, 'q) its_state) option" where
  "awaitTask E name timeout start st =
     (if e_taskGetHandle E name st \<noteq> 0 then Some (e_taskGetHandle E name st, st)
      else if timeout \<noteq> portMAX_DELAY \<and> (timeout = 0 \<or> tickCount st - start \<ge> timeout) then Some (0, st)
      else awaitTask E name timeout start (blocked E st))"

definition itsConnect :: "('b, 'q) its_env \<Rightarrow> task \<Rightarrow> string \<Rightarrow> u16 \<Rightarrow> bytes \<Rightarrow> ticks \<Rightarrow> int \<Rightarrow> ptr \<Rightarrow> ptr \<Rightarrow> ('b, 'q) its_state
    \<Rightarrow> (int \<times> ('b, 'q) its_state) option" where
  "itsConnect E me name port data timeout ref onRecv onDisc st =
     do {
       st1 \<leftarrow> (if e_taskGetHandle E name st = 0 then itsSpawnOnDemand E name st else Some st);
       r \<leftarrow> awaitTask E name timeout (tickCount st) st1;
       if fst r = 0 then Some (- 1, snd r)
       else itsConnectByTaskHandle E me (fst r) port data (budget_left timeout (tickCount st) (snd r)) ref onRecv onDisc (snd r)
     }"

subsection \<open>Aux messages\<close>

definition auxRegistered :: "'q its_task \<Rightarrow> u16 \<Rightarrow> bool" where
  "auxRegistered t port \<longleftrightarrow> auxFind t port \<noteq> None"

definition pickupTake :: "('b, 'q) its_env \<Rightarrow> nat \<Rightarrow> ticks \<Rightarrow> ('b, 'q) its_state \<Rightarrow> (bool \<times> ('b, 'q) its_state) option" where
  "pickupTake E ti = semTake E (\<lambda>s. t_pickupSem (tasks s ! ti)) (task_upd ti (\<lambda>t. t\<lparr>t_pickupSem := sem_clear (t_pickupSem t)\<rparr>))"

text \<open>The result is whether the call may go on, and the caller's entry when it is to wait.\<close>

definition pickupArm :: "('b, 'q) its_env \<Rightarrow> task \<Rightarrow> its_wait \<Rightarrow> ('b, 'q) its_state
    \<Rightarrow> (bool \<times> nat option \<times> ('b, 'q) its_state) option" where
  "pickupArm E me wait st =
     (if wait \<noteq> ITS_WAIT_PICKUP then Some (True, None, st)
      else do {
        r \<leftarrow> taskFindOrCreate E me 0 0 st;
        case fst r of
          None \<Rightarrow> Some (False, None, snd r)
        | Some ti \<Rightarrow>
            if t_pickupSem (tasks (snd r) ! ti) = None then Some (False, None, snd r)
            else do { x \<leftarrow> pickupTake E ti 0 (snd r); Some (True, Some ti, snd x) }
      })"

definition itsSendAuxInternal :: "('b, 'q) its_env \<Rightarrow> task \<Rightarrow> task \<Rightarrow> u16 \<Rightarrow> bytes \<Rightarrow> ticks \<Rightarrow> its_wait \<Rightarrow> ('b, 'q) its_state
    \<Rightarrow> (bool \<times> ('b, 'q) its_state) option" where
  "itsSendAuxInternal E me task port data timeout wait st =
     (case taskFind task st of
        None \<Rightarrow> Some (False, st)
      | Some te \<Rightarrow>
          if \<not> auxRegistered (tasks st ! te) port then Some (False, st)
          else do {
            a \<leftarrow> pickupArm E me wait st;
            if \<not> fst a then Some (False, snd (snd a))
            else do {
              r \<leftarrow> buildCopyMsg E me ITS_K_AUX port (- 1) data te (snd (snd a));
              case fst r of
                None \<Rightarrow> Some (False, snd r)
              | Some m0 \<Rightarrow>
                  let m = (if wait = ITS_WAIT_PICKUP then m0\<lparr>m_pickup := True\<rparr> else m0) in
                  (case inboxEnqueue E te m timeout (snd r) of
                     (False, st1) \<Rightarrow> do { st2 \<leftarrow> msgFree m st1; Some (False, st2) }
                   | (True, st1) \<Rightarrow>
                       (case fst (snd a) of None \<Rightarrow> Some (True, st1) | Some ti \<Rightarrow> pickupTake E ti timeout st1))
            }
          })"

text \<open>The block \<open>p\<close> is the caller's until the mailbox has taken the message.\<close>

definition itsSendAuxOwnedByTaskHandle :: "('b, 'q) its_env \<Rightarrow> task \<Rightarrow> task \<Rightarrow> u16 \<Rightarrow> ptr \<Rightarrow> nat \<Rightarrow> ticks \<Rightarrow> its_wait
    \<Rightarrow> ('b, 'q) its_state \<Rightarrow> (bool \<times> ('b, 'q) its_state) option" where
  "itsSendAuxOwnedByTaskHandle E me task port p len timeout wait st =
     (case taskFind task st of
        None \<Rightarrow> Some (False, st)
      | Some te \<Rightarrow>
          if \<not> auxRegistered (tasks st ! te) port then Some (False, st)
          else if len > t_inboxMsgMax (tasks st ! te) then Some (False, st)
          else do {
            a \<leftarrow> pickupArm E me wait st;
            if \<not> fst a then Some (False, snd (snd a))
            else case msgAlloc E (snd (snd a)) of
              (None, st1) \<Rightarrow> Some (False, st1)
            | (Some m0, st1) \<Rightarrow>
                let m = m0\<lparr>m_kind := ITS_K_AUX, m_port := port, m_sender := me, m_len := of_nat len,
                           m_payload := p, m_pickup := (wait = ITS_WAIT_PICKUP)\<rparr>;
                    st2 = payAdopt len st1 in
                (case inboxEnqueue E te m timeout st2 of
                   (False, st3) \<Rightarrow>
                     do { st4 \<leftarrow> msgFree (m\<lparr>m_payload := 0\<rparr>) (st3\<lparr>payCtr := ctrSub len (payCtr st3)\<rparr>); Some (False, st4) }
                 | (True, st3) \<Rightarrow>
                     (case fst (snd a) of
                        None \<Rightarrow> Some (True, st3)
                      | Some ti \<Rightarrow> do { x \<leftarrow> pickupTake E ti timeout st3; Some (True, snd x) }))
          })"

definition itsSendAuxByTaskHandle :: "('b, 'q) its_env \<Rightarrow> task \<Rightarrow> task \<Rightarrow> u16 \<Rightarrow> bytes \<Rightarrow> ticks \<Rightarrow> its_wait \<Rightarrow> ('b, 'q) its_state
    \<Rightarrow> (bool \<times> ('b, 'q) its_state) option" where
  "itsSendAuxByTaskHandle = itsSendAuxInternal"

definition itsSendAux :: "('b, 'q) its_env \<Rightarrow> task \<Rightarrow> string \<Rightarrow> u16 \<Rightarrow> bytes \<Rightarrow> ticks \<Rightarrow> its_wait \<Rightarrow> ('b, 'q) its_state
    \<Rightarrow> (bool \<times> ('b, 'q) its_state) option" where
  "itsSendAux E me name port data timeout wait st =
     (let task = e_taskGetHandle E name st in
      if task = 0 then Some (False, st) else itsSendAuxInternal E me task port data timeout wait st)"

subsection \<open>Memory of a task\<close>

record its_mem =
  streamBytes :: nat
  inboxBytes :: nat
  streamBufs :: nat
  payloadBytes :: u32

definition mem_conn :: "task \<Rightarrow> ('b, 'q) its_state \<Rightarrow> its_mem \<Rightarrow> its_conn \<Rightarrow> its_mem" where
  "mem_conn task st m c =
     (let buf = (\<lambda>idx m. if idx \<ge> 0 then m\<lparr>streamBytes := streamBytes m + p_size (itsPool st ! nat idx),
                                         streamBufs := Suc (streamBufs m)\<rparr> else m);
          ring = (\<lambda>idx m. case linkAt idx st of
                    None \<Rightarrow> m
                  | Some i \<Rightarrow> m\<lparr>streamBytes := streamBytes m + l_depth (links st ! i) * SIZEOF_ITS_DESC,
                                streamBufs := Suc (streamBufs m)\<rparr>);
          m1 = (if c_serverTask c = task
                then ring (c_fromLinkIdx c) (ring (c_toLinkIdx c) (buf (c_fromPoolIdx c) (buf (c_toPoolIdx c) m)))
                else m);
          rl = (if c_kind c \<noteq> ITS_PACKET then None
                else if c_serverTask c = task then linkAt (c_toLinkIdx c) st
                else if c_clientTask c = task then linkAt (c_fromLinkIdx c) st else None) in
      if \<not> c_active c then m
      else case rl of None \<Rightarrow> m1 | Some i \<Rightarrow> m1\<lparr>payloadBytes := payloadBytes m1 + l_outstanding (links st ! i)\<rparr>)"

definition itsTaskMem :: "task \<Rightarrow> ('b, 'q) its_state \<Rightarrow> its_mem" where
  "itsTaskMem task st =
     (let m = foldl (mem_conn task st) \<lparr>streamBytes = 0, inboxBytes = 0, streamBufs = 0, payloadBytes = 0\<rparr> (connTable st) in
      case taskFind task st of
        None \<Rightarrow> m
      | Some ti \<Rightarrow>
          if t_inbox (tasks st ! ti) = None then m
          else m\<lparr>inboxBytes := t_inboxDepth (tasks st ! ti) * 4,
                 payloadBytes := payloadBytes m + s_pendingPay st ! ti\<rparr>)"

end
