(* ===== verification/Its_Data.thy ===== *)
theory Its_Data
  imports Its_Api
begin

section \<open>Inter-task streams: data (its.cpp)\<close>

text \<open>
  Sending and receiving over the three kinds of connection: bytes through a stream buffer,
  packets framed with a four-byte header inside a stream buffer, and packets over a link. A
  receive returns the bytes it copied to the caller's buffer of \<open>maxLen\<close> bytes. Using the
  buffer of a pool entry that has none is undefined.
\<close>

subsection \<open>Stream buffers\<close>

definition buf_set :: "nat \<Rightarrow> 'b \<Rightarrow> ('b, 'q) its_state \<Rightarrow> ('b, 'q) its_state" where
  "buf_set i b = pool_upd i (\<lambda>e. e\<lparr>p_handle := Some b\<rparr>)"

text \<open>\<open>xStreamBufferSend\<close> and \<open>xStreamBufferReceive\<close> with a time to wait.\<close>

definition bufSend :: "('b, 'q) its_env \<Rightarrow> nat \<Rightarrow> bytes \<Rightarrow> ticks \<Rightarrow> ('b, 'q) its_state \<Rightarrow> (nat \<times> ('b, 'q) its_state) option" where
  "bufSend E i data timeout st =
     do {
       b0 \<leftarrow> p_handle (itsPool st ! i);
       let st1 = (if sbSpaces (e_rtos E) b0 < length data \<and> timeout \<noteq> 0 then blocked E st else st);
       b \<leftarrow> p_handle (itsPool st1 ! i);
       let x = sbSend (e_rtos E) b data;
       Some (fst x, buf_set i (snd x) st1)
     }"

definition bufReceive :: "('b, 'q) its_env \<Rightarrow> nat \<Rightarrow> nat \<Rightarrow> ticks \<Rightarrow> ('b, 'q) its_state \<Rightarrow> (bytes \<times> ('b, 'q) its_state) option" where
  "bufReceive E i n timeout st =
     do {
       b0 \<leftarrow> p_handle (itsPool st ! i);
       let st1 = (if sbAvail (e_rtos E) b0 = 0 \<and> timeout \<noteq> 0 then blocked E st else st);
       b \<leftarrow> p_handle (itsPool st1 ! i);
       let x = sbReceive (e_rtos E) b n;
       Some (fst x, buf_set i (snd x) st1)
     }"

definition bufSpaces :: "('b, 'q) its_env \<Rightarrow> nat \<Rightarrow> ('b, 'q) its_state \<Rightarrow> nat" where
  "bufSpaces E i st = (case p_handle (itsPool st ! i) of None \<Rightarrow> 0 | Some b \<Rightarrow> sbSpaces (e_rtos E) b)"

definition bufAvail :: "('b, 'q) its_env \<Rightarrow> nat \<Rightarrow> ('b, 'q) its_state \<Rightarrow> nat" where
  "bufAvail E i st = (case p_handle (itsPool st ! i) of None \<Rightarrow> 0 | Some b \<Rightarrow> sbAvail (e_rtos E) b)"

definition poolSemTake :: "('b, 'q) its_env \<Rightarrow> nat \<Rightarrow> ticks \<Rightarrow> ('b, 'q) its_state \<Rightarrow> (bool \<times> ('b, 'q) its_state) option" where
  "poolSemTake E i = semTake E (\<lambda>s. p_sem (itsPool s ! i)) (pool_upd i (\<lambda>e. e\<lparr>p_sem := sem_clear (p_sem e)\<rparr>))"

definition pool_arm :: "nat \<Rightarrow> nat \<Rightarrow> ('b, 'q) its_state \<Rightarrow> ('b, 'q) its_state" where
  "pool_arm i n = pool_upd i (\<lambda>e. e\<lparr>p_freeNotify := n\<rparr>)"

definition wakeSenderIfReady :: "('b, 'q) its_env \<Rightarrow> task \<Rightarrow> int \<Rightarrow> nat \<Rightarrow> ('b, 'q) its_state \<Rightarrow> ('b, 'q) its_state" where
  "wakeSenderIfReady E me handle i st =
     (let n = p_freeNotify (itsPool st ! i) in
      if n = 0 \<or> bufSpaces E i st < n then st
      else notify_remote me handle (pool_upd i (\<lambda>e. e\<lparr>p_freeNotify := 0, p_sem := sem_give (p_sem e)\<rparr>) st))"

subsection \<open>Waiting for space\<close>

partial_function (option) poolWaitLoop :: "('b, 'q) its_env \<Rightarrow> int \<Rightarrow> nat \<Rightarrow> nat \<Rightarrow> ticks \<Rightarrow> ticks \<Rightarrow> ticks
    \<Rightarrow> ('b, 'q) its_state \<Rightarrow> (bool \<times> ('b, 'q) its_state) option" where
  "poolWaitLoop E handle i freeBytes timeout start remaining st =
     do {
       r0 \<leftarrow> poolSemTake E i 0 st;
       let st1 = pool_arm i freeBytes (snd r0);
       if bufSpaces E i st1 \<ge> freeBytes then Some (True, pool_arm i 0 st1)
       else do {
         r1 \<leftarrow> poolSemTake E i remaining st1;
         let st2 = snd r1;
         if conn handle st2 = None \<or> \<not> fst r1 then Some (False, pool_arm i 0 st2)
         else if bufSpaces E i st2 \<ge> freeBytes then Some (True, pool_arm i 0 st2)
         else if timeout \<noteq> portMAX_DELAY
         then let elapsed = tickCount st2 - start in
              if elapsed \<ge> timeout then Some (False, pool_arm i 0 st2)
              else poolWaitLoop E handle i freeBytes timeout start (timeout - elapsed) st2
         else poolWaitLoop E handle i freeBytes timeout start remaining st2
       }
     }"

definition itsWaitForSpace :: "('b, 'q) its_env \<Rightarrow> task \<Rightarrow> int \<Rightarrow> nat \<Rightarrow> ticks \<Rightarrow> ('b, 'q) its_state
    \<Rightarrow> (bool \<times> ('b, 'q) its_state) option" where
  "itsWaitForSpace E me handle freeBytes timeout st =
     (if freeBytes = 0 then Some (True, st)
      else case sendLink me handle st of
        Some i \<Rightarrow> linkWaitForSpace E handle i (of_nat freeBytes) timeout st
      | None \<Rightarrow>
          (case sendBufWithPool me handle st of
             None \<Rightarrow> Some (False, st)
           | Some i \<Rightarrow>
               if p_handle (itsPool st ! i) = None then Some (False, st)
               else if bufSpaces E i st \<ge> freeBytes then Some (True, st)
               else if timeout = 0 then Some (False, st)
               else poolWaitLoop E handle i freeBytes timeout (tickCount st) timeout st))"

subsection \<open>Sending\<close>

text \<open>
  \<open>src\<close> is the caller's data to copy, or the caller's heap block to adopt with the length the
  caller says it has.
\<close>

datatype its_src = Copy bytes | Owned ptr u32

fun src_len :: "its_src \<Rightarrow> u32" where
  "src_len (Copy data) = of_nat (length data)"
| "src_len (Owned p len) = len"

definition itsSendPacket :: "('b, 'q) its_env \<Rightarrow> task \<Rightarrow> int \<Rightarrow> nat \<Rightarrow> its_src \<Rightarrow> ticks \<Rightarrow> ('b, 'q) its_state
    \<Rightarrow> (u32 \<times> ('b, 'q) its_state) option" where
  "itsSendPacket E me handle i src timeout st =
     (let len = src_len src in
      if len = 0 \<or> len > l_maxMsg (links st ! i) then Some (0, st)
      else do {
        w \<leftarrow> linkWaitForSpace E handle i len timeout st;
        if \<not> fst w then Some (0, snd w)
        else case src of
          Owned p _ \<Rightarrow> Some (len, linkEnqueue E me handle i p len (payAdopt (unat len) (snd w)))
        | Copy data \<Rightarrow>
            (case payAlloc E (unat len) (snd w) of (p, st1) \<Rightarrow>
               if p = 0 then Some (0, st1)
               else do { st2 \<leftarrow> heap_write p data st1; Some (len, linkEnqueue E me handle i p len st2) })
      })"

definition itsSendOwned :: "('b, 'q) its_env \<Rightarrow> task \<Rightarrow> int \<Rightarrow> ptr \<Rightarrow> u32 \<Rightarrow> ticks \<Rightarrow> ('b, 'q) its_state
    \<Rightarrow> (u32 \<times> ('b, 'q) its_state) option" where
  "itsSendOwned E me handle p len timeout st =
     (case sendLink me handle st of
        None \<Rightarrow> Some (0, st)
      | Some i \<Rightarrow> itsSendPacket E me handle i (Owned p len) timeout st)"

text \<open>The frame of a packet inside a stream buffer: a reserved byte and the length in 24 bits.\<close>

definition pkt_header :: "nat \<Rightarrow> bytes" where
  "pkt_header len = [0, of_nat (len div 2 ^ 16), of_nat (len div 2 ^ 8), of_nat len]"

definition pkt_length :: "bytes \<Rightarrow> nat" where
  "pkt_length hdr = unat (hdr ! 1) * 2 ^ 16 + unat (hdr ! 2) * 2 ^ 8 + unat (hdr ! 3)"

definition sendLegacy :: "('b, 'q) its_env \<Rightarrow> task \<Rightarrow> int \<Rightarrow> nat \<Rightarrow> bytes \<Rightarrow> ticks \<Rightarrow> ('b, 'q) its_state
    \<Rightarrow> (nat \<times> ('b, 'q) its_state) option" where
  "sendLegacy E me handle i data timeout st =
     (let len = length data; total = 4 + len in
      if len = 0 \<or> len > 0xFFFFFF then Some (0, st)
      else if total > p_size (itsPool st ! i) then Some (0, st)
      else do {
        w \<leftarrow> itsWaitForSpace E me handle total timeout st;
        if \<not> fst w then Some (0, snd w)
        else do {
          h \<leftarrow> bufSend E i (pkt_header len) 0 (snd w);
          if fst h \<noteq> 4 then Some (0, snd h)
          else do {
            d \<leftarrow> bufSend E i data 0 (snd h);
            if fst d \<noteq> len then Some (0, snd d)
            else Some (len, notify_remote me handle (snd d))
          }
        }
      })"

definition notify_if_trigger :: "('b, 'q) its_env \<Rightarrow> task \<Rightarrow> nat \<Rightarrow> nat \<Rightarrow> ('b, 'q) its_state \<Rightarrow> ('b, 'q) its_state" where
  "notify_if_trigger E remote i sent st =
     (let trigger = (if p_triggerLevel (itsPool st ! i) \<noteq> 0 then p_triggerLevel (itsPool st ! i) else 1) in
      if sent > 0 \<and> bufAvail E i st \<ge> trigger \<and> remote \<noteq> 0 then task_notify remote st else st)"

definition itsSend :: "('b, 'q) its_env \<Rightarrow> task \<Rightarrow> int \<Rightarrow> bytes \<Rightarrow> ticks \<Rightarrow> ('b, 'q) its_state
    \<Rightarrow> (nat \<times> ('b, 'q) its_state) option" where
  "itsSend E me handle data timeout st =
     (case conn handle st of
        None \<Rightarrow> Some (0, st)
      | Some c \<Rightarrow>
          if c_kind c = ITS_PACKET
          then (case sendLink me handle st of
                  None \<Rightarrow> Some (0, st)
                | Some i \<Rightarrow> map_option (\<lambda>(n, st1). (unat n, st1)) (itsSendPacket E me handle i (Copy data) timeout st))
          else case sendBufWithPool me handle st of
            None \<Rightarrow> Some (0, st)
          | Some i \<Rightarrow>
              if p_handle (itsPool st ! i) = None then Some (0, st)
              else if c_packetBased c then sendLegacy E me handle i data timeout st
              else do {
                r \<leftarrow> bufSend E i data timeout st;
                Some (fst r, notify_if_trigger E (remoteOf me handle (snd r)) i (fst r) (snd r))
              })"

definition itsInject :: "('b, 'q) its_env \<Rightarrow> int \<Rightarrow> bool \<Rightarrow> bytes \<Rightarrow> ticks \<Rightarrow> ('b, 'q) its_state
    \<Rightarrow> (nat \<times> ('b, 'q) its_state) option" where
  "itsInject E handle asServer data timeout st =
     (case conn handle st of
        None \<Rightarrow> Some (0, st)
      | Some c \<Rightarrow>
          let idx = (if asServer then c_fromPoolIdx c else c_toPoolIdx c) in
          if c_kind c = ITS_PACKET then Some (0, st)
          else if idx < 0 \<or> idx \<ge> int (length (itsPool st)) then Some (0, st)
          else if p_handle (itsPool st ! nat idx) = None then Some (0, st)
          else do {
            r \<leftarrow> bufSend E (nat idx) data timeout st;
            let c1 = connTable (snd r) ! nat handle;
            Some (fst r, notify_if_trigger E (if asServer then c_clientTask c1 else c_serverTask c1) (nat idx) (fst r) (snd r))
          })"

subsection \<open>Receiving\<close>

definition recvPacket :: "('b, 'q) its_env \<Rightarrow> task \<Rightarrow> int \<Rightarrow> nat \<Rightarrow> nat \<Rightarrow> ticks \<Rightarrow> ('b, 'q) its_state
    \<Rightarrow> (bytes \<times> ('b, 'q) its_state) option" where
  "recvPacket E me handle i maxLen timeout st =
     do {
       r \<leftarrow> linkDequeue E me handle i timeout st;
       case fst r of
         None \<Rightarrow> Some ([], snd r)
       | Some d \<Rightarrow>
           if unat (d_len d) > maxLen
           then do { st1 \<leftarrow> payDrop (d_ptr d) (unat (d_len d)) (snd r); Some ([], st1) }
           else do {
             bs \<leftarrow> heap_read (d_ptr d) (unat (d_len d)) (snd r);
             st1 \<leftarrow> payDrop (d_ptr d) (unat (d_len d)) (snd r);
             Some (bs, st1)
           }
     }"

partial_function (option) recvLegacyWait :: "('b, 'q) its_env \<Rightarrow> task \<Rightarrow> nat \<Rightarrow> ticks \<Rightarrow> ticks \<Rightarrow> ticks \<Rightarrow> ('b, 'q) its_state
    \<Rightarrow> (bool \<times> ('b, 'q) its_state) option" where
  "recvLegacyWait E me i timeout start remaining st =
     (if bufAvail E i st > 4 then Some (True, st)
      else if remaining = 0 then Some (False, st)
      else let st1 = snd (notifyTake E me False remaining st) in
        if bufAvail E i st1 > 4 then Some (True, st1)
        else if timeout \<noteq> portMAX_DELAY
        then let elapsed = tickCount st1 - start in
             recvLegacyWait E me i timeout start (if elapsed \<ge> timeout then 0 else timeout - elapsed) st1
        else recvLegacyWait E me i timeout start remaining st1)"

text \<open>Discarding a body that does not fit, in pieces of at most 64 bytes.\<close>

function dropBody :: "('b, 'q) its_env \<Rightarrow> nat \<Rightarrow> nat \<Rightarrow> ('b, 'q) its_state \<Rightarrow> ('b, 'q) its_state option" where
  "dropBody E i left st =
     (if left = 0 then Some st
      else case bufReceive E i (if left > 64 then 64 else left) 0 st of
        None \<Rightarrow> None
      | Some (bs, st1) \<Rightarrow> if length bs = 0 then Some st1 else dropBody E i (left - length bs) st1)"
  by pat_completeness auto
termination
  by (relation "measure (\<lambda>(E, i, left, st). left)") auto

definition recvLegacy :: "('b, 'q) its_env \<Rightarrow> task \<Rightarrow> int \<Rightarrow> nat \<Rightarrow> nat \<Rightarrow> ticks \<Rightarrow> ('b, 'q) its_state
    \<Rightarrow> (bytes \<times> ('b, 'q) its_state) option" where
  "recvLegacy E me handle i maxLen timeout st =
     do {
       w \<leftarrow> recvLegacyWait E me i timeout (tickCount st) timeout st;
       if \<not> fst w then Some ([], snd w)
       else do {
         h \<leftarrow> bufReceive E i 4 0 (snd w);
         if length (fst h) \<noteq> 4 then Some ([], snd h)
         else let bodyLen = pkt_length (fst h) in
           if bodyLen > maxLen
           then do { st1 \<leftarrow> dropBody E i bodyLen (snd h); Some ([], wakeSenderIfReady E me handle i st1) }
           else do { r \<leftarrow> bufReceive E i bodyLen 0 (snd h); Some (fst r, wakeSenderIfReady E me handle i (snd r)) }
       }
     }"

definition itsRecv :: "('b, 'q) its_env \<Rightarrow> task \<Rightarrow> int \<Rightarrow> nat \<Rightarrow> ticks \<Rightarrow> ('b, 'q) its_state
    \<Rightarrow> (bytes \<times> ('b, 'q) its_state) option" where
  "itsRecv E me handle maxLen timeout st =
     (case conn handle st of
        None \<Rightarrow> Some ([], st)
      | Some c \<Rightarrow>
          if c_kind c = ITS_PACKET
          then (case recvLink me handle st of
                  None \<Rightarrow> Some ([], st)
                | Some i \<Rightarrow> recvPacket E me handle i maxLen timeout st)
          else case recvBufWithPool me handle st of
            None \<Rightarrow> Some ([], st)
          | Some i \<Rightarrow>
              if p_handle (itsPool st ! i) = None then Some ([], st)
              else if c_packetBased c then recvLegacy E me handle i maxLen timeout st
              else do {
                r \<leftarrow> bufReceive E i maxLen timeout st;
                Some (fst r, if fst r \<noteq> [] then wakeSenderIfReady E me handle i (snd r) else snd r)
              })"

text \<open>The block goes to the caller, who frees it.\<close>

definition itsRecvRef :: "('b, 'q) its_env \<Rightarrow> task \<Rightarrow> int \<Rightarrow> ticks \<Rightarrow> ('b, 'q) its_state
    \<Rightarrow> ((ptr \<times> u32) option \<times> ('b, 'q) its_state) option" where
  "itsRecvRef E me handle timeout st =
     (case recvLink me handle st of
        None \<Rightarrow> Some (None, st)
      | Some i \<Rightarrow>
          do {
            r \<leftarrow> linkDequeue E me handle i timeout st;
            case fst r of
              None \<Rightarrow> Some (None, snd r)
            | Some d \<Rightarrow> Some (Some (d_ptr d, d_len d), payHandoff (unat (d_len d)) (snd r))
          })"

subsection \<open>Queries\<close>

definition itsConnected :: "int \<Rightarrow> ('b, 'q) its_state \<Rightarrow> bool" where
  "itsConnected handle st \<longleftrightarrow> conn handle st \<noteq> None"

definition itsBytesAvailable :: "('b, 'q) its_env \<Rightarrow> task \<Rightarrow> int \<Rightarrow> ('b, 'q) its_state \<Rightarrow> nat" where
  "itsBytesAvailable E me handle st =
     (case recvLink me handle st of
        Some i \<Rightarrow> unat (l_outstanding (links st ! i))
      | None \<Rightarrow> (case recvBuf me handle st of None \<Rightarrow> 0 | Some b \<Rightarrow> sbAvail (e_rtos E) b))"

definition itsSpacesAvailable :: "('b, 'q) its_env \<Rightarrow> task \<Rightarrow> int \<Rightarrow> ('b, 'q) its_state \<Rightarrow> nat" where
  "itsSpacesAvailable E me handle st =
     (case sendLink me handle st of
        Some i \<Rightarrow> unat (linkSendSpace E (links st ! i))
      | None \<Rightarrow>
          (case sendBuf me handle st of
             None \<Rightarrow> 0
           | Some b \<Rightarrow>
               let spaces = sbSpaces (e_rtos E) b in
               (case conn handle st of
                  Some c \<Rightarrow> if c_packetBased c then (if spaces > 4 then spaces - 4 else 0) else spaces
                | None \<Rightarrow> spaces)))"

definition buf_size :: "nat option \<Rightarrow> nat option \<Rightarrow> ('b, 'q) its_state \<Rightarrow> nat" where
  "buf_size li pi st =
     (case li of
        Some i \<Rightarrow> unat (l_maxMsg (links st ! i))
      | None \<Rightarrow>
          (case pi of
             None \<Rightarrow> 0
           | Some i \<Rightarrow> if p_handle (itsPool st ! i) = None then 0 else p_size (itsPool st ! i)))"

definition itsRecvBufSize :: "task \<Rightarrow> int \<Rightarrow> ('b, 'q) its_state \<Rightarrow> nat" where
  "itsRecvBufSize me handle st = buf_size (recvLink me handle st) (recvBufWithPool me handle st) st"

definition itsSendBufSize :: "task \<Rightarrow> int \<Rightarrow> ('b, 'q) its_state \<Rightarrow> nat" where
  "itsSendBufSize me handle st = buf_size (sendLink me handle st) (sendBufWithPool me handle st) st"

definition itsSetTriggerLevel :: "('b, 'q) its_env \<Rightarrow> task \<Rightarrow> int \<Rightarrow> nat \<Rightarrow> ('b, 'q) its_state \<Rightarrow> bool \<times> ('b, 'q) its_state" where
  "itsSetTriggerLevel E me handle level0 st =
     (if sendLink me handle st \<noteq> None \<or> recvLink me handle st \<noteq> None then (False, st)
      else case recvBufWithPool me handle st of
        None \<Rightarrow> (False, st)
      | Some i \<Rightarrow>
          let level = (if level0 = 0 then 1 else level0) in
          (case p_handle (itsPool st ! i) of
             None \<Rightarrow> (False, st)
           | Some b \<Rightarrow> (sbSetTrigger (e_rtos E) b level, pool_upd i (\<lambda>e. e\<lparr>p_triggerLevel := level\<rparr>) st)))"

definition itsSetFreeNotify :: "('b, 'q) its_env \<Rightarrow> task \<Rightarrow> int \<Rightarrow> nat \<Rightarrow> ('b, 'q) its_state \<Rightarrow> (bool \<times> ('b, 'q) its_state) option" where
  "itsSetFreeNotify E me handle freeBytes st =
     (case sendLink me handle st of
        Some i \<Rightarrow>
          do {
            r \<leftarrow> linkSemTake E i 0 st;
            let st1 = link_arm i (of_nat freeBytes) (snd r);
            Some (True,
              if freeBytes > 0 \<and> unat (linkSendSpace E (links st1 ! i)) \<ge> freeBytes
              then task_notify me (link_upd i (\<lambda>L. L\<lparr>l_freeNotify := 0, l_sem := sem_give (l_sem L)\<rparr>) st1)
              else st1)
          }
      | None \<Rightarrow>
          (case sendBufWithPool me handle st of
             None \<Rightarrow> Some (False, st)
           | Some i \<Rightarrow>
               if p_handle (itsPool st ! i) = None then Some (False, st)
               else do {
                 r \<leftarrow> poolSemTake E i 0 st;
                 let st1 = pool_arm i freeBytes (snd r);
                 Some (True,
                   if freeBytes > 0 \<and> bufSpaces E i st1 \<ge> freeBytes
                   then task_notify me (pool_upd i (\<lambda>e. e\<lparr>p_freeNotify := 0, p_sem := sem_give (p_sem e)\<rparr>) st1)
                   else st1)
               }))"

definition itsIsEmpty :: "('b, 'q) its_env \<Rightarrow> task \<Rightarrow> int \<Rightarrow> ('b, 'q) its_state \<Rightarrow> bool" where
  "itsIsEmpty E me handle st =
     (case recvLink me handle st of
        Some i \<Rightarrow> ringAvail E (links st ! i) < SIZEOF_ITS_DESC
      | None \<Rightarrow> (case recvBuf me handle st of None \<Rightarrow> True | Some b \<Rightarrow> sbAvail (e_rtos E) b = 0))"

definition itsIsFull :: "('b, 'q) its_env \<Rightarrow> task \<Rightarrow> int \<Rightarrow> ('b, 'q) its_state \<Rightarrow> bool" where
  "itsIsFull E me handle st =
     (case sendLink me handle st of
        Some i \<Rightarrow> linkSendSpace E (links st ! i) = 0
      | None \<Rightarrow> (case sendBuf me handle st of None \<Rightarrow> True | Some b \<Rightarrow> sbSpaces (e_rtos E) b = 0))"

definition itsSendIsEmpty :: "('b, 'q) its_env \<Rightarrow> task \<Rightarrow> int \<Rightarrow> ('b, 'q) its_state \<Rightarrow> bool" where
  "itsSendIsEmpty E me handle st =
     (case sendLink me handle st of
        Some i \<Rightarrow> ringAvail E (links st ! i) < SIZEOF_ITS_DESC \<and> l_outstanding (links st ! i) = 0
      | None \<Rightarrow> (case sendBuf me handle st of None \<Rightarrow> True | Some b \<Rightarrow> sbAvail (e_rtos E) b = 0))"

partial_function (option) sendDrainLoop :: "('b, 'q) its_env \<Rightarrow> task \<Rightarrow> int \<Rightarrow> ticks \<Rightarrow> ('b, 'q) its_state
    \<Rightarrow> (bool \<times> ('b, 'q) its_state) option" where
  "sendDrainLoop E me handle deadline st =
     (if itsSendIsEmpty E me handle st then Some (True, st)
      else if \<not> itsConnected handle st then Some (False, st)
      else if tickCount st \<ge> deadline then Some (False, st)
      else sendDrainLoop E me handle deadline (blocked E st))"

definition itsSendDrain :: "('b, 'q) its_env \<Rightarrow> task \<Rightarrow> int \<Rightarrow> nat \<Rightarrow> ('b, 'q) its_state
    \<Rightarrow> (bool \<times> ('b, 'q) its_state) option" where
  "itsSendDrain E me handle timeoutMs st = sendDrainLoop E me handle (tickCount st + e_ms E timeoutMs) st"

definition itsRemoteTask :: "task \<Rightarrow> int \<Rightarrow> ('b, 'q) its_state \<Rightarrow> task" where
  "itsRemoteTask = remoteOf"

definition buf_reset :: "('b, 'q) its_env \<Rightarrow> nat option \<Rightarrow> ('b, 'q) its_state \<Rightarrow> ('b, 'q) its_state" where
  "buf_reset E pi st =
     (case pi of
        None \<Rightarrow> st
      | Some i \<Rightarrow> pool_upd i (\<lambda>e. e\<lparr>p_handle := map_option (sbReset (e_rtos E)) (p_handle e)\<rparr>) st)"

definition itsReset :: "('b, 'q) its_env \<Rightarrow> task \<Rightarrow> int \<Rightarrow> ('b, 'q) its_state \<Rightarrow> (bool \<times> ('b, 'q) its_state) option" where
  "itsReset E me handle st =
     (case conn handle st of
        Some c \<Rightarrow>
          if c_kind c = ITS_PACKET
          then do { st1 \<leftarrow> linkPurge E (c_toLinkIdx c) st; st2 \<leftarrow> linkPurge E (c_fromLinkIdx c) st1; Some (True, st2) }
          else Some (True, buf_reset E (sendBufWithPool me handle st) (buf_reset E (recvBufWithPool me handle st) st))
      | None \<Rightarrow> Some (True, st))"

end
