(* ===== verification/Its_Ring.thy ===== *)
theory Its_Ring
  imports Its_Data
begin

section \<open>Inter-task streams: what a packet link holds\<close>

text \<open>
  A descriptor ring as the list of its descriptors, the link operations on that list, and the
  updates of the state in a form the later proofs rewrite with.
\<close>

subsection \<open>Selectors after updates\<close>

named_theorems its_sel \<open>a component of the state after an update of another one\<close>

lemma links_link_upd [its_sel]: "links (link_upd i f st) = (links st)[i := f (links st ! i)]"
  by (simp add: links_def link_upd_def split: option.split)

lemma link_upd_frame [its_sel]:
  "itsPool (link_upd i f st) = itsPool st" "connTable (link_upd i f st) = connTable st"
  "connCounter (link_upd i f st) = connCounter st" "s_tasks (link_upd i f st) = s_tasks st"
  "s_pendingPay (link_upd i f st) = s_pendingPay st" "hdrCtr (link_upd i f st) = hdrCtr st"
  "payCtr (link_upd i f st) = payCtr st" "heap (link_upd i f st) = heap st"
  "notified (link_upd i f st) = notified st" "tickCount (link_upd i f st) = tickCount st"
  "waits (link_upd i f st) = waits st"
  by (simp_all add: link_upd_def)

lemma links_frame [its_sel]:
  "links (st\<lparr>heap := h\<rparr>) = links st" "links (st\<lparr>payCtr := c\<rparr>) = links st" "links (st\<lparr>hdrCtr := c\<rparr>) = links st"
  "links (st\<lparr>notified := n\<rparr>) = links st" "links (st\<lparr>itsPool := p\<rparr>) = links st" "links (st\<lparr>connTable := t\<rparr>) = links st"
  "links (st\<lparr>connCounter := k\<rparr>) = links st" "links (st\<lparr>waits := w\<rparr>) = links st" "links (st\<lparr>s_tasks := ts\<rparr>) = links st"
  "links (st\<lparr>s_pendingPay := q\<rparr>) = links st"
  by (simp_all add: links_def)

lemma conn_frame:
  "connTable st' = connTable st \<Longrightarrow> conn h st' = conn h st"
  by (simp add: conn_def)

lemma notify_remote_frame [its_sel]:
  "itsPool (notify_remote me h st) = itsPool st" "itsLinks (notify_remote me h st) = itsLinks st"
  "connTable (notify_remote me h st) = connTable st" "s_tasks (notify_remote me h st) = s_tasks st"
  "s_pendingPay (notify_remote me h st) = s_pendingPay st" "hdrCtr (notify_remote me h st) = hdrCtr st"
  "payCtr (notify_remote me h st) = payCtr st" "heap (notify_remote me h st) = heap st"
  "tickCount (notify_remote me h st) = tickCount st" "waits (notify_remote me h st) = waits st"
  by (simp_all add: notify_remote_def task_notify_def)

lemma links_notify_remote [its_sel]: "links (notify_remote me h st) = links st"
  by (simp add: links_def its_sel)

lemma sendLink_frame:
  assumes "connTable st' = connTable st" "length (links st') = length (links st)"
  shows "sendLink me h st' = sendLink me h st" "recvLink me h st' = recvLink me h st"
proof -
  have "conn h st' = conn h st" "\<And>idx. linkAt idx st' = linkAt idx st"
    using assms by (simp_all add: conn_def linkAt_def)
  then show "sendLink me h st' = sendLink me h st" "recvLink me h st' = recvLink me h st"
    by (simp_all add: sendLink_def recvLink_def split: option.split)
qed

lemma sendLink_bound:
  "sendLink me h st = Some i \<Longrightarrow> i < length (links st)"
  "recvLink me h st = Some i \<Longrightarrow> i < length (links st)"
  by (auto simp: sendLink_def recvLink_def linkAt_def split: option.splits if_splits)

lemma sendLink_packet:
  assumes "sendLink me h st = Some i"
  obtains c where "conn h st = Some c" "c_kind c = ITS_PACKET"
  using assms by (auto simp: sendLink_def split: option.splits if_splits)

lemma recvLink_packet:
  assumes "recvLink me h st = Some i"
  obtains c where "conn h st = Some c" "c_kind c = ITS_PACKET"
  using assms by (auto simp: recvLink_def split: option.splits if_splits)

subsection \<open>Stream buffers\<close>

lemma sb_facts:
  assumes "sb_laws R cap cont"
  shows "cap (sbCreate R n) = n - 1" "cont (sbCreate R n) = []"
    "length (cont b) \<le> cap b" "sbAvail R b = length (cont b)" "sbSpaces R b = cap b - length (cont b)"
    "cap (sbReset R b) = cap b" "cont (sbReset R b) = []"
    "cap (snd (sbSend R b xs)) = cap b" "cap (snd (sbReceive R b n)) = cap b"
    "fst (sbReceive R b n) = take n (cont b)" "cont (snd (sbReceive R b n)) = drop n (cont b)"
    "fst (sbSend R b xs) = min (length xs) (cap b - length (cont b))"
  using assms unfolding sb_laws_def Let_def by blast+

lemma sb_send_fits:
  assumes "sb_laws R cap cont" "length xs \<le> sbSpaces R b"
  shows "fst (sbSend R b xs) = length xs" "cont (snd (sbSend R b xs)) = cont b @ xs"
proof -
  note F = sb_facts [OF assms(1)]
  have k: "min (length xs) (cap b - length (cont b)) = length xs" using assms(2) by (simp add: F)
  then show "fst (sbSend R b xs) = length xs" by (simp add: F)
  have "cont (snd (sbSend R b xs)) = cont b @ take (min (length xs) (cap b - length (cont b))) xs"
    using assms(1) unfolding sb_laws_def Let_def by blast
  then show "cont (snd (sbSend R b xs)) = cont b @ xs" by (simp add: k)
qed

subsection \<open>Descriptors\<close>

lemma length_desc_bytes [simp]: "length (desc_bytes d) = 8"
  by (simp add: desc_bytes_def)

lemma desc_of_bytes [simp]: "desc_of (desc_bytes d) = d"
proof -
  have "drop 4 (le32 (d_len d) @ le32 (d_ptr d)) = le32 (d_ptr d)" by simp
  then show ?thesis by (simp add: desc_of_def desc_bytes_def)
qed

lemma length_descs [simp]: "length (concat (map desc_bytes ds)) = 8 * length ds"
  by (induction ds) auto

fun descs_of :: "bytes \<Rightarrow> its_desc list" where
  "descs_of bs = (if length bs < 8 then [] else desc_of (take 8 bs) # descs_of (drop 8 bs))"

declare descs_of.simps [simp del]

lemma descs_of_concat [simp]: "descs_of (concat (map desc_bytes ds)) = ds"
proof (induction ds)
  case Nil
  then show ?case by (subst descs_of.simps) simp
next
  case (Cons d ds)
  have "take 8 (desc_bytes d @ concat (map desc_bytes ds)) = desc_bytes d"
    "drop 8 (desc_bytes d @ concat (map desc_bytes ds)) = concat (map desc_bytes ds)" by simp_all
  with Cons show ?case by (subst descs_of.simps) simp
qed

definition ring_rep :: "('b \<Rightarrow> nat) \<Rightarrow> ('b \<Rightarrow> bytes) \<Rightarrow> 'b its_link \<Rightarrow> its_desc list \<Rightarrow> bool" where
  "ring_rep cap cont L ds \<longleftrightarrow>
     (\<exists>b. l_ring L = Some b \<and> cap b = (l_depth L + 1) * 8 - 1 \<and> cont b = concat (map desc_bytes ds))"

definition ring_descs :: "('b \<Rightarrow> bytes) \<Rightarrow> 'b its_link \<Rightarrow> its_desc list" where
  "ring_descs cont L = (case l_ring L of None \<Rightarrow> [] | Some b \<Rightarrow> descs_of (cont b))"

lemma ring_rep_descs: "ring_rep cap cont L ds \<Longrightarrow> ring_descs cont L = ds"
  by (auto simp: ring_rep_def ring_descs_def)

lemma ring_spaces:
  assumes "sb_laws (e_rtos E) cap cont" "ring_rep cap cont L ds"
  shows "ringSpaces E L \<ge> 8 \<longleftrightarrow> length ds < l_depth L" "ringAvail E L = 8 * length ds" "length ds \<le> l_depth L"
proof -
  obtain b where b: "l_ring L = Some b" "cap b = (l_depth L + 1) * 8 - 1" "cont b = concat (map desc_bytes ds)"
    using assms(2) by (auto simp: ring_rep_def)
  have le: "8 * length ds \<le> (l_depth L + 1) * 8 - 1" using sb_facts(3) [OF assms(1), of b] by (simp add: b)
  show "ringSpaces E L \<ge> 8 \<longleftrightarrow> length ds < l_depth L"
    using le by (simp add: ringSpaces_def b(1) sb_facts(5) [OF assms(1)]) (simp add: b; linarith)
  show "ringAvail E L = 8 * length ds" by (simp add: ringAvail_def b sb_facts(4) [OF assms(1)])
  show "length ds \<le> l_depth L" using le by presburger
qed

text \<open>A descriptor more, and a descriptor less.\<close>

lemma ring_send:
  assumes "sb_laws (e_rtos E) cap cont" "ring_rep cap cont L ds" "ringSpaces E L \<ge> 8"
  shows "ring_rep cap cont (L\<lparr>l_outstanding := n,
           l_ring := map_option (\<lambda>b. snd (sbSend (e_rtos E) b (desc_bytes d))) (l_ring L)\<rparr>) (ds @ [d])"
proof -
  obtain b where b: "l_ring L = Some b" "cap b = (l_depth L + 1) * 8 - 1" "cont b = concat (map desc_bytes ds)"
    using assms(2) by (auto simp: ring_rep_def)
  have "length (desc_bytes d) \<le> sbSpaces (e_rtos E) b" using assms(3) b(1) by (simp add: ringSpaces_def)
  from sb_send_fits [OF assms(1) this] show ?thesis
    by (simp add: ring_rep_def b sb_facts(8) [OF assms(1)])
qed

lemma ring_receive:
  assumes "sb_laws (e_rtos E) cap cont" "ring_rep cap cont L (d # ds)" "l_ring L = Some b"
  shows "fst (sbReceive (e_rtos E) b 8) = desc_bytes d"
    "ring_rep cap cont (L\<lparr>l_ring := Some (snd (sbReceive (e_rtos E) b 8))\<rparr>) ds"
  using assms by (auto simp: ring_rep_def sb_facts [OF assms(1)])

end
