(* ===== verification/Its_Inv.thy ===== *)
theory Its_Inv
  imports Its_Ring "HOL-Library.Multiset"
begin

section \<open>Inter-task streams: no buffer has two connections\<close>

text \<open>
  The invariant of the tables: an active connection refers to buffers and rings that exist and
  are in use, and no two references of active connections are to the same one. It depends on the
  connection table and on the in-use marks only; most operations leave both alone.
\<close>

subsection \<open>The invariant\<close>

definition conn_pools :: "its_conn \<Rightarrow> int multiset" where
  "conn_pools c = (if c_active c then filter_mset (\<lambda>i. i \<ge> 0) {#c_toPoolIdx c, c_fromPoolIdx c#} else {#})"

definition conn_links :: "its_conn \<Rightarrow> int multiset" where
  "conn_links c = (if c_active c then filter_mset (\<lambda>i. i \<ge> 0) {#c_toLinkIdx c, c_fromLinkIdx c#} else {#})"

definition owned :: "(its_conn \<Rightarrow> int multiset) \<Rightarrow> its_conn list \<Rightarrow> int multiset" where
  "owned f cs = sum_list (map f cs)"

definition exclusive :: "int multiset \<Rightarrow> bool list \<Rightarrow> bool" where
  "exclusive M used \<longleftrightarrow> (\<forall>i. count M i \<le> 1) \<and> (\<forall>i\<in>#M. 0 \<le> i \<and> i < int (length used) \<and> used ! nat i)"

text \<open>
  A slot of the table was never used, is active, or was freed: then it refers to nothing. A slot
  that was used once stays so.
\<close>

definition conn_idx :: "its_conn \<Rightarrow> int list" where
  "conn_idx c = [c_toPoolIdx c, c_fromPoolIdx c, c_toLinkIdx c, c_fromLinkIdx c]"

definition slot_used :: "its_conn \<Rightarrow> bool" where
  "slot_used c \<longleftrightarrow> c_active c \<or> conn_idx c = [- 1, - 1, - 1, - 1]"

definition slot_ok :: "its_conn \<Rightarrow> bool" where
  "slot_ok c \<longleftrightarrow> slot_used c \<or> conn_idx c = [0, 0, 0, 0]"

definition tables_ok :: "its_conn list \<Rightarrow> nat \<Rightarrow> bool list \<Rightarrow> bool list \<Rightarrow> bool" where
  "tables_ok cs k pu lu \<longleftrightarrow>
     length cs = ITS_MAX_CONNS \<and> k < ITS_MAX_CONNS \<and> length pu \<le> ITS_MAX_POOL \<and> length lu \<le> ITS_MAX_LINKS
     \<and> list_all slot_ok cs
     \<and> exclusive (owned conn_pools cs) pu \<and> exclusive (owned conn_links cs) lu"

definition pool_marks :: "('b, 'q) its_state \<Rightarrow> bool list" where
  "pool_marks st = map p_inUse (itsPool st)"

definition link_marks :: "('b, 'q) its_state \<Rightarrow> bool list" where
  "link_marks st = map l_inUse (links st)"

text \<open>Where the search for a free slot starts; none before the registry of tasks exists.\<close>

definition next_slot :: "('b, 'q) its_state \<Rightarrow> nat" where
  "next_slot st = (if s_tasks st = None then ITS_MAX_CONNS else connCounter st)"

lemma next_slot_sel [simp]:
  "next_slot (pool_upd i f st) = next_slot st" "next_slot (link_upd i g st) = next_slot st"
  "next_slot (conn_upd h k st) = next_slot st" "next_slot (task_upd j u st) = next_slot st"
  "next_slot (st\<lparr>heap := a\<rparr>) = next_slot st" "next_slot (st\<lparr>payCtr := c\<rparr>) = next_slot st"
  "next_slot (st\<lparr>hdrCtr := c\<rparr>) = next_slot st" "next_slot (st\<lparr>notified := n\<rparr>) = next_slot st"
  "next_slot (st\<lparr>s_pendingPay := q\<rparr>) = next_slot st" "next_slot (st\<lparr>boosted := b\<rparr>) = next_slot st"
  "next_slot (st\<lparr>s_onDemand := d\<rparr>) = next_slot st" "next_slot (st\<lparr>waits := w\<rparr>) = next_slot st"
  "next_slot (st\<lparr>itsPool := p\<rparr>) = next_slot st" "next_slot (st\<lparr>itsLinks := l\<rparr>) = next_slot st"
  "next_slot (st\<lparr>s_tasks := Some ts\<rparr>) = (if s_tasks st = None then connCounter st else next_slot st)"
  by (simp_all add: next_slot_def pool_upd_def link_upd_def conn_upd_def task_upd_def)

definition its_inv :: "('b, 'q) its_state \<Rightarrow> bool" where
  "its_inv st \<longleftrightarrow> tables_ok (connTable st) (next_slot st) (pool_marks st) (link_marks st)"

text \<open>What the invariant depends on.\<close>

definition same_tables :: "('b, 'q) its_state \<Rightarrow> ('b, 'q) its_state \<Rightarrow> bool" where
  "same_tables st st' \<longleftrightarrow> connTable st' = connTable st \<and> next_slot st' = next_slot st
     \<and> pool_marks st' = pool_marks st \<and> link_marks st' = link_marks st"

lemma same_tables_refl [simp]: "same_tables st st"
  by (simp add: same_tables_def)

lemma same_tables_trans: "same_tables a b \<Longrightarrow> same_tables b c \<Longrightarrow> same_tables a c"
  by (simp add: same_tables_def)

text \<open>A step of the system keeps the invariant and what was used.\<close>

definition evolves :: "('b, 'q) its_state \<Rightarrow> ('b, 'q) its_state \<Rightarrow> bool" where
  "evolves st st' \<longleftrightarrow> (its_inv st \<longrightarrow> its_inv st' \<and>
     (\<forall>h < ITS_MAX_CONNS. slot_used (connTable st ! h) \<longrightarrow> slot_used (connTable st' ! h)))"

lemma evolves_refl [simp]: "evolves st st"
  by (simp add: evolves_def)

lemma evolves_trans: "evolves a b \<Longrightarrow> evolves b c \<Longrightarrow> evolves a c"
  by (simp add: evolves_def)

lemma same_tables_evolves: "same_tables st st' \<Longrightarrow> evolves st st'"
  by (simp add: same_tables_def evolves_def its_inv_def)

subsection \<open>Ownership of a list of connections\<close>

lemma sum_list_update_add:
  fixes f :: "'a \<Rightarrow> int multiset"
  shows "h < length cs \<Longrightarrow> sum_list (map f (cs[h := c])) + f (cs ! h) = sum_list (map f cs) + f c"
proof (induction cs arbitrary: h)
  case (Cons a cs)
  show ?case
  proof (cases h)
    case 0
    then show ?thesis by (simp add: ac_simps)
  next
    case (Suc k)
    have "f a + (sum_list (map f (cs[k := c])) + f (cs ! k)) = f a + (sum_list (map f cs) + f c)"
      using Cons Suc by simp
    with Suc show ?thesis by (simp add: add.assoc)
  qed
qed simp

lemma owned_update:
  "h < length cs \<Longrightarrow> owned f (cs[h := c]) + f (cs ! h) = owned f cs + f c"
  unfolding owned_def by (rule sum_list_update_add)

lemma owned_part: "h < length cs \<Longrightarrow> f (cs ! h) \<subseteq># owned f cs"
  by (simp add: owned_def sum_list_map_remove1 [of "cs ! h"])

text \<open>The three changes: a reference given up with its mark, a fresh reference, an unused mark.\<close>

lemma exclusive_subset: "exclusive M used \<Longrightarrow> N \<subseteq># M \<Longrightarrow> exclusive N used"
  unfolding exclusive_def by (meson mset_subset_eqD mset_subset_eq_count order_trans)

lemma exclusive_mark:
  assumes "exclusive M used" "0 \<le> i" "i \<notin># M"
  shows "exclusive M (used[nat i := x])"
proof -
  have "used[nat i := x] ! nat j = used ! nat j" if "j \<in># M" for j
    using assms that by (intro nth_list_update_neq) (auto simp: exclusive_def eq_nat_nat_iff)
  then show ?thesis using assms by (simp add: exclusive_def)
qed

lemma exclusive_grow: "exclusive M used \<Longrightarrow> exclusive M (used @ us)"
  by (auto simp: exclusive_def nth_append nat_less_iff)

lemma exclusive_add:
  assumes "exclusive M used" "i < length used" "used ! i" "int i \<notin># M"
  shows "exclusive (add_mset (int i) M) used"
  using assms by (auto simp: exclusive_def not_in_iff)

definition unmark :: "int \<Rightarrow> bool list \<Rightarrow> bool list" where
  "unmark i used = (if 0 \<le> i \<and> i < int (length used) then used[nat i := False] else used)"

lemma length_unmark [simp]: "length (unmark i used) = length used"
  by (simp add: unmark_def)

lemma exclusive_unmark: "exclusive M used \<Longrightarrow> i \<notin># M \<Longrightarrow> exclusive M (unmark i used)"
  by (simp add: unmark_def exclusive_mark)

lemma exclusive_free:
  assumes "exclusive (M + filter_mset (\<lambda>i. i \<ge> 0) {#a, b#}) used"
  shows "exclusive M (unmark b (unmark a used))"
proof -
  have M: "exclusive M used" by (rule exclusive_subset [OF assms]) simp
  have c: "count M i + count (filter_mset (\<lambda>i. i \<ge> 0) {#a, b#}) i \<le> 1" for i
    using assms unfolding exclusive_def count_union [symmetric] by blast
  have "i \<notin># M" if "i \<in> {a, b}" for i
  proof (cases "i \<ge> 0")
    case True
    with c [of i] show ?thesis using \<open>i \<in> {a, b}\<close> by (auto simp: not_in_iff split: if_splits)
  next
    case False
    with M show ?thesis by (auto simp: exclusive_def)
  qed
  then show ?thesis using M by (simp add: exclusive_unmark)
qed

subsection \<open>Operations that leave the tables alone\<close>

named_theorems keeps \<open>operations that keep the connection table and the in-use marks\<close>

lemma map_upd_same: "(\<And>e. g (f e) = g e) \<Longrightarrow> map g (xs[i := f (xs ! i)]) = map g xs"
  by (cases "i < length xs") (simp_all add: map_update list_update_same_conv list_update_beyond)

lemma marks_upd:
  "pool_marks (pool_upd i f st) = (pool_marks st)[i := p_inUse (f (itsPool st ! i))]"
  "link_marks (link_upd i g st) = (link_marks st)[i := l_inUse (g (links st ! i))]"
  "pool_marks (link_upd i g st) = pool_marks st" "link_marks (pool_upd i f st) = link_marks st"
  by (simp_all add: pool_marks_def link_marks_def map_update its_sel) (simp_all add: links_def pool_upd_def map_update)

lemma same_tables_upd [keeps]:
  "(\<And>e. p_inUse (f e) = p_inUse e) \<Longrightarrow> same_tables st (pool_upd i f st)"
  "(\<And>L. l_inUse (g L) = l_inUse L) \<Longrightarrow> same_tables st (link_upd i g st)"
  by (simp_all add: same_tables_def pool_marks_def link_marks_def map_upd_same its_sel)
    (simp_all add: pool_upd_def links_def map_upd_same)

lemma same_tables_fields [keeps]:
  "same_tables st (st\<lparr>heap := h\<rparr>)" "same_tables st (st\<lparr>payCtr := c\<rparr>)" "same_tables st (st\<lparr>hdrCtr := c\<rparr>)"
  "same_tables st (st\<lparr>notified := n\<rparr>)" "same_tables st (st\<lparr>s_pendingPay := q\<rparr>)"
  "same_tables st (st\<lparr>boosted := b\<rparr>)" "same_tables st (st\<lparr>s_onDemand := d\<rparr>)" "same_tables st (st\<lparr>waits := w\<rparr>)"
  by (simp_all add: same_tables_def pool_marks_def link_marks_def links_def)

lemma same_tables_task [keeps]: "same_tables st (task_upd i f st)" "same_tables st (task_notify t st)"
  "same_tables st (notify_remote me h st)"
  by (simp_all add: task_notify_def notify_remote_def keeps)
    (simp add: same_tables_def pool_marks_def link_marks_def links_def task_upd_def next_slot_def)

lemma heap_free_keeps [keeps]: "heap_free p st = Some st' \<Longrightarrow> same_tables st st'"
  by (auto simp: heap_free_def keeps split: if_splits)

lemma heap_malloc_keeps [keeps]: "same_tables st (snd (heap_malloc E n st))"
  by (simp add: heap_malloc_def keeps split: option.split)

lemma heap_write_keeps [keeps]: "heap_write p bs st = Some st' \<Longrightarrow> same_tables st st'"
  by (auto simp: heap_write_def keeps split: if_splits option.splits)

lemma payDrop_keeps [keeps]: "payDrop p n st = Some st' \<Longrightarrow> same_tables st st'"
  by (auto simp: payDrop_def split: if_splits Option.bind_splits intro: same_tables_trans [OF heap_free_keeps] keeps)

lemma payAlloc_keeps [keeps]: "same_tables st (snd (payAlloc E n st))"
proof -
  have "same_tables st (snd (heap_malloc E n st))" by (rule heap_malloc_keeps)
  then show ?thesis by (auto simp: payAlloc_def split: prod.split intro: same_tables_trans keeps)
qed

lemma msgFree_keeps [keeps]: "msgFree m st = Some st' \<Longrightarrow> same_tables st st'"
  by (auto simp: msgFree_def split: if_splits Option.bind_splits intro: same_tables_trans [OF payDrop_keeps] keeps)

lemma msgAlloc_keeps [keeps]: "same_tables st (snd (msgAlloc E st))"
  by (simp add: msgAlloc_def keeps split: option.split)

lemma msg_discard_keeps [keeps]: "msg_discard ti m st = Some st' \<Longrightarrow> same_tables st st'"
  unfolding msg_discard_def by (rule same_tables_trans [OF same_tables_fields(5) msgFree_keeps])

lemma buildCopyMsg_keeps [keeps]: "buildCopyMsg E me k port h data ti st = Some r \<Longrightarrow> same_tables st (snd r)"
proof -
  assume a: "buildCopyMsg E me k port h data ti st = Some r"
  have m: "same_tables st (snd (msgAlloc E st))" by (rule msgAlloc_keeps)
  have p: "same_tables s (snd (payAlloc E n s))" for s :: "('a, 'b) its_state" and n by (rule payAlloc_keeps)
  show ?thesis
  proof (cases "msgAlloc E st")
    case (Pair mo st1)
    with m have m1: "same_tables st st1" by simp
    obtain q st2 where q: "payAlloc E (length data) st1 = (q, st2)" by fastforce
    with p [of st1] have "same_tables st1 st2" by (metis snd_conv)
    then have "same_tables st st2" using m1 by (rule same_tables_trans [rotated])
    then show ?thesis using a m1 Pair q
      by (auto simp: buildCopyMsg_def Let_def split: if_splits option.splits Option.bind_splits
          dest!: msgFree_keeps heap_write_keeps intro: same_tables_trans msgAlloc_keeps)
  qed
qed

lemma inboxPut_keeps [keeps]: "inboxPut E ti m st = Some st' \<Longrightarrow> same_tables st st'"
  unfolding inboxPut_def
  by (auto split: option.splits intro: same_tables_trans [OF same_tables_trans] keeps)

lemma linkDrain_keeps [keeps]: "linkDrain E i st = Some st' \<Longrightarrow> same_tables st st'"
proof (induction rule: linkDrain.raw_induct [rotated, consumes 1, case_names step])
  case (step rec E i st st')
  show ?case
  proof (cases "l_ring (links st ! i)")
    case (Some b)
    define r where "r = sbReceive (e_rtos E) b SIZEOF_ITS_DESC"
    define st1 where "st1 = link_upd i (\<lambda>L. L\<lparr>l_ring := Some (snd r)\<rparr>) st"
    have s1: "same_tables st st1" unfolding st1_def by (rule same_tables_upd) simp
    have body: "(if sbAvail (e_rtos E) b < SIZEOF_ITS_DESC then Some st
        else if length (fst r) \<noteq> SIZEOF_ITS_DESC then Some st1
        else Option.bind (payDrop (d_ptr (desc_of (fst r))) (unat (d_len (desc_of (fst r)))) st1) (rec E i)) = Some st'"
      using step(2) unfolding Some Let_def r_def st1_def by simp
    show ?thesis
    proof (cases "payDrop (d_ptr (desc_of (fst r))) (unat (d_len (desc_of (fst r)))) st1")
      case None
      with body s1 show ?thesis by (auto split: if_splits)
    next
      case st2: (Some st2)
      have "same_tables st st2" using s1 payDrop_keeps [OF st2] by (rule same_tables_trans)
      with body s1 st2 step(1) [of E i st2 st'] show ?thesis by (auto split: if_splits intro: same_tables_trans)
    qed
  qed (use step(2) in simp)
qed

subsection \<open>Freeing\<close>

lemma poolFree_marks:
  assumes "poolFree E idx st = Some st'"
  shows "connTable st' = connTable st" "next_slot st' = next_slot st" "link_marks st' = link_marks st"
    "pool_marks st' = unmark idx (pool_marks st)"
proof -
  have "connTable st' = connTable st \<and> next_slot st' = next_slot st \<and> link_marks st' = link_marks st
      \<and> pool_marks st' = unmark idx (pool_marks st)"
  proof (cases "idx < 0 \<or> idx \<ge> int (length (itsPool st))")
    case True
    then show ?thesis using assms by (auto simp: poolFree_def unmark_def pool_marks_def)
  next
    case False
    let ?i = "nat idx" and ?e = "itsPool st ! nat idx"
    have r: "unmark idx (pool_marks st) = (pool_marks st)[?i := False]" using False by (simp add: unmark_def pool_marks_def)
    show ?thesis
    proof (cases "p_pooled ?e")
      case True
      with False assms show ?thesis by (auto simp: poolFree_def Let_def r marks_upd) (simp_all add: pool_upd_def)
    next
      case False
      define st1 where "st1 = pool_upd ?i (\<lambda>e. e\<lparr>p_handle := None, p_sbCtrl := 0, p_sbStore := 0, p_size := 0,
          p_inUse := False, p_triggerLevel := 1, p_freeNotify := 0, p_sem := sem_give (p_sem e)\<rparr>) st"
      have m: "connTable st1 = connTable st" "next_slot st1 = next_slot st" "link_marks st1 = link_marks st"
        "pool_marks st1 = (pool_marks st)[?i := False]"
        by (simp_all add: st1_def marks_upd) (simp_all add: pool_upd_def)
      have "same_tables st1 st'"
        using assms False \<open>\<not> (idx < 0 \<or> idx \<ge> int (length (itsPool st)))\<close>
        by (auto simp: poolFree_def Let_def st1_def split: if_splits Option.bind_splits
            dest!: heap_free_keeps intro: same_tables_trans)
      then show ?thesis using m r by (simp add: same_tables_def)
    qed
  qed
  then show "connTable st' = connTable st" "next_slot st' = next_slot st" "link_marks st' = link_marks st"
    "pool_marks st' = unmark idx (pool_marks st)" by simp_all
qed

lemma linkFree_marks:
  assumes "linkFree E idx st = Some st'"
  shows "connTable st' = connTable st" "next_slot st' = next_slot st" "pool_marks st' = pool_marks st"
    "link_marks st' = unmark idx (link_marks st)"
proof -
  have "connTable st' = connTable st \<and> next_slot st' = next_slot st \<and> pool_marks st' = pool_marks st
      \<and> link_marks st' = unmark idx (link_marks st)"
  proof (cases "idx < 0 \<or> idx \<ge> int (length (links st))")
    case True
    then show ?thesis using assms by (auto simp: linkFree_def unmark_def link_marks_def)
  next
    case False
    then obtain st1 where st1: "linkDrain E (nat idx) st = Some st1"
      "st' = link_upd (nat idx) (\<lambda>L. L\<lparr>l_ring := map_option (sbReset (e_rtos E)) (l_ring L), l_inUse := False,
                   l_freeNotify := 0, l_outstanding := 0, l_sem := sem_give (l_sem L)\<rparr>) st1"
      using assms by (auto simp: linkFree_def Let_def split: Option.bind_splits)
    from linkDrain_keeps [OF st1(1)] have "same_tables st st1" .
    then show ?thesis using False st1(2)
      by (simp add: same_tables_def marks_upd unmark_def its_sel) (simp add: link_marks_def)
  qed
  then show "connTable st' = connTable st" "next_slot st' = next_slot st" "pool_marks st' = pool_marks st"
    "link_marks st' = unmark idx (link_marks st)" by simp_all
qed

text \<open>
  Freeing the entry of an active connection gives up its references and their marks; freeing it
  again does nothing.
\<close>

lemma owned_cleared:
  assumes "h < length cs" "f c = {#}"
  shows "owned f cs = owned f (cs[h := c]) + f (cs ! h)"
  using owned_update [OF assms(1), of f c] assms(2) by simp

lemma connFree_evolves:
  assumes used: "slot_used (connTable st ! nat h)" and run: "connFree E h st = Some st'"
  shows "evolves st st'"
proof (cases "h < 0 \<or> h \<ge> int ITS_MAX_CONNS")
  case True
  with run show ?thesis by (auto simp: connFree_def)
next
  case False
  define c where "c = connTable st ! nat h"
  define d where "d = blankConn\<lparr>c_toPoolIdx := - 1, c_fromPoolIdx := - 1, c_toLinkIdx := - 1, c_fromLinkIdx := - 1\<rparr>"
  define st1 where "st1 = conn_upd (nat h) (\<lambda>_. d) st"
  obtain st2 st3 st4 where s: "poolFree E (c_toPoolIdx c) st1 = Some st2" "poolFree E (c_fromPoolIdx c) st2 = Some st3"
    "linkFree E (c_toLinkIdx c) st3 = Some st4" "linkFree E (c_fromLinkIdx c) st4 = Some st'"
    using run False
    by (auto simp: connFree_def Let_def split: Option.bind_splits simp flip: c_def d_def st1_def)
  have m1: "connTable st1 = (connTable st)[nat h := d]" "next_slot st1 = next_slot st"
    "pool_marks st1 = pool_marks st" "link_marks st1 = link_marks st"
    by (simp_all add: st1_def) (simp_all add: conn_upd_def pool_marks_def link_marks_def links_def)
  note m = m1 poolFree_marks [OF s(1)] poolFree_marks [OF s(2)] linkFree_marks [OF s(3)] linkFree_marks [OF s(4)]
  have d0: "conn_pools d = {#}" "conn_links d = {#}" "slot_used d"
    by (simp_all add: d_def conn_pools_def conn_links_def slot_used_def conn_idx_def blankConn_def)
  show ?thesis unfolding evolves_def
  proof (intro impI conjI)
    assume inv: "its_inv st"
    note inv' = inv [unfolded its_inv_def tables_ok_def]
    have h: "nat h < length (connTable st)" using False inv' by auto
    have own: "owned conn_pools (connTable st) = owned conn_pools ((connTable st)[nat h := d]) + conn_pools c"
      "owned conn_links (connTable st) = owned conn_links ((connTable st)[nat h := d]) + conn_links c"
      using owned_cleared [of "nat h" "connTable st" conn_pools d, OF h d0(1)]
        owned_cleared [of "nat h" "connTable st" conn_links d, OF h d0(2)] by (simp_all add: c_def)
    have "exclusive (owned conn_pools ((connTable st)[nat h := d])) (unmark (c_fromPoolIdx c) (unmark (c_toPoolIdx c) (pool_marks st)))
        \<and> exclusive (owned conn_links ((connTable st)[nat h := d])) (unmark (c_fromLinkIdx c) (unmark (c_toLinkIdx c) (link_marks st)))"
    proof (cases "c_active c")
      case True
      have "exclusive (owned conn_pools ((connTable st)[nat h := d]) + conn_pools c) (pool_marks st)"
        "exclusive (owned conn_links ((connTable st)[nat h := d]) + conn_links c) (link_marks st)"
        using inv' own by simp_all
      then show ?thesis using True by (simp add: conn_pools_def conn_links_def exclusive_free)
    next
      case False
      then have "conn_idx c = [- 1, - 1, - 1, - 1]" using used by (simp add: slot_used_def c_def)
      then show ?thesis using inv' own False by (simp add: conn_idx_def unmark_def conn_pools_def conn_links_def)
    qed
    moreover have "list_all slot_ok ((connTable st)[nat h := d])"
      using inv' d0(3) by (auto simp: list_all_iff slot_ok_def dest!: set_update_subset_insert [THEN subsetD])
    ultimately show "its_inv st'" using inv' by (simp add: its_inv_def tables_ok_def m)
    show "\<forall>k < ITS_MAX_CONNS. slot_used (connTable st ! k) \<longrightarrow> slot_used (connTable st' ! k)"
      using d0(3) h by (simp add: m nth_list_update)
  qed
qed

end
