(* ===== verification/Its_Steps.thy ===== *)
theory Its_Steps
  imports Its_Inv
begin

section \<open>Inter-task streams: every operation keeps the tables\<close>

text \<open>
  The invariant through the allocation of buffers, the dispatch of messages, the calls of the
  API and the data path, and from there through every reachable state. What the other tasks do
  while a caller is blocked and what a callback does is assumed to keep the invariant, as each
  consists of such operations.
\<close>

subsection \<open>Fresh buffers\<close>

lemma same_tables_marks:
  assumes "same_tables st st'"
  shows "connTable st' = connTable st" "next_slot st' = next_slot st" "pool_marks st' = pool_marks st"
    "link_marks st' = link_marks st"
  using assms by (simp_all add: same_tables_def)

lemma heap_free2_keeps:
  "do { a \<leftarrow> heap_free p st; heap_free q a } = Some st' \<Longrightarrow> same_tables st st'"
  unfolding bind_eq_Some_conv by (elim exE conjE) (rule same_tables_trans [OF heap_free_keeps heap_free_keeps])

lemma heap_malloc_pair: "heap_malloc E n st = (p, st') \<Longrightarrow> same_tables st st'"
  using heap_malloc_keeps [of st E n] by simp

lemma poolFill_marks:
  assumes "poolFill E sz np i st = Some (r, st')"
  shows "connTable st' = connTable st \<and> next_slot st' = next_slot st \<and> link_marks st' = link_marks st
      \<and> pool_marks st' = (pool_marks st)[i := True] \<and> (r = - 1 \<or> r = int i)"
proof -
  define st1 where "st1 = pool_upd i (\<lambda>e. e\<lparr>p_size := sz, p_inUse := True, p_pooled := \<not> np, p_triggerLevel := 1,
                   p_freeNotify := 0, p_handle := None, p_sbCtrl := 0, p_sbStore := 0\<rparr>) st"
  obtain ctrl st2 where a: "heap_malloc E (e_sbCtrlSize E) st1 = (ctrl, st2)" by fastforce
  obtain store st3 where b: "heap_malloc E (sz + 1) st2 = (store, st3)" by fastforce
  obtain st4 where c: "(if ctrl \<noteq> 0 \<and> store \<noteq> 0
               then Some (pool_upd i (\<lambda>e. e\<lparr>p_sbCtrl := ctrl, p_sbStore := store,
                                             p_handle := Some (sbCreate (e_rtos E) sz)\<rparr>) st3)
               else do { a \<leftarrow> heap_free ctrl st3; heap_free store a }) = Some st4"
    and d: "st' = (if p_sem (itsPool st4 ! i) = None then pool_upd i (\<lambda>e. e\<lparr>p_sem := sem_create E i\<rparr>) st4 else st4)"
    "r = - 1 \<or> r = int i"
    using assms unfolding poolFill_def Let_def st1_def [symmetric] a b prod.case
    unfolding bind_eq_Some_conv by (elim exE conjE) (simp only: option.inject prod.inject, metis)
  have m: "connTable st1 = connTable st" "next_slot st1 = next_slot st" "link_marks st1 = link_marks st"
    "pool_marks st1 = (pool_marks st)[i := True]"
    by (simp_all add: st1_def marks_upd) (simp_all add: pool_upd_def)
  have "same_tables st1 st2" "same_tables st2 st3" by (rule heap_malloc_pair [OF a], rule heap_malloc_pair [OF b])
  moreover have "same_tables st3 st4"
    using c by (auto split: if_splits intro: same_tables_upd heap_free2_keeps)
  moreover have "same_tables st4 st'" using d(1) by (simp add: same_tables_upd)
  ultimately have "same_tables st1 st'" by (blast intro: same_tables_trans)
  with m d(2) show ?thesis by (simp add: same_tables_def)
qed

lemma linkFill_marks:
  assumes "linkFill E depth cap mx i st = Some (r, st')"
  shows "connTable st' = connTable st \<and> next_slot st' = next_slot st \<and> pool_marks st' = pool_marks st
      \<and> link_marks st' = (link_marks st)[i := True] \<and> (r = - 1 \<or> r = int i)"
proof -
  define st1 where "st1 = link_upd i (\<lambda>L. L\<lparr>l_depth := depth, l_byteCap := cap, l_maxMsg := mx, l_freeNotify := 0,
                   l_inUse := True, l_ring := None, l_outstanding := 0\<rparr>) st"
  let ?n = "(depth + 1) * SIZEOF_ITS_DESC"
  obtain ctrl st2 where a: "heap_malloc E (e_sbCtrlSize E) st1 = (ctrl, st2)" by fastforce
  obtain store st3 where b: "heap_malloc E (?n + 1) st2 = (store, st3)" by fastforce
  obtain st4 where c: "(if ctrl \<noteq> 0 \<and> store \<noteq> 0
               then Some (link_upd i (\<lambda>L. L\<lparr>l_ring := Some (sbCreate (e_rtos E) ?n)\<rparr>) st3)
               else do { a \<leftarrow> heap_free ctrl st3; heap_free store a }) = Some st4"
    and d: "st' = (if l_sem (links st4 ! i) = None then link_upd i (\<lambda>L. L\<lparr>l_sem := sem_create E (ITS_MAX_POOL + i)\<rparr>) st4 else st4)"
    "r = - 1 \<or> r = int i"
    using assms unfolding linkFill_def Let_def st1_def [symmetric] a b prod.case
    unfolding bind_eq_Some_conv by (elim exE conjE) (simp only: option.inject prod.inject, metis)
  have m: "connTable st1 = connTable st" "next_slot st1 = next_slot st" "pool_marks st1 = pool_marks st"
    "link_marks st1 = (link_marks st)[i := True]"
    by (simp_all add: st1_def marks_upd its_sel)
  have "same_tables st1 st2" "same_tables st2 st3" by (rule heap_malloc_pair [OF a], rule heap_malloc_pair [OF b])
  moreover have "same_tables st3 st4"
    using c by (auto split: if_splits intro: same_tables_upd heap_free2_keeps)
  moreover have "same_tables st4 st'" using d(1) by (simp add: same_tables_upd)
  ultimately have "same_tables st1 st'" by (blast intro: same_tables_trans)
  with m d(2) show ?thesis by (simp add: same_tables_def)
qed

text \<open>What an acquisition returns: nothing, or an index no connection refers to.\<close>

lemma exclusive_claim:
  assumes "exclusive M used" "i < length used" "\<not> used ! i"
  shows "exclusive M (used[i := True])" "int i \<notin># M"
proof -
  show n: "int i \<notin># M" using assms by (auto simp: exclusive_def)
  show "exclusive M (used[i := True])" using exclusive_mark [OF assms(1) _ n, of True] by simp
qed

definition fresh_mark :: "int multiset \<Rightarrow> bool list \<Rightarrow> int \<Rightarrow> bool" where
  "fresh_mark M used r \<longleftrightarrow> r = - 1 \<or> (\<exists>i. r = int i \<and> i < length used \<and> used ! i \<and> int i \<notin># M)"

lemma claimed_fresh:
  assumes "exclusive M used" "i < length used" "\<not> used ! i" "r = - 1 \<or> r = int i"
  shows "exclusive M (used[i := True]) \<and> fresh_mark M (used[i := True]) r"
  using exclusive_claim [OF assms(1-3)] assms(2,4) by (auto simp: fresh_mark_def)

lemma appended_fresh:
  assumes "exclusive M used" "r = - 1 \<or> r = int (length used)"
  shows "exclusive M ((used @ [False])[length used := True]) \<and> fresh_mark M ((used @ [False])[length used := True]) r"
  using claimed_fresh [OF exclusive_grow [OF assms(1), of "[False]"], of "length used" r] assms(2) by simp

lemma find_upt:
  assumes "find P [0..<n] = Some i"
  shows "i < n" "P i"
  using assms by (auto simp: find_Some_iff)

lemma poolGet_fresh:
  assumes inv: "its_inv st" and run: "poolGet E sz np st = Some (r, st')"
  shows "its_inv st'" "connTable st' = connTable st" "fresh_mark (owned conn_pools (connTable st)) (pool_marks st') r"
proof -
  let ?M = "owned conn_pools (connTable st)" and ?u = "pool_marks st" and ?n = "length (itsPool st)"
  note inv' = inv [unfolded its_inv_def tables_ok_def]
  have ex: "exclusive ?M ?u" using inv' by simp
  have len: "length ?u = ?n" "\<And>i. i < ?n \<Longrightarrow> ?u ! i = p_inUse (itsPool st ! i)" by (simp_all add: pool_marks_def)
  have "connTable st' = connTable st \<and> next_slot st' = next_slot st \<and> link_marks st' = link_marks st
      \<and> length (pool_marks st') \<le> ITS_MAX_POOL \<and> exclusive ?M (pool_marks st') \<and> fresh_mark ?M (pool_marks st') r"
  proof (cases "sz = 0")
    case True
    with run inv' ex show ?thesis by (auto simp: poolGet_def fresh_mark_def)
  next
    case sz: False
    show ?thesis
    proof (cases "if np then None else find (\<lambda>i. poolReusable sz (itsPool st ! i)) [0..<?n]")
      case (Some i)
      then have i: "i < ?n" "\<not> p_inUse (itsPool st ! i)"
        using find_upt [of "\<lambda>i. poolReusable sz (itsPool st ! i)" ?n i] by (auto simp: poolReusable_def split: if_splits)
      have "connTable st' = connTable st" "next_slot st' = next_slot st" "link_marks st' = link_marks st"
        "pool_marks st' = ?u[i := True]" "r = int i"
        using run sz Some by (auto simp: poolGet_def Let_def marks_upd pool_upd_def [of i])
          (simp_all add: pool_marks_def link_marks_def links_def map_update)
      then show ?thesis using claimed_fresh [OF ex, of i r] i len inv' by simp
    next
      case reuse: None
      show ?thesis
      proof (cases "find (\<lambda>i. poolReclaimable (itsPool st ! i)) [0..<?n]")
        case (Some i)
        then have i: "i < ?n" "\<not> p_inUse (itsPool st ! i)"
          using find_upt [OF Some] by (simp_all add: poolReclaimable_def)
        have "poolFill E sz np i st = Some (r, st')" using run sz reuse Some by (simp add: poolGet_def Let_def)
        from poolFill_marks [OF this] show ?thesis using claimed_fresh [OF ex, of i r] i len inv' by auto
      next
        case None
        show ?thesis
        proof (cases "?n \<ge> ITS_MAX_POOL")
          case True
          with run sz reuse None inv' ex show ?thesis by (auto simp: poolGet_def Let_def fresh_mark_def)
        next
          case False
          let ?st0 = "st\<lparr>itsPool := itsPool st @ [blankPool]\<rparr>"
          have "poolFill E sz np ?n ?st0 = Some (r, st')" using run sz reuse None False by (simp add: poolGet_def Let_def)
          note f = poolFill_marks [OF this]
          have m: "pool_marks ?st0 = ?u @ [False]" "link_marks ?st0 = link_marks st"
            by (simp_all add: pool_marks_def link_marks_def links_def blankPool_def)
          have "r = - 1 \<or> r = int (length ?u)" using f len by simp
          from appended_fresh [OF ex this] f m len False show ?thesis by simp
        qed
      qed
    qed
  qed
  then show "its_inv st'" "connTable st' = connTable st" "fresh_mark ?M (pool_marks st') r"
    using inv' by (auto simp: its_inv_def tables_ok_def)
qed

lemma linkAcquire_fresh:
  assumes inv: "its_inv st" and run: "linkAcquire E d cap mx st = Some (r, st')"
  shows "its_inv st'" "connTable st' = connTable st" "fresh_mark (owned conn_links (connTable st)) (link_marks st') r"
proof -
  let ?M = "owned conn_links (connTable st)" and ?u = "link_marks st"
  define depth where "depth = (if d = 0 then 1 else d)"
  note inv' = inv [unfolded its_inv_def tables_ok_def]
  have ex: "exclusive ?M ?u" using inv' by simp
  obtain ls where ls: "itsLinks st = Some ls" using run by (cases "itsLinks st") (auto simp: linkAcquire_def)
  then have L: "links st = ls" by (simp add: links_def)
  have len: "length ?u = length ls" "\<And>i. i < length ls \<Longrightarrow> ?u ! i = l_inUse (ls ! i)" by (simp_all add: link_marks_def L)
  have "connTable st' = connTable st \<and> next_slot st' = next_slot st \<and> pool_marks st' = pool_marks st
      \<and> length (link_marks st') \<le> ITS_MAX_LINKS \<and> exclusive ?M (link_marks st') \<and> fresh_mark ?M (link_marks st') r"
  proof (cases "find (\<lambda>i. linkReusable depth (ls ! i)) [0..<length ls]")
    case (Some i)
    then have i: "i < length ls" "\<not> l_inUse (ls ! i)" using find_upt [OF Some] by (simp_all add: linkReusable_def)
    have "r = int i" "st' = link_upd i (\<lambda>L. L\<lparr>l_inUse := True, l_byteCap := cap, l_maxMsg := mx,
        l_freeNotify := 0, l_outstanding := 0, l_ring := map_option (sbReset (e_rtos E)) (l_ring L)\<rparr>) st"
      using run Some by (simp_all add: linkAcquire_def Let_def ls flip: depth_def)
    then show ?thesis using claimed_fresh [OF ex, of i r] i len inv' by (simp add: marks_upd its_sel)
  next
    case reuse: None
    show ?thesis
    proof (cases "find (\<lambda>i. linkReclaimable (ls ! i)) [0..<length ls]")
      case (Some i)
      then have i: "i < length ls" "\<not> l_inUse (ls ! i)" using find_upt [OF Some] by (simp_all add: linkReclaimable_def)
      have "linkFill E depth cap mx i st = Some (r, st')" using run reuse Some by (simp add: linkAcquire_def Let_def ls flip: depth_def)
      from linkFill_marks [OF this] show ?thesis using claimed_fresh [OF ex, of i r] i len inv' by auto
    next
      case None
      show ?thesis
      proof (cases "length ls \<ge> ITS_MAX_LINKS")
        case True
        with run reuse None inv' ex show ?thesis by (auto simp: linkAcquire_def Let_def ls fresh_mark_def simp flip: depth_def)
      next
        case False
        let ?st0 = "st\<lparr>itsLinks := Some (ls @ [blankLink])\<rparr>"
        have "linkFill E depth cap mx (length ls) ?st0 = Some (r, st')"
          using run reuse None False by (simp add: linkAcquire_def Let_def ls flip: depth_def)
        note f = linkFill_marks [OF this]
        have m: "link_marks ?st0 = ?u @ [False]" "pool_marks ?st0 = pool_marks st"
          by (simp_all add: pool_marks_def link_marks_def links_def ls blankLink_def)
        have "r = - 1 \<or> r = int (length ?u)" using f len by simp
        from appended_fresh [OF ex this] f m len False show ?thesis by simp
      qed
    qed
  qed
  then show "its_inv st'" "connTable st' = connTable st" "fresh_mark ?M (link_marks st') r"
    using inv' by (auto simp: its_inv_def tables_ok_def)
qed

subsection \<open>Changes of a connection\<close>

lemma conn_upd_sel [simp]:
  "connTable (conn_upd h f st) = (connTable st)[h := f (connTable st ! h)]"
  "pool_marks (conn_upd h f st) = pool_marks st"
  "link_marks (conn_upd h f st) = link_marks st" "tasks (conn_upd h f st) = tasks st" "heap (conn_upd h f st) = heap st"
  "links (conn_upd h f st) = links st" "itsPool (conn_upd h f st) = itsPool st"
  by (simp_all add: conn_upd_def pool_marks_def link_marks_def links_def tasks_def)

text \<open>Fields that are neither the mark nor a reference.\<close>

lemma conn_fields_evolve:
  assumes "\<And>c. conn_idx (f c) = conn_idx c" "\<And>c. c_active (f c) = c_active c"
  shows "evolves st (conn_upd h f st)"
proof -
  have p: "conn_pools (f c) = conn_pools c" "conn_links (f c) = conn_links c" "slot_ok (f c) = slot_ok c" "slot_used (f c) = slot_used c" for c
    using assms [of c] by (simp_all add: conn_pools_def conn_links_def conn_idx_def slot_ok_def slot_used_def)
  have "owned conn_pools ((connTable st)[h := f (connTable st ! h)]) = owned conn_pools (connTable st)"
    "owned conn_links ((connTable st)[h := f (connTable st ! h)]) = owned conn_links (connTable st)"
    unfolding owned_def by (simp_all only: map_upd_same [where g = conn_pools, OF p(1)] map_upd_same [where g = conn_links, OF p(2)])
  moreover have "list_all slot_ok xs = (False \<notin> set (map slot_ok xs))" for xs by (auto simp: list_all_iff)
  then have "list_all slot_ok ((connTable st)[h := f (connTable st ! h)]) = list_all slot_ok (connTable st)"
    by (simp only: map_upd_same [where g = slot_ok, OF p(3)])
  moreover have "slot_used ((connTable st)[h := f (connTable st ! h)] ! k) = slot_used (connTable st ! k)" for k
    using p(4) by (cases "k = h"; cases "h < length (connTable st)") (simp_all add: list_update_beyond)
  ultimately show ?thesis by (simp add: evolves_def its_inv_def tables_ok_def)
qed

text \<open>A fresh reference.\<close>

lemma fresh_exclusive:
  assumes "exclusive M used" "fresh_mark M used r"
  shows "exclusive ((if r \<ge> 0 then {#r#} else {#}) + M) used"
  using assms exclusive_add [OF assms(1)] by (auto simp: fresh_mark_def)

lemma assign_inv:
  assumes inv: "its_inv st" and h: "h < ITS_MAX_CONNS" and act: "c_active (f (connTable st ! h))"
    and p: "conn_pools (f (connTable st ! h)) = N + conn_pools (connTable st ! h)"
    and l: "conn_links (f (connTable st ! h)) = K + conn_links (connTable st ! h)"
    and N: "exclusive (N + owned conn_pools (connTable st)) (pool_marks st)"
    and K: "exclusive (K + owned conn_links (connTable st)) (link_marks st)"
  shows "its_inv (conn_upd h f st)"
proof -
  note inv' = inv [unfolded its_inv_def tables_ok_def]
  have hl: "h < length (connTable st)" using h inv' by simp
  have "owned conn_pools ((connTable st)[h := f (connTable st ! h)]) = N + owned conn_pools (connTable st)"
    "owned conn_links ((connTable st)[h := f (connTable st ! h)]) = K + owned conn_links (connTable st)"
    using owned_update [OF hl, of conn_pools "f (connTable st ! h)"] owned_update [OF hl, of conn_links "f (connTable st ! h)"]
    unfolding p l by (simp_all add: union_ac)
  moreover have "list_all slot_ok ((connTable st)[h := f (connTable st ! h)])"
    using inv' act by (auto simp: list_all_iff slot_ok_def slot_used_def dest!: set_update_subset_insert [THEN subsetD])
  ultimately show ?thesis using inv' N K by (simp add: its_inv_def tables_ok_def)
qed

lemma connAlloc_inv:
  assumes inv: "its_inv st" and run: "connAlloc st = (r, st')"
  shows "evolves st st'" "r \<ge> 0 \<Longrightarrow> r < int ITS_MAX_CONNS \<and> c_active (connTable st' ! nat r)
      \<and> conn_idx (connTable st' ! nat r) = [- 1, - 1, - 1, - 1]"
proof -
  note inv' = inv [unfolded its_inv_def tables_ok_def]
  have "evolves st st' \<and> (r \<ge> 0 \<longrightarrow> r < int ITS_MAX_CONNS \<and> c_active (connTable st' ! nat r)
      \<and> conn_idx (connTable st' ! nat r) = [- 1, - 1, - 1, - 1])"
  proof (cases "find (\<lambda>idx. \<not> c_active (connTable st ! idx))
             (map (\<lambda>i. (connCounter st + i) mod ITS_MAX_CONNS) [0..<ITS_MAX_CONNS])")
    case None
    with run show ?thesis by (auto simp: connAlloc_def)
  next
    case (Some h)
    define d where "d = blankConn\<lparr>c_active := True, c_toPoolIdx := - 1, c_fromPoolIdx := - 1,
              c_toLinkIdx := - 1, c_fromLinkIdx := - 1, c_clientRef := - 1, c_serverRef := - 1\<rparr>"
    have r: "r = int h" "st' = (conn_upd h (\<lambda>_. d) st)\<lparr>connCounter := (h + 1) mod ITS_MAX_CONNS\<rparr>"
      using run Some by (simp_all add: connAlloc_def d_def)
    have hd: "\<not> c_active (connTable st ! h)" "h < ITS_MAX_CONNS"
      using Some by (auto simp: find_Some_iff ITS_MAX_CONNS_def)
    have d: "conn_pools d = {#}" "conn_links d = {#}" "c_active d" "conn_idx d = [- 1, - 1, - 1, - 1]"
      by (simp_all add: d_def conn_pools_def conn_links_def conn_idx_def)
    have "its_inv (conn_upd h (\<lambda>_. d) st)"
      by (rule assign_inv [where N = "{#}" and K = "{#}"])
        (use inv inv' hd d in \<open>simp_all add: conn_pools_def [of "connTable st ! h"] conn_links_def [of "connTable st ! h"]\<close>)
    then have "its_inv st'" using r(2) inv'
      by (simp add: its_inv_def tables_ok_def pool_marks_def link_marks_def links_def ITS_MAX_CONNS_def next_slot_def split: if_splits)
    moreover have "connTable st' = (connTable st)[h := d]" using r(2) by simp
    ultimately show ?thesis using r(1) d hd inv' by (auto simp: evolves_def nth_list_update slot_used_def)
  qed
  then show "evolves st st'" "r \<ge> 0 \<Longrightarrow> r < int ITS_MAX_CONNS \<and> c_active (connTable st' ! nat r)
      \<and> conn_idx (connTable st' ! nat r) = [- 1, - 1, - 1, - 1]" by simp_all
qed

subsection \<open>Connects\<close>

text \<open>An active connection under construction: \<open>st'\<close> has it active still.\<close>

definition building :: "nat \<Rightarrow> ('b, 'q) its_state \<Rightarrow> ('b, 'q) its_state \<Rightarrow> bool" where
  "building h st st' \<longleftrightarrow> evolves st st' \<and> (its_inv st \<longrightarrow> c_active (connTable st ! h) \<longrightarrow> c_active (connTable st' ! h))"

lemma building_refl [simp]: "building h st st"
  by (simp add: building_def)

lemma building_trans: "building h a b \<Longrightarrow> building h b c \<Longrightarrow> building h a c"
  unfolding building_def using evolves_trans by (auto simp: evolves_def)

lemma inv_length: "its_inv st \<Longrightarrow> length (connTable st) = ITS_MAX_CONNS"
  by (simp add: its_inv_def tables_ok_def)

lemma assigned_building:
  assumes h: "h < ITS_MAX_CONNS" and same: "connTable st1 = connTable st" and inv1: "its_inv st \<Longrightarrow> its_inv st1"
    and act: "c_active (f (connTable st ! h))"
    and inv2: "its_inv st \<Longrightarrow> its_inv st1 \<Longrightarrow> its_inv (conn_upd h f st1)"
  shows "building h st (conn_upd h f st1)"
proof -
  have "slot_used (connTable (conn_upd h f st1) ! k)" if "its_inv st" "slot_used (connTable st ! k)" for k
  proof (cases "k = h")
    case True
    with that(1) inv1 [OF that(1)] act h same inv_length [OF that(1)] show ?thesis by (simp add: slot_used_def)
  qed (use that same in simp)
  then show ?thesis unfolding building_def evolves_def
    using inv1 inv2 act h same by (auto simp: inv_length)
qed

lemma acquire_link:
  assumes h: "h < ITS_MAX_CONNS" and act: "c_active (connTable st ! h)"
    and run: "linkAcquire E d cap mx st = Some (r, st1)"
    and f: "conn_links (f (connTable st ! h)) = (if r \<ge> 0 then {#r#} else {#}) + conn_links (connTable st ! h)"
      "conn_pools (f (connTable st ! h)) = conn_pools (connTable st ! h)" "c_active (f (connTable st ! h))"
    and inv: "its_inv st"
  shows "building h st (conn_upd h f st1)" "connTable st1 = connTable st"
proof -
  note L = linkAcquire_fresh [OF inv run]
  have inv2: "its_inv (conn_upd h f st1)"
  proof (rule assign_inv [where N = "{#}" and K = "if r \<ge> 0 then {#r#} else {#}"])
    show "exclusive ((if r \<ge> 0 then {#r#} else {#}) + owned conn_links (connTable st1)) (link_marks st1)"
      by (rule fresh_exclusive) (use L in \<open>simp_all add: its_inv_def tables_ok_def\<close>)
    show "exclusive ({#} + owned conn_pools (connTable st1)) (pool_marks st1)"
      using L(1) by (simp add: its_inv_def tables_ok_def)
  qed (use L h f in simp_all)
  show "connTable st1 = connTable st" by (rule L(2))
  show "building h st (conn_upd h f st1)"
    by (rule assigned_building) (use L h f(3) inv2 in simp_all)
qed

lemma acquire_pool:
  assumes h: "h < ITS_MAX_CONNS" and act: "c_active (connTable st ! h)"
    and run: "poolGet E sz np st = Some (r, st1)"
    and f: "conn_pools (f (connTable st ! h)) = (if r \<ge> 0 then {#r#} else {#}) + conn_pools (connTable st ! h)"
      "conn_links (f (connTable st ! h)) = conn_links (connTable st ! h)" "c_active (f (connTable st ! h))"
    and inv: "its_inv st"
  shows "building h st (conn_upd h f st1)" "connTable st1 = connTable st"
proof -
  note L = poolGet_fresh [OF inv run]
  have inv2: "its_inv (conn_upd h f st1)"
  proof (rule assign_inv [where N = "if r \<ge> 0 then {#r#} else {#}" and K = "{#}"])
    show "exclusive ((if r \<ge> 0 then {#r#} else {#}) + owned conn_pools (connTable st1)) (pool_marks st1)"
      by (rule fresh_exclusive) (use L in \<open>simp_all add: its_inv_def tables_ok_def\<close>)
    show "exclusive ({#} + owned conn_links (connTable st1)) (link_marks st1)"
      using L(1) by (simp add: its_inv_def tables_ok_def)
  qed (use L h f in simp_all)
  show "connTable st1 = connTable st" by (rule L(2))
  show "building h st (conn_upd h f st1)"
    by (rule assigned_building) (use L h f(3) inv2 in simp_all)
qed

text \<open>The two directions, rings or stream buffers.\<close>

definition raw_conn :: "nat \<Rightarrow> ('b, 'q) its_state \<Rightarrow> bool" where
  "raw_conn h st \<longleftrightarrow> its_inv st \<and> h < ITS_MAX_CONNS \<and> c_active (connTable st ! h)
     \<and> conn_idx (connTable st ! h) = [- 1, - 1, - 1, - 1]"

lemma connectLinks_building:
  assumes raw: "raw_conn h st" and run: "connectLinks E sp h st = Some r"
  shows "building h st (snd r)"
proof -
  note raw' = raw [unfolded raw_conn_def conn_idx_def]
  have hl: "h < length (connTable st)" using raw' by (simp add: inv_length)
  define st1 where "st1 = (if sp_toSize sp > 0
      then case linkAcquire E (sp_depth sp) (sp_toSize sp) (sp_maxMsg sp) st of
             Some (i, s) \<Rightarrow> conn_upd h (\<lambda>c. c\<lparr>c_toLinkIdx := i\<rparr>) s | None \<Rightarrow> st
      else st)"
  have b1: "building h st st1 \<and> c_fromLinkIdx (connTable st1 ! h) = - 1"
  proof (cases "sp_toSize sp > 0")
    case True
    then obtain i s where a: "linkAcquire E (sp_depth sp) (sp_toSize sp) (sp_maxMsg sp) st = Some (i, s)"
      using run by (auto simp: connectLinks_def bind_eq_Some_conv split: if_splits)
    have "building h st (conn_upd h (\<lambda>c. c\<lparr>c_toLinkIdx := i\<rparr>) s)" "connTable s = connTable st"
      by (rule acquire_link [where h = h and f = "\<lambda>c. c\<lparr>c_toLinkIdx := i\<rparr>", OF _ _ a]; use raw' in \<open>simp add: conn_links_def conn_pools_def\<close>)+
    with True a raw' hl show ?thesis by (simp add: st1_def)
  qed (use raw' in \<open>simp add: st1_def\<close>)
  show ?thesis
  proof (cases "snd r = st1")
    case True
    with b1 show ?thesis by simp
  next
    case False
    then obtain i s where a: "linkAcquire E (sp_depth sp) (sp_fromSize sp) (sp_maxMsg sp) st1 = Some (i, s)"
      and r: "snd r = conn_upd h (\<lambda>c. c\<lparr>c_fromLinkIdx := i\<rparr>) s"
      using run by (auto simp: connectLinks_def bind_eq_Some_conv st1_def split: if_splits)
    have act: "its_inv st1" "c_active (connTable st1 ! h)" using b1 raw' by (auto simp: building_def evolves_def)
    have "building h st1 (conn_upd h (\<lambda>c. c\<lparr>c_fromLinkIdx := i\<rparr>) s)"
      by (rule acquire_link(1) [OF _ _ a]; use raw' act b1 in \<open>simp add: conn_links_def conn_pools_def\<close>)
    with b1 r show ?thesis using building_trans by metis
  qed
qed

lemma connectPools_building:
  assumes raw: "raw_conn h st" and run: "connectPools E sp np h st = Some r"
  shows "building h st (snd r)"
proof -
  note raw' = raw [unfolded raw_conn_def conn_idx_def]
  have hl: "h < length (connTable st)" using raw' by (simp add: inv_length)
  define st1 where "st1 = (if sp_toSize sp > 0
      then case poolGet E (unat (sp_toSize sp)) np st of
             Some (i, s) \<Rightarrow> conn_upd h (\<lambda>c. c\<lparr>c_toPoolIdx := i\<rparr>) s | None \<Rightarrow> st
      else st)"
  have b1: "building h st st1 \<and> c_fromPoolIdx (connTable st1 ! h) = - 1"
  proof (cases "sp_toSize sp > 0")
    case True
    then obtain i s where a: "poolGet E (unat (sp_toSize sp)) np st = Some (i, s)"
      using run by (auto simp: connectPools_def bind_eq_Some_conv split: if_splits)
    have "building h st (conn_upd h (\<lambda>c. c\<lparr>c_toPoolIdx := i\<rparr>) s)" "connTable s = connTable st"
      by (rule acquire_pool [where h = h and f = "\<lambda>c. c\<lparr>c_toPoolIdx := i\<rparr>", OF _ _ a]; use raw' in \<open>simp add: conn_links_def conn_pools_def\<close>)+
    with True a raw' hl show ?thesis by (simp add: st1_def)
  qed (use raw' in \<open>simp add: st1_def\<close>)
  show ?thesis
  proof (cases "snd r = st1")
    case True
    with b1 show ?thesis by simp
  next
    case False
    then obtain i s where a: "poolGet E (unat (sp_fromSize sp)) np st1 = Some (i, s)"
      and r: "snd r = conn_upd h (\<lambda>c. c\<lparr>c_fromPoolIdx := i\<rparr>) s"
      using run by (auto simp: connectPools_def bind_eq_Some_conv st1_def split: if_splits)
    have act: "its_inv st1" "c_active (connTable st1 ! h)" using b1 raw' by (auto simp: building_def evolves_def)
    have "building h st1 (conn_upd h (\<lambda>c. c\<lparr>c_fromPoolIdx := i\<rparr>) s)"
      by (rule acquire_pool(1) [OF _ _ a]; use raw' act b1 in \<open>simp add: conn_links_def conn_pools_def\<close>)
    with b1 r show ?thesis using building_trans by metis
  qed
qed

text \<open>What is assumed of the other tasks and of the callbacks.\<close>

definition env_ok :: "('b, 'q) its_env \<Rightarrow> bool" where
  "env_ok E \<longleftrightarrow>
     (\<forall>n st. evolves st (e_others E n st))
     \<and> (\<forall>cb h p l st r. e_onConnect E cb h p l st = Some r \<longrightarrow> evolves st (snd r))
     \<and> (\<forall>cb d l st r. e_onBusy E cb d l st = Some r \<longrightarrow> evolves st (snd r))
     \<and> (\<forall>cb ref st st'. e_onDisconnect E cb ref st = Some st' \<longrightarrow> evolves st st')
     \<and> (\<forall>cb h n st st'. e_onRecv E cb h n st = Some st' \<longrightarrow> evolves st st')
     \<and> (\<forall>cb t p l st st'. e_onAux E cb t p l st = Some st' \<longrightarrow> evolves st st')
     \<and> (\<forall>f st st'. e_spawn E f st = Some st' \<longrightarrow> evolves st st')"

lemma env_okD:
  assumes "env_ok E"
  shows "evolves st (e_others E n st)"
    "e_onConnect E cb h p l st = Some r \<Longrightarrow> evolves st (snd r)"
    "e_onBusy E cb d l st = Some r' \<Longrightarrow> evolves st (snd r')"
    "e_onDisconnect E cb ref st = Some st' \<Longrightarrow> evolves st st'"
    "e_onRecv E cb h k st = Some st' \<Longrightarrow> evolves st st'"
    "e_onAux E cb t p l st = Some st' \<Longrightarrow> evolves st st'"
    "e_spawn E f st = Some st' \<Longrightarrow> evolves st st'"
  using assms by (cases r; cases r'; auto simp: env_ok_def)+

lemma blocked_evolves: "env_ok E \<Longrightarrow> evolves st (blocked E st)"
  unfolding blocked_def
  using evolves_trans [OF same_tables_evolves [OF same_tables_fields(8)] env_okD(1)] by blast

lemma raw_fields:
  assumes "raw_conn h st" "\<And>c. conn_idx (f c) = conn_idx c" "\<And>c. c_active (f c) = c_active c"
  shows "raw_conn h (conn_upd h f st)"
proof -
  have "evolves st (conn_upd h f st)" by (rule conn_fields_evolve) (use assms in auto)
  then show ?thesis using assms by (auto simp: raw_conn_def evolves_def inv_length)
qed

lemma connectOpen_evolves:
  assumes E: "env_ok E" and raw: "raw_conn h st" and run: "connectOpen E ti sp m h st = Some r"
  shows "evolves st (snd r)"
proof -
  let ?f = "\<lambda>c. c\<lparr>c_clientTask := m_sender m, c_serverTask := t_task (tasks st ! ti), c_itsPort := m_port m,
                  c_connectNonce := m_nonce m, c_kind := sp_kind sp, c_packetBased := sp_packetBased sp,
                  c_noPool := t_no_pool (tasks st ! ti)\<rparr>"
  define st1 where "st1 = conn_upd h ?f st"
  have e1: "evolves st st1" unfolding st1_def by (rule conn_fields_evolve) (simp_all add: conn_idx_def)
  have raw1: "raw_conn h st1" unfolding st1_def by (rule raw_fields [OF raw]) (simp_all add: conn_idx_def)
  obtain q a where q: "(if sp_kind sp = ITS_PACKET then connectLinks E sp h st1
        else connectPools E sp (t_no_pool (tasks st ! ti)) h st1) = Some q"
    and a: "(if \<not> fst q then Some (False, snd q)
             else if sp_onConnect sp = 0 then Some (True, snd q)
             else do {
               x \<leftarrow> e_onConnect E (sp_onConnect sp) (int h) (m_payload m) (m_len m) (snd q);
               Some (fst x \<ge> 0, if fst x \<ge> 0 then conn_upd h (\<lambda>c. c\<lparr>c_serverRef := int8 (fst x)\<rparr>) (snd x) else snd x) }) = Some a"
    and r: "(if fst a then Some a else do { st2 \<leftarrow> connFree E (int h) (snd a); Some (False, st2) }) = Some r"
    using run unfolding connectOpen_def Let_def st1_def [symmetric] bind_eq_Some_conv by blast
  have b: "building h st1 (snd q)"
    using q connectLinks_building [OF raw1] connectPools_building [OF raw1] by (auto split: if_splits)
  have ref: "evolves s (conn_upd h (\<lambda>c. c\<lparr>c_serverRef := n\<rparr>) s)" for n and s :: "('a, 'b) its_state"
    by (rule conn_fields_evolve) (simp_all add: conn_idx_def)
  have ea: "evolves (snd q) (snd a)"
    using a by (auto simp: bind_eq_Some_conv split: if_splits dest!: env_okD(2) [OF E] intro: evolves_trans [OF _ ref])
  have act: "its_inv (snd q)" "c_active (connTable (snd q) ! h)" "h < ITS_MAX_CONNS"
    using b raw1 by (auto simp: building_def evolves_def raw_conn_def)
  have used: "slot_used (connTable (snd a) ! nat (int h))"
    using ea act by (simp add: evolves_def slot_used_def)
  have "evolves (snd a) (snd r)"
    using r connFree_evolves [OF used] by (auto simp: bind_eq_Some_conv split: if_splits)
  with e1 b ea show ?thesis by (auto simp: building_def intro: evolves_trans)
qed

lemma keeps_evolve: "same_tables st st' \<Longrightarrow> evolves st0 st \<Longrightarrow> evolves st0 st'"
  by (rule evolves_trans [OF _ same_tables_evolves])

lemma ack_client_keeps [keeps]: "same_tables st (ack_client cli h n st)"
  by (simp add: ack_client_def keeps split: option.split)

lemma procConnect_evolves:
  assumes E: "env_ok E" and run: "procConnect E ti m st = Some st'"
  shows "evolves st st'"
proof (cases "portFind (tasks st ! ti) (m_port m)")
  case None
  with run show ?thesis by (auto simp: procConnect_def intro: same_tables_evolves ack_client_keeps)
next
  case (Some pi)
  let ?full = "portFull ti pi (m_port m)"
  obtain b where b: "(if ?full st \<and> sp_onBusy (portAt ti pi st) \<noteq> 0
                 then do {
                   r \<leftarrow> e_onBusy E (sp_onBusy (portAt ti pi st)) (heap st (m_payload m)) (m_len m) st;
                   Some (if \<not> fst r then ?full (snd r) else True, snd r) }
                 else Some (?full st, st)) = Some b"
    and rest: "(let st1 = snd b; cli = taskFind (m_sender m) st1;
         (handle, st2) = (if \<not> fst b \<and> cli \<noteq> None then connAlloc st1 else (- 1, st1)) in
      do {
        a \<leftarrow> (if handle \<ge> 0 then connectOpen E ti (portAt ti pi st2) m (nat handle) st2 else Some (False, st2));
        Some (ack_client cli (if fst a then handle else - 1) (m_nonce m) (snd a))
      }) = Some st'"
    using run Some unfolding procConnect_def by (auto simp: bind_eq_Some_conv Let_def)
  have eb: "evolves st (snd b)"
    using b by (auto simp: bind_eq_Some_conv split: if_splits dest!: env_okD(3) [OF E])
  obtain handle st2 where h: "(if \<not> fst b \<and> taskFind (m_sender m) (snd b) \<noteq> None then connAlloc (snd b) else (- 1, snd b)) = (handle, st2)"
    by fastforce
  from rest h obtain a where a: "(if handle \<ge> 0 then connectOpen E ti (portAt ti pi st2) m (nat handle) st2 else Some (False, st2)) = Some a"
    and st': "same_tables (snd a) st'"
    by (auto simp: Let_def bind_eq_Some_conv ack_client_keeps)
  show ?thesis
  proof (cases "its_inv st")
    case inv: True
    then have invb: "its_inv (snd b)" using eb by (simp add: evolves_def)
    have "evolves (snd b) (snd a)"
    proof (cases "handle \<ge> 0")
      case True
      then have al: "connAlloc (snd b) = (handle, st2)" using h by (auto split: if_splits)
      note A = connAlloc_inv [OF invb al]
      then have raw: "raw_conn (nat handle) st2" using True invb by (auto simp: raw_conn_def evolves_def)
      from connectOpen_evolves [OF E raw] a True have "evolves st2 (snd a)" by simp
      with A(1) show ?thesis by (rule evolves_trans)
    next
      case False
      with a have "snd a = st2" by auto
      moreover from h False have "st2 = snd b \<or> connAlloc (snd b) = (handle, st2)" by (auto split: if_splits)
      ultimately show ?thesis using connAlloc_inv(1) [OF invb] by auto
    qed
    with eb st' show ?thesis using evolves_trans keeps_evolve by blast
  qed (simp add: evolves_def)
qed

subsection \<open>Mailboxes and disconnects\<close>

lemma inboxEnqueue_evolves:
  assumes "env_ok E" "inboxEnqueue E ti m t st = (ok, st')"
  shows "evolves st st'"
proof -
  have "inboxPut E ti m s = Some s' \<Longrightarrow> evolves s s'" for s s'
    by (rule same_tables_evolves [OF inboxPut_keeps])
  with assms(2) blocked_evolves [OF assms(1), of st] show ?thesis
    by (auto simp: inboxEnqueue_def Let_def split: if_splits option.splits intro: evolves_trans)
qed

lemma disc_notify_evolves:
  assumes E: "env_ok E" and run: "disc_notify E kind me h port ref cb peer st = Some r"
  shows "evolves st (snd r)"
proof (cases "taskFind peer st")
  case None
  with run show ?thesis by (auto simp: disc_notify_def)
next
  case (Some pi)
  obtain mo st1 where m: "msgAlloc E st = (mo, st1)" by fastforce
  have e1: "evolves st st1" using msgAlloc_keeps [of st E] m by (simp add: same_tables_evolves)
  show ?thesis
  proof (cases mo)
    case None
    with run Some m e1 show ?thesis by (auto simp: disc_notify_def)
  next
    case (Some m0)
    obtain ok st2 where q: "inboxEnqueue E pi (disc_msg kind me h port ref cb m0) (e_ms E 100) st1 = (ok, st2)" by fastforce
    have e2: "evolves st st2" by (rule evolves_trans [OF e1 inboxEnqueue_evolves [OF E q]])
    note run' = run [unfolded disc_notify_def \<open>taskFind peer st = Some pi\<close> m Some option.case prod.case Let_def q]
    show ?thesis
    proof (cases ok)
      case True
      with run' e2 show ?thesis by auto
    next
      case False
      with run' obtain st3 where "msgFree (disc_msg kind me h port ref cb m0) st2 = Some st3" "r = (False, st3)"
        by (auto simp: bind_eq_Some_conv)
      with e2 show ?thesis using keeps_evolve [OF msgFree_keeps] by simp
    qed
  qed
qed

lemma poolRetainOnFree_keeps [keeps]: "same_tables st (poolRetainOnFree i st)"
  by (simp add: poolRetainOnFree_def same_tables_upd)

lemma disconnect_end_evolves:
  assumes E: "env_ok E" and h: "h < int ITS_MAX_CONNS" and used: "slot_used (connTable st ! nat h)"
    and run: "disconnect_end E kind me h c ref cb peer st = Some st'"
  shows "evolves st st'"
proof (cases "its_inv st")
  case inv: True
  let ?np = "c_noPool c \<and> c_kind c \<noteq> ITS_PACKET"
  obtain st1 r where s1: "(if \<not> ?np then connFree E h st else Some st) = Some st1"
    and r: "disc_notify E kind me h (c_itsPort c) ref cb peer st1 = Some r"
    and s': "(if ?np \<and> \<not> fst r
        then connFree E h (poolRetainOnFree (c_fromPoolIdx c) (poolRetainOnFree (c_toPoolIdx c) (snd r)))
        else Some (snd r)) = Some st'"
    using run unfolding disconnect_end_def Let_def bind_eq_Some_conv by blast
  have e1: "evolves st st1" using s1 connFree_evolves [OF used] by (auto split: if_splits)
  have e2: "evolves st (snd r)" by (rule evolves_trans [OF e1 disc_notify_evolves [OF E r]])
  let ?s = "poolRetainOnFree (c_fromPoolIdx c) (poolRetainOnFree (c_toPoolIdx c) (snd r))"
  have e3: "evolves st ?s" by (rule keeps_evolve [OF poolRetainOnFree_keeps keeps_evolve [OF poolRetainOnFree_keeps e2]])
  have used3: "slot_used (connTable ?s ! nat h)"
    using e3 inv used h by (simp add: evolves_def ITS_MAX_CONNS_def)
  show ?thesis using s' e2 evolves_trans [OF e3 connFree_evolves [OF used3]] by (auto split: if_splits)
qed (simp add: evolves_def)

lemma conn_used:
  assumes "conn h st = Some c"
  shows "0 \<le> h" "h < int ITS_MAX_CONNS" "slot_used (connTable st ! nat h)" "connTable st ! nat h = c" "c_active c"
  using assms by (auto simp: conn_def Let_def slot_used_def split: if_splits)

lemma itsDisconnect1_evolves:
  assumes E: "env_ok E" and run: "itsDisconnect1 E me h st = Some st'"
  shows "evolves st st'"
proof (cases "conn h st")
  case None
  with run show ?thesis by (simp add: itsDisconnect1_def)
next
  case (Some c)
  with run disconnect_end_evolves [OF E conn_used(2) [OF Some] conn_used(3) [OF Some]] show ?thesis
    by (auto simp: itsDisconnect1_def split: if_splits)
qed

lemma disconnectWhere_evolves:
  assumes E: "env_ok E" and run: "disconnectWhere E me P is st = Some st'"
  shows "evolves st st'"
  using run
proof (induction "is" arbitrary: st)
  case (Cons i "is")
  then obtain st1 where "(if c_active (connTable st ! i) \<and> P (connTable st ! i) then itsDisconnect1 E me (int i) st else Some st) = Some st1"
    "disconnectWhere E me P is st1 = Some st'" by (auto simp: bind_eq_Some_conv)
  then have "evolves st st1" "evolves st1 st'"
    using Cons.IH itsDisconnect1_evolves [OF E] by (auto split: if_splits)
  then show ?case by (rule evolves_trans)
qed simp

lemma itsDisconnect_evolves:
  assumes "env_ok E" "itsDisconnect E me h st = Some st'"
  shows "evolves st st'"
  using assms disconnectWhere_evolves itsDisconnect1_evolves by (auto simp: itsDisconnect_def split: if_splits)

subsection \<open>Dispatch\<close>

lemma tell_disconnect_evolves:
  "env_ok E \<Longrightarrow> tell_disconnect E ti port ref st = Some st' \<Longrightarrow> evolves st st'"
  by (auto simp: tell_disconnect_def Let_def split: option.splits if_splits dest: env_okD(4))

lemma client_cb_evolves: "env_ok E \<Longrightarrow> client_cb E cb ref st = Some st' \<Longrightarrow> evolves st st'"
  by (auto simp: client_cb_def split: if_splits dest: env_okD(4))

lemma procCancel_evolves:
  assumes E: "env_ok E" and run: "procCancel E ti m st = Some st'"
  shows "evolves st st'"
proof (cases "find (\<lambda>h. cancels (t_task (tasks st ! ti)) m (connTable st ! h)) [0..<ITS_MAX_CONNS]")
  case None
  with run show ?thesis by (simp add: procCancel_def)
next
  case (Some h)
  then have "slot_used (connTable st ! nat (int h))" using find_upt(2) [OF Some] by (simp add: cancels_def slot_used_def)
  moreover obtain st1 where "connFree E (int h) st = Some st1"
    "tell_disconnect E ti (c_itsPort (connTable st ! h)) (c_serverRef (connTable st ! h)) st1 = Some st'"
    using run Some by (auto simp: procCancel_def bind_eq_Some_conv)
  ultimately show ?thesis using connFree_evolves tell_disconnect_evolves [OF E] evolves_trans by blast
qed

lemma procDisc_evolves:
  assumes E: "env_ok E"
  shows "procDiscFromClient E ti m st = Some st' \<Longrightarrow> evolves st st'"
    "procDiscFromServer E ti m st = Some st' \<Longrightarrow> evolves st st'"
proof -
  have free: "evolves st s" if "conn (m_handle m) st = Some c" "connFree E (m_handle m) st = Some s" for c s
    by (rule connFree_evolves [OF conn_used(3) [OF that(1)] that(2)])
  show "procDiscFromClient E ti m st = Some st' \<Longrightarrow> evolves st st'"
    by (auto simp: procDiscFromClient_def bind_eq_Some_conv split: option.splits if_splits
        dest!: tell_disconnect_evolves [OF E] intro: evolves_trans [OF free])
  show "procDiscFromServer E ti m st = Some st' \<Longrightarrow> evolves st st'"
    by (auto simp: procDiscFromServer_def bind_eq_Some_conv split: option.splits if_splits
        dest!: client_cb_evolves [OF E] intro: evolves_trans [OF free])
qed

lemma procForward_evolves:
  assumes E: "env_ok E" and run: "procForward E ti m st = Some st'"
  shows "evolves st st'"
proof -
  let ?me = "t_task (tasks st ! ti)" and ?h = "m_handle m"
  have f: "evolves st (conn_upd (nat ?h) (\<lambda>c. c\<lparr>c_kind := k, c_packetBased := p\<rparr>) st)" for k p
    by (rule conn_fields_evolve) (simp_all add: conn_idx_def)
  have d: "itsDisconnect E ?me ?h s = Some s' \<Longrightarrow> evolves s s'" for s s'
    by (rule itsDisconnect_evolves [OF E])
  show ?thesis
  proof (cases "\<exists>c. conn ?h st = Some c \<and> c_serverTask c = ?me")
    case False
    with run show ?thesis by (auto simp: procForward_def Let_def split: option.splits if_splits)
  next
    case True
    then obtain c where c: "conn ?h st = Some c" "c_serverTask c = ?me" by blast
    note run' = run [unfolded procForward_def Let_def c option.case]
    show ?thesis
    proof (cases "portFind (tasks st ! ti) (m_port m)")
      case None
      with run' d show ?thesis by simp
    next
      case (Some pi)
      let ?sp = "portAt ti pi st"
      let ?st1 = "conn_upd (nat ?h) (\<lambda>c. c\<lparr>c_kind := sp_kind ?sp, c_packetBased := sp_packetBased ?sp\<rparr>) st"
      show ?thesis
      proof (cases "sp_onConnect ?sp = 0")
        case True
        with run' Some f show ?thesis by auto
      next
        case False
        with run' Some obtain x where x: "e_onConnect E (sp_onConnect ?sp) ?h (m_payload m) (m_len m) ?st1 = Some x"
          "st' = snd x \<or> itsDisconnect E ?me ?h (snd x) = Some st'"
          by (auto simp: bind_eq_Some_conv split: if_splits)
        have "evolves st (snd x)" by (rule evolves_trans [OF f env_okD(2) [OF E x(1)]])
        with x(2) d show ?thesis using evolves_trans by blast
      qed
    qed
  qed
qed

lemma procAux_evolves: "env_ok E \<Longrightarrow> procAux E ti m st = Some st' \<Longrightarrow> evolves st st'"
  by (auto simp: procAux_def Let_def split: option.splits if_splits dest: env_okD(6))

lemma dispatch_evolves:
  assumes "env_ok E" "dispatch E ti m st = Some st'"
  shows "evolves st st'"
  using assms procConnect_evolves procCancel_evolves procDisc_evolves procForward_evolves procAux_evolves
  by (auto simp: dispatch_def Let_def split: its_kind.splits if_splits)

lemma give_pickup_keeps [keeps]: "same_tables st (give_pickup t st)"
  by (simp add: give_pickup_def keeps split: option.split)

lemma processInboxMsg_evolves:
  assumes "env_ok E" "processInboxMsg E ti m st = Some st'"
  shows "evolves st st'"
proof -
  obtain st1 where s: "dispatch E ti m st = Some st1"
    "msg_discard ti m (if m_pickup m then give_pickup (m_sender m) st1 else st1) = Some st'"
    using assms(2) by (auto simp: processInboxMsg_def bind_eq_Some_conv)
  have "same_tables st1 (if m_pickup m then give_pickup (m_sender m) st1 else st1)" by (simp add: give_pickup_keeps)
  from same_tables_trans [OF this msg_discard_keeps [OF s(2)]] dispatch_evolves [OF assms(1) s(1)]
  show ?thesis by (rule keeps_evolve)
qed

lemma inboxReceive_keeps [keeps]: "inboxReceive E ti st = Some (m, st') \<Longrightarrow> same_tables st st'"
  by (auto simp: inboxReceive_def keeps split: option.splits)

subsection \<open>Poll\<close>

lemma recv_cbs_evolve:
  assumes "env_ok E"
  shows "recv_link_cb E cb i idx st = Some r \<Longrightarrow> evolves st (snd r)"
    "recv_pool_cb E cb i pb idx st = Some r \<Longrightarrow> evolves st (snd r)"
  by (auto simp: recv_link_cb_def recv_pool_cb_def Let_def bind_eq_Some_conv split: option.splits if_splits
      dest: env_okD(5) [OF assms])

lemma dispatchRecvCallbacks_evolves:
  assumes E: "env_ok E" and run: "dispatchRecvCallbacks E ti is any st = Some r"
  shows "evolves st (snd r)"
  using run
proof (induction "is" arbitrary: any st)
  case (Cons i "is")
  show ?case
  proof (cases "dispatchRecvCallbacks E ti is any st = Some r")
    case True
    then show ?thesis by (rule Cons.IH)
  next
    case False
    then obtain x a where x: "(\<exists>cb idx. recv_link_cb E cb i idx st = Some x) \<or> (\<exists>cb pb idx. recv_pool_cb E cb i pb idx st = Some x)"
      and d: "dispatchRecvCallbacks E ti is a (snd x) = Some r"
      using Cons.prems by (auto simp: Let_def bind_eq_Some_conv split: if_splits) blast+
    have "evolves st (snd x)" using x recv_cbs_evolve [OF E] by blast
    with Cons.IH [OF d] show ?thesis by (rule evolves_trans [rotated])
  qed
qed auto

lemma pollOnce_evolves:
  assumes E: "env_ok E" and run: "pollOnce E ti st = Some r"
  shows "evolves st (snd r)"
proof -
  obtain x where x: "(case inboxReceive E ti st of
               None \<Rightarrow> Some (False, st)
             | Some (m, st1) \<Rightarrow> do { st2 \<leftarrow> processInboxMsg E ti m st1; Some (True, st2) }) = Some x"
    "dispatchRecvCallbacks E ti [0..<ITS_MAX_CONNS] (fst x) (snd x) = Some r"
    using run by (auto simp: pollOnce_def bind_eq_Some_conv split: if_splits)
  have "evolves st (snd x)"
  proof (cases "inboxReceive E ti st")
    case None
    with x(1) show ?thesis by auto
  next
    case (Some y)
    obtain m st1 where y: "y = (m, st1)" by fastforce
    with x(1) Some have "processInboxMsg E ti m st1 = Some (snd x)" by (auto simp: bind_eq_Some_conv)
    from evolves_trans [OF same_tables_evolves [OF inboxReceive_keeps] processInboxMsg_evolves [OF E this]] Some y
    show ?thesis by blast
  qed
  from evolves_trans [OF this dispatchRecvCallbacks_evolves [OF E x(2)]] show ?thesis .
qed

lemma notifyTake_evolves:
  assumes "env_ok E"
  shows "evolves st (snd (notifyTake E me c t st))"
proof -
  have "same_tables s (s\<lparr>notified := n\<rparr>)" for s :: "('a, 'b) its_state" and n by (rule same_tables_fields)
  then show ?thesis using blocked_evolves [OF assms, of st]
    by (auto simp: notifyTake_def Let_def intro: same_tables_evolves keeps_evolve)
qed

lemma park_evolves:
  assumes "env_ok E"
  shows "evolves st (park E me t st)"
proof -
  obtain n st1 where n: "notifyTake E me True t (st\<lparr>boosted := False\<rparr>) = (n, st1)" by fastforce
  then have "evolves (st\<lparr>boosted := False\<rparr>) st1" using notifyTake_evolves [OF assms, of "st\<lparr>boosted := False\<rparr>" me True t] by simp
  then have "evolves st st1" by (rule evolves_trans [OF same_tables_evolves [OF same_tables_fields(6)]])
  then show ?thesis by (simp add: park_def Let_def n keeps_evolve [OF same_tables_fields(6)])
qed

lemma itsPoll_evolves:
  assumes E: "env_ok E" and run: "itsPoll E me t st = Some r"
  shows "evolves st (snd r)"
proof (cases "taskFind me st")
  case None
  with run show ?thesis using park_evolves [OF E] by (auto simp: itsPoll_def split: if_splits)
next
  case (Some ti)
  then obtain r0 where r0: "pollOnce E ti st = Some r0" "r = r0 \<or> pollOnce E ti (park E me t (snd r0)) = Some r"
    using run by (auto simp: itsPoll_def bind_eq_Some_conv split: if_splits)
  note e0 = pollOnce_evolves [OF E r0(1)]
  from r0(2) show ?thesis
  proof
    assume "pollOnce E ti (park E me t (snd r0)) = Some r"
    from evolves_trans [OF evolves_trans [OF e0 park_evolves [OF E]] pollOnce_evolves [OF E this]] show ?thesis .
  qed (use e0 in simp)
qed

end
