(* ===== verification/Its_Reach.thy ===== *)
theory Its_Reach
  imports Its_Steps
begin

section \<open>Inter-task streams: every call keeps the tables\<close>

text \<open>
  The calls of the API and of the data path keep the invariant of the tables; so does every
  sequence of calls by any tasks, from the state in which the tables were just made.
\<close>

subsection \<open>The registry of tasks\<close>

lemma inv_registry: "its_inv st \<Longrightarrow> s_tasks st \<noteq> None"
  by (auto simp: its_inv_def tables_ok_def next_slot_def split: if_splits)

lemma same_tables_registry:
  "s_tasks st \<noteq> None \<Longrightarrow> same_tables st (st\<lparr>s_tasks := Some ts, s_pendingPay := q\<rparr>)"
  by (auto simp: same_tables_def next_slot_def pool_marks_def link_marks_def links_def)

lemma heap_malloc_registry: "s_tasks (snd (heap_malloc E n st)) = s_tasks st"
  by (simp add: heap_malloc_def split: option.split)

lemma heap_free_registry: "heap_free p st = Some st' \<Longrightarrow> s_tasks st' = s_tasks st"
  by (auto simp: heap_free_def split: if_splits)

lemma taskCreate_keeps:
  assumes reg: "s_tasks st \<noteq> None" and run: "taskCreate E t ml dp ts st = Some r"
  shows "same_tables st (snd r)"
proof -
  define depth where "depth = (if dp > 0 then dp else ITS_INBOX_DEPTH)"
  obtain ctrl st1 where a: "heap_malloc E (e_qCtrlSize E) st = (ctrl, st1)" by fastforce
  obtain store st2 where b: "heap_malloc E (depth * 4) st1 = (store, st2)" by fastforce
  obtain st3 k q where c: "(if ctrl \<noteq> 0 \<and> store \<noteq> 0 then Some st2 else do { a \<leftarrow> heap_free ctrl st2; heap_free store a }) = Some st3"
    and r: "snd r = st3\<lparr>s_tasks := Some k, s_pendingPay := q\<rparr>"
    using run unfolding taskCreate_def Let_def depth_def [symmetric] a b prod.case
    unfolding bind_eq_Some_conv by fastforce
  have k: "same_tables st st1" "same_tables st1 st2" "same_tables st2 st3"
    using heap_malloc_pair [OF a] heap_malloc_pair [OF b] c by (auto split: if_splits intro: heap_free2_keeps)
  have "s_tasks st1 = s_tasks st" "s_tasks st2 = s_tasks st1"
    using heap_malloc_registry [of E "e_qCtrlSize E" st] heap_malloc_registry [of E "depth * 4" st1] a b by simp_all
  moreover have "s_tasks st3 = s_tasks st2"
    using c by (auto split: if_splits simp: bind_eq_Some_conv dest!: heap_free_registry)
  ultimately have "s_tasks st3 \<noteq> None" using reg by simp
  from same_tables_trans [OF same_tables_trans [OF k(1) k(2)] same_tables_trans [OF k(3) same_tables_registry [OF this]]]
  show ?thesis by (simp add: r)
qed

lemma taskFindOrCreate_evolves:
  assumes run: "taskFindOrCreate E t ml dp st = Some r"
  shows "evolves st (snd r)"
proof (cases "its_inv st")
  case True
  then have reg: "s_tasks st \<noteq> None" by (rule inv_registry)
  then have "same_tables st (snd r)"
    using run taskCreate_keeps [OF reg] by (auto simp: taskFindOrCreate_def Let_def split: option.splits if_splits)
  then show ?thesis by (rule same_tables_evolves)
qed (simp add: evolves_def)

lemma port_upd_keeps [keeps]: "same_tables st (port_upd ti pi f st)"
  by (simp add: port_upd_def keeps)

lemma vTaskPreDeletionHook_keeps [keeps]: "same_tables st (vTaskPreDeletionHook t st)"
  by (simp add: vTaskPreDeletionHook_def keeps split: option.split)

subsection \<open>Runs\<close>

text \<open>
  A run that starts in a state \<open>st\<close> has grown to, in the sense of \<open>evolves\<close>, ends in one it grows
  to. The rules follow the shape of a definition: one per way to combine calls and one per call.
\<close>

definition safe_end :: "('b, 'q) its_state \<Rightarrow> ('b, 'q) its_state option \<Rightarrow> bool" where
  "safe_end st m \<longleftrightarrow> (\<forall>st'. m = Some st' \<longrightarrow> evolves st st')"

definition safe_run :: "('b, 'q) its_state \<Rightarrow> ('a \<times> ('b, 'q) its_state) option \<Rightarrow> bool" where
  "safe_run st m \<longleftrightarrow> (\<forall>r. m = Some r \<longrightarrow> evolves st (snd r))"

named_theorems runs \<open>rules for the runs of the calls\<close>

lemma safe_endD: "safe_end st m \<Longrightarrow> m = Some st' \<Longrightarrow> evolves st st'"
  by (simp add: safe_end_def)

lemma safe_runD: "safe_run st m \<Longrightarrow> m = Some r \<Longrightarrow> evolves st (snd r)"
  by (simp add: safe_run_def)

lemma safe_endI: "evolves st s \<Longrightarrow> (\<And>s'. m = Some s' \<Longrightarrow> evolves s s') \<Longrightarrow> safe_end st m"
  unfolding safe_end_def using evolves_trans by blast

lemma safe_runI: "evolves st s \<Longrightarrow> (\<And>r. m = Some r \<Longrightarrow> evolves s (snd r)) \<Longrightarrow> safe_run st m"
  unfolding safe_run_def using evolves_trans by blast

lemma run_return [runs]:
  "safe_end st None" "safe_run st None"
  "evolves st s \<Longrightarrow> safe_end st (Some s)" "evolves st (snd r) \<Longrightarrow> safe_run st (Some r)"
  "evolves st s \<Longrightarrow> evolves st (snd (x, s))"
  by (simp_all add: safe_end_def safe_run_def)

lemma run_bind [runs]:
  "safe_end st m \<Longrightarrow> (\<And>s. evolves st s \<Longrightarrow> safe_end st (f s)) \<Longrightarrow> safe_end st (Option.bind m f)"
  "safe_run st n \<Longrightarrow> (\<And>r. evolves st (snd r) \<Longrightarrow> safe_end st (g r)) \<Longrightarrow> safe_end st (Option.bind n g)"
  "safe_end st m \<Longrightarrow> (\<And>s. evolves st s \<Longrightarrow> safe_run st (h s)) \<Longrightarrow> safe_run st (Option.bind m h)"
  "safe_run st n \<Longrightarrow> (\<And>r. evolves st (snd r) \<Longrightarrow> safe_run st (k r)) \<Longrightarrow> safe_run st (Option.bind n k)"
  by (auto simp: safe_end_def safe_run_def bind_eq_Some_conv)

lemma run_value:
  "(\<And>x. safe_run st (f x)) \<Longrightarrow> safe_run st (Option.bind v f)"
  by (auto simp: safe_run_def bind_eq_Some_conv)

lemma run_if [runs]:
  "safe_end st m \<Longrightarrow> safe_end st m' \<Longrightarrow> safe_end st (if b then m else m')"
  "safe_run st n \<Longrightarrow> safe_run st n' \<Longrightarrow> safe_run st (if b then n else n')"
  "evolves st s \<Longrightarrow> evolves st s' \<Longrightarrow> evolves st (if b then s else s')"
  by simp_all

lemma run_option [runs]:
  "safe_end st m \<Longrightarrow> (\<And>x. safe_end st (f x)) \<Longrightarrow> safe_end st (case v of None \<Rightarrow> m | Some x \<Rightarrow> f x)"
  "safe_run st n \<Longrightarrow> (\<And>x. safe_run st (g x)) \<Longrightarrow> safe_run st (case v of None \<Rightarrow> n | Some x \<Rightarrow> g x)"
  "evolves st s \<Longrightarrow> (\<And>x. evolves st (h x)) \<Longrightarrow> evolves st (case v of None \<Rightarrow> s | Some x \<Rightarrow> h x)"
  by (simp_all split: option.split)

lemma run_pair [runs]:
  "evolves st (snd p) \<Longrightarrow> (\<And>x s. evolves st s \<Longrightarrow> safe_end st (f x s)) \<Longrightarrow> safe_end st (case p of (x, s) \<Rightarrow> f x s)"
  "evolves st (snd p) \<Longrightarrow> (\<And>x s. evolves st s \<Longrightarrow> safe_run st (g x s)) \<Longrightarrow> safe_run st (case p of (x, s) \<Rightarrow> g x s)"
  by (auto split: prod.split)

lemma run_bool [runs]:
  "safe_end st m \<Longrightarrow> safe_end st m' \<Longrightarrow> safe_end st (case b of True \<Rightarrow> m | False \<Rightarrow> m')"
  "safe_run st n \<Longrightarrow> safe_run st n' \<Longrightarrow> safe_run st (case b of True \<Rightarrow> n | False \<Rightarrow> n')"
  by (simp_all split: bool.split)

lemma run_fields [runs]:
  assumes "evolves st s"
  shows "evolves st (s\<lparr>heap := h\<rparr>)" "evolves st (s\<lparr>payCtr := c\<rparr>)" "evolves st (s\<lparr>hdrCtr := c\<rparr>)"
    "evolves st (s\<lparr>notified := n\<rparr>)" "evolves st (s\<lparr>s_onDemand := d\<rparr>)"
    "evolves st (task_upd i u s)" "evolves st (task_notify t s)" "evolves st (notify_remote me k s)"
    "evolves st (port_upd i j v s)" "evolves st (vTaskPreDeletionHook t s)"
  by (rule keeps_evolve [OF _ assms], simp add: keeps)+

lemma run_conn [runs]:
  assumes "evolves st s" "\<And>c. conn_idx (f c) = conn_idx c \<and> c_active (f c) = c_active c"
  shows "evolves st (conn_upd h f s)"
  by (rule evolves_trans [OF assms(1) conn_fields_evolve]) (use assms(2) in auto)

lemma run_upd [runs]:
  assumes "evolves st s"
  shows "(\<And>e. p_inUse (f e) = p_inUse e) \<Longrightarrow> evolves st (pool_upd i f s)"
    "(\<And>L. l_inUse (g L) = l_inUse L) \<Longrightarrow> evolves st (link_upd i g s)"
  by (rule keeps_evolve [OF _ assms], rule same_tables_upd, simp)+

lemma run_basic [runs]:
  assumes s: "evolves st s"
  shows "safe_run st (taskFindOrCreate E t ml dp s)" "safe_run st (buildCopyMsg E me k port h data ti s)"
    "safe_end st (msgFree m s)" "safe_end st (payDrop p n s)" "safe_end st (heap_write p bs s)"
    "evolves st (snd (payAlloc E n s))" "evolves st (snd (msgAlloc E s))" "safe_end st (linkDrain E i s)"
  by (blast intro: safe_runI [OF s] safe_endI [OF s] keeps_evolve [OF _ s] same_tables_evolves
      taskFindOrCreate_evolves keeps)+

lemma run_env [runs]:
  assumes E: "env_ok E" and s: "evolves st s"
  shows "evolves st (blocked E s)" "evolves st (snd (inboxEnqueue E ti m t s))" "safe_end st (itsDisconnect E me h s)"
    "safe_end st (disconnectWhere E me P is s)" "safe_run st (e_onBusy E cb d l s)" "safe_end st (e_spawn E f s)"
    "evolves st (snd (notifyTake E me b t s))" "safe_run st (itsPoll E me t s)"
proof -
  have "evolves s (snd (inboxEnqueue E ti m t s))"
    using inboxEnqueue_evolves [OF E] by (cases "inboxEnqueue E ti m t s") auto
  with s show "evolves st (snd (inboxEnqueue E ti m t s))" by (rule evolves_trans)
  show "evolves st (snd (notifyTake E me b t s))" by (rule evolves_trans [OF s notifyTake_evolves [OF E]])
  show "evolves st (blocked E s)" by (rule evolves_trans [OF s blocked_evolves [OF E]])
qed (blast intro: safe_runI [OF s] safe_endI [OF s] itsDisconnect_evolves [OF E] disconnectWhere_evolves [OF E]
      env_okD [OF E] itsPoll_evolves [OF E])+

lemma run_semTake [runs]:
  assumes E: "env_ok E" and s: "evolves st s" and clr: "\<And>s. evolves st s \<Longrightarrow> evolves st (clr s)"
  shows "safe_run st (semTake E get clr t s)"
  unfolding semTake_def Let_def
  by (rule runs | rule clr | rule E | rule s)+

subsection \<open>Servers\<close>

lemma itsServerInit_run: "safe_run st (itsServerInit E me ml dp np st)"
  unfolding itsServerInit_def by (rule runs evolves_refl | assumption)+

lemma itsServerPortOpen_run: "evolves st (snd (itsServerPortOpen me port k mh tc fc d mm st))"
  unfolding itsServerPortOpen_def Let_def
  by (auto split: option.split intro!: runs)

lemma itsServerPortClose_run: "env_ok E \<Longrightarrow> safe_end st (itsServerPortClose E me port st)"
  unfolding itsServerPortClose_def by (rule runs evolves_refl | assumption)+

lemma port_cb_run: "evolves st (port_cb me port f st)"
  unfolding port_cb_def by (rule runs evolves_refl | assumption)+

lemma itsOnAux_run: "safe_end st (itsOnAux E me port cb st)"
  unfolding itsOnAux_def by (rule runs evolves_refl | assumption)+

lemma itsServerForwardByTaskHandle_run:
  "env_ok E \<Longrightarrow> safe_run st (itsServerForwardByTaskHandle E me h target port data st)"
  unfolding itsServerForwardByTaskHandle_def Let_def
  by (rule runs evolves_refl | assumption | simp add: conn_idx_def)+

lemma itsServerForward_run: "env_ok E \<Longrightarrow> safe_run st (itsServerForward E me h name port data st)"
  unfolding itsServerForward_def Let_def
  by (rule runs evolves_refl itsServerForwardByTaskHandle_run | assumption)+

subsection \<open>Clients\<close>

lemma itsClientInit_run: "safe_end st (itsClientInit E me mc ml dp st)"
  unfolding itsClientInit_def by (rule runs evolves_refl | assumption)+

text \<open>A loop: a run of the body is one whenever a run of the loop is.\<close>

lemma awaitServer_run [runs]:
  assumes E: "env_ok E" and s: "evolves st s"
  shows "safe_run st (awaitServer E server port t start s)"
proof (rule safe_runI [OF s])
  fix r assume "awaitServer E server port t start s = Some r"
  from this E show "evolves s (snd r)"
  proof (induction rule: awaitServer.raw_induct [rotated, consumes 1, case_names step])
    case (step rec E server port t start s r)
    have rec: "safe_run s (rec E server port t start s')" if "evolves s s'" for server port t start s'
      by (rule safe_runI [OF that]) (rule step(1) [OF _ step(3)])
    show ?case
      by (rule safe_runD [OF _ step(2)]) (rule runs evolves_refl rec step(3) | assumption)+
  qed
qed

lemma ackTake_run [runs]:
  assumes "env_ok E" "evolves st s"
  shows "safe_run st (ackTake E ti t s)"
  unfolding ackTake_def by (rule runs assms | assumption)+

lemma sendCancel_run [runs]:
  assumes "env_ok E" "evolves st s"
  shows "safe_end st (sendCancel E me se port nonce s)"
  unfolding sendCancel_def Let_def by (rule runs assms | assumption)+

lemma awaitAck_run [runs]:
  assumes E: "env_ok E" and s: "evolves st s"
  shows "safe_run st (awaitAck E me ti se port nonce t start s)"
proof (rule safe_runI [OF s])
  fix r assume "awaitAck E me ti se port nonce t start s = Some r"
  from this E show "evolves s (snd r)"
  proof (induction rule: awaitAck.raw_induct [rotated, consumes 1, case_names step])
    case (step rec E me ti se port nonce t start s r)
    have rec: "safe_run s (rec E me ti se port nonce t start s')" if "evolves s s'" for me ti se port nonce t start s'
      by (rule safe_runI [OF that]) (rule step(1) [OF _ step(3)])
    show ?case
      by (rule safe_runD [OF _ step(2)]) (rule runs evolves_refl rec step(3) | assumption)+
  qed
qed

lemma connectHandshake_run [runs]:
  assumes "env_ok E" "evolves st s"
  shows "safe_run st (connectHandshake E me ti se port data t start s)"
  unfolding connectHandshake_def Let_def by (rule runs assms | assumption)+

lemma itsConnectByTaskHandle_run [runs]:
  assumes "env_ok E" "evolves st s"
  shows "safe_run st (itsConnectByTaskHandle E me server port data t ref onRecv onDisc s)"
  unfolding itsConnectByTaskHandle_def Let_def
  by (rule runs assms | assumption | simp add: conn_idx_def)+

lemma itsSpawnOnDemand_run [runs]:
  assumes "env_ok E" "evolves st s"
  shows "safe_end st (itsSpawnOnDemand E name s)"
  unfolding itsSpawnOnDemand_def by (rule runs assms | assumption)+

lemma awaitTask_run [runs]:
  assumes E: "env_ok E" and s: "evolves st s"
  shows "safe_run st (awaitTask E name t start s)"
proof (rule safe_runI [OF s])
  fix r assume "awaitTask E name t start s = Some r"
  from this E show "evolves s (snd r)"
  proof (induction rule: awaitTask.raw_induct [rotated, consumes 1, case_names step])
    case (step rec E name t start s r)
    have rec: "safe_run s (rec E name t start s')" if "evolves s s'" for name t start s'
      by (rule safe_runI [OF that]) (rule step(1) [OF _ step(3)])
    show ?case
      by (rule safe_runD [OF _ step(2)]) (rule runs evolves_refl rec step(3) | assumption)+
  qed
qed

lemma itsConnect_run:
  assumes E: "env_ok E"
  shows "safe_run st (itsConnect E me name port data t ref onRecv onDisc st)"
  unfolding itsConnect_def by (rule runs E evolves_refl | assumption)+

lemma itsRegisterOnDemand_run: "evolves st (snd (itsRegisterOnDemand E name f st))"
  unfolding itsRegisterOnDemand_def by (simp add: runs)

subsection \<open>Aux messages\<close>

lemma pickupTake_run [runs]:
  assumes "env_ok E" "evolves st s"
  shows "safe_run st (pickupTake E ti t s)"
  unfolding pickupTake_def by (rule runs assms | assumption)+

text \<open>\<open>pickupArm\<close> returns a triple; its run is that of the state in it.\<close>

lemma pickupArm_run:
  assumes E: "env_ok E" and s: "evolves st s" and run: "pickupArm E me w s = Some a"
  shows "evolves st (snd (snd a))"
proof (cases "w = ITS_WAIT_PICKUP")
  case True
  with run obtain r where r: "taskFindOrCreate E me 0 0 s = Some r"
    and a: "(case fst r of
          None \<Rightarrow> Some (False, None, snd r)
        | Some ti \<Rightarrow>
            if t_pickupSem (tasks (snd r) ! ti) = None then Some (False, None, snd r)
            else do { x \<leftarrow> pickupTake E ti 0 (snd r); Some (True, Some ti, snd x) }) = Some a"
    by (auto simp: pickupArm_def bind_eq_Some_conv)
  have er: "evolves st (snd r)" by (rule safe_runD [OF run_basic(1) [OF s] r])
  show ?thesis
  proof (cases "fst r")
    case (Some ti)
    with a er safe_runD [OF pickupTake_run [OF E er]] show ?thesis by (auto simp: bind_eq_Some_conv split: if_splits)
  qed (use a er in auto)
qed (use run s in \<open>auto simp: pickupArm_def\<close>)

lemma run_pickup [runs]:
  assumes "env_ok E" "evolves st s" "\<And>a. evolves st (snd (snd a)) \<Longrightarrow> safe_run st (f a)"
  shows "safe_run st (Option.bind (pickupArm E me w s) f)"
  using assms(3) [OF pickupArm_run [OF assms(1,2)]] by (auto simp: safe_run_def bind_eq_Some_conv)

lemma itsSendAuxInternal_run [runs]:
  assumes "env_ok E" "evolves st s"
  shows "safe_run st (itsSendAuxInternal E me task port data t w s)"
  unfolding itsSendAuxInternal_def Let_def by (rule run_pickup runs assms | assumption)+

lemma itsSendAuxOwned_run:
  assumes "env_ok E"
  shows "safe_run st (itsSendAuxOwnedByTaskHandle E me task port p len t w st)"
  unfolding itsSendAuxOwnedByTaskHandle_def Let_def payAdopt_def by (rule run_pickup runs assms evolves_refl | assumption)+

lemma itsSendAux_run: "env_ok E \<Longrightarrow> safe_run st (itsSendAux E me name port data t w st)"
  unfolding itsSendAux_def Let_def by (rule runs evolves_refl | assumption)+

subsection \<open>Data\<close>

lemma link_sem_run [runs]:
  assumes "env_ok E" "evolves st s"
  shows "safe_run st (linkSemTake E i t s)" "safe_run st (poolSemTake E i t s)"
  unfolding linkSemTake_def poolSemTake_def by (rule runs assms | assumption | simp)+

lemma arm_run [runs]: "evolves st s \<Longrightarrow> evolves st (link_arm i n s)" "evolves st s \<Longrightarrow> evolves st (pool_arm i k s)"
  by (simp_all add: link_arm_def pool_arm_def runs)

lemma linkWaitLoop_run [runs]:
  assumes E: "env_ok E" and s: "evolves st s"
  shows "safe_run st (linkWaitLoop E h i len t start rem s)"
proof (rule safe_runI [OF s])
  fix r assume "linkWaitLoop E h i len t start rem s = Some r"
  from this E show "evolves s (snd r)"
  proof (induction rule: linkWaitLoop.raw_induct [rotated, consumes 1, case_names step])
    case (step rec E h i len t start rem s r)
    have rec: "safe_run s (rec E h i len t start rem s')" if "evolves s s'" for h i len t start rem s'
      by (rule safe_runI [OF that]) (rule step(1) [OF _ step(3)])
    show ?case
      by (rule safe_runD [OF _ step(2)]) (unfold Let_def, (rule runs evolves_refl rec step(3) | assumption)+)
  qed
qed

lemma poolWaitLoop_run [runs]:
  assumes E: "env_ok E" and s: "evolves st s"
  shows "safe_run st (poolWaitLoop E h i n t start rem s)"
proof (rule safe_runI [OF s])
  fix r assume "poolWaitLoop E h i n t start rem s = Some r"
  from this E show "evolves s (snd r)"
  proof (induction rule: poolWaitLoop.raw_induct [rotated, consumes 1, case_names step])
    case (step rec E h i n t start rem s r)
    have rec: "safe_run s (rec E h i n t start rem s')" if "evolves s s'" for h i n t start rem s'
      by (rule safe_runI [OF that]) (rule step(1) [OF _ step(3)])
    show ?case
      by (rule safe_runD [OF _ step(2)]) (unfold Let_def, (rule runs evolves_refl rec step(3) | assumption)+)
  qed
qed

lemma linkDequeueWait_run [runs]:
  assumes E: "env_ok E" and s: "evolves st s"
  shows "safe_run st (linkDequeueWait E me h i t start rem s)"
proof (rule safe_runI [OF s])
  fix r assume "linkDequeueWait E me h i t start rem s = Some r"
  from this E show "evolves s (snd r)"
  proof (induction rule: linkDequeueWait.raw_induct [rotated, consumes 1, case_names step])
    case (step rec E me h i t start rem s r)
    have rec: "safe_run s (rec E me h i t start rem s')" if "evolves s s'" for me h i t start rem s'
      by (rule safe_runI [OF that]) (rule step(1) [OF _ step(3)])
    show ?case
      by (rule safe_runD [OF _ step(2)]) (unfold Let_def, (rule runs evolves_refl rec step(3) | assumption)+)
  qed
qed

lemma recvLegacyWait_run [runs]:
  assumes E: "env_ok E" and s: "evolves st s"
  shows "safe_run st (recvLegacyWait E me i t start rem s)"
proof (rule safe_runI [OF s])
  fix r assume "recvLegacyWait E me i t start rem s = Some r"
  from this E show "evolves s (snd r)"
  proof (induction rule: recvLegacyWait.raw_induct [rotated, consumes 1, case_names step])
    case (step rec E me i t start rem s r)
    have rec: "safe_run s (rec E me i t start rem s')" if "evolves s s'" for me i t start rem s'
      by (rule safe_runI [OF that]) (rule step(1) [OF _ step(3)])
    show ?case
      by (rule safe_runD [OF _ step(2)]) (unfold Let_def, (rule runs evolves_refl rec step(3) | assumption)+)
  qed
qed

lemma sendDrainLoop_run [runs]:
  assumes E: "env_ok E" and s: "evolves st s"
  shows "safe_run st (sendDrainLoop E me h deadline s)"
proof (rule safe_runI [OF s])
  fix r assume "sendDrainLoop E me h deadline s = Some r"
  from this E show "evolves s (snd r)"
  proof (induction rule: sendDrainLoop.raw_induct [rotated, consumes 1, case_names step])
    case (step rec E me h deadline s r)
    have rec: "safe_run s (rec E me h deadline s')" if "evolves s s'" for me h deadline s'
      by (rule safe_runI [OF that]) (rule step(1) [OF _ step(3)])
    show ?case
      by (rule safe_runD [OF _ step(2)]) (rule runs evolves_refl rec step(3) | assumption)+
  qed
qed

lemma wait_run [runs]:
  assumes "env_ok E" "evolves st s"
  shows "safe_run st (linkWaitForSpace E h i len t s)" "safe_run st (itsWaitForSpace E me h n t s)"
    "safe_run st (itsSendDrain E me h ms s)"
  unfolding linkWaitForSpace_def itsWaitForSpace_def itsSendDrain_def by (rule runs assms | assumption)+

lemma enqueue_run [runs]: "evolves st s \<Longrightarrow> evolves st (linkEnqueue E me h i p len s)"
  by (simp add: linkEnqueue_def runs)

lemma wake_run [runs]:
  assumes "evolves st s"
  shows "evolves st (linkWakeSender me h i s)" "evolves st (wakeSenderIfReady E me h i s)"
    "evolves st (notify_if_trigger E t i n s)"
  unfolding linkWakeSender_def wakeSenderIfReady_def notify_if_trigger_def Let_def
  by (rule runs assms | simp)+

lemma linkDequeue_run [runs]:
  assumes "env_ok E" "evolves st s"
  shows "safe_run st (linkDequeue E me h i t s)"
  unfolding linkDequeue_def Let_def by (rule runs assms | assumption | simp)+

lemma buf_run [runs]:
  assumes "env_ok E" "evolves st s"
  shows "safe_run st (bufSend E i data t s)" "safe_run st (bufReceive E i n t s)"
  unfolding bufSend_def bufReceive_def Let_def buf_set_def by (rule runs run_value assms | assumption | simp)+

lemma itsSendPacket_run [runs]:
  assumes "env_ok E" "evolves st s"
  shows "safe_run st (itsSendPacket E me h i src t s)"
proof (cases src)
  case (Copy data)
  show ?thesis unfolding itsSendPacket_def Let_def Copy its_src.case by (rule runs assms | assumption)+
next
  case (Owned p len)
  show ?thesis unfolding itsSendPacket_def Let_def Owned its_src.case payAdopt_def by (rule runs assms | assumption)+
qed

lemma sendLegacy_run [runs]:
  assumes "env_ok E" "evolves st s"
  shows "safe_run st (sendLegacy E me h i data t s)"
  unfolding sendLegacy_def Let_def by (rule runs assms | assumption)+

lemma run_map: "safe_run st m \<Longrightarrow> safe_run st (map_option (\<lambda>(x, s). (f x, s)) m)"
  by (auto simp: safe_run_def)

lemma itsSend_run: "env_ok E \<Longrightarrow> safe_run st (itsSend E me h data t st)"
  unfolding itsSend_def by (rule runs run_map evolves_refl | assumption)+

lemma itsSendOwned_run: "env_ok E \<Longrightarrow> safe_run st (itsSendOwned E me h p len t st)"
  unfolding itsSendOwned_def by (rule runs evolves_refl | assumption)+

lemma itsInject_run: "env_ok E \<Longrightarrow> safe_run st (itsInject E h srv data t st)"
  unfolding itsInject_def Let_def by (rule runs evolves_refl | assumption)+

lemma recvPacket_run [runs]:
  assumes "env_ok E" "evolves st s"
  shows "safe_run st (recvPacket E me h i n t s)"
  unfolding recvPacket_def by (rule runs run_value assms | assumption)+

lemma dropBody_run [runs]:
  assumes E: "env_ok E"
  shows "evolves st s \<Longrightarrow> safe_end st (dropBody E i n s)"
  using E
proof (induction E i n s rule: dropBody.induct)
  case (1 E i n s)
  show ?case
  proof (cases "bufReceive E i (if n > 64 then 64 else n) 0 s")
    case (Some r)
    obtain bs s1 where r: "r = (bs, s1)" by fastforce
    have e: "evolves st s1" using safe_runD [OF buf_run(2) [OF 1(3,2)] Some] r by simp
    show ?thesis using 1 Some r e by (auto simp: dropBody.simps [of E i n s] runs)
  qed (use 1 in \<open>auto simp: dropBody.simps [of E i n s] runs\<close>)
qed

lemma recvLegacy_run [runs]:
  assumes "env_ok E" "evolves st s"
  shows "safe_run st (recvLegacy E me h i n t s)"
  unfolding recvLegacy_def Let_def by (rule runs assms | assumption)+

lemma itsRecv_run: "env_ok E \<Longrightarrow> safe_run st (itsRecv E me h n t st)"
  unfolding itsRecv_def by (rule runs evolves_refl | assumption)+

lemma itsRecvRef_run: "env_ok E \<Longrightarrow> safe_run st (itsRecvRef E me h t st)"
  unfolding itsRecvRef_def payHandoff_def by (rule runs evolves_refl | assumption)+

lemma itsSetTriggerLevel_run: "evolves st (snd (itsSetTriggerLevel E me h l st))"
  by (auto simp: itsSetTriggerLevel_def Let_def runs split: option.split)

lemma itsSetFreeNotify_run: "env_ok E \<Longrightarrow> safe_run st (itsSetFreeNotify E me h n st)"
  unfolding itsSetFreeNotify_def Let_def by (rule runs evolves_refl | assumption | simp)+

lemma linkPurge_run [runs]: "evolves st s \<Longrightarrow> safe_end st (linkPurge E idx s)"
  unfolding linkPurge_def by (rule runs | assumption | simp)+

lemma itsReset_run: "safe_run st (itsReset E me h st)"
  unfolding itsReset_def buf_reset_def by (rule runs evolves_refl | assumption | simp)+

subsection \<open>Reachable states\<close>

text \<open>Zeroed statics, before the first task registers.\<close>

definition its_boot :: "('b, 'q) its_state \<Rightarrow> bool" where
  "its_boot st \<longleftrightarrow> s_tasks st = None \<and> itsLinks st = None \<and> itsPool st = []
     \<and> connTable st = replicate ITS_MAX_CONNS blankConn \<and> connCounter st = 0"

text \<open>A call of any task, with any arguments, that returned; or the death of a task.\<close>

inductive its_step :: "('b, 'q) its_env \<Rightarrow> ('b, 'q) its_state \<Rightarrow> ('b, 'q) its_state \<Rightarrow> bool" for E where
  "itsServerInit E me ml dp np st = Some (r, st') \<Longrightarrow> its_step E st st'"
| "itsClientInit E me mc ml dp st = Some st' \<Longrightarrow> its_step E st st'"
| "itsServerPortOpen me port k mh tc fc d mm st = (r, st') \<Longrightarrow> its_step E st st'"
| "itsServerPortClose E me port st = Some st' \<Longrightarrow> its_step E st st'"
| "port_cb me port f st = st' \<Longrightarrow> its_step E st st'"
| "itsOnAux E me port cb st = Some st' \<Longrightarrow> its_step E st st'"
| "itsServerForwardByTaskHandle E me h target port data st = Some (n, st') \<Longrightarrow> its_step E st st'"
| "itsServerForward E me h name port data st = Some (n, st') \<Longrightarrow> its_step E st st'"
| "itsConnectByTaskHandle E me server port data t ref onRecv onDisc st = Some (n, st') \<Longrightarrow> its_step E st st'"
| "itsConnect E me name port data t ref onRecv onDisc st = Some (n, st') \<Longrightarrow> its_step E st st'"
| "itsRegisterOnDemand E name spawn st = (r, st') \<Longrightarrow> its_step E st st'"
| "itsSendAux E me name port data t w st = Some (r, st') \<Longrightarrow> its_step E st st'"
| "itsSendAuxByTaskHandle E me task port data t w st = Some (r, st') \<Longrightarrow> its_step E st st'"
| "itsSendAuxOwnedByTaskHandle E me task port p len t w st = Some (r, st') \<Longrightarrow> its_step E st st'"
| "itsSend E me h data t st = Some (m, st') \<Longrightarrow> its_step E st st'"
| "itsSendOwned E me h p len32 t st = Some (l, st') \<Longrightarrow> its_step E st st'"
| "itsInject E h srv data t st = Some (m, st') \<Longrightarrow> its_step E st st'"
| "itsRecv E me h m t st = Some (bs, st') \<Longrightarrow> its_step E st st'"
| "itsRecvRef E me h t st = Some (ref', st') \<Longrightarrow> its_step E st st'"
| "itsWaitForSpace E me h m t st = Some (r, st') \<Longrightarrow> its_step E st st'"
| "itsSetTriggerLevel E me h m st = (r, st') \<Longrightarrow> its_step E st st'"
| "itsSetFreeNotify E me h m st = Some (r, st') \<Longrightarrow> its_step E st st'"
| "itsSendDrain E me h m st = Some (r, st') \<Longrightarrow> its_step E st st'"
| "itsReset E me h st = Some (r, st') \<Longrightarrow> its_step E st st'"
| "itsDisconnect E me h st = Some st' \<Longrightarrow> its_step E st st'"
| "itsPoll E me t st = Some (r, st') \<Longrightarrow> its_step E st st'"
| "vTaskPreDeletionHook t st = st' \<Longrightarrow> its_step E st st'"

inductive its_reach :: "('b, 'q) its_env \<Rightarrow> ('b, 'q) its_state \<Rightarrow> bool" for E where
  first: "its_boot st0 \<Longrightarrow> taskFindOrCreate E t ml dp st0 = Some (i, st) \<Longrightarrow> s_tasks st \<noteq> None \<Longrightarrow> its_reach E st"
| later: "its_reach E st \<Longrightarrow> its_step E st st' \<Longrightarrow> its_reach E st'"

lemma run_pairD: "safe_run st m \<Longrightarrow> m = Some (x, st') \<Longrightarrow> evolves st st'"
  "evolves st (snd p) \<Longrightarrow> p = (y, st') \<Longrightarrow> evolves st st'"
  by (auto dest: safe_runD)

lemmas call_runs = itsServerInit_run itsClientInit_run itsServerPortClose_run itsOnAux_run
  itsServerForwardByTaskHandle_run itsServerForward_run itsConnect_run itsSendAux_run itsSendAuxOwned_run itsSend_run
  itsSendOwned_run itsInject_run itsRecv_run itsRecvRef_run itsSetFreeNotify_run itsReset_run
  itsConnectByTaskHandle_run [OF _ evolves_refl]
  itsSendAuxInternal_run [OF _ evolves_refl, folded itsSendAuxByTaskHandle_def]
  wait_run(2,3) [OF _ evolves_refl] run_env(3,8) [OF _ evolves_refl]

lemma its_step_evolves:
  assumes E: "env_ok E" and step: "its_step E st st'"
  shows "evolves st st'"
  using step
proof cases
  case (3 me port k mh tc fc d mm r)
  show ?thesis by (rule run_pairD(2) [OF itsServerPortOpen_run 3])
next
  case (5 me port f)
  then show ?thesis using port_cb_run by auto
next
  case (11 name spawn r)
  show ?thesis by (rule run_pairD(2) [OF itsRegisterOnDemand_run 11])
next
  case (21 me h m r)
  show ?thesis by (rule run_pairD(2) [OF itsSetTriggerLevel_run 21])
next
  case (27 t)
  then show ?thesis using run_fields(10) [OF evolves_refl] by auto
qed (erule safe_endD [rotated] run_pairD(1) [rotated], (rule call_runs E)+)+

lemma its_boot_inv:
  assumes boot: "its_boot st0" and run: "taskFindOrCreate E t ml dp st0 = Some r" and reg: "s_tasks (snd r) \<noteq> None"
  shows "its_inv (snd r)"
proof -
  define st1 where "st1 = st0\<lparr>s_tasks := (if e_table E 0 then Some [] else None), itsLinks := (if e_table E 1 then Some [] else None)\<rparr>"
  note boot' = boot [unfolded its_boot_def]
  have t1: "s_tasks st1 \<noteq> None"
    using run reg boot' by (auto simp: taskFindOrCreate_def taskFind_def Let_def st1_def split: if_splits)
  have "owned f (replicate n blankConn) = {#}" if "f blankConn = {#}" for f n
    using that by (induction n) (simp_all add: owned_def)
  then have own: "owned conn_pools (connTable st1) = {#}" "owned conn_links (connTable st1) = {#}"
    using boot' by (simp_all add: st1_def conn_pools_def conn_links_def blankConn_def)
  have "slot_ok blankConn" by (simp add: slot_ok_def conn_idx_def blankConn_def)
  moreover have "link_marks st1 = []" "pool_marks st1 = []" using boot' by (simp_all add: link_marks_def pool_marks_def links_def st1_def)
  ultimately have inv: "its_inv st1" using own t1 boot'
    by (auto simp: its_inv_def tables_ok_def exclusive_def next_slot_def list_all_iff st1_def ITS_MAX_CONNS_def)
  have "snd r = st1 \<or> taskCreate E t ml dp (tasks st1) st1 = Some r"
    using run boot' by (auto simp: taskFindOrCreate_def taskFind_def Let_def st1_def split: if_splits)
  then have "evolves st1 (snd r)" using same_tables_evolves [OF taskCreate_keeps [OF t1]] by (metis evolves_refl)
  with inv show ?thesis by (simp add: evolves_def)
qed

lemma its_reach_inv:
  assumes E: "env_ok E" and "its_reach E st"
  shows "its_inv st"
  using assms(2)
proof (induction rule: its_reach.induct)
  case (first st0 t ml dp i st)
  then show ?case using its_boot_inv by fastforce
next
  case (later st st')
  then show ?case using its_step_evolves [OF E] by (simp add: evolves_def)
qed

text \<open>What the invariant says of two references.\<close>

lemma owned_two:
  assumes "h < length cs" "k < length cs" "h \<noteq> k"
  shows "f (cs ! h) + f (cs ! k) \<subseteq># owned f cs"
  using assms
proof (induction cs arbitrary: h k)
  case (Cons a cs)
  show ?case
  proof (cases "h = 0 \<or> k = 0")
    case True
    then obtain j where "f ((a # cs) ! h) + f ((a # cs) ! k) = f a + f (cs ! j)" "j < length cs"
      using Cons.prems by (cases h; cases k) (auto simp: union_commute)
    then show ?thesis using owned_part [of j cs f] by (simp add: owned_def)
  next
    case False
    then have "f (cs ! (h - 1)) + f (cs ! (k - 1)) \<subseteq># owned f cs"
      using Cons by (intro Cons.IH) auto
    with False show ?thesis by (simp add: owned_def nth_Cons' subset_mset.add_increasing)
  qed
qed simp

lemma exclusive_two:
  assumes ex: "exclusive (owned f cs) used" and hk: "h < length cs" "k < length cs" "h \<noteq> k"
    and i: "i \<in># f (cs ! h)" "i \<in># f (cs ! k)"
  shows False
proof -
  have "count (f (cs ! h) + f (cs ! k)) i \<le> count (owned f cs) i"
    by (rule mset_subset_eq_count [OF owned_two [OF hk]])
  moreover have "count (owned f cs) i \<le> 1" using ex by (simp add: exclusive_def)
  moreover have "count (f (cs ! h)) i > 0" "count (f (cs ! k)) i > 0" using i by simp_all
  ultimately show False by (simp del: count_greater_zero_iff)
qed

lemma exclusive_one:
  assumes ex: "exclusive (owned f cs) used" and h: "h < length cs" and i: "i \<in># f (cs ! h)"
  shows "0 \<le> i" "i < int (length used)" "used ! nat i" "count (f (cs ! h)) i = 1"
proof -
  have p: "f (cs ! h) \<subseteq># owned f cs" by (rule owned_part [OF h])
  then have "i \<in># owned f cs" using i by (rule mset_subset_eqD)
  with ex show "0 \<le> i" "i < int (length used)" "used ! nat i" by (simp_all add: exclusive_def)
  have "count (f (cs ! h)) i \<le> 1" using mset_subset_eq_count [OF p, of i] ex le_trans unfolding exclusive_def by blast
  moreover have "count (f (cs ! h)) i > 0" using i by simp
  ultimately show "count (f (cs ! h)) i = 1" by linarith
qed

end
