(* ===== verification/Its_Channel.thy ===== *)
theory Its_Channel
  imports Its_Ring "HOL-Library.Sublist"
begin

section \<open>Inter-task streams: a connection as a channel of messages\<close>

text \<open>
  What the two ends of a packet connection rely on: a message the sender's call accepts is
  appended to what is queued, a call that does not accept it changes nothing of that, and the
  receiver's call takes the oldest message, whole. The locale has the consequence for every
  interleaving of the two ends; packet links and framed packets in a stream buffer are its two
  instances.
\<close>

datatype chan_op = Put bytes | Get nat

fun chan_run :: "(bytes \<Rightarrow> 's \<Rightarrow> (nat \<times> 's) option) \<Rightarrow> (nat \<Rightarrow> 's \<Rightarrow> (bytes \<times> 's) option) \<Rightarrow> chan_op list \<Rightarrow> 's
    \<Rightarrow> (bytes list \<times> bytes list \<times> 's) option" where
  "chan_run put get [] s = Some ([], [], s)"
| "chan_run put get (Put m # ops) s =
     do {
       r \<leftarrow> put m s;
       x \<leftarrow> chan_run put get ops (snd r);
       Some (if fst r \<noteq> 0 then m # fst x else fst x, snd x)
     }"
| "chan_run put get (Get k # ops) s =
     do {
       r \<leftarrow> get k s;
       x \<leftarrow> chan_run put get ops (snd r);
       Some (fst x, if fst r \<noteq> [] then fst r # fst (snd x) else fst (snd x), snd (snd x))
     }"

text \<open>The calls of a run stay within what a caller can pass: messages shorter than the address
  space, buffers at least as long as the longest message of the port.\<close>

fun op_ok :: "nat \<Rightarrow> chan_op \<Rightarrow> bool" where
  "op_ok n (Put m) \<longleftrightarrow> length m < 2 ^ 32"
| "op_ok n (Get k) \<longleftrightarrow> n \<le> k"

text \<open>The buffer lengths of the receives of a run, in order.\<close>

fun get_sizes :: "chan_op list \<Rightarrow> nat list" where
  "get_sizes [] = []"
| "get_sizes (Put m # ops) = get_sizes ops"
| "get_sizes (Get k # ops) = k # get_sizes ops"

text \<open>The messages that receives with these buffer lengths return: one that does not fit is
  taken off the queue and lost.\<close>

definition delivered :: "(bytes \<times> nat) list \<Rightarrow> bytes list" where
  "delivered taken = map fst (filter (\<lambda>(m, k). length m \<le> k) taken)"

lemma delivered_simps [simp]:
  "delivered [] = []"
  "delivered ((m, k) # taken) = (if length m \<le> k then m # delivered taken else delivered taken)"
  by (simp_all add: delivered_def)

lemma delivered_all: "\<forall>(m, k) \<in> set taken. length m \<le> k \<Longrightarrow> delivered taken = map fst taken"
  by (induction taken) auto

locale message_channel =
  fixes ok :: "'s \<Rightarrow> bool"
    and queued :: "'s \<Rightarrow> bytes list"
    and fits :: "'s \<Rightarrow> bytes \<Rightarrow> bool"
    and put :: "bytes \<Rightarrow> 's \<Rightarrow> (nat \<times> 's) option"
    and get :: "nat \<Rightarrow> 's \<Rightarrow> (bytes \<times> 's) option"
    and longest :: nat
  assumes put_fits: "ok s \<Longrightarrow> length m < 2 ^ 32 \<Longrightarrow> fits s m \<Longrightarrow>
      \<exists>s'. put m s = Some (length m, s') \<and> ok s' \<and> queued s' = queued s @ [m]"
    and put_refused: "ok s \<Longrightarrow> length m < 2 ^ 32 \<Longrightarrow> \<not> fits s m \<Longrightarrow>
      \<exists>s'. put m s = Some (0, s') \<and> ok s' \<and> queued s' = queued s"
    and get_none: "ok s \<Longrightarrow> queued s = [] \<Longrightarrow> \<exists>s'. get k s = Some ([], s') \<and> ok s' \<and> queued s' = []"
    and get_some: "ok s \<Longrightarrow> queued s = m # ms \<Longrightarrow>
      \<exists>s'. get k s = Some (if length m \<le> k then m else [], s') \<and> ok s' \<and> queued s' = ms"
    and messages: "ok s \<Longrightarrow> m \<in> set (queued s) \<Longrightarrow> m \<noteq> [] \<and> length m \<le> longest"
begin

lemma put_cases:
  assumes "ok s" "length m < 2 ^ 32"
  obtains s' where "put m s = Some (length m, s')" "ok s'" "queued s' = queued s @ [m]" "m \<noteq> []"
    | s' where "put m s = Some (0, s')" "ok s'" "queued s' = queued s"
proof (cases "fits s m")
  case True
  from put_fits [OF assms True] obtain s' where s': "put m s = Some (length m, s')" "ok s'" "queued s' = queued s @ [m]"
    by blast
  moreover from messages [OF s'(2), of m] s'(3) have "m \<noteq> []" by simp
  ultimately show ?thesis using that(1) by blast
next
  case False
  from put_refused [OF assms False] show ?thesis using that(2) by blast
qed

lemma get_taken:
  assumes "ok s"
  obtains s' where "get k s = Some ([], s')" "ok s'" "queued s = []" "queued s' = []"
    | s' m where "get k s = Some (if length m \<le> k then m else [], s')" "ok s'" "queued s = m # queued s'"
        "m \<noteq> []" "length m \<le> longest"
proof (cases "queued s")
  case Nil
  from get_none [OF assms this] show ?thesis using that(1) Nil by blast
next
  case (Cons m ms)
  then have "m \<noteq> []" "length m \<le> longest" using messages [OF assms, of m] by auto
  with get_some [OF assms Cons, of k] show ?thesis using that(2) Cons by auto
qed

text \<open>
  Every run returns. What was queued before followed by what was accepted is what was taken
  followed by what is queued after; each message is taken by one receive, in their order, and
  is returned whole by it exactly when its buffer holds it.
\<close>

lemma run_taken:
  assumes "ok s" "list_all (op_ok 0) ops"
  shows "\<exists>sent taken s'. chan_run put get ops s = Some (sent, delivered taken, s') \<and> ok s'
     \<and> queued s @ sent = map fst taken @ queued s' \<and> subseq (map snd taken) (get_sizes ops)
     \<and> (\<forall>(m, k) \<in> set taken. length m \<le> longest)"
  using assms
proof (induction ops arbitrary: s)
  case Nil
  then show ?case by (auto intro!: exI [of _ "[]"])
next
  case (Cons op ops)
  have rest: "\<exists>sent taken s'. chan_run put get ops r = Some (sent, delivered taken, s') \<and> ok s'
     \<and> queued r @ sent = map fst taken @ queued s' \<and> subseq (map snd taken) (get_sizes ops)
     \<and> (\<forall>(m, k) \<in> set taken. length m \<le> longest)" if "ok r" for r
    using Cons.IH [OF that] Cons.prems(2) by simp
  show ?case
  proof (cases op)
    case (Put m)
    then have m: "length m < 2 ^ 32" using Cons.prems by simp
    show ?thesis
    proof (cases rule: put_cases [OF Cons.prems(1) m])
      case (1 s')
      from rest [OF 1(2)] 1 Put show ?thesis by fastforce
    next
      case (2 s')
      from rest [OF 2(2)] 2 Put show ?thesis by fastforce
    qed
  next
    case (Get k)
    show ?thesis
    proof (cases rule: get_taken [OF Cons.prems(1), of k])
      case (1 s')
      from rest [OF 1(2)] obtain sent taken s2 where
        "chan_run put get ops s' = Some (sent, delivered taken, s2)" "ok s2" "queued s' @ sent = map fst taken @ queued s2"
        "subseq (map snd taken) (get_sizes ops)" "\<forall>(m, k) \<in> set taken. length m \<le> longest" by blast
      with 1 Get show ?thesis by (intro exI [of _ sent] exI [of _ taken] exI [of _ s2]) auto
    next
      case (2 s' m)
      from rest [OF 2(2)] obtain sent taken s2 where
        "chan_run put get ops s' = Some (sent, delivered taken, s2)" "ok s2" "queued s' @ sent = map fst taken @ queued s2"
        "subseq (map snd taken) (get_sizes ops)" "\<forall>(m, k) \<in> set taken. length m \<le> longest" by blast
      with 2 Get show ?thesis
        by (intro exI [of _ sent] exI [of _ "(m, k) # taken"] exI [of _ s2]) auto
    qed
  qed
qed

text \<open>With buffers as long as the longest message nothing that is taken is lost.\<close>

lemma run_exactly_once:
  assumes "ok s" "list_all (op_ok longest) ops"
  shows "\<exists>sent got s'. chan_run put get ops s = Some (sent, got, s') \<and> ok s' \<and> queued s @ sent = got @ queued s'"
proof -
  have "list_all (op_ok 0) ops" using assms(2) by (rule list.pred_mono_strong) (auto elim!: op_ok.elims)
  from run_taken [OF assms(1) this] obtain sent taken s' where
    run: "chan_run put get ops s = Some (sent, delivered taken, s')" "ok s'" "queued s @ sent = map fst taken @ queued s'"
    and sizes: "subseq (map snd taken) (get_sizes ops)" "\<forall>(m, k) \<in> set taken. length m \<le> longest" by blast
  have "longest \<le> k" if "k \<in> set (get_sizes ops)" for k using assms(2) that
    by (induction ops rule: get_sizes.induct) auto
  moreover have "snd x \<in> set (get_sizes ops)" if "x \<in> set taken" for x
    using list_emb_set [OF sizes(1), of "snd x"] that by auto
  ultimately have "\<forall>(m, k) \<in> set taken. length m \<le> k" using sizes(2) by (fastforce intro: order_trans)
  with run show ?thesis by (auto simp: delivered_all)
qed

end

end
