(* ===== verification/Its_Packet.thy ===== *)
theory Its_Packet
  imports Its_Channel
begin

section \<open>Inter-task streams: a packet link as a channel\<close>

text \<open>
  One direction of a packet connection, seen with what surrounds it: the environment, the meaning
  of its stream buffers, the handle and its two ends, the link, the heap blocks that are not the
  transport's, and the payload counters without this link's share. \<open>link_ok\<close> says that the ring
  holds whole descriptors, that the transport owns exactly the blocks they point to and has
  touched no other, that the counters count them, and that the window is respected.
\<close>

record ('b, 'q) link_view =
  v_env :: "('b, 'q) its_env"
  v_cap :: "'b \<Rightarrow> nat"
  v_cont :: "'b \<Rightarrow> bytes"
  v_handle :: int
  v_sender :: task
  v_receiver :: task
  v_link :: nat
  v_maxMsg :: u32
  v_heap :: "ptr \<Rightarrow> bytes option"
  v_blocks :: u32
  v_bytes :: u32

definition d_msg :: "(ptr \<Rightarrow> bytes option) \<Rightarrow> its_desc \<Rightarrow> bytes" where
  "d_msg h d = take (unat (d_len d)) (the (h (d_ptr d)))"

definition link_descs :: "('b, 'q) link_view \<Rightarrow> ('b, 'q) its_state \<Rightarrow> its_desc list" where
  "link_descs v st = ring_descs (v_cont v) (links st ! v_link v)"

definition link_queue :: "('b, 'q) link_view \<Rightarrow> ('b, 'q) its_state \<Rightarrow> bytes list" where
  "link_queue v st = map (d_msg (heap st)) (link_descs v st)"

definition owns :: "(ptr \<Rightarrow> bytes option) \<Rightarrow> its_desc list \<Rightarrow> (ptr \<Rightarrow> bytes option) \<Rightarrow> bool" where
  "owns hb ds h \<longleftrightarrow>
     distinct (map d_ptr ds)
     \<and> (\<forall>d\<in>set ds. d_ptr d \<noteq> 0 \<and> hb (d_ptr d) = None \<and> (\<exists>bs. h (d_ptr d) = Some bs \<and> unat (d_len d) \<le> length bs))
     \<and> (\<forall>p. p \<notin> d_ptr ` set ds \<longrightarrow> h p = hb p)"

definition desc_sum :: "its_desc list \<Rightarrow> nat" where
  "desc_sum ds = sum_list (map (\<lambda>d. unat (d_len d)) ds)"

definition link_window :: "u32 \<Rightarrow> 'b its_link \<Rightarrow> its_desc list \<Rightarrow> bool" where
  "link_window mx L ds \<longleftrightarrow>
     l_maxMsg L = mx \<and> mx < 2 ^ 31 \<and> l_byteCap L < 2 ^ 31
     \<and> (\<forall>d\<in>set ds. 0 < d_len d \<and> d_len d \<le> mx)
     \<and> unat (l_outstanding L) = desc_sum ds
     \<and> desc_sum ds \<le> max (unat (l_byteCap L)) (unat mx)"

definition link_ok :: "('b, 'q) link_view \<Rightarrow> ('b, 'q) its_state \<Rightarrow> bool" where
  "link_ok v st \<longleftrightarrow>
     sb_laws (e_rtos (v_env v)) (v_cap v) (v_cont v) \<and> malloc_laws (v_env v)
     \<and> sendLink (v_sender v) (v_handle v) st = Some (v_link v)
     \<and> recvLink (v_receiver v) (v_handle v) st = Some (v_link v)
     \<and> ring_rep (v_cap v) (v_cont v) (links st ! v_link v) (link_descs v st)
     \<and> link_window (v_maxMsg v) (links st ! v_link v) (link_descs v st)
     \<and> owns (v_heap v) (link_descs v st) (heap st)
     \<and> liveBlocks (payCtr st) = v_blocks v + of_nat (length (link_descs v st))
     \<and> liveBytes (payCtr st) = v_bytes v + l_outstanding (links st ! v_link v)"

subsection \<open>Ownership\<close>

lemma owns_absent: "owns hb ds h \<Longrightarrow> h p = None \<Longrightarrow> p \<notin> d_ptr ` set ds"
  by (auto simp: owns_def)

lemma owns_add:
  assumes "owns hb ds h" "h p = None" "p \<noteq> 0" "unat len \<le> length bs"
  shows "owns hb (ds @ [\<lparr>d_len = len, d_ptr = p\<rparr>]) (h(p \<mapsto> bs))"
proof -
  have p: "p \<notin> d_ptr ` set ds" by (rule owns_absent [OF assms(1,2)])
  moreover have "hb p = None" using assms(1,2) p unfolding owns_def by metis
  ultimately show ?thesis using assms unfolding owns_def by (simp add: image_iff) metis
qed

lemma owns_head:
  assumes "owns hb (d # ds) h"
  shows "d_ptr d \<noteq> 0" "hb (d_ptr d) = None" "d_ptr d \<notin> d_ptr ` set ds"
    "\<exists>bs. h (d_ptr d) = Some bs \<and> unat (d_len d) \<le> length bs"
  using assms by (simp_all add: owns_def)

lemma owns_remove:
  assumes "owns hb (d # ds) h"
  shows "owns hb ds (h(d_ptr d := None))"
  using assms owns_head [OF assms] unfolding owns_def by (simp add: image_iff) metis

lemma owns_handoff:
  assumes "owns hb (d # ds) h" "h (d_ptr d) = Some bs"
  shows "owns (hb(d_ptr d \<mapsto> bs)) ds h"
  using assms owns_head [OF assms(1)] unfolding owns_def by (simp add: image_iff) metis

lemma owns_adopt:
  assumes "owns hb ds h" "hb p = Some bs"
  shows "owns (hb(p := None)) ds (h(p := None))" "h p = Some bs"
proof -
  have "p \<notin> d_ptr ` set ds" using assms by (auto simp: owns_def)
  then show "owns (hb(p := None)) ds (h(p := None))" "h p = Some bs"
    using assms by (auto simp: owns_def)
qed

lemma map_d_msg_other: "p \<notin> d_ptr ` set ds \<Longrightarrow> map (d_msg (h(p := x))) ds = map (d_msg h) ds"
  by (auto simp: d_msg_def image_iff)

subsection \<open>The window\<close>

lemma desc_sum_simps [simp]:
  "desc_sum [] = 0" "desc_sum (d # ds) = unat (d_len d) + desc_sum ds" "desc_sum (ds @ es) = desc_sum ds + desc_sum es"
  by (simp_all add: desc_sum_def)

lemma window_add:
  assumes "link_window mx L ds" "0 < len" "len \<le> mx" "l_outstanding L = 0 \<or> l_outstanding L + len \<le> l_byteCap L"
  shows "unat (l_outstanding L + len) = unat (l_outstanding L) + unat len"
    "unat (l_outstanding L) + unat len \<le> max (unat (l_byteCap L)) (unat mx)"
proof -
  have b: "unat mx < 2 ^ 31" "unat (l_byteCap L) < 2 ^ 31"
    using assms(1) by (simp_all add: link_window_def word_less_nat_alt)
  have o: "unat (l_outstanding L) \<le> max (unat (l_byteCap L)) (unat mx)" using assms(1) by (simp add: link_window_def)
  have l: "unat len \<le> unat mx" using assms(3) by (simp add: word_le_nat_alt)
  have "unat (l_outstanding L) + unat len < 2 ^ 32" using b o l by (simp add: max_def split: if_splits)
  then show u: "unat (l_outstanding L + len) = unat (l_outstanding L) + unat len"
    by (simp add: unat_word_ariths)
  show "unat (l_outstanding L) + unat len \<le> max (unat (l_byteCap L)) (unat mx)"
    using assms(4) l u by (auto simp: word_le_nat_alt)
qed

text \<open>One message more in the window, and the oldest one out of it.\<close>

lemma window_put:
  assumes "link_window mx L ds" "0 < len" "len \<le> mx" "l_outstanding L = 0 \<or> l_outstanding L + len \<le> l_byteCap L"
  shows "link_window mx (L\<lparr>l_outstanding := l_outstanding L + len, l_ring := r\<rparr>) (ds @ [\<lparr>d_len = len, d_ptr = p\<rparr>])"
  using assms window_add [OF assms] by (auto simp: link_window_def)

lemma window_get:
  assumes "link_window mx L (d # ds)"
  shows "link_window mx (L\<lparr>l_outstanding := l_outstanding L - d_len d\<rparr>) ds"
proof -
  have "unat (d_len d) \<le> unat (l_outstanding L)" using assms by (simp add: link_window_def)
  then have "unat (l_outstanding L - d_len d) = unat (l_outstanding L) - unat (d_len d)"
    by (simp add: unat_sub word_le_nat_alt)
  then show ?thesis using assms by (auto simp: link_window_def)
qed

lemma window_ok_cong:
  "link_window mx L ds \<Longrightarrow> l_maxMsg L' = l_maxMsg L \<Longrightarrow> l_byteCap L' = l_byteCap L \<Longrightarrow> l_outstanding L' = l_outstanding L
    \<Longrightarrow> link_window mx L' ds"
  by (simp add: link_window_def)

subsection \<open>The operations\<close>

lemma ctr_sel [simp]:
  "liveBlocks (ctrAdd n c) = liveBlocks c + 1" "liveBytes (ctrAdd n c) = liveBytes c + of_nat n"
  "liveBlocks (ctrSub n c) = liveBlocks c - 1" "liveBytes (ctrSub n c) = liveBytes c - of_nat n"
  by (simp_all add: ctrAdd_def ctrSub_def Let_def)

lemma link_bound: "link_ok v st \<Longrightarrow> v_link v < length (links st)"
  unfolding link_ok_def using sendLink_bound(1) by blast

text \<open>A block put at a free address and its descriptor enqueued.\<close>

lemma enqueue_ok:
  fixes v :: "('b, 'q) link_view"
  assumes ok: "link_ok v st" and can: "linkCanSend (v_env v) (links st ! v_link v) len"
    and len: "0 < len" "len \<le> v_maxMsg v" and p: "heap st p = None" "p \<noteq> 0" and bs: "unat len \<le> length bs"
  defines "st' \<equiv> linkEnqueue (v_env v) (v_sender v) (v_handle v) (v_link v) p len
             (st\<lparr>heap := (heap st)(p \<mapsto> bs), payCtr := ctrAdd (unat len) (payCtr st)\<rparr>)"
  shows "link_ok v st'" "link_queue v st' = link_queue v st @ [take (unat len) bs]"
proof -
  let ?L = "links st ! v_link v" and ?ds = "link_descs v st" and ?d = "\<lparr>d_len = len, d_ptr = p\<rparr>"
  let ?L' = "?L\<lparr>l_outstanding := l_outstanding ?L + len,
      l_ring := map_option (\<lambda>b. snd (sbSend (e_rtos (v_env v)) b (desc_bytes ?d))) (l_ring ?L)\<rparr>"
  have i: "v_link v < length (links st)" by (rule link_bound [OF ok])
  have L: "links st' ! v_link v = ?L'" "length (links st') = length (links st)"
    "connTable st' = connTable st" "heap st' = (heap st)(p \<mapsto> bs)" "payCtr st' = ctrAdd (unat len) (payCtr st)"
    using i by (simp_all add: st'_def linkEnqueue_def its_sel)
  note ok' = ok [unfolded link_ok_def]
  have rep: "ring_rep (v_cap v) (v_cont v) ?L' (?ds @ [?d])"
    using ring_send [of "v_env v" "v_cap v" "v_cont v" ?L ?ds] ok' can by (simp add: linkCanSend_def SIZEOF_ITS_DESC_def)
  then have ds: "link_descs v st' = ?ds @ [?d]" unfolding link_descs_def L(1) by (rule ring_rep_descs)
  have win: "link_window (v_maxMsg v) ?L' (?ds @ [?d])"
    by (rule window_put) (use ok' len can in \<open>simp_all add: linkCanSend_def\<close>)
  have own: "owns (v_heap v) (?ds @ [?d]) ((heap st)(p \<mapsto> bs))"
    by (rule owns_add) (use ok' p bs in simp_all)
  show "link_ok v st'"
    using ok' rep win own
    by (simp add: link_ok_def ds L sendLink_frame [OF L(3,2)])
  have "p \<notin> d_ptr ` set ?ds" using ok' p owns_absent by blast
  then show "link_queue v st' = link_queue v st @ [take (unat len) bs]"
    by (simp add: link_queue_def ds L map_d_msg_other) (simp add: d_msg_def)
qed

text \<open>The receiving side without a wait: an empty ring gives nothing, else the oldest descriptor.\<close>

lemma dequeue_none:
  assumes "link_ok v st" "link_descs v st = []"
  shows "linkDequeue (v_env v) (v_receiver v) (v_handle v) (v_link v) 0 st = Some (None, st)"
proof -
  have "ringAvail (v_env v) (links st ! v_link v) = 0"
    using assms ring_spaces(2) [of "v_env v" "v_cap v" "v_cont v" "links st ! v_link v" "[]"] by (simp add: link_ok_def)
  then show ?thesis
    by (simp add: linkDequeue_def linkDequeueWait.simps SIZEOF_ITS_DESC_def Let_def)
qed

lemma dequeue_some:
  assumes ok: "link_ok v st" and ds: "link_descs v st = d # ds"
  obtains st' where "linkDequeue (v_env v) (v_receiver v) (v_handle v) (v_link v) 0 st = Some (Some d, st')"
    "connTable st' = connTable st" "length (links st') = length (links st)" "heap st' = heap st" "payCtr st' = payCtr st"
    "l_outstanding (links st' ! v_link v) = l_outstanding (links st ! v_link v) - d_len d"
    "ring_rep (v_cap v) (v_cont v) (links st' ! v_link v) ds" "link_window (v_maxMsg v) (links st' ! v_link v) ds"
proof -
  let ?R = "e_rtos (v_env v)" and ?i = "v_link v"
  let ?L = "links st ! ?i"
  note ok' = ok [unfolded link_ok_def ds]
  have i: "?i < length (links st)" by (rule link_bound [OF ok])
  obtain b where b: "l_ring ?L = Some b" using ok' by (auto simp: ring_rep_def)
  have avail: "ringAvail (v_env v) ?L = 8 * length (d # ds)"
    using ok' ring_spaces(2) by blast
  have rr: "fst (sbReceive ?R b 8) = desc_bytes d"
    "ring_rep (v_cap v) (v_cont v) (?L\<lparr>l_ring := Some (snd (sbReceive ?R b 8))\<rparr>) ds"
    using ring_receive [of "v_env v" "v_cap v" "v_cont v" ?L d ds b] ok' b by simp_all
  define st1 where "st1 = link_upd ?i (\<lambda>L. L\<lparr>l_ring := Some (snd (sbReceive ?R b 8))\<rparr>) st"
  define st2 where "st2 = link_upd ?i (\<lambda>L. L\<lparr>l_outstanding := l_outstanding L - d_len d\<rparr>) st1"
  define st' where "st' = linkWakeSender (v_receiver v) (v_handle v) ?i st2"
  have run: "linkDequeue (v_env v) (v_receiver v) (v_handle v) ?i 0 st = Some (Some d, st')"
    by (simp add: linkDequeue_def linkDequeueWait.simps SIZEOF_ITS_DESC_def Let_def avail b rr(1) st'_def st2_def st1_def)
  have L': "links st' ! ?i = ?L\<lparr>l_ring := Some (snd (sbReceive ?R b 8)), l_outstanding := l_outstanding ?L - d_len d,
      l_sem := sem_give (l_sem ?L)\<rparr>"
    using i by (simp add: st'_def st2_def st1_def linkWakeSender_def its_sel)
  show ?thesis
  proof (rule that [OF run])
    show "ring_rep (v_cap v) (v_cont v) (links st' ! ?i) ds" using rr(2) by (simp add: L' ring_rep_def)
    show "link_window (v_maxMsg v) (links st' ! ?i) ds"
      by (rule window_ok_cong [OF window_get [of "v_maxMsg v" ?L d ds]]) (use ok' in \<open>simp_all add: L'\<close>)
  qed (simp_all add: st'_def st2_def st1_def linkWakeSender_def its_sel i)
qed

text \<open>What is left of the view when the oldest block leaves the link.\<close>

lemma dequeued_ok:
  assumes ok: "link_ok v st" and ds: "link_descs v st = d # ds"
    and st': "connTable st' = connTable st" "length (links st') = length (links st)"
    "l_outstanding (links st' ! v_link v) = l_outstanding (links st ! v_link v) - d_len d"
    "ring_rep (v_cap v) (v_cont v) (links st' ! v_link v) ds" "link_window (v_maxMsg v) (links st' ! v_link v) ds"
    and ctr: "liveBlocks (payCtr st') = liveBlocks (payCtr st) - 1" "liveBytes (payCtr st') = liveBytes (payCtr st) - d_len d"
    and own: "owns hb ds (heap st')"
  shows "link_ok (v\<lparr>v_heap := hb\<rparr>) st'" "link_descs v st' = ds"
proof -
  note ok' = ok [unfolded link_ok_def ds]
  show d: "link_descs v st' = ds" unfolding link_descs_def by (rule ring_rep_descs [OF st'(4)])
  then have "link_descs (v\<lparr>v_heap := hb\<rparr>) st' = ds" by (simp add: link_descs_def)
  then show "link_ok (v\<lparr>v_heap := hb\<rparr>) st'"
    using ok' st'(3-5) ctr own by (simp add: link_ok_def sendLink_frame [OF st'(1,2)])
qed

lemma link_view_same [simp]: "v\<lparr>v_heap := v_heap v\<rparr> = v"
  by simp

lemma link_queue_head:
  assumes "link_ok v st" "link_descs v st = d # ds"
  shows "link_queue v st = d_msg (heap st) d # map (d_msg (heap st)) ds"
    "\<exists>bs. heap st (d_ptr d) = Some bs \<and> d_msg (heap st) d = take (unat (d_len d)) bs \<and> unat (d_len d) \<le> length bs"
    "length (d_msg (heap st) d) = unat (d_len d)" "d_ptr d \<noteq> 0" "d_ptr d \<notin> d_ptr ` set ds"
proof -
  have own: "owns (v_heap v) (d # ds) (heap st)" using assms by (simp add: link_ok_def)
  from owns_head [OF own] show "\<exists>bs. heap st (d_ptr d) = Some bs \<and> d_msg (heap st) d = take (unat (d_len d)) bs \<and> unat (d_len d) \<le> length bs"
    "length (d_msg (heap st) d) = unat (d_len d)" "d_ptr d \<noteq> 0" "d_ptr d \<notin> d_ptr ` set ds"
    by (auto simp: d_msg_def)
  show "link_queue v st = d_msg (heap st) d # map (d_msg (heap st)) ds" by (simp add: link_queue_def assms(2))
qed

subsection \<open>Copying sends and receives\<close>

definition link_fits :: "('b, 'q) link_view \<Rightarrow> ('b, 'q) its_state \<Rightarrow> bytes \<Rightarrow> bool" where
  "link_fits v st m \<longleftrightarrow>
     m \<noteq> [] \<and> length m \<le> unat (v_maxMsg v) \<and> linkCanSend (v_env v) (links st ! v_link v) (of_nat (length m))
     \<and> e_malloc (v_env v) (heap st) (length m) \<noteq> None"

lemma itsSend_link:
  assumes "link_ok v st"
  shows "itsSend (v_env v) (v_sender v) (v_handle v) m t st =
     map_option (\<lambda>(n, st1). (unat n, st1)) (itsSendPacket (v_env v) (v_sender v) (v_handle v) (v_link v) (Copy m) t st)"
proof -
  have s: "sendLink (v_sender v) (v_handle v) st = Some (v_link v)" using assms by (simp add: link_ok_def)
  from s obtain c where "conn (v_handle v) st = Some c" "c_kind c = ITS_PACKET" by (rule sendLink_packet)
  with s show ?thesis by (simp add: itsSend_def)
qed

lemma len_word:
  assumes "length m < 2 ^ 32"
  shows "unat (of_nat (length m) :: u32) = length m" "(of_nat (length m) :: u32) = 0 \<longleftrightarrow> m = []"
proof -
  show u: "unat (of_nat (length m) :: u32) = length m" using assms by (simp add: unat_of_nat)
  then show "(of_nat (length m) :: u32) = 0 \<longleftrightarrow> m = []" by (metis length_0_conv unat_0 unat_eq_zero)
qed

lemma link_maxMsg: "link_ok v st \<Longrightarrow> l_maxMsg (links st ! v_link v) = v_maxMsg v"
  by (simp add: link_ok_def link_window_def)

lemma payCtr_heap: "st\<lparr>payCtr := c, heap := h\<rparr> = st\<lparr>heap := h, payCtr := c\<rparr>"
  by simp

lemma link_put_fits:
  assumes ok: "link_ok v st" and m: "length m < 2 ^ 32" and fits: "link_fits v st m"
  shows "\<exists>st'. itsSend (v_env v) (v_sender v) (v_handle v) m 0 st = Some (length m, st')
           \<and> link_ok v st' \<and> link_queue v st' = link_queue v st @ [m]"
proof -
  let ?len = "of_nat (length m) :: u32"
  note lw = len_word [OF m]
  obtain p where p: "e_malloc (v_env v) (heap st) (length m) = Some p" using fits by (auto simp: link_fits_def)
  then have p0: "p \<noteq> 0" "heap st p = None" using ok by (auto simp: link_ok_def malloc_laws_def)
  let ?st' = "linkEnqueue (v_env v) (v_sender v) (v_handle v) (v_link v) p ?len
     (st\<lparr>heap := (heap st)(p \<mapsto> m), payCtr := ctrAdd (length m) (payCtr st)\<rparr>)"
  have "itsSendPacket (v_env v) (v_sender v) (v_handle v) (v_link v) (Copy m) 0 st = Some (?len, ?st')"
    using fits p p0 lw link_maxMsg [OF ok]
    by (simp add: itsSendPacket_def link_fits_def Let_def word_less_nat_alt linkWaitForSpace_def
        payAlloc_def heap_malloc_def heap_write_def payCtr_heap)
  moreover have "0 < ?len" using fits lw by (simp add: word_neq_0_conv link_fits_def)
  moreover have "?len \<le> v_maxMsg v" using fits lw by (simp add: word_le_nat_alt link_fits_def)
  ultimately show ?thesis
    using enqueue_ok [OF ok, of ?len p m] fits p0 lw by (simp add: itsSend_link [OF ok] link_fits_def)
qed

lemma link_put_refused:
  assumes ok: "link_ok v st" and m: "length m < 2 ^ 32" and fits: "\<not> link_fits v st m"
  shows "itsSend (v_env v) (v_sender v) (v_handle v) m 0 st = Some (0, st)"
proof -
  note lw = len_word [OF m]
  have "itsSendPacket (v_env v) (v_sender v) (v_handle v) (v_link v) (Copy m) 0 st = Some (0, st)"
    using fits lw link_maxMsg [OF ok]
    by (auto simp: itsSendPacket_def link_fits_def Let_def word_less_nat_alt linkWaitForSpace_def
        payAlloc_def heap_malloc_def)
  then show ?thesis by (simp add: itsSend_link [OF ok])
qed

text \<open>What fits, in terms of the space the module reports.\<close>

lemma canSend_space:
  assumes w: "link_window mx L ds" and len: "0 < len" "len \<le> mx"
  shows "linkCanSend E L len \<longleftrightarrow> len \<le> linkSendSpace E L"
proof (cases "l_outstanding L = 0")
  case True
  then show ?thesis using w len by (auto simp: linkCanSend_def linkSendSpace_def link_window_def)
next
  case False
  let ?o = "l_outstanding L"
  have b: "unat mx < 2 ^ 31" "unat (l_byteCap L) < 2 ^ 31" "unat ?o \<le> max (unat (l_byteCap L)) (unat mx)"
    using w by (simp_all add: link_window_def word_less_nat_alt)
  have l: "unat len \<le> unat mx" "0 < unat len" using len by (simp_all add: word_le_nat_alt unat_gt_0 word_neq_0_conv)
  have "unat ?o + unat len < 2 ^ 32" using b l by (simp add: max_def split: if_splits)
  then have "unat (?o + len) = unat ?o + unat len" by (simp add: unat_word_ariths)
  moreover have "unat (l_byteCap L - ?o) = unat (l_byteCap L) - unat ?o" if "?o < l_byteCap L"
    using that by (simp add: unat_sub word_le_nat_alt word_less_nat_alt)
  ultimately show ?thesis using False l(2)
    by (auto simp: linkCanSend_def linkSendSpace_def Let_def word_le_nat_alt word_less_nat_alt)
qed

lemma link_fits_spaces:
  assumes ok: "link_ok v st" and m: "length m < 2 ^ 32" and block: "e_malloc (v_env v) (heap st) (length m) \<noteq> None"
  shows "link_fits v st m \<longleftrightarrow>
    m \<noteq> [] \<and> length m \<le> unat (v_maxMsg v) \<and> length m \<le> itsSpacesAvailable (v_env v) (v_sender v) (v_handle v) st"
proof -
  note lw = len_word [OF m]
  have w: "link_window (v_maxMsg v) (links st ! v_link v) (link_descs v st)"
    and s: "sendLink (v_sender v) (v_handle v) st = Some (v_link v)" using ok by (simp_all add: link_ok_def)
  show ?thesis
  proof (cases "m \<noteq> [] \<and> length m \<le> unat (v_maxMsg v)")
    case True
    then have "0 < (of_nat (length m) :: u32)" "of_nat (length m) \<le> v_maxMsg v"
      using lw by (simp_all add: word_neq_0_conv word_le_nat_alt)
    from canSend_space [OF w this] True block lw show ?thesis
      by (simp add: link_fits_def itsSpacesAvailable_def s word_le_nat_alt)
  qed (auto simp: link_fits_def)
qed

lemma itsRecv_link:
  assumes "link_ok v st"
  shows "itsRecv (v_env v) (v_receiver v) (v_handle v) k t st =
     recvPacket (v_env v) (v_receiver v) (v_handle v) (v_link v) k t st"
proof -
  have s: "recvLink (v_receiver v) (v_handle v) st = Some (v_link v)" using assms by (simp add: link_ok_def)
  from s obtain c where "conn (v_handle v) st = Some c" "c_kind c = ITS_PACKET" by (rule recvLink_packet)
  with s show ?thesis by (simp add: itsRecv_def)
qed

lemma link_get_none:
  assumes "link_ok v st" "link_queue v st = []"
  shows "itsRecv (v_env v) (v_receiver v) (v_handle v) k 0 st = Some ([], st)"
  using dequeue_none [OF assms(1)] assms(2)
  by (simp add: itsRecv_link [OF assms(1)] recvPacket_def link_queue_def)

lemma link_get_some:
  assumes ok: "link_ok v st" and q: "link_queue v st = m # ms"
  shows "\<exists>st'. itsRecv (v_env v) (v_receiver v) (v_handle v) k 0 st = Some (if length m \<le> k then m else [], st')
           \<and> link_ok v st' \<and> link_queue v st' = ms"
proof -
  from q obtain d ds where ds: "link_descs v st = d # ds" by (cases "link_descs v st") (auto simp: link_queue_def)
  note H = link_queue_head [OF ok ds]
  obtain st1 where st1: "linkDequeue (v_env v) (v_receiver v) (v_handle v) (v_link v) 0 st = Some (Some d, st1)"
    "connTable st1 = connTable st" "length (links st1) = length (links st)" "heap st1 = heap st" "payCtr st1 = payCtr st"
    "l_outstanding (links st1 ! v_link v) = l_outstanding (links st ! v_link v) - d_len d"
    "ring_rep (v_cap v) (v_cont v) (links st1 ! v_link v) ds" "link_window (v_maxMsg v) (links st1 ! v_link v) ds"
    by (rule dequeue_some [OF ok ds]) blast
  obtain bs where bs: "heap st (d_ptr d) = Some bs" "m = take (unat (d_len d)) bs" "unat (d_len d) \<le> length bs"
    using H(1,2) q by auto
  define st' where "st' = st1\<lparr>heap := (heap st)(d_ptr d := None), payCtr := ctrSub (unat (d_len d)) (payCtr st)\<rparr>"
  have drop: "payDrop (d_ptr d) (unat (d_len d)) st1 = Some st'"
    using H(4) bs st1(4,5) by (simp add: payDrop_def heap_free_def st'_def)
  have run: "itsRecv (v_env v) (v_receiver v) (v_handle v) k 0 st = Some (if length m \<le> k then m else [], st')"
    using bs st1(4) drop by (simp add: itsRecv_link [OF ok] recvPacket_def st1(1) heap_read_def)
  have own: "owns (v_heap v) ds (heap st')"
    using owns_remove [of "v_heap v" d ds "heap st"] ok ds by (simp add: link_ok_def st'_def)
  have "link_ok (v\<lparr>v_heap := v_heap v\<rparr>) st'" "link_descs v st' = ds"
    by (rule dequeued_ok [OF ok ds _ _ _ _ _ _ _ own]; use st1 in \<open>simp add: st'_def its_sel\<close>)+
  moreover from this have "link_queue v st' = ms"
    using q H(1,5) by (simp add: link_queue_def st'_def map_d_msg_other)
  ultimately show ?thesis using run by simp
qed

interpretation link: message_channel "link_ok v" "link_queue v" "link_fits v"
  "\<lambda>m. itsSend (v_env v) (v_sender v) (v_handle v) m 0"
  "\<lambda>k. itsRecv (v_env v) (v_receiver v) (v_handle v) k 0" "unat (v_maxMsg v)" for v
proof (unfold_locales, goal_cases)
  case (1 s m)
  then show ?case by (rule link_put_fits)
next
  case (2 s m)
  then show ?case using link_put_refused by blast
next
  case (3 s k)
  then show ?case using link_get_none by blast
next
  case (4 s m ms k)
  then show ?case by (rule link_get_some)
next
  case (5 s m)
  then obtain d where d: "d \<in> set (link_descs v s)" "m = d_msg (heap s) d" by (auto simp: link_queue_def)
  moreover have "0 < d_len d" "d_len d \<le> v_maxMsg v" using 5 d(1) by (simp_all add: link_ok_def link_window_def)
  moreover obtain bs where "heap s (d_ptr d) = Some bs" "unat (d_len d) \<le> length bs"
    using 5(1) d(1) unfolding link_ok_def owns_def by blast
  ultimately have "length m = unat (d_len d)" "0 < unat (d_len d)" "unat (d_len d) \<le> unat (v_maxMsg v)"
    by (simp_all add: d_msg_def word_le_nat_alt unat_gt_0 word_neq_0_conv)
  then show ?case by auto
qed

end
