(* ===== verification/Its_Owner.thy ===== *)
theory Its_Owner
  imports Its_Packet
begin

section \<open>Inter-task streams: who owns a payload\<close>

text \<open>
  The zero-copy calls move a block between a caller and the transport, and the teardown of a
  connection frees what is still in flight on it, once.
\<close>

subsection \<open>Zero-copy\<close>

lemma adopt_view:
  assumes ok: "link_ok v st" and p: "v_heap v p = Some bs"
  shows "link_ok (v\<lparr>v_heap := (v_heap v)(p := None)\<rparr>) (st\<lparr>heap := (heap st)(p := None)\<rparr>)"
    "link_queue v (st\<lparr>heap := (heap st)(p := None)\<rparr>) = link_queue v st" "heap st p = Some bs"
proof -
  note ok' = ok [unfolded link_ok_def]
  have own: "owns (v_heap v) (link_descs v st) (heap st)" using ok' by blast
  have d: "link_descs (v\<lparr>v_heap := h\<rparr>) (st\<lparr>heap := h'\<rparr>) = link_descs v st" for h h'
    by (simp add: link_descs_def its_sel)
  have f: "connTable (st\<lparr>heap := h'\<rparr>) = connTable st" "length (links (st\<lparr>heap := h'\<rparr>)) = length (links st)" for h'
    by (simp_all add: its_sel)
  show "link_ok (v\<lparr>v_heap := (v_heap v)(p := None)\<rparr>) (st\<lparr>heap := (heap st)(p := None)\<rparr>)"
    using ok' owns_adopt(1) [OF own p] by (simp add: link_ok_def d sendLink_frame [OF f] its_sel)
  have "p \<notin> d_ptr ` set (link_descs v st)" using own p by (auto simp: owns_def)
  moreover have "link_descs v (st\<lparr>heap := (heap st)(p := None)\<rparr>) = link_descs v st" by (simp add: link_descs_def its_sel)
  ultimately show "link_queue v (st\<lparr>heap := (heap st)(p := None)\<rparr>) = link_queue v st"
    by (simp add: link_queue_def map_d_msg_other)
  show "heap st p = Some bs" by (rule owns_adopt(2) [OF own p])
qed

lemma link_queue_view [simp]: "link_queue (v\<lparr>v_heap := h\<rparr>) st = link_queue v st"
  by (simp add: link_queue_def link_descs_def)

lemma send_owned_ok:
  assumes ok: "link_ok v st" and p: "v_heap v p = Some bs" "p \<noteq> 0" "unat len \<le> length bs"
    and fits: "0 < len" "len \<le> v_maxMsg v" "linkCanSend (v_env v) (links st ! v_link v) len"
  shows "\<exists>st'. itsSendOwned (v_env v) (v_sender v) (v_handle v) p len 0 st = Some (len, st')
      \<and> link_ok (v\<lparr>v_heap := (v_heap v)(p := None)\<rparr>) st'
      \<and> link_queue v st' = link_queue v st @ [take (unat len) bs] \<and> heap st' = heap st"
proof -
  let ?v = "v\<lparr>v_heap := (v_heap v)(p := None)\<rparr>" and ?st0 = "st\<lparr>heap := (heap st)(p := None)\<rparr>"
  note A = adopt_view [OF ok p(1)]
  let ?st' = "linkEnqueue (v_env v) (v_sender v) (v_handle v) (v_link v) p len (payAdopt (unat len) st)"
  have "(heap st)(p \<mapsto> bs) = heap st" using A(3) by (simp add: fun_upd_idem)
  then have eq: "st\<lparr>heap := (heap st)(p \<mapsto> bs), payCtr := ctrAdd (unat len) (payCtr st)\<rparr> = payAdopt (unat len) st"
    by (simp add: payAdopt_def)
  have enq: "link_ok ?v ?st'" "link_queue ?v ?st' = link_queue ?v ?st0 @ [take (unat len) bs]"
    using enqueue_ok [OF A(1), of len p bs] fits p by (simp_all add: its_sel eq)
  have send: "sendLink (v_sender v) (v_handle v) st = Some (v_link v)" using ok by (simp add: link_ok_def)
  have run: "itsSendOwned (v_env v) (v_sender v) (v_handle v) p len 0 st = Some (len, ?st')"
    using fits link_maxMsg [OF ok]
    by (auto simp: itsSendOwned_def send itsSendPacket_def Let_def linkWaitForSpace_def)
  have "heap ?st' = heap st" by (simp add: linkEnqueue_def payAdopt_def its_sel)
  with run enq A(2) show ?thesis by simp
qed

lemma send_owned_refused:
  assumes ok: "link_ok v st" and fits: "\<not> (0 < len \<and> len \<le> v_maxMsg v \<and> linkCanSend (v_env v) (links st ! v_link v) len)"
  shows "itsSendOwned (v_env v) (v_sender v) (v_handle v) p len 0 st = Some (0, st)"
proof -
  have "sendLink (v_sender v) (v_handle v) st = Some (v_link v)" using ok by (simp add: link_ok_def)
  then show ?thesis using fits link_maxMsg [OF ok]
    by (auto simp: itsSendOwned_def itsSendPacket_def Let_def linkWaitForSpace_def word_neq_0_conv)
qed

lemma recv_ref_ok:
  assumes ok: "link_ok v st" and q: "link_queue v st = m # ms"
  obtains p len bs st' where "itsRecvRef (v_env v) (v_receiver v) (v_handle v) 0 st = Some (Some (p, len), st')"
    "v_heap v p = None" "heap st p = Some bs" "m = take (unat len) bs" "heap st' = heap st"
    "link_ok (v\<lparr>v_heap := (v_heap v)(p \<mapsto> bs)\<rparr>) st'" "link_queue v st' = ms" "unat len \<le> length bs"
proof -
  from q obtain d ds where ds: "link_descs v st = d # ds" by (cases "link_descs v st") (auto simp: link_queue_def)
  note H = link_queue_head [OF ok ds]
  obtain st1 where st1: "linkDequeue (v_env v) (v_receiver v) (v_handle v) (v_link v) 0 st = Some (Some d, st1)"
    "connTable st1 = connTable st" "length (links st1) = length (links st)" "heap st1 = heap st" "payCtr st1 = payCtr st"
    "l_outstanding (links st1 ! v_link v) = l_outstanding (links st ! v_link v) - d_len d"
    "ring_rep (v_cap v) (v_cont v) (links st1 ! v_link v) ds" "link_window (v_maxMsg v) (links st1 ! v_link v) ds"
    by (rule dequeue_some [OF ok ds]) blast
  obtain bs where bs: "heap st (d_ptr d) = Some bs" "m = take (unat (d_len d)) bs" "unat (d_len d) \<le> length bs"
    using H(1,2) q by auto
  have own: "owns (v_heap v) (d # ds) (heap st)" using ok ds by (simp add: link_ok_def)
  let ?st' = "payHandoff (unat (d_len d)) st1"
  have own': "owns ((v_heap v)(d_ptr d \<mapsto> bs)) ds (heap ?st')"
    using owns_handoff [OF own bs(1)] st1(4) by (simp add: payHandoff_def)
  have D: "link_ok (v\<lparr>v_heap := (v_heap v)(d_ptr d \<mapsto> bs)\<rparr>) ?st'" "link_descs v ?st' = ds"
    by (rule dequeued_ok [OF ok ds _ _ _ _ _ _ _ own']; use st1 in \<open>simp add: payHandoff_def its_sel\<close>)+
  show ?thesis
  proof (rule that)
    show "itsRecvRef (v_env v) (v_receiver v) (v_handle v) 0 st = Some (Some (d_ptr d, d_len d), ?st')"
      using ok st1(1) by (simp add: itsRecvRef_def link_ok_def)
    have "link_queue v ?st' = map (d_msg (heap ?st')) ds" by (simp only: link_queue_def D(2))
    then show "link_queue v ?st' = ms" using q H(1) st1(4) by (simp add: payHandoff_def)
  qed (use D owns_head(2) [OF own] bs st1(4) in \<open>simp_all add: payHandoff_def\<close>)
qed

subsection \<open>Draining\<close>

lemma linkDrain_all:
  assumes "sb_laws (e_rtos E) cap cont" "i < length (links st)" "ring_rep cap cont (links st ! i) ds" "owns hb ds (heap st)"
  obtains st' where "linkDrain E i st = Some st'" "heap st' = hb"
    "liveBlocks (payCtr st') = liveBlocks (payCtr st) - of_nat (length ds)"
    "liveBytes (payCtr st') = liveBytes (payCtr st) - of_nat (desc_sum ds)"
    "connTable st' = connTable st" "itsPool st' = itsPool st" "length (links st') = length (links st)"
    "\<And>j. j \<noteq> i \<Longrightarrow> links st' ! j = links st ! j" "ring_rep cap cont (links st' ! i) []"
proof -
  have "\<exists>st'. linkDrain E i st = Some st' \<and> heap st' = hb
    \<and> liveBlocks (payCtr st') = liveBlocks (payCtr st) - of_nat (length ds)
    \<and> liveBytes (payCtr st') = liveBytes (payCtr st) - of_nat (desc_sum ds)
    \<and> connTable st' = connTable st \<and> itsPool st' = itsPool st \<and> length (links st') = length (links st)
    \<and> (\<forall>j. j \<noteq> i \<longrightarrow> links st' ! j = links st ! j) \<and> ring_rep cap cont (links st' ! i) []"
    using assms(2-4)
  proof (induction ds arbitrary: st)
    case Nil
    then obtain b where b: "l_ring (links st ! i) = Some b" "cont b = []" by (auto simp: ring_rep_def)
    then have "linkDrain E i st = Some st"
      by (subst linkDrain.simps) (simp add: sb_facts(4) [OF assms(1)] SIZEOF_ITS_DESC_def)
    moreover have "heap st = hb" using Nil.prems(3) by (auto simp: owns_def)
    ultimately show ?case using Nil.prems(2) by simp
  next
    case (Cons d ds)
    obtain b where b: "l_ring (links st ! i) = Some b" "cont b = concat (map desc_bytes (d # ds))"
      using Cons.prems(2) by (auto simp: ring_rep_def)
    note rr = ring_receive [OF assms(1) Cons.prems(2) b(1)]
    note oh = owns_head [OF Cons.prems(3)]
    let ?st1 = "link_upd i (\<lambda>L. L\<lparr>l_ring := Some (snd (sbReceive (e_rtos E) b 8))\<rparr>) st"
    let ?st2 = "?st1\<lparr>heap := (heap st)(d_ptr d := None), payCtr := ctrSub (unat (d_len d)) (payCtr st)\<rparr>"
    have drop: "payDrop (d_ptr d) (unat (d_len d)) ?st1 = Some ?st2"
      using oh(1,4) by (auto simp: payDrop_def heap_free_def its_sel)
    have step: "linkDrain E i st = linkDrain E i ?st2"
      by (subst linkDrain.simps) (simp add: b sb_facts(4) [OF assms(1)] SIZEOF_ITS_DESC_def rr(1) drop Let_def)
    have "i < length (links ?st2)" "ring_rep cap cont (links ?st2 ! i) ds" "owns hb ds (heap ?st2)"
      using Cons.prems(1) rr(2) owns_remove [OF Cons.prems(3)] by (simp_all add: its_sel)
    from Cons.IH [OF this] obtain st' where "linkDrain E i ?st2 = Some st'" "heap st' = hb"
      "liveBlocks (payCtr st') = liveBlocks (payCtr ?st2) - of_nat (length ds)"
      "liveBytes (payCtr st') = liveBytes (payCtr ?st2) - of_nat (desc_sum ds)"
      "connTable st' = connTable ?st2" "itsPool st' = itsPool ?st2" "length (links st') = length (links ?st2)"
      "\<forall>j. j \<noteq> i \<longrightarrow> links st' ! j = links ?st2 ! j" "ring_rep cap cont (links st' ! i) []" by blast
    then show ?case by (intro exI [of _ st']) (simp add: step its_sel algebra_simps)
  qed
  then show ?thesis using that by blast
qed

lemma owns_append:
  assumes "owns hb (ds @ es) h"
  defines "hm \<equiv> (\<lambda>p. if p \<in> d_ptr ` set es then h p else hb p)"
  shows "owns hm ds h" "owns hb es hm"
  using assms(1) unfolding owns_def hm_def by auto

subsection \<open>Teardown\<close>

lemma linkFree_all:
  assumes laws: "sb_laws (e_rtos E) cap cont" and i: "i < length (links st)"
    and rep: "ring_rep cap cont (links st ! i) ds" and own: "owns hb ds (heap st)"
  obtains st' where "linkFree E (int i) st = Some st'" "heap st' = hb"
    "liveBlocks (payCtr st') = liveBlocks (payCtr st) - of_nat (length ds)"
    "liveBytes (payCtr st') = liveBytes (payCtr st) - of_nat (desc_sum ds)"
    "connTable st' = connTable st" "itsPool st' = itsPool st" "length (links st') = length (links st)"
    "\<And>j. j \<noteq> i \<Longrightarrow> links st' ! j = links st ! j" "ring_rep cap cont (links st' ! i) []"
    "\<not> l_inUse (links st' ! i)" "l_outstanding (links st' ! i) = 0"
proof -
  obtain st1 where st1: "linkDrain E i st = Some st1" "heap st1 = hb"
    "liveBlocks (payCtr st1) = liveBlocks (payCtr st) - of_nat (length ds)"
    "liveBytes (payCtr st1) = liveBytes (payCtr st) - of_nat (desc_sum ds)"
    "connTable st1 = connTable st" "itsPool st1 = itsPool st" "length (links st1) = length (links st)"
    "\<And>j. j \<noteq> i \<Longrightarrow> links st1 ! j = links st ! j" "ring_rep cap cont (links st1 ! i) []"
    by (rule linkDrain_all [OF laws i rep own]) blast
  let ?st' = "link_upd i (\<lambda>L. L\<lparr>l_ring := map_option (sbReset (e_rtos E)) (l_ring L), l_inUse := False,
                   l_freeNotify := 0, l_outstanding := 0, l_sem := sem_give (l_sem L)\<rparr>) st1"
  have i1: "i < length (links st1)" using i st1(7) by simp
  show ?thesis
  proof (rule that)
    show "linkFree E (int i) st = Some ?st'" using i by (simp add: linkFree_def Let_def st1(1))
    show "ring_rep cap cont (links ?st' ! i) []"
      using st1(9) i1 by (auto simp: its_sel ring_rep_def sb_facts [OF laws])
  qed (use st1 i1 in \<open>simp_all add: its_sel\<close>)
qed

text \<open>A packet connection: two rings and no stream buffers.\<close>

definition packet_conn :: "('b \<Rightarrow> nat) \<Rightarrow> ('b \<Rightarrow> bytes) \<Rightarrow> nat \<Rightarrow> nat \<Rightarrow> nat \<Rightarrow> its_desc list \<Rightarrow> its_desc list
    \<Rightarrow> ('b, 'q) its_state \<Rightarrow> bool" where
  "packet_conn cap cont h i j ds es st \<longleftrightarrow>
     h < ITS_MAX_CONNS \<and> length (connTable st) = ITS_MAX_CONNS \<and> c_active (connTable st ! h)
     \<and> c_toPoolIdx (connTable st ! h) = - 1 \<and> c_fromPoolIdx (connTable st ! h) = - 1
     \<and> c_toLinkIdx (connTable st ! h) = int i \<and> c_fromLinkIdx (connTable st ! h) = int j
     \<and> i < length (links st) \<and> j < length (links st) \<and> i \<noteq> j
     \<and> ring_rep cap cont (links st ! i) ds \<and> ring_rep cap cont (links st ! j) es"

lemma poolFree_none [simp]: "poolFree E (- 1) st = Some st"
  by (simp add: poolFree_def)

lemma linkFree_none [simp]: "linkFree E (- 1) st = Some st"
  by (simp add: linkFree_def)

definition freedConn :: its_conn where
  "freedConn = blankConn\<lparr>c_toPoolIdx := - 1, c_fromPoolIdx := - 1, c_toLinkIdx := - 1, c_fromLinkIdx := - 1\<rparr>"

lemma connFree_freed:
  assumes "h < ITS_MAX_CONNS" "h < length (connTable st)" "connTable st ! h = freedConn"
  shows "connFree E (int h) st = Some st"
proof -
  have "conn_upd h (\<lambda>_. freedConn) st = st" using assms by (simp add: conn_upd_def flip: assms(3))
  with assms show ?thesis by (simp add: connFree_def Let_def flip: freedConn_def) (simp add: freedConn_def)
qed

lemma connFree_packet:
  assumes laws: "sb_laws (e_rtos E) cap cont" and pc: "packet_conn cap cont h i j ds es st"
    and own: "owns hb (ds @ es) (heap st)"
  obtains st' where "connFree E (int h) st = Some st'" "heap st' = hb"
    "liveBlocks (payCtr st') = liveBlocks (payCtr st) - of_nat (length (ds @ es))"
    "liveBytes (payCtr st') = liveBytes (payCtr st) - of_nat (desc_sum (ds @ es))"
    "connTable st' = (connTable st)[h := freedConn]" "itsPool st' = itsPool st"
    "\<And>k. k \<noteq> i \<Longrightarrow> k \<noteq> j \<Longrightarrow> links st' ! k = links st ! k"
    "ring_rep cap cont (links st' ! i) []" "ring_rep cap cont (links st' ! j) []"
    "\<not> l_inUse (links st' ! i)" "\<not> l_inUse (links st' ! j)"
proof -
  note pc' = pc [unfolded packet_conn_def]
  define st1 where "st1 = conn_upd h (\<lambda>_. freedConn) st"
  have s1: "links st1 = links st" "heap st1 = heap st" "payCtr st1 = payCtr st" "itsPool st1 = itsPool st"
    "connTable st1 = (connTable st)[h := freedConn]" by (simp_all add: st1_def conn_upd_def its_sel)
  define hm where "hm = (\<lambda>p. if p \<in> d_ptr ` set es then heap st p else hb p)"
  have hm: "owns hm ds (heap st1)" "owns hb es hm"
    using owns_append [OF own] by (simp_all only: s1(2) hm_def)
  have i1: "i < length (links st1)" and rep1: "ring_rep cap cont (links st1 ! i) ds" using pc' s1(1) by simp_all
  obtain st2 where st2: "linkFree E (int i) st1 = Some st2" "heap st2 = hm"
    "liveBlocks (payCtr st2) = liveBlocks (payCtr st1) - of_nat (length ds)"
    "liveBytes (payCtr st2) = liveBytes (payCtr st1) - of_nat (desc_sum ds)"
    "connTable st2 = connTable st1" "itsPool st2 = itsPool st1" "length (links st2) = length (links st1)"
    "\<And>k. k \<noteq> i \<Longrightarrow> links st2 ! k = links st1 ! k" "ring_rep cap cont (links st2 ! i) []" "\<not> l_inUse (links st2 ! i)"
    by (rule linkFree_all [OF laws i1 rep1 hm(1)]) blast
  have j2: "j < length (links st2)" and rep2: "ring_rep cap cont (links st2 ! j) es"
    using pc' s1(1) st2(7,8) by simp_all
  have own2: "owns hb es (heap st2)" using hm(2) st2(2) by simp
  obtain st3 where st3: "linkFree E (int j) st2 = Some st3" "heap st3 = hb"
    "liveBlocks (payCtr st3) = liveBlocks (payCtr st2) - of_nat (length es)"
    "liveBytes (payCtr st3) = liveBytes (payCtr st2) - of_nat (desc_sum es)"
    "connTable st3 = connTable st2" "itsPool st3 = itsPool st2"
    "\<And>k. k \<noteq> j \<Longrightarrow> links st3 ! k = links st2 ! k" "ring_rep cap cont (links st3 ! j) []" "\<not> l_inUse (links st3 ! j)"
    by (rule linkFree_all [OF laws j2 rep2 own2]) blast
  have "connFree E (int h) st = Some st3"
    using pc' st2(1) st3(1) by (simp add: connFree_def Let_def flip: freedConn_def st1_def)
  then show ?thesis
    by (rule that) (use pc' s1 st2 st3 in \<open>simp_all add: diff_diff_eq\<close>)
qed

end
