(* ===== verification/Its_Legacy.thy ===== *)
theory Its_Legacy
  imports Its_Channel
begin

section \<open>Inter-task streams: framed packets as a channel\<close>

text \<open>
  One direction of a connection that frames packets inside a stream buffer. \<open>legacy_ok\<close> says that
  the buffer holds whole frames; it is the second instance of the channel of messages.
\<close>

record ('b, 'q) frame_view =
  f_env :: "('b, 'q) its_env"
  f_cap :: "'b \<Rightarrow> nat"
  f_cont :: "'b \<Rightarrow> bytes"
  f_handle :: int
  f_sender :: task
  f_receiver :: task
  f_pool :: nat
  f_size :: nat

subsection \<open>Frames\<close>

definition pkt_frame :: "bytes \<Rightarrow> bytes" where
  "pkt_frame m = pkt_header (length m) @ m"

function frames_of :: "bytes \<Rightarrow> bytes list" where
  "frames_of bs =
     (if length bs < 4 then [] else take (pkt_length bs) (drop 4 bs) # frames_of (drop (4 + pkt_length bs) bs))"
  by pat_completeness auto
termination
  by (relation "measure length") auto

declare frames_of.simps [simp del] dropBody.simps [simp del]

lemma length_pkt_header [simp]: "length (pkt_header n) = 4"
  by (simp add: pkt_header_def)

lemma length_frame [simp]: "length (pkt_frame m) = 4 + length m"
  by (simp add: pkt_frame_def)

lemma pkt_length_header:
  assumes "n \<le> 0xFFFFFF"
  shows "pkt_length (pkt_header n @ xs) = n"
proof -
  have d1: "n div 65536 mod 256 = n div 65536" using assms by simp
  have d2: "n = n div 65536 * 65536 + (n div 256 mod 256) * 256 + n mod 256"
  proof -
    have "n div 65536 = n div 256 div 256" by (simp add: div_mult2_eq [symmetric])
    then show ?thesis using div_mult_mod_eq [of n 256] div_mult_mod_eq [of "n div 256" 256] by linarith
  qed
  have "pkt_length (pkt_header n @ xs) = n div 65536 mod 256 * 65536 + n div 256 mod 256 * 256 + n mod 256"
    by (simp add: pkt_length_def pkt_header_def unat_of_nat)
  then show ?thesis using d1 d2 by simp
qed

lemma frames_of_append:
  assumes "length m \<le> 0xFFFFFF"
  shows "frames_of (pkt_frame m @ xs) = m # frames_of xs"
  using pkt_length_header [OF assms, of "m @ xs"]
  by (subst frames_of.simps) (simp add: pkt_frame_def)

definition small :: "bytes \<Rightarrow> bool" where
  "small m \<longleftrightarrow> m \<noteq> [] \<and> length m \<le> 0xFFFFFF"

lemma frames_of_concat [simp]: "list_all small ms \<Longrightarrow> frames_of (concat (map pkt_frame ms)) = ms"
proof (induction ms)
  case Nil
  then show ?case by (subst frames_of.simps) simp
next
  case (Cons m ms)
  then show ?case by (simp add: frames_of_append small_def)
qed

subsection \<open>Buffer operations without waiting\<close>

lemma pool_upd_frame [its_sel]:
  "connTable (pool_upd i f st) = connTable st" "itsLinks (pool_upd i f st) = itsLinks st"
  "s_tasks (pool_upd i f st) = s_tasks st" "heap (pool_upd i f st) = heap st" "payCtr (pool_upd i f st) = payCtr st"
  "itsPool (pool_upd i f st) = (itsPool st)[i := f (itsPool st ! i)]" "length (itsPool (pool_upd i f st)) = length (itsPool st)"
  by (simp_all add: pool_upd_def)

lemma buf_set_frame [its_sel]:
  "connTable (buf_set i b st) = connTable st" "itsLinks (buf_set i b st) = itsLinks st"
  "itsPool (buf_set i b st) = (itsPool st)[i := (itsPool st ! i)\<lparr>p_handle := Some b\<rparr>]"
  by (simp_all add: buf_set_def its_sel)

lemma buf_set_twice: "i < length (itsPool st) \<Longrightarrow> buf_set i b (buf_set i a st) = buf_set i b st"
  by (simp add: buf_set_def pool_upd_def)

lemma bufReceive_now:
  "p_handle (itsPool st ! i) = Some b \<Longrightarrow>
     bufReceive E i n 0 st = Some (fst (sbReceive (e_rtos E) b n), buf_set i (snd (sbReceive (e_rtos E) b n)) st)"
  by (simp add: bufReceive_def Let_def)

lemma bufSend_now:
  "p_handle (itsPool st ! i) = Some b \<Longrightarrow>
     bufSend E i xs 0 st = Some (fst (sbSend (e_rtos E) b xs), buf_set i (snd (sbSend (e_rtos E) b xs)) st)"
  by (simp add: bufSend_def Let_def)

lemma buf_set_same: "p_handle (itsPool st ! i) = Some b \<Longrightarrow> buf_set i b st = st"
proof -
  assume a: "p_handle (itsPool st ! i) = Some b"
  have "e\<lparr>p_handle := p_handle e\<rparr> = e" for e :: "'b its_pool_entry" by simp
  then show "buf_set i b st = st" by (simp add: buf_set_def pool_upd_def flip: a)
qed

lemma dropBody_all:
  assumes "sb_laws (e_rtos E) cap cont" "i < length (itsPool st)" "p_handle (itsPool st ! i) = Some b" "left \<le> length (cont b)"
  shows "\<exists>b'. dropBody E i left st = Some (buf_set i b' st) \<and> cont b' = drop left (cont b) \<and> cap b' = cap b"
  using assms(2-4)
proof (induction left arbitrary: st b rule: less_induct)
  case (less left)
  show ?case
  proof (cases "left = 0")
    case True
    with less.prems(2) show ?thesis by (intro exI [of _ b]) (simp add: buf_set_same dropBody.simps)
  next
    case False
    define k where "k = (if left > 64 then 64 else left)"
    have k: "0 < k" "k \<le> left" using False by (simp_all add: k_def)
    let ?b1 = "snd (sbReceive (e_rtos E) b k)"
    have got: "fst (sbReceive (e_rtos E) b k) = take k (cont b)" "cont ?b1 = drop k (cont b)" "cap ?b1 = cap b"
      by (simp_all add: sb_facts [OF assms(1)])
    have len: "min (length (cont b)) k = k" using k less.prems(3) by simp
    have step: "dropBody E i left st = dropBody E i (left - k) (buf_set i ?b1 st)"
      using False k less.prems(3) by (subst dropBody.simps) (auto simp: bufReceive_now [OF less.prems(2)] len got(1) simp flip: k_def)
    have "i < length (itsPool (buf_set i ?b1 st))" "p_handle (itsPool (buf_set i ?b1 st) ! i) = Some ?b1"
      "left - k \<le> length (cont ?b1)"
      using less.prems k got(2) by (simp_all add: its_sel)
    from less.IH [OF _ this] k obtain b' where "dropBody E i (left - k) (buf_set i ?b1 st) = Some (buf_set i b' (buf_set i ?b1 st))"
      "cont b' = drop (left - k) (cont ?b1)" "cap b' = cap ?b1" by auto
    with step got k less.prems(1) show ?thesis by (intro exI [of _ b']) (simp add: buf_set_twice)
  qed
qed

subsection \<open>The channel\<close>

definition legacy_ok :: "('b, 'q) frame_view \<Rightarrow> ('b, 'q) its_state \<Rightarrow> bool" where
  "legacy_ok v st \<longleftrightarrow>
     sb_laws (e_rtos (f_env v)) (f_cap v) (f_cont v)
     \<and> (\<exists>c. conn (f_handle v) st = Some c \<and> c_kind c \<noteq> ITS_PACKET \<and> c_packetBased c)
     \<and> sendBufWithPool (f_sender v) (f_handle v) st = Some (f_pool v)
     \<and> recvBufWithPool (f_receiver v) (f_handle v) st = Some (f_pool v)
     \<and> p_size (itsPool st ! f_pool v) = f_size v
     \<and> (\<exists>b ms. p_handle (itsPool st ! f_pool v) = Some b \<and> f_cap v b = f_size v - 1
            \<and> list_all small ms \<and> f_cont v b = concat (map pkt_frame ms))"

definition legacy_queue :: "('b, 'q) frame_view \<Rightarrow> ('b, 'q) its_state \<Rightarrow> bytes list" where
  "legacy_queue v st =
     (case p_handle (itsPool st ! f_pool v) of None \<Rightarrow> [] | Some b \<Rightarrow> frames_of (f_cont v b))"

definition legacy_fits :: "('b, 'q) frame_view \<Rightarrow> ('b, 'q) its_state \<Rightarrow> bytes \<Rightarrow> bool" where
  "legacy_fits v st m \<longleftrightarrow> small m \<and> 4 + length m \<le> bufSpaces (f_env v) (f_pool v) st"

lemma legacy_rep:
  assumes "legacy_ok v st"
  obtains b where "p_handle (itsPool st ! f_pool v) = Some b" "f_cap v b = f_size v - 1"
    "list_all small (legacy_queue v st)" "f_cont v b = concat (map pkt_frame (legacy_queue v st))"
    "f_pool v < length (itsPool st)" "sb_laws (e_rtos (f_env v)) (f_cap v) (f_cont v)"
proof -
  from assms obtain b ms where b: "p_handle (itsPool st ! f_pool v) = Some b" "f_cap v b = f_size v - 1"
    "list_all small ms" "f_cont v b = concat (map pkt_frame ms)" by (auto simp: legacy_ok_def)
  then have "legacy_queue v st = ms" by (simp add: legacy_queue_def)
  moreover have "f_pool v < length (itsPool st)"
    using assms by (auto simp: legacy_ok_def sendBufWithPool_def Let_def split: option.splits if_splits)
  ultimately show ?thesis using that b assms by (simp add: legacy_ok_def)
qed

lemma bufs_frame:
  assumes "connTable st' = connTable st" "length (itsPool st') = length (itsPool st)"
  shows "sendBufWithPool me h st' = sendBufWithPool me h st" "recvBufWithPool me h st' = recvBufWithPool me h st"
    "conn h st' = conn h st"
proof -
  show c: "conn h st' = conn h st" using assms(1) by (simp add: conn_def)
  show "sendBufWithPool me h st' = sendBufWithPool me h st" "recvBufWithPool me h st' = recvBufWithPool me h st"
    using assms(2) by (simp_all add: sendBufWithPool_def recvBufWithPool_def c split: option.split)
qed

text \<open>A state that differs in the buffer's content and in the wake-ups only.\<close>

lemma legacy_step:
  assumes ok: "legacy_ok v st" and f: "connTable st' = connTable st" "length (itsPool st') = length (itsPool st)"
    and b: "p_handle (itsPool st' ! f_pool v) = Some b" "p_size (itsPool st' ! f_pool v) = f_size v"
    "f_cap v b = f_size v - 1" "list_all small ms" "f_cont v b = concat (map pkt_frame ms)"
  shows "legacy_ok v st'" "legacy_queue v st' = ms"
proof -
  show "legacy_ok v st'" using ok b unfolding legacy_ok_def bufs_frame [OF f] by blast
  show "legacy_queue v st' = ms" using b by (simp add: legacy_queue_def)
qed

lemma itsSend_legacy:
  assumes "legacy_ok v st"
  shows "itsSend (f_env v) (f_sender v) (f_handle v) m t st =
     sendLegacy (f_env v) (f_sender v) (f_handle v) (f_pool v) m t st"
  using assms by (auto simp: legacy_ok_def itsSend_def)

lemma itsRecv_legacy:
  assumes "legacy_ok v st"
  shows "itsRecv (f_env v) (f_receiver v) (f_handle v) k t st =
     recvLegacy (f_env v) (f_receiver v) (f_handle v) (f_pool v) k t st"
  using assms by (auto simp: legacy_ok_def itsRecv_def)

lemma legacy_wait:
  assumes "legacy_ok v st" "0 < n"
  shows "itsWaitForSpace (f_env v) (f_sender v) (f_handle v) n 0 st = Some (bufSpaces (f_env v) (f_pool v) st \<ge> n, st)"
proof -
  have "sendLink (f_sender v) (f_handle v) st = None" using assms(1) by (auto simp: legacy_ok_def sendLink_def)
  then show ?thesis using assms by (auto simp: itsWaitForSpace_def legacy_ok_def)
qed

lemma legacy_put_fits:
  assumes ok: "legacy_ok v st" and fits: "legacy_fits v st m"
  shows "\<exists>st'. itsSend (f_env v) (f_sender v) (f_handle v) m 0 st = Some (length m, st')
           \<and> legacy_ok v st' \<and> legacy_queue v st' = legacy_queue v st @ [m]"
proof -
  let ?R = "e_rtos (f_env v)" and ?i = "f_pool v"
  obtain b where b: "p_handle (itsPool st ! ?i) = Some b" "f_cap v b = f_size v - 1"
    "list_all small (legacy_queue v st)" "f_cont v b = concat (map pkt_frame (legacy_queue v st))"
    "?i < length (itsPool st)" "sb_laws ?R (f_cap v) (f_cont v)" by (rule legacy_rep [OF ok])
  note F = sb_facts [OF b(6)]
  have sp: "4 + length m \<le> sbSpaces ?R b" "small m" using fits b(1) by (simp_all add: legacy_fits_def bufSpaces_def)
  let ?b1 = "snd (sbSend ?R b (pkt_header (length m)))"
  have s1: "fst (sbSend ?R b (pkt_header (length m))) = 4" "f_cont v ?b1 = f_cont v b @ pkt_header (length m)"
    using sb_send_fits [OF b(6), of "pkt_header (length m)" b] sp by simp_all
  have "length m \<le> sbSpaces ?R ?b1" using sp(1) by (simp add: F s1(2))
  from sb_send_fits [OF b(6) this] have s2: "fst (sbSend ?R ?b1 m) = length m"
    "f_cont v (snd (sbSend ?R ?b1 m)) = f_cont v b @ pkt_frame m" by (simp_all add: s1(2) pkt_frame_def)
  let ?b2 = "snd (sbSend ?R ?b1 m)"
  let ?st' = "notify_remote (f_sender v) (f_handle v) (buf_set ?i ?b2 st)"
  have sz: "4 + length m \<le> p_size (itsPool st ! ?i)" using sp(1) ok b(2) by (simp add: F legacy_ok_def)
  have "itsSend (f_env v) (f_sender v) (f_handle v) m 0 st = Some (length m, ?st')"
    using sp sz b(1,5) s1(1) s2(1)
    by (simp add: itsSend_legacy [OF ok] sendLegacy_def Let_def legacy_wait [OF ok] bufSpaces_def bufSend_now small_def
        its_sel buf_set_twice)
  moreover have "legacy_ok v ?st'" "legacy_queue v ?st' = legacy_queue v st @ [m]"
  proof -
    have h: "p_handle (itsPool ?st' ! ?i) = Some ?b2" "p_size (itsPool ?st' ! ?i) = f_size v"
      using b(5) ok by (simp_all add: its_sel legacy_ok_def)
    have c: "f_cap v ?b2 = f_size v - 1" "list_all small (legacy_queue v st @ [m])"
      "f_cont v ?b2 = concat (map pkt_frame (legacy_queue v st @ [m]))" using b sp s2 by (simp_all add: F)
    show "legacy_ok v ?st'" "legacy_queue v ?st' = legacy_queue v st @ [m]"
      by (rule legacy_step [OF ok _ _ h c]; simp add: its_sel)+
  qed
  ultimately show ?thesis by blast
qed

lemma legacy_put_refused:
  assumes ok: "legacy_ok v st" and fits: "\<not> legacy_fits v st m"
  shows "itsSend (f_env v) (f_sender v) (f_handle v) m 0 st = Some (0, st)"
  using fits by (auto simp: itsSend_legacy [OF ok] sendLegacy_def Let_def legacy_wait [OF ok] legacy_fits_def small_def)

lemma wake_frame [its_sel]:
  "connTable (wakeSenderIfReady E me h i st) = connTable st"
  "length (itsPool (wakeSenderIfReady E me h i st)) = length (itsPool st)"
  "i < length (itsPool st) \<Longrightarrow> p_handle (itsPool (wakeSenderIfReady E me h i st) ! i) = p_handle (itsPool st ! i)"
  "i < length (itsPool st) \<Longrightarrow> p_size (itsPool (wakeSenderIfReady E me h i st) ! i) = p_size (itsPool st ! i)"
  by (simp_all add: wakeSenderIfReady_def Let_def its_sel)

lemma legacy_get_none:
  assumes ok: "legacy_ok v st" and q: "legacy_queue v st = []"
  shows "itsRecv (f_env v) (f_receiver v) (f_handle v) k 0 st = Some ([], st)"
proof -
  obtain b where b: "p_handle (itsPool st ! f_pool v) = Some b" "f_cont v b = concat (map pkt_frame (legacy_queue v st))"
    "sb_laws (e_rtos (f_env v)) (f_cap v) (f_cont v)" by (rule legacy_rep [OF ok])
  then have "bufAvail (f_env v) (f_pool v) st = 0" using q by (simp add: bufAvail_def sb_facts [OF b(3)])
  then show ?thesis by (simp add: itsRecv_legacy [OF ok] recvLegacy_def recvLegacyWait.simps)
qed

lemma legacy_get_some:
  assumes ok: "legacy_ok v st" and q: "legacy_queue v st = m # ms"
  shows "\<exists>st'. itsRecv (f_env v) (f_receiver v) (f_handle v) k 0 st = Some (if length m \<le> k then m else [], st')
           \<and> legacy_ok v st' \<and> legacy_queue v st' = ms"
proof -
  let ?R = "e_rtos (f_env v)" and ?i = "f_pool v"
  obtain b where b: "p_handle (itsPool st ! ?i) = Some b" "f_cap v b = f_size v - 1"
    "list_all small (legacy_queue v st)" "f_cont v b = concat (map pkt_frame (legacy_queue v st))"
    "?i < length (itsPool st)" "sb_laws ?R (f_cap v) (f_cont v)" by (rule legacy_rep [OF ok])
  note F = sb_facts [OF b(6)]
  have m: "small m" "list_all small ms" using b(3) q by simp_all
  have cont: "f_cont v b = pkt_header (length m) @ m @ concat (map pkt_frame ms)" using b(4) q by (simp add: pkt_frame_def)
  let ?b1 = "snd (sbReceive ?R b 4)" and ?st1 = "buf_set ?i (snd (sbReceive ?R b 4)) st"
  have r1: "fst (sbReceive ?R b 4) = pkt_header (length m)" "f_cont v ?b1 = m @ concat (map pkt_frame ms)" "f_cap v ?b1 = f_size v - 1"
    using b(2) by (simp_all add: F cont)
  have h1: "p_handle (itsPool ?st1 ! ?i) = Some ?b1" "?i < length (itsPool ?st1)" using b(5) by (simp_all add: its_sel)
  have av: "bufAvail (f_env v) ?i st > 4" using m(1) by (simp add: bufAvail_def b(1) F cont small_def)
  have bl: "pkt_length (pkt_header (length m)) = length m" using pkt_length_header [of "length m" "[]"] m(1) by (simp add: small_def)
  have run: "itsRecv (f_env v) (f_receiver v) (f_handle v) k 0 st =
      (if length m > k
       then do { s \<leftarrow> dropBody (f_env v) ?i (length m) ?st1; Some ([], wakeSenderIfReady (f_env v) (f_receiver v) (f_handle v) ?i s) }
       else do { r \<leftarrow> bufReceive (f_env v) ?i (length m) 0 ?st1;
                 Some (fst r, wakeSenderIfReady (f_env v) (f_receiver v) (f_handle v) ?i (snd r)) })"
    using av b(1) by (simp add: itsRecv_legacy [OF ok] recvLegacy_def recvLegacyWait.simps bufReceive_now r1(1) bl Let_def)
  obtain b2 where b2: "f_cont v b2 = concat (map pkt_frame ms)" "f_cap v b2 = f_size v - 1"
    "itsRecv (f_env v) (f_receiver v) (f_handle v) k 0 st =
       Some (if length m \<le> k then m else [], wakeSenderIfReady (f_env v) (f_receiver v) (f_handle v) ?i (buf_set ?i b2 st))"
  proof (cases "length m \<le> k")
    case True
    let ?b2 = "snd (sbReceive ?R ?b1 (length m))"
    have "fst (sbReceive ?R ?b1 (length m)) = m" "f_cont v ?b2 = concat (map pkt_frame ms)" "f_cap v ?b2 = f_size v - 1"
      using b(2) by (simp_all add: F cont)
    with True show ?thesis using that [of ?b2] b(5)
      by (simp add: run bufReceive_now [OF h1(1)] buf_set_twice)
  next
    case False
    have "length m \<le> length (f_cont v ?b1)" by (simp add: r1(2))
    from dropBody_all [OF b(6) h1(2,1) this] obtain b' where "dropBody (f_env v) ?i (length m) ?st1 = Some (buf_set ?i b' ?st1)"
      "f_cont v b' = drop (length m) (f_cont v ?b1)" "f_cap v b' = f_cap v ?b1" by blast
    with False show ?thesis using that [of b'] b(5) r1 by (simp add: run buf_set_twice)
  qed
  let ?st' = "wakeSenderIfReady (f_env v) (f_receiver v) (f_handle v) ?i (buf_set ?i b2 st)"
  have h2: "p_handle (itsPool ?st' ! ?i) = Some b2" "p_size (itsPool ?st' ! ?i) = f_size v"
    using b(5) ok by (simp_all add: its_sel legacy_ok_def)
  have "legacy_ok v ?st'" "legacy_queue v ?st' = ms"
    by (rule legacy_step [OF ok _ _ h2 b2(2) m(2) b2(1)]; simp add: its_sel)+
  with b2(3) show ?thesis by blast
qed

interpretation legacy: message_channel "legacy_ok v" "legacy_queue v" "legacy_fits v"
  "\<lambda>m. itsSend (f_env v) (f_sender v) (f_handle v) m 0"
  "\<lambda>k. itsRecv (f_env v) (f_receiver v) (f_handle v) k 0" "0xFFFFFF" for v
proof (unfold_locales, goal_cases)
  case (1 s m)
  from legacy_put_fits [OF 1(1,3)] show ?case .
next
  case (2 s m)
  then show ?case using legacy_put_refused by blast
next
  case (3 s k)
  then show ?case using legacy_get_none by blast
next
  case (4 s m ms k)
  then show ?case by (rule legacy_get_some)
next
  case (5 s m)
  obtain b where "list_all small (legacy_queue v s)" by (rule legacy_rep [OF 5(1)])
  with 5(2) show ?case by (auto simp: list_all_iff small_def)
qed

end
