(* ===== verification/Its_Demo.thy ===== *)
theory Its_Demo
  imports Its_Reach Its_Owner Its_Legacy
begin

section \<open>Inter-task streams: one concrete device\<close>

text \<open>
  The parameters of the model with lists for stream buffers and queues, a heap of a few hundred
  blocks and a server task that polls whenever another task waits. It shows that the hypotheses
  on the operating system, the heap and the other tasks can hold together, and it is where the
  theorems are evaluated.
\<close>

declare awaitTask.simps [code] awaitServer.simps [code] awaitAck.simps [code] linkDrain.simps [code]
  linkWaitLoop.simps [code] linkDequeueWait.simps [code] poolWaitLoop.simps [code] recvLegacyWait.simps [code]
  sendDrainLoop.simps [code]

text \<open>A poll when no connection has a receive callback, as most have none in what follows.\<close>

lemma dispatchRecvCallbacks_idle:
  assumes "\<forall>i\<in>set is. \<not> c_active (connTable st ! i) \<or> recv_cb ti (connTable st ! i) st = 0"
  shows "dispatchRecvCallbacks E ti is any st = Some (any, st)"
  using assms by (induction "is") (auto simp: Let_def)

lemma pollOnce_idle [code]:
  "pollOnce E ti st =
     (if t_inbox (tasks st ! ti) = None then None
      else do {
        r \<leftarrow> (case inboxReceive E ti st of
               None \<Rightarrow> Some (False, st)
             | Some (m, st1) \<Rightarrow> do { st2 \<leftarrow> processInboxMsg E ti m st1; Some (True, st2) });
        if list_all (\<lambda>c. \<not> c_active c \<or> recv_cb ti c (snd r) = 0) (connTable (snd r))
           \<and> length (connTable (snd r)) = ITS_MAX_CONNS
        then Some r
        else dispatchRecvCallbacks E ti [0..<ITS_MAX_CONNS] (fst r) (snd r)
      })"
  by (auto simp: pollOnce_def bind_eq_Some_conv list_all_length dispatchRecvCallbacks_idle split: Option.bind_split)

type_synonym demo_sb = "nat \<times> bytes"
type_synonym demo_q = "nat \<times> its_msg list"

definition demo_cap :: "demo_sb \<Rightarrow> nat" where
  "demo_cap b = fst b - 1"

definition demo_cont :: "demo_sb \<Rightarrow> bytes" where
  "demo_cont b = take (demo_cap b) (snd b)"

definition demo_rtos :: "(demo_sb, demo_q) rtos" where
  "demo_rtos = \<lparr>sbCreate = (\<lambda>n. (n, [])), sbAvail = (\<lambda>b. length (demo_cont b)),
     sbSpaces = (\<lambda>b. demo_cap b - length (demo_cont b)),
     sbSend = (\<lambda>b xs. let k = min (length xs) (demo_cap b - length (demo_cont b)) in (k, (fst b, demo_cont b @ take k xs))),
     sbReceive = (\<lambda>b n. (take n (demo_cont b), (fst b, drop n (demo_cont b)))),
     sbReset = (\<lambda>b. (fst b, [])), sbSetTrigger = (\<lambda>b n. True),
     qCreate = (\<lambda>n. (n, [])), qSend = (\<lambda>q m. if length (snd q) < fst q then Some (fst q, snd q @ [m]) else None),
     qReceive = (\<lambda>q. case snd q of [] \<Rightarrow> None | m # ms \<Rightarrow> Some (m, (fst q, ms)))\<rparr>"

lemma demo_sb_laws: "sb_laws demo_rtos demo_cap demo_cont"
  by (auto simp: sb_laws_def demo_rtos_def demo_cap_def demo_cont_def Let_def min_def)

lemma demo_q_laws: "q_laws demo_rtos fst snd"
  by (auto simp: q_laws_def demo_rtos_def split: list.split)

definition demo_malloc :: "(ptr \<Rightarrow> bytes option) \<Rightarrow> nat \<Rightarrow> ptr option" where
  "demo_malloc h n = find (\<lambda>p. h p = None) (map of_nat [1..<32])"

text \<open>The environment in which nothing happens during a wait, and the one in which task 2 polls.\<close>

definition quiet_env :: "(demo_sb, demo_q) its_env" where
  "quiet_env = \<lparr>e_rtos = demo_rtos, e_malloc = demo_malloc, e_sem = (\<lambda>_. True), e_table = (\<lambda>_. True),
     e_sbCtrlSize = 4, e_qCtrlSize = 4, e_taskNameLen = 16, e_ms = of_nat,
     e_others = (\<lambda>_ st. st\<lparr>tickCount := tickCount st + 10\<rparr>),
     e_taskGetHandle = (\<lambda>name _. if name = ''srv'' then 2 else 0),
     e_onConnect = (\<lambda>_ _ _ _ st. Some (0, st)), e_onBusy = (\<lambda>_ _ _ st. Some (False, st)),
     e_onDisconnect = (\<lambda>_ _ st. Some st), e_onRecv = (\<lambda>_ _ _ st. Some st), e_onAux = (\<lambda>_ _ _ _ st. Some st),
     e_spawn = (\<lambda>_ st. Some st)\<rparr>"

definition its_demo_env :: "(demo_sb, demo_q) its_env" where
  "its_demo_env = quiet_env\<lparr>e_others := (\<lambda>_ st. case itsPoll quiet_env 2 0 (st\<lparr>tickCount := tickCount st + 10\<rparr>) of
     Some r \<Rightarrow> snd r | None \<Rightarrow> st)\<rparr>"

text \<open>The environment of a busy link: every other wait ends in the tick it began in, because some
  task gives the semaphore of link 0, and the waits between take a tick.\<close>

definition busy_env :: "(demo_sb, demo_q) its_env" where
  "busy_env = quiet_env\<lparr>e_others := (\<lambda>k st. if even k then link_upd 0 (\<lambda>L. L\<lparr>l_sem := sem_give (l_sem L)\<rparr>) st
     else st\<lparr>tickCount := tickCount st + 1\<rparr>)\<rparr>"

definition demo_boot :: "(demo_sb, demo_q) its_state" where
  "demo_boot = \<lparr>itsPool = [], itsLinks = None, connTable = replicate ITS_MAX_CONNS blankConn, connCounter = 0,
     s_tasks = None, s_pendingPay = replicate ITS_MAX_TASKS 0, hdrCtr = \<lparr>liveBlocks = 0, liveBytes = 0, hwBlocks = 0, hwBytes = 0\<rparr>,
     payCtr = \<lparr>liveBlocks = 0, liveBytes = 0, hwBlocks = 0, hwBytes = 0\<rparr>, heap = (\<lambda>_. None), notified = (\<lambda>_. 0),
     tickCount = 0, boosted = False, s_onDemand = [], waits = 0\<rparr>"

lemma demo_malloc_laws: "e_malloc E = demo_malloc \<Longrightarrow> malloc_laws E"
proof -
  have "p \<noteq> 0 \<and> h p = None" if f: "find (\<lambda>p. h p = None) (map (of_nat :: nat \<Rightarrow> ptr) [1..<32]) = Some p"
    for h :: "ptr \<Rightarrow> bytes option" and p
  proof -
    have "p \<in> set (map of_nat [1..<32])" "h p = None" using f unfolding find_Some_iff by (metis nth_mem)+
    then obtain k where k: "p = of_nat k" "1 \<le> k" "k < 32" by auto
    then have "unat p = k" by (simp add: unat_of_nat)
    with k(2) have "p \<noteq> 0" by auto
    with \<open>h p = None\<close> show ?thesis by simp
  qed
  then show "e_malloc E = demo_malloc \<Longrightarrow> malloc_laws E" by (simp add: malloc_laws_def demo_malloc_def)
qed

lemma demo_tick: "same_tables st (st\<lparr>tickCount := t\<rparr>)"
  by (simp add: same_tables_def next_slot_def pool_marks_def link_marks_def links_def)

lemma quiet_env_ok: "env_ok quiet_env"
  by (auto simp: env_ok_def quiet_env_def intro: same_tables_evolves demo_tick)

lemma its_demo_env_ok: "env_ok its_demo_env"
proof -
  have "evolves st (case itsPoll quiet_env 2 0 (st\<lparr>tickCount := tickCount st + 10\<rparr>) of Some r \<Rightarrow> snd r | None \<Rightarrow> st)" for st
    using evolves_trans [OF same_tables_evolves [OF demo_tick] itsPoll_evolves [OF quiet_env_ok]]
    by (auto split: option.split)
  then show ?thesis by (simp add: env_ok_def its_demo_env_def quiet_env_def)
qed

text \<open>Task 2 serves port 7 with packets and a connect callback; task 1 is a client and connects to it.\<close>

definition demo_connected :: "(demo_sb, demo_q) its_state option" where
  "demo_connected = do {
     r \<leftarrow> taskFindOrCreate its_demo_env 2 0 0 demo_boot;
     a \<leftarrow> itsServerInit its_demo_env 2 0 0 False (snd r);
     c \<leftarrow> itsClientInit its_demo_env 1 4 0 0
        (itsServerOnConnect 2 7 9 (snd (itsServerPortOpen 2 7 ITS_PACKET 2 64 64 4 32 (snd a))));
     d \<leftarrow> itsConnect its_demo_env 1 ''srv'' 7 [1, 2] 100 5 0 0 c;
     if fst d = 0 then Some (snd d) else None }"

definition demo_conn :: its_conn where
  "demo_conn = \<lparr>c_active = True, c_packetBased = False, c_kind = ITS_PACKET, c_noPool = False, c_clientTask = 1,
     c_serverTask = 2, c_toPoolIdx = - 1, c_fromPoolIdx = - 1, c_toLinkIdx = 0, c_fromLinkIdx = 1, c_itsPort = 7,
     c_clientRef = 5, c_serverRef = 0, c_connectNonce = 1, c_cliRecvCb = 0, c_cliDisconnectCb = 0\<rparr>"

definition demo_link :: "demo_sb its_link" where
  "demo_link = \<lparr>l_ring = Some (40, []), l_depth = 4, l_byteCap = 64, l_maxMsg = 32, l_outstanding = 0,
     l_freeNotify = 0, l_sem = Some False, l_inUse = True\<rparr>"

definition demo_table :: "its_conn list" where
  "demo_table = (replicate ITS_MAX_CONNS blankConn)[0 := demo_conn]"

text \<open>A second connect of the same client, as the server finds it in its mailbox.\<close>

definition demo_msg :: its_msg where
  "demo_msg = \<lparr>m_kind = ITS_K_CONNECT, m_pickup = False, m_port = 7, m_handle = - 1, m_ref = - 1, m_nonce = 2, m_sender = 1,
     m_cb = 0, m_len = 0, m_payload = 0\<rparr>"

lemma demo_run:
  "(case demo_connected of
      None \<Rightarrow> False
    | Some st \<Rightarrow> connTable st = demo_table \<and> itsLinks st = Some [demo_link, demo_link] \<and> itsPool st = []
        \<and> map t_task (tasks st) = [2, 1] \<and> map liveBlocks [payCtr st, hdrCtr st] = [0, 0]
        \<and> demo_malloc (heap st) 8 \<noteq> None
        \<and> (case portFind (tasks st ! 0) 7 of Some pi \<Rightarrow> sp_onConnect (portAt 0 pi st) = 9 | None \<Rightarrow> False)
        \<and> (case procConnect its_demo_env 0 demo_msg st of
              None \<Rightarrow> False
            | Some st1 \<Rightarrow> c_active (connTable st1 ! 1) \<and> procCancel its_demo_env 0 demo_msg st1 \<noteq> None))"
  by code_simp

lemma demo_connected_reach:
  assumes "demo_connected = Some st"
  shows "its_reach its_demo_env st"
proof -
  obtain r a c d where s: "taskFindOrCreate its_demo_env 2 0 0 demo_boot = Some r"
    "itsServerInit its_demo_env 2 0 0 False (snd r) = Some a"
    "itsClientInit its_demo_env 1 4 0 0
        (itsServerOnConnect 2 7 9 (snd (itsServerPortOpen 2 7 ITS_PACKET 2 64 64 4 32 (snd a)))) = Some c"
    "itsConnect its_demo_env 1 ''srv'' 7 [1, 2] 100 5 0 0 c = Some (d, st)"
    using assms by (auto simp: demo_connected_def bind_eq_Some_conv split: if_splits)
  have boot: "its_boot demo_boot" by (simp add: its_boot_def demo_boot_def)
  have "s_tasks (snd r) \<noteq> None"
    using s(1) by (auto simp: taskFindOrCreate_def taskFind_def demo_boot_def its_demo_env_def quiet_env_def taskCreate_def Let_def
        bind_eq_Some_conv split: prod.splits if_splits)
  with boot s(1) have "its_reach its_demo_env (snd r)" by (cases r) (auto intro: its_reach.first)
  then have "its_reach its_demo_env (snd a)" using s(2) by (cases a) (auto intro: its_reach.later its_step.intros(1))
  then have "its_reach its_demo_env (snd (itsServerPortOpen 2 7 ITS_PACKET 2 64 64 4 32 (snd a)))"
    by (rule its_reach.later) (rule its_step.intros(3), rule prod.collapse [symmetric])
  then have "its_reach its_demo_env (itsServerOnConnect 2 7 9 (snd (itsServerPortOpen 2 7 ITS_PACKET 2 64 64 4 32 (snd a))))"
    unfolding itsServerOnConnect_def by (rule its_reach.later) (rule its_step.intros(5) [OF refl])
  then have "its_reach its_demo_env c" by (rule its_reach.later) (rule its_step.intros(2) [OF s(3)])
  then show ?thesis by (rule its_reach.later) (rule its_step.intros(10) [OF s(4)])
qed

lemma demo_connected_obtain:
  obtains st st1 st2 where "its_reach its_demo_env st" "connTable st = demo_table" "links st = [demo_link, demo_link]" "itsPool st = []"
    "map t_task (tasks st) = [2, 1]" "demo_malloc (heap st) 8 \<noteq> None"
    "\<exists>pi. portFind (tasks st ! 0) 7 = Some pi \<and> sp_onConnect (portAt 0 pi st) = 9"
    "procConnect its_demo_env 0 demo_msg st = Some st1" "c_active (connTable st1 ! 1)" "procCancel its_demo_env 0 demo_msg st1 = Some st2"
proof (cases demo_connected)
  case (Some st)
  note run = demo_run [unfolded Some option.case]
  obtain st1 where st1: "procConnect its_demo_env 0 demo_msg st = Some st1" "c_active (connTable st1 ! 1)"
    "procCancel its_demo_env 0 demo_msg st1 \<noteq> None"
    using run by (cases "procConnect its_demo_env 0 demo_msg st") auto
  then obtain st2 where st2: "procCancel its_demo_env 0 demo_msg st1 = Some st2" by auto
  show ?thesis by (rule that [OF demo_connected_reach [OF Some] _ _ _ _ _ _ st1(1,2) st2]) (use run in \<open>auto simp: links_def split: option.splits\<close>)
next
  case None
  from demo_run [unfolded None option.case] show ?thesis ..
qed

text \<open>The client fills its link: two messages of the longest length are in flight.\<close>

lemma demo_fill:
  "(case demo_connected of
      None \<Rightarrow> False
    | Some st \<Rightarrow>
        (case itsSend its_demo_env 1 0 (replicate 32 0) 0 st of
           None \<Rightarrow> False
         | Some r \<Rightarrow>
             (case itsSend its_demo_env 1 0 (replicate 32 0) 0 (snd r) of
                None \<Rightarrow> False
              | Some q \<Rightarrow> conn 0 (snd q) = Some demo_conn \<and> l_outstanding (links (snd q) ! 0) = 64
                  \<and> l_byteCap (links (snd q) ! 0) = 64 \<and> l_sem (links (snd q) ! 0) = Some False \<and> length (links (snd q)) = 2)))"
  by code_simp

lemma demo_full_obtain:
  obtains st where "its_reach its_demo_env st" "conn 0 st = Some demo_conn" "l_outstanding (links st ! 0) = 64"
    "l_byteCap (links st ! 0) = 64" "l_sem (links st ! 0) = Some False" "length (links st) = 2"
proof -
  obtain st r q where s: "demo_connected = Some st" "itsSend its_demo_env 1 0 (replicate 32 0) 0 st = Some r"
    "itsSend its_demo_env 1 0 (replicate 32 0) 0 (snd r) = Some q"
    and f: "conn 0 (snd q) = Some demo_conn" "l_outstanding (links (snd q) ! 0) = 64"
    "l_byteCap (links (snd q) ! 0) = 64" "l_sem (links (snd q) ! 0) = Some False" "length (links (snd q)) = 2"
    using demo_fill by (auto split: option.splits)
  have "its_reach its_demo_env (snd r)"
    using demo_connected_reach [OF s(1)] s(2) by (cases r) (auto intro: its_reach.later its_step.intros(15))
  then have "its_reach its_demo_env (snd q)" using s(3) by (cases q) (auto intro: its_reach.later its_step.intros(15))
  from that [OF this f] show ?thesis .
qed

end
