(* ===== verification/Its_Cancel.thy ===== *)
theory Its_Cancel
  imports Its_Reach
begin

section \<open>Inter-task streams: a connect and its cancel\<close>

text \<open>
  What a connect changes of the connection table, and that the cancel a client sends when it
  gives up takes it back.
\<close>

subsection \<open>What acquiring a buffer leaves alone\<close>

lemma heap_free2_registry: "do { a \<leftarrow> heap_free p st; heap_free q a } = Some st' \<Longrightarrow> s_tasks st' = s_tasks st"
  unfolding bind_eq_Some_conv by (auto dest!: heap_free_registry)

lemma heap_malloc_registry': "heap_malloc E n st = (p, st') \<Longrightarrow> s_tasks st' = s_tasks st"
  using heap_malloc_registry [of E n st] by simp

lemma upd_registry [simp]: "s_tasks (pool_upd i f st) = s_tasks st" "s_tasks (link_upd i g st) = s_tasks st"
  "s_tasks (conn_upd h k st) = s_tasks st"
  by (simp_all add: pool_upd_def link_upd_def conn_upd_def)

lemma poolFill_registry: "poolFill E sz np i st = Some (r, st') \<Longrightarrow> s_tasks st' = s_tasks st"
  by (auto simp: poolFill_def Let_def bind_eq_Some_conv split: prod.splits if_splits
      dest!: heap_malloc_registry' heap_free_registry)

lemma linkFill_registry: "linkFill E d cap mx i st = Some (r, st') \<Longrightarrow> s_tasks st' = s_tasks st"
  by (auto simp: linkFill_def Let_def bind_eq_Some_conv split: prod.splits if_splits
      dest!: heap_malloc_registry' heap_free_registry)

lemma poolGet_frame:
  assumes "poolGet E sz np st = Some (r, st')"
  shows "connTable st' = connTable st \<and> s_tasks st' = s_tasks st"
proof -
  have "connTable st' = connTable (st\<lparr>itsPool := p\<rparr>) \<and> s_tasks st' = s_tasks (st\<lparr>itsPool := p\<rparr>)"
    if "poolFill E sz np i (st\<lparr>itsPool := p\<rparr>) = Some (r, st')" for i p
    using poolFill_marks [OF that] poolFill_registry [OF that] by simp
  from this [of _ "itsPool st"] this show ?thesis
    using assms by (auto simp: poolGet_def Let_def split: if_splits option.splits) (auto simp: pool_upd_def)
qed

lemma linkAcquire_frame:
  assumes "linkAcquire E d cap mx st = Some (r, st')"
  shows "connTable st' = connTable st \<and> s_tasks st' = s_tasks st"
proof -
  have "connTable st' = connTable (st\<lparr>itsLinks := p\<rparr>) \<and> s_tasks st' = s_tasks (st\<lparr>itsLinks := p\<rparr>)"
    if "linkFill E k cap mx i (st\<lparr>itsLinks := p\<rparr>) = Some (r, st')" for i p k
    using linkFill_marks [OF that] linkFill_registry [OF that] by simp
  from this [of _ _ "itsLinks st"] this show ?thesis
    using assms by (auto simp: linkAcquire_def Let_def its_sel split: if_splits option.splits)
qed

lemma payDrop_registry: "payDrop p n st = Some st' \<Longrightarrow> s_tasks st' = s_tasks st"
  by (auto simp: payDrop_def bind_eq_Some_conv split: if_splits dest!: heap_free_registry)

lemma linkDrain_registry: "linkDrain E i st = Some st' \<Longrightarrow> s_tasks st' = s_tasks st"
proof (induction rule: linkDrain.raw_induct [rotated, consumes 1, case_names step])
  case (step rec E i st st')
  from step(2) show ?case
    by (auto simp: Let_def bind_eq_Some_conv split: option.splits if_splits dest!: step(1) payDrop_registry)
qed

lemma connFree_frame:
  assumes "connFree E h st = Some st'" "0 \<le> h" "h < int ITS_MAX_CONNS"
  shows "s_tasks st' = s_tasks st"
    "connTable st' = (connTable st)[nat h := blankConn\<lparr>c_toPoolIdx := - 1, c_fromPoolIdx := - 1, c_toLinkIdx := - 1, c_fromLinkIdx := - 1\<rparr>]"
proof -
  have p: "s_tasks s' = s_tasks s" if "poolFree E i s = Some s'" for i s s'
    using that by (auto simp: poolFree_def Let_def bind_eq_Some_conv split: if_splits dest!: heap_free_registry)
  have l: "s_tasks s' = s_tasks s" if "linkFree E i s = Some s'" for i s s'
    using that by (auto simp: linkFree_def Let_def bind_eq_Some_conv split: if_splits dest!: linkDrain_registry)
  show "s_tasks st' = s_tasks st"
    "connTable st' = (connTable st)[nat h := blankConn\<lparr>c_toPoolIdx := - 1, c_fromPoolIdx := - 1, c_toLinkIdx := - 1, c_fromLinkIdx := - 1\<rparr>]"
    using assms by (auto simp: connFree_def Let_def bind_eq_Some_conv p l poolFree_marks(1) linkFree_marks(1))
qed

subsection \<open>One slot changes\<close>

definition conn_touches :: "nat \<Rightarrow> ('b, 'q) its_state \<Rightarrow> ('b, 'q) its_state \<Rightarrow> bool" where
  "conn_touches h st st' \<longleftrightarrow> map t_task (tasks st') = map t_task (tasks st) \<and> length (connTable st') = length (connTable st)
     \<and> (\<forall>k. k \<noteq> h \<longrightarrow> connTable st' ! k = connTable st ! k)"

lemma touches_refl [simp]: "conn_touches h st st"
  by (simp add: conn_touches_def)

lemma touches_trans: "conn_touches h a b \<Longrightarrow> conn_touches h b c \<Longrightarrow> conn_touches h a c"
  by (simp add: conn_touches_def)

lemma touches_same: "s_tasks st' = s_tasks st \<Longrightarrow> connTable st' = (connTable st)[h := c] \<Longrightarrow> conn_touches h st st'"
  by (simp add: conn_touches_def tasks_def)

text \<open>What of a connection tells which connect made it.\<close>

definition party :: "its_conn \<Rightarrow> bool \<times> task \<times> task \<times> u32" where
  "party c = (c_active c, c_clientTask c, c_serverTask c, c_connectNonce c)"

text \<open>A slot under construction: the rest is as before, and so is who made it.\<close>

definition fills :: "nat \<Rightarrow> ('b, 'q) its_state \<Rightarrow> ('b, 'q) its_state \<Rightarrow> bool" where
  "fills h st st' \<longleftrightarrow> conn_touches h st st' \<and> party (connTable st' ! h) = party (connTable st ! h)"

lemma fills_refl [simp]: "fills h st st"
  by (simp add: fills_def)

lemma fills_trans: "fills h a b \<Longrightarrow> fills h b c \<Longrightarrow> fills h a c"
  unfolding fills_def using touches_trans by metis

text \<open>The connections and the tasks are as before.\<close>

definition same_conns :: "('b, 'q) its_state \<Rightarrow> ('b, 'q) its_state \<Rightarrow> bool" where
  "same_conns st st' \<longleftrightarrow> connTable st' = connTable st \<and> map t_task (tasks st') = map t_task (tasks st)"

lemma same_conns_refl [simp]: "same_conns st st"
  by (simp add: same_conns_def)

lemma same_conns_touches: "same_conns st st' \<Longrightarrow> conn_touches h st st'"
  by (simp add: same_conns_def conn_touches_def)

text \<open>
  What is asked of the callbacks of a server: the one for a connect touches no connection but
  the one it is told of, and of that one neither whether it is open nor who made it; the ones for
  a busy port and for a disconnect leave the connection table alone. None of them registers a
  task.
\<close>

definition callbacks_local :: "('b, 'q) its_env \<Rightarrow> bool" where
  "callbacks_local E \<longleftrightarrow>
     (\<forall>cb h p l st r. e_onConnect E cb (int h) p l st = Some r \<longrightarrow> fills h st (snd r))
     \<and> (\<forall>cb d l st r. e_onBusy E cb d l st = Some r \<longrightarrow> same_conns st (snd r))
     \<and> (\<forall>cb ref st st'. e_onDisconnect E cb ref st = Some st' \<longrightarrow> same_conns st st')"

lemma callbacks_localD:
  assumes "callbacks_local E"
  shows "e_onConnect E cb (int h) p l st = Some r \<Longrightarrow> fills h st (snd r)"
    "e_onBusy E cb d l st = Some b \<Longrightarrow> same_conns st (snd b)"
    "e_onDisconnect E cb ref st = Some st' \<Longrightarrow> same_conns st st'"
  using assms unfolding callbacks_local_def by blast+

lemma fills_conn:
  assumes "connTable s = connTable st \<and> s_tasks s = s_tasks st" "\<And>c. party (f c) = party c"
  shows "fills h st (conn_upd h f s)"
  using assms by (cases "h < length (connTable st)") (auto simp: fills_def conn_touches_def tasks_def list_update_beyond)

lemma acquired_fills:
  "linkAcquire E d cap mx st = Some r \<Longrightarrow> fills h st (conn_upd h (\<lambda>c. c\<lparr>c_toLinkIdx := fst r\<rparr>) (snd r))"
  "linkAcquire E d cap mx st = Some r \<Longrightarrow> fills h st (conn_upd h (\<lambda>c. c\<lparr>c_fromLinkIdx := fst r\<rparr>) (snd r))"
  "poolGet E sz np st = Some r \<Longrightarrow> fills h st (conn_upd h (\<lambda>c. c\<lparr>c_toPoolIdx := fst r\<rparr>) (snd r))"
  "poolGet E sz np st = Some r \<Longrightarrow> fills h st (conn_upd h (\<lambda>c. c\<lparr>c_fromPoolIdx := fst r\<rparr>) (snd r))"
  by (cases r, rule fills_conn, use linkAcquire_frame poolGet_frame in fastforce, simp add: party_def)+

lemma connectLinks_fills:
  assumes "connectLinks E sp h st = Some r"
  shows "fills h st (snd r)"
proof -
  obtain r1 where r1: "(if sp_toSize sp > 0
             then do {
               r \<leftarrow> linkAcquire E (sp_depth sp) (sp_toSize sp) (sp_maxMsg sp) st;
               Some (\<not> fst r < 0, conn_upd h (\<lambda>c. c\<lparr>c_toLinkIdx := fst r\<rparr>) (snd r)) }
             else Some (True, st)) = Some r1"
    "r = r1 \<or> (\<exists>x. linkAcquire E (sp_depth sp) (sp_fromSize sp) (sp_maxMsg sp) (snd r1) = Some x
        \<and> snd r = conn_upd h (\<lambda>c. c\<lparr>c_fromLinkIdx := fst x\<rparr>) (snd x))"
    using assms unfolding connectLinks_def bind_eq_Some_conv by (auto simp: bind_eq_Some_conv split: if_splits) 
  have "fills h st (snd r1)"
    using r1(1) acquired_fills(1) by (auto simp: bind_eq_Some_conv split: if_splits)
  with r1(2) show ?thesis using fills_trans acquired_fills(2) by metis
qed

lemma connectPools_fills:
  assumes "connectPools E sp np h st = Some r"
  shows "fills h st (snd r)"
proof -
  obtain r1 where r1: "(if sp_toSize sp > 0
             then do {
               r \<leftarrow> poolGet E (unat (sp_toSize sp)) np st;
               Some (\<not> fst r < 0, conn_upd h (\<lambda>c. c\<lparr>c_toPoolIdx := fst r\<rparr>) (snd r)) }
             else Some (True, st)) = Some r1"
    "r = r1 \<or> (\<exists>x. poolGet E (unat (sp_fromSize sp)) np (snd r1) = Some x
        \<and> snd r = conn_upd h (\<lambda>c. c\<lparr>c_fromPoolIdx := fst x\<rparr>) (snd x))"
    using assms unfolding connectPools_def bind_eq_Some_conv by (auto simp: bind_eq_Some_conv split: if_splits)
  have "fills h st (snd r1)"
    using r1(1) acquired_fills(3) by (auto simp: bind_eq_Some_conv split: if_splits)
  with r1(2) show ?thesis using fills_trans acquired_fills(4) by metis
qed

lemma connectOpen_touches:
  assumes run: "connectOpen E ti sp m h st = Some r" and cb: "callbacks_local E"
    and h: "h < ITS_MAX_CONNS" "h < length (connTable st)"
  shows "conn_touches h st (snd r)" "fst r \<Longrightarrow> party (connTable (snd r) ! h) =
      (c_active (connTable st ! h), m_sender m, t_task (tasks st ! ti), m_nonce m)"
    "\<not> fst r \<Longrightarrow> \<not> c_active (connTable (snd r) ! h)"
proof -
  define st1 where "st1 = conn_upd h (\<lambda>c. c\<lparr>c_clientTask := m_sender m, c_serverTask := t_task (tasks st ! ti),
      c_itsPort := m_port m, c_connectNonce := m_nonce m, c_kind := sp_kind sp, c_packetBased := sp_packetBased sp,
      c_noPool := t_no_pool (tasks st ! ti)\<rparr>) st"
  obtain q a where q: "(if sp_kind sp = ITS_PACKET then connectLinks E sp h st1
        else connectPools E sp (t_no_pool (tasks st ! ti)) h st1) = Some q"
    and a: "(if \<not> fst q then Some (False, snd q)
             else if sp_onConnect sp = 0 then Some (True, snd q)
             else do {
               x \<leftarrow> e_onConnect E (sp_onConnect sp) (int h) (m_payload m) (m_len m) (snd q);
               Some (fst x \<ge> 0, if fst x \<ge> 0 then conn_upd h (\<lambda>c. c\<lparr>c_serverRef := int8 (fst x)\<rparr>) (snd x) else snd x) }) = Some a"
    and r: "if fst a then r = a else \<not> fst r \<and> connFree E (int h) (snd a) = Some (snd r)"
    using run unfolding connectOpen_def Let_def st1_def [symmetric] bind_eq_Some_conv
    by (auto simp: bind_eq_Some_conv split: if_splits)
  have "fills h st1 (snd q)" using q connectLinks_fills connectPools_fills by metis
  moreover have ref: "fills h s x \<Longrightarrow> fills h s (conn_upd h (\<lambda>c. c\<lparr>c_serverRef := v\<rparr>) x)" for s x :: "('a, 'b) its_state" and v
    by (erule fills_trans, rule fills_conn) (simp_all add: party_def)
  have "fills h (snd q) (snd a)"
    using a callbacks_localD(1) [OF cb] by (auto simp: bind_eq_Some_conv split: if_splits intro!: ref)
  ultimately have f: "fills h st1 (snd a)" by (rule fills_trans)
  have t1: "conn_touches h st st1" "party (connTable st1 ! h) =
      (c_active (connTable st ! h), m_sender m, t_task (tasks st ! ti), m_nonce m)"
    using h by (simp_all add: st1_def conn_touches_def party_def)
  have tq: "conn_touches h st (snd a)" using touches_trans [OF t1(1)] f by (simp add: fills_def)
  show "conn_touches h st (snd r)"
  proof (cases "fst a")
    case False
    with r have "connFree E (int h) (snd a) = Some (snd r)" by simp
    from connFree_frame [OF this] h have "conn_touches h (snd a) (snd r)" by (intro touches_same) auto
    with tq show ?thesis by (rule touches_trans)
  qed (use r tq in auto)
  show "fst r \<Longrightarrow> party (connTable (snd r) ! h) =
      (c_active (connTable st ! h), m_sender m, t_task (tasks st ! ti), m_nonce m)"
    using r f t1(2) by (auto simp: fills_def split: if_splits)
  show "\<not> fst r \<Longrightarrow> \<not> c_active (connTable (snd r) ! h)"
  proof -
    assume "\<not> fst r"
    with r have "connFree E (int h) (snd a) = Some (snd r)" by (auto split: if_splits)
    from connFree_frame(2) [OF this] h tq show ?thesis by (simp add: conn_touches_def blankConn_def)
  qed
qed

text \<open>The connections that are open are the same.\<close>

definition same_open :: "('b, 'q) its_state \<Rightarrow> ('b, 'q) its_state \<Rightarrow> bool" where
  "same_open st st' \<longleftrightarrow> length (connTable st') = length (connTable st)
     \<and> (\<forall>k. c_active (connTable st ! k) = c_active (connTable st' ! k))
     \<and> (\<forall>k. c_active (connTable st ! k) \<longrightarrow> connTable st' ! k = connTable st ! k)"

lemma touches_open: "conn_touches h st st' \<Longrightarrow> \<not> c_active (connTable st ! h) \<Longrightarrow> \<not> c_active (connTable st' ! h) \<Longrightarrow> same_open st st'"
  unfolding conn_touches_def same_open_def by metis

lemma ack_client_frame [simp]: "connTable (ack_client cli h n st) = connTable st" "s_tasks (ack_client None h n st) = s_tasks st"
  "map t_task (tasks (ack_client cli h n st)) = map t_task (tasks st)"
proof -
  have "map t_task (ts[i := (ts ! i)\<lparr>t_ackHandle := h, t_ackNonce := n, t_ackSem := s\<rparr>]) = map t_task ts" for ts :: "'b its_task list" and i s
    by (rule map_upd_same [where f = "\<lambda>c. c\<lparr>t_ackHandle := h, t_ackNonce := n, t_ackSem := s\<rparr>"]) simp
  then show "map t_task (tasks (ack_client cli h n st)) = map t_task (tasks st)"
    by (cases cli; cases "s_tasks st") (simp_all add: ack_client_def tasks_def task_upd_def)
qed (simp_all add: ack_client_def task_upd_def split: option.split)

lemma touches_ack: "conn_touches h st s \<Longrightarrow> conn_touches h st (ack_client cli k n s)"
  by (simp add: conn_touches_def)

text \<open>A slot that is handed out was free, and is blank but for being open.\<close>

lemma connAlloc_slot:
  assumes "connAlloc st = (handle, st')" "length (connTable st) = ITS_MAX_CONNS"
  shows "handle < 0 \<Longrightarrow> st' = st"
    "\<not> handle < 0 \<Longrightarrow> \<exists>j. handle = int j \<and> j < ITS_MAX_CONNS \<and> \<not> c_active (connTable st ! j) \<and> tasks st' = tasks st
       \<and> conn_touches j st st' \<and> party (connTable st' ! j) = (True, 0, 0, 0) \<and> length (connTable st') = ITS_MAX_CONNS"
  using assms by (auto simp: connAlloc_def conn_touches_def tasks_def party_def blankConn_def find_Some_iff ITS_MAX_CONNS_def
      split: if_splits option.splits)

lemma procConnect_table:
  assumes run: "procConnect E ti m st = Some st1" and len: "length (connTable st) = ITS_MAX_CONNS"
    and cb: "callbacks_local E" and ti: "ti < length (tasks st)"
  shows "map t_task (tasks st1) = map t_task (tasks st) \<and> (same_open st st1 \<or>
    (\<exists>h < ITS_MAX_CONNS. conn_touches h st st1 \<and> \<not> c_active (connTable st ! h)
       \<and> party (connTable st1 ! h) = (True, m_sender m, t_task (tasks st ! ti), m_nonce m)))"
proof (cases "portFind (tasks st ! ti) (m_port m)")
  case None
  with run show ?thesis by (auto simp: procConnect_def same_open_def)
next
  case (Some pi)
  let ?busy = "if portFull ti pi (m_port m) st \<and> sp_onBusy (portAt ti pi st) \<noteq> 0
                 then do {
                   r \<leftarrow> e_onBusy E (sp_onBusy (portAt ti pi st)) (heap st (m_payload m)) (m_len m) st;
                   Some (if \<not> fst r then portFull ti pi (m_port m) (snd r) else True, snd r) }
                 else Some (portFull ti pi (m_port m) st, st)"
  obtain b where b: "?busy = Some b" and rest:
    "(let st1 = snd b; cli = taskFind (m_sender m) st1;
        (handle, st2) = (if \<not> fst b \<and> cli \<noteq> None then connAlloc st1 else (- 1, st1)) in
      do {
        a \<leftarrow> (if handle \<ge> 0 then connectOpen E ti (portAt ti pi st2) m (nat handle) st2 else Some (False, st2));
        Some (ack_client cli (if fst a then handle else - 1) (m_nonce m) (snd a))
      }) = Some st1"
    using run unfolding procConnect_def Some option.case bind_eq_Some_conv by blast
  have same: "same_conns st (snd b)"
    using b callbacks_localD(2) [OF cb] by (auto simp: bind_eq_Some_conv split: if_splits)
  let ?cli = "taskFind (m_sender m) (snd b)"
  obtain handle st2 where h: "(if \<not> fst b \<and> ?cli \<noteq> None then connAlloc (snd b) else (- 1, snd b)) = (handle, st2)" by fastforce
  from rest obtain a k where
    a: "(if handle \<ge> 0 then connectOpen E ti (portAt ti pi st2) m (nat handle) st2 else Some (False, st2)) = Some a"
    and st1: "st1 = ack_client ?cli k (m_nonce m) (snd a)"
    unfolding Let_def h prod.case bind_eq_Some_conv by blast
  have len': "length (connTable (snd b)) = ITS_MAX_CONNS" using same len by (simp add: same_conns_def)
  show ?thesis
  proof (cases "handle \<ge> 0")
    case False
    with a have "snd a = st2" by auto
    moreover have "st2 = snd b" using h False connAlloc_slot(1) [OF _ len'] by (auto split: if_splits)
    ultimately show ?thesis using st1 same by (simp add: same_open_def same_conns_def)
  next
    case True
    with h have "connAlloc (snd b) = (handle, st2)" by (auto split: if_splits)
    from connAlloc_slot(2) [OF this len'] True obtain j where j: "handle = int j" "j < ITS_MAX_CONNS"
      "\<not> c_active (connTable (snd b) ! j)" "tasks st2 = tasks (snd b)" "conn_touches j (snd b) st2"
      "party (connTable st2 ! j) = (True, 0, 0, 0)" "length (connTable st2) = ITS_MAX_CONNS" by auto
    have op: "connectOpen E ti (portAt ti pi st2) m j st2 = Some a" using a j(1) by simp
    have jl: "j < length (connTable st2)" using j(2,7) by simp
    have me: "t_task (tasks st2 ! ti) = t_task (tasks st ! ti)"
      using same ti unfolding j(4) same_conns_def by (metis length_map nth_map)
    have free: "\<not> c_active (connTable st ! j)" using j(3) same by (simp add: same_conns_def)
    note C = connectOpen_touches [OF op cb j(2) jl]
    have t: "conn_touches j st st1" unfolding st1
      by (rule touches_ack [OF touches_trans [OF touches_trans [OF same_conns_touches [OF same] j(5)] C(1)]])
    show ?thesis
    proof (cases "fst a")
      case True
      with C(2) j(2,6) t st1 free me show ?thesis by (auto simp: conn_touches_def party_def)
    next
      case False
      from C(3) [OF this] have "same_open st st1" by (intro touches_open [OF t free]) (simp add: st1)
      with t show ?thesis by (simp add: conn_touches_def)
    qed
  qed
qed

subsection \<open>The cancel\<close>

lemma procCancel_open:
  assumes run: "procCancel E ti m st1 = Some st2" and t: "conn_touches h st st1" and h: "h < ITS_MAX_CONNS"
    and len: "length (connTable st) = ITS_MAX_CONNS"
    and ti: "ti < length (tasks st)" and free: "\<not> c_active (connTable st ! h)"
    and cb: "callbacks_local E"
    and mine: "party (connTable st1 ! h) = (True, m_sender m, t_task (tasks st ! ti), m_nonce m)" and nonce: "m_nonce m \<noteq> 0"
    and fresh: "\<And>k. k < ITS_MAX_CONNS \<Longrightarrow> \<not> cancels (t_task (tasks st ! ti)) m (connTable st ! k)"
  shows "same_open st st2"
proof -
  have me: "t_task (tasks st1 ! ti) = t_task (tasks st ! ti)"
    using t ti unfolding conn_touches_def by (metis length_map nth_map)
  have c: "cancels (t_task (tasks st1 ! ti)) m (connTable st1 ! k) \<longleftrightarrow> k = h" if "k < ITS_MAX_CONNS" for k
    using that t fresh [OF that] mine nonce by (cases "k = h") (auto simp: me conn_touches_def party_def cancels_def)
  have "find (\<lambda>k. cancels (t_task (tasks st1 ! ti)) m (connTable st1 ! k)) [0..<ITS_MAX_CONNS] = Some h"
    unfolding find_Some_iff using h by (intro exI [of _ h]) (simp add: c)
  with run obtain s where f: "connFree E (int h) st1 = Some s" and d: "same_conns s st2"
    using callbacks_localD(3) [OF cb]
    by (fastforce simp: procCancel_def bind_eq_Some_conv tell_disconnect_def Let_def split: option.splits if_splits)
  from connFree_frame [OF f] h have F: "s_tasks s = s_tasks st1"
    "connTable s = (connTable st1)[h := blankConn\<lparr>c_toPoolIdx := - 1, c_fromPoolIdx := - 1, c_toLinkIdx := - 1, c_fromLinkIdx := - 1\<rparr>]"
    by auto
  have "conn_touches h st st2" by (rule touches_trans [OF touches_trans [OF t touches_same [OF F]] same_conns_touches [OF d]])
  moreover have "\<not> c_active (connTable st2 ! h)" using h len t d by (simp add: F same_conns_def conn_touches_def blankConn_def)
  ultimately show ?thesis using free touches_open by blast
qed

lemma procCancel_nothing:
  assumes "same_open st st1" "map t_task (tasks st1) = map t_task (tasks st)" "ti < length (tasks st)"
    and fresh: "\<And>k. k < ITS_MAX_CONNS \<Longrightarrow> \<not> cancels (t_task (tasks st ! ti)) m (connTable st ! k)"
  shows "procCancel E ti m st1 = Some st1"
proof -
  have "t_task (tasks st1 ! ti) = t_task (tasks st ! ti)" using assms(2,3) by (metis length_map nth_map)
  moreover have "cancels me m (connTable st1 ! k) \<Longrightarrow> cancels me m (connTable st ! k)" for me k
    using assms(1) unfolding same_open_def by (metis cancels_def)
  ultimately have "find (\<lambda>k. cancels (t_task (tasks st1 ! ti)) m (connTable st1 ! k)) [0..<ITS_MAX_CONNS] = None"
    using fresh by (auto simp: find_None_iff)
  then show ?thesis by (simp add: procCancel_def)
qed

lemma cancel_connect:
  assumes len: "length (connTable st) = ITS_MAX_CONNS" and ti: "ti < length (tasks st)" and nonce: "m_nonce m \<noteq> 0"
    and cb: "callbacks_local E"
    and fresh: "\<And>k. k < ITS_MAX_CONNS \<Longrightarrow> \<not> cancels (t_task (tasks st ! ti)) m (connTable st ! k)"
    and run: "procConnect E ti m st = Some st1" "procCancel E ti m' st1 = Some st2"
    and m': "m_sender m' = m_sender m" "m_nonce m' = m_nonce m"
  shows "same_open st st2"
proof -
  have fresh': "\<not> cancels (t_task (tasks st ! ti)) m' (connTable st ! k)" if "k < ITS_MAX_CONNS" for k
    using fresh [OF that] m' by (simp add: cancels_def)
  note P = procConnect_table [OF run(1) len cb ti]
  show ?thesis
  proof (cases "same_open st st1")
    case True
    with procCancel_nothing [OF True _ ti fresh'] P run(2) show ?thesis by auto
  next
    case False
    with P obtain h where "h < ITS_MAX_CONNS" "conn_touches h st st1" "\<not> c_active (connTable st ! h)"
      "party (connTable st1 ! h) = (True, m_sender m', t_task (tasks st ! ti), m_nonce m')" using m' by auto
    with procCancel_open [OF run(2) _ _ len ti _ cb _ _ fresh'] nonce m' show ?thesis by simp
  qed
qed

end
