(* ===== verification/Its_Wait.thy ===== *)
theory Its_Wait
  imports Its_Reach
begin

section \<open>Inter-task streams: a wait with a time limit ends\<close>

text \<open>
  The loop that waits for space on a packet link. What is assumed of the time spent blocked: the
  tick counter advances by less than half its range, a caller is woken only finitely often within
  one tick (\<open>wakes\<close> bounds how often it still can be; a wake-up in the same tick lowers the bound,
  and the caller's own bookkeeping on the link does not raise it), and a semaphore that exists
  stays. Nothing else is assumed of what the other tasks do, nor of the counter not wrapping.
\<close>

definition clock_runs :: "('b, 'q) its_env \<Rightarrow> nat \<Rightarrow> (('b, 'q) its_state \<Rightarrow> nat) \<Rightarrow> bool" where
  "clock_runs E i wakes \<longleftrightarrow>
     (\<forall>st n. wakes (link_arm i n st) \<le> wakes st)
     \<and> (\<forall>st. wakes (link_upd i (\<lambda>L. L\<lparr>l_sem := sem_clear (l_sem L)\<rparr>) st) \<le> wakes st)
     \<and> (\<forall>st. \<exists>d. d < 2 ^ 31 \<and> tickCount (blocked E st) = tickCount st + of_nat d
          \<and> (d = 0 \<longrightarrow> wakes (blocked E st) < wakes st)
          \<and> (i < length (links st) \<longrightarrow> l_sem (links st ! i) \<noteq> None \<longrightarrow>
             i < length (links (blocked E st)) \<and> l_sem (links (blocked E st) ! i) \<noteq> None))"

lemma clock_runsD:
  assumes "clock_runs E i wakes"
  shows "wakes (link_arm i n st) \<le> wakes st"
    "wakes (link_upd i (\<lambda>L. L\<lparr>l_sem := sem_clear (l_sem L)\<rparr>) st) \<le> wakes st"
    "\<exists>d. d < 2 ^ 31 \<and> tickCount (blocked E st) = tickCount st + of_nat d \<and> (d = 0 \<longrightarrow> wakes (blocked E st) < wakes st)
          \<and> (i < length (links st) \<longrightarrow> l_sem (links st ! i) \<noteq> None \<longrightarrow>
             i < length (links (blocked E st)) \<and> l_sem (links (blocked E st) ! i) \<noteq> None)"
  using assms unfolding clock_runs_def by blast+

text \<open>One round: the token is cleared, so a second take blocks.\<close>

definition has_sem :: "nat \<Rightarrow> ('b, 'q) its_state \<Rightarrow> bool" where
  "has_sem i st \<longleftrightarrow> i < length (links st) \<and> l_sem (links st ! i) \<noteq> None"

lemma has_sem_upd [simp]: "(\<And>L. (l_sem (f L) = None) = (l_sem L = None)) \<Longrightarrow> has_sem i (link_upd i f st) = has_sem i st"
  by (simp add: has_sem_def its_sel cong: conj_cong)

lemma sem_take_now:
  assumes clk: "clock_runs E i wakes" and "has_sem i st"
  obtains b st' where "linkSemTake E i 0 st = Some (b, st')" "tickCount st' = tickCount st" "has_sem i st'"
    "l_sem (links st' ! i) = Some False" "wakes st' \<le> wakes st"
proof -
  obtain s where s: "l_sem (links st ! i) = Some s" "i < length (links st)" using assms by (auto simp: has_sem_def)
  show ?thesis
  proof (cases s)
    case True
    let ?st' = "link_upd i (\<lambda>L. L\<lparr>l_sem := sem_clear (l_sem L)\<rparr>) st"
    show ?thesis
      by (rule that [of True ?st']) (use s True clock_runsD(2) [OF clk] in
        \<open>simp_all add: linkSemTake_def semTake_def its_sel has_sem_def sem_clear_def\<close>)
  next
    case False
    show ?thesis by (rule that [of False st]) (use s False in \<open>simp_all add: linkSemTake_def semTake_def has_sem_def\<close>)
  qed
qed

lemma sem_take_wait:
  assumes clk: "clock_runs E i wakes" and sem: "has_sem i st" "l_sem (links st ! i) = Some False" and t: "t \<noteq> 0"
  obtains b st' d where "linkSemTake E i t st = Some (b, st')" "has_sem i st'" "d < 2 ^ 31"
    "tickCount st' = tickCount st + of_nat d" "d = 0 \<Longrightarrow> wakes st' < wakes st"
proof -
  obtain d where d: "d < 2 ^ 31" "tickCount (blocked E st) = tickCount st + of_nat d" "has_sem i (blocked E st)"
    "d = 0 \<longrightarrow> wakes (blocked E st) < wakes st"
    using clock_runsD(3) [OF clk, of st] sem(1) unfolding has_sem_def by metis
  let ?clr = "link_upd i (\<lambda>L. L\<lparr>l_sem := sem_clear (l_sem L)\<rparr>)"
  show ?thesis
  proof (cases "l_sem (links (blocked E st) ! i) = Some True")
    case True
    have "d = 0 \<Longrightarrow> wakes (?clr (blocked E st)) < wakes st" using d(4) clock_runsD(2) [OF clk] le_less_trans by blast
    then show ?thesis by (intro that [of True "?clr (blocked E st)" d])
      (use d t sem True in \<open>simp_all add: linkSemTake_def semTake_def its_sel sem_clear_def Let_def\<close>)
  next
    case False
    show ?thesis by (rule that [of False "blocked E st" d])
      (use d t sem False in \<open>simp_all add: linkSemTake_def semTake_def its_sel Let_def\<close>)
  qed
qed

lemma arm_sel [simp]: "tickCount (link_arm i n st) = tickCount st" "has_sem i (link_arm i n st) = has_sem i st"
  "has_sem i st \<Longrightarrow> l_sem (links (link_arm i n st) ! i) = l_sem (links st ! i)"
  by (simp_all add: link_arm_def its_sel) (simp add: has_sem_def its_sel)

text \<open>
  In every round the time that is left decreases, or it stays and the wake-ups of this tick
  decrease: the elapsed time is below the limit, which is below half the range of the counter, so
  one more wait does not wrap it.
\<close>

lemma linkWaitLoop_ends:
  assumes "clock_runs E i wakes" "has_sem i st" "unat t < 2 ^ 31" "unat (tickCount st - start) < unat t" "rem \<noteq> 0"
  shows "\<exists>ok st'. linkWaitLoop E h i len t start rem st = Some (ok, st')
    \<and> (\<not> ok \<longrightarrow> conn h st' = None \<or> tickCount st' - start \<ge> t)"
  using assms(2-5)
proof (induction "(unat t - unat (tickCount st - start), wakes st)" arbitrary: st rem
    rule: wf_induct_rule [OF wf_lex_prod [OF wf_less wf_less]])
  case less: 1
  obtain b0 s0 where r0: "linkSemTake E i 0 st = Some (b0, s0)" "tickCount s0 = tickCount st" "has_sem i s0"
    "l_sem (links s0 ! i) = Some False" "wakes s0 \<le> wakes st" by (rule sem_take_now [OF assms(1) less.prems(1)])
  define s1 where "s1 = link_arm i len s0"
  have "wakes s1 \<le> wakes s0" using clock_runsD(1) [OF assms(1)] by (simp add: s1_def)
  then have s1: "has_sem i s1" "l_sem (links s1 ! i) = Some False" "tickCount s1 = tickCount st" "wakes s1 \<le> wakes st"
    using r0 by (simp_all add: s1_def)
  obtain b1 s2 d where r1: "linkSemTake E i rem s1 = Some (b1, s2)" "has_sem i s2" "d = 0 \<Longrightarrow> wakes s2 < wakes s1" "d < 2 ^ 31"
    "tickCount s2 = tickCount st + of_nat d" using sem_take_wait [OF assms(1) s1(1,2) less.prems(4)] s1(3) by metis
  have tm: "t \<noteq> portMAX_DELAY" using less.prems(2) by auto
  let ?e = "unat (tickCount st - start)"
  have e2: "unat (tickCount s2 - start) = ?e + d"
  proof -
    have "tickCount s2 - start = (tickCount st - start) + of_nat d" using r1(5) by simp
    moreover have "?e + d < 2 ^ 32" using less.prems(2,3) r1(4) by simp
    moreover have "unat ((of_nat d) :: ticks) = d" using r1(4) by (simp add: unat_of_nat)
    ultimately show ?thesis by (simp only: unat_word_ariths) simp
  qed
  have c: "conn h (link_arm i 0 s2) = conn h s2" by (simp add: conn_def link_arm_def its_sel)
  have body: "linkWaitLoop E h i len t start rem st =
     (if linkCanSend E (links s1 ! i) len then Some (True, link_arm i 0 s1)
      else if conn h s2 = None then Some (False, link_arm i 0 s2)
      else if b1 \<and> linkCanSend E (links s2 ! i) len then Some (True, link_arm i 0 s2)
      else if tickCount s2 - start \<ge> t then Some (False, link_arm i 0 s2)
      else linkWaitLoop E h i len t start (t - (tickCount s2 - start)) s2)"
    using tm by (subst linkWaitLoop.simps) (simp add: r0(1) r1(1) Let_def flip: s1_def)
  show ?case
  proof (cases "tickCount s2 - start \<ge> t")
    case True
    then show ?thesis by (auto simp: body c)
  next
    case False
    then have lt: "?e + d < unat t" by (simp add: word_le_nat_alt e2)
    have nz: "t - (tickCount s2 - start) \<noteq> 0" using False by auto
    have dec: "((unat t - unat (tickCount s2 - start), wakes s2), (unat t - ?e, wakes st)) \<in> {(x, y). x < y} <*lex*> {(x, y). x < y}"
      using lt r1(3) s1(4) e2 by (cases "d = 0") auto
    have "unat (tickCount s2 - start) < unat t" using lt e2 by simp
    from less.hyps [OF dec r1(2) less.prems(2) this nz]
    obtain ok st' where "linkWaitLoop E h i len t start (t - (tickCount s2 - start)) s2 = Some (ok, st')"
      "\<not> ok \<longrightarrow> conn h st' = None \<or> tickCount st' - start \<ge> t" by blast
    then show ?thesis by (auto simp: body c)
  qed
qed

lemma linkWaitForSpace_ends:
  assumes "clock_runs E i wakes" "has_sem i st" "unat t < 2 ^ 31"
  shows "\<exists>ok st'. linkWaitForSpace E h i len t st = Some (ok, st')
    \<and> (\<not> ok \<longrightarrow> conn h st' = None \<or> tickCount st' - tickCount st \<ge> t)"
proof (cases "t = 0")
  case False
  then have "unat (tickCount st - tickCount st) < unat t" by (simp add: unat_gt_0)
  from linkWaitLoop_ends [OF assms this False] False show ?thesis by (auto simp: linkWaitForSpace_def)
qed (auto simp: linkWaitForSpace_def)

lemma write_fresh: "payAlloc E n st = (p, st1) \<Longrightarrow> p \<noteq> 0 \<Longrightarrow> length bs = n \<Longrightarrow> heap_write p bs st1 \<noteq> None"
  by (auto simp: payAlloc_def heap_malloc_def heap_write_def split: if_splits option.splits prod.splits)

text \<open>Why a send on a packet link accepts nothing.\<close>

definition send_fails :: "('b, 'q) its_env \<Rightarrow> int \<Rightarrow> nat \<Rightarrow> nat \<Rightarrow> ticks \<Rightarrow> ('b, 'q) its_state \<Rightarrow> ('b, 'q) its_state \<Rightarrow> bool" where
  "send_fails E h i len t st st' \<longleftrightarrow> len = 0 \<or> len > unat (l_maxMsg (links st ! i)) \<or> conn h st' = None
     \<or> tickCount st' - tickCount st \<ge> t \<or> e_malloc E (heap st') len = None"

lemma payAlloc_fails: "payAlloc E n st = (0, st1) \<Longrightarrow> malloc_laws E \<Longrightarrow> n \<noteq> 0 \<Longrightarrow> e_malloc E (heap st1) n = None"
  by (auto simp: payAlloc_def heap_malloc_def malloc_laws_def split: if_splits option.splits prod.splits)

lemma itsSendPacket_ends:
  assumes clk: "clock_runs E i wakes" "has_sem i st" "unat t < 2 ^ 31" and len: "length data < 2 ^ 32" and mem: "malloc_laws E"
  shows "\<exists>n st'. itsSendPacket E me h i (Copy data) t st = Some (n, st')
    \<and> (unat n = length data \<or> n = 0 \<and> send_fails E h i (length data) t st st')"
proof -
  let ?len = "of_nat (length data) :: u32"
  have u: "unat ?len = length data" using len by (simp add: unat_of_nat)
  obtain ok st1 where w: "linkWaitForSpace E h i ?len t st = Some (ok, st1)"
    "\<not> ok \<longrightarrow> conn h st1 = None \<or> tickCount st1 - tickCount st \<ge> t" using linkWaitForSpace_ends [OF clk] by blast
  obtain p st2 where a: "payAlloc E (length data) st1 = (p, st2)" by fastforce
  have "p \<noteq> 0 \<Longrightarrow> \<exists>st3. heap_write p data st2 = Some st3" using write_fresh [OF a] by auto
  moreover have "p = 0 \<Longrightarrow> length data \<noteq> 0 \<Longrightarrow> e_malloc E (heap st2) (length data) = None" using payAlloc_fails a mem by metis
  moreover have "(?len = 0) = (length data = 0)" "(l_maxMsg (links st ! i) < ?len) = (unat (l_maxMsg (links st ! i)) < length data)"
    using u by (metis unat_eq_0, simp add: word_less_nat_alt)
  ultimately show ?thesis using w by (auto simp: itsSendPacket_def Let_def u a send_fails_def)
qed

end
