(* ===== verification/Its_Props.thy ===== *)
theory Its_Props
  imports Its_Demo Its_Cancel Its_Wait
begin

section \<open>Inter-task streams: the properties\<close>

text \<open>
  The theorems about connections, each with a witness on the device of \<open>Its_Demo\<close>: task 1 is
  connected to port 7 of task 2 by the handshake of its.cpp.
\<close>

subsection \<open>The device of the witnesses\<close>

definition demo_view :: "(demo_sb, demo_q) its_state \<Rightarrow> (demo_sb, demo_q) link_view" where
  "demo_view st = \<lparr>v_env = its_demo_env, v_cap = demo_cap, v_cont = demo_cont, v_handle = 0, v_sender = 1, v_receiver = 2,
     v_link = 0, v_maxMsg = 32, v_heap = heap st, v_blocks = liveBlocks (payCtr st), v_bytes = liveBytes (payCtr st)\<rparr>"

lemma demo_env_sel [simp]: "e_rtos its_demo_env = demo_rtos" "e_malloc its_demo_env = demo_malloc"
  by (simp_all add: its_demo_env_def quiet_env_def)

lemma demo_table_0 [simp]: "demo_table ! 0 = demo_conn" "length demo_table = ITS_MAX_CONNS"
  by (simp_all add: demo_table_def ITS_MAX_CONNS_def)

lemma demo_link_ok:
  assumes "connTable st = demo_table" "links st = [demo_link, demo_link]"
  shows "link_ok (demo_view st) st" "link_queue (demo_view st) st = []"
proof -
  have c: "conn 0 st = Some demo_conn" using assms by (simp add: conn_def demo_conn_def ITS_MAX_CONNS_def)
  have r: "ring_rep demo_cap demo_cont demo_link []" by (simp add: ring_rep_def demo_link_def demo_cap_def demo_cont_def)
  then have d: "link_descs (demo_view st) st = []"
    using assms ring_rep_descs [OF r] by (simp add: link_descs_def demo_view_def)
  have s: "sendLink 1 0 st = Some 0" "recvLink 2 0 st = Some 0"
    using assms by (simp_all add: sendLink_def recvLink_def c demo_conn_def linkAt_def)
  show "link_ok (demo_view st) st" unfolding link_ok_def d
    using assms r s demo_sb_laws demo_malloc_laws [of its_demo_env]
    by (simp add: demo_view_def link_window_def owns_def demo_link_def)
  show "link_queue (demo_view st) st = []" by (simp add: link_queue_def d)
qed

lemma demo_view_sel [simp]:
  "v_env (demo_view st) = its_demo_env" "v_handle (demo_view st) = 0" "v_sender (demo_view st) = 1"
  "v_receiver (demo_view st) = 2" "v_link (demo_view st) = 0" "v_maxMsg (demo_view st) = 32" "v_heap (demo_view st) = heap st"
  by (simp_all add: demo_view_def)

subsection \<open>Packet links\<close>

text \<open>
  C2. Over a packet link no message is duplicated, reordered or cut, and none is lost but by a
  receive whose buffer is too short for it: for any interleaving of non-blocking sends (of
  messages below 4 GB) of one end and non-blocking receives, with buffers of any length, of the
  other, every call returns; what was in flight before followed by the messages the sends
  accepted is the messages the receives took followed by what is in flight after; each of the
  taken messages is taken by one receive, in their order, and that receive returns the whole
  message if its buffer holds it and nothing otherwise. No message is longer than the port's
  longest one, so with buffers of that length every message is received exactly once.
\<close>

theorem packet_exactly_once:
  assumes "link_ok v st" "list_all (op_ok 0) ops"
  shows "\<exists>sent taken st'. chan_run (\<lambda>m. itsSend (v_env v) (v_sender v) (v_handle v) m 0)
             (\<lambda>k. itsRecv (v_env v) (v_receiver v) (v_handle v) k 0) ops st = Some (sent, delivered taken, st')
           \<and> link_ok v st' \<and> link_queue v st @ sent = map fst taken @ link_queue v st'
           \<and> subseq (map snd taken) (get_sizes ops) \<and> (\<forall>(m, k) \<in> set taken. length m \<le> unat (v_maxMsg v))"
  by (rule link.run_taken [OF assms])

theorem packet_exactly_once_witness:
  "\<exists>st sent taken st'. its_reach its_demo_env st \<and> chan_run (\<lambda>m. itsSend its_demo_env 1 0 m 0) (\<lambda>k. itsRecv its_demo_env 2 0 k 0)
     [Put [1, 2, 3], Put [4], Get 2, Get 40] st = Some (sent, delivered taken, st')
     \<and> sent = map fst taken @ link_queue (demo_view st) st' \<and> subseq (map snd taken) [2, 40]"
proof -
  obtain st where st: "its_reach its_demo_env st" "connTable st = demo_table" "links st = [demo_link, demo_link]"
    by (rule demo_connected_obtain)
  have ops: "list_all (op_ok 0) [Put [1, 2, 3], Put [4], Get 2, Get 40]" by simp
  note run = packet_exactly_once [OF demo_link_ok(1) [OF st(2,3)] ops, unfolded demo_view_sel demo_link_ok(2) [OF st(2,3)] get_sizes.simps]
  from st(1) run show ?thesis by (metis append_Nil)
qed

text \<open>
  The flow-control window of a packet link: after any such run the byte count of the link is
  the length of what is in flight, without wrap-around, it is at most the larger of the byte
  capacity and the longest message, no more descriptors are queued than the depth the port asked
  for, and the module's payload counters have grown by exactly what is in flight.
\<close>

theorem packet_window:
  assumes "link_ok v st" "list_all (op_ok (unat (v_maxMsg v))) ops"
    and "chan_run (\<lambda>m. itsSend (v_env v) (v_sender v) (v_handle v) m 0)
             (\<lambda>k. itsRecv (v_env v) (v_receiver v) (v_handle v) k 0) ops st = Some (sent, got, st')"
  defines "L \<equiv> links st' ! v_link v"
  shows "unat (l_outstanding L) = sum_list (map length (link_queue v st'))
    \<and> sum_list (map length (link_queue v st')) \<le> max (unat (l_byteCap L)) (unat (v_maxMsg v))
    \<and> length (link_queue v st') \<le> l_depth L
    \<and> liveBlocks (payCtr st') = v_blocks v + of_nat (length (link_queue v st'))
    \<and> liveBytes (payCtr st') = v_bytes v + of_nat (sum_list (map length (link_queue v st')))"
proof -
  have ok: "link_ok v st'" using link.run_exactly_once [OF assms(1,2)] assms(3) by auto
  have "length (d_msg (heap st') d) = unat (d_len d)" if "d \<in> set (link_descs v st')" for d
    using ok that by (auto simp: link_ok_def owns_def d_msg_def)
  then have sum: "sum_list (map length (link_queue v st')) = desc_sum (link_descs v st')"
    by (simp add: link_queue_def desc_sum_def comp_def cong: map_cong)
  have o: "unat (l_outstanding L) = desc_sum (link_descs v st')" using ok by (simp add: L_def link_ok_def link_window_def)
  then have "l_outstanding L = of_nat (desc_sum (link_descs v st'))" by (simp flip: o)
  moreover have "length (link_descs v st') \<le> l_depth L"
    using ok ring_spaces(3) [of "v_env v" "v_cap v" "v_cont v" L] by (simp add: link_ok_def L_def)
  ultimately show ?thesis using ok o sum by (simp add: L_def link_ok_def link_window_def) (simp add: link_queue_def)
qed

theorem packet_window_witness:
  "\<exists>st sent got st'. chan_run (\<lambda>m. itsSend its_demo_env 1 0 m 0) (\<lambda>k. itsRecv its_demo_env 2 0 k 0) [Put [1, 2, 3], Put [4], Get 32] st
       = Some (sent, got, st')
     \<and> unat (l_outstanding (links st' ! 0)) = sum_list (map length (link_queue (demo_view st) st'))"
proof -
  obtain st where st: "its_reach its_demo_env st" "connTable st = demo_table" "links st = [demo_link, demo_link]"
    by (rule demo_connected_obtain)
  note ok = demo_link_ok(1) [OF st(2,3)]
  have ops: "list_all (op_ok (unat (v_maxMsg (demo_view st)))) [Put [1, 2, 3], Put [4], Get 32]" by simp
  from link.run_exactly_once [OF ok ops] obtain sent got st' where
    run: "chan_run (\<lambda>m. itsSend its_demo_env 1 0 m 0) (\<lambda>k. itsRecv its_demo_env 2 0 k 0) [Put [1, 2, 3], Put [4], Get 32] st = Some (sent, got, st')"
    by auto
  with packet_window [OF ok ops] show ?thesis by auto
qed

text \<open>
  A non-blocking send on a packet link accepts a message exactly when it is not empty, no
  longer than the port's longest message and no longer than \<open>itsSpacesAvailable\<close> says, provided
  the heap has a block for it; then it returns the length, and otherwise it returns 0 and
  changes nothing.
\<close>

theorem packet_send_accepts:
  assumes ok: "link_ok v st" and len: "length m < 2 ^ 32"
    and block: "e_malloc (v_env v) (heap st) (length m) \<noteq> None"
  shows "(\<exists>st'. itsSend (v_env v) (v_sender v) (v_handle v) m 0 st =
       Some (if m \<noteq> [] \<and> length m \<le> unat (v_maxMsg v) \<and> length m \<le> itsSpacesAvailable (v_env v) (v_sender v) (v_handle v) st
             then length m else 0, st'))
     \<and> (m = [] \<or> length m > unat (v_maxMsg v) \<or> length m > itsSpacesAvailable (v_env v) (v_sender v) (v_handle v) st \<longrightarrow>
        itsSend (v_env v) (v_sender v) (v_handle v) m 0 st = Some (0, st))"
proof -
  have "link_fits v st m \<longleftrightarrow>
      m \<noteq> [] \<and> length m \<le> unat (v_maxMsg v) \<and> length m \<le> itsSpacesAvailable (v_env v) (v_sender v) (v_handle v) st"
    using link_fits_spaces [OF ok len block] .
  with link_put_fits [OF ok len] link_put_refused [OF ok len] show ?thesis by fastforce
qed

theorem packet_send_accepts_witness:
  "\<exists>st st'. itsSpacesAvailable its_demo_env 1 0 st = 32 \<and> itsSend its_demo_env 1 0 [1, 2, 3] 0 st = Some (3, st')
     \<and> itsSend its_demo_env 1 0 (replicate 33 7) 0 st = Some (0, st)"
proof -
  obtain st where st: "its_reach its_demo_env st" "connTable st = demo_table" "links st = [demo_link, demo_link]"
    and m: "demo_malloc (heap st) 8 \<noteq> None"
    by (rule demo_connected_obtain)
  note ok = demo_link_ok(1) [OF st(2,3)]
  have m': "demo_malloc (heap st) n \<noteq> None" for n using m by (simp add: demo_malloc_def)
  have s: "itsSpacesAvailable its_demo_env 1 0 st = 32"
    using ok st(3) by (simp add: itsSpacesAvailable_def link_ok_def linkSendSpace_def ringSpaces_def demo_link_def demo_rtos_def
        demo_cap_def demo_cont_def SIZEOF_ITS_DESC_def)
  with packet_send_accepts [OF ok, of "[1, 2, 3]"] packet_send_accepts [OF ok, of "replicate 33 7"] m' show ?thesis by auto
qed

subsection \<open>Ownership of payloads\<close>

text \<open>
  C27. A payload sent without a copy is the receiver's, at its own address and untouched: on an
  empty link \<open>itsSendOwned\<close> of a block of the caller returns its length, the next \<open>itsRecvRef\<close> of
  the other end returns the address and the length, no byte of the heap changes on the way, and
  the counters are as before. Between the two calls the block is the transport's. A send that
  does not fit returns 0 and leaves the block with the caller.
\<close>

theorem zero_copy_transfer:
  assumes ok: "link_ok v st" and q: "link_queue v st = []" and p: "v_heap v p = Some bs" "p \<noteq> 0" "unat len \<le> length bs"
  shows "if 0 < len \<and> len \<le> v_maxMsg v \<and> linkCanSend (v_env v) (links st ! v_link v) len
    then \<exists>st1 st2. itsSendOwned (v_env v) (v_sender v) (v_handle v) p len 0 st = Some (len, st1)
       \<and> link_ok (v\<lparr>v_heap := (v_heap v)(p := None)\<rparr>) st1
       \<and> itsRecvRef (v_env v) (v_receiver v) (v_handle v) 0 st1 = Some (Some (p, len), st2)
       \<and> heap st1 = heap st \<and> heap st2 = heap st \<and> link_ok v st2
    else itsSendOwned (v_env v) (v_sender v) (v_handle v) p len 0 st = Some (0, st)"
proof (cases "0 < len \<and> len \<le> v_maxMsg v \<and> linkCanSend (v_env v) (links st ! v_link v) len")
  case True
  let ?v = "v\<lparr>v_heap := (v_heap v)(p := None)\<rparr>"
  from send_owned_ok [OF ok p] True obtain st1 where s1: "itsSendOwned (v_env v) (v_sender v) (v_handle v) p len 0 st = Some (len, st1)"
    "link_ok ?v st1" "link_queue v st1 = [take (unat len) bs]" "heap st1 = heap st" using q by auto
  have q1: "link_queue ?v st1 = take (unat len) bs # []" using s1(3) by simp
  obtain p' len' bs' st2 where r: "itsRecvRef (v_env ?v) (v_receiver ?v) (v_handle ?v) 0 st1 = Some (Some (p', len'), st2)"
    "heap st1 p' = Some bs'" "take (unat len) bs = take (unat len') bs'" "heap st2 = heap st1"
    "link_ok (?v\<lparr>v_heap := (v_heap ?v)(p' \<mapsto> bs')\<rparr>) st2" "link_queue ?v st2 = []" "unat len' \<le> length bs'"
    by (rule recv_ref_ok [OF s1(2) q1])
  have hp: "heap st p = Some bs" by (rule adopt_view(3) [OF ok p(1)])
  have h2: "heap st2 = ((v_heap v)(p := None))(p' \<mapsto> bs')"
    using r(5,6) by (auto simp: link_ok_def owns_def link_queue_def link_descs_def)
  then have "(((v_heap v)(p := None))(p' \<mapsto> bs')) p = Some bs" using hp r(4) s1(4) by metis
  then have p': "p' = p" by (auto split: if_splits)
  then have bs': "bs' = bs" using r(2) s1(4) hp by simp
  have "length (take (unat len) bs) = length (take (unat len') bs)" using r(3) bs' by simp
  then have len': "len' = len" using p(3) r(7) bs' by (simp add: word_unat_eq_iff)
  have "((v_heap v)(p := None))(p' \<mapsto> bs') = v_heap v" using p' bs' p(1) by auto
  then have "link_ok v st2" using r(5) by simp
  with True s1 r p' len' show ?thesis by auto
next
  case False
  then show ?thesis unfolding if_not_P [OF False] by (rule send_owned_refused [OF ok])
qed

theorem zero_copy_transfer_witness:
  "\<exists>st st1 st2. heap st 77 = Some [9, 8, 7, 6] \<and> itsSendOwned its_demo_env 1 0 77 4 0 st = Some (4, st1)
     \<and> itsRecvRef its_demo_env 2 0 0 st1 = Some (Some (77, 4), st2) \<and> heap st2 = heap st"
proof -
  obtain st0 where st0: "its_reach its_demo_env st0" "connTable st0 = demo_table" "links st0 = [demo_link, demo_link]"
    by (rule demo_connected_obtain)
  define st where "st = st0\<lparr>heap := (heap st0)(77 \<mapsto> [9, 8, 7, 6])\<rparr>"
  have st: "connTable st = demo_table" "links st = [demo_link, demo_link]" "heap st 77 = Some [9, 8, 7, 6]"
    using st0 by (simp_all add: st_def its_sel)
  have "linkCanSend its_demo_env (links st ! 0) 4"
    using st(2) by (simp add: linkCanSend_def ringSpaces_def demo_link_def demo_rtos_def demo_cap_def demo_cont_def SIZEOF_ITS_DESC_def)
  with zero_copy_transfer [OF demo_link_ok [OF st(1,2)], of 77 "[9, 8, 7, 6]" 4] st(3) show ?thesis
    by auto
qed

text \<open>
  C13. The teardown of a packet connection frees every payload still in flight in either
  direction exactly once and nothing else: the heap is what it was without the transport's
  blocks, the counters drop by what was in flight, the slot is free and both rings are empty and
  free for reuse. Freeing the handle again changes nothing, so the two ends may race to it.
\<close>

theorem teardown_frees_all:
  assumes laws: "sb_laws (e_rtos E) cap cont" and pc: "packet_conn cap cont h i j ds es st"
    and own: "owns hb (ds @ es) (heap st)"
  shows "\<exists>st'. connFree E (int h) st = Some st' \<and> heap st' = hb
     \<and> liveBlocks (payCtr st') = liveBlocks (payCtr st) - of_nat (length (ds @ es))
     \<and> liveBytes (payCtr st') = liveBytes (payCtr st) - of_nat (desc_sum (ds @ es))
     \<and> conn (int h) st' = None \<and> (\<forall>k. k \<noteq> h \<longrightarrow> connTable st' ! k = connTable st ! k)
     \<and> \<not> l_inUse (links st' ! i) \<and> \<not> l_inUse (links st' ! j)
     \<and> ring_rep cap cont (links st' ! i) [] \<and> ring_rep cap cont (links st' ! j) []
     \<and> connFree E (int h) st' = Some st'"
proof -
  obtain st' where st': "connFree E (int h) st = Some st'" "heap st' = hb"
    "liveBlocks (payCtr st') = liveBlocks (payCtr st) - of_nat (length (ds @ es))"
    "liveBytes (payCtr st') = liveBytes (payCtr st) - of_nat (desc_sum (ds @ es))"
    "connTable st' = (connTable st)[h := freedConn]" "itsPool st' = itsPool st"
    "ring_rep cap cont (links st' ! i) []" "ring_rep cap cont (links st' ! j) []"
    "\<not> l_inUse (links st' ! i)" "\<not> l_inUse (links st' ! j)"
    by (rule connFree_packet [OF laws pc own])
  have h: "h < ITS_MAX_CONNS" "h < length (connTable st)" using pc by (simp_all add: packet_conn_def)
  have "connTable st' ! h = freedConn" using st'(5) h by simp
  with h st'(5) have "conn (int h) st' = None" "connFree E (int h) st' = Some st'"
    by (simp_all add: conn_def Let_def freedConn_def blankConn_def connFree_freed)
  with st' show ?thesis by auto
qed

theorem teardown_frees_all_witness:
  "\<exists>st st1 st2. itsSend its_demo_env 1 0 [1, 2, 3] 0 st = Some (3, st1) \<and> connFree its_demo_env 0 st1 = Some st2 \<and> heap st2 = heap st
     \<and> connFree its_demo_env 0 st2 = Some st2"
proof -
  obtain st where st: "its_reach its_demo_env st" "connTable st = demo_table" "links st = [demo_link, demo_link]"
    and m: "demo_malloc (heap st) 8 \<noteq> None"
    by (rule demo_connected_obtain)
  note ok = demo_link_ok [OF st(2,3)]
  have fits: "link_fits (demo_view st) st [1, 2, 3]"
    using st(3) m by (simp add: link_fits_def linkCanSend_def ringSpaces_def demo_link_def demo_rtos_def demo_cap_def demo_cont_def
        SIZEOF_ITS_DESC_def demo_malloc_def)
  obtain p where p: "demo_malloc (heap st) 3 = Some p" "p \<noteq> 0"
    using m demo_malloc_laws [of its_demo_env] by (auto simp: demo_malloc_def malloc_laws_def)
  define st1 where "st1 = linkEnqueue its_demo_env 1 0 0 p 3 (st\<lparr>heap := (heap st)(p \<mapsto> [1, 2, 3]), payCtr := ctrAdd 3 (payCtr st)\<rparr>)"
  have run: "itsSend its_demo_env 1 0 [1, 2, 3] 0 st = Some (3, st1)"
    using itsSend_link [OF ok(1), of "[1, 2, 3]" 0] p fits link_maxMsg [OF ok(1)]
    by (simp add: itsSendPacket_def link_fits_def Let_def linkWaitForSpace_def payAlloc_def heap_malloc_def heap_write_def
        payCtr_heap st1_def)
  have s1: "link_ok (demo_view st) st1" using link_put_fits [OF ok(1) _ fits] run by simp
  have "links st1 ! 1 = demo_link" "connTable st1 = demo_table" "length (links st1) = 2"
    using st by (simp_all add: st1_def linkEnqueue_def its_sel)
  moreover have "ring_rep demo_cap demo_cont demo_link []" by (simp add: ring_rep_def demo_link_def demo_cap_def demo_cont_def)
  ultimately have "packet_conn demo_cap demo_cont 0 0 1 (link_descs (demo_view st) st1) [] st1"
    using s1 by (simp add: packet_conn_def link_ok_def demo_conn_def ITS_MAX_CONNS_def demo_view_def)
  moreover have "owns (heap st) (link_descs (demo_view st) st1 @ []) (heap st1)" using s1 by (simp add: link_ok_def)
  ultimately show ?thesis using teardown_frees_all [of its_demo_env demo_cap demo_cont 0 0 1 "link_descs (demo_view st) st1" "[]" st1 "heap st"]
    demo_sb_laws run by auto
qed

subsection \<open>Framed packets\<close>

text \<open>
  The same for a connection that frames its packets in a stream buffer: for any interleaving
  of sends of one end and receives of the other with a buffer for the longest packet, no packet
  is split, merged, lost after it was accepted, or received twice, although the header and the
  body are written and read by separate calls.
\<close>

theorem legacy_exactly_once:
  assumes "legacy_ok v st" "list_all (op_ok 0xFFFFFF) ops"
  shows "\<exists>sent got st'. chan_run (\<lambda>m. itsSend (f_env v) (f_sender v) (f_handle v) m 0)
             (\<lambda>k. itsRecv (f_env v) (f_receiver v) (f_handle v) k 0) ops st = Some (sent, got, st')
           \<and> legacy_ok v st' \<and> legacy_queue v st @ sent = got @ legacy_queue v st'"
  by (rule legacy.run_exactly_once [OF assms])

text \<open>A connection with framed packets in slot 1, with a stream buffer of 16 bytes to the server.\<close>

definition demo_framed :: "(demo_sb, demo_q) its_state" where
  "demo_framed = demo_boot\<lparr>connTable := (connTable demo_boot)[1 := blankConn\<lparr>c_active := True, c_packetBased := True,
       c_kind := ITS_PACKET_LEGACY, c_clientTask := 1, c_serverTask := 2, c_fromPoolIdx := - 1\<rparr>],
     itsPool := [\<lparr>p_handle = Some (16, []), p_sbCtrl = 1, p_sbStore = 2, p_size = 16, p_pooled = True, p_triggerLevel = 1,
       p_inUse = True, p_freeNotify = 0, p_sem = Some False\<rparr>]\<rparr>"

definition demo_frame_view :: "(demo_sb, demo_q) frame_view" where
  "demo_frame_view = \<lparr>f_env = its_demo_env, f_cap = demo_cap, f_cont = demo_cont, f_handle = 1, f_sender = 1, f_receiver = 2,
     f_pool = 0, f_size = 16\<rparr>"

lemma demo_framed_ok: "legacy_ok demo_frame_view demo_framed" "legacy_queue demo_frame_view demo_framed = []"
proof -
  have c: "connTable demo_framed ! 1 = blankConn\<lparr>c_active := True, c_packetBased := True,
       c_kind := ITS_PACKET_LEGACY, c_clientTask := 1, c_serverTask := 2, c_fromPoolIdx := - 1\<rparr>"
    by (simp add: demo_framed_def demo_boot_def ITS_MAX_CONNS_def)
  then have "conn 1 demo_framed = Some (blankConn\<lparr>c_active := True, c_packetBased := True,
       c_kind := ITS_PACKET_LEGACY, c_clientTask := 1, c_serverTask := 2, c_fromPoolIdx := - 1\<rparr>)"
    by (simp add: conn_def ITS_MAX_CONNS_def)
  then show "legacy_ok demo_frame_view demo_framed"
    using demo_sb_laws by (auto intro!: exI [of _ "[]"] simp: legacy_ok_def demo_frame_view_def sendBufWithPool_def recvBufWithPool_def demo_framed_def
        blankConn_def demo_cap_def demo_cont_def)
  show "legacy_queue demo_frame_view demo_framed = []"
    by (simp add: legacy_queue_def demo_frame_view_def demo_framed_def demo_cont_def frames_of.simps)
qed

lemma demo_frame_view_sel [simp]: "f_env demo_frame_view = its_demo_env" "f_handle demo_frame_view = 1"
  "f_sender demo_frame_view = 1" "f_receiver demo_frame_view = 2" "f_pool demo_frame_view = 0" "f_size demo_frame_view = 16"
  by (simp_all add: demo_frame_view_def)

theorem legacy_exactly_once_witness:
  "\<exists>sent got st'. chan_run (\<lambda>m. itsSend its_demo_env 1 1 m 0) (\<lambda>k. itsRecv its_demo_env 2 1 k 0)
     [Put [1, 2, 3], Get 0xFFFFFF, Put [4], Get 0xFFFFFF] demo_framed = Some (sent, got, st')
     \<and> sent = got @ legacy_queue demo_frame_view st'"
  using legacy_exactly_once [OF demo_framed_ok(1), of "[Put [1, 2, 3], Get 0xFFFFFF, Put [4], Get 0xFFFFFF]"] demo_framed_ok(2)
  by auto

text \<open>
  A packet whose frame is exactly as long as the buffer passes the check of \<open>itsSend\<close> for
  packets that can never fit, but it never fits either: a stream buffer holds one byte less than
  its size. In no state of the connection is there room for it, so a send that waits for ever
  never returns and any other returns 0.
\<close>

theorem legacy_full_frame_never_fits:
  assumes ok: "legacy_ok v st" and m: "4 + length m = f_size v"
  shows "4 + length m \<le> p_size (itsPool st ! f_pool v) \<and> bufSpaces (f_env v) (f_pool v) st < 4 + length m
    \<and> itsSend (f_env v) (f_sender v) (f_handle v) m 0 st = Some (0, st)"
proof -
  obtain b where b: "p_handle (itsPool st ! f_pool v) = Some b" "f_cap v b = f_size v - 1"
    "sb_laws (e_rtos (f_env v)) (f_cap v) (f_cont v)" by (rule legacy_rep [OF ok])
  then have s: "bufSpaces (f_env v) (f_pool v) st < 4 + length m" using m by (simp add: bufSpaces_def sb_facts [OF b(3)])
  then have "\<not> legacy_fits v st m" by (simp add: legacy_fits_def)
  with s legacy_put_refused [OF ok] m ok show ?thesis by (simp add: legacy_ok_def)
qed

theorem legacy_full_frame_never_fits_witness:
  "p_size (itsPool demo_framed ! 0) = 16 \<and> itsSend its_demo_env 1 1 (replicate 12 7) 0 demo_framed = Some (0, demo_framed)"
  using legacy_full_frame_never_fits [OF demo_framed_ok(1), of "replicate 12 7"] by (simp add: demo_framed_def)

subsection \<open>The tables\<close>

text \<open>
  C5. No two connections ever share a buffer: in every state reachable by calls of any tasks in
  any order, two active connections refer to different stream buffers and to different packet
  links, the two directions of one connection are different, and every buffer or link an active
  connection refers to exists and is marked in use, so that no later connect is given it.
\<close>

theorem connections_share_nothing:
  assumes E: "env_ok E" and reach: "its_reach E st"
    and h: "h < ITS_MAX_CONNS" "c_active (connTable st ! h)" and k: "k < ITS_MAX_CONNS" "c_active (connTable st ! k)"
  defines "pools \<equiv> \<lambda>c. filter (\<lambda>i. i \<ge> 0) [c_toPoolIdx c, c_fromPoolIdx c]"
    and "rings \<equiv> \<lambda>c. filter (\<lambda>i. i \<ge> 0) [c_toLinkIdx c, c_fromLinkIdx c]"
  shows "(h \<noteq> k \<longrightarrow> set (pools (connTable st ! h)) \<inter> set (pools (connTable st ! k)) = {}
                  \<and> set (rings (connTable st ! h)) \<inter> set (rings (connTable st ! k)) = {})
    \<and> distinct (pools (connTable st ! h)) \<and> distinct (rings (connTable st ! h))
    \<and> (\<forall>i\<in>set (pools (connTable st ! h)). nat i < length (itsPool st) \<and> p_inUse (itsPool st ! nat i))
    \<and> (\<forall>i\<in>set (rings (connTable st ! h)). nat i < length (links st) \<and> l_inUse (links st ! nat i))"
proof -
  have inv: "tables_ok (connTable st) (next_slot st) (pool_marks st) (link_marks st)"
    using its_reach_inv [OF E reach] by (simp add: its_inv_def)
  note inv' = inv [unfolded tables_ok_def]
  have hl: "h < length (connTable st)" "k < length (connTable st)" using inv' h k by simp_all
  have ex: "exclusive (owned conn_pools (connTable st)) (pool_marks st)" "exclusive (owned conn_links (connTable st)) (link_marks st)"
    using inv' by simp_all
  have m: "mset (pools c) = conn_pools c" "mset (rings c) = conn_links c" if "c_active c" for c
    using that by (simp_all add: pools_def rings_def conn_pools_def conn_links_def)
  then have s: "set (pools c) = set_mset (conn_pools c)" "set (rings c) = set_mset (conn_links c)" if "c_active c" for c
    using that by (metis set_mset_mset)+
  have d: "distinct xs" if "\<And>i. i \<in># M \<Longrightarrow> count M i = 1" "mset xs = M" for M and xs :: "int list"
    using that by (auto simp: distinct_count_atmost_1 count_mset_0_iff simp flip: set_mset_mset)
  show ?thesis
  proof (intro conjI impI)
    assume hk: "h \<noteq> k"
    show "set (pools (connTable st ! h)) \<inter> set (pools (connTable st ! k)) = {}"
      using exclusive_two [OF ex(1) hl hk] s(1) h(2) k(2) by blast
    show "set (rings (connTable st ! h)) \<inter> set (rings (connTable st ! k)) = {}"
      using exclusive_two [OF ex(2) hl hk] s(2) h(2) k(2) by blast
  next
    show "distinct (pools (connTable st ! h))" by (rule d [OF exclusive_one(4) [OF ex(1) hl(1)] m(1) [OF h(2)]])
    show "distinct (rings (connTable st ! h))" by (rule d [OF exclusive_one(4) [OF ex(2) hl(1)] m(2) [OF h(2)]])
  next
    show "\<forall>i\<in>set (pools (connTable st ! h)). nat i < length (itsPool st) \<and> p_inUse (itsPool st ! nat i)"
      using exclusive_one [OF ex(1) hl(1)] s(1) [OF h(2)] by (auto simp: pool_marks_def nat_less_iff)
    show "\<forall>i\<in>set (rings (connTable st ! h)). nat i < length (links st) \<and> l_inUse (links st ! nat i)"
      using exclusive_one [OF ex(2) hl(1)] s(2) [OF h(2)] by (auto simp: link_marks_def nat_less_iff)
  qed
qed

theorem connections_share_nothing_witness:
  "\<exists>st. its_reach its_demo_env st \<and> c_active (connTable st ! 0) \<and> l_inUse (links st ! 0) \<and> l_inUse (links st ! 1)
     \<and> c_toLinkIdx (connTable st ! 0) \<noteq> c_fromLinkIdx (connTable st ! 0)"
proof -
  obtain st where st: "its_reach its_demo_env st" "connTable st = demo_table" "links st = [demo_link, demo_link]"
    by (rule demo_connected_obtain)
  then have "c_active (connTable st ! 0)" by (simp add: demo_conn_def)
  with connections_share_nothing [OF its_demo_env_ok st(1), of 0 0] st show ?thesis
    by (auto simp: demo_conn_def ITS_MAX_CONNS_def)
qed

text \<open>
  C37. The tables stay within the arrays the firmware reserves for them, in every reachable
  state: 128 slots for connections with the search for a free one starting inside them, at most
  128 stream buffers and 256 links; and a slot refers to nothing, or is active, or was never used.
\<close>

theorem tables_sized:
  assumes "env_ok E" "its_reach E st"
  shows "length (connTable st) = 128 \<and> connCounter st < 128 \<and> length (itsPool st) \<le> 128 \<and> length (links st) \<le> 256
    \<and> (\<forall>c\<in>set (connTable st). c_active c \<or> conn_idx c = [- 1, - 1, - 1, - 1] \<or> conn_idx c = [0, 0, 0, 0])"
  using its_reach_inv [OF assms] by (auto simp: its_inv_def tables_ok_def next_slot_def pool_marks_def link_marks_def list_all_iff
      slot_ok_def slot_used_def ITS_MAX_CONNS_def ITS_MAX_POOL_def ITS_MAX_LINKS_def split: if_splits)

theorem tables_sized_witness:
  "\<exists>st. its_reach its_demo_env st \<and> length (connTable st) = 128 \<and> connCounter st < 128 \<and> length (links st) \<le> 256"
proof -
  obtain st where "its_reach its_demo_env st" by (rule demo_connected_obtain)
  with tables_sized [OF its_demo_env_ok] show ?thesis by blast
qed

subsection \<open>Connects that are given up\<close>

text \<open>
  C14. A cancel takes back exactly the connect it names: when a server has processed a connect of
  a client and then the cancel the client sent when its time was up, with the same nonce, the open
  connections are those there were before, each one unchanged, whether the connect had opened one
  or was refused. It holds for every reachable state in which no older connection carries that
  nonce of that client, for nonces other than 0, and for ports with or without callbacks, provided
  a callback touches no connection but the one it is called for (a connect callback that opens a
  connection of its own leaves that one open).
\<close>

theorem cancel_undoes_connect:
  assumes "env_ok E" "its_reach E st" and ti: "ti < length (tasks st)" and nonce: "m_nonce m \<noteq> 0"
    and cb: "callbacks_local E"
    and fresh: "\<And>k. k < ITS_MAX_CONNS \<Longrightarrow> \<not> cancels (t_task (tasks st ! ti)) m (connTable st ! k)"
    and run: "procConnect E ti m st = Some st1" "procCancel E ti m' st1 = Some st2"
    and m': "m_sender m' = m_sender m" "m_nonce m' = m_nonce m"
  shows "\<forall>k < ITS_MAX_CONNS. c_active (connTable st2 ! k) = c_active (connTable st ! k)
      \<and> (c_active (connTable st ! k) \<longrightarrow> connTable st2 ! k = connTable st ! k)"
proof -
  have "length (connTable st) = ITS_MAX_CONNS" using its_reach_inv [OF assms(1,2)] by (rule inv_length)
  from cancel_connect [OF this ti nonce cb fresh run m'] show ?thesis unfolding same_open_def by blast
qed

theorem cancel_undoes_connect_witness:
  "\<exists>st st1 st2 pi. its_reach its_demo_env st \<and> portFind (tasks st ! 0) (m_port demo_msg) = Some pi \<and> sp_onConnect (portAt 0 pi st) = 9
     \<and> procConnect its_demo_env 0 demo_msg st = Some st1 \<and> c_active (connTable st1 ! 1)
     \<and> procCancel its_demo_env 0 demo_msg st1 = Some st2 \<and> \<not> c_active (connTable st2 ! 1) \<and> connTable st2 ! 0 = connTable st ! 0"
proof -
  obtain st st1 st2 where st: "its_reach its_demo_env st" "connTable st = demo_table" "map t_task (tasks st) = [2, 1]"
    and port: "\<exists>pi. portFind (tasks st ! 0) 7 = Some pi \<and> sp_onConnect (portAt 0 pi st) = 9"
    and run: "procConnect its_demo_env 0 demo_msg st = Some st1" "c_active (connTable st1 ! 1)" "procCancel its_demo_env 0 demo_msg st1 = Some st2"
    by (rule demo_connected_obtain)
  have ti: "0 < length (tasks st)" using arg_cong [OF st(3), of length] by simp
  have fresh: "\<not> cancels (t_task (tasks st ! 0)) demo_msg (connTable st ! k)" if "k < ITS_MAX_CONNS" for k
    using that by (cases k) (auto simp: st(2) cancels_def demo_msg_def demo_conn_def demo_table_def blankConn_def)
  have 0: "c_active (connTable st ! 0)" "\<not> c_active (connTable st ! 1)"
    by (simp_all add: st(2) demo_conn_def) (simp add: demo_table_def ITS_MAX_CONNS_def blankConn_def)
  have cb: "callbacks_local its_demo_env" by (auto simp: callbacks_local_def its_demo_env_def quiet_env_def)
  have "\<forall>k < ITS_MAX_CONNS. c_active (connTable st2 ! k) = c_active (connTable st ! k)
      \<and> (c_active (connTable st ! k) \<longrightarrow> connTable st2 ! k = connTable st ! k)"
    by (rule cancel_undoes_connect [OF its_demo_env_ok st(1) ti _ cb fresh run(1,3) refl refl]) (simp_all add: demo_msg_def)
  moreover have "m_port demo_msg = 7" by (simp add: demo_msg_def)
  ultimately show ?thesis using st run 0 port by (auto simp: ITS_MAX_CONNS_def)
qed

subsection \<open>Waiting\<close>

text \<open>
  C34. A send with a time limit (below 2^31 ticks) on a packet link returns, and it accepts the
  whole message or nothing; nothing only when the message is empty or longer than the port's
  longest, the connection was closed meanwhile, the time limit has passed or the heap has no block
  for the message. This holds whatever the other tasks do while the caller is blocked and also
  when the tick counter wraps during the wait, provided the caller is woken only finitely often
  within one tick, no single wait takes 2^31 ticks or more, and the link keeps its semaphore.
\<close>

theorem packet_send_returns:
  assumes "conn h st = Some c" "c_kind c = ITS_PACKET" "sendLink me h st = Some i"
    and "clock_runs E i wakes" "malloc_laws E" "l_sem (links st ! i) \<noteq> None" "unat t < 2 ^ 31" "length data < 2 ^ 32"
  shows "\<exists>n st'. itsSend E me h data t st = Some (n, st')
    \<and> (n = length data \<or> n = 0 \<and> send_fails E h i (length data) t st st')"
proof -
  have "has_sem i st" using assms(6) sendLink_bound(1) [OF assms(3)] by (simp add: has_sem_def)
  from itsSendPacket_ends [OF assms(4) this assms(7,8,5)] assms(1-3) show ?thesis by (fastforce simp: itsSend_def)
qed

theorem packet_send_returns_witness:
  "\<exists>st n st'. its_reach its_demo_env st \<and> \<not> linkCanSend busy_env (links st ! 0) 3
     \<and> itsSend busy_env 1 0 [1, 2, 3] 1000 st = Some (n, st')
     \<and> (n = 3 \<or> n = 0 \<and> send_fails busy_env 0 0 3 1000 st st')"
proof -
  obtain st where st: "its_reach its_demo_env st" "conn 0 st = Some demo_conn" "l_outstanding (links st ! 0) = 64"
    "l_byteCap (links st ! 0) = 64" "l_sem (links st ! 0) = Some False" "length (links st) = 2"
    by (rule demo_full_obtain)
  have s: "sendLink 1 0 st = Some 0" using st(2,6) by (simp add: sendLink_def demo_conn_def linkAt_def)
  have clk: "clock_runs busy_env 0 (\<lambda>s. 1 - waits s mod 2)" unfolding clock_runs_def
  proof (intro conjI allI)
    fix s :: "(demo_sb, demo_q) its_state"
    let ?d = "if even (waits s) then 0 else 1 :: nat"
    show "\<exists>d. d < 2 ^ 31 \<and> tickCount (blocked busy_env s) = tickCount s + of_nat d
        \<and> (d = 0 \<longrightarrow> 1 - waits (blocked busy_env s) mod 2 < 1 - waits s mod 2)
        \<and> (0 < length (links s) \<longrightarrow> l_sem (links s ! 0) \<noteq> None \<longrightarrow>
           0 < length (links (blocked busy_env s)) \<and> l_sem (links (blocked busy_env s) ! 0) \<noteq> None)"
      by (intro exI [of _ ?d]) (auto simp: blocked_def busy_env_def link_upd_def links_def sem_give_def nth_list_update
          odd_iff_mod_2_eq_one split: option.splits)
  qed (simp_all add: link_arm_def link_upd_def)
  have "\<exists>n st'. itsSend busy_env 1 0 [1, 2, 3] 1000 st = Some (n, st')
      \<and> (n = length [1, 2, 3 :: 8 word] \<or> n = 0 \<and> send_fails busy_env 0 0 (length [1, 2, 3 :: 8 word]) 1000 st st')"
    by (rule packet_send_returns [OF st(2) _ s clk])
      (use st demo_malloc_laws [of busy_env] in \<open>simp_all add: demo_conn_def busy_env_def quiet_env_def\<close>)
  moreover have "\<not> linkCanSend busy_env (links st ! 0) 3" using st(3,4) by (simp add: linkCanSend_def)
  ultimately show ?thesis using st(1) by (intro exI [of _ st]) (auto simp: numeral_3_eq_3)
qed

subsection \<open>Mailboxes\<close>

text \<open>When a mailbox takes a message that hands over a block.\<close>

definition aux_fits :: "('b, 'q) its_env \<Rightarrow> bool \<Rightarrow> nat \<Rightarrow> u16 \<Rightarrow> nat \<Rightarrow> ('b, 'q) its_state \<Rightarrow> bool" where
  "aux_fits E room te port len st \<longleftrightarrow> auxRegistered (tasks st ! te) port \<and> len \<le> t_inboxMsgMax (tasks st ! te)
     \<and> e_malloc E (heap st) SIZEOF_ITS_MSG \<noteq> None \<and> room"

text \<open>
  An aux message that hands over a heap block: the call returns, and it succeeds exactly when
  the receiver has registered the port, the block is no longer than the receiver takes, there is
  memory for a header and the mailbox has room. Then the message is at the end of the mailbox with
  the caller's block in it and is counted; otherwise the block stays the caller's and neither the
  tasks nor the counts of live headers and payloads have changed. The block is never copied or
  freed by the call.
\<close>

theorem aux_owned_contract:
  assumes q: "q_laws (e_rtos E) qlen items" and te: "taskFind task st = Some te" and inbox: "t_inbox (tasks st ! te) = Some q"
  shows "let fits = aux_fits E (length (items q) < qlen q) te port len st in
   \<exists>st'. itsSendAuxOwnedByTaskHandle E me task port p len 0 ITS_WAIT_DELIVERY st = Some (fits, st') \<and> heap st' = heap st
    \<and> (fits \<longrightarrow> (\<exists>q' m. t_inbox (tasks st' ! te) = Some q' \<and> items q' = items q @ [m] \<and> m_kind m = ITS_K_AUX
          \<and> m_payload m = p \<and> m_len m = of_nat len \<and> m_sender m = me \<and> m_port m = port)
        \<and> liveBlocks (payCtr st') = liveBlocks (payCtr st) + 1 \<and> liveBytes (payCtr st') = liveBytes (payCtr st) + of_nat len)
    \<and> (\<not> fits \<longrightarrow> s_tasks st' = s_tasks st \<and> liveBlocks (payCtr st') = liveBlocks (payCtr st)
        \<and> liveBytes (payCtr st') = liveBytes (payCtr st) \<and> liveBlocks (hdrCtr st') = liveBlocks (hdrCtr st)
        \<and> liveBytes (hdrCtr st') = liveBytes (hdrCtr st))"
proof (cases "auxRegistered (tasks st ! te) port \<and> len \<le> t_inboxMsgMax (tasks st ! te) \<and> e_malloc E (heap st) SIZEOF_ITS_MSG \<noteq> None")
  case False
  then show ?thesis using te by (auto simp: itsSendAuxOwnedByTaskHandle_def aux_fits_def Let_def pickupArm_def msgAlloc_def)
next
  case True
  define m where "m = \<lparr>m_kind = ITS_K_AUX, m_pickup = False, m_port = port, m_handle = - 1, m_ref = - 1,
     m_nonce = 0, m_sender = me, m_cb = 0, m_len = of_nat len, m_payload = p\<rparr>"
  define st2 where "st2 = payAdopt len (st\<lparr>hdrCtr := ctrAdd SIZEOF_ITS_MSG (hdrCtr st)\<rparr>)"
  have run: "itsSendAuxOwnedByTaskHandle E me task port p len 0 ITS_WAIT_DELIVERY st =
     (case inboxEnqueue E te m 0 st2 of
        (False, st3) \<Rightarrow> do { st4 \<leftarrow> msgFree (m\<lparr>m_payload := 0\<rparr>) (st3\<lparr>payCtr := ctrSub len (payCtr st3)\<rparr>); Some (False, st4) }
      | (True, st3) \<Rightarrow> Some (True, st3))"
    using True te by (auto simp: itsSendAuxOwnedByTaskHandle_def pickupArm_def msgAlloc_def m_def st2_def Let_def split: prod.split bool.split)
  have t2: "tasks st2 = tasks st" "s_tasks st2 = s_tasks st" "heap st2 = heap st" by (simp_all add: st2_def payAdopt_def tasks_def)
  show ?thesis
  proof (cases "length (items q) < qlen q")
    case room: True
    then obtain q' where q': "qSend (e_rtos E) q m = Some q'" "items q' = items q @ [m]"
      using q unfolding q_laws_def by metis
    have f: "aux_fits E True te port len st" using True by (simp add: aux_fits_def)
    have te_len: "te < length (tasks st)" using te by (auto simp: taskFind_def find_Some_iff split: if_splits)
    let ?st3 = "task_notify (t_task (tasks st ! te))
        ((task_upd te (\<lambda>t. t\<lparr>t_inbox := Some q'\<rparr>) st2)\<lparr>s_pendingPay := (s_pendingPay st2)[te := s_pendingPay st2 ! te + msg_pending m]\<rparr>)"
    have enq: "inboxEnqueue E te m 0 st2 = (True, ?st3)"
      using inbox q'(1) by (simp add: inboxEnqueue_def inboxPut_def t2)
    have "t_inbox (tasks ?st3 ! te) = Some q'"
      using te_len by (simp add: task_notify_def task_upd_def tasks_def t2 split: option.splits)
    moreover have "heap ?st3 = heap st" "liveBlocks (payCtr ?st3) = liveBlocks (payCtr st) + 1"
      "liveBytes (payCtr ?st3) = liveBytes (payCtr st) + of_nat len"
      by (simp_all add: task_notify_def task_upd_def st2_def payAdopt_def ctrAdd_def Let_def)
    moreover have "m_kind m = ITS_K_AUX" "m_payload m = p" "m_len m = of_nat len" "m_sender m = me" "m_port m = port"
      by (simp_all add: m_def)
    ultimately show ?thesis using f q'(2) room by (auto simp: run enq)
  next
    case False
    then have "qSend (e_rtos E) q m = None" using q unfolding q_laws_def by metis
    then have enq: "inboxEnqueue E te m 0 st2 = (False, st2)" using inbox by (simp add: inboxEnqueue_def inboxPut_def t2)
    define st4 where "st4 = st2\<lparr>payCtr := ctrSub len (payCtr st2), hdrCtr := ctrSub SIZEOF_ITS_MSG (hdrCtr st2)\<rparr>"
    have run4: "itsSendAuxOwnedByTaskHandle E me task port p len 0 ITS_WAIT_DELIVERY st = Some (False, st4)"
      by (simp add: run enq msgFree_def st4_def)
    have "s_tasks st4 = s_tasks st" "heap st4 = heap st" "liveBlocks (payCtr st4) = liveBlocks (payCtr st)"
      "liveBytes (payCtr st4) = liveBytes (payCtr st)" "liveBlocks (hdrCtr st4) = liveBlocks (hdrCtr st)"
      "liveBytes (hdrCtr st4) = liveBytes (hdrCtr st)"
      by (simp_all add: st4_def st2_def payAdopt_def ctrAdd_def ctrSub_def Let_def)
    with run4 False show ?thesis by (simp add: aux_fits_def)
  qed
qed

text \<open>A receiver with one aux port.\<close>

definition demo_mailbox :: "(demo_sb, demo_q) its_state" where
  "demo_mailbox = demo_boot\<lparr>s_tasks := Some [auxPut 5 99 (newTask 2 (Some False) 4096 32 (Some (32, [])))]\<rparr>"

theorem aux_owned_contract_witness:
  "\<exists>st' k m. itsSendAuxOwnedByTaskHandle its_demo_env 1 2 5 77 10 0 ITS_WAIT_DELIVERY demo_mailbox = Some (True, st')
     \<and> t_inbox (tasks st' ! 0) = Some (k, [m]) \<and> m_payload m = 77"
proof -
  have t: "taskFind 2 demo_mailbox = Some 0" "t_inbox (tasks demo_mailbox ! 0) = Some (32, [])"
    by (simp_all add: taskFind_def demo_mailbox_def tasks_def auxPut_def newTask_def auxFind_def ITS_MAX_PORTS_def)
  have "aux_fits its_demo_env True 0 5 10 demo_mailbox"
    by (simp add: aux_fits_def demo_mailbox_def tasks_def auxRegistered_def auxPut_def newTask_def auxFind_def ITS_MAX_PORTS_def
        demo_malloc_def demo_boot_def upt_conv_Cons)
  moreover have "q_laws (e_rtos its_demo_env) fst snd" using demo_q_laws by simp
  ultimately show ?thesis using aux_owned_contract [OF _ t, of its_demo_env fst snd 5 10 1 77] by (auto simp: Let_def)
qed

end
