(* ===== verification/Spanfs.thy ===== *)
theory Spanfs
  imports Prelude "HOL-Library.Monad_Syntax"
begin

section \<open>The read-only file system: the image reader\<close>

text \<open>
  spanfs.c reads an image in place: a header, a sorted index of entries, the paths, the data. The
  image is the list of the bytes mapped; a pointer into it is an offset. A read outside the image,
  and the use of a path that has no NUL inside it, is \<open>None\<close>. \<open>size_t\<close> has 32 bits, so the offset of
  an index entry wraps as the code's multiplication does. \<open>mkspanfs.py\<close>, which writes the images,
  is at the end.
\<close>

definition SPANFS_MAGIC :: u32 where "SPANFS_MAGIC = 0x53504653"
definition SPANFS_VERSION :: byte where "SPANFS_VERSION = 1"
definition SPANFS_HEADER_SZ :: nat where "SPANFS_HEADER_SZ = 20"
definition SPANFS_ENTRY_SZ :: nat where "SPANFS_ENTRY_SZ = 12"
definition SPANFS_DATA_ALIGN :: nat where "SPANFS_DATA_ALIGN = 4"

datatype esp_err =
  ESP_OK | ESP_ERR_NO_MEM | ESP_ERR_INVALID_ARG | ESP_ERR_INVALID_STATE | ESP_ERR_INVALID_SIZE
  | ESP_ERR_NOT_FOUND | ESP_ERR_INVALID_CRC | ESP_ERR_OTHER int

text \<open>The handle; \<open>fs_base\<close> holds the bytes \<open>base[0 .. size)\<close>, the release hook is its context.\<close>

record spanfs =
  fs_base :: bytes
  fs_entry_count :: u32
  fs_total_size :: u32
  fs_release :: "u32 option"

definition spanfs_set_release :: "u32 \<Rightarrow> spanfs option \<Rightarrow> spanfs option" where
  "spanfs_set_release ctx fs = map_option (\<lambda>f. f\<lparr>fs_release := Some ctx\<rparr>) fs"

definition rd_u32 :: "bytes \<Rightarrow> nat \<Rightarrow> u32 option" where
  "rd_u32 b p = (if p + 4 \<le> length b then Some (of_le32 (drop p b)) else None)"

subsection \<open>The checksum\<close>

definition crcBit :: "u32 \<Rightarrow> u32" where
  "crcBit crc = (let mask = - (crc AND 1) in drop_bit 1 crc XOR (0xEDB88320 AND mask))"

definition crcByte :: "u32 \<Rightarrow> byte \<Rightarrow> u32" where
  "crcByte crc p = (crcBit ^^ 8) (crc XOR ucast p)"

definition spanfs_crc32 :: "bytes \<Rightarrow> u32" where
  "spanfs_crc32 p = NOT (foldl crcByte 0xFFFFFFFF p)"

subsection \<open>The index\<close>

definition ent_ofs :: "nat \<Rightarrow> nat" where
  "ent_ofs i = SPANFS_HEADER_SZ + i * SPANFS_ENTRY_SZ mod 2 ^ 32"

definition ent_path_off :: "spanfs \<Rightarrow> nat \<Rightarrow> u32 option" where
  "ent_path_off fs i = rd_u32 (fs_base fs) (ent_ofs i + 0)"

definition ent_data_off :: "spanfs \<Rightarrow> nat \<Rightarrow> u32 option" where
  "ent_data_off fs i = rd_u32 (fs_base fs) (ent_ofs i + 4)"

definition ent_data_len :: "spanfs \<Rightarrow> nat \<Rightarrow> u32 option" where
  "ent_data_len fs i = rd_u32 (fs_base fs) (ent_ofs i + 8)"

text \<open>The C string at an offset of the image.\<close>

definition cstr_at :: "bytes \<Rightarrow> nat \<Rightarrow> bytes option" where
  "cstr_at b p = (if 0 \<in> set (drop p b) then Some (cstr_field (drop p b)) else None)"

definition ent_path :: "spanfs \<Rightarrow> nat \<Rightarrow> bytes option" where
  "ent_path fs i = do { po \<leftarrow> ent_path_off fs i; cstr_at (fs_base fs) (unat po) }"

subsection \<open>Open\<close>

text \<open>The body of the validation loop, and the loop from \<open>i\<close> with \<open>n\<close> entries to go.\<close>

definition checkEntry :: "bytes \<Rightarrow> nat \<Rightarrow> nat \<Rightarrow> nat \<Rightarrow> bool option" where
  "checkEntry b index_end tot i =
     do {
       po \<leftarrow> rd_u32 b (ent_ofs i + 0);
       doff \<leftarrow> rd_u32 b (ent_ofs i + 4);
       dlen \<leftarrow> rd_u32 b (ent_ofs i + 8);
       if unat po < index_end \<or> unat po \<ge> tot then Some False
       else if unat doff + unat dlen > tot then Some False
       else Some (0 \<in> set (slice (unat po) (tot - unat po) b))
     }"

function checkEntries :: "bytes \<Rightarrow> nat \<Rightarrow> nat \<Rightarrow> nat \<Rightarrow> nat \<Rightarrow> bool option" where
  "checkEntries b index_end tot i count =
     (if i < count
      then do {
        ok \<leftarrow> checkEntry b index_end tot i;
        if ok then checkEntries b index_end tot (Suc i) count else Some False
      }
      else Some True)"
  by pat_completeness auto
termination by (relation "measure (\<lambda>(_, _, _, i, count). count - i)") auto

declare checkEntries.simps [simp del]

text \<open>The checksum of the index and the paths; the number of bytes is a difference of \<open>uint32_t\<close>.\<close>

definition index_crc :: "bytes \<Rightarrow> u32 \<Rightarrow> u32 option" where
  "index_crc b crc_end =
     (let n = unat (crc_end - of_nat SPANFS_HEADER_SZ)
      in if SPANFS_HEADER_SZ + n \<le> length b then Some (spanfs_crc32 (slice SPANFS_HEADER_SZ n b)) else None)"

lemma index_crc_eq:
  assumes "SPANFS_HEADER_SZ \<le> unat c" "unat c \<le> length b"
  shows "index_crc b c = Some (spanfs_crc32 (slice SPANFS_HEADER_SZ (unat c - SPANFS_HEADER_SZ) b))"
proof -
  have "(of_nat SPANFS_HEADER_SZ :: u32) \<le> c" using assms(1) by (simp add: word_le_nat_alt SPANFS_HEADER_SZ_def)
  then have "unat (c - of_nat SPANFS_HEADER_SZ) = unat c - SPANFS_HEADER_SZ" by (simp add: unat_sub SPANFS_HEADER_SZ_def)
  then show ?thesis using assms by (simp add: index_crc_def)
qed

text \<open>\<open>mem_ok\<close> is the outcome of the allocation of the handle.\<close>

definition spanfs_open_mem :: "bool \<Rightarrow> bytes option \<Rightarrow> bool \<Rightarrow> (esp_err \<times> spanfs option) option" where
  "spanfs_open_mem mem_ok base out =
     (case base of
        None \<Rightarrow> Some (ESP_ERR_INVALID_ARG, None)
      | Some b \<Rightarrow>
        if \<not> out then Some (ESP_ERR_INVALID_ARG, None)
        else if length b < SPANFS_HEADER_SZ then Some (ESP_ERR_INVALID_SIZE, None)
        else do {
          magic \<leftarrow> rd_u32 b 0;
          if magic \<noteq> SPANFS_MAGIC then Some (ESP_ERR_INVALID_STATE, None)
          else if b ! 4 \<noteq> SPANFS_VERSION then Some (ESP_ERR_INVALID_STATE, None)
          else do {
            count \<leftarrow> rd_u32 b 8;
            tot \<leftarrow> rd_u32 b 12;
            crc \<leftarrow> rd_u32 b 16;
            if unat tot < SPANFS_HEADER_SZ \<or> unat tot > length b then Some (ESP_ERR_INVALID_SIZE, None)
            else let index_end = (SPANFS_HEADER_SZ + unat count * SPANFS_ENTRY_SZ) mod 2 ^ 32
            in if index_end > unat tot then Some (ESP_ERR_INVALID_SIZE, None)
            else do {
              crc_end \<leftarrow> (if count > 0 then rd_u32 b (SPANFS_HEADER_SZ + 4) else Some tot);
              if count > 0 \<and> (unat crc_end < index_end \<or> crc_end > tot) then Some (ESP_ERR_INVALID_SIZE, None)
              else do {
               sum \<leftarrow> index_crc b crc_end;
               if sum \<noteq> crc then Some (ESP_ERR_INVALID_CRC, None)
               else do {
                ok \<leftarrow> checkEntries b index_end (unat tot) 0 (unat count);
                if \<not> ok then Some (ESP_ERR_INVALID_SIZE, None)
                else if \<not> mem_ok then Some (ESP_ERR_NO_MEM, None)
                else Some (ESP_OK, Some \<lparr>fs_base = b, fs_entry_count = count, fs_total_size = tot, fs_release = None\<rparr>)
               }
              }
            }
          }
        })"

text \<open>What the release hook is called with, if it is; the handle is gone afterwards.\<close>

definition spanfs_close :: "spanfs option \<Rightarrow> u32 option" where
  "spanfs_close fs = (case fs of None \<Rightarrow> None | Some f \<Rightarrow> fs_release f)"

subsection \<open>Lookup and enumeration\<close>

definition SLASH :: byte where "SLASH = 0x2F"

fun strcmp :: "bytes \<Rightarrow> bytes \<Rightarrow> int" where
  "strcmp [] [] = 0"
| "strcmp [] (y # ys) = - 1"
| "strcmp (x # xs) [] = 1"
| "strcmp (x # xs) (y # ys) = (if x < y then - 1 else if y < x then 1 else strcmp xs ys)"

text \<open>\<open>lo\<close> and \<open>hi\<close> never exceed the entry count, so naturals are the \<open>uint32_t\<close> they are.\<close>

function lookupLoop :: "spanfs \<Rightarrow> bytes \<Rightarrow> nat \<Rightarrow> nat \<Rightarrow> nat option option" where
  "lookupLoop fs path lo hi =
     (if lo < hi
      then (let mid = lo + (hi - lo) div 2
            in do {
              e \<leftarrow> ent_path fs mid;
              let c = strcmp path e;
              if c = 0 then Some (Some mid)
              else if c < 0 then lookupLoop fs path lo mid
              else lookupLoop fs path (mid + 1) hi
            })
      else Some None)"
  by pat_completeness auto
termination by (relation "measure (\<lambda>(_, _, lo, hi). hi - lo)") auto

declare lookupLoop.simps [simp del]

text \<open>The data pointer is an offset of the image.\<close>

definition spanfs_lookup :: "spanfs option \<Rightarrow> bytes option \<Rightarrow> (esp_err \<times> (nat \<times> nat) option) option" where
  "spanfs_lookup fs path =
     (case (fs, path) of
        (Some f, Some p) \<Rightarrow>
          do {
            found \<leftarrow> lookupLoop f (dropWhile (\<lambda>c. c = SLASH) p) 0 (unat (fs_entry_count f));
            case found of
              None \<Rightarrow> Some (ESP_ERR_NOT_FOUND, None)
            | Some mid \<Rightarrow> do {
                doff \<leftarrow> ent_data_off f mid;
                dlen \<leftarrow> ent_data_len f mid;
                Some (ESP_OK, Some (unat doff, unat dlen))
              }
          }
      | _ \<Rightarrow> Some (ESP_ERR_INVALID_ARG, None))"

definition spanfs_count :: "spanfs option \<Rightarrow> u32" where
  "spanfs_count fs = (case fs of None \<Rightarrow> 0 | Some f \<Rightarrow> fs_entry_count f)"

text \<open>The path comes as the string the pointer reads, as every caller reads it.\<close>

definition spanfs_entry_at :: "spanfs option \<Rightarrow> nat \<Rightarrow> (esp_err \<times> (bytes \<times> nat \<times> nat) option) option" where
  "spanfs_entry_at fs i =
     (case fs of
        None \<Rightarrow> Some (ESP_ERR_INVALID_ARG, None)
      | Some f \<Rightarrow>
          if i \<ge> unat (fs_entry_count f) then Some (ESP_ERR_INVALID_ARG, None)
          else do {
            p \<leftarrow> ent_path f i;
            doff \<leftarrow> ent_data_off f i;
            dlen \<leftarrow> ent_data_len f i;
            Some (ESP_OK, Some (p, unat doff, unat dlen))
          })"

definition spanfs_image_size :: "spanfs option \<Rightarrow> u32" where
  "spanfs_image_size fs = (case fs of None \<Rightarrow> 0 | Some f \<Rightarrow> fs_total_size f)"

subsection \<open>Partitions\<close>

text \<open>
  What the flash driver answers: the contents of the partition of a label, and the outcome of
  mapping it, a handle. The live mappings are a list.
\<close>

record part_lib =
  part_find :: "bytes \<Rightarrow> bytes option"
  part_mmap :: "bytes \<Rightarrow> esp_err \<times> u32"

definition spanfs_open_partition
  :: "part_lib \<Rightarrow> bool \<Rightarrow> bytes option \<Rightarrow> bool \<Rightarrow> u32 list \<Rightarrow> ((esp_err \<times> spanfs option) \<times> u32 list) option" where
  "spanfs_open_partition lib mem_ok label out maps =
     (case label of
        None \<Rightarrow> Some ((ESP_ERR_INVALID_ARG, None), maps)
      | Some l \<Rightarrow>
        if \<not> out then Some ((ESP_ERR_INVALID_ARG, None), maps)
        else (case part_find lib l of
          None \<Rightarrow> Some ((ESP_ERR_NOT_FOUND, None), maps)
        | Some contents \<Rightarrow>
          let (e, h) = part_mmap lib l
          in if e \<noteq> ESP_OK then Some ((e, None), maps)
          else do {
            r \<leftarrow> spanfs_open_mem mem_ok (Some contents) True;
            if fst r \<noteq> ESP_OK then Some ((fst r, None), remove1 h (h # maps))
            else Some ((ESP_OK, spanfs_set_release h (snd r)), h # maps)
          }))"

text \<open>\<open>spanfs_close\<close> of a partition's handle with its hook \<open>munmap_release\<close>.\<close>

definition close_partition :: "spanfs option \<Rightarrow> u32 list \<Rightarrow> u32 list" where
  "close_partition fs maps = (case spanfs_close fs of None \<Rightarrow> maps | Some h \<Rightarrow> remove1 h maps)"

subsection \<open>The packer\<close>

text \<open>
  \<open>pack\<close> of mkspanfs.py over the list \<open>collect\<close> returns. \<open>struct.pack\<close> raises an error for a number
  that has no 32 bits: the result is then \<open>None\<close>. \<open>binascii.crc32\<close> is the table-driven CRC of zlib.
\<close>

definition crc_table :: "byte \<Rightarrow> u32" where
  "crc_table n = ((\<lambda>c. if odd c then 0xEDB88320 XOR drop_bit 1 c else drop_bit 1 c) ^^ 8) (ucast n)"

definition binascii_crc32 :: "bytes \<Rightarrow> u32" where
  "binascii_crc32 bs = foldl (\<lambda>c b. crc_table (ucast c XOR b) XOR drop_bit 8 c) 0xFFFFFFFF bs XOR 0xFFFFFFFF"

definition align_up :: "nat \<Rightarrow> nat \<Rightarrow> nat" where
  "align_up x a = (x + a - 1) div a * a"

fun path_offs :: "nat \<Rightarrow> (bytes \<times> bytes) list \<Rightarrow> nat list" where
  "path_offs ofs [] = []"
| "path_offs ofs ((rel, _) # es) = ofs # path_offs (ofs + length rel + 1) es"

definition path_blob :: "(bytes \<times> bytes) list \<Rightarrow> bytes" where
  "path_blob es = concat (map (\<lambda>(rel, _). rel @ [0]) es)"

fun data_offs :: "nat \<Rightarrow> (bytes \<times> bytes) list \<Rightarrow> nat list" where
  "data_offs cur [] = []"
| "data_offs cur ((_, payload) # es) =
     (let c = align_up cur SPANFS_DATA_ALIGN in c # data_offs (c + length payload) es)"

fun data_blob :: "nat \<Rightarrow> (bytes \<times> bytes) list \<Rightarrow> bytes" where
  "data_blob cur [] = []"
| "data_blob cur ((_, payload) # es) =
     (let c = align_up cur SPANFS_DATA_ALIGN
      in replicate (c - cur) 0 @ payload @ data_blob (c + length payload) es)"

definition pack_u32 :: "nat \<Rightarrow> bytes option" where
  "pack_u32 n = (if n < 2 ^ 32 then Some (le32 (of_nat n)) else None)"

definition pack_entry :: "nat \<times> nat \<times> nat \<Rightarrow> bytes option" where
  "pack_entry e = do { a \<leftarrow> pack_u32 (fst e); b \<leftarrow> pack_u32 (fst (snd e)); c \<leftarrow> pack_u32 (snd (snd e)); Some (a @ b @ c) }"

fun pack_index :: "(nat \<times> nat \<times> nat) list \<Rightarrow> bytes option" where
  "pack_index [] = Some []"
| "pack_index (e # es) = do { a \<leftarrow> pack_entry e; r \<leftarrow> pack_index es; Some (a @ r) }"

definition pack_image :: "(bytes \<times> bytes) list \<Rightarrow> bytes option" where
  "pack_image entries =
     (let count = length entries;
          blob_start = SPANFS_HEADER_SZ + count * SPANFS_ENTRY_SZ;
          blob = path_blob entries;
          data_start = align_up (blob_start + length blob) SPANFS_DATA_ALIGN;
          datas = data_blob data_start entries;
          total_size = data_start + length datas
      in do {
        index \<leftarrow> pack_index (zip (path_offs blob_start entries)
                     (zip (data_offs data_start entries) (map (length \<circ> snd) entries)));
        let meta = index @ blob @ replicate (data_start - (blob_start + length blob)) 0;
        c \<leftarrow> pack_u32 count;
        t \<leftarrow> pack_u32 total_size;
        Some (le32 SPANFS_MAGIC @ [SPANFS_VERSION, 0] @ le16 0 @ c @ t @ le32 (binascii_crc32 meta) @ meta @ datas)
      })"

end
