(* ===== verification/Spanfs_Image.thy ===== *)
theory Spanfs_Image
  imports Spanfs
begin

section \<open>The read-only file system: what an image holds\<close>

text \<open>
  The order of the paths with its laws, the two checksums, the files an opened image holds, and
  the binary search on them. \<open>fs_holds fs es\<close> says that the handle's index lists exactly the paths
  and contents \<open>es\<close>, all inside the image.
\<close>

subsection \<open>A strict order and strictly sorted lists\<close>

text \<open>What the search and the walk of a directory rely on of the comparison of paths.\<close>

locale path_order =
  fixes lt :: "'a \<Rightarrow> 'a \<Rightarrow> bool"
  assumes irrefl: "\<not> lt x x"
    and trans: "lt x y \<Longrightarrow> lt y z \<Longrightarrow> lt x z"
    and connected: "x \<noteq> y \<Longrightarrow> lt x y \<or> lt y x"
begin

lemma asym: "lt x y \<Longrightarrow> \<not> lt y x"
  using irrefl trans by blast

lemma sorted_lt_iff:
  assumes "sorted_wrt lt xs" "i < length xs" "j < length xs"
  shows "lt (xs ! i) (xs ! j) \<longleftrightarrow> i < j"
  using assms sorted_wrt_nth_less asym irrefl by (metis linorder_neqE_nat)

lemma sorted_distinct: "sorted_wrt lt xs \<Longrightarrow> distinct xs"
  using irrefl by (auto simp: distinct_conv_nth) (metis linorder_neqE_nat sorted_wrt_nth_less)

end

lemma strcmp_refl [simp]: "strcmp x x = 0"
  by (induction x) auto

lemma strcmp_0 [simp]: "strcmp x y = 0 \<longleftrightarrow> x = y"
  by (induction x y rule: strcmp.induct) auto

lemma strcmp_swap: "strcmp y x = - strcmp x y"
  by (induction x y rule: strcmp.induct) auto

lemma strcmp_neg_trans: "strcmp x y < 0 \<Longrightarrow> strcmp y z < 0 \<Longrightarrow> strcmp x z < 0"
proof (induction x y arbitrary: z rule: strcmp.induct)
  case (4 x xs y ys)
  then show ?case by (cases z) (auto split: if_splits)
next
  case (2 y ys)
  then show ?case by (cases z) auto
qed auto

abbreviation path_lt :: "bytes \<Rightarrow> bytes \<Rightarrow> bool" where
  "path_lt p q \<equiv> strcmp p q < 0"

interpretation paths: path_order path_lt
proof
  show "strcmp x y < 0 \<or> strcmp y x < 0" if "x \<noteq> y" for x y
    using that strcmp_swap [of x y] strcmp_0 [of x y] by linarith
qed (auto intro: strcmp_neg_trans)

subsection \<open>The two checksums\<close>

lemma crcBit_if: "crcBit c = (if odd c then 0xEDB88320 XOR drop_bit 1 c else drop_bit 1 c)"
proof -
  have "c AND 1 = (if odd c then 1 else 0)" by (simp add: and_one_eq odd_iff_mod_2_eq_one even_iff_mod_2_eq_zero)
  then show ?thesis by (simp add: crcBit_def Let_def xor.commute)
qed

lemma crcBit_xor: "crcBit (x XOR y) = crcBit x XOR crcBit y"
  by (auto simp: crcBit_if even_xor_iff xor.assoc xor.left_commute)

lemma crcBits_xor: "(crcBit ^^ n) (x XOR y) = (crcBit ^^ n) x XOR (crcBit ^^ n) y"
  by (induction n) (simp_all add: crcBit_xor)

lemma crcBits_high:
  assumes "\<And>n. n < k \<Longrightarrow> \<not> bit h n"
  shows "(crcBit ^^ k) h = drop_bit k h"
  using assms
proof (induction k)
  case (Suc k)
  have "even (drop_bit k h)" using Suc.prems [of k] by (simp add: bit_iff_odd_drop_bit)
  with Suc show ?case by (simp add: crcBit_if)
qed simp

lemma crcBits_split: "(crcBit ^^ 8) c = (crcBit ^^ 8) (take_bit 8 c) XOR drop_bit 8 c"
proof -
  have "c = take_bit 8 c XOR push_bit 8 (drop_bit 8 c)"
    by (rule bit_eqI) (auto simp: bit_simps)
  then have "(crcBit ^^ 8) c = (crcBit ^^ 8) (take_bit 8 c) XOR (crcBit ^^ 8) (push_bit 8 (drop_bit 8 c))"
    by (metis crcBits_xor)
  also have "(crcBit ^^ 8) (push_bit 8 (drop_bit 8 c)) = drop_bit 8 (push_bit 8 (drop_bit 8 c))"
    by (rule crcBits_high) (simp add: bit_simps)
  also have "drop_bit 8 (push_bit 8 (drop_bit 8 c)) = drop_bit 8 c"
    by (rule bit_eqI) (auto simp: bit_simps dest: bit_imp_le_length)
  finally show ?thesis .
qed

lemma crcByte_table: "crcByte c p = crc_table (ucast c XOR p) XOR drop_bit 8 c"
proof -
  have l: "take_bit 8 (c XOR ucast p) = ucast (ucast c XOR p :: byte)" for c :: u32
    by (rule bit_eqI) (auto simp: bit_simps dest: bit_imp_le_length)
  have h: "drop_bit 8 (c XOR ucast p) = drop_bit 8 c"
    by (rule bit_eqI) (auto simp: bit_simps dest: bit_imp_le_length)
  have t: "crc_table n = (crcBit ^^ 8) (ucast n)" for n
    unfolding crc_table_def by (simp add: crcBit_if [abs_def])
  show ?thesis unfolding crcByte_def t by (subst crcBits_split) (simp only: l h)
qed

lemma crc32_agree: "binascii_crc32 bs = spanfs_crc32 bs"
proof -
  have "foldl (\<lambda>c b. crc_table (ucast c XOR b) XOR drop_bit 8 c) a bs = foldl crcByte a bs" for a
    by (induction bs arbitrary: a) (simp_all add: crcByte_table)
  moreover have "x XOR 0xFFFFFFFF = NOT x" for x :: u32
  proof -
    have "(0xFFFFFFFF :: u32) = - 1" by simp
    then show ?thesis by (simp only: bit.xor_one_right)
  qed
  ultimately show ?thesis by (simp add: binascii_crc32_def spanfs_crc32_def)
qed

subsection \<open>The files of an image\<close>

definition entry_is :: "spanfs \<Rightarrow> nat \<Rightarrow> bytes \<times> bytes \<Rightarrow> bool" where
  "entry_is fs i e \<longleftrightarrow> ent_path fs i = Some (fst e) \<and> (\<exists>d l. ent_data_off fs i = Some d \<and> ent_data_len fs i = Some l
     \<and> unat d + unat l \<le> unat (fs_total_size fs) \<and> slice (unat d) (unat l) (fs_base fs) = snd e)"

definition fs_holds :: "spanfs \<Rightarrow> (bytes \<times> bytes) list \<Rightarrow> bool" where
  "fs_holds fs es \<longleftrightarrow> length es = unat (fs_entry_count fs) \<and> unat (fs_total_size fs) \<le> length (fs_base fs)
     \<and> (\<forall>i < length es. entry_is fs i (es ! i))"

lemma fs_holds_path: "fs_holds fs es \<Longrightarrow> i < length es \<Longrightarrow> ent_path fs i = Some (fst (es ! i))"
  by (auto simp: fs_holds_def entry_is_def)

lemma fs_holds_data:
  assumes "fs_holds fs es" "i < length es"
  obtains d l where "ent_data_off fs i = Some d" "ent_data_len fs i = Some l"
    "unat d + unat l \<le> unat (fs_total_size fs)" "unat d + unat l \<le> length (fs_base fs)"
    "slice (unat d) (unat l) (fs_base fs) = snd (es ! i)"
  using assms by (fastforce simp: fs_holds_def entry_is_def)

lemma cstr_at_no_nul: "cstr_at b p = Some s \<Longrightarrow> 0 \<notin> set s"
  by (auto simp: cstr_at_def split: if_splits)

lemma fs_holds_no_nul: "fs_holds fs es \<Longrightarrow> e \<in> set es \<Longrightarrow> 0 \<notin> set (fst e)"
  using cstr_at_no_nul fs_holds_path unfolding ent_path_def in_set_conv_nth
  by (metis bind_eq_Some_conv)

subsection \<open>The search\<close>

text \<open>Whatever the order of the index, the search returns, and what it returns has the path.\<close>

lemma lookupLoop_sound:
  assumes "fs_holds fs es" "hi \<le> length es"
  shows "\<exists>r. lookupLoop fs p lo hi = Some r \<and> (\<forall>i. r = Some i \<longrightarrow> i < length es \<and> fst (es ! i) = p)"
  using assms
proof (induction fs p lo hi rule: lookupLoop.induct)
  case (1 fs p lo hi)
  show ?case
  proof (cases "lo < hi")
    case True
    let ?mid = "lo + (hi - lo) div 2"
    have mid: "?mid < hi" "?mid < length es" using True "1.prems" by linarith+
    then have e: "ent_path fs ?mid = Some (fst (es ! ?mid))" using "1.prems" fs_holds_path by blast
    show ?thesis
      using "1.IH"(1) [OF True refl e refl _ _ "1.prems"(1)] "1.IH"(2) [OF True refl e refl _ _ "1.prems"(1)] mid "1.prems"
      by (subst lookupLoop.simps) (auto simp: True e Let_def)
  qed (simp add: lookupLoop.simps)
qed

lemma lookupLoop_found:
  assumes "fs_holds fs es" "sorted_wrt path_lt (map fst es)" "hi \<le> length es"
    and "k < length es" "fst (es ! k) = p" "lo \<le> k" "k < hi"
  shows "lookupLoop fs p lo hi = Some (Some k)"
  using assms
proof (induction fs p lo hi rule: lookupLoop.induct)
  case (1 fs p lo hi)
  let ?mid = "lo + (hi - lo) div 2"
  have lt: "lo < hi" and mid: "lo \<le> ?mid" "?mid < hi" "?mid < length es" using "1.prems" by linarith+
  then have e: "ent_path fs ?mid = Some (fst (es ! ?mid))" using "1.prems"(1) fs_holds_path by blast
  have srt: "path_lt (fst (es ! i)) (fst (es ! j)) \<longleftrightarrow> i < j" if "i < length es" "j < length es" for i j
    using paths.sorted_lt_iff [OF "1.prems"(2)] that by simp
  consider (hit) "strcmp p (fst (es ! ?mid)) = 0" | (left) "path_lt p (fst (es ! ?mid))" | (right) "path_lt (fst (es ! ?mid)) p"
    using strcmp_swap [of p "fst (es ! ?mid)"] by linarith
  then show ?case
  proof cases
    case hit
    then have "?mid = k" using srt [of ?mid k] srt [of k ?mid] "1.prems"(4,5) mid(3) by (metis linorder_neqE_nat paths.irrefl strcmp_0)
    moreover from hit have "lookupLoop fs p lo hi = Some (Some ?mid)"
      by (subst lookupLoop.simps) (simp add: lt e Let_def)
    ultimately show ?thesis by simp
  next
    case left
    then have "k < ?mid" "strcmp p (fst (es ! ?mid)) \<noteq> 0" using srt "1.prems" mid by auto
    then show ?thesis using "1.IH"(1) [OF lt refl e refl _ left] left "1.prems" mid
      by (subst lookupLoop.simps) (simp add: lt e Let_def del: strcmp_0)
  next
    case right
    then have "?mid < k" using srt "1.prems" mid by blast
    moreover have "strcmp p (fst (es ! ?mid)) > 0" using right strcmp_swap [of p "fst (es ! ?mid)"] by linarith
    ultimately show ?thesis using "1.IH"(2) [OF lt refl e refl] "1.prems" mid
      by (subst lookupLoop.simps) (simp add: lt e Let_def del: strcmp_0)
  qed
qed

subsection \<open>Opening\<close>

lemma checkEntries_iff:
  "checkEntries b ie tot i n = Some True \<longleftrightarrow> (\<forall>j. i \<le> j \<and> j < n \<longrightarrow> checkEntry b ie tot j = Some True)"
proof (induction b ie tot i n rule: checkEntries.induct)
  case (1 b ie tot i n)
  have split: "(\<forall>j. i \<le> j \<and> j < n \<longrightarrow> P j) \<longleftrightarrow> P i \<and> (\<forall>j. Suc i \<le> j \<and> j < n \<longrightarrow> P j)" if "i < n" for P
    using that by (metis Suc_le_eq le_eq_less_or_eq)
  show ?case
  proof (cases "i < n")
    case True
    show ?thesis unfolding split [OF True]
      by (subst checkEntries.simps) (use "1.IH" [OF True] True in \<open>auto split: bind_splits\<close>)
  next
    case False
    then show ?thesis by (subst checkEntries.simps) auto
  qed
qed

lemma checkEntry_Some:
  assumes "20 + i * 12 + 12 \<le> length b" "20 + i * 12 + 12 \<le> 2 ^ 32"
  shows "checkEntry b ie tot i \<noteq> None"
  using assms by (simp add: checkEntry_def rd_u32_def ent_ofs_def SPANFS_HEADER_SZ_def SPANFS_ENTRY_SZ_def
      del: not_None_eq)

lemma checkEntries_Some:
  "(\<And>j. i \<le> j \<Longrightarrow> j < n \<Longrightarrow> checkEntry b ie tot j \<noteq> None) \<Longrightarrow> checkEntries b ie tot i n \<noteq> None"
proof (induction b ie tot i n rule: checkEntries.induct)
  case (1 b ie tot i n)
  show ?case
  proof (cases "i < n")
    case True
    then obtain r where r: "checkEntry b ie tot i = Some r" using "1.prems" [of i] by auto
    show ?thesis using "1.IH" [OF True r] "1.prems" by (subst checkEntries.simps) (simp add: True r del: not_None_eq)
  next
    case False
    then show ?thesis by (subst checkEntries.simps) simp
  qed
qed

text \<open>An opened image holds the files its index lists.\<close>

definition img_entry :: "spanfs \<Rightarrow> nat \<Rightarrow> bytes \<times> bytes" where
  "img_entry fs i = (the (ent_path fs i), slice (unat (the (ent_data_off fs i))) (unat (the (ent_data_len fs i))) (fs_base fs))"

lemma checkEntry_holds:
  assumes "checkEntry (fs_base fs) ie (unat (fs_total_size fs)) i = Some True"
    and "unat (fs_total_size fs) \<le> length (fs_base fs)"
  shows "entry_is fs i (img_entry fs i)"
proof -
  let ?b = "fs_base fs"
  obtain po d l where r: "rd_u32 ?b (ent_ofs i + 0) = Some po" "rd_u32 ?b (ent_ofs i + 4) = Some d"
      "rd_u32 ?b (ent_ofs i + 8) = Some l"
    and c: "unat d + unat l \<le> unat (fs_total_size fs)" "0 \<in> set (slice (unat po) (unat (fs_total_size fs) - unat po) ?b)"
    using assms(1) unfolding checkEntry_def by (auto split: bind_splits if_splits)
  have "0 \<in> set (drop (unat po) ?b)" using c(2) unfolding slice_def by (meson in_set_takeD)
  then have "cstr_at ?b (unat po) \<noteq> None" by (simp add: cstr_at_def)
  then show ?thesis using r c
    by (auto simp: entry_is_def img_entry_def ent_path_def ent_path_off_def ent_data_off_def ent_data_len_def)
qed

definition head_count :: "bytes \<Rightarrow> nat" where
  "head_count b = unat (of_le32 (drop 8 b))"

lemma open_okD:
  assumes "spanfs_open_mem mem_ok (Some b) True = Some (ESP_OK, Some fs)"
  shows "fs_base fs = b" "unat (fs_total_size fs) \<le> length b" "unat (fs_entry_count fs) = head_count b"
    "checkEntries b ((SPANFS_HEADER_SZ + head_count b * SPANFS_ENTRY_SZ) mod 2 ^ 32) (unat (fs_total_size fs)) 0 (head_count b) = Some True"
    "fs_release fs = None"
  using assms unfolding spanfs_open_mem_def head_count_def
  by (auto simp: Let_def rd_u32_def split: if_splits bind_splits)

lemma open_holds:
  assumes "spanfs_open_mem mem_ok (Some b) True = Some (ESP_OK, Some fs)"
  shows "fs_holds fs (map (img_entry fs) [0..<unat (fs_entry_count fs)])"
  using open_okD [OF assms] unfolding fs_holds_def checkEntries_iff
  by (auto intro!: checkEntry_holds)

lemma open_fits:
  assumes "spanfs_open_mem mem_ok (Some b) True = Some (ESP_OK, r)"
  shows "\<exists>fs. r = Some fs"
  using assms unfolding spanfs_open_mem_def by (auto simp: Let_def split: if_splits bind_splits)

text \<open>Opening reads nothing outside the image when the index it announces has less than 4 GB.\<close>

lemma open_defined:
  assumes "20 + head_count b * 12 < 2 ^ 32"
  shows "spanfs_open_mem mem_ok (Some b) out \<noteq> None"
proof (cases "length b < 20")
  case False
  let ?n = "head_count b" and ?t = "unat (of_le32 (drop 12 b))"
  have chk: "checkEntries b (20 + ?n * 12) ?t 0 ?n \<noteq> None" if "20 + ?n * 12 \<le> ?t" "?t \<le> length b"
    by (rule checkEntries_Some, rule checkEntry_Some) (use that assms in linarith)+
  have rd: "rd_u32 b p = Some (of_le32 (drop p b))" if "p \<le> 16" for p using False that by (simp add: rd_u32_def)
  have rd24: "rd_u32 b 24 = Some (of_le32 (drop 24 b))" if "20 + ?n * 12 \<le> ?t" "?t \<le> length b" "0 < of_le32 (drop 8 b)"
  proof -
    from that(3) have "0 < ?n" by (simp add: head_count_def unat_gt_0)
    then show ?thesis using that by (simp add: rd_u32_def)
  qed
  have ie: "(SPANFS_HEADER_SZ + unat (of_le32 (drop 8 b)) * SPANFS_ENTRY_SZ) mod 2 ^ 32 = 20 + ?n * 12"
    using assms by (simp add: SPANFS_HEADER_SZ_def SPANFS_ENTRY_SZ_def head_count_def)
  have n: "unat (of_le32 (drop 8 b)) = ?n" by (simp add: head_count_def)
  have crc: "\<exists>x. index_crc b c = Some x" if "20 \<le> unat c" "c \<le> of_le32 (drop 12 b)" "?t \<le> length b" for c
    using index_crc_eq [of c b] that by (simp add: SPANFS_HEADER_SZ_def word_le_nat_alt)
  have c0: "\<exists>x. index_crc b (of_le32 (drop 12 b)) = Some x" if "20 \<le> ?t" "?t \<le> length b" using crc that by blast
  have c1: "\<exists>x. index_crc b (of_le32 (drop 24 b)) = Some x"
    if "\<not> unat (of_le32 (drop 24 b)) < 20 + ?n * 12" "\<not> of_le32 (drop 24 b) > of_le32 (drop 12 b)" "?t \<le> length b"
    using crc that by (simp add: not_less)
  show ?thesis using False chk rd24 c0 c1
    unfolding spanfs_open_mem_def option.case Let_def rd [of 0, simplified] rd [of 8, simplified] rd [of 12, simplified]
      rd [of 16, simplified] bind.bind_lunit ie unfolding n
    by (auto simp: SPANFS_HEADER_SZ_def bind_eq_None_conv)
qed (simp add: spanfs_open_mem_def SPANFS_HEADER_SZ_def)

end
