(* ===== verification/Spanfs_Pack.thy ===== *)
theory Spanfs_Pack
  imports Spanfs_Image
begin

section \<open>The read-only file system: images the packer writes\<close>

text \<open>
  The layout \<open>pack\<close> computes, read back: each index entry points to its path and to its data, the
  checksum is that of the reader, and so the image opens and holds the files it was made from.
\<close>

subsection \<open>The pieces of the image\<close>

lemma rd_le32: "drop p b = le32 v @ r \<Longrightarrow> rd_u32 b p = Some v"
proof -
  assume d: "drop p b = le32 v @ r"
  then have "length b - p = 4 + length r" by (metis length_append length_drop length_le32)
  then show ?thesis using d by (simp add: rd_u32_def of_le32_le32_append)
qed

lemma drop_prefix: "b = a @ c \<Longrightarrow> length a = n \<Longrightarrow> drop n b = c"
  by simp

lemma drop_later: "drop n b = a @ c \<Longrightarrow> length a = k \<Longrightarrow> drop (n + k) b = c"
  by (metis append_eq_conv_conj add.commute drop_drop)

lemma align_up_4: "align_up x 4 = (x + 3) div 4 * 4"
  by (simp add: align_up_def)

lemma align_up_ge: "x \<le> align_up x 4"
  by (simp add: align_up_4)

lemma align_up_idem [simp]: "align_up (align_up x 4) 4 = align_up x 4"
  by (simp add: align_up_4)

lemma length_path_offs [simp]: "length (path_offs o' es) = length es"
  by (induction o' es rule: path_offs.induct) auto

lemma length_data_offs [simp]: "length (data_offs c es) = length es"
  by (induction c es rule: data_offs.induct) (auto simp: Let_def)

lemma path_blob_simps [simp]: "path_blob [] = []" "path_blob (e # es) = fst e @ 0 # path_blob es"
  by (auto simp: path_blob_def split: prod.splits)

lemma path_offs_nth:
  "i < length es \<Longrightarrow> path_offs o' es ! i \<ge> o' \<and> path_offs o' es ! i < o' + length (path_blob es)
     \<and> (\<exists>r. drop (path_offs o' es ! i - o') (path_blob es) = fst (es ! i) @ 0 # r)"
proof (induction o' es arbitrary: i rule: path_offs.induct)
  case (2 o' p x es)
  show ?case
  proof (cases i)
    case (Suc j)
    have j: "j < length es" using 2 Suc by simp
    let ?k = "path_offs (o' + length p + 1) es ! j"
    have "?k - o' = Suc (length p) + (?k - (o' + length p + 1))" using "2.IH" [OF j] by linarith
    moreover have "drop (Suc (length p) + n) (p @ 0 # q) = drop n q" for n and q :: bytes by simp
    ultimately have "drop (?k - o') (path_blob ((p, x) # es)) = drop (?k - (o' + length p + 1)) (path_blob es)"
      by (metis fst_conv path_blob_simps(2))
    then show ?thesis using "2.IH" [OF j] Suc by simp
  qed simp
qed simp

lemma data_offs_nth:
  "i < length es \<Longrightarrow> data_offs c es ! i \<ge> c
     \<and> data_offs c es ! i + length (snd (es ! i)) \<le> c + length (data_blob c es)
     \<and> (\<exists>r. drop (data_offs c es ! i - c) (data_blob c es) = snd (es ! i) @ r)"
proof (induction c es arbitrary: i rule: data_offs.induct)
  case (2 c x p es)
  let ?a = "align_up c 4"
  have a: "c \<le> ?a" by (rule align_up_ge)
  show ?case
  proof (cases i)
    case 0
    then show ?thesis using a by (simp add: Let_def SPANFS_DATA_ALIGN_def)
  next
    case (Suc j)
    have j: "j < length es" using 2 Suc by simp
    let ?k = "data_offs (?a + length p) es ! j"
    note IH = "2.IH" [OF refl, unfolded SPANFS_DATA_ALIGN_def, OF j]
    have "?k - c = (?a - c) + (length p + (?k - (?a + length p)))" using IH a by linarith
    moreover have "drop (?a - c + (length p + n)) (replicate (?a - c) 0 @ p @ q) = drop n q" for n q by simp
    ultimately show ?thesis using IH a Suc by (auto simp: Let_def SPANFS_DATA_ALIGN_def)
  qed
qed simp

lemma pack_u32_Some: "pack_u32 n = Some a \<longleftrightarrow> n < 2 ^ 32 \<and> a = le32 (of_nat n)"
  by (auto simp: pack_u32_def)

lemma pack_index_nth:
  "pack_index ts = Some ix \<Longrightarrow> length ix = length ts * 12 \<and> (\<forall>i < length ts. \<exists>r.
     fst (ts ! i) < 2 ^ 32 \<and> fst (snd (ts ! i)) < 2 ^ 32 \<and> snd (snd (ts ! i)) < 2 ^ 32 \<and>
     drop (i * 12) ix = le32 (of_nat (fst (ts ! i))) @ le32 (of_nat (fst (snd (ts ! i)))) @ le32 (of_nat (snd (snd (ts ! i)))) @ r)"
proof (induction ts arbitrary: ix)
  case (Cons t ts)
  obtain a ix' where a: "pack_entry t = Some a" "pack_index ts = Some ix'" "ix = a @ ix'"
    using Cons.prems by (auto split: bind_splits)
  have e: "a = le32 (of_nat (fst t)) @ le32 (of_nat (fst (snd t))) @ le32 (of_nat (snd (snd t)))"
    "fst t < 2 ^ 32" "fst (snd t) < 2 ^ 32" "snd (snd t) < 2 ^ 32" "length a = 12"
    using a(1) by (auto simp: pack_entry_def pack_u32_Some split: bind_splits)
  show ?case
  proof (intro conjI allI impI)
    show "length ix = length (t # ts) * 12" using Cons.IH [OF a(2)] a(3) e(5) by simp
    fix i assume "i < length (t # ts)"
    then show "\<exists>r. fst ((t # ts) ! i) < 2 ^ 32 \<and> fst (snd ((t # ts) ! i)) < 2 ^ 32 \<and> snd (snd ((t # ts) ! i)) < 2 ^ 32 \<and>
      drop (i * 12) ix = le32 (of_nat (fst ((t # ts) ! i))) @ le32 (of_nat (fst (snd ((t # ts) ! i))))
        @ le32 (of_nat (snd (snd ((t # ts) ! i)))) @ r"
      using Cons.IH [OF a(2)] a(3) e by (cases i) auto
  qed
qed simp

lemma data_offs_0: "es \<noteq> [] \<Longrightarrow> data_offs (align_up c 4) es ! 0 = align_up c 4"
  by (cases es) (auto simp: Let_def SPANFS_DATA_ALIGN_def)

subsection \<open>The image as a whole\<close>

definition pack_start :: "(bytes \<times> bytes) list \<Rightarrow> nat" where
  "pack_start es = 20 + length es * 12"

definition pack_data :: "(bytes \<times> bytes) list \<Rightarrow> nat" where
  "pack_data es = align_up (pack_start es + length (path_blob es)) 4"

definition pack_total :: "(bytes \<times> bytes) list \<Rightarrow> nat" where
  "pack_total es = pack_data es + length (data_blob (pack_data es) es)"

definition pack_triples :: "(bytes \<times> bytes) list \<Rightarrow> (nat \<times> nat \<times> nat) list" where
  "pack_triples es = zip (path_offs (pack_start es) es) (zip (data_offs (pack_data es) es) (map (length \<circ> snd) es))"

definition pack_pad :: "(bytes \<times> bytes) list \<Rightarrow> bytes" where
  "pack_pad es = replicate (pack_data es - (pack_start es + length (path_blob es))) 0"

lemma pack_triples_nth:
  "i < length es \<Longrightarrow> pack_triples es ! i = (path_offs (pack_start es) es ! i, data_offs (pack_data es) es ! i, length (snd (es ! i)))"
  by (simp add: pack_triples_def)

lemma length_pack_triples [simp]: "length (pack_triples es) = length es"
  by (simp add: pack_triples_def)

lemma pack_imageE:
  assumes "pack_image es = Some img"
  obtains ix hd crc where "pack_index (pack_triples es) = Some ix" "pack_total es < 2 ^ 32" "length hd = 8"
    "hd = le32 SPANFS_MAGIC @ [SPANFS_VERSION, 0] @ le16 0" "crc = spanfs_crc32 (ix @ path_blob es @ pack_pad es)"
    "img = (hd @ le32 (of_nat (length es)) @ le32 (of_nat (pack_total es)) @ le32 crc)
      @ (ix @ path_blob es @ pack_pad es) @ data_blob (pack_data es) es"
  using assms unfolding pack_image_def Let_def SPANFS_HEADER_SZ_def SPANFS_ENTRY_SZ_def SPANFS_DATA_ALIGN_def
  by (auto simp: pack_u32_Some crc32_agree pack_triples_def pack_total_def pack_start_def pack_data_def pack_pad_def
      split: bind_splits)

lemma pack_sizes:
  "pack_start es + length (path_blob es) + length (pack_pad es) = pack_data es" "pack_data es \<le> pack_total es"
  "20 + length es * 12 \<le> pack_data es"
  using align_up_ge [of "pack_start es + length (path_blob es)"]
  by (simp_all add: pack_pad_def pack_data_def pack_total_def pack_start_def)

text \<open>What each part of the image is followed by.\<close>

lemma pack_drops:
  assumes "pack_image es = Some img" "pack_index (pack_triples es) = Some ix"
  shows "drop 20 (img @ extra) = ix @ path_blob es @ pack_pad es @ data_blob (pack_data es) es @ extra"
    "drop (pack_start es) (img @ extra) = path_blob es @ pack_pad es @ data_blob (pack_data es) es @ extra"
    "drop (pack_data es) (img @ extra) = data_blob (pack_data es) es @ extra"
    "length img = pack_total es"
proof -
  obtain ix' hd crc where i: "pack_index (pack_triples es) = Some ix'" "length hd = 8"
    "img = (hd @ le32 (of_nat (length es)) @ le32 (of_nat (pack_total es)) @ le32 crc)
      @ (ix' @ path_blob es @ pack_pad es) @ data_blob (pack_data es) es"
    using pack_imageE [OF assms(1)] by metis
  have ix: "ix' = ix" "length ix = length es * 12" using i(1) assms(2) pack_index_nth [OF assms(2)] by simp_all
  have h: "length (hd @ le32 (of_nat (length es)) @ le32 (of_nat (pack_total es)) @ le32 crc) = 20" using i(2) by simp
  have "img @ extra = (hd @ le32 (of_nat (length es)) @ le32 (of_nat (pack_total es)) @ le32 crc)
      @ (ix @ path_blob es @ pack_pad es @ data_blob (pack_data es) es @ extra)"
    unfolding i(3) ix(1) by (simp only: append.assoc)
  from drop_prefix [OF this h]
  show d20: "drop 20 (img @ extra) = ix @ path_blob es @ pack_pad es @ data_blob (pack_data es) es @ extra" .
  from drop_later [OF this ix(2)]
  show ps: "drop (pack_start es) (img @ extra) = path_blob es @ pack_pad es @ data_blob (pack_data es) es @ extra"
    unfolding pack_start_def .
  from drop_later [OF drop_later [OF ps refl] refl]
  show "drop (pack_data es) (img @ extra) = data_blob (pack_data es) es @ extra"
    unfolding pack_sizes(1) .
  show "length img = pack_total es" using i(2,3) ix pack_sizes(1) [of es] by (simp add: pack_total_def pack_start_def)
qed

lemma pack_start_size: "pack_start es \<le> pack_data es"
  using pack_sizes(1) [of es] by linarith

text \<open>The handle of a packed image, and that its index lists the files that were packed.\<close>

definition packed_fs :: "(bytes \<times> bytes) list \<Rightarrow> bytes \<Rightarrow> spanfs" where
  "packed_fs es b = \<lparr>fs_base = b, fs_entry_count = of_nat (length es), fs_total_size = of_nat (pack_total es), fs_release = None\<rparr>"

lemma packed_entry:
  assumes p: "pack_image es = Some img" and nul: "\<forall>e \<in> set es. 0 \<notin> set (fst e)" and i: "i < length es"
  shows "rd_u32 (img @ extra) (ent_ofs i + 0) = Some (of_nat (path_offs (pack_start es) es ! i))"
    "rd_u32 (img @ extra) (ent_ofs i + 4) = Some (of_nat (data_offs (pack_data es) es ! i))"
    "rd_u32 (img @ extra) (ent_ofs i + 8) = Some (of_nat (length (snd (es ! i))))"
    "path_offs (pack_start es) es ! i < pack_data es" "pack_start es \<le> path_offs (pack_start es) es ! i"
    "data_offs (pack_data es) es ! i + length (snd (es ! i)) \<le> pack_total es"
    "\<exists>r. drop (path_offs (pack_start es) es ! i) (img @ extra) = fst (es ! i) @ 0 # r"
    "\<exists>r. drop (path_offs (pack_start es) es ! i) img = fst (es ! i) @ 0 # r"
    "slice (data_offs (pack_data es) es ! i) (length (snd (es ! i))) (img @ extra) = snd (es ! i)"
proof -
  obtain ix where ix: "pack_index (pack_triples es) = Some ix" "pack_total es < 2 ^ 32" using pack_imageE [OF p] by metis
  have small: "20 + i * 12 < 2 ^ 32" using ix(2) pack_sizes [of es] i by linarith
  then have ofs: "ent_ofs i = 20 + i * 12" by (simp add: ent_ofs_def SPANFS_HEADER_SZ_def SPANFS_ENTRY_SZ_def)
  note t = pack_triples_nth [OF i]
  obtain r where r: "drop (i * 12) ix = le32 (of_nat (path_offs (pack_start es) es ! i))
      @ le32 (of_nat (data_offs (pack_data es) es ! i)) @ le32 (of_nat (length (snd (es ! i)))) @ r"
    using pack_index_nth [OF ix(1)] i t by fastforce
  have le: "i * 12 \<le> length ix" using pack_index_nth [OF ix(1)] i by simp
  have d: "drop (20 + i * 12) (img @ extra) = le32 (of_nat (path_offs (pack_start es) es ! i))
      @ le32 (of_nat (data_offs (pack_data es) es ! i)) @ le32 (of_nat (length (snd (es ! i))))
      @ r @ path_blob es @ pack_pad es @ data_blob (pack_data es) es @ extra"
  proof -
    have "drop (20 + i * 12) (img @ extra) = drop (i * 12) (drop 20 (img @ extra))" by (simp only: drop_drop add.commute)
    also have "\<dots> = drop (i * 12) ix @ path_blob es @ pack_pad es @ data_blob (pack_data es) es @ extra"
      unfolding pack_drops(1) [OF p ix(1)] using le by simp
    finally show ?thesis unfolding r by simp
  qed
  show "rd_u32 (img @ extra) (ent_ofs i + 0) = Some (of_nat (path_offs (pack_start es) es ! i))"
    unfolding ofs using rd_le32 [OF d] by simp
  note d2 = drop_later [OF d length_le32]
  show "rd_u32 (img @ extra) (ent_ofs i + 4) = Some (of_nat (data_offs (pack_data es) es ! i))"
    unfolding ofs by (rule rd_le32 [OF d2])
  show "rd_u32 (img @ extra) (ent_ofs i + 8) = Some (of_nat (length (snd (es ! i))))"
    unfolding ofs using rd_le32 [OF drop_later [OF d2 length_le32]] by simp
  let ?po = "path_offs (pack_start es) es ! i" and ?do = "data_offs (pack_data es) es ! i"
  note po = path_offs_nth [OF i, of "pack_start es"]
  note dof = data_offs_nth [OF i, of "pack_data es"]
  show b: "?po < pack_data es" "pack_start es \<le> ?po" using po pack_sizes(1) [of es] by linarith+
  show "?do + length (snd (es ! i)) \<le> pack_total es" using dof by (simp add: pack_total_def)
  have path: "\<exists>r. drop ?po (img @ extra) = fst (es ! i) @ 0 # r" for extra
  proof -
    obtain q where q: "drop (?po - pack_start es) (path_blob es) = fst (es ! i) @ 0 # q" using po by blast
    have "drop ?po (img @ extra) = drop (?po - pack_start es) (drop (pack_start es) (img @ extra))"
      using b(2) by (simp only: drop_drop le_add_diff_inverse2)
    also have "\<dots> = fst (es ! i) @ 0 # q @ pack_pad es @ data_blob (pack_data es) es @ extra"
      unfolding pack_drops(2) [OF p ix(1)] using po q by simp
    finally show ?thesis by blast
  qed
  show "\<exists>r. drop ?po (img @ extra) = fst (es ! i) @ 0 # r" "\<exists>r. drop ?po img = fst (es ! i) @ 0 # r"
    using path path [of "[]"] by simp_all
  obtain q where q: "drop (?do - pack_data es) (data_blob (pack_data es) es) = snd (es ! i) @ q" using dof by blast
  have "drop ?do (img @ extra) = drop (?do - pack_data es) (drop (pack_data es) (img @ extra))"
    using dof by (simp only: drop_drop le_add_diff_inverse2)
  also have "\<dots> = snd (es ! i) @ q @ extra"
    unfolding pack_drops(3) [OF p ix(1)] using dof q by simp
  finally show "slice ?do (length (snd (es ! i))) (img @ extra) = snd (es ! i)" by (simp add: slice_def)
qed

lemma cstr_at_here: "drop p b = s @ 0 # r \<Longrightarrow> 0 \<notin> set s \<Longrightarrow> cstr_at b p = Some s"
  by (simp add: cstr_at_def cstr_field_append_nul)

lemma packed_holds:
  assumes p: "pack_image es = Some img" and nul: "\<forall>e \<in> set es. 0 \<notin> set (fst e)"
  shows "fs_holds (packed_fs es (img @ extra)) es"
proof -
  obtain ix where ix: "pack_index (pack_triples es) = Some ix" and tot: "pack_total es < 2 ^ 32" using pack_imageE [OF p] by metis
  have n: "length es < 2 ^ 32" using tot pack_sizes [of es] by linarith
  show ?thesis unfolding fs_holds_def
  proof (intro conjI allI impI)
    show "length es = unat (fs_entry_count (packed_fs es (img @ extra)))"
      using n by (simp add: packed_fs_def unat_of_nat)
    show "unat (fs_total_size (packed_fs es (img @ extra))) \<le> length (fs_base (packed_fs es (img @ extra)))"
      using tot pack_drops(4) [OF p ix] by (simp add: packed_fs_def unat_of_nat)
    fix i assume i: "i < length es"
    note e = packed_entry [OF p nul i]
    have small: "path_offs (pack_start es) es ! i < 2 ^ 32" "data_offs (pack_data es) es ! i < 2 ^ 32" "length (snd (es ! i)) < 2 ^ 32"
      using e(4,6) tot pack_sizes(2) [of es] by linarith+
    obtain r where r: "drop (path_offs (pack_start es) es ! i) (img @ extra) = fst (es ! i) @ 0 # r" using e(7) by blast
    have "0 \<notin> set (fst (es ! i))" using nul i nth_mem by blast
    then show "entry_is (packed_fs es (img @ extra)) i (es ! i)"
      using small e(1,2,3,6,9) tot cstr_at_here [OF r]
      by (simp add: entry_is_def ent_path_def ent_path_off_def ent_data_off_def ent_data_len_def packed_fs_def unat_of_nat)
  qed
qed

lemma packed_checks:
  assumes p: "pack_image es = Some img" and nul: "\<forall>e \<in> set es. 0 \<notin> set (fst e)" and i: "i < length es"
  shows "checkEntry (img @ extra) (pack_start es) (pack_total es) i = Some True"
proof -
  obtain ix where ix: "pack_index (pack_triples es) = Some ix" and tot: "pack_total es < 2 ^ 32" using pack_imageE [OF p] by metis
  note e = packed_entry [OF p nul i]
  have small: "path_offs (pack_start es) es ! i < 2 ^ 32" "data_offs (pack_data es) es ! i < 2 ^ 32" "length (snd (es ! i)) < 2 ^ 32"
    using e(4,6) tot pack_sizes(2) [of es] by linarith+
  let ?po = "path_offs (pack_start es) es ! i"
  obtain r where "drop ?po img = fst (es ! i) @ 0 # r" using e(8) by blast
  moreover have "slice ?po (pack_total es - ?po) (img @ extra) = drop ?po img"
    using e(4) pack_sizes(2) [of es] pack_drops(4) [OF p ix] by (simp add: slice_def)
  ultimately have "0 \<in> set (slice ?po (pack_total es - ?po) (img @ extra))" by simp
  then show ?thesis
    using e(1,2,3,4,5,6) small pack_sizes(2) [of es] by (simp add: checkEntry_def unat_of_nat)
qed

lemma packed_opens:
  assumes p: "pack_image es = Some img" and nul: "\<forall>e \<in> set es. 0 \<notin> set (fst e)"
  shows "spanfs_open_mem True (Some (img @ extra)) True = Some (ESP_OK, Some (packed_fs es (img @ extra)))"
proof -
  obtain ix hd crc where ix: "pack_index (pack_triples es) = Some ix" and tot: "pack_total es < 2 ^ 32" and h: "length hd = 8"
    and hd: "hd = le32 SPANFS_MAGIC @ [SPANFS_VERSION, 0] @ le16 0" and crc: "crc = spanfs_crc32 (ix @ path_blob es @ pack_pad es)"
    and img: "img = (hd @ le32 (of_nat (length es)) @ le32 (of_nat (pack_total es)) @ le32 crc)
      @ (ix @ path_blob es @ pack_pad es) @ data_blob (pack_data es) es"
    using pack_imageE [OF p] by metis
  let ?b = "img @ extra"
  have n: "length es < 2 ^ 32" "pack_start es < 2 ^ 32" using tot pack_sizes [of es] pack_start_size [of es] by linarith+
  have d0: "drop 0 ?b = le32 SPANFS_MAGIC @ drop 4 ?b" unfolding img hd by simp
  have ver: "?b ! 4 = SPANFS_VERSION" unfolding img hd by (simp add: nth_append)
  have d8: "drop 8 ?b = le32 (of_nat (length es)) @ drop 12 ?b" and d12: "drop 12 ?b = le32 (of_nat (pack_total es)) @ drop 16 ?b"
    and d16: "drop 16 ?b = le32 crc @ drop 20 ?b"
    unfolding img using h by simp_all
  have len: "length ?b = pack_total es + length extra" using pack_drops(4) [OF p ix] by simp
  have ie: "(SPANFS_HEADER_SZ + length es * SPANFS_ENTRY_SZ) mod 2 ^ 32 = pack_start es"
    using n by (simp add: SPANFS_HEADER_SZ_def SPANFS_ENTRY_SZ_def unat_of_nat pack_start_def)
  have meta: "slice 20 (pack_data es - 20) ?b = ix @ path_blob es @ pack_pad es"
    using pack_drops(1) [OF p ix, of extra] pack_index_nth [OF ix] pack_sizes(1) [of es]
    by (simp add: slice_def pack_start_def)
  have end0: "rd_u32 ?b 24 = Some (of_nat (pack_data es))" if "es \<noteq> []"
    using packed_entry(2) [OF p nul, of 0 extra] data_offs_0 [OF that, of "pack_start es + length (path_blob es)"] that
    by (simp add: pack_data_def ent_ofs_def SPANFS_HEADER_SZ_def)
  have empty: "pack_total es = pack_data es" if "es = []" using that by (simp add: pack_total_def)
  have chk: "checkEntries ?b (pack_start es) (pack_total es) 0 (length es) = Some True"
    unfolding checkEntries_iff using packed_checks [OF p nul] by simp
  have u: "unat (of_nat (pack_data es) :: u32) = pack_data es" "unat (of_nat (pack_total es) :: u32) = pack_total es"
    "unat (of_nat (length es) :: u32) = length es"
    using tot n pack_sizes(2) [of es] by (simp_all add: unat_of_nat)
  have pos: "(of_nat (length es) :: u32) > 0 \<longleftrightarrow> es \<noteq> []" 
    using u(3) by (cases "es = []") (auto simp: word_greater_zero_iff unat_eq_zero [symmetric])
  have crc_end: "(if (of_nat (length es) :: u32) > 0 then rd_u32 ?b (SPANFS_HEADER_SZ + 4) else Some (of_nat (pack_total es))) = Some (of_nat (pack_data es))"
    using end0 empty unfolding pos by (simp add: SPANFS_HEADER_SZ_def)
  have ge: "20 \<le> pack_total es" "20 \<le> length ?b" using pack_sizes [of es] len by linarith+
  have "(of_nat (pack_data es) :: u32) \<le> of_nat (pack_total es)" using u pack_sizes(2) [of es] by (simp add: word_le_nat_alt)
  moreover have "20 \<le> pack_data es" "pack_data es \<le> length ?b"
    using pack_sizes [of es] pack_start_size [of es] len by (simp_all add: pack_start_def)
  then have "index_crc ?b (of_nat (pack_data es)) = Some crc"
    using index_crc_eq [of "of_nat (pack_data es)" ?b] u(1) meta crc by (simp add: SPANFS_HEADER_SZ_def)
  ultimately show ?thesis
    using ge len pack_start_size [of es] pack_sizes(2) [of es] meta
    unfolding spanfs_open_mem_def option.case Let_def rd_le32 [OF d0] rd_le32 [OF d8] rd_le32 [OF d12] rd_le32 [OF d16]
      bind.bind_lunit ie crc_end u chk
    by (simp add: ver crc packed_fs_def SPANFS_HEADER_SZ_def not_less del: checkEntries.simps)
qed

text \<open>A search of a packed image is the search of the list of files.\<close>

lemma holds_lookup:
  assumes h: "fs_holds fs es" and s: "sorted_wrt path_lt (map fst es)"
  shows "case map_of es (dropWhile (\<lambda>c. c = SLASH) path) of
      None \<Rightarrow> spanfs_lookup (Some fs) (Some path) = Some (ESP_ERR_NOT_FOUND, None)
    | Some data \<Rightarrow> \<exists>d l. spanfs_lookup (Some fs) (Some path) = Some (ESP_OK, Some (d, l)) \<and> slice d l (fs_base fs) = data
        \<and> d + l \<le> unat (fs_total_size fs)"
proof -
  let ?p = "dropWhile (\<lambda>c. c = SLASH) path"
  have n: "unat (fs_entry_count fs) = length es" using h by (simp add: fs_holds_def)
  show ?thesis
  proof (cases "map_of es ?p")
    case None
    then have "?p \<notin> fst ` set es" by (simp add: map_of_eq_None_iff)
    moreover obtain r where r: "lookupLoop fs ?p 0 (length es) = Some r" "\<forall>i. r = Some i \<longrightarrow> i < length es \<and> fst (es ! i) = ?p"
      using lookupLoop_sound [OF h le_refl] by blast
    ultimately have "r = None" by (cases r) (auto, metis image_eqI nth_mem)
    with None r(1) show ?thesis by (simp add: spanfs_lookup_def n)
  next
    case (Some data)
    then obtain i where i: "i < length es" "es ! i = (?p, data)" by (metis in_set_conv_nth map_of_SomeD)
    then have "lookupLoop fs ?p 0 (length es) = Some (Some i)" using lookupLoop_found [OF h s le_refl] by simp
    then show ?thesis using Some i by (auto simp: spanfs_lookup_def n intro: fs_holds_data [OF h i(1)])
  qed
qed

end
