(* ===== verification/Spanfs_Vfs.thy ===== *)
theory Spanfs_Vfs
  imports Spanfs
begin

section \<open>The read-only file system: the POSIX face\<close>

text \<open>
  spanfs_esp.c keeps a table of open files and one of open directories per mount. An open file
  is a range of the image with a position; the position is an \<open>off_t\<close>, a signed 32-bit integer,
  kept as the word it is. A signed sum that overflows is undefined, \<open>None\<close>, as is a copy from outside the
  image or the use of a directory handle that is not one.
\<close>

definition SPANFS_MAX_MOUNTS :: nat where "SPANFS_MAX_MOUNTS = 2"
definition SPANFS_MAX_FD :: nat where "SPANFS_MAX_FD = 8"
definition SPANFS_MAX_DIR :: nat where "SPANFS_MAX_DIR = 4"
definition SPANFS_NAME_MAX :: nat where "SPANFS_NAME_MAX = 128"
definition DIRENT_NAME :: nat where "DIRENT_NAME = 256"

datatype errno = EROFS | ENOENT | ENFILE | EBADF | EINVAL

record sfd =
  f_used :: bool
  f_data :: nat
  f_len :: nat
  f_pos :: u32

record dirent =
  d_isdir :: bool
  d_name :: bytes

record sdir =
  d_used :: bool
  d_prefix :: bytes
  d_plen :: nat
  d_cursor :: nat
  d_last :: bytes
  d_loc :: nat
  d_de :: "dirent option"

record mount =
  m_used :: bool
  m_fs :: spanfs
  m_base :: bytes
  m_fds :: "sfd list"
  m_dirs :: "sdir list"

subsection \<open>Paths\<close>

definition rel :: "bytes \<Rightarrow> bytes" where
  "rel path = dropWhile (\<lambda>c. c = SLASH) path"

text \<open>\<open>strncmp(p, dir, n) == 0 && p[n] == '/'\<close> for the path of an entry.\<close>

definition under_dir :: "bytes \<Rightarrow> bytes \<Rightarrow> bool" where
  "under_dir dir p \<longleftrightarrow> take (length dir) p = dir \<and> length dir < length p \<and> p ! length dir = SLASH"

function isDirLoop :: "spanfs \<Rightarrow> bytes \<Rightarrow> nat \<Rightarrow> bool option" where
  "isDirLoop fs dir i =
     (if i < unat (spanfs_count (Some fs))
      then do {
        r \<leftarrow> spanfs_entry_at (Some fs) i;
        case snd r of
          None \<Rightarrow> None
        | Some (p, _, _) \<Rightarrow> if under_dir dir p then Some True else isDirLoop fs dir (Suc i)
      }
      else Some False)"
  by pat_completeness auto
termination by (relation "measure (\<lambda>(fs, _, i). unat (spanfs_count (Some fs)) - i)") auto

declare isDirLoop.simps [simp del]

definition is_dir :: "spanfs \<Rightarrow> bytes \<Rightarrow> bool option" where
  "is_dir fs dir = (if dir = [] then Some True else isDirLoop fs dir 0)"

subsection \<open>Files\<close>

definition O_ACCMODE :: u32 where "O_ACCMODE = 3"
definition O_RDONLY :: u32 where "O_RDONLY = 0"
definition O_CREAT :: u32 where "O_CREAT = 0x200"
definition O_TRUNC :: u32 where "O_TRUNC = 0x400"
definition W_OK :: u32 where "W_OK = 2"

definition sfd_alloc :: "mount \<Rightarrow> nat option" where
  "sfd_alloc m = find (\<lambda>i. \<not> f_used (m_fds m ! i)) [0..<SPANFS_MAX_FD]"

definition spanfs_vfs_open :: "bytes \<Rightarrow> u32 \<Rightarrow> mount \<Rightarrow> ((errno + nat) \<times> mount) option" where
  "spanfs_vfs_open path flags m =
     (if flags AND O_ACCMODE \<noteq> O_RDONLY \<or> flags AND (O_CREAT OR O_TRUNC) \<noteq> 0 then Some (Inl EROFS, m)
      else do {
        r \<leftarrow> spanfs_lookup (Some (m_fs m)) (Some (rel path));
        case snd r of
          None \<Rightarrow> Some (Inl ENOENT, m)
        | Some (data, len) \<Rightarrow>
            (case sfd_alloc m of
               None \<Rightarrow> Some (Inl ENFILE, m)
             | Some fd \<Rightarrow>
                 Some (Inr fd, m\<lparr>m_fds := (m_fds m)[fd := \<lparr>f_used = True, f_data = data, f_len = len, f_pos = 0\<rparr>]\<rparr>))
      })"

definition fd_ok :: "int \<Rightarrow> mount \<Rightarrow> bool" where
  "fd_ok fd m \<longleftrightarrow> \<not> (fd < 0 \<or> fd \<ge> int SPANFS_MAX_FD \<or> \<not> f_used (m_fds m ! nat fd))"

text \<open>The bytes \<open>memcpy\<close> copies out of the image.\<close>

definition img_copy :: "bytes \<Rightarrow> int \<Rightarrow> nat \<Rightarrow> bytes option" where
  "img_copy b p n = (if 0 \<le> p \<and> nat p + n \<le> length b then Some (slice (nat p) n b) else None)"

definition spanfs_vfs_read :: "int \<Rightarrow> nat \<Rightarrow> mount \<Rightarrow> ((errno + bytes) \<times> mount) option" where
  "spanfs_vfs_read fd want m =
     (if \<not> fd_ok fd m then Some (Inl EBADF, m)
      else let f = m_fds m ! nat fd
      in if unat (f_pos f) \<ge> f_len f then Some (Inr [], m)
      else let avail = f_len f - unat (f_pos f);
               n = (if want < avail then want else avail)
      in do {
        dst \<leftarrow> img_copy (fs_base (m_fs m)) (int (f_data f) + sint (f_pos f)) n;
        Some (Inr dst, m\<lparr>m_fds := (m_fds m)[nat fd := f\<lparr>f_pos := f_pos f + of_nat n\<rparr>]\<rparr>)
      })"

definition OFF_MAX :: int where "OFF_MAX = 2147483647"

definition spanfs_vfs_lseek :: "int \<Rightarrow> int \<Rightarrow> int \<Rightarrow> mount \<Rightarrow> ((errno + int) \<times> mount) option" where
  "spanfs_vfs_lseek fd off whence m =
     (if \<not> fd_ok fd m then Some (Inl EBADF, m)
      else let f = m_fds m ! nat fd;
               base = (if whence = 0 then 0 else if whence = 1 then sint (f_pos f)
                       else if whence = 2 then sint (of_nat (f_len f) :: u32) else - 1)
      in if base < 0 then Some (Inl EINVAL, m)
      else let np = base + off
      in if np > OFF_MAX then None
      else if np < 0 then Some (Inl EINVAL, m)
      else Some (Inr np, m\<lparr>m_fds := (m_fds m)[nat fd := f\<lparr>f_pos := of_int np\<rparr>]\<rparr>))"

definition spanfs_vfs_close :: "int \<Rightarrow> mount \<Rightarrow> (errno + nat) \<times> mount" where
  "spanfs_vfs_close fd m =
     (if \<not> fd_ok fd m then (Inl EBADF, m)
      else (Inr 0, m\<lparr>m_fds := (m_fds m)[nat fd := (m_fds m ! nat fd)\<lparr>f_used := False\<rparr>]\<rparr>))"

record vfs_stat =
  st_mode :: nat
  st_size :: u32
  st_nlink :: nat

definition fill_file_stat :: "nat \<Rightarrow> vfs_stat" where
  "fill_file_stat len = \<lparr>st_mode = 0x8124, st_size = of_nat len, st_nlink = 1\<rparr>"

definition fill_dir_stat :: vfs_stat where
  "fill_dir_stat = \<lparr>st_mode = 0x416D, st_size = 0, st_nlink = 1\<rparr>"

definition spanfs_vfs_fstat :: "int \<Rightarrow> mount \<Rightarrow> errno + vfs_stat" where
  "spanfs_vfs_fstat fd m =
     (if \<not> fd_ok fd m then Inl EBADF else Inr (fill_file_stat (f_len (m_fds m ! nat fd))))"

definition spanfs_vfs_stat :: "bytes \<Rightarrow> mount \<Rightarrow> (errno + vfs_stat) option" where
  "spanfs_vfs_stat path m =
     do {
       r \<leftarrow> spanfs_lookup (Some (m_fs m)) (Some (rel path));
       case snd r of
         Some (_, len) \<Rightarrow> Some (Inr (fill_file_stat len))
       | None \<Rightarrow> do {
           d \<leftarrow> is_dir (m_fs m) (rel path);
           Some (if d then Inr fill_dir_stat else Inl ENOENT)
         }
     }"

definition spanfs_vfs_access :: "bytes \<Rightarrow> u32 \<Rightarrow> mount \<Rightarrow> (errno + nat) option" where
  "spanfs_vfs_access path amode m =
     (if amode AND W_OK \<noteq> 0 then Some (Inl EROFS)
      else do {
        r \<leftarrow> spanfs_lookup (Some (m_fs m)) (Some (rel path));
        if snd r \<noteq> None then Some (Inr 0)
        else do {
          d \<leftarrow> is_dir (m_fs m) (rel path);
          Some (if d then Inr 0 else Inl ENOENT)
        }
      })"

subsection \<open>Directories\<close>

definition clear_dir :: sdir where
  "clear_dir = \<lparr>d_used = False, d_prefix = [], d_plen = 0, d_cursor = 0, d_last = [], d_loc = 0, d_de = None\<rparr>"

text \<open>\<open>snprintf(d->prefix, sizeof(d->prefix), "%s/", r)\<close>.\<close>

definition dir_prefix :: "bytes \<Rightarrow> bytes" where
  "dir_prefix r = (if r = [] then [] else take (SPANFS_NAME_MAX - 1) (r @ [SLASH]))"

definition spanfs_vfs_opendir :: "bytes \<Rightarrow> mount \<Rightarrow> ((errno + nat) \<times> mount) option" where
  "spanfs_vfs_opendir name m =
     do {
       isd \<leftarrow> is_dir (m_fs m) (rel name);
       if \<not> isd then Some (Inl ENOENT, m)
       else (case find (\<lambda>i. \<not> d_used (m_dirs m ! i)) [0..<SPANFS_MAX_DIR] of
               None \<Rightarrow> Some (Inl ENFILE, m)
             | Some i \<Rightarrow>
                 Some (Inr i, m\<lparr>m_dirs := (m_dirs m)[i := clear_dir\<lparr>d_used := True,
                     d_prefix := dir_prefix (rel name), d_plen := length (dir_prefix (rel name))\<rparr>]\<rparr>))
     }"

text \<open>The name of the child: what follows the prefix up to a slash, cut to the buffers.\<close>

definition child_name :: "bytes \<Rightarrow> bytes" where
  "child_name rest =
     (let nlen0 = length (takeWhile (\<lambda>c. c \<noteq> SLASH) rest);
          nlen1 = (if nlen0 \<ge> DIRENT_NAME then DIRENT_NAME - 1 else nlen0);
          nlen = (if nlen1 \<ge> SPANFS_NAME_MAX then SPANFS_NAME_MAX - 1 else nlen1)
      in take nlen rest)"

text \<open>What the body of the loop does with the path of one entry.\<close>

datatype dir_step = DirSkip | DirStop | DirEmit dirent

definition dirStep :: "sdir \<Rightarrow> bytes \<Rightarrow> dir_step" where
  "dirStep d p =
     (if d_plen d \<noteq> 0 \<and> take (d_plen d) p \<noteq> d_prefix d
      then (if strcmp p (d_prefix d) > 0 then DirStop else DirSkip)
      else let rest = drop (d_plen d) p
      in if rest = [] then DirSkip
      else let slash = (SLASH \<in> set rest); name = child_name rest
      in if slash \<and> name = d_last d then DirSkip
      else DirEmit \<lparr>d_isdir = slash, d_name = name\<rparr>)"

definition dirEmit :: "dirent \<Rightarrow> sdir \<Rightarrow> sdir" where
  "dirEmit de d = d\<lparr>d_last := (if d_isdir de then d_name de else []), d_de := Some de,
     d_cursor := Suc (d_cursor d), d_loc := Suc (d_loc d)\<rparr>"

function readdirLoop :: "spanfs \<Rightarrow> sdir \<Rightarrow> (dirent option \<times> sdir) option" where
  "readdirLoop fs d =
     (if d_cursor d < unat (spanfs_count (Some fs))
      then (case spanfs_entry_at (Some fs) (d_cursor d) of
              Some (_, Some (p, _, _)) \<Rightarrow>
                (case dirStep d p of
                   DirSkip \<Rightarrow> readdirLoop fs (d\<lparr>d_cursor := Suc (d_cursor d)\<rparr>)
                 | DirStop \<Rightarrow> Some (None, d)
                 | DirEmit de \<Rightarrow> Some (Some de, dirEmit de d))
            | _ \<Rightarrow> None)
      else Some (None, d))"
  by pat_completeness auto
termination by (relation "measure (\<lambda>(fs, d). unat (spanfs_count (Some fs)) - d_cursor d)") auto

declare readdirLoop.simps [simp del]

definition spanfs_vfs_readdir :: "nat \<Rightarrow> mount \<Rightarrow> (dirent option \<times> mount) option" where
  "spanfs_vfs_readdir i m =
     (if i < length (m_dirs m)
      then map_option (\<lambda>(r, d). (r, m\<lparr>m_dirs := (m_dirs m)[i := d]\<rparr>)) (readdirLoop (m_fs m) (m_dirs m ! i))
      else None)"

definition spanfs_vfs_telldir :: "nat \<Rightarrow> mount \<Rightarrow> nat option" where
  "spanfs_vfs_telldir i m = (if i < length (m_dirs m) then Some (d_loc (m_dirs m ! i)) else None)"

lemma readdirLoop_cursor:
  "readdirLoop fs d = Some (Some de, d') \<Longrightarrow> d_cursor d < d_cursor d' \<and> d_cursor d' \<le> unat (spanfs_count (Some fs))"
proof (induction fs d rule: readdirLoop.induct)
  case (1 fs d)
  have lt: "d_cursor d < unat (spanfs_count (Some fs))"
    using "1.prems" by (subst (asm) readdirLoop.simps) (simp split: if_splits)
  obtain e p x y where e: "spanfs_entry_at (Some fs) (d_cursor d) = Some (e, Some (p, x, y))"
    using "1.prems" lt by (subst (asm) readdirLoop.simps) (auto split: option.splits)
  show ?case
  proof (cases "dirStep d p")
    case DirSkip
    then have "readdirLoop fs (d\<lparr>d_cursor := Suc (d_cursor d)\<rparr>) = Some (Some de, d')"
      using "1.prems" lt e by (subst (asm) readdirLoop.simps) simp
    from "1.IH" [OF lt e refl refl refl refl DirSkip this] show ?thesis by simp
  qed (use "1.prems" lt e in \<open>subst (asm) readdirLoop.simps, auto simp: dirEmit_def\<close>)+
qed

function seekLoop :: "spanfs \<Rightarrow> int \<Rightarrow> sdir \<Rightarrow> sdir option" where
  "seekLoop fs offset d =
     (if int (d_loc d) < offset
      then (case readdirLoop fs d of
              None \<Rightarrow> None
            | Some (None, d') \<Rightarrow> Some d'
            | Some (Some de, d') \<Rightarrow> seekLoop fs offset d')
      else Some d)"
  by pat_completeness auto
termination
  by (relation "measure (\<lambda>(fs, _, d). unat (spanfs_count (Some fs)) - d_cursor d)") (auto dest: readdirLoop_cursor)

declare seekLoop.simps [simp del]

definition spanfs_vfs_seekdir :: "nat \<Rightarrow> int \<Rightarrow> mount \<Rightarrow> mount option" where
  "spanfs_vfs_seekdir i offset m =
     (if i < length (m_dirs m)
      then map_option (\<lambda>d. m\<lparr>m_dirs := (m_dirs m)[i := d]\<rparr>)
             (seekLoop (m_fs m) offset ((m_dirs m ! i)\<lparr>d_cursor := 0, d_loc := 0, d_last := []\<rparr>))
      else None)"

definition spanfs_vfs_closedir :: "nat \<Rightarrow> mount \<Rightarrow> mount option" where
  "spanfs_vfs_closedir i m =
     (if i < length (m_dirs m)
      then Some (m\<lparr>m_dirs := (m_dirs m)[i := (m_dirs m ! i)\<lparr>d_used := False\<rparr>]\<rparr>) else None)"

subsection \<open>Mounts\<close>

definition ESP_VFS_PATH_MAX :: nat where "ESP_VFS_PATH_MAX = 15"

definition clear_fd :: sfd where
  "clear_fd = \<lparr>f_used = False, f_data = 0, f_len = 0, f_pos = 0\<rparr>"

definition mount_of :: "spanfs \<Rightarrow> bytes \<Rightarrow> mount" where
  "mount_of fs mountpoint = \<lparr>m_used = True, m_fs = fs, m_base = take ESP_VFS_PATH_MAX mountpoint,
     m_fds = replicate SPANFS_MAX_FD clear_fd, m_dirs = replicate SPANFS_MAX_DIR clear_dir\<rparr>"

text \<open>\<open>reg\<close> and \<open>unreg\<close> are what the VFS layer of ESP-IDF answers.\<close>

definition spanfs_vfs_register
  :: "esp_err \<Rightarrow> spanfs option \<Rightarrow> bytes option \<Rightarrow> mount list \<Rightarrow> esp_err \<times> mount list" where
  "spanfs_vfs_register reg fs mountpoint ms =
     (case (fs, mountpoint) of
        (Some f, Some mp) \<Rightarrow>
          (case find (\<lambda>i. \<not> m_used (ms ! i)) [0..<SPANFS_MAX_MOUNTS] of
             None \<Rightarrow> (ESP_ERR_NO_MEM, ms)
           | Some i \<Rightarrow> (reg, ms[i := (mount_of f mp)\<lparr>m_used := (reg = ESP_OK)\<rparr>]))
      | _ \<Rightarrow> (ESP_ERR_INVALID_ARG, ms))"

definition spanfs_vfs_unregister
  :: "esp_err \<Rightarrow> bytes option \<Rightarrow> mount list \<Rightarrow> esp_err \<times> mount list" where
  "spanfs_vfs_unregister unreg mountpoint ms =
     (case mountpoint of
        None \<Rightarrow> (ESP_ERR_INVALID_ARG, ms)
      | Some mp \<Rightarrow>
          (case find (\<lambda>i. m_used (ms ! i) \<and> m_base (ms ! i) = mp) [0..<SPANFS_MAX_MOUNTS] of
             None \<Rightarrow> (ESP_ERR_NOT_FOUND, ms)
           | Some i \<Rightarrow> (unreg, ms[i := (ms ! i)\<lparr>m_used := False\<rparr>])))"

end
