(* ===== verification/Spanfs_Files.thy ===== *)
theory Spanfs_Files
  imports Spanfs_Pack Spanfs_Vfs
begin

section \<open>The read-only file system: open files against a reference\<close>

text \<open>
  The reference of the file calls: a map from paths to contents, and for each descriptor the
  contents of its file and a position. The mount refines it call by call: the results are equal
  and the abstraction of the new mount is the new reference state.
\<close>

datatype file_call = FOpen bytes u32 | FRead int nat | FSeek int int int | FClose int | FStat int

datatype file_res = RErr errno | RFd nat | RBytes bytes | RPos int | RDone | RStat vfs_stat

definition vfs_file_call :: "file_call \<Rightarrow> mount \<Rightarrow> (file_res \<times> mount) option" where
  "vfs_file_call c m =
     (case c of
        FOpen p fl \<Rightarrow> map_option (\<lambda>(r, m'). (case_sum RErr RFd r, m')) (spanfs_vfs_open p fl m)
      | FRead fd n \<Rightarrow> map_option (\<lambda>(r, m'). (case_sum RErr RBytes r, m')) (spanfs_vfs_read fd n m)
      | FSeek fd off wh \<Rightarrow> map_option (\<lambda>(r, m'). (case_sum RErr RPos r, m')) (spanfs_vfs_lseek fd off wh m)
      | FClose fd \<Rightarrow> (case spanfs_vfs_close fd m of (r, m') \<Rightarrow> Some (case_sum RErr (\<lambda>_. RDone) r, m'))
      | FStat fd \<Rightarrow> Some (case_sum RErr RStat (spanfs_vfs_fstat fd m), m))"

fun vfs_file_calls :: "file_call list \<Rightarrow> mount \<Rightarrow> (file_res list \<times> mount) option" where
  "vfs_file_calls [] m = Some ([], m)"
| "vfs_file_calls (c # cs) m =
     do { (r, m1) \<leftarrow> vfs_file_call c m; (rs, m2) \<leftarrow> vfs_file_calls cs m1; Some (r # rs, m2) }"

subsection \<open>The reference\<close>

type_synonym ref_files = "nat \<Rightarrow> (bytes \<times> nat) option"

definition ref_fd :: "int \<Rightarrow> ref_files \<Rightarrow> (bytes \<times> nat) option" where
  "ref_fd fd F = (if fd < 0 \<or> fd \<ge> 8 then None else F (nat fd))"

definition seek_base :: "int \<Rightarrow> bytes \<times> nat \<Rightarrow> int" where
  "seek_base wh f = (if wh = 0 then 0 else if wh = 1 then int (snd f) else if wh = 2 then int (length (fst f)) else - 1)"

definition ref_call :: "(bytes \<rightharpoonup> bytes) \<Rightarrow> file_call \<Rightarrow> ref_files \<Rightarrow> file_res \<times> ref_files" where
  "ref_call fs c F =
     (case c of
        FOpen p fl \<Rightarrow>
          if fl AND O_ACCMODE \<noteq> O_RDONLY \<or> fl AND (O_CREAT OR O_TRUNC) \<noteq> 0 then (RErr EROFS, F)
          else (case fs (rel p) of
                  None \<Rightarrow> (RErr ENOENT, F)
                | Some data \<Rightarrow> (case find (\<lambda>i. F i = None) [0..<8] of
                    None \<Rightarrow> (RErr ENFILE, F) | Some i \<Rightarrow> (RFd i, F(i \<mapsto> (data, 0)))))
      | FRead fd n \<Rightarrow> (case ref_fd fd F of
            None \<Rightarrow> (RErr EBADF, F)
          | Some (data, pos) \<Rightarrow> let r = take n (drop pos data) in (RBytes r, F(nat fd \<mapsto> (data, pos + length r))))
      | FSeek fd off wh \<Rightarrow> (case ref_fd fd F of
            None \<Rightarrow> (RErr EBADF, F)
          | Some f \<Rightarrow> let np = seek_base wh f + off
              in if seek_base wh f < 0 \<or> np < 0 then (RErr EINVAL, F)
                 else (RPos np, F(nat fd \<mapsto> (fst f, nat np))))
      | FClose fd \<Rightarrow> (case ref_fd fd F of None \<Rightarrow> (RErr EBADF, F) | Some f \<Rightarrow> (RDone, F(nat fd := None)))
      | FStat fd \<Rightarrow> (case ref_fd fd F of
            None \<Rightarrow> (RErr EBADF, F) | Some f \<Rightarrow> (RStat (fill_file_stat (length (fst f))), F)))"

fun ref_calls :: "(bytes \<rightharpoonup> bytes) \<Rightarrow> file_call list \<Rightarrow> ref_files \<Rightarrow> file_res list \<times> ref_files" where
  "ref_calls fs [] F = ([], F)"
| "ref_calls fs (c # cs) F =
     (let (r, F1) = ref_call fs c F; (rs, F2) = ref_calls fs cs F1 in (r # rs, F2))"

text \<open>No seek leaves the range of \<open>off_t\<close>.\<close>

definition seek_fits :: "file_call \<Rightarrow> ref_files \<Rightarrow> bool" where
  "seek_fits c F \<longleftrightarrow> (case c of
      FSeek fd off wh \<Rightarrow> (case ref_fd fd F of None \<Rightarrow> True | Some f \<Rightarrow> seek_base wh f + off \<le> OFF_MAX)
    | _ \<Rightarrow> True)"

fun seeks_fit :: "(bytes \<rightharpoonup> bytes) \<Rightarrow> file_call list \<Rightarrow> ref_files \<Rightarrow> bool" where
  "seeks_fit fs [] F = True"
| "seeks_fit fs (c # cs) F = (seek_fits c F \<and> seeks_fit fs cs (snd (ref_call fs c F)))"

subsection \<open>The refinement\<close>

definition fd_abs :: "bytes \<Rightarrow> sfd \<Rightarrow> (bytes \<times> nat) option" where
  "fd_abs b f = (if f_used f then Some (slice (f_data f) (f_len f) b, unat (f_pos f)) else None)"

definition files_abs :: "mount \<Rightarrow> ref_files" where
  "files_abs m i = (if i < length (m_fds m) then fd_abs (fs_base (m_fs m)) (m_fds m ! i) else None)"

definition fd_inv :: "nat \<Rightarrow> sfd \<Rightarrow> bool" where
  "fd_inv n f \<longleftrightarrow> (f_used f \<longrightarrow> f_data f + f_len f \<le> n \<and> f_len f < 2 ^ 31 \<and> unat (f_pos f) < 2 ^ 31)"

definition mount_ok :: "(bytes \<times> bytes) list \<Rightarrow> mount \<Rightarrow> bool" where
  "mount_ok es m \<longleftrightarrow> fs_holds (m_fs m) es \<and> sorted_wrt path_lt (map fst es) \<and> unat (fs_total_size (m_fs m)) < 2 ^ 31
     \<and> length (m_fds m) = 8 \<and> list_all (fd_inv (length (fs_base (m_fs m)))) (m_fds m)"

lemma fd_ok_abs:
  assumes "length (m_fds m) = 8"
  shows "fd_ok fd m \<longleftrightarrow> ref_fd fd (files_abs m) \<noteq> None"
  using assms by (auto simp: fd_ok_def ref_fd_def files_abs_def fd_abs_def SPANFS_MAX_FD_def)

lemma fd_bad: "mount_ok es m \<Longrightarrow> \<not> fd_ok fd m \<Longrightarrow> ref_fd fd (files_abs m) = None"
  using fd_ok_abs [of m fd] by (simp add: mount_ok_def del: not_None_eq)

lemma ref_fd_used:
  assumes "mount_ok es m" "fd_ok fd m"
  shows "nat fd < length (m_fds m)" "f_used (m_fds m ! nat fd)" "fd_inv (length (fs_base (m_fs m))) (m_fds m ! nat fd)"
    "ref_fd fd (files_abs m) = Some (slice (f_data (m_fds m ! nat fd)) (f_len (m_fds m ! nat fd)) (fs_base (m_fs m)), unat (f_pos (m_fds m ! nat fd)))"
  using assms by (auto simp: mount_ok_def fd_ok_def SPANFS_MAX_FD_def list_all_length ref_fd_def files_abs_def fd_abs_def)

lemma files_abs_upd:
  "i < length (m_fds m) \<Longrightarrow> files_abs (m\<lparr>m_fds := (m_fds m)[i := f]\<rparr>) = (files_abs m)(i := fd_abs (fs_base (m_fs m)) f)"
  by (auto simp: files_abs_def fun_eq_iff nth_list_update)

lemma mount_ok_upd:
  "mount_ok es m \<Longrightarrow> fd_inv (length (fs_base (m_fs m))) f \<Longrightarrow> mount_ok es (m\<lparr>m_fds := (m_fds m)[i := f]\<rparr>)"
  by (auto simp: mount_ok_def list_all_iff dest!: subsetD [OF set_update_subset_insert])

lemma sint_small:
  assumes "unat (w :: u32) < 2 ^ 31"
  shows "sint w = int (unat w)"
proof -
  have "int (unat w) < int (2 ^ 31)" using assms by (simp only: of_nat_less_iff)
  then have "uint w < 2 ^ 31" by simp
  then have "signed_take_bit 31 (uint w) = uint w"
    by (intro signed_take_bit_int_eq_self) (use uint_ge_0 [of w] in linarith)+
  moreover have "sint w = signed_take_bit 31 (uint w)" by (simp add: sint_uint)
  ultimately show ?thesis by (simp only: uint_nat)
qed

lemma slice_slice: "k + n \<le> m \<Longrightarrow> slice (a + k) n b = take n (drop k (slice a m b))"
  by (simp add: slice_def drop_take add.commute min_def)

lemma length_slice_in: "a + l \<le> length b \<Longrightarrow> length (slice a l b) = l"
  by (simp add: len_simps)

lemma img_copy_in: "p + n \<le> length b \<Longrightarrow> img_copy b (int p) n = Some (slice p n b)"
  by (simp add: img_copy_def)

lemma open_refines:
  assumes m: "mount_ok es m"
  shows "\<exists>m'. vfs_file_call (FOpen p fl) m = Some (fst (ref_call (map_of es) (FOpen p fl) (files_abs m)), m')
    \<and> files_abs m' = snd (ref_call (map_of es) (FOpen p fl) (files_abs m)) \<and> mount_ok es m' \<and> m_fs m' = m_fs m"
proof (cases "fl AND O_ACCMODE \<noteq> O_RDONLY \<or> fl AND (O_CREAT OR O_TRUNC) \<noteq> 0")
  case True
  then show ?thesis using m by (simp add: vfs_file_call_def spanfs_vfs_open_def ref_call_def)
next
  case False
  have h: "fs_holds (m_fs m) es" "sorted_wrt path_lt (map fst es)" and len: "length (m_fds m) = 8"
    using m by (auto simp: mount_ok_def)
  have idem: "dropWhile (\<lambda>c. c = SLASH) (rel p) = rel p" by (simp add: rel_def)
  have free: "sfd_alloc m = find (\<lambda>i. files_abs m i = None) [0..<8]"
    using len by (auto simp: sfd_alloc_def files_abs_def fd_abs_def SPANFS_MAX_FD_def intro!: find_cong)
  note look = holds_lookup [OF h, of "rel p", unfolded idem]
  show ?thesis
  proof (cases "map_of es (rel p)")
    case None
    then show ?thesis using look False m by (simp add: vfs_file_call_def spanfs_vfs_open_def ref_call_def)
  next
    case (Some data)
    then obtain d l where dl: "spanfs_lookup (Some (m_fs m)) (Some (rel p)) = Some (ESP_OK, Some (d, l))"
      "slice d l (fs_base (m_fs m)) = data" "d + l \<le> unat (fs_total_size (m_fs m))" using look by auto
    show ?thesis
    proof (cases "sfd_alloc m")
      case None
      then show ?thesis using dl(1) Some False m free by (simp add: vfs_file_call_def spanfs_vfs_open_def ref_call_def)
    next
      case (Some i)
      then have i: "i < length (m_fds m)" using len unfolding sfd_alloc_def find_Some_iff by (auto simp: SPANFS_MAX_FD_def)
      have "unat (fs_total_size (m_fs m)) \<le> length (fs_base (m_fs m))" using h(1) by (simp add: fs_holds_def)
      then have inv: "fd_inv (length (fs_base (m_fs m))) \<lparr>f_used = True, f_data = d, f_len = l, f_pos = 0\<rparr>"
        using dl(3) m by (simp add: fd_inv_def mount_ok_def)
      show ?thesis using dl Some \<open>map_of es (rel p) = Some data\<close> False free mount_ok_upd [OF m inv] i
        by (simp add: vfs_file_call_def spanfs_vfs_open_def ref_call_def files_abs_upd fd_abs_def)
    qed
  qed
qed

lemma read_refines:
  assumes m: "mount_ok es m"
  shows "\<exists>m'. vfs_file_call (FRead fd n) m = Some (fst (ref_call fs (FRead fd n) (files_abs m)), m')
    \<and> files_abs m' = snd (ref_call fs (FRead fd n) (files_abs m)) \<and> mount_ok es m' \<and> m_fs m' = m_fs m"
proof (cases "fd_ok fd m")
  case False
  then have "ref_fd fd (files_abs m) = None" by (rule fd_bad [OF m])
  with False m show ?thesis by (simp add: vfs_file_call_def spanfs_vfs_read_def ref_call_def)
next
  case True
  note u = ref_fd_used [OF m True]
  let ?f = "m_fds m ! nat fd" and ?b = "fs_base (m_fs m)"
  let ?p = "unat (f_pos ?f)" and ?data = "slice (f_data ?f) (f_len ?f) ?b"
  have inv: "f_data ?f + f_len ?f \<le> length ?b" "f_len ?f < 2 ^ 31" "?p < 2 ^ 31" using u(2,3) by (auto simp: fd_inv_def)
  then have len: "length ?data = f_len ?f" by (simp add: length_slice_in)
  show ?thesis
  proof (cases "?p \<ge> f_len ?f")
    case p: True
    have "drop ?p ?data = []" using p len by simp
    moreover have "(files_abs m)(nat fd \<mapsto> (?data, ?p)) = files_abs m"
      using u(1,2) by (auto simp: files_abs_def fd_abs_def fun_eq_iff)
    ultimately show ?thesis using p True u(4) m by (simp add: vfs_file_call_def spanfs_vfs_read_def ref_call_def)
  next
    case p: False
    define k where "k = (if n < f_len ?f - ?p then n else f_len ?f - ?p)"
    have k: "?p + k \<le> f_len ?f" "k = min n (f_len ?f - ?p)" using p by (auto simp: k_def)
    have "sint (f_pos ?f) = int ?p" using sint_small inv(3) by blast
    then have at: "int (f_data ?f) + sint (f_pos ?f) = int (f_data ?f + ?p)" by (simp only: of_nat_add)
    have copy: "img_copy ?b (int (f_data ?f + ?p)) k = Some (slice (f_data ?f + ?p) k ?b)"
      using inv(1) k(1) by (intro img_copy_in) linarith
    have res: "slice (f_data ?f + ?p) k ?b = take n (drop ?p ?data)"
    proof -
      have "take (min n (length xs)) xs = take n xs" for xs :: bytes by (simp add: min_def)
      from this [of "drop ?p ?data"] have "take k (drop ?p ?data) = take n (drop ?p ?data)"
        by (simp only: k(2) length_drop len)
      then show ?thesis using slice_slice [OF k(1), of "f_data ?f" ?b] by (simp only:)
    qed
    have lres: "length (take n (drop ?p ?data)) = k" using len k(2) by (simp add: min.commute)
    have pos: "unat (f_pos ?f + of_nat k) = ?p + k" using k(1) inv(2) by (simp add: unat_word_ariths unat_of_nat)
    have "fd_inv (length ?b) (?f\<lparr>f_pos := f_pos ?f + of_nat k\<rparr>)"
      using inv k(1) u(2) pos by (simp add: fd_inv_def)
    from mount_ok_upd [OF m this] show ?thesis using p True u(1,2,4) copy res lres pos
      by (simp add: vfs_file_call_def spanfs_vfs_read_def ref_call_def Let_def files_abs_upd fd_abs_def at k_def [symmetric]
          del: of_nat_add)
  qed
qed

lemma seek_refines:
  assumes m: "mount_ok es m" and fits: "seek_fits (FSeek fd off wh) (files_abs m)"
  shows "\<exists>m'. vfs_file_call (FSeek fd off wh) m = Some (fst (ref_call fs (FSeek fd off wh) (files_abs m)), m')
    \<and> files_abs m' = snd (ref_call fs (FSeek fd off wh) (files_abs m)) \<and> mount_ok es m' \<and> m_fs m' = m_fs m"
proof (cases "fd_ok fd m")
  case False
  then have "ref_fd fd (files_abs m) = None" by (rule fd_bad [OF m])
  with False m show ?thesis by (simp add: vfs_file_call_def spanfs_vfs_lseek_def ref_call_def)
next
  case True
  note u = ref_fd_used [OF m True]
  let ?f = "m_fds m ! nat fd" and ?b = "fs_base (m_fs m)"
  let ?data = "slice (f_data ?f) (f_len ?f) ?b" and ?p = "unat (f_pos ?f)"
  have inv: "f_data ?f + f_len ?f \<le> length ?b" "f_len ?f < 2 ^ 31" "?p < 2 ^ 31" using u(2,3) by (auto simp: fd_inv_def)
  then have len: "length ?data = f_len ?f" by (simp add: length_slice_in)
  have fl: "sint (of_nat (f_len ?f) :: u32) = int (f_len ?f)"
    using sint_small [of "of_nat (f_len ?f)"] inv(2) by (simp add: unat_of_nat)
  have base: "(if wh = 0 then 0 else if wh = 1 then sint (f_pos ?f) else if wh = 2 then sint (of_nat (f_len ?f) :: u32) else - 1)
      = seek_base wh (?data, ?p)"
    using sint_small [OF inv(3)] len fl by (simp add: seek_base_def)
  define B where "B = seek_base wh (?data, ?p)"
  define np where "np = B + off"
  have fd: "ref_fd fd (files_abs m) = Some (?data, ?p)" by (rule u(4))
  have le: "\<not> OFF_MAX < np" using fits fd by (simp add: seek_fits_def np_def B_def not_less)
  have vfs: "vfs_file_call (FSeek fd off wh) m
      = (if B < 0 \<or> np < 0 then Some (RErr EINVAL, m)
         else Some (RPos np, m\<lparr>m_fds := (m_fds m)[nat fd := ?f\<lparr>f_pos := of_int np\<rparr>]\<rparr>))"
    unfolding vfs_file_call_def file_call.case spanfs_vfs_lseek_def Let_def base B_def [symmetric] np_def [symmetric]
    using True le by simp
  have ref: "ref_call fs (FSeek fd off wh) (files_abs m)
      = (if B < 0 \<or> np < 0 then (RErr EINVAL, files_abs m) else (RPos np, (files_abs m)(nat fd \<mapsto> (?data, nat np))))"
    unfolding ref_call_def file_call.case fd option.case Let_def B_def [symmetric] np_def [symmetric] by simp
  show ?thesis
  proof (cases "B < 0 \<or> np < 0")
    case neg: True
    show ?thesis unfolding vfs ref if_P [OF neg] using m by simp
  next
    case pos: False
    have w: "unat (of_int np :: u32) = nat np"
    proof -
      have "of_int np = (of_nat (nat np) :: u32)" using pos by simp
      moreover have "nat np < 2 ^ LENGTH(32)" using pos le by (simp add: OFF_MAX_def nat_less_iff)
      ultimately show ?thesis by (simp only: unat_of_nat mod_less)
    qed
    have "nat np < 2 ^ 31" using pos le by (simp add: OFF_MAX_def nat_less_iff)
    then have "fd_inv (length ?b) (?f\<lparr>f_pos := of_int np\<rparr>)" using inv u(2) by (simp add: fd_inv_def w)
    from mount_ok_upd [OF m this] show ?thesis unfolding vfs ref if_not_P [OF pos]
      using u(1,2) by (simp add: files_abs_upd fd_abs_def w)
  qed
qed

lemma call_refines:
  assumes m: "mount_ok es m" and fits: "seek_fits c (files_abs m)"
  shows "\<exists>m'. vfs_file_call c m = Some (fst (ref_call (map_of es) c (files_abs m)), m')
    \<and> files_abs m' = snd (ref_call (map_of es) c (files_abs m)) \<and> mount_ok es m' \<and> m_fs m' = m_fs m"
proof (cases c)
  case (FClose fd)
  show ?thesis
  proof (cases "fd_ok fd m")
    case False
    then have "ref_fd fd (files_abs m) = None" by (rule fd_bad [OF m])
    with False m FClose show ?thesis by (simp add: vfs_file_call_def spanfs_vfs_close_def ref_call_def)
  next
    case True
    note u = ref_fd_used [OF m True]
    have "fd_inv (length (fs_base (m_fs m))) ((m_fds m ! nat fd)\<lparr>f_used := False\<rparr>)" by (simp add: fd_inv_def)
    from mount_ok_upd [OF m this] show ?thesis
      using True u FClose by (simp add: vfs_file_call_def spanfs_vfs_close_def ref_call_def files_abs_upd fd_abs_def)
  qed
next
  case (FStat fd)
  show ?thesis
  proof (cases "fd_ok fd m")
    case False
    then have "ref_fd fd (files_abs m) = None" by (rule fd_bad [OF m])
    with False m FStat show ?thesis by (simp add: vfs_file_call_def spanfs_vfs_fstat_def ref_call_def)
  next
    case True
    note u = ref_fd_used [OF m True]
    have "length (slice (f_data (m_fds m ! nat fd)) (f_len (m_fds m ! nat fd)) (fs_base (m_fs m))) = f_len (m_fds m ! nat fd)"
      using u(2,3) by (intro length_slice_in) (simp add: fd_inv_def)
    then show ?thesis using True u(4) m FStat by (simp add: vfs_file_call_def spanfs_vfs_fstat_def ref_call_def)
  qed
qed (use open_refines [OF m] read_refines [OF m] seek_refines [OF m] fits in blast)+

lemma calls_refine:
  "mount_ok es m \<Longrightarrow> seeks_fit (map_of es) cs (files_abs m) \<Longrightarrow>
     \<exists>m'. vfs_file_calls cs m = Some (fst (ref_calls (map_of es) cs (files_abs m)), m') \<and> mount_ok es m'
       \<and> files_abs m' = snd (ref_calls (map_of es) cs (files_abs m))"
proof (induction cs arbitrary: m)
  case (Cons c cs)
  then obtain m1 where m1: "vfs_file_call c m = Some (fst (ref_call (map_of es) c (files_abs m)), m1)"
    "files_abs m1 = snd (ref_call (map_of es) c (files_abs m))" "mount_ok es m1"
    using call_refines [OF Cons.prems(1)] by auto
  from Cons.IH [OF m1(3)] Cons.prems(2) obtain m2 where
    "vfs_file_calls cs m1 = Some (fst (ref_calls (map_of es) cs (files_abs m1)), m2)" "mount_ok es m2"
    "files_abs m2 = snd (ref_calls (map_of es) cs (files_abs m1))" by (auto simp: m1(2))
  then show ?case using m1 by (auto simp: m1(2) split: prod.splits)
qed simp

lemma mount_of_ok:
  assumes "fs_holds fs es" "sorted_wrt path_lt (map fst es)" "unat (fs_total_size fs) < 2 ^ 31"
  shows "mount_ok es (mount_of fs mp)" "files_abs (mount_of fs mp) = (\<lambda>_. None)"
  using assms by (auto simp: mount_ok_def mount_of_def clear_fd_def fd_inv_def files_abs_def fd_abs_def fun_eq_iff
      SPANFS_MAX_FD_def list_all_iff)

end
