(* ===== verification/Spanfs_List.thy ===== *)
theory Spanfs_List
  imports Spanfs_Pack Spanfs_Vfs
begin

section \<open>The read-only file system: listings\<close>

text \<open>
  The directories are implicit in the paths. Reading a directory to its end gives each file and
  each subdirectory under it once, although the entries of a subdirectory are many: they stand
  together in the sorted index. \<open>listLoop\<close> is the loop every reader of a directory runs.
\<close>

function listLoop :: "spanfs \<Rightarrow> sdir \<Rightarrow> (dirent list \<times> sdir) option" where
  "listLoop fs d =
     (case readdirLoop fs d of
        None \<Rightarrow> None
      | Some (None, d') \<Rightarrow> Some ([], d')
      | Some (Some de, d') \<Rightarrow> map_option (apfst (Cons de)) (listLoop fs d'))"
  by pat_completeness auto
termination
  by (relation "measure (\<lambda>(fs, d). unat (spanfs_count (Some fs)) - d_cursor d)") (auto dest: readdirLoop_cursor)

declare listLoop.simps [simp del]

subsection \<open>The walk over the paths\<close>

fun walk :: "sdir \<Rightarrow> bytes list \<Rightarrow> dirent list" where
  "walk d [] = []"
| "walk d (p # ps) =
     (case dirStep d p of
        DirSkip \<Rightarrow> walk d ps
      | DirStop \<Rightarrow> []
      | DirEmit de \<Rightarrow> de # walk (d\<lparr>d_last := (if d_isdir de then d_name de else [])\<rparr>) ps)"

lemma dirStep_cong:
  "d_prefix d = d_prefix d' \<Longrightarrow> d_plen d = d_plen d' \<Longrightarrow> d_last d = d_last d' \<Longrightarrow> dirStep d p = dirStep d' p"
  unfolding dirStep_def by (simp only:)

lemma walk_cong:
  "d_prefix d = d_prefix d' \<Longrightarrow> d_plen d = d_plen d' \<Longrightarrow> d_last d = d_last d' \<Longrightarrow> walk d ps = walk d' ps"
proof (induction ps arbitrary: d d')
  case (Cons p ps)
  note c = dirStep_cong [OF Cons.prems, of p]
  show ?case
  proof (cases "dirStep d' p")
    case (DirEmit de)
    have "walk (d\<lparr>d_last := x\<rparr>) ps = walk (d'\<lparr>d_last := x\<rparr>) ps" for x
      by (rule Cons.IH) (use Cons.prems in simp_all)
    then show ?thesis using c DirEmit by simp
  qed (use c Cons.IH [OF Cons.prems] in simp_all)
qed simp

lemma entry_at_holds:
  assumes "fs_holds fs es" "i < length es"
  shows "\<exists>x y. spanfs_entry_at (Some fs) i = Some (ESP_OK, Some (fst (es ! i), x, y))"
  using assms fs_holds_path [OF assms] by (auto simp: spanfs_entry_at_def fs_holds_def intro: fs_holds_data [OF assms])

lemma readdirLoop_walk:
  assumes "fs_holds fs es"
  shows "\<exists>r d'. readdirLoop fs d = Some (r, d') \<and>
    (case r of None \<Rightarrow> walk d (map fst (drop (d_cursor d) es)) = []
     | Some de \<Rightarrow> walk d (map fst (drop (d_cursor d) es)) = de # walk d' (map fst (drop (d_cursor d') es)))"
  using assms
proof (induction fs d rule: readdirLoop.induct)
  case (1 fs d)
  have n: "unat (spanfs_count (Some fs)) = length es" using "1.prems" by (simp add: spanfs_count_def fs_holds_def)
  show ?case
  proof (cases "d_cursor d < length es")
    case False
    then show ?thesis by (subst readdirLoop.simps) (simp add: n)
  next
    case True
    obtain x y where e: "spanfs_entry_at (Some fs) (d_cursor d) = Some (ESP_OK, Some (fst (es ! d_cursor d), x, y))"
      using entry_at_holds [OF "1.prems" True] by blast
    have w: "map fst (drop (d_cursor d) es) = fst (es ! d_cursor d) # map fst (drop (Suc (d_cursor d)) es)"
      using True by (metis Cons_nth_drop_Suc list.simps(9))
    have lt: "d_cursor d < unat (spanfs_count (Some fs))" using True n by simp
    show ?thesis
    proof (cases "dirStep d (fst (es ! d_cursor d))")
      case DirSkip
      let ?d = "d\<lparr>d_cursor := Suc (d_cursor d)\<rparr>"
      have "walk ?d ps = walk d ps" for ps by (rule walk_cong) simp_all
      then have eq: "walk d (map fst (drop (d_cursor d) es)) = walk ?d (map fst (drop (d_cursor ?d) es))"
        unfolding w by (simp add: DirSkip)
      have "readdirLoop fs d = readdirLoop fs ?d" by (subst readdirLoop.simps) (simp add: lt e DirSkip)
      then show ?thesis using "1.IH" [OF lt e refl refl refl refl DirSkip "1.prems"] unfolding eq by (simp only:)
    next
      case DirStop
      then show ?thesis by (subst readdirLoop.simps) (simp add: lt e w)
    next
      case (DirEmit de)
      have "walk (dirEmit de d) ps = walk (d\<lparr>d_last := (if d_isdir de then d_name de else [])\<rparr>) ps" for ps
        by (rule walk_cong) (simp_all add: dirEmit_def)
      moreover have "d_cursor (dirEmit de d) = Suc (d_cursor d)" by (simp add: dirEmit_def)
      ultimately show ?thesis using DirEmit by (subst readdirLoop.simps) (simp add: lt e w)
    qed
  qed
qed

lemma listLoop_walk:
  assumes "fs_holds fs es"
  shows "\<exists>d'. listLoop fs d = Some (walk d (map fst (drop (d_cursor d) es)), d')"
  using assms
proof (induction fs d rule: listLoop.induct)
  case (1 fs d)
  from readdirLoop_walk [OF "1.prems", of d] obtain r d' where r: "readdirLoop fs d = Some (r, d')"
    "case r of None \<Rightarrow> walk d (map fst (drop (d_cursor d) es)) = []
     | Some de \<Rightarrow> walk d (map fst (drop (d_cursor d) es)) = de # walk d' (map fst (drop (d_cursor d') es))" by blast
  show ?case
  proof (cases r)
    case None
    then show ?thesis using r by (subst listLoop.simps) simp
  next
    case (Some de)
    from "1.IH" [OF r(1) [unfolded Some] refl refl "1.prems"] obtain d'' where
      "listLoop fs d' = Some (walk d' (map fst (drop (d_cursor d') es)), d'')" by blast
    then show ?thesis using r Some by (subst listLoop.simps) simp
  qed
qed

subsection \<open>The order and the prefixes\<close>

lemma strcmp_same_prefix [simp]: "strcmp (u @ x) (u @ y) = strcmp x y"
  by (induction u) auto

lemma path_lt_Cons [simp]: "path_lt (x # xs) (y # ys) \<longleftrightarrow> x < y \<or> x = y \<and> path_lt xs ys"
  by auto

declare strcmp.simps(4) [simp del]

lemma past_prefix:
  "strcmp p u > 0 \<Longrightarrow> take (length u) p \<noteq> u \<Longrightarrow> path_lt p q \<Longrightarrow> take (length u) q \<noteq> u"
proof (induction p u arbitrary: q rule: strcmp.induct)
  case (4 x xs y ys)
  have gt: "strcmp (x # xs) (y # ys) > 0 \<longleftrightarrow> y < x \<or> x = y \<and> strcmp xs ys > 0" by (auto simp: strcmp.simps(4))
  show ?case
  proof (cases q)
    case (Cons z zs)
    then show ?thesis using 4 gt by auto
  qed (use 4 in simp)
qed auto

lemma between_prefix:
  "path_lt a b \<Longrightarrow> path_lt b c \<Longrightarrow> take (length u) a = u \<Longrightarrow> take (length u) c = u \<Longrightarrow> take (length u) b = u"
proof (induction u arbitrary: a b c)
  case (Cons x u)
  obtain a' where a: "a = x # a'" "take (length u) a' = u" using Cons.prems(3) by (cases a) auto
  obtain c' where c: "c = x # c'" "take (length u) c' = u" using Cons.prems(4) by (cases c) auto
  show ?case
  proof (cases b)
    case Nil
    then show ?thesis using Cons.prems(1) a(1) by simp
  next
    case b: (Cons y b')
    have "y = x" using Cons.prems(1,2) unfolding a(1) b c(1) path_lt_Cons by auto
    then show ?thesis using Cons.IH [OF _ _ a(2) c(2), of b'] Cons.prems(1,2) unfolding a(1) b c(1) path_lt_Cons by simp
  qed
qed simp

subsection \<open>What a directory holds\<close>

definition kid :: "bytes \<Rightarrow> dirent" where
  "kid r = \<lparr>d_isdir = (SLASH \<in> set r), d_name = takeWhile (\<lambda>c. c \<noteq> SLASH) r\<rparr>"

text \<open>What follows the prefix in the paths that have it.\<close>

definition rests :: "bytes \<Rightarrow> bytes list \<Rightarrow> bytes list" where
  "rests u ps = map (drop (length u)) (filter (\<lambda>p. take (length u) p = u \<and> length u < length p) ps)"

lemma rests_simps [simp]:
  "rests u [] = []"
  "rests u (p # ps) = (if take (length u) p = u \<and> length u < length p then drop (length u) p # rests u ps else rests u ps)"
  by (simp_all add: rests_def)

lemma in_rests: "r \<in> set (rests u ps) \<longleftrightarrow> r \<noteq> [] \<and> u @ r \<in> set ps"
proof
  assume "r \<in> set (rests u ps)"
  then obtain p where "p \<in> set ps" "take (length u) p = u" "length u < length p" "r = drop (length u) p" by (auto simp: rests_def)
  then show "r \<noteq> [] \<and> u @ r \<in> set ps" by (metis append_take_drop_id drop_eq_Nil not_less)
next
  assume r: "r \<noteq> [] \<and> u @ r \<in> set ps"
  then have "u @ r \<in> set (filter (\<lambda>p. take (length u) p = u \<and> length u < length p) ps)" by simp
  moreover have "r = drop (length u) (u @ r)" by simp
  ultimately show "r \<in> set (rests u ps)" unfolding rests_def set_map by (rule rev_image_eqI)
qed

lemma sorted_rests: "sorted_wrt path_lt ps \<Longrightarrow> sorted_wrt path_lt (rests u ps)"
proof (induction ps)
  case (Cons p ps)
  then have IH: "sorted_wrt path_lt (rests u ps)" by simp
  show ?case
  proof (cases "take (length u) p = u \<and> length u < length p")
    case True
    then obtain t where t: "p = u @ t" "t \<noteq> []"
      using append_take_drop_id [of "length u" p] that [of "drop (length u) p"] by auto
    have "path_lt t r" if "r \<in> set (rests u ps)" for r
    proof -
      have "path_lt (u @ t) (u @ r)" using Cons.prems that unfolding t(1) in_rests by auto
      then show ?thesis by simp
    qed
    moreover have "rests u (p # ps) = t # rests u ps" using t by simp
    ultimately show ?thesis using IH by simp
  next
    case False
    then show ?thesis unfolding rests_simps if_not_P [OF False] using IH by blast
  qed
qed simp

fun walk0 :: "bytes \<Rightarrow> bytes list \<Rightarrow> dirent list" where
  "walk0 l [] = []"
| "walk0 l (r # rs) =
     (if d_isdir (kid r) \<and> d_name (kid r) = l then walk0 l rs
      else kid r # walk0 (if d_isdir (kid r) then d_name (kid r) else []) rs)"

lemma child_name_short:
  "length (takeWhile (\<lambda>c. c \<noteq> SLASH) r) < 128 \<Longrightarrow> child_name r = takeWhile (\<lambda>c. c \<noteq> SLASH) r"
  by (simp add: child_name_def Let_def DIRENT_NAME_def SPANFS_NAME_MAX_def takeWhile_eq_take [symmetric])

lemma dirStep_under:
  assumes "d_plen d = length u" "d_prefix d = u" "take (length u) p = u" "length u < length p"
    "length (takeWhile (\<lambda>c. c \<noteq> SLASH) (drop (length u) p)) < 128"
  shows "dirStep d p = (let k = kid (drop (length u) p) in if d_isdir k \<and> d_name k = d_last d then DirSkip else DirEmit k)"
  using assms by (simp add: dirStep_def Let_def kid_def child_name_short)

lemma walk_rests:
  "sorted_wrt path_lt ps \<Longrightarrow> d_plen d = length u \<Longrightarrow> d_prefix d = u
    \<Longrightarrow> \<forall>r \<in> set (rests u ps). length (takeWhile (\<lambda>c. c \<noteq> SLASH) r) < 128
    \<Longrightarrow> walk d ps = walk0 (d_last d) (rests u ps)"
proof (induction ps arbitrary: d)
  case (Cons p ps)
  show ?case
  proof (cases "take (length u) p = u \<and> length u < length p")
    case True
    then have step: "dirStep d p = (let k = kid (drop (length u) p) in if d_isdir k \<and> d_name k = d_last d then DirSkip else DirEmit k)"
      using Cons.prems by (intro dirStep_under) auto
    have IH: "walk d' ps = walk0 (d_last d') (rests u ps)" if "d_plen d' = length u" "d_prefix d' = u" for d'
      using Cons.IH [OF _ that] Cons.prems by simp
    show ?thesis using True Cons.prems(2,3) by (simp add: step Let_def IH)
  next
    case False
    have IH: "walk d ps = walk0 (d_last d) (rests u ps)" using Cons by auto
    show ?thesis
    proof (cases "d_plen d \<noteq> 0 \<and> take (d_plen d) p \<noteq> d_prefix d \<and> strcmp p (d_prefix d) > 0")
      case stop: True
      then have "rests u ps = []" using past_prefix [of p u] Cons.prems(1,2,3)
        by (auto simp: rests_def filter_empty_conv)
      then show ?thesis using False stop by (auto simp: dirStep_def)
    next
      case skip: False
      then have "dirStep d p = DirSkip" using False Cons.prems(2,3) by (auto simp: dirStep_def Let_def)
      then show ?thesis using False IH by auto
    qed
  qed
qed simp

text \<open>The entries of a subdirectory stand together.\<close>

lemma kid_dir_prefix: "kid r = \<lparr>d_isdir = True, d_name = nm\<rparr> \<longleftrightarrow> take (Suc (length nm)) r = nm @ [SLASH] \<and> SLASH \<notin> set nm"
proof
  assume k: "kid r = \<lparr>d_isdir = True, d_name = nm\<rparr>"
  then have s: "SLASH \<in> set r" and nm: "takeWhile (\<lambda>c. c \<noteq> SLASH) r = nm" by (auto simp: kid_def)
  obtain t where "dropWhile (\<lambda>c. c \<noteq> SLASH) r = SLASH # t"
    using s by (metis (mono_tags, lifting) dropWhile_eq_Nil_conv hd_dropWhile list.exhaust_sel)
  then have "r = nm @ SLASH # t" using nm takeWhile_dropWhile_id [of "\<lambda>c. c \<noteq> SLASH" r] by simp
  moreover have "SLASH \<notin> set nm" using nm set_takeWhileD by fastforce
  ultimately show "take (Suc (length nm)) r = nm @ [SLASH] \<and> SLASH \<notin> set nm" by simp
next
  assume k: "take (Suc (length nm)) r = nm @ [SLASH] \<and> SLASH \<notin> set nm"
  then obtain t where "r = nm @ SLASH # t"
    by (metis append.assoc append_Cons append_Nil append_take_drop_id)
  with k show "kid r = \<lparr>d_isdir = True, d_name = nm\<rparr>" by (auto simp: kid_def takeWhile_tail takeWhile_append2)
qed

lemma kid_file: "\<not> d_isdir (kid r) \<Longrightarrow> d_name (kid r) = r"
  by (auto simp: kid_def takeWhile_eq_all_conv)

lemma kid_file_in:
  "\<lparr>d_isdir = False, d_name = n\<rparr> \<in> kid ` set (rests u ps) \<longleftrightarrow> n \<noteq> [] \<and> SLASH \<notin> set n \<and> u @ n \<in> set ps"
proof
  assume "\<lparr>d_isdir = False, d_name = n\<rparr> \<in> kid ` set (rests u ps)"
  then obtain r where "r \<in> set (rests u ps)" "kid r = \<lparr>d_isdir = False, d_name = n\<rparr>" by (metis image_iff)
  then show "n \<noteq> [] \<and> SLASH \<notin> set n \<and> u @ n \<in> set ps" using kid_file [of r] by (auto simp: in_rests kid_def)
next
  assume n: "n \<noteq> [] \<and> SLASH \<notin> set n \<and> u @ n \<in> set ps"
  then have "kid n = \<lparr>d_isdir = False, d_name = n\<rparr>" by (auto simp: kid_def takeWhile_eq_all_conv)
  moreover have "n \<in> set (rests u ps)" using n by (simp add: in_rests)
  ultimately show "\<lparr>d_isdir = False, d_name = n\<rparr> \<in> kid ` set (rests u ps)" by (metis image_eqI)
qed

lemma kid_dir_in:
  "\<lparr>d_isdir = True, d_name = n\<rparr> \<in> kid ` set (rests u ps) \<longleftrightarrow> SLASH \<notin> set n \<and> (\<exists>t. u @ n @ SLASH # t \<in> set ps)"
proof
  assume "\<lparr>d_isdir = True, d_name = n\<rparr> \<in> kid ` set (rests u ps)"
  then obtain r where r: "r \<in> set (rests u ps)" "take (Suc (length n)) r = n @ [SLASH]" "SLASH \<notin> set n"
    by (metis image_iff kid_dir_prefix)
  then obtain t where "r = n @ SLASH # t"
    using append_take_drop_id [of "Suc (length n)" r] that [of "drop (Suc (length n)) r"] by simp
  then show "SLASH \<notin> set n \<and> (\<exists>t. u @ n @ SLASH # t \<in> set ps)" using r(1,3) by (auto simp: in_rests)
next
  assume n: "SLASH \<notin> set n \<and> (\<exists>t. u @ n @ SLASH # t \<in> set ps)"
  then obtain t where "n @ SLASH # t \<in> set (rests u ps)" by (auto simp: in_rests)
  moreover have "kid (n @ SLASH # t) = \<lparr>d_isdir = True, d_name = n\<rparr>" using n by (simp add: kid_dir_prefix)
  ultimately show "\<lparr>d_isdir = True, d_name = n\<rparr> \<in> kid ` set (rests u ps)" by (metis image_eqI)
qed

text \<open>The name kept in \<open>last\<close> can only come again at once.\<close>

definition run_ahead :: "bytes \<Rightarrow> bytes list \<Rightarrow> bool" where
  "run_ahead l rs \<longleftrightarrow> (\<forall>i < length rs. kid (rs ! i) = \<lparr>d_isdir = True, d_name = l\<rparr> \<longrightarrow>
     (\<forall>j < i. kid (rs ! j) = \<lparr>d_isdir = True, d_name = l\<rparr>))"

lemma run_ahead_tl: "run_ahead l (r # rs) \<Longrightarrow> run_ahead l rs"
  unfolding run_ahead_def by (metis Suc_less_eq length_Cons nth_Cons_Suc)

lemma run_ahead_next:
  assumes "sorted_wrt path_lt (r # rs)" "kid r = \<lparr>d_isdir = True, d_name = nm\<rparr>"
  shows "run_ahead nm rs"
  unfolding run_ahead_def
proof (intro allI impI)
  fix i j assume i: "i < length rs" "kid (rs ! i) = \<lparr>d_isdir = True, d_name = nm\<rparr>" and j: "j < i"
  have "path_lt r (rs ! j)" "path_lt (rs ! j) (rs ! i)"
    using assms(1) i(1) j sorted_wrt_nth_less [of path_lt rs j i] by auto
  from between_prefix [OF this, of "nm @ [SLASH]"] show "kid (rs ! j) = \<lparr>d_isdir = True, d_name = nm\<rparr>"
    using assms(2) i(2) by (simp add: kid_dir_prefix)
qed

lemma walk0_correct:
  assumes "sorted_wrt path_lt rs" "\<forall>r \<in> set rs. d_name (kid r) \<noteq> []" "run_ahead l rs"
  shows "distinct (walk0 l rs) \<and> set (walk0 l rs) = kid ` set rs - {\<lparr>d_isdir = True, d_name = l\<rparr>}"
  using assms
proof (induction l rs rule: walk0.induct)
  case (2 l r rs)
  have rs: "sorted_wrt path_lt rs" "\<forall>r \<in> set rs. d_name (kid r) \<noteq> []" using "2.prems" by auto
  show ?case
  proof (cases "d_isdir (kid r) \<and> d_name (kid r) = l")
    case True
    then have "kid r = \<lparr>d_isdir = True, d_name = l\<rparr>" by (cases "kid r") simp
    then show ?thesis using "2.IH"(1) [OF True rs run_ahead_tl [OF "2.prems"(3)]] True by auto
  next
    case False
    let ?l = "if d_isdir (kid r) then d_name (kid r) else []"
    have ra: "run_ahead ?l rs"
    proof (cases "d_isdir (kid r)")
      case True
      then have "kid r = \<lparr>d_isdir = True, d_name = d_name (kid r)\<rparr>" by (cases "kid r") simp
      then show ?thesis using run_ahead_next [OF "2.prems"(1)] True by simp
    next
      case False
      then show ?thesis using rs(2) unfolding run_ahead_def by (metis dirent.select_convs(2) nth_mem)
    qed
    note IH = "2.IH"(2) [OF False rs ra]
    have none: "\<lparr>d_isdir = True, d_name = l\<rparr> \<notin> kid ` set (r # rs)"
    proof
      assume "\<lparr>d_isdir = True, d_name = l\<rparr> \<in> kid ` set (r # rs)"
      then obtain i where "i < length (r # rs)" "kid ((r # rs) ! i) = \<lparr>d_isdir = True, d_name = l\<rparr>"
        by (metis (no_types, lifting) image_iff in_set_conv_nth)
      then have "kid r = \<lparr>d_isdir = True, d_name = l\<rparr>" using "2.prems"(3) unfolding run_ahead_def
        by (cases i) (auto, metis length_greater_0_conv list.discI nth_Cons_0 zero_less_Suc length_Cons Suc_less_eq nth_Cons_Suc)
      then show False using False by simp
    qed
    have new: "kid r \<notin> kid ` set rs - {\<lparr>d_isdir = True, d_name = ?l\<rparr>}"
    proof (cases "d_isdir (kid r)")
      case True
      then show ?thesis by (cases "kid r") simp
    next
      case plain: False
      have "r \<notin> set rs" using "2.prems"(1) paths.irrefl by auto
      then show ?thesis using kid_file [OF plain] kid_file by (metis DiffD1 plain image_iff)
    qed
    have "insert (kid r) (kid ` set rs - {\<lparr>d_isdir = True, d_name = ?l\<rparr>}) = kid ` set (r # rs)"
    proof (cases "d_isdir (kid r)")
      case True
      then show ?thesis by (cases "kid r") auto
    next
      case False
      then show ?thesis using rs(2) by force
    qed
    then show ?thesis using IH False new none by auto
  qed
qed simp

end
