(* ===== verification/Spanfs_Props.thy ===== *)
theory Spanfs_Props
  imports Spanfs_Files Spanfs_List
begin

section \<open>The read-only file system: properties\<close>

text \<open>
  What the packer wrote the reader finds; no image makes the reader leave it as long as the index
  it announces is below 4 GB, and one that announces more does; the file calls are those of a
  reference; a directory lists its children once.
\<close>

definition packable :: "(bytes \<times> bytes) list \<Rightarrow> bool" where
  "packable es \<longleftrightarrow> sorted_wrt path_lt (map fst es) \<and> (\<forall>e \<in> set es. 0 \<notin> set (fst e))"

text \<open>
  C7. The image \<open>mkspanfs.py\<close> packs from a sorted list of files, with whatever the partition holds
  after it, opens, and a lookup of any path, with or without leading slashes, returns the contents
  of the file of that path, and \<open>ESP_ERR_NOT_FOUND\<close> exactly when there is none.
\<close>

theorem packed_image_reads_back:
  assumes "packable es" "pack_image es = Some img"
  shows "\<exists>fs. spanfs_open_mem True (Some (img @ extra)) True = Some (ESP_OK, Some fs) \<and> spanfs_count (Some fs) = of_nat (length es)
    \<and> (\<forall>path. case map_of es (dropWhile (\<lambda>c. c = SLASH) path) of
          None \<Rightarrow> spanfs_lookup (Some fs) (Some path) = Some (ESP_ERR_NOT_FOUND, None)
        | Some data \<Rightarrow> \<exists>d l. spanfs_lookup (Some fs) (Some path) = Some (ESP_OK, Some (d, l)) \<and> slice d l (img @ extra) = data)"
proof -
  let ?fs = "packed_fs es (img @ extra)"
  have p: "sorted_wrt path_lt (map fst es)" "\<forall>e \<in> set es. 0 \<notin> set (fst e)" using assms(1) by (auto simp: packable_def)
  note o = packed_opens [OF assms(2) p(2), of extra]
  note l = holds_lookup [OF packed_holds [OF assms(2) p(2), of extra] p(1)]
  have b: "fs_base ?fs = img @ extra" "spanfs_count (Some ?fs) = of_nat (length es)" by (simp_all add: packed_fs_def spanfs_count_def)
  have "case map_of es (dropWhile (\<lambda>c. c = SLASH) path) of
          None \<Rightarrow> spanfs_lookup (Some ?fs) (Some path) = Some (ESP_ERR_NOT_FOUND, None)
        | Some data \<Rightarrow> \<exists>d l. spanfs_lookup (Some ?fs) (Some path) = Some (ESP_OK, Some (d, l)) \<and> slice d l (img @ extra) = data" for path
    using l [of path] by (auto simp: b split: option.splits)
  with o b(2) show ?thesis by blast
qed

definition demo_files :: "(bytes \<times> bytes) list" where
  "demo_files = [(bytes_of ''a/x'', [1, 2, 3]), (bytes_of ''a/y'', []), (bytes_of ''b'', [7])]"

lemma demo_packable: "packable demo_files"
  by (simp add: packable_def demo_files_def strcmp.simps)

lemma demo_packs: "\<exists>img. pack_image demo_files = Some img"
  by (simp add: pack_image_def demo_files_def path_blob_def pack_entry_def pack_u32_def Let_def align_up_def
      SPANFS_HEADER_SZ_def SPANFS_ENTRY_SZ_def SPANFS_DATA_ALIGN_def)

lemma demo_keys:
  "map_of demo_files (dropWhile (\<lambda>c. c = SLASH) (bytes_of ''/b'')) = Some [7]"
  "map_of demo_files (dropWhile (\<lambda>c. c = SLASH) (bytes_of ''a'')) = None"
  by (simp_all add: demo_files_def SLASH_def)

theorem packed_image_reads_back_witness:
  "\<exists>img fs d l. pack_image demo_files = Some img \<and> spanfs_open_mem True (Some (img @ [0xFF])) True = Some (ESP_OK, Some fs)
    \<and> spanfs_lookup (Some fs) (Some (bytes_of ''/b'')) = Some (ESP_OK, Some (d, l)) \<and> slice d l (img @ [0xFF]) = [7]
    \<and> spanfs_lookup (Some fs) (Some (bytes_of ''a'')) = Some (ESP_ERR_NOT_FOUND, None)"
proof -
  obtain img where img: "pack_image demo_files = Some img" using demo_packs by blast
  from packed_image_reads_back [OF demo_packable img, of "[0xFF]"] obtain fs where
    o: "spanfs_open_mem True (Some (img @ [0xFF])) True = Some (ESP_OK, Some fs)" and
    l: "\<And>path. case map_of demo_files (dropWhile (\<lambda>c. c = SLASH) path) of
          None \<Rightarrow> spanfs_lookup (Some fs) (Some path) = Some (ESP_ERR_NOT_FOUND, None)
        | Some data \<Rightarrow> \<exists>d l. spanfs_lookup (Some fs) (Some path) = Some (ESP_OK, Some (d, l)) \<and> slice d l (img @ [0xFF]) = data" by blast
  show ?thesis using img o l [of "bytes_of ''/b''"] l [of "bytes_of ''a''"] unfolding demo_keys by fastforce
qed

text \<open>
  C20. Whatever bytes a partition holds, as long as the index they announce has less than 4 GB: opening
  returns, and after a successful open every lookup and every enumeration returns, a range that
  lies inside the image, and the path found is the path asked for.
\<close>

theorem open_reads_inside:
  assumes "20 + head_count b * 12 < 2 ^ 32"
  shows "\<exists>e r. spanfs_open_mem mem_ok (Some b) out = Some (e, r) \<and> (\<forall>fs. e = ESP_OK \<and> r = Some fs \<longrightarrow>
    (\<forall>path. \<exists>e' r'. spanfs_lookup (Some fs) (Some path) = Some (e', r') \<and>
      (\<forall>d l. r' = Some (d, l) \<longrightarrow> d + l \<le> length b \<and> (\<exists>i < head_count b. ent_path fs i = Some (dropWhile (\<lambda>c. c = SLASH) path)))) \<and>
    (\<forall>i. \<exists>e' r'. spanfs_entry_at (Some fs) i = Some (e', r') \<and> (\<forall>p d l. r' = Some (p, d, l) \<longrightarrow> d + l \<le> length b)))"
proof -
  obtain e r where er: "spanfs_open_mem mem_ok (Some b) out = Some (e, r)" using open_defined [OF assms, of mem_ok out] by auto
  have "(\<exists>e' r'. spanfs_lookup (Some fs) (Some path) = Some (e', r') \<and>
      (\<forall>d l. r' = Some (d, l) \<longrightarrow> d + l \<le> length b \<and> (\<exists>i < head_count b. ent_path fs i = Some (dropWhile (\<lambda>c. c = SLASH) path))))
    \<and> (\<exists>e' r'. spanfs_entry_at (Some fs) i = Some (e', r') \<and> (\<forall>p d l. r' = Some (p, d, l) \<longrightarrow> d + l \<le> length b))"
    if ok: "e = ESP_OK" "r = Some fs" for fs path i
  proof -
    have out using er ok by (cases out) (auto simp: spanfs_open_mem_def)
    with er ok have o: "spanfs_open_mem mem_ok (Some b) True = Some (ESP_OK, Some fs)" by simp
    note D = open_okD [OF o]
    define es where "es = map (img_entry fs) [0..<unat (fs_entry_count fs)]"
    have h: "fs_holds fs es" unfolding es_def by (rule open_holds [OF o])
    have n: "length es = head_count b" "unat (fs_entry_count fs) = length es" using D(3) by (simp_all add: es_def)
    obtain q where q: "lookupLoop fs (dropWhile (\<lambda>c. c = SLASH) path) 0 (length es) = Some q"
      "\<forall>i. q = Some i \<longrightarrow> i < length es \<and> fst (es ! i) = dropWhile (\<lambda>c. c = SLASH) path"
      using lookupLoop_sound [OF h le_refl] by blast
    have "\<exists>e' r'. spanfs_lookup (Some fs) (Some path) = Some (e', r') \<and>
      (\<forall>d l. r' = Some (d, l) \<longrightarrow> d + l \<le> length b \<and> (\<exists>i < head_count b. ent_path fs i = Some (dropWhile (\<lambda>c. c = SLASH) path)))"
    proof (cases q)
      case None
      then show ?thesis using q(1) by (simp add: spanfs_lookup_def n(2))
    next
      case (Some i)
      then have i: "i < length es" "fst (es ! i) = dropWhile (\<lambda>c. c = SLASH) path" using q(2) by auto
      obtain d l where "ent_data_off fs i = Some d" "ent_data_len fs i = Some l" "unat d + unat l \<le> length b"
        using fs_holds_data [OF h i(1)] D(1) by metis
      moreover have "ent_path fs i = Some (dropWhile (\<lambda>c. c = SLASH) path)" using fs_holds_path [OF h i(1)] i(2) by simp
      ultimately show ?thesis using q(1) Some i(1) n by (auto simp: spanfs_lookup_def)
    qed
    moreover have "\<exists>e' r'. spanfs_entry_at (Some fs) i = Some (e', r') \<and> (\<forall>p d l. r' = Some (p, d, l) \<longrightarrow> d + l \<le> length b)"
    proof (cases "i < length es")
      case True
      obtain d l where "ent_data_off fs i = Some d" "ent_data_len fs i = Some l" "unat d + unat l \<le> length b"
        using fs_holds_data [OF h True] D(1) by metis
      then show ?thesis using True n fs_holds_path [OF h True] by (auto simp: spanfs_entry_at_def)
    qed (simp add: spanfs_entry_at_def n(2))
    ultimately show ?thesis by blast
  qed
  with er show ?thesis by blast
qed

theorem open_reads_inside_witness:
  "\<exists>img fs d l. pack_image demo_files = Some img \<and> spanfs_open_mem True (Some img) True = Some (ESP_OK, Some fs)
    \<and> spanfs_lookup (Some fs) (Some (bytes_of ''/b'')) = Some (ESP_OK, Some (d, l)) \<and> d + l \<le> length img"
proof -
  obtain img where img: "pack_image demo_files = Some img" using demo_packs by blast
  have nul: "\<forall>e \<in> set demo_files. 0 \<notin> set (fst e)" and srt: "sorted_wrt path_lt (map fst demo_files)"
    using demo_packable by (auto simp: packable_def)
  let ?fs = "packed_fs demo_files img"
  have o: "spanfs_open_mem True (Some img) True = Some (ESP_OK, Some ?fs)" using packed_opens [OF img nul, of "[]"] by simp
  have "head_count img = 3" using open_okD(3) [OF o] by (simp add: packed_fs_def demo_files_def)
  then have "20 + head_count img * 12 < 2 ^ 32" by simp
  from open_reads_inside [OF this, of True True] o
  have safe: "\<exists>e' r'. spanfs_lookup (Some ?fs) (Some path) = Some (e', r') \<and> (\<forall>d l. r' = Some (d, l) \<longrightarrow> d + l \<le> length img)" for path
    by fastforce
  have "fs_holds ?fs demo_files" using packed_holds [OF img nul, of "[]"] by simp
  from holds_lookup [OF this srt, of "bytes_of ''/b''"]
  obtain d l where dl: "spanfs_lookup (Some ?fs) (Some (bytes_of ''/b'')) = Some (ESP_OK, Some (d, l))"
    unfolding demo_keys by auto
  with safe [of "bytes_of ''/b''"] have "d + l \<le> length img" by auto
  with img o dl show ?thesis by blast
qed

text \<open>
  C38. The end of the index is computed in 32 bits. An image whose count times the entry size wraps
  to a small number passes the checks of its sizes and of its checksum, and the validation then
  reads index entries beyond the image: \<open>open\<close> leaves the 36 bytes it was given.
\<close>

definition wrap_body :: bytes where
  "wrap_body = le32 32 @ le32 36 @ le32 0 @ [0, 0, 0, 0]"

definition wrap_image :: bytes where
  "wrap_image = le32 SPANFS_MAGIC @ [SPANFS_VERSION, 0, 0, 0] @ le32 0x15555556 @ le32 36 @ le32 (spanfs_crc32 wrap_body) @ wrap_body"

theorem index_size_wraps: "length wrap_image = 36 \<and> spanfs_open_mem mem_ok (Some wrap_image) True = None"
proof -
  have len: "length wrap_image = 36" by (simp add: wrap_image_def wrap_body_def)
  have hd: "drop 0 wrap_image = le32 SPANFS_MAGIC @ drop 4 wrap_image" "drop 8 wrap_image = le32 0x15555556 @ drop 12 wrap_image"
    "drop 12 wrap_image = le32 36 @ drop 16 wrap_image" "drop 16 wrap_image = le32 (spanfs_crc32 wrap_body) @ wrap_body"
    "drop 20 wrap_image = le32 32 @ drop 24 wrap_image" "drop 24 wrap_image = le32 36 @ drop 28 wrap_image"
    "drop 28 wrap_image = le32 0 @ drop 32 wrap_image" "drop 32 wrap_image = le32 0 @ []"
    by (simp_all add: wrap_image_def wrap_body_def) (simp add: le32_def)
  note rd = hd [THEN rd_le32]
  have ver: "wrap_image ! 4 = SPANFS_VERSION" by (simp add: wrap_image_def nth_append)
  have body: "slice 20 16 wrap_image = wrap_body" by (simp add: wrap_image_def wrap_body_def slice_def)
  have e0: "checkEntry wrap_image 28 36 0 = Some True"
    using rd len by (simp add: checkEntry_def ent_ofs_def SPANFS_HEADER_SZ_def slice_def hd(8)) (simp add: le32_def)
  have e1: "checkEntry wrap_image 28 36 1 = None"
    using rd len by (simp add: checkEntry_def ent_ofs_def SPANFS_HEADER_SZ_def SPANFS_ENTRY_SZ_def rd_u32_def)
  have "checkEntries wrap_image 28 36 0 (unat (0x15555556 :: u32)) = None"
    by (subst checkEntries.simps, simp add: e0, subst checkEntries.simps, simp add: e1 [simplified])
  moreover have "index_crc wrap_image 36 = Some (spanfs_crc32 wrap_body)"
    using index_crc_eq [of 36 wrap_image] len body by (simp add: SPANFS_HEADER_SZ_def)
  ultimately show ?thesis using len rd ver
    by (simp add: spanfs_open_mem_def SPANFS_HEADER_SZ_def SPANFS_ENTRY_SZ_def Let_def)
qed

text \<open>
  C10. A mounted image behaves as the reference of the file calls: for any sequence of opens, reads,
  seeks, closes and stats that keeps the positions in the range of \<open>off_t\<close>, every call returns
  what the reference over the packed files returns: contents, positions and error codes.
\<close>

theorem mounted_files_refine:
  assumes "packable es" "pack_image es = Some img" "pack_total es < 2 ^ 31"
    and "spanfs_open_mem True (Some (img @ extra)) True = Some (ESP_OK, Some fs)"
    and "seeks_fit (map_of es) cs (\<lambda>_. None)"
  shows "\<exists>m. vfs_file_calls cs (mount_of fs mp) = Some (fst (ref_calls (map_of es) cs (\<lambda>_. None)), m)
    \<and> files_abs m = snd (ref_calls (map_of es) cs (\<lambda>_. None))"
proof -
  have p: "sorted_wrt path_lt (map fst es)" "\<forall>e \<in> set es. 0 \<notin> set (fst e)" using assms(1) by (auto simp: packable_def)
  have fs: "fs = packed_fs es (img @ extra)" using packed_opens [OF assms(2) p(2), of extra] assms(4) by simp
  have "unat (fs_total_size fs) < 2 ^ 31" using assms(3) by (simp add: fs packed_fs_def unat_of_nat)
  note m = mount_of_ok [OF packed_holds [OF assms(2) p(2), of extra, folded fs] p(1) this, of mp]
  show ?thesis using calls_refine [OF m(1)] assms(5) by (auto simp: m(2))
qed

definition demo_calls :: "file_call list" where
  "demo_calls = [FOpen (bytes_of ''/a/x'') 0, FRead 0 2, FRead 0 2, FSeek 0 (- 1) 2, FRead 0 9, FClose 0, FRead 0 1]"

theorem mounted_files_refine_witness:
  "\<exists>img fs m. pack_image demo_files = Some img \<and> spanfs_open_mem True (Some img) True = Some (ESP_OK, Some fs)
    \<and> vfs_file_calls demo_calls (mount_of fs (bytes_of ''/fixed''))
      = Some ([RFd 0, RBytes [1, 2], RBytes [3], RPos 2, RBytes [3], RDone, RErr EBADF], m)"
proof -
  obtain img where img: "pack_image demo_files = Some img" using demo_packs by blast
  have nul: "\<forall>e \<in> set demo_files. 0 \<notin> set (fst e)" using demo_packable by (auto simp: packable_def)
  have o: "spanfs_open_mem True (Some (img @ [])) True = Some (ESP_OK, Some (packed_fs demo_files (img @ [])))"
    by (rule packed_opens [OF img nul])
  have tot: "pack_total demo_files < 2 ^ 31"
    by (simp add: pack_total_def pack_data_def pack_start_def demo_files_def align_up_def SPANFS_DATA_ALIGN_def Let_def)
  have run: "seeks_fit (map_of demo_files) demo_calls (\<lambda>_. None)"
    "fst (ref_calls (map_of demo_files) demo_calls (\<lambda>_. None)) = [RFd 0, RBytes [1, 2], RBytes [3], RPos 2, RBytes [3], RDone, RErr EBADF]"
    by code_simp+
  from mounted_files_refine [OF demo_packable img tot o run(1), of "bytes_of ''/fixed''"] show ?thesis
    using img o run(2) by auto
qed

text \<open>
  C21. Opening a directory of a packed image and reading it to its end lists each file of the
  directory and each of its subdirectories exactly once, and nothing else; a path under which no
  file lies is refused with \<open>ENOENT\<close>. It is for images in which every component of a path has 1 to
  127 bytes, and for a directory path of at most 126 bytes.
\<close>

definition names_fit :: "(bytes \<times> bytes) list \<Rightarrow> bool" where
  "names_fit es \<longleftrightarrow> (\<forall>e \<in> set es. \<forall>c \<in> set (split_on SLASH (fst e)). c \<noteq> [] \<and> length c < 128)"

lemma split_on_append: "split_on c (a @ c # r) = split_on c a @ split_on c r"
  by (induction a) (auto split: list.splits)

lemma split_on_hd: "hd (split_on c r) = takeWhile (\<lambda>x. x \<noteq> c) r"
  by (induction r) (auto split: list.splits)

lemma component:
  assumes "u = [] \<or> (\<exists>v. u = v @ [SLASH])"
  shows "takeWhile (\<lambda>c. c \<noteq> SLASH) r \<in> set (split_on SLASH (u @ r))"
  using assms split_on_append [of SLASH _ r] by (auto simp: split_on_hd [symmetric])

lemma isDirLoop_holds:
  assumes "fs_holds fs es"
  shows "isDirLoop fs dir i = Some (\<exists>e \<in> set (drop i es). under_dir dir (fst e))"
  using assms
proof (induction fs dir i rule: isDirLoop.induct)
  case (1 fs dir i)
  have n: "unat (spanfs_count (Some fs)) = length es" using "1.prems" by (simp add: spanfs_count_def fs_holds_def)
  show ?case
  proof (cases "i < length es")
    case True
    obtain x y where e: "spanfs_entry_at (Some fs) i = Some (ESP_OK, Some (fst (es ! i), x, y))"
      using entry_at_holds [OF "1.prems" True] by blast
    have d: "drop i es = es ! i # drop (Suc i) es" using True by (simp add: Cons_nth_drop_Suc)
    have "isDirLoop fs dir (Suc i) = Some (\<exists>e \<in> set (drop (Suc i) es). under_dir dir (fst e))" if "\<not> under_dir dir (fst (es ! i))"
      using "1.IH" [of "(ESP_OK, Some (fst (es ! i), x, y))" _ "fst (es ! i)" "(x, y)" x y] True n e that "1.prems" by simp
    then show ?thesis by (subst isDirLoop.simps) (auto simp: n True e d)
  qed (subst isDirLoop.simps, simp add: n)
qed

lemma is_dir_holds: "fs_holds fs es \<Longrightarrow> is_dir fs dir = Some (dir = [] \<or> (\<exists>e \<in> set es. under_dir dir (fst e)))"
  by (auto simp: is_dir_def isDirLoop_holds)

theorem listing_complete:
  assumes "packable es" "names_fit es" "pack_image es = Some img"
    and "spanfs_open_mem True (Some (img @ extra)) True = Some (ESP_OK, Some fs)" "length (rel name) < 127"
  shows "if rel name = [] \<or> (\<exists>e \<in> set es. under_dir (rel name) (fst e))
    then \<exists>m ks d. spanfs_vfs_opendir name (mount_of fs mp) = Some (Inr 0, m) \<and> listLoop (m_fs m) (m_dirs m ! 0) = Some (ks, d)
      \<and> distinct ks \<and> (\<forall>n. \<lparr>d_isdir = False, d_name = n\<rparr> \<in> set ks \<longleftrightarrow> n \<noteq> [] \<and> SLASH \<notin> set n \<and> dir_prefix (rel name) @ n \<in> fst ` set es)
      \<and> (\<forall>n. \<lparr>d_isdir = True, d_name = n\<rparr> \<in> set ks \<longleftrightarrow> SLASH \<notin> set n \<and> (\<exists>t. dir_prefix (rel name) @ n @ SLASH # t \<in> fst ` set es))
    else spanfs_vfs_opendir name (mount_of fs mp) = Some (Inl ENOENT, mount_of fs mp)"
proof -
  have p: "sorted_wrt path_lt (map fst es)" "\<forall>e \<in> set es. 0 \<notin> set (fst e)" using assms(1) by (auto simp: packable_def)
  have fs: "fs = packed_fs es (img @ extra)" using packed_opens [OF assms(3) p(2), of extra] assms(4) by simp
  have h: "fs_holds fs es" unfolding fs by (rule packed_holds [OF assms(3) p(2)])
  note isd = is_dir_holds [OF h, of "rel name"]
  have mfs: "m_fs (mount_of fs mp) = fs" "m_dirs (mount_of fs mp) = replicate 4 clear_dir"
    by (simp_all add: mount_of_def SPANFS_MAX_DIR_def)
  show ?thesis
  proof (cases "rel name = [] \<or> (\<exists>e \<in> set es. under_dir (rel name) (fst e))")
    case False
    then show ?thesis using isd by (simp add: spanfs_vfs_opendir_def mfs)
  next
    case True
    let ?u = "dir_prefix (rel name)"
    let ?d = "clear_dir\<lparr>d_used := True, d_prefix := ?u, d_plen := length ?u\<rparr>"
    let ?m = "(mount_of fs mp)\<lparr>m_dirs := (replicate 4 clear_dir)[0 := ?d]\<rparr>"
    have "find (\<lambda>i. \<not> d_used (replicate 4 clear_dir ! i)) [0..<SPANFS_MAX_DIR] = Some 0"
      by (simp add: SPANFS_MAX_DIR_def clear_dir_def upt_rec)
    then have od: "spanfs_vfs_opendir name (mount_of fs mp) = Some (Inr 0, ?m)"
      using True isd by (simp add: spanfs_vfs_opendir_def mfs)
    have u: "?u = [] \<or> (\<exists>v. ?u = v @ [SLASH])" using assms(5) by (auto simp: dir_prefix_def SPANFS_NAME_MAX_def)
    define rs where "rs = rests ?u (map fst es)"
    have comp: "takeWhile (\<lambda>c. c \<noteq> SLASH) r \<noteq> [] \<and> length (takeWhile (\<lambda>c. c \<noteq> SLASH) r) < 128" if "r \<in> set rs" for r
      using that component [OF u, of r] assms(2) by (fastforce simp: rs_def in_rests names_fit_def)
    have w: "walk ?d (map fst es) = walk0 [] rs" unfolding rs_def
      by (subst walk_rests [OF p(1)]) (use comp in \<open>auto simp: rs_def clear_dir_def\<close>)
    have "distinct (walk0 [] rs) \<and> set (walk0 [] rs) = kid ` set rs - {\<lparr>d_isdir = True, d_name = []\<rparr>}"
    proof (rule walk0_correct)
      show "sorted_wrt path_lt rs" unfolding rs_def by (rule sorted_rests [OF p(1)])
      show ne: "\<forall>r \<in> set rs. d_name (kid r) \<noteq> []" using comp by (simp add: kid_def)
      show "run_ahead [] rs" using ne unfolding run_ahead_def by (metis dirent.select_convs(2) nth_mem)
    qed
    moreover have "\<lparr>d_isdir = True, d_name = []\<rparr> \<notin> kid ` set rs"
      using comp by (metis (no_types, lifting) dirent.select_convs(2) image_iff kid_def)
    ultimately have k: "distinct (walk0 [] rs)" "set (walk0 [] rs) = kid ` set rs" by auto
    note inside = kid_file_in [of _ ?u "map fst es", folded rs_def] kid_dir_in [of _ ?u "map fst es", folded rs_def]
    have cur: "d_cursor ?d = 0" by (simp add: clear_dir_def)
    obtain d where "listLoop fs ?d = Some (walk ?d (map fst (drop (d_cursor ?d) es)), d)" using listLoop_walk [OF h] by blast
    then have "listLoop (m_fs ?m) (m_dirs ?m ! 0) = Some (walk0 [] rs, d)" using w by (simp add: cur mfs)
    with True od k inside show ?thesis by auto
  qed
qed

theorem listing_complete_witness:
  "\<exists>img fs m ks d. pack_image demo_files = Some img \<and> spanfs_open_mem True (Some img) True = Some (ESP_OK, Some fs)
    \<and> spanfs_vfs_opendir (bytes_of ''/'') (mount_of fs []) = Some (Inr 0, m) \<and> listLoop (m_fs m) (m_dirs m ! 0) = Some (ks, d)
    \<and> distinct ks \<and> \<lparr>d_isdir = True, d_name = bytes_of ''a''\<rparr> \<in> set ks \<and> \<lparr>d_isdir = False, d_name = bytes_of ''b''\<rparr> \<in> set ks"
proof -
  obtain img where img: "pack_image demo_files = Some img" using demo_packs by blast
  have nul: "\<forall>e \<in> set demo_files. 0 \<notin> set (fst e)" using demo_packable by (auto simp: packable_def)
  have o: "spanfs_open_mem True (Some (img @ [])) True = Some (ESP_OK, Some (packed_fs demo_files (img @ [])))"
    by (rule packed_opens [OF img nul])
  have fit: "names_fit demo_files" by (simp add: names_fit_def demo_files_def SLASH_def)
  have root: "rel (bytes_of ''/'') = []" by (simp add: rel_def SLASH_def)
  have a: "bytes_of ''a'' @ SLASH # bytes_of ''x'' \<in> fst ` set demo_files" and b: "bytes_of ''b'' \<in> fst ` set demo_files"
    and no: "SLASH \<notin> set (bytes_of ''a'')" "SLASH \<notin> set (bytes_of ''b'')"
    by (simp_all add: demo_files_def SLASH_def)
  define nm where "nm = bytes_of ''/''"
  have l: "rel nm = []" "length (rel nm) < 127" using root by (simp_all add: nm_def)
  from listing_complete [OF demo_packable fit img o l(2), of "[]"] l(1) obtain m ks d where
    r: "spanfs_vfs_opendir nm (mount_of (packed_fs demo_files (img @ [])) []) = Some (Inr 0, m)"
      "listLoop (m_fs m) (m_dirs m ! 0) = Some (ks, d)" "distinct ks" and
    fl: "\<And>n. \<lparr>d_isdir = False, d_name = n\<rparr> \<in> set ks \<longleftrightarrow> n \<noteq> [] \<and> SLASH \<notin> set n \<and> n \<in> fst ` set demo_files" and
    dr: "\<And>n. \<lparr>d_isdir = True, d_name = n\<rparr> \<in> set ks \<longleftrightarrow> SLASH \<notin> set n \<and> (\<exists>t. n @ SLASH # t \<in> fst ` set demo_files)"
    by (auto simp: dir_prefix_def)
  have "\<lparr>d_isdir = True, d_name = bytes_of ''a''\<rparr> \<in> set ks" unfolding dr using a no(1) by blast
  moreover have "\<lparr>d_isdir = False, d_name = bytes_of ''b''\<rparr> \<in> set ks" unfolding fl using b no(2) by simp
  ultimately show ?thesis using r img o unfolding nm_def append_Nil2 by blast
qed

end
