(* ===== verification/Log_Text.thy ===== *)
theory Log_Text
  imports C_String
begin

section \<open>The log: text\<close>

text \<open>
  The pure part of log.cpp: levels, escape sequences, message rules, and the rewriting of a line
  of ESP-IDF into the line of this firmware. A C string is the list of its characters without
  the NUL. What the functions ask of their surroundings (the name of the task, the clock, the
  time-stamp setting, the level of a tag) is the record \<open>log_env\<close>.
\<close>

abbreviation ESC :: char where "ESC \<equiv> CHR 0x1B"
abbreviation NL :: char where "NL \<equiv> CHR 0x0A"
abbreviation CR :: char where "CR \<equiv> CHR 0x0D"
abbreviation TAB :: char where "TAB \<equiv> CHR 0x09"

subsection \<open>Levels\<close>

definition level_char :: "char \<Rightarrow> bool" where
  "level_char c \<longleftrightarrow> c = CHR ''E'' \<or> c = CHR ''W'' \<or> c = CHR ''I'' \<or> c = CHR ''D'' \<or> c = CHR ''V''"

definition levelCharToNum :: "char \<Rightarrow> nat" where
  "levelCharToNum c =
     (if c = CHR ''E'' then 0 else if c = CHR ''W'' then 1 else if c = CHR ''I'' then 2
      else if c = CHR ''D'' then 3 else if c = CHR ''V'' then 4 else 2)"

definition upper :: "char \<Rightarrow> char" where
  "upper c = (if 97 \<le> (of_char c :: nat) \<and> (of_char c :: nat) \<le> 122 then char_of (of_char c - 32 :: nat) else c)"

definition lower :: "char \<Rightarrow> char" where
  "lower c = (if 65 \<le> (of_char c :: nat) \<and> (of_char c :: nat) \<le> 90 then char_of (of_char c + 32 :: nat) else c)"

definition parseLevelNum :: "string \<Rightarrow> nat" where
  "parseLevelNum s =
     (let c = (case s of [] \<Rightarrow> CHR 0x00 | x # _ \<Rightarrow> upper x)
      in if c = CHR ''E'' \<or> c = CHR ''N'' then 0 else if c = CHR ''W'' then 1 else if c = CHR ''I'' then 2
         else if c = CHR ''D'' then 3 else 4)"

definition strcasecmp_eq :: "string \<Rightarrow> string \<Rightarrow> bool" where
  "strcasecmp_eq a b \<longleftrightarrow> map lower a = map lower b"

definition isLevelArg :: "string \<Rightarrow> bool" where
  "isLevelArg s \<longleftrightarrow> s \<noteq> [] \<and>
     (length s = 1 \<and> hd s \<in> set ''newidvNEWIDV''
      \<or> strcasecmp_eq s ''none'' \<or> strcasecmp_eq s ''error'' \<or> strcasecmp_eq s ''warn''
      \<or> strcasecmp_eq s ''info'' \<or> strcasecmp_eq s ''debug'' \<or> strcasecmp_eq s ''verbose'')"

text \<open>
  The scan for a level letter between spaces, from position \<open>i\<close>; \<open>left\<close> says that the position
  starts the line or follows a space, \<open>stop\<close> that the scan ends at a newline.
\<close>

fun levelPos :: "bool \<Rightarrow> bool \<Rightarrow> nat \<Rightarrow> string \<Rightarrow> nat option" where
  "levelPos stop left i (c # d # r) =
     (if stop \<and> c = NL then None
      else if level_char c \<and> left \<and> d = CHR '' '' then Some i
      else levelPos stop (c = CHR '' '') (Suc i) (d # r))"
| "levelPos stop left i _ = None"

definition lineLevel :: "string \<Rightarrow> char" where
  "lineLevel line = (case levelPos True True 0 line of Some i \<Rightarrow> line ! i | None \<Rightarrow> CHR ''I'')"

definition findLevelCharPos :: "string \<Rightarrow> nat option" where
  "findLevelCharPos line = levelPos False True 0 line"

text \<open>Colors for E, W, I, D, V and the time stamp.\<close>

definition logColor :: "string list \<Rightarrow> char \<Rightarrow> string" where
  "logColor colors level =
     (if level = CHR ''E'' then colors ! 0 else if level = CHR ''W'' then colors ! 1 else if level = CHR ''I'' then colors ! 2
      else if level = CHR ''D'' then colors ! 3 else if level = CHR ''V'' then colors ! 4 else colors ! 2)"

subsection \<open>Escape sequences\<close>

fun containsAnsi :: "string \<Rightarrow> bool" where
  "containsAnsi (c # d # r) \<longleftrightarrow> c = ESC \<and> d = CHR ''['' \<or> containsAnsi (d # r)"
| "containsAnsi _ \<longleftrightarrow> False"

function stripAnsi :: "string \<Rightarrow> string" where
  "stripAnsi [] = []"
| "stripAnsi [c] = [c]"
| "stripAnsi (c # d # r) =
     (if c = ESC \<and> d = CHR ''['' then stripAnsi (drop 1 (dropWhile (\<lambda>x. x \<noteq> CHR ''m'') r))
      else c # stripAnsi (d # r))"
  by pat_completeness auto
termination
proof (relation "measure length")
  fix c d :: char and r :: string
  show "(drop 1 (dropWhile (\<lambda>x. x \<noteq> CHR ''m'') r), c # d # r) \<in> measure length"
    using length_dropWhile_le [of "\<lambda>x. x \<noteq> CHR ''m''" r] by simp
qed auto

subsection \<open>Rules\<close>

definition levelOfChar :: "char \<Rightarrow> nat" where
  "levelOfChar c =
     (if c = CHR ''E'' then 1 else if c = CHR ''W'' then 2 else if c = CHR ''I'' then 3
      else if c = CHR ''D'' then 4 else if c = CHR ''V'' then 5 else 0)"

record log_rule =
  r_prefix :: string
  r_tagLen :: nat
  r_level :: char

definition LOG_RULES :: nat where "LOG_RULES = 12"

definition logRule :: "string option \<Rightarrow> char \<Rightarrow> log_rule list \<Rightarrow> log_rule list" where
  "logRule prefix level rules =
     (case prefix of
        None \<Rightarrow> rules
      | Some p \<Rightarrow>
        if p = [] then rules
        else let l = upper level
        in if l \<noteq> CHR ''N'' \<and> levelOfChar l = 0 then rules
        else if length rules \<ge> LOG_RULES then rules
        else rules @ [\<lparr>r_prefix = p, r_tagLen = (if CHR '':'' \<in> set p then length (before CHR '':'' p) else 0), r_level = l\<rparr>])"

text \<open>Whether a rule matches the body of a line.\<close>

definition ruleMatches :: "log_rule \<Rightarrow> string \<Rightarrow> string option \<Rightarrow> bool" where
  "ruleMatches r msg tag \<longleftrightarrow>
     (if r_tagLen r \<noteq> 0
      then (case tag of
              None \<Rightarrow> False
            | Some t \<Rightarrow> t = take (r_tagLen r) (r_prefix r) \<and>
                (let rm = drop (r_tagLen r + 1) (r_prefix r);
                     body = (case rm of [] \<Rightarrow> [] | c # cs \<Rightarrow> if c = CHR '' '' then cs else rm)
                 in take (length body) msg = body))
      else take (length (r_prefix r)) msg = r_prefix r)"

text \<open>The letter to emit a line at, \<open>None\<close> to drop it.\<close>

fun logRuleApply :: "(string option \<Rightarrow> nat) \<Rightarrow> log_rule list \<Rightarrow> string \<Rightarrow> string option \<Rightarrow> char \<Rightarrow> char option" where
  "logRuleApply lvl [] msg tag cur = Some cur"
| "logRuleApply lvl (r # rs) msg tag cur =
     (if \<not> ruleMatches r msg tag then logRuleApply lvl rs msg tag cur
      else if r_level r = CHR ''N'' then None
      else if lvl tag < levelOfChar (r_level r) then None
      else Some (r_level r))"

subsection \<open>Reformatting\<close>

record log_env =
  le_task :: string
  le_showTs :: bool
  le_clock :: string
  le_level :: "string option \<Rightarrow> nat"
  le_colors :: "string list"
  le_rules :: "log_rule list"

definition csi_param :: "char \<Rightarrow> bool" where
  "csi_param c \<longleftrightarrow> c_isdigit c \<or> c = CHR '';''"

text \<open>The leading escape sequences of a line.\<close>

definition skipParams :: "string \<Rightarrow> string" where
  "skipParams r =
     (let q = dropWhile csi_param r in case q of [] \<Rightarrow> [] | x # xs \<Rightarrow> if x = CHR ''m'' then xs else q)"

lemma skipParams_length: "length (skipParams r) \<le> length r"
proof -
  have "length (skipParams r) \<le> length (dropWhile csi_param r)" by (auto simp: skipParams_def Let_def split: list.split)
  then show ?thesis using length_dropWhile_le le_trans by blast
qed

function skipAnsi :: "string \<Rightarrow> string" where
  "skipAnsi p =
     (case p of
        c # d # r \<Rightarrow> (if c = ESC \<and> d = CHR ''['' then skipAnsi (skipParams r) else p)
      | _ \<Rightarrow> p)"
  by pat_completeness auto
termination
  by (relation "measure length") (auto simp: less_Suc_eq_le intro: le_trans [OF skipParams_length])

declare skipAnsi.simps [simp del]

definition rstrip_nl :: "string \<Rightarrow> string" where
  "rstrip_nl s = rev (dropWhile (\<lambda>c. c = NL \<or> c = CR) (rev s))"

definition blank_ch :: "char \<Rightarrow> bool" where
  "blank_ch c \<longleftrightarrow> c = CHR '' '' \<or> c = TAB"

text \<open>\<open>snprintf\<close> into a local buffer of \<open>n\<close> bytes.\<close>

definition snbuf :: "nat \<Rightarrow> string \<Rightarrow> string" where
  "snbuf n s = take (n - 1) s"

definition color_on :: "log_env \<Rightarrow> bool \<Rightarrow> char \<Rightarrow> string" where
  "color_on E ansi level = (if ansi then snbuf 24 (ESC # ''['' @ logColor (le_colors E) level @ ''m'') else [])"

definition color_off :: "bool \<Rightarrow> string" where
  "color_off ansi = (if ansi then ESC # ''[0m'' else [])"

definition stamp :: "log_env \<Rightarrow> bool \<Rightarrow> string" where
  "stamp E ansi =
     (if \<not> le_showTs E then []
      else if ansi then snbuf 48 (ESC # ''['' @ (le_colors E ! 5) @ ''m'' @ snbuf 24 (le_clock E) @ ESC # ''[0m '')
      else snbuf 48 (snbuf 24 (le_clock E) @ '' ''))"

definition fmt_line :: "log_env \<Rightarrow> bool \<Rightarrow> char \<Rightarrow> string \<Rightarrow> string \<Rightarrow> string" where
  "fmt_line E ansi level tag msg =
     stamp E ansi @ color_on E ansi level @ [level] @ '' ['' @ le_task E @ ''] '' @ tag @ msg @ color_off ansi @ [NL]"

text \<open>A continuation line: a line that has no level of its own.\<close>

definition reformatCont :: "log_env \<Rightarrow> bool \<Rightarrow> char \<Rightarrow> string \<Rightarrow> string option \<times> char" where
  "reformatCont E ansi lastLevel p =
     (let m0 = rstrip_nl p;
          msg = (if length m0 > 4 \<and> last m0 = CHR ''m'' \<and> m0 ! (length m0 - 4) = ESC then take (length m0 - 4) m0 else m0);
          ck = dropWhile blank_ch msg
      in if ck = [] then (None, lastLevel)
         else case logRuleApply (le_level E) (le_rules E) ck None lastLevel of
                None \<Rightarrow> (None, lastLevel)
              | Some l \<Rightarrow> (Some (fmt_line E ansi l [] msg), l))"

text \<open>
  The trailing escape sequences, on the reversed message: back from a closing \<open>m\<close> over the
  parameters to the ESC. For a message that is just \<open>m\<close> the code looks at the byte before the
  message, which is a space, a colon or a parenthesis there.
\<close>

fun escBack :: "string \<Rightarrow> string option" where
  "escBack [] = None"
| "escBack [c] = (if c = ESC then Some [] else None)"
| "escBack (c # d # r) =
     (if csi_param c \<or> c = CHR ''['' then escBack (d # r) else if c = ESC then Some (d # r) else None)"

lemma escBack_length: "escBack s = Some r \<Longrightarrow> length r < length s"
  by (induction s rule: escBack.induct) (auto split: if_splits)

function trimAnsi :: "string \<Rightarrow> string" where
  "trimAnsi r =
     (case r of
        c # rest \<Rightarrow> (if c = CHR ''m'' then (case escBack rest of Some r' \<Rightarrow> trimAnsi r' | None \<Rightarrow> r) else r)
      | [] \<Rightarrow> r)"
  by pat_completeness auto
termination by (relation "measure length") (auto dest!: escBack_length)

declare trimAnsi.simps [simp del]

text \<open>The name of the task in front of its own message.\<close>

function dropTask :: "string \<Rightarrow> string \<Rightarrow> string" where
  "dropTask task msg =
     (let tn = length task
      in if length msg > tn + 1 \<and> take tn msg = task \<and> msg ! tn = CHR '':''
         then dropTask task (dropWhile blank_ch (drop (tn + 1) msg)) else msg)"
  by pat_completeness auto
termination
  by (relation "measure (\<lambda>(_, msg). length msg)") (auto intro: le_less_trans [OF length_dropWhile_le])

declare dropTask.simps [simp del]

definition reformatMsg :: "log_env \<Rightarrow> bool \<Rightarrow> char \<Rightarrow> string \<Rightarrow> string \<Rightarrow> string option \<times> char" where
  "reformatMsg E ansi level tag msg0 =
     (let m1 = rev (trimAnsi (rev (rstrip_nl msg0)))
      in if list_all blank_ch m1 then (None, level)
         else let own = (tag \<noteq> [] \<and> tag = le_task E);
                  m2 = (if own \<and> le_task E \<noteq> ''?'' then dropTask (le_task E) m1 else m1)
              in if m2 = [] then (None, level)
                 else case logRuleApply (le_level E) (le_rules E) m2 (if tag = [] then None else Some tag) level of
                        None \<Rightarrow> (None, level)
                      | Some l \<Rightarrow> (Some (fmt_line E ansi l (if own \<or> tag = [] then [] else tag @ '': '') m2), l))"

text \<open>
  The whole line: \<open>None\<close> when there is nothing to print, else the text, which \<open>snprintf\<close> puts into
  the destination as far as it fits; the new value of \<open>lastLevel\<close> comes with it.
\<close>

definition logReformat :: "log_env \<Rightarrow> bool \<Rightarrow> char \<Rightarrow> string \<Rightarrow> string option \<times> char" where
  "logReformat E ansi lastLevel src =
     (let p = skipAnsi src
      in case p of
           [] \<Rightarrow> reformatCont E ansi lastLevel p
         | level # r \<Rightarrow>
             let afterL = dropWhile (\<lambda>c. c = CHR '' '') r
             in if \<not> (level_char level \<and> afterL \<noteq> [] \<and> hd afterL = CHR ''('') then reformatCont E ansi lastLevel p
                else let afterLevel = dropWhile (\<lambda>c. c = CHR '' '') (if CHR '')'' \<in> set afterL then after CHR '')'' afterL else r);
                         tagLen = length (before CHR '':'' afterLevel);
                         tagged = (CHR '':'' \<in> set afterLevel \<and> tagLen < 32 \<and> tagLen > 0);
                         msg = after CHR '':'' afterLevel
                     in if tagged
                        then reformatMsg E ansi level (before CHR '':'' afterLevel)
                               (case msg of [] \<Rightarrow> [] | c # cs \<Rightarrow> if c = CHR '' '' then cs else msg)
                        else reformatMsg E ansi level [] afterLevel)"

subsection \<open>Colors for a line that comes from outside\<close>

text \<open>A string printed with a precision ends at a NUL inside.\<close>

abbreviation prec :: "string \<Rightarrow> string" where "prec s \<equiv> takeWhile (\<lambda>c. c \<noteq> CHR 0x00) s"

definition colorizePreformatted :: "string list \<Rightarrow> string \<Rightarrow> string" where
  "colorizePreformatted colors line =
     (let s = rstrip_nl line
      in case findLevelCharPos s of
           None \<Rightarrow> prec s @ [NL]
         | Some lp \<Rightarrow>
             let level = s ! lp;
                 prefix = rev (dropWhile (\<lambda>c. c = CHR '' '') (rev (take lp s)))
             in if prefix = [] then ESC # ''['' @ logColor colors level @ ''m'' @ prec (drop lp s) @ ESC # ''[0m'' @ [NL]
                else ESC # ''['' @ (colors ! 5) @ ''m'' @ prec prefix @ ESC # ''[0m '' @ ESC # ''['' @ logColor colors level @ ''m''
                       @ prec (drop lp s) @ ESC # ''[0m'' @ [NL])"

end
