(* ===== verification/Log_Task.thy ===== *)
theory Log_Task
  imports Log_Text
begin

section \<open>The log: ring, consumers and file\<close>

text \<open>
  The state of log.cpp and its operations: the ring between the tasks that log and the log task,
  the hook every line passes through, the consumers with the lines they send in, the log file, the
  scroll-back for a new client, one pass of the log task, and the levels of tags. What leaves the
  component is recorded in order as \<open>ls_out\<close>; sends are non-blocking and their outcome is ignored
  by the code. An access outside a buffer is \<open>None\<close>. The ring's counters are 32-bit words.
\<close>

definition LOG_RING_SIZE :: nat where "LOG_RING_SIZE = 8192"
definition LOG_MAX_CONSUMERS :: nat where "LOG_MAX_CONSUMERS = 5"
definition LOG_INBOUND_BUF :: nat where "LOG_INBOUND_BUF = 512"
definition LOG_CUT_MARK :: string where "LOG_CUT_MARK = '' ...[cut]''"
definition LOG_RAW_MAX :: nat where "LOG_RAW_MAX = 1024"
definition LOG_FMT_MAX :: nat where "LOG_FMT_MAX = 1056"

datatype log_out = ToSlot int string | ToFile string | FileSync | ToConsole string | WakeTask

record log_slot =
  sl_handle :: int
  sl_ansi :: bool
  sl_lineBuf :: string
  sl_truncated :: bool
  sl_pastePending :: bool
  sl_pasteBacklog :: int

record log_state =
  ls_ring :: string
  ls_head :: u32
  ls_tail :: u32
  ls_dropped :: u32
  ls_suppressed :: u32
  ls_drainWanted :: bool
  ls_sinkLive :: bool
  ls_sinkWas :: bool
  ls_lastLevel :: char
  ls_inited :: bool
  ls_task :: bool
  ls_slots :: "log_slot list"
  ls_file :: bool
  ls_fileLevel :: nat
  ls_fileDirty :: bool
  ls_lastFlush :: int
  ls_interval :: int
  ls_out :: "log_out list"

text \<open>
  What the log task asks of the other components. \<open>io_dbg\<close> is the component's own debug line about
  an inbound line as ESP-IDF renders it, \<open>None\<close> when the level of its tag holds it back.
\<close>

record log_io =
  io_env :: log_env
  io_connected :: "int \<Rightarrow> bool"
  io_wire :: bool
  io_console :: bool
  io_now :: int
  io_dbg :: "nat \<Rightarrow> nat \<Rightarrow> string option"

definition emit :: "log_out \<Rightarrow> log_state \<Rightarrow> log_state" where
  "emit x st = st\<lparr>ls_out := ls_out st @ [x]\<rparr>"

subsection \<open>The ring\<close>

fun ringPut :: "string \<Rightarrow> u32 \<Rightarrow> string \<Rightarrow> string" where
  "ringPut ring h [] = ring"
| "ringPut ring h (c # cs) = ringPut (ring[unat h mod LOG_RING_SIZE := c]) (h + 1) cs"

fun ringGet :: "string \<Rightarrow> u32 \<Rightarrow> nat \<Rightarrow> string" where
  "ringGet ring t 0 = []"
| "ringGet ring t (Suc n) = ring ! (unat t mod LOG_RING_SIZE) # ringGet ring (t + 1) n"

definition logRingWrite :: "string \<Rightarrow> log_state \<Rightarrow> nat \<times> log_state" where
  "logRingWrite data st =
     (let h = ls_head st; t = ls_tail st;
          fre = of_nat LOG_RING_SIZE - (h - t);
          len = (if length data > unat fre then unat fre else length data);
          st1 = (if length data > unat fre then st\<lparr>ls_dropped := ls_dropped st + of_nat (length data - unat fre)\<rparr> else st)
      in (len, st1\<lparr>ls_ring := ringPut (ls_ring st) h (take len data), ls_head := h + of_nat len\<rparr>))"

definition logRingRead :: "nat \<Rightarrow> log_state \<Rightarrow> string \<times> log_state" where
  "logRingRead maxLen st =
     (let h = ls_head st; t = ls_tail st; avail = unat (h - t);
          n = (if avail > maxLen then maxLen else avail)
      in if avail = 0 then ([], st)
         else (ringGet (ls_ring st) t n, st\<lparr>ls_tail := t + of_nat n\<rparr>))"

subsection \<open>The hook\<close>

definition logNowhereToGo :: "log_state \<Rightarrow> bool" where
  "logNowhereToGo st \<longleftrightarrow> \<not> ls_sinkLive st \<and> unat (ls_head st - ls_tail st) \<ge> LOG_RING_SIZE"

text \<open>The controls that carry terminal state become dots.\<close>

definition scrub :: "char \<Rightarrow> char" where
  "scrub c =
     (if c = TAB \<or> c = NL \<or> c = CR \<or> c = ESC then c
      else if (of_char c :: nat) < 0x20 \<or> (of_char c :: nat) = 0x7F then CHR ''.'' else c)"

text \<open>The loop over the first \<open>n\<close> bytes of a buffer; an index outside the buffer is \<open>None\<close>.\<close>

function scrubLoop :: "nat \<Rightarrow> nat \<Rightarrow> string \<Rightarrow> string option" where
  "scrubLoop i n buf =
     (if i < n then (if i < length buf then scrubLoop (i + 1) n (buf[i := scrub (buf ! i)]) else None) else Some buf)"
  by pat_completeness auto
termination by (relation "measure (\<lambda>(i, n, _). n - i)") auto

declare scrubLoop.simps [simp del]

definition logLineOut :: "log_io \<Rightarrow> string \<Rightarrow> log_state \<Rightarrow> log_state" where
  "logLineOut io formatted st =
     (let st2 = snd (logRingWrite formatted st);
          st3 = (if ls_task st2 \<and> ls_drainWanted st2 then emit WakeTask st2 else st2)
      in if io_wire io \<and> io_console io then emit (ToConsole formatted) st3 else st3)"

text \<open>
  \<open>raw\<close> is what the format and its arguments render to, \<open>scratch\<close> whether the heap has the buffers.
  \<open>snprintf\<close> leaves in the buffer, the last part of the block, the text cut to its size and a NUL,
  and returns the length of the whole text; the loop runs to that length.
\<close>

definition logVprintf :: "log_io \<Rightarrow> bool \<Rightarrow> string \<Rightarrow> log_state \<Rightarrow> (nat \<times> log_state) option" where
  "logVprintf io scratch raw st =
     (if \<not> ls_inited st then Some (0, st)
      else if logNowhereToGo st then Some (0, st\<lparr>ls_suppressed := ls_suppressed st + 1\<rparr>)
      else if \<not> scratch then Some (0, st)
      else if raw = [] then Some (0, st)
      else let (fmt, ll) = logReformat (io_env io) True (ls_lastLevel st) (take (LOG_RAW_MAX - 1) raw);
               st1 = st\<lparr>ls_lastLevel := ll\<rparr>
           in case fmt of
                None \<Rightarrow> Some (length raw, st1)
              | Some full \<Rightarrow>
                  map_option (\<lambda>formatted. (length raw, logLineOut io (take (length full) formatted) st1))
                    (scrubLoop 0 (length full) (take (LOG_FMT_MAX - 1) full @ [CHR 0x00])))"

lemma scrubLoop_eq:
  "scrubLoop i n buf = (if n \<le> i \<or> n \<le> length buf then Some (take i buf @ map scrub (take (n - i) (drop i buf)) @ drop (max i n) buf) else None)"
proof (induction i n buf rule: scrubLoop.induct)
  case (1 i n buf)
  show ?case
  proof (cases "i < n \<and> i < length buf")
    case True
    then have d: "drop i buf = buf ! i # drop (Suc i) buf" "n - i = Suc (n - Suc i)" by (simp_all add: Cons_nth_drop_Suc Suc_diff_Suc)
    have "take (Suc i) (buf[i := scrub (buf ! i)]) = take i buf @ [scrub (buf ! i)]"
      using True by (simp add: take_Suc_conv_app_nth)
    moreover have "drop (Suc i) (buf[i := scrub (buf ! i)]) = drop (Suc i) buf" "drop n (buf[i := scrub (buf ! i)]) = drop n buf" using True by simp_all
    ultimately show ?thesis using True 1 d by (subst scrubLoop.simps) (auto simp: max_def)
  qed (subst scrubLoop.simps, auto simp: max_def)
qed

lemma scrubLoop_fmt:
  "scrubLoop 0 (length full) (take (LOG_FMT_MAX - 1) full @ [CHR 0x00]) = None \<longleftrightarrow> length full > LOG_FMT_MAX"
  "scrubLoop 0 (length full) (take (LOG_FMT_MAX - 1) full @ [CHR 0x00]) = Some f \<Longrightarrow>
     take (length full) f = map scrub (take (length full) (take (LOG_FMT_MAX - 1) full @ [CHR 0x00]))"
  by (auto simp: scrubLoop_eq LOG_FMT_MAX_def take_map split: if_splits)

text \<open>The hook without the loop.\<close>

lemma logVprintf_eq:
  "logVprintf io scratch raw st =
     (if \<not> ls_inited st then Some (0, st)
      else if logNowhereToGo st then Some (0, st\<lparr>ls_suppressed := ls_suppressed st + 1\<rparr>)
      else if \<not> scratch then Some (0, st)
      else if raw = [] then Some (0, st)
      else let (fmt, ll) = logReformat (io_env io) True (ls_lastLevel st) (take (LOG_RAW_MAX - 1) raw);
               st1 = st\<lparr>ls_lastLevel := ll\<rparr>
           in case fmt of
                None \<Rightarrow> Some (length raw, st1)
              | Some full \<Rightarrow>
                  if length full > LOG_FMT_MAX then None
                  else Some (length raw,
                         logLineOut io (map scrub (take (length full) (take (LOG_FMT_MAX - 1) full @ [CHR 0x00]))) st1))"
proof -
  have "map_option (\<lambda>f. (length raw, logLineOut io (take (length full) f) s))
      (scrubLoop 0 (length full) (take (LOG_FMT_MAX - 1) full @ [CHR 0x00])) =
    (if length full > LOG_FMT_MAX then None
     else Some (length raw, logLineOut io (map scrub (take (length full) (take (LOG_FMT_MAX - 1) full @ [CHR 0x00]))) s))" for full s
    using scrubLoop_fmt [of full]
    by (cases "scrubLoop 0 (length full) (take (LOG_FMT_MAX - 1) full @ [CHR 0x00])") (simp_all only: option.map if_True if_False option.distinct refl simp_thms)
  then show ?thesis unfolding logVprintf_def by (simp only:)
qed

subsection \<open>The log file\<close>

text \<open>The lines of a text with their newlines; the last may have none.\<close>

fun nl_lines :: "string \<Rightarrow> string list" where
  "nl_lines [] = []"
| "nl_lines (c # cs) =
     (if c = NL then [c] # nl_lines cs
      else case nl_lines cs of [] \<Rightarrow> [[c]] | l # ls \<Rightarrow> (c # l) # ls)"

definition fileLine :: "string \<Rightarrow> log_state \<Rightarrow> log_state" where
  "fileLine line st =
     (if levelCharToNum (lineLevel line) \<le> ls_fileLevel st then (emit (ToFile line) st)\<lparr>ls_fileDirty := True\<rparr> else st)"

definition logFileWrite :: "string \<Rightarrow> log_state \<Rightarrow> log_state" where
  "logFileWrite data st = (if \<not> ls_file st then st else fold fileLine (nl_lines data) st)"

definition logFileMsg :: "log_env \<Rightarrow> string \<Rightarrow> log_state \<Rightarrow> log_state" where
  "logFileMsg E msg st =
     (if \<not> ls_file st then st
      else (emit (ToFile (snbuf 256 (snbuf 24 (le_clock E) @ '' I [log] '' @ msg @ [NL]))) st)\<lparr>ls_fileDirty := True\<rparr>)"

definition logFileClose :: "log_env \<Rightarrow> log_state \<Rightarrow> log_state" where
  "logFileClose E st = (if \<not> ls_file st then st else (logFileMsg E ''log file closed'' st)\<lparr>ls_file := False\<rparr>)"

text \<open>\<open>sd\<close> is whether a card is there, \<open>opened\<close> whether the file service opens the stream.\<close>

definition logFileOpen :: "log_io \<Rightarrow> bool \<Rightarrow> bool \<Rightarrow> string \<Rightarrow> log_state \<Rightarrow> log_state" where
  "logFileOpen io sd opened path st =
     (let st1 = logFileClose (io_env io) st
      in if path = [] then st1
         else if take 8 path = ''/sdcard/'' \<and> \<not> sd then st1
         else if \<not> opened then st1
         else logFileMsg (io_env io) ''log file opened'' (st1\<lparr>ls_file := True, ls_lastFlush := io_now io\<rparr>))"

definition logFileFlush :: "log_io \<Rightarrow> log_state \<Rightarrow> log_state" where
  "logFileFlush io st =
     (if \<not> ls_file st \<or> ls_interval st \<le> 0 \<or> \<not> ls_fileDirty st then st
      else if io_now io - ls_lastFlush st < ls_interval st * 1000 then st
      else emit FileSync (st\<lparr>ls_lastFlush := io_now io, ls_fileDirty := False\<rparr>))"

subsection \<open>Consumers\<close>

definition slot_upd :: "nat \<Rightarrow> (log_slot \<Rightarrow> log_slot) \<Rightarrow> log_state \<Rightarrow> log_state" where
  "slot_upd i f st = st\<lparr>ls_slots := (ls_slots st)[i := f (ls_slots st ! i)]\<rparr>"

definition logAllocSlot :: "int \<Rightarrow> log_state \<Rightarrow> nat option \<times> log_state" where
  "logAllocSlot h st =
     (case find (\<lambda>i. sl_handle (ls_slots st ! i) < 0) [0..<LOG_MAX_CONSUMERS] of
        None \<Rightarrow> (None, st)
      | Some i \<Rightarrow> (Some i, slot_upd i (\<lambda>s. s\<lparr>sl_handle := h, sl_lineBuf := [], sl_truncated := False\<rparr>) st))"

text \<open>The payload of a connect is a byte, 0 for colors.\<close>

definition logTcpConnect :: "int \<Rightarrow> string option \<Rightarrow> log_state \<Rightarrow> int \<times> log_state" where
  "logTcpConnect handle payload st =
     (case logAllocSlot handle st of
        (None, st1) \<Rightarrow> (- 1, st1)
      | (Some s, st1) \<Rightarrow>
          (int s, slot_upd s (\<lambda>x. x\<lparr>sl_ansi := (case payload of Some (c # _) \<Rightarrow> c = CHR 0x00 | _ \<Rightarrow> False)\<rparr>) st1))"

fun strstr :: "string \<Rightarrow> string \<Rightarrow> string option" where
  "strstr pat s = (if take (length pat) s = pat then Some s else case s of [] \<Rightarrow> None | _ # r \<Rightarrow> strstr pat r)"

text \<open>The number behind a key of the payload, as the small parser of \<open>logDcConnect\<close> finds it.\<close>

definition protoInt :: "string \<Rightarrow> string \<Rightarrow> int option" where
  "protoInt key proto =
     (case strstr key proto of
        None \<Rightarrow> None
      | Some p \<Rightarrow> if CHR '':'' \<in> set p then Some (atoi (after CHR '':'' p)) else None)"

definition QUOTE :: char where "QUOTE = CHR 0x22"

definition logDcConnect :: "int \<Rightarrow> string option \<Rightarrow> log_state \<Rightarrow> int \<times> log_state" where
  "logDcConnect handle payload st =
     (case logAllocSlot handle st of
        (None, st1) \<Rightarrow> (- 1, st1)
      | (Some s, st1) \<Rightarrow>
          let proto = (case payload of Some d \<Rightarrow> if 0 < length d \<and> length d < 128 then takeWhile (\<lambda>c. c \<noteq> CHR 0x00) d else [] | None \<Rightarrow> []);
              backlog = (case protoInt (QUOTE # ''backlog'' @ [QUOTE]) proto of Some n \<Rightarrow> n | None \<Rightarrow> 0);
              ansi = (protoInt (QUOTE # ''ansi'' @ [QUOTE]) proto \<noteq> Some 0)
          in (int s, slot_upd s (\<lambda>x. x\<lparr>sl_ansi := ansi, sl_pasteBacklog := backlog, sl_pastePending := True\<rparr>) st1))"

definition logOnDisconnect :: "int \<Rightarrow> log_state \<Rightarrow> log_state" where
  "logOnDisconnect ref st =
     (if 0 \<le> ref \<and> ref < int LOG_MAX_CONSUMERS
      then slot_upd (nat ref) (\<lambda>s. s\<lparr>sl_handle := - 1, sl_lineBuf := [], sl_truncated := False, sl_pastePending := False\<rparr>) st
      else st)"

subsection \<open>Lines from consumers\<close>

definition inboundPlain :: "string \<Rightarrow> string" where
  "inboundPlain line = stripAnsi (take (LOG_INBOUND_BUF + 8 - 2) line) @ [NL]"

text \<open>The colored version in a buffer of \<open>LOG_INBOUND_BUF + 64\<close> bytes, \<open>None\<close> when its length is more.\<close>

definition inboundAnsi :: "log_env \<Rightarrow> string \<Rightarrow> string option" where
  "inboundAnsi E line =
     (if containsAnsi line then Some (take (LOG_INBOUND_BUF + 64 - 2) line @ [NL])
      else let out = colorizePreformatted (le_colors E) line
           in if length out > LOG_INBOUND_BUF + 64 then None
              else Some (take (length out) (take (LOG_INBOUND_BUF + 64 - 1) out @ [CHR 0x00])))"

definition inboundTo :: "log_io \<Rightarrow> nat \<Rightarrow> string \<Rightarrow> string \<Rightarrow> nat \<Rightarrow> log_state \<Rightarrow> log_state" where
  "inboundTo io srcSlot plain ansi i st =
     (let s = ls_slots st ! i
      in if i = srcSlot \<or> sl_handle s < 0 \<or> \<not> io_connected io (sl_handle s) then st
         else emit (ToSlot (sl_handle s) (if sl_ansi s then ansi else plain)) st)"

definition inboundDbg :: "log_io \<Rightarrow> nat \<Rightarrow> nat \<Rightarrow> log_state \<Rightarrow> log_state option" where
  "inboundDbg io srcSlot n st =
     (case io_dbg io srcSlot n of None \<Rightarrow> Some st | Some raw \<Rightarrow> map_option snd (logVprintf io True raw st))"

definition inboundOut :: "log_io \<Rightarrow> nat \<Rightarrow> string \<Rightarrow> string \<Rightarrow> log_state \<Rightarrow> log_state" where
  "inboundOut io srcSlot plain ansi st =
     (let st2 = fold (inboundTo io srcSlot plain ansi) [0..<LOG_MAX_CONSUMERS] (logFileWrite plain st)
      in if io_console io then emit (ToConsole ansi) st2 else st2)"

definition logInboundLineOut :: "log_io \<Rightarrow> nat \<Rightarrow> string \<Rightarrow> log_state \<Rightarrow> log_state option" where
  "logInboundLineOut io srcSlot line st =
     (if line = [] then Some st
      else case inboundDbg io srcSlot (length line) st of
             None \<Rightarrow> None
           | Some st0 \<Rightarrow> map_option (\<lambda>ansi. inboundOut io srcSlot (inboundPlain line) ansi st0) (inboundAnsi (io_env io) line))"

definition inboundChar :: "log_io \<Rightarrow> nat \<Rightarrow> char \<Rightarrow> log_state \<Rightarrow> log_state option" where
  "inboundChar io slot c st =
     (let s = ls_slots st ! slot
      in if c = CR then Some st
         else if c = NL
         then map_option (slot_upd slot (\<lambda>x. x\<lparr>sl_lineBuf := [], sl_truncated := False\<rparr>))
                (logInboundLineOut io slot (sl_lineBuf s) st)
         else if length (sl_lineBuf s) + 1 < LOG_INBOUND_BUF
         then Some (slot_upd slot (\<lambda>x. x\<lparr>sl_lineBuf := sl_lineBuf x @ [c]\<rparr>) st)
         else if \<not> sl_truncated s
         then Some (slot_upd slot (\<lambda>x. x\<lparr>sl_truncated := True,
                sl_lineBuf := (let m = length LOG_CUT_MARK; n = length (sl_lineBuf x)
                               in if n \<ge> m then take (n - m) (sl_lineBuf x) @ LOG_CUT_MARK else sl_lineBuf x)\<rparr>) st)
         else Some st)"

fun inboundChars :: "log_io \<Rightarrow> nat \<Rightarrow> string \<Rightarrow> log_state \<Rightarrow> log_state option" where
  "inboundChars io slot [] st = Some st"
| "inboundChars io slot (c # cs) st =
     (case inboundChar io slot c st of None \<Rightarrow> None | Some st1 \<Rightarrow> inboundChars io slot cs st1)"

text \<open>\<open>got\<close> is what \<open>itsRecv\<close> returns for the slot.\<close>

definition logSlotDrainInbound :: "log_io \<Rightarrow> (int \<Rightarrow> string) \<Rightarrow> nat \<Rightarrow> log_state \<Rightarrow> log_state option" where
  "logSlotDrainInbound io got slot st =
     (let h = sl_handle (ls_slots st ! slot)
      in if h < 0 \<or> \<not> io_connected io h then Some st else inboundChars io slot (got h) st)"

subsection \<open>Scroll-back\<close>

text \<open>The level letter in front of a space and a bracket, from position \<open>i \<ge> 1\<close>.\<close>

fun pasteLevel :: "nat \<Rightarrow> string \<Rightarrow> nat option" where
  "pasteLevel i (b # c # d # r) =
     (if c = NL then None
      else if c = CHR '' '' \<and> d = CHR ''['' \<and> level_char b then Some (i - 1)
      else pasteLevel (Suc i) (c # d # r))"
| "pasteLevel i _ = None"

definition pasteLine :: "string list \<Rightarrow> bool \<Rightarrow> string \<Rightarrow> string" where
  "pasteLine colors ansi line =
     (case pasteLevel 1 line of
        Some lp \<Rightarrow>
          if ansi \<and> lp > 0
          then snbuf 24 (ESC # ''['' @ (colors ! 5) @ ''m'') @ take lp line @ snbuf 24 (ESC # ''['' @ logColor colors (line ! lp) @ ''m'')
                 @ drop lp line @ ESC # ''[0m''
          else line
      | None \<Rightarrow> line)"

text \<open>What is written to the output buffer of \<open>got * 2 + 64\<close> bytes; \<open>None\<close> when it is more.\<close>

definition pasteRender :: "string list \<Rightarrow> bool \<Rightarrow> bool \<Rightarrow> string \<Rightarrow> string option" where
  "pasteRender colors ansi mid inp =
     (let body = (if mid then drop 1 (dropWhile (\<lambda>c. c \<noteq> NL) inp) else inp);
          out = concat (map (pasteLine colors ansi) (nl_lines body))
      in if length out > length inp * 2 + 64 then None else Some out)"

definition pasteTake :: "string \<Rightarrow> nat" where
  "pasteTake s =
     (if length s > 1500
      then (let nl = length (dropWhile (\<lambda>c. c \<noteq> NL) (rev (take 1500 s))) in if nl > 0 then nl else 1500)
      else length s)"

lemma pasteTake_pos: "s \<noteq> [] \<Longrightarrow> 0 < pasteTake s"
  by (simp add: pasteTake_def Let_def)

function pasteChunks :: "string \<Rightarrow> string list" where
  "pasteChunks s = (if s = [] then [] else take (pasteTake s) s # pasteChunks (drop (pasteTake s) s))"
  by pat_completeness auto
termination by (relation "measure length") (auto simp: pasteTake_pos)

declare pasteChunks.simps [simp del]

text \<open>
  \<open>paste\<close> is the setting in kB, \<open>content\<close> what the log file holds after the sync (\<open>None\<close> when it does
  not open or the heap has no buffer), \<open>taken\<close> how many packets the client takes. The code asks for
  a stored path; it is there exactly while the file is open.
\<close>

definition logPasteBack :: "log_io \<Rightarrow> int \<Rightarrow> string option \<Rightarrow> nat \<Rightarrow> int \<Rightarrow> int \<Rightarrow> bool \<Rightarrow> log_state \<Rightarrow> log_state option" where
  "logPasteBack io paste content taken handle backlog ansi st =
     (if backlog \<le> 0 \<and> paste \<le> 0 then Some st
      else if \<not> ls_file st then Some st
      else let readSize = nat (if backlog > 0 then backlog else paste * 1024);
               st1 = emit FileSync st
      in case content of
           None \<Rightarrow> Some st1
         | Some file \<Rightarrow>
             let offset = (if length file > readSize then length file - readSize else 0);
                 inp = drop offset file
             in if inp = [] then Some st1
                else case pasteRender (le_colors (io_env io)) ansi (offset > 0) inp of
                       None \<Rightarrow> None
                     | Some out \<Rightarrow> Some (fold (\<lambda>p. emit (ToSlot handle p)) (take taken (pasteChunks out)) st1))"

text \<open>The scroll-back of the clients that connected since the last pass.\<close>

record paste_env =
  pe_paste :: int
  pe_content :: "nat \<Rightarrow> string option"
  pe_taken :: "nat \<Rightarrow> nat"

fun pasteAll :: "log_io \<Rightarrow> paste_env \<Rightarrow> nat list \<Rightarrow> log_state \<Rightarrow> log_state option" where
  "pasteAll io pe [] st = Some st"
| "pasteAll io pe (i # is) st =
     (let s = ls_slots st ! i
      in if sl_pastePending s \<and> sl_handle s \<ge> 0
         then (case logPasteBack io (pe_paste pe) (pe_content pe i) (pe_taken pe i) (sl_handle s) (sl_pasteBacklog s) (sl_ansi s)
                      (slot_upd i (\<lambda>x. x\<lparr>sl_pastePending := False\<rparr>) st) of
                 None \<Rightarrow> None | Some st1 \<Rightarrow> pasteAll io pe is st1)
         else pasteAll io pe is st)"

subsection \<open>A pass of the log task\<close>

definition drainTo :: "log_io \<Rightarrow> string \<Rightarrow> nat \<Rightarrow> log_state \<Rightarrow> log_state" where
  "drainTo io buf i st =
     (let s = ls_slots st ! i
      in if sl_handle s < 0 \<or> \<not> io_connected io (sl_handle s) then st
         else emit (ToSlot (sl_handle s) (if sl_ansi s then buf else stripAnsi buf)) st)"

definition drainChunk :: "log_io \<Rightarrow> bool \<Rightarrow> string \<Rightarrow> log_state \<Rightarrow> log_state" where
  "drainChunk io hasConsumer buf st =
     (let st1 = (if ls_file st then logFileWrite (stripAnsi buf) st else st)
      in if \<not> hasConsumer then st1 else fold (drainTo io buf) [0..<LOG_MAX_CONSUMERS] st1)"

lemma emit_sel [simp]:
  "ls_head (emit x st) = ls_head st" "ls_tail (emit x st) = ls_tail st" "ls_ring (emit x st) = ls_ring st"
  "ls_slots (emit x st) = ls_slots st" "ls_file (emit x st) = ls_file st" "ls_fileLevel (emit x st) = ls_fileLevel st"
  "ls_dropped (emit x st) = ls_dropped st" "ls_suppressed (emit x st) = ls_suppressed st"
  "ls_out (emit x st) = ls_out st @ [x]"
  by (simp_all add: emit_def)

lemma fold_keeps: "(\<And>x st. g (f x st) = g st) \<Longrightarrow> g (fold f xs st) = g st"
  by (induction xs arbitrary: st) auto

lemma fileLine_sel [simp]:
  "ls_head (fileLine l st) = ls_head st" "ls_tail (fileLine l st) = ls_tail st" "ls_ring (fileLine l st) = ls_ring st"
  "ls_slots (fileLine l st) = ls_slots st" "ls_file (fileLine l st) = ls_file st" "ls_fileLevel (fileLine l st) = ls_fileLevel st"
  by (simp_all add: fileLine_def)

lemma logFileWrite_sel [simp]:
  "ls_head (logFileWrite d st) = ls_head st" "ls_tail (logFileWrite d st) = ls_tail st" "ls_ring (logFileWrite d st) = ls_ring st"
  "ls_slots (logFileWrite d st) = ls_slots st" "ls_file (logFileWrite d st) = ls_file st"
  by (simp_all add: logFileWrite_def fold_keeps)

lemma drainTo_sel [simp]:
  "ls_head (drainTo io b i st) = ls_head st" "ls_tail (drainTo io b i st) = ls_tail st" "ls_ring (drainTo io b i st) = ls_ring st"
  "ls_slots (drainTo io b i st) = ls_slots st"
  by (simp_all add: drainTo_def Let_def)

lemma drainChunk_sel [simp]:
  "ls_head (drainChunk io c b st) = ls_head st" "ls_tail (drainChunk io c b st) = ls_tail st"
  "ls_ring (drainChunk io c b st) = ls_ring st" "ls_slots (drainChunk io c b st) = ls_slots st"
  by (simp_all add: drainChunk_def Let_def fold_keeps)

lemma unat_of_nat_le: "n \<le> unat (w :: 'a :: len word) \<Longrightarrow> unat (of_nat n :: 'a word) = n"
proof -
  assume "n \<le> unat w"
  moreover have "unat w < 2 ^ LENGTH('a)" by (rule unsigned_less)
  ultimately have "n < 2 ^ LENGTH('a)" by linarith
  then show ?thesis by (simp add: unat_of_nat take_bit_nat_eq_self)
qed

lemma logRingRead_less:
  assumes "logRingRead m st = (buf, st1)" "0 < m" "0 < unat (ls_head st - ls_tail st)"
  shows "unat (ls_head st1 - ls_tail st1) < unat (ls_head st - ls_tail st)"
proof -
  let ?a = "ls_head st - ls_tail st"
  let ?n = "if unat ?a > m then m else unat ?a"
  have st1: "st1 = st\<lparr>ls_tail := ls_tail st + of_nat ?n\<rparr>" using assms by (simp add: logRingRead_def Let_def split: if_splits)
  have n: "?n \<le> unat ?a" "0 < ?n" using assms by auto
  moreover have u: "unat (of_nat ?n :: u32) = ?n" by (rule unat_of_nat_le [OF n(1)])
  ultimately have "(of_nat ?n :: u32) \<le> ?a" by (simp only: word_le_nat_alt)
  then have "unat (?a - of_nat ?n) = unat ?a - ?n" using u by (simp only: unat_sub)
  then show ?thesis using n assms(3) by (simp add: st1 diff_diff_add [symmetric] split del: if_split)
qed

function logDrain :: "log_io \<Rightarrow> bool \<Rightarrow> log_state \<Rightarrow> log_state" where
  "logDrain io hasConsumer st =
     (case logRingRead 511 st of
        (buf, st1) \<Rightarrow> if unat (ls_head st - ls_tail st) = 0 then st1 else logDrain io hasConsumer (drainChunk io hasConsumer buf st1))"
  by pat_completeness auto
termination
  by (relation "measure (\<lambda>(_, _, st). unat (ls_head st - ls_tail st))") (auto dest: logRingRead_less [OF sym])

declare logDrain.simps [simp del]

definition dropMark :: "u32 \<Rightarrow> string" where
  "dropMark d = snbuf 64 ([NL] @ ''W [log] ring overflow: '' @ nat_str (unat d) @ '' bytes dropped'' @ [NL])"

text \<open>
  From the deferred scroll-back to the end of the loop body: \<open>hasConsumer\<close> is whether a client is
  connected, \<open>got\<close> the bytes each client sent. The line about suppressed lines goes through the
  hook like any other; \<open>warnText\<close> is that line as ESP-IDF renders it.
\<close>

fun drainAllInbound :: "log_io \<Rightarrow> (int \<Rightarrow> string) \<Rightarrow> nat list \<Rightarrow> log_state \<Rightarrow> log_state option" where
  "drainAllInbound io got [] st = Some st"
| "drainAllInbound io got (i # is) st =
     (case logSlotDrainInbound io got i st of None \<Rightarrow> None | Some st1 \<Rightarrow> drainAllInbound io got is st1)"

definition sinkCheck :: "log_io \<Rightarrow> bool \<Rightarrow> log_state \<Rightarrow> bool \<times> log_state" where
  "sinkCheck io hasConsumer st =
     (let wanted = (hasConsumer \<or> ls_file st); live = (wanted \<or> io_wire io)
      in (live \<and> \<not> ls_sinkWas st, st\<lparr>ls_drainWanted := wanted, ls_sinkLive := live, ls_sinkWas := live\<rparr>))"

definition markDropped :: "bool \<Rightarrow> log_state \<Rightarrow> log_state" where
  "markDropped wanted st =
     (if ls_dropped st \<noteq> 0 \<and> wanted then snd (logRingWrite (dropMark (ls_dropped st)) (st\<lparr>ls_dropped := 0\<rparr>)) else st)"

definition markSuppressed :: "log_io \<Rightarrow> bool \<Rightarrow> (u32 \<Rightarrow> string) \<Rightarrow> log_state \<Rightarrow> log_state option" where
  "markSuppressed io arrived warnText st =
     (if arrived \<and> ls_suppressed st \<noteq> 0
      then map_option snd (logVprintf io True (warnText (ls_suppressed st)) (st\<lparr>ls_suppressed := 0\<rparr>))
      else Some st)"

text \<open>The answer of \<open>hasFile\<close> is taken before the inbound lines and used after them.\<close>

definition logPass :: "log_io \<Rightarrow> paste_env \<Rightarrow> bool \<Rightarrow> (int \<Rightarrow> string) \<Rightarrow> (u32 \<Rightarrow> string) \<Rightarrow> log_state \<Rightarrow> log_state option" where
  "logPass io pe hasConsumer got warnText st =
     (case pasteAll io pe [0..<LOG_MAX_CONSUMERS] st of
        None \<Rightarrow> None
      | Some st0 \<Rightarrow>
          let wanted = (hasConsumer \<or> ls_file st0);
              (arrived, st1) = sinkCheck io hasConsumer st0
          in case (if hasConsumer then drainAllInbound io got [0..<LOG_MAX_CONSUMERS] st1 else Some st1) of
               None \<Rightarrow> None
             | Some st2 \<Rightarrow>
                 map_option (logFileFlush io)
                   (markSuppressed io arrived warnText
                      (markDropped wanted (if wanted then logDrain io hasConsumer st2 else st2))))"

subsection \<open>Levels of tags\<close>

text \<open>The level table of ESP-IDF: setting \<open>*\<close> forgets the levels of all tags.\<close>

record esp_levels =
  el_global :: nat
  el_tags :: "string \<rightharpoonup> nat"

definition esp_log_level_set :: "string \<Rightarrow> nat \<Rightarrow> esp_levels \<Rightarrow> esp_levels" where
  "esp_log_level_set tag l L = (if tag = ''*'' then \<lparr>el_global = l, el_tags = Map.empty\<rparr> else L\<lparr>el_tags := (el_tags L)(tag \<mapsto> l)\<rparr>)"

definition esp_log_level_get :: "string \<Rightarrow> esp_levels \<Rightarrow> nat" where
  "esp_log_level_get tag L = (case el_tags L tag of Some l \<Rightarrow> l | None \<Rightarrow> el_global L)"

definition parseEspLevel :: "string \<Rightarrow> nat" where
  "parseEspLevel val =
     (let c = (case val of [] \<Rightarrow> CHR 0x00 | x # _ \<Rightarrow> lower x)
      in if c = CHR ''n'' then 0 else if c = CHR ''e'' then 1 else if c = CHR ''w'' then 2 else if c = CHR ''i'' then 3
         else if c = CHR ''d'' then 4 else if c = CHR ''v'' then 5 else 3)"

definition TAG_DEFAULTS :: nat where "TAG_DEFAULTS = 16"

definition tagDefaultLevel :: "(string \<times> nat) list \<Rightarrow> string \<Rightarrow> nat \<Rightarrow> nat" where
  "tagDefaultLevel defs tag global = (case map_of defs tag of Some l \<Rightarrow> l | None \<Rightarrow> global)"

definition logTagDefault :: "string option \<Rightarrow> string \<Rightarrow> (string \<times> nat) list \<times> esp_levels \<Rightarrow> (string \<times> nat) list \<times> esp_levels" where
  "logTagDefault tag level s =
     (case tag of
        None \<Rightarrow> s
      | Some t \<Rightarrow>
          let lvl = parseEspLevel level
          in if t \<notin> fst ` set (fst s)
             then (if length (fst s) \<ge> TAG_DEFAULTS then s else (fst s @ [(t, lvl)], esp_log_level_set t lvl (snd s)))
             else (map (\<lambda>(x, l). (x, if x = t then lvl else l)) (fst s), esp_log_level_set t lvl (snd s)))"

text \<open>\<open>level\<close> is the setting \<open>s.log.level\<close>, \<open>tags\<close> the settings \<open>s.log.tag.*\<close> in their order.\<close>

definition applyTag :: "(string \<times> nat) list \<Rightarrow> nat \<Rightarrow> string \<times> string \<Rightarrow> esp_levels \<Rightarrow> esp_levels" where
  "applyTag defs global kv L =
     (if snd kv \<noteq> [] \<and> hd (snd kv) = CHR ''-'' then esp_log_level_set (fst kv) (tagDefaultLevel defs (fst kv) global) L
      else esp_log_level_set (fst kv) (parseEspLevel (snd kv)) L)"

definition logApplyLevels :: "string \<Rightarrow> (string \<times> string) list \<Rightarrow> (string \<times> nat) list \<Rightarrow> esp_levels \<Rightarrow> esp_levels" where
  "logApplyLevels level tags defs L =
     (let global = parseEspLevel level;
          L1 = esp_log_level_set ''*'' global L;
          L2 = fold (\<lambda>(t, l). esp_log_level_set t l) defs L1
      in fold (applyTag defs global) tags L2)"

end
