(* ===== verification/Log_Ring.thy ===== *)
theory Log_Ring
  imports Log_Task
begin

section \<open>The log: the ring is a bounded queue\<close>

text \<open>
  The contract of a bounded byte queue as a locale, with its client's theorem about any sequence of
  writes and reads, and the ring of log.cpp as an instance. The counters run freely over 32 bits;
  the ring size divides 2^32, so that the positions stay consecutive when they wrap.
\<close>

subsection \<open>A bounded queue\<close>

datatype ring_op = RPut string | RGet nat

text \<open>The reference: the bytes held, and the count of those that did not fit.\<close>

fun queueRun :: "nat \<Rightarrow> ring_op list \<Rightarrow> string \<times> u32 \<Rightarrow> string list \<times> (string \<times> u32)" where
  "queueRun cap [] s = ([], s)"
| "queueRun cap (RPut d # ops) (q, lost) =
     queueRun cap ops (q @ take (cap - length q) d, lost + of_nat (length d - (cap - length q)))"
| "queueRun cap (RGet n # ops) (q, lost) =
     (let (outs, s) = queueRun cap ops (drop n q, lost) in (take n q # outs, s))"

fun ringRun :: "ring_op list \<Rightarrow> log_state \<Rightarrow> string list \<times> log_state" where
  "ringRun [] st = ([], st)"
| "ringRun (RPut d # ops) st = ringRun ops (snd (logRingWrite d st))"
| "ringRun (RGet n # ops) st =
     (let (out, st1) = logRingRead n st; (outs, st2) = ringRun ops st1 in (out # outs, st2))"

locale bounded_queue =
  fixes put :: "string \<Rightarrow> 's \<Rightarrow> 's" and get :: "nat \<Rightarrow> 's \<Rightarrow> string \<times> 's"
    and held :: "'s \<Rightarrow> string" and lost :: "'s \<Rightarrow> u32" and ok :: "'s \<Rightarrow> bool" and cap :: nat
  assumes put_ok: "ok s \<Longrightarrow> ok (put d s)"
    and put_held: "ok s \<Longrightarrow> held (put d s) = held s @ take (cap - length (held s)) d"
    and put_lost: "ok s \<Longrightarrow> lost (put d s) = lost s + of_nat (length d - (cap - length (held s)))"
    and get_ok: "ok s \<Longrightarrow> ok (snd (get n s))"
    and get_out: "ok s \<Longrightarrow> fst (get n s) = take n (held s)"
    and get_held: "ok s \<Longrightarrow> held (snd (get n s)) = drop n (held s)"
    and get_lost: "ok s \<Longrightarrow> lost (snd (get n s)) = lost s"
begin

fun run :: "ring_op list \<Rightarrow> 's \<Rightarrow> string list \<times> 's" where
  "run [] s = ([], s)"
| "run (RPut d # ops) s = run ops (put d s)"
| "run (RGet n # ops) s = (let (out, s1) = get n s; (outs, s2) = run ops s1 in (out # outs, s2))"

lemma run_refines:
  "ok s \<Longrightarrow> ok (snd (run ops s)) \<and>
     queueRun cap ops (held s, lost s) = (fst (run ops s), held (snd (run ops s)), lost (snd (run ops s)))"
proof (induction ops arbitrary: s)
  case (Cons a ops)
  show ?case
  proof (cases a)
    case (RPut d)
    then show ?thesis
      using Cons.IH [OF put_ok [OF Cons.prems, of d]] by (simp add: put_held [OF Cons.prems] put_lost [OF Cons.prems])
  next
    case (RGet n)
    obtain out s1 where g: "get n s = (out, s1)" by (cases "get n s")
    then have "ok s1" "out = take n (held s)" "held s1 = drop n (held s)" "lost s1 = lost s"
      using get_ok [OF Cons.prems, of n] get_out [OF Cons.prems, of n] get_held [OF Cons.prems, of n]
        get_lost [OF Cons.prems, of n] by auto
    then show ?thesis using Cons.IH [of s1] RGet g by (auto simp: split_beta)
  qed
qed simp

end

text \<open>What the reference promises in turn: first in, first out, and the count of the rest.\<close>

fun accepted :: "nat \<Rightarrow> ring_op list \<Rightarrow> string \<Rightarrow> string" where
  "accepted cap [] q = []"
| "accepted cap (RPut d # ops) q =
     take (cap - length q) d @ accepted cap ops (q @ take (cap - length q) d)"
| "accepted cap (RGet n # ops) q = accepted cap ops (drop n q)"

lemma queueRun_fifo:
  "queueRun cap ops (q, n) = (outs, q', n') \<Longrightarrow> q @ accepted cap ops q = concat outs @ q'"
proof (induction ops arbitrary: q n outs)
  case (Cons a ops)
  show ?case
  proof (cases a)
    case (RPut d)
    then show ?thesis using Cons.IH Cons.prems by fastforce
  next
    case (RGet k)
    then obtain os where "queueRun cap ops (drop k q, n) = (os, q', n')" "outs = take k q # os"
      using Cons.prems by (auto split: prod.splits)
    then show ?thesis using Cons.IH [of "drop k q" n os] RGet by (metis accepted.simps(3) append_assoc append_take_drop_id concat.simps(2))
  qed
qed simp

subsection \<open>The ring of the log\<close>

definition ring_ok :: "log_state \<Rightarrow> bool" where
  "ring_ok st \<longleftrightarrow> length (ls_ring st) = LOG_RING_SIZE \<and> unat (ls_head st - ls_tail st) \<le> LOG_RING_SIZE"

definition held :: "log_state \<Rightarrow> string" where
  "held st = ringGet (ls_ring st) (ls_tail st) (unat (ls_head st - ls_tail st))"

lemma length_ringGet [simp]: "length (ringGet r t n) = n"
  by (induction n arbitrary: t) auto

lemma length_ringPut [simp]: "length (ringPut r h d) = length r"
  by (induction d arbitrary: r h) auto

lemma length_held [simp]: "length (held st) = unat (ls_head st - ls_tail st)"
  by (simp add: held_def)

text \<open>The size divides 2^32, so the index of a counter plus \<open>i\<close> is that of the counter, plus \<open>i\<close>.\<close>

lemma index_add: "unat (t + of_nat i :: u32) mod LOG_RING_SIZE = (unat t + i) mod LOG_RING_SIZE"
proof -
  have "unat (t + of_nat i) = (unat t + i) mod 2 ^ 32"
    by (simp add: unat_word_ariths unat_of_nat take_bit_eq_mod mod_add_right_eq)
  then show ?thesis by (simp add: LOG_RING_SIZE_def mod_mod_cancel)
qed

lemma index_Suc: "(unat (t + 1 :: u32) + i) mod LOG_RING_SIZE = (unat t + Suc i) mod LOG_RING_SIZE"
proof -
  have "unat (t + 1) mod LOG_RING_SIZE = (unat t + 1) mod LOG_RING_SIZE" using index_add [of t 1] by simp
  then have "(unat (t + 1) + i) mod LOG_RING_SIZE = (unat t + 1 + i) mod LOG_RING_SIZE" by (rule mod_add_cong) simp
  then show ?thesis by simp
qed

lemma ringGet_eq: "ringGet r t n = map (\<lambda>i. r ! ((unat t + i) mod LOG_RING_SIZE)) [0..<n]"
proof (induction n arbitrary: t)
  case (Suc n)
  have "ringGet r t (Suc n) = map (\<lambda>i. r ! ((unat t + i) mod LOG_RING_SIZE)) (0 # map Suc [0..<n])"
    by (simp add: Suc.IH index_Suc)
  then show ?case by (simp only: map_Suc_upt upt_conv_Cons [symmetric] zero_less_Suc)
qed simp

lemma ringPut_nth:
  assumes "length r = LOG_RING_SIZE" "length d \<le> LOG_RING_SIZE" "k < LOG_RING_SIZE"
  shows "ringPut r h d ! ((unat h + k) mod LOG_RING_SIZE) = (if k < length d then d ! k else r ! ((unat h + k) mod LOG_RING_SIZE))"
  using assms
proof (induction d arbitrary: r h k)
  case (Cons c d)
  let ?r = "r[unat h mod LOG_RING_SIZE := c]"
  show ?case
  proof (cases k)
    case 0
    let ?m = "LOG_RING_SIZE - 1"
    have m: "(unat (h + 1) + ?m) mod LOG_RING_SIZE = unat h mod LOG_RING_SIZE"
      using index_Suc [of h ?m] by (simp add: LOG_RING_SIZE_def)
    have "ringPut ?r (h + 1) d ! ((unat (h + 1) + ?m) mod LOG_RING_SIZE) = ?r ! ((unat (h + 1) + ?m) mod LOG_RING_SIZE)"
      using Cons.IH [of ?r ?m "h + 1"] Cons.prems by (auto simp: LOG_RING_SIZE_def)
    then have "ringPut ?r (h + 1) d ! (unat h mod LOG_RING_SIZE) = ?r ! (unat h mod LOG_RING_SIZE)" by (simp only: m)
    then show ?thesis using 0 Cons.prems by (simp add: LOG_RING_SIZE_def)
  next
    case (Suc j)
    have "unat h mod LOG_RING_SIZE \<noteq> (unat h + Suc j) mod LOG_RING_SIZE"
      using Suc Cons.prems(3) mod_eq_dvd_iff_nat [of "unat h" "unat h + Suc j" LOG_RING_SIZE] by (auto dest: dvd_imp_le)
    then show ?thesis using Cons.IH [of ?r j "h + 1"] Cons.prems Suc by (simp add: index_Suc)
  qed
qed simp

lemma ring_free: "ring_ok st \<Longrightarrow> unat (of_nat LOG_RING_SIZE - (ls_head st - ls_tail st)) = LOG_RING_SIZE - unat (ls_head st - ls_tail st)"
  by (simp add: ring_ok_def LOG_RING_SIZE_def unat_sub word_le_nat_alt)

text \<open>A write as the bytes that fit, and where they go.\<close>

lemma logRingWrite_eq:
  assumes "ring_ok st"
  shows "snd (logRingWrite d st) =
    st\<lparr>ls_ring := ringPut (ls_ring st) (ls_head st) (take (LOG_RING_SIZE - length (held st)) d),
       ls_head := ls_head st + of_nat (length (take (LOG_RING_SIZE - length (held st)) d)),
       ls_dropped := ls_dropped st + of_nat (length d - (LOG_RING_SIZE - length (held st)))\<rparr>"
  by (simp add: logRingWrite_def Let_def ring_free [OF assms])

lemma unat_add_small:
  assumes "unat (a :: u32) + n \<le> LOG_RING_SIZE"
  shows "unat (a + of_nat n) = unat a + n"
  using assms by (simp add: LOG_RING_SIZE_def unat_word_ariths unat_of_nat take_bit_eq_mod mod_add_right_eq)

lemma logRingWrite_held:
  assumes ok: "ring_ok st"
  shows "held (snd (logRingWrite d st)) = held st @ take (LOG_RING_SIZE - length (held st)) d" "ring_ok (snd (logRingWrite d st))"
proof -
  let ?n = "unat (ls_head st - ls_tail st)" and ?h = "ls_head st" and ?t = "ls_tail st"
  let ?d = "take (LOG_RING_SIZE - ?n) d"
  let ?r = "ringPut (ls_ring st) ?h ?d"
  have n: "?n \<le> LOG_RING_SIZE" "length (ls_ring st) = LOG_RING_SIZE" using ok by (auto simp: ring_ok_def)
  have w: "snd (logRingWrite d st) = st\<lparr>ls_ring := ?r, ls_head := ?h + of_nat (length ?d),
      ls_dropped := ls_dropped st + of_nat (length d - (LOG_RING_SIZE - ?n))\<rparr>"
    by (simp only: logRingWrite_eq [OF ok] length_held)
  have m: "unat (?h + of_nat (length ?d) - ?t) = ?n + length ?d"
    using unat_add_small [of "?h - ?t" "length ?d"] n(1) by (simp add: diff_add_eq [symmetric])
  then show "ring_ok (snd (logRingWrite d st))" unfolding ring_ok_def w using n by simp
  have th: "(unat ?t + (?n + k)) mod LOG_RING_SIZE = (unat ?h + k) mod LOG_RING_SIZE" for k
  proof -
    have "unat ?h mod LOG_RING_SIZE = (unat ?t + ?n) mod LOG_RING_SIZE" using index_add [of ?t ?n] by simp
    then have "(unat ?h + k) mod LOG_RING_SIZE = (unat ?t + ?n + k) mod LOG_RING_SIZE" by (rule mod_add_cong) simp
    then show ?thesis by (simp add: add.assoc)
  qed
  have lower: "(unat ?t + i) mod LOG_RING_SIZE = (unat ?h + (LOG_RING_SIZE - ?n + i)) mod LOG_RING_SIZE" if "i < ?n" for i
  proof -
    have "?n + (LOG_RING_SIZE - ?n + i) = LOG_RING_SIZE + i" using n(1) by simp
    then show ?thesis using th [of "LOG_RING_SIZE - ?n + i"] by (metis add.assoc add.commute mod_add_self2)
  qed
  have old: "?r ! ((unat ?t + i) mod LOG_RING_SIZE) = ls_ring st ! ((unat ?t + i) mod LOG_RING_SIZE)" if "i < ?n" for i
  proof -
    let ?j = "LOG_RING_SIZE - ?n + i"
    have "length ?d \<le> LOG_RING_SIZE" "?j < LOG_RING_SIZE" "\<not> ?j < length ?d" using n(1) that by auto
    then show ?thesis using ringPut_nth [OF n(2), of ?d ?j ?h] by (simp only: lower [OF that] if_False)
  qed
  have new: "?r ! ((unat ?t + (?n + k)) mod LOG_RING_SIZE) = ?d ! k" if "k < length ?d" for k
  proof -
    have "length ?d \<le> LOG_RING_SIZE" "k < LOG_RING_SIZE" using that by auto
    then show ?thesis using ringPut_nth [OF n(2), of ?d k ?h] that by (simp only: th if_True)
  qed
  have "held (snd (logRingWrite d st)) = ringGet ?r ?t (unat (?h + of_nat (length ?d) - ?t))" unfolding held_def w by simp
  also have "\<dots> = ringGet ?r ?t (?n + length ?d)" by (simp only: m)
  also have "\<dots> = held st @ ?d"
  proof (rule nth_equalityI)
    fix i
    assume i: "i < length (ringGet ?r ?t (?n + length ?d))"
    show "ringGet ?r ?t (?n + length ?d) ! i = (held st @ ?d) ! i"
    proof (cases "i < ?n")
      case True
      then show ?thesis by (simp add: held_def ringGet_eq nth_append old)
    next
      case False
      then have "i - ?n < length ?d" "?n + (i - ?n) = i" using i by auto
      then have "?r ! ((unat ?t + i) mod LOG_RING_SIZE) = ?d ! (i - ?n)" using new [of "i - ?n"] by (simp only:)
      then show ?thesis using i False by (simp add: held_def ringGet_eq nth_append)
    qed
  qed simp
  finally show "held (snd (logRingWrite d st)) = held st @ take (LOG_RING_SIZE - length (held st)) d" by simp
qed

lemma logRingRead_eq:
  "logRingRead n st = (take n (held st), st\<lparr>ls_tail := ls_tail st + of_nat (min n (length (held st)))\<rparr>)"
  by (auto simp: logRingRead_def Let_def held_def ringGet_eq take_map min_def)

lemma logRingRead_held:
  assumes ok: "ring_ok st"
  shows "held (snd (logRingRead n st)) = drop n (held st)" "ring_ok (snd (logRingRead n st))"
proof -
  let ?k = "unat (ls_head st - ls_tail st)" and ?m = "min n (unat (ls_head st - ls_tail st))" and ?t = "ls_tail st"
  have u: "unat (of_nat ?m :: u32) = ?m" by (rule unat_of_nat_le [where w = "ls_head st - ?t"]) simp
  then have "(of_nat ?m :: u32) \<le> ls_head st - ?t" by (simp add: word_le_nat_alt)
  then have d: "unat (ls_head st - (?t + of_nat ?m)) = ?k - ?m" using u by (simp only: unat_sub diff_diff_add [symmetric])
  then show "ring_ok (snd (logRingRead n st))" using ok by (auto simp: logRingRead_eq ring_ok_def)
  have i: "(unat (?t + of_nat ?m) + i) mod LOG_RING_SIZE = (unat ?t + (?m + i)) mod LOG_RING_SIZE" for i
  proof -
    have "(unat (?t + of_nat ?m) + i) mod LOG_RING_SIZE = (unat ?t + ?m + i) mod LOG_RING_SIZE"
      by (rule mod_add_cong [OF index_add]) simp
    then show ?thesis by (simp add: add.assoc)
  qed
  have "held (snd (logRingRead n st)) = ringGet (ls_ring st) (?t + of_nat ?m) (?k - ?m)"
    by (simp add: logRingRead_eq held_def d)
  also have "\<dots> = drop ?m (held st)"
    unfolding held_def ringGet_eq i drop_map by (rule nth_equalityI) auto
  finally show "held (snd (logRingRead n st)) = drop n (held st)" by (simp add: min_def split: if_splits)
qed

interpretation logq: bounded_queue "\<lambda>d st. snd (logRingWrite d st)" logRingRead held ls_dropped ring_ok LOG_RING_SIZE
proof unfold_locales
  fix st d
  assume ok: "ring_ok st"
  show "ls_dropped (snd (logRingWrite d st)) = ls_dropped st + of_nat (length d - (LOG_RING_SIZE - length (held st)))"
    by (simp add: logRingWrite_eq [OF ok])
qed (simp_all add: logRingWrite_held logRingRead_held, simp_all add: logRingRead_eq)

lemma ringRun_run: "ringRun ops st = logq.run ops st"
  by (induction ops st rule: ringRun.induct) (auto split: prod.splits)

end
