(* ===== verification/Log_Pass.thy ===== *)
theory Log_Pass
  imports Log_Ring Stream_Consumer
begin

section \<open>The log: what a pass delivers and takes in\<close>

text \<open>
  What the drain of the ring sends to a client and to the file, as functions of the bytes the ring
  held, and the marker for bytes that were dropped.
\<close>

definition toSlot :: "int \<Rightarrow> log_out \<Rightarrow> string" where
  "toSlot h x = (case x of ToSlot h' d \<Rightarrow> if h' = h then d else [] | _ \<Rightarrow> [])"

definition toFile :: "log_out \<Rightarrow> string" where
  "toFile x = (case x of ToFile d \<Rightarrow> d | _ \<Rightarrow> [])"

definition sentTo :: "int \<Rightarrow> log_state \<Rightarrow> string" where
  "sentTo h st = concat (map (toSlot h) (ls_out st))"

definition filed :: "log_state \<Rightarrow> string" where
  "filed st = concat (map toFile (ls_out st))"

text \<open>The pieces the drain takes the ring's contents out in.\<close>

function chunks :: "nat \<Rightarrow> string \<Rightarrow> string list" where
  "chunks n s = (if s = [] \<or> n = 0 then [] else take n s # chunks n (drop n s))"
  by pat_completeness auto
termination by (relation "measure (\<lambda>(n, s). length s)") auto

declare chunks.simps [simp del]

lemma concat_chunks: "0 < n \<Longrightarrow> concat (chunks n s) = s"
  by (induction n s rule: chunks.induct) (subst chunks.simps, simp)

definition stripped :: "string \<Rightarrow> string" where
  "stripped s = concat (map stripAnsi (chunks 511 s))"

lemma stripped_step: "s \<noteq> [] \<Longrightarrow> stripped s = stripAnsi (take 511 s) @ stripped (drop 511 s)"
  unfolding stripped_def by (subst chunks.simps) simp

lemma stripped_Nil [simp]: "stripped [] = []"
  by (simp add: stripped_def chunks.simps)

lemma sentTo_emit: "sentTo h (emit x st) = sentTo h st @ toSlot h x" "filed (emit x st) = filed st @ toFile x"
  by (simp_all add: sentTo_def filed_def)

subsection \<open>One chunk\<close>

definition slot_takes :: "log_io \<Rightarrow> log_state \<Rightarrow> nat \<Rightarrow> int \<Rightarrow> bool" where
  "slot_takes io st i h \<longleftrightarrow> i < LOG_MAX_CONSUMERS \<and> 0 \<le> h \<and> io_connected io h \<and>
     sl_handle (ls_slots st ! i) = h \<and> (\<forall>j < LOG_MAX_CONSUMERS. j \<noteq> i \<longrightarrow> sl_handle (ls_slots st ! j) \<noteq> h)"

lemma drainTo_fold:
  assumes "slot_takes io st i h" "distinct is" "set is \<subseteq> {0..<LOG_MAX_CONSUMERS}"
  shows "sentTo h (fold (drainTo io buf) is st) =
           sentTo h st @ (if i \<in> set is then (if sl_ansi (ls_slots st ! i) then buf else stripAnsi buf) else [])"
  using assms
proof (induction "is" arbitrary: st)
  case (Cons k ks)
  have t: "slot_takes io (drainTo io buf k st) i h" using Cons.prems(1) by (simp add: slot_takes_def)
  have "sentTo h (drainTo io buf k st) = sentTo h st @ (if k = i then (if sl_ansi (ls_slots st ! i) then buf else stripAnsi buf) else [])"
    using Cons.prems by (auto simp: drainTo_def Let_def slot_takes_def sentTo_emit toSlot_def)
  then show ?case using Cons.IH [OF t] Cons.prems by auto
qed simp

lemma fold_filed: "(\<And>x st. filed (f x st) = filed st) \<Longrightarrow> filed (fold f xs st) = filed st"
  by (rule fold_keeps)

lemma filed_drainTo: "filed (drainTo io buf k st) = filed st"
  by (simp add: drainTo_def Let_def sentTo_emit toFile_def)

lemma fileLine_outs: "sentTo h (fileLine l st) = sentTo h st" "ls_fileLevel st \<ge> 4 \<Longrightarrow> filed (fileLine l st) = filed st @ l"
  by (auto simp: fileLine_def sentTo_def filed_def emit_def toSlot_def toFile_def levelCharToNum_def)

lemma concat_nl_lines: "concat (nl_lines s) = s"
  by (induction s) (auto split: list.split)

lemma logFileWrite_outs:
  "sentTo h (logFileWrite d st) = sentTo h st"
  "ls_file st \<Longrightarrow> ls_fileLevel st \<ge> 4 \<Longrightarrow> filed (logFileWrite d st) = filed st @ d"
proof -
  show "sentTo h (logFileWrite d st) = sentTo h st" by (simp add: logFileWrite_def fold_keeps fileLine_outs)
  have "ls_fileLevel st \<ge> 4 \<Longrightarrow> filed (fold fileLine ls st) = filed st @ concat ls" for ls
    by (induction ls arbitrary: st) (simp_all add: fileLine_outs)
  then show "ls_file st \<Longrightarrow> ls_fileLevel st \<ge> 4 \<Longrightarrow> filed (logFileWrite d st) = filed st @ d"
    by (simp add: logFileWrite_def concat_nl_lines)
qed

lemma drainChunk_keeps [simp]:
  "ls_file (drainChunk io c b st) = ls_file st" "ls_fileLevel (drainChunk io c b st) = ls_fileLevel st"
  "ls_dropped (drainChunk io c b st) = ls_dropped st"
proof -
  have d: "ls_file (drainTo io b i st) = ls_file st" "ls_fileLevel (drainTo io b i st) = ls_fileLevel st"
    "ls_dropped (drainTo io b i st) = ls_dropped st" for i st
    by (simp_all add: drainTo_def Let_def)
  have "ls_fileLevel (logFileWrite x s) = ls_fileLevel s" "ls_dropped (logFileWrite x s) = ls_dropped s" for x s
    by (simp_all add: logFileWrite_def fold_keeps fileLine_def)
  then show "ls_file (drainChunk io c b st) = ls_file st" "ls_fileLevel (drainChunk io c b st) = ls_fileLevel st"
    "ls_dropped (drainChunk io c b st) = ls_dropped st"
    by (simp_all add: drainChunk_def Let_def fold_keeps d)
qed

lemma drainChunk_sent:
  assumes "slot_takes io st i h"
  shows "sentTo h (drainChunk io True buf st) = sentTo h st @ (if sl_ansi (ls_slots st ! i) then buf else stripAnsi buf)"
proof -
  let ?st = "if ls_file st then logFileWrite (stripAnsi buf) st else st"
  have t: "slot_takes io ?st i h" using assms by (simp add: slot_takes_def)
  have "i < LOG_MAX_CONSUMERS" using assms by (simp add: slot_takes_def)
  then show ?thesis using drainTo_fold [OF t, of "[0..<LOG_MAX_CONSUMERS]" buf] by (auto simp: drainChunk_def Let_def logFileWrite_outs)
qed

lemma drainChunk_filed:
  assumes "ls_file st" "ls_fileLevel st \<ge> 4"
  shows "filed (drainChunk io c buf st) = filed st @ stripAnsi buf"
  using assms by (simp add: drainChunk_def Let_def fold_keeps filed_drainTo logFileWrite_outs)

lemma ring_frame:
  assumes "ls_ring st' = ls_ring st" "ls_head st' = ls_head st" "ls_tail st' = ls_tail st"
  shows "held st' = held st" "ring_ok st' = ring_ok st"
  using assms by (simp_all add: held_def ring_ok_def)

subsection \<open>The whole drain\<close>

lemma logDrain_step:
  "logDrain io c st =
     (if held st = [] then st
      else logDrain io c (drainChunk io c (take 511 (held st)) (snd (logRingRead 511 st))))"
proof -
  have "held st = [] \<longleftrightarrow> unat (ls_head st - ls_tail st) = 0" by (metis length_0_conv length_held)
  then show ?thesis by (subst logDrain.simps) (auto simp: logRingRead_eq)
qed

lemma logDrain_outs:
  assumes "ring_ok st"
  shows "held (logDrain io c st) = [] \<and> ring_ok (logDrain io c st) \<and> ls_dropped (logDrain io c st) = ls_dropped st \<and>
    (c \<longrightarrow> slot_takes io st i h \<longrightarrow> sentTo h (logDrain io c st) = sentTo h st @ (if sl_ansi (ls_slots st ! i) then held st else stripped (held st))) \<and>
    (ls_file st \<longrightarrow> ls_fileLevel st \<ge> 4 \<longrightarrow> filed (logDrain io c st) = filed st @ stripped (held st))"
  using assms
proof (induction "length (held st)" arbitrary: st rule: less_induct)
  case less
  show ?case
  proof (cases "held st = []")
    case True
    then show ?thesis using less.prems by (subst (1 2 3 4 5) logDrain_step) simp
  next
    case False
    let ?r = "snd (logRingRead 511 st)"
    let ?st = "drainChunk io c (take 511 (held st)) ?r"
    have r: "held ?r = drop 511 (held st)" "ring_ok ?r" using logRingRead_held [OF less.prems] by auto
    have same: "ls_slots ?r = ls_slots st" "ls_out ?r = ls_out st" "ls_file ?r = ls_file st" "ls_fileLevel ?r = ls_fileLevel st"
      "ls_dropped ?r = ls_dropped st" by (simp_all add: logRingRead_eq)
    have f: "held ?st = drop 511 (held st)" "ring_ok ?st" using r ring_frame [of ?st ?r] by auto
    have s: "sentTo h ?r = sentTo h st" "filed ?r = filed st" using same by (simp_all add: sentTo_def filed_def)
    have t: "slot_takes io ?st i h = slot_takes io st i h" "slot_takes io ?r i h = slot_takes io st i h" using same by (simp_all add: slot_takes_def)
    have step: "logDrain io c st = logDrain io c ?st" using False by (subst logDrain_step) simp
    have IH: "held (logDrain io c ?st) = [] \<and> ring_ok (logDrain io c ?st) \<and> ls_dropped (logDrain io c ?st) = ls_dropped ?st \<and>
      (c \<longrightarrow> slot_takes io ?st i h \<longrightarrow> sentTo h (logDrain io c ?st) = sentTo h ?st @ (if sl_ansi (ls_slots ?st ! i) then held ?st else stripped (held ?st))) \<and>
      (ls_file ?st \<longrightarrow> ls_fileLevel ?st \<ge> 4 \<longrightarrow> filed (logDrain io c ?st) = filed ?st @ stripped (held ?st))"
      using less.hyps [of ?st] False f by (simp add: length_greater_0_conv [symmetric] del: length_greater_0_conv length_held)
    have sent: "c \<Longrightarrow> slot_takes io st i h \<Longrightarrow> sentTo h ?st = sentTo h st @ (if sl_ansi (ls_slots st ! i) then take 511 (held st) else stripAnsi (take 511 (held st)))"
      using drainChunk_sent [of io ?r i h "take 511 (held st)"] t s same by simp
    have fl: "ls_file st \<Longrightarrow> ls_fileLevel st \<ge> 4 \<Longrightarrow> filed ?st = filed st @ stripAnsi (take 511 (held st))"
      using drainChunk_filed [of ?r io c "take 511 (held st)"] s same by simp
    show ?thesis unfolding step using IH sent fl f t same by (auto simp: stripped_step [OF False])
  qed
qed

lemma length_nat_str: "n < 10 ^ k \<Longrightarrow> 0 < k \<Longrightarrow> length (nat_str n) \<le> k"
proof (induction k arbitrary: n)
  case (Suc k)
  show ?case
  proof (cases "n < 10")
    case False
    then have "n div 10 < 10 ^ k" "0 < k" using Suc.prems by (auto simp: less_mult_imp_div_less mult.commute intro: gr0I)
    then show ?thesis using Suc.IH [of "n div 10"] False by (subst nat_str.simps) simp
  qed (subst nat_str.simps, simp)
qed simp

lemma markDropped_held:
  assumes "ring_ok st" "held st = []"
  shows "held (markDropped True st) = (if ls_dropped st = 0 then [] else dropMark (ls_dropped st))" "ls_dropped (markDropped True st) = 0"
proof -
  let ?st = "st\<lparr>ls_dropped := 0\<rparr>"
  have f: "held ?st = []" "ring_ok ?st" using assms by (simp_all add: held_def ring_ok_def)
  have l: "length (dropMark d) \<le> LOG_RING_SIZE" for d by (simp add: dropMark_def snbuf_def LOG_RING_SIZE_def)
  then have d: "held (snd (logRingWrite (dropMark (ls_dropped st)) ?st)) = dropMark (ls_dropped st)"
    using logRingWrite_held(1) [OF f(2), of "dropMark (ls_dropped st)"] by (simp only: f(1)) simp
  show "held (markDropped True st) = (if ls_dropped st = 0 then [] else dropMark (ls_dropped st))"
    using assms(2) by (simp only: markDropped_def d if_True if_False HOL.simp_thms split: if_split) simp
  show "ls_dropped (markDropped True st) = 0"
    using logRingWrite_eq [OF f(2), of "dropMark (ls_dropped st)"] f(1) l by (simp add: markDropped_def)
qed

lemma dropMark_whole: "dropMark d = [NL] @ ''W [log] ring overflow: '' @ nat_str (unat d) @ '' bytes dropped'' @ [NL]"
proof -
  have "unat d < 2 ^ LENGTH(32)" by (rule unsigned_less)
  then have "length (nat_str (unat d)) \<le> 10" by (intro length_nat_str) simp_all
  then show ?thesis by (simp add: dropMark_def snbuf_def)
qed

section \<open>The log: lines from clients\<close>

text \<open>
  The byte-wise assembly of inbound lines equals cutting the stream at its newlines and handing on
  each line, whatever packets the stream comes in; the buffers of the fan-out are large enough.
\<close>

subsection \<open>The reference\<close>

definition cutLine :: "string \<Rightarrow> string" where
  "cutLine l = (let t = filter (\<lambda>c. c \<noteq> CR) l in if length t < LOG_INBOUND_BUF then t else take 502 t @ LOG_CUT_MARK)"

fun lineRun :: "log_io \<Rightarrow> nat \<Rightarrow> string list \<Rightarrow> log_state \<Rightarrow> log_state option" where
  "lineRun io slot [] st = Some st"
| "lineRun io slot (l # ls) st =
     (case logInboundLineOut io slot (cutLine l) st of None \<Rightarrow> None | Some st1 \<Rightarrow> lineRun io slot ls st1)"

definition inboundPackets :: "log_io \<Rightarrow> nat \<Rightarrow> string list \<Rightarrow> log_state \<Rightarrow> log_state option" where
  "inboundPackets io slot ps st = foldl (\<lambda>s p. Option.bind s (inboundChars io slot p)) (Some st) ps"

subsection \<open>Packets do not matter\<close>

lemma inboundChars_append: "inboundChars io slot (xs @ ys) st = Option.bind (inboundChars io slot xs st) (inboundChars io slot ys)"
  by (induction xs arbitrary: st) (auto split: option.split)

interpretation inbound: stream_consumer "\<lambda>_. True" "\<lambda>s p. Option.bind s (inboundChars io slot p)" for io slot
proof unfold_locales
  fix s :: "log_state option"
  show "Option.bind s (inboundChars io slot []) = s" by (cases s) auto
  show "Option.bind s (inboundChars io slot (xs @ ys)) = Option.bind (Option.bind s (inboundChars io slot xs)) (inboundChars io slot ys)" for xs ys
    by (cases s) (simp_all add: inboundChars_append)
qed simp

lemma inboundPackets_concat: "inboundPackets io slot ps st = inboundChars io slot (concat ps) st"
  unfolding inboundPackets_def by (subst inbound.feed_chunks) simp_all

subsection \<open>The line buffer\<close>

definition accStep :: "char \<Rightarrow> string \<times> bool \<Rightarrow> string \<times> bool" where
  "accStep c bt = (case bt of (b, t) \<Rightarrow>
     if c = CR then (b, t) else if length b + 1 < LOG_INBOUND_BUF then (b @ [c], t)
     else if \<not> t then (take (length b - 9) b @ LOG_CUT_MARK, True) else (b, t))"

lemma acc_line:
  "fold accStep l ([], False) =
     (let t = filter (\<lambda>c. c \<noteq> CR) l
      in if length t < LOG_INBOUND_BUF then (t, False) else (take 502 t @ LOG_CUT_MARK, True))"
proof (induction l rule: rev_induct)
  case (snoc c l)
  let ?t = "filter (\<lambda>c. c \<noteq> CR) l"
  have m: "length LOG_CUT_MARK = 9" "LOG_INBOUND_BUF = 512" by (simp_all add: LOG_CUT_MARK_def LOG_INBOUND_BUF_def)
  consider "c = CR" | "c \<noteq> CR" "length ?t < 511" | "c \<noteq> CR" "length ?t = 511" | "c \<noteq> CR" "length ?t > 511" by linarith
  then show ?case
    by cases (use snoc m in \<open>simp_all add: Let_def accStep_def\<close>)
qed (simp add: LOG_INBOUND_BUF_def)

definition buf_of :: "nat \<Rightarrow> string \<times> bool \<Rightarrow> log_state \<Rightarrow> log_state" where
  "buf_of slot bt st = slot_upd slot (\<lambda>x. x\<lparr>sl_lineBuf := fst bt, sl_truncated := snd bt\<rparr>) st"

lemma slot_fields_commute: "x\<lparr>sl_truncated := t, sl_lineBuf := b\<rparr> = x\<lparr>sl_lineBuf := b, sl_truncated := t\<rparr>"
  by (cases x) simp

lemma inboundChar_acc:
  assumes "slot < length (ls_slots st)" "c \<noteq> NL"
  shows "inboundChar io slot c (buf_of slot bt st) = Some (buf_of slot (accStep c bt) st)"
proof -
  have "length LOG_CUT_MARK = 9" "LOG_INBOUND_BUF = 512" by (simp_all add: LOG_CUT_MARK_def LOG_INBOUND_BUF_def)
  then show ?thesis using assms
    by (cases bt) (auto simp: inboundChar_def buf_of_def slot_upd_def accStep_def Let_def slot_fields_commute)
qed

lemma inboundChars_acc:
  assumes "slot < length (ls_slots st)" "NL \<notin> set l"
  shows "inboundChars io slot l (buf_of slot bt st) = Some (buf_of slot (fold accStep l bt) st)"
  using assms
proof (induction l arbitrary: bt)
  case (Cons c l)
  then have "c \<noteq> NL" by auto
  then show ?case using Cons by (simp add: inboundChar_acc)
qed simp

subsection \<open>The fan-out looks at handles and colors only\<close>

definition same_view :: "log_slot list \<Rightarrow> log_slot list \<Rightarrow> bool" where
  "same_view S S' \<longleftrightarrow> (\<forall>i. sl_handle (S ! i) = sl_handle (S' ! i) \<and> sl_ansi (S ! i) = sl_ansi (S' ! i))"

lemma emit_slots: "emit x (st\<lparr>ls_slots := S\<rparr>) = (emit x st)\<lparr>ls_slots := S\<rparr>"
  by (simp add: emit_def)

lemma logRingWrite_slots:
  "logRingWrite d (st\<lparr>ls_slots := S\<rparr>) = (fst (logRingWrite d st), (snd (logRingWrite d st))\<lparr>ls_slots := S\<rparr>)"
  "ls_slots (snd (logRingWrite d st)) = ls_slots st"
  by (simp_all add: logRingWrite_def Let_def)

lemma logLineOut_slots:
  "logLineOut io f (st\<lparr>ls_slots := S\<rparr>) = (logLineOut io f st)\<lparr>ls_slots := S\<rparr>" "ls_slots (logLineOut io f st) = ls_slots st"
  by (simp_all add: logLineOut_def Let_def logRingWrite_slots emit_slots)

lemma logVprintf_slots:
  "logVprintf io sc raw (st\<lparr>ls_slots := S\<rparr>) = map_option (\<lambda>(n, s). (n, s\<lparr>ls_slots := S\<rparr>)) (logVprintf io sc raw st)"
proof (cases "logReformat (io_env io) True (ls_lastLevel st) (take (LOG_RAW_MAX - 1) raw)")
  case (Pair f ll)
  have "st\<lparr>ls_lastLevel := ll, ls_slots := S\<rparr> = st\<lparr>ls_slots := S, ls_lastLevel := ll\<rparr>"
    "st\<lparr>ls_suppressed := n, ls_slots := S\<rparr> = st\<lparr>ls_slots := S, ls_suppressed := n\<rparr>" for n by (cases st; simp)+
  note c = this [symmetric]
  show ?thesis
    by (cases f) (simp_all add: logVprintf_eq logNowhereToGo_def Pair [simplified] c logLineOut_slots)
qed

lemma logVprintf_keeps: "logVprintf io sc raw st = Some (n, st') \<Longrightarrow> ls_slots st' = ls_slots st"
  by (cases "logReformat (io_env io) True (ls_lastLevel st) (take (LOG_RAW_MAX - 1) raw)")
    (auto simp: logVprintf_eq Let_def logLineOut_slots split: option.splits if_splits)

lemma logFileWrite_slots: "logFileWrite d (st\<lparr>ls_slots := S\<rparr>) = (logFileWrite d st)\<lparr>ls_slots := S\<rparr>"
proof -
  have "fileLine l (st\<lparr>ls_slots := S\<rparr>) = (fileLine l st)\<lparr>ls_slots := S\<rparr>" for l st by (simp add: fileLine_def emit_def)
  then have "fold fileLine ls (st\<lparr>ls_slots := S\<rparr>) = (fold fileLine ls st)\<lparr>ls_slots := S\<rparr>" for ls st
    by (induction ls arbitrary: st) simp_all
  then show ?thesis by (simp add: logFileWrite_def)
qed

lemma inboundTo_slots:
  assumes "same_view (ls_slots st) S"
  shows "fold (inboundTo io src p a) is (st\<lparr>ls_slots := S\<rparr>) = (fold (inboundTo io src p a) is st)\<lparr>ls_slots := S\<rparr>"
    "ls_slots (fold (inboundTo io src p a) is st) = ls_slots st"
proof -
  have k: "ls_slots (inboundTo io src p a i st) = ls_slots st" for i st by (simp add: inboundTo_def Let_def)
  then show "ls_slots (fold (inboundTo io src p a) is st) = ls_slots st" by (rule fold_keeps)
  show "fold (inboundTo io src p a) is (st\<lparr>ls_slots := S\<rparr>) = (fold (inboundTo io src p a) is st)\<lparr>ls_slots := S\<rparr>"
    using assms
  proof (induction "is" arbitrary: st)
    case (Cons i "is")
    have "inboundTo io src p a i (st\<lparr>ls_slots := S\<rparr>) = (inboundTo io src p a i st)\<lparr>ls_slots := S\<rparr>"
      using Cons.prems by (simp add: inboundTo_def Let_def same_view_def emit_slots)
    then show ?case using Cons.IH [of "inboundTo io src p a i st"] Cons.prems by (simp add: k)
  qed simp
qed

lemma inboundOut_slots:
  assumes "same_view (ls_slots st) S"
  shows "inboundOut io src p a (st\<lparr>ls_slots := S\<rparr>) = (inboundOut io src p a st)\<lparr>ls_slots := S\<rparr>"
    "ls_slots (inboundOut io src p a st) = ls_slots st"
proof -
  have v: "same_view (ls_slots (logFileWrite p st)) S" using assms by simp
  show "inboundOut io src p a (st\<lparr>ls_slots := S\<rparr>) = (inboundOut io src p a st)\<lparr>ls_slots := S\<rparr>"
    by (simp add: inboundOut_def Let_def logFileWrite_slots inboundTo_slots(1) [OF v] emit_slots)
  show "ls_slots (inboundOut io src p a st) = ls_slots st" by (simp add: inboundOut_def Let_def inboundTo_slots(2) [OF v])
qed

lemma inboundDbg_slots:
  "inboundDbg io src n (st\<lparr>ls_slots := S\<rparr>) = map_option (\<lambda>s. s\<lparr>ls_slots := S\<rparr>) (inboundDbg io src n st)"
  "inboundDbg io src n st = Some st' \<Longrightarrow> ls_slots st' = ls_slots st"
  by (auto simp: inboundDbg_def logVprintf_slots option.map_comp comp_def split_beta dest: logVprintf_keeps split: option.splits)

lemma logInboundLineOut_slots:
  assumes v: "same_view (ls_slots st) S"
  shows "logInboundLineOut io src l (st\<lparr>ls_slots := S\<rparr>) = map_option (\<lambda>s. s\<lparr>ls_slots := S\<rparr>) (logInboundLineOut io src l st)"
    "logInboundLineOut io src l st = Some st' \<Longrightarrow> ls_slots st' = ls_slots st"
proof -
  consider "inboundDbg io src (length l) st = None" | s where "inboundDbg io src (length l) st = Some s" "ls_slots s = ls_slots st"
    using inboundDbg_slots(2) by (cases "inboundDbg io src (length l) st") auto
  note c = this
  show "logInboundLineOut io src l (st\<lparr>ls_slots := S\<rparr>) = map_option (\<lambda>s. s\<lparr>ls_slots := S\<rparr>) (logInboundLineOut io src l st)"
    using c v by cases (simp_all add: logInboundLineOut_def inboundDbg_slots(1) inboundOut_slots option.map_comp comp_def)
  show "logInboundLineOut io src l st = Some st' \<Longrightarrow> ls_slots st' = ls_slots st"
    using c v by cases (auto simp: logInboundLineOut_def inboundOut_slots split: if_splits)
qed

subsection \<open>One line, all lines\<close>

lemma inbound_line:
  assumes "slot < length (ls_slots st)" "sl_lineBuf (ls_slots st ! slot) = []" "\<not> sl_truncated (ls_slots st ! slot)" "NL \<notin> set l"
  shows "inboundChars io slot (l @ [NL]) st = logInboundLineOut io slot (cutLine l) st"
proof -
  define bt where "bt = fold accStep l ([], False)"
  let ?S = "(ls_slots st)[slot := (ls_slots st ! slot)\<lparr>sl_lineBuf := cutLine l, sl_truncated := snd bt\<rparr>]"
  have s0: "buf_of slot ([], False) st = st"
  proof -
    have "(ls_slots st ! slot)\<lparr>sl_lineBuf := [], sl_truncated := False\<rparr> = ls_slots st ! slot"
      using assms(2,3) by (cases "ls_slots st ! slot") simp
    then show ?thesis by (simp add: buf_of_def slot_upd_def)
  qed
  have cut: "fst bt = cutLine l" by (simp add: bt_def acc_line cutLine_def Let_def)
  have b: "buf_of slot bt st = st\<lparr>ls_slots := ?S\<rparr>" by (simp add: buf_of_def slot_upd_def cut)
  have view: "same_view (ls_slots st) ?S" using assms(1) by (auto simp: same_view_def nth_list_update)
  have "inboundChars io slot l st = Some (st\<lparr>ls_slots := ?S\<rparr>)"
    using inboundChars_acc [OF assms(1,4), of io "([], False)"] by (simp add: s0 b bt_def [symmetric])
  then have "inboundChars io slot (l @ [NL]) st = inboundChar io slot NL (st\<lparr>ls_slots := ?S\<rparr>)"
    by (simp add: inboundChars_append split: option.split)
  also have "\<dots> = map_option (slot_upd slot (\<lambda>x. x\<lparr>sl_lineBuf := [], sl_truncated := False\<rparr>))
      (map_option (\<lambda>s. s\<lparr>ls_slots := ?S\<rparr>) (logInboundLineOut io slot (cutLine l) st))"
    using assms(1) by (simp add: inboundChar_def logInboundLineOut_slots(1) [OF view])
  also have "\<dots> = logInboundLineOut io slot (cutLine l) st"
  proof (cases "logInboundLineOut io slot (cutLine l) st")
    case (Some s)
    then have "ls_slots s = ls_slots st" by (rule logInboundLineOut_slots(2) [OF view])
    moreover have "(ls_slots st ! slot)\<lparr>sl_lineBuf := [], sl_truncated := False\<rparr> = ls_slots st ! slot"
      using assms(2,3) by (cases "ls_slots st ! slot") simp
    ultimately show ?thesis using Some assms(1) by (cases s) (simp add: slot_upd_def)
  qed simp
  finally show ?thesis .
qed

lemma inbound_lines:
  assumes "slot < length (ls_slots st)" "sl_lineBuf (ls_slots st ! slot) = []" "\<not> sl_truncated (ls_slots st ! slot)"
    and "\<forall>l \<in> set ls. NL \<notin> set l"
  shows "inboundChars io slot (concat (map (\<lambda>l. l @ [NL]) ls)) st = lineRun io slot ls st"
  using assms
proof (induction ls arbitrary: st)
  case (Cons l ls)
  have v: "same_view (ls_slots st) (ls_slots st)" by (simp add: same_view_def)
  have "inboundChars io slot (concat (map (\<lambda>l. l @ [NL]) (l # ls))) st =
      Option.bind (inboundChars io slot (l @ [NL]) st) (inboundChars io slot (concat (map (\<lambda>l. l @ [NL]) ls)))"
    by (simp only: list.map concat.simps inboundChars_append)
  also have "\<dots> = Option.bind (logInboundLineOut io slot (cutLine l) st) (lineRun io slot ls)"
    using Cons.prems Cons.IH logInboundLineOut_slots(2) [OF v] by (subst inbound_line) (auto intro!: bind_option_cong)
  finally show ?case by (simp split: option.split)
qed simp

end
