(* ===== verification/Log_Lines.thy ===== *)
theory Log_Lines
  imports Log_Pass
begin

section \<open>The log: lines and buffers\<close>

text \<open>
  What \<open>logReformat\<close> makes of a line as ESP-IDF writes it, that the colored line without its colors
  is the plain line, and how long the lines get that are put into fixed buffers.
\<close>

subsection \<open>Removing colors\<close>

lemma stripAnsi_plain: "ESC \<notin> set s \<Longrightarrow> stripAnsi (s @ t) = s @ stripAnsi t"
proof (induction s)
  case (Cons c s)
  then have "stripAnsi (c # (s @ t)) = c # stripAnsi (s @ t)" by (cases "s @ t") auto
  then show ?case using Cons by simp
qed simp

lemma stripAnsi_seq: "CHR ''m'' \<notin> set p \<Longrightarrow> stripAnsi (ESC # CHR ''['' # p @ CHR ''m'' # t) = stripAnsi t"
proof -
  assume "CHR ''m'' \<notin> set p"
  then have "\<forall>x \<in> set p. x \<noteq> CHR ''m''" by auto
  then show ?thesis by simp
qed

lemma stripAnsi_id: "ESC \<notin> set s \<Longrightarrow> stripAnsi s = s"
  using stripAnsi_plain [of s "[]"] by simp

text \<open>What the settings and the system give: six colors of at most 15 characters, a task name of at most 15.\<close>

definition log_env_ok :: "log_env \<Rightarrow> bool" where
  "log_env_ok E \<longleftrightarrow> length (le_colors E) = 6 \<and> (\<forall>c \<in> set (le_colors E). length c \<le> 15 \<and> CHR ''m'' \<notin> set c) \<and>
     length (le_task E) \<le> 15 \<and> ESC \<notin> set (le_task E) \<and> ESC \<notin> set (le_clock E)"

lemma logColor_in: "length colors = 6 \<Longrightarrow> logColor colors l \<in> set colors"
  by (simp add: logColor_def)

lemma env_colors:
  assumes "log_env_ok E"
  shows "length (logColor (le_colors E) l) \<le> 15" "CHR ''m'' \<notin> set (logColor (le_colors E) l)"
    "length (le_colors E ! 5) \<le> 15" "CHR ''m'' \<notin> set (le_colors E ! 5)"
  using assms logColor_in [of "le_colors E" l] nth_mem [of 5 "le_colors E"] by (auto simp: log_env_ok_def)

lemma color_on_eq: "log_env_ok E \<Longrightarrow> color_on E True l = ESC # ''['' @ logColor (le_colors E) l @ ''m''"
  using env_colors(1) [of E l] by (simp add: color_on_def snbuf_def)

lemma stamp_eq:
  assumes "log_env_ok E" "le_showTs E"
  shows "stamp E True = ESC # ''['' @ (le_colors E ! 5) @ ''m'' @ take 23 (le_clock E) @ ESC # ''[0m ''"
    "stamp E False = take 23 (le_clock E) @ '' ''"
  using env_colors(3) [OF assms(1)] assms(2) by (simp_all add: stamp_def snbuf_def)

lemma strip_stamp:
  assumes E: "log_env_ok E"
  shows "stripAnsi (stamp E True @ r) = stamp E False @ stripAnsi r"
proof (cases "le_showTs E")
  case True
  have c: "ESC \<notin> set (take 23 (le_clock E))" using E by (auto simp: log_env_ok_def dest: in_set_takeD)
  have "stripAnsi (stamp E True @ r) = stripAnsi (take 23 (le_clock E) @ ESC # CHR ''['' # ''0'' @ CHR ''m'' # '' '' @ r)"
    using stripAnsi_seq [OF env_colors(4) [OF E]] by (simp add: stamp_eq [OF E True])
  also have "\<dots> = take 23 (le_clock E) @ stripAnsi ('' '' @ r)" by (simp add: stripAnsi_plain [OF c])
  also have "\<dots> = stamp E False @ stripAnsi r" by (subst stripAnsi_plain) (simp_all add: stamp_eq [OF E True])
  finally show ?thesis .
qed (simp add: stamp_def)

lemma strip_fmt_line:
  assumes E: "log_env_ok E" and l: "level_char l" and t: "ESC \<notin> set tag" "ESC \<notin> set msg"
  shows "stripAnsi (fmt_line E True l tag msg) = fmt_line E False l tag msg"
proof -
  let ?b = "[l] @ '' ['' @ le_task E @ ''] '' @ tag @ msg"
  have b: "ESC \<notin> set ?b" using E l t by (auto simp: log_env_ok_def level_char_def)
  have c: "CHR ''m'' \<notin> set (logColor (le_colors E) l)" by (rule env_colors(2) [OF E])
  have "stripAnsi (fmt_line E True l tag msg) = stamp E False @ stripAnsi (color_on E True l @ ?b @ color_off True @ [NL])"
    by (simp add: fmt_line_def strip_stamp [OF E])
  also have "stripAnsi (color_on E True l @ ?b @ color_off True @ [NL]) = stripAnsi (?b @ color_off True @ [NL])"
    using stripAnsi_seq [OF c] by (simp add: color_on_eq [OF E])
  also have "\<dots> = ?b @ stripAnsi (color_off True @ [NL])" by (rule stripAnsi_plain [OF b])
  also have "stripAnsi (color_off True @ [NL]) = [NL]" by (simp add: color_off_def)
  finally show ?thesis by (simp add: fmt_line_def color_on_def color_off_def)
qed

subsection \<open>A line of ESP-IDF\<close>

definition sgr :: "string \<Rightarrow> string" where "sgr p = ESC # CHR ''['' # p @ ''m''"

text \<open>With colors the line ends in a reset and a newline, without them in newlines.\<close>

definition espLine :: "(string \<times> string) option \<Rightarrow> char \<Rightarrow> string \<Rightarrow> string \<Rightarrow> string \<Rightarrow> string \<Rightarrow> string" where
  "espLine colors level ts tag msg nls =
     (case colors of Some (a, _) \<Rightarrow> sgr a | None \<Rightarrow> []) @ [level] @ '' ('' @ ts @ '') '' @ tag @ '': '' @ msg @
     (case colors of Some (_, b) \<Rightarrow> sgr b | None \<Rightarrow> []) @ nls"

lemma skipAnsi_sgr: "list_all csi_param p \<Longrightarrow> skipAnsi (sgr p @ r) = skipAnsi r"
proof -
  assume p: "list_all csi_param p"
  have m: "\<not> csi_param (CHR ''m'')" by (simp add: csi_param_def c_isdigit_def)
  have "dropWhile csi_param (p @ CHR ''m'' # r) = CHR ''m'' # r"
    using p m by (subst dropWhile_append2) (auto simp: list_all_iff)
  then have "skipParams (p @ CHR ''m'' # r) = r" by (simp add: skipParams_def Let_def)
  then show ?thesis unfolding sgr_def by (subst skipAnsi.simps) simp
qed

lemma skipAnsi_other: "c \<noteq> ESC \<Longrightarrow> skipAnsi (c # r) = c # r"
  by (subst skipAnsi.simps) (auto split: list.split)

lemma escBack_params: "list_all csi_param p \<Longrightarrow> s \<noteq> [] \<Longrightarrow> escBack (p @ CHR ''['' # ESC # s) = Some s"
proof (induction p)
  case Nil
  then show ?case by (cases s) (simp_all add: csi_param_def c_isdigit_def)
next
  case (Cons c p)
  then have "escBack (c # p @ CHR ''['' # ESC # s) = escBack (p @ CHR ''['' # ESC # s)"
    by (cases p) auto
  then show ?case using Cons by simp
qed

lemma trimAnsi_other: "c \<noteq> CHR ''m'' \<Longrightarrow> trimAnsi (c # r) = c # r"
  by (subst trimAnsi.simps) simp

definition msg_ok :: "string \<Rightarrow> bool" where
  "msg_ok msg \<longleftrightarrow> msg \<noteq> [] \<and> last msg \<notin> {NL, CR, CHR ''m''} \<and> \<not> list_all blank_ch msg"

lemma body_trim:
  assumes msg: "msg_ok msg" and nls: "set nls \<subseteq> {NL, CR}" and p: "case colors of Some (_, b) \<Rightarrow> list_all csi_param b | None \<Rightarrow> True"
  shows "rev (trimAnsi (rev (rstrip_nl (msg @ (case colors of Some (_, b) \<Rightarrow> sgr b | None \<Rightarrow> []) @ nls)))) = msg"
proof -
  obtain c r where m: "rev msg = c # r" "c \<notin> {NL, CR, CHR ''m''}"
    using msg by (cases "rev msg") (auto simp: msg_ok_def last_conv_nth rev_nth hd_rev [symmetric] simp flip: hd_rev)
  have strip: "rstrip_nl (s @ nls) = s" if "s \<noteq> []" "last s \<notin> {NL, CR}" for s
  proof -
    have "dropWhile (\<lambda>c. c = NL \<or> c = CR) (rev nls @ rev s) = dropWhile (\<lambda>c. c = NL \<or> c = CR) (rev s)"
      using nls by (intro dropWhile_append2) auto
    moreover have "dropWhile (\<lambda>c. c = NL \<or> c = CR) (rev s) = rev s" using that by (cases "rev s") (auto simp: hd_rev [symmetric])
    ultimately show ?thesis by (simp add: rstrip_nl_def)
  qed
  have base: "rev (trimAnsi (rev msg)) = msg" using m by (metis insertCI rev_rev_ident trimAnsi_other)
  show ?thesis
  proof (cases colors)
    case None
    have "rstrip_nl (msg @ nls) = msg" using msg by (intro strip) (auto simp: msg_ok_def)
    then show ?thesis using None base by simp
  next
    case (Some ab)
    then obtain b where b: "(case colors of Some (_, b) \<Rightarrow> sgr b | None \<Rightarrow> []) = sgr b" "list_all csi_param b"
      using p by (cases ab) auto
    have "rstrip_nl ((msg @ sgr b) @ nls) = msg @ sgr b" by (intro strip) (simp_all add: sgr_def)
    moreover have "trimAnsi (rev (msg @ sgr b)) = trimAnsi (rev msg)"
      using escBack_params [of "rev b" "rev msg"] b(2) m by (subst trimAnsi.simps) (simp add: sgr_def list_all_iff)
    ultimately show ?thesis using b(1) base by simp
  qed
qed

lemma before_append:
  assumes "c \<notin> set a"
  shows "before c (a @ c # r) = a" "after c (a @ c # r) = r"
proof -
  from assms have a: "\<forall>x \<in> set a. x \<noteq> c" by auto
  then show "before c (a @ c # r) = a" by (simp add: before_def takeWhile_append2)
  show "after c (a @ c # r) = r" using a by (simp add: after_def dropWhile_append2)
qed

text \<open>The tag is left out when it is the name of the task, and so is the name in front of the message.\<close>

lemma reformat_espLine:
  assumes l: "level_char level" and c: "case colors of Some (a, b) \<Rightarrow> list_all csi_param a \<and> list_all csi_param b | None \<Rightarrow> True"
    and ts: "CHR '')'' \<notin> set ts" and tag: "tag \<noteq> []" "length tag < 32" "CHR '':'' \<notin> set tag" "hd tag \<noteq> CHR '' ''"
    and msg: "msg_ok msg" and nls: "set nls \<subseteq> {NL, CR}"
  shows "logReformat E ansi ll (espLine colors level ts tag msg nls) =
    (let own = (tag = le_task E); m = (if own \<and> le_task E \<noteq> ''?'' then dropTask (le_task E) msg else msg)
     in if m = [] then (None, level)
        else case logRuleApply (le_level E) (le_rules E) m (Some tag) level of
               None \<Rightarrow> (None, level)
             | Some l' \<Rightarrow> (Some (fmt_line E ansi l' (if own then [] else tag @ '': '') m), l'))"
proof -
  let ?post = "case colors of Some (_, b) \<Rightarrow> sgr b | None \<Rightarrow> []"
  let ?tail = "tag @ CHR '':'' # CHR '' '' # msg @ ?post @ nls"
  have lE: "level \<noteq> ESC" using l by (auto simp: level_char_def)
  have "skipAnsi (espLine colors level ts tag msg nls) = skipAnsi (level # '' ('' @ ts @ CHR '')'' # CHR '' '' # ?tail)"
    using c by (auto simp: espLine_def skipAnsi_sgr split: option.split)
  also have "\<dots> = level # '' ('' @ ts @ CHR '')'' # CHR '' '' # ?tail" by (rule skipAnsi_other [OF lE])
  finally have skip: "skipAnsi (espLine colors level ts tag msg nls) = level # CHR '' '' # CHR ''('' # ts @ CHR '')'' # CHR '' '' # ?tail"
    by simp
  have "after CHR '')'' (CHR ''('' # ts @ CHR '')'' # CHR '' '' # ?tail) = CHR '' '' # ?tail"
    using before_append(2) [of "CHR '')''" "CHR ''('' # ts" "CHR '' '' # ?tail"] ts by simp
  moreover have "dropWhile (\<lambda>c. c = CHR '' '') (CHR '' '' # ?tail) = ?tail" using tag(1,4) by (cases tag) auto
  ultimately have rest: "logReformat E ansi ll (espLine colors level ts tag msg nls) =
      reformatMsg E ansi level tag (msg @ ?post @ nls)"
    using l tag(1,2) before_append [OF tag(3), of "CHR '' '' # msg @ ?post @ nls"]
    by (simp add: logReformat_def skip Let_def)
  have p: "case colors of Some (_, b) \<Rightarrow> list_all csi_param b | None \<Rightarrow> True" using c by (auto split: option.splits)
  have nb: "\<not> list_all blank_ch msg" using msg by (simp add: msg_ok_def)
  show ?thesis unfolding rest reformatMsg_def Let_def body_trim [OF msg nls p] using nb tag(1) by simp
qed

subsection \<open>Lengths\<close>

lemma length_fmt_line: "log_env_ok E \<Longrightarrow> length (fmt_line E ansi l tag msg) \<le> length tag + length msg + 95"
proof -
  assume E: "log_env_ok E"
  have s: "length (snbuf n x) \<le> n - 1" for n x by (simp add: snbuf_def)
  have "length (stamp E ansi) \<le> 47" using s [of 48] by (simp add: stamp_def)
  moreover have "length (color_on E ansi l) \<le> 23" "length (color_off ansi) \<le> 4" using s [of 24] by (simp_all add: color_on_def color_off_def)
  moreover have "length (le_task E) \<le> 15" using E by (simp add: log_env_ok_def)
  ultimately show ?thesis by (simp add: fmt_line_def)
qed

lemma length_skipAnsi: "length (skipAnsi p) \<le> length p"
proof (induction p rule: skipAnsi.induct)
  case (1 p)
  show ?case
  proof (cases "\<exists>r. p = ESC # CHR ''['' # r")
    case True
    then obtain r where r: "p = ESC # CHR ''['' # r" by blast
    then show ?thesis using 1 [OF r] skipParams_length [of r] by (subst skipAnsi.simps) simp
  next
    case False
    then show ?thesis by (subst skipAnsi.simps) (auto split: list.split)
  qed
qed

lemma length_rstrip: "length (rstrip_nl s) \<le> length s"
  using length_dropWhile_le [of _ "rev s"] by (simp add: rstrip_nl_def)

lemma length_trimAnsi: "length (trimAnsi r) \<le> length r"
proof (induction r rule: trimAnsi.induct)
  case (1 r)
  show ?case by (subst trimAnsi.simps) (use 1 in \<open>fastforce dest: escBack_length split: list.split option.split\<close>)
qed

lemma length_dropTask: "length (dropTask t m) \<le> length m"
proof (induction t m rule: dropTask.induct)
  case (1 t m)
  have "length (dropWhile blank_ch (drop (length t + 1) m)) \<le> length m"
    using length_dropWhile_le [of blank_ch "drop (length t + 1) m"] by simp
  then show ?case by (subst dropTask.simps) (use 1 in \<open>auto simp: Let_def\<close>)
qed

lemma length_after: "length (after c s) \<le> length s"
  using length_dropWhile_le [of "\<lambda>x. x \<noteq> c" s] by (simp add: after_def)

lemma before_after_length:
  assumes "c \<in> set s"
  shows "length (before c s) + 1 + length (after c s) \<le> length s"
proof -
  have "s = before c s @ dropWhile (\<lambda>x. x \<noteq> c) s" by (simp add: before_def)
  then have "length s = length (before c s) + length (dropWhile (\<lambda>x. x \<noteq> c) s)" by (metis length_append)
  moreover have "dropWhile (\<lambda>x. x \<noteq> c) s \<noteq> []" using assms by simp
  ultimately show ?thesis by (cases "dropWhile (\<lambda>x. x \<noteq> c) s") (simp_all add: after_def)
qed

lemma length_reformatCont:
  assumes "log_env_ok E" "reformatCont E ansi ll p = (Some t, l')"
  shows "length t \<le> length p + 95"
proof -
  obtain l msg where t: "t = fmt_line E ansi l [] msg" "length msg \<le> length (rstrip_nl p)"
    using assms(2) by (auto simp: reformatCont_def Let_def split: if_splits option.splits)
  then show ?thesis using length_fmt_line [OF assms(1), of ansi l "[]" msg] length_rstrip [of p] by simp
qed

lemma length_reformatMsg:
  assumes "log_env_ok E" "reformatMsg E ansi ll tag p = (Some t, l')"
  shows "length t \<le> length p + 95 + (if tag = [] then 0 else length tag + 2)"
proof -
  let ?m = "rev (trimAnsi (rev (rstrip_nl p)))"
  have m: "length ?m \<le> length p" using length_trimAnsi [of "rev (rstrip_nl p)"] length_rstrip [of p] by simp
  obtain l tg msg where t: "t = fmt_line E ansi l tg msg" "length msg \<le> length ?m" "length tg \<le> (if tag = [] then 0 else length tag + 2)"
    using assms(2) length_dropTask [of "le_task E" ?m] by (auto simp: reformatMsg_def Let_def split: if_splits option.splits)
  then show ?thesis using length_fmt_line [OF assms(1), of ansi l tg msg] m by simp
qed

lemma length_logReformat:
  assumes E: "log_env_ok E" and r: "logReformat E ansi ll src = (Some t, l')"
  shows "length t \<le> length src + 95"
proof -
  let ?p = "skipAnsi src"
  have p: "length ?p \<le> length src" by (rule length_skipAnsi)
  show ?thesis
  proof (cases ?p)
    case Nil
    then show ?thesis using r length_reformatCont [OF E] by (fastforce simp: logReformat_def)
  next
    case (Cons level q)
    let ?afterL = "dropWhile (\<lambda>c. c = CHR '' '') q"
    let ?rest = "dropWhile (\<lambda>c. c = CHR '' '') (if CHR '')'' \<in> set ?afterL then after CHR '')'' ?afterL else q)"
    have q: "length q < length src" using p Cons by simp
    have "length ?rest \<le> length q"
      by (rule le_trans [OF length_dropWhile_le]) (auto intro: le_trans [OF length_after] length_dropWhile_le)
    then have rest: "length ?rest < length src" using q by simp
    consider (cont) "reformatCont E ansi ll ?p = (Some t, l')"
      | (tagged) m where "reformatMsg E ansi level (before CHR '':'' ?rest) m = (Some t, l')" "length m \<le> length (after CHR '':'' ?rest)" "CHR '':'' \<in> set ?rest"
      | (plain) "reformatMsg E ansi level [] ?rest = (Some t, l')"
      using r Cons by (auto simp: logReformat_def Let_def split: if_splits list.splits)
    then show ?thesis
    proof cases
      case cont
      then show ?thesis using length_reformatCont [OF E cont] p by simp
    next
      case tagged
      have "length (before CHR '':'' ?rest) + 1 + length (after CHR '':'' ?rest) \<le> length ?rest"
        using tagged(3) by (metis before_after_length)
      then show ?thesis using length_reformatMsg [OF E tagged(1)] tagged(2) rest by (auto split: if_splits)
    next
      case plain
      then show ?thesis using length_reformatMsg [OF E plain] rest by simp
    qed
  qed
qed

end
