(* ===== verification/Log_Props.thy ===== *)
theory Log_Props
  imports Log_Lines
begin

section \<open>The log: properties\<close>

text \<open>
  The ring, the way of a line to the clients, inbound lines, and the two buffers that are too small.
\<close>

subsection \<open>The hook\<close>

definition printable :: "char \<Rightarrow> bool" where
  "printable c \<longleftrightarrow> scrub c = c"

lemma logVprintf_some:
  assumes E: "log_env_ok (io_env io)" and len: "length raw \<le> 961"
  shows "logVprintf io sc raw st \<noteq> None"
proof -
  obtain f ll where r: "logReformat (io_env io) True (ls_lastLevel st) (take (LOG_RAW_MAX - 1) raw) = (f, ll)"
    by (cases "logReformat (io_env io) True (ls_lastLevel st) (take (LOG_RAW_MAX - 1) raw)")
  have t: "take (LOG_RAW_MAX - 1) raw = raw" using len by (simp add: LOG_RAW_MAX_def)
  have "f = Some t \<Longrightarrow> \<not> length t > LOG_FMT_MAX" for t
    using length_logReformat [OF E, of True "ls_lastLevel st" raw t ll] r len by (simp add: t [simplified] LOG_FMT_MAX_def)
  then show ?thesis using r by (cases f) (auto simp: logVprintf_eq)
qed

lemma logVprintf_line:
  assumes st: "ls_inited st" "\<not> logNowhereToGo st" and raw: "raw \<noteq> []" "length raw < LOG_RAW_MAX"
    and r: "logReformat (io_env io) True (ls_lastLevel st) raw = (Some full, ll)"
    and full: "length full < LOG_FMT_MAX" "list_all printable full"
  shows "logVprintf io True raw st = Some (length raw, logLineOut io full (st\<lparr>ls_lastLevel := ll\<rparr>))"
proof -
  have t: "take (LOG_RAW_MAX - 1) raw = raw" "take (LOG_FMT_MAX - 1) full = full" using raw(2) full(1) by auto
  have "map scrub full = full" using full(2) by (induction full) (simp_all add: printable_def)
  then show ?thesis using st raw r full(1) by (simp add: logVprintf_eq t [simplified])
qed

lemma logLineOut_ring:
  "ls_ring (logLineOut io f st) = ls_ring (snd (logRingWrite f st))" "ls_head (logLineOut io f st) = ls_head (snd (logRingWrite f st))"
  "ls_tail (logLineOut io f st) = ls_tail (snd (logRingWrite f st))" "ls_slots (logLineOut io f st) = ls_slots st"
  "ls_file (logLineOut io f st) = ls_file st" "ls_fileLevel (logLineOut io f st) = ls_fileLevel st"
  "sentTo h (logLineOut io f st) = sentTo h st" "filed (logLineOut io f st) = filed st"
proof -
  have w: "ls_file (snd (logRingWrite f st)) = ls_file st" "ls_fileLevel (snd (logRingWrite f st)) = ls_fileLevel st"
    "ls_out (snd (logRingWrite f st)) = ls_out st" by (simp_all add: logRingWrite_def Let_def)
  show "ls_ring (logLineOut io f st) = ls_ring (snd (logRingWrite f st))" "ls_head (logLineOut io f st) = ls_head (snd (logRingWrite f st))"
    "ls_tail (logLineOut io f st) = ls_tail (snd (logRingWrite f st))" "ls_slots (logLineOut io f st) = ls_slots st"
    "ls_file (logLineOut io f st) = ls_file st" "ls_fileLevel (logLineOut io f st) = ls_fileLevel st"
    by (simp_all add: logLineOut_def Let_def w logRingWrite_slots)
  show "sentTo h (logLineOut io f st) = sentTo h st" "filed (logLineOut io f st) = filed st"
    by (simp_all add: logLineOut_def Let_def sentTo_emit toSlot_def toFile_def) (simp_all add: sentTo_def filed_def w)
qed

lemma stripped_short: "length s \<le> 511 \<Longrightarrow> stripped s = stripAnsi s"
  by (cases "s = []") (simp_all add: stripped_step)

subsection \<open>An example surrounding\<close>

text \<open>The default colors, time stamps on, a task \<open>net\<close>, and the state after \<open>logInit\<close> with the file open.\<close>

definition ex_env :: log_env where
  "ex_env = \<lparr>le_task = ''net'', le_showTs = True, le_clock = ''Mar 27 16:23:15.342'', le_level = (\<lambda>_. 3),
     le_colors = [''0;31'', ''0;33'', ''0;32'', ''0;37'', ''0;90'', ''0;90''], le_rules = []\<rparr>"

definition ex_io :: log_io where
  "ex_io = \<lparr>io_env = ex_env, io_connected = (\<lambda>_. True), io_wire = False, io_console = False, io_now = 0, io_dbg = (\<lambda>_ _. None)\<rparr>"

definition ex_slot :: "int \<Rightarrow> bool \<Rightarrow> log_slot" where
  "ex_slot h a = \<lparr>sl_handle = h, sl_ansi = a, sl_lineBuf = [], sl_truncated = False, sl_pastePending = False, sl_pasteBacklog = 0\<rparr>"

definition ex_state :: log_state where
  "ex_state = \<lparr>ls_ring = replicate LOG_RING_SIZE CHR 0x00, ls_head = 0, ls_tail = 0, ls_dropped = 0, ls_suppressed = 0,
     ls_drainWanted = True, ls_sinkLive = True, ls_sinkWas = True, ls_lastLevel = CHR ''I'', ls_inited = True, ls_task = True,
     ls_slots = [ex_slot 3 True, ex_slot 4 False, ex_slot (- 1) False, ex_slot (- 1) False, ex_slot (- 1) False],
     ls_file = True, ls_fileLevel = 4, ls_fileDirty = False, ls_lastFlush = 0, ls_interval = 5000, ls_out = []\<rparr>"

lemma ex_ok: "log_env_ok (io_env ex_io)" "ring_ok ex_state" "held ex_state = []" "slot_takes ex_io ex_state 0 3" "slot_takes ex_io ex_state 1 4"
  by (auto simp: log_env_ok_def ex_io_def ex_env_def ring_ok_def ex_state_def held_def slot_takes_def LOG_MAX_CONSUMERS_def ex_slot_def
      less_Suc_eq numeral_eq_Suc)

subsection \<open>The ring\<close>

text \<open>
  C11. From any consistent state, also with counters about to wrap, any interleaving of writes and
  reads of the ring returns the bytes a queue of 8192 bytes returns that takes of each write what
  fits; the bytes that did not fit are counted, and what was accepted comes out once and in order.
\<close>

theorem ring_is_queue:
  assumes "ring_ok st" "ringRun ops st = (outs, st')"
  shows "queueRun LOG_RING_SIZE ops (held st, ls_dropped st) = (outs, held st', ls_dropped st') \<and> ring_ok st' \<and>
    held st @ accepted LOG_RING_SIZE ops (held st) = concat outs @ held st'"
proof -
  have "queueRun LOG_RING_SIZE ops (held st, ls_dropped st) = (outs, held st', ls_dropped st') \<and> ring_ok st'"
    using logq.run_refines [OF assms(1), of ops] assms(2) by (simp add: ringRun_run [symmetric])
  then show ?thesis using queueRun_fifo by blast
qed

definition wrap_state :: log_state where
  "wrap_state = ex_state\<lparr>ls_head := - 2, ls_tail := - 2\<rparr>"

theorem ring_is_queue_witness:
  "fst (ringRun [RPut ''abcde'', RGet 3, RPut ''f'', RGet 9] wrap_state) = [''abc'', ''def'']"
proof -
  have ok: "ring_ok wrap_state" "held wrap_state = []" by (simp_all add: wrap_state_def ring_ok_def held_def ex_state_def)
  obtain outs st' where r: "ringRun [RPut ''abcde'', RGet 3, RPut ''f'', RGet 9] wrap_state = (outs, st')" by fastforce
  show ?thesis using ring_is_queue [OF ok(1) r] r by (simp add: ok(2) LOG_RING_SIZE_def)
qed

subsection \<open>The way of a line\<close>

text \<open>
  C16. A line of ESP-IDF, with or without its colors and followed by any line ends, is logged with
  the ring empty and a pass follows: a client with colors receives the line in this firmware's
  format with the colors, and a client without colors and the file receive exactly the same line
  without them, nothing else being sent. The tag is left out when it is the task's name. This is
  for a device without message rules and a file that takes every level; a tag of 1 to 31 characters
  without a colon; a message that is not blank, holds no escape, does not itself end in a line end
  or an m and does not repeat the task's name in front; a raw line within its buffer; and a
  rendered line of printable characters and at most 511 bytes, one piece of the drain.
\<close>

theorem line_reaches_clients:
  assumes E: "log_env_ok (io_env io)" "le_rules (io_env io) = []"
    and st: "ls_inited st" "ring_ok st" "held st = []"
    and line: "level_char level" "case colors of Some (a, b) \<Rightarrow> list_all csi_param a \<and> list_all csi_param b | None \<Rightarrow> True"
      "CHR '')'' \<notin> set ts" "tag \<noteq> []" "length tag < 32" "CHR '':'' \<notin> set tag" "hd tag \<noteq> CHR '' ''" "msg_ok msg" "set nls \<subseteq> {NL, CR}"
      "ESC \<notin> set tag" "ESC \<notin> set msg" "tag = le_task (io_env io) \<Longrightarrow> dropTask tag msg = msg"
    and raw: "raw = espLine colors level ts tag msg nls" "length raw < LOG_RAW_MAX"
    and fmt: "render = (\<lambda>ansi. fmt_line (io_env io) ansi level (if tag = le_task (io_env io) then [] else tag @ '': '') msg)"
    and fit: "length (render True) \<le> 511" "list_all printable (render True)"
    and to: "slot_takes io st i h" "sl_ansi (ls_slots st ! i)" "slot_takes io st j k" "\<not> sl_ansi (ls_slots st ! j)"
    and opened: "ls_file st" "ls_fileLevel st = 4"
  shows "\<exists>st'. logVprintf io True raw st = Some (length raw, st') \<and>
    sentTo h (logDrain io True st') = sentTo h st @ render True \<and>
    sentTo k (logDrain io True st') = sentTo k st @ render False \<and>
    filed (logDrain io True st') = filed st @ render False"
proof -
  let ?st = "st\<lparr>ls_lastLevel := level\<rparr>"
  let ?st' = "logLineOut io (render True) ?st"
  have r: "logReformat (io_env io) True (ls_lastLevel st) raw = (Some (render True), level)"
    unfolding raw(1) reformat_espLine [OF line(1-9)] using line(8,12) by (auto simp: E(2) fmt Let_def msg_ok_def)
  have n: "\<not> logNowhereToGo st" "raw \<noteq> []"
    using st(3) length_held [of st] by (auto simp: logNowhereToGo_def LOG_RING_SIZE_def raw(1) espLine_def simp del: length_held)
  have v: "logVprintf io True raw st = Some (length raw, ?st')"
    by (rule logVprintf_line [OF st(1) n raw(2) r]) (use fit in \<open>auto simp: LOG_FMT_MAX_def\<close>)
  have f: "ring_ok ?st" "held ?st = []" using st by (simp_all add: ring_ok_def held_def)
  have h: "held ?st' = render True" "ring_ok ?st'"
    using logRingWrite_held [OF f(1), of "render True"] f(2) fit(1) ring_frame [of ?st' "snd (logRingWrite (render True) ?st)"]
    by (simp_all add: logLineOut_ring LOG_RING_SIZE_def)
  have same: "slot_takes io ?st' x y = slot_takes io st x y" "ls_slots ?st' = ls_slots st" "sentTo y ?st' = sentTo y st" "filed ?st' = filed st"
    "ls_file ?st' = ls_file st" "ls_fileLevel ?st' = ls_fileLevel st" for x y
    by (simp_all add: logLineOut_ring slot_takes_def) (simp_all add: sentTo_def filed_def)
  have plain: "stripped (render True) = render False"
  proof -
    have "stripped (render True) = stripAnsi (render True)" by (rule stripped_short [OF fit(1)])
    also have "\<dots> = render False" unfolding fmt using strip_fmt_line [OF E(1) line(1)] line(10,11) by auto
    finally show ?thesis .
  qed
  have "sentTo h (logDrain io True ?st') = sentTo h st @ render True"
    using logDrain_outs [OF h(2), of io True i h] to by (simp add: same h(1))
  moreover have "sentTo k (logDrain io True ?st') = sentTo k st @ render False"
    using logDrain_outs [OF h(2), of io True j k] to by (simp add: same h(1) plain)
  moreover have "filed (logDrain io True ?st') = filed st @ render False"
    using logDrain_outs [OF h(2), of io True j k] opened by (simp add: same h(1) plain)
  ultimately show ?thesis using v by blast
qed

theorem line_reaches_clients_witness:
  "\<exists>st'. logVprintf ex_io True (espLine (Some (''0;32'', ''0'')) CHR ''I'' ''1234'' ''wifi'' ''link up'' [NL]) ex_state = Some (34, st') \<and>
     sentTo 4 (logDrain ex_io True st') = ''Mar 27 16:23:15.342 I [net] wifi: link up'' @ [NL]"
proof -
  define render where "render = (\<lambda>ansi. fmt_line (io_env ex_io) ansi CHR ''I'' (if ''wifi'' = le_task (io_env ex_io) then [] else ''wifi'' @ '': '') ''link up'')"
  have t: "render True = ESC # ''[0;90mMar 27 16:23:15.342'' @ ESC # ''[0m '' @ ESC # ''[0;32mI [net] wifi: link up'' @ ESC # ''[0m'' @ [NL]"
    "render False = ''Mar 27 16:23:15.342 I [net] wifi: link up'' @ [NL]"
    by (simp_all add: render_def fmt_line_def ex_io_def ex_env_def stamp_def snbuf_def color_on_def color_off_def logColor_def)
  have p: "list_all printable (render True)" unfolding t(1) by (simp add: printable_def scrub_def)
  have s: "sentTo 4 ex_state = []" by (simp add: sentTo_def ex_state_def)
  have "\<exists>st'. logVprintf ex_io True (espLine (Some (''0;32'', ''0'')) CHR ''I'' ''1234'' ''wifi'' ''link up'' [NL]) ex_state =
      Some (length (espLine (Some (''0;32'', ''0'')) CHR ''I'' ''1234'' ''wifi'' ''link up'' [NL]), st') \<and>
      sentTo 3 (logDrain ex_io True st') = sentTo 3 ex_state @ render True \<and>
      sentTo 4 (logDrain ex_io True st') = sentTo 4 ex_state @ render False \<and> filed (logDrain ex_io True st') = filed ex_state @ render False"
    by (rule line_reaches_clients [OF ex_ok(1) _ _ ex_ok(2,3) _ _ _ _ _ _ _ _ _ _ _ _ refl _ render_def _ p ex_ok(4) _ ex_ok(5)])
      (simp_all add: ex_io_def ex_env_def ex_state_def level_char_def csi_param_def c_isdigit_def msg_ok_def blank_ch_def
        ex_slot_def espLine_def sgr_def LOG_RAW_MAX_def t)
  then show ?thesis by (auto simp: s t(2) espLine_def sgr_def)
qed

text \<open>
  C22. Whatever the ring holds, the drain of a pass hands it to a connected client with colors byte
  for byte and in order, and to a client without colors and, at level verbose, to the file with the
  escape sequences of each 511-byte piece removed; the ring is empty then, and when bytes were
  dropped it holds exactly the line that says how many, with the count back at zero.
\<close>

theorem backlog_drained:
  assumes "ring_ok st" "slot_takes io st i h" "st' = logDrain io True st"
  shows "sentTo h st' = sentTo h st @ (if sl_ansi (ls_slots st ! i) then held st else concat (map stripAnsi (chunks 511 (held st)))) \<and>
    (ls_file st \<and> 4 \<le> ls_fileLevel st \<longrightarrow> filed st' = filed st @ concat (map stripAnsi (chunks 511 (held st)))) \<and>
    concat (chunks 511 (held st)) = held st \<and> held st' = [] \<and>
    held (markDropped True st') =
      (if ls_dropped st = 0 then []
       else [NL] @ ''W [log] ring overflow: '' @ nat_str (unat (ls_dropped st)) @ '' bytes dropped'' @ [NL]) \<and>
    ls_dropped (markDropped True st') = 0"
proof -
  have d: "held st' = []" "ring_ok st'" "ls_dropped st' = ls_dropped st"
    using logDrain_outs [OF assms(1), of io True i h] assms(3) by auto
  then show ?thesis
    using logDrain_outs [OF assms(1), of io True i h] assms(2,3) markDropped_held [OF d(2,1)]
    by (simp add: stripped_def dropMark_whole concat_chunks)
qed

theorem backlog_drained_witness:
  "sentTo 3 (logDrain ex_io True (snd (logRingWrite ''hello'' ex_state))) = ''hello''"
proof -
  let ?st = "snd (logRingWrite ''hello'' ex_state)"
  have h: "held ?st = ''hello''" "ring_ok ?st"
    using logRingWrite_held [OF ex_ok(2), of "''hello''"] by (simp_all add: ex_ok(3) LOG_RING_SIZE_def)
  have e: "ls_slots ?st = ls_slots ex_state" "ls_out ?st = []" by (simp_all add: logRingWrite_slots) (simp add: logRingWrite_def Let_def ex_state_def)
  have t: "slot_takes ex_io ?st 0 3" using ex_ok(4) by (simp add: slot_takes_def e(1))
  show ?thesis using backlog_drained [OF h(2) t refl] h(1) e by (simp add: sentTo_def ex_state_def ex_slot_def)
qed

subsection \<open>Inbound lines\<close>

text \<open>
  C23. However the bytes of a client's lines are cut into packets, the byte-wise assembly hands on
  exactly the lines, one after the other: each without its carriage returns, whole when it has at
  most 511 characters and else its first 502 with the mark of a cut.
\<close>

theorem inbound_lines_assembled:
  assumes "slot < length (ls_slots st)" "sl_lineBuf (ls_slots st ! slot) = []" "\<not> sl_truncated (ls_slots st ! slot)"
    and "\<forall>l \<in> set ls. NL \<notin> set l" "concat packets = concat (map (\<lambda>l. l @ [NL]) ls)"
  shows "inboundPackets io slot packets st = lineRun io slot ls st"
  unfolding inboundPackets_concat assms(5) by (rule inbound_lines [OF assms(1-4)])

theorem inbound_lines_assembled_witness:
  "inboundPackets ex_io 0 [''12:0'', ''0 W hi'' @ [CR, NL, CHR ''x''], [NL]] ex_state = lineRun ex_io 0 [''12:00 W hi'' @ [CR], ''x''] ex_state \<and>
   cutLine (''12:00 W hi'' @ [CR]) = ''12:00 W hi''"
proof
  show "inboundPackets ex_io 0 [''12:0'', ''0 W hi'' @ [CR, NL, CHR ''x''], [NL]] ex_state = lineRun ex_io 0 [''12:00 W hi'' @ [CR], ''x''] ex_state"
    by (rule inbound_lines_assembled) (simp_all add: ex_state_def ex_slot_def)
qed (simp add: cutLine_def LOG_INBOUND_BUF_def)

text \<open>The buffer for the colored line has room for every line the assembly hands on.\<close>

lemma length_cutLine: "length (cutLine l) \<le> 511"
  by (simp add: cutLine_def Let_def LOG_INBOUND_BUF_def LOG_CUT_MARK_def)

lemma inboundAnsi_fits:
  assumes E: "log_env_ok E" and l: "length l \<le> 511"
  shows "inboundAnsi E l \<noteq> None"
proof -
  have r: "length (rstrip_nl l) \<le> 511" using length_rstrip [of l] l by simp
  have "length (colorizePreformatted (le_colors E) l) \<le> LOG_INBOUND_BUF + 64"
  proof (cases "findLevelCharPos (rstrip_nl l)")
    case None
    then show ?thesis using r length_takeWhile_le [of "\<lambda>c. c \<noteq> CHR 0x00" "rstrip_nl l"] by (simp add: colorizePreformatted_def LOG_INBOUND_BUF_def le_trans)
  next
    case (Some lp)
    let ?s = "rstrip_nl l"
    have p: "length (dropWhile (\<lambda>c. c = CHR '' '') (rev (take lp ?s))) \<le> length (take lp ?s)"
      using length_dropWhile_le [of _ "rev (take lp ?s)"] by simp
    have "length (take lp ?s) + length (drop lp ?s) = length ?s" by (metis append_take_drop_id length_append)
    then have "length (dropWhile (\<lambda>c. c = CHR '' '') (rev (take lp ?s))) + (length ?s - lp) \<le> 511" using p r by (cases "lp \<le> length ?s") auto
    moreover have "length (prec (drop lp ?s)) \<le> length ?s - lp"
      "length (prec (rev (dropWhile (\<lambda>c. c = CHR '' '') (rev (take lp ?s))))) \<le> length (dropWhile (\<lambda>c. c = CHR '' '') (rev (take lp ?s)))"
      using length_takeWhile_le [of "\<lambda>c. c \<noteq> CHR 0x00" "drop lp ?s"] length_takeWhile_le [of "\<lambda>c. c \<noteq> CHR 0x00" "rev (dropWhile (\<lambda>c. c = CHR '' '') (rev (take lp ?s)))"] by simp_all
    ultimately show ?thesis
      using Some r env_colors(1) [OF E, of "?s ! lp"] env_colors(3) [OF E]
      by (simp add: colorizePreformatted_def Let_def LOG_INBOUND_BUF_def)
  qed
  then show ?thesis by (simp add: inboundAnsi_def Let_def)
qed

subsection \<open>Buffers\<close>

text \<open>
  C28. A line of at most 961 characters before reformatting never leaves the buffer of the
  reformatted line, and a line any client sends in never leaves the buffer of its colored version.
\<close>

theorem short_lines_fit:
  assumes "log_env_ok (io_env io)" "length raw \<le> 961"
  shows "logVprintf io sc raw st \<noteq> None \<and> inboundAnsi (io_env io) (cutLine l) \<noteq> None"
  using logVprintf_some [OF assms] inboundAnsi_fits [OF assms(1) length_cutLine] by blast

theorem short_lines_fit_witness:
  "logVprintf ex_io True (espLine None CHR ''W'' ''77'' ''fs'' ''card removed'' [NL]) ex_state \<noteq> None"
  using short_lines_fit [OF ex_ok(1), of "espLine None CHR ''W'' ''77'' ''fs'' ''card removed'' [NL]"]
  by (simp add: espLine_def)

text \<open>
  C39. When a line of ESP-IDF that fits the raw buffer is rendered to more than the 1056 bytes of the
  second buffer, the hook accesses the byte behind the block of its buffers, and exactly then: the
  loop that replaces control characters follows the length the formatting would have had, not the
  length of the buffer. It is stated without message rules and for a message that does not end in a
  line end or the letter m; with the default settings 1010 characters are enough.
\<close>

theorem long_line_overruns:
  assumes E: "le_rules (io_env io) = []" and st: "ls_inited st" "\<not> logNowhereToGo st"
    and line: "level_char level" "case colors of Some (a, b) \<Rightarrow> list_all csi_param a \<and> list_all csi_param b | None \<Rightarrow> True"
      "CHR '')'' \<notin> set ts" "tag \<noteq> []" "length tag < 32" "CHR '':'' \<notin> set tag" "hd tag \<noteq> CHR '' ''" "msg_ok msg" "set nls \<subseteq> {NL, CR}"
      "tag \<noteq> le_task (io_env io)"
    and raw: "raw = espLine colors level ts tag msg nls" "length raw < LOG_RAW_MAX"
  shows "logVprintf io True raw st = None \<longleftrightarrow> length (fmt_line (io_env io) True level (tag @ '': '') msg) > LOG_FMT_MAX"
proof -
  have r: "logReformat (io_env io) True (ls_lastLevel st) raw = (Some (fmt_line (io_env io) True level (tag @ '': '') msg), level)"
    unfolding raw(1) reformat_espLine [OF line(1-9)] using line(8,10) by (auto simp: E Let_def msg_ok_def)
  have "raw \<noteq> []" by (auto simp: raw(1) espLine_def)
  moreover have "take (LOG_RAW_MAX - 1) raw = raw" using raw(2) by auto
  ultimately show ?thesis using st r by (simp add: logVprintf_eq del: One_nat_def)
qed

theorem long_line_overruns_witness:
  "logVprintf ex_io True (espLine None CHR ''I'' ''1'' ''rns'' (replicate 1010 CHR ''x'') [NL]) ex_state = None"
proof -
  let ?m = "replicate 1010 (CHR ''x'')"
  have m: "msg_ok ?m" by (simp add: msg_ok_def blank_ch_def list_all_iff)
  have f: "length (fmt_line (io_env ex_io) True (CHR ''I'') (''rns'' @ '': '') ?m) > LOG_FMT_MAX"
    by (simp add: fmt_line_def ex_io_def ex_env_def stamp_def snbuf_def color_on_def color_off_def logColor_def LOG_FMT_MAX_def)
  have "logVprintf ex_io True (espLine None CHR ''I'' ''1'' ''rns'' ?m [NL]) ex_state = None \<longleftrightarrow>
      length (fmt_line (io_env ex_io) True (CHR ''I'') (''rns'' @ '': '') ?m) > LOG_FMT_MAX"
    by (rule long_line_overruns [OF _ _ _ _ _ _ _ _ _ _ m _ _ refl])
      (simp_all add: ex_io_def ex_env_def ex_state_def logNowhereToGo_def level_char_def espLine_def LOG_RAW_MAX_def)
  with f show ?thesis by blast
qed

section \<open>The log: scroll-back\<close>

text \<open>
  What a new client receives of the log file: with lines of at least 40 characters the buffer for
  the colored tail is large enough and the client gets the whole lines of the tail; with short
  lines the buffer is too small.
\<close>

subsection \<open>Rendering\<close>

lemma pasteLevel_bound: "pasteLevel i s = Some lp \<Longrightarrow> lp < i + length s"
  by (induction i s rule: pasteLevel.induct) (auto split: if_splits)

lemma paste_colors:
  assumes "log_env_ok E"
  shows "snbuf 24 (ESC # ''['' @ (le_colors E ! 5) @ ''m'') = ESC # ''['' @ (le_colors E ! 5) @ ''m''"
    "snbuf 24 (ESC # ''['' @ logColor (le_colors E) l @ ''m'') = ESC # ''['' @ logColor (le_colors E) l @ ''m''"
  using env_colors(1) [OF assms, of l] env_colors(3) [OF assms] by (simp_all add: snbuf_def)

lemma length_pasteLine:
  assumes "log_env_ok E"
  shows "length (pasteLine (le_colors E) ansi line) \<le> length line + 40"
proof (cases "pasteLevel 1 line")
  case (Some lp)
  have "length (take lp line) + length (drop lp line) = length line" by (metis append_take_drop_id length_append)
  then show ?thesis
    using Some env_colors(1) [OF assms, of "line ! lp"] env_colors(3) [OF assms]
    by (simp add: pasteLine_def paste_colors [OF assms, simplified])
qed (simp add: pasteLine_def)

lemma strip_pasteLine:
  assumes E: "log_env_ok E" and l: "ESC \<notin> set line"
  shows "stripAnsi (pasteLine (le_colors E) ansi line @ r) = line @ stripAnsi r"
proof (cases "\<exists>lp. pasteLevel 1 line = Some lp \<and> ansi \<and> 0 < lp")
  case True
  then obtain lp where lp: "pasteLevel 1 line = Some lp" "ansi" "0 < lp" by blast
  have n: "ESC \<notin> set (take lp line)" "ESC \<notin> set (drop lp line)" using l by (auto dest: in_set_takeD in_set_dropD)
  let ?col = "logColor (le_colors E) (line ! lp)"
  have "pasteLine (le_colors E) ansi line @ r =
      ESC # CHR ''['' # (le_colors E ! 5) @ CHR ''m'' # take lp line @ ESC # CHR ''['' # ?col @ CHR ''m'' # drop lp line @
      ESC # CHR ''['' # ''0'' @ CHR ''m'' # r"
    using lp paste_colors [OF E] by (simp add: pasteLine_def)
  then have "stripAnsi (pasteLine (le_colors E) ansi line @ r) = take lp line @ drop lp line @ stripAnsi r"
    using stripAnsi_seq [OF env_colors(4) [OF E]] stripAnsi_seq [OF env_colors(2) [OF E]]
    by (simp add: stripAnsi_plain [OF n(1)] stripAnsi_plain [OF n(2)])
  then show ?thesis by simp
next
  case False
  then have "pasteLine (le_colors E) ansi line = line" by (auto simp: pasteLine_def split: option.split)
  then show ?thesis using stripAnsi_plain [OF l] by simp
qed

lemma strip_paste:
  assumes E: "log_env_ok E"
  shows "\<forall>l \<in> set ls. ESC \<notin> set l \<Longrightarrow> stripAnsi (concat (map (pasteLine (le_colors E) ansi) ls)) = concat ls"
  by (induction ls) (simp_all add: strip_pasteLine [OF E])

lemma pasteLine_plain: "pasteLine colors False l = l"
  by (simp add: pasteLine_def split: option.split)

lemma length_paste:
  assumes E: "log_env_ok E"
  shows "\<forall>l \<in> set ls. 40 \<le> length l \<Longrightarrow> length (concat (map (pasteLine (le_colors E) ansi) ls)) \<le> 2 * length (concat ls)"
proof (induction ls)
  case (Cons l ls)
  then show ?case using length_pasteLine [OF E, of ansi l] by simp
qed simp

lemma nl_lines_set: "l \<in> set (nl_lines s) \<Longrightarrow> set l \<subseteq> set s"
  by (metis UN_upper concat_nl_lines set_concat)

subsection \<open>Packets\<close>

lemma concat_pasteChunks: "concat (pasteChunks s) = s"
proof (induction s rule: pasteChunks.induct)
  case (1 s)
  then show ?case by (subst pasteChunks.simps) simp
qed

lemma pasteTake_le: "pasteTake s \<le> 1500"
proof -
  have "length (dropWhile (\<lambda>c. c \<noteq> NL) (rev (take 1500 s))) \<le> 1500"
    by (rule le_trans [OF length_dropWhile_le]) simp
  then show ?thesis by (simp add: pasteTake_def Let_def)
qed

lemma pasteChunks_le: "p \<in> set (pasteChunks s) \<Longrightarrow> length p \<le> 1500"
proof (induction s rule: pasteChunks.induct)
  case (1 s)
  then show ?case using pasteTake_le [of s] by (subst (asm) (2) pasteChunks.simps) (auto split: if_splits)
qed

lemma length_pasteChunks: "length (pasteChunks s) \<le> length s"
proof (induction s rule: pasteChunks.induct)
  case (1 s)
  show ?case
  proof (cases "s = []")
    case False
    have "length (pasteChunks (drop (pasteTake s) s)) \<le> length s - pasteTake s" using 1 [OF False] by simp
    moreover have "0 < length s" using False by simp
    ultimately have "Suc (length (pasteChunks (drop (pasteTake s) s))) \<le> length s" using pasteTake_pos [OF False] by linarith
    then show ?thesis using False by (subst pasteChunks.simps) simp
  qed (subst pasteChunks.simps, simp)
qed

lemma emit_packets: "ls_out (fold (\<lambda>p. emit (ToSlot h p)) ps st) = ls_out st @ map (ToSlot h) ps"
  by (induction ps arbitrary: st) simp_all

subsection \<open>What the client receives\<close>

definition fileTail :: "nat \<Rightarrow> string \<Rightarrow> string" where
  "fileTail n file =
     (if length file > n then drop 1 (dropWhile (\<lambda>c. c \<noteq> NL) (drop (length file - n) file)) else file)"

text \<open>
  C32. A client that takes its packets receives of an open log file whose lines have at least 40
  characters the whole lines of the requested tail: with colors the text is the tail again once the
  colors are removed, without colors it is the tail itself; no packet has more than 1500 bytes.
\<close>

theorem scrollback_sent:
  assumes E: "log_env_ok (io_env io)" and open_file: "ls_file st"
    and n: "n = nat (if backlog > 0 then backlog else paste * 1024)" "0 < n"
    and lines: "\<forall>l \<in> set (nl_lines (fileTail n file)). 40 \<le> length l" "ESC \<notin> set file" "file \<noteq> []"
    and taken: "2 * length file \<le> taken"
  shows "\<exists>ps st'. logPasteBack io paste (Some file) taken h backlog ansi st = Some st' \<and>
    ls_out st' = ls_out st @ FileSync # map (ToSlot h) ps \<and> (\<forall>p \<in> set ps. length p \<le> 1500) \<and>
    stripAnsi (concat ps) = fileTail n file \<and> (\<not> ansi \<longrightarrow> concat ps = fileTail n file)"
proof -
  let ?off = "if length file > n then length file - n else 0"
  let ?inp = "drop ?off file" and ?tail = "fileTail n file"
  let ?out = "concat (map (pasteLine (le_colors (io_env io)) ansi) (nl_lines ?tail))"
  have body: "(if 0 < ?off then drop 1 (dropWhile (\<lambda>c. c \<noteq> NL) ?inp) else ?inp) = ?tail" by (simp add: fileTail_def)
  have tl: "length ?tail \<le> length ?inp"
    using length_dropWhile_le [of "\<lambda>c. c \<noteq> NL" "drop (length file - n) file"] by (auto simp: fileTail_def)
  have "length ?out \<le> 2 * length ?tail" using length_paste [OF E lines(1), of ansi] by (simp add: concat_nl_lines)
  then have len: "length ?out \<le> 2 * length ?inp" using tl by simp
  then have r: "pasteRender (le_colors (io_env io)) ansi (0 < ?off) ?inp = Some ?out"
    unfolding pasteRender_def body by (simp add: Let_def)
  have i: "?inp \<noteq> []" using lines(3) n(2) by auto
  have "length (pasteChunks ?out) \<le> taken" using length_pasteChunks [of ?out] len taken by simp
  then have tk: "take taken (pasteChunks ?out) = pasteChunks ?out" by simp
  have pos: "\<not> (backlog \<le> 0 \<and> paste \<le> 0)" using n by auto
  let ?st' = "fold (\<lambda>p. emit (ToSlot h p)) (pasteChunks ?out) (emit FileSync st)"
  have "logPasteBack io paste (Some file) taken h backlog ansi st = Some ?st'"
    unfolding logPasteBack_def Let_def n(1) [symmetric] using pos open_file i r tk by auto
  moreover have "ls_out ?st' = ls_out st @ FileSync # map (ToSlot h) (pasteChunks ?out)" by (simp add: emit_packets)
  moreover have "stripAnsi ?out = ?tail"
  proof -
    have "set ?tail \<subseteq> set file" by (auto simp: fileTail_def dest: in_set_dropD set_dropWhileD)
    then have "\<forall>l \<in> set (nl_lines ?tail). ESC \<notin> set l" using lines(2) nl_lines_set by blast
    then show ?thesis using strip_paste [OF E] by (simp add: concat_nl_lines)
  qed
  moreover have "\<not> ansi \<Longrightarrow> ?out = ?tail" by (simp add: pasteLine_plain [abs_def] concat_nl_lines)
  ultimately show ?thesis using pasteChunks_le by (intro exI [of _ "pasteChunks ?out"] exI [of _ ?st']) (simp add: concat_pasteChunks)
qed

definition ex_file :: string where
  "ex_file = ''Mar 27 16:23:15.342 I [net] wifi: link up, address 10.0.0.7'' @ [NL] @
     ''Mar 27 16:23:16.001 W [fs] the card is not there any more'' @ [NL]"

theorem scrollback_sent_witness:
  "\<exists>ps st'. logPasteBack ex_io 48 (Some ex_file) 1000 3 60 False ex_state = Some st' \<and>
     ls_out st' = FileSync # map (ToSlot 3) ps \<and>
     concat ps = ''Mar 27 16:23:16.001 W [fs] the card is not there any more'' @ [NL]"
proof -
  have t: "fileTail 60 ex_file = ''Mar 27 16:23:16.001 W [fs] the card is not there any more'' @ [NL]"
    by (simp add: fileTail_def ex_file_def)
  have "\<forall>l \<in> set (nl_lines (fileTail 60 ex_file)). 40 \<le> length l" unfolding t by simp
  moreover have "ESC \<notin> set ex_file" "ex_file \<noteq> []" "2 * length ex_file \<le> 1000" by (simp_all add: ex_file_def)
  moreover have "ls_file ex_state" "ls_out ex_state = []" by (simp_all add: ex_state_def)
  ultimately show ?thesis
    using scrollback_sent [OF ex_ok(1), of ex_state 60 60 48 ex_file 1000 3 False] by (auto simp: t)
qed

text \<open>
  Six lines of five bytes make the scroll-back write past its buffer, which has twice the size
  of the tail and 64 bytes: a line that gets colors grows by 18 bytes with the default settings.
\<close>

theorem scrollback_overruns:
  "logPasteBack ex_io 48 (Some (concat (replicate 6 (''xI ['' @ [NL])))) 9 3 0 True ex_state = None"
proof -
  let ?f = "concat (replicate 6 (''xI ['' @ [NL]))"
  have "pasteRender (le_colors ex_env) True False ?f = None" by code_simp
  moreover have "ls_file ex_state" "io_env ex_io = ex_env" by (simp_all add: ex_state_def ex_io_def)
  moreover have "?f \<noteq> []" "length ?f = 30" by (simp_all add: numeral_eq_Suc)
  ultimately show ?thesis unfolding logPasteBack_def Let_def by (simp split del: if_split)
qed

end
