(* ===== verification/Cli_Proc.thy ===== *)
theory Cli_Proc
  imports C_String
begin

section \<open>The command line: dispatch\<close>

text \<open>
  The registry of commands, the dispatch of a line with its parts, aliases and the longest match,
  the commands \<open>alias\<close> and \<open>unalias\<close>, and scripts (cli.cpp). What a command does to the rest of the
  system is the argument \<open>cs_run\<close>, what is printed goes to \<open>cs_print\<close>; both act on a state of any type,
  from which \<open>cs_alias\<close> reads the stored aliases.
\<close>

subsection \<open>Settings and texts\<close>

text \<open>
  The settings are a map from keys to strings; a command that is modelled gives the texts it prints.
  The commands of the log use the same.
\<close>

datatype cmd_text = HelpText | Line string

type_synonym settings = "string \<rightharpoonup> string"

text \<open>\<open>storageGetStr\<close> into a buffer of \<open>n\<close> bytes.\<close>

definition cfg :: "settings \<Rightarrow> string \<Rightarrow> nat \<Rightarrow> string \<Rightarrow> string" where
  "cfg S key n dflt = take (n - 1) (case S key of Some v \<Rightarrow> v | None \<Rightarrow> dflt)"

definition wantsHelp :: "string \<Rightarrow> bool" where
  "wantsHelp a \<longleftrightarrow> a = ''help'' \<or> a = ''-h'' \<or> a = ''--help''"

record 'a cli_sys =
  cs_alias :: "'a \<Rightarrow> string \<Rightarrow> string option"
  cs_run :: "string \<Rightarrow> string \<Rightarrow> 'a \<Rightarrow> 'a"
  cs_print :: "string \<Rightarrow> 'a \<Rightarrow> 'a"

subsection \<open>The registry\<close>

fun strcmp_lt :: "string \<Rightarrow> string \<Rightarrow> bool" where
  "strcmp_lt [] b \<longleftrightarrow> b \<noteq> []"
| "strcmp_lt (x # a) [] \<longleftrightarrow> False"
| "strcmp_lt (x # a) (y # b) \<longleftrightarrow> (of_char x :: nat) < of_char y \<or> x = y \<and> strcmp_lt a b"

definition cliRegisterCmd :: "string \<Rightarrow> string list \<Rightarrow> string list" where
  "cliRegisterCmd cmd cmds = takeWhile (\<lambda>c. strcmp_lt c cmd) cmds @ cmd # dropWhile (\<lambda>c. strcmp_lt c cmd) cmds"

definition cliVerbIs :: "string \<Rightarrow> string \<Rightarrow> nat \<Rightarrow> bool" where
  "cliVerbIs tok full minLen \<longleftrightarrow> minLen \<le> length tok \<and> length tok \<le> length full \<and> take (length tok) full = tok"

definition cmdMatches :: "string \<Rightarrow> string \<Rightarrow> bool" where
  "cmdMatches line cmd \<longleftrightarrow>
     take (length cmd) line = cmd \<and> (drop (length cmd) line = [] \<or> hd (drop (length cmd) line) = CHR '' '')"

fun longestMatch :: "string \<Rightarrow> string list \<Rightarrow> string \<Rightarrow> string" where
  "longestMatch line [] best = best"
| "longestMatch line (c # cs) best =
     longestMatch line cs (if cmdMatches line c \<and> length c > length best then c else best)"

text \<open>The match for the completion skips leading spaces; \<open>[]\<close> stands for none.\<close>

definition cliLongestCmdMatch :: "string \<Rightarrow> string list \<Rightarrow> string" where
  "cliLongestCmdMatch line cmds = longestMatch (dropWhile (\<lambda>c. c = CHR '' '') line) cmds []"

subsection \<open>A line\<close>

definition rblank :: "char \<Rightarrow> bool" where
  "rblank c \<longleftrightarrow> c = CHR 0x0D \<or> c = CHR 0x0A \<or> c = CHR '' '' \<or> c = CHR 0x09"

definition trimLine :: "string \<Rightarrow> string" where
  "trimLine line = rev (dropWhile rblank (rev (dropWhile (\<lambda>c. c = CHR '' '') line)))"

definition ALIAS_KEY_MAX :: nat where "ALIAS_KEY_MAX = 80"
definition ALIAS_VAL_BUF :: nat where "ALIAS_VAL_BUF = 192"
definition EXPANDED_BUF :: nat where "EXPANDED_BUF = 384"
definition CLI_ALIAS_PREFIX :: string where "CLI_ALIAS_PREFIX = ''s.cli.aliases.''"

definition expandAlias :: "(string \<Rightarrow> string option) \<Rightarrow> string \<Rightarrow> string" where
  "expandAlias alias line =
     (let word = takeWhile (\<lambda>c. c \<noteq> CHR '' '') line;
          sp = dropWhile (\<lambda>c. c \<noteq> CHR '' '') line
      in if word \<noteq> [] \<and> length (CLI_ALIAS_PREFIX @ word) < ALIAS_KEY_MAX
         then (case alias (CLI_ALIAS_PREFIX @ word) of
                 Some val \<Rightarrow> take (EXPANDED_BUF - 1) (take (ALIAS_VAL_BUF - 1) val @ sp)
               | None \<Rightarrow> line)
         else line)"

definition dispatchCmd :: "'a cli_sys \<Rightarrow> string list \<Rightarrow> string \<Rightarrow> 'a \<Rightarrow> 'a" where
  "dispatchCmd sys cmds line s =
     (let best = longestMatch line cmds []
      in if best \<noteq> [] then cs_run sys best (dropWhile (\<lambda>c. c = CHR '' '') (drop (length best) line)) s
         else if line \<noteq> [] then cs_print sys (line @ '': unknown command. Type \"help\" for help.'' @ [CHR 0x0A]) s
         else s)"

lemma trimLine_length: "length (trimLine line) \<le> length line"
proof -
  have "length (dropWhile rblank (rev (dropWhile (\<lambda>c. c = CHR '' '') line))) \<le> length (rev (dropWhile (\<lambda>c. c = CHR '' '') line))"
    by (rule length_dropWhile_le)
  also have "\<dots> \<le> length line" using length_dropWhile_le [of _ line] by simp
  finally show ?thesis by (simp add: trimLine_def)
qed

function cliProcess :: "'a cli_sys \<Rightarrow> string list \<Rightarrow> string \<Rightarrow> 'a \<Rightarrow> 'a" where
  "cliProcess sys cmds line0 s =
     (let line = trimLine line0
      in if line = [] \<or> hd line = CHR ''#'' then s
         else if CHR '';'' \<in> set line
         then cliProcess sys cmds (after CHR '';'' line) (cliProcess sys cmds (before CHR '';'' line) s)
         else dispatchCmd sys cmds (expandAlias (cs_alias sys s) line) s)"
  by pat_completeness auto
termination
proof (relation "measure (\<lambda>(_, _, line, _). length line)")
  fix sys :: "'a cli_sys" and cmds line0 s line
  assume l: "line = trimLine line0" "CHR '';'' \<in> set line"
  have "line = before CHR '';'' line @ dropWhile (\<lambda>x. x \<noteq> CHR '';'') line" by (simp add: before_def)
  then have len: "length line = length (before CHR '';'' line) + length (dropWhile (\<lambda>x. x \<noteq> CHR '';'') line)" by (metis length_append)
  have d: "dropWhile (\<lambda>x. x \<noteq> CHR '';'') line \<noteq> []" using l(2) by simp
  have b: "length (before CHR '';'' line) < length line0" using len d trimLine_length [of line0] l(1) by (cases "dropWhile (\<lambda>x. x \<noteq> CHR '';'') line") auto
  then show "((sys, cmds, before CHR '';'' line, s), sys, cmds, line0, s) \<in> measure (\<lambda>(_, _, line, _). length line)" by simp
  have "length (after CHR '';'' line) < length line0"
    using len d trimLine_length [of line0] l(1) by (cases "dropWhile (\<lambda>x. x \<noteq> CHR '';'') line") (auto simp: after_def)
  then show "((sys, cmds, after CHR '';'' line, x), sys, cmds, line0, s) \<in> measure (\<lambda>(_, _, line, _). length line)" for x by simp
qed simp

declare cliProcess.simps [simp del]

subsection \<open>alias and unalias\<close>

text \<open>\<open>stored\<close> are the aliases in the order the store lists them.\<close>

definition cliAliasPrint :: "string \<times> string \<Rightarrow> cmd_text" where
  "cliAliasPrint kv =
     (let n = length CLI_ALIAS_PREFIX
      in Line (''alias '' @ (if take n (fst kv) = CLI_ALIAS_PREFIX then drop n (fst kv) else fst kv) @ '' '' @ snd kv))"

definition cmdAlias :: "(string \<times> string) list \<Rightarrow> string \<Rightarrow> settings \<Rightarrow> settings \<times> cmd_text list" where
  "cmdAlias stored a S =
     (if wantsHelp a then (S, [HelpText])
      else if a = [] then (S, if stored = [] then [Line ''(no aliases)''] else map cliAliasPrint stored)
      else let name = takeWhile (\<lambda>c. c \<noteq> CHR '' '') a;
               key = CLI_ALIAS_PREFIX @ name;
               sp = dropWhile (\<lambda>c. c = CHR '' '') (dropWhile (\<lambda>c. c \<noteq> CHR '' '') a)
           in if CHR ''.'' \<in> set name then (S, [Line (''alias: name may not contain '' @ [CHR 0x27, CHR ''.'', CHR 0x27])])
              else if name = [] \<or> length key \<ge> ALIAS_KEY_MAX then (S, [Line ''alias: bad name''])
              else if sp = []
              then (S, [Line (if S key \<noteq> None then ''alias '' @ name @ '' '' @ cfg S key ALIAS_VAL_BUF [] else ''alias: '' @ name @ '' not set'')])
              else (S(key \<mapsto> sp), []))"

definition cmdUnalias :: "string \<Rightarrow> settings \<Rightarrow> settings \<times> cmd_text list" where
  "cmdUnalias a S =
     (if wantsHelp a then (S, [HelpText])
      else let name = takeWhile (\<lambda>c. c \<noteq> CHR '' '') a; key = CLI_ALIAS_PREFIX @ name
           in if name = [] \<or> length key \<ge> ALIAS_KEY_MAX then (S, [Line ''usage: unalias <name>''])
              else if S key = None then (S, [Line (''unalias: '' @ name @ '' not set'')])
              else (S(key := None), []))"

subsection \<open>help\<close>

definition cmdHelp :: "'a cli_sys \<Rightarrow> string list \<Rightarrow> string \<Rightarrow> 'a \<Rightarrow> 'a" where
  "cmdHelp sys cmds a s =
     (if a = ''help'' then cs_print sys (''help [<cmd>]'' @ replicate 11 (CHR '' '') @ '' list commands'' @ [CHR 0x0A]) s
      else if a \<noteq> [] \<and> a \<noteq> ''-h'' \<and> a \<noteq> ''--help''
      then (if a \<in> set cmds then cs_run sys a ''-h'' s else cs_print sys (''unknown command: '' @ a @ [CHR 0x0A]) s)
      else fold (\<lambda>c. cs_run sys c ''help'') cmds
             (cs_print sys (''Type '' @ [CHR 0x27] @ ''<command> -h'' @ [CHR 0x27] @ '' for more on any command.'' @ [CHR 0x0A, CHR 0x0A]) s))"

subsection \<open>Scripts\<close>

text \<open>
  \<open>proc\<close> is \<open>cliProcess\<close>; the log lines about the script are left out; a script has no NUL byte. \<open>file\<close> is what is left to read,
  \<open>carry\<close> the partial line at the start of the buffer.
\<close>

definition RUN_BUF :: nat where "RUN_BUF = 128"

definition eol :: "char \<Rightarrow> bool" where
  "eol c \<longleftrightarrow> c = CHR 0x0A \<or> c = CHR 0x0D"

fun runLines :: "(string \<Rightarrow> 'a \<Rightarrow> 'a) \<Rightarrow> string \<Rightarrow> string \<Rightarrow> 'a \<Rightarrow> string \<times> 'a" where
  "runLines proc cur [] s = (cur, s)"
| "runLines proc cur (c # cs) s =
     (if eol c then runLines proc [] cs (if cur \<noteq> [] then proc cur s else s) else runLines proc (cur @ [c]) cs s)"

function runFile :: "(string \<Rightarrow> 'a \<Rightarrow> 'a) \<Rightarrow> string \<Rightarrow> string \<Rightarrow> 'a \<Rightarrow> 'a" where
  "runFile proc carry file s =
     (let n = take (RUN_BUF - length carry - 1) file
      in if n = [] \<and> carry = [] then s
         else case runLines proc [] (carry @ n) s of
                (carry1, s1) \<Rightarrow>
                  if n = [] then (if carry1 \<noteq> [] then proc carry1 s1 else s1)
                  else runFile proc carry1 (drop (length n) file) s1)"
  by pat_completeness auto
termination by (relation "measure (\<lambda>(_, _, file, _). length file)") auto

declare runFile.simps [simp del]

definition cliRunFile :: "(string \<Rightarrow> 'a \<Rightarrow> 'a) \<Rightarrow> string option \<Rightarrow> 'a \<Rightarrow> 'a" where
  "cliRunFile proc content s = (case content of None \<Rightarrow> s | Some file \<Rightarrow> runFile proc [] file s)"

subsection \<open>The longest match\<close>

lemma longestMatch_spec:
  defines "m line cmds best \<equiv> longestMatch line cmds best"
  shows "(m line cmds best = best \<or> m line cmds best \<in> set cmds \<and> cmdMatches line (m line cmds best)) \<and>
    length best \<le> length (m line cmds best) \<and>
    (\<forall>c \<in> set cmds. cmdMatches line c \<longrightarrow> length c \<le> length (m line cmds best))"
  unfolding m_def
proof (induction cmds arbitrary: best)
  case (Cons c cs)
  show ?case using Cons.IH [of c] Cons.IH [of best] by (cases "cmdMatches line c \<and> length c > length best") auto
qed simp

lemma longestMatch_unique:
  assumes "c \<in> set cmds" "cmdMatches line c" "c \<noteq> []" "\<forall>d \<in> set cmds. cmdMatches line d \<longrightarrow> length d \<le> length c"
  shows "longestMatch line cmds [] = c"
proof -
  let ?m = "longestMatch line cmds []"
  have m: "?m \<in> set cmds" "cmdMatches line ?m" "length c \<le> length ?m"
    using longestMatch_spec [of line cmds "[]"] assms(1-3) by auto
  then have "length ?m = length c" using assms(4) by auto
  then show ?thesis using m(2) assms(2) by (auto simp: cmdMatches_def)
qed

subsection \<open>Parts of a line\<close>

definition lineParts :: "string \<Rightarrow> string list" where
  "lineParts line = takeWhile (\<lambda>p. p = [] \<or> hd p \<noteq> CHR ''#'') (map trimLine (split_on CHR '';'' line))"

definition runPart :: "'a cli_sys \<Rightarrow> string list \<Rightarrow> string \<Rightarrow> 'a \<Rightarrow> 'a" where
  "runPart sys cmds p s = (if p = [] then s else dispatchCmd sys cmds (expandAlias (cs_alias sys s) p) s)"

abbreviation ok_part :: "string \<Rightarrow> bool" where "ok_part p \<equiv> p = [] \<or> hd p \<noteq> CHR ''#''"

lemma trimLine_spaces: "\<forall>c \<in> set sp. c = CHR '' '' \<Longrightarrow> trimLine (sp @ x) = trimLine x"
  by (simp add: trimLine_def dropWhile_append2)

lemma trimLine_blank: "rblank ch \<Longrightarrow> trimLine (x @ [ch]) = trimLine x"
proof (cases "\<forall>c \<in> set x. c = CHR '' ''")
  case True
  then have "dropWhile (\<lambda>c. c = CHR '' '') x = []" "dropWhile (\<lambda>c. c = CHR '' '') (x @ [ch]) = dropWhile (\<lambda>c. c = CHR '' '') [ch]"
    by (simp, simp only: dropWhile_append2 split: if_splits)
  moreover assume "rblank ch"
  ultimately show ?thesis unfolding trimLine_def by (simp only: dropWhile.simps rev.simps append.simps if_True split: if_split) simp
next
  case False
  then have "dropWhile (\<lambda>c. c = CHR '' '') (x @ [ch]) = dropWhile (\<lambda>c. c = CHR '' '') x @ [ch]" by (meson dropWhile_append1)
  moreover assume "rblank ch"
  ultimately show ?thesis unfolding trimLine_def by simp
qed

lemma trimLine_blanks: "\<forall>c \<in> set w. rblank c \<Longrightarrow> trimLine (x @ w) = trimLine x"
proof (induction w rule: rev_induct)
  case (snoc ch w)
  then show ?case using trimLine_blank [of ch "x @ w"] by simp
qed simp

lemma hd_trimLine:
  assumes "x = [] \<or> hd x \<noteq> CHR '' ''"
  shows "trimLine x = [] \<or> hd (trimLine x) = hd x"
proof (cases x)
  case (Cons c r)
  have "dropWhile rblank (rev r @ [c]) = [] \<or> last (dropWhile rblank (rev r @ [c])) = c" by (simp add: dropWhile_append)
  then show ?thesis using assms Cons by (auto simp: trimLine_def hd_rev)
qed (simp add: trimLine_def)

text \<open>A line is spaces, the trimmed line and blanks.\<close>

lemma trimLine_parts:
  obtains sp w where "line = sp @ trimLine line @ w" "\<forall>c \<in> set sp. c = CHR '' ''" "\<forall>c \<in> set w. rblank c"
    "trimLine line = [] \<or> hd (trimLine line) \<noteq> CHR '' ''"
proof -
  let ?sp = "takeWhile (\<lambda>c. c = CHR '' '') line" and ?k = "dropWhile (\<lambda>c. c = CHR '' '') line"
  let ?w = "rev (takeWhile rblank (rev ?k))"
  have "?k = trimLine line @ ?w"
    unfolding trimLine_def by (metis rev_append rev_rev_ident takeWhile_dropWhile_id)
  then have 1: "line = ?sp @ trimLine line @ ?w" by (metis takeWhile_dropWhile_id)
  have k: "?k = [] \<or> hd ?k \<noteq> CHR '' ''" using hd_dropWhile [of "\<lambda>c. c = CHR '' ''" line] by (cases "?k = []") simp_all
  have "\<forall>c \<in> set ?sp. c = CHR '' ''" by (auto dest: set_takeWhileD)
  then have tk: "trimLine line = trimLine ?k" using trimLine_spaces [of ?sp ?k] by simp
  have "?k = [] \<Longrightarrow> trimLine ?k = []" by (simp only: trimLine_def dropWhile.simps rev.simps)
  then have 2: "trimLine line = [] \<or> hd (trimLine line) \<noteq> CHR '' ''" unfolding tk using hd_trimLine [OF k] k by metis
  show ?thesis
    by (rule that [OF 1 _ _ 2]) (auto dest: set_takeWhileD)
qed

lemma split_on_snoc: "x \<noteq> c \<Longrightarrow> split_on c (xs @ [x]) = butlast (split_on c xs) @ [last (split_on c xs) @ [x]]"
proof (induction xs)
  case (Cons a xs)
  obtain y ys where y: "split_on c xs = y # ys" by (cases "split_on c xs") auto
  show ?case using Cons y by (auto split: list.split)
qed simp

lemma split_on_blanks:
  assumes "\<forall>c \<in> set w. rblank c"
  shows "map trimLine (split_on CHR '';'' (x @ w)) = map trimLine (split_on CHR '';'' x)"
  using assms
proof (induction w rule: rev_induct)
  case (snoc ch w)
  let ?S = "split_on CHR '';'' (x @ w)"
  have ch: "rblank ch" "ch \<noteq> CHR '';''" using snoc.prems by (auto simp: rblank_def)
  have "split_on CHR '';'' (x @ w @ [ch]) = butlast ?S @ [last ?S @ [ch]]" using split_on_snoc [OF ch(2), of "x @ w"] by simp
  then have "map trimLine (split_on CHR '';'' (x @ w @ [ch])) = map trimLine (butlast ?S @ [last ?S])"
    using ch(1) by (simp only: map_append list.map trimLine_blank)
  also have "butlast ?S @ [last ?S] = ?S" by (rule append_butlast_last_id) simp
  finally show ?case using snoc by simp
qed simp

lemma lineParts_blanks: "\<forall>c \<in> set w. rblank c \<Longrightarrow> lineParts (x @ w) = lineParts x"
  by (simp add: lineParts_def split_on_blanks)

lemma lineParts_single: "CHR '';'' \<notin> set x \<Longrightarrow> lineParts x = (if ok_part (trimLine x) then [trimLine x] else [])"
  by (simp add: lineParts_def)

lemma lineParts_semi:
  "CHR '';'' \<notin> set a \<Longrightarrow> lineParts (a @ CHR '';'' # b) = (if ok_part (trimLine a) then trimLine a # lineParts b else [])"
  by (simp add: lineParts_def split_on_append_sep)

lemma before_semi:
  assumes "c \<in> set x"
  shows "x = before c x @ c # after c x" "c \<notin> set (before c x)"
proof -
  have "dropWhile (\<lambda>y. y \<noteq> c) x \<noteq> []" "hd (dropWhile (\<lambda>y. y \<noteq> c) x) = c"
    using assms hd_dropWhile [of "\<lambda>y. y \<noteq> c" x] by auto
  then have "dropWhile (\<lambda>y. y \<noteq> c) x = c # after c x" by (cases "dropWhile (\<lambda>y. y \<noteq> c) x") (auto simp: after_def)
  then show "x = before c x @ c # after c x" unfolding before_def by (metis takeWhile_dropWhile_id)
  show "c \<notin> set (before c x)" by (auto simp: before_def dest: set_takeWhileD)
qed

lemma cliProcess_parts: "cliProcess sys cmds line s = fold (runPart sys cmds) (lineParts line) s"
proof (induction sys cmds line s rule: cliProcess.induct)
  case (1 sys cmds line s)
  let ?l = "trimLine line"
  obtain sp w where d: "line = sp @ ?l @ w" "\<forall>c \<in> set sp. c = CHR '' ''" "\<forall>c \<in> set w. rblank c"
    and hl: "?l = [] \<or> hd ?l \<noteq> CHR '' ''" by (rule trimLine_parts)
  have spn: "CHR '';'' \<notin> set sp" using d(2) by auto
  have lp: "lineParts line = lineParts (sp @ ?l)" by (metis append_assoc d(1,3) lineParts_blanks)
  have tl: "trimLine ?l = ?l"
  proof -
    have "trimLine line = trimLine (sp @ ?l)" by (metis append_assoc d(1,3) trimLine_blanks)
    then show ?thesis using trimLine_spaces [OF d(2), of ?l] by simp
  qed
  show ?case
  proof (cases "CHR '';'' \<in> set ?l")
    case False
    then have "lineParts line = (if ok_part ?l then [?l] else [])"
      using spn trimLine_spaces [OF d(2), of ?l] tl lineParts_single [of "sp @ ?l"] by (simp add: lp)
    then show ?thesis using False by (subst cliProcess.simps) (auto simp: Let_def runPart_def)
  next
    case True
    let ?a = "before CHR '';'' ?l" and ?b = "after CHR '';'' ?l"
    note ab = before_semi [OF True]
    have parts: "lineParts line = (if ok_part (trimLine ?a) then trimLine ?a # lineParts ?b else [])"
    proof -
      have "sp @ ?l = (sp @ ?a) @ CHR '';'' # ?b" using ab(1) by simp
      then show ?thesis using lineParts_semi [of "sp @ ?a" ?b] ab(2) spn trimLine_spaces [OF d(2), of ?a] by (simp add: lp)
    qed
    have ha: "?a = [] \<or> hd ?a = hd ?l" using ab(1) by (metis hd_append2)
    have ta: "trimLine ?a = [] \<or> hd (trimLine ?a) = hd ?a" by (rule hd_trimLine) (use ha hl True in auto)
    show ?thesis
    proof (cases "hd ?l = CHR ''#''")
      case hash: True
      have "?a \<noteq> []"
      proof
        assume "?a = []"
        then have "hd ?l = CHR '';''" by (metis ab(1) append_Nil list.sel(1))
        then show False using hash by simp
      qed
      then have "\<not> ok_part (trimLine ?a)"
      proof -
        have "trimLine ?a \<noteq> []"
        proof -
          obtain r where r: "?a = CHR ''#'' # r" using ha hash \<open>?a \<noteq> []\<close> by (cases ?a) auto
          have "dropWhile rblank (rev r @ [CHR ''#'']) \<noteq> []" by (simp add: rblank_def)
          then show ?thesis unfolding r by (simp add: trimLine_def rblank_def)
        qed
        then show ?thesis using ta ha hash \<open>?a \<noteq> []\<close> by auto
      qed
      then show ?thesis using hash parts True by (subst cliProcess.simps) (simp add: Let_def)
    next
      case False
      have t0: "trimLine [] = []" by (simp add: trimLine_def)
      have ok: "ok_part (trimLine ?a)" using ta ha False t0 by (cases "?a = []") auto
      have ne: "?l \<noteq> []" using True by auto
      have "cliProcess sys cmds line s = cliProcess sys cmds ?b (cliProcess sys cmds ?a s)"
        using False True ne by (subst cliProcess.simps) (simp add: Let_def)
      also have "\<dots> = fold (runPart sys cmds) (lineParts ?b) (fold (runPart sys cmds) (lineParts ?a) s)"
        using 1 [of ?l] False True ne by simp
      also have "lineParts ?a = [trimLine ?a]" using lineParts_single [OF ab(2)] ok by simp
      finally show ?thesis using parts ok by simp
    qed
  qed
qed

end
