(* ===== verification/Log_Cmd.thy ===== *)
theory Log_Cmd
  imports Log_Props Cli_Proc
begin

section \<open>The log: commands\<close>

text \<open>
  The commands \<open>log\<close>, \<open>logfile\<close> and \<open>logrotate\<close> of log.cpp over the settings, which are a map from
  keys to strings here. What a command prints is the text of its lines, help texts aside. The
  calendar is a parameter: \<open>today\<close> is the local date, \<open>mk\<close> the time at which a local date begins
  (\<open>mktime\<close>).
\<close>

abbreviation NAME_KEY :: string where "NAME_KEY \<equiv> ''s.log.file.name''"
abbreviation FLEVEL_KEY :: string where "FLEVEL_KEY \<equiv> ''s.log.file.level''"
abbreviation DIR_KEY :: string where "DIR_KEY \<equiv> ''s.log.dir''"

subsection \<open>Dated files\<close>

definition pad0 :: "nat \<Rightarrow> nat \<Rightarrow> string" where
  "pad0 w n = replicate (w - length (nat_str n)) CHR ''0'' @ nat_str n"

type_synonym date = "nat \<times> nat \<times> nat"

definition dateName :: "date \<Rightarrow> string" where
  "dateName d = (case d of (y, m, dd) \<Rightarrow> take 63 (pad0 4 y @ pad0 2 m @ pad0 2 dd @ ''.log''))"

definition isLogDateFile :: "string \<Rightarrow> bool" where
  "isLogDateFile name \<longleftrightarrow> length name = 12 \<and> list_all c_isdigit (take 8 name) \<and> drop 8 name = ''.log''"

text \<open>\<open>sscanf\<close> with \<open>%4d%2d%2d\<close> on eight digits.\<close>

definition logDateToTime :: "(date \<Rightarrow> int) \<Rightarrow> string \<Rightarrow> int" where
  "logDateToTime mk name =
     mk (digits_val (take 4 name), digits_val (take 2 (drop 4 name)), digits_val (take 2 (drop 6 name)))"

subsection \<open>logfile\<close>

definition first_word :: "string \<Rightarrow> string" where
  "first_word a = take 23 (takeWhile (\<lambda>c. c \<noteq> CHR '' '') a)"

definition rest_words :: "string \<Rightarrow> string" where
  "rest_words a = dropWhile (\<lambda>c. c = CHR '' '') (drop (length (first_word a)) a)"

definition basename :: "string \<Rightarrow> string" where
  "basename s = rev (takeWhile (\<lambda>c. c \<noteq> CHR ''/'') (rev s))"

text \<open>The action of \<open>boot\<close>: \<open>None\<close> leaves everything as it is.\<close>

definition bootAction :: "settings \<Rightarrow> string \<Rightarrow> string option" where
  "bootAction S action =
     (if action \<noteq> ''boot'' then Some action
      else if S NAME_KEY = None then Some ''on''
      else let cur = cfg S NAME_KEY 64 [] in if cur = [] \<or> \<not> isLogDateFile cur then None else Some ''on'')"

definition cmdLogfile :: "date \<Rightarrow> string \<Rightarrow> settings \<Rightarrow> settings \<times> cmd_text list" where
  "cmdLogfile today a S =
     (if wantsHelp a then (S, [HelpText])
      else if a = []
      then (let name = cfg S NAME_KEY 64 []; level = cfg S FLEVEL_KEY 16 ''verbose''; dir = cfg S DIR_KEY 64 ''/sdcard/log''
            in (S, [Line (if name \<noteq> [] then dir @ ''/'' @ name @ '' ('' @ level @ '')'' else ''off (level='' @ level @ '' when on)'')]))
      else let withLevel = (first_word a \<noteq> [] \<and> isLevelArg (first_word a) \<and> rest_words a \<noteq> []);
               action = (if withLevel then rest_words a else a);
               S1 = (if withLevel then S(FLEVEL_KEY \<mapsto> first_word a) else S)
           in case bootAction S1 action of
                None \<Rightarrow> (S1, [])
              | Some act \<Rightarrow>
                  if act = ''off'' then (S1(NAME_KEY \<mapsto> []), [Line ''off''])
                  else let name = (if act = ''on'' then dateName today else safeStrncpy 64 (basename act));
                           S2 = S1(NAME_KEY \<mapsto> name)
                       in (S2, [Line (cfg S2 DIR_KEY 64 ''/sdcard/log'' @ ''/'' @ name @ '' ('' @ cfg S2 FLEVEL_KEY 16 ''verbose'' @ '')'')]))"

subsection \<open>logrotate\<close>

definition LOGROTATE_MAX :: nat where "LOGROTATE_MAX = 256"

definition rotatePath :: "string \<Rightarrow> string \<Rightarrow> string" where
  "rotatePath dir name = take 79 (take 63 dir @ ''/'' @ take 12 name)"

text \<open>The files removed, in the order of the listing; \<open>listing\<close> is what \<open>fs_listdir\<close> gives of the directory.\<close>

definition expired :: "(date \<Rightarrow> int) \<Rightarrow> int \<Rightarrow> string \<Rightarrow> bool" where
  "expired mk cutoff name \<longleftrightarrow> isLogDateFile name \<and> 0 < logDateToTime mk name \<and> logDateToTime mk name < cutoff"

definition cmdLogrotate ::
  "(date \<Rightarrow> int) \<Rightarrow> int \<Rightarrow> date \<Rightarrow> (string \<Rightarrow> string list) \<Rightarrow> (string \<Rightarrow> bool) \<Rightarrow> string \<Rightarrow> settings \<Rightarrow> settings \<times> string list \<times> cmd_text list" where
  "cmdLogrotate mk now today listing removes a S =
     (if wantsHelp a then (S, [], [HelpText])
      else let dir = cfg S DIR_KEY 64 ''/sdcard/log''; curName = cfg S NAME_KEY 64 []
      in if curName \<noteq> [] \<and> \<not> isLogDateFile curName
         then (S, [], [Line ''logrotate: current log file is not a date-format log''])
         else let S1 = (if curName \<noteq> [] then S(NAME_KEY \<mapsto> dateName today) else S);
                  days = (if a \<noteq> [] then atoi a else 0)
              in if days \<le> 0 then (S1, [], [])
                 else let old = filter (expired mk (now - days * 86400)) (take LOGROTATE_MAX (listing dir));
                          paths = map (rotatePath dir) old;
                          n = length (filter removes paths)
                      in (S1, paths,
                          if n \<noteq> 0 then [Line (''deleted '' @ nat_str n @ '' old log file'' @ (if n > 1 then ''s'' else []))] else []))"

subsection \<open>log\<close>

definition tagKey :: "string \<Rightarrow> string" where
  "tagKey tag = take 31 (''s.log.tag.'' @ take 19 tag)"

definition logSetGlobal :: "string \<Rightarrow> settings \<Rightarrow> settings" where
  "logSetGlobal level S = S(''s.log.level'' \<mapsto> level)"

definition logSetTag :: "string \<Rightarrow> string \<Rightarrow> settings \<Rightarrow> settings" where
  "logSetTag tag level S = S(tagKey tag \<mapsto> level)"

definition logIsDebugTag :: "string option \<Rightarrow> esp_levels \<Rightarrow> bool" where
  "logIsDebugTag tag L \<longleftrightarrow> (case tag of None \<Rightarrow> False | Some t \<Rightarrow> 4 \<le> esp_log_level_get t L)"

definition logIsVerbose :: "string option \<Rightarrow> esp_levels \<Rightarrow> bool" where
  "logIsVerbose tag L \<longleftrightarrow> (case tag of None \<Rightarrow> False | Some t \<Rightarrow> 5 \<le> esp_log_level_get t L)"

text \<open>The command, and whether the levels are applied anew.\<close>

definition cmdLog :: "string \<Rightarrow> settings \<Rightarrow> settings \<times> bool \<times> cmd_text list" where
  "cmdLog a S =
     (if wantsHelp a then (S, False, [HelpText])
      else if a = ''timestamp'' then (S(''s.log.timestamp'' \<mapsto> ''1''), False, [])
      else if a = ''notimestamp'' then (S(''s.log.timestamp'' \<mapsto> ''0''), False, [])
      else if a = [] then (S, False, [Line (cfg S ''s.log.level'' 16 ''info'')])
      else let f = first_word a; r = rest_words a
      in if (f = [] \<or> isLevelArg f) \<and> r = [] then (logSetGlobal f S, True, [])
         else if r = []
         then (let val = cfg S (tagKey f) 16 ''-''
               in (S, False, [Line (f @ '': '' @ (if val \<noteq> [] \<and> hd val = CHR ''-'' then ''(default)'' else val))]))
         else (logSetTag f r S, True, []))"

subsection \<open>Settings the log task follows\<close>

definition logLoadColors :: "settings \<Rightarrow> string list" where
  "logLoadColors S =
     [cfg S ''s.log.colors.error'' 16 ''0;31'', cfg S ''s.log.colors.warn'' 16 ''0;33'', cfg S ''s.log.colors.info'' 16 ''0;32'',
      cfg S ''s.log.colors.debug'' 16 ''0;37'', cfg S ''s.log.colors.verbose'' 16 ''0;90'', cfg S ''s.log.colors.timestamp'' 16 ''0;90'']"

definition logPath :: "settings \<Rightarrow> string \<Rightarrow> string" where
  "logPath S name = snbuf 128 (cfg S DIR_KEY 64 ''/sdcard/log'' @ ''/'' @ name)"

definition logOnName :: "log_io \<Rightarrow> bool \<Rightarrow> bool \<Rightarrow> settings \<Rightarrow> string \<Rightarrow> log_state \<Rightarrow> log_state" where
  "logOnName io sd opened S val st =
     (let st1 = logFileClose (io_env io) st in if val = [] then st1 else logFileOpen io sd opened (logPath S val) st1)"

definition logOnLevel :: "string \<Rightarrow> log_state \<Rightarrow> log_state" where
  "logOnLevel val st = st\<lparr>ls_fileLevel := parseLevelNum val\<rparr>"

definition logOnInterval :: "string \<Rightarrow> log_state \<Rightarrow> log_state" where
  "logOnInterval val st = st\<lparr>ls_interval := atoi val * 1000\<rparr>"

text \<open>The start of the task; \<open>interval\<close> is the setting as \<open>storageGetInt\<close> reads it.\<close>

definition logTaskStart :: "log_io \<Rightarrow> bool \<Rightarrow> bool \<Rightarrow> int \<Rightarrow> settings \<Rightarrow> log_state \<Rightarrow> log_state" where
  "logTaskStart io sd opened interval S st =
     (let st1 = st\<lparr>ls_slots := map (\<lambda>s. s\<lparr>sl_handle := - 1\<rparr>) (ls_slots st),
                   ls_fileLevel := parseLevelNum (cfg S FLEVEL_KEY 16 ''verbose''), ls_interval := interval * 1000\<rparr>;
          name = cfg S NAME_KEY 64 []
      in if name = [] then st1 else logFileOpen io sd opened (logPath S name) st1)"

subsection \<open>Names and dates\<close>

lemma pad0_digits: "c \<in> set (pad0 w n) \<Longrightarrow> c_isdigit c"
  using nat_str_digits by (auto simp: pad0_def c_isdigit_def)

lemma length_pad0: "n < 10 ^ w \<Longrightarrow> 0 < w \<Longrightarrow> length (pad0 w n) = w"
  using length_nat_str [of n w] by (simp add: pad0_def)

lemma digits_val_pad0: "digits_val (pad0 w n) = n"
proof -
  have all: "takeWhile c_isdigit (pad0 w n) = pad0 w n" using pad0_digits by (auto intro: takeWhile_eq_all_conv [THEN iffD2])
  have "foldl (\<lambda>a c. 10 * a + digit_val c) 0 (replicate k CHR ''0'') = 0" for k
    by (induction k) (simp_all add: digit_val_def)
  then have "foldl (\<lambda>a c. 10 * a + digit_val c) 0 (pad0 w n) = n" by (simp add: pad0_def foldl_nat_str)
  then show ?thesis by (simp only: digits_val_def all)
qed

definition date_ok :: "date \<Rightarrow> bool" where
  "date_ok d \<longleftrightarrow> fst d < 10000 \<and> fst (snd d) < 100 \<and> snd (snd d) < 100"

lemma dateName_parts:
  assumes "date_ok (y, m, d)"
  shows "dateName (y, m, d) = pad0 4 y @ pad0 2 m @ pad0 2 d @ ''.log''"
    "length (pad0 4 y) = 4" "length (pad0 2 m) = 2" "length (pad0 2 d) = 2"
  using assms by (auto simp: date_ok_def dateName_def length_pad0)

lemma dateName_time:
  assumes "date_ok today"
  shows "isLogDateFile (dateName today)" "logDateToTime mk (dateName today) = mk today"
proof -
  obtain y m d where t: "today = (y, m, d)" by (cases today)
  note p = dateName_parts [OF assms [unfolded t]]
  have digits: "c_isdigit c" if "c \<in> set (pad0 4 y @ pad0 2 m @ pad0 2 d)" for c
    using that pad0_digits by auto
  have cut: "take 8 (dateName today) = pad0 4 y @ pad0 2 m @ pad0 2 d" "drop 8 (dateName today) = ''.log''"
    "take 4 (dateName today) = pad0 4 y" "take 2 (drop 4 (dateName today)) = pad0 2 m" "take 2 (drop 6 (dateName today)) = pad0 2 d"
    using p by (simp_all add: t)
  show "isLogDateFile (dateName today)" unfolding isLogDateFile_def cut using digits p by (simp add: t list_all_iff)
  show "logDateToTime mk (dateName today) = mk today" unfolding logDateToTime_def cut by (simp add: digits_val_pad0 t)
qed

lemma filter_take_mem: "x \<in> set (filter P (take n xs)) \<Longrightarrow> x \<in> set xs \<and> P x"
  by (auto dest: in_set_takeD)

text \<open>
  C33. On a day that began less than 24 hours ago, \<open>logrotate\<close> removes only files of the log
  directory whose name is a date that began more than the given positive number of days ago, and the log is off
  or goes to the file of today from then on, which is never among them.
\<close>

theorem logrotate_expires:
  assumes r: "cmdLogrotate mk now today listing removes a S = (S', removed, out)"
    and day: "date_ok today" "now - mk today < 86400"
    and path: "p \<in> set removed"
  shows "\<exists>name \<in> set (listing (cfg S DIR_KEY 64 ''/sdcard/log'')). p = cfg S DIR_KEY 64 ''/sdcard/log'' @ ''/'' @ name \<and>
      isLogDateFile name \<and> 0 < atoi a \<and> logDateToTime mk name < now - atoi a * 86400 \<and>
      (cfg S' NAME_KEY 64 [] = [] \<or> cfg S' NAME_KEY 64 [] = dateName today) \<and> name \<noteq> cfg S' NAME_KEY 64 []"
proof -
  let ?dir = "cfg S DIR_KEY 64 ''/sdcard/log''" and ?cur = "cfg S NAME_KEY 64 []"
  have d: "\<not> wantsHelp a" "?cur = [] \<or> isLogDateFile ?cur" "a \<noteq> []" "0 < atoi a"
    "S' = (if ?cur \<noteq> [] then S(NAME_KEY \<mapsto> dateName today) else S)"
    "removed = map (rotatePath ?dir) (filter (expired mk (now - atoi a * 86400)) (take LOGROTATE_MAX (listing ?dir)))"
    using r path by (auto simp: cmdLogrotate_def Let_def split: if_splits)
  then obtain name where n: "name \<in> set (listing ?dir)" "expired mk (now - atoi a * 86400) name" "p = rotatePath ?dir name"
    using path by (auto dest: filter_take_mem in_set_takeD)
  have len: "length ?dir \<le> 63" by (simp add: cfg_def)
  have l12: "length name = 12" using n(2) by (simp add: expired_def isLogDateFile_def)
  have p: "p = ?dir @ ''/'' @ name" using n(3) len l12 by (simp add: rotatePath_def)
  have dn: "length (dateName today) = 12" using dateName_time(1) [OF day(1)] by (simp add: isLogDateFile_def)
  have cur: "cfg S' NAME_KEY 64 [] = [] \<or> cfg S' NAME_KEY 64 [] = dateName today"
    using d(5) dn by (auto simp: cfg_def)
  have "name \<noteq> dateName today"
  proof
    assume "name = dateName today"
    then have "mk today < now - atoi a * 86400" using n(2) dateName_time(2) [OF day(1)] by (simp add: expired_def)
    then show False using day(2) d(4) by simp
  qed
  then have "name \<noteq> cfg S' NAME_KEY 64 []" using cur l12 by auto
  then show ?thesis using n(1,2) p cur d(4) unfolding expired_def by blast
qed

definition ex_mk :: "date \<Rightarrow> int" where
  "ex_mk d = (case d of (y, m, dd) \<Rightarrow> ((int y * 12 + int m) * 31 + int dd) * 86400)"

theorem logrotate_expires_witness:
  "\<exists>S' out. cmdLogrotate ex_mk (ex_mk (26, 3, 27) + 100) (26, 3, 27) (\<lambda>_. [''00260301.log'', ''00260326.log'', ''a.txt'']) (\<lambda>_. True) ''7''
       [NAME_KEY \<mapsto> ''00260326.log''] = (S', [''/sdcard/log/00260301.log''], out) \<and> cfg S' NAME_KEY 64 [] = ''00260327.log''"
proof -
  let ?S = "[NAME_KEY \<mapsto> ''00260326.log''] :: settings"
  let ?r = "cmdLogrotate ex_mk (ex_mk (26, 3, 27) + 100) (26, 3, 27) (\<lambda>_. [''00260301.log'', ''00260326.log'', ''a.txt'']) (\<lambda>_. True) ''7'' ?S"
  have v: "fst (snd ?r) = [''/sdcard/log/00260301.log'']" "cfg (fst ?r) NAME_KEY 64 [] = ''00260327.log''" by code_simp+
  obtain S' out where r: "?r = (S', [''/sdcard/log/00260301.log''], out)" using v(1) by (cases ?r) auto
  have "\<exists>name \<in> set [''00260301.log'', ''00260326.log'', ''a.txt'']. ''/sdcard/log/00260301.log'' = cfg ?S DIR_KEY 64 ''/sdcard/log'' @ ''/'' @ name"
    using logrotate_expires [OF r, of "''/sdcard/log/00260301.log''"] by (auto simp: date_ok_def)
  then show ?thesis using r v(2) by auto
qed

subsection \<open>Levels\<close>

lemma level_get_set: "x \<noteq> ''*'' \<Longrightarrow> esp_log_level_get t (esp_log_level_set x l L) = (if t = x then l else esp_log_level_get t L)"
  by (simp add: esp_log_level_get_def esp_log_level_set_def split: option.split)

lemma fold_levels:
  assumes "distinct (map fst xs)" "''*'' \<notin> fst ` set xs"
  shows "esp_log_level_get t (fold (\<lambda>x. esp_log_level_set (fst x) (f x)) xs L) =
    (case map_of xs t of Some v \<Rightarrow> f (t, v) | None \<Rightarrow> esp_log_level_get t L)"
  using assms
proof (induction xs arbitrary: L)
  case (Cons a xs)
  obtain k v where a: "a = (k, v)" by (cases a)
  then have "map_of xs k = None" using Cons.prems(1) by (simp add: map_of_eq_None_iff)
  then show ?case using Cons a by (auto simp: level_get_set split: option.split)
qed simp

text \<open>
  Once the levels are applied, the level of a tag is its setting, unless that is absent or says
  to inherit: then it is what the component registered for the tag, and without that the global
  level. That ESP-IDF forgets all tags when the global level is set does not show.
\<close>

theorem tag_levels_resolved:
  assumes "distinct (map fst tags)" "''*'' \<notin> fst ` set tags" "distinct (map fst defs)" "''*'' \<notin> fst ` set defs"
  shows "esp_log_level_get t (logApplyLevels level tags defs L) =
    (let inherited = tagDefaultLevel defs t (parseEspLevel level)
     in case map_of tags t of None \<Rightarrow> inherited | Some v \<Rightarrow> if v \<noteq> [] \<and> hd v = CHR ''-'' then inherited else parseEspLevel v)"
proof -
  let ?g = "parseEspLevel level"
  let ?f = "\<lambda>x. if snd x \<noteq> [] \<and> hd (snd x) = CHR ''-'' then tagDefaultLevel defs (fst x) ?g else parseEspLevel (snd x)"
  have a: "applyTag defs ?g = (\<lambda>x. esp_log_level_set (fst x) (?f x))" by (intro ext) (simp add: applyTag_def)
  have d: "(\<lambda>(t, l). esp_log_level_set t l) = (\<lambda>x. esp_log_level_set (fst x) (snd x))" by (auto simp: fun_eq_iff)
  have "esp_log_level_get t (esp_log_level_set ''*'' ?g L) = ?g" by (simp add: esp_log_level_get_def esp_log_level_set_def)
  then show ?thesis
    unfolding logApplyLevels_def Let_def a d fold_levels [OF assms(1,2), where f = ?f] fold_levels [OF assms(3,4), where f = snd]
    by (simp add: tagDefaultLevel_def split: option.split)
qed

theorem tag_levels_resolved_witness:
  "esp_log_level_get ''rnsd'' (logApplyLevels ''warn'' [(''wifi'', ''debug''), (''rnsd'', ''-'')] [(''rnsd'', 4)] \<lparr>el_global = 3, el_tags = Map.empty\<rparr>) = 4"
  by (subst tag_levels_resolved) (simp_all add: tagDefaultLevel_def)

end
