(* ===== verification/Cli_Path.thy ===== *)
theory Cli_Path
  imports C_String
begin

section \<open>The command line: paths\<close>

text \<open>
  The working directory of a session and the resolution of a path the user types (cli.cpp).
  The file system is asked through \<open>isdir\<close>; \<open>start\<close> is the setting \<open>s.cli.start_dir\<close>. A path is a
  C string; \<open>None\<close> is the answer false.
\<close>

abbreviation SLASHC :: char where "SLASHC \<equiv> CHR ''/''"

definition CLI_PATH_BUF :: nat where "CLI_PATH_BUF = 256"

text \<open>One component less: back over the last component, then over its slash unless it is the root's.\<close>

definition backSeg :: "string \<Rightarrow> string" where
  "backSeg out =
     (if length out \<le> 1 then out
      else let o1 = butlast out;
               o2 = rev (dropWhile (\<lambda>c. c \<noteq> SLASHC) (rev o1))
           in if length o2 > 1 then butlast o2 else [SLASHC])"

definition addSeg :: "string \<Rightarrow> string \<Rightarrow> string option" where
  "addSeg tok out =
     (if length out > 1 \<and> length out + 1 \<ge> CLI_PATH_BUF then None
      else let o1 = (if length out > 1 then out @ [SLASHC] else out)
           in if length o1 + length tok + 1 \<ge> CLI_PATH_BUF then None else Some (o1 @ tok))"

definition segStep :: "string \<Rightarrow> string \<Rightarrow> string option" where
  "segStep tok out =
     (if tok = [] \<or> tok = ''.'' then Some out
      else if tok = ''..'' then Some (backSeg out)
      else addSeg tok out)"

function collapseLoop :: "string \<Rightarrow> string \<Rightarrow> string option" where
  "collapseLoop p out =
     (if p = [] then Some out
      else let tok = takeWhile (\<lambda>c. c \<noteq> SLASHC) p;
               rest = dropWhile (\<lambda>c. c = SLASHC) (dropWhile (\<lambda>c. c \<noteq> SLASHC) p)
           in case segStep tok out of None \<Rightarrow> None | Some out1 \<Rightarrow> collapseLoop rest out1)"
  by pat_completeness auto
termination
proof (relation "measure (\<lambda>(p, _). length p)")
  fix p out tok rest out1
  assume a: "p \<noteq> []" "rest = dropWhile (\<lambda>c. c = SLASHC) (dropWhile (\<lambda>c. c \<noteq> SLASHC) p)"
  have "length rest < length p"
  proof (cases "hd p = SLASHC")
    case True
    then have "length rest \<le> length (tl p)" using a by (cases p) (simp_all add: length_dropWhile_le)
    then show ?thesis using a(1) by (cases p) auto
  next
    case False
    then have "length (dropWhile (\<lambda>c. c \<noteq> SLASHC) p) < length p"
      using a(1) by (cases p) (simp_all add: length_dropWhile_le le_imp_less_Suc)
    then show ?thesis using a(2) by (simp add: length_dropWhile_le [THEN le_less_trans])
  qed
  then show "((rest, out1), p, out) \<in> measure (\<lambda>(p, _). length p)" by simp
qed simp

declare collapseLoop.simps [simp del]

text \<open>
  \<open>cap\<close> is the size of the caller's buffer. The work copy has 256 bytes whatever \<open>cap\<close> is.
\<close>

definition cliCollapseAbsolute :: "nat \<Rightarrow> string \<Rightarrow> string option" where
  "cliCollapseAbsolute cap path =
     (if path = [] \<or> hd path \<noteq> SLASHC \<or> length path \<ge> cap then None
      else case collapseLoop (drop 1 (safeStrncpy CLI_PATH_BUF path)) [SLASHC] of
             None \<Rightarrow> None
           | Some out \<Rightarrow> if length out + 1 > cap then None else Some out)"

definition cliResolvedStartDir :: "(string \<Rightarrow> bool) \<Rightarrow> string \<Rightarrow> string" where
  "cliResolvedStartDir isdir start =
     (let d0 = take 255 start;
          d = (if d0 \<noteq> [] \<and> hd d0 = SLASHC then d0 else ''/'');
          t = (case cliCollapseAbsolute 256 (safeStrncpy 256 d) of Some x \<Rightarrow> x | None \<Rightarrow> ''/'')
      in if isdir t then t else ''/'')"

text \<open>\<open>cwd\<close> is the directory of the active session, \<open>None\<close> when no session is active.\<close>

definition cliGetCwd :: "(string \<Rightarrow> bool) \<Rightarrow> string \<Rightarrow> string option \<Rightarrow> string" where
  "cliGetCwd isdir start cwd =
     (case cwd of
        Some c \<Rightarrow> if c \<noteq> [] \<and> hd c = SLASHC then c else cliResolvedStartDir isdir start
      | None \<Rightarrow> cliResolvedStartDir isdir start)"

definition cliSetCwd :: "(string \<Rightarrow> bool) \<Rightarrow> string option \<Rightarrow> string \<Rightarrow> string option" where
  "cliSetCwd isdir cwd path =
     (case cwd of
        None \<Rightarrow> None
      | Some _ \<Rightarrow>
          let t0 = safeStrncpy 256 path
          in if t0 = [] \<or> hd t0 \<noteq> SLASHC then None
             else case cliCollapseAbsolute 256 t0 of
                    None \<Rightarrow> None
                  | Some t \<Rightarrow> if t = ''/'' then Some t else if isdir t then Some t else None)"

definition CLI_RESOLVE_BUF :: nat where "CLI_RESOLVE_BUF = 320"

definition cliResolveFsPath :: "(string \<Rightarrow> bool) \<Rightarrow> string \<Rightarrow> string option \<Rightarrow> nat \<Rightarrow> string \<Rightarrow> string option" where
  "cliResolveFsPath isdir start cwd outLen user =
     (let c = cliGetCwd isdir start cwd
      in if user = [] then Some (safeStrncpy outLen c)
         else let work = (if hd user = SLASHC then user else c @ [SLASHC] @ user)
              in if length work \<ge> CLI_RESOLVE_BUF then None
                 else case cliCollapseAbsolute CLI_RESOLVE_BUF work of
                        None \<Rightarrow> None
                      | Some w \<Rightarrow> if length w \<ge> outLen then None else Some (safeStrncpy outLen w))"

subsection \<open>The reference: components\<close>

text \<open>A path is its components; \<open>.\<close> and empty ones do not count, \<open>..\<close> goes up and stays at the root.\<close>

definition walkSeg :: "string \<Rightarrow> string list \<Rightarrow> string list" where
  "walkSeg tok segs = (if tok = [] \<or> tok = ''.'' then segs else if tok = ''..'' then butlast segs else segs @ [tok])"

definition pathOf :: "string list \<Rightarrow> string" where
  "pathOf segs = (if segs = [] then ''/'' else concat (map (\<lambda>s. SLASHC # s) segs))"

definition plain_seg :: "string \<Rightarrow> bool" where
  "plain_seg s \<longleftrightarrow> s \<noteq> [] \<and> SLASHC \<notin> set s \<and> s \<noteq> ''.'' \<and> s \<noteq> ''..''"

definition resolve :: "string \<Rightarrow> string list" where
  "resolve path = fold walkSeg (split_on SLASHC path) []"

subsection \<open>The loop walks the components\<close>

lemma walkSeg_plain: "list_all plain_seg segs \<Longrightarrow> SLASHC \<notin> set tok \<Longrightarrow> list_all plain_seg (walkSeg tok segs)"
  by (auto simp: walkSeg_def plain_seg_def list_all_iff dest: in_set_butlastD)

lemma split_on_skip: "fold walkSeg (split_on SLASHC (dropWhile (\<lambda>c. c = SLASHC) q)) segs = fold walkSeg (split_on SLASHC q) segs"
  by (induction q) (simp_all add: walkSeg_def)

lemma split_on_tok:
  defines "tok p \<equiv> takeWhile (\<lambda>c. c \<noteq> SLASHC) p" and "rest p \<equiv> dropWhile (\<lambda>c. c \<noteq> SLASHC) p"
  shows "fold walkSeg (split_on SLASHC p) segs =
    fold walkSeg (split_on SLASHC (dropWhile (\<lambda>c. c = SLASHC) (rest p))) (walkSeg (tok p) segs)"
proof (cases "rest p")
  case Nil
  then have "tok p = p" "SLASHC \<notin> set p" unfolding rest_def tok_def by (auto simp: takeWhile_eq_all_conv)
  then have "fold walkSeg (split_on SLASHC p) segs = walkSeg (tok p) segs" by simp
  moreover have "fold walkSeg (split_on SLASHC (dropWhile (\<lambda>c. c = SLASHC) (rest p))) x = x" for x
    unfolding Nil by (simp add: walkSeg_def)
  ultimately show ?thesis by simp
next
  case (Cons c r)
  then have c: "c = SLASHC" unfolding rest_def by (metis (mono_tags) hd_dropWhile list.sel(1) list.simps(3))
  have "p = tok p @ rest p" by (simp add: tok_def rest_def)
  then have "split_on SLASHC p = tok p # split_on SLASHC r"
    using split_on_append_sep [of SLASHC "tok p" r] Cons c by (metis set_takeWhileD tok_def)
  moreover have "fold walkSeg (split_on SLASHC (dropWhile (\<lambda>c. c = SLASHC) (rest p))) (walkSeg (tok p) segs) =
      fold walkSeg (split_on SLASHC r) (walkSeg (tok p) segs)"
    using split_on_skip [of r] Cons c by simp
  ultimately show ?thesis using Cons by simp
qed

lemma pathOf_snoc: "pathOf (segs @ [s]) = (if segs = [] then [] else pathOf segs) @ SLASHC # s"
  by (simp add: pathOf_def)

lemma pathOf_length: "segs \<noteq> [] \<Longrightarrow> list_all plain_seg segs \<Longrightarrow> 1 < length (pathOf segs)"
  by (cases segs) (auto simp: pathOf_def plain_seg_def)

lemma backSeg_pathOf: "list_all plain_seg segs \<Longrightarrow> backSeg (pathOf segs) = pathOf (butlast segs)"
proof (induction segs rule: rev_induct)
  case (snoc s segs)
  then have s: "s \<noteq> []" "SLASHC \<notin> set s" by (auto simp: plain_seg_def)
  let ?pre = "if segs = [] then [] else pathOf segs"
  obtain t where t: "butlast (pathOf (segs @ [s])) = ?pre @ SLASHC # t" "SLASHC \<notin> set t"
    using s by (auto simp: pathOf_snoc butlast_append dest: in_set_butlastD)
  have "rev (dropWhile (\<lambda>c. c \<noteq> SLASHC) (rev (?pre @ SLASHC # t))) = ?pre @ [SLASHC]"
  proof -
    have "\<forall>c \<in> set (rev t). c \<noteq> SLASHC" using t(2) by auto
    then have "dropWhile (\<lambda>c. c \<noteq> SLASHC) (rev t @ SLASHC # r) = SLASHC # r" for r by (subst dropWhile_append2) auto
    then show ?thesis by simp
  qed
  moreover have "1 < length (pathOf (segs @ [s]))" using s by (simp add: pathOf_snoc)
  ultimately have "backSeg (pathOf (segs @ [s])) = (if length (?pre @ [SLASHC]) > 1 then ?pre else [SLASHC])"
    unfolding backSeg_def Let_def t(1) by simp
  also have "\<dots> = pathOf segs" using snoc.prems pathOf_length [of segs] by (cases "segs = []") (simp_all add: pathOf_def)
  finally show ?case by simp
qed (simp add: backSeg_def pathOf_def)

definition room :: "string list \<Rightarrow> nat" where
  "room segs = length (pathOf segs) + (if segs = [] then 0 else 1)"

lemma addSeg_pathOf:
  assumes "list_all plain_seg segs" "plain_seg tok" "room segs + length tok \<le> 254"
  shows "addSeg tok (pathOf segs) = Some (pathOf (segs @ [tok]))"
proof (cases "segs = []")
  case True
  then show ?thesis using assms by (simp add: addSeg_def pathOf_def room_def CLI_PATH_BUF_def)
next
  case False
  then show ?thesis using assms pathOf_length [OF False assms(1)]
    by (simp add: addSeg_def pathOf_snoc room_def CLI_PATH_BUF_def)
qed

lemma room_butlast: "room (butlast segs) \<le> room segs"
proof (induction segs rule: rev_induct)
  case (snoc s segs)
  then show ?case by (cases "segs = []") (simp_all add: room_def pathOf_snoc pathOf_def)
qed simp

lemma room_walk: "room (walkSeg tok segs) \<le> room segs + length tok + 1"
  using room_butlast [of segs] by (auto simp: walkSeg_def) (cases "segs = []"; simp add: room_def pathOf_snoc pathOf_def)

lemma segStep_walk:
  assumes "list_all plain_seg segs" "SLASHC \<notin> set tok" "room segs + length tok \<le> 254"
  shows "segStep tok (pathOf segs) = Some (pathOf (walkSeg tok segs))"
  using assms addSeg_pathOf [of segs tok] backSeg_pathOf [of segs]
  by (auto simp: segStep_def walkSeg_def plain_seg_def)

lemma collapseLoop_walk:
  assumes "list_all plain_seg segs" "room segs + length p \<le> 254 \<or> p = []"
  shows "collapseLoop p (pathOf segs) = Some (pathOf (fold walkSeg (split_on SLASHC p) segs))"
  using assms
proof (induction "length p" arbitrary: p segs rule: less_induct)
  case less
  show ?case
  proof (cases "p = []")
    case True
    then show ?thesis by (subst collapseLoop.simps) (simp add: walkSeg_def)
  next
    case False
    let ?tok = "takeWhile (\<lambda>c. c \<noteq> SLASHC) p" and ?q = "dropWhile (\<lambda>c. c \<noteq> SLASHC) p"
    let ?rest = "dropWhile (\<lambda>c. c = SLASHC) ?q" and ?segs = "walkSeg ?tok segs"
    have tok: "SLASHC \<notin> set ?tok" by (auto dest: set_takeWhileD)
    have len: "length ?tok + length ?q = length p" by (metis length_append takeWhile_dropWhile_id)
    have b: "room segs + length p \<le> 254" using less.prems(2) False by simp
    have step: "segStep ?tok (pathOf segs) = Some (pathOf ?segs)"
      using segStep_walk [OF less.prems(1) tok] b len by simp
    have pl: "list_all plain_seg ?segs" by (rule walkSeg_plain [OF less.prems(1) tok])
    have rest: "?q = [] \<or> length ?rest < length ?q"
    proof (cases ?q)
      case (Cons c r)
      then have "c = SLASHC" by (metis (mono_tags) hd_dropWhile list.sel(1) list.simps(3))
      then show ?thesis using Cons length_dropWhile_le [of "\<lambda>c. c = SLASHC" r] by simp
    qed simp
    then have bnd: "room ?segs + length ?rest \<le> 254 \<or> ?rest = []"
    proof
      assume "length ?rest < length ?q"
      then show ?thesis using room_walk [of ?tok segs] b len by linarith
    next
      assume "?q = []"
      then have "?rest = []" by (simp only: dropWhile.simps)
      then show ?thesis by (rule disjI2)
    qed
    have lt: "length ?rest < length p"
      using rest
    proof
      assume "length ?rest < length ?q"
      then show ?thesis using len by linarith
    next
      assume "?q = []"
      then have "?rest = []" by (simp only: dropWhile.simps)
      then show ?thesis using False by (simp only: list.size(3) length_greater_0_conv not_False_eq_True)
    qed
    have "collapseLoop p (pathOf segs) = collapseLoop ?rest (pathOf ?segs)"
      using False step by (subst collapseLoop.simps) (simp add: Let_def)
    also have "\<dots> = Some (pathOf (fold walkSeg (split_on SLASHC ?rest) ?segs))" by (rule less.hyps [OF lt pl bnd])
    also have "fold walkSeg (split_on SLASHC ?rest) ?segs = fold walkSeg (split_on SLASHC p) segs"
      by (rule split_on_tok [symmetric])
    finally show ?thesis .
  qed
qed

lemma resolve_plain: "list_all plain_seg (resolve path)"
proof -
  have "list_all plain_seg segs \<Longrightarrow> \<forall>t \<in> set toks. SLASHC \<notin> set t \<Longrightarrow> list_all plain_seg (fold walkSeg toks segs)" for toks segs
    by (induction toks arbitrary: segs) (simp_all add: walkSeg_plain)
  then show ?thesis unfolding resolve_def using split_on_segment_no_sep [of _ SLASHC path] by simp
qed

lemma resolve_pathOf: "list_all plain_seg segs \<Longrightarrow> resolve (pathOf segs) = segs"
proof -
  have split: "split_on SLASHC (concat (map (\<lambda>s. SLASHC # s) segs)) = [] # (if segs = [] then [] else segs)" if "list_all plain_seg segs" for segs
    using that
  proof (induction segs rule: rev_induct)
    case (snoc s segs)
    have app: "split_on SLASHC (a @ SLASHC # s) = split_on SLASHC a @ [s]" if "SLASHC \<notin> set s" for a
      using that by (induction a) (auto split: list.split)
    show ?case using snoc app by (auto simp: plain_seg_def)
  qed simp
  assume pl: "list_all plain_seg segs"
  have f: "fold walkSeg ss acc = acc @ ss" if "list_all plain_seg ss" for ss acc
    using that by (induction ss arbitrary: acc) (auto simp: walkSeg_def plain_seg_def)
  show ?thesis
  proof (cases "segs = []")
    case True
    then show ?thesis by (simp add: resolve_def pathOf_def walkSeg_def)
  next
    case False
    then show ?thesis using split [OF pl] f [OF pl, of "[]"] by (simp add: resolve_def pathOf_def walkSeg_def)
  qed
qed

lemma walk_length: "length (pathOf (fold walkSeg (split_on SLASHC p) segs)) \<le> room segs + length p"
proof -
  have r: "room (fold walkSeg toks segs) \<le> room segs + length (concat (map (\<lambda>t. t @ [SLASHC]) toks))" for toks segs
  proof (induction toks arbitrary: segs)
    case (Cons t toks)
    have "room (fold walkSeg toks (walkSeg t segs)) \<le> room (walkSeg t segs) + length (concat (map (\<lambda>t. t @ [SLASHC]) toks))"
      by (rule Cons.IH)
    then show ?case using room_walk [of t segs] by simp
  qed simp
  have "room (fold walkSeg (split_on SLASHC p) segs) \<le> room segs + length p + 1"
    using r [of "split_on SLASHC p" segs] by (simp add: split_on_join)
  moreover have "0 < room segs" by (cases segs) (simp_all add: room_def pathOf_def)
  ultimately show ?thesis by (auto simp: room_def pathOf_def split: if_splits)
qed

lemma collapse_resolve:
  assumes "path \<noteq> []" "hd path = SLASHC" "length path < cap" "length path \<le> 254"
  shows "cliCollapseAbsolute cap path = Some (pathOf (resolve path))"
proof -
  obtain r where r: "path = SLASHC # r" using assms by (cases path) auto
  have "collapseLoop r (pathOf []) = Some (pathOf (fold walkSeg (split_on SLASHC r) []))"
    by (rule collapseLoop_walk) (use assms(4) r in \<open>simp_all add: room_def pathOf_def\<close>)
  moreover have "fold walkSeg (split_on SLASHC r) [] = resolve path" by (simp add: resolve_def r walkSeg_def)
  moreover have "length (pathOf (resolve path)) \<le> length path"
    using walk_length [of r "[]"] r by (simp add: room_def pathOf_def resolve_def walkSeg_def)
  ultimately show ?thesis using assms r by (simp add: cliCollapseAbsolute_def safeStrncpy_def CLI_PATH_BUF_def pathOf_def)
qed

subsection \<open>The working directory is absolute\<close>

lemma butlast_hd: "length xs > 1 \<Longrightarrow> butlast xs \<noteq> [] \<and> hd (butlast xs) = hd xs"
  by (cases xs) auto

lemma backSeg_abs:
  assumes "out \<noteq> []" "hd out = SLASHC"
  shows "backSeg out \<noteq> [] \<and> hd (backSeg out) = SLASHC"
proof (cases "length out \<le> 1")
  case False
  define o2 where "o2 = rev (dropWhile (\<lambda>c. c \<noteq> SLASHC) (rev (butlast out)))"
  have b: "butlast out \<noteq> []" "hd (butlast out) = SLASHC" using butlast_hd [of out] False assms by auto
  obtain t where t: "butlast out = o2 @ t" unfolding o2_def by (metis rev_append rev_rev_ident takeWhile_dropWhile_id)
  have "hd (butlast o2) = SLASHC \<and> butlast o2 \<noteq> []" if "length o2 > 1"
    using butlast_hd [OF that] b t that by (cases o2) auto
  then show ?thesis unfolding backSeg_def Let_def o2_def [symmetric] using False by simp
qed (use assms in \<open>simp add: backSeg_def\<close>)

lemma collapseLoop_abs: "collapseLoop p out = Some r \<Longrightarrow> out \<noteq> [] \<Longrightarrow> hd out = SLASHC \<Longrightarrow> r \<noteq> [] \<and> hd r = SLASHC"
proof (induction p out rule: collapseLoop.induct)
  case (1 p out)
  show ?case
  proof (cases "p = []")
    case False
    let ?tok = "takeWhile (\<lambda>c. c \<noteq> SLASHC) p" and ?rest = "dropWhile (\<lambda>c. c = SLASHC) (dropWhile (\<lambda>c. c \<noteq> SLASHC) p)"
    obtain o1 where o1: "segStep ?tok out = Some o1" "collapseLoop ?rest o1 = Some r"
      using "1.prems"(1) False by (subst (asm) collapseLoop.simps) (auto simp: Let_def split: option.splits)
    have "o1 \<noteq> [] \<and> hd o1 = SLASHC"
      using o1(1) backSeg_abs [OF "1.prems"(2,3)] "1.prems"(2,3) by (auto simp: segStep_def addSeg_def Let_def split: if_splits)
    then show ?thesis using "1.IH" [OF False refl refl o1(1) o1(2)] by blast
  qed (use "1.prems" in \<open>simp add: collapseLoop.simps\<close>)
qed

lemma cwd_abs: "cliGetCwd isdir start cwd \<noteq> [] \<and> hd (cliGetCwd isdir start cwd) = SLASHC"
proof -
  have "t \<noteq> [] \<and> hd t = SLASHC" if "cliCollapseAbsolute 256 d = Some t" for d t
    using that collapseLoop_abs [of _ "[SLASHC]" t] by (auto simp: cliCollapseAbsolute_def split: if_splits option.splits)
  then have "cliResolvedStartDir isdir start \<noteq> [] \<and> hd (cliResolvedStartDir isdir start) = SLASHC"
    by (auto simp: cliResolvedStartDir_def Let_def split: option.split)
  then show ?thesis by (simp add: cliGetCwd_def split: option.split)
qed

end
