(* ===== verification/Cli_Edit.thy ===== *)
theory Cli_Edit
  imports Cli_Path Cli_Proc
begin

section \<open>The command line: the line editor\<close>

text \<open>
  The line editor of cli.cpp: the line with its cursor, the decoder of escape sequences, history,
  completion, and what is written to the terminal. \<open>edit_env\<close> is what the active session and the
  settings say; a command line that is entered goes to \<open>proc\<close>, which may change the whole session.
  Characters are unsigned bytes, as on the target. \<open>ss_out\<close> are the writes, in order.
\<close>

definition HIST_SIZE :: nat where "HIST_SIZE = 20"
definition EDIT_MAX :: nat where "EDIT_MAX = 4096"
abbreviation ESCC :: char where "ESCC \<equiv> CHR 0x1B"

record edit =
  e_buf :: string
  e_saved :: string
  e_cursor :: nat
  e_esc :: nat
  e_param :: nat
  e_hist :: int
  e_savedValid :: bool

record edit_env =
  ee_ansi :: bool
  ee_color :: bool
  ee_cols :: nat
  ee_prompt :: string
  ee_usb :: bool

record 'a edit_session =
  ss_edit :: edit
  ss_hist :: "string list"
  ss_out :: "string list"
  ss_close :: bool
  ss_resume :: bool
  ss_inCli :: bool
  ss_sys :: 'a

definition histAdd :: "string \<Rightarrow> string list \<Rightarrow> string list" where
  "histAdd cmd h = (if h \<noteq> [] \<and> hd h = cmd then h else take HIST_SIZE (cmd # h))"

definition histGet :: "int \<Rightarrow> string list \<Rightarrow> string option" where
  "histGet i h = (if i < 0 \<or> i \<ge> int (length h) then None else Some (h ! nat i))"

subsection \<open>Writing to the terminal\<close>

definition seq_csi :: "nat \<Rightarrow> char \<Rightarrow> string" where
  "seq_csi n c = ESCC # ''['' @ nat_str n @ [c]"

definition CLEAR_DOWN :: string where "CLEAR_DOWN = ESCC # ''[J''"
definition SHAPE_BAR :: string where "SHAPE_BAR = ESCC # ''[2 q''"
definition SHAPE_DEFAULT :: string where "SHAPE_DEFAULT = ESCC # ''[0 q''"
definition CYAN :: string where "CYAN = ESCC # ''[36m''"
definition RESET :: string where "RESET = ESCC # ''[0m''"

definition cliColorWrite :: "edit_env \<Rightarrow> string \<Rightarrow> string" where
  "cliColorWrite E q = (if ee_ansi E \<and> ee_color E then q else [])"

definition cliTermWidth :: "edit_env \<Rightarrow> nat" where
  "cliTermWidth E = (if ee_cols E > 0 then ee_cols E else 80)"

definition cliMoveCursor :: "edit_env \<Rightarrow> nat \<Rightarrow> nat \<Rightarrow> string" where
  "cliMoveCursor E from to =
     (if from = to then []
      else let w = cliTermWidth E; p = length (ee_prompt E);
               frRow = (p + from) div w; toRow = (p + to) div w; toCol = (p + to) mod w
           in (if toRow < frRow then seq_csi (frRow - toRow) CHR ''A''
               else if toRow > frRow then seq_csi (toRow - frRow) CHR ''B'' else [])
              @ seq_csi (toCol + 1) CHR ''G'')"

definition cliEditRefresh :: "edit_env \<Rightarrow> edit \<Rightarrow> nat \<Rightarrow> string" where
  "cliEditRefresh E e from =
     cliMoveCursor E from 0 @ CLEAR_DOWN @ e_buf e @ cliMoveCursor E (length (e_buf e)) (e_cursor e)"

definition cliWritePrompt :: "edit_env \<Rightarrow> string" where
  "cliWritePrompt E =
     (let buf = ee_prompt E; n = length buf; hostLen = (if n > 3 then n - 3 else n)
      in if n = 0 then []
         else cliColorWrite E (ESCC # ''[1;32m'') @ take hostLen buf @ cliColorWrite E RESET @ drop hostLen buf)"

definition cliReturnToLog :: "edit_env \<Rightarrow> string" where
  "cliReturnToLog E = cliColorWrite E RESET @ [CHR 0x0D, CHR 0x0A, CHR 0x0D, CHR 0x0A] @ ''Returning to log'' @ [CHR 0x0D, CHR 0x0A]"

definition CRLF :: string where "CRLF = [CHR 0x0D, CHR 0x0A]"

definition put :: "string \<Rightarrow> 'a edit_session \<Rightarrow> 'a edit_session" where
  "put q S = S\<lparr>ss_out := ss_out S @ [q]\<rparr>"

definition upd_edit :: "(edit \<Rightarrow> edit) \<Rightarrow> 'a edit_session \<Rightarrow> 'a edit_session" where
  "upd_edit f S = S\<lparr>ss_edit := f (ss_edit S)\<rparr>"

subsection \<open>Moving and replacing\<close>

definition cliEditGoto :: "edit_env \<Rightarrow> nat \<Rightarrow> 'a edit_session \<Rightarrow> 'a edit_session" where
  "cliEditGoto E to S =
     (let e = ss_edit S
      in if to = e_cursor e then S
         else put (cliMoveCursor E (e_cursor e) to @ (if to < length (e_buf e) then SHAPE_BAR else SHAPE_DEFAULT))
                (upd_edit (\<lambda>x. x\<lparr>e_cursor := to\<rparr>) S))"

definition cliEditReplace :: "edit_env \<Rightarrow> string \<Rightarrow> 'a edit_session \<Rightarrow> 'a edit_session" where
  "cliEditReplace E line S =
     put (cliMoveCursor E (e_cursor (ss_edit S)) 0 @ CLEAR_DOWN
          @ (if line \<noteq> [] then (if ee_ansi E then cliColorWrite E CYAN else []) @ line
             else if ee_ansi E then cliColorWrite E RESET else []))
       (upd_edit (\<lambda>x. x\<lparr>e_buf := line, e_cursor := length line\<rparr>) S)"

subsection \<open>Keys\<close>

definition keyUp :: "edit_env \<Rightarrow> 'a edit_session \<Rightarrow> 'a edit_session" where
  "keyUp E S =
     (let e = ss_edit S; next = e_hist e + 1
      in case histGet next (ss_hist S) of
           None \<Rightarrow> S
         | Some h \<Rightarrow>
             let S1 = (if e_hist e < 0 then upd_edit (\<lambda>x. x\<lparr>e_saved := e_buf x, e_savedValid := True\<rparr>) S else S)
             in cliEditReplace E h (upd_edit (\<lambda>x. x\<lparr>e_hist := next\<rparr>) S1))"

definition keyDown :: "edit_env \<Rightarrow> 'a edit_session \<Rightarrow> 'a edit_session" where
  "keyDown E S =
     (let e = ss_edit S
      in if e_hist e > 0
         then (let S1 = upd_edit (\<lambda>x. x\<lparr>e_hist := e_hist e - 1\<rparr>) S
               in case histGet (e_hist e - 1) (ss_hist S) of None \<Rightarrow> S1 | Some h \<Rightarrow> cliEditReplace E h S1)
         else if e_hist e = 0
         then upd_edit (\<lambda>x. x\<lparr>e_savedValid := False\<rparr>)
                (cliEditReplace E (if e_savedValid e then e_saved e else []) (upd_edit (\<lambda>x. x\<lparr>e_hist := - 1\<rparr>) S))
         else S)"

definition keyDelete :: "edit_env \<Rightarrow> 'a edit_session \<Rightarrow> 'a edit_session" where
  "keyDelete E S =
     (let S1 = upd_edit (\<lambda>x. x\<lparr>e_buf := take (e_cursor x) (e_buf x) @ drop (e_cursor x + 1) (e_buf x)\<rparr>) S;
          e = ss_edit S1
      in if e_buf e = [] \<and> ee_ansi E then put (cliColorWrite E RESET @ CLEAR_DOWN @ SHAPE_DEFAULT) S1
         else put (cliEditRefresh E e (e_cursor e) @ (if e_cursor e = length (e_buf e) then SHAPE_DEFAULT else [])) S1)"

definition cliEditEscKey :: "edit_env \<Rightarrow> char \<Rightarrow> nat \<Rightarrow> 'a edit_session \<Rightarrow> 'a edit_session" where
  "cliEditEscKey E fin param S =
     (let e = ss_edit S; n = length (e_buf e)
      in if fin = CHR ''D'' then (if e_cursor e > 0 then cliEditGoto E (e_cursor e - 1) S else S)
         else if fin = CHR ''C'' then (if e_cursor e < n then cliEditGoto E (e_cursor e + 1) S else S)
         else if fin = CHR ''A'' then keyUp E S
         else if fin = CHR ''B'' then keyDown E S
         else if fin = CHR ''H'' then cliEditGoto E 0 S
         else if fin = CHR ''F'' then cliEditGoto E n S
         else if fin = CHR ''~''
         then (if param = 3 \<and> e_cursor e < n then keyDelete E S
               else if param = 1 \<or> param = 7 then cliEditGoto E 0 S
               else if param = 4 \<or> param = 8 then cliEditGoto E n S
               else S)
         else S)"

subsection \<open>Completion\<close>

text \<open>\<open>resolve_dir\<close> is \<open>cliResolveFsPath\<close> into a 256-byte buffer, \<open>cwd\<close> the current directory, \<open>listing\<close> what \<open>fs_listdir\<close> gives.\<close>

record tab_env =
  te_cmds :: "string list"
  te_resolve :: "string \<Rightarrow> string option"
  te_cwd :: string
  te_list :: "string \<Rightarrow> string list"

definition cliCmdWantsFileArgs :: "string \<Rightarrow> bool" where
  "cliCmdWantsFileArgs c \<longleftrightarrow> c \<in> set [''ls'', ''cd'', ''mkdir'', ''rm'', ''cat'', ''df'', ''run'', ''logfile'']"

fun common :: "string \<Rightarrow> string \<Rightarrow> string" where
  "common (x # a) (y # b) = (if x = y then x # common a b else [])"
| "common _ _ = []"

definition tabWord :: "edit \<Rightarrow> string" where
  "tabWord e = rev (takeWhile (\<lambda>c. c \<noteq> CHR '' '') (rev (take (e_cursor e) (e_buf e))))"

definition tabDir :: "tab_env \<Rightarrow> string \<Rightarrow> (string \<times> string) option" where
  "tabDir T word =
     (if SLASHC \<in> set word
      then let pfx = rev (takeWhile (\<lambda>c. c \<noteq> SLASHC) (rev word));
               seg = take (length word - length pfx - 1) word
           in if length seg \<ge> 256 then None
              else case te_resolve T (if seg \<noteq> [] then seg else ''.'') of
                     None \<Rightarrow> None
                   | Some d \<Rightarrow> if length pfx \<ge> 128 then None else Some (d, pfx)
      else if length word \<ge> 128 then None else Some (te_cwd T, word))"

definition tabMatch :: "string list \<Rightarrow> string \<Rightarrow> string" where
  "tabMatch names pfx =
     (case filter (\<lambda>n. take (length pfx) n = pfx) (take 128 names) of
        [] \<Rightarrow> []
      | m # ms \<Rightarrow> foldl common (take 127 m) ms)"

definition cliTabComplete :: "edit_env \<Rightarrow> tab_env \<Rightarrow> 'a edit_session \<Rightarrow> 'a edit_session" where
  "cliTabComplete E T S =
     (let e = ss_edit S; word = tabWord e;
          line0 = dropWhile (\<lambda>c. c = CHR '' '') (e_buf e);
          cmd = cliLongestCmdMatch line0 (te_cmds T);
          cmdEnd = (length (e_buf e) - length line0) + length cmd
      in if \<not> cliCmdWantsFileArgs cmd then S
         else if e_cursor e \<le> cmdEnd then S
         else if word \<noteq> [] \<and> hd word = CHR ''-'' then S
         else case tabDir T word of
                None \<Rightarrow> S
              | Some (d, pfx) \<Rightarrow>
                  let suffix = drop (length pfx) (tabMatch (te_list T d) pfx)
                  in if suffix = [] then S
                     else let S1 = upd_edit (\<lambda>x. x\<lparr>e_buf := take (e_cursor x) (e_buf x) @ suffix @ drop (e_cursor x) (e_buf x),
                                                   e_cursor := e_cursor x + length suffix\<rparr>) S
                          in put (cliEditRefresh E (ss_edit S1) (e_cursor e)) S1)"

subsection \<open>One byte\<close>

definition cliLineEndsWithSemicolon :: "string \<Rightarrow> bool" where
  "cliLineEndsWithSemicolon line =
     (let r = dropWhile (\<lambda>c. c = CHR '' '' \<or> c = CHR 0x09) (rev line) in r \<noteq> [] \<and> hd r = CHR '';'')"

definition editEnter :: "edit_env \<Rightarrow> (string \<Rightarrow> 'a edit_session \<Rightarrow> 'a edit_session) \<Rightarrow> 'a edit_session \<Rightarrow> 'a edit_session" where
  "editEnter E proc S =
     (let line = e_buf (ss_edit S)
      in if line \<noteq> []
         then let S1 = (upd_edit (\<lambda>x. x\<lparr>e_buf := [], e_cursor := 0, e_hist := - 1, e_savedValid := False\<rparr>) S)\<lparr>ss_hist := histAdd line (ss_hist S)\<rparr>;
                  semi = cliLineEndsWithSemicolon line;
                  resumeLog = (semi \<and> ee_usb E);
                  itsHangup = (semi \<and> \<not> ee_usb E);
                  S2 = put CRLF S1;
                  S3 = (if resumeLog then (put (cliReturnToLog E) S2)\<lparr>ss_inCli := False\<rparr> else S2);
                  S4 = proc line S3
              in if \<not> semi \<and> \<not> ss_close S4
                 then put ((if ee_ansi E then cliColorWrite E RESET @ cliWritePrompt E else []) @ SHAPE_DEFAULT) S4
                 else let S5 = put (cliColorWrite E RESET) S4;
                          S6 = (if resumeLog then S5\<lparr>ss_resume := True\<rparr> else S5)
                      in if itsHangup then S6\<lparr>ss_close := True\<rparr> else S6
         else if ee_usb E then (put (cliReturnToLog E) S)\<lparr>ss_close := True\<rparr>
         else if ee_ansi E then put (CRLF @ cliWritePrompt E @ SHAPE_DEFAULT) S
         else S)"

definition editBackspace :: "edit_env \<Rightarrow> 'a edit_session \<Rightarrow> 'a edit_session" where
  "editBackspace E S =
     (if e_cursor (ss_edit S) > 0
      then let S1 = upd_edit (\<lambda>x. x\<lparr>e_buf := take (e_cursor x - 1) (e_buf x) @ drop (e_cursor x) (e_buf x), e_cursor := e_cursor x - 1\<rparr>) S;
               e = ss_edit S1
           in if e_buf e = [] \<and> ee_ansi E
              then put (cliMoveCursor E (e_cursor e + 1) 0 @ cliColorWrite E RESET @ CLEAR_DOWN @ SHAPE_DEFAULT) S1
              else put (cliEditRefresh E e (e_cursor e + 1)) S1
      else S)"

definition editInsert :: "edit_env \<Rightarrow> char \<Rightarrow> 'a edit_session \<Rightarrow> 'a edit_session" where
  "editInsert E c S =
     (let e0 = ss_edit S;
          atEnd = (e_cursor e0 = length (e_buf e0));
          S0 = (if e_buf e0 = [] \<and> ee_ansi E then put (cliColorWrite E CYAN) S else S);
          S1 = upd_edit (\<lambda>x. x\<lparr>e_buf := take (e_cursor x) (e_buf x) @ c # drop (e_cursor x) (e_buf x), e_cursor := e_cursor x + 1\<rparr>) S0;
          e = ss_edit S1
      in if atEnd then put [c] S1 else put (cliEditRefresh E e (e_cursor e - 1)) S1)"

abbreviation code :: "char \<Rightarrow> nat" where "code c \<equiv> of_char c"

definition escByte :: "edit_env \<Rightarrow> char \<Rightarrow> 'a edit_session \<Rightarrow> 'a edit_session" where
  "escByte E c S =
     (let e = ss_edit S
      in if e_esc e = 1
         then upd_edit (\<lambda>x. x\<lparr>e_param := 0, e_esc := (if c = CHR ''['' then 2 else if c = CHR ''O'' then 3 else 0)\<rparr>) S
         else if e_esc e = 2 \<or> e_esc e = 4
         then (if 0x30 \<le> code c \<and> code c \<le> 0x3f
               then (if e_esc e = 2
                     then (if c_isdigit c
                           then (if e_param e < 10000 then upd_edit (\<lambda>x. x\<lparr>e_param := e_param x * 10 + digit_val c\<rparr>) S else S)
                           else upd_edit (\<lambda>x. x\<lparr>e_esc := 4\<rparr>) S)
                     else S)
               else if 0x20 \<le> code c \<and> code c \<le> 0x2f then S
               else let S1 = upd_edit (\<lambda>x. x\<lparr>e_esc := 0\<rparr>) S
                    in if 0x40 \<le> code c \<and> code c \<le> 0x7e then cliEditEscKey E c (e_param e) S1 else S1)
         else cliEditEscKey E c 0 (upd_edit (\<lambda>x. x\<lparr>e_esc := 0\<rparr>) S))"

definition cliEditChar :: "edit_env \<Rightarrow> tab_env \<Rightarrow> (string \<Rightarrow> 'a edit_session \<Rightarrow> 'a edit_session) \<Rightarrow> char \<Rightarrow> 'a edit_session \<Rightarrow> 'a edit_session" where
  "cliEditChar E T proc c S =
     (let e = ss_edit S
      in if e_esc e \<noteq> 0 then escByte E c S
         else if c = ESCC then upd_edit (\<lambda>x. x\<lparr>e_esc := 1\<rparr>) S
         else if c = CHR 0x04
         then (if ee_usb E then put (cliReturnToLog E) S else if ee_ansi E then put CRLF S else S)\<lparr>ss_close := True\<rparr>
         else if c = CHR 0x01 then cliEditGoto E 0 S
         else if c = CHR 0x05 then cliEditGoto E (length (e_buf e)) S
         else if c = CHR 0x09 then cliTabComplete E T S
         else if c = CHR 0x0A \<or> c = CHR 0x0D then editEnter E proc S
         else if c = CHR 0x7F \<or> c = CHR 0x08 then editBackspace E S
         else if code c \<ge> 0x20 \<and> length (e_buf e) < EDIT_MAX then editInsert E c S
         else S)"

text \<open>The command \<open>exit\<close>; its help line is left out.\<close>

definition cmdExit :: "edit_env \<Rightarrow> string \<Rightarrow> 'a edit_session \<Rightarrow> 'a edit_session" where
  "cmdExit E a S = (if wantsHelp a then S else (if ee_usb E then put (cliReturnToLog E) S else S)\<lparr>ss_close := True\<rparr>)"

fun editChars :: "edit_env \<Rightarrow> tab_env \<Rightarrow> (string \<Rightarrow> 'a edit_session \<Rightarrow> 'a edit_session) \<Rightarrow> string \<Rightarrow> 'a edit_session \<Rightarrow> 'a edit_session" where
  "editChars E T proc [] S = S"
| "editChars E T proc (c # cs) S = editChars E T proc cs (cliEditChar E T proc c S)"

end
