(* ===== verification/Cli_Edit_Ref.thy ===== *)
theory Cli_Edit_Ref
  imports Cli_Edit
begin

section \<open>The command line: the editor as a text with a cursor\<close>

text \<open>
  The reference is the text left and right of the cursor. The bytes a terminal sends for a key have
  the key's effect on it, the escape sequences are consumed whole, and Enter hands the text over.
\<close>

lemma session_sel [simp]:
  "ss_edit (put q S) = ss_edit S" "ss_hist (put q S) = ss_hist S" "ss_sys (put q S) = ss_sys S" "ss_close (put q S) = ss_close S"
  "ss_edit (upd_edit f S) = f (ss_edit S)" "ss_hist (upd_edit f S) = ss_hist S" "ss_sys (upd_edit f S) = ss_sys S"
  "ss_close (upd_edit f S) = ss_close S"
  by (simp_all add: put_def upd_edit_def)

subsection \<open>The cursor stays in the line\<close>

definition edit_ok :: "edit \<Rightarrow> bool" where
  "edit_ok e \<longleftrightarrow> e_cursor e \<le> length (e_buf e) \<and> e_esc e \<le> 4"

abbreviation sess_ok :: "'a edit_session \<Rightarrow> bool" where "sess_ok S \<equiv> edit_ok (ss_edit S)"

lemma goto_edit: "ss_edit (cliEditGoto E to S) = (ss_edit S)\<lparr>e_cursor := to\<rparr>"
  by (cases "ss_edit S") (simp add: cliEditGoto_def Let_def)

lemma replace_edit: "ss_edit (cliEditReplace E line S) = (ss_edit S)\<lparr>e_buf := line, e_cursor := length line\<rparr>"
  by (simp add: cliEditReplace_def)

lemma delete_edit: "ss_edit (keyDelete E S) = (ss_edit S)\<lparr>e_buf := take (e_cursor (ss_edit S)) (e_buf (ss_edit S)) @ drop (e_cursor (ss_edit S) + 1) (e_buf (ss_edit S))\<rparr>"
  by (simp add: keyDelete_def Let_def)

lemma keys_ok:
  assumes "sess_ok S"
  shows "sess_ok (keyUp E S)" "sess_ok (keyDown E S)" "e_cursor (ss_edit S) < length (e_buf (ss_edit S)) \<Longrightarrow> sess_ok (keyDelete E S)"
  using assms by (auto simp: keyUp_def keyDown_def delete_edit Let_def replace_edit edit_ok_def split: option.split)

lemma escKey_ok: "sess_ok S \<Longrightarrow> sess_ok (cliEditEscKey E c p S)"
proof -
  assume ok: "sess_ok S"
  have g: "to \<le> length (e_buf (ss_edit S)) \<Longrightarrow> sess_ok (cliEditGoto E to S)" for to
    using ok by (simp add: goto_edit edit_ok_def)
  have le: "e_cursor (ss_edit S) \<le> length (e_buf (ss_edit S))" using ok by (simp add: edit_ok_def)
  have "sess_ok (cliEditGoto E 0 S)" "sess_ok (cliEditGoto E (length (e_buf (ss_edit S))) S)" "sess_ok (cliEditGoto E (e_cursor (ss_edit S) - 1) S)"
    "e_cursor (ss_edit S) < length (e_buf (ss_edit S)) \<Longrightarrow> sess_ok (cliEditGoto E (e_cursor (ss_edit S) + 1) S)"
    using le by (auto intro!: g)
  then show ?thesis unfolding cliEditEscKey_def Let_def using ok keys_ok [OF ok] by (simp del: One_nat_def)
qed

lemma escByte_ok: "sess_ok S \<Longrightarrow> sess_ok (escByte E c S)"
proof -
  assume ok: "sess_ok S"
  have z: "sess_ok (upd_edit (\<lambda>x. x\<lparr>e_esc := 0\<rparr>) S)" using ok by (simp add: edit_ok_def)
  show ?thesis using ok z escKey_ok [OF z] by (simp add: escByte_def Let_def) (simp add: edit_ok_def)
qed

lemma cliEditChar_ok:
  assumes ok: "sess_ok S" and proc: "\<And>line S. sess_ok S \<Longrightarrow> sess_ok (proc line S)"
  shows "sess_ok (cliEditChar E T proc c S)"
proof -
  have tab: "sess_ok (cliTabComplete E T S)"
    using ok by (auto simp: cliTabComplete_def Let_def edit_ok_def split: option.split)
  let ?S1 = "(upd_edit (\<lambda>x. x\<lparr>e_buf := [], e_cursor := 0, e_hist := - 1, e_savedValid := False\<rparr>) S)\<lparr>ss_hist := histAdd (e_buf (ss_edit S)) (ss_hist S)\<rparr>"
  have s1: "sess_ok (put CRLF ?S1)" "sess_ok ((put (cliReturnToLog E) (put CRLF ?S1))\<lparr>ss_inCli := False\<rparr>)" using ok by (simp_all add: edit_ok_def)
  have enter: "sess_ok (editEnter E proc S)"
    using ok proc [OF s1(1)] proc [OF s1(2)] by (simp add: editEnter_def Let_def)
  have chars: "sess_ok (editBackspace E S)" "sess_ok (editInsert E c S)"
    using ok by (auto simp: editBackspace_def editInsert_def Let_def edit_ok_def)
  have g: "sess_ok (cliEditGoto E 0 S)" "sess_ok (cliEditGoto E (length (e_buf (ss_edit S))) S)"
    using ok by (simp_all add: goto_edit edit_ok_def)
  have z: "sess_ok (upd_edit (\<lambda>x. x\<lparr>e_esc := 1\<rparr>) S)" using ok by (simp add: edit_ok_def)
  show ?thesis using ok tab enter chars g z escByte_ok [OF ok] by (simp add: cliEditChar_def Let_def)
qed

subsection \<open>Keys\<close>

datatype key = KChar char | KLeft | KRight | KHome | KEnd | KBack | KDel

fun keyBytes :: "key \<Rightarrow> string" where
  "keyBytes (KChar c) = [c]"
| "keyBytes KLeft = ESCC # ''[D''"
| "keyBytes KRight = ESCC # ''[C''"
| "keyBytes KHome = ESCC # ''[H''"
| "keyBytes KEnd = ESCC # ''[F''"
| "keyBytes KBack = [CHR 0x7F]"
| "keyBytes KDel = ESCC # ''[3~''"

fun refKey :: "key \<Rightarrow> string \<times> string \<Rightarrow> string \<times> string" where
  "refKey (KChar c) (l, r) = (l @ [c], r)"
| "refKey KLeft (l, r) = (if l = [] then (l, r) else (butlast l, last l # r))"
| "refKey KRight (l, r) = (case r of [] \<Rightarrow> (l, r) | x # xs \<Rightarrow> (l @ [x], xs))"
| "refKey KHome (l, r) = ([], l @ r)"
| "refKey KEnd (l, r) = (l @ r, [])"
| "refKey KBack (l, r) = (butlast l, r)"
| "refKey KDel (l, r) = (l, drop 1 r)"

fun typable :: "key \<Rightarrow> bool" where
  "typable (KChar c) \<longleftrightarrow> 0x20 \<le> code c \<and> c \<noteq> CHR 0x7F"
| "typable _ \<longleftrightarrow> True"

definition text_of :: "edit \<Rightarrow> string \<times> string" where
  "text_of e = (take (e_cursor e) (e_buf e), drop (e_cursor e) (e_buf e))"

text \<open>What the keys leave alone.\<close>

definition rest_kept :: "'a edit_session \<Rightarrow> 'a edit_session \<Rightarrow> bool" where
  "rest_kept S S' \<longleftrightarrow> ss_hist S' = ss_hist S \<and> ss_sys S' = ss_sys S \<and> ss_close S' = ss_close S \<and>
     e_hist (ss_edit S') = e_hist (ss_edit S) \<and> e_esc (ss_edit S') = e_esc (ss_edit S)"

lemma goto_rest: "rest_kept S (cliEditGoto E to S)"
  by (simp add: rest_kept_def cliEditGoto_def Let_def)

lemma take_butlast: "0 < n \<Longrightarrow> n \<le> length xs \<Longrightarrow> butlast (take n xs) = take (n - 1) xs \<and> last (take n xs) # drop n xs = drop (n - 1) xs"
proof -
  assume n: "0 < n" "n \<le> length xs"
  then obtain k where k: "n = Suc k" by (cases n) auto
  then have "take n xs = take k xs @ [xs ! k]" "drop k xs = xs ! k # drop n xs"
    using n by (simp_all add: take_Suc_conv_app_nth Cons_nth_drop_Suc)
  then show ?thesis using k by simp
qed

lemma char_step:
  assumes "e_esc (ss_edit S) = 0" "edit_ok (ss_edit S)" "typable (KChar c)" "length (e_buf (ss_edit S)) < EDIT_MAX"
  shows "text_of (ss_edit (cliEditChar E T proc c S)) = refKey (KChar c) (text_of (ss_edit S))"
    "rest_kept S (cliEditChar E T proc c S)"
proof -
  have c: "c \<noteq> ESCC" "c \<noteq> CHR 0x04" "c \<noteq> CHR 0x01" "c \<noteq> CHR 0x05" "c \<noteq> CHR 0x09" "c \<noteq> CHR 0x0A" "c \<noteq> CHR 0x0D" "c \<noteq> CHR 0x08"
    using assms(3) by auto
  have r: "cliEditChar E T proc c S = editInsert E c S" using assms c by (simp add: cliEditChar_def Let_def)
  show "text_of (ss_edit (cliEditChar E T proc c S)) = refKey (KChar c) (text_of (ss_edit S))" "rest_kept S (cliEditChar E T proc c S)"
    unfolding r using assms(2) by (auto simp: editInsert_def Let_def text_of_def edit_ok_def rest_kept_def)
qed

lemma back_step:
  assumes "e_esc (ss_edit S) = 0" "edit_ok (ss_edit S)"
  shows "text_of (ss_edit (cliEditChar E T proc (CHR 0x7F) S)) = refKey KBack (text_of (ss_edit S))"
    "rest_kept S (cliEditChar E T proc (CHR 0x7F) S)"
proof -
  have r: "cliEditChar E T proc (CHR 0x7F) S = editBackspace E S" using assms by (simp add: cliEditChar_def Let_def)
  show "text_of (ss_edit (cliEditChar E T proc (CHR 0x7F) S)) = refKey KBack (text_of (ss_edit S))"
    unfolding r using assms(2) take_butlast [of "e_cursor (ss_edit S)" "e_buf (ss_edit S)"]
    by (auto simp: editBackspace_def Let_def text_of_def edit_ok_def)
  show "rest_kept S (cliEditChar E T proc (CHR 0x7F) S)" unfolding r by (simp add: editBackspace_def Let_def rest_kept_def)
qed

text \<open>A sequence ESC [ final with an optional digit is decoded into one key.\<close>

lemma upd_edit_comp: "upd_edit f (upd_edit g S) = upd_edit (\<lambda>x. f (g x)) S"
  by (simp add: upd_edit_def)

lemma csi_keys:
  assumes "e_esc (ss_edit S) = 0" "0x40 \<le> code f" "code f \<le> 0x7e"
  shows "editChars E T proc [ESCC, CHR ''['', f] S = cliEditEscKey E f 0 (upd_edit (\<lambda>x. x\<lparr>e_esc := 0, e_param := 0\<rparr>) S)"
    "editChars E T proc [ESCC, CHR ''['', CHR ''3'', f] S = cliEditEscKey E f 3 (upd_edit (\<lambda>x. x\<lparr>e_esc := 0, e_param := 3\<rparr>) S)"
proof -
  have c: "x\<lparr>e_param := a, e_esc := b\<rparr> = x\<lparr>e_esc := b, e_param := a\<rparr>" for x :: edit and a b by (cases x) simp
  show "editChars E T proc [ESCC, CHR ''['', f] S = cliEditEscKey E f 0 (upd_edit (\<lambda>x. x\<lparr>e_esc := 0, e_param := 0\<rparr>) S)"
    using assms by (simp add: cliEditChar_def escByte_def Let_def upd_edit_comp c)
  show "editChars E T proc [ESCC, CHR ''['', CHR ''3'', f] S = cliEditEscKey E f 3 (upd_edit (\<lambda>x. x\<lparr>e_esc := 0, e_param := 3\<rparr>) S)"
    using assms by (simp add: cliEditChar_def escByte_def Let_def upd_edit_comp c c_isdigit_def digit_val_def)
qed

lemma rest_kept_refl: "rest_kept S S"
  by (simp add: rest_kept_def)

lemma delete_rest: "rest_kept S (keyDelete E S)"
  by (simp add: rest_kept_def keyDelete_def Let_def)

lemma escKey_rest: "fin \<noteq> CHR ''A'' \<Longrightarrow> fin \<noteq> CHR ''B'' \<Longrightarrow> rest_kept S (cliEditEscKey E fin p S)"
  unfolding cliEditEscKey_def Let_def by (simp add: goto_rest delete_rest rest_kept_refl)

lemma escKey_text:
  assumes "edit_ok (ss_edit S)"
  shows "text_of (ss_edit (cliEditEscKey E (CHR ''D'') p S)) = refKey KLeft (text_of (ss_edit S))"
    "text_of (ss_edit (cliEditEscKey E (CHR ''C'') p S)) = refKey KRight (text_of (ss_edit S))"
    "text_of (ss_edit (cliEditEscKey E (CHR ''H'') p S)) = refKey KHome (text_of (ss_edit S))"
    "text_of (ss_edit (cliEditEscKey E (CHR ''F'') p S)) = refKey KEnd (text_of (ss_edit S))"
    "text_of (ss_edit (cliEditEscKey E (CHR ''~'') 3 S)) = refKey KDel (text_of (ss_edit S))"
proof -
  let ?n = "e_cursor (ss_edit S)" and ?b = "e_buf (ss_edit S)"
  have n: "?n \<le> length ?b" using assms by (simp add: edit_ok_def)
  show "text_of (ss_edit (cliEditEscKey E (CHR ''D'') p S)) = refKey KLeft (text_of (ss_edit S))"
    using take_butlast [of ?n ?b] n by (cases "?n = 0") (auto simp: cliEditEscKey_def Let_def goto_edit text_of_def)
  show "text_of (ss_edit (cliEditEscKey E (CHR ''C'') p S)) = refKey KRight (text_of (ss_edit S))"
  proof (cases "?n < length ?b")
    case True
    have d: "drop ?n ?b = ?b ! ?n # drop (Suc ?n) ?b" using True by (simp add: Cons_nth_drop_Suc)
    show ?thesis using True by (simp add: cliEditEscKey_def Let_def goto_edit text_of_def d take_Suc_conv_app_nth)
  next
    case False
    then show ?thesis using n by (simp add: cliEditEscKey_def Let_def text_of_def)
  qed
  show "text_of (ss_edit (cliEditEscKey E (CHR ''H'') p S)) = refKey KHome (text_of (ss_edit S))"
    by (simp add: cliEditEscKey_def Let_def goto_edit text_of_def)
  show "text_of (ss_edit (cliEditEscKey E (CHR ''F'') p S)) = refKey KEnd (text_of (ss_edit S))"
    by (simp add: cliEditEscKey_def Let_def goto_edit text_of_def)
  show "text_of (ss_edit (cliEditEscKey E (CHR ''~'') 3 S)) = refKey KDel (text_of (ss_edit S))"
    using n by (cases "?n < length ?b") (simp_all add: cliEditEscKey_def Let_def delete_edit text_of_def)
qed

lemma key_step:
  assumes e: "e_esc (ss_edit S) = 0" "edit_ok (ss_edit S)" and k: "typable k" "length (e_buf (ss_edit S)) < EDIT_MAX"
  shows "text_of (ss_edit (editChars E T proc (keyBytes k) S)) = refKey k (text_of (ss_edit S))"
    "rest_kept S (editChars E T proc (keyBytes k) S)"
proof -
  define S0 where "S0 q = upd_edit (\<lambda>x. x\<lparr>e_esc := 0, e_param := q\<rparr>) S" for q
  have s0: "edit_ok (ss_edit (S0 q))" "text_of (ss_edit (S0 q)) = text_of (ss_edit S)" "rest_kept S (S0 q)" for q
    using e by (simp_all add: S0_def edit_ok_def text_of_def rest_kept_def)
  have r: "fin \<noteq> CHR ''A'' \<Longrightarrow> fin \<noteq> CHR ''B'' \<Longrightarrow> rest_kept S (cliEditEscKey E fin p (S0 q))" for fin p q
    using escKey_rest [of fin "S0 q" E p] s0(3) [of q] by (simp add: rest_kept_def)
  note c = csi_keys [OF e(1), where E = E and T = T and proc = proc, folded S0_def]
  show "text_of (ss_edit (editChars E T proc (keyBytes k) S)) = refKey k (text_of (ss_edit S))"
    using char_step(1) [OF e _ k(2)] back_step(1) [OF e] k(1) c(1) c(2) [of "CHR ''~''"] escKey_text [OF s0(1)] s0(2)
    by (cases k) (simp_all del: editChars.simps, simp_all)
  show "rest_kept S (editChars E T proc (keyBytes k) S)"
    using char_step(2) [OF e _ k(2)] back_step(2) [OF e] k(1) c(1) c(2) [of "CHR ''~''"] r
    by (cases k) (simp_all del: editChars.simps, simp_all)
qed

subsection \<open>Sequences of keys\<close>

lemma editChars_append: "editChars E T proc (xs @ ys) S = editChars E T proc ys (editChars E T proc xs S)"
  by (induction xs arbitrary: S) simp_all

lemma text_length: "length (fst (text_of e)) + length (snd (text_of e)) = length (e_buf e)"
  by (simp add: text_of_def)

lemma refKey_length: "length (fst (refKey k t)) + length (snd (refKey k t)) \<le> Suc (length (fst t) + length (snd t))"
  by (cases t; cases k) (auto split: list.split)

lemma editChars_ok:
  assumes "sess_ok S" "\<And>line S. sess_ok S \<Longrightarrow> sess_ok (proc line S)"
  shows "sess_ok (editChars E T proc cs S)"
  using assms(1) by (induction cs arbitrary: S) (simp_all add: cliEditChar_ok assms(2))

lemma keys_text:
  assumes "e_esc (ss_edit S) = 0" "sess_ok S" "list_all typable ks" "length (e_buf (ss_edit S)) + length ks \<le> EDIT_MAX"
    and proc: "\<And>line S. sess_ok S \<Longrightarrow> sess_ok (proc line S)"
  shows "text_of (ss_edit (editChars E T proc (concat (map keyBytes ks)) S)) = fold refKey ks (text_of (ss_edit S)) \<and>
    rest_kept S (editChars E T proc (concat (map keyBytes ks)) S)"
  using assms(1-4)
proof (induction ks arbitrary: S)
  case (Cons k ks)
  let ?S = "editChars E T proc (keyBytes k) S"
  have k: "typable k" "length (e_buf (ss_edit S)) < EDIT_MAX" using Cons.prems by auto
  note st = key_step [OF Cons.prems(1,2) k, where E = E and T = T and proc = proc]
  have ok: "sess_ok ?S" by (rule editChars_ok [OF Cons.prems(2) proc])
  have "length (e_buf (ss_edit ?S)) \<le> Suc (length (e_buf (ss_edit S)))"
    using refKey_length [of k "text_of (ss_edit S)"] text_length [of "ss_edit S"] text_length [of "ss_edit ?S"] st(1) by simp
  then have "length (e_buf (ss_edit ?S)) + length ks \<le> EDIT_MAX" using Cons.prems(4) by simp
  then have "text_of (ss_edit (editChars E T proc (concat (map keyBytes ks)) ?S)) = fold refKey ks (text_of (ss_edit ?S)) \<and>
      rest_kept ?S (editChars E T proc (concat (map keyBytes ks)) ?S)"
    using Cons.IH [OF _ ok] Cons.prems(1,3) st(2) by (simp add: rest_kept_def)
  then show ?case using st by (simp add: editChars_append rest_kept_def)
qed (simp add: rest_kept_def)

text \<open>A session without a line in progress.\<close>

definition fresh :: "'a edit_session \<Rightarrow> bool" where
  "fresh S \<longleftrightarrow> e_buf (ss_edit S) = [] \<and> e_cursor (ss_edit S) = 0 \<and> e_esc (ss_edit S) = 0 \<and> e_hist (ss_edit S) = - 1"

lemma enter_runs:
  assumes "e_buf (ss_edit S) \<noteq> []" "e_esc (ss_edit S) = 0"
    and f: "proc = (\<lambda>line S. S\<lparr>ss_sys := f line (ss_sys S)\<rparr>)"
  shows "ss_sys (cliEditChar E T proc (CHR 0x0D) S) = f (e_buf (ss_edit S)) (ss_sys S)"
    "ss_hist (cliEditChar E T proc (CHR 0x0D) S) = histAdd (e_buf (ss_edit S)) (ss_hist S)"
    "fresh (cliEditChar E T proc (CHR 0x0D) S)"
proof -
  have r: "cliEditChar E T proc (CHR 0x0D) S = editEnter E proc S" using assms(2) by (simp add: cliEditChar_def Let_def)
  show "ss_sys (cliEditChar E T proc (CHR 0x0D) S) = f (e_buf (ss_edit S)) (ss_sys S)"
    "ss_hist (cliEditChar E T proc (CHR 0x0D) S) = histAdd (e_buf (ss_edit S)) (ss_hist S)"
    "fresh (cliEditChar E T proc (CHR 0x0D) S)"
    unfolding r using assms(1,2) by (simp_all add: editEnter_def Let_def f fresh_def)
qed

subsection \<open>History\<close>

lemma up_down_restores:
  assumes "ss_hist S \<noteq> []" "e_hist (ss_edit S) = - 1"
  shows "e_buf (ss_edit (keyDown E (keyUp E S))) = e_buf (ss_edit S)" "e_hist (ss_edit (keyDown E (keyUp E S))) = - 1"
    "e_buf (ss_edit (keyUp E S)) = hd (ss_hist S)"
  using assms by (simp_all add: keyUp_def keyDown_def histGet_def Let_def replace_edit cliEditReplace_def hd_conv_nth)

end
