(* ===== verification/Cli_Session.thy ===== *)
theory Cli_Session
  imports Cli_Edit_Ref
begin

section \<open>The command line: sessions\<close>

text \<open>
  The slots of the cli task: connecting, the password gate, line mode, a pass over the slots and
  the deferred close (cli.cpp). \<open>cli_io\<close> is what the task asks of the other components: the prompt,
  directories, the answer of \<open>authLogin\<close> for the admin realm and the note of a human at the console
  (\<open>humanDetected\<close>), which may both change the rest of the system, what is connected, received and
  drained. Commands act on the rest of the system, of any type.
\<close>

datatype cli_mode = CLI_ANSI | CLI_LINE

record cli_slot =
  cl_handle :: int
  cl_edit :: edit
  cl_mode :: cli_mode
  cl_usb :: bool
  cl_color :: bool
  cl_noPrompt :: bool
  cl_lineBuf :: string
  cl_cols :: nat
  cl_rows :: nat
  cl_cwd :: string
  cl_close :: bool
  cl_login :: bool
  cl_authed :: bool
  cl_pwTries :: nat
  cl_pwBuf :: string
  cl_out :: string

definition edit0 :: edit where
  "edit0 = \<lparr>e_buf = [], e_saved = [], e_cursor = 0, e_esc = 0, e_param = 0, e_hist = - 1, e_savedValid = False\<rparr>"

definition slot0 :: cli_slot where
  "slot0 = \<lparr>cl_handle = - 1, cl_edit = edit0, cl_mode = CLI_ANSI, cl_usb = False, cl_color = False, cl_noPrompt = False,
     cl_lineBuf = [], cl_cols = 0, cl_rows = 0, cl_cwd = [], cl_close = False, cl_login = False, cl_authed = False,
     cl_pwTries = 0, cl_pwBuf = [], cl_out = []\<rparr>"

record 'a cli_state =
  cs_slots :: "cli_slot list"
  cs_hist :: "string list"
  cs_persist :: string
  cs_resume :: bool
  cs_inCli :: bool
  cs_sys :: 'a

record 'a cli_io =
  ci_prompt :: string
  ci_isdir :: "string \<Rightarrow> bool"
  ci_start :: string
  ci_auth :: "string \<Rightarrow> 'a \<Rightarrow> bool \<times> 'a"
  ci_human :: "'a \<Rightarrow> 'a"
  ci_tab :: "cli_slot \<Rightarrow> tab_env"
  ci_connected :: "int \<Rightarrow> bool"
  ci_recv :: "nat \<Rightarrow> string"
  ci_drained :: "nat \<Rightarrow> bool"

definition CLI_MAX_CLIENTS :: nat where "CLI_MAX_CLIENTS = 10"
definition CLI_LINE_MAX :: nat where "CLI_LINE_MAX = 4096"
definition CLI_LOGIN_MAX_TRIES :: nat where "CLI_LOGIN_MAX_TRIES = 3"

definition slot_env :: "'a cli_io \<Rightarrow> cli_slot \<Rightarrow> edit_env" where
  "slot_env io cl = \<lparr>ee_ansi = (cl_mode cl = CLI_ANSI), ee_color = cl_color cl, ee_cols = cl_cols cl, ee_prompt = ci_prompt io, ee_usb = cl_usb cl\<rparr>"

text \<open>What \<open>itsCliWrite\<close> sends: a bare newline becomes CR LF for an interactive client that is not serial.\<close>

fun addCr :: "char option \<Rightarrow> string \<Rightarrow> string" where
  "addCr prev [] = []"
| "addCr prev (c # cs) = (if c = CHR 0x0A \<and> prev \<noteq> Some (CHR 0x0D) then CRLF else [c]) @ addCr (Some c) cs"

definition itsCliWrite :: "string \<Rightarrow> cli_slot \<Rightarrow> cli_slot" where
  "itsCliWrite d cl =
     (if cl_handle cl < 0 then cl
      else cl\<lparr>cl_out := cl_out cl @ (if cl_mode cl = CLI_ANSI \<and> \<not> cl_usb cl then addCr None d else d)\<rparr>)"

subsection \<open>Connecting\<close>

definition cliAllocSlot :: "int \<Rightarrow> cli_slot list \<Rightarrow> nat option \<times> cli_slot list" where
  "cliAllocSlot h slots =
     (case find (\<lambda>i. cl_handle (slots ! i) < 0) [0..<CLI_MAX_CLIENTS] of
        None \<Rightarrow> (None, slots)
      | Some i \<Rightarrow> (Some i, slots[i := (slots ! i)\<lparr>cl_handle := h\<rparr>]))"

definition initCwd :: "'a cli_io \<Rightarrow> string \<Rightarrow> cli_slot \<Rightarrow> string \<times> cli_slot" where
  "initCwd io persist cl =
     (let start = cliResolvedStartDir (ci_isdir io) (ci_start io)
      in if cl_usb cl
         then let d = (if persist \<noteq> [] \<and> hd persist = SLASHC \<and> (persist = ''/'' \<or> ci_isdir io persist) then safeStrncpy 256 persist else start)
              in (d, cl\<lparr>cl_cwd := d\<rparr>)
         else (persist, cl\<lparr>cl_cwd := start\<rparr>))"

definition cliCdToStartDir :: "'a cli_io \<Rightarrow> nat option \<Rightarrow> 'a cli_state \<Rightarrow> 'a cli_state" where
  "cliCdToStartDir io active st =
     (case active of
        None \<Rightarrow> st
      | Some i \<Rightarrow>
          if i \<ge> CLI_MAX_CLIENTS then st
          else let d = cliResolvedStartDir (ci_isdir io) (ci_start io); cl = cs_slots st ! i
               in st\<lparr>cs_slots := (cs_slots st)[i := cl\<lparr>cl_cwd := d\<rparr>], cs_persist := (if cl_usb cl then d else cs_persist st)\<rparr>)"

definition LOGIN_PROMPT :: string where "LOGIN_PROMPT = ''Enter admin password: ''"

definition initOut :: "'a cli_io \<Rightarrow> cli_slot \<Rightarrow> cli_slot" where
  "initOut io cl =
     (if cl_login cl \<and> \<not> cl_authed cl then itsCliWrite LOGIN_PROMPT cl
      else if cl_mode cl = CLI_ANSI \<and> \<not> cl_usb cl then itsCliWrite SHAPE_DEFAULT (itsCliWrite (cliWritePrompt (slot_env io cl)) cl)
      else if cl_mode cl = CLI_LINE \<and> \<not> cl_usb cl \<and> \<not> cl_noPrompt cl then itsCliWrite (cliWritePrompt (slot_env io cl)) cl
      else cl)"

definition cliInitSlot :: "'a cli_io \<Rightarrow> nat \<Rightarrow> cli_slot \<Rightarrow> 'a cli_state \<Rightarrow> 'a cli_state" where
  "cliInitSlot io i cl st =
     (case initCwd io (cs_persist st) cl of
        (p, cl1) \<Rightarrow> st\<lparr>cs_persist := p, cs_slots := (cs_slots st)[i := initOut io cl1]\<rparr>)"

text \<open>A connect to the stream port: a whole descriptor, a mode byte, or anything else.\<close>

record cli_connect =
  cc_mode :: cli_mode
  cc_usb :: bool
  cc_color :: bool
  cc_noPrompt :: bool
  cc_login :: bool

datatype connect_data = Descriptor cli_connect | ModeByte cli_mode | OtherData

definition cliTcpConnect :: "'a cli_io \<Rightarrow> int \<Rightarrow> connect_data \<Rightarrow> 'a cli_state \<Rightarrow> int \<times> 'a cli_state" where
  "cliTcpConnect io handle data st =
     (case cliAllocSlot handle (cs_slots st) of
        (None, _) \<Rightarrow> (- 1, st)
      | (Some i, slots) \<Rightarrow>
          let cl0 = (slots ! i)\<lparr>cl_edit := edit0, cl_lineBuf := [], cl_usb := False, cl_color := True, cl_noPrompt := False,
                                cl_login := False, cl_pwTries := 0, cl_pwBuf := []\<rparr>;
              cl1 = (case data of
                       Descriptor c \<Rightarrow> cl0\<lparr>cl_mode := cc_mode c, cl_usb := cc_usb c, cl_color := cc_color c,
                                           cl_noPrompt := cc_noPrompt c, cl_login := cc_login c\<rparr>
                     | ModeByte m \<Rightarrow> cl0\<lparr>cl_mode := m\<rparr>
                     | OtherData \<Rightarrow> cl0\<lparr>cl_mode := CLI_LINE\<rparr>);
              cl2 = cl1\<lparr>cl_authed := \<not> cl_login cl1\<rparr>
          in (int i, cliInitSlot io i cl2 (st\<lparr>cs_slots := slots\<rparr>)))"

text \<open>A data channel; \<open>size\<close> is the terminal size its payload gives, if it gives one.\<close>

definition cliDcConnect :: "'a cli_io \<Rightarrow> int \<Rightarrow> (nat \<times> nat) option \<Rightarrow> 'a cli_state \<Rightarrow> int \<times> 'a cli_state" where
  "cliDcConnect io handle sz st =
     (case cliAllocSlot handle (cs_slots st) of
        (None, _) \<Rightarrow> (- 1, st)
      | (Some i, slots) \<Rightarrow>
          let (c, r) = (case sz of Some (c, r) \<Rightarrow> if 0 < c \<and> 0 < r then (c, r) else (80, 24) | None \<Rightarrow> (80, 24));
              cl = (slots ! i)\<lparr>cl_edit := edit0, cl_lineBuf := [], cl_cols := c, cl_rows := r, cl_usb := False, cl_color := True,
                              cl_noPrompt := False, cl_mode := CLI_ANSI, cl_login := False, cl_authed := True, cl_pwTries := 0, cl_pwBuf := []\<rparr>
          in (int i, cliInitSlot io i cl (st\<lparr>cs_slots := slots\<rparr>)))"

definition cliOnDisconnect :: "int \<Rightarrow> 'a cli_state \<Rightarrow> 'a cli_state" where
  "cliOnDisconnect ref st =
     (if 0 \<le> ref \<and> ref < int CLI_MAX_CLIENTS then st\<lparr>cs_slots := (cs_slots st)[nat ref := slot0]\<rparr> else st)"

subsection \<open>The password gate\<close>

text \<open>A newline checks the password; the flag says that the rest of the input is dropped.\<close>

definition loginLine :: "'a cli_io \<Rightarrow> cli_slot \<Rightarrow> 'a \<Rightarrow> bool \<times> cli_slot \<times> 'a" where
  "loginLine io cl s =
     (let ansi = (cl_mode cl = CLI_ANSI);
          cl1 = (if ansi then itsCliWrite CRLF (cl\<lparr>cl_pwBuf := []\<rparr>) else cl\<lparr>cl_pwBuf := []\<rparr>);
          (accepted, s1) = ci_auth io (cl_pwBuf cl) s
      in if accepted
         then let cl2 = itsCliWrite (cliWritePrompt (slot_env io cl1)) (cl1\<lparr>cl_authed := True\<rparr>)
              in (True, if ansi then itsCliWrite SHAPE_DEFAULT cl2 else cl2, s1)
         else let cl2 = cl1\<lparr>cl_pwTries := cl_pwTries cl1 + 1\<rparr>
              in if cl_pwTries cl2 \<ge> CLI_LOGIN_MAX_TRIES
                 then (True, (itsCliWrite (''Authentication failed.'' @ CRLF) cl2)\<lparr>cl_close := True\<rparr>, s1)
                 else (False, itsCliWrite LOGIN_PROMPT cl2, s1))"

definition loginEdit :: "char \<Rightarrow> cli_slot \<Rightarrow> cli_slot" where
  "loginEdit c cl =
     (let ansi = (cl_mode cl = CLI_ANSI)
      in if c = CHR 0x08 \<or> c = CHR 0x7F
         then (if cl_pwBuf cl = [] then cl
               else let cl1 = cl\<lparr>cl_pwBuf := butlast (cl_pwBuf cl)\<rparr>
                    in if ansi then itsCliWrite [CHR 0x08, CHR '' '', CHR 0x08] cl1 else cl1)
         else if code c < 0x20 then cl
         else if length (cl_pwBuf cl) < 128
         then let cl1 = cl\<lparr>cl_pwBuf := cl_pwBuf cl @ [c]\<rparr> in if ansi then itsCliWrite ''*'' cl1 else cl1
         else cl)"

definition loginByte :: "'a cli_io \<Rightarrow> char \<Rightarrow> cli_slot \<Rightarrow> 'a \<Rightarrow> bool \<times> cli_slot \<times> 'a" where
  "loginByte io c cl s =
     (if c = CHR 0x03 \<or> c = CHR 0x04 then (True, (itsCliWrite CRLF cl)\<lparr>cl_close := True, cl_pwBuf := []\<rparr>, s)
      else if c = CHR 0x0D \<or> c = CHR 0x0A then loginLine io cl s
      else (False, loginEdit c cl, s))"

primrec cliHandleLoginInput :: "'a cli_io \<Rightarrow> string \<Rightarrow> cli_slot \<times> 'a \<Rightarrow> cli_slot \<times> 'a" where
  "cliHandleLoginInput io [] x = x"
| "cliHandleLoginInput io (c # cs) x =
     (case loginByte io c (fst x) (snd x) of (stop, y) \<Rightarrow> if stop then y else cliHandleLoginInput io cs y)"

subsection \<open>Line mode\<close>

text \<open>\<open>proc\<close> is \<open>cliProcess\<close> with the session's output; it may change the slot as well.\<close>

primrec lineBytes :: "'a cli_io \<Rightarrow> (string \<Rightarrow> cli_slot \<times> 'a \<Rightarrow> cli_slot \<times> 'a) \<Rightarrow> string \<Rightarrow> cli_slot \<times> 'a \<Rightarrow> cli_slot \<times> 'a" where
  "lineBytes io proc [] x = x"
| "lineBytes io proc (c # cs) x =
     (if c = CHR 0x04 then ((fst x)\<lparr>cl_close := True\<rparr>, snd x)
      else if c = CHR 0x0A \<or> c = CHR 0x0D
      then let line = cl_lineBuf (fst x);
               x1 = (if line \<noteq> [] then proc line x else x);
               cl = (fst x1)\<lparr>cl_lineBuf := []\<rparr>
           in if cliLineEndsWithSemicolon line then (cl\<lparr>cl_close := True\<rparr>, snd x1)
              else lineBytes io proc cs (itsCliWrite (cliWritePrompt (slot_env io cl)) cl, snd x1)
      else if length (cl_lineBuf (fst x)) < CLI_LINE_MAX + 1
      then lineBytes io proc cs ((fst x)\<lparr>cl_lineBuf := cl_lineBuf (fst x) @ [c]\<rparr>, snd x)
      else lineBytes io proc cs x)"

subsection \<open>A pass\<close>

text \<open>
  An interactive slot runs the editor on its own line with the shared history; what the editor and
  the commands write is sent at the end of the pass.
\<close>

definition ansiBytes ::
  "'a cli_io \<Rightarrow> (string \<Rightarrow> 'a edit_session \<Rightarrow> 'a edit_session) \<Rightarrow> string \<Rightarrow> nat \<Rightarrow> 'a cli_state \<Rightarrow> 'a cli_state" where
  "ansiBytes io proc bytes i st =
     (let cl = cs_slots st ! i;
          S = editChars (slot_env io cl) (ci_tab io cl) proc bytes
                \<lparr>ss_edit = cl_edit cl, ss_hist = cs_hist st, ss_out = [], ss_close = cl_close cl, ss_resume = cs_resume st,
                 ss_inCli = cs_inCli st, ss_sys = cs_sys st\<rparr>
      in st\<lparr>cs_slots := (cs_slots st)[i := (fold itsCliWrite (ss_out S) cl)\<lparr>cl_edit := ss_edit S, cl_close := ss_close S\<rparr>],
            cs_hist := ss_hist S, cs_resume := ss_resume S, cs_inCli := ss_inCli S, cs_sys := ss_sys S\<rparr>)"

definition pairBytes :: "nat \<Rightarrow> (cli_slot \<times> 'a \<Rightarrow> cli_slot \<times> 'a) \<Rightarrow> 'a cli_state \<Rightarrow> 'a cli_state" where
  "pairBytes i f st = (case f (cs_slots st ! i, cs_sys st) of (cl, s) \<Rightarrow> st\<lparr>cs_slots := (cs_slots st)[i := cl], cs_sys := s\<rparr>)"

definition slotInput ::
  "'a cli_io \<Rightarrow> (string \<Rightarrow> 'a edit_session \<Rightarrow> 'a edit_session) \<Rightarrow> (string \<Rightarrow> cli_slot \<times> 'a \<Rightarrow> cli_slot \<times> 'a) \<Rightarrow> nat \<Rightarrow> 'a cli_state \<Rightarrow> 'a cli_state" where
  "slotInput io eproc lproc i st =
     (let cl = cs_slots st ! i; bytes = ci_recv io i
      in if cl_handle cl < 0 \<or> \<not> ci_connected io (cl_handle cl) \<or> bytes = [] then st
         else let st1 = st\<lparr>cs_sys := ci_human io (cs_sys st)\<rparr>
              in if cl_login cl \<and> \<not> cl_authed cl then pairBytes i (cliHandleLoginInput io bytes) st1
                 else if cl_mode cl = CLI_ANSI then ansiBytes io eproc bytes i st1
                 else pairBytes i (lineBytes io lproc bytes) st1)"

definition sweepSlot :: "'a cli_io \<Rightarrow> nat \<Rightarrow> 'a cli_state \<Rightarrow> 'a cli_state" where
  "sweepSlot io i st =
     (let cl = cs_slots st ! i
      in if \<not> cl_close cl then st
         else if cl_handle cl < 0 then st\<lparr>cs_slots := (cs_slots st)[i := cl\<lparr>cl_close := False\<rparr>]\<rparr>
         else if ci_drained io i then st\<lparr>cs_slots := (cs_slots st)[i := slot0]\<rparr>
         else st)"

definition cliPass ::
  "'a cli_io \<Rightarrow> (string \<Rightarrow> 'a edit_session \<Rightarrow> 'a edit_session) \<Rightarrow> (string \<Rightarrow> cli_slot \<times> 'a \<Rightarrow> cli_slot \<times> 'a) \<Rightarrow> 'a cli_state \<Rightarrow> 'a cli_state" where
  "cliPass io eproc lproc st =
     fold (sweepSlot io) [0..<CLI_MAX_CLIENTS] (fold (slotInput io eproc lproc) [0..<CLI_MAX_CLIENTS] st)"

end
