(* ===== verification/Cli_Props.thy ===== *)
theory Cli_Props
  imports Cli_Session
begin

section \<open>The command line: properties\<close>

text \<open>
  Paths, the parts of a line, aliases, scripts, the editor and the password gate.
\<close>

subsection \<open>Paths\<close>

text \<open>
  C24. A path the user types is resolved against the working directory, that of the session or
  without one the start directory, to the path of its components: empty ones and \<open>.\<close> dropped, \<open>..\<close>
  going up and never above the root; the result is absolute and has no such component left, so that
  resolving it again changes nothing. It holds for paths that have at most 254 characters with the
  directory in front, and fit the caller's buffer.
\<close>

theorem user_path_resolved:
  assumes user: "user \<noteq> []"
    and work: "work = (if hd user = SLASHC then user else cliGetCwd isdir start cwd @ [SLASHC] @ user)" "length work \<le> 254" "length work < outLen"
  shows "cliResolveFsPath isdir start cwd outLen user = Some (pathOf (resolve work)) \<and>
    list_all plain_seg (resolve work) \<and> resolve (pathOf (resolve work)) = resolve work"
proof -
  have w: "work \<noteq> []" "hd work = SLASHC" using work(1) cwd_abs [of isdir start cwd] user by auto
  have c: "cliCollapseAbsolute CLI_RESOLVE_BUF work = Some (pathOf (resolve work))"
    by (rule collapse_resolve [OF w]) (use work(2) in \<open>simp_all add: CLI_RESOLVE_BUF_def\<close>)
  obtain r where r: "work = SLASHC # r" using w by (cases work) auto
  have len: "length (pathOf (resolve work)) \<le> length work"
    using walk_length [of r "[]"] r by (simp add: room_def pathOf_def resolve_def walkSeg_def)
  have "cliResolveFsPath isdir start cwd outLen user = Some (pathOf (resolve work))"
    using user c len work(2,3) unfolding cliResolveFsPath_def Let_def work(1) [symmetric] by (simp add: CLI_RESOLVE_BUF_def safeStrncpy_def)
  then show ?thesis using resolve_plain resolve_pathOf by blast
qed

theorem user_path_resolved_witness:
  "cliResolveFsPath (\<lambda>_. True) ''/'' (Some ''/sdcard/log'') 256 ''../../x/./..//fixed'' = Some ''/fixed''"
proof -
  have "resolve (''/sdcard/log'' @ [SLASHC] @ ''../../x/./..//fixed'') = [''fixed'']" by (simp add: resolve_def walkSeg_def)
  then show ?thesis
    using user_path_resolved [of "''../../x/./..//fixed''" _ "\<lambda>_. True" "''/''" "Some ''/sdcard/log''" 256]
    by (simp add: pathOf_def cliGetCwd_def)
qed

text \<open>
  A path of 261 bytes, which the caller's buffer of 320 bytes admits, is cut to 255 bytes before
  it is resolved: it names another file than the one asked for.
\<close>

theorem long_path_cut:
  "cliResolveFsPath (\<lambda>_. True) ''/'' (Some ''/'') 256 (''/sdcard/'' @ concat (replicate 122 ''./'') @ ''log/a.txt'') = Some ''/sdcard/log'' \<and>
   pathOf (resolve (''/sdcard/'' @ concat (replicate 122 ''./'') @ ''log/a.txt'')) = ''/sdcard/log/a.txt''"
proof -
  let ?u = "''/sdcard/'' @ concat (replicate 122 ''./'') @ ''log/a.txt''"
  have skip: "fold walkSeg (split_on SLASHC (concat (replicate n ''./'') @ t)) segs = fold walkSeg (split_on SLASHC t) segs" for n t segs
    by (induction n) (simp_all add: walkSeg_def)
  have "resolve ?u = [''sdcard'', ''log'', ''a.txt'']"
    using skip [of 122 "''log/a.txt''" "[''sdcard'']"] split_on_append_sep [of SLASHC "''sdcard''" "concat (replicate 122 ''./'') @ ''log/a.txt''"]
    by (simp add: resolve_def walkSeg_def)
  then have "pathOf (resolve ?u) = ''/sdcard/log/a.txt''" by (simp add: pathOf_def)
  moreover have "cliResolveFsPath (\<lambda>_. True) ''/'' (Some ''/'') 256 ?u = Some ''/sdcard/log''" by code_simp
  ultimately show ?thesis by blast
qed

subsection \<open>Lines\<close>

text \<open>
  C25. A command line is run as its parts between the semicolons, each without the blanks around it
  and one after the other on the state the one before left, up to the first part that starts with a
  hash. A part has its first word replaced by the value of the alias of that name, if there is one
  when it is run; it then runs the longest registered command that stands in front of it as a whole
  word, in whatever order the commands were registered.
\<close>

theorem line_runs_parts:
  assumes reg: "c \<in> set cmds" "c \<noteq> []"
    and part: "part \<noteq> []" "expandAlias (cs_alias sys s1) part = c @ args" "args = [] \<or> hd args = CHR '' ''"
    and longest: "\<forall>d \<in> set cmds. cmdMatches (c @ args) d \<longrightarrow> length d \<le> length c"
  shows "cliProcess sys cmds line s = fold (runPart sys cmds) (lineParts line) s \<and>
    runPart sys cmds part s1 = cs_run sys c (dropWhile (\<lambda>x. x = CHR '' '') args) s1"
proof
  show "cliProcess sys cmds line s = fold (runPart sys cmds) (lineParts line) s" by (rule cliProcess_parts)
  have m: "cmdMatches (c @ args) c" using part(3) by (simp add: cmdMatches_def)
  have "longestMatch (c @ args) cmds [] = c" by (rule longestMatch_unique [OF reg(1) m reg(2) longest])
  then show "runPart sys cmds part s1 = cs_run sys c (dropWhile (\<lambda>x. x = CHR '' '') args) s1"
    using reg(2) part(1,2) by (simp add: runPart_def dispatchCmd_def Let_def)
qed

definition trace_sys :: "(string \<times> string) list cli_sys" where
  "trace_sys = \<lparr>cs_alias = (\<lambda>_ k. if k = ''s.cli.aliases.ll'' then Some ''ls all'' else None), cs_run = (\<lambda>c a s. s @ [(c, a)]), cs_print = (\<lambda>t s. s)\<rparr>"

theorem line_runs_parts_witness:
  "cliProcess trace_sys [''log'', ''ls'', ''ls all''] '' ll /x ;  log; # ls; log'' [] = [(''ls all'', ''/x''), (''log'', [])]"
proof -
  let ?cmds = "[''log'', ''ls'', ''ls all'']" and ?line = "'' ll /x ;  log; # ls; log''"
  have e: "expandAlias (cs_alias trace_sys s) ''ll /x'' = ''ls all'' @ '' /x''" "expandAlias (cs_alias trace_sys s) ''log'' = ''log''" for s
    by (simp_all add: expandAlias_def Let_def trace_sys_def CLI_ALIAS_PREFIX_def ALIAS_KEY_MAX_def EXPANDED_BUF_def ALIAS_VAL_BUF_def)
  have "cliProcess trace_sys ?cmds ?line [] = fold (runPart trace_sys ?cmds) (lineParts ?line) [] \<and>
      runPart trace_sys ?cmds ''ll /x'' [] = cs_run trace_sys ''ls all'' (dropWhile (\<lambda>x. x = CHR '' '') '' /x'') []"
    by (rule line_runs_parts [OF _ _ _ e(1)]) (simp_all add: cmdMatches_def)
  moreover have "lineParts ?line = [''ll /x'', ''log'']" by (simp add: lineParts_def trimLine_def rblank_def)
  moreover have "runPart trace_sys ?cmds ''log'' t = t @ [(''log'', [])]" for t
    by (simp add: runPart_def dispatchCmd_def e(2) Let_def cmdMatches_def) (simp add: trace_sys_def)
  ultimately show ?thesis by (simp add: trace_sys_def)
qed

text \<open>
  An alias set with the command \<open>alias\<close> stands for its value in front of the arguments of a
  later line, as long as the value has at most 191 characters and the line it gives at most 383;
  after \<open>unalias\<close> the line is itself again.
\<close>

theorem alias_expands:
  assumes name: "name \<noteq> []" "CHR '' '' \<notin> set name" "CHR ''.'' \<notin> set name" "length name \<le> 65" "\<not> wantsHelp (name @ CHR '' '' # val)"
    "\<not> wantsHelp name"
    and val: "val \<noteq> []" "hd val \<noteq> CHR '' ''" "length val \<le> 191"
    and args: "args = [] \<or> hd args = CHR '' ''" "length val + length args \<le> 383"
  shows "\<exists>S1. cmdAlias stored (name @ CHR '' '' # val) S = (S1, []) \<and> expandAlias S1 (name @ args) = val @ args \<and>
    (\<exists>S2. cmdUnalias name S1 = (S2, []) \<and> expandAlias S2 (name @ args) = name @ args)"
proof -
  let ?key = "CLI_ALIAS_PREFIX @ name"
  have sp: "\<forall>c \<in> set name. c \<noteq> CHR '' ''" using name(2) by auto
  have t: "takeWhile (\<lambda>c. c \<noteq> CHR '' '') (name @ CHR '' '' # val) = name" "dropWhile (\<lambda>c. c \<noteq> CHR '' '') (name @ CHR '' '' # val) = CHR '' '' # val"
    "takeWhile (\<lambda>c. c \<noteq> CHR '' '') name = name"
    using sp by (simp_all add: takeWhile_append2 dropWhile_append2)
  have w: "takeWhile (\<lambda>c. c \<noteq> CHR '' '') (name @ args) = name" "dropWhile (\<lambda>c. c \<noteq> CHR '' '') (name @ args) = args"
    using sp args(1) by (cases args; simp add: takeWhile_append2 dropWhile_append2)+
  have k: "length ?key < ALIAS_KEY_MAX" using name(4) by (simp add: CLI_ALIAS_PREFIX_def ALIAS_KEY_MAX_def)
  have d: "dropWhile (\<lambda>c. c = CHR '' '') (CHR '' '' # val) = val" using val(1,2) by (cases val) auto
  have "cmdAlias stored (name @ CHR '' '' # val) S = (S(?key \<mapsto> val), [])"
    unfolding cmdAlias_def Let_def t d using name val k by simp
  moreover have "expandAlias (S(?key \<mapsto> val)) (name @ args) = val @ args"
    unfolding expandAlias_def Let_def w using name(1) k val(3) args(2) by (simp add: EXPANDED_BUF_def ALIAS_VAL_BUF_def)
  moreover have "cmdUnalias name (S(?key \<mapsto> val)) = ((S(?key \<mapsto> val))(?key := None), [])"
    unfolding cmdUnalias_def Let_def t using name k by simp
  moreover have "expandAlias ((S(?key \<mapsto> val))(?key := None)) (name @ args) = name @ args"
    unfolding expandAlias_def Let_def w by simp
  ultimately show ?thesis by blast
qed

theorem alias_expands_witness:
  "\<exists>S1. cmdAlias [] ''ll ls -l'' Map.empty = (S1, []) \<and> expandAlias S1 ''ll /fixed'' = ''ls -l /fixed''"
  using alias_expands [of "''ll''" "''ls -l''" "'' /fixed''" "[]" Map.empty] by (auto simp: wantsHelp_def)

subsection \<open>Scripts\<close>

definition scriptLines :: "string \<Rightarrow> string list" where
  "scriptLines f = filter (\<lambda>l. l \<noteq> []) (split_on CHR 0x0A (map (\<lambda>c. if eol c then CHR 0x0A else c) f))"

fun short :: "nat \<Rightarrow> string \<Rightarrow> bool" where
  "short k [] = True"
| "short k (c # cs) = (if eol c then short 0 cs else Suc k < 127 \<and> short (Suc k) cs)"

lemma runLines_append: "runLines proc cur (xs @ ys) s = (case runLines proc cur xs s of (c, s1) \<Rightarrow> runLines proc c ys s1)"
  by (induction proc cur xs s rule: runLines.induct) auto

lemma runLines_carry: "\<forall>c \<in> set carry. \<not> eol c \<Longrightarrow> runLines proc cur (carry @ xs) s = runLines proc (cur @ carry) xs s"
  by (induction carry arbitrary: cur) auto

lemma runLines_short:
  assumes "runLines proc cur xs s = (c, s1)" "short (length cur) (xs @ ys)" "length cur < 127" "\<forall>x \<in> set cur. \<not> eol x"
  shows "short (length c) ys \<and> length c < 127 \<and> (\<forall>x \<in> set c. \<not> eol x)"
  using assms by (induction proc cur xs s rule: runLines.induct) (auto split: if_splits)

definition finish :: "(string \<Rightarrow> 'a \<Rightarrow> 'a) \<Rightarrow> string \<times> 'a \<Rightarrow> 'a" where
  "finish proc cs = (if fst cs \<noteq> [] then proc (fst cs) (snd cs) else snd cs)"

lemma runFile_lines:
  assumes "short (length carry) content" "length carry < 127" "\<forall>x \<in> set carry. \<not> eol x"
  shows "runFile proc carry content s = finish proc (runLines proc carry content s)"
  using assms
proof (induction "length content" arbitrary: carry content s rule: less_induct)
  case less
  let ?n = "take (RUN_BUF - length carry - 1) content"
  have pre: "runLines proc [] (carry @ xs) s = runLines proc carry xs s" for xs using runLines_carry [OF less.prems(3), of proc "[]" xs s] by simp
  show ?case
  proof (cases "content = []")
    case True
    then show ?thesis using pre [of "[]"] by (subst runFile.simps) (auto simp: finish_def)
  next
    case False
    then have n: "?n \<noteq> []" using less.prems(2) by (simp add: RUN_BUF_def)
    obtain c s1 where r: "runLines proc carry ?n s = (c, s1)" by (cases "runLines proc carry ?n s")
    have split: "?n @ drop (length ?n) content = content" by (simp add: min_def)
    have sh: "short (length c) (drop (length ?n) content)" "length c < 127" "\<forall>x \<in> set c. \<not> eol x"
      using runLines_short [OF r, of "drop (length ?n) content", unfolded split, OF less.prems] by blast+
    have "runFile proc carry content s = runFile proc c (drop (length ?n) content) s1"
      using n r pre by (subst runFile.simps) (simp add: Let_def)
    also have "\<dots> = finish proc (runLines proc c (drop (length ?n) content) s1)"
      by (rule less.hyps [OF _ sh]) (use False n in auto)
    also have "runLines proc c (drop (length ?n) content) s1 = runLines proc carry content s"
      using runLines_append [of proc carry ?n "drop (length ?n) content" s, unfolded split r] by (simp only: prod.case)
    finally show ?thesis .
  qed
qed

abbreviation nl_map :: "string \<Rightarrow> string" where "nl_map \<equiv> map (\<lambda>c. if eol c then CHR 0x0A else c)"

lemma no_eol:
  assumes "\<forall>x \<in> set cur. \<not> eol x"
  shows "nl_map cur = cur" "CHR 0x0A \<notin> set cur"
proof -
  show "nl_map cur = cur" using assms by (simp add: map_idI)
  have "eol (CHR 0x0A)" by (simp add: eol_def)
  then show "CHR 0x0A \<notin> set cur" using assms by blast
qed

lemma scriptLines_eol:
  assumes "\<forall>x \<in> set cur. \<not> eol x" "eol c"
  shows "scriptLines (cur @ c # f) = filter (\<lambda>l. l \<noteq> []) [cur] @ scriptLines f"
  using no_eol [OF assms(1)] split_on_append_sep [of "CHR 0x0A" cur "nl_map f"] assms(2) by (simp add: scriptLines_def)

lemma split_on_first: "c \<notin> set x \<Longrightarrow> \<exists>y ys. split_on c (x @ z) = (x @ y) # ys"
proof (induction x)
  case Nil
  then show ?case by (cases "split_on c z") auto
next
  case (Cons a x)
  then show ?case by auto
qed

lemma scriptLines_first:
  assumes "\<forall>x \<in> set cur. \<not> eol x" "cur \<noteq> []"
  shows "\<exists>l \<in> set (scriptLines (cur @ f)). length cur \<le> length l"
proof -
  obtain y ys where "split_on (CHR 0x0A) (cur @ nl_map f) = (cur @ y) # ys" using split_on_first [OF no_eol(2) [OF assms(1)], of "nl_map f"] by blast
  then have "cur @ y \<in> set (scriptLines (cur @ f))" using no_eol(1) [OF assms(1)] assms(2) by (simp add: scriptLines_def)
  then show ?thesis by (intro bexI [of _ "cur @ y"]) simp_all
qed

lemma runLines_script:
  assumes "\<forall>x \<in> set cur. \<not> eol x"
  shows "finish proc (runLines proc cur f s) = fold proc (scriptLines (cur @ f)) s"
  using assms
proof (induction f arbitrary: cur s)
  case Nil
  then show ?case using no_eol [OF Nil] by (simp add: finish_def scriptLines_def)
next
  case (Cons c f)
  show ?case
  proof (cases "eol c")
    case True
    then show ?thesis using Cons.IH [of "[]"] scriptLines_eol [OF Cons.prems True] by simp
  next
    case False
    then show ?thesis using Cons.IH [of "cur @ [c]"] Cons.prems by simp
  qed
qed

lemma short_script:
  assumes "\<forall>x \<in> set cur. \<not> eol x" "\<forall>l \<in> set (scriptLines (cur @ f)). length l < 127"
  shows "short (length cur) f"
  using assms
proof (induction f arbitrary: cur)
  case (Cons c f)
  show ?case
  proof (cases "eol c")
    case True
    then show ?thesis using Cons.IH [of "[]"] Cons.prems scriptLines_eol [OF Cons.prems(1) True] by simp
  next
    case False
    have n: "\<forall>x \<in> set (cur @ [c]). \<not> eol x" using Cons.prems(1) False by simp
    have "short (length (cur @ [c])) f" using Cons.IH [OF n] Cons.prems(2) by simp
    moreover have "Suc (length cur) < 127" using scriptLines_first [OF n, of f] Cons.prems(2) by fastforce
    ultimately show ?thesis using False by simp
  qed
qed simp

text \<open>
  C26. A script whose lines have fewer than 127 characters is run line by line: every line that is
  not empty, in order, whatever line ends it has and however the reads of its 128-byte buffer fall.
\<close>

theorem script_runs_lines:
  assumes "\<forall>l \<in> set (scriptLines f). length l < 127"
  shows "cliRunFile proc (Some f) s = fold proc (scriptLines f) s"
proof -
  have "short 0 f" using short_script [of "[]" f] assms by simp
  then show ?thesis using runFile_lines [of "[]" f proc s] runLines_script [of "[]" proc f s] by (simp add: cliRunFile_def)
qed

theorem script_runs_lines_witness:
  "cliRunFile (\<lambda>l s. s @ [l]) (Some (''log info'' @ [CHR 0x0D, CHR 0x0A, CHR 0x0A] @ ''ls'')) [] = [''log info'', ''ls'']"
proof -
  have l: "scriptLines (''log info'' @ [CHR 0x0D, CHR 0x0A, CHR 0x0A] @ ''ls'') = [''log info'', ''ls'']" by (simp add: scriptLines_def eol_def)
  show ?thesis by (subst script_runs_lines) (simp_all only: l, simp_all)
qed

text \<open>
  A line of 127 characters or more ends the script: its first 127 characters are run as a
  command, and nothing after them, neither the rest of the line nor the lines that follow.
\<close>

theorem long_line_ends_script:
  assumes "length l = 127" "\<forall>c \<in> set l. \<not> eol c"
  shows "cliRunFile proc (Some (l @ rest)) s = proc l s"
proof -
  have n: "l \<noteq> []" using assms(1) by auto
  have r: "runLines proc [] l s = (l, s)" using runLines_carry [OF assms(2), of proc "[]" "[]" s] by simp
  have "runFile proc l rest s = proc l s" using n r assms(1) by (subst runFile.simps) (simp add: RUN_BUF_def)
  moreover have "runFile proc [] (l @ rest) s = runFile proc l rest s"
    using n r assms(1) by (subst runFile.simps) (simp add: RUN_BUF_def)
  ultimately show ?thesis by (simp add: cliRunFile_def)
qed

theorem long_line_ends_script_witness:
  "cliRunFile (\<lambda>l s. s @ [l]) (Some (replicate 127 (CHR ''x'') @ CHR 0x0A # ''log info'')) [] = [replicate 127 (CHR ''x'')]"
  by (subst long_line_ends_script) (simp_all add: eol_def)

subsection \<open>The editor\<close>

text \<open>
  C17. Typed characters, the arrow keys, Home, End, Backspace and Delete, sent as the bytes and escape
  sequences of a terminal, edit a line the way a text with a cursor is edited; Enter then runs
  exactly that text, files it in the history and leaves an empty line, and the commands see nothing
  before.
\<close>

theorem keys_edit_the_line:
  assumes start: "fresh S" and keys: "list_all typable ks" "length ks \<le> EDIT_MAX"
    and typed: "fold refKey ks ([], []) = (left, right)" "left @ right \<noteq> []"
    and proc: "proc = (\<lambda>line S. S\<lparr>ss_sys := f line (ss_sys S)\<rparr>)"
    and S2: "S2 = editChars E T proc (concat (map keyBytes ks) @ [CHR 0x0D]) S"
  shows "ss_sys (editChars E T proc (concat (map keyBytes ks)) S) = ss_sys S \<and> ss_sys S2 = f (left @ right) (ss_sys S) \<and>
    ss_hist S2 = histAdd (left @ right) (ss_hist S) \<and> fresh S2"
proof -
  let ?S1 = "editChars E T proc (concat (map keyBytes ks)) S"
  have s: "e_esc (ss_edit S) = 0" "sess_ok S" "text_of (ss_edit S) = ([], [])" "length (e_buf (ss_edit S)) + length ks \<le> EDIT_MAX"
    using start keys(2) by (simp_all add: fresh_def edit_ok_def text_of_def)
  have p: "\<And>line S. sess_ok S \<Longrightarrow> sess_ok (proc line S)" by (simp add: proc)
  have k: "text_of (ss_edit ?S1) = (left, right)" "rest_kept S ?S1"
    using keys_text [OF s(1,2) keys(1) s(4) p, where E = E and T = T] s(3) typed(1) by simp_all
  have b: "e_buf (ss_edit ?S1) = left @ right" "e_esc (ss_edit ?S1) = 0"
    using k s(1) by (auto simp: text_of_def rest_kept_def)
  have "e_buf (ss_edit ?S1) \<noteq> []" using b(1) typed(2) by simp
  note enter = enter_runs [OF this b(2) proc, where E = E and T = T]
  have "S2 = cliEditChar E T proc (CHR 0x0D) ?S1" by (simp add: S2 editChars_append)
  then show ?thesis using enter k(2) b(1) by (simp add: rest_kept_def)
qed

definition demo_tab :: tab_env where
  "demo_tab = \<lparr>te_cmds = [''ls'', ''log''], te_resolve = Some, te_cwd = ''/'', te_list = (\<lambda>_. [])\<rparr>"

definition demo_session :: "string list edit_session" where
  "demo_session = \<lparr>ss_edit = edit0, ss_hist = [], ss_out = [], ss_close = False, ss_resume = False, ss_inCli = False, ss_sys = []\<rparr>"

theorem keys_edit_the_line_witness:
  "ss_sys (editChars \<lparr>ee_ansi = True, ee_color = False, ee_cols = 80, ee_prompt = ''x'', ee_usb = False\<rparr> demo_tab
     (\<lambda>line S. S\<lparr>ss_sys := ss_sys S @ [line]\<rparr>)
     (concat (map keyBytes [KChar (CHR ''s''), KHome, KChar (CHR ''x''), KBack, KChar (CHR ''l'')]) @ [CHR 0x0D]) demo_session) = [''ls'']"
  using keys_edit_the_line [of demo_session "[KChar (CHR ''s''), KHome, KChar (CHR ''x''), KBack, KChar (CHR ''l'')]" "''l''" "''s''"
    "\<lambda>line S. S\<lparr>ss_sys := ss_sys S @ [line]\<rparr>" "\<lambda>line s. s @ [line]" _
    "\<lparr>ee_ansi = True, ee_color = False, ee_cols = 80, ee_prompt = ''x'', ee_usb = False\<rparr>" demo_tab]
  by (simp add: demo_session_def edit0_def fresh_def EDIT_MAX_def del: editChars.simps)

subsection \<open>The password gate\<close>

text \<open>A slot that asks for the password and has not had it.\<close>

definition gated :: "cli_slot \<Rightarrow> bool" where
  "gated cl \<longleftrightarrow> cl_login cl \<and> \<not> cl_authed cl"

lemma itsCliWrite_gated [simp]: "gated (itsCliWrite d cl) = gated cl"
  by (simp add: itsCliWrite_def gated_def)

lemma gated_upd [simp]:
  "gated (cl\<lparr>cl_pwBuf := p\<rparr>) = gated cl" "gated (cl\<lparr>cl_pwTries := n\<rparr>) = gated cl" "gated (cl\<lparr>cl_close := b\<rparr>) = gated cl"
  by (simp_all add: gated_def)

lemma loginEdit_gated: "gated (loginEdit c cl) = gated cl"
  by (simp add: loginEdit_def Let_def)

lemma loginLine_gated:
  assumes "gated cl" "\<not> fst (ci_auth io (cl_pwBuf cl) s)"
  shows "gated (fst (snd (loginLine io cl s))) \<and> snd (snd (loginLine io cl s)) = snd (ci_auth io (cl_pwBuf cl) s)"
  using assms by (cases "ci_auth io (cl_pwBuf cl) s") (simp add: loginLine_def Let_def)

text \<open>What \<open>authLogin\<close> and the note of a human keep of the rest of the system.\<close>

definition sys_keeps :: "('a \<Rightarrow> bool) \<Rightarrow> 'a cli_io \<Rightarrow> bool" where
  "sys_keeps P io \<longleftrightarrow> (\<forall>s. P s \<longrightarrow> P (ci_human io s) \<and> (\<forall>pw. P (snd (ci_auth io pw s))))"

lemma loginByte_gated:
  assumes "gated cl" "\<forall>pw s. \<not> fst (ci_auth io pw s)" "sys_keeps P io" "P s"
  shows "gated (fst (snd (loginByte io c cl s))) \<and> P (snd (snd (loginByte io c cl s)))"
  using assms loginEdit_gated [of c cl] loginLine_gated [of cl io s] by (simp add: loginByte_def sys_keeps_def)

lemma login_gated:
  assumes "gated (fst x)" "P (snd x)" "\<forall>pw s. \<not> fst (ci_auth io pw s)" "sys_keeps P io"
  shows "gated (fst (cliHandleLoginInput io cs x)) \<and> P (snd (cliHandleLoginInput io cs x))"
  using assms(1,2)
proof (induction cs arbitrary: x)
  case (Cons c cs)
  obtain stop y where r: "loginByte io c (fst x) (snd x) = (stop, y)" by (cases "loginByte io c (fst x) (snd x)")
  have "gated (fst y) \<and> P (snd y)" using loginByte_gated [OF Cons.prems(1) assms(3,4) Cons.prems(2), of c] r by simp
  then show ?case using Cons.IH [of y] r by simp
qed simp

text \<open>
  C9. The password gate: as long as \<open>authLogin\<close> accepts no password, no sequence of inputs on a slot
  that asks for one reaches a command. Whatever the commands would do, the state is the same; the
  slot stays locked, the history and the other slots are untouched, and of the rest of the system
  everything is kept that the password checks and the note of a human at the console keep.
\<close>

theorem gate_holds:
  assumes slot: "i < length (cs_slots st)" "gated (cs_slots st ! i)"
    and rejects: "\<forall>io \<in> set ios. \<forall>pw s. \<not> fst (ci_auth io pw s)"
    and keeps: "\<forall>io \<in> set ios. sys_keeps P io" "P (cs_sys st)"
    and st2: "st2 = fold (\<lambda>io. slotInput io eproc lproc i) ios st"
  shows "st2 = fold (\<lambda>io. slotInput io eproc2 lproc2 i) ios st \<and> P (cs_sys st2) \<and> cs_hist st2 = cs_hist st \<and>
    gated (cs_slots st2 ! i) \<and> (\<forall>j. j \<noteq> i \<longrightarrow> cs_slots st2 ! j = cs_slots st ! j)"
  unfolding st2 using slot rejects keeps
proof (induction ios arbitrary: st)
  case (Cons io ios)
  let ?st = "slotInput io eproc lproc i st" and ?s = "ci_human io (cs_sys st)"
  let ?r = "cliHandleLoginInput io (ci_recv io i) (cs_slots st ! i, ?s)"
  have h: "P ?s" using Cons.prems(4,5) by (simp add: sys_keeps_def)
  have g: "gated (fst ?r)" "P (snd ?r)" using login_gated [of "(cs_slots st ! i, ?s)" P io] Cons.prems h by simp_all
  have gate: "cl_login (cs_slots st ! i)" "\<not> cl_authed (cs_slots st ! i)" using Cons.prems(2) by (simp_all add: gated_def)
  have "?st = slotInput io eproc2 lproc2 i st" using gate by (simp add: slotInput_def Let_def)
  moreover have "?st = st \<or> ?st = st\<lparr>cs_slots := (cs_slots st)[i := fst ?r], cs_sys := snd ?r\<rparr>"
    using gate by (auto simp: slotInput_def pairBytes_def Let_def split: prod.split)
  then have "i < length (cs_slots ?st) \<and> gated (cs_slots ?st ! i) \<and> P (cs_sys ?st) \<and> cs_hist ?st = cs_hist st \<and>
      (\<forall>j. j \<noteq> i \<longrightarrow> cs_slots ?st ! j = cs_slots st ! j)"
    using g Cons.prems(1,2,5) by auto
  ultimately show ?case using Cons.IH [of ?st] Cons.prems(3,4) by auto
qed simp

definition demo_io :: "(string \<Rightarrow> bool) \<Rightarrow> string \<Rightarrow> bool \<Rightarrow> string list cli_io" where
  "demo_io ok bytes drained = \<lparr>ci_prompt = ''x'', ci_isdir = (\<lambda>_. True), ci_start = ''/'',
     ci_auth = (\<lambda>pw s. (ok pw, if ok pw then s else s @ [''failed login''])), ci_human = (\<lambda>s. s @ [''human'']),
     ci_tab = (\<lambda>_. demo_tab), ci_connected = (\<lambda>_. True), ci_recv = (\<lambda>i. if i = 0 then bytes else []), ci_drained = (\<lambda>_. drained)\<rparr>"

definition demo_cli :: "string list cli_state" where
  "demo_cli = \<lparr>cs_slots = replicate CLI_MAX_CLIENTS slot0, cs_hist = [], cs_persist = [], cs_resume = False, cs_inCli = False, cs_sys = []\<rparr>"

definition demo_login :: "string list cli_state" where
  "demo_login = snd (cliTcpConnect (demo_io (\<lambda>_. False) [] True) 5
     (Descriptor \<lparr>cc_mode = CLI_LINE, cc_usb = False, cc_color = False, cc_noPrompt = False, cc_login = True\<rparr>) demo_cli)"

definition demo_lproc :: "string \<Rightarrow> cli_slot \<times> string list \<Rightarrow> cli_slot \<times> string list" where
  "demo_lproc line x = (fst x, snd x @ [line])"

lemma demo_login_gated: "0 < length (cs_slots demo_login)" "gated (cs_slots demo_login ! 0)" "cs_sys demo_login = []"
  by code_simp+

definition demo_ios :: "string list cli_io list" where
  "demo_ios = [demo_io (\<lambda>_. False) (''secret'' @ CRLF @ ''ls'' @ CRLF) True, demo_io (\<lambda>_. False) (''ls'' @ CRLF) True]"

text \<open>The system records the checks, the notes and the commands; the command is not among them.\<close>

theorem gate_holds_witness: "''ls'' \<notin> set (cs_sys (fold (\<lambda>io. slotInput io (\<lambda>_ S. S) demo_lproc 0) demo_ios demo_login))"
proof -
  let ?P = "\<lambda>s :: string list. ''ls'' \<notin> set s"
  have r: "\<forall>io \<in> set demo_ios. \<forall>pw s. \<not> fst (ci_auth io pw s)" "\<forall>io \<in> set demo_ios. sys_keeps ?P io"
    by (simp_all add: demo_ios_def demo_io_def sys_keeps_def)
  have p: "?P (cs_sys demo_login)" by (simp add: demo_login_gated(3))
  show ?thesis
    by (rule gate_holds [where eproc = "\<lambda>_ S. S" and lproc = demo_lproc and P = ?P, OF demo_login_gated(1,2) r p refl, THEN conjunct2, THEN conjunct1])
qed

text \<open>
  Three wrong passwords do not end the session by themselves: while the message about them has
  not been read off the stream, the gate still takes passwords, and a right one opens the slot and
  runs the command behind it.
\<close>

theorem fourth_password_accepted:
  "last (cs_sys (fold (\<lambda>bytes. cliPass (demo_io (\<lambda>pw. pw = ''pw'') (bytes @ [CHR 0x0A]) False) (\<lambda>_ S. S) demo_lproc)
     [''a'', ''b'', ''c'', ''pw'', ''reboot''] demo_login)) = ''reboot''"
  by code_simp

end
