(* ===== verification/Spec2Isabelle.thy ===== *)
theory Spec2Isabelle
  imports Targz_Archive Cron_Sched Sdb_Limits Sdb_Migrate Storage_Bracket Storage_Props Auth_Props Its_Props
    Spanfs_Props Log_Cmd Cli_Props
begin

text \<open>
  \<^bold>\<open>A verification of the core of the spangap firmware\<close>

  The firmware is a set of FreeRTOS tasks on one chip (\<open>src/esp-idf/src\<close>). Its tasks talk over
  \<^emph>\<open>inter-task streams\<close> (\<open>its.cpp\<close>): connections between two tasks, each a pair of stream buffers
  or of packet links, and a mailbox per task. The \<^emph>\<open>configuration store\<close> (\<open>storage.cpp\<close>) is an
  actor that owns a tree of settings addressed by dot-paths: every write of any task becomes an
  operation of a list the actor applies as one batch, and every change is fanned out to the
  tasks that subscribed. Keys that match the pattern of a registered \<^emph>\<open>record store\<close>
  (\<open>storage_db.cpp\<close>) are routed to a packed arena of records with its own file. \<^emph>\<open>Realms and
  sessions\<close> (\<open>auth.cpp\<close>) keep their tables in the tree; the \<^emph>\<open>scheduler\<close> (\<open>cron.cpp\<close>) reads its
  entries from it and sends their commands to the command line; \<^emph>\<open>archives\<close> (\<open>targz.cpp\<close>) carry
  the backups of the settings. The \<^emph>\<open>read-only file system\<close> (\<open>components/spanfs\<close>) serves the files
  packed into the flash at build time. The \<^emph>\<open>log\<close> (\<open>log.cpp\<close>) takes the lines of every task into a
  ring and hands them to clients and a file; the \<^emph>\<open>command line\<close> (\<open>cli.cpp\<close>) reads lines from
  terminals, streams, scripts and the scheduler and runs the registered commands. These nine are
  modelled, storage and the command line in part.

  \<^bold>\<open>Conventions\<close>

  A structure of the code is a record, an enumeration a datatype, a table the list of its rows, a
  pointer to a row its index. Integers keep their width where it matters: \<open>u32\<close> and \<open>u64\<close> are
  words, \<open>size_t\<close> sums and the \<open>uint16_t\<close> members of a schema are naturals with the wrap-around
  written out. A function that reads or writes state takes the state and returns it. An error
  the code reports is a value of the result (an error code, a boolean or an option), as in
  the code. An outer \<open>None\<close> has one meaning throughout: undefined behaviour (an access outside a
  buffer, the use of a null handle, a block freed twice) or a loop that never returns. A result
  \<open>Some\<close> is therefore a proof of memory safety and of termination together. Loops that may run
  for ever are \<open>partial_function (option)\<close>; no operation has fuel, except the search of
  \<open>cronNextRun\<close>, whose iteration guard is in the source and is shown never to be reached.

  Code outside the repository is an argument of the definitions that use it, and what is relied
  on is a named hypothesis: the compressor of the ROM (\<open>inflate_lib\<close>, \<open>deflate_lib\<close>, \<open>gz_codec\<close>),
  the local time of the C library (\<open>tz_lib\<close>), the comparison of names, the parser and the printer of
  cJSON (\<open>storage_env\<close>; \<open>name_cmp\<close>), SHA-256, the random bytes and the clocks (\<open>auth_call\<close>), the
  answers of the heap (\<open>sdb_heap\<close>, \<open>malloc_laws\<close>), stream buffers and queues of FreeRTOS (\<open>sb_laws\<close>,
  \<open>q_laws\<close>), the other tasks and the callbacks (\<open>env_ok\<close>, \<open>callbacks_local\<close>), the advance of time while
  a task is blocked and how often it is woken within a tick (\<open>clock_runs\<close>), the room the reader of
  the command stream leaves the scheduler (\<open>env_room\<close>), the flash partitions (\<open>part_lib\<close>), the hook of
  ESP-IDF, the clock and the file service as the log sees them (\<open>log_env\<close>, \<open>log_io\<close>), what the cli task
  asks of its streams, of the password check and of the note of a human at the console (\<open>cli_io\<close>) and
  the commands it runs (\<open>cli_sys\<close>), and the file system. The witnesses instantiate each with concrete
  functions that satisfy the hypothesis.

  \<^bold>\<open>Shared theories\<close>

  \<open>Prelude\<close> has the collections of rewrite rules and the facts about lists, bytes and words;
  \<open>C_String\<close> the functions of the C library on strings; \<open>Stream_Consumer\<close> the contract of a
  component that is fed a stream in pieces.

  \<^bold>\<open>Archives, targz.cpp\<close>

  \<open>Targz_Header\<close> (the ustar block, octal numbers, checksum, the check of names), \<open>Targz_Tar\<close> (the
  parser: \<open>tarConsume\<close>, \<open>tarHeader\<close>), \<open>Targz_Reader\<close> (\<open>targzReaderOpen\<close>, \<open>targzReaderFeed\<close>,
  \<open>targzReaderFinish\<close> with gzip framing and the inflate loop) and \<open>Targz_Writer\<close> are the model. \<open>tar_sink\<close>
  is the interface to the extraction callbacks; it extends \<open>stream_consumer\<close> and is interpreted on
  the in-memory target of \<open>Targz_Extract\<close>. \<open>Targz_Complete\<close> runs the reader over a whole stream and
  \<open>Targz_Archive\<close> has the properties: what a session of the writer produces is restored, however the
  stream is cut; success means that checksum and length match; no unsafe name reaches a callback.

  \<^bold>\<open>Scheduler, cron.cpp\<close>

  \<open>Cron\<close> is the model. \<open>Cron_Field\<close> gives a field a grammar and a meaning and proves the matcher
  equivalent to it; \<open>Cron_Next\<close> shows that the search returns the first matching minute in a zone of
  fixed offset; \<open>Cron_Sched\<close> that polls at any times fire each entry exactly for the minutes that
  match when the command stream is emptied in time, that the deep-sleep lock is balanced, and what the tokenizer and the drain of commands do.

  \<^bold>\<open>Record stores, storage_db.cpp\<close>

  \<open>Sdb_Schema\<close>, \<open>Sdb_Store\<close> and \<open>Sdb_File\<close> are the model: layouts and their descriptors, the arena with
  its index, the files. \<open>Sdb_Rep\<close> says which list of records an arena represents; \<open>Sdb_Append\<close>,
  \<open>Sdb_Access\<close> and \<open>Sdb_Set\<close> refine the operations to that list. \<open>Sdb_Contract\<close> states what a client
  relies on as the locale \<open>record_store\<close> and interprets it on the store. \<open>Sdb_Persist\<close>, \<open>Sdb_Props\<close>,
  \<open>Sdb_Limits\<close> and \<open>Sdb_Migrate\<close> have round trips through the file, histories of operations, the
  behaviour without memory and at the cap, compaction against its reference, the atomicity of a
  flush and the migration of layouts, and the inputs on which the code falls short.

  \<^bold>\<open>Configuration store, storage.cpp\<close>

  \<open>Sdb_Route\<close> is the registry of record stores and the routing of keys, with its lemmas in
  \<open>Sdb_Route_Props\<close>. \<open>Storage_Tree\<close> is the tree (navigation, merge, walks, dirty marks), \<open>Storage_Subs\<close> the
  subscriptions, the notification queue and its messages, \<open>Storage_Ops\<close> the operation lists, the
  brackets and the apply pipeline, \<open>Storage_Api\<close> the public readers, writers and commands.
  \<open>Storage_Merge\<close> has the laws of the tree over the locale \<open>name_cmp\<close>, interpreted on the
  case-insensitive comparison of cJSON; \<open>Storage_Codec\<close> shows that what the API encodes the actor
  parses; \<open>Storage_Props\<close> that a key reads back what was set and the keys beside it keep their
  values, and that a change reaches exactly the subscribers of its scope; \<open>Storage_Bracket\<close>
  that the writes of a bracket reach the actor as one list.

  \<^bold>\<open>Realms and sessions, auth.cpp\<close>

  \<open>Auth\<close> is the model, over \<open>Storage_Api\<close>. \<open>Auth_Hash\<close> is about hashes and the wait after failures;
  \<open>Auth_Table\<close> reads the tables through the tree, with the locale \<open>row_table\<close> for a search in rows
  and its interpretation on the cookies; \<open>Auth_Props\<close> has the login, the check, the change of password
  and the eviction.

  \<^bold>\<open>Inter-task streams, its.cpp\<close>

  \<open>Its_State\<close> is the state: pool of buffers, links, connection table, registry of tasks, and the
  heap as a store of blocks. \<open>Its_Pool\<close> (\<open>poolGet\<close>, \<open>linkAcquire\<close>, \<open>connFree\<close>), \<open>Its_Link\<close> (resolution of
  handles, sending and receiving over a link), \<open>Its_Task\<close> (registry and mailboxes), \<open>Its_Msg\<close> (the
  dispatch of messages and of receive callbacks), \<open>Its_Api\<close> (serving, connecting, forwarding, aux
  messages) and \<open>Its_Data\<close> (\<open>itsSend\<close>, \<open>itsRecv\<close> and their kin) are the operations. Interleaving is
  explicit: a caller that blocks passes the state to what the other tasks do meanwhile, and
  \<open>its_step\<close> is one call of any task.

  \<open>Its_Ring\<close> reads a ring as the list of its descriptors. \<open>Its_Channel\<close> is the interface of a packet
  connection, the locale \<open>message_channel\<close>: for every interleaving of the two ends each accepted
  message is taken by exactly one receive, in order, and returned whole if the buffer holds it; \<open>Its_Packet\<close> interprets it on packet links and \<open>Its_Legacy\<close> on
  packets framed inside a stream buffer. \<open>Its_Owner\<close> follows the ownership of blocks through the
  zero-copy calls and the teardown. \<open>Its_Inv\<close>, \<open>Its_Steps\<close> and \<open>Its_Reach\<close> carry the invariant of the
  tables through every call to every reachable state: open connections share no buffer and no link.
  \<open>Its_Cancel\<close> shows that a cancelled connect leaves nothing behind, \<open>Its_Wait\<close> that waiting for space
  ends. \<open>Its_Demo\<close> is a device on which the hypotheses hold and a handshake is evaluated;
  \<open>Its_Props\<close> has the properties.

  \<^bold>\<open>Read-only file system, components/spanfs\<close>

  \<open>Spanfs\<close> is \<open>spanfs.c\<close> (\<open>spanfs_open_mem\<close> with its checks, the lookup, the enumeration), \<open>Spanfs_Vfs\<close>
  is \<open>spanfs_esp.c\<close> (partitions, the tables of open files and directories, the POSIX calls, mounting)
  and \<open>Spanfs_Pack\<close> the packer \<open>mkspanfs.py\<close>. \<open>Spanfs_Image\<close> has the order of paths as the locale
  \<open>path_order\<close>, interpreted on the comparison the lookup uses, and proves the binary search over it.
  \<open>Spanfs_Files\<close> refines the calls to files with positions, \<open>Spanfs_List\<close> is about reading
  directories, \<open>Spanfs_Props\<close> has the properties: a packed image reads back, no image whose announced
  index is below 4 GB makes the reader leave it (and a concrete larger one does), the calls on a
  mounted image refine the reference, and a listing is complete.

  \<^bold>\<open>Log, log.cpp\<close>

  \<open>Log_Text\<close> (levels, colours, rules, the reformatting of a line), \<open>Log_Task\<close> (the ring, the hook, the
  log file, the clients and the lines they send in, the scroll-back, a pass of the task) and
  \<open>Log_Cmd\<close> (the start of the task, the levels of tags and the commands) are the model. \<open>Log_Ring\<close>
  states the ring as the locale \<open>bounded_queue\<close> and interprets it on \<open>logRingWrite\<close> and \<open>logRingRead\<close>,
  with their wrapping 32-bit counters. \<open>Log_Pass\<close> says what a drain hands to each client and to the
  file, and interprets \<open>stream_consumer\<close> on the assembly of the lines clients send in;
  \<open>Log_Lines\<close> has the lines of ESP-IDF and the lengths of their reformatted versions. \<open>Log_Props\<close>
  has the properties: the ring is a queue, a line reaches every client in its form, a
  backlog is drained, inbound lines do not depend on how they are cut, buffers hold every line up to
  961 characters (and a line leaves them exactly when it is rendered to more than 1056 bytes), and what the scroll-back sends.

  \<^bold>\<open>Command line, cli.cpp\<close>

  \<open>Cli_Path\<close> is the working directory and the resolution of
  paths, against the list of components as a reference; \<open>Cli_Proc\<close> the settings a command reads, the registry, aliases, the
  dispatch of a line and scripts; \<open>Cli_Edit\<close> the line editor with history and completion;
  \<open>Cli_Session\<close> the slots, the connects, the password gate, line mode and a pass of the task.
  \<open>Cli_Edit_Ref\<close> refines the editor to a text with a cursor. \<open>Cli_Props\<close> has the properties: paths,
  parts of a line, aliases, scripts, the editor, and that the gate lets nothing through.

  \<^bold>\<open>Not modelled\<close>

  The rest of storage.cpp is input and output: it reads and writes the settings files and backups
  as cJSON texts, mirrors the tree to a browser and runs the tasks. The printing of tables
  (\<open>itsStatus\<close>, listings of commands) and log lines are left out. The file layer (\<open>fs.cpp\<close>) and the
  commands over it (\<open>cli_cmd_*.cpp\<close>) are sessions over tasks and POSIX calls. Of the command line
  the serial task, which moves bytes between USB ports and the streams and answers framed calls, and
  the reads a command makes from its session are left out; of the log the debugging aids. Power
  management, start-up, USB, buses, board detection, random numbers and the allocation hooks drive
  hardware or wrap library calls. \<open>timezones_gen.c\<close> is a generated table. The next candidates are
  the message protocol of the file worker in \<open>fs.cpp\<close> and the framed calls of the serial task.
  Preemption inside a critical section, caches and the trigger level of a stream buffer are below
  the model: an operation under a lock is one step.
\<close>

end
